(* ===== verification/Prelude.thy ===== *)
theory Prelude
  imports "HOL-Library.Word" "HOL-Library.Multiset"
begin

text \<open>
  Shared vocabulary of the development: the fixed-width integer types of the
  C++ sources, the fact collections the component theories extend, and the
  generic lemmas on bit masks, function iteration and folds that carry their
  proofs.

  Conventions. \<open>uint8_t\<close>, \<open>uint16_t\<close>, \<open>uint32_t\<close> and \<open>uint64_t\<close> are the word types
  below, so \<open>+\<close> and \<open>-\<close> wrap as they do in C++. \<open>a & b\<close> is \<open>a AND b\<close>,
  \<open>a >> n\<close> is \<open>drop_bit n a\<close>, \<open>a << n\<close> is \<open>push_bit n a\<close>, and a
  \<open>static_cast\<close> between widths is \<open>ucast\<close>. A C array \<open>T a[N]\<close> is a
  function \<open>nat \<Rightarrow> T\<close> (or a function on the address word when the array covers the
  whole address space); that indices stay below N is stated as an invariant.
\<close>

unbundle bit_operations_syntax

type_synonym u8 = "8 word"
type_synonym u16 = "16 word"
type_synonym u32 = "32 word"
type_synonym u64 = "64 word"

text \<open>Equations that turn a C bit mask into \<open>take_bit\<close>, \<open>mod\<close> or \<open>bit\<close>.\<close>
named_theorems mask_simps

text \<open>Facts that the invariants of the components are preserved.\<close>
named_theorems inv_intros

text \<open>The unfolding equations of per-cycle tick functions.\<close>
named_theorems tick_defs

subsection \<open>Masks\<close>

lemma and_low_mask8 [mask_simps]:
  fixes x :: u8
  shows "x AND 1 = take_bit 1 x" "x AND 3 = take_bit 2 x" "x AND 7 = take_bit 3 x"
    "x AND 0x0F = take_bit 4 x" "x AND 0x1F = take_bit 5 x" "x AND 0x3F = take_bit 6 x"
    "x AND 0x7F = take_bit 7 x"
  by (simp_all add: take_bit_eq_mask mask_eq_exp_minus_1)

lemma and_low_mask16 [mask_simps]:
  fixes x :: u16
  shows "x AND 7 = take_bit 3 x" "x AND 0xFF = take_bit 8 x" "x AND 0x1FFF = take_bit 13 x"
    "x AND 0x3FFF = take_bit 14 x" "x AND 0x0FFF = take_bit 12 x" "x AND 0x0F = take_bit 4 x"
  by (simp_all add: take_bit_eq_mask mask_eq_exp_minus_1)

lemma and_single_bit8 [mask_simps]:
  fixes x :: u8
  shows "x AND 0x02 = 0 \<longleftrightarrow> \<not> bit x 1" "x AND 0x04 = 0 \<longleftrightarrow> \<not> bit x 2"
    "x AND 0x08 = 0 \<longleftrightarrow> \<not> bit x 3" "x AND 0x10 = 0 \<longleftrightarrow> \<not> bit x 4"
    "x AND 0x20 = 0 \<longleftrightarrow> \<not> bit x 5" "x AND 0x40 = 0 \<longleftrightarrow> \<not> bit x 6"
    "x AND 0x80 = 0 \<longleftrightarrow> \<not> bit x 7"
  using and_exp_eq_0_iff_not_bit [of x 1] and_exp_eq_0_iff_not_bit [of x 2]
    and_exp_eq_0_iff_not_bit [of x 3] and_exp_eq_0_iff_not_bit [of x 4]
    and_exp_eq_0_iff_not_bit [of x 5] and_exp_eq_0_iff_not_bit [of x 6]
    and_exp_eq_0_iff_not_bit [of x 7]
  by simp_all

lemma and_all_ones8 [simp]: "(x :: u8) AND 0xFF = x"
proof -
  have "(0xFF :: u8) = - 1" by simp
  then show ?thesis by (simp only: and.right_neutral)
qed

lemma unat_take_bit: "unat (take_bit n (x :: 'a::len word)) = unat x mod 2 ^ n"
  unfolding unsigned_take_bit_eq by (rule take_bit_eq_mod)

lemma unat_drop_bit: "unat (drop_bit n (x :: 'a::len word)) = unat x div 2 ^ n"
  unfolding unat_drop_bit_eq by (rule drop_bit_eq_div)

lemma unat_take_bit_less [simp]: "unat (take_bit n (x :: 'a::len word)) < 2 ^ n"
  by (simp only: unat_take_bit) simp

lemma unat_less_256 [simp]: "unat (x :: u8) < 256"
  using unsigned_less [of x] by simp

lemma unat_less_65536 [simp]: "unat (x :: u16) < 65536"
  using unsigned_less [of x] by simp

lemma take_bit_add_left:
  "take_bit n (take_bit n (a :: 'a::len word) + b) = take_bit n (a + b)"
proof (cases "n \<le> LENGTH('a)")
  case True
  then have "(2 :: nat) ^ n dvd 2 ^ LENGTH('a)"
    by (rule le_imp_power_dvd)
  then show ?thesis
    by (simp add: word_unat_eq_iff unat_take_bit unat_word_ariths mod_mod_cancel mod_add_left_eq)
next
  case False
  then show ?thesis
    by (simp add: take_bit_word_eq_self)
qed

lemma word_le_of_unat: "unat (x :: 'a::len word) \<le> unat y \<Longrightarrow> x \<le> y"
  by (simp add: word_le_nat_alt)

subsection \<open>Values of a given width\<close>

text \<open>\<open>fits n x\<close>: the value occupies at most the low \<open>n\<close> bits, the form in which
  register widths appear in the invariants.\<close>

definition fits :: "nat \<Rightarrow> 'a::len word \<Rightarrow> bool" where
  "fits n x \<longleftrightarrow> take_bit n x = x"

lemma fits_unat: "fits n x \<Longrightarrow> unat x < 2 ^ n"
  by (metis fits_def unat_take_bit_less)

lemma fits_zero [simp]: "fits n 0"
  by (simp add: fits_def)

lemma fits_take_bit: "m \<le> n \<Longrightarrow> fits n (take_bit m x)"
  by (simp add: fits_def min_def)

lemma fits_mono: "fits m x \<Longrightarrow> m \<le> n \<Longrightarrow> fits n x"
  by (metis fits_def fits_take_bit)

lemma fits_and: "fits n x \<or> fits n y \<Longrightarrow> fits n (x AND y)"
  by (rule bit_word_eqI [of "take_bit n (x AND y)" "x AND y", folded fits_def])
    (auto simp: fits_def bit_take_bit_iff bit_and_iff dest: arg_cong [where f = "\<lambda>z. bit z _"])

lemma fits_or: "fits n x \<Longrightarrow> fits n y \<Longrightarrow> fits n (x OR y)"
  by (simp add: fits_def)

lemma fits_push_bit: "fits m x \<Longrightarrow> m + k \<le> n \<Longrightarrow> fits n (push_bit k x)"
  using fits_mono [of m x "n - k"] by (simp add: fits_def take_bit_push_bit)

lemma fits_drop_bit: "fits m x \<Longrightarrow> m \<le> n + k \<Longrightarrow> fits n (drop_bit k x)"
proof -
  assume m: "fits m x" and n: "m \<le> n + k"
  have "drop_bit k x = drop_bit k (take_bit (n + k) x)"
    using m n by (metis fits_def fits_take_bit)
  also have "\<dots> = take_bit n (drop_bit k x)"
    by (simp add: take_bit_drop_bit)
  finally show ?thesis
    by (simp add: fits_def)
qed

lemma fits_ucast: "fits n x \<Longrightarrow> fits n (ucast x)"
  by (metis fits_def unsigned_take_bit_eq)

lemma fits_iff_unat: "fits n (x :: 'a::len word) \<longleftrightarrow> unat x < 2 ^ n"
proof -
  have "unat x mod 2 ^ n = unat x \<longleftrightarrow> unat x < 2 ^ n"
    by (metis mod_less mod_less_divisor zero_less_numeral zero_less_power)
  then show ?thesis
    by (simp add: fits_def word_unat_eq_iff unat_take_bit)
qed

lemma fits_pred: "fits n x \<Longrightarrow> x > 0 \<Longrightarrow> fits n (x - 1)"
  by (simp add: fits_iff_unat unat_minus_one word_gt_0)

lemma fits_u8 [simp]: "8 \<le> n \<Longrightarrow> fits n (x :: u8)"
  by (simp add: fits_def take_bit_word_eq_self)

subsection \<open>Bit by bit\<close>

lemma word16_eqI:
  fixes a b :: u16
  assumes "bit a 0 = bit b 0" "bit a 1 = bit b 1" "bit a 2 = bit b 2" "bit a 3 = bit b 3"
   "bit a 4 = bit b 4" "bit a 5 = bit b 5" "bit a 6 = bit b 6" "bit a 7 = bit b 7"
   "bit a 8 = bit b 8" "bit a 9 = bit b 9" "bit a 10 = bit b 10" "bit a 11 = bit b 11"
   "bit a 12 = bit b 12" "bit a 13 = bit b 13" "bit a 14 = bit b 14" "bit a 15 = bit b 15"
  shows "a = b"
proof (rule bit_word_eqI)
  fix n assume "n < LENGTH(16)"
  then have "n \<in> {15, 14, 13, 12, 11, 10, 9, 8, 7, 6, 5, 4, 3, 2, 1, 0}"
    by simp presburger
  then show "bit a n = bit b n" using assms by fastforce
qed

subsection \<open>Iteration and folds\<close>

lemma funpow_idem:
  assumes "\<And>x. f (f x) = f x"
  shows "(f ^^ Suc n) x = f x"
  by (induction n) (simp_all add: assms)

lemma fold_inv:
  assumes "P s" and "\<And>x s. x \<in> set xs \<Longrightarrow> P s \<Longrightarrow> P (f x s)"
  shows "P (fold f xs s)"
  using assms by (induction xs arbitrary: s) auto

lemma funpow_inv:
  assumes "P s" and "\<And>s. P s \<Longrightarrow> P (f s)"
  shows "P ((f ^^ n) s)"
  by (induction n) (simp_all add: assms)

end
