(* ===== verification/Buses.thy ===== *)
theory Buses
  imports Prelude
begin

text \<open>
  The system buses of \<open>src/src/hw/buses.h\<close>: one record per C struct, lines active-high,
  with the C field \<open>x\<close> of \<open>CpuBus\<close> called \<open>cpu_x\<close> and so on. Device code
  writes \<open>out->cpu.data = v\<close>; here each driven line is one value of the datatype
  \<open>asg\<close> and \<open>apply_asg\<close> performs the assignment, so that the lines a device drives
  in a cycle are a list that can be compared with what another device drives.
\<close>

record CpuBus =
  cpu_addr :: u16
  cpu_data :: u8
  cpu_m1 :: bool
  cpu_mreq :: bool
  cpu_iorq :: bool
  cpu_rd :: bool
  cpu_wr :: bool
  cpu_rfsh :: bool
  cpu_halt :: bool
  cpu_wait :: bool
  cpu_irq :: bool
  cpu_nmi :: bool
  cpu_reset :: bool
  cpu_busrq :: bool
  cpu_busak :: bool
  cpu_romdis :: bool
  cpu_ramdis :: bool

record VidBus =
  vid_ma :: u16
  vid_ra :: u8
  vid_hsync :: bool
  vid_hsw :: u8
  vid_vsync :: bool
  vid_dispen :: bool
  vid_cursor :: bool
  vid_frame_line :: u16

record RamBus =
  ram_addr :: u16
  ram_data :: u8
  ram_fetch :: bool

record AyBus =
  ay_da :: u8
  ay_bdir :: bool
  ay_bc1 :: bool
  ay_kbd_row :: u8
  ay_row_ext :: u8

record TapeBus =
  tape_rdata :: bool
  tape_motor :: bool
  tape_wdata :: bool

record SerialBus =
  serial_txd :: bool
  serial_rxd :: bool

record PenBus =
  pen_strobe :: bool

record Clocks =
  clk_cpu :: bool
  clk_crtc :: bool
  clk_psg :: bool
  clk_phase :: u8

record Bus =
  b_cpu :: CpuBus
  b_vid :: VidBus
  b_ram :: RamBus
  b_ay :: AyBus
  b_tape :: TapeBus
  b_serial :: SerialBus
  b_pen :: PenBus
  b_clk :: Clocks

text \<open>\<open>bus_resting\<close> of \<open>board.cpp\<close>: all lines deasserted, the data buses and the
  external matrix columns pulled up, the serial lines at mark.\<close>

definition bus_resting :: Bus where
  "bus_resting =
    \<lparr> b_cpu = \<lparr> cpu_addr = 0, cpu_data = 0xFF, cpu_m1 = False, cpu_mreq = False,
        cpu_iorq = False, cpu_rd = False, cpu_wr = False, cpu_rfsh = False, cpu_halt = False,
        cpu_wait = False, cpu_irq = False, cpu_nmi = False, cpu_reset = False,
        cpu_busrq = False, cpu_busak = False, cpu_romdis = False, cpu_ramdis = False \<rparr>,
      b_vid = \<lparr> vid_ma = 0, vid_ra = 0, vid_hsync = False, vid_hsw = 0, vid_vsync = False,
        vid_dispen = False, vid_cursor = False, vid_frame_line = 0 \<rparr>,
      b_ram = \<lparr> ram_addr = 0, ram_data = 0xFF, ram_fetch = False \<rparr>,
      b_ay = \<lparr> ay_da = 0, ay_bdir = False, ay_bc1 = False, ay_kbd_row = 0,
        ay_row_ext = 0xFF \<rparr>,
      b_tape = \<lparr> tape_rdata = False, tape_motor = False, tape_wdata = False \<rparr>,
      b_serial = \<lparr> serial_txd = True, serial_rxd = True \<rparr>,
      b_pen = \<lparr> pen_strobe = False \<rparr>,
      b_clk = \<lparr> clk_cpu = False, clk_crtc = False, clk_psg = False, clk_phase = 0 \<rparr> \<rparr>"

text \<open>An otherwise resting bus during the write strobes of an \<open>OUT (p),v\<close>.\<close>

definition io_write_bus :: "u16 \<Rightarrow> u8 \<Rightarrow> Bus" where
  "io_write_bus p v = bus_resting\<lparr>b_cpu := (b_cpu bus_resting)\<lparr>cpu_addr := p, cpu_data := v,
     cpu_iorq := True, cpu_wr := True\<rparr>\<rparr>"

lemma io_write_bus_simps [simp]:
  "cpu_addr (b_cpu (io_write_bus p v)) = p" "cpu_data (b_cpu (io_write_bus p v)) = v"
  "cpu_iorq (b_cpu (io_write_bus p v))" "cpu_wr (b_cpu (io_write_bus p v))"
  "\<not> cpu_m1 (b_cpu (io_write_bus p v))" "\<not> cpu_mreq (b_cpu (io_write_bus p v))"
  "\<not> cpu_rd (b_cpu (io_write_bus p v))" "\<not> clk_crtc (b_clk (io_write_bus p v))"
  "\<not> vid_hsync (b_vid (io_write_bus p v))" "vid_frame_line (b_vid (io_write_bus p v)) = 0"
  "\<not> vid_vsync (b_vid (io_write_bus p v))" "\<not> cpu_busak (b_cpu (io_write_bus p v))"
  "\<not> cpu_ramdis (b_cpu (io_write_bus p v))" "\<not> ram_fetch (b_ram (io_write_bus p v))"
  "\<not> clk_psg (b_clk (io_write_bus p v))" "\<not> pen_strobe (b_pen (io_write_bus p v))"
  by (simp_all add: io_write_bus_def bus_resting_def)

text \<open>One assignment to one line of the next bus. The constructors marked wired only
  assert a line (or, for the keyboard columns, pull bits low), so two devices may use
  them in the same cycle.\<close>

datatype asg =
    Dr_addr u16 | Dr_data u8 | Dr_mreq | Dr_rd
  | Dr_wait bool | Dr_irq | Dr_nmi | Dr_busrq | Dr_romdis | Dr_ramdis
  | Dr_ma u16 | Dr_ra u8 | Dr_hsync bool | Dr_hsw u8 | Dr_vsync bool | Dr_dispen bool
  | Dr_frame_line u16
  | Dr_ram_addr u16 | Dr_ram_data u8 | Dr_ram_fetch
  | Dr_ay_da u8 | Dr_ay_bdir bool | Dr_ay_bc1 bool | Dr_ay_kbd_row u8 | Dr_ay_row_ext u8
  | Dr_tape_motor bool | Dr_tape_wdata bool | Dr_strobe
  | Dr_clk bool bool bool u8
  | Dr_m1 bool | Dr_iorq bool | Dr_wr bool | Dr_rfsh bool | Dr_halt bool | Dr_busak bool
  | Dr_set_mreq bool | Dr_set_rd bool
  | Dr_tape_rdata bool | Dr_txd bool | Dr_rxd bool

primrec apply_asg :: "asg \<Rightarrow> Bus \<Rightarrow> Bus" where
  "apply_asg (Dr_addr v) b = b\<lparr>b_cpu := (b_cpu b)\<lparr>cpu_addr := v\<rparr>\<rparr>"
| "apply_asg (Dr_data v) b = b\<lparr>b_cpu := (b_cpu b)\<lparr>cpu_data := v\<rparr>\<rparr>"
| "apply_asg Dr_mreq b = b\<lparr>b_cpu := (b_cpu b)\<lparr>cpu_mreq := True\<rparr>\<rparr>"
| "apply_asg Dr_rd b = b\<lparr>b_cpu := (b_cpu b)\<lparr>cpu_rd := True\<rparr>\<rparr>"
| "apply_asg (Dr_wait v) b = b\<lparr>b_cpu := (b_cpu b)\<lparr>cpu_wait := v\<rparr>\<rparr>"
| "apply_asg Dr_irq b = b\<lparr>b_cpu := (b_cpu b)\<lparr>cpu_irq := True\<rparr>\<rparr>"
| "apply_asg Dr_nmi b = b\<lparr>b_cpu := (b_cpu b)\<lparr>cpu_nmi := True\<rparr>\<rparr>"
| "apply_asg Dr_busrq b = b\<lparr>b_cpu := (b_cpu b)\<lparr>cpu_busrq := True\<rparr>\<rparr>"
| "apply_asg Dr_romdis b = b\<lparr>b_cpu := (b_cpu b)\<lparr>cpu_romdis := True\<rparr>\<rparr>"
| "apply_asg Dr_ramdis b = b\<lparr>b_cpu := (b_cpu b)\<lparr>cpu_ramdis := True\<rparr>\<rparr>"
| "apply_asg (Dr_ma v) b = b\<lparr>b_vid := (b_vid b)\<lparr>vid_ma := v\<rparr>\<rparr>"
| "apply_asg (Dr_ra v) b = b\<lparr>b_vid := (b_vid b)\<lparr>vid_ra := v\<rparr>\<rparr>"
| "apply_asg (Dr_hsync v) b = b\<lparr>b_vid := (b_vid b)\<lparr>vid_hsync := v\<rparr>\<rparr>"
| "apply_asg (Dr_hsw v) b = b\<lparr>b_vid := (b_vid b)\<lparr>vid_hsw := v\<rparr>\<rparr>"
| "apply_asg (Dr_vsync v) b = b\<lparr>b_vid := (b_vid b)\<lparr>vid_vsync := v\<rparr>\<rparr>"
| "apply_asg (Dr_dispen v) b = b\<lparr>b_vid := (b_vid b)\<lparr>vid_dispen := v\<rparr>\<rparr>"
| "apply_asg (Dr_frame_line v) b = b\<lparr>b_vid := (b_vid b)\<lparr>vid_frame_line := v\<rparr>\<rparr>"
| "apply_asg (Dr_ram_addr v) b = b\<lparr>b_ram := (b_ram b)\<lparr>ram_addr := v\<rparr>\<rparr>"
| "apply_asg (Dr_ram_data v) b = b\<lparr>b_ram := (b_ram b)\<lparr>ram_data := v\<rparr>\<rparr>"
| "apply_asg Dr_ram_fetch b = b\<lparr>b_ram := (b_ram b)\<lparr>ram_fetch := True\<rparr>\<rparr>"
| "apply_asg (Dr_ay_da v) b = b\<lparr>b_ay := (b_ay b)\<lparr>ay_da := v\<rparr>\<rparr>"
| "apply_asg (Dr_ay_bdir v) b = b\<lparr>b_ay := (b_ay b)\<lparr>ay_bdir := v\<rparr>\<rparr>"
| "apply_asg (Dr_ay_bc1 v) b = b\<lparr>b_ay := (b_ay b)\<lparr>ay_bc1 := v\<rparr>\<rparr>"
| "apply_asg (Dr_ay_kbd_row v) b = b\<lparr>b_ay := (b_ay b)\<lparr>ay_kbd_row := v\<rparr>\<rparr>"
| "apply_asg (Dr_ay_row_ext v) b = b\<lparr>b_ay := (b_ay b)\<lparr>ay_row_ext := ay_row_ext (b_ay b) AND v\<rparr>\<rparr>"
| "apply_asg (Dr_tape_motor v) b = b\<lparr>b_tape := (b_tape b)\<lparr>tape_motor := v\<rparr>\<rparr>"
| "apply_asg (Dr_tape_wdata v) b = b\<lparr>b_tape := (b_tape b)\<lparr>tape_wdata := v\<rparr>\<rparr>"
| "apply_asg Dr_strobe b = b\<lparr>b_pen := (b_pen b)\<lparr>pen_strobe := True\<rparr>\<rparr>"
| "apply_asg (Dr_clk c r p ph) b =
     b\<lparr>b_clk := (b_clk b)\<lparr>clk_cpu := c, clk_crtc := r, clk_psg := p, clk_phase := ph\<rparr>\<rparr>"
| "apply_asg (Dr_m1 v) b = b\<lparr>b_cpu := (b_cpu b)\<lparr>cpu_m1 := v\<rparr>\<rparr>"
| "apply_asg (Dr_iorq v) b = b\<lparr>b_cpu := (b_cpu b)\<lparr>cpu_iorq := v\<rparr>\<rparr>"
| "apply_asg (Dr_wr v) b = b\<lparr>b_cpu := (b_cpu b)\<lparr>cpu_wr := v\<rparr>\<rparr>"
| "apply_asg (Dr_rfsh v) b = b\<lparr>b_cpu := (b_cpu b)\<lparr>cpu_rfsh := v\<rparr>\<rparr>"
| "apply_asg (Dr_halt v) b = b\<lparr>b_cpu := (b_cpu b)\<lparr>cpu_halt := v\<rparr>\<rparr>"
| "apply_asg (Dr_busak v) b = b\<lparr>b_cpu := (b_cpu b)\<lparr>cpu_busak := v\<rparr>\<rparr>"
| "apply_asg (Dr_set_mreq v) b = b\<lparr>b_cpu := (b_cpu b)\<lparr>cpu_mreq := v\<rparr>\<rparr>"
| "apply_asg (Dr_set_rd v) b = b\<lparr>b_cpu := (b_cpu b)\<lparr>cpu_rd := v\<rparr>\<rparr>"
| "apply_asg (Dr_tape_rdata v) b = b\<lparr>b_tape := (b_tape b)\<lparr>tape_rdata := v\<rparr>\<rparr>"
| "apply_asg (Dr_txd v) b = b\<lparr>b_serial := (b_serial b)\<lparr>serial_txd := v\<rparr>\<rparr>"
| "apply_asg (Dr_rxd v) b = b\<lparr>b_serial := (b_serial b)\<lparr>serial_rxd := v\<rparr>\<rparr>"

text \<open>Which physical line an assignment is for (a number per line), and which lines are
  wired (any number of devices may pull them in one cycle).\<close>

primrec line_of :: "asg \<Rightarrow> nat" where
  "line_of (Dr_addr v) = 0" | "line_of (Dr_data v) = 1" | "line_of Dr_mreq = 2"
| "line_of Dr_rd = 3" | "line_of (Dr_wait v) = 4" | "line_of Dr_irq = 5"
| "line_of Dr_nmi = 6" | "line_of Dr_busrq = 7" | "line_of Dr_romdis = 8"
| "line_of Dr_ramdis = 9" | "line_of (Dr_ma v) = 10" | "line_of (Dr_ra v) = 11"
| "line_of (Dr_hsync v) = 12" | "line_of (Dr_hsw v) = 13" | "line_of (Dr_vsync v) = 14"
| "line_of (Dr_dispen v) = 15" | "line_of (Dr_frame_line v) = 16"
| "line_of (Dr_ram_addr v) = 17" | "line_of (Dr_ram_data v) = 18" | "line_of Dr_ram_fetch = 19"
| "line_of (Dr_ay_da v) = 20" | "line_of (Dr_ay_bdir v) = 21" | "line_of (Dr_ay_bc1 v) = 22"
| "line_of (Dr_ay_kbd_row v) = 23" | "line_of (Dr_ay_row_ext v) = 24"
| "line_of (Dr_tape_motor v) = 25" | "line_of (Dr_tape_wdata v) = 26" | "line_of Dr_strobe = 27"
| "line_of (Dr_clk c r p ph) = 28"
| "line_of (Dr_m1 v) = 29" | "line_of (Dr_iorq v) = 30" | "line_of (Dr_wr v) = 31"
| "line_of (Dr_rfsh v) = 32" | "line_of (Dr_halt v) = 33" | "line_of (Dr_busak v) = 34"
| "line_of (Dr_set_mreq v) = 2" | "line_of (Dr_set_rd v) = 3"
| "line_of (Dr_tape_rdata v) = 35" | "line_of (Dr_txd v) = 36" | "line_of (Dr_rxd v) = 37"

definition wired :: "asg \<Rightarrow> bool" where
  "wired a = (case a of Dr_mreq \<Rightarrow> True | Dr_rd \<Rightarrow> True | Dr_irq \<Rightarrow> True | Dr_nmi \<Rightarrow> True
     | Dr_busrq \<Rightarrow> True | Dr_romdis \<Rightarrow> True | Dr_ramdis \<Rightarrow> True | Dr_ram_fetch \<Rightarrow> True
     | Dr_ay_row_ext v \<Rightarrow> True | Dr_strobe \<Rightarrow> True | _ \<Rightarrow> False)"

definition drive :: "asg list \<Rightarrow> Bus \<Rightarrow> Bus" where
  "drive as = fold apply_asg as"

definition contention_free :: "asg list \<Rightarrow> asg list \<Rightarrow> bool" where
  "contention_free as bs \<longleftrightarrow>
     list_all (\<lambda>a. list_all (\<lambda>b. line_of a \<noteq> line_of b \<or> wired a \<and> wired b) bs) as"

text \<open>Each assignment acts on one component of the bus, so commutation is settled component by
  component.\<close>

definition on_cpu :: "asg \<Rightarrow> CpuBus \<Rightarrow> CpuBus" where
  "on_cpu a c = (case a of
     Dr_addr v \<Rightarrow> c\<lparr>cpu_addr := v\<rparr>
   | Dr_data v \<Rightarrow> c\<lparr>cpu_data := v\<rparr>
   | Dr_mreq \<Rightarrow> c\<lparr>cpu_mreq := True\<rparr>
   | Dr_rd \<Rightarrow> c\<lparr>cpu_rd := True\<rparr>
   | Dr_wait v \<Rightarrow> c\<lparr>cpu_wait := v\<rparr>
   | Dr_irq \<Rightarrow> c\<lparr>cpu_irq := True\<rparr>
   | Dr_nmi \<Rightarrow> c\<lparr>cpu_nmi := True\<rparr>
   | Dr_busrq \<Rightarrow> c\<lparr>cpu_busrq := True\<rparr>
   | Dr_romdis \<Rightarrow> c\<lparr>cpu_romdis := True\<rparr>
   | Dr_ramdis \<Rightarrow> c\<lparr>cpu_ramdis := True\<rparr>
   | Dr_m1 v \<Rightarrow> c\<lparr>cpu_m1 := v\<rparr>
   | Dr_iorq v \<Rightarrow> c\<lparr>cpu_iorq := v\<rparr>
   | Dr_wr v \<Rightarrow> c\<lparr>cpu_wr := v\<rparr>
   | Dr_rfsh v \<Rightarrow> c\<lparr>cpu_rfsh := v\<rparr>
   | Dr_halt v \<Rightarrow> c\<lparr>cpu_halt := v\<rparr>
   | Dr_busak v \<Rightarrow> c\<lparr>cpu_busak := v\<rparr>
   | Dr_set_mreq v \<Rightarrow> c\<lparr>cpu_mreq := v\<rparr>
   | Dr_set_rd v \<Rightarrow> c\<lparr>cpu_rd := v\<rparr>
   | _ \<Rightarrow> c)"

definition on_vid :: "asg \<Rightarrow> VidBus \<Rightarrow> VidBus" where
  "on_vid a c = (case a of
     Dr_ma v \<Rightarrow> c\<lparr>vid_ma := v\<rparr>
   | Dr_ra v \<Rightarrow> c\<lparr>vid_ra := v\<rparr>
   | Dr_hsync v \<Rightarrow> c\<lparr>vid_hsync := v\<rparr>
   | Dr_hsw v \<Rightarrow> c\<lparr>vid_hsw := v\<rparr>
   | Dr_vsync v \<Rightarrow> c\<lparr>vid_vsync := v\<rparr>
   | Dr_dispen v \<Rightarrow> c\<lparr>vid_dispen := v\<rparr>
   | Dr_frame_line v \<Rightarrow> c\<lparr>vid_frame_line := v\<rparr>
   | _ \<Rightarrow> c)"

definition on_ram :: "asg \<Rightarrow> RamBus \<Rightarrow> RamBus" where
  "on_ram a c = (case a of
     Dr_ram_addr v \<Rightarrow> c\<lparr>ram_addr := v\<rparr>
   | Dr_ram_data v \<Rightarrow> c\<lparr>ram_data := v\<rparr>
   | Dr_ram_fetch \<Rightarrow> c\<lparr>ram_fetch := True\<rparr>
   | _ \<Rightarrow> c)"

definition on_ay :: "asg \<Rightarrow> AyBus \<Rightarrow> AyBus" where
  "on_ay a c = (case a of
     Dr_ay_da v \<Rightarrow> c\<lparr>ay_da := v\<rparr>
   | Dr_ay_bdir v \<Rightarrow> c\<lparr>ay_bdir := v\<rparr>
   | Dr_ay_bc1 v \<Rightarrow> c\<lparr>ay_bc1 := v\<rparr>
   | Dr_ay_kbd_row v \<Rightarrow> c\<lparr>ay_kbd_row := v\<rparr>
   | Dr_ay_row_ext v \<Rightarrow> c\<lparr>ay_row_ext := ay_row_ext c AND v\<rparr>
   | _ \<Rightarrow> c)"

definition on_tape :: "asg \<Rightarrow> TapeBus \<Rightarrow> TapeBus" where
  "on_tape a c = (case a of
     Dr_tape_motor v \<Rightarrow> c\<lparr>tape_motor := v\<rparr>
   | Dr_tape_wdata v \<Rightarrow> c\<lparr>tape_wdata := v\<rparr>
   | Dr_tape_rdata v \<Rightarrow> c\<lparr>tape_rdata := v\<rparr>
   | _ \<Rightarrow> c)"

definition on_serial :: "asg \<Rightarrow> SerialBus \<Rightarrow> SerialBus" where
  "on_serial a c = (case a of
     Dr_txd v \<Rightarrow> c\<lparr>serial_txd := v\<rparr>
   | Dr_rxd v \<Rightarrow> c\<lparr>serial_rxd := v\<rparr>
   | _ \<Rightarrow> c)"

definition on_pen :: "asg \<Rightarrow> PenBus \<Rightarrow> PenBus" where
  "on_pen a c = (case a of
     Dr_strobe \<Rightarrow> c\<lparr>pen_strobe := True\<rparr>
   | _ \<Rightarrow> c)"

definition on_clk :: "asg \<Rightarrow> Clocks \<Rightarrow> Clocks" where
  "on_clk a c = (case a of
     Dr_clk x y z ph \<Rightarrow> c\<lparr>clk_cpu := x, clk_crtc := y, clk_psg := z, clk_phase := ph\<rparr> | _ \<Rightarrow> c)"

lemmas on_defs = on_cpu_def on_vid_def on_ram_def on_ay_def on_tape_def on_serial_def on_pen_def on_clk_def

lemma apply_asg_parts:
  "apply_asg a b =
    \<lparr> b_cpu = on_cpu a (b_cpu b), b_vid = on_vid a (b_vid b), b_ram = on_ram a (b_ram b),
      b_ay = on_ay a (b_ay b), b_tape = on_tape a (b_tape b), b_serial = on_serial a (b_serial b),
      b_pen = on_pen a (b_pen b), b_clk = on_clk a (b_clk b) \<rparr>"
  by (cases a) (simp_all add: on_defs)

lemma on_cpu_commute:
  "line_of a \<noteq> line_of b \<or> wired a \<and> wired b \<Longrightarrow> on_cpu a (on_cpu b c) = on_cpu b (on_cpu a c)"
  by (cases a; (simp add: on_cpu_def; fail)?; cases b; simp add: on_cpu_def wired_def ac_simps)

lemma on_vid_commute:
  "line_of a \<noteq> line_of b \<or> wired a \<and> wired b \<Longrightarrow> on_vid a (on_vid b c) = on_vid b (on_vid a c)"
  by (cases a; (simp add: on_vid_def; fail)?; cases b; simp add: on_vid_def wired_def ac_simps)

lemma on_ram_commute:
  "line_of a \<noteq> line_of b \<or> wired a \<and> wired b \<Longrightarrow> on_ram a (on_ram b c) = on_ram b (on_ram a c)"
  by (cases a; (simp add: on_ram_def; fail)?; cases b; simp add: on_ram_def wired_def ac_simps)

lemma on_ay_commute:
  "line_of a \<noteq> line_of b \<or> wired a \<and> wired b \<Longrightarrow> on_ay a (on_ay b c) = on_ay b (on_ay a c)"
  by (cases a; (simp add: on_ay_def; fail)?; cases b; simp add: on_ay_def wired_def ac_simps)

lemma on_tape_commute:
  "line_of a \<noteq> line_of b \<or> wired a \<and> wired b \<Longrightarrow> on_tape a (on_tape b c) = on_tape b (on_tape a c)"
  by (cases a; (simp add: on_tape_def; fail)?; cases b; simp add: on_tape_def wired_def ac_simps)

lemma on_serial_commute:
  "line_of a \<noteq> line_of b \<or> wired a \<and> wired b \<Longrightarrow> on_serial a (on_serial b c) = on_serial b (on_serial a c)"
  by (cases a; (simp add: on_serial_def; fail)?; cases b; simp add: on_serial_def wired_def ac_simps)

lemma on_pen_commute:
  "line_of a \<noteq> line_of b \<or> wired a \<and> wired b \<Longrightarrow> on_pen a (on_pen b c) = on_pen b (on_pen a c)"
  by (cases a; (simp add: on_pen_def; fail)?; cases b; simp add: on_pen_def wired_def ac_simps)

lemma on_clk_commute:
  "line_of a \<noteq> line_of b \<or> wired a \<and> wired b \<Longrightarrow> on_clk a (on_clk b c) = on_clk b (on_clk a c)"
  by (cases a; (simp add: on_clk_def; fail)?; cases b; simp add: on_clk_def wired_def ac_simps)

lemma apply_asg_commute:
  assumes "line_of a \<noteq> line_of b \<or> wired a \<and> wired b"
  shows "apply_asg a (apply_asg b bus) = apply_asg b (apply_asg a bus)"
  unfolding apply_asg_parts
  by (simp add: on_cpu_commute [OF assms] on_vid_commute [OF assms] on_ram_commute [OF assms] on_ay_commute [OF assms]
      on_tape_commute [OF assms] on_serial_commute [OF assms] on_pen_commute [OF assms] on_clk_commute [OF assms])

lemma drive_Nil [simp]: "drive [] b = b"
  by (simp add: drive_def)

lemma drive_Cons [simp]: "drive (a # as) b = drive as (apply_asg a b)"
  by (simp add: drive_def)

lemma drive_append: "drive (as @ bs) b = drive bs (drive as b)"
  by (simp add: drive_def)

lemma apply_asg_drive_commute:
  assumes "list_all (\<lambda>b. line_of a \<noteq> line_of b \<or> wired a \<and> wired b) bs"
  shows "apply_asg a (drive bs bus) = drive bs (apply_asg a bus)"
  using assms by (induction bs arbitrary: bus) (simp_all add: apply_asg_commute)

lemma drive_commute:
  assumes "contention_free as bs"
  shows "drive as (drive bs bus) = drive bs (drive as bus)"
  using assms
proof (induction as arbitrary: bus)
  case Nil
  then show ?case by simp
next
  case (Cons a as)
  then have "contention_free as bs" and "list_all (\<lambda>b. line_of a \<noteq> line_of b \<or> wired a \<and> wired b) bs"
    by (simp_all add: contention_free_def)
  then show ?case
    using Cons.IH by (simp add: apply_asg_drive_commute)
qed

end
