(* ===== verification/Contracts.thy ===== *)
theory Contracts
  imports Buses
begin

text \<open>
  The interfaces the devices share, as locales. Each is interpreted, in the theory of
  the device that provides it, on the definitions translated from that device's source.

  \<^item> \<open>bus_driver\<close>: the two-phase rule of \<open>device.h\<close> (read only the committed bus,
    drive only your own lines of the next one).
  \<^item> \<open>held_write\<close>: a register write is decoded on every master cycle the strobes are
    held, and decoding it again changes nothing.
  \<^item> \<open>edge_access\<close>: a device that acts once per access, on the rising edge of its select.
  \<^item> \<open>catch_up\<close>: a scheduler may skip idle cycles and account for them in closed form.
  \<^item> \<open>state_blob\<close>: the \<open>save\<close>/\<open>load\<close> pair of a device.
  \<^item> \<open>event_ring\<close>: a fixed-capacity event ring that sacrifices the oldest entry.
\<close>

locale bus_driver =
  fixes tick :: "'s \<Rightarrow> Bus \<Rightarrow> Bus \<Rightarrow> 's \<times> Bus"
    and next_of :: "'s \<Rightarrow> Bus \<Rightarrow> 's"
    and drives :: "'s \<Rightarrow> Bus \<Rightarrow> asg list"
  assumes tick_eq: "tick s i out = (next_of s i, drive (drives s i) out)"
begin

lemma state_independent_of_out: "fst (tick s i out) = fst (tick s i out')"
  by (simp add: tick_eq)

lemma same_out_commute:
  assumes "contention_free (drives s i) (drives t i)"
  shows "snd (tick t i (snd (tick s i out))) = snd (tick s i (snd (tick t i out)))"
  using drive_commute [OF assms] by (simp add: tick_eq)

end

locale held_write =
  fixes decode :: "'s \<Rightarrow> u16 \<Rightarrow> u8 \<Rightarrow> 's"
  assumes idem: "decode (decode s a d) a d = decode s a d"
begin

lemma held: "((\<lambda>s. decode s a d) ^^ Suc n) s = decode s a d"
  by (rule funpow_idem) (rule idem)

end

locale edge_access =
  fixes step :: "'s \<Rightarrow> 'i \<Rightarrow> 's"
    and sel :: "'s \<Rightarrow> 'i \<Rightarrow> bool"
    and prev :: "'s \<Rightarrow> bool"
    and obs :: "'s \<Rightarrow> 'o"
  assumes prev_step: "prev (step s i) \<longleftrightarrow> sel s i"
    and sel_step: "sel (step s i) j \<longleftrightarrow> sel s j"
    and no_edge: "\<not> (sel s i \<and> \<not> prev s) \<Longrightarrow> obs (step s i) = obs s"
begin

lemma held_once:
  assumes "sel s i"
  shows "obs (((\<lambda>s. step s i) ^^ Suc n) s) = obs (step s i)"
proof (induction n)
  case 0
  show ?case by simp
next
  case (Suc n)
  let ?t = "((\<lambda>s. step s i) ^^ Suc n) s"
  have "sel ((((\<lambda>s. step s i) ^^ n) s)) i \<longleftrightarrow> sel s i"
    by (induction n) (simp_all add: sel_step)
  with assms have "prev ?t"
    by (simp add: prev_step)
  then have "obs (step ?t i) = obs ?t"
    using no_edge by blast
  with Suc.IH show ?case by simp
qed

lemma unselected_run:
  assumes "\<And>i. i \<in> set is \<Longrightarrow> \<not> sel s i"
  shows "obs (fold (\<lambda>i s. step s i) is s) = obs s"
  using assms
proof (induction "is" arbitrary: s)
  case Nil
  show ?case by simp
next
  case (Cons i "is")
  have "obs (fold (\<lambda>i s. step s i) is (step s i)) = obs (step s i)"
    using Cons by (simp add: sel_step)
  also have "\<dots> = obs s"
    using Cons.prems [of i] by (intro no_edge) simp
  finally show ?case by simp
qed

end

locale catch_up =
  fixes idle :: "'s \<Rightarrow> 's"
    and advance :: "'s \<Rightarrow> nat \<Rightarrow> 's"
    and invar :: "'s \<Rightarrow> bool"
  assumes advance_0: "invar s \<Longrightarrow> advance s 0 = s"
    and advance_Suc: "invar s \<Longrightarrow> advance s (Suc n) = idle (advance s n)"
    and invar_idle: "invar s \<Longrightarrow> invar (idle s)"
begin

lemma advance_eq: "invar s \<Longrightarrow> advance s n = (idle ^^ n) s"
  by (induction n) (simp_all add: advance_0 advance_Suc)

lemma invar_advance: "invar s \<Longrightarrow> invar (advance s n)"
  by (simp add: advance_eq) (rule funpow_inv, simp_all add: invar_idle)

lemma advance_add:
  assumes "invar s"
  shows "advance (advance s m) n = advance s (m + n)"
proof -
  have "advance (advance s m) n = (idle ^^ n) ((idle ^^ m) s)"
    using invar_advance [OF assms, of m] assms by (simp add: advance_eq)
  also have "\<dots> = (idle ^^ (m + n)) s"
    by (metis add.commute comp_apply funpow_add)
  finally show ?thesis
    using assms by (simp add: advance_eq)
qed

end

text \<open>\<open>logical\<close> is the machine state a blob has to carry, \<open>wiring\<close> what is attached to
  the live device (pointers to other boards, live input) and must survive a load.\<close>

locale state_blob =
  fixes save :: "'s \<Rightarrow> 'b"
    and load :: "'s \<Rightarrow> 'b \<Rightarrow> 's"
    and logical :: "'s \<Rightarrow> 'l"
    and wiring :: "'s \<Rightarrow> 'w"
  assumes logical_load: "logical (load t (save s)) = logical s"
    and wiring_load: "wiring (load t (save s)) = wiring t"
    and save_canonical: "logical s = logical s' \<Longrightarrow> save s = save s'"
begin

lemma save_load_save: "save (load t (save s)) = save s"
  by (rule save_canonical) (rule logical_load)

lemma load_forgets: "logical (load (load t (save s)) (save s')) = logical (load t (save s'))"
  by (simp add: logical_load)

lemma save_eq_iff: "save s = save s' \<longleftrightarrow> logical s = logical s'"
  using save_canonical logical_load by metis

end

locale event_ring =
  fixes push :: "'s \<Rightarrow> 'e \<Rightarrow> 's"
    and pop :: "'s \<Rightarrow> ('e \<times> 's) option"
    and contents :: "'s \<Rightarrow> 'e list"
    and cap :: nat
    and invar :: "'s \<Rightarrow> bool"
  assumes cap_pos: "0 < cap"
    and contents_push: "invar s \<Longrightarrow> contents (push s e) =
      (if length (contents s) = cap then tl (contents s) else contents s) @ [e]"
    and pop_Nil: "invar s \<Longrightarrow> contents s = [] \<Longrightarrow> pop s = None"
    and pop_Cons: "invar s \<Longrightarrow> contents s = e # es \<Longrightarrow>
      \<exists>t. pop s = Some (e, t) \<and> contents t = es \<and> invar t"
    and invar_push: "invar s \<Longrightarrow> invar (push s e)"
    and bounded: "invar s \<Longrightarrow> length (contents s) \<le> cap"
begin

text \<open>Pushing a whole run of events keeps exactly the newest \<open>cap\<close> of them.\<close>

lemma contents_fold_push:
  assumes "invar s"
  shows "contents (fold (\<lambda>e s. push s e) es s) =
      drop (length (contents s) + length es - cap) (contents s @ es)
    \<and> invar (fold (\<lambda>e s. push s e) es s)"
  using assms
proof (induction es arbitrary: s)
  case Nil
  then show ?case using bounded [of s] by simp
next
  case (Cons e es)
  have inv: "invar (push s e)" using Cons.prems by (rule invar_push)
  show ?case
  proof (cases "length (contents s) = cap")
    case True
    then obtain x xs where xs: "contents s = x # xs"
      using cap_pos by (cases "contents s") auto
    with True have "contents (push s e) = xs @ [e]"
      using contents_push [OF Cons.prems, of e] by simp
    moreover have "cap = Suc (length xs)"
      using True xs by simp
    ultimately show ?thesis
      using Cons.IH [OF inv] xs by simp
  next
    case False
    then show ?thesis
      using Cons.IH [OF inv] contents_push [OF Cons.prems, of e] by simp
  qed
qed

end

end
