(* ===== verification/Board.thy ===== *)
theory Board
  imports Contracts
begin

text \<open>
  The scheduler of \<open>src/src/hw/board.cpp\<close> and the device interface of \<open>src/src/hw/device.h\<close>.
  A \<open>Device\<close> holds its own state and its functions (the \<open>void* self\<close> and the function
  pointers); \<open>board_tick\<close> lets every dispatched device read the committed bus and drive the
  next one, then commits. The last section proves the claim of \<open>board.h\<close> and
  \<open>docs/hw-spec.md\<close> that device order does not affect the result, under the condition it
  needs: no two devices drive the same un-wired line in that cycle.
\<close>

record ('s, 'b) Device =
  dev_self :: 's
  dev_name :: string
  dev_tick :: "'s \<Rightarrow> Bus \<Rightarrow> Bus \<Rightarrow> 's \<times> Bus"
  dev_reset :: "('s \<Rightarrow> 's) option"
  dev_save :: "'s \<Rightarrow> 'b"
  dev_load :: "'s \<Rightarrow> 'b \<Rightarrow> 's"

definition BOARD_MAX_DEVICES :: nat where
  "BOARD_MAX_DEVICES = 24"

record ('s, 'b) Board =
  brd_dev :: "nat \<Rightarrow> ('s, 'b) Device"
  brd_count :: nat
  brd_active_count :: nat
  brd_tick_order :: "nat \<Rightarrow> nat"
  brd_bus :: Bus
  brd_master_cycles :: u64

definition board_init :: "('s, 'b) Board \<Rightarrow> ('s, 'b) Board" where
  "board_init b = b\<lparr>brd_count := 0, brd_active_count := 0, brd_master_cycles := 0,
     brd_bus := bus_resting\<rparr>"

definition board_add :: "('s, 'b) Board \<Rightarrow> ('s, 'b) Device \<Rightarrow> int \<times> ('s, 'b) Board" where
  "board_add b device =
    (if brd_count b \<ge> BOARD_MAX_DEVICES then (- 1, b)
     else let index = brd_count b in
       (int index,
        b\<lparr>brd_dev := (brd_dev b)(index := device),
          brd_tick_order := (brd_tick_order b)(index := index),
          brd_count := brd_count b + 1,
          brd_active_count := brd_count b + 1\<rparr>))"

definition reset_device :: "('s, 'b) Device \<Rightarrow> ('s, 'b) Device" where
  "reset_device d = (case dev_reset d of None \<Rightarrow> d | Some f \<Rightarrow> d\<lparr>dev_self := f (dev_self d)\<rparr>)"

definition board_reset :: "('s, 'b) Board \<Rightarrow> ('s, 'b) Board" where
  "board_reset b =
    b\<lparr>brd_bus := bus_resting,
      brd_dev := fold (\<lambda>i dv. dv(i := reset_device (dv i))) [0..<brd_count b] (brd_dev b)\<rparr>"

text \<open>The loop body of \<open>board_tick\<close>: dispatch \<open>dev[j]\<close> on the committed bus \<open>bin\<close>.\<close>

definition tick_device ::
    "Bus \<Rightarrow> nat \<Rightarrow> (nat \<Rightarrow> ('s, 'b) Device) \<times> Bus \<Rightarrow> (nat \<Rightarrow> ('s, 'b) Device) \<times> Bus" where
  "tick_device bin j st =
    (case st of (dv, nxt) \<Rightarrow>
      (case dev_tick (dv j) (dev_self (dv j)) bin nxt of
        (s', nxt') \<Rightarrow> (dv(j := (dv j)\<lparr>dev_self := s'\<rparr>), nxt')))"

definition dispatched :: "('s, 'b) Board \<Rightarrow> nat list" where
  "dispatched b = map (brd_tick_order b) [0..<brd_active_count b]"

definition board_tick :: "('s, 'b) Board \<Rightarrow> ('s, 'b) Board" where
  "board_tick b =
    (case fold (tick_device (brd_bus b)) (dispatched b) (brd_dev b, bus_resting) of
      (dv, nxt) \<Rightarrow>
        b\<lparr>brd_dev := dv, brd_bus := nxt, brd_master_cycles := brd_master_cycles b + 1\<rparr>)"

subsection \<open>Composition invariant\<close>

text \<open>The dispatch list stays inside the device array.\<close>

definition board_wf :: "('s, 'b) Board \<Rightarrow> bool" where
  "board_wf b \<longleftrightarrow> brd_count b \<le> BOARD_MAX_DEVICES \<and> brd_active_count b \<le> brd_count b \<and>
     (\<forall>i < brd_active_count b. brd_tick_order b i < brd_count b) \<and> distinct (dispatched b)"

lemma board_wf_init [inv_intros]: "board_wf (board_init b)"
  by (simp add: board_wf_def board_init_def dispatched_def)

lemma fold_tick_device_count:
  "brd_count (board_tick b) = brd_count b" "brd_active_count (board_tick b) = brd_active_count b"
  "brd_tick_order (board_tick b) = brd_tick_order b"
  by (simp_all add: board_tick_def split: prod.split)

lemma board_wf_tick [inv_intros]: "board_wf b \<Longrightarrow> board_wf (board_tick b)"
  by (simp add: board_wf_def fold_tick_device_count dispatched_def)

lemma board_wf_reset [inv_intros]: "board_wf b \<Longrightarrow> board_wf (board_reset b)"
  by (simp add: board_wf_def board_reset_def dispatched_def)

lemma board_add_full:
  "board_add b d = (- 1, b) \<longleftrightarrow> brd_count b \<ge> BOARD_MAX_DEVICES"
  by (auto simp: board_add_def Let_def)

lemma board_wf_add [inv_intros]:
  assumes wf: "board_wf b" and full: "brd_active_count b = brd_count b"
  shows "board_wf (snd (board_add b d))"
proof (cases "brd_count b \<ge> BOARD_MAX_DEVICES")
  case True
  with wf show ?thesis by (simp add: board_add_def)
next
  case False
  have "map ((brd_tick_order b)(brd_count b := brd_count b)) [0..<brd_count b] =
      map (brd_tick_order b) [0..<brd_count b]"
    by simp
  moreover have "brd_count b \<notin> brd_tick_order b ` {0..<brd_count b}"
    using wf full by (auto simp: board_wf_def)
  ultimately show ?thesis
    using wf full False
    by (auto simp: board_add_def board_wf_def dispatched_def Let_def less_Suc_eq)
qed

subsection \<open>Order independence\<close>

text \<open>A board all of whose dispatched devices obey the two-phase rule: \<open>nxt j\<close> and
  \<open>drv j\<close> say what device \<open>j\<close> becomes and which lines it drives.\<close>

definition obeys :: "('s, 'b) Device \<Rightarrow> ('s \<Rightarrow> Bus \<Rightarrow> 's) \<Rightarrow> ('s \<Rightarrow> Bus \<Rightarrow> asg list) \<Rightarrow> bool" where
  "obeys d nx dr \<longleftrightarrow> (\<forall>s i out. dev_tick d s i out = (nx s i, drive (dr s i) out))"

lemma fold_tick_device:
  assumes "distinct js" and "\<And>j. j \<in> set js \<Longrightarrow> obeys (dv j) nx dr"
  shows "fold (tick_device bin) js (dv, out) =
    ((\<lambda>j. if j \<in> set js then (dv j)\<lparr>dev_self := nx (dev_self (dv j)) bin\<rparr> else dv j),
     fold (\<lambda>j. drive (dr (dev_self (dv j)) bin)) js out)"
  using assms
proof (induction js arbitrary: dv out)
  case Nil
  show ?case by simp
next
  case (Cons j js)
  let ?dv = "dv(j := (dv j)\<lparr>dev_self := nx (dev_self (dv j)) bin\<rparr>)"
  have head: "tick_device bin j (dv, out) = (?dv, drive (dr (dev_self (dv j)) bin) out)"
    using Cons.prems(2) [of j] by (simp add: tick_device_def obeys_def)
  have "\<And>k. k \<in> set js \<Longrightarrow> obeys (?dv k) nx dr"
    using Cons.prems by auto
  then have "fold (tick_device bin) js (?dv, drive (dr (dev_self (dv j)) bin) out) =
    ((\<lambda>k. if k \<in> set js then (?dv k)\<lparr>dev_self := nx (dev_self (?dv k)) bin\<rparr> else ?dv k),
     fold (\<lambda>k. drive (dr (dev_self (?dv k)) bin)) js (drive (dr (dev_self (dv j)) bin) out))"
    using Cons.prems(1) by (intro Cons.IH) simp_all
  moreover have "fold (\<lambda>k. drive (dr (dev_self (?dv k)) bin)) js x =
      fold (\<lambda>k. drive (dr (dev_self (dv k)) bin)) js x" for x
    using Cons.prems(1) by (intro fold_cong) auto
  moreover have "(\<lambda>k. if k \<in> set js then (?dv k)\<lparr>dev_self := nx (dev_self (?dv k)) bin\<rparr> else ?dv k) =
      (\<lambda>k. if k \<in> set (j # js) then (dv k)\<lparr>dev_self := nx (dev_self (dv k)) bin\<rparr> else dv k)"
    using Cons.prems(1) by (intro ext) auto
  ultimately show ?case
    by (simp only: fold_simps head)
qed

lemma board_tick_permute:
  assumes wf: "board_wf b" "board_wf b'"
    and same: "brd_dev b' = brd_dev b" "brd_bus b' = brd_bus b"
    and perm: "mset (dispatched b') = mset (dispatched b)"
    and two_phase: "\<And>j. j \<in> set (dispatched b) \<Longrightarrow> obeys (brd_dev b j) nx dr"
    and free: "\<And>j k. j \<in> set (dispatched b) \<Longrightarrow> k \<in> set (dispatched b) \<Longrightarrow> j \<noteq> k \<Longrightarrow>
      contention_free (dr (dev_self (brd_dev b j)) (brd_bus b)) (dr (dev_self (brd_dev b k)) (brd_bus b))"
  shows "brd_dev (board_tick b') = brd_dev (board_tick b) \<and> brd_bus (board_tick b') = brd_bus (board_tick b)"
proof -
  let ?f = "\<lambda>j. drive (dr (dev_self (brd_dev b j)) (brd_bus b))"
  have sets: "set (dispatched b') = set (dispatched b)"
    using perm by (metis set_mset_mset)
  have "?f j \<circ> ?f k = ?f k \<circ> ?f j" if "j \<in> set (dispatched b)" "k \<in> set (dispatched b)" for j k
    using free [OF that] by (cases "j = k") (auto simp: fun_eq_iff intro!: drive_commute)
  then have out: "fold ?f (dispatched b) = fold ?f (dispatched b')"
    by (intro fold_multiset_equiv) (simp_all add: perm)
  have d: "distinct (dispatched b)" "distinct (dispatched b')"
    using wf by (simp_all add: board_wf_def)
  have "fold (tick_device (brd_bus b)) (dispatched b') (brd_dev b, bus_resting) =
      fold (tick_device (brd_bus b)) (dispatched b) (brd_dev b, bus_resting)"
    using fold_tick_device [OF d(1) two_phase, where bin = "brd_bus b" and out = bus_resting]
      fold_tick_device [OF d(2), where dv = "brd_dev b" and nx = nx and dr = dr
        and bin = "brd_bus b" and out = bus_resting] two_phase
    by (simp add: sets out)
  then show ?thesis
    by (simp add: board_tick_def same split: prod.split)
qed

end
