(* ===== verification/Asic.thy ===== *)
theory Asic
  imports Contracts
begin

text \<open>
  The Plus / 6128+ ASIC, \<open>src/src/hw/asic.cpp\<close>: the unlock knock, the register page
  at \<open>&4000-&7FFF\<close> with its sprite, palette, config and DMA decoders, the DMA sound
  sequencer (a bus master), the raster and DMA interrupts with their IM2 vector, and the
  event-driven seam of the Fast tier. Fields are named \<open>as_x\<close> for the C member \<open>x\<close>;
  members the C code uses as flags are \<open>bool\<close>. \<open>asic_step\<close> is the tick: it returns
  the new state and the bus lines it drives, in source order.
\<close>

subsection \<open>State\<close>

definition kLockSeq :: "u8 list" where
  "kLockSeq = [0x00, 0x00, 0xFF, 0x77, 0xB3, 0x51, 0xA8, 0xD4, 0x62, 0x39, 0x9C, 0x46,
    0x2B, 0x15, 0x8A, 0xCD]"

definition kLockLen :: nat where
  "kLockLen = 16"

datatype DmaPhase = DMA_IDLE | DMA_WAIT_BUSAK | DMA_FETCH0 | DMA_FETCH0_W | DMA_FETCH1
  | DMA_FETCH1_W | DMA_EXEC | DMA_PSG_SEL | DMA_PSG_WR | DMA_ADVANCE

record asic_state =
  as_plugged :: bool
  as_locked :: bool
  as_page_on :: bool
  as_lockpos :: nat
  as_knock_prev :: bool
  as_pgwr_prev :: bool
  as_classic_pen :: nat
  as_page :: "u16 \<Rightarrow> u8"
  as_pri_line :: u8
  as_split_line :: u8
  as_split_addr :: u16
  as_hscroll :: u8
  as_vscroll :: u8
  as_extend_border :: bool
  as_int_vector :: u8
  as_sprite_px :: "nat \<Rightarrow> nat \<Rightarrow> nat \<Rightarrow> u8"
  as_sprite_x :: "nat \<Rightarrow> u16"
  as_sprite_y :: "nat \<Rightarrow> u16"
  as_sprite_mx :: "nat \<Rightarrow> u8"
  as_sprite_my :: "nat \<Rightarrow> u8"
  as_pal_r :: "nat \<Rightarrow> u8"
  as_pal_g :: "nat \<Rightarrow> u8"
  as_pal_b :: "nat \<Rightarrow> u8"
  as_pal_set :: "nat \<Rightarrow> bool"
  as_dma_source :: "nat \<Rightarrow> u16"
  as_dma_prescaler :: "nat \<Rightarrow> u8"
  as_dma_enabled :: "nat \<Rightarrow> bool"
  as_dma_loop_addr :: "nat \<Rightarrow> u16"
  as_dma_loops :: "nat \<Rightarrow> u16"
  as_dma_pause_ticks :: "nat \<Rightarrow> u16"
  as_dma_tick_cycles :: "nat \<Rightarrow> u16"
  as_dma_int :: "nat \<Rightarrow> bool"
  as_dma_phase :: DmaPhase
  as_dma_cur :: nat
  as_dma_lo :: u8
  as_dma_psg_r :: u8
  as_dma_psg_v :: u8
  as_dma_hsync_prev :: bool
  as_dma_prev_hsw :: u8
  as_dma_fired_this_line :: bool
  as_pri_prev_line :: u16
  as_pri_pending :: bool
  as_vid_gen :: u32

definition asic_init :: asic_state where
  "asic_init = \<lparr> as_plugged = False, as_locked = True, as_page_on = False, as_lockpos = 0,
    as_knock_prev = False, as_pgwr_prev = False, as_classic_pen = 0, as_page = (\<lambda>_. 0),
    as_pri_line = 0, as_split_line = 0, as_split_addr = 0, as_hscroll = 0, as_vscroll = 0,
    as_extend_border = False, as_int_vector = 1, as_sprite_px = (\<lambda>_ _ _. 0),
    as_sprite_x = (\<lambda>_. 0), as_sprite_y = (\<lambda>_. 0), as_sprite_mx = (\<lambda>_. 0), as_sprite_my = (\<lambda>_. 0),
    as_pal_r = (\<lambda>_. 0), as_pal_g = (\<lambda>_. 0), as_pal_b = (\<lambda>_. 0), as_pal_set = (\<lambda>_. False),
    as_dma_source = (\<lambda>_. 0), as_dma_prescaler = (\<lambda>_. 0), as_dma_enabled = (\<lambda>_. False),
    as_dma_loop_addr = (\<lambda>_. 0), as_dma_loops = (\<lambda>_. 0), as_dma_pause_ticks = (\<lambda>_. 0),
    as_dma_tick_cycles = (\<lambda>_. 0), as_dma_int = (\<lambda>_. False), as_dma_phase = DMA_IDLE,
    as_dma_cur = 0, as_dma_lo = 0, as_dma_psg_r = 0, as_dma_psg_v = 0,
    as_dma_hsync_prev = False, as_dma_prev_hsw = 0, as_dma_fired_this_line = False,
    as_pri_prev_line = 0xFFFF, as_pri_pending = False, as_vid_gen = 1 \<rparr>"

subsection \<open>The unlock knock\<close>

definition feed_knock :: "asic_state \<Rightarrow> u8 \<Rightarrow> asic_state" where
  "feed_knock a val =
    (if as_lockpos a = 0 then (if val > 0 then a\<lparr>as_lockpos := 1\<rparr> else a)
     else if as_lockpos a < kLockLen then
       (if val = kLockSeq ! as_lockpos a then a\<lparr>as_lockpos := as_lockpos a + 1\<rparr>
        else
          (let a1 = (if as_lockpos a + 1 = kLockLen then a\<lparr>as_locked := True\<rparr> else a)
           in a1\<lparr>as_lockpos := (if val = 0 then 2 else 1)\<rparr>))
     else a\<lparr>as_locked := False, as_lockpos := (if val = 0 then 0 else 1)\<rparr>)"

subsection \<open>Register-page decoders\<close>

definition decode_mag :: "u8 \<Rightarrow> u8" where
  "decode_mag val = (let mag = val AND 0x03 in if mag = 3 then 4 else mag)"

definition decode_sprite_pixel :: "asic_state \<Rightarrow> u16 \<Rightarrow> u8 \<Rightarrow> asic_state" where
  "decode_sprite_pixel a addr val =
    (let idn = unat (drop_bit 8 (addr AND 0x0F00));
         y = unat (drop_bit 4 (addr AND 0x00F0));
         x = unat (addr AND 0x000F)
     in a\<lparr>as_sprite_px := (as_sprite_px a)(idn := (as_sprite_px a idn)(x :=
           (as_sprite_px a idn x)(y := val AND 0x0F)))\<rparr>)"

definition decode_sprite_attr :: "asic_state \<Rightarrow> u16 \<Rightarrow> u8 \<Rightarrow> asic_state" where
  "decode_sprite_attr a addr val =
    (let idn = (unat addr - 0x6000) div 8; ty = addr AND 0x07 in
     if idn \<ge> 16 then a
     else if ty = 0 then a\<lparr>as_sprite_x := (as_sprite_x a)(idn :=
       (as_sprite_x a idn AND 0xFF00) OR ucast val)\<rparr>
     else if ty = 1 then a\<lparr>as_sprite_x := (as_sprite_x a)(idn :=
       (as_sprite_x a idn AND 0x00FF) OR push_bit 8 (ucast (val AND 0x03)))\<rparr>
     else if ty = 2 then a\<lparr>as_sprite_y := (as_sprite_y a)(idn :=
       (as_sprite_y a idn AND 0xFF00) OR ucast val)\<rparr>
     else if ty = 3 then a\<lparr>as_sprite_y := (as_sprite_y a)(idn :=
       (as_sprite_y a idn AND 0x00FF) OR push_bit 8 (ucast (val AND 0x01)))\<rparr>
     else if ty = 4 then a\<lparr>as_sprite_mx := (as_sprite_mx a)(idn := decode_mag (drop_bit 2 val)),
       as_sprite_my := (as_sprite_my a)(idn := decode_mag val)\<rparr>
     else a)"

definition decode_palette :: "asic_state \<Rightarrow> u16 \<Rightarrow> u8 \<Rightarrow> asic_state" where
  "decode_palette a addr val =
    (let idx = unat (drop_bit 1 (addr AND 0x3F));
         a1 = (if addr AND 1 \<noteq> 0
               then a\<lparr>as_pal_g := (as_pal_g a)(idx := val AND 0x0F)\<rparr>
               else a\<lparr>as_pal_r := (as_pal_r a)(idx := drop_bit 4 (val AND 0xF0)),
                      as_pal_b := (as_pal_b a)(idx := val AND 0x0F)\<rparr>)
     in a1\<lparr>as_pal_set := (as_pal_set a1)(idx := True)\<rparr>)"

definition kClassic4 :: "(u8 \<times> u8 \<times> u8) list" where
  "kClassic4 = [
    (8, 8, 8),  (8, 8, 8),   (0, 15, 8), (15, 15, 8), (0, 0, 8),   (15, 0, 8),
    (0, 8, 8),  (15, 8, 8),  (15, 0, 8), (15, 15, 8), (15, 15, 0), (15, 15, 15),
    (15, 0, 0), (15, 0, 15), (15, 8, 0), (15, 8, 15), (0, 0, 8),   (0, 15, 8),
    (0, 15, 0), (0, 15, 15), (0, 0, 0),  (0, 0, 15),  (0, 8, 0),   (0, 8, 15),
    (8, 0, 8),  (8, 15, 8),  (8, 15, 0), (8, 15, 15), (8, 0, 0),   (8, 0, 15),
    (8, 8, 0),  (8, 8, 15)]"

definition snoop_classic_palette :: "asic_state \<Rightarrow> u16 \<Rightarrow> u8 \<Rightarrow> asic_state" where
  "snoop_classic_palette a addr val =
    (if addr AND 0xC000 \<noteq> 0x4000 then a
     else if drop_bit 6 val = 0 then
       a\<lparr>as_classic_pen := (if val AND 0x10 \<noteq> 0 then 16 else unat (val AND 0x0F))\<rparr>
     else if drop_bit 6 val = 1 then
       (let hw = unat (val AND 0x1F); pen = as_classic_pen a in
        a\<lparr>as_vid_gen := as_vid_gen a + 1,
          as_pal_r := (as_pal_r a)(pen := fst (kClassic4 ! hw)),
          as_pal_g := (as_pal_g a)(pen := fst (snd (kClassic4 ! hw))),
          as_pal_b := (as_pal_b a)(pen := snd (snd (kClassic4 ! hw))),
          as_pal_set := (as_pal_set a)(pen := True)\<rparr>)
     else a)"

definition decode_config :: "asic_state \<Rightarrow> u16 \<Rightarrow> u8 \<Rightarrow> asic_state" where
  "decode_config a addr val =
    (if addr = 0x6800 then a\<lparr>as_pri_line := val\<rparr>
     else if addr = 0x6801 then a\<lparr>as_split_line := val\<rparr>
     else if addr = 0x6802 then
       a\<lparr>as_split_addr := (as_split_addr a AND 0x00FF) OR push_bit 8 (ucast val)\<rparr>
     else if addr = 0x6803 then
       a\<lparr>as_split_addr := (as_split_addr a AND 0x3F00) OR ucast val\<rparr>
     else if addr = 0x6804 then
       a\<lparr>as_hscroll := val AND 0x0F, as_vscroll := drop_bit 4 val AND 0x07,
         as_extend_border := drop_bit 7 val AND 1 \<noteq> 0\<rparr>
     else if addr = 0x6805 then a\<lparr>as_int_vector := val AND 0xF8\<rparr>
     else a)"

definition decode_dma :: "asic_state \<Rightarrow> u16 \<Rightarrow> u8 \<Rightarrow> asic_state" where
  "decode_dma a addr val =
    (if addr = 0x6C0F then
       a\<lparr>as_dma_enabled := (\<lambda>c. if c < 3 then drop_bit c val AND 1 \<noteq> 0 else as_dma_enabled a c)\<rparr>
     else
       (let c = unat (drop_bit 2 (addr AND 0x0C)); ty = addr AND 0x03 in
        if c \<ge> 3 then a
        else if ty = 0 then a\<lparr>as_dma_source := (as_dma_source a)(c :=
          (as_dma_source a c AND 0xFF00) OR ucast (val AND 0xFE))\<rparr>
        else if ty = 1 then a\<lparr>as_dma_source := (as_dma_source a)(c :=
          (as_dma_source a c AND 0x00FF) OR push_bit 8 (ucast val))\<rparr>
        else if ty = 2 then a\<lparr>as_dma_prescaler := (as_dma_prescaler a)(c := val)\<rparr>
        else a))"

definition bump_gen :: "asic_state \<Rightarrow> asic_state" where
  "bump_gen a = a\<lparr>as_vid_gen := as_vid_gen a + 1\<rparr>"

definition decode_write :: "asic_state \<Rightarrow> u16 \<Rightarrow> u8 \<Rightarrow> asic_state" where
  "decode_write a0 addr val =
    (let a = a0\<lparr>as_page := (as_page a0)(addr AND 0x3FFF := val)\<rparr> in
     if addr \<ge> 0x4000 \<and> addr < 0x5000 then decode_sprite_pixel a addr val
     else if addr \<ge> 0x6000 \<and> addr < 0x6080 then decode_sprite_attr (bump_gen a) addr val
     else if addr \<ge> 0x6400 \<and> addr < 0x6440 then decode_palette (bump_gen a) addr val
     else if addr \<ge> 0x6800 \<and> addr < 0x6806 then decode_config (bump_gen a) addr val
     else if addr \<ge> 0x6C00 \<and> addr \<le> 0x6C0F then decode_dma a addr val
     else a)"

subsection \<open>The DMA sound sequencer\<close>

text \<open>The three OR-combinable sub-operations of a non-LOAD instruction: PAUSE (opcode bit 0),
  REPEAT (bit 1) and the LOOP/INT/STOP group (bit 2).\<close>

definition dma_exec_pause :: "asic_state \<Rightarrow> nat \<Rightarrow> u16 \<Rightarrow> asic_state" where
  "dma_exec_pause a c instr =
    a\<lparr>as_dma_pause_ticks := (as_dma_pause_ticks a)(c := instr AND 0x0FFF),
      as_dma_tick_cycles := (as_dma_tick_cycles a)(c := 0)\<rparr>"

definition dma_exec_repeat :: "asic_state \<Rightarrow> nat \<Rightarrow> u16 \<Rightarrow> asic_state" where
  "dma_exec_repeat a c instr =
    a\<lparr>as_dma_loops := (as_dma_loops a)(c := instr AND 0x0FFF),
      as_dma_loop_addr := (as_dma_loop_addr a)(c := as_dma_source a c + 2)\<rparr>"

definition dma_exec_ctl :: "asic_state \<Rightarrow> nat \<Rightarrow> u16 \<Rightarrow> asic_state" where
  "dma_exec_ctl a c instr =
    (let a1 = (if instr AND 1 \<noteq> 0 \<and> as_dma_loops a c > 0
               then a\<lparr>as_dma_source := (as_dma_source a)(c := as_dma_loop_addr a c),
                      as_dma_loops := (as_dma_loops a)(c := as_dma_loops a c - 1)\<rparr>
               else a);
         a2 = (if instr AND 0x10 \<noteq> 0
               then a1\<lparr>as_dma_int := (as_dma_int a1)(c := True)\<rparr> else a1)
     in (if instr AND 0x20 \<noteq> 0
         then a2\<lparr>as_dma_enabled := (as_dma_enabled a2)(c := False)\<rparr> else a2))"

definition dma_exec :: "asic_state \<Rightarrow> nat \<Rightarrow> u16 \<Rightarrow> bool \<times> asic_state" where
  "dma_exec a c instr =
    (let opcode = drop_bit 12 (instr AND 0x7000) in
     if opcode = 0 then
       (True, a\<lparr>as_dma_psg_r := ucast (drop_bit 8 (instr AND 0x0F00)),
                as_dma_psg_v := ucast (instr AND 0x00FF)\<rparr>)
     else
       (let a1 = (if opcode AND 1 \<noteq> 0 then dma_exec_pause a c instr else a);
            a2 = (if opcode AND 2 \<noteq> 0 then dma_exec_repeat a1 c instr else a1);
            a3 = (if opcode AND 4 \<noteq> 0 then dma_exec_ctl a2 c instr else a2)
        in (False, a3)))"

definition dcsr_of :: "asic_state \<Rightarrow> u8" where
  "dcsr_of a =
    fold (\<lambda>i d. (d OR (if as_dma_enabled a i then push_bit i 1 else 0))
                  OR (if as_dma_int a i then drop_bit i 0x40 else 0)) [0..<3] 0
    OR (if as_pri_pending a then 0x80 else 0)"

definition dma_writeback :: "asic_state \<Rightarrow> nat \<Rightarrow> asic_state" where
  "dma_writeback a c =
    (let base = 0x2C00 + push_bit 2 (of_nat c) :: u16 in
     a\<lparr>as_page := (as_page a)(base := ucast (as_dma_source a c AND 0xFF),
         base + 1 := ucast (drop_bit 8 (as_dma_source a c) AND 0xFF),
         0x2C0F := dcsr_of a)\<rparr>)"

text \<open>\<open>dma_seek\<close> is the \<open>while\<close> loop over \<open>dma_cur\<close>; it returns whether a channel was found
  and leaves \<open>dma_cur\<close> at it (or at 3).\<close>

function dma_seek_from :: "asic_state \<Rightarrow> nat \<Rightarrow> nat" where
  "dma_seek_from a c =
    (if c < 3 then
       (if as_dma_enabled a c \<and> as_dma_pause_ticks a c = 0 then c else dma_seek_from a (Suc c))
     else c)"
  by pat_completeness auto
termination
  by (relation "measure (\<lambda>(a, c). 3 - c)") auto

declare dma_seek_from.simps [simp del]

definition dma_seek :: "asic_state \<Rightarrow> bool \<times> asic_state" where
  "dma_seek a =
    (let c = dma_seek_from a (as_dma_cur a) in (c < 3, a\<lparr>as_dma_cur := c\<rparr>))"

text \<open>The once-per-scanline countdown of one paused channel, and whether a channel wants the bus.\<close>

definition dma_pause_count :: "nat \<Rightarrow> asic_state \<times> bool \<Rightarrow> asic_state \<times> bool" where
  "dma_pause_count c st =
    (case st of (a, need_bus) \<Rightarrow>
      if \<not> as_dma_enabled a c then (a, need_bus)
      else if as_dma_pause_ticks a c > 0 then
        (if as_dma_tick_cycles a c < ucast (as_dma_prescaler a c)
         then (a\<lparr>as_dma_tick_cycles := (as_dma_tick_cycles a)(c := as_dma_tick_cycles a c + 1)\<rparr>, need_bus)
         else (a\<lparr>as_dma_tick_cycles := (as_dma_tick_cycles a)(c := 0),
                 as_dma_pause_ticks := (as_dma_pause_ticks a)(c := as_dma_pause_ticks a c - 1)\<rparr>, need_bus))
      else (a, True))"

text \<open>The bus-mastering phases, entered once the bus is granted.\<close>

definition dma_master :: "asic_state \<Rightarrow> Bus \<Rightarrow> asic_state \<times> asg list" where
  "dma_master a i =
    (let cur = as_dma_cur a; src = as_dma_source a cur in
     case as_dma_phase a of
       DMA_FETCH0 \<Rightarrow> (a\<lparr>as_dma_phase := DMA_FETCH0_W\<rparr>, [Dr_addr src, Dr_mreq, Dr_rd])
     | DMA_FETCH0_W \<Rightarrow> (a\<lparr>as_dma_phase := DMA_FETCH1\<rparr>, [Dr_addr src, Dr_mreq, Dr_rd])
     | DMA_FETCH1 \<Rightarrow> (a\<lparr>as_dma_lo := cpu_data (b_cpu i), as_dma_phase := DMA_FETCH1_W\<rparr>,
         [Dr_addr (src + 1), Dr_mreq, Dr_rd])
     | DMA_FETCH1_W \<Rightarrow> (a\<lparr>as_dma_phase := DMA_EXEC\<rparr>, [Dr_addr (src + 1), Dr_mreq, Dr_rd])
     | DMA_EXEC \<Rightarrow>
         (let instr = ucast (as_dma_lo a) OR push_bit 8 (ucast (cpu_data (b_cpu i)));
              a1 = a\<lparr>as_dma_source := (as_dma_source a)(cur := as_dma_source a cur + 2)\<rparr>;
              r = dma_exec a1 cur instr;
              a2 = dma_writeback (snd r) cur
          in (a2\<lparr>as_dma_phase := (if fst r then DMA_PSG_SEL else DMA_ADVANCE)\<rparr>, []))
     | DMA_PSG_SEL \<Rightarrow> (a\<lparr>as_dma_phase := DMA_PSG_WR\<rparr>,
         [Dr_ay_bdir True, Dr_ay_bc1 True, Dr_ay_da (as_dma_psg_r a)])
     | DMA_PSG_WR \<Rightarrow> (a\<lparr>as_dma_phase := DMA_ADVANCE\<rparr>,
         [Dr_ay_bdir True, Dr_ay_bc1 False, Dr_ay_da (as_dma_psg_v a)])
     | DMA_ADVANCE \<Rightarrow>
         (let r = dma_seek (a\<lparr>as_dma_cur := cur + 1\<rparr>)
          in ((snd r)\<lparr>as_dma_phase := (if fst r then DMA_FETCH0 else DMA_IDLE)\<rparr>, []))
     | _ \<Rightarrow> (a, []))"

text \<open>The part of \<open>dma_service\<close> after a burst was requested: hold \<open>busrq\<close>, wait for the
  grant, then master the bus. The first component is the C return value.\<close>

definition dma_burst :: "asic_state \<Rightarrow> Bus \<Rightarrow> bool \<times> asic_state \<times> asg list" where
  "dma_burst a i =
    (if as_dma_phase a = DMA_WAIT_BUSAK then
       (if \<not> cpu_busak (b_cpu i) then (False, a, [Dr_busrq])
        else
          (let r = dma_seek a;
               a1 = (snd r)\<lparr>as_dma_phase := (if fst r then DMA_FETCH0 else DMA_IDLE)\<rparr>
           in (as_dma_phase a1 \<noteq> DMA_IDLE, a1, [Dr_busrq])))
     else
       (let r = dma_master a i in (True, fst r, Dr_busrq # snd r)))"

text \<open>The sync tracking at the head of \<open>dma_service\<close> and the once-per-line trigger it feeds:
  the 2->3 edge of the HSYNC width counter when the character clock is on the bus, the HSYNC
  rise otherwise.\<close>

definition dma_track :: "asic_state \<Rightarrow> Bus \<Rightarrow> asic_state" where
  "dma_track a i =
    (let hsync = vid_hsync (b_vid i);
         a1 = (if hsync \<and> \<not> as_dma_hsync_prev a
               then a\<lparr>as_dma_hsync_prev := hsync, as_dma_fired_this_line := False\<rparr>
               else a\<lparr>as_dma_hsync_prev := hsync\<rparr>)
     in if clk_crtc (b_clk i) then a1\<lparr>as_dma_prev_hsw := vid_hsw (b_vid i)\<rparr> else a1)"

definition dma_trigger :: "asic_state \<Rightarrow> Bus \<Rightarrow> bool" where
  "dma_trigger a i \<longleftrightarrow>
    (if clk_crtc (b_clk i) then vid_hsw (b_vid i) = 3 \<and> as_dma_prev_hsw a \<noteq> 3
     else vid_hsync (b_vid i) \<and> \<not> as_dma_hsync_prev a)"

definition dma_service :: "asic_state \<Rightarrow> Bus \<Rightarrow> bool \<times> asic_state \<times> asg list" where
  "dma_service a0 i =
    (let a = dma_track a0 i in
     if as_dma_phase a = DMA_IDLE then
       (if \<not> dma_trigger a0 i \<or> as_dma_fired_this_line a then (False, a, [])
        else
          (case fold dma_pause_count [0..<3] (a\<lparr>as_dma_fired_this_line := True\<rparr>, False) of
            (a1, need_bus) \<Rightarrow>
              if \<not> need_bus then (False, a1, [])
              else dma_burst (a1\<lparr>as_dma_cur := 0, as_dma_phase := DMA_WAIT_BUSAK\<rparr>) i))
     else dma_burst a i)"

subsection \<open>Interrupts\<close>

definition asic_dma_int_any :: "asic_state \<Rightarrow> bool" where
  "asic_dma_int_any a \<longleftrightarrow> as_dma_int a 0 \<or> as_dma_int a 1 \<or> as_dma_int a 2"

definition int_source :: "asic_state \<Rightarrow> u8" where
  "int_source a =
    (if as_pri_pending a then 6 else if as_dma_int a 2 then 0 else if as_dma_int a 1 then 2
     else if as_dma_int a 0 then 4 else 0)"

text \<open>Clear the three channel flags (\<open>for (c : dma_int) c = 0\<close>).\<close>

definition clear_dma_int :: "asic_state \<Rightarrow> asic_state" where
  "clear_dma_int a = a\<lparr>as_dma_int := (as_dma_int a)(0 := False, 1 := False, 2 := False)\<rparr>"

text \<open>The frame-line edge detector and the DCSR mirror, shared by \<open>asic_irq\<close> and
  \<open>asic_batch_frame_line\<close> (the two spell out the same statements).\<close>

definition asic_frame_line :: "asic_state \<Rightarrow> u16 \<Rightarrow> asic_state" where
  "asic_frame_line a line =
    (let a1 = (if as_pri_line a \<noteq> 0 \<and> line = ucast (as_pri_line a) \<and> as_pri_prev_line a \<noteq> line
               then a\<lparr>as_pri_pending := True\<rparr> else a);
         a2 = a1\<lparr>as_pri_prev_line := line\<rparr>
     in a2\<lparr>as_page := (as_page a2)(0x2C0F :=
          (as_page a2 0x2C0F AND 0x7F) OR (if as_pri_pending a2 then 0x80 else 0))\<rparr>)"

definition asic_irq :: "asic_state \<Rightarrow> Bus \<Rightarrow> asic_state \<times> asg list" where
  "asic_irq a0 i =
    (let a = asic_frame_line a0 (vid_frame_line (b_vid i));
         pending = (as_pri_pending a \<or> asic_dma_int_any a)
     in if cpu_m1 (b_cpu i) \<and> cpu_iorq (b_cpu i) then
          (clear_dma_int (a\<lparr>as_pri_pending := False\<rparr>),
           if pending then [Dr_data (as_int_vector a OR int_source a)] else [])
        else (a, if pending then [Dr_irq] else []))"

subsection \<open>The tick\<close>

definition knock_sel :: "Bus \<Rightarrow> bool" where
  "knock_sel i \<longleftrightarrow> cpu_iorq (b_cpu i) \<and> \<not> cpu_m1 (b_cpu i) \<and> cpu_wr (b_cpu i) \<and>
     cpu_addr (b_cpu i) AND 0x4000 = 0 \<and> drop_bit 8 (cpu_addr (b_cpu i)) AND 3 = 0"

definition rmr2_decode :: "asic_state \<Rightarrow> u16 \<Rightarrow> u8 \<Rightarrow> asic_state" where
  "rmr2_decode a addr val =
    (if \<not> as_locked a \<and> addr AND 0xC000 = 0x4000 \<and> drop_bit 6 val = 2 \<and> val AND 0x20 \<noteq> 0
     then a\<lparr>as_page_on := (drop_bit 3 val AND 3 = 3)\<rparr> else a)"

definition page_overlay :: "asic_state \<Rightarrow> Bus \<Rightarrow> asic_state \<times> asg list" where
  "page_overlay a i =
    (let addr = cpu_addr (b_cpu i);
         in_page = (addr \<ge> 0x4000 \<and> addr < 0x8000);
         rd = (cpu_mreq (b_cpu i) \<and> cpu_rd (b_cpu i) \<and> \<not> cpu_rfsh (b_cpu i) \<and> in_page);
         pgwr = (cpu_mreq (b_cpu i) \<and> cpu_wr (b_cpu i) \<and> in_page);
         a1 = (if pgwr \<and> \<not> as_pgwr_prev a then decode_write a addr (cpu_data (b_cpu i)) else a)
     in (a1\<lparr>as_pgwr_prev := pgwr\<rparr>,
         (if rd then [Dr_ramdis, Dr_data (as_page a (addr AND 0x3FFF))] else []) @
         (if pgwr then [Dr_ramdis] else [])))"

text \<open>The three I/O snoops at the head of the tick: the knock (once per access), the classic
  palette port and RMR2.\<close>

definition asic_io_snoop :: "asic_state \<Rightarrow> Bus \<Rightarrow> asic_state" where
  "asic_io_snoop a0 i =
    (let knock = knock_sel i;
         a1 = (if knock \<and> \<not> as_knock_prev a0 then feed_knock a0 (cpu_data (b_cpu i)) else a0);
         a2 = a1\<lparr>as_knock_prev := knock\<rparr>
     in if cpu_iorq (b_cpu i) \<and> cpu_wr (b_cpu i)
        then rmr2_decode (snoop_classic_palette a2 (cpu_addr (b_cpu i)) (cpu_data (b_cpu i)))
               (cpu_addr (b_cpu i)) (cpu_data (b_cpu i))
        else a2)"

definition asic_step :: "asic_state \<Rightarrow> Bus \<Rightarrow> asic_state \<times> asg list" where
  "asic_step a0 i =
    (if \<not> as_plugged a0 then (a0, [])
     else
       (case asic_irq (asic_io_snoop a0 i) i of (a1, ds1) \<Rightarrow>
        (case dma_service a1 i of (mastered, a2, ds2) \<Rightarrow>
          if mastered \<or> as_locked a2 \<or> \<not> as_page_on a2 then (a2, ds1 @ ds2)
          else (case page_overlay a2 i of (a3, ds3) \<Rightarrow> (a3, ds1 @ ds2 @ ds3)))))"

definition asic_tick :: "asic_state \<Rightarrow> Bus \<Rightarrow> Bus \<Rightarrow> asic_state \<times> Bus" where
  "asic_tick a i out = (fst (asic_step a i), drive (snd (asic_step a i)) out)"

definition asic_dev_reset :: "asic_state \<Rightarrow> asic_state" where
  "asic_dev_reset a = a\<lparr>as_locked := True, as_page_on := False, as_lockpos := 0,
     as_knock_prev := False, as_pgwr_prev := False, as_dma_phase := DMA_IDLE,
     as_dma_hsync_prev := False, as_pri_prev_line := 0xFFFF, as_pri_pending := False\<rparr>"

text \<open>The blob is the version byte and the struct image with \<open>vid_gen\<close> zeroed. A version-1
  blob holds the struct without its last member \<open>vid_gen\<close>; in the image type that member is
  then ignored.\<close>

definition asic_save :: "asic_state \<Rightarrow> u8 \<times> asic_state" where
  "asic_save a = (2, a\<lparr>as_vid_gen := 0\<rparr>)"

definition asic_load :: "asic_state \<Rightarrow> u8 \<times> asic_state \<Rightarrow> asic_state" where
  "asic_load a blob =
    (let live_gen = as_vid_gen a;
         a1 = (if fst blob = 2 then snd blob
               else if fst blob = 1 then (snd blob)\<lparr>as_vid_gen := as_vid_gen a\<rparr>
               else a)
     in a1\<lparr>as_vid_gen := live_gen + 1\<rparr>)"

subsection \<open>Intra-chip reads and the Fast-tier seam\<close>

definition asic_set_plugged :: "asic_state \<Rightarrow> bool \<Rightarrow> asic_state" where
  "asic_set_plugged a on = a\<lparr>as_plugged := on\<rparr>"

definition asic_vid_active :: "asic_state \<Rightarrow> bool" where
  "asic_vid_active a = as_plugged a"

definition asic_unlocked :: "asic_state \<Rightarrow> bool" where
  "asic_unlocked a \<longleftrightarrow> as_plugged a \<and> \<not> as_locked a"

definition asic_vid_split :: "asic_state \<Rightarrow> u8 \<times> u16" where
  "asic_vid_split a = (as_split_line a, as_split_addr a AND 0x3FFF)"

definition asic_vid_pri_active :: "asic_state \<Rightarrow> bool" where
  "asic_vid_pri_active a \<longleftrightarrow> as_plugged a \<and> as_pri_line a \<noteq> 0"

definition asic_vid_scroll :: "asic_state \<Rightarrow> u8 \<times> u8" where
  "asic_vid_scroll a = (as_hscroll a, as_vscroll a)"

definition asic_vid_extend_border :: "asic_state \<Rightarrow> bool" where
  "asic_vid_extend_border a = as_extend_border a"

definition asic_vid_palette :: "asic_state \<Rightarrow> nat \<Rightarrow> u16" where
  "asic_vid_palette a idx =
    (let k = idx mod 32 in
     (push_bit 8 (ucast (as_pal_r a k)) OR push_bit 4 (ucast (as_pal_g a k))) OR ucast (as_pal_b a k))"

definition asic_vid_palette_set :: "asic_state \<Rightarrow> nat \<Rightarrow> bool" where
  "asic_vid_palette_set a idx = as_pal_set a (idx mod 32)"

definition asic_vid_sprite_pixel :: "asic_state \<Rightarrow> nat \<Rightarrow> nat \<Rightarrow> nat \<Rightarrow> u8" where
  "asic_vid_sprite_pixel a idn x y = as_sprite_px a (idn mod 16) (x mod 16) (y mod 16)"

definition asic_fast_io_write :: "asic_state \<Rightarrow> u16 \<Rightarrow> u8 \<Rightarrow> asic_state" where
  "asic_fast_io_write a port val =
    (if \<not> as_plugged a then a
     else
       (let a1 = (if port AND 0x4000 = 0 \<and> drop_bit 8 port AND 3 = 0 then feed_knock a val else a);
            a2 = snoop_classic_palette a1 port val
        in rmr2_decode a2 port val))"

definition asic_page_armed :: "asic_state \<Rightarrow> bool" where
  "asic_page_armed a \<longleftrightarrow> as_plugged a \<and> \<not> as_locked a \<and> as_page_on a"

definition asic_fast_mem_read :: "asic_state \<Rightarrow> u16 \<Rightarrow> u8 option" where
  "asic_fast_mem_read a addr =
    (if \<not> as_plugged a \<or> as_locked a \<or> \<not> as_page_on a then None
     else if addr < 0x4000 \<or> addr \<ge> 0x8000 then None
     else Some (as_page a (addr AND 0x3FFF)))"

definition asic_fast_mem_write :: "asic_state \<Rightarrow> u16 \<Rightarrow> u8 \<Rightarrow> bool \<times> asic_state" where
  "asic_fast_mem_write a addr val =
    (if \<not> as_plugged a \<or> as_locked a \<or> \<not> as_page_on a then (False, a)
     else if addr < 0x4000 \<or> addr \<ge> 0x8000 then (False, a)
     else (True, decode_write a addr val))"

definition asic_batch_frame_line :: "asic_state \<Rightarrow> u16 \<Rightarrow> asic_state" where
  "asic_batch_frame_line a line = asic_frame_line a line"

definition asic_irq_asserted :: "asic_state \<Rightarrow> bool" where
  "asic_irq_asserted a \<longleftrightarrow> as_plugged a \<and> (as_pri_pending a \<or> asic_dma_int_any a)"

definition asic_batch_int_ack :: "asic_state \<Rightarrow> u8 \<times> asic_state" where
  "asic_batch_int_ack a =
    (let vector = (if as_pri_pending a \<or> asic_dma_int_any a
                   then as_int_vector a OR int_source a else 0xFF);
         a1 = clear_dma_int (a\<lparr>as_pri_pending := False\<rparr>)
     in (vector, a1\<lparr>as_page := (as_page a1)(0x2C0F := as_page a1 0x2C0F AND 0x7F)\<rparr>))"

definition asic_dma_active :: "asic_state \<Rightarrow> bool" where
  "asic_dma_active a \<longleftrightarrow>
     as_plugged a \<and> (as_dma_enabled a 0 \<or> as_dma_enabled a 1 \<or> as_dma_enabled a 2)"

definition asic_batch_set_sync :: "asic_state \<Rightarrow> bool \<Rightarrow> u16 \<Rightarrow> asic_state" where
  "asic_batch_set_sync a hsync frame_line =
    a\<lparr>as_dma_hsync_prev := hsync, as_dma_prev_hsw := (if hsync then 0 else 3),
      as_dma_fired_this_line := False, as_pri_prev_line := frame_line,
      as_knock_prev := False, as_pgwr_prev := False\<rparr>"

subsection \<open>Well-formedness\<close>

definition mastering :: "asic_state \<Rightarrow> bool" where
  "mastering a \<longleftrightarrow> as_dma_phase a \<noteq> DMA_IDLE \<and> as_dma_phase a \<noteq> DMA_WAIT_BUSAK"

definition vector_ok :: "8 word \<Rightarrow> bool" where
  "vector_ok v \<longleftrightarrow> v = 1 \<or> v AND 7 = 0"

lemma vector_ok_simps [simp]: "vector_ok 1" "vector_ok (v AND 0xF8)"
proof -
  have "(v AND 0xF8) AND 7 = 0" by (rule bit_word_eqI) (auto simp: bit_simps mask_simps)
  then show "vector_ok (v AND 0xF8)" unfolding vector_ok_def by (rule disjI2)
qed (simp add: vector_ok_def)

definition asic_wf :: "asic_state \<Rightarrow> bool" where
  "asic_wf a \<longleftrightarrow>
     as_lockpos a \<le> kLockLen \<and> as_classic_pen a \<le> 16 \<and>
     (mastering a \<longrightarrow> as_dma_cur a < 3) \<and>
     (\<forall>c. even (as_dma_source a c) \<and> even (as_dma_loop_addr a c)) \<and>
     (\<forall>c. fits 12 (as_dma_loops a c) \<and> fits 12 (as_dma_pause_ticks a c)) \<and>
     (\<forall>k. fits 10 (as_sprite_x a k) \<and> fits 9 (as_sprite_y a k)) \<and>
     (\<forall>k. as_sprite_mx a k \<in> {0, 1, 2, 4} \<and> as_sprite_my a k \<in> {0, 1, 2, 4}) \<and>
     (\<forall>k x y. fits 4 (as_sprite_px a k x y)) \<and>
     (\<forall>k. fits 4 (as_pal_r a k) \<and> fits 4 (as_pal_g a k) \<and> fits 4 (as_pal_b a k)) \<and>
     fits 4 (as_hscroll a) \<and> fits 3 (as_vscroll a) \<and>
     vector_ok (as_int_vector a)"

lemma asic_wf_init: "asic_wf asic_init"
  by (simp add: asic_wf_def asic_init_def mastering_def)

lemma asic_wf_reset [inv_intros]: "asic_wf a \<Longrightarrow> asic_wf (asic_dev_reset a)"
  by (simp add: asic_wf_def asic_dev_reset_def mastering_def)

lemma asic_wf_feed_knock [inv_intros]: "asic_wf a \<Longrightarrow> asic_wf (feed_knock a v)"
  by (simp add: asic_wf_def feed_knock_def mastering_def kLockLen_def)

lemma decode_mag_range: "decode_mag v \<in> {0, 1, 2, 4}"
proof -
  have "unat (v AND 3) < 4"
    using unat_take_bit_less [of 2 v] by (simp add: mask_simps)
  then have "unat (v AND 3) = 0 \<or> unat (v AND 3) = 1 \<or> unat (v AND 3) = 2 \<or> unat (v AND 3) = 3"
    by linarith
  then have "v AND 3 = 0 \<or> v AND 3 = 1 \<or> v AND 3 = 2 \<or> v AND 3 = 3"
    by (auto simp: word_unat_eq_iff)
  then show ?thesis
    by (auto simp: decode_mag_def Let_def)
qed

lemma fits4_and_15 [simp]: "fits 4 (v AND 15 :: u8)"
  unfolding mask_simps by (rule fits_take_bit) simp

lemma fits4_high_nibble [simp]: "fits 4 (drop_bit 4 (v :: u8))"
  by (rule fits_drop_bit [of 8]) simp_all

lemma asic_wf_sprite_pixel [inv_intros]: "asic_wf a \<Longrightarrow> asic_wf (decode_sprite_pixel a addr v)"
  by (simp add: asic_wf_def decode_sprite_pixel_def mastering_def Let_def)

lemma fits_lo_byte: "fits n (x :: u16) \<Longrightarrow> 8 \<le> n \<Longrightarrow> fits n (x AND m OR ucast (v :: u8))"
  by (intro fits_or fits_and fits_ucast disjI1) simp_all

lemma fits_255: "8 \<le> n \<Longrightarrow> fits n (255 :: u16)"
  by (rule fits_mono [of 8]) (simp_all add: fits_def)

lemma fits_mod_2 [simp]: "fits (Suc 0) (v mod 2 :: u8)"
proof -
  have "v mod 2 = take_bit (Suc 0) v"
    by (simp add: take_bit_eq_mod)
  then show ?thesis
    by (simp only: fits_take_bit order_refl)
qed

lemma even_ucast_u8 [simp]: "even (ucast (v :: u8) :: u16) \<longleftrightarrow> even v"
  using bit_unsigned_iff [of v 0, where 'a = u16] by (simp add: bit_0)

lemma fits_hi_byte:
  "fits k (v :: u8) \<Longrightarrow> 8 + k \<le> n \<Longrightarrow> fits n ((x :: u16) AND 0xFF OR push_bit 8 (ucast v))"
  by (intro fits_or fits_push_bit [of k] fits_ucast fits_and disjI2)
    (simp_all add: fits_255)

lemma asic_wf_sprite_attr [inv_intros]: "asic_wf a \<Longrightarrow> asic_wf (decode_sprite_attr a addr v)"
  using decode_mag_range [of v] decode_mag_range [of "drop_bit 2 v"]
    fits_hi_byte [of 2 "v AND 3" 10] fits_hi_byte [of 1 "v AND 1" 9]
  by (simp add: asic_wf_def decode_sprite_attr_def mastering_def Let_def fits_lo_byte
      fits_take_bit and_low_mask8)

lemma asic_wf_palette [inv_intros]: "asic_wf a \<Longrightarrow> asic_wf (decode_palette a addr v)"
  by (simp add: asic_wf_def decode_palette_def mastering_def Let_def fits_drop_bit [of 8])

lemma kClassic4_nibbles:
  "n < 32 \<Longrightarrow> fits 4 (fst (kClassic4 ! n)) \<and> fits 4 (fst (snd (kClassic4 ! n))) \<and>
     fits 4 (snd (snd (kClassic4 ! n)))"
proof -
  have "\<forall>t \<in> set kClassic4. fits 4 (fst t) \<and> fits 4 (fst (snd t)) \<and> fits 4 (snd (snd t))"
    by (simp add: kClassic4_def fits_def)
  moreover assume "n < 32"
  then have "kClassic4 ! n \<in> set kClassic4"
    by (intro nth_mem) (simp add: kClassic4_def)
  ultimately show ?thesis by blast
qed

lemma asic_wf_classic [inv_intros]: "asic_wf a \<Longrightarrow> asic_wf (snoop_classic_palette a addr v)"
  using unat_take_bit_less [of 5 v] kClassic4_nibbles [of "unat (v AND 31)"]
    unat_take_bit_less [of 4 v]
  by (simp add: asic_wf_def snoop_classic_palette_def mastering_def Let_def mask_simps)

lemma asic_wf_config [inv_intros]: "asic_wf a \<Longrightarrow> asic_wf (decode_config a addr v)"
  by (simp add: asic_wf_def decode_config_def mastering_def and_low_mask8 fits_take_bit)

text \<open>The split address is the one register that keeps bits it has no use for: a write of its high byte is not masked, its
  reader takes 14 bits.\<close>

lemma split_addr_read: "fits 14 (snd (asic_vid_split a))"
  by (simp add: asic_vid_split_def mask_simps fits_take_bit)

lemma split_addr_wide: "as_split_addr (decode_config a 0x6802 0xFF) AND 0xFF00 = 0xFF00"
  by (rule bit_word_eqI) (auto simp: decode_config_def bit_simps)

lemma asic_wf_dma [inv_intros]: "asic_wf a \<Longrightarrow> asic_wf (decode_dma a addr v)"
  by (simp add: asic_wf_def decode_dma_def mastering_def Let_def even_or_iff even_and_iff
      even_push_bit_iff)


lemma asic_wf_other_fields [simp]:
  "asic_wf (a\<lparr>as_page := p\<rparr>) \<longleftrightarrow> asic_wf a" "asic_wf (a\<lparr>as_vid_gen := g\<rparr>) \<longleftrightarrow> asic_wf a"
  "asic_wf (a\<lparr>as_knock_prev := b\<rparr>) \<longleftrightarrow> asic_wf a" "asic_wf (a\<lparr>as_pgwr_prev := b\<rparr>) \<longleftrightarrow> asic_wf a"
  "asic_wf (a\<lparr>as_page_on := b\<rparr>) \<longleftrightarrow> asic_wf a" "asic_wf (a\<lparr>as_pri_pending := b\<rparr>) \<longleftrightarrow> asic_wf a"
  "asic_wf (a\<lparr>as_pri_prev_line := l\<rparr>) \<longleftrightarrow> asic_wf a" "asic_wf (a\<lparr>as_dma_int := f\<rparr>) \<longleftrightarrow> asic_wf a"
  "asic_wf (a\<lparr>as_dma_enabled := f\<rparr>) \<longleftrightarrow> asic_wf a" "asic_wf (a\<lparr>as_dma_lo := v\<rparr>) \<longleftrightarrow> asic_wf a"
  "asic_wf (a\<lparr>as_dma_psg_r := v\<rparr>) \<longleftrightarrow> asic_wf a" "asic_wf (a\<lparr>as_dma_psg_v := v\<rparr>) \<longleftrightarrow> asic_wf a"
  "asic_wf (a\<lparr>as_dma_tick_cycles := t\<rparr>) \<longleftrightarrow> asic_wf a"
  "asic_wf (a\<lparr>as_dma_hsync_prev := b\<rparr>) \<longleftrightarrow> asic_wf a" "asic_wf (a\<lparr>as_dma_prev_hsw := v\<rparr>) \<longleftrightarrow> asic_wf a"
  "asic_wf (a\<lparr>as_dma_fired_this_line := b\<rparr>) \<longleftrightarrow> asic_wf a"
  by (simp_all add: asic_wf_def mastering_def)

lemma asic_wf_decode_write [inv_intros]: "asic_wf a \<Longrightarrow> asic_wf (decode_write a addr v)"
  by (simp add: decode_write_def Let_def bump_gen_def inv_intros)

lemma fits12_and [simp]: "fits 12 (instr AND 0xFFF :: u16)"
  unfolding mask_simps by (rule fits_take_bit) simp

lemma dma_exec_parts_wf:
  assumes "asic_wf a"
  shows "asic_wf (dma_exec_pause a c instr)" "asic_wf (dma_exec_repeat a c instr)"
    "asic_wf (dma_exec_ctl a c instr)"
  using assms
  by (simp_all add: asic_wf_def dma_exec_pause_def dma_exec_repeat_def dma_exec_ctl_def
      mastering_def Let_def fits_pred)

lemma dma_exec_wf: "asic_wf a \<Longrightarrow> asic_wf (snd (dma_exec a c instr))"
  by (simp add: dma_exec_def Let_def dma_exec_parts_wf)

lemma dma_exec_frame [simp]:
  "as_dma_phase (snd (dma_exec a c instr)) = as_dma_phase a"
  "as_dma_cur (snd (dma_exec a c instr)) = as_dma_cur a"
  by (simp_all add: dma_exec_def dma_exec_pause_def dma_exec_repeat_def dma_exec_ctl_def Let_def)

lemma dma_writeback_frame [simp]:
  "asic_wf (dma_writeback a c) \<longleftrightarrow> asic_wf a"
  "as_dma_phase (dma_writeback a c) = as_dma_phase a" "as_dma_cur (dma_writeback a c) = as_dma_cur a"
  by (simp_all add: dma_writeback_def Let_def)

lemma dma_seek_from_range: "c \<le> 3 \<Longrightarrow> c \<le> dma_seek_from a c \<and> dma_seek_from a c \<le> 3"
proof (induction a c rule: dma_seek_from.induct)
  case (1 a c)
  then show ?case
    by (subst (1 2) dma_seek_from.simps) auto
qed

lemma asic_wf_phase_idle: "asic_wf a \<Longrightarrow> p = DMA_IDLE \<or> p = DMA_WAIT_BUSAK \<Longrightarrow>
    asic_wf (a\<lparr>as_dma_phase := p\<rparr>)"
  by (auto simp: asic_wf_def mastering_def)

lemma asic_wf_phase: "asic_wf a \<Longrightarrow> as_dma_cur a < 3 \<Longrightarrow> asic_wf (a\<lparr>as_dma_phase := p\<rparr>)"
  by (auto simp: asic_wf_def mastering_def)

lemma asic_wf_cur_phase:
  "asic_wf a \<Longrightarrow> (p \<noteq> DMA_IDLE \<and> p \<noteq> DMA_WAIT_BUSAK \<longrightarrow> c < 3) \<Longrightarrow>
     asic_wf (a\<lparr>as_dma_cur := c, as_dma_phase := p\<rparr>)"
  by (auto simp: asic_wf_def mastering_def)

lemma asic_wf_source2: "asic_wf a \<Longrightarrow>
    asic_wf (a\<lparr>as_dma_source := (as_dma_source a)(c := as_dma_source a c + 2)\<rparr>)"
  by (simp add: asic_wf_def mastering_def)

lemma mastering_cur: "asic_wf a \<Longrightarrow> mastering a \<Longrightarrow> as_dma_cur a < 3"
  by (simp add: asic_wf_def)

lemma dma_master_wf:
  assumes wf: "asic_wf a" and m: "mastering a"
  shows "asic_wf (fst (dma_master a i))"
proof -
  note cur = mastering_cur [OF wf m]
  let ?s = "a\<lparr>as_dma_source := (as_dma_source a)(as_dma_cur a := as_dma_source a (as_dma_cur a) + 2)\<rparr>"
  have "asic_wf (dma_writeback (snd (dma_exec ?s (as_dma_cur a) instr)) (as_dma_cur a))" for instr
    using wf by (simp add: dma_exec_wf asic_wf_source2)
  with wf cur show ?thesis
    by (cases "as_dma_phase a")
      (simp_all add: dma_master_def Let_def dma_seek_def asic_wf_phase asic_wf_cur_phase)
qed

lemma dma_burst_wf:
  assumes wf: "asic_wf a" and nz: "as_dma_phase a \<noteq> DMA_IDLE"
  shows "asic_wf (fst (snd (dma_burst a i)))"
  using assms dma_master_wf [OF wf]
  by (auto simp: dma_burst_def Let_def dma_seek_def mastering_def asic_wf_cur_phase)

lemma dma_pause_count_wf:
  "asic_wf (fst st) \<Longrightarrow> asic_wf (fst (dma_pause_count c st))"
  by (auto simp: dma_pause_count_def asic_wf_def mastering_def fits_pred split: prod.split)

lemma dma_pause_counts_wf:
  "asic_wf a \<Longrightarrow> asic_wf (fst (fold dma_pause_count cs (a, nb)))"
  by (rule fold_inv [where P = "\<lambda>st. asic_wf (fst st)"]) (simp_all add: dma_pause_count_wf)

lemma dma_track_wf [simp]: "asic_wf (dma_track a i) \<longleftrightarrow> asic_wf a"
  by (simp add: dma_track_def Let_def)

lemma dma_track_frame [simp]:
  "as_dma_phase (dma_track a i) = as_dma_phase a" "as_dma_cur (dma_track a i) = as_dma_cur a"
  by (simp_all add: dma_track_def Let_def)

lemma dma_service_wf:
  assumes wf: "asic_wf a"
  shows "asic_wf (fst (snd (dma_service a i)))"
proof (cases "as_dma_phase a = DMA_IDLE \<and> dma_trigger a i \<and> \<not> as_dma_fired_this_line (dma_track a i)")
  case True
  obtain a1 nb where r: "fold dma_pause_count [0..<3] (dma_track a i\<lparr>as_dma_fired_this_line := True\<rparr>, False) = (a1, nb)"
    by (cases "fold dma_pause_count [0..<3] (dma_track a i\<lparr>as_dma_fired_this_line := True\<rparr>, False)") simp
  then have "asic_wf a1"
    using dma_pause_counts_wf [of "dma_track a i\<lparr>as_dma_fired_this_line := True\<rparr>" "[0..<3]" False] wf
    by (simp del: upt_rec_numeral)
  then have "asic_wf (fst (snd (dma_burst (a1\<lparr>as_dma_cur := 0, as_dma_phase := DMA_WAIT_BUSAK\<rparr>) i)))"
    by (intro dma_burst_wf asic_wf_cur_phase) simp_all
  with True r \<open>asic_wf a1\<close> show ?thesis
    by (simp add: dma_service_def Let_def del: upt_rec_numeral)
next
  case False
  then show ?thesis
    using wf by (auto simp: dma_service_def Let_def dma_burst_wf)
qed

lemma asic_irq_wf: "asic_wf a \<Longrightarrow> asic_wf (fst (asic_irq a i))"
  by (simp add: asic_irq_def asic_frame_line_def clear_dma_int_def Let_def)

lemma asic_io_snoop_wf: "asic_wf a \<Longrightarrow> asic_wf (asic_io_snoop a i)"
  by (simp add: asic_io_snoop_def rmr2_decode_def Let_def inv_intros)

lemma page_overlay_wf: "asic_wf a \<Longrightarrow> asic_wf (fst (page_overlay a i))"
  by (simp add: page_overlay_def Let_def inv_intros)

lemma asic_step_next:
  assumes "as_plugged a"
  obtains b where "b = fst (snd (dma_service (fst (asic_irq (asic_io_snoop a i) i)) i))"
    and "fst (asic_step a i) = b \<or> fst (asic_step a i) = fst (page_overlay b i)"
  using assms by (simp add: asic_step_def split: prod.split if_splits)

lemma asic_step_wf [inv_intros]:
  assumes wf: "asic_wf a"
  shows "asic_wf (fst (asic_step a i))"
proof (cases "as_plugged a")
  case True
  then show ?thesis
  proof (rule asic_step_next [of _ i])
    fix b
    assume "b = fst (snd (dma_service (fst (asic_irq (asic_io_snoop a i) i)) i))"
    then have "asic_wf b"
      using wf by (simp add: dma_service_wf asic_irq_wf asic_io_snoop_wf)
    moreover assume "fst (asic_step a i) = b \<or> fst (asic_step a i) = fst (page_overlay b i)"
    ultimately show ?thesis
      by (auto simp: page_overlay_wf)
  qed
next
  case False
  then show ?thesis using wf by (simp add: asic_step_def)
qed

subsection \<open>The knock\<close>

definition feed_all :: "u8 list \<Rightarrow> asic_state \<Rightarrow> asic_state" where
  "feed_all bs a = fold (\<lambda>v a. feed_knock a v) bs a"

lemma feed_all_simps [simp]:
  "feed_all [] a = a" "feed_all (v # bs) a = feed_all bs (feed_knock a v)"
  "feed_all (bs @ cs) a = feed_all cs (feed_all bs a)"
  by (simp_all add: feed_all_def)

lemmas knock_eval = feed_knock_def kLockSeq_def kLockLen_def Let_def

lemma knock_from_2: "as_lockpos a = 2 \<Longrightarrow> \<not> as_locked (feed_all (drop 2 kLockSeq @ [y]) a)"
  by (simp add: knock_eval)

lemma knock_from_open:
  "as_lockpos a = 0 \<Longrightarrow> \<not> as_locked a \<Longrightarrow> \<not> as_locked (feed_all (drop 2 kLockSeq @ [y]) a)"
  by (simp add: knock_eval)

lemma length_kLockSeq [simp]: "length kLockSeq = 16"
  by (simp add: kLockSeq_def)

lemma kLockSeq_ne_0: "2 \<le> k \<Longrightarrow> k < 16 \<Longrightarrow> kLockSeq ! k \<noteq> 0"
proof -
  assume k: "2 \<le> k" "k < 16"
  then have "drop 2 kLockSeq ! (k - 2) \<in> set (drop 2 kLockSeq)"
    by (intro nth_mem) simp
  moreover have "drop 2 kLockSeq ! (k - 2) = kLockSeq ! (2 + (k - 2))"
    by (rule nth_drop) simp
  moreover have "2 + (k - 2) = k"
    using k by linarith
  moreover have "0 \<notin> set (drop 2 kLockSeq)"
    by (simp add: kLockSeq_def)
  ultimately show ?thesis by metis
qed

lemma knock_prime:
  assumes "as_lockpos a \<le> kLockLen" and "x > 0"
  shows "as_lockpos (feed_all [x, 0] a) = 2 \<or>
    as_lockpos (feed_all [x, 0] a) = 0 \<and> \<not> as_locked (feed_all [x, 0] a)"
proof (cases "as_lockpos a = 0 \<or> as_lockpos a = 16")
  case True
  with assms show ?thesis
    by (auto simp: feed_knock_def kLockLen_def kLockSeq_def)
next
  case False
  with assms have k: "1 \<le> as_lockpos a" "as_lockpos a < 16"
    by (auto simp: kLockLen_def)
  show ?thesis
  proof (cases "x = kLockSeq ! as_lockpos a")
    case True
    have "as_lockpos (feed_knock a x) = as_lockpos a + 1"
      using True k by (simp add: feed_knock_def kLockLen_def)
    moreover have "kLockSeq ! (as_lockpos a + 1) \<noteq> 0" if "as_lockpos a + 1 < 16"
      using that k by (intro kLockSeq_ne_0) simp_all
    ultimately show ?thesis
      using k by (auto simp: feed_knock_def [of "feed_knock a x"] kLockLen_def Let_def)
  next
    case False
    then have "as_lockpos (feed_knock a x) = 1"
      using assms(2) k by (auto simp: feed_knock_def kLockLen_def Let_def)
    then show ?thesis
      by (simp add: feed_knock_def [of "feed_knock a x"] kLockLen_def kLockSeq_def)
  qed
qed

lemma feed_all_unlocks:
  assumes "as_lockpos a \<le> kLockLen" and "x > 0"
  shows "\<not> as_locked (feed_all (x # drop 1 kLockSeq @ [y]) a)"
proof -
  have "drop 1 kLockSeq = 0 # drop 2 kLockSeq"
    by (simp add: kLockSeq_def)
  then have "feed_all (x # drop 1 kLockSeq @ [y]) a =
      feed_all (drop 2 kLockSeq @ [y]) (feed_all [x, 0] a)"
    by simp
  then show ?thesis
    using knock_prime [OF assms] knock_from_2 knock_from_open by metis
qed






subsection \<open>DMA bursts end\<close>

fun burst_rank :: "DmaPhase \<Rightarrow> nat \<Rightarrow> nat" where
  "burst_rank DMA_IDLE c = 0"
| "burst_rank DMA_WAIT_BUSAK c = 25"
| "burst_rank DMA_FETCH0 c = 8 * (3 - c)"
| "burst_rank DMA_FETCH0_W c = 8 * (3 - c) - 1"
| "burst_rank DMA_FETCH1 c = 8 * (3 - c) - 2"
| "burst_rank DMA_FETCH1_W c = 8 * (3 - c) - 3"
| "burst_rank DMA_EXEC c = 8 * (3 - c) - 4"
| "burst_rank DMA_PSG_SEL c = 8 * (3 - c) - 5"
| "burst_rank DMA_PSG_WR c = 8 * (3 - c) - 6"
| "burst_rank DMA_ADVANCE c = 8 * (3 - c) - 7"

definition dma_rank :: "asic_state \<Rightarrow> nat" where
  "dma_rank a = burst_rank (as_dma_phase a) (as_dma_cur a)"

lemma dma_rank_0: "asic_wf a \<Longrightarrow> dma_rank a = 0 \<Longrightarrow> as_dma_phase a = DMA_IDLE"
  using mastering_cur [of a]
  by (cases "as_dma_phase a") (auto simp: dma_rank_def mastering_def)

lemma dma_rank_le: "dma_rank a \<le> 25"
  by (cases "as_dma_phase a") (auto simp: dma_rank_def)

lemma dma_master_rank:
  assumes wf: "asic_wf a" and m: "mastering a"
  shows "dma_rank (fst (dma_master a i)) < dma_rank a"
proof -
  note cur = mastering_cur [OF wf m]
  let ?b = "a\<lparr>as_dma_cur := Suc (as_dma_cur a)\<rparr>"
  have "Suc (as_dma_cur a) \<le> dma_seek_from ?b (Suc (as_dma_cur a))"
    using dma_seek_from_range [of "Suc (as_dma_cur a)" ?b] cur by simp
  then have "8 * (3 - dma_seek_from ?b (Suc (as_dma_cur a))) < 8 * (3 - as_dma_cur a) - 7"
    using cur by linarith
  then show ?thesis
    using cur m
    by (cases "as_dma_phase a")
      (auto simp: dma_master_def dma_rank_def Let_def dma_seek_def mastering_def)
qed

lemma dma_burst_rank:
  assumes wf: "asic_wf a" and nz: "as_dma_phase a \<noteq> DMA_IDLE" and ak: "cpu_busak (b_cpu i)"
  shows "dma_rank (fst (snd (dma_burst a i))) < dma_rank a"
proof (cases "as_dma_phase a = DMA_WAIT_BUSAK")
  case True
  with ak show ?thesis
    by (auto simp: dma_burst_def Let_def dma_seek_def dma_rank_def)
next
  case False
  with nz have "mastering a" by (simp add: mastering_def)
  with False show ?thesis
    using dma_master_rank [OF wf] by (simp add: dma_burst_def Let_def)
qed


text \<open>What the I/O snoops, the decoders and the interrupt logic leave alone.\<close>

lemma feed_knock_frame [simp]:
  "as_dma_phase (feed_knock a v) = as_dma_phase a" "as_dma_cur (feed_knock a v) = as_dma_cur a"
  "as_plugged (feed_knock a v) = as_plugged a"
  by (simp_all add: feed_knock_def Let_def)

lemma snoop_classic_frame [simp]:
  "as_dma_phase (snoop_classic_palette a p v) = as_dma_phase a"
  "as_dma_cur (snoop_classic_palette a p v) = as_dma_cur a"
  "as_plugged (snoop_classic_palette a p v) = as_plugged a"
  by (simp_all add: snoop_classic_palette_def Let_def)

lemma rmr2_frame [simp]:
  "as_dma_phase (rmr2_decode a p v) = as_dma_phase a" "as_dma_cur (rmr2_decode a p v) = as_dma_cur a"
  "as_plugged (rmr2_decode a p v) = as_plugged a"
  by (simp_all add: rmr2_decode_def)

lemma decode_sprite_pixel_frame:
  "as_dma_phase (decode_sprite_pixel a p v) = as_dma_phase a"
  "as_dma_cur (decode_sprite_pixel a p v) = as_dma_cur a"
  "as_plugged (decode_sprite_pixel a p v) = as_plugged a"
  "as_locked (decode_sprite_pixel a p v) = as_locked a"
  "as_page_on (decode_sprite_pixel a p v) = as_page_on a"
  "as_page (decode_sprite_pixel a p v) = as_page a"
  by (simp_all add: decode_sprite_pixel_def Let_def)

lemma decode_sprite_attr_frame:
  "as_dma_phase (decode_sprite_attr a p v) = as_dma_phase a"
  "as_dma_cur (decode_sprite_attr a p v) = as_dma_cur a"
  "as_plugged (decode_sprite_attr a p v) = as_plugged a"
  "as_locked (decode_sprite_attr a p v) = as_locked a"
  "as_page_on (decode_sprite_attr a p v) = as_page_on a"
  "as_page (decode_sprite_attr a p v) = as_page a"
  by (simp_all add: decode_sprite_attr_def Let_def)

lemma decode_palette_frame:
  "as_dma_phase (decode_palette a p v) = as_dma_phase a"
  "as_dma_cur (decode_palette a p v) = as_dma_cur a"
  "as_plugged (decode_palette a p v) = as_plugged a"
  "as_locked (decode_palette a p v) = as_locked a"
  "as_page_on (decode_palette a p v) = as_page_on a"
  "as_page (decode_palette a p v) = as_page a"
  by (simp_all add: decode_palette_def Let_def)

lemma decode_config_frame:
  "as_dma_phase (decode_config a p v) = as_dma_phase a"
  "as_dma_cur (decode_config a p v) = as_dma_cur a"
  "as_plugged (decode_config a p v) = as_plugged a"
  "as_locked (decode_config a p v) = as_locked a"
  "as_page_on (decode_config a p v) = as_page_on a"
  "as_page (decode_config a p v) = as_page a"
  by (simp_all add: decode_config_def Let_def)

lemma decode_dma_frame:
  "as_dma_phase (decode_dma a p v) = as_dma_phase a"
  "as_dma_cur (decode_dma a p v) = as_dma_cur a"
  "as_plugged (decode_dma a p v) = as_plugged a"
  "as_locked (decode_dma a p v) = as_locked a"
  "as_page_on (decode_dma a p v) = as_page_on a"
  "as_page (decode_dma a p v) = as_page a"
  by (simp_all add: decode_dma_def Let_def)

lemmas decoder_frames = decode_sprite_pixel_frame
  decode_sprite_attr_frame
  decode_palette_frame
  decode_config_frame
  decode_dma_frame

lemma decode_write_frame [simp]:
  "as_dma_phase (decode_write a p v) = as_dma_phase a" "as_dma_cur (decode_write a p v) = as_dma_cur a"
  "as_plugged (decode_write a p v) = as_plugged a"
  by (simp_all add: decode_write_def bump_gen_def decoder_frames Let_def)

lemma dma_rank_frames [simp]:
  "dma_rank (asic_io_snoop a i) = dma_rank a" "dma_rank (fst (asic_irq a i)) = dma_rank a"
  "dma_rank (fst (page_overlay a i)) = dma_rank a"
  by (simp_all add: dma_rank_def asic_io_snoop_def asic_irq_def asic_frame_line_def
      clear_dma_int_def page_overlay_def Let_def)

lemma dma_service_rank:
  assumes wf: "asic_wf a" and nz: "as_dma_phase a \<noteq> DMA_IDLE" and ak: "cpu_busak (b_cpu i)"
  shows "dma_rank (fst (snd (dma_service a i))) < dma_rank a"
  using dma_burst_rank [of "dma_track a i" i] assms
  by (simp add: dma_service_def dma_rank_def)

lemma asic_step_rank:
  assumes wf: "asic_wf a" and plugged: "as_plugged a" and nz: "dma_rank a \<noteq> 0"
    and ak: "cpu_busak (b_cpu i)"
  shows "dma_rank (fst (asic_step a i)) < dma_rank a"
proof -
  let ?b = "fst (asic_irq (asic_io_snoop a i) i)"
  have wf': "asic_wf ?b" and rank: "dma_rank ?b = dma_rank a"
    using wf by (simp_all add: asic_irq_wf asic_io_snoop_wf)
  with nz have "as_dma_phase ?b \<noteq> DMA_IDLE"
    by (auto simp: dma_rank_def)
  with wf' ak have "dma_rank (fst (snd (dma_service ?b i))) < dma_rank a"
    using dma_service_rank rank by metis
  with plugged show ?thesis
    by (metis asic_step_next dma_rank_frames(3))
qed

lemma dma_exec_plugged: "as_plugged (snd (dma_exec a c instr)) = as_plugged a"
  by (simp add: dma_exec_def dma_exec_pause_def dma_exec_repeat_def dma_exec_ctl_def Let_def)

lemma dma_service_plugged [simp]: "as_plugged (fst (snd (dma_service a i))) = as_plugged a"
proof -
  have m: "as_plugged (fst (dma_master b i)) = as_plugged b" for b
    by (cases "as_dma_phase b")
      (simp_all add: dma_master_def Let_def dma_seek_def dma_exec_plugged dma_writeback_def)
  have burst: "as_plugged (fst (snd (dma_burst b i))) = as_plugged b" for b
    by (simp add: dma_burst_def Let_def dma_seek_def m)
  have pause: "as_plugged (fst (fold dma_pause_count cs (b, nb))) = as_plugged b" for cs b nb
    by (rule fold_inv [where P = "\<lambda>st. as_plugged (fst st) = as_plugged b"])
      (auto simp: dma_pause_count_def split: prod.split)
  show ?thesis
    using pause [of "[0..<3]" "dma_track a i\<lparr>as_dma_fired_this_line := True\<rparr>" False]
    by (auto simp: dma_service_def Let_def burst dma_track_def split: prod.split
        simp del: upt_rec_numeral)
qed

text \<open>Running the ASIC over a list of committed buses.\<close>

definition asic_run :: "asic_state \<Rightarrow> Bus list \<Rightarrow> asic_state" where
  "asic_run a is = fold (\<lambda>i a. fst (asic_step a i)) is a"

lemma as_plugged_step [simp]: "as_plugged (fst (asic_step a i)) = as_plugged a"
proof (cases "as_plugged a")
  case True
  have "as_plugged (fst (page_overlay b i)) = as_plugged b" for b
    by (simp add: page_overlay_def Let_def)
  moreover have "as_plugged (fst (asic_irq b i)) = as_plugged b" for b
    by (simp add: asic_irq_def asic_frame_line_def clear_dma_int_def Let_def)
  moreover have "as_plugged (asic_io_snoop a i) = as_plugged a"
    by (simp add: asic_io_snoop_def Let_def)
  ultimately show ?thesis
    using asic_step_next [OF True, of i] by (metis dma_service_plugged)
next
  case False
  then show ?thesis by (simp add: asic_step_def)
qed

lemma dma_burst_ends:
  assumes "asic_wf a" "as_plugged a" "dma_rank a \<le> length is" "\<forall>i \<in> set is. cpu_busak (b_cpu i)"
  shows "\<exists>n \<le> length is. as_dma_phase (asic_run a (take n is)) = DMA_IDLE"
  using assms
proof (induction "is" arbitrary: a)
  case Nil
  then show ?case using dma_rank_0 by (simp add: asic_run_def)
next
  case (Cons i "is")
  show ?case
  proof (cases "dma_rank a = 0")
    case True
    then have "as_dma_phase (asic_run a (take 0 (i # is))) = DMA_IDLE"
      using dma_rank_0 Cons.prems by (simp add: asic_run_def)
    then show ?thesis by blast
  next
    case False
    then have "dma_rank (fst (asic_step a i)) \<le> length is"
      using asic_step_rank [of a i] Cons.prems by auto
    then obtain n where "n \<le> length is" "as_dma_phase (asic_run (fst (asic_step a i)) (take n is)) = DMA_IDLE"
      using Cons.IH [of "fst (asic_step a i)"] Cons.prems by (auto simp: asic_step_wf)
    then have "Suc n \<le> length (i # is)" "as_dma_phase (asic_run a (take (Suc n) (i # is))) = DMA_IDLE"
      by (simp_all add: asic_run_def)
    then show ?thesis by blast
  qed
qed


subsection \<open>Fast-tier events against the per-cycle tick\<close>

text \<open>State up to the session-local generation counter and the strobe shadow.\<close>

definition strip_shadow :: "asic_state \<Rightarrow> asic_state" where
  "strip_shadow a = a\<lparr>as_vid_gen := 0, as_knock_prev := False\<rparr>"

lemma feed_knock_strip: "strip_shadow (feed_knock a v) = feed_knock (strip_shadow a) v"
  by (simp add: strip_shadow_def feed_knock_def Let_def)

lemma snoop_classic_strip:
  "strip_shadow (snoop_classic_palette a p v) = strip_shadow (snoop_classic_palette (strip_shadow a) p v)"
  by (simp add: strip_shadow_def snoop_classic_palette_def Let_def)

lemma rmr2_strip: "strip_shadow (rmr2_decode a p v) = rmr2_decode (strip_shadow a) p v"
  by (simp add: strip_shadow_def rmr2_decode_def)

lemma snoop_classic_idem:
  "strip_shadow (snoop_classic_palette (snoop_classic_palette a p v) p v) =
     strip_shadow (snoop_classic_palette a p v)"
  by (simp add: strip_shadow_def snoop_classic_palette_def Let_def)

lemma rmr2_idem: "rmr2_decode (rmr2_decode a p v) p v = rmr2_decode a p v"
  by (simp add: rmr2_decode_def)

lemma rmr2_classic_commute:
  "snoop_classic_palette (rmr2_decode a p v) p v = rmr2_decode (snoop_classic_palette a p v) p v"
  by (simp add: snoop_classic_palette_def rmr2_decode_def Let_def)

lemma io_snoop_first:
  assumes "as_plugged a" "\<not> as_knock_prev a"
  shows "strip_shadow (asic_io_snoop a (io_write_bus p v)) = strip_shadow (asic_fast_io_write a p v)"
proof -
  have "strip_shadow (b\<lparr>as_knock_prev := k\<rparr>) = strip_shadow b" for b k
    by (simp add: strip_shadow_def)
  then show ?thesis
    using assms
    by (simp add: asic_io_snoop_def asic_fast_io_write_def knock_sel_def Let_def)
      (metis rmr2_strip snoop_classic_strip)
qed

lemma io_snoop_again:
  assumes "as_knock_prev b = knock_sel (io_write_bus p v)"
    and "strip_shadow b = strip_shadow (rmr2_decode (snoop_classic_palette c p v) p v)"
  shows "strip_shadow (asic_io_snoop b (io_write_bus p v)) = strip_shadow b"
proof -
  have nop: "b\<lparr>as_knock_prev := knock_sel (io_write_bus p v)\<rparr> = b"
    using assms(1) by simp
  have "strip_shadow (asic_io_snoop b (io_write_bus p v)) =
      strip_shadow (rmr2_decode (snoop_classic_palette b p v) p v)"
    using assms(1) by (simp add: asic_io_snoop_def Let_def nop)
  also have "\<dots> = strip_shadow (rmr2_decode (snoop_classic_palette
      (rmr2_decode (snoop_classic_palette c p v) p v) p v) p v)"
    using assms(2) by (metis rmr2_strip snoop_classic_strip)
  also have "\<dots> = strip_shadow (rmr2_decode (snoop_classic_palette c p v) p v)"
    by (metis rmr2_classic_commute rmr2_idem rmr2_strip snoop_classic_idem)
  finally show ?thesis using assms(2) by simp
qed

lemma io_snoop_prev: "as_knock_prev (asic_io_snoop a i) = knock_sel i"
  by (simp add: asic_io_snoop_def Let_def snoop_classic_palette_def rmr2_decode_def)

lemma io_snoop_held:
  assumes "as_plugged a" "\<not> as_knock_prev a"
  shows "strip_shadow (((\<lambda>a. asic_io_snoop a (io_write_bus p v)) ^^ Suc n) a) =
    strip_shadow (asic_fast_io_write a p v)"
proof (induction n)
  case 0
  show ?case using io_snoop_first [OF assms] by simp
next
  case (Suc n)
  let ?b = "((\<lambda>a. asic_io_snoop a (io_write_bus p v)) ^^ Suc n) a"
  obtain c where c: "asic_fast_io_write a p v = rmr2_decode (snoop_classic_palette c p v) p v"
    using assms by (simp add: asic_fast_io_write_def Let_def)
  have "as_knock_prev ?b = knock_sel (io_write_bus p v)"
    by (simp add: io_snoop_prev)
  moreover have "strip_shadow ?b = strip_shadow (rmr2_decode (snoop_classic_palette c p v) p v)"
    using Suc.IH c by simp
  ultimately have "strip_shadow (asic_io_snoop ?b (io_write_bus p v)) = strip_shadow ?b"
    by (rule io_snoop_again)
  then show ?case using Suc.IH by simp
qed

text \<open>The register page.\<close>

lemma decode_write_lock [simp]:
  "as_locked (decode_write a p v) = as_locked a" "as_page_on (decode_write a p v) = as_page_on a"
  by (simp_all add: decode_write_def bump_gen_def decoder_frames Let_def)

lemma decode_write_page: "as_page (decode_write a p v) = (as_page a)(p AND 0x3FFF := v)"
  by (simp add: decode_write_def bump_gen_def decoder_frames Let_def)

lemma page_index_inj:
  fixes p q :: u16
  assumes "0x4000 \<le> p" "p < 0x8000" "0x4000 \<le> q" "q < 0x8000" "p AND 0x3FFF = q AND 0x3FFF"
  shows "p = q"
proof -
  have "unat p mod 16384 = unat q mod 16384"
    using arg_cong [OF assms(5), of unat] by (simp add: mask_simps unat_take_bit)
  moreover have "16384 \<le> unat p" "unat p < 32768" "16384 \<le> unat q" "unat q < 32768"
    using assms by (simp_all add: word_le_nat_alt word_less_nat_alt)
  ultimately have "unat p = unat q"
    by (metis (no_types, lifting) add_diff_inverse_nat div_less le_mod_geq less_diff_conv2 mod_less
        mult_2 not_less numeral_Bit0 numeral_One one_add_one)
  then show ?thesis by (simp add: word_unat_eq_iff)
qed

subsection \<open>Interrupt acknowledge\<close>

lemma frame_line_dcsr_mirror:
  "asic_frame_line (c\<lparr>as_page := (as_page c)(0x2C0F := as_page c 0x2C0F AND 0x7F)\<rparr>) l =
     asic_frame_line c l"
  by (auto simp: asic_frame_line_def Let_def and.assoc)

lemma asic_ack_agrees:
  assumes "cpu_m1 (b_cpu i)" "cpu_iorq (b_cpu i)"
  shows "asic_frame_line (fst (asic_irq a i)) l =
      asic_frame_line (snd (asic_batch_int_ack (asic_frame_line a (vid_frame_line (b_vid i))))) l"
  using assms by (simp add: asic_irq_def asic_batch_int_ack_def Let_def frame_line_dcsr_mirror)

subsection \<open>Interfaces provided\<close>

interpretation asic_drv: bus_driver asic_tick "\<lambda>a i. fst (asic_step a i)" "\<lambda>a i. snd (asic_step a i)"
  by unfold_locales (simp add: asic_tick_def)

interpretation asic_blob: state_blob asic_save asic_load "\<lambda>a. a\<lparr>as_vid_gen := 0\<rparr>" "\<lambda>a. ()"
  by unfold_locales (simp_all add: asic_save_def asic_load_def Let_def)


subsection \<open>Properties\<close>

text \<open>C2 (asic_run_wf): In every state the ASIC can reach by ticking from power-on, over any sequence of
  committed buses, the knock position stays within the sequence, the pen index within the palette, a
  bus-mastering burst has a valid channel index (so the channel arrays are never read out of bounds), and DMA
  pointers and loop targets stay word-aligned. Of the registers narrower than their C type, the sprite positions keep 10 and 9 bits,
  the magnifications one of the values 0, 1, 2 and 4, sprite pixels and palette components 4 bits, the scroll
  delays 4 and 3, the loop and pause counters 12, and the vector base is the power-on value 1 or has its low
  three bits clear. The split address register is stored with all 16 bits; what the CRTC reads of it has 14.\<close>
theorem asic_run_wf:
  "(let a = asic_run (asic_set_plugged asic_init plugged) is in
     as_lockpos a \<le> 16 \<and> as_classic_pen a \<le> 16 \<and>
     (as_dma_phase a = DMA_IDLE \<or> as_dma_phase a = DMA_WAIT_BUSAK \<or> as_dma_cur a < 3) \<and>
     (\<forall>c. even (as_dma_source a c) \<and> even (as_dma_loop_addr a c)) \<and>
     (\<forall>k. unat (as_sprite_x a k) < 2 ^ 10 \<and> unat (as_sprite_y a k) < 2 ^ 9 \<and>
        as_sprite_mx a k \<in> {0, 1, 2, 4} \<and> as_sprite_my a k \<in> {0, 1, 2, 4}) \<and>
     (\<forall>k x y. unat (as_sprite_px a k x y) < 2 ^ 4) \<and>
     (\<forall>k. unat (as_pal_r a k) < 2 ^ 4 \<and> unat (as_pal_g a k) < 2 ^ 4 \<and> unat (as_pal_b a k) < 2 ^ 4) \<and>
     unat (as_hscroll a) < 2 ^ 4 \<and> unat (as_vscroll a) < 2 ^ 3 \<and>
     (\<forall>c. unat (as_dma_loops a c) < 2 ^ 12 \<and> unat (as_dma_pause_ticks a c) < 2 ^ 12) \<and>
     (as_int_vector a = 1 \<or> as_int_vector a AND 7 = 0) \<and> unat (snd (asic_vid_split a)) < 2 ^ 14)"
proof -
  have "asic_wf (asic_set_plugged asic_init plugged)"
    using asic_wf_init by (simp add: asic_wf_def asic_set_plugged_def mastering_def)
  then have "asic_wf (asic_run (asic_set_plugged asic_init plugged) is)"
    unfolding asic_run_def by (rule fold_inv) (rule asic_step_wf)
  then show ?thesis
    using split_addr_read [THEN fits_unat, of "asic_run (asic_set_plugged asic_init plugged) is"]
    unfolding asic_wf_def fits_iff_unat mastering_def kLockLen_def vector_ok_def Let_def by simp blast
qed

text \<open>(knock_unlocks): Whatever position the knock FSM is in, writing a non-zero byte, then the documented
  sequence, then any further byte to the CRTC select port leaves the ASIC unlocked.\<close>
theorem knock_unlocks:
  assumes "as_lockpos a \<le> kLockLen" and "x > 0"
  shows "\<not> as_locked (feed_all (x # drop 1 kLockSeq @ [y]) a)"
  using assms by (rule feed_all_unlocks)

theorem knock_unlocks_witness:
  "\<not> as_locked (feed_all (0xFF # drop 1 kLockSeq @ [0xEE]) asic_init)"
  by (rule knock_unlocks) (simp_all add: asic_init_def)



text \<open>(asic_held_io_write): An I/O write held on the bus for any number of master cycles has the effect of the one
  event the Fast tier applies: one knock byte, one palette write, one RMR2 map (the session-local
  palette generation counter and the strobe shadow excepted).\<close>
theorem asic_held_io_write:
  assumes "as_plugged a" and "\<not> as_knock_prev a"
  shows "strip_shadow (((\<lambda>a. asic_io_snoop a (io_write_bus p v)) ^^ Suc n) a) =
    strip_shadow (asic_fast_io_write a p v)"
  using assms by (rule io_snoop_held)

theorem asic_held_io_write_witness:
  "strip_shadow (((\<lambda>a. asic_io_snoop a (io_write_bus 0xBC00 0xFF)) ^^ Suc 3) (asic_set_plugged asic_init True)) =
    strip_shadow (asic_fast_io_write (asic_set_plugged asic_init True) 0xBC00 0xFF)"
  by (rule asic_held_io_write) (simp_all add: asic_set_plugged_def asic_init_def)

text \<open>(asic_page_roundtrip): While the register page is armed, a claimed write reads back at its address and leaves every
  other address of the page, and the page's visibility, as they were.\<close>
theorem asic_page_roundtrip:
  assumes "asic_fast_mem_write a p v = (True, a')"
  shows "asic_fast_mem_read a' p = Some v \<and>
    (p \<noteq> q \<longrightarrow> asic_fast_mem_read a' q = asic_fast_mem_read a q) \<and>
    asic_page_armed a' = asic_page_armed a"
  using assms page_index_inj [of p q]
  by (auto simp: asic_fast_mem_write_def asic_fast_mem_read_def asic_page_armed_def
      decode_write_page not_less not_le split: if_splits)

definition page_open :: asic_state where
  "page_open = asic_init\<lparr>as_plugged := True, as_locked := False, as_page_on := True\<rparr>"

theorem asic_page_roundtrip_witness:
  "asic_fast_mem_read (snd (asic_fast_mem_write page_open 0x6400 0x5A)) 0x6400 = Some 0x5A"
proof -
  have "asic_fast_mem_write page_open 0x6400 0x5A =
      (True, snd (asic_fast_mem_write page_open 0x6400 0x5A))"
    by (simp add: asic_fast_mem_write_def page_open_def asic_init_def)
  from asic_page_roundtrip [OF this] show ?thesis by blast
qed

text \<open>(asic_int_ack_agrees): The Fast tier's acknowledge event drives the vector the per-cycle acknowledge drives (raster over
  channel 2 over 1 over 0, the floating 0xFF when nothing is pending) and leaves the state the next
  cycle's frame-line sample would see.\<close>
theorem asic_int_ack_agrees:
  assumes "cpu_m1 (b_cpu i)" and "cpu_iorq (b_cpu i)"
  shows "cpu_data (b_cpu (drive (snd (asic_irq a i)) bus_resting)) =
      fst (asic_batch_int_ack (asic_frame_line a (vid_frame_line (b_vid i)))) \<and>
    asic_frame_line (fst (asic_irq a i)) l =
      asic_frame_line (snd (asic_batch_int_ack (asic_frame_line a (vid_frame_line (b_vid i))))) l"
  using assms asic_ack_agrees [OF assms]
  by (simp add: asic_irq_def asic_batch_int_ack_def Let_def bus_resting_def)

definition int_ack_bus :: Bus where
  "int_ack_bus = bus_resting\<lparr>b_cpu := (b_cpu bus_resting)\<lparr>cpu_m1 := True, cpu_iorq := True\<rparr>\<rparr>"

theorem asic_int_ack_agrees_witness:
  "cpu_data (b_cpu (drive (snd (asic_irq (page_open\<lparr>as_pri_pending := True\<rparr>) int_ack_bus)) bus_resting)) =
     fst (asic_batch_int_ack (asic_frame_line (page_open\<lparr>as_pri_pending := True\<rparr>) 0))"
  using asic_int_ack_agrees [of int_ack_bus "page_open\<lparr>as_pri_pending := True\<rparr>" 0]
  by (simp add: int_ack_bus_def bus_resting_def)

end
