(* ===== verification/Asic_Dma.thy ===== *)
theory Asic_Dma
  imports Asic
begin

text \<open>
  The DMA sound sequencer of \<open>asic.cpp\<close> over time: a burst ends and gives the bus back until the next
  line's trigger, and a REPEAT ... LOOP program is followed through every scanline it takes.
\<close>

subsection \<open>Between bursts\<close>

text \<open>What the knock, the palette and RMR2 snoops, the interrupt logic and the page overlay leave of the sequencer.\<close>

definition dma_view :: "asic_state \<Rightarrow> (bool \<times> DmaPhase \<times> nat) \<times> (nat \<Rightarrow> u16) \<times> (nat \<Rightarrow> u16) \<times> (nat \<Rightarrow> u16) \<times>
    (nat \<Rightarrow> u16) \<times> (nat \<Rightarrow> bool) \<times> bool \<times> u8 \<times> bool \<times> u8" where
  "dma_view a = ((as_plugged a, as_dma_phase a, as_dma_cur a), as_dma_source a, as_dma_loops a, as_dma_loop_addr a,
     as_dma_pause_ticks a, as_dma_enabled a, as_dma_hsync_prev a, as_dma_prev_hsw a,
     as_dma_fired_this_line a, as_dma_lo a)"

lemma dma_view_feed_knock [simp]: "dma_view (feed_knock a v) = dma_view a"
  by (simp add: dma_view_def feed_knock_def Let_def)

lemma dma_view_classic [simp]: "dma_view (snoop_classic_palette a p v) = dma_view a"
  by (simp add: dma_view_def snoop_classic_palette_def Let_def)

lemma dma_view_rmr2 [simp]: "dma_view (rmr2_decode a p v) = dma_view a"
  by (simp add: dma_view_def rmr2_decode_def)

lemma dma_view_fields [simp]:
  "dma_view (a\<lparr>as_knock_prev := b\<rparr>) = dma_view a" "dma_view (a\<lparr>as_pri_pending := b\<rparr>) = dma_view a"
  "dma_view (a\<lparr>as_pri_prev_line := l\<rparr>) = dma_view a" "dma_view (a\<lparr>as_page := p\<rparr>) = dma_view a"
  "dma_view (a\<lparr>as_dma_int := f\<rparr>) = dma_view a" "dma_view (a\<lparr>as_pgwr_prev := b\<rparr>) = dma_view a"
  by (simp_all add: dma_view_def)

lemma dma_view_io_snoop [simp]: "dma_view (asic_io_snoop a i) = dma_view a"
  by (simp add: asic_io_snoop_def Let_def)

lemma dma_view_irq [simp]: "dma_view (fst (asic_irq a i)) = dma_view a"
  by (simp add: asic_irq_def asic_frame_line_def clear_dma_int_def Let_def)

lemma dma_view_overlay:
  "\<not> cpu_wr (b_cpu i) \<Longrightarrow> dma_view (fst (page_overlay a i)) = dma_view a"
  by (simp add: page_overlay_def Let_def)

lemma dma_trigger_frame [simp]: "dma_trigger (fst (asic_irq (asic_io_snoop a i) i)) j = dma_trigger a j"
proof -
  have "dma_view (fst (asic_irq (asic_io_snoop a i) i)) = dma_view a" by simp
  then show ?thesis by (simp add: dma_trigger_def dma_view_def)
qed

lemma dma_phase_frame [simp]: "as_dma_phase (fst (asic_irq (asic_io_snoop a i) i)) = as_dma_phase a"
proof -
  have "dma_view (fst (asic_irq (asic_io_snoop a i) i)) = dma_view a" by simp
  then show ?thesis by (simp add: dma_view_def)
qed

lemma dma_phase_overlay [simp]: "as_dma_phase (fst (page_overlay a i)) = as_dma_phase a"
  by (simp add: page_overlay_def Let_def)

lemma dma_service_idle:
  assumes "as_dma_phase a = DMA_IDLE" "\<not> dma_trigger a i"
  shows "dma_service a i = (False, dma_track a i, [])"
  using assms by (simp add: dma_service_def Let_def dma_track_def)

lemma dma_track_phase [simp]: "as_dma_phase (dma_track a i) = as_dma_phase a"
  by (simp add: dma_track_def Let_def)

text \<open>The lines a bus master drives.\<close>

definition bus_free :: "asg list \<Rightarrow> bool" where
  "bus_free ds \<longleftrightarrow> (let c = b_cpu (drive ds bus_resting) in
     \<not> cpu_busrq c \<and> \<not> cpu_mreq c \<and> \<not> cpu_rd c \<and> \<not> cpu_wr c \<and> cpu_addr c = 0)"

fun quiet_asg :: "asg \<Rightarrow> bool" where
  "quiet_asg Dr_irq = True"
| "quiet_asg Dr_ramdis = True"
| "quiet_asg (Dr_data v) = True"
| "quiet_asg d = False"

definition master_lines :: "Bus \<Rightarrow> bool \<times> bool \<times> bool \<times> bool \<times> u16" where
  "master_lines b = (cpu_busrq (b_cpu b), cpu_mreq (b_cpu b), cpu_rd (b_cpu b), cpu_wr (b_cpu b), cpu_addr (b_cpu b))"

lemma quiet_lines: "quiet_asg d \<Longrightarrow> master_lines (apply_asg d b) = master_lines b"
  by (cases d) (simp_all add: master_lines_def)

lemma quiet_drive: "list_all quiet_asg ds \<Longrightarrow> master_lines (drive ds b) = master_lines b"
  by (induction ds arbitrary: b) (simp_all add: drive_def quiet_lines)

lemma bus_free_list: "list_all quiet_asg ds \<Longrightarrow> bus_free ds"
  using quiet_drive [of ds bus_resting] by (simp add: bus_free_def master_lines_def bus_resting_def Let_def)

lemma irq_drives: "list_all quiet_asg (snd (asic_irq a i))"
  by (simp add: asic_irq_def Let_def)

lemma overlay_drives: "list_all quiet_asg (snd (page_overlay a i))"
  by (simp add: page_overlay_def Let_def)

lemma asic_step_idle:
  assumes "as_dma_phase a = DMA_IDLE" "\<not> dma_trigger a i" "as_plugged a"
  defines "r \<equiv> asic_irq (asic_io_snoop a i) i"
  defines "b \<equiv> dma_track (fst r) i"
  shows "asic_step a i = (if as_locked b \<or> \<not> as_page_on b then (b, snd r)
     else (fst (page_overlay b i), snd r @ snd (page_overlay b i)))"
proof -
  have *: "dma_service (fst r) i = (False, b, [])"
    using assms by (simp add: r_def b_def dma_service_idle)
  show ?thesis
    unfolding asic_step_def case_prod_beta using assms(3) by (simp add: r_def [symmetric] *)
qed

lemma idle_step:
  assumes "as_dma_phase a = DMA_IDLE" "\<not> dma_trigger a i"
  shows "as_dma_phase (fst (asic_step a i)) = DMA_IDLE" "bus_free (snd (asic_step a i))"
proof (atomize (full), cases "as_plugged a")
  case False
  then show "as_dma_phase (fst (asic_step a i)) = DMA_IDLE \<and> bus_free (snd (asic_step a i))"
    using assms by (simp add: asic_step_def bus_free_list)
next
  case True
  note eq = asic_step_idle [OF assms True]
  have "as_dma_phase (fst (asic_step a i)) = DMA_IDLE"
    using assms by (simp add: eq)
  moreover have "bus_free (snd (asic_step a i))"
    by (rule bus_free_list) (simp add: eq irq_drives overlay_drives)
  ultimately show "as_dma_phase (fst (asic_step a i)) = DMA_IDLE \<and> bus_free (snd (asic_step a i))" ..
qed

text \<open>No line trigger comes while the buses \<open>is\<close> are committed one after the other.\<close>

primrec no_trigger :: "asic_state \<Rightarrow> Bus list \<Rightarrow> bool" where
  "no_trigger a [] \<longleftrightarrow> True"
| "no_trigger a (i # is) \<longleftrightarrow> \<not> dma_trigger a i \<and> no_trigger (fst (asic_step a i)) is"

lemma idle_run:
  assumes "as_dma_phase a = DMA_IDLE" "no_trigger a (is @ [j])"
  shows "as_dma_phase (asic_run a is) = DMA_IDLE \<and> bus_free (snd (asic_step (asic_run a is) j))"
  using assms by (induction "is" arbitrary: a) (simp_all add: asic_run_def idle_step)


subsection \<open>A channel's program, line by line\<close>

text \<open>A board around the sequencer: a Z80 that grants the bus a cycle after it is asked for, a memory that answers a
  read a cycle after it sees one, and HSYNC at level \<open>hs\<close>. One cycle computes the next committed bus.\<close>

definition line_bus :: "bool \<Rightarrow> bool \<Rightarrow> Bus" where
  "line_bus hs ak = bus_resting\<lparr>b_cpu := (b_cpu bus_resting)\<lparr>cpu_busak := ak\<rparr>,
     b_vid := (b_vid bus_resting)\<lparr>vid_hsync := hs\<rparr>\<rparr>"

definition dma_cycle :: "(u16 \<Rightarrow> u8) \<Rightarrow> bool \<Rightarrow> asic_state \<times> Bus \<Rightarrow> asic_state \<times> Bus" where
  "dma_cycle mem hs s = (let r = asic_step (fst s) (snd s); c = b_cpu (snd s) in
     (fst r, drive (snd r @ (if cpu_mreq c \<and> cpu_rd c then [Dr_data (mem (cpu_addr c))] else []))
        (line_bus hs (cpu_busrq c))))"

text \<open>A scanline of 64 microseconds at 16 MHz: HSYNC high for 64 master cycles and low for 960.\<close>

definition dma_line :: "(u16 \<Rightarrow> u8) \<Rightarrow> asic_state \<times> Bus \<Rightarrow> asic_state \<times> Bus" where
  "dma_line mem s = (dma_cycle mem False ^^ 960) ((dma_cycle mem True ^^ 64) s)"

definition word_at :: "(u16 \<Rightarrow> u8) \<Rightarrow> u16 \<Rightarrow> u16" where
  "word_at mem p = ucast (mem p) OR push_bit 8 (ucast (mem (p + 1)))"

definition bus_lines :: "Bus \<Rightarrow> (bool \<times> bool \<times> bool \<times> bool) \<times> u16 \<times> bool \<times> bool \<times> bool \<times> bool" where
  "bus_lines b = ((cpu_busrq (b_cpu b), cpu_mreq (b_cpu b), cpu_rd (b_cpu b), cpu_wr (b_cpu b)), cpu_addr (b_cpu b),
     cpu_iorq (b_cpu b), cpu_busak (b_cpu b), vid_hsync (b_vid b), clk_crtc (b_clk b))"

lemma quiet_bus_lines: "quiet_asg d \<Longrightarrow> bus_lines (apply_asg d b) = bus_lines b"
  by (cases d) (simp_all add: bus_lines_def)

lemma quiet_drive_lines: "list_all quiet_asg ds \<Longrightarrow> bus_lines (drive ds b) = bus_lines b"
  by (induction ds arbitrary: b) (simp_all add: drive_def quiet_bus_lines)

lemma apply_lines_cong: "bus_lines b = bus_lines b' \<Longrightarrow> bus_lines (apply_asg d b) = bus_lines (apply_asg d b')"
  unfolding bus_lines_def by (cases d; simp)

lemma drive_lines_cong: "bus_lines b = bus_lines b' \<Longrightarrow> bus_lines (drive ds b) = bus_lines (drive ds b')"
proof (induction ds arbitrary: b b')
  case (Cons d ds)
  show ?case using Cons.IH [OF apply_lines_cong [OF Cons.prems]] by (simp add: drive_def)
qed (simp add: drive_def)

lemma quiet_around:
  assumes "list_all quiet_asg q1" "list_all quiet_asg q2"
  shows "bus_lines (drive (q1 @ ds @ q2) b) = bus_lines (drive ds b)"
  using assms by (simp add: drive_append quiet_drive_lines drive_lines_cong [OF quiet_drive_lines])

lemma asic_step_dma:
  assumes "as_plugged a" "\<not> cpu_wr (b_cpu i)"
  obtains b q1 q2 where "dma_view b = dma_view a"
    "dma_view (fst (asic_step a i)) = dma_view (fst (snd (dma_service b i)))"
    "snd (asic_step a i) = q1 @ snd (snd (dma_service b i)) @ q2"
    "list_all quiet_asg q1" "list_all quiet_asg q2"
proof -
  let ?r = "asic_irq (asic_io_snoop a i) i"
  let ?s = "dma_service (fst ?r) i"
  have "asic_step a i = (if fst ?s \<or> as_locked (fst (snd ?s)) \<or> \<not> as_page_on (fst (snd ?s))
      then (fst (snd ?s), snd ?r @ snd (snd ?s))
      else (fst (page_overlay (fst (snd ?s)) i), snd ?r @ snd (snd ?s) @ snd (page_overlay (fst (snd ?s)) i)))"
    unfolding asic_step_def case_prod_beta using assms(1) by simp
  then show thesis
    using that [of "fst ?r" "snd ?r" "[]"] that [of "fst ?r" "snd ?r" "snd (page_overlay (fst (snd ?s)) i)"] assms(2)
    by (simp add: irq_drives overlay_drives dma_view_overlay split: if_splits)
qed

lemma dma_cycle_next:
  assumes "as_plugged a" "\<not> cpu_wr (b_cpu i)"
  obtains b where "dma_view b = dma_view a"
    "dma_view (fst (dma_cycle mem hs (a, i))) = dma_view (fst (snd (dma_service b i)))"
    "bus_lines (snd (dma_cycle mem hs (a, i))) =
       bus_lines (drive (snd (snd (dma_service b i))) (line_bus hs (cpu_busrq (b_cpu i))))"
    "cpu_mreq (b_cpu i) \<and> cpu_rd (b_cpu i) \<longrightarrow>
       cpu_data (b_cpu (snd (dma_cycle mem hs (a, i)))) = mem (cpu_addr (b_cpu i))"
proof -
  obtain b q1 q2 where b: "dma_view b = dma_view a"
    "dma_view (fst (asic_step a i)) = dma_view (fst (snd (dma_service b i)))"
    "snd (asic_step a i) = q1 @ snd (snd (dma_service b i)) @ q2"
    "list_all quiet_asg q1" "list_all quiet_asg q2"
    using asic_step_dma [OF assms] .
  let ?m = "if cpu_mreq (b_cpu i) \<and> cpu_rd (b_cpu i) then [Dr_data (mem (cpu_addr (b_cpu i)))] else []"
  have "list_all quiet_asg (q2 @ ?m)" using b(5) by simp
  note quiet = quiet_around [OF b(4) this]
  show thesis
  proof (rule that [of b])
    show "dma_view (fst (dma_cycle mem hs (a, i))) = dma_view (fst (snd (dma_service b i)))"
      using b(2) by (simp add: dma_cycle_def Let_def)
    show "bus_lines (snd (dma_cycle mem hs (a, i))) =
        bus_lines (drive (snd (snd (dma_service b i))) (line_bus hs (cpu_busrq (b_cpu i))))"
      using quiet by (simp add: dma_cycle_def Let_def b(3))
    show "cpu_mreq (b_cpu i) \<and> cpu_rd (b_cpu i) \<longrightarrow>
        cpu_data (b_cpu (snd (dma_cycle mem hs (a, i)))) = mem (cpu_addr (b_cpu i))"
      by (simp add: dma_cycle_def Let_def drive_def)
  qed (rule b(1))
qed

text \<open>Where channel \<open>c\<close>, alone enabled and not pausing, stands: the phase, its source register, its loop count and
  loop address, and the byte latched; with the committed bus in HSYNC and nobody else's transfer on it.\<close>

definition seq_at :: "nat \<Rightarrow> DmaPhase \<Rightarrow> u16 \<Rightarrow> u16 \<Rightarrow> u16 \<Rightarrow> asic_state \<Rightarrow> bool" where
  "seq_at c ph src n la a \<longleftrightarrow> as_plugged a \<and> as_dma_phase a = ph \<and>
     as_dma_cur a = (if ph = DMA_WAIT_BUSAK then 0 else if ph = DMA_IDLE then as_dma_cur a else c) \<and>
     (\<forall>d < 3. as_dma_enabled a d \<longleftrightarrow> d = c) \<and> as_dma_pause_ticks a c = 0 \<and>
     as_dma_source a c = src \<and> as_dma_loops a c = n \<and> as_dma_loop_addr a c = la"

definition bus_at :: "bool \<Rightarrow> Bus \<Rightarrow> bool" where
  "bus_at hs i \<longleftrightarrow> vid_hsync (b_vid i) = hs \<and> \<not> cpu_wr (b_cpu i) \<and> \<not> cpu_iorq (b_cpu i) \<and> \<not> clk_crtc (b_clk i)"

definition reads :: "Bus \<Rightarrow> u16 \<Rightarrow> bool" where
  "reads i p \<longleftrightarrow> cpu_mreq (b_cpu i) \<and> cpu_rd (b_cpu i) \<and> cpu_addr (b_cpu i) = p"

lemma seq_at_view: "dma_view a = dma_view b \<Longrightarrow> seq_at c ph src n la a = seq_at c ph src n la b"
  by (simp add: seq_at_def dma_view_def)

lemmas seq_eval = seq_at_def bus_at_def reads_def dma_view_def bus_lines_def dma_service_def dma_burst_def
  dma_master_def Let_def dma_track_def drive_def line_bus_def bus_resting_def

lemma seek_self:
  assumes "c < 3" "\<forall>d < 3. as_dma_enabled a d \<longleftrightarrow> d = c" "as_dma_pause_ticks a c = 0"
  shows "dma_seek_from a 0 = c" "dma_seek_from a (Suc c) = 3"
proof -
  consider "c = 0" | "c = 1" | "c = 2" using assms(1) by linarith
  then show "dma_seek_from a 0 = c" "dma_seek_from a (Suc c) = 3"
    using assms(2,3) by (cases; simp add: dma_seek_from.simps numeral_2_eq_2 numeral_3_eq_3)+
qed

lemma dma_seq_step:
  assumes "seq_at c ph src n la (fst s)" "bus_at h (snd s)"
    and "\<And>b a' i'. seq_at c ph src n la b \<Longrightarrow> dma_view b = dma_view (fst s) \<Longrightarrow>
      dma_view a' = dma_view (fst (snd (dma_service b (snd s)))) \<Longrightarrow>
      bus_lines i' = bus_lines (drive (snd (snd (dma_service b (snd s)))) (line_bus hs (cpu_busrq (b_cpu (snd s))))) \<Longrightarrow>
      R (a', i')"
  shows "R (dma_cycle mem hs s)"
proof -
  obtain a i where s: "s = (a, i)" by (cases s)
  have *: "as_plugged a" "\<not> cpu_wr (b_cpu i)" using assms s by (simp_all add: seq_at_def bus_at_def)
  obtain b where b: "dma_view b = dma_view a"
    "dma_view (fst (dma_cycle mem hs (a, i))) = dma_view (fst (snd (dma_service b i)))"
    "bus_lines (snd (dma_cycle mem hs (a, i))) =
       bus_lines (drive (snd (snd (dma_service b i))) (line_bus hs (cpu_busrq (b_cpu i))))"
    using dma_cycle_next [OF *, where mem = mem and hs = hs] by metis
  have "seq_at c ph src n la b" using assms(1) seq_at_view [OF b(1)] s by simp
  then show ?thesis
    using assms(3) [of b "fst (dma_cycle mem hs s)" "snd (dma_cycle mem hs s)"] b s by simp
qed

lemma dma_cycle_data: "reads (snd s) p \<Longrightarrow> cpu_data (b_cpu (snd (dma_cycle mem hs s))) = mem p"
  by (simp add: dma_cycle_def Let_def drive_def reads_def)

text \<open>The stations of a scanline: the burst under way, and between bursts.\<close>

definition busy :: "nat \<Rightarrow> DmaPhase \<Rightarrow> u16 \<Rightarrow> u16 \<Rightarrow> u16 \<Rightarrow> asic_state \<times> Bus \<Rightarrow> bool" where
  "busy c ph src n la s \<longleftrightarrow> seq_at c ph src n la (fst s) \<and> as_dma_hsync_prev (fst s) \<and> bus_at True (snd s)"

definition at_line :: "nat \<Rightarrow> u16 \<Rightarrow> u16 \<Rightarrow> u16 \<Rightarrow> asic_state \<times> Bus \<Rightarrow> bool" where
  "at_line c src n la s \<longleftrightarrow> seq_at c DMA_IDLE src n la (fst s) \<and> \<not> as_dma_hsync_prev (fst s) \<and>
     bus_at False (snd s) \<and> \<not> cpu_busrq (b_cpu (snd s)) \<and> \<not> cpu_busak (b_cpu (snd s))"

lemma busy_step:
  assumes "busy c ph src n la s"
    and "\<And>b a' i'. seq_at c ph src n la b \<Longrightarrow> as_dma_hsync_prev b \<Longrightarrow> as_dma_lo b = as_dma_lo (fst s) \<Longrightarrow> bus_at True (snd s) \<Longrightarrow>
      dma_view a' = dma_view (fst (snd (dma_service b (snd s)))) \<Longrightarrow>
      bus_lines i' = bus_lines (drive (snd (snd (dma_service b (snd s)))) (line_bus hs (cpu_busrq (b_cpu (snd s))))) \<Longrightarrow>
      R (a', i')"
  shows "R (dma_cycle mem hs s)"
proof (rule dma_seq_step)
  show "seq_at c ph src n la (fst s)" "bus_at True (snd s)" using assms(1) by (simp_all add: busy_def)
  fix b a' i'
  assume "seq_at c ph src n la b" "dma_view b = dma_view (fst s)"
    "dma_view a' = dma_view (fst (snd (dma_service b (snd s))))"
    "bus_lines i' = bus_lines (drive (snd (snd (dma_service b (snd s)))) (line_bus hs (cpu_busrq (b_cpu (snd s)))))"
  moreover have "as_dma_hsync_prev b \<and> as_dma_lo b = as_dma_lo (fst s)"
    using assms(1) \<open>dma_view b = dma_view (fst s)\<close> by (simp add: busy_def dma_view_def)
  ultimately show "R (a', i')"
    using assms(1,2) by (simp add: busy_def)
qed

lemma busy_fetch0:
  "busy c DMA_FETCH0 src n la s \<Longrightarrow>
     (\<lambda>t. busy c DMA_FETCH0_W src n la t \<and> reads (snd t) src) (dma_cycle mem True s)"
  by (erule busy_step) (simp add: busy_def seq_eval)

lemma busy_fetch0_w:
  assumes "busy c DMA_FETCH0_W src n la s"
  shows "(\<lambda>t. busy c DMA_FETCH1 src n la t) (dma_cycle mem True s)"
  using assms by (rule busy_step) (simp add: busy_def seq_eval)

lemma busy_fetch1:
  "busy c DMA_FETCH1 src n la s \<Longrightarrow>
     (\<lambda>t. busy c DMA_FETCH1_W src n la t \<and> reads (snd t) (src + 1) \<and> as_dma_lo (fst t) = cpu_data (b_cpu (snd s)))
       (dma_cycle mem True s)"
  by (erule busy_step) (simp add: busy_def seq_eval)

lemma busy_fetch1_w:
  "busy c DMA_FETCH1_W src n la s \<Longrightarrow>
     (\<lambda>t. busy c DMA_EXEC src n la t \<and> as_dma_lo (fst t) = as_dma_lo (fst s)) (dma_cycle mem True s)"
  by (erule busy_step) (simp add: busy_def seq_eval)

text \<open>The decoded word, at the end of the fetch.\<close>

definition decoded :: "(u16 \<Rightarrow> u8) \<Rightarrow> u16 \<Rightarrow> asic_state \<times> Bus \<Rightarrow> bool" where
  "decoded mem p s \<longleftrightarrow> ucast (as_dma_lo (fst s)) OR push_bit 8 (ucast (cpu_data (b_cpu (snd s)))) = word_at mem p"

lemma dma_exec_load: "w AND 0x7000 = 0 \<Longrightarrow> dma_exec b c w =
    (True, b\<lparr>as_dma_psg_r := ucast (drop_bit 8 (w AND 0x0F00)), as_dma_psg_v := ucast (w AND 0x00FF)\<rparr>)"
  by (simp add: dma_exec_def)

lemma dma_exec_rep: "w AND 0x7000 = 0x2000 \<Longrightarrow> dma_exec b c w = (False, dma_exec_repeat b c w)"
  by (simp add: dma_exec_def)

lemma dma_exec_loop: "dma_exec b c 0x4001 = (False, dma_exec_ctl b c 0x4001)"
  by (simp add: dma_exec_def)

lemma dma_ctl_loop: "dma_exec_ctl b c 0x4001 = (if as_dma_loops b c > 0
    then b\<lparr>as_dma_source := (as_dma_source b)(c := as_dma_loop_addr b c),
           as_dma_loops := (as_dma_loops b)(c := as_dma_loops b c - 1)\<rparr> else b)"
  by (simp add: dma_exec_ctl_def)

lemma dma_master_exec:
  assumes "as_dma_phase b = DMA_EXEC" "as_dma_cur b = c"
    and "ucast (as_dma_lo b) OR push_bit 8 (ucast (cpu_data (b_cpu i))) = w"
  defines "r \<equiv> dma_exec (b\<lparr>as_dma_source := (as_dma_source b)(c := as_dma_source b c + 2)\<rparr>) c w"
  shows "dma_master b i = ((dma_writeback (snd r) c)\<lparr>as_dma_phase := (if fst r then DMA_PSG_SEL else DMA_ADVANCE)\<rparr>, [])"
  using assms(1-3) by (simp add: dma_master_def r_def Let_def)

lemma seq_at_exec:
  assumes "seq_at c DMA_EXEC src n la b"
    and w: "ucast (as_dma_lo b) OR push_bit 8 (ucast (cpu_data (b_cpu i))) = w"
  shows "w AND 0x7000 = 0 \<Longrightarrow> seq_at c DMA_PSG_SEL (src + 2) n la (fst (dma_master b i))"
    "w AND 0x7000 = 0x2000 \<Longrightarrow> seq_at c DMA_ADVANCE (src + 2) (w AND 0x0FFF) (src + 4) (fst (dma_master b i))"
    "w = 0x4001 \<Longrightarrow> seq_at c DMA_ADVANCE (if n > 0 then la else src + 2) (if n > 0 then n - 1 else n) la
       (fst (dma_master b i))"
proof -
  have b: "as_dma_phase b = DMA_EXEC" "as_dma_cur b = c" using assms(1) by (simp_all add: seq_at_def)
  note eq = dma_master_exec [OF b w]
  show "w AND 0x7000 = 0 \<Longrightarrow> seq_at c DMA_PSG_SEL (src + 2) n la (fst (dma_master b i))"
    using assms(1) by (simp add: eq dma_exec_load seq_at_def dma_writeback_def Let_def)
  show "w AND 0x7000 = 0x2000 \<Longrightarrow> seq_at c DMA_ADVANCE (src + 2) (w AND 0x0FFF) (src + 4) (fst (dma_master b i))"
    using assms(1) by (simp add: eq dma_exec_rep dma_exec_repeat_def seq_at_def dma_writeback_def Let_def)
  show "w = 0x4001 \<Longrightarrow> seq_at c DMA_ADVANCE (if n > 0 then la else src + 2) (if n > 0 then n - 1 else n) la
       (fst (dma_master b i))"
    using assms(1) by (simp add: eq dma_exec_loop dma_ctl_loop seq_at_def dma_writeback_def Let_def)
qed

lemma dma_track_same:
  assumes "as_dma_hsync_prev b" "bus_at True i"
  shows "dma_track b i = b"
  using assms by (cases b) (simp add: dma_track_def bus_at_def)

lemma dma_exec_prev [simp]: "as_dma_hsync_prev (snd (dma_exec b c w)) = as_dma_hsync_prev b"
  by (simp add: dma_exec_def dma_exec_pause_def dma_exec_repeat_def dma_exec_ctl_def Let_def)

lemma exec_service:
  assumes "seq_at c DMA_EXEC src n la b" "as_dma_hsync_prev b" "bus_at True i"
  shows "dma_service b i = (True, fst (dma_master b i), [Dr_busrq])" "as_dma_hsync_prev (fst (dma_master b i))"
proof -
  have b: "as_dma_phase b = DMA_EXEC" "as_dma_cur b = c" using assms(1) by (simp_all add: seq_at_def)
  note eq = dma_master_exec [OF b refl]
  show "dma_service b i = (True, fst (dma_master b i), [Dr_busrq])"
    using b by (simp add: dma_service_def dma_track_same [OF assms(2,3)] dma_burst_def Let_def eq)
  show "as_dma_hsync_prev (fst (dma_master b i))"
    using assms(2) by (simp add: eq dma_writeback_def Let_def)
qed

lemma busy_exec:
  assumes "busy c DMA_EXEC src n la s" "decoded mem src s"
  shows "word_at mem src AND 0x7000 = 0 \<Longrightarrow> busy c DMA_PSG_SEL (src + 2) n la (dma_cycle mem True s)"
    "word_at mem src AND 0x7000 = 0x2000 \<Longrightarrow>
       busy c DMA_ADVANCE (src + 2) (word_at mem src AND 0x0FFF) (src + 4) (dma_cycle mem True s)"
    "word_at mem src = 0x4001 \<Longrightarrow>
       busy c DMA_ADVANCE (if n > 0 then la else src + 2) (if n > 0 then n - 1 else n) la (dma_cycle mem True s)"
proof -
  have *: "busy c ph' src' n' la' (dma_cycle mem True s)"
    if "\<And>b. seq_at c DMA_EXEC src n la b \<Longrightarrow>
        ucast (as_dma_lo b) OR push_bit 8 (ucast (cpu_data (b_cpu (snd s)))) = word_at mem src \<Longrightarrow>
        seq_at c ph' src' n' la' (fst (dma_master b (snd s)))" for ph' src' n' la'
    using assms(1)
  proof (rule busy_step)
    fix b a' i'
    assume b: "seq_at c DMA_EXEC src n la b" "as_dma_hsync_prev b" "as_dma_lo b = as_dma_lo (fst s)" "bus_at True (snd s)"
      and step: "dma_view a' = dma_view (fst (snd (dma_service b (snd s))))"
        "bus_lines i' = bus_lines (drive (snd (snd (dma_service b (snd s)))) (line_bus True (cpu_busrq (b_cpu (snd s)))))"
    note srv = exec_service [OF b(1,2,4)]
    have "seq_at c ph' src' n' la' (fst (dma_master b (snd s)))"
      using that b assms(2) by (simp add: decoded_def)
    then have "seq_at c ph' src' n' la' a'"
      using seq_at_view [of a' "fst (dma_master b (snd s))"] step(1) srv(1) by simp
    moreover have "as_dma_hsync_prev a'"
      using step(1) srv by (simp add: dma_view_def)
    moreover have "bus_at True i'"
      using step(2) srv(1) by (simp add: bus_at_def bus_lines_def drive_def line_bus_def bus_resting_def)
    ultimately show "busy c ph' src' n' la' (a', i')" by (simp add: busy_def)
  qed
  show "word_at mem src AND 0x7000 = 0 \<Longrightarrow> busy c DMA_PSG_SEL (src + 2) n la (dma_cycle mem True s)"
    by (rule *) (use seq_at_exec(1) in metis)
  show "word_at mem src AND 0x7000 = 0x2000 \<Longrightarrow>
       busy c DMA_ADVANCE (src + 2) (word_at mem src AND 0x0FFF) (src + 4) (dma_cycle mem True s)"
    by (rule *) (use seq_at_exec(2) in metis)
  show "word_at mem src = 0x4001 \<Longrightarrow>
       busy c DMA_ADVANCE (if n > 0 then la else src + 2) (if n > 0 then n - 1 else n) la (dma_cycle mem True s)"
    by (rule *) (use seq_at_exec(3) in metis)
qed

lemma busy_psg_sel:
  assumes "busy c DMA_PSG_SEL src n la s"
  shows "(\<lambda>t. busy c DMA_PSG_WR src n la t) (dma_cycle mem True s)"
  using assms by (rule busy_step) (simp add: busy_def seq_eval)

lemma busy_psg_wr:
  assumes "busy c DMA_PSG_WR src n la s"
  shows "(\<lambda>t. busy c DMA_ADVANCE src n la t) (dma_cycle mem True s)"
  using assms by (rule busy_step) (simp add: busy_def seq_eval)

lemma busy_advance:
  assumes "busy c DMA_ADVANCE src n la s" "c < 3"
  shows "(\<lambda>t. busy c DMA_IDLE src n la t) (dma_cycle mem True s)"
  using assms(1)
proof (rule busy_step)
  fix b a' i'
  assume b: "seq_at c DMA_ADVANCE src n la b" "as_dma_hsync_prev b" "bus_at True (snd s)"
    and step: "dma_view a' = dma_view (fst (snd (dma_service b (snd s))))"
      "bus_lines i' = bus_lines (drive (snd (snd (dma_service b (snd s)))) (line_bus True (cpu_busrq (b_cpu (snd s)))))"
  have "dma_seek_from (b\<lparr>as_dma_cur := Suc c\<rparr>) (Suc c) = 3"
    using b assms(2) by (intro seek_self) (simp_all add: seq_at_def)
  then have "dma_service b (snd s) = (True, b\<lparr>as_dma_cur := 3, as_dma_phase := DMA_IDLE\<rparr>, [Dr_busrq])"
    using b by (simp add: dma_service_def dma_track_same seq_at_def dma_burst_def dma_master_def dma_seek_def Let_def)
  then show "busy c DMA_IDLE src n la (a', i')"
    using b step by (simp add: busy_def seq_at_def bus_at_def dma_view_def bus_lines_def drive_def line_bus_def bus_resting_def)
qed

lemma busy_wait:
  assumes "busy c DMA_WAIT_BUSAK src n la s" "\<not> cpu_busak (b_cpu (snd s))" "cpu_busrq (b_cpu (snd s))"
  shows "(\<lambda>t. busy c DMA_WAIT_BUSAK src n la t \<and> cpu_busak (b_cpu (snd t))) (dma_cycle mem True s)"
  using assms(1) by (rule busy_step) (use assms in \<open>simp add: busy_def seq_eval\<close>)

lemma busy_grant:
  assumes "busy c DMA_WAIT_BUSAK src n la s" "cpu_busak (b_cpu (snd s))" "c < 3"
  shows "(\<lambda>t. busy c DMA_FETCH0 src n la t) (dma_cycle mem True s)"
  using assms(1)
proof (rule busy_step)
  fix b a' i'
  assume b: "seq_at c DMA_WAIT_BUSAK src n la b" "as_dma_hsync_prev b" "bus_at True (snd s)"
    and step: "dma_view a' = dma_view (fst (snd (dma_service b (snd s))))"
      "bus_lines i' = bus_lines (drive (snd (snd (dma_service b (snd s)))) (line_bus True (cpu_busrq (b_cpu (snd s)))))"
  have "dma_seek_from b 0 = c"
    using b assms(3) by (intro seek_self) (simp_all add: seq_at_def)
  then have "dma_service b (snd s) = (True, b\<lparr>as_dma_cur := c, as_dma_phase := DMA_FETCH0\<rparr>, [Dr_busrq])"
    using b assms(2,3) by (simp add: dma_service_def dma_track_same seq_at_def dma_burst_def dma_seek_def Let_def)
  then show "busy c DMA_FETCH0 src n la (a', i')"
    using b step by (simp add: busy_def seq_at_def bus_at_def dma_view_def bus_lines_def drive_def line_bus_def bus_resting_def)
qed

text \<open>Between bursts.\<close>

lemma idle_cycle:
  assumes "seq_at c DMA_IDLE src n la (fst s)" "bus_at h (snd s)" "\<not> h \<or> as_dma_hsync_prev (fst s)"
  shows "(\<lambda>t. seq_at c DMA_IDLE src n la (fst t) \<and> bus_at hs (snd t) \<and> as_dma_hsync_prev (fst t) = h \<and>
     \<not> cpu_busrq (b_cpu (snd t)) \<and> cpu_busak (b_cpu (snd t)) = cpu_busrq (b_cpu (snd s))) (dma_cycle mem hs s)"
  using assms(1,2)
proof (rule dma_seq_step)
  fix b a' i'
  assume "seq_at c DMA_IDLE src n la b" "dma_view b = dma_view (fst s)"
    and step: "dma_view a' = dma_view (fst (snd (dma_service b (snd s))))"
      "bus_lines i' = bus_lines (drive (snd (snd (dma_service b (snd s)))) (line_bus hs (cpu_busrq (b_cpu (snd s)))))"
  moreover from this have "dma_service b (snd s) = (False, dma_track b (snd s), [])"
    using assms by (intro dma_service_idle) (auto simp: seq_at_def dma_trigger_def bus_at_def dma_view_def)
  ultimately show "seq_at c DMA_IDLE src n la (fst (a', i')) \<and> bus_at hs (snd (a', i')) \<and> as_dma_hsync_prev (fst (a', i')) = h \<and>
     \<not> cpu_busrq (b_cpu (snd (a', i'))) \<and> cpu_busak (b_cpu (snd (a', i'))) = cpu_busrq (b_cpu (snd s))"
    using assms(2) by (simp add: seq_at_def bus_at_def dma_view_def bus_lines_def dma_track_def drive_def line_bus_def bus_resting_def)
qed

lemma pause_count_alone:
  assumes "c < 3" "\<forall>d < 3. as_dma_enabled a d \<longleftrightarrow> d = c" "as_dma_pause_ticks a c = 0"
  shows "fold dma_pause_count [0..<3] (a, False) = (a, True)"
proof -
  have "[0..<3] = [0, 1, 2 :: nat]" by (simp add: upt_rec)
  moreover have "as_dma_enabled a 0 \<longleftrightarrow> c = 0" "as_dma_enabled a 1 \<longleftrightarrow> c = 1" "as_dma_enabled a 2 \<longleftrightarrow> c = 2"
    using assms(2) by auto
  moreover have "c = 0 \<or> c = 1 \<or> c = 2" using assms(1) by linarith
  ultimately show ?thesis
    using assms(3) by (elim disjE) (simp_all add: dma_pause_count_def)
qed

lemma trigger_cycle:
  assumes "seq_at c DMA_IDLE src n la (fst s)" "bus_at True (snd s)" "\<not> as_dma_hsync_prev (fst s)" "c < 3"
    "\<not> cpu_busak (b_cpu (snd s))" "\<not> cpu_busrq (b_cpu (snd s))"
  shows "(\<lambda>t. busy c DMA_WAIT_BUSAK src n la t \<and> \<not> cpu_busak (b_cpu (snd t)) \<and> cpu_busrq (b_cpu (snd t)))
    (dma_cycle mem True s)"
  using assms(1,2)
proof (rule dma_seq_step)
  fix b a' i'
  assume b: "seq_at c DMA_IDLE src n la b" "dma_view b = dma_view (fst s)"
    and step: "dma_view a' = dma_view (fst (snd (dma_service b (snd s))))"
      "bus_lines i' = bus_lines (drive (snd (snd (dma_service b (snd s)))) (line_bus True (cpu_busrq (b_cpu (snd s)))))"
  let ?t = "b\<lparr>as_dma_hsync_prev := True, as_dma_fired_this_line := False\<rparr>"
  have prev: "\<not> as_dma_hsync_prev b" using assms(3) b(2) by (simp add: dma_view_def)
  have track: "dma_track b (snd s) = ?t" and trig: "dma_trigger b (snd s)"
    using assms(2) prev by (simp_all add: dma_track_def dma_trigger_def bus_at_def)
  have "fold dma_pause_count [0..<3] (?t\<lparr>as_dma_fired_this_line := True\<rparr>, False) =
      (?t\<lparr>as_dma_fired_this_line := True\<rparr>, True)"
    using b(1) assms(4) by (intro pause_count_alone) (auto simp: seq_at_def)
  then have "dma_service b (snd s) = (False, ?t\<lparr>as_dma_fired_this_line := True, as_dma_cur := 0,
      as_dma_phase := DMA_WAIT_BUSAK\<rparr>, [Dr_busrq])"
    using b(1) assms(5) trig by (simp add: dma_service_def track seq_at_def dma_burst_def Let_def del: upt_rec_numeral)
  then show "busy c DMA_WAIT_BUSAK src n la (a', i') \<and>
      \<not> cpu_busak (b_cpu (snd (a', i'))) \<and> cpu_busrq (b_cpu (snd (a', i')))"
    using b(1) step assms(6)
    by (simp add: busy_def seq_at_def bus_at_def dma_view_def bus_lines_def drive_def line_bus_def bus_resting_def)
qed

text \<open>One scanline: eight cycles to the decoded instruction, then the rest of the burst, then nothing until the
  next line.\<close>

lemma line_fetch:
  assumes "at_line c src n la s" "c < 3"
  shows "busy c DMA_EXEC src n la ((dma_cycle mem True ^^ 8) s)" "decoded mem src ((dma_cycle mem True ^^ 8) s)"
    "reads (snd ((dma_cycle mem True ^^ 5) s)) src"
proof -
  let ?s = "\<lambda>k. (dma_cycle mem True ^^ k) s"
  have suc: "?s (Suc k) = dma_cycle mem True (?s k)" for k by simp
  have 1: "seq_at c DMA_IDLE src n la (fst (?s 1))" "bus_at True (snd (?s 1))" "\<not> as_dma_hsync_prev (fst (?s 1))"
    "\<not> cpu_busak (b_cpu (snd (?s 1)))" "\<not> cpu_busrq (b_cpu (snd (?s 1)))"
    using idle_cycle [of c src n la s False mem True] assms by (simp_all add: at_line_def)
  have 2: "busy c DMA_WAIT_BUSAK src n la (?s 2)" "\<not> cpu_busak (b_cpu (snd (?s 2)))" "cpu_busrq (b_cpu (snd (?s 2)))"
    using trigger_cycle [OF 1(1-3) assms(2) 1(4,5), of mem] suc [of 1] by (simp_all add: numeral_2_eq_2)
  have 3: "busy c DMA_WAIT_BUSAK src n la (?s 3)" "cpu_busak (b_cpu (snd (?s 3)))"
    using busy_wait [OF 2, of mem] suc [of 2] by (simp_all add: eval_nat_numeral)
  have 4: "busy c DMA_FETCH0 src n la (?s 4)"
    using busy_grant [OF 3 assms(2), of mem] suc [of 3] by (simp add: eval_nat_numeral)
  have 5: "busy c DMA_FETCH0_W src n la (?s 5)" "reads (snd (?s 5)) src"
    using busy_fetch0 [OF 4, of mem] suc [of 4] by (simp_all add: eval_nat_numeral)
  have 6: "busy c DMA_FETCH1 src n la (?s 6)" "cpu_data (b_cpu (snd (?s 6))) = mem src"
    using busy_fetch0_w [OF 5(1), of mem] dma_cycle_data [OF 5(2), of mem True] suc [of 5]
    by (simp_all add: eval_nat_numeral)
  have 7: "busy c DMA_FETCH1_W src n la (?s 7)" "reads (snd (?s 7)) (src + 1)" "as_dma_lo (fst (?s 7)) = mem src"
    using busy_fetch1 [OF 6(1), of mem] 6(2) suc [of 6] by (simp_all add: eval_nat_numeral)
  have 8: "busy c DMA_EXEC src n la (?s 8)" "as_dma_lo (fst (?s 8)) = mem src" "cpu_data (b_cpu (snd (?s 8))) = mem (src + 1)"
    using busy_fetch1_w [OF 7(1), of mem] dma_cycle_data [OF 7(2), of mem True] 7(3) suc [of 7]
    by (simp_all add: eval_nat_numeral)
  show "busy c DMA_EXEC src n la (?s 8)" "decoded mem src (?s 8)"
    using 8 by (simp_all add: decoded_def word_at_def)
  show "reads (snd (?s 5)) src" by (rule 5(2))
qed

lemma line_rest:
  assumes "busy c DMA_IDLE src n la t"
  shows "at_line c src n la ((dma_cycle mem False ^^ 960) ((dma_cycle mem True ^^ k) t))"
proof -
  have high: "busy c DMA_IDLE src n la ((dma_cycle mem True ^^ k) t)" for k
    by (induction k) (use assms idle_cycle [of c src n la _ True mem True] in \<open>simp_all add: busy_def\<close>)
  define u where "u = (dma_cycle mem True ^^ k) t"
  have u: "seq_at c DMA_IDLE src n la (fst u)" "bus_at True (snd u)" "\<not> True \<or> as_dma_hsync_prev (fst u)"
    using high [of k] by (simp_all add: u_def busy_def)
  have u1: "seq_at c DMA_IDLE src n la (fst (dma_cycle mem False u))" "bus_at False (snd (dma_cycle mem False u))"
    "\<not> False \<or> as_dma_hsync_prev (fst (dma_cycle mem False u))" "\<not> cpu_busrq (b_cpu (snd (dma_cycle mem False u)))"
    using idle_cycle [OF u, of mem False] by simp_all
  have "at_line c src n la ((dma_cycle mem False ^^ Suc (Suc j)) u)" for j
  proof (induction j)
    case 0
    show ?case using idle_cycle [OF u1(1-3), of mem False] u1(4) by (simp add: at_line_def)
  next
    case (Suc j)
    then show ?case
      using idle_cycle [of c src n la "(dma_cycle mem False ^^ Suc (Suc j)) u" False mem False] by (simp add: at_line_def)
  qed
  from this [of 958] show ?thesis by (simp add: u_def eval_nat_numeral del: funpow.simps)
qed

lemma dma_line_split:
  assumes "j \<le> 64"
  shows "dma_line mem s = (dma_cycle mem False ^^ 960) ((dma_cycle mem True ^^ (64 - j)) ((dma_cycle mem True ^^ j) s))"
proof -
  have "dma_cycle mem True ^^ 64 = (dma_cycle mem True ^^ (64 - j)) \<circ> (dma_cycle mem True ^^ j)"
    using assms by (metis funpow_add le_add_diff_inverse2)
  then show ?thesis by (simp add: dma_line_def)
qed

lemma line_short:
  assumes "at_line c src n la s" "c < 3"
    and "busy c DMA_ADVANCE src' n' la' (dma_cycle mem True ((dma_cycle mem True ^^ 8) s))"
  shows "at_line c src' n' la' (dma_line mem s)"
proof -
  have "busy c DMA_IDLE src' n' la' ((dma_cycle mem True ^^ 10) s)"
    using busy_advance [OF assms(3,2), of mem] by (simp add: eval_nat_numeral)
  from line_rest [OF this, of mem 54] show ?thesis by (simp add: dma_line_split [of 10])
qed

lemma line_load:
  assumes "at_line c src n la s" "c < 3" "word_at mem src AND 0x7000 = 0"
  shows "at_line c (src + 2) n la (dma_line mem s)"
proof -
  have "busy c DMA_PSG_SEL (src + 2) n la (dma_cycle mem True ((dma_cycle mem True ^^ 8) s))"
    using busy_exec(1) [OF line_fetch(1,2) [OF assms(1,2)] assms(3)] .
  then have "busy c DMA_IDLE (src + 2) n la ((dma_cycle mem True ^^ 12) s)"
    using busy_psg_sel busy_psg_wr busy_advance assms(2) by (simp add: eval_nat_numeral)
  from line_rest [OF this, of mem 52] show ?thesis by (simp add: dma_line_split [of 12])
qed

lemma line_repeat:
  assumes "at_line c src n la s" "c < 3" "word_at mem src AND 0x7000 = 0x2000"
  shows "at_line c (src + 2) (word_at mem src AND 0x0FFF) (src + 4) (dma_line mem s)"
  using line_short [OF assms(1,2) busy_exec(2) [OF line_fetch(1,2) [OF assms(1,2)] assms(3)]] .

lemma line_loop:
  assumes "at_line c src n la s" "c < 3" "word_at mem src = 0x4001"
  shows "at_line c (if n > 0 then la else src + 2) (if n > 0 then n - 1 else n) la (dma_line mem s)"
  using line_short [OF assms(1,2) busy_exec(3) [OF line_fetch(1,2) [OF assms(1,2)] assms(3)]] .

text \<open>The address of the instruction read in scanline \<open>m\<close>: what is on the address bus, under \<open>mreq\<close> and \<open>rd\<close>, after the fifth
  cycle of the line.\<close>

definition fetches :: "(u16 \<Rightarrow> u8) \<Rightarrow> asic_state \<times> Bus \<Rightarrow> nat \<Rightarrow> u16 \<Rightarrow> bool" where
  "fetches mem s m p \<longleftrightarrow> reads (snd ((dma_cycle mem True ^^ 5) ((dma_line mem ^^ m) s))) p"

lemma line_fetches: "at_line c p n la ((dma_line mem ^^ m) s) \<Longrightarrow> c < 3 \<Longrightarrow> fetches mem s m p"
  by (simp add: fetches_def line_fetch(3))

text \<open>A loop body of \<open>k\<close> LOADs at \<open>q\<close>, and the LOOP after it.\<close>

definition loop_body :: "(u16 \<Rightarrow> u8) \<Rightarrow> u16 \<Rightarrow> nat \<Rightarrow> bool" where
  "loop_body mem q k \<longleftrightarrow>
     (\<forall>j < k. word_at mem (q + 2 * of_nat j) AND 0x7000 = 0) \<and> word_at mem (q + 2 * of_nat k) = 0x4001"

lemma body_lines:
  assumes "loop_body mem q k" "c < 3" "at_line c q n la ((dma_line mem ^^ m) s)" "j \<le> k"
  shows "at_line c (q + 2 * of_nat j) n la ((dma_line mem ^^ (m + j)) s)"
  using assms(4)
proof (induction j)
  case (Suc j)
  have "at_line c (q + 2 * of_nat j + 2) n la (dma_line mem ((dma_line mem ^^ (m + j)) s))"
    using Suc assms(1,2) by (intro line_load) (simp_all add: loop_body_def)
  then show ?case by (simp add: algebra_simps)
qed (use assms(3) in simp)

lemma body_loop:
  assumes "loop_body mem q k" "c < 3" "at_line c q n la ((dma_line mem ^^ m) s)"
  shows "at_line c (if n > 0 then la else q + 2 * of_nat k + 2) (if n > 0 then n - 1 else n) la
    ((dma_line mem ^^ (m + Suc k)) s)"
  using line_loop [OF body_lines [OF assms order_refl] assms(2)] assms(1) by (simp add: loop_body_def)

lemma body_passes:
  assumes "loop_body mem q k" "c < 3" "at_line c q (of_nat n) q ((dma_line mem ^^ m) s)" "n < 65536" "r \<le> n"
  shows "at_line c q (of_nat (n - r)) q ((dma_line mem ^^ (m + r * Suc k)) s)"
  using assms(5)
proof (induction r)
  case (Suc r)
  have "of_nat (n - r) > (0 :: u16)"
    using Suc.prems assms(4) by (simp add: word_less_nat_alt unat_of_nat del: of_nat_diff)
  moreover have "of_nat (n - r) - 1 = (of_nat (n - Suc r) :: u16)"
    using Suc.prems by (simp add: of_nat_diff)
  ultimately show ?case
    using body_loop [OF assms(1,2) Suc.IH] Suc.prems by (simp add: algebra_simps del: of_nat_diff)
qed (use assms(3) in simp)

lemma body_tail: "loop_body mem q (Suc k) \<Longrightarrow> loop_body mem (q + 2) k"
proof -
  assume "loop_body mem q (Suc k)"
  then have "word_at mem (q + 2 * of_nat (Suc j)) AND 0x7000 = 0" if "j < k" for j
    using that by (auto simp only: loop_body_def)
  moreover have "word_at mem (q + 2 * of_nat (Suc k)) = 0x4001"
    using \<open>loop_body mem q (Suc k)\<close> by (simp add: loop_body_def)
  ultimately show ?thesis by (simp add: loop_body_def algebra_simps)
qed

subsection \<open>Properties\<close>

text \<open>C17 (dma_burst_terminates): Once the Z80 has granted the bus, a DMA burst is back to idle within 25 master cycles, and from
  then on until the next scanline's trigger, however many cycles that takes and whatever is on the bus, every
  cycle stays idle and drives neither \<open>busrq\<close> nor an address, \<open>mreq\<close>, \<open>rd\<close> or \<open>wr\<close>: the bus is released.\<close>
theorem dma_burst_terminates:
  assumes "asic_wf a" and "as_plugged a" and "25 \<le> length is"
    and "\<forall>i \<in> set is. cpu_busak (b_cpu i)"
  shows "\<exists>n \<le> 25. let b = asic_run a (take n is) in
    as_dma_phase b = DMA_IDLE \<and>
    (\<forall>js j. no_trigger b (js @ [j]) \<longrightarrow>
       as_dma_phase (asic_run b js) = DMA_IDLE \<and> bus_free (snd (asic_step (asic_run b js) j)))"
proof -
  have "\<exists>n \<le> length (take 25 is). as_dma_phase (asic_run a (take n (take 25 is))) = DMA_IDLE"
    using assms dma_rank_le [of a] by (intro dma_burst_ends) (auto dest: in_set_takeD)
  then obtain n where "n \<le> 25" "as_dma_phase (asic_run a (take n is)) = DMA_IDLE"
    using assms(3) by (auto simp: min_def split: if_splits)
  then show ?thesis using idle_run by (auto simp: Let_def)
qed

definition busak_bus :: Bus where
  "busak_bus = bus_resting\<lparr>b_cpu := (b_cpu bus_resting)\<lparr>cpu_busak := True\<rparr>\<rparr>"

definition dma_waiting :: asic_state where
  "dma_waiting = asic_init\<lparr>as_plugged := True, as_dma_phase := DMA_WAIT_BUSAK,
     as_dma_enabled := (\<lambda>c. c = 1)\<rparr>"

theorem dma_burst_terminates_witness:
  "\<exists>n \<le> 25. let b = asic_run dma_waiting (take n (replicate 25 busak_bus)) in
    as_dma_phase b = DMA_IDLE \<and>
    (\<forall>js j. no_trigger b (js @ [j]) \<longrightarrow>
       as_dma_phase (asic_run b js) = DMA_IDLE \<and> bus_free (snd (asic_step (asic_run b js) j)))"
proof (rule dma_burst_terminates)
  show "asic_wf dma_waiting"
    using asic_wf_init by (simp add: dma_waiting_def asic_wf_def mastering_def asic_init_def)
qed (simp_all add: dma_waiting_def busak_bus_def)

text \<open>C37 (dma_repeat_skips): Let a channel, alone enabled, stand before a REPEAT of count n at address p, followed by k + 1 LOADs and
  a LOOP. Through \<open>asic_step\<close>, with a memory answering on the bus, one instruction is read per scanline: the
  REPEAT and the whole body once; then n passes that each start at p + 4; then the word behind the LOOP. So the
  body runs n + 1 times, except that its first instruction, at p + 2, runs only once: the sequencer has already
  moved the source past the REPEAT when that adds two more for the loop address.\<close>
theorem dma_repeat_skips:
  assumes "c < 3" and "at_line c p n0 la0 s"
    and "word_at mem p AND 0x7000 = 0x2000" and "loop_body mem (p + 2) (Suc k)"
  shows "let n = unat (word_at mem p AND 0x0FFF) in
    fetches mem s 0 p \<and>
    (\<forall>j \<le> Suc k. fetches mem s (1 + j) (p + 2 + 2 * of_nat j)) \<and>
    (\<forall>r < n. \<forall>j \<le> k. fetches mem s (k + 3 + r * Suc k + j) (p + 4 + 2 * of_nat j)) \<and>
    fetches mem s (k + 3 + n * Suc k) (p + 6 + 2 * of_nat k)"
proof -
  define w where "w = word_at mem p AND 0x0FFF"
  define n where "n = unat w"
  have w: "w = of_nat n" "n < 65536" by (simp_all add: n_def)
  note body = assms(4)
  have "p + 2 + 2 = p + 4" by simp
  with body_tail [OF body] have tail: "loop_body mem (p + 4) k" by (simp only:)
  have 1: "at_line c (p + 2) w (p + 4) ((dma_line mem ^^ 1) s)"
    using line_repeat [OF assms(2,1,3)] by (simp add: w_def)
  have first: "at_line c (p + 2 + 2 * of_nat j) w (p + 4) ((dma_line mem ^^ (1 + j)) s)" if "j \<le> Suc k" for j
    by (rule body_lines [OF body assms(1) 1 that])
  have again: "at_line c (p + 4) (of_nat (n - Suc r)) (p + 4) ((dma_line mem ^^ (k + 3 + r * Suc k)) s)" if "r < n" for r
  proof -
    have "w > 0" "w - 1 = of_nat (n - 1)"
      using that w by (simp_all add: word_less_nat_alt unat_of_nat of_nat_diff)
    then have "at_line c (p + 4) (of_nat (n - 1)) (p + 4) ((dma_line mem ^^ (k + 3)) s)"
      using body_loop [OF body assms(1) 1] by (simp add: eval_nat_numeral del: of_nat_diff)
    from body_passes [OF tail assms(1) this, of r] show ?thesis
      using w(2) that by (simp del: of_nat_diff)
  qed
  have passes: "at_line c (p + 4 + 2 * of_nat j) (of_nat (n - Suc r)) (p + 4) ((dma_line mem ^^ (k + 3 + r * Suc k + j)) s)"
    if "r < n" "j \<le> k" for r j
    by (rule body_lines [OF tail assms(1) again [OF that(1)] that(2)])
  have final: "\<exists>v. at_line c (p + 6 + 2 * of_nat k) v (p + 4) ((dma_line mem ^^ (k + 3 + n * Suc k)) s)"
  proof (cases n)
    case 0
    then show ?thesis
      using body_loop [OF body assms(1) 1] w(1) by (auto simp: eval_nat_numeral algebra_simps)
  next
    case (Suc m)
    then have "at_line c (p + 4) 0 (p + 4) ((dma_line mem ^^ (k + 3 + m * Suc k)) s)"
      using again [of m] by simp
    from body_loop [OF tail assms(1) this] show ?thesis
      using Suc by (auto simp: algebra_simps)
  qed
  have "fetches mem s 0 p"
    using line_fetches [of c p n0 la0 0 mem s] assms(1,2) by simp
  moreover obtain v where "at_line c (p + 6 + 2 * of_nat k) v (p + 4) ((dma_line mem ^^ (k + 3 + n * Suc k)) s)"
    using final by blast
  ultimately show ?thesis
    using line_fetches [OF first assms(1)] line_fetches [OF passes assms(1)] line_fetches [OF _ assms(1)]
    unfolding Let_def w_def [symmetric] n_def [symmetric] by blast
qed

text \<open>REPEAT 2 at \<open>&8000\<close>, two LOADs, LOOP: two more passes over the second LOAD and the LOOP.\<close>

definition repeat_program :: "u16 \<Rightarrow> u8" where
  "repeat_program q = [0x02, 0x20, 0x05, 0x01, 0x06, 0x02, 0x01, 0x40] ! (unat q mod 8)"

definition repeat_start :: "asic_state \<times> Bus" where
  "repeat_start = (asic_init\<lparr>as_plugged := True, as_dma_enabled := (\<lambda>c. c = 1),
     as_dma_source := (\<lambda>c. 0x8000)\<rparr>, line_bus False False)"

theorem dma_repeat_skips_witness:
  "let F = fetches repeat_program repeat_start in
    F 0 0x8000 \<and> F 1 0x8002 \<and> F 2 0x8004 \<and> F 3 0x8006 \<and> F 4 0x8004 \<and> F 5 0x8006 \<and> F 6 0x8004 \<and> F 7 0x8006 \<and> F 8 0x8008"
proof -
  have start: "at_line 1 0x8000 0 0 repeat_start"
    by (simp add: at_line_def repeat_start_def seq_at_def asic_init_def bus_at_def line_bus_def bus_resting_def)
  have rep: "word_at repeat_program 0x8000 = 0x2002" and words: "word_at repeat_program 0x8002 = 0x0105"
    "word_at repeat_program 0x8004 = 0x0206" "word_at repeat_program 0x8006 = 0x4001"
    by (simp_all add: word_at_def repeat_program_def)
  have body: "loop_body repeat_program (0x8000 + 2) (Suc 1)"
    by (auto simp: loop_body_def words less_Suc_eq)
  note run = dma_repeat_skips [OF _ start _ body]
  have *: "(\<forall>j \<le> Suc 1. fetches repeat_program repeat_start (1 + j) (0x8000 + 2 + 2 * of_nat j))"
    "(\<forall>r < 2. \<forall>j \<le> 1. fetches repeat_program repeat_start (1 + 3 + r * Suc 1 + j) (0x8000 + 4 + 2 * of_nat j))"
    "fetches repeat_program repeat_start 0 0x8000"
    "fetches repeat_program repeat_start (1 + 3 + 2 * Suc 1) (0x8000 + 6 + 2 * of_nat 1)"
    using run by (simp_all add: rep Let_def)
  show ?thesis
    using *(1) [rule_format, of 0] *(1) [rule_format, of 1] *(1) [rule_format, of 2]
      *(2) [rule_format, of 0 0] *(2) [rule_format, of 0 1] *(2) [rule_format, of 1 0] *(2) [rule_format, of 1 1] *(3,4)
    by (simp add: Let_def eval_nat_numeral)
qed

end
