(* ===== verification/Video_Path.thy ===== *)
theory Video_Path
  imports Contracts
begin

text \<open>
  The pixel path of \<open>src/src/hw/video.cpp\<close> (the functions outside the live video device): the MA/RA
  address shuffle, the per-mode pen decoder and its table, the hardware colours, and the line and
  frame renderers. An output array is a function from indices; a renderer takes it and returns it
  updated. The frame renderer's scanline loop counts in \<open>uint8_t\<close> up to and including \<open>r9\<close>,
  so it is a \<open>partial_function\<close>: not returning is \<open>None\<close>.
\<close>

subsection \<open>Addresses, pens and colours\<close>

definition kPalette :: "(u8 \<times> u8 \<times> u8) list" where
  "kPalette = [
    (128, 128, 128), (128, 128, 128), (0, 255, 128), (255, 255, 128),
    (0, 0, 128),     (255, 0, 128),   (0, 128, 128), (255, 128, 128),
    (255, 0, 128),   (255, 255, 128), (255, 255, 0), (255, 255, 255),
    (255, 0, 0),     (255, 0, 255),   (255, 128, 0), (255, 128, 255),
    (0, 0, 128),     (0, 255, 128),   (0, 255, 0),   (0, 255, 255),
    (0, 0, 0),       (0, 0, 255),     (0, 128, 0),   (0, 128, 255),
    (128, 0, 128),   (128, 255, 128), (128, 255, 0), (128, 255, 255),
    (128, 0, 0),     (128, 0, 255),   (128, 128, 0), (128, 128, 255)]"

definition vbit :: "u8 \<Rightarrow> nat \<Rightarrow> u8" where
  "vbit byte n = drop_bit n byte AND 1"

definition vid_byte_addr :: "u16 \<Rightarrow> u8 \<Rightarrow> u8 \<Rightarrow> u16" where
  "vid_byte_addr ma ra k =
    push_bit 2 (ma AND 0x3000) OR push_bit 11 (ucast (ra AND 0x07)) OR
    push_bit 1 (ma AND 0x03FF) OR ucast (k AND 1)"

text \<open>\<open>pens_out[8]\<close> is a list; the arms write a prefix of it and return the pixel count.\<close>

definition vid_decode :: "u8 \<Rightarrow> u8 \<Rightarrow> u8 list \<Rightarrow> nat \<times> u8 list" where
  "vid_decode mode b pens_out =
    (if mode = 0 then
       (2, pens_out[0 := push_bit 3 (vbit b 1) OR push_bit 2 (vbit b 5) OR push_bit 1 (vbit b 3) OR vbit b 7,
                    1 := push_bit 3 (vbit b 0) OR push_bit 2 (vbit b 4) OR push_bit 1 (vbit b 2) OR vbit b 6])
     else if mode = 1 then
       (4, fold (\<lambda>k ps. ps[k := push_bit 1 (vbit b (3 - k)) OR vbit b (7 - k)]) [0..<4] pens_out)
     else if mode = 3 then
       (2, pens_out[0 := push_bit 1 (vbit b 3) OR vbit b 7, 1 := push_bit 1 (vbit b 2) OR vbit b 6])
     else
       (8, fold (\<lambda>k ps. ps[k := vbit b (7 - k)]) [0..<8] pens_out))"

text \<open>The table of \<open>vid_decode_lut\<close>: the count and all eight pens of every (mode, byte), decoded
  into a zeroed array.\<close>

definition vid_lut_entry :: "u8 \<Rightarrow> u8 \<Rightarrow> nat \<times> u8 list" where
  "vid_lut_entry m i = vid_decode m i (replicate 8 0)"

definition vid_decode_lut :: "u8 \<Rightarrow> u8 \<Rightarrow> u8 list \<Rightarrow> nat \<times> u8 list" where
  "vid_decode_lut mode b pens_out =
    (let d = vid_lut_entry (if mode > 3 then 2 else mode) b in (fst d, snd d @ drop 8 pens_out))"

definition vid_hw_rgb :: "u8 \<Rightarrow> u8 \<times> u8 \<times> u8" where
  "vid_hw_rgb colour = kPalette ! unat (colour AND 0x1F)"

definition vid_px_per_char :: "u8 \<Rightarrow> nat" where
  "vid_px_per_char mode = (if mode = 0 \<or> mode = 3 then 4 else if mode = 1 then 8 else 16)"

subsection \<open>Renderers\<close>

text \<open>One pixel of the inner loop: \<open>vid_hw_rgb\<close> into the three bytes at \<open>out[px * 3]\<close>, then
  \<open>px++\<close>. The state of the loops is the pair \<open>(px, out)\<close>.\<close>

definition put_pixel :: "(nat \<Rightarrow> u8) \<Rightarrow> u8 list \<Rightarrow> nat \<Rightarrow> nat \<times> (nat \<Rightarrow> u8) \<Rightarrow> nat \<times> (nat \<Rightarrow> u8)" where
  "put_pixel ink pens p st =
    (case st of (px, out) \<Rightarrow>
      (case vid_hw_rgb (ink (unat (pens ! p))) of (r, g, b) \<Rightarrow>
        (px + 1, out(px * 3 := r, px * 3 + 1 := g, px * 3 + 2 := b))))"

definition put_byte :: "(u16 \<Rightarrow> u8) \<Rightarrow> u8 \<Rightarrow> (nat \<Rightarrow> u8) \<Rightarrow> u16 \<Rightarrow> u8 \<Rightarrow> u8 \<Rightarrow>
    nat \<times> (nat \<Rightarrow> u8) \<Rightarrow> nat \<times> (nat \<Rightarrow> u8)" where
  "put_byte ram mode ink ma ra k st =
    (let d = vid_decode mode (ram (vid_byte_addr ma ra k)) (replicate 8 0)
     in fold (put_pixel ink (snd d)) [0..<fst d] st)"

definition vid_render_line :: "(u16 \<Rightarrow> u8) \<Rightarrow> u8 \<Rightarrow> (nat \<Rightarrow> u8) \<Rightarrow> u16 \<Rightarrow> u8 \<Rightarrow> u8 \<Rightarrow>
    (nat \<Rightarrow> u8) \<Rightarrow> nat \<times> (nat \<Rightarrow> u8)" where
  "vid_render_line ram mode ink ma_base ra chars out =
    fold (\<lambda>ch st. let ma = (ma_base + of_nat ch) AND 0x3FFF in
            put_byte ram mode ink ma ra 1 (put_byte ram mode ink ma ra 0 st))
      [0..<unat chars] (0, out)"

text \<open>Writing a line through the pointer \<open>fb + off\<close>.\<close>

definition at_offset :: "nat \<Rightarrow> (nat \<Rightarrow> u8) \<Rightarrow> (nat \<Rightarrow> u8) \<Rightarrow> nat \<Rightarrow> u8" where
  "at_offset off line fb i = (if i < off then fb i else line (i - off))"

partial_function (option) vid_frame_scan :: "(u16 \<Rightarrow> u8) \<Rightarrow> u8 \<Rightarrow> (nat \<Rightarrow> u8) \<Rightarrow> u16 \<Rightarrow> u8 \<Rightarrow> u8 \<Rightarrow>
    u8 \<Rightarrow> nat \<times> (nat \<Rightarrow> u8) \<Rightarrow> (nat \<times> (nat \<Rightarrow> u8)) option" where
  "vid_frame_scan ram mode ink ma_base r1 r9 ra st =
    (if ra \<le> r9 then
       (let y = fst st; fb = snd st;
            off = y * (unat r1 * vid_px_per_char mode) * 3;
            line = snd (vid_render_line ram mode ink ma_base ra r1 (\<lambda>i. fb (off + i)))
        in vid_frame_scan ram mode ink ma_base r1 r9 (ra + 1) (y + 1, at_offset off line fb))
     else Some st)"

fun vid_frame_rows :: "(u16 \<Rightarrow> u8) \<Rightarrow> u8 \<Rightarrow> (nat \<Rightarrow> u8) \<Rightarrow> u16 \<Rightarrow> u8 \<Rightarrow> u8 \<Rightarrow> nat list \<Rightarrow>
    nat \<times> (nat \<Rightarrow> u8) \<Rightarrow> (nat \<times> (nat \<Rightarrow> u8)) option" where
  "vid_frame_rows ram mode ink ma_start r1 r9 [] st = Some st"
| "vid_frame_rows ram mode ink ma_start r1 r9 (row # rows) st =
    (case vid_frame_scan ram mode ink ((ma_start + of_nat (row * unat r1)) AND 0x3FFF) r1 r9 0 st of
       None \<Rightarrow> None
     | Some st' \<Rightarrow> vid_frame_rows ram mode ink ma_start r1 r9 rows st')"

definition vid_render_frame :: "(u16 \<Rightarrow> u8) \<Rightarrow> u8 \<Rightarrow> (nat \<Rightarrow> u8) \<Rightarrow> u16 \<Rightarrow> u8 \<Rightarrow> u8 \<Rightarrow> u8 \<Rightarrow>
    (nat \<Rightarrow> u8) \<Rightarrow> (nat \<Rightarrow> u8) option" where
  "vid_render_frame ram mode ink ma_start r1 r6 r9 fb =
    map_option snd (vid_frame_rows ram mode ink ma_start r1 r9 [0..<unat r6] (0, fb))"

subsection \<open>The address shuffle\<close>

text \<open>The four fields of the byte address do not overlap: bit 0 is the byte of the pair, bits 1-10
  the character offset, bits 11-13 the scanline, bits 14-15 the 16K page.\<close>

lemma vid_byte_addr_fields:
  "bit (vid_byte_addr ma ra k) 0 = bit k 0"
  "take_bit 10 (drop_bit 1 (vid_byte_addr ma ra k)) = take_bit 10 ma"
  "take_bit 3 (drop_bit 11 (vid_byte_addr ma ra k)) = ucast (take_bit 3 ra)"
  "drop_bit 14 (vid_byte_addr ma ra k) = take_bit 2 (drop_bit 12 ma)"
proof -
  show "bit (vid_byte_addr ma ra k) 0 = bit k 0"
    by (simp add: vid_byte_addr_def bit_or_iff bit_push_bit_iff bit_and_iff bit_ucast_iff del: bit_0 One_nat_def)
qed (rule word16_eqI;
    simp only: vid_byte_addr_def bit_or_iff bit_push_bit_iff bit_drop_bit_eq bit_take_bit_iff comp_def;
    simp add: bit_simps numeral_2_eq_2)+

lemma vid_byte_addr_split:
  "vid_byte_addr ma ra k = push_bit 14 (take_bit 2 (drop_bit 12 ma)) OR
    push_bit 11 (ucast (take_bit 3 ra)) OR push_bit 1 (take_bit 10 ma) OR of_bool (bit k 0)"
  by (rule word16_eqI;
    simp only: vid_byte_addr_def bit_or_iff bit_push_bit_iff bit_drop_bit_eq bit_take_bit_iff comp_def;
    simp add: bit_simps numeral_2_eq_2)

lemma ucast_ucast_id_u8: "ucast (ucast (x :: u8) :: u16) = x"
  by (rule bit_word_eqI) (simp add: bit_simps)

lemma ucast_u8_inj: "(ucast (x :: u8) :: u16) = ucast y \<longleftrightarrow> x = y"
  by (metis ucast_ucast_id_u8)

subsection \<open>The pen decoder\<close>

text \<open>The pens a byte decodes to, left to right.\<close>

definition pens_of :: "u8 \<Rightarrow> u8 \<Rightarrow> u8 list" where
  "pens_of mode b = (let d = vid_decode mode b (replicate 8 0) in take (fst d) (snd d))"

lemma vid_decode_count:
  "2 * fst (vid_decode mode b ps) = vid_px_per_char mode"
  by (simp add: vid_decode_def vid_px_per_char_def)

lemma eight_cases: "length ps = 8 \<Longrightarrow> \<exists>a b c d e f g h. ps = [a, b, c, d, e, f, g, h]"
  by (simp add: numeral_eq_Suc length_Suc_conv) blast

lemma vid_decode_length: "length (snd (vid_decode mode b ps)) = length ps"
  by (simp add: vid_decode_def upt_rec)

lemma vid_decode_prefix:
  assumes "length ps = 8"
  shows "take (fst (vid_decode mode b ps)) (snd (vid_decode mode b ps)) = pens_of mode b"
proof -
  obtain a1 a2 a3 a4 a5 a6 a7 a8 where "ps = [a1, a2, a3, a4, a5, a6, a7, a8]"
    using eight_cases [OF assms] by blast
  then show ?thesis
    by (simp add: pens_of_def vid_decode_def upt_rec numeral_eq_Suc)
qed

lemma length_pens_of: "2 * length (pens_of mode b) = vid_px_per_char mode"
  by (simp add: pens_of_def vid_decode_def vid_px_per_char_def upt_rec)

lemma vbit_le_1: "vbit b n = 0 \<or> vbit b n = 1"
  by (cases "bit b n") (simp_all add: vbit_def and_one_eq even_drop_bit_iff_not_bit odd_iff_mod_2_eq_one [symmetric] mod_2_eq_odd)

subsection \<open>Painting\<close>

definition channel :: "nat \<Rightarrow> u8 \<times> u8 \<times> u8 \<Rightarrow> u8" where
  "channel c rgb = (if c = 0 then fst rgb else if c = 1 then fst (snd rgb) else snd (snd rgb))"

definition put_rgb :: "u8 \<times> u8 \<times> u8 \<Rightarrow> nat \<times> (nat \<Rightarrow> u8) \<Rightarrow> nat \<times> (nat \<Rightarrow> u8)" where
  "put_rgb rgb st = (case st of (px, out) \<Rightarrow>
     (px + 1, out(px * 3 := channel 0 rgb, px * 3 + 1 := channel 1 rgb, px * 3 + 2 := channel 2 rgb)))"

lemma put_pixel_rgb: "put_pixel ink pens = (\<lambda>p. put_rgb (vid_hw_rgb (ink (unat (pens ! p)))))"
  by (auto simp: put_pixel_def put_rgb_def channel_def fun_eq_iff split: prod.splits)

lemma fold_put_rgb:
  "fold put_rgb cs (px, out) =
    (px + length cs, \<lambda>i. if 3 * px \<le> i \<and> i < 3 * (px + length cs)
       then channel (i mod 3) (cs ! (i div 3 - px)) else out i)"
proof (induction cs arbitrary: px out)
  case Nil
  then show ?case by (auto simp: fun_eq_iff)
next
  case (Cons c cs)
  let ?o = "out(px * 3 := channel 0 c, px * 3 + 1 := channel 1 c, px * 3 + 2 := channel 2 c)"
  have "(if 3 * Suc px \<le> i \<and> i < 3 * (Suc px + length cs)
          then channel (i mod 3) (cs ! (i div 3 - Suc px)) else ?o i) =
        (if 3 * px \<le> i \<and> i < 3 * (px + length (c # cs))
          then channel (i mod 3) ((c # cs) ! (i div 3 - px)) else out i)" for i
  proof (cases "i < 3 * Suc px")
    case True
    show ?thesis
    proof (cases "3 * px \<le> i")
      case True
      with \<open>i < 3 * Suc px\<close> have "i = px * 3 \<or> i = px * 3 + 1 \<or> i = px * 3 + 2"
        by (simp add: mult_Suc_right) presburger
      then show ?thesis by (auto simp: mod_Suc numeral_2_eq_2)
    qed (use True in auto)
  next
    case False
    then have "i div 3 - px = Suc (i div 3 - Suc px)"
      by (metis Suc_diff_Suc add_diff_cancel_left' diff_Suc_1 div_le_mono le_add1 le_less_trans lessI
          nonzero_mult_div_cancel_left not_less not_less_eq_eq zero_neq_numeral)
    with False show ?thesis by auto
  qed
  then have "(\<lambda>i. if 3 * Suc px \<le> i \<and> i < 3 * (Suc px + length cs)
          then channel (i mod 3) (cs ! (i div 3 - Suc px)) else ?o i) =
        (\<lambda>i. if 3 * px \<le> i \<and> i < 3 * (px + length (c # cs))
          then channel (i mod 3) ((c # cs) ! (i div 3 - px)) else out i)"
    by (rule ext)
  moreover have "fold put_rgb (c # cs) (px, out) = fold put_rgb cs (Suc px, ?o)"
    by (simp add: put_rgb_def)
  moreover have "px + length (c # cs) = Suc px + length cs"
    by simp
  ultimately show ?case
    by (simp only: Cons.IH)
qed

text \<open>What a line is meant to show: the colours of the pens of both bytes of every character.\<close>

definition byte_rgb :: "(u16 \<Rightarrow> u8) \<Rightarrow> u8 \<Rightarrow> (nat \<Rightarrow> u8) \<Rightarrow> u16 \<Rightarrow> u8 \<Rightarrow> u8 \<Rightarrow> (u8 \<times> u8 \<times> u8) list" where
  "byte_rgb ram mode ink ma ra k =
     map (\<lambda>p. vid_hw_rgb (ink (unat p))) (pens_of mode (ram (vid_byte_addr ma ra k)))"

definition line_rgb :: "(u16 \<Rightarrow> u8) \<Rightarrow> u8 \<Rightarrow> (nat \<Rightarrow> u8) \<Rightarrow> u16 \<Rightarrow> u8 \<Rightarrow> nat \<Rightarrow> (u8 \<times> u8 \<times> u8) list" where
  "line_rgb ram mode ink ma_base ra chars =
     concat (map (\<lambda>ch. let ma = (ma_base + of_nat ch) AND 0x3FFF
       in byte_rgb ram mode ink ma ra 0 @ byte_rgb ram mode ink ma ra 1) [0..<chars])"

definition frame_rgb :: "(u16 \<Rightarrow> u8) \<Rightarrow> u8 \<Rightarrow> (nat \<Rightarrow> u8) \<Rightarrow> u16 \<Rightarrow> nat \<Rightarrow> nat \<Rightarrow> nat \<Rightarrow> (u8 \<times> u8 \<times> u8) list" where
  "frame_rgb ram mode ink ma_start r1 r6 r9 =
     concat (map (\<lambda>row. concat (map (\<lambda>ra.
         line_rgb ram mode ink ((ma_start + of_nat (row * r1)) AND 0x3FFF) (of_nat ra) r1)
       [0..<Suc r9])) [0..<r6])"

lemma put_byte_rgb: "put_byte ram mode ink ma ra k = fold put_rgb (byte_rgb ram mode ink ma ra k)"
proof -
  let ?d = "vid_decode mode (ram (vid_byte_addr ma ra k)) (replicate 8 0)"
  have "fst ?d \<le> length (snd ?d)"
    by (simp add: vid_decode_length) (simp add: vid_decode_def)
  then have "take (fst ?d) (snd ?d) = map ((!) (snd ?d)) [0..<fst ?d]"
    by (simp add: list_eq_iff_nth_eq)
  then show ?thesis
    by (auto simp: put_byte_def byte_rgb_def pens_of_def Let_def put_pixel_rgb fold_map comp_def fun_eq_iff)
qed

lemma vid_render_line_rgb:
  "vid_render_line ram mode ink ma_base ra chars out =
    fold put_rgb (line_rgb ram mode ink ma_base ra (unat chars)) (0, out)"
proof -
  have "fold (\<lambda>ch st. let ma = (ma_base + of_nat ch) AND 0x3FFF in
            put_byte ram mode ink ma ra 1 (put_byte ram mode ink ma ra 0 st)) [0..<n] st =
      fold put_rgb (line_rgb ram mode ink ma_base ra n) st" for n st
    by (induction n) (simp_all add: line_rgb_def put_byte_rgb Let_def)
  then show ?thesis by (simp add: vid_render_line_def)
qed

lemma length_line_rgb: "length (line_rgb ram mode ink ma_base ra n) = n * vid_px_per_char mode"
proof (induction n)
  case (Suc n)
  then show ?case
    using length_pens_of [of mode "ram (vid_byte_addr (ma_base + of_nat n AND 0x3FFF) ra 0)"]
      length_pens_of [of mode "ram (vid_byte_addr (ma_base + of_nat n AND 0x3FFF) ra 1)"]
    by (simp add: line_rgb_def byte_rgb_def Let_def)
qed (simp add: line_rgb_def)

subsection \<open>Frames\<close>

lemma line_at_offset:
  assumes "off = 3 * px"
  shows "(px + length cs, at_offset off (snd (fold put_rgb cs (0, \<lambda>i. fb (off + i)))) fb) =
    fold put_rgb cs (px, fb)"
proof -
  have "at_offset off (snd (fold put_rgb cs (0, \<lambda>i. fb (off + i)))) fb i =
      snd (fold put_rgb cs (px, fb)) i" for i
  proof (cases "3 * px \<le> i")
    case True
    then obtain j where "i = 3 * px + j"
      using le_Suc_ex by blast
    then show ?thesis
      by (simp add: at_offset_def fold_put_rgb assms)
  qed (simp add: at_offset_def fold_put_rgb assms)
  then show ?thesis
    by (simp add: fold_put_rgb fun_eq_iff)
qed

lemma vid_frame_scan_step:
  assumes "n \<le> unat r9"
  shows "vid_frame_scan ram mode ink ma r1 r9 (of_nat n) (y, fb) =
    vid_frame_scan ram mode ink ma r1 r9 (of_nat (Suc n))
      (Suc y, snd (fold put_rgb (line_rgb ram mode ink ma (of_nat n) (unat r1))
         (unat r1 * vid_px_per_char mode * y, fb)))"
proof -
  let ?w = "unat r1 * vid_px_per_char mode"
  let ?off = "y * ?w * 3"
  have le: "of_nat n \<le> r9"
    using assms unat_less_256 [of r9] by (simp add: word_le_nat_alt unat_of_nat)
  have "at_offset ?off (snd (fold put_rgb (line_rgb ram mode ink ma (of_nat n) (unat r1))
      (0, \<lambda>i. fb (?off + i)))) fb =
    snd (fold put_rgb (line_rgb ram mode ink ma (of_nat n) (unat r1)) (?w * y, fb))"
    using line_at_offset [of ?off "?w * y" "line_rgb ram mode ink ma (of_nat n) (unat r1)" fb]
    by (simp add: prod_eq_iff)
  with le show ?thesis
    by (subst vid_frame_scan.simps) (simp add: vid_render_line_rgb Let_def add.commute)
qed

lemma fst_fold_put_rgb: "fst (fold put_rgb cs st) = fst st + length cs"
  by (cases st) (simp add: fold_put_rgb)

lemma vid_frame_scan_rgb:
  assumes "unat r9 < 255"
  shows "n \<le> Suc (unat r9) \<Longrightarrow> vid_frame_scan ram mode ink ma r1 r9 (of_nat n) (y, fb) =
    Some (y + (Suc (unat r9) - n),
      snd (fold put_rgb (concat (map (\<lambda>k. line_rgb ram mode ink ma (of_nat k) (unat r1)) [n..<Suc (unat r9)]))
        (unat r1 * vid_px_per_char mode * y, fb)))"
proof (induction "Suc (unat r9) - n" arbitrary: n y fb)
  case 0
  then have "\<not> of_nat n \<le> r9"
    using assms by (simp add: word_le_nat_alt unat_of_nat)
  with 0 show ?case
    by (subst vid_frame_scan.simps) simp
next
  case (Suc m)
  let ?w = "unat r1 * vid_px_per_char mode"
  let ?cs = "line_rgb ram mode ink ma (of_nat n) (unat r1)"
  have le: "n \<le> unat r9" using Suc.hyps(2) by simp
  have "(?w * Suc y, snd (fold put_rgb ?cs (?w * y, fb))) = fold put_rgb ?cs (?w * y, fb)"
    by (simp add: prod_eq_iff fst_fold_put_rgb length_line_rgb)
  moreover have "[n..<Suc (unat r9)] = n # [Suc n..<Suc (unat r9)]"
    using le by (simp add: upt_conv_Cons)
  ultimately show ?case
    using Suc.hyps(1) [of "Suc n" "Suc y" "snd (fold put_rgb ?cs (?w * y, fb))"] Suc.hyps(2) le
    by (simp only: vid_frame_scan_step [OF le]) (simp add: Suc_diff_le)
qed

lemma vid_frame_rows_rgb:
  assumes "unat r9 < 255"
  shows "vid_frame_rows ram mode ink ma_start r1 r9 rows (y, fb) =
    Some (y + length rows * Suc (unat r9),
      snd (fold put_rgb (concat (map (\<lambda>row. concat (map (\<lambda>ra.
         line_rgb ram mode ink ((ma_start + of_nat (row * unat r1)) AND 0x3FFF) (of_nat ra) (unat r1))
       [0..<Suc (unat r9)])) rows)) (unat r1 * vid_px_per_char mode * y, fb)))"
proof (induction rows arbitrary: y fb)
  case Nil
  show ?case by simp
next
  case (Cons row rows)
  let ?ma = "(ma_start + of_nat (row * unat r1)) AND 0x3FFF"
  let ?w = "unat r1 * vid_px_per_char mode"
  let ?cs = "concat (map (\<lambda>ra. line_rgb ram mode ink ?ma (of_nat ra) (unat r1)) [0..<Suc (unat r9)])"
  have len: "length (concat (map (\<lambda>ra. line_rgb ram mode ink ?ma (of_nat ra) (unat r1)) [0..<n])) = n * ?w" for n
    by (induction n) (simp_all add: length_line_rgb)
  have "(?w * (y + Suc (unat r9)), snd (fold put_rgb ?cs (?w * y, fb))) = fold put_rgb ?cs (?w * y, fb)"
    by (simp only: prod_eq_iff fst_fold_put_rgb len fst_conv snd_conv) (simp add: algebra_simps)
  moreover have "vid_frame_scan ram mode ink ?ma r1 r9 0 (y, fb) =
      Some (y + Suc (unat r9), snd (fold put_rgb ?cs (?w * y, fb)))"
    using vid_frame_scan_rgb [OF assms, of 0 ram mode ink ?ma r1 y fb] by simp
  ultimately show ?case
    using Cons.IH [of "y + Suc (unat r9)" "snd (fold put_rgb ?cs (?w * y, fb))"]
    by (simp del: upt_Suc add: algebra_simps)
qed

text \<open>With \<open>r9 = 255\<close> the comparison \<open>ra <= r9\<close> on \<open>uint8_t\<close> never fails.\<close>

lemma vid_frame_scan_255: "vid_frame_scan ram mode ink ma r1 255 ra st = None"
proof -
  have "r9 = 255 \<Longrightarrow> False" if "vid_frame_scan ram mode ink ma r1 r9 ra st = Some v" for r9 v
    using that
  proof (induction rule: vid_frame_scan.raw_induct [rotated 1, consumes 1])
    case (1 scan ram mode ink ma r1 r9 ra st v)
    have "unat ra \<le> 255"
      using unat_less_256 [of ra] by linarith
    then have "ra \<le> 255"
      by (intro word_le_of_unat) simp
    with 1 show ?case by (cases v) (auto simp: Let_def split: if_splits)
  qed
  then show ?thesis by (metis option.exhaust)
qed

lemma length_concat_const:
  "(\<And>x. x \<in> set xs \<Longrightarrow> length (f x) = c) \<Longrightarrow> length (concat (map f xs)) = length xs * c"
  by (induction xs) simp_all

lemma length_frame_rgb:
  "length (frame_rgb ram mode ink ma_start r1 n r9) = r1 * vid_px_per_char mode * (n * (r9 + 1))"
  unfolding frame_rgb_def
  by (subst length_concat_const [where c = "Suc r9 * (r1 * vid_px_per_char mode)"];
      (subst length_concat_const [where c = "r1 * vid_px_per_char mode"])?)
    (simp_all add: length_line_rgb algebra_simps del: upt_Suc)

subsection \<open>Properties\<close>

text \<open>(vid_byte_addr_inj): Two fetches read the same byte of video memory only when they agree on the 16K page
  (MA bits 12-13), the scanline (RA bits 0-2), the character offset (MA bits 0-9) and the byte of
  the pair: the shuffle loses nothing of what the hardware wires through and is blind to MA bits
  10 and 11.\<close>
theorem vid_byte_addr_inj:
  "vid_byte_addr ma ra k = vid_byte_addr ma' ra' k' \<longleftrightarrow>
    take_bit 2 (drop_bit 12 ma) = take_bit 2 (drop_bit 12 ma') \<and> take_bit 3 ra = take_bit 3 ra' \<and>
    take_bit 10 ma = take_bit 10 ma' \<and> bit k 0 = bit k' 0"
proof
  assume eq: "vid_byte_addr ma ra k = vid_byte_addr ma' ra' k'"
  then have "ucast (take_bit 3 ra) = (ucast (take_bit 3 ra') :: u16)"
    by (metis vid_byte_addr_fields(3))
  then have "take_bit 3 ra = take_bit 3 ra'"
    by (metis ucast_u8_inj)
  with eq show "take_bit 2 (drop_bit 12 ma) = take_bit 2 (drop_bit 12 ma') \<and> take_bit 3 ra = take_bit 3 ra' \<and>
      take_bit 10 ma = take_bit 10 ma' \<and> bit k 0 = bit k' 0"
    by (metis vid_byte_addr_fields)
next
  assume "take_bit 2 (drop_bit 12 ma) = take_bit 2 (drop_bit 12 ma') \<and> take_bit 3 ra = take_bit 3 ra' \<and>
      take_bit 10 ma = take_bit 10 ma' \<and> bit k 0 = bit k' 0"
  then show "vid_byte_addr ma ra k = vid_byte_addr ma' ra' k'"
    by (elim conjE) (simp only: vid_byte_addr_split)
qed

text \<open>(vid_lut_matches): The table-driven decoder of the Fast tier yields the same pixel count and the same pens as
  the scalar decoder for every mode and byte, whatever the output arrays held before.\<close>
theorem vid_lut_matches:
  assumes "length ps = 8" and "length qs = 8"
  shows "fst (vid_decode_lut mode b ps) = fst (vid_decode mode b qs) \<and>
    take (fst (vid_decode_lut mode b ps)) (snd (vid_decode_lut mode b ps)) =
    take (fst (vid_decode mode b qs)) (snd (vid_decode mode b qs))"
proof -
  have big: "vid_decode mode b xs = vid_decode 2 b xs" if "mode > 3" for xs
    using that by (auto simp: vid_decode_def)
  have "fst (vid_decode mode b ps) = fst (vid_decode mode b qs)"
    by (simp add: vid_decode_def)
  moreover have "vid_decode_lut mode b ps = vid_decode mode b (replicate 8 0)"
    using assms(1) big by (simp add: vid_decode_lut_def vid_lut_entry_def Let_def)
  ultimately show ?thesis
    using vid_decode_prefix [OF assms(2), of mode b]
    by (simp add: pens_of_def Let_def) (simp add: vid_decode_def)
qed

theorem vid_lut_matches_witness:
  "take (fst (vid_decode_lut 1 0xA5 (replicate 8 7))) (snd (vid_decode_lut 1 0xA5 (replicate 8 7))) =
   take (fst (vid_decode 1 0xA5 (replicate 8 9))) (snd (vid_decode 1 0xA5 (replicate 8 9)))"
  using vid_lut_matches [of "replicate 8 7" "replicate 8 9" 1 "0xA5"] by auto

text \<open>C18 (vid_frame_correct): For every scanline count the 5-bit R9 can ask for, the frame renderer returns; the bytes of
  the image are the colours of the pens of the bytes the CRTC addresses, row by row and scanline by
  scanline, and no byte beyond the image is written.\<close>
theorem vid_frame_correct:
  assumes "r9 < 255"
  shows "vid_render_frame ram mode ink ma_start r1 r6 r9 fb =
    Some (\<lambda>i. if i < 3 * (unat r1 * vid_px_per_char mode * (unat r6 * (unat r9 + 1)))
      then channel (i mod 3) (frame_rgb ram mode ink ma_start (unat r1) (unat r6) (unat r9) ! (i div 3))
      else fb i)"
proof -
  have "length (frame_rgb ram mode ink ma_start (unat r1) n (unat r9)) =
      unat r1 * vid_px_per_char mode * (n * (unat r9 + 1))" for n
    by (rule length_frame_rgb)
  moreover have "vid_render_frame ram mode ink ma_start r1 r6 r9 fb =
      Some (snd (fold put_rgb (frame_rgb ram mode ink ma_start (unat r1) (unat r6) (unat r9)) (0, fb)))"
    using assms vid_frame_rows_rgb [of r9 ram mode ink ma_start r1 "[0..<unat r6]" 0 fb]
    by (simp add: vid_render_frame_def frame_rgb_def word_less_nat_alt del: upt_Suc)
  ultimately show ?thesis
    by (simp add: fold_put_rgb fun_eq_iff)
qed

theorem vid_frame_correct_witness:
  "vid_render_frame (\<lambda>a. ucast a) 1 (\<lambda>p. of_nat p) 0x3000 40 25 7 (\<lambda>_. 0) =
    Some (\<lambda>i. if i < 3 * (unat (40 :: u8) * vid_px_per_char 1 * (unat (25 :: u8) * (unat (7 :: u8) + 1)))
      then channel (i mod 3) (frame_rgb (\<lambda>a. ucast a) 1 (\<lambda>p. of_nat p) 0x3000 (unat (40 :: u8)) (unat (25 :: u8))
        (unat (7 :: u8)) ! (i div 3))
      else 0)"
  by (rule vid_frame_correct) simp

end
