(* ===== verification/Gate_Array.thy ===== *)
theory Gate_Array
  imports Asic Video_Path
begin

text \<open>
  The Gate Array, \<open>src/src/hw/gate_array.cpp\<close> with the inline clock fabric of \<open>gate_array.h\<close>: the
  divide-by-16 phase, the 52-line raster interrupt with its VSYNC resync, the pen, ink, mode and
  banking registers, and the edge-driven entry points of the Fast tier. Fields are named \<open>ga_x\<close>
  for the C member \<open>x\<close>. The member \<open>asic\<close>, a pointer to the ASIC device or null, is the
  parameter \<open>asic :: asic_state option\<close> of the operations that dereference it.
\<close>

subsection \<open>State and operations\<close>

record ga_state =
  ga_phase :: u8
  ga_sl_count :: u8
  ga_hs_count :: u8
  ga_hsync_prev :: bool
  ga_vsync_prev :: bool
  ga_irq_line :: bool
  ga_pen :: u8
  ga_mode :: u8
  ga_req_mode :: u8
  ga_rom_config :: u8
  ga_ram_config :: u8
  ga_ink :: "nat \<Rightarrow> u8"

text \<open>\<open>ga_state{}\<close>, the value \<open>ga_reset\<close> installs (the ASIC attachment, a parameter here, stays).\<close>

definition ga_init :: ga_state where
  "ga_init = \<lparr> ga_phase = 0, ga_sl_count = 0, ga_hs_count = 0, ga_hsync_prev = False,
    ga_vsync_prev = False, ga_irq_line = False, ga_pen = 0, ga_mode = 1, ga_req_mode = 1,
    ga_rom_config = 0, ga_ram_config = 0, ga_ink = (\<lambda>_. 0) \<rparr>"

definition ga_clock_out :: "u8 \<Rightarrow> u16 \<Rightarrow> u8 \<Rightarrow> asg list" where
  "ga_clock_out phase ma ra =
    [Dr_clk (phase AND 0x03 = 0) (phase = 0) (phase = 0) phase, Dr_wait (drop_bit 2 phase \<noteq> 1)] @
    (if phase = 12 \<or> phase = 14
     then [Dr_ram_fetch, Dr_ram_addr (vid_byte_addr ma ra (if phase = 14 then 1 else 0))] else [])"

definition asic_owns_rmr2 :: "asic_state option \<Rightarrow> bool" where
  "asic_owns_rmr2 asic = (case asic of None \<Rightarrow> False | Some a \<Rightarrow> asic_unlocked a)"

definition ga_owns_int :: "asic_state option \<Rightarrow> bool" where
  "ga_owns_int asic = (case asic of None \<Rightarrow> True | Some a \<Rightarrow> \<not> asic_vid_pri_active a)"

definition ga_write :: "asic_state option \<Rightarrow> ga_state \<Rightarrow> u8 \<Rightarrow> ga_state" where
  "ga_write asic g data =
    (let fn = drop_bit 6 data in
     if fn = 0 then g\<lparr>ga_pen := (if data AND 0x10 \<noteq> 0 then 16 else data AND 0x0F)\<rparr>
     else if fn = 1 then g\<lparr>ga_ink := (ga_ink g)(unat (ga_pen g) := data AND 0x1F)\<rparr>
     else if fn = 2 then
       (if asic_owns_rmr2 asic \<and> data AND 0x20 \<noteq> 0 then g
        else
          (let g1 = g\<lparr>ga_req_mode := data AND 0x03, ga_rom_config := data\<rparr> in
           if data AND 0x10 \<noteq> 0 then g1\<lparr>ga_irq_line := False, ga_sl_count := 0\<rparr> else g1))
     else if fn = 3 then g\<lparr>ga_ram_config := data\<rparr>
     else g)"

definition ga_count52 :: "bool \<Rightarrow> ga_state \<Rightarrow> ga_state" where
  "ga_count52 owns g =
    (let g1 = g\<lparr>ga_sl_count := (ga_sl_count g + 1) AND 0x3F\<rparr> in
     if ga_sl_count g1 = 52
     then g1\<lparr>ga_irq_line := ga_irq_line g1 \<or> owns, ga_sl_count := 0\<rparr> else g1)"

definition ga_count_vsync :: "bool \<Rightarrow> ga_state \<Rightarrow> ga_state" where
  "ga_count_vsync owns g =
    (if ga_hs_count g \<noteq> 0 then
       (let g1 = g\<lparr>ga_hs_count := ga_hs_count g - 1\<rparr> in
        if ga_hs_count g1 = 0
        then g1\<lparr>ga_irq_line := ga_irq_line g1 \<or> (ga_sl_count g1 \<ge> 32 \<and> owns), ga_sl_count := 0\<rparr>
        else g1)
     else g)"

definition ga_raster_count :: "ga_state \<Rightarrow> bool \<Rightarrow> ga_state" where
  "ga_raster_count g owns = ga_count_vsync owns (ga_count52 owns g)"

text \<open>The sync part of the tick: edges against the previous levels, then the mode latch, the resync
  arming and the counter.\<close>

definition ga_sync :: "asic_state option \<Rightarrow> ga_state \<Rightarrow> bool \<Rightarrow> bool \<Rightarrow> ga_state" where
  "ga_sync asic g hsync vsync =
    (let hs_rise = (hsync \<and> \<not> ga_hsync_prev g);
         hs_fall = (\<not> hsync \<and> ga_hsync_prev g);
         vs_rise = (vsync \<and> \<not> ga_vsync_prev g);
         g1 = g\<lparr>ga_hsync_prev := hsync, ga_vsync_prev := vsync\<rparr>;
         g2 = (if hs_rise then g1\<lparr>ga_mode := ga_req_mode g1\<rparr> else g1);
         g3 = (if vs_rise then g2\<lparr>ga_hs_count := 2\<rparr> else g2)
     in if hs_fall then ga_raster_count g3 (ga_owns_int asic) else g3)"

definition ga_int_ack :: "ga_state \<Rightarrow> ga_state" where
  "ga_int_ack g = g\<lparr>ga_sl_count := ga_sl_count g AND 0x1F, ga_irq_line := False\<rparr>"

definition ga_step :: "asic_state option \<Rightarrow> ga_state \<Rightarrow> Bus \<Rightarrow> ga_state \<times> asg list" where
  "ga_step asic g i =
    (let clk = ga_clock_out (ga_phase g) (vid_ma (b_vid i)) (vid_ra (b_vid i));
         g1 = g\<lparr>ga_phase := (ga_phase g + 1) AND 0x0F\<rparr>;
         g2 = ga_sync asic g1 (vid_hsync (b_vid i)) (vid_vsync (b_vid i));
         g3 = (if cpu_m1 (b_cpu i) \<and> cpu_iorq (b_cpu i) then ga_int_ack g2 else g2);
         g4 = (if cpu_iorq (b_cpu i) \<and> cpu_wr (b_cpu i) \<and> cpu_addr (b_cpu i) AND 0xC000 = 0x4000
               then ga_write asic g3 (cpu_data (b_cpu i)) else g3)
     in (g4, clk @ (if ga_irq_line g4 then [Dr_irq] else [])))"

definition ga_tick :: "asic_state option \<Rightarrow> ga_state \<Rightarrow> Bus \<Rightarrow> Bus \<Rightarrow> ga_state \<times> Bus" where
  "ga_tick asic g i out = (fst (ga_step asic g i), drive (snd (ga_step asic g i)) out)"

definition ga_reset :: "ga_state \<Rightarrow> ga_state" where
  "ga_reset g = ga_init"

definition ga_save :: "ga_state \<Rightarrow> u8 \<times> ga_state" where
  "ga_save g = (1, g)"

definition ga_load :: "ga_state \<Rightarrow> u8 \<times> ga_state \<Rightarrow> ga_state" where
  "ga_load g blob = (if fst blob \<noteq> 1 then g else snd blob)"

definition ga_advance :: "ga_state \<Rightarrow> u64 \<Rightarrow> ga_state" where
  "ga_advance g skipped_cycles = g\<lparr>ga_phase := ucast ((ucast (ga_phase g) + skipped_cycles) AND 0x0F)\<rparr>"

definition ga_batch_hsync_rise :: "ga_state \<Rightarrow> ga_state" where
  "ga_batch_hsync_rise g = g\<lparr>ga_mode := ga_req_mode g\<rparr>"

definition ga_batch_hsync_fall :: "asic_state option \<Rightarrow> ga_state \<Rightarrow> ga_state" where
  "ga_batch_hsync_fall asic g = ga_raster_count g (ga_owns_int asic)"

definition ga_batch_vsync_rise :: "ga_state \<Rightarrow> ga_state" where
  "ga_batch_vsync_rise g = g\<lparr>ga_hs_count := 2\<rparr>"

definition ga_batch_int_ack :: "ga_state \<Rightarrow> ga_state" where
  "ga_batch_int_ack g = g\<lparr>ga_sl_count := ga_sl_count g AND 0x1F, ga_irq_line := False\<rparr>"

definition ga_fast_io_write :: "asic_state option \<Rightarrow> ga_state \<Rightarrow> u16 \<Rightarrow> u8 \<Rightarrow> ga_state" where
  "ga_fast_io_write asic g port val = (if port AND 0xC000 = 0x4000 then ga_write asic g val else g)"

definition ga_irq_asserted :: "ga_state \<Rightarrow> bool" where
  "ga_irq_asserted g = ga_irq_line g"

definition ga_batch_set_sync :: "ga_state \<Rightarrow> bool \<Rightarrow> bool \<Rightarrow> ga_state" where
  "ga_batch_set_sync g hsync vsync = g\<lparr>ga_hsync_prev := hsync, ga_vsync_prev := vsync\<rparr>"

text \<open>The loop of \<open>ga_predict_irq_hsyncs\<close>: \<open>n\<close> is the iteration about to run, \<open>bound\<close> the last.\<close>

function ga_predict_loop :: "ga_state \<Rightarrow> nat \<Rightarrow> nat \<Rightarrow> int" where
  "ga_predict_loop shadow n bound =
    (if n \<le> bound then
       (let s = ga_raster_count shadow True in
        if ga_irq_line s then int n else ga_predict_loop s (Suc n) bound)
     else - 1)"
  by pat_completeness auto
termination
  by (relation "measure (\<lambda>(s, n, bound). Suc bound - n)") auto

declare ga_predict_loop.simps [simp del]

definition ga_predict_irq_hsyncs :: "asic_state option \<Rightarrow> ga_state \<Rightarrow> int" where
  "ga_predict_irq_hsyncs asic g =
    (if ga_irq_line g then 0
     else if \<not> ga_owns_int asic then - 1
     else ga_predict_loop g 1 (52 + 32 + 2))"

definition ga_current_mode :: "ga_state \<Rightarrow> u8" where
  "ga_current_mode g = ga_mode g"

definition ga_poke_counters :: "ga_state \<Rightarrow> u8 \<Rightarrow> u8 \<Rightarrow> u8 \<Rightarrow> ga_state" where
  "ga_poke_counters g hs_count sl_count irq_line =
    g\<lparr>ga_hs_count := hs_count AND 3, ga_sl_count := sl_count, ga_irq_line := (irq_line \<noteq> 0)\<rparr>"

subsection \<open>Invariant\<close>

definition ga_wf :: "ga_state \<Rightarrow> bool" where
  "ga_wf g \<longleftrightarrow> fits 4 (ga_phase g) \<and> unat (ga_pen g) \<le> 16 \<and> fits 2 (ga_mode g) \<and>
     fits 2 (ga_req_mode g) \<and> fits 2 (ga_hs_count g) \<and> (\<forall>p. fits 5 (ga_ink g p))"

lemma ga_wf_init [inv_intros]: "ga_wf ga_init"
  by (simp add: ga_wf_def ga_init_def fits_iff_unat)

lemma fits_low_u8 [simp]:
  fixes d :: u8
  shows "fits 2 (d AND 3)" "fits 4 (d AND 0x0F)" "fits 5 (d AND 0x1F)" "fits 6 (d AND 0x3F)"
  by (simp_all add: mask_simps fits_take_bit)

lemma ga_wf_write [inv_intros]:
  assumes "ga_wf g"
  shows "ga_wf (ga_write asic g d)"
proof -
  have "unat (d AND 0x0F) \<le> 16"
    using fits_unat [OF fits_low_u8(2), of d] by simp
  with assms show ?thesis
    by (simp add: ga_wf_def ga_write_def Let_def)
qed

lemma ga_wf_raster [inv_intros]: "ga_wf g \<Longrightarrow> ga_wf (ga_raster_count g owns)"
  by (simp add: ga_wf_def ga_raster_count_def ga_count52_def ga_count_vsync_def Let_def fits_pred word_gt_0)

lemma fits2_2 [simp]: "fits 2 (2 :: u8)"
  by (simp add: fits_iff_unat)

lemma ga_wf_updates [simp]:
  "ga_wf g \<Longrightarrow> ga_wf (g\<lparr>ga_hsync_prev := h, ga_vsync_prev := v\<rparr>)"
  "ga_wf g \<Longrightarrow> fits 2 m \<Longrightarrow> ga_wf (g\<lparr>ga_mode := m\<rparr>)"
  "ga_wf g \<Longrightarrow> fits 2 (ga_req_mode g)"
  "ga_wf g \<Longrightarrow> ga_wf (g\<lparr>ga_hs_count := 2\<rparr>)"
  by (simp_all add: ga_wf_def)

lemma ga_wf_sync [inv_intros]: "ga_wf g \<Longrightarrow> ga_wf (ga_sync asic g h v)"
  by (auto simp: ga_sync_def Let_def intro!: ga_wf_raster ga_wf_updates)

lemma ga_wf_int_ack [inv_intros]: "ga_wf g \<Longrightarrow> ga_wf (ga_int_ack g)"
  by (simp add: ga_wf_def ga_int_ack_def)

lemma ga_wf_step [inv_intros]:
  assumes "ga_wf g"
  shows "ga_wf (fst (ga_step asic g i))"
proof -
  have "ga_wf (g\<lparr>ga_phase := (ga_phase g + 1) AND 0x0F\<rparr>)"
    using assms by (simp add: ga_wf_def)
  then show ?thesis
    by (simp add: ga_step_def Let_def inv_intros)
qed

lemma and_low_mask64: "(x :: u64) AND 0x0F = take_bit 4 x"
  by (simp add: take_bit_eq_mask mask_eq_exp_minus_1)

lemma ga_wf_events [inv_intros]:
  assumes "ga_wf g"
  shows "ga_wf (ga_batch_hsync_rise g)" "ga_wf (ga_batch_hsync_fall asic g)" "ga_wf (ga_batch_vsync_rise g)"
    "ga_wf (ga_batch_int_ack g)" "ga_wf (ga_fast_io_write asic g p d)" "ga_wf (ga_batch_set_sync g h v)"
    "ga_wf (ga_poke_counters g hs sl q)" "ga_wf (ga_advance g n)" "ga_wf (ga_reset g)"
proof -
  have "fits 4 ((ucast (ga_phase g) + n) AND 0x0F)"
    by (simp add: and_low_mask64 fits_take_bit)
  then show "ga_wf (ga_advance g n)"
    using assms by (simp add: ga_wf_def ga_advance_def fits_ucast)
qed (use assms in \<open>simp_all add: ga_batch_hsync_rise_def ga_batch_hsync_fall_def ga_batch_vsync_rise_def
  ga_batch_int_ack_def ga_fast_io_write_def ga_batch_set_sync_def ga_poke_counters_def ga_reset_def
  inv_intros ga_wf_raster ga_wf_write, simp_all add: ga_wf_def\<close>)

subsection \<open>Interrupt prediction\<close>

abbreviation raster :: "ga_state \<Rightarrow> ga_state" where
  "raster g \<equiv> ga_raster_count g True"

lemma raster_irq_keeps: "ga_irq_line g \<Longrightarrow> ga_irq_line (raster g)"
  by (simp add: ga_raster_count_def ga_count52_def ga_count_vsync_def Let_def)

lemma unat_next_line: "unat ((x + 1) AND 0x3F :: u8) = (unat x mod 64 + 1) mod 64"
  by (simp add: mask_simps unat_take_bit unat_word_ariths mod_mod_cancel mod_Suc_eq)

lemma raster_no_resync:
  assumes "ga_hs_count g = 0"
  shows "ga_hs_count (raster g) = 0"
    and "unat (ga_sl_count g) mod 64 = 51 \<Longrightarrow> ga_irq_line (raster g)"
    and "unat (ga_sl_count g) mod 64 \<noteq> 51 \<Longrightarrow>
      unat (ga_sl_count (raster g)) = (unat (ga_sl_count g) mod 64 + 1) mod 64"
proof -
  have "(k + 1) mod 64 = 52 \<longleftrightarrow> k = 51" if "k < 64" for k :: nat
    using that by (cases "k = 63") auto
  then have fire: "(x + 1) AND 0x3F = (52 :: u8) \<longleftrightarrow> unat x mod 64 = 51" for x :: u8
    unfolding word_unat_eq_iff unat_next_line by simp
  show "ga_hs_count (raster g) = 0"
    using assms by (simp add: ga_raster_count_def ga_count52_def ga_count_vsync_def Let_def)
  show "ga_irq_line (raster g)" if "unat (ga_sl_count g) mod 64 = 51"
    using assms that fire by (simp add: ga_raster_count_def ga_count52_def ga_count_vsync_def Let_def)
  show "unat (ga_sl_count (raster g)) = (unat (ga_sl_count g) mod 64 + 1) mod 64"
    if "unat (ga_sl_count g) mod 64 \<noteq> 51"
    using assms that fire unat_next_line
    by (simp add: ga_raster_count_def ga_count52_def ga_count_vsync_def Let_def)
qed

text \<open>Lines until the counter reads 52, from any six-bit value.\<close>

definition lines_left :: "u8 \<Rightarrow> nat" where
  "lines_left sl = (let k = unat sl mod 64 in if k < 52 then 52 - k else 116 - k)"

lemma irq_after_lines_left:
  assumes "ga_hs_count g = 0"
  shows "ga_irq_line ((raster ^^ lines_left (ga_sl_count g)) g)"
  using assms
proof (induction "lines_left (ga_sl_count g)" arbitrary: g)
  case 0
  have "unat (ga_sl_count g) mod 64 < 64" by simp
  with 0 show ?case by (simp add: lines_left_def Let_def split: if_splits)
next
  case (Suc n)
  let ?k = "unat (ga_sl_count g) mod 64"
  show ?case
  proof (cases "?k = 51")
    case True
    then have "lines_left (ga_sl_count g) = 1" by (simp add: lines_left_def)
    with True Suc.prems show ?thesis by (simp add: raster_no_resync)
  next
    case False
    then have "unat (ga_sl_count (raster g)) = (?k + 1) mod 64"
      using Suc.prems by (simp add: raster_no_resync)
    moreover have "?k < 64" by simp
    ultimately have "n = lines_left (ga_sl_count (raster g))"
      using Suc.hyps(2) False by (auto simp: lines_left_def Let_def mod_Suc split: if_splits)
    then have "ga_irq_line ((raster ^^ n) (raster g))"
      using Suc.hyps(1) [of "raster g"] Suc.prems raster_no_resync(1) by simp
    then show ?thesis
      using Suc.hyps(2) by (metis comp_apply funpow_Suc_right)
  qed
qed

lemma lines_left_le: "lines_left sl \<le> 64"
  unfolding lines_left_def Let_def by simp linarith

lemma raster_resync:
  assumes "ga_hs_count g \<noteq> 0"
  shows "ga_hs_count (raster g) = ga_hs_count g - 1"
    and "ga_hs_count g = 1 \<Longrightarrow> ga_sl_count (raster g) = 0"
  using assms by (simp_all add: ga_raster_count_def ga_count52_def ga_count_vsync_def Let_def)

lemma irq_within:
  assumes "fits 2 (ga_hs_count g)"
  shows "\<exists>n \<le> 64. ga_irq_line ((raster ^^ n) g)"
proof (cases "ga_hs_count g = 0")
  case True
  then show ?thesis using irq_after_lines_left lines_left_le by blast
next
  case False
  have resync: "\<exists>n \<le> 51 + unat (ga_hs_count g). ga_irq_line ((raster ^^ Suc n) g)" if "ga_hs_count g \<noteq> 0" for g
    using that
  proof (induction "unat (ga_hs_count g)" arbitrary: g)
    case (Suc m)
    have m: "unat (ga_hs_count (raster g)) = m"
      using Suc.hyps(2) Suc.prems by (simp add: raster_resync unat_minus_one)
    show ?case
    proof (cases "m = 0")
      case True
      then have "ga_hs_count (raster g) = 0" "ga_hs_count g = 1"
        using m Suc.hyps(2) by (simp_all add: word_unat_eq_iff)
      moreover from this(2) have "ga_sl_count (raster g) = 0"
        using raster_resync(2) by simp
      ultimately have "ga_irq_line ((raster ^^ 52) (raster g))"
        using irq_after_lines_left [of "raster g"] by (simp add: lines_left_def)
      then have "ga_irq_line ((raster ^^ Suc 52) g)"
        by (metis comp_apply funpow_Suc_right)
      then show ?thesis
        using Suc.hyps(2) True by (intro exI [of _ 52]) simp
    next
      case False
      then have "ga_hs_count (raster g) \<noteq> 0"
        using m by auto
      then obtain n where "n \<le> 51 + m" "ga_irq_line ((raster ^^ Suc n) (raster g))"
        using Suc.hyps(1) m by metis
      then have "ga_irq_line ((raster ^^ Suc (Suc n)) g)"
        by (metis comp_apply funpow_Suc_right)
      then show ?thesis
        using Suc.hyps(2) \<open>n \<le> 51 + m\<close> by (intro exI [of _ "Suc n"]) simp
    qed
  qed (simp add: unat_eq_0)
  moreover have "unat (ga_hs_count g) \<le> 3"
    using fits_unat [OF assms] by simp
  moreover obtain n where "n \<le> 51 + unat (ga_hs_count g)" "ga_irq_line ((raster ^^ Suc n) g)"
    using resync [OF False] by blast
  ultimately show ?thesis
    by (intro exI [of _ "Suc n"]) simp
qed

lemma predict_loop_spec:
  assumes "ga_irq_line ((raster ^^ k) s)" and "n + k \<le> Suc bound" and "\<not> ga_irq_line s"
  shows "\<exists>j. 0 < j \<and> j \<le> k \<and> ga_predict_loop s n bound = int (n + j - 1) \<and> ga_irq_line ((raster ^^ j) s) \<and>
    (\<forall>i < j. \<not> ga_irq_line ((raster ^^ i) s))"
  using assms
proof (induction k arbitrary: s n)
  case 0
  then show ?case by simp
next
  case (Suc k)
  show ?case
  proof (cases "ga_irq_line (raster s)")
    case True
    with Suc.prems show ?thesis
      by (subst ga_predict_loop.simps) (intro exI [of _ 1], simp)
  next
    case False
    have "ga_irq_line ((raster ^^ k) (raster s))"
      using Suc.prems(1) by (metis comp_apply funpow_Suc_right)
    then obtain j where j: "0 < j" "j \<le> k" "ga_predict_loop (raster s) (Suc n) bound = int (Suc n + j - 1)"
        "ga_irq_line ((raster ^^ j) (raster s))" "\<forall>i < j. \<not> ga_irq_line ((raster ^^ i) (raster s))"
      using Suc.IH [of "raster s" "Suc n"] Suc.prems False by auto
    have "ga_predict_loop s n bound = ga_predict_loop (raster s) (Suc n) bound"
      using False Suc.prems by (subst ga_predict_loop.simps) (simp add: Let_def)
    moreover have "ga_irq_line ((raster ^^ Suc j) s)"
      using j(4) by (metis comp_apply funpow_Suc_right)
    moreover have "\<not> ga_irq_line ((raster ^^ i) s)" if "i < Suc j" for i
      using that j(5) Suc.prems(3) by (cases i) (auto simp del: funpow.simps simp: funpow_Suc_right)
    ultimately show ?thesis
      using j(2,3) by (intro exI [of _ "Suc j"]) simp
  qed
qed

subsection \<open>Interfaces provided\<close>

text \<open>A cycle with no sync movement, no I/O and no acknowledge.\<close>

definition ga_idle_bus :: "ga_state \<Rightarrow> Bus" where
  "ga_idle_bus g = bus_resting\<lparr>b_vid := (b_vid bus_resting)\<lparr>vid_hsync := ga_hsync_prev g,
     vid_vsync := ga_vsync_prev g\<rparr>\<rparr>"

lemma ga_idle_step: "fst (ga_step asic g (ga_idle_bus g)) = g\<lparr>ga_phase := (ga_phase g + 1) AND 0x0F\<rparr>"
  by (simp add: ga_step_def ga_sync_def ga_idle_bus_def bus_resting_def Let_def)

lemma ucast_phase0: "ucast (take_bit 4 (ucast (x :: u8)) :: u64) = take_bit 4 x"
  by (rule bit_word_eqI) (auto simp: bit_simps)

lemma ucast_phase: "ucast (take_bit 4 (x + 1) :: u64) = (take_bit 4 (ucast (take_bit 4 x) + 1) :: u8)"
proof -
  have "unat (ucast (take_bit 4 y) :: u8) = unat y mod 16" for y :: u64
    by (simp only: unsigned_ucast_eq unat_take_bit take_bit_nat_def) simp
  then show ?thesis
    by (simp add: word_unat_eq_iff unat_take_bit unat_word_ariths mod_mod_cancel mod_Suc_eq)
qed

lemma ga_advance_Suc:
  "ga_advance g (of_nat (Suc n)) = (ga_advance g (of_nat n))\<lparr>ga_phase := (ga_phase (ga_advance g (of_nat n)) + 1) AND 0x0F\<rparr>"
proof -
  have "ucast (ga_phase g) + of_nat (Suc n) = (ucast (ga_phase g) + of_nat n :: u64) + 1"
    by simp
  then show ?thesis
    by (simp only: ga_advance_def and_low_mask64 and_low_mask8 ucast_phase) simp
qed

lemma ga_write_idem: "ga_write asic (ga_write asic g d) d = ga_write asic g d"
proof -
  have "drop_bit 6 d = 0 \<or> drop_bit 6 d = 1 \<or> drop_bit 6 d = 2 \<or> drop_bit 6 d = 3 \<or>
    drop_bit 6 d \<notin> {0, 1, 2, 3}"
    by auto
  then show ?thesis
    by (elim disjE) (simp_all add: ga_write_def Let_def)
qed

interpretation ga_drv: bus_driver "ga_tick asic" "\<lambda>g i. fst (ga_step asic g i)" "\<lambda>g i. snd (ga_step asic g i)"
  for asic
  by unfold_locales (simp add: ga_tick_def)

interpretation ga_held: held_write "ga_fast_io_write asic" for asic
  by unfold_locales (simp add: ga_fast_io_write_def ga_write_idem)

interpretation ga_wake: catch_up "\<lambda>g. fst (ga_step asic g (ga_idle_bus g))" "\<lambda>g n. ga_advance g (of_nat n)" ga_wf
  for asic
proof
  show "ga_advance s (of_nat 0) = s" if "ga_wf s" for s
  proof -
    have "ucast (ucast (ga_phase s) AND 0x0F :: u64) = ga_phase s"
      using that by (simp add: ga_wf_def and_low_mask64 fits_def ucast_phase0)
    then show ?thesis by (simp add: ga_advance_def)
  qed
  show "ga_advance s (of_nat (Suc n)) = fst (ga_step asic (ga_advance s (of_nat n)) (ga_idle_bus (ga_advance s (of_nat n))))"
    for s n
    by (simp only: ga_idle_step ga_advance_Suc)
  show "ga_wf (fst (ga_step asic s (ga_idle_bus s)))" if "ga_wf s" for s
    using that by (rule ga_wf_step)
qed

interpretation ga_blob: state_blob ga_save ga_load "\<lambda>g. g" "\<lambda>g. ()"
  by unfold_locales (simp_all add: ga_save_def ga_load_def)

text \<open>No operation but the tick itself reads the phase or the sync shadows.\<close>

definition stamp :: "u8 \<Rightarrow> bool \<Rightarrow> bool \<Rightarrow> ga_state \<Rightarrow> ga_state" where
  "stamp ph h v g = g\<lparr>ga_phase := ph, ga_hsync_prev := h, ga_vsync_prev := v\<rparr>"

lemma stamp_write: "ga_write asic (stamp ph h v g) d = stamp ph h v (ga_write asic g d)"
  by (simp add: ga_write_def Let_def stamp_def)

lemma stamp_raster: "ga_raster_count (stamp ph h v g) owns = stamp ph h v (ga_raster_count g owns)"
  by (simp add: ga_raster_count_def ga_count52_def ga_count_vsync_def Let_def stamp_def)

lemma stamp_ack: "ga_batch_int_ack (stamp ph h v g) = stamp ph h v (ga_batch_int_ack g)"
  by (simp add: ga_batch_int_ack_def stamp_def)

lemma stamp_edges:
  "ga_batch_hsync_rise (stamp ph h v g) = stamp ph h v (ga_batch_hsync_rise g)"
  "ga_batch_vsync_rise (stamp ph h v g) = stamp ph h v (ga_batch_vsync_rise g)"
  "ga_batch_hsync_fall asic (stamp ph h v g) = stamp ph h v (ga_batch_hsync_fall asic g)"
  by (simp_all add: ga_batch_hsync_rise_def ga_batch_vsync_rise_def ga_batch_hsync_fall_def stamp_raster)
    (simp_all add: stamp_def)

lemma ga_event_phase:
  "ga_phase (ga_write asic g d) = ga_phase g" "ga_phase (ga_raster_count g owns) = ga_phase g"
  "ga_phase (ga_batch_int_ack g) = ga_phase g" "ga_phase (ga_batch_hsync_rise g) = ga_phase g"
  "ga_phase (ga_batch_vsync_rise g) = ga_phase g"
  by (simp_all add: ga_write_def ga_raster_count_def ga_count52_def ga_count_vsync_def Let_def
    ga_batch_int_ack_def ga_batch_hsync_rise_def ga_batch_vsync_rise_def)

lemma ga_step_stamped:
  "fst (ga_step asic g i) =
    (let hs = vid_hsync (b_vid i); vs = vid_vsync (b_vid i);
         e0 = stamp ((ga_phase g + 1) AND 0x0F) hs vs g;
         e1 = (if vs \<and> \<not> ga_vsync_prev g then ga_batch_vsync_rise e0 else e0);
         e2 = (if hs \<and> \<not> ga_hsync_prev g then ga_batch_hsync_rise e1 else e1);
         e3 = (if \<not> hs \<and> ga_hsync_prev g then ga_batch_hsync_fall asic e2 else e2);
         e4 = (if cpu_m1 (b_cpu i) \<and> cpu_iorq (b_cpu i) then ga_batch_int_ack e3 else e3)
     in if cpu_iorq (b_cpu i) \<and> cpu_wr (b_cpu i)
        then ga_fast_io_write asic e4 (cpu_addr (b_cpu i)) (cpu_data (b_cpu i)) else e4)"
proof -
  have "ga_sync asic (g\<lparr>ga_phase := ph\<rparr>) hs vs =
    (let e0 = stamp ph hs vs g;
         e1 = (if vs \<and> \<not> ga_vsync_prev g then ga_batch_vsync_rise e0 else e0);
         e2 = (if hs \<and> \<not> ga_hsync_prev g then ga_batch_hsync_rise e1 else e1)
     in if \<not> hs \<and> ga_hsync_prev g then ga_batch_hsync_fall asic e2 else e2)" for ph hs vs
    by (cases hs; cases vs; cases "ga_hsync_prev g"; cases "ga_vsync_prev g")
      (simp_all add: ga_sync_def Let_def stamp_def ga_batch_hsync_rise_def ga_batch_vsync_rise_def
        ga_batch_hsync_fall_def)
  moreover have "ga_batch_int_ack = ga_int_ack"
    by (simp add: ga_int_ack_def ga_batch_int_ack_def fun_eq_iff)
  ultimately show ?thesis
    by (simp add: ga_step_def ga_fast_io_write_def Let_def)
qed

lemma ga_advance_1: "ga_advance g 1 = g\<lparr>ga_phase := (ga_phase g + 1) AND 0x0F\<rparr>"
proof -
  have "take_bit 4 (x + 1) = take_bit 4 (take_bit 4 x + 1)" for x :: u8
    by (simp add: take_bit_add_left)
  then show ?thesis
    using ucast_phase [of "ucast (ga_phase g)"]
    by (simp add: ga_advance_def and_low_mask64 and_low_mask8 ucast_phase0)
qed

subsection \<open>Reachable states\<close>

text \<open>Everything the board and the Fast tier do to a Gate Array, in any order: ticks on any bus,
  the batch events, tier handover, snapshot pokes, catch-up, reset, and loading a saved state.\<close>

inductive ga_reach :: "ga_state \<Rightarrow> bool" where
  reach_init: "ga_reach ga_init"
| reach_tick: "ga_reach g \<Longrightarrow> ga_reach (fst (ga_step asic g i))"
| reach_hsync_rise: "ga_reach g \<Longrightarrow> ga_reach (ga_batch_hsync_rise g)"
| reach_hsync_fall: "ga_reach g \<Longrightarrow> ga_reach (ga_batch_hsync_fall asic g)"
| reach_vsync_rise: "ga_reach g \<Longrightarrow> ga_reach (ga_batch_vsync_rise g)"
| reach_int_ack: "ga_reach g \<Longrightarrow> ga_reach (ga_batch_int_ack g)"
| reach_io_write: "ga_reach g \<Longrightarrow> ga_reach (ga_fast_io_write asic g p d)"
| reach_set_sync: "ga_reach g \<Longrightarrow> ga_reach (ga_batch_set_sync g h v)"
| reach_poke: "ga_reach g \<Longrightarrow> ga_reach (ga_poke_counters g hs sl q)"
| reach_advance: "ga_reach g \<Longrightarrow> ga_reach (ga_advance g n)"
| reach_reset: "ga_reach g \<Longrightarrow> ga_reach (ga_reset g)"
| reach_load: "ga_reach g \<Longrightarrow> ga_reach s \<Longrightarrow> ga_reach (ga_load g (ga_save s))"

lemma ga_reach_inv: "ga_reach g \<Longrightarrow> ga_wf g"
  by (induction rule: ga_reach.induct) (simp_all add: inv_intros ga_load_def ga_save_def ga_wf_init
    ga_wf_step ga_wf_events)

subsection \<open>Properties\<close>

text \<open>(ga_reach_wf): In every reachable state the selected pen indexes one of the seventeen inks, every ink is a
  5-bit hardware colour, the active and requested modes are below 4, the divider phase below 16 and
  the resync countdown at most 3.\<close>
theorem ga_reach_wf:
  assumes "ga_reach g"
  shows "unat (ga_pen g) < 17 \<and> unat (ga_ink g p) < 32 \<and> unat (ga_mode g) < 4 \<and> unat (ga_req_mode g) < 4 \<and>
    unat (ga_phase g) < 16 \<and> unat (ga_hs_count g) < 4"
  using ga_reach_inv [OF assms] by (auto simp: ga_wf_def fits_iff_unat)

theorem ga_reach_wf_witness:
  "unat (ga_pen (ga_fast_io_write None ga_init 0x7F00 0x1F)) < 17"
  using ga_reach_wf [OF reach_io_write [OF reach_init, of None "0x7F00" "0x1F"]] by simp

text \<open>C5 (ga_predict_exact): While the Gate Array owns the interrupt and has none pending, the horizon helper returns a
  number n between 1 and 64 that is exact: INT is low after every smaller number of HSYNC falling
  edges and high after n of them. The fall-through that returns -1 is never taken.\<close>
theorem ga_predict_exact:
  assumes "ga_reach g" and "ga_owns_int asic" and "\<not> ga_irq_asserted g"
  shows "\<exists>n. 0 < n \<and> n \<le> 64 \<and> ga_predict_irq_hsyncs asic g = int n \<and>
    ga_irq_asserted ((ga_batch_hsync_fall asic ^^ n) g) \<and>
    (\<forall>m < n. \<not> ga_irq_asserted ((ga_batch_hsync_fall asic ^^ m) g))"
proof -
  have fall: "ga_batch_hsync_fall asic = raster"
    using assms(2) by (simp add: ga_batch_hsync_fall_def fun_eq_iff)
  have "fits 2 (ga_hs_count g)"
    using ga_reach_inv [OF assms(1)] by (simp add: ga_wf_def)
  then obtain k where k: "k \<le> 64" "ga_irq_line ((raster ^^ k) g)"
    using irq_within by blast
  from predict_loop_spec [OF k(2), of 1 86] k(1) assms(3)
  obtain j where "0 < j" "j \<le> k" "ga_predict_loop g 1 86 = int j" "ga_irq_line ((raster ^^ j) g)"
      "\<forall>i < j. \<not> ga_irq_line ((raster ^^ i) g)"
    by (auto simp: ga_irq_asserted_def)
  then show ?thesis
    using k(1) assms(2,3)
    by (intro exI [of _ j]) (simp add: ga_predict_irq_hsyncs_def ga_irq_asserted_def fall)
qed

theorem ga_predict_exact_witness:
  "\<exists>n. 0 < n \<and> n \<le> 64 \<and> ga_predict_irq_hsyncs None (ga_poke_counters ga_init 2 40 0) = int n \<and>
    ga_irq_asserted ((ga_batch_hsync_fall None ^^ n) (ga_poke_counters ga_init 2 40 0)) \<and>
    (\<forall>m < n. \<not> ga_irq_asserted ((ga_batch_hsync_fall None ^^ m) (ga_poke_counters ga_init 2 40 0)))"
  by (rule ga_predict_exact)
    (simp_all add: ga_reach.intros ga_owns_int_def ga_irq_asserted_def, simp add: ga_poke_counters_def)

text \<open>C35 (ga_tick_as_events): On any committed bus, one tick does to the Gate Array's state exactly what the Fast tier's
  events do: VSYNC edge before HSYNC edge, then the acknowledge, then the I/O write, with the divider
  advanced by one and the sync shadows set to the bus levels.\<close>
theorem ga_tick_as_events:
  "fst (ga_step asic g i) =
    (let hs = vid_hsync (b_vid i); vs = vid_vsync (b_vid i);
         e1 = (if vs \<and> \<not> ga_vsync_prev g then ga_batch_vsync_rise g else g);
         e2 = (if hs \<and> \<not> ga_hsync_prev g then ga_batch_hsync_rise e1 else e1);
         e3 = (if \<not> hs \<and> ga_hsync_prev g then ga_batch_hsync_fall asic e2 else e2);
         e4 = (if cpu_m1 (b_cpu i) \<and> cpu_iorq (b_cpu i) then ga_batch_int_ack e3 else e3);
         e5 = (if cpu_iorq (b_cpu i) \<and> cpu_wr (b_cpu i)
               then ga_fast_io_write asic e4 (cpu_addr (b_cpu i)) (cpu_data (b_cpu i)) else e4)
     in ga_batch_set_sync (ga_advance e5 1) hs vs)"
proof -
  have "ga_batch_set_sync (ga_advance e 1) h v = stamp ((ga_phase e + 1) AND 0x0F) h v e" for e h v
    by (simp add: stamp_def ga_batch_set_sync_def ga_advance_1)
  moreover have "ga_fast_io_write asic (stamp ph h v e) p d = stamp ph h v (ga_fast_io_write asic e p d)"
    "ga_phase (ga_fast_io_write asic e p d) = ga_phase e" "ga_phase (ga_batch_hsync_fall asic e) = ga_phase e"
    for ph h v e p d
    by (simp_all add: ga_fast_io_write_def stamp_write ga_event_phase ga_batch_hsync_fall_def)
  ultimately show ?thesis
    by (cases "vid_vsync (b_vid i) \<and> \<not> ga_vsync_prev g"; cases "vid_hsync (b_vid i) \<and> \<not> ga_hsync_prev g";
        cases "\<not> vid_hsync (b_vid i) \<and> ga_hsync_prev g"; cases "cpu_m1 (b_cpu i) \<and> cpu_iorq (b_cpu i)";
        cases "cpu_iorq (b_cpu i) \<and> cpu_wr (b_cpu i)")
      (simp_all only: ga_step_stamped Let_def stamp_edges stamp_ack ga_event_phase if_True if_False simp_thms)
qed

end
