(* ===== verification/Crtc.thy ===== *)
theory Crtc
  imports Asic
begin

text \<open>
  The 6845 CRTC, \<open>src/src/hw/crtc.cpp\<close>, types 0 to 3: the character and scanline state machine, the
  register file with its write masks and per-type read windows, the Plus split and vertical scroll
  (read from the ASIC), the light-pen latch, and the batch engine of the Fast tier with its
  closed-form spans and IRQ horizon. Fields are named \<open>cr_x\<close> for the C member \<open>x\<close>; the \<open>asic\<close>
  pointer is the parameter \<open>asic :: asic_state option\<close>. Comparisons that C makes on promoted
  \<open>int\<close>s are made on naturals.
\<close>

subsection \<open>State\<close>

record crtc_state =
  cr_reg :: "nat \<Rightarrow> u8"
  cr_reg_select :: u8
  cr_type :: u8
  cr_hcc :: u8
  cr_ra :: u8
  cr_vcc :: u8
  cr_hsw :: u8
  cr_vsw :: u8
  cr_vta :: u8
  cr_in_hsync :: bool
  cr_in_vsync :: bool
  cr_in_vta :: bool
  cr_r7match :: bool
  cr_dispen :: bool
  cr_lpen_prev :: bool
  cr_ma_row :: u16
  cr_ma :: u16
  cr_scanline :: u16
  cr_plus_split :: bool
  cr_split_sl_snap :: u16
  cr_split_addr_snap :: u16

definition kRegWMask :: "u8 list" where
  "kRegWMask = [0xFF, 0xFF, 0xFF, 0xFF, 0x7F, 0x1F, 0x7F, 0x7F,
    0xFF, 0x1F, 0x7F, 0x1F, 0x3F, 0xFF, 0x3F, 0xFF]"

definition crtc_reset :: "crtc_state \<Rightarrow> crtc_state" where
  "crtc_reset c =
    \<lparr> cr_reg = (\<lambda>_. 0), cr_reg_select = 0, cr_type = cr_type c, cr_hcc = 0, cr_ra = 0, cr_vcc = 0,
      cr_hsw = 0, cr_vsw = 0, cr_vta = 0, cr_in_hsync = False, cr_in_vsync = False, cr_in_vta = False,
      cr_r7match = False, cr_dispen = False, cr_lpen_prev = False, cr_ma_row = 0, cr_ma = 0,
      cr_scanline = 0, cr_plus_split = False, cr_split_sl_snap = 0, cr_split_addr_snap = 0 \<rparr>"

text \<open>\<open>crtc_state()\<close> followed by \<open>crtc_reset\<close>.\<close>

definition crtc_init :: crtc_state where
  "crtc_init =
    \<lparr> cr_reg = (\<lambda>_. 0), cr_reg_select = 0, cr_type = 0, cr_hcc = 0, cr_ra = 0, cr_vcc = 0,
      cr_hsw = 0, cr_vsw = 0, cr_vta = 0, cr_in_hsync = False, cr_in_vsync = False, cr_in_vta = False,
      cr_r7match = False, cr_dispen = False, cr_lpen_prev = False, cr_ma_row = 0, cr_ma = 0,
      cr_scanline = 0, cr_plus_split = False, cr_split_sl_snap = 0, cr_split_addr_snap = 0 \<rparr>"

subsection \<open>Per-type helpers\<close>

definition hsync_width :: "crtc_state \<Rightarrow> u8" where
  "hsync_width c =
    (let w = cr_reg c 3 AND 0x0F in
     if w = 0 \<and> (cr_type c = 2 \<or> cr_type c = 3) then 16 else w)"

definition vsync_width :: "crtc_state \<Rightarrow> u8" where
  "vsync_width c =
    (if cr_type c = 1 \<or> cr_type c = 2 then 16
     else let w = drop_bit 4 (cr_reg c 3) in if w \<noteq> 0 then w else 16)"

definition disp_skew :: "asic_state option \<Rightarrow> crtc_state \<Rightarrow> u8" where
  "disp_skew asic c =
    (if cr_type c = 1 \<or> cr_type c = 2 then 0
     else
       (let s = drop_bit 4 (cr_reg c 8) AND 3 in
        if s = 3 then 0xFF
        else if (case asic of None \<Rightarrow> False | Some a \<Rightarrow> asic_vid_active a \<and> asic_vid_extend_border a)
          then s + 1 else s))"

definition read_reg :: "crtc_state \<Rightarrow> u8" where
  "read_reg c =
    (let reg = cr_reg_select c; lo = (if cr_type c = 1 \<or> cr_type c = 2 then 14 else 12) in
     if reg \<ge> lo \<and> reg \<le> 17 then cr_reg c (unat reg)
     else if cr_type c = 1 \<and> reg = 31 then 0xFF
     else 0)"

definition status_reg :: "crtc_state \<Rightarrow> u8" where
  "status_reg c = (if cr_vcc c \<ge> cr_reg c 6 then 0x20 else 0x00)"

definition check_vsync_start :: "crtc_state \<Rightarrow> crtc_state" where
  "check_vsync_start c =
    (let match = (cr_vcc c = cr_reg c 7);
         c1 = (if match \<and> \<not> cr_r7match c \<and> \<not> cr_in_vsync c
               then c\<lparr>cr_in_vsync := True, cr_vsw := 0\<rparr> else c)
     in c1\<lparr>cr_r7match := match\<rparr>)"

definition snapshot_split :: "asic_state option \<Rightarrow> crtc_state \<Rightarrow> crtc_state" where
  "snapshot_split asic c0 =
    (let c = c0\<lparr>cr_plus_split := False\<rparr> in
     case asic of None \<Rightarrow> c
     | Some a \<Rightarrow>
         if \<not> asic_vid_active a then c
         else (case asic_vid_split a of (line, addr) \<Rightarrow>
           if line = 0 then c
           else c\<lparr>cr_plus_split := True, cr_split_sl_snap := ucast line, cr_split_addr_snap := addr\<rparr>))"

definition apply_vscroll :: "asic_state option \<Rightarrow> crtc_state \<Rightarrow> u16 \<Rightarrow> u8 \<Rightarrow> u16 \<times> u8" where
  "apply_vscroll asic c ma ra =
    (case asic of None \<Rightarrow> (ma, ra)
     | Some a \<Rightarrow>
         if \<not> asic_vid_active a then (ma, ra)
         else
           (let vscroll = snd (asic_vid_scroll a) in
            if vscroll = 0 then (ma, ra)
            else
              (let ra_eff = unat ra + unat vscroll in
               if ra_eff \<le> unat (cr_reg c 9) then (ma, of_nat ra_eff)
               else ((ma + ucast (cr_reg c 1)) AND 0x3FFF,
                     of_nat (ra_eff - (unat (cr_reg c 9) + 1))))))"

subsection \<open>The character state machine\<close>

definition start_addr :: "crtc_state \<Rightarrow> u16" where
  "start_addr c = (push_bit 8 (ucast (cr_reg c 12)) OR ucast (cr_reg c 13)) AND 0x3FFF"

definition crtc_newframe :: "asic_state option \<Rightarrow> crtc_state \<Rightarrow> crtc_state" where
  "crtc_newframe asic c =
    check_vsync_start (snapshot_split asic
      (c\<lparr>cr_vcc := 0, cr_ra := 0, cr_in_vta := False, cr_vta := 0, cr_scanline := 0,
         cr_ma_row := start_addr c\<rparr>))"

text \<open>The first component is the C result: whether the frame restarted.\<close>

definition crtc_newrow :: "asic_state option \<Rightarrow> crtc_state \<Rightarrow> bool \<times> crtc_state" where
  "crtc_newrow asic c0 =
    (let c = c0\<lparr>cr_ma_row := (cr_ma_row c0 + ucast (cr_reg c0 1)) AND 0x3FFF\<rparr> in
     if cr_vcc c = cr_reg c 4 then
       (if cr_reg c 5 \<noteq> 0 then (False, c\<lparr>cr_in_vta := True, cr_vta := 0\<rparr>)
        else (True, crtc_newframe asic c))
     else (False, check_vsync_start (c\<lparr>cr_vcc := (cr_vcc c + 1) AND 0x7F\<rparr>)))"

definition vsync_line :: "crtc_state \<Rightarrow> crtc_state" where
  "vsync_line c =
    (if cr_in_vsync c then
       (let v = cr_vsw c + 1 in
        c\<lparr>cr_vsw := v, cr_in_vsync := \<not> v \<ge> vsync_width c\<rparr>)
     else c)"

definition row_line :: "asic_state option \<Rightarrow> crtc_state \<Rightarrow> bool \<times> crtc_state" where
  "row_line asic c =
    (if cr_ra c = cr_reg c 9 then crtc_newrow asic (c\<lparr>cr_ra := 0\<rparr>)
     else (False, c\<lparr>cr_ra := (cr_ra c + 1) AND 0x1F\<rparr>))"

text \<open>The base address of the line to come: the type-1 reload during row 0, then the split.\<close>

definition line_base :: "bool \<Rightarrow> bool \<Rightarrow> crtc_state \<Rightarrow> crtc_state" where
  "line_base split_here restarted c3 =
    (let c4 = (if cr_type c3 = 1 \<and> cr_vcc c3 = 0 then c3\<lparr>cr_ma_row := start_addr c3\<rparr> else c3)
     in if split_here \<and> \<not> restarted then c4\<lparr>cr_ma_row := cr_split_addr_snap c4\<rparr> else c4)"

definition crtc_newscanline :: "asic_state option \<Rightarrow> crtc_state \<Rightarrow> crtc_state" where
  "crtc_newscanline asic c0 =
    (let c1 = c0\<lparr>cr_scanline := cr_scanline c0 + 1\<rparr>;
         split_here = (cr_plus_split c1 \<and> cr_scanline c1 = cr_split_sl_snap c1);
         c2 = vsync_line c1
     in if cr_in_vta c2 then
          (let c3 = c2\<lparr>cr_vta := cr_vta c2 + 1\<rparr> in
           if cr_vta c3 \<ge> cr_reg c3 5 then crtc_newframe asic c3 else c3)
        else
          (let r = row_line asic c2 in line_base split_here (fst r) (snd r)))"

definition hsync_char :: "crtc_state \<Rightarrow> crtc_state" where
  "hsync_char c =
    (let hwidth = hsync_width c in
     if cr_hcc c = cr_reg c 2 \<and> hwidth \<noteq> 0 then c\<lparr>cr_in_hsync := True, cr_hsw := 0\<rparr>
     else if cr_in_hsync c then
       (let w = cr_hsw c + 1 in c\<lparr>cr_hsw := w, cr_in_hsync := \<not> w \<ge> hwidth\<rparr>)
     else c)"

definition dispen_at :: "asic_state option \<Rightarrow> crtc_state \<Rightarrow> nat \<Rightarrow> bool" where
  "dispen_at asic c hcc \<longleftrightarrow>
    (let skew = disp_skew asic c in
     skew \<noteq> 0xFF \<and> hcc \<ge> unat skew \<and> hcc < unat skew + unat (cr_reg c 1) \<and> cr_vcc c < cr_reg c 6)"

definition crtc_char :: "asic_state option \<Rightarrow> crtc_state \<Rightarrow> crtc_state" where
  "crtc_char asic c0 =
    (let c1 = hsync_char c0;
         c2 = c1\<lparr>cr_ma := (cr_ma_row c1 + ucast (cr_hcc c1)) AND 0x3FFF,
                 cr_dispen := dispen_at asic c1 (unat (cr_hcc c1))\<rparr>
     in if cr_hcc c2 = cr_reg c2 0 then crtc_newscanline asic (c2\<lparr>cr_hcc := 0\<rparr>)
        else c2\<lparr>cr_hcc := cr_hcc c2 + 1\<rparr>)"

subsection \<open>Register access and the tick\<close>

datatype CrtcEdgeKind = HSYNC_RISE | HSYNC_FALL | VSYNC_RISE | VSYNC_FALL

text \<open>Returns whether the write itself started VSYNC (the one bit the C mask can carry).\<close>

definition crtc_io_write_decode :: "crtc_state \<Rightarrow> u16 \<Rightarrow> u8 \<Rightarrow> bool \<times> crtc_state" where
  "crtc_io_write_decode c addr data =
    (if addr AND 0x4000 \<noteq> 0 then (False, c)
     else
       (let fn = drop_bit 8 addr AND 3 in
        if fn = 0 then (False, c\<lparr>cr_reg_select := data AND 0x1F\<rparr>)
        else if fn = 1 \<and> cr_reg_select c < 16 then
          (let k = unat (cr_reg_select c);
               c1 = c\<lparr>cr_reg := (cr_reg c)(k := data AND kRegWMask ! k)\<rparr>
           in if cr_reg_select c = 7 then
                (let c2 = check_vsync_start c1 in (cr_in_vsync c2 \<and> \<not> cr_in_vsync c1, c2))
              else (False, c1))
        else (False, c)))"

definition crtc_io_read_decode :: "crtc_state \<Rightarrow> u16 \<Rightarrow> u8 option" where
  "crtc_io_read_decode c addr =
    (if addr AND 0x4000 \<noteq> 0 then None
     else
       (let fn = drop_bit 8 addr AND 3 in
        if fn = 3 \<or> (fn = 2 \<and> cr_type c = 3) then Some (read_reg c)
        else if fn = 2 \<and> cr_type c = 1 then Some (status_reg c)
        else None))"

definition lpen_latch :: "crtc_state \<Rightarrow> crtc_state" where
  "lpen_latch c = c\<lparr>cr_reg := (cr_reg c)(16 := ucast (drop_bit 8 (cr_ma c) AND 0x3F),
                                        17 := ucast (cr_ma c AND 0xFF))\<rparr>"

definition crtc_fast_lpen_strobe :: "crtc_state \<Rightarrow> bool \<Rightarrow> crtc_state" where
  "crtc_fast_lpen_strobe c level =
    (if level \<and> \<not> cr_lpen_prev c then lpen_latch c else c)\<lparr>cr_lpen_prev := level\<rparr>"

definition crtc_batch_lpen_latch :: "crtc_state \<Rightarrow> bool \<Rightarrow> crtc_state" where
  "crtc_batch_lpen_latch c level = (if level then lpen_latch c else c)\<lparr>cr_lpen_prev := level\<rparr>"

definition crtc_lines :: "asic_state option \<Rightarrow> crtc_state \<Rightarrow> asg list" where
  "crtc_lines asic c =
    (let r = apply_vscroll asic c (cr_ma c) (cr_ra c) in
     [Dr_hsync (cr_in_hsync c), Dr_hsw (cr_hsw c), Dr_vsync (cr_in_vsync c), Dr_dispen (cr_dispen c),
      Dr_ma (fst r), Dr_ra (snd r), Dr_frame_line (cr_scanline c)])"

definition crtc_step :: "asic_state option \<Rightarrow> crtc_state \<Rightarrow> Bus \<Rightarrow> crtc_state \<times> asg list" where
  "crtc_step asic c0 i =
    (let io = cpu_iorq (b_cpu i); addr = cpu_addr (b_cpu i);
         c1 = (if io \<and> cpu_wr (b_cpu i) then snd (crtc_io_write_decode c0 addr (cpu_data (b_cpu i))) else c0);
         rd = (if io \<and> \<not> cpu_wr (b_cpu i) \<and> cpu_rd (b_cpu i)
               then (case crtc_io_read_decode c0 addr of None \<Rightarrow> [] | Some d \<Rightarrow> [Dr_data d]) else []);
         c2 = (if clk_crtc (b_clk i) then crtc_char asic c1 else c1);
         c3 = (if pen_strobe (b_pen i) \<and> \<not> cr_lpen_prev c2 then lpen_latch c2 else c2);
         c4 = c3\<lparr>cr_lpen_prev := pen_strobe (b_pen i)\<rparr>
     in (c4, rd @ crtc_lines asic c4))"

definition crtc_tick :: "asic_state option \<Rightarrow> crtc_state \<Rightarrow> Bus \<Rightarrow> Bus \<Rightarrow> crtc_state \<times> Bus" where
  "crtc_tick asic c i out = (fst (crtc_step asic c i), drive (snd (crtc_step asic c i)) out)"

definition crtc_save :: "crtc_state \<Rightarrow> u8 \<times> crtc_state" where
  "crtc_save c = (1, c)"

definition crtc_load :: "crtc_state \<Rightarrow> u8 \<times> crtc_state \<Rightarrow> crtc_state" where
  "crtc_load c blob = (if fst blob \<noteq> 1 then c else snd blob)"

definition crtc_set_type :: "crtc_state \<Rightarrow> u8 \<Rightarrow> crtc_state" where
  "crtc_set_type c type = c\<lparr>cr_type := type AND 3\<rparr>"

definition crtc_poke_reg :: "crtc_state \<Rightarrow> u8 \<Rightarrow> u8 \<Rightarrow> crtc_state" where
  "crtc_poke_reg c idx val =
    (if idx < 16 then c\<lparr>cr_reg := (cr_reg c)(unat idx := val AND kRegWMask ! unat idx)\<rparr>
     else if idx < 18 then c\<lparr>cr_reg := (cr_reg c)(unat idx := val)\<rparr>
     else c)"

definition crtc_restore_v3 :: "crtc_state \<Rightarrow> u16 \<Rightarrow> u16 \<Rightarrow> u8 \<Rightarrow> u8 \<Rightarrow> u8 \<Rightarrow> u8 \<Rightarrow> u8 \<Rightarrow> u8 \<Rightarrow> crtc_state" where
  "crtc_restore_v3 c ma scanline hcc vcc ra hsw vsw flags =
    c\<lparr>cr_ma := ma, cr_scanline := scanline, cr_hcc := hcc, cr_vcc := vcc AND 127, cr_ra := ra AND 31,
      cr_hsw := hsw AND 15, cr_vsw := vsw AND 15, cr_in_vsync := (flags AND 1 \<noteq> 0),
      cr_in_hsync := (flags AND 2 \<noteq> 0), cr_in_vta := (flags AND 0x80 \<noteq> 0)\<rparr>"

definition crtc_fast_io_write :: "crtc_state \<Rightarrow> u16 \<Rightarrow> u8 \<Rightarrow> bool \<times> crtc_state" where
  "crtc_fast_io_write c port val = crtc_io_write_decode c port val"

definition crtc_fast_io_read :: "crtc_state \<Rightarrow> u16 \<Rightarrow> u8 option" where
  "crtc_fast_io_read c port = crtc_io_read_decode c port"

subsection \<open>The batch engine\<close>

text \<open>The sync edges of one character, VSYNC before HSYNC.\<close>

definition char_edges :: "crtc_state \<Rightarrow> crtc_state \<Rightarrow> CrtcEdgeKind list" where
  "char_edges c c' =
    (if cr_in_vsync c' \<noteq> cr_in_vsync c then [if cr_in_vsync c' then VSYNC_RISE else VSYNC_FALL] else []) @
    (if cr_in_hsync c' \<noteq> cr_in_hsync c then [if cr_in_hsync c' then HSYNC_RISE else HSYNC_FALL] else [])"

text \<open>\<open>crtc_advance_chars\<close>: the loop, its edge stream with timestamps, and the caller's view of it
  (the entries that fit in \<open>out[0..max_out)\<close> and the total produced).\<close>

fun advance_chars_loop :: "asic_state option \<Rightarrow> crtc_state \<Rightarrow> nat \<Rightarrow> nat \<Rightarrow> (nat \<times> CrtcEdgeKind) list \<times> crtc_state" where
  "advance_chars_loop asic c i 0 = ([], c)"
| "advance_chars_loop asic c i (Suc n) =
    (let c' = crtc_char asic c; r = advance_chars_loop asic c' (Suc i) n
     in (map (Pair i) (char_edges c c') @ fst r, snd r))"

definition crtc_advance_chars ::
    "asic_state option \<Rightarrow> crtc_state \<Rightarrow> nat \<Rightarrow> nat \<Rightarrow> nat \<times> (nat \<times> CrtcEdgeKind) list \<times> crtc_state" where
  "crtc_advance_chars asic c chars max_out =
    (let r = advance_chars_loop asic c 0 chars in (length (fst r), take max_out (fst r), snd r))"

record CrtcCharView =
  vw_ma :: u16
  vw_ra :: u8
  vw_hsync :: bool
  vw_vsync :: bool
  vw_dispen :: bool
  vw_edges :: "CrtcEdgeKind list"
  vw_mode :: u8
  vw_frame_line :: u16

text \<open>One per-character step of \<open>crtc_advance_view\<close>.\<close>

definition char_view :: "asic_state option \<Rightarrow> crtc_state \<Rightarrow> CrtcCharView \<times> crtc_state" where
  "char_view asic c =
    (let c' = crtc_char asic c; r = apply_vscroll asic c' (cr_ma c') (cr_ra c') in
     (\<lparr> vw_ma = fst r, vw_ra = snd r, vw_hsync = cr_in_hsync c', vw_vsync = cr_in_vsync c',
        vw_dispen = cr_dispen c', vw_edges = char_edges c c', vw_mode = 0, vw_frame_line = cr_scanline c' \<rparr>,
      c'))"

text \<open>The length of the closed-form span at the current character (0: take the per-character step).\<close>

definition span_len :: "crtc_state \<Rightarrow> nat \<Rightarrow> nat" where
  "span_len c remaining =
    (if \<not> cr_in_hsync c \<and> cr_hcc c < cr_reg c 0 then
       (let n = unat (cr_reg c 0) - unat (cr_hcc c);
            n' = (if hsync_width c \<noteq> 0 \<and> cr_hcc c \<le> cr_reg c 2 \<and> cr_reg c 2 \<le> cr_reg c 0
                  then min (unat (cr_reg c 2) - unat (cr_hcc c)) n else n)
        in min n' remaining)
     else 0)"

text \<open>\<open>apply_vscroll\<close>, hoisted: the adjusted raster row and the row spill of the whole span.\<close>

definition span_scroll :: "asic_state option \<Rightarrow> crtc_state \<Rightarrow> u16 \<times> u8" where
  "span_scroll asic c =
    (case asic of None \<Rightarrow> (0, cr_ra c)
     | Some a \<Rightarrow>
         if \<not> asic_vid_active a then (0, cr_ra c)
         else
           (let vscroll = snd (asic_vid_scroll a) in
            if vscroll = 0 then (0, cr_ra c)
            else
              (let ra_eff = unat (cr_ra c) + unat vscroll in
               if ra_eff \<le> unat (cr_reg c 9) then (0, of_nat ra_eff)
               else (ucast (cr_reg c 1), of_nat (ra_eff - (unat (cr_reg c 9) + 1))))))"

definition row_active :: "asic_state option \<Rightarrow> crtc_state \<Rightarrow> bool" where
  "row_active asic c \<longleftrightarrow> disp_skew asic c \<noteq> 0xFF \<and> cr_vcc c < cr_reg c 6"

definition in_window :: "asic_state option \<Rightarrow> crtc_state \<Rightarrow> nat \<Rightarrow> bool" where
  "in_window asic c hcc \<longleftrightarrow> hcc \<ge> unat (disp_skew asic c) \<and>
     hcc < unat (disp_skew asic c) + unat (cr_reg c 1)"

definition span_view :: "asic_state option \<Rightarrow> crtc_state \<Rightarrow> nat \<Rightarrow> CrtcCharView" where
  "span_view asic c k =
    (let hcc = unat (cr_hcc c) + k; bump = fst (span_scroll asic c) in
     \<lparr> vw_ma = (cr_ma_row c + of_nat hcc + bump) AND 0x3FFF, vw_ra = snd (span_scroll asic c),
       vw_hsync = False, vw_vsync = cr_in_vsync c,
       vw_dispen = (row_active asic c \<and> in_window asic c hcc), vw_edges = [], vw_mode = 0,
       vw_frame_line = cr_scanline c \<rparr>)"

definition span_state :: "asic_state option \<Rightarrow> crtc_state \<Rightarrow> nat \<Rightarrow> crtc_state" where
  "span_state asic c n =
    (let last = unat (cr_hcc c) + n - 1 in
     c\<lparr>cr_ma := (cr_ma_row c + of_nat last) AND 0x3FFF,
       cr_dispen := (row_active asic c \<and> in_window asic c last),
       cr_hcc := of_nat (unat (cr_hcc c) + n)\<rparr>)"

text \<open>The \<open>while\<close> loop, on the number of characters still to do. Results: the C return value, the
  views in order, and the state.\<close>

function crtc_advance_view :: "asic_state option \<Rightarrow> crtc_state \<Rightarrow> nat \<Rightarrow> nat \<times> CrtcCharView list \<times> crtc_state" where
  "crtc_advance_view asic c chars =
    (if chars = 0 then (0, [], c)
     else
       (let n = span_len c chars in
        if n \<noteq> 0 then
          (case crtc_advance_view asic (span_state asic c n) (chars - n) of
            (edges, views, c') \<Rightarrow> (edges, map (span_view asic c) [0..<n] @ views, c'))
        else
          (case char_view asic c of (v, c1) \<Rightarrow>
            (case crtc_advance_view asic c1 (chars - 1) of
              (edges, views, c') \<Rightarrow> ((if vw_edges v \<noteq> [] then 1 else 0) + edges, v # views, c')))))"
  by pat_completeness auto
termination
  by (relation "measure (\<lambda>(asic, c, chars). chars)") auto

declare crtc_advance_view.simps [simp del]

definition crtc_irq_horizon_chars :: "crtc_state \<Rightarrow> nat" where
  "crtc_irq_horizon_chars c =
    (let r0 = cr_reg c 0; r2 = cr_reg c 2 in
     if cr_hcc c > r0 then 1
     else
       (let h = (unat r0 - unat (cr_hcc c)) + 1; width = hsync_width c in
        if cr_in_hsync c \<and> width \<noteq> 0 then
          (let h_fall = (if cr_hsw c \<ge> width then 1 else unat width - unat (cr_hsw c)) in min h_fall h)
        else if cr_hcc c \<le> r2 \<and> r2 \<le> r0 \<and> width \<noteq> 0 then
          (let h_fall = (unat r2 - unat (cr_hcc c)) + 1 + unat width in min h_fall h)
        else h))"

subsection \<open>Frames of the character step\<close>

lemma hsync_char_frame [simp]:
  "cr_reg (hsync_char c) = cr_reg c" "cr_type (hsync_char c) = cr_type c" "cr_hcc (hsync_char c) = cr_hcc c"
  "cr_ra (hsync_char c) = cr_ra c" "cr_vcc (hsync_char c) = cr_vcc c" "cr_ma_row (hsync_char c) = cr_ma_row c"
  "cr_scanline (hsync_char c) = cr_scanline c" "cr_in_vsync (hsync_char c) = cr_in_vsync c"
  "cr_in_vta (hsync_char c) = cr_in_vta c" "cr_vta (hsync_char c) = cr_vta c" "cr_vsw (hsync_char c) = cr_vsw c"
  by (simp_all add: hsync_char_def Let_def)

lemma disp_skew_cong: "cr_type c = cr_type d \<Longrightarrow> cr_reg c = cr_reg d \<Longrightarrow> disp_skew asic c = disp_skew asic d"
  by (simp add: disp_skew_def Let_def split: option.split)

lemma dispen_at_window: "dispen_at asic c h \<longleftrightarrow> row_active asic c \<and> in_window asic c h"
  by (auto simp: dispen_at_def row_active_def in_window_def Let_def)

lemma row_window_cong:
  "cr_type c = cr_type d \<Longrightarrow> cr_reg c = cr_reg d \<Longrightarrow> cr_vcc c = cr_vcc d \<Longrightarrow>
    row_active asic c = row_active asic d"
  "cr_type c = cr_type d \<Longrightarrow> cr_reg c = cr_reg d \<Longrightarrow> in_window asic c h = in_window asic d h"
  by (simp_all add: row_active_def in_window_def disp_skew_cong [of c d])

text \<open>A character that is not the last of its line.\<close>

lemma crtc_char_mid:
  assumes "cr_hcc c \<noteq> cr_reg c 0"
  shows "crtc_char asic c = (hsync_char c)\<lparr>cr_ma := (cr_ma_row c + ucast (cr_hcc c)) AND 0x3FFF,
     cr_dispen := dispen_at asic c (unat (cr_hcc c)), cr_hcc := cr_hcc c + 1\<rparr>"
proof -
  have "dispen_at asic (hsync_char c) h = dispen_at asic c h" for h
    by (simp add: dispen_at_window row_window_cong [of "hsync_char c" c])
  with assms show ?thesis
    by (simp add: crtc_char_def Let_def)
qed

subsection \<open>Closed-form spans\<close>

lemma mask14_add: "((x AND 0x3FFF) + y) AND 0x3FFF = (x + y) AND (0x3FFF :: u16)"
  by (simp add: mask_simps take_bit_add_left)

lemma apply_vscroll_span:
  assumes "cr_reg c' = cr_reg c" "cr_ra c' = cr_ra c"
  shows "apply_vscroll asic c' (x AND 0x3FFF) (cr_ra c') =
    ((x + fst (span_scroll asic c)) AND 0x3FFF, snd (span_scroll asic c))"
  using assms by (simp add: apply_vscroll_def span_scroll_def mask14_add Let_def split: option.split)

definition plain_char :: "crtc_state \<Rightarrow> bool" where
  "plain_char c \<longleftrightarrow> \<not> cr_in_hsync c \<and> cr_hcc c < cr_reg c 0 \<and> (cr_hcc c = cr_reg c 2 \<longrightarrow> hsync_width c = 0)"

lemma plain_char_view:
  assumes "plain_char c"
  shows "char_view asic c = (span_view asic c 0, span_state asic c 1)"
proof -
  have "hsync_char c = c"
    using assms by (auto simp: plain_char_def hsync_char_def Let_def)
  then have step: "crtc_char asic c = c\<lparr>cr_ma := (cr_ma_row c + ucast (cr_hcc c)) AND 0x3FFF,
     cr_dispen := dispen_at asic c (unat (cr_hcc c)), cr_hcc := cr_hcc c + 1\<rparr>"
    using assms crtc_char_mid [of c asic] by (auto simp: plain_char_def)
  have edges: "char_edges c (crtc_char asic c) = []"
    by (simp add: step char_edges_def)
  have u: "of_nat (unat (cr_hcc c)) = (ucast (cr_hcc c) :: u16)" "of_nat (Suc (unat (cr_hcc c))) = cr_hcc c + 1"
    by simp_all
  have scroll: "apply_vscroll asic (crtc_char asic c) (cr_ma (crtc_char asic c)) (cr_ra (crtc_char asic c)) =
     ((cr_ma_row c + ucast (cr_hcc c) + fst (span_scroll asic c)) AND 0x3FFF, snd (span_scroll asic c))"
    using apply_vscroll_span [of "crtc_char asic c" c asic "cr_ma_row c + ucast (cr_hcc c)"]
    by (simp add: step)
  have "\<not> cr_in_hsync c" using assms by (simp add: plain_char_def)
  then have "fst (char_view asic c) = span_view asic c 0"
    by (simp add: char_view_def span_view_def Let_def edges scroll u) (simp add: step dispen_at_window)
  moreover have "snd (char_view asic c) = span_state asic c 1"
    by (simp add: char_view_def span_state_def Let_def step dispen_at_window u)
  ultimately show ?thesis by (simp add: prod_eq_iff)
qed

lemma span_scroll_cong:
  "cr_reg c = cr_reg d \<Longrightarrow> cr_ra c = cr_ra d \<Longrightarrow> span_scroll asic c = span_scroll asic d"
  by (simp add: span_scroll_def Let_def split: option.split)

lemma span_state_frame [simp]:
  "cr_reg (span_state asic c n) = cr_reg c" "cr_ra (span_state asic c n) = cr_ra c"
  "cr_type (span_state asic c n) = cr_type c" "cr_vcc (span_state asic c n) = cr_vcc c"
  "cr_ma_row (span_state asic c n) = cr_ma_row c" "cr_in_vsync (span_state asic c n) = cr_in_vsync c"
  "cr_in_hsync (span_state asic c n) = cr_in_hsync c" "cr_scanline (span_state asic c n) = cr_scanline c"
  "cr_hcc (span_state asic c n) = of_nat (unat (cr_hcc c) + n)"
  by (simp_all add: span_state_def Let_def)

lemma unat_of_nat_u8: "n < 256 \<Longrightarrow> unat (of_nat n :: u8) = n"
  by (simp add: unat_of_nat)

lemma hsync_width_cong: "cr_reg c = cr_reg d \<Longrightarrow> cr_type c = cr_type d \<Longrightarrow> hsync_width c = hsync_width d"
  by (simp add: hsync_width_def)

lemma span_shift:
  assumes "unat (cr_hcc c) + n < 256"
  shows "span_view asic (span_state asic c n) k = span_view asic c (n + k)"
    and "span_state asic (span_state asic c n) (Suc k) = span_state asic c (n + Suc k)"
proof -
  let ?d = "span_state asic c n"
  have h: "unat (cr_hcc ?d) = unat (cr_hcc c) + n"
    unfolding span_state_frame by (rule unat_of_nat_u8 [OF assms])
  have w: "row_active asic ?d = row_active asic c" "in_window asic ?d = in_window asic c"
    "span_scroll asic ?d = span_scroll asic c"
    using row_window_cong [of ?d c asic] span_scroll_cong [of ?d c asic] by (simp_all add: fun_eq_iff)
  show "span_view asic ?d k = span_view asic c (n + k)"
    by (simp only: span_view_def Let_def h [unfolded span_state_frame] w span_state_frame add.assoc)
  show "span_state asic ?d (Suc k) = span_state asic c (n + Suc k)"
    unfolding span_state_def [of asic ?d] span_state_def [of asic c "n + Suc k"] Let_def w
      span_state_frame h [unfolded span_state_frame] by (simp add: span_state_def Let_def add.assoc)
qed

text \<open>The reference: one per-character step after another.\<close>

fun view_steps :: "asic_state option \<Rightarrow> crtc_state \<Rightarrow> nat \<Rightarrow> CrtcCharView list \<times> crtc_state" where
  "view_steps asic c 0 = ([], c)"
| "view_steps asic c (Suc n) =
    (case char_view asic c of (v, c1) \<Rightarrow> (case view_steps asic c1 n of (vs, c2) \<Rightarrow> (v # vs, c2)))"

lemma view_steps_add:
  "view_steps asic c (m + n) =
    (case view_steps asic c m of (vs, c1) \<Rightarrow> (case view_steps asic c1 n of (ws, c2) \<Rightarrow> (vs @ ws, c2)))"
  by (induction m arbitrary: c) (simp_all split: prod.splits)

lemma span_steps:
  assumes "\<And>k. k < n \<Longrightarrow> plain_char (if k = 0 then c else span_state asic c k)" and "0 < n"
    and "unat (cr_hcc c) + n < 256"
  shows "view_steps asic c n = (map (span_view asic c) [0..<n], span_state asic c n)"
  using assms
proof (induction n)
  case 0
  then show ?case by simp
next
  case (Suc n)
  show ?case
  proof (cases "n = 0")
    case True
    then have "plain_char c" using Suc.prems(1) [of 0] by simp
    then show ?thesis using True by (simp add: plain_char_view)
  next
    case False
    have ih: "view_steps asic c n = (map (span_view asic c) [0..<n], span_state asic c n)"
      using Suc.prems False by (intro Suc.IH) simp_all
    have "plain_char (span_state asic c n)"
      using Suc.prems(1) [of n] False by simp
    then have "char_view asic (span_state asic c n) = (span_view asic c n, span_state asic c (Suc n))"
      using plain_char_view [of "span_state asic c n" asic] span_shift [of c n asic 0] Suc.prems(3) by simp
    then show ?thesis
      using view_steps_add [of asic c n 1] ih by simp
  qed
qed

lemma span_len_bounds:
  assumes "k < span_len c r"
  shows "\<not> cr_in_hsync c" "unat (cr_hcc c) + k < unat (cr_reg c 0)"
    "hsync_width c \<noteq> 0 \<Longrightarrow> unat (cr_hcc c) + k \<noteq> unat (cr_reg c 2)"
  using assms by (auto simp: span_len_def Let_def word_le_nat_alt word_less_nat_alt split: if_splits)

lemma span_len_plain:
  assumes "k < span_len c r"
  shows "plain_char (if k = 0 then c else span_state asic c k)"
proof -
  have b: "unat (cr_hcc c) + k < unat (cr_reg c 0)"
    using span_len_bounds(2) [OF assms] .
  then have "unat (of_nat (unat (cr_hcc c) + k) :: u8) = unat (cr_hcc c) + k"
    using unat_less_256 [of "cr_reg c 0"] by (intro unat_of_nat_u8) linarith
  then have "unat (cr_hcc (if k = 0 then c else span_state asic c k)) = unat (cr_hcc c) + k"
    by simp
  moreover have "hsync_width (span_state asic c k) = hsync_width c"
    by (rule hsync_width_cong) simp_all
  ultimately show ?thesis
    using span_len_bounds [OF assms]
    by (cases "hsync_width c = 0") (auto simp: plain_char_def word_less_nat_alt word_unat_eq_iff [of "cr_hcc _"])
qed

lemma advance_view_steps:
  "crtc_advance_view asic c n =
    (case view_steps asic c n of (vs, c') \<Rightarrow> (length (filter (\<lambda>v. vw_edges v \<noteq> []) vs), vs, c'))"
proof (induction asic c n rule: crtc_advance_view.induct)
  case (1 asic c n)
  let ?k = "span_len c n"
  show ?case
  proof (cases "n = 0")
    case True
    then show ?thesis by (subst crtc_advance_view.simps) simp
  next
    case n: False
    show ?thesis
    proof (cases "?k = 0")
      case False
      have "?k \<le> n"
        by (simp add: span_len_def Let_def)
      moreover have "unat (cr_hcc c) + ?k < 256"
        using span_len_bounds(2) [of "?k - 1" c n] False unat_less_256 [of "cr_reg c 0"] by linarith
      then have "view_steps asic c ?k = (map (span_view asic c) [0..<?k], span_state asic c ?k)"
        using False span_len_plain by (intro span_steps) auto
      ultimately have "view_steps asic c n =
          (case view_steps asic (span_state asic c ?k) (n - ?k) of
            (ws, c2) \<Rightarrow> (map (span_view asic c) [0..<?k] @ ws, c2))"
        using view_steps_add [of asic c ?k "n - ?k"] by simp
      moreover have "filter (\<lambda>v. vw_edges v \<noteq> []) (map (span_view asic c) xs) = []" for xs
        by (induction xs) (simp_all add: span_view_def Let_def)
      ultimately show ?thesis
        using 1(1) [OF n refl False] n False
        by (subst crtc_advance_view.simps) (simp add: Let_def split: prod.splits)
    next
      case True
      then show ?thesis
        using 1(2) [OF n refl] n
        by (subst crtc_advance_view.simps) (cases n; auto simp: Let_def split: prod.splits)
    qed
  qed
qed

lemma unat_Suc_u8: "unat (x :: u8) + 1 < 256 \<Longrightarrow> unat (x + 1) = unat x + 1"
  by (simp add: unat_word_ariths)

subsection \<open>The middle of a line\<close>

lemma mid_run:
  assumes "unat (cr_hcc c) + j \<le> unat (cr_reg c 0)"
  shows "unat (cr_hcc ((crtc_char asic ^^ j) c)) = unat (cr_hcc c) + j \<and>
    cr_reg ((crtc_char asic ^^ j) c) = cr_reg c \<and> cr_type ((crtc_char asic ^^ j) c) = cr_type c \<and>
    cr_scanline ((crtc_char asic ^^ j) c) = cr_scanline c \<and> cr_in_vsync ((crtc_char asic ^^ j) c) = cr_in_vsync c \<and>
    cr_vcc ((crtc_char asic ^^ j) c) = cr_vcc c \<and> cr_ra ((crtc_char asic ^^ j) c) = cr_ra c \<and>
    cr_in_vta ((crtc_char asic ^^ j) c) = cr_in_vta c \<and> cr_vta ((crtc_char asic ^^ j) c) = cr_vta c"
  using assms
proof (induction j)
  case 0
  then show ?case by simp
next
  case (Suc j)
  let ?d = "(crtc_char asic ^^ j) c"
  have ih: "unat (cr_hcc ?d) = unat (cr_hcc c) + j" "cr_reg ?d = cr_reg c"
    using Suc by simp_all
  then have ne: "cr_hcc ?d \<noteq> cr_reg ?d 0"
    using Suc.prems by auto
  have "unat (cr_hcc ?d + 1) = unat (cr_hcc ?d) + 1"
    using ih Suc.prems unat_less_256 [of "cr_reg c 0"] by (intro unat_Suc_u8) linarith
  then show ?case
    using Suc crtc_char_mid [OF ne] by simp
qed

lemma mid_hsync:
  assumes "unat (cr_hcc c) + j < unat (cr_reg c 0)"
  shows "cr_in_hsync ((crtc_char asic ^^ Suc j) c) = cr_in_hsync (hsync_char ((crtc_char asic ^^ j) c))"
    "cr_hsw ((crtc_char asic ^^ Suc j) c) = cr_hsw (hsync_char ((crtc_char asic ^^ j) c))"
proof -
  let ?d = "(crtc_char asic ^^ j) c"
  have "unat (cr_hcc ?d) = unat (cr_hcc c) + j" "cr_reg ?d = cr_reg c"
    using mid_run [of c j asic] assms by simp_all
  then have "cr_hcc ?d \<noteq> cr_reg ?d 0"
    using assms by auto
  from crtc_char_mid [OF this, of asic]
  show "cr_in_hsync ((crtc_char asic ^^ Suc j) c) = cr_in_hsync (hsync_char ?d)"
    "cr_hsw ((crtc_char asic ^^ Suc j) c) = cr_hsw (hsync_char ?d)"
    by simp_all
qed

lemma mid_width:
  "unat (cr_hcc c) + j \<le> unat (cr_reg c 0) \<Longrightarrow> hsync_width ((crtc_char asic ^^ j) c) = hsync_width c"
  using mid_run [of c j asic] by (intro hsync_width_cong) simp_all

text \<open>The three ways HSYNC can behave up to the end of the line.\<close>

lemma hsync_running:
  assumes "cr_in_hsync c" "unat (cr_hcc c) + j \<le> unat (cr_reg c 0)" "unat (cr_hsw c) + j < unat (hsync_width c)"
  shows "cr_in_hsync ((crtc_char asic ^^ j) c) \<and> unat (cr_hsw ((crtc_char asic ^^ j) c)) \<le> unat (cr_hsw c) + j"
  using assms(2,3)
proof (induction j)
  case 0
  then show ?case using assms(1) by simp
next
  case (Suc j)
  let ?d = "(crtc_char asic ^^ j) c"
  have ih: "cr_in_hsync ?d" "unat (cr_hsw ?d) \<le> unat (cr_hsw c) + j"
    using Suc by simp_all
  have w: "hsync_width ?d = hsync_width c"
    using Suc.prems by (intro mid_width) simp
  have u: "unat (cr_hsw ?d + 1) = unat (cr_hsw ?d) + 1"
    using ih(2) Suc.prems(2) unat_less_256 [of "hsync_width c"] by (intro unat_Suc_u8) linarith
  have "cr_in_hsync (hsync_char ?d) \<and> unat (cr_hsw (hsync_char ?d)) \<le> unat (cr_hsw c) + Suc j"
    using ih Suc.prems(2) u w by (simp add: hsync_char_def Let_def word_le_nat_alt)
  then show ?case
    using mid_hsync [of c j asic] Suc.prems(1) by simp
qed

lemma hsync_ahead:
  assumes "\<not> cr_in_hsync c" "cr_hcc c \<le> cr_reg c 2" "hsync_width c \<noteq> 0"
    "unat (cr_hcc c) + j \<le> unat (cr_reg c 0)" "unat (cr_hcc c) + j \<le> unat (cr_reg c 2) + unat (hsync_width c)"
  shows "if unat (cr_hcc c) + j \<le> unat (cr_reg c 2) then \<not> cr_in_hsync ((crtc_char asic ^^ j) c)
    else cr_in_hsync ((crtc_char asic ^^ j) c) \<and>
      unat (cr_hsw ((crtc_char asic ^^ j) c)) + unat (cr_reg c 2) + 1 = unat (cr_hcc c) + j"
  using assms(4,5)
proof (induction j)
  case 0
  then show ?case using assms(1,2) by (simp add: word_le_nat_alt)
next
  case (Suc j)
  let ?d = "(crtc_char asic ^^ j) c"
  have m: "unat (cr_hcc ?d) = unat (cr_hcc c) + j" "cr_reg ?d = cr_reg c"
    using mid_run [of c j asic] Suc.prems by simp_all
  have w: "hsync_width ?d = hsync_width c"
    using Suc.prems by (intro mid_width) simp
  note eq = mid_hsync [of c j asic]
  have at: "cr_hcc ?d = cr_reg ?d 2 \<longleftrightarrow> unat (cr_hcc c) + j = unat (cr_reg c 2)"
    by (simp add: word_unat_eq_iff m)
  consider "unat (cr_hcc c) + j < unat (cr_reg c 2)" | "unat (cr_hcc c) + j = unat (cr_reg c 2)"
    | "unat (cr_hcc c) + j > unat (cr_reg c 2)" by linarith
  then show ?case
  proof cases
    case 1
    then have "\<not> cr_in_hsync (hsync_char ?d)"
      using Suc at by (simp add: hsync_char_def Let_def)
    then show ?thesis using eq Suc.prems 1 by simp
  next
    case 2
    then have "cr_in_hsync (hsync_char ?d) \<and> cr_hsw (hsync_char ?d) = 0"
      using at w assms(3) by (simp add: hsync_char_def Let_def)
    then show ?thesis using eq Suc.prems 2 by simp
  next
    case 3
    then have ih: "cr_in_hsync ?d" "unat (cr_hsw ?d) + unat (cr_reg c 2) + 1 = unat (cr_hcc c) + j"
      using Suc by simp_all
    have u: "unat (cr_hsw ?d + 1) = unat (cr_hsw ?d) + 1"
      using ih(2) Suc.prems(2) unat_less_256 [of "hsync_width c"] by (intro unat_Suc_u8) linarith
    have "\<not> hsync_width c \<le> cr_hsw ?d + 1"
      using ih(2) u Suc.prems(2) by (simp add: word_le_nat_alt)
    then have "cr_in_hsync (hsync_char ?d) \<and> cr_hsw (hsync_char ?d) = cr_hsw ?d + 1"
      using at w ih 3 by (simp add: hsync_char_def Let_def)
    then show ?thesis using eq Suc.prems 3 u ih(2) by simp
  qed
qed

lemma hsync_absent:
  assumes "\<not> cr_in_hsync c" "hsync_width c = 0 \<or> \<not> (cr_hcc c \<le> cr_reg c 2 \<and> cr_reg c 2 \<le> cr_reg c 0)"
    "unat (cr_hcc c) + j \<le> unat (cr_reg c 0)"
  shows "\<not> cr_in_hsync ((crtc_char asic ^^ j) c)"
  using assms(3)
proof (induction j)
  case 0
  then show ?case using assms(1) by simp
next
  case (Suc j)
  let ?d = "(crtc_char asic ^^ j) c"
  have m: "unat (cr_hcc ?d) = unat (cr_hcc c) + j" "cr_reg ?d = cr_reg c"
    using mid_run [of c j asic] Suc.prems by simp_all
  have w: "hsync_width ?d = hsync_width c"
    using Suc.prems by (intro mid_width) simp
  have "hsync_width c \<noteq> 0 \<Longrightarrow> cr_hcc ?d \<noteq> cr_reg ?d 2"
    using assms(2) Suc.prems m by (auto simp: word_le_nat_alt)
  then have "\<not> cr_in_hsync (hsync_char ?d)"
    using Suc w by (cases "hsync_width c = 0") (simp_all add: hsync_char_def Let_def)
  then show ?case using mid_hsync [of c j asic] Suc.prems by simp
qed

lemma horizon_line: "cr_hcc c \<le> cr_reg c 0 \<Longrightarrow> j < crtc_irq_horizon_chars c - 1 \<Longrightarrow>
    unat (cr_hcc c) + Suc j \<le> unat (cr_reg c 0)"
  by (auto simp: crtc_irq_horizon_chars_def Let_def word_le_nat_alt word_less_nat_alt split: if_splits)

lemma horizon_no_fall:
  assumes "\<not> (cr_in_hsync c \<and> hsync_width c = 0)" "j < crtc_irq_horizon_chars c - 1"
    "cr_in_hsync ((crtc_char asic ^^ j) c)"
  shows "cr_in_hsync ((crtc_char asic ^^ Suc j) c)"
proof -
  have le: "cr_hcc c \<le> cr_reg c 0"
    using assms(2) by (auto simp: crtc_irq_horizon_chars_def Let_def not_less split: if_splits)
  note line = horizon_line [OF le assms(2)]
  show ?thesis
  proof (cases "cr_in_hsync c")
    case True
    then have "unat (cr_hsw c) + Suc j < unat (hsync_width c)"
      using assms le
      by (auto simp: crtc_irq_horizon_chars_def Let_def word_le_nat_alt word_less_nat_alt split: if_splits)
    then show ?thesis using hsync_running [OF True line] by simp
  next
    case False
    show ?thesis
    proof (cases "hsync_width c \<noteq> 0 \<and> cr_hcc c \<le> cr_reg c 2 \<and> cr_reg c 2 \<le> cr_reg c 0")
      case True
      then have b: "unat (cr_hcc c) + Suc j \<le> unat (cr_reg c 2) + unat (hsync_width c)"
        using assms(2) le False
        by (auto simp: crtc_irq_horizon_chars_def Let_def word_le_nat_alt word_less_nat_alt split: if_splits)
      then have "\<not> unat (cr_hcc c) + j \<le> unat (cr_reg c 2)"
        using hsync_ahead [of c j asic] True False assms(3) line by (auto split: if_splits)
      then show ?thesis
        using hsync_ahead [of c "Suc j" asic] True False line b by (simp split: if_splits)
    next
      case nope: False
      then show ?thesis
        using hsync_absent [of c j asic] False assms(3) line by auto
    qed
  qed
qed

subsection \<open>Frame geometry\<close>

text \<open>The vertical position: row, raster, whether and how far in the R5 adjustment, frame line.\<close>

type_synonym vpos = "u8 \<times> u8 \<times> bool \<times> u8 \<times> u16"

definition vpos :: "crtc_state \<Rightarrow> vpos" where
  "vpos c = (cr_vcc c, cr_ra c, cr_in_vta c, cr_vta c, cr_scanline c)"

definition frame_top :: vpos where
  "frame_top = (0, 0, False, 0, 0)"

fun vline :: "(nat \<Rightarrow> u8) \<Rightarrow> vpos \<Rightarrow> vpos" where
  "vline r (vcc, ra, adj, vta, sl) =
    (if adj then (if vta + 1 \<ge> r 5 then frame_top else (vcc, ra, True, vta + 1, sl + 1))
     else if ra = r 9 then
       (if vcc = r 4 then (if r 5 \<noteq> 0 then (vcc, 0, True, 0, sl + 1) else frame_top)
        else ((vcc + 1) AND 0x7F, 0, False, vta, sl + 1))
     else (vcc, (ra + 1) AND 0x1F, False, vta, sl + 1))"

lemma check_vsync_frame [simp]:
  "vpos (check_vsync_start c) = vpos c" "cr_reg (check_vsync_start c) = cr_reg c"
  "cr_hcc (check_vsync_start c) = cr_hcc c" "cr_ma_row (check_vsync_start c) = cr_ma_row c"
  "cr_type (check_vsync_start c) = cr_type c" "cr_plus_split (check_vsync_start c) = cr_plus_split c"
  by (simp_all add: check_vsync_start_def vpos_def Let_def)

lemma snapshot_split_frame [simp]:
  "vpos (snapshot_split asic c) = vpos c" "cr_reg (snapshot_split asic c) = cr_reg c"
  "cr_hcc (snapshot_split asic c) = cr_hcc c" "cr_ma_row (snapshot_split asic c) = cr_ma_row c"
  "cr_type (snapshot_split asic c) = cr_type c"
  by (simp_all add: snapshot_split_def vpos_def Let_def split: option.split prod.split)

lemma newframe_top [simp]:
  "vpos (crtc_newframe asic c) = frame_top" "cr_reg (crtc_newframe asic c) = cr_reg c"
  "cr_hcc (crtc_newframe asic c) = cr_hcc c" "cr_ma_row (crtc_newframe asic c) = start_addr c"
  "cr_type (crtc_newframe asic c) = cr_type c"
  by (simp_all add: crtc_newframe_def) (simp add: vpos_def frame_top_def)

lemma vsync_line_frame [simp]:
  "vpos (vsync_line c) = vpos c" "cr_reg (vsync_line c) = cr_reg c" "cr_hcc (vsync_line c) = cr_hcc c"
  "cr_type (vsync_line c) = cr_type c" "cr_ma_row (vsync_line c) = cr_ma_row c"
  "cr_in_vta (vsync_line c) = cr_in_vta c" "cr_vta (vsync_line c) = cr_vta c" "cr_vcc (vsync_line c) = cr_vcc c"
  "cr_ra (vsync_line c) = cr_ra c" "cr_scanline (vsync_line c) = cr_scanline c"
  by (simp_all add: vsync_line_def vpos_def Let_def)

lemma row_line_frame [simp]:
  "cr_reg (snd (row_line asic c)) = cr_reg c" "cr_hcc (snd (row_line asic c)) = cr_hcc c"
  "cr_type (snd (row_line asic c)) = cr_type c"
  by (simp_all add: row_line_def crtc_newrow_def Let_def)

lemma row_line_vpos:
  assumes "\<not> cr_in_vta c"
  shows "vpos (snd (row_line asic c)) = (if cr_ra c = cr_reg c 9 \<and> cr_vcc c = cr_reg c 4 \<and> cr_reg c 5 = 0
    then frame_top else vline (cr_reg c) (cr_vcc c, cr_ra c, False, cr_vta c, cr_scanline c - 1))"
  using assms by (simp add: row_line_def crtc_newrow_def Let_def) (simp add: vpos_def)

lemma vpos_ma_row [simp]: "vpos (c\<lparr>cr_ma_row := x\<rparr>) = vpos c"
  by (simp add: vpos_def)

lemma line_base_frame [simp]:
  "vpos (line_base sp re c) = vpos c" "cr_reg (line_base sp re c) = cr_reg c"
  "cr_hcc (line_base sp re c) = cr_hcc c" "cr_type (line_base sp re c) = cr_type c"
  by (simp_all add: line_base_def Let_def)

lemma start_addr_cong: "cr_reg c = cr_reg d \<Longrightarrow> start_addr c = start_addr d"
  by (simp add: start_addr_def)

lemma newscanline_vta:
  "cr_in_vta c \<Longrightarrow> crtc_newscanline asic c =
    (let c3 = (vsync_line (c\<lparr>cr_scanline := cr_scanline c + 1\<rparr>))\<lparr>cr_vta := cr_vta c + 1\<rparr>
     in if cr_vta c + 1 \<ge> cr_reg c 5 then crtc_newframe asic c3 else c3)"
  by (simp add: crtc_newscanline_def Let_def)

lemma newscanline_row:
  "\<not> cr_in_vta c \<Longrightarrow> \<exists>sp. crtc_newscanline asic c =
    (let r = row_line asic (vsync_line (c\<lparr>cr_scanline := cr_scanline c + 1\<rparr>)) in line_base sp (fst r) (snd r))"
  unfolding crtc_newscanline_def Let_def by auto

lemma newscanline_vpos: "vpos (crtc_newscanline asic c) = vline (cr_reg c) (vpos c)"
proof (cases "cr_in_vta c")
  case True
  then show ?thesis
    by (simp add: newscanline_vta Let_def) (simp add: vpos_def)
next
  case False
  then show ?thesis
    using newscanline_row [OF False, of asic]
    by (auto simp: Let_def row_line_vpos) (auto simp: vpos_def)
qed

lemma newscanline_frame [simp]:
  "cr_reg (crtc_newscanline asic c) = cr_reg c" "cr_hcc (crtc_newscanline asic c) = cr_hcc c"
  "cr_type (crtc_newscanline asic c) = cr_type c"
proof -
  have "cr_reg (crtc_newscanline asic c) = cr_reg c \<and> cr_hcc (crtc_newscanline asic c) = cr_hcc c \<and>
      cr_type (crtc_newscanline asic c) = cr_type c"
    using newscanline_row [of c asic] by (cases "cr_in_vta c") (auto simp: newscanline_vta Let_def)
  then show "cr_reg (crtc_newscanline asic c) = cr_reg c" "cr_hcc (crtc_newscanline asic c) = cr_hcc c"
    "cr_type (crtc_newscanline asic c) = cr_type c" by simp_all
qed

lemma line_base_restarted: "cr_ma_row c = start_addr c \<Longrightarrow> cr_ma_row (line_base sp True c) = start_addr c"
  by (simp add: line_base_def)

lemma row_line_restart:
  assumes "cr_ra c = cr_reg c 9" "cr_vcc c = cr_reg c 4" "cr_reg c 5 = 0"
  shows "fst (row_line asic c)" "cr_ma_row (snd (row_line asic c)) = start_addr c"
  using assms start_addr_cong [of "c\<lparr>cr_ra := 0, cr_ma_row := x\<rparr>" c for x]
  by (simp_all add: row_line_def crtc_newrow_def Let_def)

lemma newscanline_restart:
  assumes "(cr_in_vta c \<and> cr_vta c + 1 \<ge> cr_reg c 5) \<or>
    (\<not> cr_in_vta c \<and> cr_ra c = cr_reg c 9 \<and> cr_vcc c = cr_reg c 4 \<and> cr_reg c 5 = 0)"
  shows "cr_ma_row (crtc_newscanline asic c) = start_addr c"
proof (cases "cr_in_vta c")
  case True
  then show ?thesis
    using assms by (simp add: newscanline_vta Let_def) (rule start_addr_cong, simp)
next
  case False
  let ?d = "vsync_line (c\<lparr>cr_scanline := cr_scanline c + 1\<rparr>)"
  have r: "fst (row_line asic ?d)" "cr_ma_row (snd (row_line asic ?d)) = start_addr c"
    using assms False row_line_restart [of ?d asic] start_addr_cong [of ?d c] by simp_all
  obtain sp where sp: "crtc_newscanline asic c = line_base sp True (snd (row_line asic ?d))"
    using newscanline_row [OF False, of asic] r(1) by (auto simp: Let_def)
  have "start_addr (snd (row_line asic ?d)) = start_addr c"
    by (rule start_addr_cong) simp
  then show ?thesis
    using line_base_restarted [of "snd (row_line asic ?d)" sp] r(2) sp by simp
qed

lemma crtc_char_end:
  assumes "cr_hcc c = cr_reg c 0"
  shows "\<exists>f. crtc_char asic c = crtc_newscanline asic f \<and> cr_hcc f = 0 \<and> cr_reg f = cr_reg c \<and> vpos f = vpos c"
  using assms by (simp add: crtc_char_def Let_def) (rule exI, rule conjI, rule refl, simp add: vpos_def)

lemma line_run:
  assumes "cr_hcc c = 0"
  shows "case (crtc_char asic ^^ Suc (unat (cr_reg c 0))) c of d \<Rightarrow>
    cr_hcc d = 0 \<and> cr_reg d = cr_reg c \<and> vpos d = vline (cr_reg c) (vpos c) \<and>
    ((cr_in_vta c \<and> cr_vta c + 1 \<ge> cr_reg c 5) \<or>
     (\<not> cr_in_vta c \<and> cr_ra c = cr_reg c 9 \<and> cr_vcc c = cr_reg c 4 \<and> cr_reg c 5 = 0) \<longrightarrow>
       cr_ma_row d = start_addr c)"
proof -
  let ?e = "(crtc_char asic ^^ unat (cr_reg c 0)) c"
  have m: "unat (cr_hcc ?e) = unat (cr_reg c 0)" "cr_reg ?e = cr_reg c" "vpos ?e = vpos c"
    "cr_in_vta ?e = cr_in_vta c" "cr_vta ?e = cr_vta c" "cr_ra ?e = cr_ra c" "cr_vcc ?e = cr_vcc c"
    using mid_run [of c "unat (cr_reg c 0)" asic] assms by (simp_all add: vpos_def)
  then have "cr_hcc ?e = cr_reg ?e 0"
    by (simp add: word_unat_eq_iff)
  then obtain f where f: "crtc_char asic ?e = crtc_newscanline asic f" "cr_hcc f = 0" "cr_reg f = cr_reg c"
      "vpos f = vpos c"
    using crtc_char_end [of ?e asic] m by auto
  then show ?thesis
    using newscanline_vpos [of asic f] newscanline_restart [of f asic] start_addr_cong [of f c]
    by (simp add: vpos_def)
qed

definition lines_per_frame :: "crtc_state \<Rightarrow> nat" where
  "lines_per_frame c = (unat (cr_reg c 4) + 1) * (unat (cr_reg c 9) + 1) + unat (cr_reg c 5)"

text \<open>The vertical position k lines below the frame top, in closed form.\<close>

definition vpos_at :: "(nat \<Rightarrow> u8) \<Rightarrow> nat \<Rightarrow> vpos" where
  "vpos_at r k =
    (let rows = (unat (r 4) + 1) * (unat (r 9) + 1) in
     if k < rows then (of_nat (k div (unat (r 9) + 1)), of_nat (k mod (unat (r 9) + 1)), False, 0, of_nat k)
     else (r 4, 0, True, of_nat (k - rows), of_nat k))"

lemma and_7F: "n < 128 \<Longrightarrow> (of_nat n :: u8) AND 0x7F = of_nat n"
  by (simp add: mask_simps word_unat_eq_iff unat_take_bit unat_of_nat)

lemma and_1F: "n < 32 \<Longrightarrow> (of_nat n :: u8) AND 0x1F = of_nat n"
  by (simp add: mask_simps word_unat_eq_iff unat_take_bit unat_of_nat)

lemma of_nat_u8_eq: "m < 256 \<Longrightarrow> (of_nat m :: u8) = x \<longleftrightarrow> m = unat x"
  by (simp add: word_unat_eq_iff unat_of_nat)

lemma unat_of_nat_Suc_u8: "n < 255 \<Longrightarrow> unat (of_nat n + 1 :: u8) = Suc n"
  using unat_Suc_u8 [of "of_nat n"] by (simp add: unat_of_nat)

lemma vline_at:
  assumes small: "unat (r 4) < 128" "unat (r 9) < 32" "unat (r 5) < 32"
    and k: "Suc k < (unat (r 4) + 1) * (unat (r 9) + 1) + unat (r 5)"
  shows "vline r (vpos_at r k) = vpos_at r (Suc k)"
proof -
  let ?n = "unat (r 9) + 1" and ?rows = "(unat (r 4) + 1) * (unat (r 9) + 1)"
  show ?thesis
  proof (cases "k < ?rows")
    case True
    have d: "k div ?n \<le> unat (r 4)"
      using True by (metis Suc_eq_plus1 less_Suc_eq_le less_mult_imp_div_less)
    have m: "k mod ?n \<le> unat (r 9)"
      using mod_less_divisor [of ?n k] by linarith
    have ra: "of_nat (k mod ?n) = r 9 \<longleftrightarrow> k mod ?n = unat (r 9)"
      using m small by (intro of_nat_u8_eq) linarith
    have vcc: "of_nat (k div ?n) = r 4 \<longleftrightarrow> k div ?n = unat (r 4)"
      using d small by (intro of_nat_u8_eq) linarith
    show ?thesis
    proof (cases "k mod ?n = unat (r 9)")
      case last: True
      have dm: "Suc k div ?n = Suc (k div ?n)" "Suc k mod ?n = 0"
        using last by (simp_all add: div_Suc mod_Suc)
      show ?thesis
      proof (cases "k div ?n = unat (r 4)")
        case True
        have "k = unat (r 4) * ?n + unat (r 9)"
          using True last div_mult_mod_eq [of k ?n] by simp
        then have "Suc k = ?rows" by (simp add: algebra_simps)
        then show ?thesis
          using \<open>k < ?rows\<close> ra vcc True last k
          by (simp add: vpos_at_def Let_def word_unat_eq_iff [of "r 5"])
      next
        case False
        then have "Suc k div ?n \<le> unat (r 4)" using d dm by simp
        then have "Suc k < ?rows"
          by (metis Suc_eq_plus1 div_less_iff_less_mult less_Suc_eq_le zero_less_Suc)
        moreover have "(of_nat (k div ?n) + 1 :: u8) AND 0x7F = of_nat (Suc (k div ?n))"
          using and_7F [of "Suc (k div ?n)"] d False small by (simp add: add.commute)
        ultimately show ?thesis
          using \<open>k < ?rows\<close> ra vcc last False dm
          by (simp add: vpos_at_def Let_def add.commute)
      qed
    next
      case False
      have dm: "Suc k div ?n = k div ?n" "Suc k mod ?n = Suc (k mod ?n)"
        using False m by (simp_all add: div_Suc mod_Suc)
      then have "Suc k < ?rows"
        using d by (metis Suc_eq_plus1 div_less_iff_less_mult less_Suc_eq_le zero_less_Suc)
      moreover have "(of_nat (k mod ?n) + 1 :: u8) AND 0x1F = of_nat (Suc (k mod ?n))"
      proof -
        have "Suc (k mod ?n) < 32" using m False small by linarith
        from and_1F [OF this] show ?thesis by (simp add: add.commute)
      qed
      ultimately show ?thesis
        using True ra False dm by (simp add: vpos_at_def Let_def add.commute)
    qed
  next
    case False
    have a: "unat (of_nat (k - ?rows) + 1 :: u8) = Suc (k - ?rows)"
      using k small False by (intro unat_of_nat_Suc_u8) linarith
    have "\<not> r 5 \<le> of_nat (k - ?rows) + 1"
      unfolding word_le_nat_alt a using k False by linarith
    then show ?thesis
      using False by (simp add: vpos_at_def Let_def Suc_diff_le add.commute)
  qed
qed

lemma vline_last:
  assumes small: "unat (r 4) < 128" "unat (r 9) < 32" "unat (r 5) < 32"
    and k: "Suc k = (unat (r 4) + 1) * (unat (r 9) + 1) + unat (r 5)"
  shows "vline r (vpos_at r k) = frame_top \<and>
    (case vpos_at r k of (vcc, ra, adj, vta, sl) \<Rightarrow>
      (adj \<and> vta + 1 \<ge> r 5) \<or> (\<not> adj \<and> ra = r 9 \<and> vcc = r 4 \<and> r 5 = 0))"
proof (cases "unat (r 5) = 0")
  case True
  let ?n = "unat (r 9) + 1"
  have "k = unat (r 4) * ?n + unat (r 9)"
    using k True by (simp add: algebra_simps)
  then have "k div ?n = unat (r 4)" "k mod ?n = unat (r 9)" "k < (unat (r 4) + 1) * ?n"
    by (simp_all del: mult_Suc_right add: algebra_simps)
  then show ?thesis
    using True by (simp add: vpos_at_def Let_def unat_eq_0)
next
  case False
  let ?rows = "(unat (r 4) + 1) * (unat (r 9) + 1)"
  have ge: "\<not> k < ?rows" "Suc (k - ?rows) = unat (r 5)"
    using k False by linarith+
  have a: "unat (of_nat (k - ?rows) + 1 :: u8) = Suc (k - ?rows)"
    using ge small by (intro unat_of_nat_Suc_u8) linarith
  then have "r 5 \<le> of_nat (k - ?rows) + 1"
    using ge by (simp add: word_le_nat_alt)
  then show ?thesis
    using ge by (simp add: vpos_at_def Let_def)
qed

lemma frame_run:
  assumes small: "unat (cr_reg c 4) < 128" "unat (cr_reg c 9) < 32" "unat (cr_reg c 5) < 32"
    and top: "cr_hcc c = 0" "vpos c = frame_top" and k: "k < lines_per_frame c"
  shows "case (crtc_char asic ^^ (Suc (unat (cr_reg c 0)) * k)) c of d \<Rightarrow>
    cr_hcc d = 0 \<and> cr_reg d = cr_reg c \<and> vpos d = vpos_at (cr_reg c) k"
  using k
proof (induction k)
  case 0
  then show ?case using top by (simp add: vpos_at_def frame_top_def)
next
  case (Suc k)
  let ?d = "(crtc_char asic ^^ (Suc (unat (cr_reg c 0)) * k)) c"
  have ih: "cr_hcc ?d = 0" "cr_reg ?d = cr_reg c" "vpos ?d = vpos_at (cr_reg c) k"
    using Suc by simp_all
  have "(crtc_char asic ^^ (Suc (unat (cr_reg c 0)) * Suc k)) c = (crtc_char asic ^^ Suc (unat (cr_reg ?d 0))) ?d"
    unfolding ih(2) by (metis comp_apply funpow_add mult_Suc_right)
  moreover have "vline (cr_reg c) (vpos_at (cr_reg c) k) = vpos_at (cr_reg c) (Suc k)"
    using Suc.prems by (intro vline_at small) (simp add: lines_per_frame_def)
  ultimately show ?case
    using line_run [OF ih(1), of asic] ih by simp
qed

subsection \<open>Invariant\<close>

definition crtc_wf :: "crtc_state \<Rightarrow> bool" where
  "crtc_wf c \<longleftrightarrow> fits 7 (cr_reg c 4) \<and> fits 5 (cr_reg c 5) \<and> fits 7 (cr_reg c 6) \<and> fits 7 (cr_reg c 7) \<and>
     fits 5 (cr_reg c 9) \<and> fits 5 (cr_reg_select c) \<and> fits 2 (cr_type c) \<and> fits 7 (cr_vcc c) \<and>
     fits 5 (cr_ra c) \<and> unat (cr_hsw c) \<le> 16 \<and> (cr_in_hsync c \<longrightarrow> unat (cr_hsw c) \<le> 15) \<and>
     unat (cr_vsw c) \<le> 16 \<and> (cr_in_vsync c \<longrightarrow> unat (cr_vsw c) \<le> 15) \<and> fits 5 (cr_vta c) \<and>
     fits 14 (cr_ma_row c) \<and> fits 14 (cr_split_addr_snap c)"

lemma fits14 [simp]: "fits 14 (x AND 0x3FFF :: u16)"
  by (simp add: mask_simps fits_take_bit)

lemma fits_start_addr [simp]: "fits 14 (start_addr c)"
  by (simp add: start_addr_def)

lemma crtc_wf_init: "crtc_wf crtc_init"
  by (simp add: crtc_wf_def crtc_init_def)

lemma hsync_width_le: "unat (hsync_width c) \<le> 16"
proof -
  have "unat (cr_reg c 3 AND 0x0F) < 16"
    by (simp add: mask_simps unat_take_bit)
  then show ?thesis by (simp add: hsync_width_def Let_def)
qed

lemma vsync_width_le: "unat (vsync_width c) \<le> 16"
proof -
  have "unat (drop_bit 4 (cr_reg c 3)) < 16"
    using unat_less_256 [of "cr_reg c 3"] by (simp add: unat_drop_bit less_mult_imp_div_less)
  then show ?thesis by (simp add: vsync_width_def Let_def)
qed

lemma crtc_wf_check [inv_intros]: "crtc_wf c \<Longrightarrow> crtc_wf (check_vsync_start c)"
  by (simp add: crtc_wf_def check_vsync_start_def Let_def)

lemma crtc_wf_split [inv_intros]: "crtc_wf c \<Longrightarrow> crtc_wf (snapshot_split asic c)"
  by (auto simp: crtc_wf_def snapshot_split_def asic_vid_split_def Let_def split: option.split)

lemma crtc_wf_ma_row: "crtc_wf c \<Longrightarrow> fits 14 x \<Longrightarrow> crtc_wf (c\<lparr>cr_ma_row := x\<rparr>)"
  by (simp add: crtc_wf_def)

lemma crtc_wf_newframe [inv_intros]: "crtc_wf c \<Longrightarrow> crtc_wf (crtc_newframe asic c)"
  unfolding crtc_newframe_def by (intro inv_intros) (simp add: crtc_wf_def)

lemma fits_and_7F [simp]: "fits 7 (x AND 0x7F :: u8)"
  by (simp add: mask_simps fits_take_bit)

lemma crtc_wf_row_line [inv_intros]:
  assumes "crtc_wf c"
  shows "crtc_wf (snd (row_line asic c))"
proof -
  have "crtc_wf (c\<lparr>cr_ra := 0, cr_ma_row := (cr_ma_row c + ucast (cr_reg c 1)) AND 0x3FFF\<rparr>)"
    using assms by (simp add: crtc_wf_def)
  moreover from this have "crtc_wf (c\<lparr>cr_ra := 0, cr_ma_row := (cr_ma_row c + ucast (cr_reg c 1)) AND 0x3FFF,
      cr_vcc := (cr_vcc c + 1) AND 0x7F\<rparr>)" "crtc_wf (c\<lparr>cr_ra := 0,
      cr_ma_row := (cr_ma_row c + ucast (cr_reg c 1)) AND 0x3FFF, cr_in_vta := True, cr_vta := 0\<rparr>)"
    by (simp_all add: crtc_wf_def)
  moreover have "crtc_wf (c\<lparr>cr_ra := (cr_ra c + 1) AND 0x1F\<rparr>)"
    using assms by (simp add: crtc_wf_def mask_simps fits_take_bit)
  ultimately show ?thesis
    by (simp add: row_line_def crtc_newrow_def Let_def inv_intros)
qed

lemma crtc_wf_vsync_line [inv_intros]:
  assumes "crtc_wf c"
  shows "crtc_wf (vsync_line c)"
proof (cases "cr_in_vsync c")
  case True
  then have v: "unat (cr_vsw c + 1) = unat (cr_vsw c) + 1" "unat (cr_vsw c) \<le> 15"
    using assms by (simp_all add: crtc_wf_def unat_Suc_u8)
  then show ?thesis
    using assms vsync_width_le [of c] by (simp add: vsync_line_def crtc_wf_def Let_def word_le_nat_alt)
qed (use assms in \<open>simp add: vsync_line_def\<close>)

lemma fits2_1 [simp]: "fits 2 (1 :: u8)"
  by (simp add: fits_iff_unat)

lemma crtc_wf_newscanline [inv_intros]:
  assumes "crtc_wf c"
  shows "crtc_wf (crtc_newscanline asic c)"
proof -
  let ?d = "vsync_line (c\<lparr>cr_scanline := cr_scanline c + 1\<rparr>)"
  have d: "crtc_wf ?d"
    using assms by (intro inv_intros) (simp add: crtc_wf_def)
  show ?thesis
  proof (cases "cr_in_vta c")
    case True
    have "crtc_newframe asic (?d\<lparr>cr_vta := x\<rparr>) = crtc_newframe asic (?d\<lparr>cr_vta := 0\<rparr>)" for x
      by (simp add: crtc_newframe_def start_addr_def)
    moreover have "crtc_wf (?d\<lparr>cr_vta := 0\<rparr>)"
      using d by (simp add: crtc_wf_def)
    moreover have "crtc_wf (?d\<lparr>cr_vta := cr_vta c + 1\<rparr>)" if "\<not> cr_reg c 5 \<le> cr_vta c + 1"
    proof -
      have "fits 5 (cr_vta c + 1)"
        using that assms by (simp add: crtc_wf_def fits_iff_unat word_le_nat_alt)
      then show ?thesis using d by (simp add: crtc_wf_def)
    qed
    ultimately show ?thesis
      using True by (simp add: newscanline_vta Let_def) (metis crtc_wf_newframe)
  next
    case False
    have "crtc_wf (line_base sp re e)" if "crtc_wf e" for sp re e
      using that by (simp add: line_base_def Let_def crtc_wf_ma_row) (simp add: crtc_wf_def)
    then show ?thesis
      using newscanline_row [OF False, of asic] crtc_wf_row_line [OF d] by (auto simp: Let_def)
  qed
qed

lemma crtc_wf_hsync_char: "crtc_wf c \<Longrightarrow> crtc_wf (hsync_char c)"
proof (cases "cr_in_hsync c")
  case True
  assume wf: "crtc_wf c"
  then have "unat (cr_hsw c + 1) = unat (cr_hsw c) + 1" "unat (cr_hsw c) \<le> 15"
    using True by (simp_all add: crtc_wf_def unat_Suc_u8)
  then show ?thesis
    using wf hsync_width_le [of c] by (simp add: hsync_char_def crtc_wf_def Let_def word_le_nat_alt)
qed (simp add: hsync_char_def crtc_wf_def Let_def)

lemma crtc_wf_char [inv_intros]:
  assumes "crtc_wf c"
  shows "crtc_wf (crtc_char asic c)"
proof -
  have "crtc_wf ((hsync_char c)\<lparr>cr_ma := m, cr_dispen := d, cr_hcc := h\<rparr>)" for m d h
    using crtc_wf_hsync_char [OF assms] by (simp add: crtc_wf_def)
  then show ?thesis
    by (simp add: crtc_char_def Let_def crtc_wf_newscanline)
qed

lemma crtc_wf_reg:
  assumes "crtc_wf c" and "k < 16"
  shows "crtc_wf (c\<lparr>cr_reg := (cr_reg c)(k := d AND kRegWMask ! k)\<rparr>)"
proof -
  have "fits 7 (d AND kRegWMask ! 4)" "fits 5 (d AND kRegWMask ! 5)" "fits 7 (d AND kRegWMask ! 6)"
    "fits 7 (d AND kRegWMask ! 7)" "fits 5 (d AND kRegWMask ! 9)"
    by (simp_all add: kRegWMask_def) (simp_all add: mask_simps fits_take_bit)
  then show ?thesis
    using assms by (simp add: crtc_wf_def)
qed

lemma crtc_wf_io [inv_intros]:
  assumes "crtc_wf c"
  shows "crtc_wf (snd (crtc_io_write_decode c a d))"
proof -
  have "crtc_wf (c\<lparr>cr_reg_select := d AND 0x1F\<rparr>)"
    using assms by (simp add: crtc_wf_def mask_simps fits_take_bit)
  moreover have "crtc_wf (c\<lparr>cr_reg := (cr_reg c)(unat (cr_reg_select c) := d AND kRegWMask ! unat (cr_reg_select c))\<rparr>)"
    if "cr_reg_select c < 16"
    using that by (intro crtc_wf_reg assms) (simp add: word_less_nat_alt)
  moreover have "crtc_wf (c\<lparr>cr_reg := (cr_reg c)(7 := d AND kRegWMask ! 7)\<rparr>)"
    by (rule crtc_wf_reg [OF assms]) simp
  ultimately show ?thesis
    using assms by (simp add: crtc_io_write_decode_def Let_def inv_intros)
qed

lemma crtc_wf_lpen [inv_intros]:
  "crtc_wf c \<Longrightarrow> crtc_wf (lpen_latch c)" "crtc_wf (c\<lparr>cr_lpen_prev := b\<rparr>) \<longleftrightarrow> crtc_wf c"
  by (simp_all add: crtc_wf_def lpen_latch_def)

lemma crtc_wf_step [inv_intros]: "crtc_wf c \<Longrightarrow> crtc_wf (fst (crtc_step asic c i))"
  by (simp add: crtc_step_def Let_def crtc_wf_lpen crtc_wf_io crtc_wf_char)

lemma crtc_wf_misc [inv_intros]:
  assumes "crtc_wf c"
  shows "crtc_wf (crtc_reset c)" "crtc_wf (crtc_set_type c t)" "crtc_wf (crtc_poke_reg c idx v)"
    "crtc_wf (crtc_restore_v3 c ma sl hcc vcc ra hsw vsw flags)" "crtc_wf (crtc_fast_lpen_strobe c b)"
    "crtc_wf (crtc_batch_lpen_latch c b)" "crtc_wf (snd (crtc_fast_io_write c a v))"
proof -
  show "crtc_wf (crtc_reset c)"
    using assms by (simp add: crtc_wf_def crtc_reset_def)
  show "crtc_wf (crtc_set_type c t)"
    using assms by (simp add: crtc_wf_def crtc_set_type_def mask_simps fits_take_bit)
  show "crtc_wf (crtc_poke_reg c idx v)"
  proof (cases "idx < 16")
    case True
    then show ?thesis
      using crtc_wf_reg [OF assms, of "unat idx" v] by (simp add: crtc_poke_reg_def word_less_nat_alt)
  next
    case False
    then have "16 \<le> unat idx" by (simp add: word_less_nat_alt)
    then show ?thesis
      using assms False by (simp add: crtc_poke_reg_def crtc_wf_def)
  qed
  have low: "unat (x AND 15 :: u8) \<le> 15" for x
    using fits_unat [of 4 "x AND 15"] by (simp add: mask_simps fits_take_bit)
  then have low': "unat (x AND 15 :: u8) \<le> 16" for x
    using low [of x] by linarith
  have "fits 7 (x AND 127 :: u8)" "fits 5 (x AND 31 :: u8)" for x
    by (simp_all add: mask_simps fits_take_bit)
  with low low' show "crtc_wf (crtc_restore_v3 c ma sl hcc vcc ra hsw vsw flags)"
    using assms by (simp add: crtc_restore_v3_def crtc_wf_def)
  show "crtc_wf (crtc_fast_lpen_strobe c b)" "crtc_wf (crtc_batch_lpen_latch c b)"
    "crtc_wf (snd (crtc_fast_io_write c a v))"
    using assms by (simp_all add: crtc_fast_lpen_strobe_def crtc_batch_lpen_latch_def crtc_fast_io_write_def inv_intros)
qed

lemma crtc_wf_chars: "crtc_wf c \<Longrightarrow> crtc_wf ((crtc_char asic ^^ n) c)"
  by (erule funpow_inv) (rule crtc_wf_char)

lemma view_steps_state: "snd (view_steps asic c n) = (crtc_char asic ^^ n) c"
  by (induction n arbitrary: c) (simp_all add: char_view_def Let_def funpow_swap1 split_def)

lemma advance_chars_state: "snd (advance_chars_loop asic c i n) = (crtc_char asic ^^ n) c"
  by (induction n arbitrary: c i) (simp_all add: Let_def funpow_swap1)

subsection \<open>Interfaces provided\<close>

interpretation crtc_drv: bus_driver "crtc_tick asic" "\<lambda>c i. fst (crtc_step asic c i)" "\<lambda>c i. snd (crtc_step asic c i)"
  for asic
  by unfold_locales (simp add: crtc_tick_def)

lemma check_vsync_idem: "check_vsync_start (check_vsync_start c) = check_vsync_start c"
  by (auto simp: check_vsync_start_def Let_def)

lemma crtc_decode_idem:
  "snd (crtc_io_write_decode (snd (crtc_io_write_decode c a d)) a d) = snd (crtc_io_write_decode c a d)"
proof -
  have "check_vsync_start ((check_vsync_start (e\<lparr>cr_reg := r\<rparr>))\<lparr>cr_reg := r\<rparr>) = check_vsync_start (e\<lparr>cr_reg := r\<rparr>)"
    "cr_reg_select (check_vsync_start e) = cr_reg_select e" for e r
    by (auto simp: check_vsync_start_def Let_def)
  then show ?thesis
    by (simp add: crtc_io_write_decode_def Let_def)
qed

interpretation crtc_held: held_write "\<lambda>c a d. snd (crtc_fast_io_write c a d)"
  by unfold_locales (simp add: crtc_fast_io_write_def crtc_decode_idem)

interpretation crtc_blob: state_blob crtc_save crtc_load "\<lambda>c. c" "\<lambda>c. ()"
  by unfold_locales (simp_all add: crtc_save_def crtc_load_def)

subsection \<open>Reachable states\<close>

inductive crtc_reach :: "crtc_state \<Rightarrow> bool" where
  cr_init: "crtc_reach crtc_init"
| cr_tick: "crtc_reach c \<Longrightarrow> crtc_reach (fst (crtc_step asic c i))"
| cr_reset: "crtc_reach c \<Longrightarrow> crtc_reach (crtc_reset c)"
| cr_load: "crtc_reach c \<Longrightarrow> crtc_reach d \<Longrightarrow> crtc_reach (crtc_load c (crtc_save d))"
| cr_set_type: "crtc_reach c \<Longrightarrow> crtc_reach (crtc_set_type c t)"
| cr_poke: "crtc_reach c \<Longrightarrow> crtc_reach (crtc_poke_reg c idx v)"
| cr_restore: "crtc_reach c \<Longrightarrow> crtc_reach (crtc_restore_v3 c ma sl hcc vcc ra hsw vsw flags)"
| cr_chars: "crtc_reach c \<Longrightarrow> crtc_reach (snd (snd (crtc_advance_chars asic c n m)))"
| cr_view: "crtc_reach c \<Longrightarrow> crtc_reach (snd (snd (crtc_advance_view asic c n)))"
| cr_fast_write: "crtc_reach c \<Longrightarrow> crtc_reach (snd (crtc_fast_io_write c a v))"
| cr_lpen: "crtc_reach c \<Longrightarrow> crtc_reach (crtc_fast_lpen_strobe c b)"
| cr_batch_lpen: "crtc_reach c \<Longrightarrow> crtc_reach (crtc_batch_lpen_latch c b)"

lemma crtc_reach_inv: "crtc_reach c \<Longrightarrow> crtc_wf c"
proof (induction rule: crtc_reach.induct)
  case (cr_chars c asic n m)
  then show ?case by (simp add: crtc_advance_chars_def Let_def advance_chars_state crtc_wf_chars)
next
  case (cr_view c asic n)
  then show ?case
    by (simp add: advance_view_steps split_def view_steps_state crtc_wf_chars)
qed (simp_all add: crtc_wf_init crtc_wf_step crtc_wf_misc crtc_load_def crtc_save_def)

subsection \<open>Properties\<close>

text \<open>C4 (crtc_view_per_char): The batch engine's closed-form spans change nothing: advancing any number of characters yields,
  view for view, what stepping them one at a time yields, leaves the same state, and returns the
  number of characters with a sync edge.\<close>
theorem crtc_view_per_char:
  "crtc_advance_view asic c n =
    (case view_steps asic c n of (vs, c') \<Rightarrow> (length (filter (\<lambda>v. vw_edges v \<noteq> []) vs), vs, c'))
   \<and> snd (snd (crtc_advance_view asic c n)) = (crtc_char asic ^^ n) c"
  by (simp add: advance_view_steps split_def view_steps_state)

text \<open>(crtc_view_is_bus): What one per-character step reports is what one tick of the device puts on the video bus on a character
  clock with no I/O and no light-pen strobe: the fetch address after vertical scroll, the raster row,
  the sync and display-enable levels and the frame line; and the two leave the same state.\<close>
theorem crtc_view_is_bus:
  assumes "clk_crtc (b_clk i)" and "\<not> cpu_iorq (b_cpu i)" and "\<not> pen_strobe (b_pen i)" and "\<not> cr_lpen_prev c"
  shows "case crtc_tick asic c i out of (c', bus) \<Rightarrow>
    c' = (snd (char_view asic c))\<lparr>cr_lpen_prev := False\<rparr> \<and>
    vid_ma (b_vid bus) = vw_ma (fst (char_view asic c)) \<and> vid_ra (b_vid bus) = vw_ra (fst (char_view asic c)) \<and>
    vid_hsync (b_vid bus) = vw_hsync (fst (char_view asic c)) \<and>
    vid_vsync (b_vid bus) = vw_vsync (fst (char_view asic c)) \<and>
    vid_dispen (b_vid bus) = vw_dispen (fst (char_view asic c)) \<and>
    vid_frame_line (b_vid bus) = vw_frame_line (fst (char_view asic c))"
proof -
  have "apply_vscroll asic (d\<lparr>cr_lpen_prev := b\<rparr>) x y = apply_vscroll asic d x y" for d b x y
    by (simp add: apply_vscroll_def Let_def split: option.split)
  then show ?thesis
    using assms by (simp add: crtc_tick_def crtc_step_def char_view_def crtc_lines_def Let_def)
qed

definition char_bus :: Bus where
  "char_bus = bus_resting\<lparr>b_clk := (b_clk bus_resting)\<lparr>clk_crtc := True\<rparr>\<rparr>"

theorem crtc_view_is_bus_witness:
  "vid_ma (b_vid (snd (crtc_tick None crtc_init char_bus bus_resting))) = vw_ma (fst (char_view None crtc_init))"
  using crtc_view_is_bus [of char_bus crtc_init None bus_resting]
  by (simp add: char_bus_def bus_resting_def crtc_init_def split_def)

text \<open>(horizon_quiet): Below the horizon the Fast scheduler asks for, no character clocks the interrupt path: advancing one
  character at a time, each of the first h - 1 characters keeps HSYNC from falling, the frame line and
  VSYNC from moving. The one state excluded is HSYNC active with a zero programmed width.\<close>
lemma horizon_quiet:
  assumes "\<not> (cr_in_hsync c \<and> hsync_width c = 0)" and "j < crtc_irq_horizon_chars c - 1"
  shows "(cr_in_hsync ((crtc_char asic ^^ j) c) \<longrightarrow> cr_in_hsync ((crtc_char asic ^^ Suc j) c)) \<and>
    cr_scanline ((crtc_char asic ^^ Suc j) c) = cr_scanline c \<and>
    cr_in_vsync ((crtc_char asic ^^ Suc j) c) = cr_in_vsync c"
proof -
  have le: "cr_hcc c \<le> cr_reg c 0"
    using assms(2) by (auto simp: crtc_irq_horizon_chars_def Let_def not_less split: if_splits)
  show ?thesis
    using horizon_no_fall [OF assms, of asic] mid_run [OF horizon_line [OF le assms(2)], of asic] by blast
qed

definition crtc_std :: crtc_state where
  "crtc_std = crtc_init\<lparr>cr_reg := (\<lambda>_. 0)(0 := 63, 1 := 40, 2 := 46, 3 := 0x8E, 4 := 38, 6 := 25, 7 := 30, 9 := 7)\<rparr>"

lemma horizon_quiet_witness:
  "cr_scanline ((crtc_char None ^^ Suc 59) crtc_std) = 0"
proof -
  have "59 < crtc_irq_horizon_chars crtc_std - 1"
    by (simp add: crtc_irq_horizon_chars_def crtc_std_def crtc_init_def hsync_width_def)
  then show ?thesis
    using horizon_quiet [of crtc_std 59 None] by (simp add: crtc_std_def crtc_init_def)
qed

text \<open>(crtc_horizon_zero_width): The excluded state is a real gap. On types 0 and 1, when R3 is rewritten to a zero HSYNC width while
  HSYNC is active, HSYNC falls on the very next character, but the horizon is the end of the line.\<close>
theorem crtc_horizon_zero_width:
  assumes "cr_in_hsync c" and "hsync_width c = 0" and "cr_hcc c < cr_reg c 0"
  shows "\<not> cr_in_hsync (crtc_char asic c) \<and>
    crtc_irq_horizon_chars c = unat (cr_reg c 0) - unat (cr_hcc c) + 1 \<and> 1 < crtc_irq_horizon_chars c"
proof -
  have "crtc_irq_horizon_chars c = unat (cr_reg c 0) - unat (cr_hcc c) + 1"
    using assms by (simp add: crtc_irq_horizon_chars_def Let_def)
  moreover have "unat (cr_hcc c) < unat (cr_reg c 0)"
    using assms(3) by (simp add: word_less_nat_alt)
  moreover have "\<not> cr_in_hsync (crtc_char asic c)"
    using assms crtc_char_mid [of c asic] by (auto simp: hsync_char_def Let_def)
  ultimately show ?thesis by simp
qed

theorem crtc_horizon_zero_width_witness:
  "crtc_irq_horizon_chars (snd (crtc_fast_io_write (crtc_std\<lparr>cr_in_hsync := True, cr_hcc := 48, cr_reg_select := 3\<rparr>)
     0xBD00 0x80)) = 16"
  using crtc_horizon_zero_width [of "snd (crtc_fast_io_write (crtc_std\<lparr>cr_in_hsync := True, cr_hcc := 48,
     cr_reg_select := 3\<rparr>) 0xBD00 0x80)" None]
  by (simp add: crtc_fast_io_write_def crtc_io_write_decode_def crtc_std_def crtc_init_def hsync_width_def
    kRegWMask_def Let_def)

text \<open>C29 (crtc_frame_period): With the registers left alone, a frame started at its top lasts exactly
  (R4 + 1) * (R9 + 1) + R5 lines of R0 + 1 characters: k whole lines in, the frame line is k, and after
  the last one every counter is back at the top and the row base is reloaded from R12/R13.\<close>
theorem crtc_frame_period:
  assumes "crtc_reach c" and "cr_hcc c = 0" and "vpos c = frame_top"
  shows "(\<forall>k < lines_per_frame c.
      cr_scanline ((crtc_char asic ^^ ((unat (cr_reg c 0) + 1) * k)) c) = of_nat k) \<and>
    (case (crtc_char asic ^^ ((unat (cr_reg c 0) + 1) * lines_per_frame c)) c of d \<Rightarrow>
      cr_hcc d = 0 \<and> vpos d = frame_top \<and> cr_ma_row d = start_addr c \<and> cr_reg d = cr_reg c)"
proof -
  have small: "unat (cr_reg c 4) < 128" "unat (cr_reg c 9) < 32" "unat (cr_reg c 5) < 32"
    using crtc_reach_inv [OF assms(1)] by (simp_all add: crtc_wf_def fits_iff_unat)
  note run = frame_run [OF small assms(2,3), of _ asic]
  have "cr_scanline d = of_nat k" if "vpos d = vpos_at (cr_reg c) k" for d k
    using that by (auto simp: vpos_def vpos_at_def Let_def split: if_splits)
  then have lines: "\<forall>k < lines_per_frame c.
      cr_scanline ((crtc_char asic ^^ ((unat (cr_reg c 0) + 1) * k)) c) = of_nat k"
    using run by simp
  obtain k where k: "lines_per_frame c = Suc k"
    by (cases "lines_per_frame c") (simp_all add: lines_per_frame_def)
  let ?d = "(crtc_char asic ^^ (Suc (unat (cr_reg c 0)) * k)) c"
  have d: "cr_hcc ?d = 0" "cr_reg ?d = cr_reg c" "vpos ?d = vpos_at (cr_reg c) k"
    using run [of k] k by simp_all
  have last: "(crtc_char asic ^^ ((unat (cr_reg c 0) + 1) * lines_per_frame c)) c =
      (crtc_char asic ^^ Suc (unat (cr_reg ?d 0))) ?d"
    unfolding d(2) k Suc_eq_plus1 [symmetric] by (metis comp_apply funpow_add mult_Suc_right)
  have "vline (cr_reg c) (vpos ?d) = frame_top \<and>
    ((cr_in_vta ?d \<and> cr_vta ?d + 1 \<ge> cr_reg ?d 5) \<or>
     (\<not> cr_in_vta ?d \<and> cr_ra ?d = cr_reg ?d 9 \<and> cr_vcc ?d = cr_reg ?d 4 \<and> cr_reg ?d 5 = 0))"
    using vline_last [OF small k [unfolded lines_per_frame_def, symmetric]]
    unfolding d(3) [symmetric] d(2) by (simp add: vpos_def)
  then have "case (crtc_char asic ^^ ((unat (cr_reg c 0) + 1) * lines_per_frame c)) c of d \<Rightarrow>
      cr_hcc d = 0 \<and> vpos d = frame_top \<and> cr_ma_row d = start_addr c \<and> cr_reg d = cr_reg c"
    using line_run [OF d(1), of asic] d(2) start_addr_cong [OF d(2)] unfolding last by simp
  with lines show ?thesis by blast
qed

theorem crtc_frame_period_witness:
  "vpos ((crtc_char None ^^ 1) crtc_init) = frame_top"
  using crtc_frame_period [OF cr_init, of None]
  by (simp add: crtc_init_def vpos_def frame_top_def lines_per_frame_def)

text \<open>(crtc_reach_wf): In every reachable state the counters keep the widths of the hardware (5-bit raster, 7-bit row, sync
  counters at most 16), the masked registers hold only their documented bits, the register index stays
  inside the file, and the row base is a 14-bit address.\<close>
theorem crtc_reach_wf:
  assumes "crtc_reach c"
  shows "unat (cr_ra c) < 32 \<and> unat (cr_vcc c) < 128 \<and> unat (cr_hsw c) \<le> 16 \<and> unat (cr_vsw c) \<le> 16 \<and>
    unat (cr_reg c 4) < 128 \<and> unat (cr_reg c 5) < 32 \<and> unat (cr_reg c 6) < 128 \<and> unat (cr_reg c 7) < 128 \<and>
    unat (cr_reg c 9) < 32 \<and> unat (cr_reg_select c) < 32 \<and> unat (cr_type c) < 4 \<and> unat (cr_ma_row c) < 0x4000"
  using crtc_reach_inv [OF assms] by (simp add: crtc_wf_def fits_iff_unat)

theorem crtc_reach_wf_witness: "unat (cr_reg (crtc_poke_reg crtc_init 4 0xFF) 4) < 128"
  using crtc_reach_wf [OF cr_poke [OF cr_init, of 4 "0xFF"]] by simp

end
