(* ===== verification/Video.thy ===== *)
theory Video
  imports Gate_Array Crtc
begin

text \<open>
  The live video device of \<open>src/src/hw/video.cpp\<close>: the beam, the cell painters of the classic and the Plus
  machine, the per-line snapshot of the ASIC, the byte caches, and the Fast tier's batch renderer. \<open>vd_x\<close> is
  the member \<open>x\<close> of \<open>video_state\<close>. The two attached chips are arguments: the Gate Array's state (\<open>ga_peek\<close>
  copies its mode and inks) and the ASIC's, if one is attached. A pixel is a triple of bytes, written and
  copied as one; the frame buffer is a function of the pixel index, a slot of the byte cache the list of its
  eight pixels, the sprite candidates of a line a list. Beam positions are \<open>int\<close>, as they go negative.
\<close>

type_synonym rgb = "u8 \<times> u8 \<times> u8"

definition kVisChars :: nat where "kVisChars = 48"
definition kVBackPorch :: int where "kVBackPorch = 36"

text \<open>A sprite that crosses the current scanline: the entries of \<open>lc_sx\<close>, \<open>lc_xend\<close>, \<open>lc_id\<close>, \<open>lc_row\<close> and
  \<open>lc_shift\<close> at one index.\<close>

record line_sprite =
  lc_sx :: int
  lc_xend :: int
  lc_id :: nat
  lc_row :: nat
  lc_shift :: nat

record video_state =
  vd_attached :: bool
  vd_fb :: "nat \<Rightarrow> rgb"
  vd_fb_w :: nat
  vd_fb_h :: nat
  vd_cc_rgb :: "u8 \<Rightarrow> u8 \<Rightarrow> rgb list"
  vd_cc_valid :: "u8 \<Rightarrow> u8 \<Rightarrow> bool"
  vd_cc_border :: "rgb list"
  vd_snap_gen :: u32
  vd_beam_col :: int
  vd_beam_row :: int
  vd_fetch0 :: u8
  vd_hsync_prev :: bool
  vd_vsync_prev :: bool
  vd_frames :: u32
  vd_plus_active :: bool
  vd_disp_char :: int
  vd_first_active_row :: int
  vd_spr_x :: "nat \<Rightarrow> u16"
  vd_spr_y :: "nat \<Rightarrow> u16"
  vd_spr_mx :: "nat \<Rightarrow> u8"
  vd_spr_my :: "nat \<Rightarrow> u8"
  vd_pal_r :: "nat \<Rightarrow> u8"
  vd_pal_g :: "nat \<Rightarrow> u8"
  vd_pal_b :: "nat \<Rightarrow> u8"
  vd_pal_set :: "nat \<Rightarrow> bool"
  vd_hscroll :: u8
  vd_prev_pen :: "nat \<Rightarrow> u8"
  vd_lc :: "line_sprite list"
  vd_line_rgb :: "nat \<Rightarrow> rgb"

definition video_init :: video_state where
  "video_init = \<lparr> vd_attached = False, vd_fb = (\<lambda>_. (0, 0, 0)), vd_fb_w = 0, vd_fb_h = 0, vd_cc_rgb = (\<lambda>_ _. replicate 8 (0, 0, 0)),
     vd_cc_valid = (\<lambda>_ _. False), vd_cc_border = replicate 16 (0, 0, 0), vd_snap_gen = 0xFFFFFFFF, vd_beam_col = 0,
     vd_beam_row = 0, vd_fetch0 = 0, vd_hsync_prev = False, vd_vsync_prev = False, vd_frames = 0, vd_plus_active = False,
     vd_disp_char = 0, vd_first_active_row = -1, vd_spr_x = (\<lambda>_. 0), vd_spr_y = (\<lambda>_. 0), vd_spr_mx = (\<lambda>_. 0),
     vd_spr_my = (\<lambda>_. 0), vd_pal_r = (\<lambda>_. 0), vd_pal_g = (\<lambda>_. 0), vd_pal_b = (\<lambda>_. 0), vd_pal_set = (\<lambda>_. False),
     vd_hscroll = 0, vd_prev_pen = (\<lambda>_. 0), vd_lc = [], vd_line_rgb = (\<lambda>_. (0, 0, 0)) \<rparr>"

text \<open>Pixels written left to right from an index on.\<close>

definition put_run :: "nat \<Rightarrow> rgb list \<Rightarrow> (nat \<Rightarrow> rgb) \<Rightarrow> nat \<Rightarrow> rgb" where
  "put_run off px fb = (\<lambda>i. if off \<le> i \<and> i < off + length px then px ! (i - off) else fb i)"

subsection \<open>The line snapshot\<close>

definition asic_vid_sprite_attr :: "asic_state \<Rightarrow> nat \<Rightarrow> u16 \<times> u16 \<times> u8 \<times> u8" where
  "asic_vid_sprite_attr a idn = (let i = idn mod 16 in (as_sprite_x a i, as_sprite_y a i, as_sprite_mx a i, as_sprite_my a i))"

definition plus_reread :: "asic_state \<Rightarrow> video_state \<Rightarrow> video_state" where
  "plus_reread a v =
    (let r = (\<lambda>e. ucast (drop_bit 8 (asic_vid_palette a e) AND 0x0F)); g = (\<lambda>e. ucast (drop_bit 4 (asic_vid_palette a e) AND 0x0F));
         b = (\<lambda>e. ucast (asic_vid_palette a e AND 0x0F)) in
     v\<lparr>vd_snap_gen := as_vid_gen a, vd_cc_valid := (\<lambda>_ _. False), vd_hscroll := fst (asic_vid_scroll a),
       vd_spr_x := (\<lambda>i. fst (asic_vid_sprite_attr a i)), vd_spr_y := (\<lambda>i. fst (snd (asic_vid_sprite_attr a i))),
       vd_spr_mx := (\<lambda>i. fst (snd (snd (asic_vid_sprite_attr a i)))), vd_spr_my := (\<lambda>i. snd (snd (snd (asic_vid_sprite_attr a i)))),
       vd_pal_r := r, vd_pal_g := g, vd_pal_b := b, vd_pal_set := asic_vid_palette_set a,
       vd_line_rgb := (\<lambda>e. if asic_vid_palette_set a e then (r e * 17, g e * 17, b e * 17) else vd_line_rgb v e)\<rparr>)"

definition line_candidate :: "video_state \<Rightarrow> int \<Rightarrow> nat \<Rightarrow> line_sprite option" where
  "line_candidate v py i =
    (let mx = uint (vd_spr_mx v i); my = uint (vd_spr_my v i); sy = uint (vd_spr_y v i); sx = uint (vd_spr_x v i) in
     if mx = 0 \<or> my = 0 then None
     else if py < sy \<or> py \<ge> sy + 16 * my then None
     else Some \<lparr> lc_sx = sx, lc_xend = sx + 16 * mx, lc_id = i, lc_row = nat ((py - sy) div my),
                 lc_shift = (if mx = 4 then 2 else if mx = 2 then 1 else 0) \<rparr>)"

definition plus_cull :: "video_state \<Rightarrow> video_state" where
  "plus_cull v =
    (let py = (if vd_first_active_row v < 0 then 0 else vd_beam_row v - vd_first_active_row v) in
     v\<lparr>vd_lc := List.map_filter (line_candidate v py) [0..<16]\<rparr>)"

definition plus_refresh_line :: "asic_state option \<Rightarrow> video_state \<Rightarrow> video_state" where
  "plus_refresh_line asic v0 =
    (let was_plus = vd_plus_active v0; v = v0\<lparr>vd_plus_active := False\<rparr>;
         off = (if was_plus then v\<lparr>vd_cc_valid := (\<lambda>_ _. False), vd_snap_gen := 0xFFFFFFFF\<rparr> else v) in
     case asic of
       None \<Rightarrow> off
     | Some a \<Rightarrow>
         if \<not> asic_vid_active a then off
         else
           (let u = v\<lparr>vd_plus_active := True\<rparr>
            in plus_cull (if \<not> was_plus \<or> as_vid_gen a \<noteq> vd_snap_gen u then plus_reread a u else u)))"

definition plus_index_rgb :: "video_state \<Rightarrow> ga_state \<Rightarrow> nat \<Rightarrow> rgb" where
  "plus_index_rgb v g index =
    (if vd_pal_set v index then (vd_pal_r v index * 17, vd_pal_g v index * 17, vd_pal_b v index * 17)
     else if index \<le> 16 then vid_hw_rgb (ga_ink g index) else (0, 0, 0))"

subsection \<open>The decode tables\<close>

definition expand_byte :: "u8 \<Rightarrow> u8 \<Rightarrow> u8 list" where
  "expand_byte mode byte =
    (case vid_decode mode byte (replicate 8 0) of (n, pens) \<Rightarrow>
      (let pw = 8 div (if n \<noteq> 0 then n else 1) in concat (map (\<lambda>p. replicate pw (pens ! p)) [0..<n])))"

definition plus_decode_cell :: "u8 \<Rightarrow> u8 \<Rightarrow> u8 \<Rightarrow> u8 list" where
  "plus_decode_cell mode byte0 byte1 = take 16 (expand_byte mode byte0 @ expand_byte mode byte1 @ replicate 16 0)"

definition lut_count :: "u8 \<Rightarrow> nat" where
  "lut_count m = fst (vid_decode m 255 (replicate 8 0))"

definition lut_pens :: "u8 \<Rightarrow> u8 \<Rightarrow> u8 list" where
  "lut_pens m byte = snd (vid_decode m byte (replicate 8 0))"

definition lut_cols :: "u8 \<Rightarrow> u8 \<Rightarrow> u8 list" where
  "lut_cols m byte = take 8 (plus_decode_cell m byte 0)"

subsection \<open>Painting\<close>

definition paint_index :: "video_state \<Rightarrow> ga_state \<Rightarrow> nat \<Rightarrow> rgb" where
  "paint_index v g index = (if vd_pal_set v index then vd_line_rgb v index else plus_index_rgb v g index)"

definition paint_byte_plus :: "video_state \<Rightarrow> ga_state \<Rightarrow> u8 \<Rightarrow> u8 \<Rightarrow> bool \<times> rgb list" where
  "paint_byte_plus v g m byte =
    (list_all (\<lambda>p. vd_pal_set v (unat p)) (lut_cols m byte), map (\<lambda>p. paint_index v g (unat p)) (lut_cols m byte))"

text \<open>A slot of the cache: filled when it is not valid, marked valid when the paint was pure.\<close>

definition fill_slot :: "u8 \<Rightarrow> u8 \<Rightarrow> bool \<times> rgb list \<Rightarrow> video_state \<Rightarrow> video_state" where
  "fill_slot m byte p v =
    (if vd_cc_valid v m byte then v
     else (let u = v\<lparr>vd_cc_rgb := (vd_cc_rgb v)(m := (vd_cc_rgb v m)(byte := snd p))\<rparr> in
           if fst p then u\<lparr>vd_cc_valid := (vd_cc_valid v)(m := (vd_cc_valid v m)(byte := True))\<rparr> else u))"

definition cell_at :: "video_state \<Rightarrow> int \<Rightarrow> nat" where
  "cell_at v x0 = nat (vd_beam_row v) * vd_fb_w v + nat x0"

definition copy_slot :: "u8 \<Rightarrow> u8 \<Rightarrow> nat \<Rightarrow> video_state \<Rightarrow> video_state" where
  "copy_slot m byte at v = v\<lparr>vd_fb := put_run at (vd_cc_rgb v m byte) (vd_fb v)\<rparr>"

text \<open>The sprite pixel in front at an X position: the first candidate with an opaque pixel there.\<close>

fun sprite_over :: "asic_state option \<Rightarrow> int \<Rightarrow> line_sprite list \<Rightarrow> nat option" where
  "sprite_over asic x [] = None"
| "sprite_over asic x (c # cs) =
    (let dx = x - lc_sx c; col = nat (dx div 2 ^ lc_shift c);
         s = (case asic of None \<Rightarrow> 0 | Some a \<Rightarrow> asic_vid_sprite_pixel a (lc_id c) col (lc_row c)) in
     if dx < 0 \<or> col \<ge> 16 \<or> s = 0 then sprite_over asic x cs else Some (16 + unat s))"

definition background_pen :: "video_state \<Rightarrow> u8 list \<Rightarrow> int \<Rightarrow> u8" where
  "background_pen v cell_pen lx =
    (let src = lx - uint (vd_hscroll v) in
     if src \<ge> 0 then cell_pen ! (if src < 16 then nat src else 15) else vd_prev_pen v (nat ((16 + src) mod 16)))"

definition cell_pixel :: "asic_state option \<Rightarrow> video_state \<Rightarrow> ga_state \<Rightarrow> u8 list \<Rightarrow> line_sprite list \<Rightarrow> nat \<Rightarrow> rgb" where
  "cell_pixel asic v g cell_pen cand lx =
    paint_index v g (case sprite_over asic (vd_disp_char v * 16 + int lx) cand of
      Some s \<Rightarrow> s | None \<Rightarrow> unat (background_pen v cell_pen (int lx)))"

definition cell_candidates :: "video_state \<Rightarrow> nat \<Rightarrow> line_sprite list" where
  "cell_candidates v char_w =
    (let px_xbase = vd_disp_char v * 16 in
     filter (\<lambda>c. \<not> (px_xbase + int char_w \<le> lc_sx c \<or> px_xbase \<ge> lc_xend c)) (vd_lc v))"

definition render_cell_plus ::
    "asic_state option \<Rightarrow> ga_state \<Rightarrow> u8 \<Rightarrow> bool \<Rightarrow> u8 \<Rightarrow> int \<Rightarrow> nat \<Rightarrow> video_state \<Rightarrow> video_state" where
  "render_cell_plus asic g mode dispen byte1 x0 char_w v0 =
    (let v = (if dispen \<and> vd_first_active_row v0 < 0 then v0\<lparr>vd_first_active_row := vd_beam_row v0\<rparr> else v0);
         at = cell_at v x0; m = mode AND 3; cand = cell_candidates v char_w in
     if \<not> dispen then v\<lparr>vd_fb := put_run at (replicate char_w (paint_index v g 16)) (vd_fb v)\<rparr>
     else if vd_hscroll v = 0 \<and> cand = [] \<and> char_w = 16 then
       (let u = copy_slot m (vd_fetch0 v) at (fill_slot m (vd_fetch0 v) (paint_byte_plus v g m (vd_fetch0 v)) v);
            w = copy_slot m byte1 (at + 8) (fill_slot m byte1 (paint_byte_plus u g m byte1) u)
        in w\<lparr>vd_disp_char := vd_disp_char w + 1\<rparr>)
     else
       (let cell_pen = lut_cols m (vd_fetch0 v) @ lut_cols m byte1 in
        v\<lparr>vd_fb := put_run at (map (cell_pixel asic v g cell_pen cand) [0..<char_w]) (vd_fb v),
          vd_prev_pen := (\<lambda>k. if k < 16 then cell_pen ! k else vd_prev_pen v k), vd_disp_char := vd_disp_char v + 1\<rparr>))"

definition paint_byte_classic :: "ga_state \<Rightarrow> u8 \<Rightarrow> u8 \<Rightarrow> nat \<Rightarrow> rgb list" where
  "paint_byte_classic g m byte pw =
    concat (map (\<lambda>p. replicate pw (vid_hw_rgb (ga_ink g (unat (lut_pens m byte ! p))))) [0..<lut_count m])"

definition render_cell_classic ::
    "ga_state \<Rightarrow> u8 \<Rightarrow> bool \<Rightarrow> u8 \<Rightarrow> u8 \<Rightarrow> int \<Rightarrow> nat \<Rightarrow> video_state \<Rightarrow> video_state" where
  "render_cell_classic g mode dispen byte0 byte1 x0 char_w v =
    (let at = cell_at v x0 in
     if dispen then
       (let m = mode AND 3; n = lut_count m; pw = (char_w div 2) div (if n \<noteq> 0 then n else 1) in
        v\<lparr>vd_fb := put_run (at + n * pw) (paint_byte_classic g m byte1 pw) (put_run at (paint_byte_classic g m byte0 pw) (vd_fb v))\<rparr>)
     else v\<lparr>vd_fb := put_run at (replicate char_w (vid_hw_rgb (ga_ink g 16))) (vd_fb v)\<rparr>)"

definition char_width :: "video_state \<Rightarrow> nat" where
  "char_width v = vd_fb_w v div kVisChars"

definition cell_visible :: "bool \<Rightarrow> bool \<Rightarrow> video_state \<Rightarrow> bool" where
  "cell_visible hsync vsync v \<longleftrightarrow> \<not> hsync \<and> \<not> vsync \<and> 0 \<le> vd_beam_col v \<and> vd_beam_col v < int kVisChars \<and>
     0 \<le> vd_beam_row v \<and> vd_beam_row v < int (vd_fb_h v)"

definition render_char :: "asic_state option \<Rightarrow> ga_state \<Rightarrow> Bus \<Rightarrow> u8 \<Rightarrow> video_state \<Rightarrow> video_state" where
  "render_char asic g i byte1 v =
    (let char_w = char_width v; x0 = vd_beam_col v * int char_w in
     if \<not> cell_visible (vid_hsync (b_vid i)) (vid_vsync (b_vid i)) v then v
     else if vd_plus_active v then render_cell_plus asic g (ga_mode g) (vid_dispen (b_vid i)) byte1 x0 char_w v
     else render_cell_classic g (ga_mode g) (vid_dispen (b_vid i)) (vd_fetch0 v) byte1 x0 char_w v)"

subsection \<open>The device\<close>

text \<open>The beam's reaction to the sync edges, shared by the tick and the batch.\<close>

definition beam_edges :: "asic_state option \<Rightarrow> bool \<Rightarrow> bool \<Rightarrow> bool \<Rightarrow> video_state \<Rightarrow> video_state" where
  "beam_edges asic vs_rise hs_rise hs_fall v =
    (let u = (if vs_rise then v\<lparr>vd_frames := vd_frames v + 1, vd_beam_row := - kVBackPorch, vd_first_active_row := -1\<rparr>
              else if hs_rise then v\<lparr>vd_beam_row := vd_beam_row v + 1\<rparr> else v)
     in if hs_fall then plus_refresh_line asic (u\<lparr>vd_beam_col := 0, vd_disp_char := 0,
            vd_prev_pen := (\<lambda>k. if k < 16 then 0 else vd_prev_pen u k)\<rparr>) else u)"

definition video_next :: "asic_state option \<Rightarrow> ga_state \<Rightarrow> video_state \<Rightarrow> Bus \<Rightarrow> video_state" where
  "video_next asic g v0 i =
    (if \<not> vd_attached v0 then v0
     else
       (let hsync = vid_hsync (b_vid i); vsync = vid_vsync (b_vid i);
            v = v0\<lparr>vd_hsync_prev := hsync, vd_vsync_prev := vsync\<rparr>;
            u = beam_edges asic (vsync \<and> \<not> vd_vsync_prev v0) (hsync \<and> \<not> vd_hsync_prev v0) (\<not> hsync \<and> vd_hsync_prev v0) v;
            w = (if clk_phase (b_clk i) = 13 then u\<lparr>vd_fetch0 := ram_data (b_ram i)\<rparr> else u)
        in if clk_phase (b_clk i) = 15
           then (let x = render_char asic g i (ram_data (b_ram i)) w in x\<lparr>vd_beam_col := vd_beam_col x + 1\<rparr>) else w))"

definition video_tick :: "asic_state option \<Rightarrow> ga_state \<Rightarrow> video_state \<Rightarrow> Bus \<Rightarrow> Bus \<Rightarrow> video_state \<times> Bus" where
  "video_tick asic g v i out = (video_next asic g v i, out)"

definition video_reset :: "video_state \<Rightarrow> video_state" where
  "video_reset v = v\<lparr>vd_beam_col := 0, vd_beam_row := 0, vd_hsync_prev := False, vd_vsync_prev := False, vd_frames := 0,
     vd_plus_active := False, vd_disp_char := 0, vd_first_active_row := -1\<rparr>"

text \<open>The blob is the record from \<open>beam_col\<close> on.\<close>

definition video_save :: "video_state \<Rightarrow> u8 \<times> video_state" where
  "video_save v = (1, v\<lparr>vd_attached := False, vd_fb := (\<lambda>_. (0, 0, 0)), vd_fb_w := 0, vd_fb_h := 0, vd_cc_rgb := (\<lambda>_ _. []),
     vd_cc_valid := (\<lambda>_ _. False), vd_cc_border := [], vd_snap_gen := 0\<rparr>)"

definition video_load :: "video_state \<Rightarrow> u8 \<times> video_state \<Rightarrow> video_state" where
  "video_load v b =
    (if fst b \<noteq> 1 then v
     else (snd b)\<lparr>vd_attached := vd_attached v, vd_fb := vd_fb v, vd_fb_w := vd_fb_w v, vd_fb_h := vd_fb_h v,
       vd_cc_rgb := vd_cc_rgb v, vd_cc_valid := vd_cc_valid v, vd_cc_border := vd_cc_border v, vd_snap_gen := vd_snap_gen v\<rparr>)"

definition video_attach :: "video_state \<Rightarrow> bool \<Rightarrow> (nat \<Rightarrow> rgb) \<Rightarrow> nat \<Rightarrow> nat \<Rightarrow> video_state" where
  "video_attach v ok fb w h = v\<lparr>vd_attached := ok, vd_fb := fb, vd_fb_w := w, vd_fb_h := h\<rparr>"

definition video_peek :: "video_state \<Rightarrow> u8 \<times> u32 \<times> int" where
  "video_peek v = (0, vd_frames v, vd_beam_row v)"

subsection \<open>The batch renderer\<close>

definition batch_open :: "bool \<Rightarrow> ga_state \<Rightarrow> video_state \<Rightarrow> video_state" where
  "batch_open cc_on g v =
    (if cc_on then v\<lparr>vd_cc_valid := (\<lambda>_ _. False), vd_cc_border := replicate 16 (vid_hw_rgb (ga_ink g 16))\<rparr> else v)"

definition batch_cell ::
    "bool \<Rightarrow> nat \<Rightarrow> asic_state option \<Rightarrow> ga_state \<Rightarrow> (u16 \<Rightarrow> u8) \<Rightarrow> CrtcCharView \<Rightarrow> video_state \<Rightarrow> video_state" where
  "batch_cell cc_on char_w asic g ram view v0 =
    (let v = beam_edges asic (VSYNC_RISE \<in> set (vw_edges view)) (HSYNC_RISE \<in> set (vw_edges view))
               (HSYNC_FALL \<in> set (vw_edges view)) v0;
         active = vw_dispen view; x0 = vd_beam_col v * int char_w;
         byte0 = (if active then ram (vid_byte_addr (vw_ma view) (vw_ra view) 0) else 0);
         byte1 = (if active then ram (vid_byte_addr (vw_ma view) (vw_ra view) 1) else 0);
         u = (if \<not> cell_visible (vw_hsync view) (vw_vsync view) v then v
              else if vd_plus_active v then
                render_cell_plus asic g (vw_mode view) active byte1 x0 char_w (if active then v\<lparr>vd_fetch0 := byte0\<rparr> else v)
              else if cc_on then
                (let at = nat (vd_beam_row v) * vd_fb_w v + nat (vd_beam_col v) * 16; m = vw_mode view AND 3;
                     fill = (\<lambda>byte. fill_slot m byte (True, paint_byte_classic g m byte (8 div lut_count m))) in
                 if active then copy_slot m byte1 (at + 8) (fill byte1 (copy_slot m byte0 at (fill byte0 v)))
                 else v\<lparr>vd_fb := put_run at (vd_cc_border v) (vd_fb v)\<rparr>)
              else render_cell_classic g (vw_mode view) active byte0 byte1 x0 char_w v)
     in u\<lparr>vd_beam_col := vd_beam_col u + 1\<rparr>)"

definition video_batch_cells ::
    "asic_state option \<Rightarrow> ga_state \<Rightarrow> (u16 \<Rightarrow> u8) \<Rightarrow> CrtcCharView list \<Rightarrow> video_state \<Rightarrow> video_state" where
  "video_batch_cells asic g ram views v =
    (if \<not> vd_attached v \<or> views = [] then v
     else
       (let char_w = char_width v; cc_on = (\<not> vd_plus_active v \<and> char_w = 16);
            w = fold (batch_cell cc_on char_w asic g ram) views (batch_open cc_on g v)
        in w\<lparr>vd_fetch0 := ram (vid_byte_addr (vw_ma (last views)) (vw_ra (last views)) 0)\<rparr>))"

definition video_batch_set_sync :: "bool \<Rightarrow> bool \<Rightarrow> video_state \<Rightarrow> video_state" where
  "video_batch_set_sync hsync vsync v = v\<lparr>vd_hsync_prev := hsync, vd_vsync_prev := vsync\<rparr>"

subsection \<open>Interfaces provided\<close>

interpretation video_drv: bus_driver "video_tick asic g" "video_next asic g" "\<lambda>_ _. []" for asic g
  by unfold_locales (simp add: video_tick_def drive_def)

definition video_wiring :: "video_state \<Rightarrow> bool \<times> (nat \<Rightarrow> rgb) \<times> nat \<times> nat" where
  "video_wiring v = (vd_attached v, vd_fb v, vd_fb_w v, vd_fb_h v)"

interpretation video_blob: state_blob video_save video_load "\<lambda>v. snd (video_save v)" video_wiring
  by unfold_locales (simp_all add: video_save_def video_load_def video_wiring_def)

end
