(* ===== verification/Video_Batch.thy ===== *)
theory Video_Batch
  imports Video
begin

text \<open>
  The two execution shapes of the video device paint the same picture: the caches are transparent, and a batch
  of character views leaves what the per-cycle device leaves after the cycles of those characters.
\<close>

subsection \<open>What is observable\<close>

text \<open>\<open>core\<close> forgets the byte caches, the fetch latch and the two sync shadows.\<close>

definition core :: "video_state \<Rightarrow> video_state" where
  "core v = v\<lparr>vd_cc_rgb := (\<lambda>_ _. []), vd_cc_valid := (\<lambda>_ _. False), vd_cc_border := [], vd_fetch0 := 0,
     vd_hsync_prev := False, vd_vsync_prev := False\<rparr>"

lemma seen_fields [simp]:
  "vd_attached (core v) = vd_attached v" "vd_fb (core v) = vd_fb v" "vd_fb_w (core v) = vd_fb_w v" "vd_fb_h (core v) = vd_fb_h v"
  "vd_snap_gen (core v) = vd_snap_gen v" "vd_beam_col (core v) = vd_beam_col v" "vd_beam_row (core v) = vd_beam_row v"
  "vd_frames (core v) = vd_frames v" "vd_plus_active (core v) = vd_plus_active v" "vd_disp_char (core v) = vd_disp_char v"
  "vd_first_active_row (core v) = vd_first_active_row v" "vd_pal_set (core v) = vd_pal_set v" "vd_pal_r (core v) = vd_pal_r v"
  "vd_pal_g (core v) = vd_pal_g v" "vd_pal_b (core v) = vd_pal_b v" "vd_hscroll (core v) = vd_hscroll v"
  "vd_prev_pen (core v) = vd_prev_pen v" "vd_lc (core v) = vd_lc v" "vd_line_rgb (core v) = vd_line_rgb v"
  "vd_spr_x (core v) = vd_spr_x v" "vd_spr_y (core v) = vd_spr_y v" "vd_spr_mx (core v) = vd_spr_mx v" "vd_spr_my (core v) = vd_spr_my v"
  by (simp_all add: core_def)

lemma core_idem [simp]: "core (core v) = core v"
  by (simp add: core_def)

lemma core_updates [simp]:
  "core (v\<lparr>vd_cc_rgb := x1\<rparr>) = core v" "core (v\<lparr>vd_cc_valid := x2\<rparr>) = core v" "core (v\<lparr>vd_cc_border := x3\<rparr>) = core v"
  "core (v\<lparr>vd_fetch0 := x4\<rparr>) = core v" "core (v\<lparr>vd_hsync_prev := x5\<rparr>) = core v" "core (v\<lparr>vd_vsync_prev := x5\<rparr>) = core v"
  by (cases v, simp add: core_def)+

text \<open>Writing an observable field commutes with \<open>core\<close>.\<close>

lemma core_write:
  "core (v\<lparr>vd_fb := a\<rparr>) = (core v)\<lparr>vd_fb := a\<rparr>" "core (v\<lparr>vd_beam_col := b\<rparr>) = (core v)\<lparr>vd_beam_col := b\<rparr>"
  "core (v\<lparr>vd_beam_row := b\<rparr>) = (core v)\<lparr>vd_beam_row := b\<rparr>" "core (v\<lparr>vd_disp_char := b\<rparr>) = (core v)\<lparr>vd_disp_char := b\<rparr>"
  "core (v\<lparr>vd_first_active_row := b\<rparr>) = (core v)\<lparr>vd_first_active_row := b\<rparr>" "core (v\<lparr>vd_prev_pen := c\<rparr>) = (core v)\<lparr>vd_prev_pen := c\<rparr>"
  "core (v\<lparr>vd_frames := d\<rparr>) = (core v)\<lparr>vd_frames := d\<rparr>" "core (v\<lparr>vd_plus_active := e\<rparr>) = (core v)\<lparr>vd_plus_active := e\<rparr>"
  "core (v\<lparr>vd_lc := f\<rparr>) = (core v)\<lparr>vd_lc := f\<rparr>" "core (v\<lparr>vd_snap_gen := g\<rparr>) = (core v)\<lparr>vd_snap_gen := g\<rparr>"
  by (cases v, simp add: core_def)+

text \<open>The helpers that only look at observable fields.\<close>

lemma core_reads [simp]:
  "plus_index_rgb (core v) g = plus_index_rgb v g" "paint_index (core v) g = paint_index v g" "cell_at (core v) = cell_at v"
  "cell_candidates (core v) = cell_candidates v" "background_pen (core v) = background_pen v" "char_width (core v) = char_width v"
  "cell_visible h s (core v) = cell_visible h s v" "line_candidate (core v) = line_candidate v"
  "paint_byte_plus (core v) = paint_byte_plus v"
  by (simp_all add: fun_eq_iff plus_index_rgb_def paint_index_def cell_at_def cell_candidates_def background_pen_def char_width_def
    cell_visible_def line_candidate_def paint_byte_plus_def Let_def)

lemma core_cell_pixel [simp]: "cell_pixel asic (core v) g = cell_pixel asic v g"
  by (simp add: fun_eq_iff cell_pixel_def split: option.split)

subsection \<open>The beam\<close>

lemma core_plus_cull: "core (plus_cull v) = plus_cull (core v)"
  by (simp add: plus_cull_def core_write Let_def)

lemma core_plus_reread: "core (plus_reread a v) = core (plus_reread a (core v))"
  by (cases v) (simp add: plus_reread_def core_def Let_def cong: if_cong)

lemma core_plus_refresh: "core (plus_refresh_line asic v) = core (plus_refresh_line asic (core v))"
  using core_plus_reread [of _ "v\<lparr>vd_plus_active := True\<rparr>"]
  by (auto simp: plus_refresh_line_def Let_def core_write core_plus_cull split: option.split)

lemma core_beam_edges: "core (beam_edges asic a b c v) = core (beam_edges asic a b c (core v))"
proof -
  have r: "core (plus_refresh_line asic u) = core (plus_refresh_line asic w)" if "core u = core w" for u w
    using core_plus_refresh [of asic u] core_plus_refresh [of asic w] that by simp
  show ?thesis
    unfolding beam_edges_def Let_def by (auto intro!: r simp: core_write cong: if_cong)
qed

subsection \<open>The caches are transparent\<close>

text \<open>The Plus painter without its cache and with the first byte as an argument.\<close>

definition first_row :: "bool \<Rightarrow> video_state \<Rightarrow> video_state" where
  "first_row dispen v = (if dispen \<and> vd_first_active_row v < 0 then v\<lparr>vd_first_active_row := vd_beam_row v\<rparr> else v)"

definition fast_cell :: "video_state \<Rightarrow> nat \<Rightarrow> bool" where
  "fast_cell v char_w \<longleftrightarrow> vd_hscroll v = 0 \<and> cell_candidates v char_w = [] \<and> char_w = 16"

definition plus_direct ::
    "asic_state option \<Rightarrow> ga_state \<Rightarrow> u8 \<Rightarrow> bool \<Rightarrow> u8 \<Rightarrow> u8 \<Rightarrow> int \<Rightarrow> nat \<Rightarrow> video_state \<Rightarrow> video_state" where
  "plus_direct asic g mode dispen byte0 byte1 x0 char_w v =
    (let at = cell_at v x0; m = mode AND 3; cell_pen = lut_cols m byte0 @ lut_cols m byte1 in
     if \<not> dispen then v\<lparr>vd_fb := put_run at (replicate char_w (paint_index v g 16)) (vd_fb v)\<rparr>
     else if fast_cell v char_w then
       v\<lparr>vd_fb := put_run (at + 8) (snd (paint_byte_plus v g m byte1)) (put_run at (snd (paint_byte_plus v g m byte0)) (vd_fb v)),
         vd_disp_char := vd_disp_char v + 1\<rparr>
     else
       v\<lparr>vd_fb := put_run at (map (cell_pixel asic v g cell_pen (cell_candidates v char_w)) [0..<char_w]) (vd_fb v),
         vd_prev_pen := (\<lambda>k. if k < 16 then cell_pen ! k else vd_prev_pen v k), vd_disp_char := vd_disp_char v + 1\<rparr>)"

definition plus_uncached ::
    "asic_state option \<Rightarrow> ga_state \<Rightarrow> u8 \<Rightarrow> bool \<Rightarrow> u8 \<Rightarrow> u8 \<Rightarrow> int \<Rightarrow> nat \<Rightarrow> video_state \<Rightarrow> video_state" where
  "plus_uncached asic g mode dispen byte0 byte1 x0 char_w v =
    plus_direct asic g mode dispen byte0 byte1 x0 char_w (first_row dispen v)"

definition cc_plus :: "video_state \<Rightarrow> bool" where
  "cc_plus v \<longleftrightarrow> (\<forall>m b. vd_cc_valid v m b \<longrightarrow> list_all (\<lambda>p. vd_pal_set v (unat p)) (lut_cols m b) \<and>
    vd_cc_rgb v m b = map (\<lambda>p. vd_line_rgb v (unat p)) (lut_cols m b))"

lemma pure_paint:
  "list_all (\<lambda>p. vd_pal_set v (unat p)) (lut_cols m b) \<Longrightarrow>
    paint_byte_plus v g m b = (True, map (\<lambda>p. vd_line_rgb v (unat p)) (lut_cols m b))"
  by (simp add: paint_byte_plus_def paint_index_def list_all_iff)

lemma fill_slot_plus:
  fixes m b :: u8 and g :: ga_state
  assumes "cc_plus v"
  defines "u \<equiv> fill_slot m b (paint_byte_plus v g m b) v"
  shows "vd_cc_rgb u m b = snd (paint_byte_plus v g m b)" "cc_plus u" "core u = core v" "vd_fetch0 u = vd_fetch0 v"
proof -
  have p: "fst (paint_byte_plus v g m b) \<longleftrightarrow> list_all (\<lambda>p. vd_pal_set v (unat p)) (lut_cols m b)" by (simp add: paint_byte_plus_def)
  show "core u = core v" "vd_fetch0 u = vd_fetch0 v" by (simp_all add: u_def fill_slot_def Let_def)
  show "vd_cc_rgb u m b = snd (paint_byte_plus v g m b)"
    using assms(1) pure_paint [of v m b g] by (auto simp: u_def fill_slot_def cc_plus_def Let_def)
  show "cc_plus u"
    using assms(1) p pure_paint [of v m b g] by (auto simp: u_def fill_slot_def cc_plus_def Let_def split: if_splits)
qed

lemma core_eqD:
  assumes "core u = core v"
  shows "vd_fb u = vd_fb v" "vd_disp_char u = vd_disp_char v"
  using assms by (metis seen_fields(2), metis seen_fields(10))

lemma cc_plus_frame:
  "cc_plus (v\<lparr>vd_fb := a\<rparr>) = cc_plus v" "cc_plus (v\<lparr>vd_disp_char := b\<rparr>) = cc_plus v" "cc_plus (v\<lparr>vd_prev_pen := c\<rparr>) = cc_plus v"
  "cc_plus (v\<lparr>vd_first_active_row := b\<rparr>) = cc_plus v" "cc_plus (v\<lparr>vd_fetch0 := e\<rparr>) = cc_plus v"
  "cc_plus (v\<lparr>vd_beam_col := b\<rparr>) = cc_plus v" "cc_plus (v\<lparr>vd_hsync_prev := f\<rparr>) = cc_plus v" "cc_plus (v\<lparr>vd_vsync_prev := f\<rparr>) = cc_plus v"
  "cc_plus (v\<lparr>vd_lc := h\<rparr>) = cc_plus v" "cc_plus (v\<lparr>vd_beam_row := b\<rparr>) = cc_plus v" "cc_plus (v\<lparr>vd_frames := k\<rparr>) = cc_plus v"
  "cc_plus (v\<lparr>vd_plus_active := f\<rparr>) = cc_plus v"
  by (simp_all add: cc_plus_def)

text \<open>The two cached byte paints of the fast path are the two direct ones.\<close>

lemma cached_pair:
  fixes m b0 b1 :: u8 and g :: ga_state and at :: nat
  assumes "cc_plus v"
  defines "u \<equiv> copy_slot m b0 at (fill_slot m b0 (paint_byte_plus v g m b0) v)"
  defines "w \<equiv> copy_slot m b1 (at + 8) (fill_slot m b1 (paint_byte_plus u g m b1) u)"
  shows "core w = (core v)\<lparr>vd_fb := put_run (at + 8) (snd (paint_byte_plus v g m b1)) (put_run at (snd (paint_byte_plus v g m b0)) (vd_fb v))\<rparr>"
    "cc_plus w" "vd_fetch0 w = vd_fetch0 v"
proof -
  note a = fill_slot_plus [OF assms(1), of m b0 g]
  have u: "core u = (core v)\<lparr>vd_fb := put_run at (snd (paint_byte_plus v g m b0)) (vd_fb v)\<rparr>" "cc_plus u" "vd_fetch0 u = vd_fetch0 v"
    "vd_fb u = put_run at (snd (paint_byte_plus v g m b0)) (vd_fb v)"
    using a core_eqD(1) [OF a(3)] by (simp_all add: u_def copy_slot_def core_write cc_plus_frame)
  have pe: "paint_byte_plus u = paint_byte_plus v"
  proof -
    have "paint_byte_plus (core u) = paint_byte_plus (core v)"
      unfolding u(1) by (simp add: fun_eq_iff paint_byte_plus_def paint_index_def plus_index_rgb_def)
    then show ?thesis by simp
  qed
  note b = fill_slot_plus [OF u(2), of m b1 g]
  show "core w = (core v)\<lparr>vd_fb := put_run (at + 8) (snd (paint_byte_plus v g m b1)) (put_run at (snd (paint_byte_plus v g m b0)) (vd_fb v))\<rparr>"
    using b core_eqD(1) [OF b(3)] by (simp add: w_def copy_slot_def core_write u pe)
  show "cc_plus w" "vd_fetch0 w = vd_fetch0 v" using b u by (simp_all add: w_def copy_slot_def cc_plus_frame)
qed

lemma plus_cache_transparent:
  fixes mode b1 :: u8 and g :: ga_state and x0 :: int and char_w :: nat and asic :: "asic_state option" and dispen :: bool
  assumes "cc_plus v"
  defines "w \<equiv> render_cell_plus asic g mode dispen b1 x0 char_w v"
  shows "core w = core (plus_uncached asic g mode dispen (vd_fetch0 v) b1 x0 char_w v)" "cc_plus w"
proof -
  define r where "r = first_row dispen v"
  have r: "cc_plus r" "vd_fetch0 r = vd_fetch0 v" using assms(1) by (simp_all add: r_def first_row_def cc_plus_frame)
  note p = cached_pair [OF r(1), of "mode AND 3" b1 "cell_at r x0" "vd_fetch0 v" g]
  note d = w_def render_cell_plus_def plus_uncached_def plus_direct_def Let_def first_row_def [symmetric] r_def [symmetric] r(2)
    fast_cell_def
  consider "\<not> dispen" | "dispen" "fast_cell r char_w" | "dispen" "\<not> fast_cell r char_w" by blast
  then have "core w = core (plus_uncached asic g mode dispen (vd_fetch0 v) b1 x0 char_w v) \<and> cc_plus w"
  proof cases
    case 1
    then show ?thesis unfolding d using r(1) by (simp add: cc_plus_frame)
  next
    case 2
    define w2 where "w2 = copy_slot (mode AND 3) b1 (cell_at r x0 + 8)
      (fill_slot (mode AND 3) b1 (paint_byte_plus (copy_slot (mode AND 3) (vd_fetch0 v) (cell_at r x0)
        (fill_slot (mode AND 3) (vd_fetch0 v) (paint_byte_plus r g (mode AND 3) (vd_fetch0 v)) r)) g (mode AND 3) b1)
        (copy_slot (mode AND 3) (vd_fetch0 v) (cell_at r x0)
          (fill_slot (mode AND 3) (vd_fetch0 v) (paint_byte_plus r g (mode AND 3) (vd_fetch0 v)) r)))"
    note p = p [folded w2_def]
    have c: "vd_hscroll r = 0" "cell_candidates r char_w = []" "char_w = 16"
      using 2(2) unfolding fast_cell_def by blast+
    note c = c(1,3) c(2) [unfolded c(3)]
    have dc: "vd_disp_char w2 = vd_disp_char r" using arg_cong [OF p(1), of vd_disp_char] by simp
    have w: "w = w2\<lparr>vd_disp_char := vd_disp_char w2 + 1\<rparr>"
      unfolding d w2_def by (simp only: 2(1) c if_True if_False not_True_eq_False simp_thms)
    have "plus_uncached asic g mode dispen (vd_fetch0 v) b1 x0 char_w v =
      r\<lparr>vd_fb := put_run (cell_at r x0 + 8) (snd (paint_byte_plus r g (mode AND 3) b1))
          (put_run (cell_at r x0) (snd (paint_byte_plus r g (mode AND 3) (vd_fetch0 v))) (vd_fb r)),
        vd_disp_char := vd_disp_char r + 1\<rparr>"
      unfolding d by (simp only: 2(1) c if_True if_False not_True_eq_False simp_thms)
    then show ?thesis using p(1,2) dc by (simp only: w core_write cc_plus_frame)
  next
    case 3
    then show ?thesis unfolding d using r(1) by (auto simp: cc_plus_frame)
  qed
  then show "core w = core (plus_uncached asic g mode dispen (vd_fetch0 v) b1 x0 char_w v)" "cc_plus w" by simp_all
qed

lemma core_first_row: "core (first_row d v) = first_row d (core v)"
  by (simp add: first_row_def core_write)

lemma core_plus_direct:
  "core (plus_direct asic g mode dispen b0 b1 x0 char_w v) = plus_direct asic g mode dispen b0 b1 x0 char_w (core v)"
proof -
  have f: "fast_cell (core v) char_w = fast_cell v char_w" by (simp add: fast_cell_def)
  consider "\<not> dispen" | "dispen" "fast_cell v char_w" | "dispen" "\<not> fast_cell v char_w" by blast
  then show ?thesis
    by cases (simp_all only: plus_direct_def Let_def f if_True if_False not_True_eq_False not_False_eq_True core_write seen_fields core_reads
      core_cell_pixel)
qed

lemma core_plus_uncached:
  "core (plus_uncached asic g mode dispen b0 b1 x0 char_w v) = plus_uncached asic g mode dispen b0 b1 x0 char_w (core v)"
  by (simp add: plus_uncached_def core_plus_direct core_first_row)

subsection \<open>One character\<close>

text \<open>A whole cell as it ends up in the frame buffer, and the step of the beam behind it.\<close>

definition cell_paint ::
    "asic_state option \<Rightarrow> ga_state \<Rightarrow> u8 \<Rightarrow> bool \<Rightarrow> bool \<Rightarrow> bool \<Rightarrow> u8 \<Rightarrow> u8 \<Rightarrow> video_state \<Rightarrow> video_state" where
  "cell_paint asic g mode hsync vsync dispen b0 b1 v =
    (let x0 = vd_beam_col v * int (char_width v);
         u = (if \<not> cell_visible hsync vsync v then v
              else if vd_plus_active v then plus_uncached asic g mode dispen b0 b1 x0 (char_width v) v
              else render_cell_classic g mode dispen b0 b1 x0 (char_width v) v)
     in u\<lparr>vd_beam_col := vd_beam_col v + 1\<rparr>)"

lemma core_classic: "core (render_cell_classic g mode d b0 b1 x0 cw v) = render_cell_classic g mode d b0 b1 x0 cw (core v)"
  by (simp add: render_cell_classic_def core_write Let_def)

lemma core_cell_paint:
  "core (cell_paint asic g mode h s d b0 b1 v) = cell_paint asic g mode h s d b0 b1 (core v)"
proof -
  consider "\<not> cell_visible h s v" | "cell_visible h s v" "vd_plus_active v" | "cell_visible h s v" "\<not> vd_plus_active v" by blast
  then show ?thesis
    by cases (simp_all only: cell_paint_def Let_def if_True if_False not_True_eq_False not_False_eq_True seen_fields core_reads core_write
      core_classic core_plus_uncached)
qed

lemma plus_beam_col [simp]:
  "vd_beam_col (fill_slot m b p v) = vd_beam_col v" "vd_beam_col (copy_slot m b at v) = vd_beam_col v"
  "vd_plus_active (fill_slot m b p v) = vd_plus_active v" "vd_plus_active (copy_slot m b at v) = vd_plus_active v"
  "vd_fb_w (fill_slot m b p v) = vd_fb_w v" "vd_fb_w (copy_slot m b at v) = vd_fb_w v"
  "vd_attached (fill_slot m b p v) = vd_attached v" "vd_attached (copy_slot m b at v) = vd_attached v"
  "vd_hsync_prev (fill_slot m b p v) = vd_hsync_prev v" "vd_hsync_prev (copy_slot m b at v) = vd_hsync_prev v"
  "vd_vsync_prev (fill_slot m b p v) = vd_vsync_prev v" "vd_vsync_prev (copy_slot m b at v) = vd_vsync_prev v"
  "vd_cc_border (fill_slot m b p v) = vd_cc_border v" "vd_cc_border (copy_slot m b at v) = vd_cc_border v"
  "vd_fetch0 (fill_slot m b p v) = vd_fetch0 v" "vd_fetch0 (copy_slot m b at v) = vd_fetch0 v"
  by (simp_all add: fill_slot_def copy_slot_def Let_def)

lemma render_plus_frame [simp]:
  "vd_beam_col (render_cell_plus asic g mode d b1 x0 cw v) = vd_beam_col v"
  "vd_plus_active (render_cell_plus asic g mode d b1 x0 cw v) = vd_plus_active v"
  "vd_fb_w (render_cell_plus asic g mode d b1 x0 cw v) = vd_fb_w v"
  "vd_attached (render_cell_plus asic g mode d b1 x0 cw v) = vd_attached v"
  "vd_hsync_prev (render_cell_plus asic g mode d b1 x0 cw v) = vd_hsync_prev v"
  "vd_vsync_prev (render_cell_plus asic g mode d b1 x0 cw v) = vd_vsync_prev v"
  "vd_cc_border (render_cell_plus asic g mode d b1 x0 cw v) = vd_cc_border v"
  "vd_fetch0 (render_cell_plus asic g mode d b1 x0 cw v) = vd_fetch0 v"
  by (simp_all add: render_cell_plus_def Let_def)

lemma render_classic_frame [simp]:
  "vd_beam_col (render_cell_classic g mode d b0 b1 x0 cw v) = vd_beam_col v"
  "vd_plus_active (render_cell_classic g mode d b0 b1 x0 cw v) = vd_plus_active v"
  "vd_fb_w (render_cell_classic g mode d b0 b1 x0 cw v) = vd_fb_w v"
  "vd_attached (render_cell_classic g mode d b0 b1 x0 cw v) = vd_attached v"
  "vd_hsync_prev (render_cell_classic g mode d b0 b1 x0 cw v) = vd_hsync_prev v"
  "vd_vsync_prev (render_cell_classic g mode d b0 b1 x0 cw v) = vd_vsync_prev v"
  "vd_cc_valid (render_cell_classic g mode d b0 b1 x0 cw v) = vd_cc_valid v"
  "vd_cc_border (render_cell_classic g mode d b0 b1 x0 cw v) = vd_cc_border v"
  "vd_cc_rgb (render_cell_classic g mode d b0 b1 x0 cw v) = vd_cc_rgb v"
  "vd_fetch0 (render_cell_classic g mode d b0 b1 x0 cw v) = vd_fetch0 v"
  by (simp_all add: render_cell_classic_def Let_def)

subsection \<open>The per-cycle device over one character\<close>

definition plus_ok :: "video_state \<Rightarrow> bool" where
  "plus_ok v \<longleftrightarrow> (vd_plus_active v \<longrightarrow> cc_plus v)"

text \<open>The sixteen master cycles of a character: the phase counts up, the video lines stand still, and the two
  display bytes are on the RAM bus in phases 13 and 15. Everything else on the bus is free.\<close>

definition char_cycles :: "(u16 \<Rightarrow> u8) \<Rightarrow> CrtcCharView \<Rightarrow> Bus list \<Rightarrow> bool" where
  "char_cycles ram view bs \<longleftrightarrow> length bs = 16 \<and>
    (\<forall>p < 16. clk_phase (b_clk (bs ! p)) = of_nat p \<and> vid_hsync (b_vid (bs ! p)) = vw_hsync view \<and>
       vid_vsync (b_vid (bs ! p)) = vw_vsync view \<and> vid_dispen (b_vid (bs ! p)) = vw_dispen view) \<and>
    ram_data (b_ram (bs ! 13)) = ram (vid_byte_addr (vw_ma view) (vw_ra view) 0) \<and>
    ram_data (b_ram (bs ! 15)) = ram (vid_byte_addr (vw_ma view) (vw_ra view) 1)"

definition video_run :: "asic_state option \<Rightarrow> ga_state \<Rightarrow> Bus list \<Rightarrow> video_state \<Rightarrow> video_state" where
  "video_run asic g bs v = fold (\<lambda>i v. video_next asic g v i) bs v"

lemma video_run_append [simp]: "video_run asic g (bs @ cs) v = video_run asic g cs (video_run asic g bs v)"
  and video_run_one [simp]: "video_run asic g [i] v = video_next asic g v i"
  and video_run_Nil [simp]: "video_run asic g [] v = v"
  by (simp_all add: video_run_def)

lemma phase_eq: "p < 16 \<Longrightarrow> q < 16 \<Longrightarrow> (of_nat p :: u8) = of_nat q \<longleftrightarrow> p = q"
  by (simp add: word_of_nat_eq_iff take_bit_nat_eq_self)

lemma plus_refresh_frame [simp]:
  "vd_attached (plus_refresh_line asic v) = vd_attached v" "vd_hsync_prev (plus_refresh_line asic v) = vd_hsync_prev v"
  "vd_vsync_prev (plus_refresh_line asic v) = vd_vsync_prev v" "vd_fb_w (plus_refresh_line asic v) = vd_fb_w v"
  "vd_cc_border (plus_refresh_line asic v) = vd_cc_border v" "vd_fetch0 (plus_refresh_line asic v) = vd_fetch0 v"
  by (simp_all add: plus_refresh_line_def plus_cull_def plus_reread_def Let_def split: option.split)

lemma beam_frame [simp]:
  "vd_attached (beam_edges asic a b c v) = vd_attached v" "vd_hsync_prev (beam_edges asic a b c v) = vd_hsync_prev v"
  "vd_vsync_prev (beam_edges asic a b c v) = vd_vsync_prev v" "vd_fb_w (beam_edges asic a b c v) = vd_fb_w v"
  "vd_cc_border (beam_edges asic a b c v) = vd_cc_border v" "vd_fetch0 (beam_edges asic a b c v) = vd_fetch0 v"
  by (simp_all add: beam_edges_def Let_def)

lemma plus_ok_refresh: "plus_ok v \<Longrightarrow> plus_ok (plus_refresh_line asic v)"
  by (auto simp: plus_ok_def plus_refresh_line_def Let_def plus_cull_def cc_plus_frame split: option.split)
    (auto simp: plus_reread_def cc_plus_def Let_def)

lemma plus_ok_beam: "plus_ok v \<Longrightarrow> plus_ok (beam_edges asic a b c v)"
  by (auto simp: beam_edges_def Let_def plus_ok_def cc_plus_frame intro!: plus_ok_refresh [unfolded plus_ok_def, rule_format])

lemma beam_still [simp]: "beam_edges asic False False False v = v"
  by (simp add: beam_edges_def)

lemma video_idle:
  assumes "vd_attached w" "clk_phase (b_clk i) \<noteq> 13" "clk_phase (b_clk i) \<noteq> 15" "vd_hsync_prev w = vid_hsync (b_vid i)"
    "vd_vsync_prev w = vid_vsync (b_vid i)"
  shows "video_next asic g w i = w"
  using assms by (cases w) (simp add: video_next_def Let_def)

lemma render_char_paint:
  assumes "plus_ok w" "vd_fetch0 w = b0"
  shows "core ((render_char asic g i b1 w)\<lparr>vd_beam_col := vd_beam_col (render_char asic g i b1 w) + 1\<rparr>) =
      cell_paint asic g (ga_mode g) (vid_hsync (b_vid i)) (vid_vsync (b_vid i)) (vid_dispen (b_vid i)) b0 b1 (core w)"
    and "plus_ok (render_char asic g i b1 w)"
proof -
  consider "\<not> cell_visible (vid_hsync (b_vid i)) (vid_vsync (b_vid i)) w"
    | "cell_visible (vid_hsync (b_vid i)) (vid_vsync (b_vid i)) w" "vd_plus_active w"
    | "cell_visible (vid_hsync (b_vid i)) (vid_vsync (b_vid i)) w" "\<not> vd_plus_active w" by blast
  then have "core ((render_char asic g i b1 w)\<lparr>vd_beam_col := vd_beam_col (render_char asic g i b1 w) + 1\<rparr>) =
      core (cell_paint asic g (ga_mode g) (vid_hsync (b_vid i)) (vid_vsync (b_vid i)) (vid_dispen (b_vid i)) b0 b1 w) \<and>
    plus_ok (render_char asic g i b1 w)"
  proof cases
    case 1
    then show ?thesis using assms by (simp add: render_char_def cell_paint_def Let_def)
  next
    case 2
    then have "cc_plus w" using assms(1) by (simp add: plus_ok_def)
    from plus_cache_transparent [OF this] show ?thesis
      using 2 assms(2) by (simp add: render_char_def cell_paint_def Let_def core_write plus_ok_def)
  next
    case 3
    then show ?thesis using assms(2) by (simp add: render_char_def cell_paint_def Let_def plus_ok_def)
  qed
  then show "core ((render_char asic g i b1 w)\<lparr>vd_beam_col := vd_beam_col (render_char asic g i b1 w) + 1\<rparr>) =
      cell_paint asic g (ga_mode g) (vid_hsync (b_vid i)) (vid_vsync (b_vid i)) (vid_dispen (b_vid i)) b0 b1 (core w)"
    "plus_ok (render_char asic g i b1 w)"
    by (simp_all add: core_cell_paint)
qed

lemma render_char_frame [simp]:
  "vd_attached (render_char asic g i b1 w) = vd_attached w" "vd_hsync_prev (render_char asic g i b1 w) = vd_hsync_prev w"
  "vd_vsync_prev (render_char asic g i b1 w) = vd_vsync_prev w" "vd_fetch0 (render_char asic g i b1 w) = vd_fetch0 w"
  by (simp_all add: render_char_def Let_def)

lemma plus_ok_frame [simp]:
  "plus_ok (v\<lparr>vd_fetch0 := e\<rparr>) = plus_ok v" "plus_ok (v\<lparr>vd_beam_col := b\<rparr>) = plus_ok v"
  "plus_ok (v\<lparr>vd_hsync_prev := f\<rparr>) = plus_ok v" "plus_ok (v\<lparr>vd_vsync_prev := f\<rparr>) = plus_ok v"
  by (simp_all add: plus_ok_def cc_plus_frame)

lemma char_run:
  fixes asic :: "asic_state option" and g :: ga_state
  assumes "vd_attached v" "plus_ok v" "char_cycles ram x bs"
  defines "w \<equiv> video_run asic g bs v"
    and "e \<equiv> beam_edges asic (vw_vsync x \<and> \<not> vd_vsync_prev v) (vw_hsync x \<and> \<not> vd_hsync_prev v) (\<not> vw_hsync x \<and> vd_hsync_prev v) (core v)"
  shows "core w = cell_paint asic g (ga_mode g) (vw_hsync x) (vw_vsync x) (vw_dispen x)
      (ram (vid_byte_addr (vw_ma x) (vw_ra x) 0)) (ram (vid_byte_addr (vw_ma x) (vw_ra x) 1)) (core e)"
    and "plus_ok w" "vd_attached w" "vd_hsync_prev w = vw_hsync x" "vd_vsync_prev w = vw_vsync x"
    and "vd_fetch0 w = ram (vid_byte_addr (vw_ma x) (vw_ra x) 0)"
proof -
  have b: "length bs = 16" "\<And>p. p < 16 \<Longrightarrow> clk_phase (b_clk (bs ! p)) = of_nat p"
    "\<And>p. p < 16 \<Longrightarrow> vid_hsync (b_vid (bs ! p)) = vw_hsync x" "\<And>p. p < 16 \<Longrightarrow> vid_vsync (b_vid (bs ! p)) = vw_vsync x"
    "vid_dispen (b_vid (bs ! 15)) = vw_dispen x"
    using assms(3) by (simp_all add: char_cycles_def)
  define v1 where "v1 = beam_edges asic (vw_vsync x \<and> \<not> vd_vsync_prev v) (vw_hsync x \<and> \<not> vd_hsync_prev v)
      (\<not> vw_hsync x \<and> vd_hsync_prev v) (v\<lparr>vd_hsync_prev := vw_hsync x, vd_vsync_prev := vw_vsync x\<rparr>)"
  have ph: "clk_phase (b_clk (bs ! p)) = 13 \<longleftrightarrow> p = 13" "clk_phase (b_clk (bs ! p)) = 15 \<longleftrightarrow> p = 15" if "p < 16" for p
    using b(2) [OF that] phase_eq [OF that, of 13] phase_eq [OF that, of 15] by simp_all
  have f: "vd_attached v1" "vd_hsync_prev v1 = vw_hsync x" "vd_vsync_prev v1 = vw_vsync x" "plus_ok v1"
    using assms(1,2) by (simp_all add: v1_def plus_ok_beam)
  have first: "video_next asic g v (bs ! 0) = v1"
    using assms(1) b(3,4) [of 0] ph [of 0] by (simp add: video_next_def Let_def v1_def)
  have "video_run asic g (take k bs) v = v1" if "0 < k" "k \<le> 13" for k
    using that
  proof (induction k)
    case (Suc k)
    have t: "take (Suc k) bs = take k bs @ [bs ! k]" using Suc.prems b(1) by (simp add: take_Suc_conv_app_nth)
    show ?case
    proof (cases "k = 0")
      case True
      then show ?thesis unfolding t using first by simp
    next
      case False
      then have "video_next asic g v1 (bs ! k) = v1"
        using Suc.prems b(3,4) [of k] ph [of k] f by (intro video_idle) simp_all
      then show ?thesis using Suc False by (simp add: t)
    qed
  qed simp
  then have r13: "video_run asic g (take 13 bs) v = v1" by simp
  have "drop 13 bs = [bs ! 13, bs ! 14, bs ! 15]"
    using b(1) Cons_nth_drop_Suc [of 13 bs] Cons_nth_drop_Suc [of 14 bs] Cons_nth_drop_Suc [of 15 bs] by simp
  then have bs: "bs = take 13 bs @ [bs ! 13] @ [bs ! 14] @ [bs ! 15]" using append_take_drop_id [of 13 bs] by simp
  define b0 b1 where "b0 = ram (vid_byte_addr (vw_ma x) (vw_ra x) 0)" and "b1 = ram (vid_byte_addr (vw_ma x) (vw_ra x) 1)"
  have d: "ram_data (b_ram (bs ! 13)) = b0" "ram_data (b_ram (bs ! 15)) = b1"
    using assms(3) by (simp_all add: char_cycles_def b0_def b1_def)
  define v2 where "v2 = v1\<lparr>vd_fetch0 := b0\<rparr>"
  have n13: "video_next asic g v1 (bs ! 13) = v2"
    using f b(3,4) [of 13] ph [of 13] d by (cases v1) (simp add: video_next_def Let_def v2_def)
  have n14: "video_next asic g v2 (bs ! 14) = v2"
    using f b(3,4) [of 14] ph [of 14] by (intro video_idle) (simp_all add: v2_def)
  have f2: "vd_attached v2" "vd_hsync_prev v2 = vw_hsync x" "vd_vsync_prev v2 = vw_vsync x" using f by (simp_all add: v2_def)
  have g2: "v2\<lparr>vd_hsync_prev := vw_hsync x, vd_vsync_prev := vw_vsync x\<rparr> = v2" using f by (cases v2, cases v1) (simp add: v2_def)
  have n15: "video_next asic g v2 (bs ! 15) =
      (render_char asic g (bs ! 15) b1 v2)\<lparr>vd_beam_col := vd_beam_col (render_char asic g (bs ! 15) b1 v2) + 1\<rparr>"
    using f2 b(3,4) [of 15] ph [of 15] d by (simp add: video_next_def Let_def g2)
  have w: "w = (render_char asic g (bs ! 15) b1 v2)\<lparr>vd_beam_col := vd_beam_col (render_char asic g (bs ! 15) b1 v2) + 1\<rparr>"
    unfolding w_def by (subst bs) (simp only: video_run_append video_run_one r13 n13 n14 n15)
  have c: "core v2 = core e" using core_beam_edges [of asic _ _ _ "v\<lparr>vd_hsync_prev := vw_hsync x, vd_vsync_prev := vw_vsync x\<rparr>"]
    by (simp add: v2_def v1_def e_def)
  have ok: "plus_ok v2" "vd_fetch0 v2 = b0" using f by (simp_all add: v2_def)
  show "core w = cell_paint asic g (ga_mode g) (vw_hsync x) (vw_vsync x) (vw_dispen x)
      (ram (vid_byte_addr (vw_ma x) (vw_ra x) 0)) (ram (vid_byte_addr (vw_ma x) (vw_ra x) 1)) (core e)"
    using render_char_paint(1) [OF ok, of asic g "bs ! 15" b1] b(3,4) [of 15] b(5) unfolding w c by (simp add: b0_def b1_def)
  show "plus_ok w" "vd_attached w" "vd_hsync_prev w = vw_hsync x" "vd_vsync_prev w = vw_vsync x"
    "vd_fetch0 w = ram (vid_byte_addr (vw_ma x) (vw_ra x) 0)"
    using render_char_paint(2) [OF ok] f by (simp_all add: w v2_def b0_def)
qed

subsection \<open>The batch over one character\<close>

definition cc_classic :: "ga_state \<Rightarrow> video_state \<Rightarrow> bool" where
  "cc_classic g v \<longleftrightarrow> (\<forall>m b. vd_cc_valid v m b \<longrightarrow> vd_cc_rgb v m b = paint_byte_classic g m b (8 div lut_count m))"

definition batch_ok :: "bool \<Rightarrow> ga_state \<Rightarrow> video_state \<Rightarrow> bool" where
  "batch_ok cc_on g v \<longleftrightarrow> plus_ok v \<and> (cc_on \<longrightarrow> char_width v = 16 \<and> vd_cc_border v = replicate 16 (vid_hw_rgb (ga_ink g 16))) \<and>
    (cc_on \<longrightarrow> \<not> vd_plus_active v \<longrightarrow> cc_classic g v)"

lemma cc_classic_frame:
  "cc_classic g (v\<lparr>vd_fb := a\<rparr>) = cc_classic g v" "cc_classic g (v\<lparr>vd_beam_row := b\<rparr>) = cc_classic g v"
  "cc_classic g (v\<lparr>vd_first_active_row := b\<rparr>) = cc_classic g v" "cc_classic g (v\<lparr>vd_prev_pen := c\<rparr>) = cc_classic g v"
  "cc_classic g (v\<lparr>vd_beam_col := b\<rparr>) = cc_classic g v" "cc_classic g (v\<lparr>vd_disp_char := b\<rparr>) = cc_classic g v"
  "cc_classic g (v\<lparr>vd_frames := d\<rparr>) = cc_classic g v"
  by (simp_all add: cc_classic_def)

lemma fill_slot_classic:
  fixes g :: ga_state and m b :: u8
  assumes "cc_classic g v"
  defines "u \<equiv> fill_slot m b (True, paint_byte_classic g m b (8 div lut_count m)) v"
  shows "vd_cc_rgb u m b = paint_byte_classic g m b (8 div lut_count m)" "cc_classic g u" "core u = core v"
  using assms(1) by (auto simp: u_def fill_slot_def cc_classic_def Let_def)

lemma lut_count_cases: "lut_count (m AND 3) \<in> {2, 4, 8}"
  by (simp add: lut_count_def vid_decode_def)

lemma cell_paint_dark: "cell_paint asic g m h s False b0 b1 = cell_paint asic g m h s False b0' b1'"
  by (simp add: fun_eq_iff cell_paint_def plus_uncached_def plus_direct_def render_cell_classic_def Let_def)

lemma inks_only [simp]:
  "plus_index_rgb v (g\<lparr>ga_mode := k\<rparr>) = plus_index_rgb v g" "paint_index v (g\<lparr>ga_mode := k\<rparr>) = paint_index v g"
  "paint_byte_plus v (g\<lparr>ga_mode := k\<rparr>) = paint_byte_plus v g" "paint_byte_classic (g\<lparr>ga_mode := k\<rparr>) = paint_byte_classic g"
  "cell_pixel asic v (g\<lparr>ga_mode := k\<rparr>) = cell_pixel asic v g"
  by (simp_all add: fun_eq_iff plus_index_rgb_def paint_index_def paint_byte_plus_def paint_byte_classic_def cell_pixel_def)

lemma inks_only_cell [simp]:
  "plus_uncached asic (g\<lparr>ga_mode := k\<rparr>) = plus_uncached asic g" "render_cell_classic (g\<lparr>ga_mode := k\<rparr>) = render_cell_classic g"
  by (simp_all add: fun_eq_iff plus_uncached_def plus_direct_def render_cell_classic_def Let_def cong: if_cong)

lemma cell_paint_inks: "cell_paint asic (g\<lparr>ga_mode := k\<rparr>) = cell_paint asic g"
  by (simp add: fun_eq_iff cell_paint_def Let_def cong: if_cong)

lemma classic_cached:
  fixes b0 b1 m :: u8 and at :: nat and g :: ga_state
  assumes "cc_classic g v" "char_width v = 16" "at = cell_at v x0"
  defines "fill \<equiv> \<lambda>b. fill_slot m b (True, paint_byte_classic g m b (8 div lut_count m))"
  defines "w \<equiv> copy_slot m b1 (at + 8) (fill b1 (copy_slot m b0 at (fill b0 v)))"
  assumes m: "m = mode AND 3"
  shows "core w = core (render_cell_classic g mode True b0 b1 x0 16 v)" "cc_classic g w"
proof -
  note a = fill_slot_classic [OF assms(1), of m b0]
  define u where "u = copy_slot m b0 at (fill b0 v)"
  have u: "core u = (core v)\<lparr>vd_fb := put_run at (paint_byte_classic g m b0 (8 div lut_count m)) (vd_fb v)\<rparr>" "cc_classic g u"
    "vd_fb u = put_run at (paint_byte_classic g m b0 (8 div lut_count m)) (vd_fb v)"
    using a core_eqD(1) [OF a(3)] by (simp_all add: u_def copy_slot_def core_write fill_def) (simp add: cc_classic_def)
  note b = fill_slot_classic [OF u(2), of m b1]
  have n: "lut_count m * (8 div lut_count m) = 8" "16 div (2 * lut_count m) = 8 div lut_count m" "lut_count m \<noteq> 0"
    using lut_count_cases [of mode] by (auto simp: m)
  have we: "w = (fill b1 u)\<lparr>vd_fb := put_run (at + 8) (vd_cc_rgb (fill b1 u) m b1) (vd_fb (fill b1 u))\<rparr>"
    by (simp add: w_def copy_slot_def u_def)
  have c: "core w = (core v)\<lparr>vd_fb := put_run (cell_at v x0 + 8) (paint_byte_classic g m b1 (8 div lut_count m))
      (put_run (cell_at v x0) (paint_byte_classic g m b0 (8 div lut_count m)) (vd_fb v))\<rparr>"
    using b(1) core_eqD(1) [OF b(3)]
    unfolding we by (simp add: core_write fill_def assms(3) b(3) u(1,3))
  show "core w = core (render_cell_classic g mode True b0 b1 x0 16 v)"
    unfolding c by (simp add: core_write render_cell_classic_def Let_def m [symmetric] n)
  show "cc_classic g w" using b(2) unfolding we fill_def by (simp add: cc_classic_frame)
qed

lemma plus_active_reread [simp]: "vd_plus_active (plus_reread a v) = vd_plus_active v"
  by (simp add: plus_reread_def Let_def)

lemma cc_classic_refresh: "(\<not> vd_plus_active u \<Longrightarrow> cc_classic g u) \<Longrightarrow> \<not> vd_plus_active (plus_refresh_line asic u) \<Longrightarrow>
    cc_classic g (plus_refresh_line asic u)"
  by (auto simp: plus_refresh_line_def Let_def cc_classic_def plus_cull_def split: option.splits if_splits)

lemma cc_classic_beam: "(\<not> vd_plus_active v \<Longrightarrow> cc_classic g v) \<Longrightarrow> \<not> vd_plus_active (beam_edges asic a b c v) \<Longrightarrow>
    cc_classic g (beam_edges asic a b c v)"
  by (cases c) (auto simp: beam_edges_def Let_def cc_classic_frame intro!: cc_classic_refresh split: if_splits)

lemma batch_ok_beam: "batch_ok cc_on g v \<Longrightarrow> batch_ok cc_on g (beam_edges asic a b c v)"
  using plus_ok_beam [of v asic a b c] cc_classic_beam [of v g asic a b c]
  by (auto simp: batch_ok_def char_width_def)

lemma batch_ok_step:
  assumes "batch_ok cc_on g v" "plus_ok u" "vd_cc_border u = vd_cc_border v" "vd_fb_w u = vd_fb_w v"
    "cc_on \<Longrightarrow> \<not> vd_plus_active u \<Longrightarrow> cc_classic g u"
  shows "batch_ok cc_on g u"
  using assms by (auto simp: batch_ok_def char_width_def)

lemma batch_char:
  fixes asic :: "asic_state option" and ram :: "u16 \<Rightarrow> u8" and x :: CrtcCharView and g :: ga_state
  assumes "batch_ok cc_on g v"
  defines "w \<equiv> batch_cell cc_on (char_width v) asic g ram x v"
    and "e \<equiv> beam_edges asic (VSYNC_RISE \<in> set (vw_edges x)) (HSYNC_RISE \<in> set (vw_edges x)) (HSYNC_FALL \<in> set (vw_edges x)) v"
  shows "core w = cell_paint asic g (vw_mode x) (vw_hsync x) (vw_vsync x) (vw_dispen x)
      (ram (vid_byte_addr (vw_ma x) (vw_ra x) 0)) (ram (vid_byte_addr (vw_ma x) (vw_ra x) 1)) (core e)"
    and "batch_ok cc_on g w" "char_width w = char_width v"
proof -
  define b0 b1 where "b0 = ram (vid_byte_addr (vw_ma x) (vw_ra x) 0)" and "b1 = ram (vid_byte_addr (vw_ma x) (vw_ra x) 1)"
  define d0 d1 where "d0 = (if vw_dispen x then b0 else 0)" and "d1 = (if vw_dispen x then b1 else 0)"
  have e: "batch_ok cc_on g e" unfolding e_def by (rule batch_ok_beam) (rule assms(1))
  have cw: "char_width e = char_width v" by (simp add: e_def char_width_def)
  have dark: "cell_paint asic g k h s (vw_dispen x) d0 d1 = cell_paint asic g k h s (vw_dispen x) b0 b1" for k h s
    using cell_paint_dark [of asic g k h s d0 d1 b0 b1] by (cases "vw_dispen x") (simp_all add: d0_def d1_def)
  let ?vis = "cell_visible (vw_hsync x) (vw_vsync x) e"
  let ?x0 = "vd_beam_col e * int (char_width e)"
  define u where "u = (if \<not> ?vis then e
      else if vd_plus_active e then
        render_cell_plus asic g (vw_mode x) (vw_dispen x) d1 ?x0 (char_width e) (if vw_dispen x then e\<lparr>vd_fetch0 := d0\<rparr> else e)
      else if cc_on then
        (let at = nat (vd_beam_row e) * vd_fb_w e + nat (vd_beam_col e) * 16; m = vw_mode x AND 3;
             fill = (\<lambda>byte. fill_slot m byte (True, paint_byte_classic g m byte (8 div lut_count m))) in
         if vw_dispen x then copy_slot m d1 (at + 8) (fill d1 (copy_slot m d0 at (fill d0 e)))
         else e\<lparr>vd_fb := put_run at (vd_cc_border e) (vd_fb e)\<rparr>)
      else render_cell_classic g (vw_mode x) (vw_dispen x) d0 d1 ?x0 (char_width e) e)"
  have w: "w = u\<lparr>vd_beam_col := vd_beam_col u + 1\<rparr>"
    unfolding w_def batch_cell_def Let_def e_def [symmetric] cw [symmetric] u_def d0_def d1_def b0_def b1_def ..
  have "core (u\<lparr>vd_beam_col := vd_beam_col u + 1\<rparr>) = core (cell_paint asic g (vw_mode x) (vw_hsync x) (vw_vsync x) (vw_dispen x) d0 d1 e)
    \<and> batch_ok cc_on g u \<and> vd_fb_w u = vd_fb_w e"
  proof -
    consider "\<not> ?vis" | "?vis" "vd_plus_active e" | "?vis" "\<not> vd_plus_active e" "cc_on" | "?vis" "\<not> vd_plus_active e" "\<not> cc_on" by blast
    then show ?thesis
    proof cases
      case 1
      then show ?thesis using e by (simp add: u_def cell_paint_def Let_def)
    next
      case 2
      define e' where "e' = (if vw_dispen x then e\<lparr>vd_fetch0 := d0\<rparr> else e)"
      have c: "core e' = core e" by (simp add: e'_def)
      have ok: "cc_plus e'" using e 2 by (simp add: batch_ok_def plus_ok_def e'_def cc_plus_frame)
      have u: "u = render_cell_plus asic g (vw_mode x) (vw_dispen x) d1 ?x0 (char_width e) e'" using 2 by (simp add: u_def e'_def)
      note p = plus_cache_transparent [OF ok, of asic g "vw_mode x" "vw_dispen x" d1 ?x0 "char_width e", folded u]
      have un: "plus_uncached asic g (vw_mode x) (vw_dispen x) (vd_fetch0 e') d1 ?x0 (char_width e) =
          plus_uncached asic g (vw_mode x) (vw_dispen x) d0 d1 ?x0 (char_width e)"
        by (cases "vw_dispen x") (simp_all add: e'_def fun_eq_iff plus_uncached_def plus_direct_def)
      have "core u = core (plus_uncached asic g (vw_mode x) (vw_dispen x) d0 d1 ?x0 (char_width e) e)"
        using p(1) c by (simp add: un core_plus_uncached)
      moreover have "vd_plus_active u" "vd_beam_col u = vd_beam_col e" "vd_fb_w u = vd_fb_w e" "vd_cc_border u = vd_cc_border e"
        using 2 by (simp_all add: u e'_def)
      ultimately show ?thesis
        using 2 p(2) batch_ok_step [OF e, of u] by (simp add: cell_paint_def Let_def core_write plus_ok_def)
    next
      case 3
      then have k: "cc_classic g e" "char_width e = 16" "vd_cc_border e = replicate 16 (vid_hw_rgb (ga_ink g 16))" "plus_ok e"
        using e by (simp_all add: batch_ok_def)
      have at: "nat (vd_beam_row e) * vd_fb_w e + nat (vd_beam_col e) * 16 = cell_at e (vd_beam_col e * 16)"
        using 3(1) by (simp add: cell_at_def cell_visible_def nat_mult_distrib)
      show ?thesis
      proof (cases "vw_dispen x")
        case True
        define m where "m = vw_mode x AND 3"
        note q = classic_cached [OF k(1,2) at m_def, of d1 d0]
        have u: "u = copy_slot m d1 (nat (vd_beam_row e) * vd_fb_w e + nat (vd_beam_col e) * 16 + 8)
            (fill_slot m d1 (True, paint_byte_classic g m d1 (8 div lut_count m))
              (copy_slot m d0 (nat (vd_beam_row e) * vd_fb_w e + nat (vd_beam_col e) * 16)
                (fill_slot m d0 (True, paint_byte_classic g m d0 (8 div lut_count m)) e)))"
          using 3 True by (simp add: u_def Let_def m_def)
        note q = q [folded u]
        have "\<not> vd_plus_active u" "vd_beam_col u = vd_beam_col e" "vd_fb_w u = vd_fb_w e" "vd_cc_border u = vd_cc_border e"
          using 3 by (simp_all add: u)
        then show ?thesis
          using 3 q k(2,4) True batch_ok_step [OF e, of u] by (simp add: cell_paint_def Let_def core_write plus_ok_def)
      next
        case False
        have u: "u = e\<lparr>vd_fb := put_run (cell_at e (vd_beam_col e * 16)) (vd_cc_border e) (vd_fb e)\<rparr>"
          using 3 False at by (simp add: u_def Let_def)
        have "cc_classic g u" using k(1) by (simp add: u cc_classic_def)
        then show ?thesis
          using 3 k False batch_ok_step [OF e, of u] by (simp add: u cell_paint_def render_cell_classic_def Let_def plus_ok_def)
      qed
    next
      case 4
      then show ?thesis
        using batch_ok_step [OF e, of u] by (simp add: u_def cell_paint_def Let_def plus_ok_def)
    qed
  qed
  then have r: "core w = core (cell_paint asic g (vw_mode x) (vw_hsync x) (vw_vsync x) (vw_dispen x) b0 b1 e)" "batch_ok cc_on g u"
    "vd_fb_w u = vd_fb_w e"
    by (simp_all add: w dark)
  show "core w = cell_paint asic g (vw_mode x) (vw_hsync x) (vw_vsync x) (vw_dispen x)
      (ram (vid_byte_addr (vw_ma x) (vw_ra x) 0)) (ram (vid_byte_addr (vw_ma x) (vw_ra x) 1)) (core e)"
    using r(1) by (simp add: core_cell_paint b0_def b1_def)
  show "batch_ok cc_on g w" using r(2) by (simp add: w batch_ok_def cc_classic_def char_width_def)
  show "char_width w = char_width v" using r(3) by (simp add: w char_width_def e_def)
qed

subsection \<open>A whole batch\<close>

text \<open>The sync edges recorded in a view are the changes of its levels against the character before.\<close>

fun edges_ok :: "bool \<Rightarrow> bool \<Rightarrow> CrtcCharView list \<Rightarrow> bool" where
  "edges_ok h s [] = True"
| "edges_ok h s (x # xs) =
    ((VSYNC_RISE \<in> set (vw_edges x)) = (vw_vsync x \<and> \<not> s) \<and> (HSYNC_RISE \<in> set (vw_edges x)) = (vw_hsync x \<and> \<not> h) \<and>
     (HSYNC_FALL \<in> set (vw_edges x)) = (\<not> vw_hsync x \<and> h) \<and> edges_ok (vw_hsync x) (vw_vsync x) xs)"

lemma view_steps_edges: "edges_ok (cr_in_hsync c) (cr_in_vsync c) (fst (view_steps asic c n))"
proof (induction n arbitrary: c)
  case (Suc n)
  have "edges_ok (cr_in_hsync (crtc_char asic c)) (cr_in_vsync (crtc_char asic c)) (fst (view_steps asic (crtc_char asic c) n))"
    by (rule Suc.IH)
  then show ?case by (auto simp: char_view_def char_edges_def Let_def split_def)
qed simp

text \<open>The Gate Array stamps its mode on every view before the batch is flushed.\<close>

definition stamp_modes :: "CrtcCharView list \<Rightarrow> u8 list \<Rightarrow> CrtcCharView list" where
  "stamp_modes views modes = map2 (\<lambda>x m. x\<lparr>vw_mode := m\<rparr>) views modes"

lemma stamp_modes_simps [simp]: "stamp_modes (x # xs) (m # ms) = x\<lparr>vw_mode := m\<rparr> # stamp_modes xs ms" "stamp_modes [] ms = []"
  "stamp_modes xs [] = []"
  by (simp_all add: stamp_modes_def)

lemma edges_ok_stamp: "edges_ok h s xs \<Longrightarrow> edges_ok h s (stamp_modes xs ms)"
  by (induction h s xs arbitrary: ms rule: edges_ok.induct) (simp, case_tac ms, simp_all)

lemma last_stamp: "length ms = length xs \<Longrightarrow> xs \<noteq> [] \<Longrightarrow>
    vw_hsync (last (stamp_modes xs ms)) = vw_hsync (last xs) \<and> vw_vsync (last (stamp_modes xs ms)) = vw_vsync (last xs)
    \<and> stamp_modes xs ms \<noteq> []"
proof (induction xs arbitrary: ms)
  case (Cons x xs)
  then obtain m ms' where "ms = m # ms'" by (cases ms) auto
  then show ?case using Cons by (cases xs) auto
qed simp

lemma view_steps_last:
  "views = fst (view_steps asic c (Suc n)) \<Longrightarrow> vw_hsync (last views) = cr_in_hsync (snd (view_steps asic c (Suc n))) \<and>
    vw_vsync (last views) = cr_in_vsync (snd (view_steps asic c (Suc n)))"
proof (induction n arbitrary: c views)
  case (Suc n)
  have "fst (view_steps asic (crtc_char asic c) (Suc n)) \<noteq> []" by (simp add: char_view_def Let_def split_def)
  then show ?case using Suc.IH [OF refl, of "crtc_char asic c"] Suc.prems
    by (simp add: char_view_def Let_def split_def del: view_steps.simps(2)) (simp add: char_view_def Let_def split_def)
qed (simp add: char_view_def Let_def split_def)

lemma view_steps_length: "length (fst (view_steps asic c n)) = n"
  by (induction n arbitrary: c) (simp_all add: split_def)

text \<open>The per-cycle device over the same characters, each with the mode that was in force there.\<close>

definition per_cycle :: "asic_state option \<Rightarrow> ga_state \<Rightarrow> CrtcCharView list \<Rightarrow> Bus list list \<Rightarrow> video_state \<Rightarrow> video_state" where
  "per_cycle asic g views bss v = fold (\<lambda>(x, bs). video_run asic (g\<lparr>ga_mode := vw_mode x\<rparr>) bs) (zip views bss) v"

lemma batch_run:
  fixes asic :: "asic_state option"
  assumes "list_all2 (char_cycles ram) views bss" "batch_ok cc_on g vb" "plus_ok vp" "vd_attached vp" "core vb = core vp"
    "edges_ok (vd_hsync_prev vp) (vd_vsync_prev vp) views"
  shows "core (fold (batch_cell cc_on (char_width vb) asic g ram) views vb) = core (per_cycle asic g views bss vp) \<and>
    (views \<noteq> [] \<longrightarrow> vd_fetch0 (per_cycle asic g views bss vp) = ram (vid_byte_addr (vw_ma (last views)) (vw_ra (last views)) 0) \<and>
       vd_hsync_prev (per_cycle asic g views bss vp) = vw_hsync (last views) \<and> vd_vsync_prev (per_cycle asic g views bss vp) = vw_vsync (last views))"
  using assms
proof (induction views bss arbitrary: vb vp rule: list_all2_induct)
  case Nil
  then show ?case by (simp add: per_cycle_def)
next
  case (Cons x xs bs bss)
  define g' where "g' = g\<lparr>ga_mode := vw_mode x\<rparr>"
  define u where "u = video_run asic g' bs vp"
  define d where "d = batch_cell cc_on (char_width vb) asic g ram x vb"
  note p = char_run [OF Cons.prems(3,2) Cons.hyps(1), of asic g', folded u_def]
  note b = batch_char [OF Cons.prems(1), of asic ram x, folded d_def]
  have ev: "(VSYNC_RISE \<in> set (vw_edges x)) = (vw_vsync x \<and> \<not> vd_vsync_prev vp)" "(HSYNC_RISE \<in> set (vw_edges x)) = (vw_hsync x \<and> \<not> vd_hsync_prev vp)"
    "(HSYNC_FALL \<in> set (vw_edges x)) = (\<not> vw_hsync x \<and> vd_hsync_prev vp)" "edges_ok (vw_hsync x) (vw_vsync x) xs"
    using Cons.prems(5) by simp_all
  have "core d = core u"
    unfolding b(1) p(1) ev Cons.prems(4) [symmetric] core_beam_edges [of asic _ _ _ vb, symmetric] by (simp add: g'_def cell_paint_inks)
  with Cons.IH [OF b(2) p(2,3)] p b(3) ev(4)
  have "core (fold (batch_cell cc_on (char_width vb) asic g ram) xs d) = core (per_cycle asic g xs bss u) \<and>
    (xs \<noteq> [] \<longrightarrow> vd_fetch0 (per_cycle asic g xs bss u) = ram (vid_byte_addr (vw_ma (last xs)) (vw_ra (last xs)) 0) \<and>
       vd_hsync_prev (per_cycle asic g xs bss u) = vw_hsync (last xs) \<and> vd_vsync_prev (per_cycle asic g xs bss u) = vw_vsync (last xs))"
    by simp
  moreover have "fold (batch_cell cc_on (char_width vb) asic g ram) (x # xs) vb = fold (batch_cell cc_on (char_width vb) asic g ram) xs d"
    by (simp add: d_def)
  moreover have "per_cycle asic g (x # xs) (bs # bss) vp = per_cycle asic g xs bss u" by (simp add: per_cycle_def u_def g'_def)
  moreover have "per_cycle asic g [] bss u = u" by (simp add: per_cycle_def)
  ultimately show ?case using p(4-6) Cons.hyps(2) by (cases xs) auto
qed

text \<open>C6 (video_batch_exact): the batched renderer of the video device paints exactly what the per-cycle device paints. Take any
  number of characters that the CRTC's batch engine produces, stamped with the Gate Array mode of each, and any sixteen bus
  cycles per character on which the sync and display-enable lines stand at the character's levels and the two display bytes are
  on the RAM bus in phases 13 and 15. From an attached device whose byte cache is sound and whose sync shadows are the CRTC's
  levels, \<open>video_batch_cells\<close> followed by \<open>video_batch_set_sync\<close> and the per-cycle ticks end in the same frame buffer, beam, frame
  counter, Plus line snapshot, scroll history, fetch latch and sync shadows: the two byte caches cannot be seen.\<close>

theorem video_batch_exact:
  assumes "vd_attached v" "plus_ok v" "crtc_advance_view asic c n = (edges, raw, c')" "0 < n" "length modes = n"
    and "views = stamp_modes raw modes" "vd_hsync_prev v = cr_in_hsync c" "vd_vsync_prev v = cr_in_vsync c"
    and "list_all2 (char_cycles ram) views bss"
    and "w = per_cycle asic g views bss v"
    and "b = video_batch_set_sync (cr_in_hsync c') (cr_in_vsync c') (video_batch_cells asic g ram views v)"
  shows "core b = core w \<and> vd_fetch0 b = vd_fetch0 w \<and> vd_hsync_prev b = vd_hsync_prev w \<and> vd_vsync_prev b = vd_vsync_prev w"
proof -
  define cc_on where "cc_on = (\<not> vd_plus_active v \<and> char_width v = 16)"
  obtain k where k: "n = Suc k" using assms(4) by (cases n) auto
  have r: "raw = fst (view_steps asic c n)" "c' = snd (view_steps asic c n)"
    using assms(3) by (simp_all add: advance_view_steps split_def)
  have l: "length raw = n" "raw \<noteq> []" using view_steps_length [of asic c n] r k by auto
  have ne: "views \<noteq> []" "vw_hsync (last views) = cr_in_hsync c'" "vw_vsync (last views) = cr_in_vsync c'"
    using last_stamp [of modes raw] view_steps_last [OF r(1) [unfolded k]] l assms(5,6) r(2) k by auto
  have eo: "edges_ok (vd_hsync_prev v) (vd_vsync_prev v) views"
    unfolding assms(6-8) r(1) by (intro edges_ok_stamp view_steps_edges)
  have ok: "batch_ok cc_on g (batch_open cc_on g v)" "core (batch_open cc_on g v) = core v" "char_width (batch_open cc_on g v) = char_width v"
    using assms(2) by (auto simp: batch_ok_def batch_open_def cc_on_def cc_classic_def plus_ok_def char_width_def)
  note run = batch_run [OF assms(9) ok(1) assms(2,1) ok(2) eo, of asic]
  have bc: "video_batch_cells asic g ram views v =
      (fold (batch_cell cc_on (char_width v) asic g ram) views (batch_open cc_on g v))\<lparr>vd_fetch0 := ram (vid_byte_addr (vw_ma (last views)) (vw_ra (last views)) 0)\<rparr>"
    using assms(1) ne(1) by (simp add: video_batch_cells_def cc_on_def Let_def)
  show ?thesis using run ne unfolding assms(10,11) video_batch_set_sync_def bc ok(3) by simp
qed

text \<open>Three characters of a running CRTC, one in each of the modes 0, 1 and 2, on a buffer of 768 by 540 pixels.\<close>

definition bus_at :: "(u16 \<Rightarrow> u8) \<Rightarrow> CrtcCharView \<Rightarrow> nat \<Rightarrow> Bus" where
  "bus_at ram x p = bus_resting\<lparr>b_clk := (b_clk bus_resting)\<lparr>clk_phase := of_nat p\<rparr>,
     b_vid := (b_vid bus_resting)\<lparr>vid_hsync := vw_hsync x, vid_vsync := vw_vsync x, vid_dispen := vw_dispen x\<rparr>,
     b_ram := (b_ram bus_resting)\<lparr>ram_data := ram (vid_byte_addr (vw_ma x) (vw_ra x) (if p = 15 then 1 else 0))\<rparr>\<rparr>"

lemma char_cycles_bus_at: "char_cycles ram x (map (bus_at ram x) [0..<16])"
  by (simp add: char_cycles_def bus_at_def bus_resting_def del: upt_Suc upt_conv_Cons)

definition demo_screen :: video_state where
  "demo_screen = video_attach video_init True (\<lambda>_. (1, 2, 3)) 768 540"

definition demo_views :: "CrtcCharView list" where
  "demo_views = stamp_modes (fst (snd (crtc_advance_view None crtc_init 3))) [0, 1, 2]"

theorem video_batch_exact_witness:
  "core (video_batch_set_sync (cr_in_hsync (snd (snd (crtc_advance_view None crtc_init 3))))
      (cr_in_vsync (snd (snd (crtc_advance_view None crtc_init 3)))) (video_batch_cells None ga_init ucast demo_views demo_screen)) =
    core (per_cycle None ga_init demo_views (map (\<lambda>x. map (bus_at ucast x) [0..<16]) demo_views) demo_screen)"
proof -
  have d: "vd_attached demo_screen" "plus_ok demo_screen" "vd_hsync_prev demo_screen = cr_in_hsync crtc_init"
    "vd_vsync_prev demo_screen = cr_in_vsync crtc_init"
    by (simp_all add: demo_screen_def video_attach_def video_init_def plus_ok_def crtc_init_def)
  obtain edges raw c' where a: "crtc_advance_view None crtc_init 3 = (edges, raw, c')" by (metis prod_cases3)
  then have v: "demo_views = stamp_modes raw [0, 1, 2]" by (simp add: demo_views_def)
  have l: "list_all2 (char_cycles ucast) demo_views (map (\<lambda>x. map (bus_at ucast x) [0..<16]) demo_views)"
    by (simp add: list_all2_conv_all_nth char_cycles_bus_at del: upt_Suc upt_conv_Cons)
  show ?thesis
    using video_batch_exact [OF d(1,2) a _ _ v d(3,4) l refl refl, of ga_init] by (simp add: a)
qed

subsection \<open>Where the device writes\<close>

text \<open>Two frame buffers that differ only inside a stretch.\<close>

definition same_outside :: "nat \<Rightarrow> nat \<Rightarrow> (nat \<Rightarrow> rgb) \<Rightarrow> (nat \<Rightarrow> rgb) \<Rightarrow> bool" where
  "same_outside lo len fb fb' \<longleftrightarrow> (\<forall>k. k < lo \<or> lo + len \<le> k \<longrightarrow> fb' k = fb k)"

lemma same_refl [simp]: "same_outside lo len fb fb"
  by (simp add: same_outside_def)

lemma same_put_run:
  "same_outside lo len fb fb' \<Longrightarrow> lo \<le> off \<Longrightarrow> off + length px \<le> lo + len \<Longrightarrow> same_outside lo len fb (put_run off px fb')"
  by (auto simp: same_outside_def put_run_def)

lemma length_paint [simp]: "length (snd (paint_byte_plus v g m b)) = length (lut_cols m b)" "length (lut_cols m b) \<le> 8"
  by (simp_all add: paint_byte_plus_def lut_cols_def)

lemma length_classic [simp]: "length (paint_byte_classic g m b pw) = lut_count m * pw"
  by (simp add: paint_byte_classic_def length_concat comp_def sum_list_triv)

lemma two_halves: "lut_count m * (cw div 2 div lut_count m) * 2 \<le> cw"
proof -
  have "lut_count m * (cw div 2 div lut_count m) \<le> cw div 2" by simp
  then show ?thesis by linarith
qed

lemma classic_stretch: "same_outside (cell_at v x0) cw (vd_fb v) (vd_fb (render_cell_classic g mode d b0 b1 x0 cw v))"
  using two_halves [of "mode AND 3" cw]
  by (auto simp: render_cell_classic_def Let_def intro!: same_put_run)

lemma plus_stretch:
  "same_outside (cell_at v x0) cw (vd_fb v) (vd_fb (plus_uncached asic g mode d b0 b1 x0 cw v))"
proof -
  have c: "cell_at (first_row d v) x0 = cell_at v x0" "vd_fb (first_row d v) = vd_fb v" for d by (simp_all add: first_row_def cell_at_def)
  have l: "length (lut_cols m b) \<le> 8" for m b by simp
  show ?thesis
    using l [of "mode AND 3" b0] l [of "mode AND 3" b1]
    by (auto simp: plus_uncached_def plus_direct_def Let_def c fast_cell_def simp del: length_paint(2) intro!: same_put_run)
qed

lemma beam_edges_fb [simp]: "vd_fb (beam_edges asic a b c v) = vd_fb v" "vd_fb_h (beam_edges asic a b c v) = vd_fb_h v"
  by (simp_all add: beam_edges_def plus_refresh_line_def plus_cull_def plus_reread_def Let_def split: option.split)

lemma cell_fits:
  assumes "cell_visible h s v"
  shows "cell_at v (vd_beam_col v * int (char_width v)) + char_width v \<le> vd_fb_w v * vd_fb_h v"
proof -
  define r c where "r = nat (vd_beam_row v)" and "c = nat (vd_beam_col v)"
  have b: "r < vd_fb_h v" "c < 48" "vd_beam_col v = int c"
    using assms by (auto simp: r_def c_def cell_visible_def kVisChars_def)
  have "(c + 1) * char_width v \<le> 48 * char_width v" using b(2) by (intro mult_right_mono) auto
  also have "\<dots> \<le> vd_fb_w v" by (simp add: char_width_def kVisChars_def)
  finally have "r * vd_fb_w v + (c + 1) * char_width v \<le> (r + 1) * vd_fb_w v" by simp
  also have "\<dots> \<le> vd_fb_h v * vd_fb_w v" using b(1) by (intro mult_right_mono) auto
  finally show ?thesis
    unfolding cell_at_def b(3) r_def [symmetric] by (simp add: mult.commute algebra_simps flip: of_nat_mult)
qed

lemma render_char_stretch:
  assumes "plus_ok v" "vd_fb (render_char asic g i b1 v) k \<noteq> vd_fb v k"
  shows "cell_visible (vid_hsync (b_vid i)) (vid_vsync (b_vid i)) v"
    "cell_at v (vd_beam_col v * int (char_width v)) \<le> k" "k < cell_at v (vd_beam_col v * int (char_width v)) + char_width v"
proof -
  show vis: "cell_visible (vid_hsync (b_vid i)) (vid_vsync (b_vid i)) v"
    using assms(2) by (auto simp: render_char_def Let_def split: if_splits)
  have "same_outside (cell_at v (vd_beam_col v * int (char_width v))) (char_width v) (vd_fb v) (vd_fb (render_char asic g i b1 v))"
  proof (cases "vd_plus_active v")
    case True
    then have "cc_plus v" using assms(1) by (simp add: plus_ok_def)
    from core_eqD(1) [OF plus_cache_transparent(1) [OF this]] True vis show ?thesis
      by (simp add: render_char_def Let_def plus_stretch)
  next
    case False
    then show ?thesis using vis by (simp add: render_char_def Let_def classic_stretch)
  qed
  with assms(2) show "cell_at v (vd_beam_col v * int (char_width v)) \<le> k"
    "k < cell_at v (vd_beam_col v * int (char_width v)) + char_width v"
    by (auto simp: same_outside_def not_less not_le intro: leI)
qed

text \<open>C33 (video_writes_in_frame): memory safety of the scan-out. Whatever the bus carries, whatever mode, palette, scroll and sprites
  are in force, and whatever width and height the frame buffer was attached with (a width that is not a multiple of 48 or is too
  small for one pixel per cell included), every pixel the per-cycle device changes lies inside the buffer, on the row of the beam,
  and it changes pixels only in phase 15 of a character whose sync lines are low.\<close>

theorem video_writes_in_frame:
  assumes "plus_ok v" "vd_fb (video_next asic g v i) k \<noteq> vd_fb v k"
  shows "k < vd_fb_w v * vd_fb_h v \<and> clk_phase (b_clk i) = 15 \<and> \<not> vid_hsync (b_vid i) \<and> \<not> vid_vsync (b_vid i)
    \<and> int (k div vd_fb_w v) = vd_beam_row (video_next asic g v i)"
proof -
  define e where "e = beam_edges asic (vid_vsync (b_vid i) \<and> \<not> vd_vsync_prev v) (vid_hsync (b_vid i) \<and> \<not> vd_hsync_prev v)
    (\<not> vid_hsync (b_vid i) \<and> vd_hsync_prev v) (v\<lparr>vd_hsync_prev := vid_hsync (b_vid i), vd_vsync_prev := vid_vsync (b_vid i)\<rparr>)"
  have e: "plus_ok e" "vd_fb e = vd_fb v" "vd_fb_w e = vd_fb_w v" "vd_fb_h e = vd_fb_h v"
    using assms(1) by (simp_all add: e_def plus_ok_beam)
  have at: "vd_attached v" and ph: "clk_phase (b_clk i) = 15"
    using assms(2) e(2) by (auto simp: video_next_def Let_def e_def [symmetric] split: if_splits)
  have n: "video_next asic g v i = (let x = render_char asic g i (ram_data (b_ram i)) e in x\<lparr>vd_beam_col := vd_beam_col x + 1\<rparr>)"
    using at ph by (simp add: video_next_def e_def Let_def)
  have d: "vd_fb (render_char asic g i (ram_data (b_ram i)) e) k \<noteq> vd_fb e k" using assms(2) e(2) by (simp add: n Let_def)
  note s = render_char_stretch [OF e(1) d]
  define r c where "r = nat (vd_beam_row e)" and "c = nat (vd_beam_col e)"
  have v: "vd_beam_row e = int r" "vd_beam_col e = int c" "c < 48" using s(1) by (auto simp: r_def c_def cell_visible_def kVisChars_def)
  have at: "cell_at e (vd_beam_col e * int (char_width e)) = r * vd_fb_w e + c * char_width e"
    unfolding cell_at_def v by (simp flip: of_nat_mult)
  have "(c + 1) * char_width e \<le> 48 * char_width e" using v(3) by (intro mult_right_mono) auto
  also have "\<dots> \<le> vd_fb_w e" by (simp add: char_width_def kVisChars_def)
  finally have hi: "k < r * vd_fb_w e + vd_fb_w e" and lo: "r * vd_fb_w e \<le> k" using s(2,3) at by simp_all
  then have "k div vd_fb_w e = r" by (intro div_nat_eqI) (simp_all add: mult.commute)
  moreover have "vd_beam_row (render_char asic g i b1 e) = vd_beam_row e" for b1
    by (simp add: render_char_def render_cell_plus_def render_cell_classic_def fill_slot_def copy_slot_def Let_def)
  moreover have "k < vd_fb_w v * vd_fb_h v" using cell_fits [OF s(1)] s(3) e(3,4) by simp
  ultimately show ?thesis using s(1) ph by (simp add: n Let_def v(1) e(3) cell_visible_def)
qed

text \<open>The border of a character of the first row: pixel 0 turns from the background of the buffer into the border ink.\<close>

theorem video_writes_in_frame_witness:
  "vd_fb (video_next None ga_init demo_screen (bus_resting\<lparr>b_clk := (b_clk bus_resting)\<lparr>clk_phase := 15\<rparr>\<rparr>)) 0 \<noteq> vd_fb demo_screen 0
   \<and> 0 < vd_fb_w demo_screen * vd_fb_h demo_screen"
proof -
  have "vd_fb (video_next None ga_init demo_screen (bus_resting\<lparr>b_clk := (b_clk bus_resting)\<lparr>clk_phase := 15\<rparr>\<rparr>)) 0 \<noteq> vd_fb demo_screen 0"
    by (simp add: demo_screen_def video_attach_def video_init_def video_next_def bus_resting_def Let_def beam_edges_def render_char_def
      cell_visible_def kVisChars_def render_cell_classic_def cell_at_def char_width_def ga_init_def put_run_def vid_hw_rgb_def kPalette_def)
  moreover have "plus_ok demo_screen" by (simp add: demo_screen_def video_attach_def video_init_def plus_ok_def)
  ultimately show ?thesis using video_writes_in_frame [of demo_screen None ga_init _ 0] by blast
qed

end
