(* ===== verification/Memory.thy ===== *)
theory Memory
  imports Asic
begin

text \<open>
  The memory map, \<open>src/src/hw/memory.cpp\<close>: 64K of base RAM, the ROM overlays, the 6128 PAL's RAM
  banking with the Yarek extension, the Plus cartridge windows, the one-tick write latch, and the
  table-driven view of the Fast tier. Fields are named \<open>m_x\<close> for the C member \<open>x\<close>.

  A \<open>uint8_t*\<close> is a value of \<open>mem_ptr\<close>: which object it points into (the struct's own arrays, or
  a caller-owned buffer that is attached) and the offset. Caller-owned buffers are separate
  objects. A caller-owned buffer that may be absent is an option of its contents, \<open>None\<close> for the
  null pointer. The \<open>asic\<close> pointer is the parameter \<open>asic :: asic_state option\<close>.
\<close>

subsection \<open>State\<close>

datatype mem_ptr = P_null | P_ram nat | P_exp nat | P_lower nat | P_upper nat | P_rom u8 nat | P_cart nat

record mem_state =
  m_ram :: "nat \<Rightarrow> u8"
  m_lower_rom :: "nat \<Rightarrow> u8"
  m_upper_rom :: "nat \<Rightarrow> u8"
  m_rom_config :: u8
  m_ram_config :: u8
  m_ram_ext :: u8
  m_rom_select :: u8
  m_wr_addr :: u16
  m_wr_val :: u8
  m_wr_armed :: bool
  m_wr_prev :: bool
  m_expansion :: "(nat \<Rightarrow> u8) option"
  m_expansion_len :: nat
  m_roms :: "u8 \<Rightarrow> (nat \<Rightarrow> u8) option"
  m_cart :: "(nat \<Rightarrow> u8) option"
  m_cart_banks :: nat
  m_cart_lower :: u8
  m_cart_lower_slot :: u8
  m_cart_upper :: u8
  m_rd_bank :: "nat \<Rightarrow> mem_ptr"
  m_wr_bank :: "nat \<Rightarrow> mem_ptr"
  m_fast_dirty :: bool

definition ptr_add :: "mem_ptr \<Rightarrow> nat \<Rightarrow> mem_ptr" where
  "ptr_add p k = (case p of P_null \<Rightarrow> P_null | P_ram n \<Rightarrow> P_ram (n + k) | P_exp n \<Rightarrow> P_exp (n + k)
    | P_lower n \<Rightarrow> P_lower (n + k) | P_upper n \<Rightarrow> P_upper (n + k) | P_rom r n \<Rightarrow> P_rom r (n + k)
    | P_cart n \<Rightarrow> P_cart (n + k))"

text \<open>Reading and writing through a pointer. Reading a null pointer or a detached buffer, and
  writing into ROM, have no C meaning; here they yield 0 and change nothing, and the bounds
  property below shows that no access does either.\<close>

definition deref :: "mem_state \<Rightarrow> mem_ptr \<Rightarrow> u8" where
  "deref m p = (case p of P_null \<Rightarrow> 0 | P_ram n \<Rightarrow> m_ram m n
    | P_exp n \<Rightarrow> (case m_expansion m of None \<Rightarrow> 0 | Some e \<Rightarrow> e n)
    | P_lower n \<Rightarrow> m_lower_rom m n | P_upper n \<Rightarrow> m_upper_rom m n
    | P_rom r n \<Rightarrow> (case m_roms m r of None \<Rightarrow> 0 | Some f \<Rightarrow> f n)
    | P_cart n \<Rightarrow> (case m_cart m of None \<Rightarrow> 0 | Some f \<Rightarrow> f n))"

definition store :: "mem_state \<Rightarrow> mem_ptr \<Rightarrow> u8 \<Rightarrow> mem_state" where
  "store m p v = (case p of P_ram n \<Rightarrow> m\<lparr>m_ram := (m_ram m)(n := v)\<rparr>
    | P_exp n \<Rightarrow> m\<lparr>m_expansion := map_option (\<lambda>e. e(n := v)) (m_expansion m)\<rparr>
    | _ \<Rightarrow> m)"

subsection \<open>Decode\<close>

definition lower_rom_on :: "mem_state \<Rightarrow> bool" where
  "lower_rom_on m \<longleftrightarrow> m_rom_config m AND 0x04 = 0"

definition upper_rom_on :: "mem_state \<Rightarrow> bool" where
  "upper_rom_on m \<longleftrightarrow> m_rom_config m AND 0x08 = 0"

definition slot_of :: "u16 \<Rightarrow> nat" where
  "slot_of addr = unat (drop_bit 14 addr)"

definition lower_rom_serves :: "mem_state \<Rightarrow> u16 \<Rightarrow> bool" where
  "lower_rom_serves m addr =
    (if \<not> lower_rom_on m then False
     else if m_cart m \<noteq> None then slot_of addr = unat (m_cart_lower_slot m)
     else addr < 0x4000)"

definition plus_upper_page :: "u8 \<Rightarrow> u8" where
  "plus_upper_page sel = (if sel = 7 then 3 else if sel \<ge> 128 then sel AND 31 else 1)"

definition kBankTable :: "nat list list" where
  "kBankTable = [[0, 1, 2, 3], [0, 1, 2, 7], [4, 5, 6, 7], [0, 3, 2, 7],
    [0, 4, 2, 3], [0, 5, 2, 3], [0, 6, 2, 3], [0, 7, 2, 3]]"

definition exp_bank :: "mem_state \<Rightarrow> nat" where
  "exp_bank m =
    (let bank = unat (drop_bit 3 (m_ram_config m) AND 7);
         bank' = (if m_expansion_len m > 512 * 1024 then bank OR push_bit 3 (unat (m_ram_ext m)) else bank)
     in if (bank' + 1) * 0x10000 > m_expansion_len m then 0 else bank')"

definition banked_ptr :: "mem_state \<Rightarrow> u16 \<Rightarrow> mem_ptr" where
  "banked_ptr m addr =
    (let offs = unat (addr AND 0x3FFF);
         cfg = (if m_expansion m \<noteq> None then unat (m_ram_config m AND 7) else 0);
         page = kBankTable ! cfg ! slot_of addr
     in if page < 4 then P_ram (push_bit 14 page OR offs)
        else P_exp (exp_bank m * 0x10000 OR push_bit 14 (page - 4) OR offs))"

definition mem_read :: "mem_state \<Rightarrow> u16 \<Rightarrow> u8" where
  "mem_read m addr =
    (if lower_rom_serves m addr then
       (case m_cart m of
          Some cart \<Rightarrow>
            (let bank = (if unat (m_cart_lower m) < m_cart_banks m then unat (m_cart_lower m) else 0)
             in cart (bank * 0x4000 + unat (addr AND 0x3FFF)))
        | None \<Rightarrow> m_lower_rom m (unat addr))
     else if addr \<ge> 0xC000 \<and> upper_rom_on m then
       (case m_cart m of
          Some cart \<Rightarrow>
            (let bank = (if unat (m_cart_upper m) < m_cart_banks m then unat (m_cart_upper m) else 0)
             in cart (bank * 0x4000 + unat (addr - 0xC000)))
        | None \<Rightarrow>
            (case m_roms m (m_rom_select m) of
               Some rom \<Rightarrow> rom (unat (addr - 0xC000))
             | None \<Rightarrow> m_upper_rom m (unat (addr - 0xC000))))
     else deref m (banked_ptr m addr))"

text \<open>The three independent decodes of \<open>mem_io_write_decode\<close>, in source order.\<close>

definition io_rom_config :: "asic_state option \<Rightarrow> mem_state \<Rightarrow> u16 \<Rightarrow> u8 \<Rightarrow> mem_state" where
  "io_rom_config asic m addr d =
    (if addr AND 0xC000 = 0x4000 \<and> drop_bit 6 d = 2 then
       (if m_cart m \<noteq> None \<and> d AND 0x20 \<noteq> 0 \<and> (case asic of None \<Rightarrow> False | Some a \<Rightarrow> asic_unlocked a)
        then
          (let membank = drop_bit 3 d AND 3 in
           m\<lparr>m_cart_lower := d AND 7, m_cart_lower_slot := (if membank = 3 then 0 else membank),
             m_fast_dirty := True\<rparr>)
        else m\<lparr>m_rom_config := d, m_fast_dirty := True\<rparr>)
     else m)"

definition io_ram_config :: "mem_state \<Rightarrow> u16 \<Rightarrow> u8 \<Rightarrow> mem_state" where
  "io_ram_config m addr d =
    (if addr AND 0x8000 = 0 \<and> d AND 0xC0 = 0xC0
     then m\<lparr>m_ram_config := d, m_ram_ext := ucast (NOT (drop_bit 11 addr) AND 7), m_fast_dirty := True\<rparr>
     else m)"

definition io_rom_select :: "mem_state \<Rightarrow> u16 \<Rightarrow> u8 \<Rightarrow> mem_state" where
  "io_rom_select m addr d =
    (if addr AND 0x2000 = 0
     then m\<lparr>m_rom_select := d,
            m_cart_upper := (if m_cart m \<noteq> None then plus_upper_page d else m_cart_upper m),
            m_fast_dirty := True\<rparr>
     else m)"

definition mem_io_write_decode :: "asic_state option \<Rightarrow> mem_state \<Rightarrow> u16 \<Rightarrow> u8 \<Rightarrow> mem_state" where
  "mem_io_write_decode asic m addr d =
     io_rom_select (io_ram_config (io_rom_config asic m addr d) addr d) addr d"

subsection \<open>Fast-tier tables\<close>

definition rebuild_lower :: "mem_state \<Rightarrow> (nat \<Rightarrow> mem_ptr) \<Rightarrow> nat \<Rightarrow> mem_ptr" where
  "rebuild_lower m rd =
    (if lower_rom_on m then
       (let slot = (if m_cart m \<noteq> None then unat (m_cart_lower_slot m) else 0) in
        if m_cart m \<noteq> None then
          (let bank = (if unat (m_cart_lower m) < m_cart_banks m then unat (m_cart_lower m) else 0)
           in rd(slot := P_cart (bank * 0x4000)))
        else rd(slot := P_lower 0))
     else rd)"

definition rebuild_upper :: "mem_state \<Rightarrow> (nat \<Rightarrow> mem_ptr) \<Rightarrow> nat \<Rightarrow> mem_ptr" where
  "rebuild_upper m rd =
    (if upper_rom_on m then
       (if m_cart m \<noteq> None then
          (let bank = (if unat (m_cart_upper m) < m_cart_banks m then unat (m_cart_upper m) else 0)
           in rd(3 := P_cart (bank * 0x4000)))
        else rd(3 := (if m_roms m (m_rom_select m) \<noteq> None then P_rom (m_rom_select m) 0 else P_upper 0)))
     else rd)"

definition fast_rebuild :: "mem_state \<Rightarrow> mem_state" where
  "fast_rebuild m =
    (let ram = (\<lambda>slot. banked_ptr m (push_bit 14 (of_nat slot)));
         wr = (\<lambda>slot. if slot < 4 then ram slot else m_wr_bank m slot);
         rd = (\<lambda>slot. if slot < 4 then ram slot else m_rd_bank m slot)
     in m\<lparr>m_wr_bank := wr, m_rd_bank := rebuild_upper m (rebuild_lower m rd), m_fast_dirty := False\<rparr>)"

definition refreshed :: "mem_state \<Rightarrow> mem_state" where
  "refreshed m = (if m_fast_dirty m then fast_rebuild m else m)"

definition mem_fast_read :: "mem_state \<Rightarrow> u16 \<Rightarrow> u8 \<times> mem_state" where
  "mem_fast_read m addr =
    (let m1 = refreshed m in
     (deref m1 (ptr_add (m_rd_bank m1 (slot_of addr)) (unat (addr AND 0x3FFF))), m1))"

definition mem_fast_write :: "mem_state \<Rightarrow> u16 \<Rightarrow> u8 \<Rightarrow> mem_state" where
  "mem_fast_write m addr val =
    (let m1 = refreshed m in
     store m1 (ptr_add (m_wr_bank m1 (slot_of addr)) (unat (addr AND 0x3FFF))) val)"

text \<open>The offset of the write target from \<open>ram\<close>; an expansion byte lies in another object, more
  than 64K away from it.\<close>

definition mem_fast_write_off :: "mem_state \<Rightarrow> u16 \<Rightarrow> int \<times> mem_state" where
  "mem_fast_write_off m addr =
    (let m1 = refreshed m in
     (case ptr_add (m_wr_bank m1 (slot_of addr)) (unat (addr AND 0x3FFF)) of
        P_ram off \<Rightarrow> (if off < 0x10000 then int off else - 1, m1)
      | _ \<Rightarrow> (- 1, m1)))"

definition mem_fast_io_write :: "asic_state option \<Rightarrow> mem_state \<Rightarrow> u16 \<Rightarrow> u8 \<Rightarrow> mem_state" where
  "mem_fast_io_write asic m port val = mem_io_write_decode asic m port val"

subsection \<open>The tick\<close>

definition mem_commit :: "mem_state \<Rightarrow> bool \<Rightarrow> mem_state" where
  "mem_commit m ramdis =
    (if m_wr_armed m then
       (let m1 = (if \<not> ramdis then store m (banked_ptr m (m_wr_addr m)) (m_wr_val m) else m)
        in m1\<lparr>m_wr_armed := False\<rparr>)
     else m)"

definition mem_latch :: "mem_state \<Rightarrow> Bus \<Rightarrow> mem_state" where
  "mem_latch m i =
    (let wr_now = (cpu_mreq (b_cpu i) \<and> cpu_wr (b_cpu i));
         m1 = (if wr_now \<and> \<not> m_wr_prev m
               then m\<lparr>m_wr_addr := cpu_addr (b_cpu i), m_wr_val := cpu_data (b_cpu i), m_wr_armed := True\<rparr>
               else m)
     in m1\<lparr>m_wr_prev := wr_now\<rparr>)"

definition mem_answer :: "mem_state \<Rightarrow> Bus \<Rightarrow> asg list" where
  "mem_answer m i =
    (if cpu_mreq (b_cpu i) \<and> cpu_rd (b_cpu i) then
       (let addr = cpu_addr (b_cpu i);
            rom_serves = (lower_rom_serves m addr \<or> (addr \<ge> 0xC000 \<and> upper_rom_on m))
        in if \<not> (if rom_serves then cpu_romdis (b_cpu i) else cpu_ramdis (b_cpu i))
           then [Dr_data (mem_read m addr)] else [])
     else [])"

definition mem_step :: "asic_state option \<Rightarrow> mem_state \<Rightarrow> Bus \<Rightarrow> mem_state \<times> asg list" where
  "mem_step asic m i =
    (let m1 = (if cpu_iorq (b_cpu i) \<and> cpu_wr (b_cpu i)
               then mem_io_write_decode asic m (cpu_addr (b_cpu i)) (cpu_data (b_cpu i)) else m);
         m2 = mem_commit m1 (cpu_ramdis (b_cpu i));
         m3 = mem_latch m2 i
     in (m3, mem_answer m2 i @
          (if ram_fetch (b_ram i) then [Dr_ram_data (m_ram m3 (unat (ram_addr (b_ram i))))] else [])))"

definition mem_tick :: "asic_state option \<Rightarrow> mem_state \<Rightarrow> Bus \<Rightarrow> Bus \<Rightarrow> mem_state \<times> Bus" where
  "mem_tick asic m i out = (fst (mem_step asic m i), drive (snd (mem_step asic m i)) out)"

subsection \<open>Reset, blobs, attachments and direct access\<close>

definition mem_reset :: "mem_state \<Rightarrow> mem_state" where
  "mem_reset m = m\<lparr>m_rom_config := 0, m_ram_config := 0, m_ram_ext := 0, m_rom_select := 0,
     m_cart_lower := 0, m_cart_lower_slot := 0, m_cart_upper := 1, m_fast_dirty := True\<rparr>"

definition mem_zero :: mem_state where
  "mem_zero = \<lparr> m_ram = (\<lambda>_. 0), m_lower_rom = (\<lambda>_. 0), m_upper_rom = (\<lambda>_. 0), m_rom_config = 0,
    m_ram_config = 0, m_ram_ext = 0, m_rom_select = 0, m_wr_addr = 0, m_wr_val = 0,
    m_wr_armed = False, m_wr_prev = False, m_expansion = None, m_expansion_len = 0,
    m_roms = (\<lambda>_. None), m_cart = None, m_cart_banks = 0, m_cart_lower = 0, m_cart_lower_slot = 0,
    m_cart_upper = 1, m_rd_bank = (\<lambda>_. P_null), m_wr_bank = (\<lambda>_. P_null), m_fast_dirty = True \<rparr>"

definition mem_init :: mem_state where
  "mem_init = mem_reset mem_zero"

text \<open>A blob is the version byte, the struct image with the wiring pointers and the cache zeroed,
  and the appended expansion bytes.\<close>

definition mem_save :: "mem_state \<Rightarrow> u8 \<times> mem_state \<times> (nat \<Rightarrow> u8)" where
  "mem_save m =
    (1, m\<lparr>m_expansion := None, m_roms := (\<lambda>_. None), m_cart := None, m_rd_bank := (\<lambda>_. P_null),
        m_wr_bank := (\<lambda>_. P_null), m_fast_dirty := True\<rparr>,
     \<lambda>i. case m_expansion m of None \<Rightarrow> 0 | Some e \<Rightarrow> if i < m_expansion_len m then e i else 0)"

definition mem_load :: "mem_state \<Rightarrow> u8 \<times> mem_state \<times> (nat \<Rightarrow> u8) \<Rightarrow> mem_state" where
  "mem_load m blob =
    (case blob of (version, img, tail) \<Rightarrow>
      if version \<noteq> 1 then m
      else
        img\<lparr>m_expansion_len := m_expansion_len m, m_cart := m_cart m, m_cart_banks := m_cart_banks m,
          m_roms := m_roms m,
          m_expansion :=
            (case m_expansion m of None \<Rightarrow> None
             | Some e \<Rightarrow>
                 if m_expansion_len m \<noteq> 0 \<and> m_expansion_len img = m_expansion_len m
                 then Some (\<lambda>i. if i < m_expansion_len m then tail i else e i) else Some e)\<rparr>)"

definition mem_attach_rom :: "mem_state \<Rightarrow> u8 \<Rightarrow> (nat \<Rightarrow> u8) option \<Rightarrow> mem_state" where
  "mem_attach_rom m n data = m\<lparr>m_roms := (m_roms m)(n := data), m_fast_dirty := True\<rparr>"

definition mem_attach_expansion :: "mem_state \<Rightarrow> (nat \<Rightarrow> u8) option \<Rightarrow> nat \<Rightarrow> mem_state" where
  "mem_attach_expansion m buf len =
    (let l = len - len mod 0x10000 in
     m\<lparr>m_expansion := (if l = 0 then None else buf), m_expansion_len := l, m_fast_dirty := True\<rparr>)"

definition mem_load_cartridge :: "mem_state \<Rightarrow> (nat \<Rightarrow> u8) option \<Rightarrow> nat \<Rightarrow> mem_state" where
  "mem_load_cartridge m img bytes =
    (let cart = (if bytes \<ge> 0x4000 then img else None) in
     m\<lparr>m_cart := cart, m_cart_banks := (if cart \<noteq> None then bytes div 0x4000 else 0),
       m_cart_lower := 0, m_cart_upper := 1, m_fast_dirty := True\<rparr>)"

definition copy_rom :: "(nat \<Rightarrow> u8) \<Rightarrow> u8 list \<Rightarrow> nat \<Rightarrow> u8" where
  "copy_rom rom data = (\<lambda>i. if i < min (length data) 0x4000 then data ! i else rom i)"

definition mem_load_lower_rom :: "mem_state \<Rightarrow> u8 list \<Rightarrow> mem_state" where
  "mem_load_lower_rom m data = m\<lparr>m_lower_rom := copy_rom (m_lower_rom m) data\<rparr>"

definition mem_load_upper_rom :: "mem_state \<Rightarrow> u8 list \<Rightarrow> mem_state" where
  "mem_load_upper_rom m data = m\<lparr>m_upper_rom := copy_rom (m_upper_rom m) data\<rparr>"

definition mem_write_ram :: "mem_state \<Rightarrow> u16 \<Rightarrow> u8 \<Rightarrow> mem_state" where
  "mem_write_ram m addr val = m\<lparr>m_ram := (m_ram m)(unat addr := val)\<rparr>"

definition mem_read_ram :: "mem_state \<Rightarrow> u16 \<Rightarrow> u8" where
  "mem_read_ram m addr = m_ram m (unat addr)"

definition mem_peek_cpu :: "mem_state \<Rightarrow> u16 \<Rightarrow> u8" where
  "mem_peek_cpu m addr = mem_read m addr"

definition mem_poke_cpu :: "mem_state \<Rightarrow> u16 \<Rightarrow> u8 \<Rightarrow> mem_state" where
  "mem_poke_cpu m addr val = store m (banked_ptr m addr) val"

definition mem_peek_ram :: "mem_state \<Rightarrow> u16 \<Rightarrow> u8" where
  "mem_peek_ram m addr = deref m (banked_ptr m addr)"

definition mem_video_ram :: "mem_state \<Rightarrow> nat \<Rightarrow> u8" where
  "mem_video_ram m = m_ram m"

subsection \<open>Pointers\<close>

lemma or_eq_plus:
  fixes x y :: nat
  assumes "y < 2 ^ n"
  shows "push_bit n x OR y = x * 2 ^ n + y"
proof -
  have "push_bit n x AND y = 0"
  proof (rule bit_eqI)
    fix k
    have "\<not> bit y k" if "n \<le> k"
      using assms that by (metis bit_take_bit_iff leD take_bit_nat_eq_self)
    then show "bit (push_bit n x AND y) k \<longleftrightarrow> bit (0 :: nat) k"
      by (auto simp: bit_and_iff bit_push_bit_iff)
  qed
  then show ?thesis
    by (metis disjunctive_add_eq_or push_bit_eq_mult)
qed

lemma unat_offs [simp]: "unat (addr AND 0x3FFF :: u16) = unat addr mod 0x4000"
  by (simp add: mask_simps unat_take_bit)

lemma slot_of_eq: "slot_of addr = unat addr div 0x4000"
  by (simp add: slot_of_def unat_drop_bit)

lemma slot_of_less [simp]: "slot_of addr < 4"
  using unat_less_65536 [of addr] by (simp add: slot_of_eq less_mult_imp_div_less)

lemma kBankTable_page: "cfg < 8 \<Longrightarrow> s < 4 \<Longrightarrow> kBankTable ! cfg ! s < 8"
  by (auto simp: kBankTable_def less_Suc_eq numeral_eq_Suc)

definition bank_cfg :: "mem_state \<Rightarrow> nat" where
  "bank_cfg m = (if m_expansion m \<noteq> None then unat (m_ram_config m AND 7) else 0)"

lemma bank_cfg_less [simp]: "bank_cfg m < 8"
  by (simp add: bank_cfg_def mask_simps unat_take_bit)

lemma banked_ptr_eq:
  "banked_ptr m addr =
    (let page = kBankTable ! bank_cfg m ! slot_of addr in
     if page < 4 then P_ram (page * 0x4000 + unat addr mod 0x4000)
     else P_exp (exp_bank m * 0x10000 + (page - 4) * 0x4000 + unat addr mod 0x4000))"
proof -
  let ?p = "kBankTable ! bank_cfg m ! slot_of addr"
  have "?p < 8" by (simp add: kBankTable_page)
  then have "(?p - 4) * 0x4000 + unat addr mod 0x4000 < 0x10000"
    using mod_less_divisor [of "0x4000" "unat addr"] by linarith
  then have "exp_bank m * 0x10000 OR ((?p - 4) * 0x4000 + unat addr mod 0x4000) =
      exp_bank m * 0x10000 + ((?p - 4) * 0x4000 + unat addr mod 0x4000)"
    using or_eq_plus [of "(?p - 4) * 0x4000 + unat addr mod 0x4000" 16 "exp_bank m"]
    by (simp add: push_bit_eq_mult)
  then show ?thesis
    using or_eq_plus [of "unat addr mod 0x4000" 14 ?p] or_eq_plus [of "unat addr mod 0x4000" 14 "?p - 4"]
    unfolding banked_ptr_def Let_def bank_cfg_def [symmetric] unat_offs by (simp add: add.assoc)
qed

lemma slot_base:
  assumes "s < 4"
  shows "unat (push_bit 14 (of_nat s) :: u16) = s * 0x4000"
proof -
  have "s = 0 \<or> s = 1 \<or> s = 2 \<or> s = 3" using assms by linarith
  then show ?thesis by auto
qed

lemma banked_ptr_contiguous:
  "ptr_add (banked_ptr m (push_bit 14 (of_nat (slot_of addr)))) (unat addr mod 0x4000) = banked_ptr m addr"
  using slot_base [OF slot_of_less, of addr]
  by (simp add: banked_ptr_eq slot_of_eq [of "push_bit 14 x" for x] ptr_add_def Let_def)

subsection \<open>What a read resolves to\<close>

text \<open>The byte \<open>mem_read\<close> returns, as a pointer.\<close>

definition clamp_bank :: "mem_state \<Rightarrow> u8 \<Rightarrow> nat" where
  "clamp_bank m b = (if unat b < m_cart_banks m then unat b else 0)"

definition read_ptr :: "mem_state \<Rightarrow> u16 \<Rightarrow> mem_ptr" where
  "read_ptr m addr =
    (if lower_rom_serves m addr then
       (if m_cart m \<noteq> None then P_cart (clamp_bank m (m_cart_lower m) * 0x4000 + unat addr mod 0x4000)
        else P_lower (unat addr mod 0x4000))
     else if addr \<ge> 0xC000 \<and> upper_rom_on m then
       (if m_cart m \<noteq> None then P_cart (clamp_bank m (m_cart_upper m) * 0x4000 + unat addr mod 0x4000)
        else if m_roms m (m_rom_select m) \<noteq> None then P_rom (m_rom_select m) (unat addr mod 0x4000)
        else P_upper (unat addr mod 0x4000))
     else banked_ptr m addr)"

lemma high_slot: "addr \<ge> 0xC000 \<longleftrightarrow> slot_of addr = 3"
proof
  show "slot_of addr = 3" if "addr \<ge> 0xC000"
    using that unat_less_65536 [of addr] by (simp add: slot_of_eq word_le_nat_alt div_nat_eqI)
  show "addr \<ge> 0xC000" if "slot_of addr = 3"
    using that by (auto simp: slot_of_eq word_le_nat_alt)
qed

lemma low_slot: "addr < 0x4000 \<longleftrightarrow> slot_of addr = 0"
  by (auto simp: slot_of_eq word_less_nat_alt)

lemma unat_high: "addr \<ge> 0xC000 \<Longrightarrow> unat (addr - 0xC000 :: u16) = unat addr mod 0x4000"
proof -
  assume h: "addr \<ge> 0xC000"
  then have "unat (addr - 0xC000) = unat addr - 0xC000"
    using unat_sub_if' [of addr "0xC000"] by (simp add: word_le_nat_alt)
  moreover have "unat addr div 0x4000 = 3"
    using h high_slot slot_of_eq by simp
  then have "unat addr mod 0x4000 = unat addr - 0xC000"
    using minus_mult_div_eq_mod [of "unat addr" "0x4000"] by simp
  ultimately show ?thesis by simp
qed

lemma unat_low: "addr < 0x4000 \<Longrightarrow> unat addr = unat (addr :: u16) mod 0x4000"
  by (simp add: word_less_nat_alt)

lemma mem_read_ptr: "mem_read m addr = deref m (read_ptr m addr)"
proof (cases "lower_rom_serves m addr")
  case True
  then show ?thesis
    using unat_low [of addr]
    by (auto simp: mem_read_def read_ptr_def deref_def clamp_bank_def lower_rom_serves_def Let_def
        split: option.splits if_splits)
next
  case False
  then show ?thesis
    by (auto simp: mem_read_def read_ptr_def deref_def clamp_bank_def unat_high Let_def split: option.splits)
qed

subsection \<open>The cached tables\<close>

definition rd_slot :: "mem_state \<Rightarrow> nat \<Rightarrow> mem_ptr" where
  "rd_slot m = rebuild_upper m (rebuild_lower m (\<lambda>s. banked_ptr m (push_bit 14 (of_nat s))))"

definition mem_coh :: "mem_state \<Rightarrow> bool" where
  "mem_coh m \<longleftrightarrow> m_fast_dirty m \<or>
    (\<forall>s < 4. m_wr_bank m s = banked_ptr m (push_bit 14 (of_nat s)) \<and> m_rd_bank m s = rd_slot m s)"

text \<open>The members the decode depends on.\<close>

definition same_map :: "mem_state \<Rightarrow> mem_state \<Rightarrow> bool" where
  "same_map m m' \<longleftrightarrow> m_rom_config m = m_rom_config m' \<and> m_ram_config m = m_ram_config m' \<and>
     m_ram_ext m = m_ram_ext m' \<and> m_rom_select m = m_rom_select m' \<and>
     (m_expansion m = None) = (m_expansion m' = None) \<and> m_expansion_len m = m_expansion_len m' \<and>
     (\<forall>r. (m_roms m r = None) = (m_roms m' r = None)) \<and> (m_cart m = None) = (m_cart m' = None) \<and>
     m_cart_banks m = m_cart_banks m' \<and> m_cart_lower m = m_cart_lower m' \<and>
     m_cart_lower_slot m = m_cart_lower_slot m' \<and> m_cart_upper m = m_cart_upper m'"

definition same_tables :: "mem_state \<Rightarrow> mem_state \<Rightarrow> bool" where
  "same_tables m m' \<longleftrightarrow> m_rd_bank m = m_rd_bank m' \<and> m_wr_bank m = m_wr_bank m' \<and>
     m_fast_dirty m = m_fast_dirty m'"

lemma same_map_decode:
  assumes "same_map m m'"
  shows "banked_ptr m = banked_ptr m'" "read_ptr m = read_ptr m'" "rd_slot m = rd_slot m'"
proof -
  have cfg: "bank_cfg m = bank_cfg m'" "exp_bank m = exp_bank m'"
    using assms by (auto simp: same_map_def bank_cfg_def exp_bank_def Let_def)
  then show b: "banked_ptr m = banked_ptr m'"
    by (simp add: banked_ptr_eq fun_eq_iff Let_def)
  have on: "lower_rom_on m = lower_rom_on m'" "upper_rom_on m = upper_rom_on m'"
    using assms by (simp_all add: same_map_def lower_rom_on_def upper_rom_on_def)
  show "read_ptr m = read_ptr m'"
    using assms b on
    by (simp add: fun_eq_iff read_ptr_def lower_rom_serves_def clamp_bank_def same_map_def)
  show "rd_slot m = rd_slot m'"
    using assms b on
    by (simp add: rd_slot_def rebuild_upper_def rebuild_lower_def same_map_def Let_def)
qed

lemma mem_coh_frame: "same_map m m' \<Longrightarrow> same_tables m m' \<Longrightarrow> mem_coh m \<longleftrightarrow> mem_coh m'"
  by (simp add: mem_coh_def same_map_decode same_tables_def)

lemma same_map_rebuild: "same_map (fast_rebuild m) m"
  by (simp add: same_map_def fast_rebuild_def Let_def)

lemma rebuild_slot: "s < 4 \<Longrightarrow> m_rd_bank (fast_rebuild m) s = rd_slot m s"
  by (simp add: fast_rebuild_def rd_slot_def rebuild_upper_def rebuild_lower_def Let_def)

lemma mem_coh_rebuild: "mem_coh (fast_rebuild m)"
  using rebuild_slot [of _ m]
  by (simp add: mem_coh_def same_map_decode [OF same_map_rebuild])
    (simp add: fast_rebuild_def Let_def)

lemma refreshed_clean: "mem_coh m \<Longrightarrow> mem_coh (refreshed m) \<and> \<not> m_fast_dirty (refreshed m)"
  by (simp add: refreshed_def mem_coh_rebuild) (simp add: fast_rebuild_def Let_def)

lemma same_map_refreshed: "same_map (refreshed m) m"
  by (simp add: refreshed_def same_map_rebuild) (simp add: same_map_def)

lemma refreshed_contents [simp]:
  "m_ram (refreshed m) = m_ram m" "m_expansion (refreshed m) = m_expansion m" "m_roms (refreshed m) = m_roms m"
  "m_cart (refreshed m) = m_cart m" "m_lower_rom (refreshed m) = m_lower_rom m"
  "m_upper_rom (refreshed m) = m_upper_rom m"
  by (simp_all add: refreshed_def fast_rebuild_def Let_def)

lemma deref_refreshed: "deref (refreshed m) p = deref m p"
  by (simp add: deref_def split: mem_ptr.split)

text \<open>The slot the cartridge's low page may occupy; slot 3 would make the two overlays fight.\<close>

lemma rd_slot_ptr:
  assumes "unat (m_cart_lower_slot m) \<le> 2"
  shows "ptr_add (rd_slot m (slot_of addr)) (unat addr mod 0x4000) = read_ptr m addr"
proof -
  have "ptr_add (P_cart n) k = P_cart (n + k)" "ptr_add (P_lower n) k = P_lower (n + k)"
    "ptr_add (P_upper n) k = P_upper (n + k)" "ptr_add (P_rom r n) k = P_rom r (n + k)" for n k r
    by (simp_all add: ptr_add_def)
  with assms show ?thesis
    by (cases "upper_rom_on m"; cases "lower_rom_on m"; cases "m_cart m = None")
      (auto simp: rd_slot_def rebuild_upper_def rebuild_lower_def read_ptr_def lower_rom_serves_def
        high_slot low_slot clamp_bank_def banked_ptr_contiguous Let_def)
qed

subsection \<open>Invariant\<close>

definition mem_ok :: "mem_state \<Rightarrow> bool" where
  "mem_ok m \<longleftrightarrow> mem_coh m \<and> unat (m_cart_lower_slot m) \<le> 2 \<and>
     (m_expansion m \<noteq> None \<longrightarrow> 0 < m_expansion_len m \<and> 0x10000 dvd m_expansion_len m) \<and>
     (m_cart m \<noteq> None \<longrightarrow> 0 < m_cart_banks m)"

lemma mem_ok_frame: "same_map m m' \<Longrightarrow> same_tables m m' \<Longrightarrow> mem_ok m' \<Longrightarrow> mem_ok m"
  by (auto simp: mem_ok_def mem_coh_frame) (auto simp: same_map_def)

lemma mem_ok_init: "mem_ok mem_init"
  by (simp add: mem_ok_def mem_coh_def mem_init_def mem_reset_def mem_zero_def)

lemma mem_ok_store [inv_intros]: "mem_ok m \<Longrightarrow> mem_ok (store m p v)"
  by (rule mem_ok_frame [of _ m])
    (auto simp: same_map_def same_tables_def store_def split: mem_ptr.split)

lemma mem_ok_refreshed [inv_intros]: "mem_ok m \<Longrightarrow> mem_ok (refreshed m)"
  using refreshed_clean [of m] same_map_refreshed [of m]
  by (auto simp: mem_ok_def same_map_def)

lemma membank_le: "unat (if drop_bit 3 (d :: u8) AND 3 = 3 then 0 else drop_bit 3 d AND 3) \<le> 2"
proof -
  have "unat (drop_bit 3 d AND 3) < 4"
    by (simp add: mask_simps unat_take_bit)
  moreover have "unat (drop_bit 3 d AND 3) \<noteq> 3" if "drop_bit 3 d AND 3 \<noteq> 3"
    using that by (simp add: word_unat_eq_iff)
  ultimately show ?thesis by force
qed

lemma mem_ok_decode [inv_intros]:
  assumes "mem_ok m"
  shows "mem_ok (mem_io_write_decode asic m addr d)"
proof -
  have "mem_ok (io_rom_config asic m addr d)"
    using assms membank_le [of d] by (simp add: io_rom_config_def mem_ok_def mem_coh_def Let_def)
  then have "mem_ok (io_ram_config (io_rom_config asic m addr d) addr d)"
    by (simp add: io_ram_config_def mem_ok_def mem_coh_def)
  then show ?thesis
    by (simp add: mem_io_write_decode_def io_rom_select_def mem_ok_def mem_coh_def)
qed

lemma mem_ok_latches [simp]:
  "mem_ok (m\<lparr>m_wr_armed := b\<rparr>) \<longleftrightarrow> mem_ok m" "mem_ok (m\<lparr>m_wr_prev := b\<rparr>) \<longleftrightarrow> mem_ok m"
  "mem_ok (m\<lparr>m_wr_addr := a\<rparr>) \<longleftrightarrow> mem_ok m" "mem_ok (m\<lparr>m_wr_val := v\<rparr>) \<longleftrightarrow> mem_ok m"
  "mem_ok (m\<lparr>m_ram := r\<rparr>) \<longleftrightarrow> mem_ok m" "mem_ok (m\<lparr>m_lower_rom := f\<rparr>) \<longleftrightarrow> mem_ok m"
  "mem_ok (m\<lparr>m_upper_rom := f\<rparr>) \<longleftrightarrow> mem_ok m"
  by (rule iffI; erule mem_ok_frame [rotated 2]; simp add: same_map_def same_tables_def)+

lemma mem_ok_step [inv_intros]:
  assumes "mem_ok m"
  shows "mem_ok (fst (mem_step asic m i))"
proof -
  have "mem_ok (mem_commit m' r)" if "mem_ok m'" for m' r
    using that by (simp add: mem_commit_def Let_def inv_intros)
  moreover have "mem_ok (mem_latch m' i)" if "mem_ok m'" for m'
    using that by (simp add: mem_latch_def Let_def)
  ultimately show ?thesis
    using assms by (simp add: mem_step_def Let_def inv_intros)
qed

lemma mem_ok_load [inv_intros]:
  assumes "mem_ok m" "mem_ok s"
  shows "mem_ok (mem_load m (mem_save s))"
  using assms by (auto simp: mem_ok_def mem_coh_def mem_load_def mem_save_def split: option.split)

lemma mem_ok_attach [inv_intros]:
  assumes "mem_ok m"
  shows "mem_ok (mem_attach_rom m n data)" "mem_ok (mem_attach_expansion m buf len)"
    "mem_ok (mem_load_cartridge m img bytes)" "mem_ok (mem_reset m)"
    "mem_ok (mem_load_lower_rom m bs)" "mem_ok (mem_load_upper_rom m bs)" "mem_ok (mem_write_ram m a v)"
    "mem_ok (mem_poke_cpu m a v)" "mem_ok (mem_fast_write m a v)" "mem_ok (snd (mem_fast_read m a))"
    "mem_ok (snd (mem_fast_write_off m a))" "mem_ok (mem_fast_io_write asic m a v)"
proof -
  show "mem_ok (mem_load_cartridge m img bytes)"
    using assms by (auto simp: mem_ok_def mem_coh_def mem_load_cartridge_def Let_def div_greater_zero_iff)
  show "mem_ok (mem_attach_expansion m buf len)"
    using assms by (auto simp: mem_ok_def mem_coh_def mem_attach_expansion_def Let_def minus_mod_eq_div_mult)
  show "mem_ok (snd (mem_fast_write_off m a))"
    using assms by (simp add: mem_fast_write_off_def Let_def inv_intros split: mem_ptr.split)
qed (use assms in \<open>simp_all add: mem_attach_rom_def mem_reset_def mem_load_lower_rom_def
    mem_load_upper_rom_def mem_write_ram_def mem_poke_cpu_def mem_fast_write_def mem_fast_read_def
    mem_fast_io_write_def Let_def inv_intros, simp_all add: mem_ok_def mem_coh_def\<close>)

subsection \<open>Interfaces provided\<close>

interpretation mem_drv: bus_driver "mem_tick asic" "\<lambda>m i. fst (mem_step asic m i)" "\<lambda>m i. snd (mem_step asic m i)"
  for asic
  by unfold_locales (simp add: mem_tick_def)

lemma io_rom_config_idem:
  "io_rom_config asic (io_ram_config (io_rom_config asic m a d) a d) a d = io_ram_config (io_rom_config asic m a d) a d"
  by (simp add: io_rom_config_def io_ram_config_def Let_def)

lemma io_ram_config_idem: "io_ram_config (io_ram_config m a d) a d = io_ram_config m a d"
  by (simp add: io_ram_config_def)

lemma io_select_commute:
  "io_rom_config asic (io_rom_select m a d) a d = io_rom_select (io_rom_config asic m a d) a d"
  "io_ram_config (io_rom_select m a d) a d = io_rom_select (io_ram_config m a d) a d"
  "io_rom_select (io_rom_select m a d) a d = io_rom_select m a d"
  by (simp_all add: io_rom_config_def io_ram_config_def io_rom_select_def Let_def)

lemma mem_decode_idem:
  "mem_io_write_decode asic (mem_io_write_decode asic m a d) a d = mem_io_write_decode asic m a d"
  by (simp add: mem_io_write_decode_def io_select_commute io_rom_config_idem io_ram_config_idem)

interpretation mem_held: held_write "mem_fast_io_write asic" for asic
  by unfold_locales (simp add: mem_fast_io_write_def mem_decode_idem)

subsection \<open>Reachable states\<close>

inductive mem_reach :: "mem_state \<Rightarrow> bool" where
  mr_init: "mem_reach mem_init"
| mr_tick: "mem_reach m \<Longrightarrow> mem_reach (fst (mem_step asic m i))"
| mr_reset: "mem_reach m \<Longrightarrow> mem_reach (mem_reset m)"
| mr_load: "mem_reach m \<Longrightarrow> mem_reach s \<Longrightarrow> mem_reach (mem_load m (mem_save s))"
| mr_rom: "mem_reach m \<Longrightarrow> mem_reach (mem_attach_rom m n data)"
| mr_expansion: "mem_reach m \<Longrightarrow> mem_reach (mem_attach_expansion m buf len)"
| mr_cartridge: "mem_reach m \<Longrightarrow> mem_reach (mem_load_cartridge m img bytes)"
| mr_lower: "mem_reach m \<Longrightarrow> mem_reach (mem_load_lower_rom m bs)"
| mr_upper: "mem_reach m \<Longrightarrow> mem_reach (mem_load_upper_rom m bs)"
| mr_write_ram: "mem_reach m \<Longrightarrow> mem_reach (mem_write_ram m a v)"
| mr_poke: "mem_reach m \<Longrightarrow> mem_reach (mem_poke_cpu m a v)"
| mr_fast_read: "mem_reach m \<Longrightarrow> mem_reach (snd (mem_fast_read m a))"
| mr_fast_write: "mem_reach m \<Longrightarrow> mem_reach (mem_fast_write m a v)"
| mr_fast_off: "mem_reach m \<Longrightarrow> mem_reach (snd (mem_fast_write_off m a))"
| mr_fast_io: "mem_reach m \<Longrightarrow> mem_reach (mem_fast_io_write asic m a v)"

lemma mem_reach_ok: "mem_reach m \<Longrightarrow> mem_ok m"
  by (induction rule: mem_reach.induct) (simp_all add: mem_ok_init inv_intros mem_ok_step mem_ok_load mem_ok_attach)

lemma clean_tables:
  assumes "mem_ok m" "s < 4"
  shows "m_wr_bank (refreshed m) s = banked_ptr (refreshed m) (push_bit 14 (of_nat s)) \<and>
    m_rd_bank (refreshed m) s = rd_slot (refreshed m) s"
  using assms refreshed_clean [of m] unfolding mem_ok_def mem_coh_def by blast

lemma wr_slot_ptr:
  assumes "mem_ok m"
  shows "ptr_add (m_wr_bank (refreshed m) (slot_of addr)) (unat addr mod 0x4000) = banked_ptr m addr"
proof -
  have "m_wr_bank (refreshed m) (slot_of addr) = banked_ptr (refreshed m) (push_bit 14 (of_nat (slot_of addr)))"
    using clean_tables [OF assms slot_of_less] by blast
  then show ?thesis
    by (simp add: same_map_decode [OF same_map_refreshed] banked_ptr_contiguous)
qed

lemma rd_slot_refreshed:
  assumes "mem_ok m"
  shows "ptr_add (m_rd_bank (refreshed m) (slot_of addr)) (unat addr mod 0x4000) = read_ptr m addr"
proof -
  have "m_rd_bank (refreshed m) (slot_of addr) = rd_slot (refreshed m) (slot_of addr)"
    using clean_tables [OF assms slot_of_less] by blast
  then show ?thesis
    using rd_slot_ptr assms by (simp add: same_map_decode [OF same_map_refreshed] mem_ok_def)
qed

lemma mem_fast_write_off_eq:
  assumes "mem_ok m"
  shows "fst (mem_fast_write_off m addr) =
    (case banked_ptr m addr of P_ram n \<Rightarrow> if n < 0x10000 then int n else - 1 | _ \<Rightarrow> - 1)"
  using wr_slot_ptr [OF assms, of addr]
  by (simp add: mem_fast_write_off_def Let_def split: mem_ptr.split)

text \<open>The object bounds every C access has to respect.\<close>

definition in_bounds :: "mem_state \<Rightarrow> mem_ptr \<Rightarrow> bool" where
  "in_bounds m p = (case p of P_null \<Rightarrow> False | P_ram n \<Rightarrow> n < 0x10000
    | P_exp n \<Rightarrow> m_expansion m \<noteq> None \<and> n < m_expansion_len m
    | P_lower n \<Rightarrow> n < 0x4000 | P_upper n \<Rightarrow> n < 0x4000
    | P_rom r n \<Rightarrow> m_roms m r \<noteq> None \<and> n < 0x4000
    | P_cart n \<Rightarrow> m_cart m \<noteq> None \<and> n < m_cart_banks m * 0x4000)"

lemma exp_bank_bound:
  assumes "0 < m_expansion_len m" "0x10000 dvd m_expansion_len m"
  shows "(exp_bank m + 1) * 0x10000 \<le> m_expansion_len m"
proof -
  have "0x10000 \<le> m_expansion_len m"
    using assms by (simp add: dvd_imp_le)
  then show ?thesis by (simp add: exp_bank_def Let_def)
qed

lemma bank_offset_less:
  fixes e p k :: nat
  assumes "p \<le> 3" "k < 0x4000"
  shows "e * 0x10000 + p * 0x4000 + k < (e + 1) * 0x10000"
proof -
  have "p * 0x4000 + k < 0x10000" using assms by linarith
  then show ?thesis by simp
qed

lemma banked_in_bounds:
  assumes "mem_ok m"
  shows "in_bounds m (banked_ptr m addr)"
proof -
  let ?p = "kBankTable ! bank_cfg m ! slot_of addr"
  have p: "?p < 8" by (simp add: kBankTable_page)
  have o: "unat addr mod 0x4000 < 0x4000" by simp
  show ?thesis
  proof (cases "?p < 4")
    case True
    then have "?p * 0x4000 + unat addr mod 0x4000 < 0x10000" using o by linarith
    with True show ?thesis by (simp add: banked_ptr_eq in_bounds_def Let_def)
  next
    case False
    have e: "m_expansion m \<noteq> None"
    proof
      assume "m_expansion m = None"
      then have "?p = slot_of addr"
        using slot_of_less [of addr] by (auto simp: bank_cfg_def kBankTable_def less_Suc_eq numeral_eq_Suc)
      with False show False by simp
    qed
    then have "(exp_bank m + 1) * 0x10000 \<le> m_expansion_len m"
      using assms exp_bank_bound by (simp add: mem_ok_def)
    moreover have "exp_bank m * 0x10000 + (?p - 4) * 0x4000 + unat addr mod 0x4000 < (exp_bank m + 1) * 0x10000"
      using p o by (intro bank_offset_less) simp_all
    ultimately show ?thesis
      using False e by (simp add: banked_ptr_eq in_bounds_def Let_def)
  qed
qed

lemma cart_bound:
  assumes "0 < m_cart_banks m"
  shows "clamp_bank m b * 0x4000 + unat (addr :: u16) mod 0x4000 < m_cart_banks m * 0x4000"
proof -
  have "clamp_bank m b < m_cart_banks m"
    using assms by (simp add: clamp_bank_def)
  moreover have "unat addr mod 0x4000 < 0x4000" by simp
  ultimately show ?thesis by linarith
qed

subsection \<open>Properties\<close>

text \<open>C3 (mem_fast_read_correct): In every reachable state the table-driven read of the Fast tier returns the byte the per-cycle
  decode returns, at every address and under every banking, ROM and cartridge configuration: the
  cached tables are never stale.\<close>
theorem mem_fast_read_correct:
  assumes "mem_reach m"
  shows "fst (mem_fast_read m addr) = mem_read m addr"
  using rd_slot_refreshed [OF mem_reach_ok [OF assms]]
  by (simp add: mem_fast_read_def Let_def mem_read_ptr deref_refreshed)

definition cart_machine :: mem_state where
  "cart_machine = mem_fast_io_write None (snd (mem_fast_read
     (mem_load_cartridge mem_init (Some (\<lambda>i. of_nat (i div 0x4000))) 0x10000) 0)) 0xDF00 0x83"

theorem mem_fast_read_correct_witness:
  "fst (mem_fast_read cart_machine 0xC005) = mem_read cart_machine 0xC005"
  unfolding cart_machine_def by (rule mem_fast_read_correct) (intro mem_reach.intros)

text \<open>C23 (mem_fast_write_correct): The table-driven write lands on the byte the per-cycle write lands on, and the write filter's
  answer is right: -1 exactly when the display's 64K is untouched by the write, and otherwise the one
  offset of it that receives the value.\<close>
theorem mem_fast_write_correct:
  assumes "mem_reach m"
  shows "mem_fast_write m addr v = mem_poke_cpu (refreshed m) addr v \<and>
    (case fst (mem_fast_write_off m addr) of off \<Rightarrow>
       if off = - 1 then mem_video_ram (mem_fast_write m addr v) = mem_video_ram m
       else 0 \<le> off \<and> off < 0x10000 \<and>
         mem_video_ram (mem_fast_write m addr v) = (mem_video_ram m)(nat off := v))"
proof -
  have wr: "ptr_add (m_wr_bank (refreshed m) (slot_of addr)) (unat addr mod 0x4000) = banked_ptr m addr"
    by (rule wr_slot_ptr [OF mem_reach_ok [OF assms]])
  have "in_bounds m (banked_ptr m addr)"
    by (rule banked_in_bounds [OF mem_reach_ok [OF assms]])
  then show ?thesis
    by (cases "banked_ptr m addr")
      (simp_all add: mem_fast_write_def mem_fast_write_off_def mem_poke_cpu_def mem_video_ram_def Let_def wr
        store_def in_bounds_def same_map_decode [OF same_map_refreshed])
qed

definition banked_machine :: mem_state where
  "banked_machine = mem_fast_io_write None (mem_attach_expansion mem_init (Some (\<lambda>_. 0)) 0x10000) 0x7F00 0xC4"

theorem mem_fast_write_correct_witness:
  "mem_fast_write banked_machine 0x4000 7 = mem_poke_cpu (refreshed banked_machine) 0x4000 7 \<and>
   mem_video_ram (mem_fast_write banked_machine 0x4000 7) = mem_video_ram banked_machine"
proof -
  have reach: "mem_reach banked_machine"
    unfolding banked_machine_def by (intro mem_reach.intros)
  have off: "fst (mem_fast_write_off banked_machine 0x4000) = - 1"
    using mem_fast_write_off_eq [OF mem_reach_ok [OF reach], of "0x4000"]
    by (simp add: banked_machine_def mem_fast_io_write_def mem_io_write_decode_def
      io_rom_config_def io_ram_config_def io_rom_select_def mem_attach_expansion_def mem_init_def mem_reset_def
      mem_zero_def slot_of_def banked_ptr_def kBankTable_def Let_def)
  show ?thesis
    using mem_fast_write_correct [OF reach, of "0x4000" 7] unfolding off if_P [OF refl] .
qed

text \<open>C24 (mem_in_bounds): In every reachable state, whatever the CPU address, the byte a read returns and the byte a write
  changes lie inside the object they are taken from: the 64K of RAM, the attached expansion, a 16K
  ROM or one of the cartridge's banks. The write target is RAM, never ROM.\<close>
theorem mem_in_bounds:
  assumes "mem_reach m"
  shows "mem_read m addr = deref m (read_ptr m addr) \<and> in_bounds m (read_ptr m addr) \<and>
    in_bounds m (banked_ptr m addr) \<and> (\<exists>n. banked_ptr m addr = P_ram n \<or> banked_ptr m addr = P_exp n)"
proof -
  have ok: "mem_ok m" by (rule mem_reach_ok [OF assms])
  then have "in_bounds m (read_ptr m addr)"
    using cart_bound [of m] banked_in_bounds [OF ok, of addr]
    by (auto simp: read_ptr_def in_bounds_def mem_ok_def)
  then show ?thesis
    using banked_in_bounds [OF ok] by (simp add: mem_read_ptr) (simp add: banked_ptr_eq Let_def)
qed

theorem mem_in_bounds_witness: "in_bounds banked_machine (banked_ptr banked_machine 0x7FFF)"
  using mem_in_bounds [of banked_machine "0x7FFF"]
  by (simp add: banked_machine_def mem_reach.intros)

text \<open>(mem_poke_peek): A poke reads back through the RAM view at its address; any other address changes only when it is
  banked onto the same physical byte; no ROM, cartridge or configuration byte changes.\<close>
theorem mem_poke_peek:
  assumes "mem_reach m"
  shows "mem_peek_ram (mem_poke_cpu m a v) b =
      (if banked_ptr m b = banked_ptr m a then v else mem_peek_ram m b) \<and>
    m_lower_rom (mem_poke_cpu m a v) = m_lower_rom m \<and> m_upper_rom (mem_poke_cpu m a v) = m_upper_rom m \<and>
    m_roms (mem_poke_cpu m a v) = m_roms m \<and> m_cart (mem_poke_cpu m a v) = m_cart m \<and>
    banked_ptr (mem_poke_cpu m a v) = banked_ptr m"
proof -
  have "same_map (mem_poke_cpu m a v) m"
    by (auto simp: same_map_def mem_poke_cpu_def store_def split: mem_ptr.split)
  then have same: "banked_ptr (mem_poke_cpu m a v) = banked_ptr m"
    by (rule same_map_decode)
  have "in_bounds m (banked_ptr m a)" "in_bounds m (banked_ptr m b)"
    by (rule banked_in_bounds [OF mem_reach_ok [OF assms]])+
  then have "deref (mem_poke_cpu m a v) (banked_ptr m b) =
      (if banked_ptr m b = banked_ptr m a then v else deref m (banked_ptr m b))"
    by (cases "banked_ptr m a"; cases "banked_ptr m b")
      (auto simp: mem_poke_cpu_def store_def deref_def banked_ptr_eq Let_def in_bounds_def split: if_splits)
  then show ?thesis
    by (simp add: mem_peek_ram_def same)
      (simp add: mem_poke_cpu_def store_def split: mem_ptr.split)
qed

theorem mem_poke_peek_witness:
  "mem_peek_ram (mem_poke_cpu banked_machine 0x4001 9) 0x4001 = 9"
  using mem_poke_peek [of banked_machine "0x4001" 9 "0x4001"]
  by (simp add: banked_machine_def mem_reach.intros)

text \<open>(mem_write_latch): A CPU write is latched on the first cycle of its strobes and decided on the next one: the banked byte
  takes the value unless an expansion asserts RAMDIS there, and while the strobes stay up nothing more
  is written.\<close>
theorem mem_write_latch:
  assumes "\<not> m_wr_armed m" and "\<not> m_wr_prev m"
    and "cpu_mreq (b_cpu i)" and "cpu_wr (b_cpu i)" and "\<not> cpu_iorq (b_cpu i)"
    and "cpu_mreq (b_cpu j)" and "cpu_wr (b_cpu j)" and "\<not> cpu_iorq (b_cpu j)"
  shows "fst (mem_step asic (fst (mem_step asic m i)) j) =
    (if cpu_ramdis (b_cpu j) then m else mem_poke_cpu m (cpu_addr (b_cpu i)) (cpu_data (b_cpu i)))
      \<lparr>m_wr_addr := cpu_addr (b_cpu i), m_wr_val := cpu_data (b_cpu i), m_wr_armed := False, m_wr_prev := True\<rparr>"
proof -
  have "banked_ptr (m\<lparr>m_wr_addr := a, m_wr_val := d, m_wr_armed := x, m_wr_prev := y\<rparr>) = banked_ptr m" for a d x y
    by (rule same_map_decode(1)) (simp add: same_map_def)
  then show ?thesis
    using assms
    by (simp add: mem_step_def mem_commit_def mem_latch_def mem_poke_cpu_def store_def Let_def split: mem_ptr.split)
qed

definition mem_write_bus :: Bus where
  "mem_write_bus = bus_resting\<lparr>b_cpu := (b_cpu bus_resting)\<lparr>cpu_addr := 0x4000, cpu_data := 3, cpu_mreq := True,
     cpu_wr := True\<rparr>\<rparr>"

theorem mem_write_latch_witness:
  "m_ram (fst (mem_step None (fst (mem_step None mem_init mem_write_bus)) mem_write_bus)) 0x4000 = 3"
  using mem_write_latch [of mem_init mem_write_bus mem_write_bus None]
  by (simp add: mem_write_bus_def bus_resting_def mem_init_def mem_reset_def mem_zero_def mem_poke_cpu_def
      banked_ptr_def kBankTable_def slot_of_def store_def Let_def)

text \<open>(mem_blob_roundtrip): Loading a saved state into a machine with the same amount of expansion RAM fitted restores base RAM,
  the expansion contents and every latch, keeps the target's own attachments, and leaves the cached
  tables marked for rebuilding.\<close>
theorem mem_blob_roundtrip:
  assumes "m_expansion_len t = m_expansion_len s" and "m_expansion s = Some e" and "m_expansion t = Some f"
    and "0 < m_expansion_len s"
  shows "mem_load t (mem_save s) = s\<lparr>m_roms := m_roms t, m_cart := m_cart t, m_cart_banks := m_cart_banks t,
      m_expansion := Some (\<lambda>i. if i < m_expansion_len s then e i else f i),
      m_rd_bank := (\<lambda>_. P_null), m_wr_bank := (\<lambda>_. P_null), m_fast_dirty := True\<rparr>"
  using assms by (simp add: mem_load_def mem_save_def fun_eq_iff cong: if_cong)

theorem mem_blob_roundtrip_witness:
  "m_ram_config (mem_load (mem_attach_expansion mem_init (Some (\<lambda>_. 1)) 0x10000) (mem_save banked_machine)) = 0xC4"
  using mem_blob_roundtrip [of "mem_attach_expansion mem_init (Some (\<lambda>_. 1)) 0x10000" banked_machine "\<lambda>_. 0" "\<lambda>_. 1"]
  by (simp add: banked_machine_def mem_attach_expansion_def mem_fast_io_write_def mem_io_write_decode_def
      io_rom_config_def io_ram_config_def io_rom_select_def mem_init_def mem_reset_def mem_zero_def Let_def)

end
