(* ===== verification/Ppi.thy ===== *)
theory Ppi
  imports Contracts
begin

text \<open>
  The 8255 PPI, \<open>src/src/hw/ppi.cpp\<close>: the AY data bus on Port A, the status inputs on Port B, the
  keyboard row, AY control and cassette lines on Port C, the mode-set and bit set/reset commands,
  and the event-driven seam of the Fast tier. Fields are named \<open>pp_x\<close> for the C member \<open>x\<close>.
\<close>

record ppi_state =
  pp_portA :: u8
  pp_portB :: u8
  pp_portC :: u8
  pp_control :: u8
  pp_jumpers :: u8
  pp_printer_ready :: bool
  pp_tape_motor :: bool

definition ppi_init :: ppi_state where
  "ppi_init = \<lparr> pp_portA = 0, pp_portB = 0, pp_portC = 0, pp_control = 0, pp_jumpers = 0x1E,
    pp_printer_ready = False, pp_tape_motor = False \<rparr>"

definition portA_input :: "ppi_state \<Rightarrow> bool" where
  "portA_input p \<longleftrightarrow> pp_control p AND 0x10 \<noteq> 0"

definition portB_input :: "ppi_state \<Rightarrow> bool" where
  "portB_input p \<longleftrightarrow> pp_control p AND 0x02 \<noteq> 0"

definition portC_lower_input :: "ppi_state \<Rightarrow> bool" where
  "portC_lower_input p \<longleftrightarrow> pp_control p AND 0x01 \<noteq> 0"

definition portC_upper_input :: "ppi_state \<Rightarrow> bool" where
  "portC_upper_input p \<longleftrightarrow> pp_control p AND 0x08 \<noteq> 0"

definition read_portB :: "ppi_state \<Rightarrow> bool \<Rightarrow> bool \<Rightarrow> u8" where
  "read_portB p vsync rdata =
    (if vsync then 0x01 else 0x00) OR (pp_jumpers p AND 0x1E) OR 0x20 OR
    (if pp_printer_ready p then 0x00 else 0x40) OR (if rdata then 0x80 else 0x00)"

definition read_portC :: "ppi_state \<Rightarrow> u8" where
  "read_portC p =
    (let v = pp_portC p;
         v1 = (if portC_upper_input p then
                 (let ctl = pp_portC p AND 0xC0;
                      ctl' = (if ctl = 0xC0 then 0x80 else ctl);
                      w = (v AND 0x0F) OR (ctl' OR 0x20)
                  in if pp_tape_motor p then w OR 0x10 else w)
               else v)
     in if portC_lower_input p then v1 OR 0x0F else v1)"

definition portC_latched :: "ppi_state \<Rightarrow> ppi_state" where
  "portC_latched p =
    (if \<not> portC_upper_input p then p\<lparr>pp_tape_motor := (pp_portC p AND 0x10 \<noteq> 0)\<rparr> else p)"

text \<open>The value a read drives; \<open>None\<close> for the write-only control register, which floats.\<close>

definition ppi_read :: "ppi_state \<Rightarrow> Bus \<Rightarrow> u8 \<Rightarrow> u8 option" where
  "ppi_read p i port =
    (if port = 0 then Some (if portA_input p then ay_da (b_ay i) else pp_portA p)
     else if port = 1 then
       Some (if portB_input p then read_portB p (vid_vsync (b_vid i)) (tape_rdata (b_tape i)) else pp_portB p)
     else if port = 2 then Some (read_portC p)
     else None)"

definition ppi_bsr :: "ppi_state \<Rightarrow> u8 \<Rightarrow> ppi_state" where
  "ppi_bsr p val =
    (let b = unat (drop_bit 1 val AND 0x07) in
     portC_latched (p\<lparr>pp_portC := (if val AND 0x01 \<noteq> 0 then pp_portC p OR push_bit b 1
                                    else pp_portC p AND NOT (push_bit b 1))\<rparr>))"

definition ppi_write :: "ppi_state \<Rightarrow> u8 \<Rightarrow> u8 \<Rightarrow> ppi_state" where
  "ppi_write p port val =
    (if port = 0 then p\<lparr>pp_portA := val\<rparr>
     else if port = 1 then p\<lparr>pp_portB := val\<rparr>
     else if port = 2 then portC_latched (p\<lparr>pp_portC := val\<rparr>)
     else if port = 3 then
       (if val AND 0x80 \<noteq> 0
        then p\<lparr>pp_control := val, pp_portA := 0, pp_portB := 0, pp_portC := 0\<rparr>
        else ppi_bsr p val)
     else p)"

definition ppi_port :: "u16 \<Rightarrow> u8" where
  "ppi_port addr = ucast (drop_bit 8 addr AND 0x03)"

definition ppi_publish :: "ppi_state \<Rightarrow> Bus \<Rightarrow> asg list" where
  "ppi_publish p i =
    (if \<not> cpu_busak (b_cpu i) then
       [Dr_ay_bdir (pp_portC p AND 0x80 \<noteq> 0), Dr_ay_bc1 (pp_portC p AND 0x40 \<noteq> 0),
        Dr_ay_kbd_row (pp_portC p AND 0x0F)] @ (if \<not> portA_input p then [Dr_ay_da (pp_portA p)] else [])
     else []) @
    [Dr_tape_motor (pp_tape_motor p),
     Dr_tape_wdata (\<not> portC_upper_input p \<and> pp_portC p AND 0x20 \<noteq> 0)]"

definition ppi_step :: "ppi_state \<Rightarrow> Bus \<Rightarrow> ppi_state \<times> asg list" where
  "ppi_step p i =
    (let ds = ppi_publish p i; port = ppi_port (cpu_addr (b_cpu i)) in
     if \<not> cpu_iorq (b_cpu i) \<or> cpu_addr (b_cpu i) AND 0x0800 \<noteq> 0 then (p, ds)
     else if cpu_rd (b_cpu i) then
       (p, ds @ (case ppi_read p i port of None \<Rightarrow> [] | Some v \<Rightarrow> [Dr_data v]))
     else if cpu_wr (b_cpu i) then (ppi_write p port (cpu_data (b_cpu i)), ds)
     else (p, ds))"

definition ppi_tick :: "ppi_state \<Rightarrow> Bus \<Rightarrow> Bus \<Rightarrow> ppi_state \<times> Bus" where
  "ppi_tick p i out = (fst (ppi_step p i), drive (snd (ppi_step p i)) out)"

definition ppi_reset :: "ppi_state \<Rightarrow> ppi_state" where
  "ppi_reset p = ppi_init\<lparr>pp_jumpers := pp_jumpers p, pp_control := 0x9B\<rparr>"

definition ppi_save :: "ppi_state \<Rightarrow> u8 \<times> ppi_state" where
  "ppi_save p = (1, p)"

definition ppi_load :: "ppi_state \<Rightarrow> u8 \<times> ppi_state \<Rightarrow> ppi_state" where
  "ppi_load p blob = (if fst blob = 1 then snd blob else p)"

definition ppi_set_jumpers :: "ppi_state \<Rightarrow> u8 \<Rightarrow> ppi_state" where
  "ppi_set_jumpers p jumpers = p\<lparr>pp_jumpers := jumpers\<rparr>"

definition ppi_set_printer_ready :: "ppi_state \<Rightarrow> int \<Rightarrow> ppi_state" where
  "ppi_set_printer_ready p ready = p\<lparr>pp_printer_ready := (ready \<noteq> 0)\<rparr>"

record PpiAyLines =
  ln_bdir :: bool
  ln_bc1 :: bool
  ln_kbd_row :: u8
  ln_da :: u8
  ln_tape_motor :: bool
  ln_tape_wdata :: bool

definition ppi_fast_lines :: "ppi_state \<Rightarrow> PpiAyLines" where
  "ppi_fast_lines p =
    \<lparr> ln_bdir = (pp_portC p AND 0x80 \<noteq> 0), ln_bc1 = (pp_portC p AND 0x40 \<noteq> 0),
      ln_kbd_row = pp_portC p AND 0x0F, ln_da = (if portA_input p then 0xFF else pp_portA p),
      ln_tape_motor = pp_tape_motor p,
      ln_tape_wdata = (\<not> portC_upper_input p \<and> pp_portC p AND 0x20 \<noteq> 0) \<rparr>"

text \<open>Returns the C result (whether a line moved), the lines after the write (\<open>None\<close> when the port
  is not the PPI's and \<open>after\<close> is left alone) and the new state.\<close>

definition ppi_fast_io_write :: "ppi_state \<Rightarrow> u16 \<Rightarrow> u8 \<Rightarrow> bool \<times> PpiAyLines option \<times> ppi_state" where
  "ppi_fast_io_write p port val =
    (if port AND 0x0800 \<noteq> 0 then (False, None, p)
     else
       (let before = ppi_fast_lines p; p1 = ppi_write p (ppi_port port) val; after = ppi_fast_lines p1
        in (before \<noteq> after, Some after, p1)))"

definition ppi_fast_io_read :: "ppi_state \<Rightarrow> u16 \<Rightarrow> bool \<Rightarrow> bool \<Rightarrow> u8 \<Rightarrow> u8 option" where
  "ppi_fast_io_read p port vsync rdata da =
    (if port AND 0x0800 \<noteq> 0 then None
     else
       (let n = drop_bit 8 port AND 0x03 in
        if n = 0 then Some (if portA_input p then da else pp_portA p)
        else if n = 1 then Some (if portB_input p then read_portB p vsync rdata else pp_portB p)
        else if n = 2 then Some (read_portC p)
        else None))"

subsection \<open>Lemmas\<close>

lemma ppi_port_eq:
  fixes a :: u16
  shows "ppi_port a = 0 \<longleftrightarrow> drop_bit 8 a AND 0x03 = 0" "ppi_port a = 1 \<longleftrightarrow> drop_bit 8 a AND 0x03 = 1"
    "ppi_port a = 2 \<longleftrightarrow> drop_bit 8 a AND 0x03 = 2" "ppi_port a = 3 \<longleftrightarrow> drop_bit 8 a AND 0x03 = 3"
proof -
  have "unat (drop_bit 8 a AND 3) < 4"
    using and_mask_less' [of 2 "drop_bit 8 a"] by (simp add: mask_eq_exp_minus_1 word_less_nat_alt)
  then have "unat (ppi_port a) = unat (drop_bit 8 a AND 3)"
    by (simp add: ppi_port_def unsigned_ucast_eq take_bit_nat_eq_self)
  then show "ppi_port a = 0 \<longleftrightarrow> drop_bit 8 a AND 0x03 = 0" "ppi_port a = 1 \<longleftrightarrow> drop_bit 8 a AND 0x03 = 1"
    "ppi_port a = 2 \<longleftrightarrow> drop_bit 8 a AND 0x03 = 2" "ppi_port a = 3 \<longleftrightarrow> drop_bit 8 a AND 0x03 = 3"
    by (simp_all add: word_unat_eq_iff)
qed

lemma portC_latched_idem: "portC_latched (portC_latched p) = portC_latched p"
  by (simp add: portC_latched_def portC_upper_input_def)

lemma ppi_bsr_idem: "ppi_bsr (ppi_bsr p v) v = ppi_bsr p v"
  by (simp add: ppi_bsr_def portC_latched_def portC_upper_input_def Let_def or.assoc and.assoc)

lemma ppi_write_idem: "ppi_write (ppi_write p port v) port v = ppi_write p port v"
  by (simp add: ppi_write_def ppi_bsr_idem portC_latched_def portC_upper_input_def)

interpretation ppi_drv: bus_driver ppi_tick "\<lambda>p i. fst (ppi_step p i)" "\<lambda>p i. snd (ppi_step p i)"
  by unfold_locales (simp add: ppi_tick_def)

interpretation ppi_held: held_write "\<lambda>p port v. snd (snd (ppi_fast_io_write p port v))"
  by unfold_locales (simp add: ppi_fast_io_write_def ppi_write_idem Let_def)

interpretation ppi_blob: state_blob ppi_save ppi_load "\<lambda>p. p" "\<lambda>p. ()"
  by unfold_locales (simp_all add: ppi_save_def ppi_load_def)

subsection \<open>Properties\<close>

text \<open>(ppi_bsr_one_bit): A bit set/reset command changes the one bit of Port C its bits 1-3 name, to its bit 0, and no
  other; with the upper half an output the cassette motor follows bit 4. The other latches and the
  directions stay.\<close>
theorem ppi_bsr_one_bit:
  assumes "\<not> bit val 7"
  shows "bit (pp_portC (ppi_write p 3 val)) n =
      (if n = unat (take_bit 3 (drop_bit 1 val)) then bit val 0 else bit (pp_portC p) n) \<and>
    pp_portA (ppi_write p 3 val) = pp_portA p \<and> pp_portB (ppi_write p 3 val) = pp_portB p \<and>
    pp_control (ppi_write p 3 val) = pp_control p \<and>
    pp_tape_motor (ppi_write p 3 val) =
      (if portC_upper_input p then pp_tape_motor p else bit (pp_portC (ppi_write p 3 val)) 4)"
proof -
  let ?b = "unat (take_bit 3 (drop_bit 1 val))"
  have b: "?b < 8" using unat_take_bit_less [of 3 "drop_bit 1 val"] by simp
  have m: "val AND 0x80 = 0" using assms by (simp add: mask_simps)
  have set: "val AND 1 \<noteq> 0 \<longleftrightarrow> bit val 0"
    by (simp add: and_one_eq bit_0 mod_2_eq_odd)
  have "bit (pp_portC (ppi_write p 3 val)) n = (if n = ?b then bit val 0 else bit (pp_portC p) n)"
    using b m set
    by (auto simp: ppi_write_def ppi_bsr_def portC_latched_def Let_def and_low_mask8 bit_simps
        simp del: bit_0 dest: bit_imp_le_length)
  then show ?thesis
    using m by (simp add: ppi_write_def ppi_bsr_def portC_latched_def portC_upper_input_def Let_def mask_simps)
qed

theorem ppi_bsr_one_bit_witness: "bit (pp_portC (ppi_write ppi_init 3 0x09)) 4"
  using ppi_bsr_one_bit [of "0x09" ppi_init 4] by simp

text \<open>(ppi_fast_read_agrees): On a read cycle of the PPI's ports the Fast tier's read event returns, from the same VSYNC, cassette
  and AY levels, the byte the tick drives on the data bus, and returns nothing exactly when the tick
  leaves the bus floating.\<close>
theorem ppi_fast_read_agrees:
  assumes "cpu_iorq (b_cpu i)" and "cpu_rd (b_cpu i)"
  shows "cpu_data (b_cpu (snd (ppi_tick p i bus_resting))) =
    (case ppi_fast_io_read p (cpu_addr (b_cpu i)) (vid_vsync (b_vid i)) (tape_rdata (b_tape i)) (ay_da (b_ay i))
     of None \<Rightarrow> 0xFF | Some v \<Rightarrow> v)"
proof -
  have "cpu_data (b_cpu (drive (ppi_publish p i) bus_resting)) = 0xFF"
    by (simp add: ppi_publish_def bus_resting_def drive_append)
  then show ?thesis
    using assms
    by (simp add: ppi_tick_def ppi_step_def ppi_fast_io_read_def ppi_read_def ppi_port_eq Let_def drive_append
        split: option.split)
qed

definition ppi_read_bus :: "u16 \<Rightarrow> Bus" where
  "ppi_read_bus a = bus_resting\<lparr>b_cpu := (b_cpu bus_resting)\<lparr>cpu_addr := a, cpu_iorq := True, cpu_rd := True\<rparr>\<rparr>"

theorem ppi_fast_read_agrees_witness:
  "cpu_data (b_cpu (snd (ppi_tick ppi_init (ppi_read_bus 0xF600) bus_resting))) =
   (case ppi_fast_io_read ppi_init 0xF600 False False 0 of None \<Rightarrow> 0xFF | Some v \<Rightarrow> v)"
  using ppi_fast_read_agrees [of "ppi_read_bus 0xF600" ppi_init]
  by (simp add: ppi_read_bus_def bus_resting_def)

text \<open>(ppi_lines_agree): On a cycle with no I/O and no bus grant, the lines the tick publishes are the lines the Fast tier
  reports, with one exception: the AY data lines agree exactly when Port A is an output. Undriven, the
  committed bus rests at 0 while the Fast tier reports the pulled-up 0xFF.\<close>
theorem ppi_lines_agree:
  assumes "\<not> cpu_iorq (b_cpu i)" and "\<not> cpu_busak (b_cpu i)"
  shows "case snd (ppi_tick p i bus_resting) of out \<Rightarrow>
    ay_bdir (b_ay out) = ln_bdir (ppi_fast_lines p) \<and> ay_bc1 (b_ay out) = ln_bc1 (ppi_fast_lines p) \<and>
    ay_kbd_row (b_ay out) = ln_kbd_row (ppi_fast_lines p) \<and>
    tape_motor (b_tape out) = ln_tape_motor (ppi_fast_lines p) \<and>
    tape_wdata (b_tape out) = ln_tape_wdata (ppi_fast_lines p) \<and>
    (ay_da (b_ay out) = ln_da (ppi_fast_lines p) \<longleftrightarrow> \<not> portA_input p)"
  using assms
  by (simp add: ppi_tick_def ppi_step_def ppi_publish_def ppi_fast_lines_def bus_resting_def)

theorem ppi_lines_agree_witness:
  "ay_da (b_ay (snd (ppi_tick (ppi_reset ppi_init) bus_resting bus_resting))) = ln_da (ppi_fast_lines (ppi_reset ppi_init))
    \<longleftrightarrow> \<not> portA_input (ppi_reset ppi_init)"
  using ppi_lines_agree [of bus_resting "ppi_reset ppi_init"] by (simp add: bus_resting_def)

text \<open>(ppi_held_write): A write held on the bus for any number of cycles has the effect of the Fast tier's one write event, and
  that event reports a change exactly when a published line moved.\<close>
theorem ppi_held_write:
  "((\<lambda>p. fst (ppi_step p (io_write_bus port v))) ^^ Suc n) p = snd (snd (ppi_fast_io_write p port v)) \<and>
   (fst (ppi_fast_io_write p port v) \<longleftrightarrow>
     ppi_fast_lines (snd (snd (ppi_fast_io_write p port v))) \<noteq> ppi_fast_lines p)"
proof -
  have "(\<lambda>p. fst (ppi_step p (io_write_bus port v))) = (\<lambda>p. snd (snd (ppi_fast_io_write p port v)))"
    by (simp add: fun_eq_iff ppi_step_def ppi_fast_io_write_def Let_def)
  then show ?thesis
    using ppi_held.held [where a = port and d = v and n = n and s = p]
    by (auto simp: ppi_fast_io_write_def Let_def)
qed

end
