(* ===== verification/Psg.thy ===== *)
theory Psg
  imports Contracts
begin

text \<open>
  The AY-3-8912, \<open>src/src/hw/psg.cpp\<close>: the register file behind the edge-triggered AY bus, the tone,
  noise and envelope generators with their prescalers, the mixer, the keyboard port, and the batch
  seam with its closed-form quiet skip. Fields are named \<open>ps_x\<close> for the C member \<open>x\<close>. The
  \<open>uint16_t\<close> prescalers and period counters are naturals with the wrap at 65536 written out; the
  register index and the 5-bit levels and step, which never leave 0..31, are naturals too;
  \<open>uint32_t\<close> sums of the batch seam stay far below their wrap.
\<close>

subsection \<open>State\<close>

definition kRegMask :: "u8 list" where
  "kRegMask = [0xFF, 0x0F, 0xFF, 0x0F, 0xFF, 0x0F, 0x1F, 0xFF,
    0x1F, 0x1F, 0x1F, 0xFF, 0xFF, 0x0F, 0xFF, 0xFF]"

record psg_state =
  ps_reg :: "nat \<Rightarrow> u8"
  ps_sel :: nat
  ps_bc1_prev :: bool
  ps_bdir_prev :: bool
  ps_da_prev :: u8
  ps_scanned_rows :: u16
  ps_tone_div :: nat
  ps_tone_cnt :: "nat \<Rightarrow> nat"
  ps_tone_out :: u8
  ps_noise_div :: nat
  ps_noise_cnt :: nat
  ps_noise_lfsr :: u32
  ps_noise_out :: u8
  ps_env_div :: nat
  ps_env_cnt :: nat
  ps_env_step :: nat
  ps_env_level :: nat
  ps_env_attack_seg :: bool
  ps_env_holding :: bool
  ps_env_direction :: u8
  ps_chan_level :: "nat \<Rightarrow> nat"
  ps_key_matrix :: "nat \<Rightarrow> u8"

definition psg_fresh :: "(nat \<Rightarrow> u8) \<Rightarrow> psg_state" where
  "psg_fresh matrix =
    \<lparr> ps_reg = (\<lambda>_. 0), ps_sel = 0, ps_bc1_prev = False, ps_bdir_prev = False, ps_da_prev = 0xFF,
      ps_scanned_rows = 0, ps_tone_div = 0, ps_tone_cnt = (\<lambda>_. 0), ps_tone_out = 0, ps_noise_div = 0,
      ps_noise_cnt = 0, ps_noise_lfsr = 1, ps_noise_out = 0, ps_env_div = 0, ps_env_cnt = 0,
      ps_env_step = 0, ps_env_level = 0, ps_env_attack_seg = False, ps_env_holding = False,
      ps_env_direction = 0, ps_chan_level = (\<lambda>_. 0), ps_key_matrix = matrix \<rparr>"

definition psg_reset :: "psg_state \<Rightarrow> psg_state" where
  "psg_reset p = psg_fresh (ps_key_matrix p)"

definition psg_init :: psg_state where
  "psg_init = psg_reset (psg_fresh (\<lambda>_. 0xFF))"

subsection \<open>Generators\<close>

definition inc16 :: "nat \<Rightarrow> nat" where
  "inc16 x = (x + 1) mod 65536"

definition tone_period :: "psg_state \<Rightarrow> nat \<Rightarrow> nat" where
  "tone_period p chan =
    (let lo = chan * 2;
         period = unat (ucast (ps_reg p lo) OR push_bit 8 (ucast (ps_reg p (lo + 1) AND 0x0F)) :: u16)
     in if period \<noteq> 0 then period else 1)"

definition env_restart :: "psg_state \<Rightarrow> psg_state" where
  "env_restart p =
    (let attack = (ps_reg p 13 AND 0x04 \<noteq> 0) in
     p\<lparr>ps_env_holding := False, ps_env_step := 0, ps_env_attack_seg := attack,
       ps_env_level := (if attack then 0 else 31), ps_env_direction := (if attack then 0x01 else 0xFF)\<rparr>)"

definition env_clock :: "psg_state \<Rightarrow> psg_state" where
  "env_clock p =
    (if ps_env_holding p then p\<lparr>ps_env_direction := 0\<rparr>
     else if ps_env_step p < 31 then
       (let s = ps_env_step p + 1 in
        p\<lparr>ps_env_step := s, ps_env_level := (if ps_env_attack_seg p then s else 31 - s),
          ps_env_direction := (if ps_env_attack_seg p then 0x01 else 0xFF)\<rparr>)
     else
       (let shape = ps_reg p 13; q = p\<lparr>ps_env_step := 0\<rparr> in
        if shape AND 0x08 = 0 then
          q\<lparr>ps_env_holding := True, ps_env_level := 0, ps_env_direction := 0\<rparr>
        else if shape AND 0x01 \<noteq> 0 then
          q\<lparr>ps_env_holding := True,
            ps_env_level := (if shape AND 0x02 \<noteq> 0 then (if ps_env_attack_seg p then 0 else 31)
                             else (if ps_env_attack_seg p then 31 else 0)),
            ps_env_direction := 0\<rparr>
        else
          (let att = (if shape AND 0x02 \<noteq> 0 then \<not> ps_env_attack_seg p else ps_env_attack_seg p) in
           q\<lparr>ps_env_attack_seg := att, ps_env_level := (if att then 0 else 31),
             ps_env_direction := (if att then 0x01 else 0xFF)\<rparr>)))"

definition tone_chan :: "nat \<Rightarrow> psg_state \<Rightarrow> psg_state" where
  "tone_chan chan p =
    (let c = inc16 (ps_tone_cnt p chan) in
     if c \<ge> tone_period p chan
     then p\<lparr>ps_tone_cnt := (ps_tone_cnt p)(chan := 0), ps_tone_out := ps_tone_out p XOR push_bit chan 1\<rparr>
     else p\<lparr>ps_tone_cnt := (ps_tone_cnt p)(chan := c)\<rparr>)"

definition tone_step :: "psg_state \<Rightarrow> psg_state" where
  "tone_step p =
    (let d = inc16 (ps_tone_div p) in
     if d < 8 then p\<lparr>ps_tone_div := d\<rparr>
     else fold tone_chan [0..<3] (p\<lparr>ps_tone_div := 0\<rparr>))"

definition noise_period :: "psg_state \<Rightarrow> nat" where
  "noise_period p = (let n = unat (ps_reg p 6 AND 0x1F) in if n \<noteq> 0 then n else 1)"

definition lfsr_shift :: "u32 \<Rightarrow> u32" where
  "lfsr_shift l = (let tap = (l XOR drop_bit 3 l) AND 1 in drop_bit 1 l OR push_bit 16 tap)"

definition noise_step :: "psg_state \<Rightarrow> psg_state" where
  "noise_step p =
    (let d = inc16 (ps_noise_div p) in
     if d < 16 then p\<lparr>ps_noise_div := d\<rparr>
     else
       (let c = inc16 (ps_noise_cnt p) in
        if c < noise_period p then p\<lparr>ps_noise_div := 0, ps_noise_cnt := c\<rparr>
        else
          (let l = lfsr_shift (ps_noise_lfsr p) in
           p\<lparr>ps_noise_div := 0, ps_noise_cnt := 0, ps_noise_lfsr := l, ps_noise_out := ucast (l AND 1)\<rparr>)))"

definition env_period :: "psg_state \<Rightarrow> nat" where
  "env_period p =
    (let n = unat (ucast (ps_reg p 11) OR push_bit 8 (ucast (ps_reg p 12)) :: u16) in if n \<noteq> 0 then n else 1)"

definition envelope_step :: "psg_state \<Rightarrow> psg_state" where
  "envelope_step p =
    (let d = inc16 (ps_env_div p) in
     if d < 256 then p\<lparr>ps_env_div := d\<rparr>
     else
       (let c = inc16 (ps_env_cnt p) in
        if c < env_period p then p\<lparr>ps_env_div := 0, ps_env_cnt := c\<rparr>
        else env_clock (p\<lparr>ps_env_div := 0, ps_env_cnt := 0\<rparr>)))"

definition chan_mix :: "psg_state \<Rightarrow> nat \<Rightarrow> nat" where
  "chan_mix p chan =
    (let mixer = ps_reg p 7;
         tone_dis = (drop_bit chan mixer AND 1 \<noteq> 0);
         noise_dis = (drop_bit (chan + 3) mixer AND 1 \<noteq> 0);
         tbit = (drop_bit chan (ps_tone_out p) AND 1 \<noteq> 0);
         audible = ((tbit \<or> tone_dis) \<and> (ps_noise_out p \<noteq> 0 \<or> noise_dis));
         amp = ps_reg p (8 + chan)
     in if amp AND 0x10 \<noteq> 0 then (if audible then ps_env_level p else 0)
        else (if audible then unat (amp AND 0x0F) * 2 + 1 else 0))"

definition mixer_step :: "psg_state \<Rightarrow> psg_state" where
  "mixer_step p = p\<lparr>ps_chan_level := (\<lambda>chan. if chan < 3 then chan_mix p chan else ps_chan_level p chan)\<rparr>"

definition sound_step :: "psg_state \<Rightarrow> psg_state" where
  "sound_step p = mixer_step (envelope_step (noise_step (tone_step p)))"

subsection \<open>The AY bus\<close>

definition ay_apply :: "psg_state \<Rightarrow> bool \<Rightarrow> bool \<Rightarrow> u8 \<Rightarrow> psg_state" where
  "ay_apply p bdir bc1 da =
    (if bdir \<and> bc1 then p\<lparr>ps_sel := unat (da AND 0x0F)\<rparr>
     else if bdir \<and> \<not> bc1 then
       (if ps_sel p < 16 then
          (let q = p\<lparr>ps_reg := (ps_reg p)(ps_sel p := da AND kRegMask ! ps_sel p)\<rparr>
           in if ps_sel p = 13 then env_restart q else q)
        else p)
     else p)"

definition ay_read_value :: "psg_state \<Rightarrow> u8 \<Rightarrow> u8 \<Rightarrow> u8" where
  "ay_read_value p kbd_row row_ext =
    (if ps_sel p = 14 \<and> ps_reg p 7 AND 0x40 = 0
     then ps_key_matrix p (unat (kbd_row AND 0x0F)) AND row_ext
     else if ps_sel p = 15 \<and> ps_reg p 7 AND 0x80 = 0 then 0xFF
     else ps_reg p (ps_sel p))"

definition note_scan :: "psg_state \<Rightarrow> u8 \<Rightarrow> psg_state" where
  "note_scan p kbd_row =
    (if ps_sel p = 14 \<and> ps_reg p 7 AND 0x40 = 0
     then p\<lparr>ps_scanned_rows := ps_scanned_rows p OR push_bit (unat (kbd_row AND 0x0F)) 1\<rparr> else p)"

definition psg_fast_lines :: "psg_state \<Rightarrow> bool \<Rightarrow> bool \<Rightarrow> u8 \<Rightarrow> psg_state" where
  "psg_fast_lines p bdir bc1 da =
    (let q = (if bdir \<noteq> ps_bdir_prev p \<or> bc1 \<noteq> ps_bc1_prev p \<or> da \<noteq> ps_da_prev p
              then ay_apply p bdir bc1 da else p)
     in q\<lparr>ps_bdir_prev := bdir, ps_bc1_prev := bc1, ps_da_prev := da\<rparr>)"

definition psg_fast_read :: "psg_state \<Rightarrow> u8 \<Rightarrow> u8 \<Rightarrow> u8 \<times> psg_state" where
  "psg_fast_read p kbd_row row_ext =
    (let q = note_scan p kbd_row in (ay_read_value q kbd_row row_ext, q))"

definition ay_bus :: "psg_state \<Rightarrow> Bus \<Rightarrow> psg_state \<times> asg list" where
  "ay_bus p i =
    (let bdir = ay_bdir (b_ay i); bc1 = ay_bc1 (b_ay i); da = ay_da (b_ay i);
         q = (if bdir \<noteq> ps_bdir_prev p \<or> bc1 \<noteq> ps_bc1_prev p \<or> da \<noteq> ps_da_prev p
              then ay_apply p bdir bc1 da else p);
         rd = (\<not> bdir \<and> bc1);
         q2 = (if rd then note_scan q (ay_kbd_row (b_ay i)) else q)
     in (q2\<lparr>ps_bdir_prev := bdir, ps_bc1_prev := bc1, ps_da_prev := da\<rparr>,
         if rd then [Dr_ay_da (ay_read_value q (ay_kbd_row (b_ay i)) (ay_row_ext (b_ay i)))] else []))"

definition psg_step :: "psg_state \<Rightarrow> Bus \<Rightarrow> psg_state \<times> asg list" where
  "psg_step p i =
    (case ay_bus p i of (q, ds) \<Rightarrow> (if clk_psg (b_clk i) then sound_step q else q, ds))"

definition psg_tick :: "psg_state \<Rightarrow> Bus \<Rightarrow> Bus \<Rightarrow> psg_state \<times> Bus" where
  "psg_tick p i out = (fst (psg_step p i), drive (snd (psg_step p i)) out)"

subsection \<open>Blobs, pokes and host access\<close>

definition psg_save :: "psg_state \<Rightarrow> u8 \<times> psg_state" where
  "psg_save p = (1, p\<lparr>ps_key_matrix := (\<lambda>_. 0), ps_scanned_rows := 0\<rparr>)"

definition psg_load :: "psg_state \<Rightarrow> u8 \<times> psg_state \<Rightarrow> psg_state" where
  "psg_load p blob =
    (if fst blob \<noteq> 1 then p else (snd blob)\<lparr>ps_key_matrix := ps_key_matrix p\<rparr>)"

definition psg_set_key_row :: "psg_state \<Rightarrow> u8 \<Rightarrow> u8 \<Rightarrow> psg_state" where
  "psg_set_key_row p row columns =
     p\<lparr>ps_key_matrix := (ps_key_matrix p)(unat (row AND 0x0F) := columns)\<rparr>"

definition psg_out :: "psg_state \<Rightarrow> nat" where
  "psg_out p = ps_chan_level p 0 + ps_chan_level p 1 + ps_chan_level p 2"

definition psg_poke_reg :: "psg_state \<Rightarrow> u8 \<Rightarrow> u8 \<Rightarrow> psg_state" where
  "psg_poke_reg p n val = p\<lparr>ps_reg := (ps_reg p)(unat (n AND 15) := val)\<rparr>"

definition psg_poke_sel :: "psg_state \<Rightarrow> u8 \<Rightarrow> psg_state" where
  "psg_poke_sel p sel = p\<lparr>ps_sel := unat (sel AND 15)\<rparr>"

definition psg_poke_env :: "psg_state \<Rightarrow> u8 \<Rightarrow> u8 \<Rightarrow> psg_state" where
  "psg_poke_env p half_level direction =
    (let level = unat (half_level AND 15) * 2;
         q = p\<lparr>ps_env_level := level, ps_env_holding := (direction = 0), ps_env_direction := direction\<rparr>
     in if direction = 0x01 then q\<lparr>ps_env_attack_seg := True, ps_env_step := level\<rparr>
        else if direction = 0xFF then q\<lparr>ps_env_attack_seg := False, ps_env_step := 31 - level\<rparr>
        else q\<lparr>ps_env_step := 31\<rparr>)"

definition psg_take_scanned_rows :: "psg_state \<Rightarrow> u16 \<times> psg_state" where
  "psg_take_scanned_rows p = (ps_scanned_rows p, p\<lparr>ps_scanned_rows := 0\<rparr>)"

definition psg_batch_step :: "psg_state \<Rightarrow> psg_state" where
  "psg_batch_step p = sound_step p"

definition psg_event_in :: "nat \<Rightarrow> nat \<Rightarrow> nat \<Rightarrow> nat \<Rightarrow> nat" where
  "psg_event_in presc dv cnt per =
    (let ticks = (if per > cnt then per - cnt else 1) in (presc - dv) + (ticks - 1) * presc)"

definition psg_batch_quiet_steps :: "psg_state \<Rightarrow> nat" where
  "psg_batch_quiet_steps p =
    (let t0 = psg_event_in 8 (ps_tone_div p) (ps_tone_cnt p 0) (tone_period p 0);
         q = fold (\<lambda>chan q. min (psg_event_in 8 (ps_tone_div p) (ps_tone_cnt p chan) (tone_period p chan)) q)
               [1..<3] t0;
         q1 = min (psg_event_in 16 (ps_noise_div p) (ps_noise_cnt p) (noise_period p)) q
     in min (psg_event_in 256 (ps_env_div p) (ps_env_cnt p) (env_period p)) q1)"

definition psg_batch_skip :: "psg_state \<Rightarrow> nat \<Rightarrow> psg_state" where
  "psg_batch_skip p n =
    (let tone_total = ps_tone_div p + n; noise_total = ps_noise_div p + n; env_total = ps_env_div p + n in
     p\<lparr>ps_tone_div := tone_total mod 8,
       ps_tone_cnt := (\<lambda>chan. if chan < 3 then (ps_tone_cnt p chan + tone_total div 8) mod 65536
                              else ps_tone_cnt p chan),
       ps_noise_cnt := (ps_noise_cnt p + noise_total div 16) mod 65536, ps_noise_div := noise_total mod 16,
       ps_env_cnt := (ps_env_cnt p + env_total div 256) mod 65536, ps_env_div := env_total mod 256\<rparr>)"

subsection \<open>Invariant\<close>

definition psg_wf :: "psg_state \<Rightarrow> bool" where
  "psg_wf p \<longleftrightarrow> ps_sel p < 16 \<and> ps_tone_div p < 8 \<and> (\<forall>k < 3. ps_tone_cnt p k < 4096) \<and>
     ps_noise_div p < 16 \<and> ps_noise_cnt p < 32 \<and> ps_noise_lfsr p \<noteq> 0 \<and> fits 17 (ps_noise_lfsr p) \<and>
     ps_env_div p < 256 \<and> ps_env_cnt p < 65535 \<and> ps_env_step p \<le> 31 \<and> ps_env_level p \<le> 31 \<and>
     (\<forall>k < 3. ps_chan_level p k \<le> 31)"

lemma psg_wf_fresh: "psg_wf (psg_fresh m)"
  by (simp add: psg_wf_def psg_fresh_def fits_iff_unat)

lemma low4_le: "unat (x AND 0x0F :: u8) \<le> 15" "unat (x AND 15 :: u8) < 16"
proof -
  have "unat (x AND 0x0F) < 16"
    by (simp add: mask_simps unat_take_bit)
  then show "unat (x AND 0x0F :: u8) \<le> 15" "unat (x AND 15 :: u8) < 16" by simp_all
qed

lemma tone_period_range: "0 < tone_period p k" "tone_period p k < 4096"
proof -
  have "fits 12 (ucast (ps_reg p (k * 2)) OR push_bit 8 (ucast (ps_reg p (k * 2 + 1) AND 0x0F)) :: u16)"
    by (intro fits_or fits_ucast fits_push_bit [where m = 4]) (simp_all add: mask_simps fits_take_bit)
  from fits_unat [OF this] show "0 < tone_period p k" "tone_period p k < 4096"
    by (simp_all add: tone_period_def Let_def)
qed

lemma noise_period_range: "0 < noise_period p" "noise_period p < 32"
  using fits_unat [of 5 "ps_reg p 6 AND 0x1F"]
  by (simp_all add: noise_period_def Let_def mask_simps fits_take_bit)

lemma env_period_range: "0 < env_period p" "env_period p < 65536"
  by (simp_all add: env_period_def Let_def)

lemma lfsr_shift_range:
  assumes "l \<noteq> 0" "fits 17 l"
  shows "lfsr_shift l \<noteq> 0" "fits 17 (lfsr_shift l)"
proof -
  have one: "fits 1 ((l XOR drop_bit 3 l) AND 1)"
    by (simp add: fits_iff_unat and_one_eq unat_mod)
  then show "fits 17 (lfsr_shift l)"
    unfolding lfsr_shift_def Let_def
    by (intro fits_or fits_push_bit [OF one] fits_drop_bit [OF assms(2)]) simp_all
  show "lfsr_shift l \<noteq> 0"
  proof
    assume "lfsr_shift l = 0"
    then have "drop_bit 1 l = 0" "push_bit 16 ((l XOR drop_bit 3 l) AND 1) = 0"
      by (simp_all add: lfsr_shift_def Let_def or_eq_0_iff)
    then have "unat l < 2"
      using unat_drop_bit [of 1 l] by (simp add: div_eq_0_iff)
    with assms(1) have "l = 1"
      by (metis One_nat_def less_2_cases unat_1 unat_eq_0 word_unat_eq_iff)
    with \<open>push_bit 16 ((l XOR drop_bit 3 l) AND 1) = 0\<close> show False by simp
  qed
qed

lemma tone_chan_wf: "psg_wf p \<Longrightarrow> k < 3 \<Longrightarrow> psg_wf (tone_chan k p)"
  using tone_period_range [of p k] by (simp add: psg_wf_def tone_chan_def Let_def)

lemma tone_step_wf [inv_intros]: "psg_wf p \<Longrightarrow> psg_wf (tone_step p)"
proof -
  assume wf: "psg_wf p"
  then have "psg_wf (p\<lparr>ps_tone_div := 0\<rparr>)" by (simp add: psg_wf_def)
  then have "psg_wf (fold tone_chan [0..<3] (p\<lparr>ps_tone_div := 0\<rparr>))"
    by (rule fold_inv) (simp add: tone_chan_wf)
  moreover have "psg_wf (p\<lparr>ps_tone_div := d\<rparr>)" if "d < 8" for d
    using wf that by (simp add: psg_wf_def)
  ultimately show ?thesis by (simp add: tone_step_def Let_def)
qed

lemma noise_step_wf [inv_intros]: "psg_wf p \<Longrightarrow> psg_wf (noise_step p)"
  using noise_period_range [of p] lfsr_shift_range [of "ps_noise_lfsr p"]
  by (simp add: psg_wf_def noise_step_def Let_def)

lemma env_clock_wf: "psg_wf p \<Longrightarrow> psg_wf (env_clock p)"
  using le_trans [OF diff_le_self [of 30 "ps_env_step p"], of 31] by (simp add: psg_wf_def env_clock_def Let_def)

lemma envelope_step_wf [inv_intros]: "psg_wf p \<Longrightarrow> psg_wf (envelope_step p)"
proof -
  assume wf: "psg_wf p"
  have "psg_wf (p\<lparr>ps_env_div := d, ps_env_cnt := c\<rparr>)" if "d < 256" "c < env_period p" for d c
    using wf that env_period_range [of p] by (simp add: psg_wf_def)
  moreover have "psg_wf (p\<lparr>ps_env_div := d\<rparr>)" if "d < 256" for d
    using wf that by (simp add: psg_wf_def)
  moreover have "psg_wf (env_clock (p\<lparr>ps_env_div := 0, ps_env_cnt := 0\<rparr>))"
    using calculation(1) [of 0 0] env_period_range [of p] by (simp add: env_clock_wf)
  ultimately show ?thesis by (simp add: envelope_step_def Let_def)
qed

lemma mixer_step_wf [inv_intros]: "psg_wf p \<Longrightarrow> psg_wf (mixer_step p)"
  using low4_le(1) by (simp add: psg_wf_def mixer_step_def chan_mix_def Let_def)

lemma sound_step_wf [inv_intros]: "psg_wf p \<Longrightarrow> psg_wf (sound_step p)"
  by (simp add: sound_step_def inv_intros)

lemma ay_apply_wf [inv_intros]: "psg_wf p \<Longrightarrow> psg_wf (ay_apply p bdir bc1 da)"
  using low4_le(2) [of da] by (simp add: psg_wf_def ay_apply_def env_restart_def Let_def)

lemma psg_wf_lines [simp]:
  "psg_wf (p\<lparr>ps_bdir_prev := a, ps_bc1_prev := b, ps_da_prev := d\<rparr>) \<longleftrightarrow> psg_wf p"
  "psg_wf (p\<lparr>ps_scanned_rows := r\<rparr>) \<longleftrightarrow> psg_wf p" "psg_wf (p\<lparr>ps_key_matrix := m\<rparr>) \<longleftrightarrow> psg_wf p"
  "psg_wf (p\<lparr>ps_reg := f\<rparr>) \<longleftrightarrow> psg_wf p"
  by (simp_all add: psg_wf_def)

lemma psg_step_wf [inv_intros]: "psg_wf p \<Longrightarrow> psg_wf (fst (psg_step p i))"
  by (simp add: psg_step_def ay_bus_def note_scan_def Let_def inv_intros)

subsection \<open>The quiet skip\<close>

text \<open>One prescaled counter on its own: no event before \<open>psg_event_in\<close> steps.\<close>

lemma event_in_ticks:
  assumes "dv < presc" "Suc n < psg_event_in presc dv cnt per"
  shows "(dv + Suc n) div presc = 0 \<or> cnt + (dv + Suc n) div presc < per"
proof -
  let ?t = "if per > cnt then per - cnt else 1"
  have "psg_event_in presc dv cnt per + dv = ?t * presc"
    using assms(1) by (cases ?t) (auto simp: psg_event_in_def Let_def split: if_splits)
  then have "dv + Suc n < ?t * presc"
    using assms(2) by linarith
  then have "(dv + Suc n) div presc < ?t"
    by (simp add: less_mult_imp_div_less)
  then show ?thesis by (auto split: if_splits)
qed

lemma prescaled_carry:
  fixes x m :: nat
  assumes "0 < m"
  shows "x mod m + 1 < m \<Longrightarrow> Suc x mod m = x mod m + 1 \<and> Suc x div m = x div m"
    "\<not> x mod m + 1 < m \<Longrightarrow> Suc x mod m = 0 \<and> Suc x div m = Suc (x div m)"
  using assms by (auto simp: mod_Suc div_Suc) (metis Suc_lessI mod_less_divisor)+

lemma skip_0:
  assumes "psg_wf p"
  shows "psg_batch_skip p 0 = p"
proof -
  have "(\<lambda>chan. if chan < 3 then (ps_tone_cnt p chan + ps_tone_div p div 8) mod 65536 else ps_tone_cnt p chan) =
      ps_tone_cnt p"
    using assms by (auto simp: psg_wf_def fun_eq_iff)
  then show ?thesis
    using assms by (simp add: psg_batch_skip_def psg_wf_def Let_def)
qed

lemma skip_frame [simp]:
  "ps_reg (psg_batch_skip p n) = ps_reg p" "ps_env_level (psg_batch_skip p n) = ps_env_level p"
  "ps_tone_out (psg_batch_skip p n) = ps_tone_out p" "ps_noise_out (psg_batch_skip p n) = ps_noise_out p"
  "ps_chan_level (psg_batch_skip p n) = ps_chan_level p"
  by (simp_all add: psg_batch_skip_def Let_def)

lemma period_cong:
  assumes "ps_reg q = ps_reg p"
  shows "tone_period q = tone_period p" "noise_period q = noise_period p" "env_period q = env_period p"
  using assms by (simp_all add: tone_period_def noise_period_def env_period_def fun_eq_iff)

lemma quiet_parts:
  assumes "n < psg_batch_quiet_steps p"
  shows "k < 3 \<Longrightarrow> n < psg_event_in 8 (ps_tone_div p) (ps_tone_cnt p k) (tone_period p k)"
    "n < psg_event_in 16 (ps_noise_div p) (ps_noise_cnt p) (noise_period p)"
    "n < psg_event_in 256 (ps_env_div p) (ps_env_cnt p) (env_period p)"
proof -
  have "[1..<3] = [1, 2 :: nat]" by (simp add: upt_rec)
  then show "k < 3 \<Longrightarrow> n < psg_event_in 8 (ps_tone_div p) (ps_tone_cnt p k) (tone_period p k)"
    "n < psg_event_in 16 (ps_noise_div p) (ps_noise_cnt p) (noise_period p)"
    "n < psg_event_in 256 (ps_env_div p) (ps_env_cnt p) (env_period p)"
    using assms by (auto simp: psg_batch_quiet_steps_def Let_def less_Suc_eq numeral_3_eq_3 numeral_2_eq_2)
qed

definition roll_tone :: "nat \<Rightarrow> psg_state \<Rightarrow> psg_state \<Rightarrow> psg_state" where
  "roll_tone n p q = q\<lparr>ps_tone_div := (ps_tone_div p + n) mod 8,
     ps_tone_cnt := (\<lambda>chan. if chan < 3 then (ps_tone_cnt p chan + (ps_tone_div p + n) div 8) mod 65536
                            else ps_tone_cnt p chan)\<rparr>"

definition roll_noise :: "nat \<Rightarrow> psg_state \<Rightarrow> psg_state \<Rightarrow> psg_state" where
  "roll_noise n p q = q\<lparr>ps_noise_cnt := (ps_noise_cnt p + (ps_noise_div p + n) div 16) mod 65536,
     ps_noise_div := (ps_noise_div p + n) mod 16\<rparr>"

definition roll_env :: "nat \<Rightarrow> psg_state \<Rightarrow> psg_state \<Rightarrow> psg_state" where
  "roll_env n p q = q\<lparr>ps_env_cnt := (ps_env_cnt p + (ps_env_div p + n) div 256) mod 65536,
     ps_env_div := (ps_env_div p + n) mod 256\<rparr>"

lemma skip_rolls: "psg_batch_skip p n = roll_env n p (roll_noise n p (roll_tone n p p))"
  by (simp add: psg_batch_skip_def roll_env_def roll_noise_def roll_tone_def Let_def)

lemma tone_three: "fold tone_chan [0..<3] q = tone_chan 2 (tone_chan 1 (tone_chan 0 q))"
  by (simp add: upt_rec numeral_2_eq_2)

lemma tone_step_roll:
  assumes wf: "psg_wf p" and reg: "ps_reg q = ps_reg p"
    and quiet: "\<And>k. k < 3 \<Longrightarrow> Suc n < psg_event_in 8 (ps_tone_div p) (ps_tone_cnt p k) (tone_period p k)"
  shows "tone_step (roll_tone n p q) = roll_tone (Suc n) p q"
proof -
  let ?x = "ps_tone_div p + n"
  show ?thesis
  proof (cases "?x mod 8 + 1 < 8")
    case True
    then show ?thesis
      using prescaled_carry(1) [of 8 ?x]
      by (simp only: roll_tone_def add_Suc_right) (simp add: tone_step_def inc16_def Let_def cong: if_cong)
  next
    case False
    then have carry: "Suc ?x mod 8 = 0" "Suc ?x div 8 = Suc (?x div 8)"
      using prescaled_carry(2) [of 8 ?x] by simp_all
    have lim: "ps_tone_cnt p k + Suc (?x div 8) < tone_period p k" if "k < 3" for k
      using event_in_ticks [OF _ quiet [OF that]] wf carry(2) by (simp add: psg_wf_def)
    have "inc16 ((ps_tone_cnt p k + ?x div 8) mod 65536) = ps_tone_cnt p k + Suc (?x div 8)" if "k < 3" for k
      using lim [OF that] tone_period_range [of p k] by (simp add: inc16_def)
    then have chan: "tone_chan k r = r\<lparr>ps_tone_cnt := (ps_tone_cnt r)(k := ps_tone_cnt p k + Suc (?x div 8))\<rparr>"
      if "k < 3" "ps_reg r = ps_reg p" "ps_tone_cnt r k = (ps_tone_cnt p k + ?x div 8) mod 65536" for k r
      using that lim [OF that(1)] period_cong(1) [OF that(2)] by (simp add: tone_chan_def Let_def)
    have small: "(ps_tone_cnt p k + Suc (?x div 8)) mod 65536 = ps_tone_cnt p k + Suc (?x div 8)" if "k < 3" for k
      using lim [OF that] tone_period_range [of p k] by simp
    have cnts: "(\<lambda>k. if k < 3 then (ps_tone_cnt p k + (ps_tone_div p + Suc n) div 8) mod 65536 else ps_tone_cnt p k) =
        (\<lambda>k. if k < 3 then (ps_tone_cnt p k + ?x div 8) mod 65536 else ps_tone_cnt p k)
          (0 := ps_tone_cnt p 0 + Suc (?x div 8), 1 := ps_tone_cnt p 1 + Suc (?x div 8),
           2 := ps_tone_cnt p 2 + Suc (?x div 8))"
      using small carry by (auto simp: fun_eq_iff less_Suc_eq numeral_3_eq_3 numeral_2_eq_2)
    have "inc16 (?x mod 8) = 8"
      using False by (simp add: inc16_def)
    then have "tone_step (roll_tone n p q) =
        tone_chan 2 (tone_chan 1 (tone_chan 0 ((roll_tone n p q)\<lparr>ps_tone_div := 0\<rparr>)))"
      by (simp add: tone_step_def roll_tone_def tone_three Let_def)
    also have "\<dots> = roll_tone (Suc n) p q"
      unfolding roll_tone_def cnts using reg carry by (simp add: chan)
    finally show ?thesis .
  qed
qed

lemma noise_step_roll:
  assumes wf: "psg_wf p" and reg: "ps_reg q = ps_reg p"
    and quiet: "Suc n < psg_event_in 16 (ps_noise_div p) (ps_noise_cnt p) (noise_period p)"
  shows "noise_step (roll_noise n p q) = roll_noise (Suc n) p q"
proof -
  let ?x = "ps_noise_div p + n"
  have per: "noise_period (roll_noise n p q) = noise_period p"
    using reg by (intro period_cong) (simp add: roll_noise_def)
  show ?thesis
  proof (cases "?x mod 16 + 1 < 16")
    case True
    then show ?thesis
      using prescaled_carry(1) [of 16 ?x]
      by (simp only: roll_noise_def add_Suc_right) (simp add: noise_step_def inc16_def Let_def)
  next
    case False
    then have carry: "Suc ?x mod 16 = 0" "Suc ?x div 16 = Suc (?x div 16)"
      using prescaled_carry(2) [of 16 ?x] by simp_all
    have lim: "ps_noise_cnt p + Suc (?x div 16) < noise_period p"
      using event_in_ticks [OF _ quiet] wf carry(2) by (simp add: psg_wf_def)
    moreover have "inc16 ((ps_noise_cnt p + ?x div 16) mod 65536) = ps_noise_cnt p + Suc (?x div 16)"
      "(ps_noise_cnt p + Suc (?x div 16)) mod 65536 = ps_noise_cnt p + Suc (?x div 16)"
      using lim noise_period_range [of p] by (simp_all add: inc16_def)
    moreover have "inc16 (?x mod 16) = 16"
      using False by (simp add: inc16_def)
    ultimately show ?thesis
      using carry per by (simp only: roll_noise_def add_Suc_right) (simp add: noise_step_def Let_def)
  qed
qed

lemma envelope_step_roll:
  assumes wf: "psg_wf p" and reg: "ps_reg q = ps_reg p"
    and quiet: "Suc n < psg_event_in 256 (ps_env_div p) (ps_env_cnt p) (env_period p)"
  shows "envelope_step (roll_env n p q) = roll_env (Suc n) p q"
proof -
  let ?x = "ps_env_div p + n"
  have per: "env_period (roll_env n p q) = env_period p"
    using reg by (intro period_cong) (simp add: roll_env_def)
  show ?thesis
  proof (cases "?x mod 256 + 1 < 256")
    case True
    then show ?thesis
      using prescaled_carry(1) [of 256 ?x]
      by (simp only: roll_env_def add_Suc_right) (simp add: envelope_step_def inc16_def Let_def)
  next
    case False
    then have carry: "Suc ?x mod 256 = 0" "Suc ?x div 256 = Suc (?x div 256)"
      using prescaled_carry(2) [of 256 ?x] by simp_all
    have lim: "ps_env_cnt p + Suc (?x div 256) < env_period p"
      using event_in_ticks [OF _ quiet] wf carry(2) by (simp add: psg_wf_def)
    moreover have "inc16 ((ps_env_cnt p + ?x div 256) mod 65536) = ps_env_cnt p + Suc (?x div 256)"
      "(ps_env_cnt p + Suc (?x div 256)) mod 65536 = ps_env_cnt p + Suc (?x div 256)"
      using lim env_period_range [of p] by (simp_all add: inc16_def)
    moreover have "inc16 (?x mod 256) = 256"
      using False by (simp add: inc16_def)
    ultimately show ?thesis
      using carry per by (simp only: roll_env_def add_Suc_right) (simp add: envelope_step_def Let_def)
  qed
qed

lemma roll_commute:
  "tone_step (roll_env n p (roll_noise n p q)) = roll_env n p (roll_noise n p (tone_step q))"
  "noise_step (roll_env n p q) = roll_env n p (noise_step q)"
proof -
  have one: "tone_chan k (roll_env n p (roll_noise n p r)) = roll_env n p (roll_noise n p (tone_chan k r))" for k r
    using period_cong(1) [of "roll_env n p (roll_noise n p r)" r]
    by (simp add: tone_chan_def Let_def) (simp add: roll_env_def roll_noise_def)
  have "(roll_env n p (roll_noise n p q))\<lparr>ps_tone_div := d\<rparr> = roll_env n p (roll_noise n p (q\<lparr>ps_tone_div := d\<rparr>))" for d
    by (simp add: roll_env_def roll_noise_def)
  moreover have "ps_tone_div (roll_env n p (roll_noise n p q)) = ps_tone_div q"
    by (simp add: roll_env_def roll_noise_def)
  ultimately show "tone_step (roll_env n p (roll_noise n p q)) = roll_env n p (roll_noise n p (tone_step q))"
    by (simp add: tone_step_def tone_three one Let_def)
  show "noise_step (roll_env n p q) = roll_env n p (noise_step q)"
    by (simp add: noise_step_def noise_period_def roll_env_def Let_def)
qed

lemma generators_skip:
  assumes "psg_wf p" "Suc n < psg_batch_quiet_steps p"
  shows "envelope_step (noise_step (tone_step (psg_batch_skip p n))) = psg_batch_skip p (Suc n)"
proof -
  have "ps_reg (roll_tone m p p) = ps_reg p" "ps_reg (roll_noise m p (roll_tone m p p)) = ps_reg p" for m
    by (simp_all add: roll_tone_def roll_noise_def)
  note regs = this and q = quiet_parts [OF assms(2)]
  have "tone_step (psg_batch_skip p n) = roll_env n p (roll_noise n p (roll_tone (Suc n) p p))"
    using tone_step_roll [OF assms(1) refl q(1)] by (simp only: skip_rolls roll_commute(1))
  then have "noise_step (tone_step (psg_batch_skip p n)) =
      roll_env n p (roll_noise (Suc n) p (roll_tone (Suc n) p p))"
    using noise_step_roll [OF assms(1) regs(1) q(2)] by (simp only: roll_commute(2))
  then show ?thesis
    using envelope_step_roll [OF assms(1) regs(2) q(3)] by (simp only: skip_rolls)
qed

text \<open>The generators neither read nor change the channel levels.\<close>

lemma levels_commute:
  "envelope_step (noise_step (tone_step (q\<lparr>ps_chan_level := l\<rparr>))) =
    (envelope_step (noise_step (tone_step q)))\<lparr>ps_chan_level := l\<rparr>"
proof -
  have chan: "tone_chan k (r\<lparr>ps_chan_level := l\<rparr>) = (tone_chan k r)\<lparr>ps_chan_level := l\<rparr>" for k r
    using period_cong(1) [of "r\<lparr>ps_chan_level := l\<rparr>" r] by (simp add: tone_chan_def Let_def)
  have comm: "q\<lparr>ps_chan_level := l, ps_tone_div := 0\<rparr> = q\<lparr>ps_tone_div := 0, ps_chan_level := l\<rparr>"
    by simp
  from chan [of 0 "q\<lparr>ps_tone_div := 0\<rparr>"]
  have "tone_chan 0 (q\<lparr>ps_chan_level := l, ps_tone_div := 0\<rparr>) =
      (tone_chan 0 (q\<lparr>ps_tone_div := 0\<rparr>))\<lparr>ps_chan_level := l\<rparr>" unfolding comm .
  then have "tone_step (q\<lparr>ps_chan_level := l\<rparr>) = (tone_step q)\<lparr>ps_chan_level := l\<rparr>"
    by (simp add: tone_step_def tone_three chan Let_def)
  moreover have "noise_step (r\<lparr>ps_chan_level := l\<rparr>) = (noise_step r)\<lparr>ps_chan_level := l\<rparr>" for r
    using period_cong(2) [of "r\<lparr>ps_chan_level := l\<rparr>" r] by (simp add: noise_step_def Let_def)
  moreover have "envelope_step (r\<lparr>ps_chan_level := l\<rparr>) = (envelope_step r)\<lparr>ps_chan_level := l\<rparr>" for r
  proof -
    have "r\<lparr>ps_chan_level := l, ps_env_div := 0, ps_env_cnt := 0\<rparr> = r\<lparr>ps_env_div := 0, ps_env_cnt := 0, ps_chan_level := l\<rparr>"
      by simp
    moreover have "env_clock (x\<lparr>ps_chan_level := l\<rparr>) = (env_clock x)\<lparr>ps_chan_level := l\<rparr>" for x
      by (simp add: env_clock_def Let_def)
    ultimately have "env_clock (r\<lparr>ps_chan_level := l, ps_env_div := 0, ps_env_cnt := 0\<rparr>) =
        (env_clock (r\<lparr>ps_env_div := 0, ps_env_cnt := 0\<rparr>))\<lparr>ps_chan_level := l\<rparr>"
      by (simp only:)
    then show ?thesis
      using period_cong(3) [of "r\<lparr>ps_chan_level := l\<rparr>" r] by (simp add: envelope_step_def Let_def)
  qed
  ultimately show ?thesis by simp
qed

lemma chan_mix_levels: "chan_mix (q\<lparr>ps_chan_level := l\<rparr>) = chan_mix q"
  by (simp add: chan_mix_def fun_eq_iff Let_def)

lemma mixer_levels: "mixer_step (q\<lparr>ps_chan_level := \<lambda>k. if k < 3 then f k else ps_chan_level q k\<rparr>) = mixer_step q"
  by (simp add: mixer_step_def chan_mix_levels cong: if_cong)

lemma skip_sound:
  assumes "psg_wf p"
  shows "Suc n < psg_batch_quiet_steps p \<Longrightarrow> (sound_step ^^ Suc n) p = mixer_step (psg_batch_skip p (Suc n))"
proof (induction n)
  case 0
  then show ?case
    using generators_skip [OF assms, of 0] skip_0 [OF assms] by (simp add: sound_step_def)
next
  case (Suc n)
  let ?q = "psg_batch_skip p (Suc n)"
  have "sound_step (mixer_step ?q) = mixer_step (envelope_step (noise_step (tone_step ?q)))"
    unfolding sound_step_def mixer_step_def [of ?q] levels_commute generators_skip [OF assms Suc.prems] skip_frame(5) [of p "Suc n"]
    using mixer_levels [where q = "psg_batch_skip p (Suc (Suc n))" and f = "chan_mix ?q", unfolded skip_frame(5)] .
  then show ?case
    using Suc generators_skip [OF assms Suc.prems] by simp
qed

lemma skip_wf:
  assumes "psg_wf p"
  shows "n < psg_batch_quiet_steps p \<Longrightarrow> psg_wf (psg_batch_skip p n)"
proof (induction n)
  case 0
  with assms show ?case by (simp add: skip_0)
next
  case (Suc n)
  then have "psg_wf (psg_batch_skip p n)" by simp
  from envelope_step_wf [OF noise_step_wf [OF tone_step_wf [OF this]]] show ?case
    by (simp only: generators_skip [OF assms Suc.prems])
qed

subsection \<open>The envelope\<close>

text \<open>What R13 promises: the level after \<open>k\<close> envelope clocks. The first ramp runs from the attack bit;
  without CONTINUE the output then rests at 0, with HOLD it freezes at the end the ALTERNATE bit picks,
  otherwise the ramp repeats, alternating direction with ALTERNATE.\<close>

definition env_seg :: "u8 \<Rightarrow> nat \<Rightarrow> bool" where
  "env_seg shape k =
    (if shape AND 0x02 \<noteq> 0 \<and> odd (k div 32) then shape AND 0x04 = 0 else shape AND 0x04 \<noteq> 0)"

definition env_oneshot :: "u8 \<Rightarrow> bool" where
  "env_oneshot shape \<longleftrightarrow> shape AND 0x08 = 0 \<or> shape AND 0x01 \<noteq> 0"

definition env_shape_level :: "u8 \<Rightarrow> nat \<Rightarrow> nat" where
  "env_shape_level shape k =
    (if k < 32 \<or> \<not> env_oneshot shape
     then (if env_seg shape k then k mod 32 else 31 - k mod 32)
     else if shape AND 0x08 = 0 then 0
     else if (shape AND 0x02 \<noteq> 0) = (shape AND 0x04 \<noteq> 0) then 0 else 31)"

lemma env_clock_run:
  fixes p
  defines "s \<equiv> ps_reg p 13" and "q \<equiv> \<lambda>k. (env_clock ^^ k) (env_restart p)"
  shows "ps_reg (q k) = ps_reg p \<and> ps_env_level (q k) = env_shape_level s k \<and>
    (ps_env_holding (q k) \<longleftrightarrow> 32 \<le> k \<and> env_oneshot s) \<and>
    (\<not> ps_env_holding (q k) \<longrightarrow> ps_env_step (q k) = k mod 32 \<and> ps_env_attack_seg (q k) = env_seg s k)"
proof (induction k)
  case 0
  then show ?case
    by (simp add: q_def s_def env_restart_def env_shape_level_def env_seg_def Let_def)
next
  case (Suc k)
  have q: "q (Suc k) = env_clock (q k)"
    by (simp add: q_def)
  consider (hold) "32 \<le> k" "env_oneshot s"
    | (ramp) "\<not> (32 \<le> k \<and> env_oneshot s)" "k mod 32 < 31"
    | (wrap) "\<not> (32 \<le> k \<and> env_oneshot s)" "k mod 32 = 31"
    using mod_less_divisor [of 32 k] by linarith
  then show ?case
  proof cases
    case hold
    with Suc show ?thesis
      by (simp add: q env_clock_def env_shape_level_def)
  next
    case ramp
    then have "Suc k mod 32 = Suc (k mod 32)" "Suc k div 32 = k div 32"
      using prescaled_carry(1) [of 32 k] by simp_all
    moreover from this ramp have "\<not> (32 \<le> Suc k \<and> env_oneshot s)" by auto
    ultimately show ?thesis
      using Suc ramp by (auto simp: q env_clock_def env_shape_level_def env_seg_def Let_def)
  next
    case wrap
    then have c: "Suc k mod 32 = 0" "Suc k div 32 = Suc (k div 32)"
      using prescaled_carry(2) [of 32 k] by simp_all
    then have "32 \<le> Suc k" by (metis mod_less not_less nat.distinct(1))
    show ?thesis
    proof (cases "env_oneshot s")
      case True
      with wrap have "k = 31" by simp
      with q have "q 32 = env_clock (q 31)" "env_seg s 31 \<longleftrightarrow> s AND 0x04 \<noteq> 0"
        by (simp_all add: env_seg_def)
      with Suc True \<open>k = 31\<close> show ?thesis
        by (auto simp: env_clock_def env_shape_level_def env_oneshot_def Let_def s_def [symmetric])
    next
      case False
      have "env_seg s (Suc k) = (if s AND 0x02 \<noteq> 0 then \<not> env_seg s k else env_seg s k)"
        using c by (simp add: env_seg_def)
      with Suc wrap False c show ?thesis
        by (simp add: q env_clock_def env_shape_level_def env_oneshot_def Let_def s_def [symmetric])
    qed
  qed
qed
subsection \<open>The AY bus seen from the fast tier\<close>

lemma note_scan_frame [simp]:
  "ps_sel (note_scan p r) = ps_sel p" "ps_reg (note_scan p r) = ps_reg p"
  "ps_key_matrix (note_scan p r) = ps_key_matrix p"
  "ay_read_value (note_scan p r) k x = ay_read_value p k x"
  by (simp_all add: note_scan_def ay_read_value_def)

lemma note_scan_idem [simp]: "note_scan (note_scan p r) r = note_scan p r"
  by (simp add: note_scan_def)

lemma note_scan_lines: "note_scan (p\<lparr>ps_bdir_prev := a, ps_bc1_prev := b, ps_da_prev := d\<rparr>) r =
    (note_scan p r)\<lparr>ps_bdir_prev := a, ps_bc1_prev := b, ps_da_prev := d\<rparr>"
  by (simp add: note_scan_def)

lemma ay_read_lines: "ay_read_value (p\<lparr>ps_bdir_prev := a, ps_bc1_prev := b, ps_da_prev := d\<rparr>) r x = ay_read_value p r x"
  by (simp add: ay_read_value_def)

lemma ay_bus_fast:
  "ay_bus p i =
    (let q = psg_fast_lines p (ay_bdir (b_ay i)) (ay_bc1 (b_ay i)) (ay_da (b_ay i)) in
     if \<not> ay_bdir (b_ay i) \<and> ay_bc1 (b_ay i)
     then (snd (psg_fast_read q (ay_kbd_row (b_ay i)) (ay_row_ext (b_ay i))),
           [Dr_ay_da (fst (psg_fast_read q (ay_kbd_row (b_ay i)) (ay_row_ext (b_ay i))))])
     else (q, []))"
  by (simp add: ay_bus_def psg_fast_lines_def psg_fast_read_def note_scan_lines ay_read_lines Let_def)

lemma fast_lines_again: "psg_fast_lines (psg_fast_lines p a b d) a b d = psg_fast_lines p a b d"
  by (simp add: psg_fast_lines_def Let_def)

lemma ay_bus_again: "ay_bus (fst (ay_bus p i)) i = ay_bus p i"
proof -
  have "psg_fast_lines (note_scan (psg_fast_lines p a b d) r) a b d = note_scan (psg_fast_lines p a b d) r" for a b d r
    by (simp add: psg_fast_lines_def note_scan_def Let_def)
  then show ?thesis
    by (simp add: ay_bus_fast psg_fast_read_def fast_lines_again Let_def)
qed

lemma ay_bus_held: "((\<lambda>p. fst (ay_bus p i)) ^^ Suc n) p = fst (ay_bus p i)"
  by (rule funpow_idem) (simp add: ay_bus_again)

subsection \<open>Interfaces provided\<close>

interpretation psg_drv: bus_driver psg_tick "\<lambda>p i. fst (psg_step p i)" "\<lambda>p i. snd (psg_step p i)"
  by unfold_locales (simp add: psg_tick_def)

text \<open>The blob carries everything but the live keyboard and the scan log, which belong to the host.\<close>

interpretation psg_blob: state_blob psg_save psg_load
  "\<lambda>p. p\<lparr>ps_key_matrix := (\<lambda>_. 0), ps_scanned_rows := 0\<rparr>" ps_key_matrix
  by unfold_locales (simp_all add: psg_save_def psg_load_def)

subsection \<open>Properties\<close>

inductive psg_reach :: "psg_state \<Rightarrow> bool" where
  reach_init: "psg_reach psg_init"
| reach_tick: "psg_reach p \<Longrightarrow> psg_reach (fst (psg_tick p i out))"
| reach_reset: "psg_reach p \<Longrightarrow> psg_reach (psg_reset p)"
| reach_key: "psg_reach p \<Longrightarrow> psg_reach (psg_set_key_row p row columns)"
| reach_take: "psg_reach p \<Longrightarrow> psg_reach (snd (psg_take_scanned_rows p))"
| reach_poke: "psg_reach p \<Longrightarrow> psg_reach (psg_poke_reg p n val)"
| reach_sel: "psg_reach p \<Longrightarrow> psg_reach (psg_poke_sel p sel)"
| reach_env: "psg_reach p \<Longrightarrow> psg_reach (psg_poke_env p half_level direction)"
| reach_lines: "psg_reach p \<Longrightarrow> psg_reach (psg_fast_lines p bdir bc1 da)"
| reach_read: "psg_reach p \<Longrightarrow> psg_reach (snd (psg_fast_read p kbd_row row_ext))"
| reach_batch: "psg_reach p \<Longrightarrow> psg_reach (psg_batch_step p)"
| reach_skip: "psg_reach p \<Longrightarrow> n < psg_batch_quiet_steps p \<Longrightarrow> psg_reach (psg_batch_skip p n)"
| reach_load: "psg_reach p \<Longrightarrow> psg_reach q \<Longrightarrow> psg_reach (psg_load p (psg_save q))"

lemma psg_poke_env_wf: "psg_wf p \<Longrightarrow> psg_wf (psg_poke_env p h d)"
  using low4_le(1) [of h] by (simp add: psg_wf_def psg_poke_env_def Let_def)

lemma psg_poke_sel_wf: "psg_wf p \<Longrightarrow> psg_wf (psg_poke_sel p s)"
  using low4_le(2) [of s] by (simp add: psg_wf_def psg_poke_sel_def)

lemma psg_fast_lines_wf: "psg_wf p \<Longrightarrow> psg_wf (psg_fast_lines p a b d)"
  by (simp add: psg_fast_lines_def Let_def ay_apply_wf)

lemma psg_reach_wf: "psg_reach p \<Longrightarrow> psg_wf p"
proof (induction rule: psg_reach.induct)
  case (reach_skip p n)
  then show ?case by (simp add: skip_wf)
next
  case (reach_load p q)
  then show ?case by (simp add: psg_load_def psg_save_def)
qed (simp_all add: psg_init_def psg_reset_def psg_wf_fresh psg_tick_def psg_step_wf psg_set_key_row_def
    psg_take_scanned_rows_def psg_poke_reg_def psg_poke_sel_wf psg_poke_env_wf psg_fast_lines_wf
    psg_fast_read_def note_scan_def psg_batch_step_def sound_step_wf Let_def)

text \<open>(psg_bounds): In every state the chip reaches from power-on over bus cycles, fast-tier accesses, batched
  steps and skips, pokes and reloads, the output sum is at most 93, each channel level at most 31, and
  the noise register is a non-zero 17-bit value, so the noise generator never locks up.\<close>

theorem psg_bounds:
  assumes "psg_reach p"
  shows "psg_out p \<le> 93 \<and> (\<forall>k < 3. ps_chan_level p k \<le> 31) \<and>
    ps_noise_lfsr p \<noteq> 0 \<and> unat (ps_noise_lfsr p) < 2 ^ 17 \<and> ps_env_level p \<le> 31"
proof -
  have wf: "psg_wf p" using assms by (rule psg_reach_wf)
  then have "ps_chan_level p 0 \<le> 31" "ps_chan_level p 1 \<le> 31" "ps_chan_level p 2 \<le> 31"
    by (simp_all add: psg_wf_def)
  then have "psg_out p \<le> 93" by (simp add: psg_out_def)
  with wf show ?thesis by (simp add: psg_wf_def fits_iff_unat)
qed

theorem psg_bounds_witness:
  "psg_out (psg_batch_step (psg_poke_reg psg_init 8 0x0F)) \<le> 93"
  using psg_bounds [OF reach_batch [OF reach_poke [OF reach_init, of 8 "0x0F"]]] by simp

lemma skip_exact:
  assumes "psg_wf p" "0 < n" "n < psg_batch_quiet_steps p"
  shows "(psg_batch_step ^^ n) p = mixer_step (psg_batch_skip p n)"
    and "mixer_step p = p \<Longrightarrow> (psg_batch_step ^^ n) p = psg_batch_skip p n"
proof -
  obtain m where n: "n = Suc m" using assms(2) by (cases n) auto
  have step: "psg_batch_step = sound_step" by (simp add: fun_eq_iff psg_batch_step_def)
  have one: "(psg_batch_step ^^ n) p = mixer_step (psg_batch_skip p n)"
    using skip_sound [OF assms(1)] assms(3) unfolding n step by simp
  have mix: "chan_mix (psg_batch_skip p n) = chan_mix p"
    by (simp add: chan_mix_def fun_eq_iff Let_def)
  have lvl: "ps_chan_level p k = chan_mix p k" if "mixer_step p = p" "k < 3" for k
    using arg_cong [OF that(1), of "\<lambda>p. ps_chan_level p k"] that(2) by (simp add: mixer_step_def)
  have "mixer_step (psg_batch_skip p n) = psg_batch_skip p n" if "mixer_step p = p"
  proof -
    have "(\<lambda>k. if k < 3 then chan_mix p k else ps_chan_level p k) = ps_chan_level (psg_batch_skip p n)"
      using lvl that by (auto simp: fun_eq_iff)
    with mix show ?thesis
      by (simp only: mixer_step_def [of "psg_batch_skip p n"] skip_frame) simp
  qed
  with one show "(psg_batch_step ^^ n) p = mixer_step (psg_batch_skip p n)"
    "mixer_step p = p \<Longrightarrow> (psg_batch_step ^^ n) p = psg_batch_skip p n" by simp_all
qed

text \<open>C7 (psg_skip_exact): Over a quiet stretch the closed-form skip and one mixer pass give the state that
  stepping every generator one cycle at a time gives; where the channel levels were settled, the skip
  alone does.\<close>

theorem psg_skip_exact:
  assumes "psg_reach p" "0 < n" "n < psg_batch_quiet_steps p"
  shows "(psg_batch_step ^^ n) p = mixer_step (psg_batch_skip p n) \<and>
    (mixer_step p = p \<longrightarrow> (psg_batch_step ^^ n) p = psg_batch_skip p n)"
  using skip_exact [OF psg_reach_wf [OF assms(1)] assms(2,3)] by blast

theorem psg_skip_exact_witness:
  "(psg_batch_step ^^ 5) psg_init = mixer_step (psg_batch_skip psg_init 5)"
  using psg_skip_exact [OF reach_init, of 5]
  by (simp add: psg_init_def psg_reset_def psg_fresh_def psg_batch_quiet_steps_def psg_event_in_def
      tone_period_def noise_period_def env_period_def Let_def upt_rec)

text \<open>C34 (psg_envelope_shapes): After R13 is written, the level after any number of envelope clocks is the one
  the shape's CONTINUE, ATTACK, ALTERNATE and HOLD bits promise, for all sixteen shapes.\<close>

theorem psg_envelope_shapes:
  "ps_env_level ((env_clock ^^ k) (env_restart p)) = env_shape_level (ps_reg p 13) k"
  using env_clock_run [of k p] by simp

text \<open>(psg_bus_is_fast): A bus cycle does what the fast tier's line event and, in the read state, its
  read do, with the same byte driven on the data lines; holding the lines for further cycles repeats
  the answer and changes nothing.\<close>

theorem psg_bus_is_fast:
  "ay_bus p i =
    (let q = psg_fast_lines p (ay_bdir (b_ay i)) (ay_bc1 (b_ay i)) (ay_da (b_ay i)) in
     if \<not> ay_bdir (b_ay i) \<and> ay_bc1 (b_ay i)
     then (snd (psg_fast_read q (ay_kbd_row (b_ay i)) (ay_row_ext (b_ay i))),
           [Dr_ay_da (fst (psg_fast_read q (ay_kbd_row (b_ay i)) (ay_row_ext (b_ay i))))])
     else (q, [])) \<and>
   ((\<lambda>p. fst (ay_bus p i)) ^^ Suc n) p = fst (ay_bus p i) \<and> ay_bus (fst (ay_bus p i)) i = ay_bus p i"
  by (intro conjI ay_bus_fast ay_bus_held ay_bus_again)

definition ay_write_sequence :: "psg_state \<Rightarrow> u8 \<Rightarrow> u8 \<Rightarrow> psg_state" where
  "ay_write_sequence p r v =
    psg_fast_lines (psg_fast_lines (psg_fast_lines (psg_fast_lines (psg_fast_lines p
      False False r) True True r) False False r) True False v) False False v"

text \<open>(psg_register_roundtrip): The select-then-write bus sequence the CPC firmware uses stores the byte,
  cut to the register's width, in the selected register, leaves every other register alone, and a
  following read returns the stored byte for every register but the two I/O ports.\<close>

theorem psg_register_roundtrip:
  assumes "unat r < 14"
  shows "fst (psg_fast_read (psg_fast_lines (ay_write_sequence p r v) False True da) row ext) =
      v AND kRegMask ! unat r \<and>
    ps_reg (ay_write_sequence p r v) = (ps_reg p)(unat r := v AND kRegMask ! unat r)"
proof -
  have r: "unat (r AND 0x0F) = unat r"
    using assms by (simp add: mask_simps unat_take_bit)
  have "ps_sel (ay_write_sequence p r v) = unat r \<and>
      ps_reg (ay_write_sequence p r v) = (ps_reg p)(unat r := v AND kRegMask ! unat r)"
    using assms by (simp add: ay_write_sequence_def psg_fast_lines_def ay_apply_def env_restart_def r Let_def)
  then show ?thesis
    using assms by (simp add: psg_fast_read_def ay_read_value_def psg_fast_lines_def ay_apply_def Let_def)
qed

theorem psg_register_roundtrip_witness:
  "fst (psg_fast_read (psg_fast_lines (ay_write_sequence psg_init 1 0xFF) False True 0) 0 0xFF) = 0x0F"
  using psg_register_roundtrip [of 1 psg_init "0xFF" 0 0 "0xFF"] by (simp add: kRegMask_def)
end
