(* ===== verification/Event_Rings.thy ===== *)
theory Event_Rings
  imports Main
begin

text \<open>
  The 64-entry drop-oldest event rings of the devices: the entries between \<open>head\<close> and
  \<open>head + count\<close> as a list, and what storing an entry and dropping the oldest do to it.
\<close>

definition ring_list :: "(nat \<Rightarrow> 'e) \<Rightarrow> nat \<Rightarrow> nat \<Rightarrow> 'e list" where
  "ring_list ev h n = map (\<lambda>k. ev ((h + k) mod 64)) [0..<n]"

lemma length_ring_list [simp]: "length (ring_list ev h n) = n"
  by (simp add: ring_list_def)

text \<open>Distinct offsets below the capacity name distinct cells.\<close>

lemma ring_cell_eq:
  fixes h :: nat
  assumes "j < 64" "k < 64"
  shows "(h + j) mod 64 = (h + k) mod 64 \<longleftrightarrow> j = k"
proof -
  have "j = k" if "(h + j) mod 64 = (h + k) mod 64" "j \<le> k" "k < 64" for j k
  proof -
    have "64 dvd k - j"
      using that(1,2) mod_eq_dvd_iff_nat [of "h + j" "h + k" 64] by simp
    then show ?thesis using that(2,3) by (auto dest: dvd_imp_le)
  qed
  from this [of j k] this [of k j] assms show ?thesis by (cases "j \<le> k") auto
qed

lemma ring_list_store:
  assumes "n < 64"
  shows "ring_list (ev((h + n) mod 64 := e)) h (n + 1) = ring_list ev h n @ [e]"
proof -
  have "(h + k) mod 64 \<noteq> (h + n) mod 64" if "k < n" for k
    using ring_cell_eq [of k n h] assms that by simp
  then show ?thesis by (simp add: ring_list_def)
qed

lemma ring_list_oldest:
  assumes "0 < n"
  shows "ring_list ev h n = ev (h mod 64) # ring_list ev ((h + 1) mod 64) (n - 1)"
proof -
  obtain m where m: "n = Suc m" using assms by (cases n) auto
  have "[0..<Suc m] = 0 # map Suc [0..<m]"
    by (simp add: map_Suc_upt upt_conv_Cons)
  then show ?thesis
    by (simp add: ring_list_def m mod_Suc_eq mod_add_left_eq)
qed

end
