(* ===== verification/Printer.thy ===== *)
theory Printer
  imports Contracts Event_Rings
begin

text \<open>
  The printer port, \<open>src/src/hw/printer.cpp\<close>: a write-only latch decoded by A12 = 0 that acts once per
  access, and the drop-oldest ring of the bytes the falling /STROBE clocked. Fields are named \<open>pr_x\<close>
  for the C member \<open>x\<close>; \<open>ev_head\<close> and \<open>ev_count\<close> are \<open>uint8_t\<close> that stay within 0..63 and
  0..64, kept as naturals.
\<close>

record PrinterEvent =
  pe_cycle :: u64
  pe_byte :: u8

record printer_state =
  pr_latch :: u8
  pr_access_prev :: bool
  pr_now :: u64
  pr_ev :: "nat \<Rightarrow> PrinterEvent"
  pr_ev_head :: nat
  pr_ev_count :: nat

definition printer_kCap :: nat where
  "printer_kCap = 64"

definition printer_init :: printer_state where
  "printer_init = \<lparr> pr_latch = 0xFF, pr_access_prev = False, pr_now = 0,
     pr_ev = (\<lambda>_. \<lparr> pe_cycle = 0, pe_byte = 0 \<rparr>), pr_ev_head = 0, pr_ev_count = 0 \<rparr>"

definition store_event :: "printer_state \<Rightarrow> PrinterEvent \<Rightarrow> printer_state" where
  "store_event p e =
    (let q = (if pr_ev_count p = printer_kCap
              then p\<lparr>pr_ev_head := (pr_ev_head p + 1) mod printer_kCap, pr_ev_count := pr_ev_count p - 1\<rparr>
              else p)
     in q\<lparr>pr_ev := (pr_ev q)((pr_ev_head q + pr_ev_count q) mod printer_kCap := e),
          pr_ev_count := pr_ev_count q + 1\<rparr>)"

definition push_event :: "printer_state \<Rightarrow> u8 \<Rightarrow> printer_state" where
  "push_event p byte = store_event p \<lparr> pe_cycle = pr_now p, pe_byte = byte \<rparr>"

definition printer_sel :: "Bus \<Rightarrow> bool" where
  "printer_sel i \<longleftrightarrow> cpu_iorq (b_cpu i) \<and> \<not> cpu_m1 (b_cpu i) \<and> cpu_wr (b_cpu i) \<and>
     cpu_addr (b_cpu i) AND 0x1000 = 0"

definition printer_latch :: "printer_state \<Rightarrow> u8 \<Rightarrow> printer_state" where
  "printer_latch p data =
    (let prev = pr_latch p; q = p\<lparr>pr_latch := data XOR 0x80\<rparr> in
     if prev AND 0x80 \<noteq> 0 \<and> pr_latch q AND 0x80 = 0 then push_event q (pr_latch q AND 0x7F) else q)"

definition printer_next :: "printer_state \<Rightarrow> Bus \<Rightarrow> printer_state" where
  "printer_next p i =
    (let sel = printer_sel i; edge = (sel \<and> \<not> pr_access_prev p);
         q = p\<lparr>pr_now := pr_now p + 1, pr_access_prev := sel\<rparr>
     in if edge then printer_latch q (cpu_data (b_cpu i)) else q)"

definition printer_tick :: "printer_state \<Rightarrow> Bus \<Rightarrow> Bus \<Rightarrow> printer_state \<times> Bus" where
  "printer_tick p i out = (printer_next p i, out)"

definition printer_dev_reset :: "printer_state \<Rightarrow> printer_state" where
  "printer_dev_reset p =
    p\<lparr>pr_latch := 0xFF, pr_access_prev := False, pr_ev_head := 0, pr_ev_count := 0\<rparr>"

definition printer_save :: "printer_state \<Rightarrow> u8 \<times> u8 \<times> bool \<times> u64" where
  "printer_save p = (1, pr_latch p, pr_access_prev p, pr_now p)"

definition printer_load :: "printer_state \<Rightarrow> u8 \<times> u8 \<times> bool \<times> u64 \<Rightarrow> printer_state" where
  "printer_load p b =
    (case b of (v, latch, prev, now) \<Rightarrow>
      if v = 1 then p\<lparr>pr_latch := latch, pr_access_prev := prev, pr_now := now\<rparr> else p)"

definition printer_peek :: "printer_state \<Rightarrow> u8" where
  "printer_peek p = pr_latch p"

definition printer_poke_latch :: "printer_state \<Rightarrow> u8 \<Rightarrow> printer_state" where
  "printer_poke_latch p latch = p\<lparr>pr_latch := latch\<rparr>"

definition pop_event :: "printer_state \<Rightarrow> (PrinterEvent \<times> printer_state) option" where
  "pop_event p =
    (if pr_ev_count p > 0
     then Some (pr_ev p (pr_ev_head p), p\<lparr>pr_ev_head := (pr_ev_head p + 1) mod 64, pr_ev_count := pr_ev_count p - 1\<rparr>)
     else None)"

primrec printer_drain_events :: "printer_state \<Rightarrow> nat \<Rightarrow> PrinterEvent list \<times> printer_state" where
  "printer_drain_events p 0 = ([], p)"
| "printer_drain_events p (Suc n) =
    (case pop_event p of None \<Rightarrow> ([], p)
     | Some (e, q) \<Rightarrow> (case printer_drain_events q n of (es, r) \<Rightarrow> (e # es, r)))"

definition printer_advance :: "printer_state \<Rightarrow> u64 \<Rightarrow> printer_state" where
  "printer_advance p skipped_cycles = p\<lparr>pr_now := pr_now p + skipped_cycles\<rparr>"

subsection \<open>The ring\<close>

definition printer_wf :: "printer_state \<Rightarrow> bool" where
  "printer_wf p \<longleftrightarrow> pr_ev_head p < 64 \<and> pr_ev_count p \<le> 64"

definition printer_ring :: "printer_state \<Rightarrow> PrinterEvent list" where
  "printer_ring p = ring_list (pr_ev p) (pr_ev_head p) (pr_ev_count p)"

lemma length_printer_ring [simp]: "length (printer_ring p) = pr_ev_count p"
  by (simp add: printer_ring_def)

lemma ring_store_room:
  "pr_ev_count p < 64 \<Longrightarrow> printer_ring (p\<lparr>pr_ev := (pr_ev p)((pr_ev_head p + pr_ev_count p) mod 64 := e),
    pr_ev_count := pr_ev_count p + 1\<rparr>) = printer_ring p @ [e]"
  using ring_list_store [of "pr_ev_count p" "pr_ev p" "pr_ev_head p" e] by (simp add: printer_ring_def)

lemma ring_drop_oldest:
  "0 < pr_ev_count p \<Longrightarrow> printer_ring p = pr_ev p (pr_ev_head p mod 64) #
    printer_ring (p\<lparr>pr_ev_head := (pr_ev_head p + 1) mod 64, pr_ev_count := pr_ev_count p - 1\<rparr>)"
  using ring_list_oldest [of "pr_ev_count p" "pr_ev p" "pr_ev_head p"] by (simp add: printer_ring_def)

lemma store_event_ring:
  assumes "printer_wf p"
  shows "printer_ring (store_event p e) =
    (if length (printer_ring p) = 64 then tl (printer_ring p) else printer_ring p) @ [e]"
proof (cases "pr_ev_count p = 64")
  case True
  let ?q = "p\<lparr>pr_ev_head := (pr_ev_head p + 1) mod 64, pr_ev_count := pr_ev_count p - 1\<rparr>"
  have "printer_ring (store_event p e) = printer_ring ?q @ [e]"
    using ring_store_room [of ?q e] True by (simp add: store_event_def printer_kCap_def)
  then show ?thesis
    using ring_drop_oldest [of p] True by simp
next
  case False
  with assms have "pr_ev_count p < 64" by (simp add: printer_wf_def)
  from ring_store_room [OF this] False show ?thesis
    by (simp add: store_event_def printer_kCap_def Let_def)
qed

lemma store_event_ring_cong:
  assumes "printer_wf p" "printer_wf q" "printer_ring p = printer_ring q"
  shows "printer_ring (store_event p e) = printer_ring (store_event q e)"
  unfolding store_event_ring [OF assms(1)] store_event_ring [OF assms(2)] assms(3) ..

lemma store_event_wf [inv_intros]: "printer_wf p \<Longrightarrow> printer_wf (store_event p e)"
  by (simp add: printer_wf_def store_event_def printer_kCap_def Let_def)

lemma pop_event_ring:
  assumes "printer_wf p"
  shows "printer_ring p = [] \<Longrightarrow> pop_event p = None"
    "printer_ring p = e # es \<Longrightarrow> \<exists>q. pop_event p = Some (e, q) \<and> printer_ring q = es \<and> printer_wf q"
proof -
  show "printer_ring p = [] \<Longrightarrow> pop_event p = None"
    using length_printer_ring [of p] by (simp add: pop_event_def)
  assume "printer_ring p = e # es"
  then have "0 < pr_ev_count p" using length_printer_ring [of p] by simp
  then have "pr_ev_count p - Suc 0 \<le> 64" using assms by (simp add: printer_wf_def le_diff_conv)
  with ring_drop_oldest [OF \<open>0 < pr_ev_count p\<close>] \<open>printer_ring p = e # es\<close> \<open>0 < pr_ev_count p\<close> assms
  show "\<exists>q. pop_event p = Some (e, q) \<and> printer_ring q = es \<and> printer_wf q"
    by (simp add: pop_event_def printer_wf_def)
qed

interpretation printer_events: event_ring store_event pop_event printer_ring 64 printer_wf
  by unfold_locales (simp_all add: store_event_ring pop_event_ring store_event_wf, simp add: printer_wf_def)

lemma drain_ring:
  "printer_wf p \<Longrightarrow> fst (printer_drain_events p n) = take n (printer_ring p)"
proof (induction n arbitrary: p)
  case 0
  show ?case by simp
next
  case (Suc n)
  show ?case
  proof (cases "printer_ring p")
    case Nil
    then show ?thesis using printer_events.pop_Nil [OF Suc.prems] by simp
  next
    case (Cons e es)
    from printer_events.pop_Cons [OF Suc.prems Cons] obtain q where
      "pop_event p = Some (e, q)" "printer_ring q = es" "printer_wf q" by blast
    with Suc.IH [of q] Cons show ?thesis by (simp add: split_beta)
  qed
qed

subsection \<open>Interfaces provided\<close>

definition printer_obs :: "printer_state \<Rightarrow> u8 \<times> (nat \<Rightarrow> PrinterEvent) \<times> nat \<times> nat" where
  "printer_obs p = (pr_latch p, pr_ev p, pr_ev_head p, pr_ev_count p)"

lemma store_event_frame [simp]:
  "pr_access_prev (store_event p e) = pr_access_prev p" "pr_latch (store_event p e) = pr_latch p"
  "pr_now (store_event p e) = pr_now p"
  by (simp_all add: store_event_def Let_def)

lemma printer_latch_frame [simp]:
  "pr_access_prev (printer_latch p d) = pr_access_prev p" "pr_latch (printer_latch p d) = d XOR 0x80"
  "pr_now (printer_latch p d) = pr_now p"
  by (simp_all add: printer_latch_def push_event_def Let_def)

interpretation printer_drv: bus_driver printer_tick printer_next "\<lambda>_ _. []"
  by unfold_locales (simp add: printer_tick_def)

interpretation printer_port: edge_access printer_next "\<lambda>_. printer_sel" pr_access_prev printer_obs
  by unfold_locales (auto simp: printer_next_def printer_obs_def Let_def)

interpretation printer_wake: catch_up "\<lambda>p. printer_next p bus_resting"
  "\<lambda>p n. printer_advance p (of_nat n)" "\<lambda>p. \<not> pr_access_prev p"
  by unfold_locales (simp_all add: printer_next_def printer_advance_def printer_sel_def bus_resting_def Let_def)

interpretation printer_blob: state_blob printer_save printer_load
  "\<lambda>p. (pr_latch p, pr_access_prev p, pr_now p)" "\<lambda>p. (pr_ev p, pr_ev_head p, pr_ev_count p)"
  by unfold_locales (simp_all add: printer_save_def printer_load_def)

lemma unselected_advances:
  "\<not> printer_sel i \<Longrightarrow> printer_next p i = (printer_advance p 1)\<lparr>pr_access_prev := False\<rparr>"
  by (simp add: printer_next_def printer_advance_def Let_def)

subsection \<open>Properties\<close>

text \<open>An \<open>OUT\<close> to the printer port held for \<open>n + 1\<close> master cycles, followed by one cycle off the port.\<close>

definition printer_out :: "nat \<Rightarrow> u8 \<Rightarrow> printer_state \<Rightarrow> printer_state" where
  "printer_out n v p = printer_next (((\<lambda>p. printer_next p (io_write_bus 0xEFFF v)) ^^ Suc n) p) bus_resting"

text \<open>The Centronics handshake of the firmware: the byte with /STROBE high, low and high again.\<close>

definition printer_send :: "nat \<Rightarrow> u8 \<Rightarrow> printer_state \<Rightarrow> printer_state" where
  "printer_send n b p = printer_out n (b AND 0x7F) (printer_out n (b OR 0x80) (printer_out n (b AND 0x7F) p))"

definition ring_bytes :: "printer_state \<Rightarrow> u8 list" where
  "ring_bytes p = map pe_byte (printer_ring p)"

lemma printer_sel_out [simp]: "printer_sel (io_write_bus 0xEFFF v)"
  by (simp add: printer_sel_def)

lemma printer_ring_obs: "printer_obs p = printer_obs q \<Longrightarrow>
    pr_latch p = pr_latch q \<and> printer_ring p = printer_ring q \<and> printer_wf p = printer_wf q"
  by (simp add: printer_obs_def printer_ring_def printer_wf_def)

lemma printer_out_obs:
  assumes "\<not> pr_access_prev p"
  shows "printer_obs (printer_out n v p) = printer_obs (printer_latch (printer_advance p 1) v)"
    "\<not> pr_access_prev (printer_out n v p)"
proof -
  have rest: "\<not> printer_sel bus_resting" by (simp add: printer_sel_def bus_resting_def)
  let ?q = "((\<lambda>p. printer_next p (io_write_bus 0xEFFF v)) ^^ Suc n) p"
  have "printer_obs (printer_out n v p) = printer_obs ?q"
    using printer_port.no_edge [of bus_resting ?q] rest by (simp add: printer_out_def)
  also have "\<dots> = printer_obs (printer_next p (io_write_bus 0xEFFF v))"
    by (rule printer_port.held_once) simp
  also have "\<dots> = printer_obs (printer_latch (printer_advance p 1) v)"
    using assms by (simp add: printer_next_def printer_advance_def printer_latch_def push_event_def store_event_def
        printer_obs_def Let_def)
  finally show "printer_obs (printer_out n v p) = printer_obs (printer_latch (printer_advance p 1) v)" .
  show "\<not> pr_access_prev (printer_out n v p)"
    using rest by (simp add: printer_out_def printer_port.prev_step)
qed

lemma latch_bits:
  "((b AND 0x7F) XOR 0x80 :: u8) AND 0x80 \<noteq> 0" "((b OR 0x80) XOR 0x80 :: u8) AND 0x80 = 0"
  "((b OR 0x80) XOR 0x80 :: u8) AND 0x7F = b AND 0x7F"
proof -
  have "bit (0x80 :: u8) k \<longleftrightarrow> k = 7" for k
    using bit_exp_iff [where 'a = u8, of 7 k] by auto
  moreover have "bit (0x7F :: u8) k \<longleftrightarrow> k < 7" for k
    using bit_mask_iff [where 'a = u8, of 7 k] by (auto simp: mask_eq_exp_minus_1)
  ultimately show "((b AND 0x7F) XOR 0x80 :: u8) AND 0x80 \<noteq> 0" "((b OR 0x80) XOR 0x80 :: u8) AND 0x80 = 0"
    "((b OR 0x80) XOR 0x80 :: u8) AND 0x7F = b AND 0x7F"
    by (auto simp: mask_simps bit_simps intro!: bit_word_eqI)
qed

lemma printer_latch_ring:
  "\<not> (pr_latch p AND 0x80 \<noteq> 0 \<and> (v XOR 0x80) AND 0x80 = 0) \<Longrightarrow>
     printer_ring (printer_latch p v) = printer_ring p \<and> printer_wf (printer_latch p v) = printer_wf p"
  "pr_latch p AND 0x80 \<noteq> 0 \<Longrightarrow> (v XOR 0x80) AND 0x80 = 0 \<Longrightarrow>
     printer_ring (printer_latch p v) = printer_ring (store_event p \<lparr> pe_cycle = pr_now p, pe_byte = (v XOR 0x80) AND 0x7F \<rparr>)
     \<and> printer_wf (printer_latch p v) = printer_wf (store_event p \<lparr> pe_cycle = pr_now p, pe_byte = (v XOR 0x80) AND 0x7F \<rparr>)"
  by (auto simp: printer_latch_def push_event_def store_event_def printer_ring_def printer_wf_def Let_def)

lemma printer_advance_ring [simp]:
  "printer_ring (printer_advance p c) = printer_ring p" "printer_wf (printer_advance p c) = printer_wf p"
  "pr_latch (printer_advance p c) = pr_latch p"
  by (simp_all add: printer_advance_def printer_ring_def printer_wf_def)

lemma printer_out_ring:
  assumes "\<not> pr_access_prev p" "printer_wf p"
  shows "printer_wf (printer_out n v p)" "\<not> pr_access_prev (printer_out n v p)"
    "pr_latch (printer_out n v p) = v XOR 0x80"
    "\<not> (pr_latch p AND 0x80 \<noteq> 0 \<and> (v XOR 0x80) AND 0x80 = 0) \<Longrightarrow>
       printer_ring (printer_out n v p) = printer_ring p"
    "pr_latch p AND 0x80 \<noteq> 0 \<Longrightarrow> (v XOR 0x80) AND 0x80 = 0 \<Longrightarrow>
       \<exists>c. printer_ring (printer_out n v p) = printer_ring (store_event p \<lparr> pe_cycle = c, pe_byte = (v XOR 0x80) AND 0x7F \<rparr>)"
proof -
  let ?q = "printer_advance p 1"
  note obs = printer_ring_obs [OF printer_out_obs(1) [OF assms(1), of n v]]
  have wf: "printer_wf ?q" using assms(2) by simp
  show "printer_wf (printer_out n v p)"
    using obs printer_latch_ring [of ?q v] wf store_event_wf [OF wf] by auto
  show "\<not> pr_access_prev (printer_out n v p)" by (rule printer_out_obs(2) [OF assms(1)])
  show "pr_latch (printer_out n v p) = v XOR 0x80" using obs by simp
  show "printer_ring (printer_out n v p) = printer_ring p"
    if "\<not> (pr_latch p AND 0x80 \<noteq> 0 \<and> (v XOR 0x80) AND 0x80 = 0)"
    using obs printer_latch_ring(1) [of ?q v] that by simp
  show "\<exists>c. printer_ring (printer_out n v p) = printer_ring (store_event p \<lparr> pe_cycle = c, pe_byte = (v XOR 0x80) AND 0x7F \<rparr>)"
    if "pr_latch p AND 0x80 \<noteq> 0" "(v XOR 0x80) AND 0x80 = 0"
    using obs printer_latch_ring(2) [of ?q v] that store_event_ring [OF wf] store_event_ring [OF assms(2)] by simp
qed

lemma printer_send_ring:
  assumes "\<not> pr_access_prev p" "printer_wf p"
  shows "\<not> pr_access_prev (printer_send n b p)" "printer_wf (printer_send n b p)"
    "\<exists>c. printer_ring (printer_send n b p) = printer_ring (store_event p \<lparr> pe_cycle = c, pe_byte = b AND 0x7F \<rparr>)"
proof -
  let ?q = "printer_out n (b AND 0x7F) p"
  let ?r = "printer_out n (b OR 0x80) ?q"
  have q: "\<not> pr_access_prev ?q" "printer_wf ?q" "printer_ring ?q = printer_ring p" "pr_latch ?q AND 0x80 \<noteq> 0"
    using printer_out_ring [OF assms, where n = n and v = "b AND 0x7F"] latch_bits(1) [of b] by simp_all
  have r: "\<not> pr_access_prev ?r" "printer_wf ?r"
    "\<exists>c. printer_ring ?r = printer_ring (store_event ?q \<lparr> pe_cycle = c, pe_byte = b AND 0x7F \<rparr>)"
    using printer_out_ring [OF q(1,2), where n = n and v = "b OR 0x80"] latch_bits(2,3) [of b] q(4) by simp_all
  have "printer_ring (printer_send n b p) = printer_ring ?r"
    using printer_out_ring(4) [OF r(1,2), where v = "b AND 0x7F" and n = n] latch_bits(1) [of b] by (simp add: printer_send_def)
  then show "\<exists>c. printer_ring (printer_send n b p) = printer_ring (store_event p \<lparr> pe_cycle = c, pe_byte = b AND 0x7F \<rparr>)"
    using r(3) store_event_ring_cong [OF q(2) assms(2) q(3)] by simp
  show "\<not> pr_access_prev (printer_send n b p)" "printer_wf (printer_send n b p)"
    using printer_out_ring(1,2) [OF r(1,2)] by (simp_all add: printer_send_def)
qed

lemma printer_run_ring:
  assumes "\<not> pr_access_prev p" "printer_wf p" "printer_wf q" "printer_ring p = printer_ring q"
  shows "\<exists>es. map pe_byte es = map (\<lambda>b. b AND 0x7F) bs \<and> printer_wf (fold (printer_send n) bs p) \<and>
    printer_ring (fold (printer_send n) bs p) = printer_ring (fold (\<lambda>e s. store_event s e) es q)"
  using assms
proof (induction bs arbitrary: p q)
  case Nil
  then show ?case by simp
next
  case (Cons b bs)
  note send = printer_send_ring [OF Cons.prems(1,2), of n b]
  from send(3) obtain c where "printer_ring (printer_send n b p) =
      printer_ring (store_event p \<lparr> pe_cycle = c, pe_byte = b AND 0x7F \<rparr>)" by blast
  moreover let ?e = "\<lparr> pe_cycle = c, pe_byte = b AND 0x7F \<rparr>"
  have "printer_ring (store_event p ?e) = printer_ring (store_event q ?e)"
    by (rule store_event_ring_cong [OF Cons.prems(2-4)])
  ultimately obtain es where "map pe_byte es = map (\<lambda>b. b AND 0x7F) bs"
    "printer_wf (fold (printer_send n) bs (printer_send n b p))"
    "printer_ring (fold (printer_send n) bs (printer_send n b p)) =
      printer_ring (fold (\<lambda>e s. store_event s e) es (store_event q ?e))"
    using Cons.IH [OF send(1,2) store_event_wf [OF Cons.prems(3)], of ?e] by auto
  then show ?case by (intro exI [of _ "?e # es"]) simp
qed

text \<open>(printer_captures): Bytes sent through the port with the strobe handshake, each \<open>OUT\<close> held for
  any number of master cycles, come out of the event ring in order, seven bits each and once each;
  when more than 64 are pending the oldest are sacrificed.\<close>

theorem printer_captures:
  assumes "printer_wf p" "\<not> pr_access_prev p"
  shows "map pe_byte (fst (printer_drain_events (fold (printer_send n) bs p) 64)) =
    drop (length (ring_bytes p) + length bs - 64) (ring_bytes p @ map (\<lambda>b. b AND 0x7F) bs)"
proof -
  obtain es where es: "map pe_byte es = map (\<lambda>b. b AND 0x7F) bs" "printer_wf (fold (printer_send n) bs p)"
    "printer_ring (fold (printer_send n) bs p) = printer_ring (fold (\<lambda>e s. store_event s e) es p)"
    using printer_run_ring [OF assms(2,1,1) refl] by blast
  let ?r = "printer_ring (fold (printer_send n) bs p)"
  have len: "length es = length bs" using es(1) by (metis length_map)
  have "?r = drop (pr_ev_count p + length bs - 64) (printer_ring p @ es)"
    using printer_events.contents_fold_push [OF assms(1), of es] es(3) len by simp
  moreover have "take 64 ?r = ?r"
    using es(2) by (simp add: printer_wf_def)
  ultimately have "fst (printer_drain_events (fold (printer_send n) bs p) 64) =
      drop (pr_ev_count p + length bs - 64) (printer_ring p @ es)"
    using drain_ring [OF es(2), of 64] by simp
  then show ?thesis
    using es(1) by (simp only: drop_map [symmetric] map_append ring_bytes_def length_map length_printer_ring)
qed

theorem printer_captures_witness:
  "map pe_byte (fst (printer_drain_events (fold (printer_send 3) [0x48, 0xC9] printer_init) 64)) = [0x48, 0x49]"
proof -
  have "printer_wf printer_init" "\<not> pr_access_prev printer_init" "ring_bytes printer_init = []"
    by (simp_all add: printer_init_def printer_wf_def ring_bytes_def printer_ring_def ring_list_def)
  then show ?thesis using printer_captures [of printer_init 3 "[0x48, 0xC9]"] by simp
qed

text \<open>(printer_skip_exact): A scheduler that skips any number of cycles in which the port is not
  addressed, and then advances the clock by their number, reaches the state of the per-cycle run.\<close>

theorem printer_skip_exact:
  assumes "\<not> pr_access_prev p" "list_all (\<lambda>i. \<not> printer_sel i) is"
  shows "fold (\<lambda>i p. printer_next p i) is p = printer_advance p (of_nat (length is))"
  using assms
proof (induction "is" arbitrary: p)
  case Nil
  then show ?case by (simp add: printer_advance_def)
next
  case (Cons i "is")
  then have "printer_next p i = printer_advance p 1"
    by (simp add: unselected_advances printer_advance_def)
  with Cons show ?case by (simp add: printer_advance_def ac_simps)
qed

theorem printer_skip_exact_witness:
  "fold (\<lambda>i p. printer_next p i) [bus_resting, bus_resting] printer_init = printer_advance printer_init 2"
  using printer_skip_exact [of printer_init "[bus_resting, bus_resting]"]
  by (simp add: printer_init_def printer_sel_def bus_resting_def)
end
