(* ===== verification/Amdrum.thy ===== *)
theory Amdrum
  imports Contracts
begin

text \<open>
  The AmDrum sample latch, \<open>src/src/hw/amdrum.cpp\<close>: an 8-bit DAC latch at \<open>&FFxx\<close>, loaded once per I/O
  write access while the cartridge is plugged in. Fields are named \<open>ad_x\<close> for the C member \<open>x\<close>.
\<close>

record amdrum_state =
  ad_dac :: u8
  ad_plugged :: bool
  ad_access_prev :: bool

definition amdrum_init :: amdrum_state where
  "amdrum_init = \<lparr> ad_dac = 128, ad_plugged = False, ad_access_prev = False \<rparr>"

definition amdrum_sel :: "Bus \<Rightarrow> bool" where
  "amdrum_sel i \<longleftrightarrow> cpu_iorq (b_cpu i) \<and> \<not> cpu_m1 (b_cpu i) \<and> cpu_wr (b_cpu i) \<and>
     cpu_addr (b_cpu i) AND 0xFF00 = 0xFF00"

definition amdrum_next :: "amdrum_state \<Rightarrow> Bus \<Rightarrow> amdrum_state" where
  "amdrum_next a i =
    (if \<not> ad_plugged a then a
     else (let sel = amdrum_sel i; edge = (sel \<and> \<not> ad_access_prev a);
               b = a\<lparr>ad_access_prev := sel\<rparr>
           in if edge then b\<lparr>ad_dac := cpu_data (b_cpu i)\<rparr> else b))"

definition amdrum_tick :: "amdrum_state \<Rightarrow> Bus \<Rightarrow> Bus \<Rightarrow> amdrum_state \<times> Bus" where
  "amdrum_tick a i out = (amdrum_next a i, out)"

definition amdrum_dev_reset :: "amdrum_state \<Rightarrow> amdrum_state" where
  "amdrum_dev_reset a = a\<lparr>ad_dac := 128, ad_access_prev := False\<rparr>"

definition amdrum_save :: "amdrum_state \<Rightarrow> u8 \<times> amdrum_state" where
  "amdrum_save a = (1, a)"

definition amdrum_load :: "amdrum_state \<Rightarrow> u8 \<times> amdrum_state \<Rightarrow> amdrum_state" where
  "amdrum_load a b = (if fst b = 1 then snd b else a)"

definition amdrum_peek :: "amdrum_state \<Rightarrow> u8 \<times> bool" where
  "amdrum_peek a = (ad_dac a, ad_plugged a)"

definition amdrum_set_plugged :: "amdrum_state \<Rightarrow> bool \<Rightarrow> amdrum_state" where
  "amdrum_set_plugged a on = a\<lparr>ad_plugged := on\<rparr>"

subsection \<open>Interfaces provided\<close>

interpretation amdrum_drv: bus_driver amdrum_tick amdrum_next "\<lambda>_ _. []"
  by unfold_locales (simp add: amdrum_tick_def)

interpretation amdrum_port: edge_access amdrum_next "\<lambda>a i. ad_plugged a \<and> amdrum_sel i"
  "\<lambda>a. ad_plugged a \<and> ad_access_prev a" "\<lambda>a. (ad_dac a, ad_plugged a)"
  by unfold_locales (auto simp: amdrum_next_def Let_def)

interpretation amdrum_blob: state_blob amdrum_save amdrum_load "\<lambda>a. a" "\<lambda>_. ()"
  by unfold_locales (simp_all add: amdrum_save_def amdrum_load_def)

subsection \<open>Properties\<close>

text \<open>An \<open>OUT\<close> to \<open>&FFxx\<close> held for \<open>n + 1\<close> cycles and then cycles in which the port is not
  addressed: the DAC holds the byte of the access, whatever the data lines carry meanwhile.\<close>

lemma amdrum_holds_sample:
  assumes "ad_plugged a" "\<not> ad_access_prev a" "amdrum_sel i"
    and "\<And>j. j \<in> set js \<Longrightarrow> \<not> amdrum_sel j"
  shows "ad_dac (fold (\<lambda>j a. amdrum_next a j) js (((\<lambda>a. amdrum_next a i) ^^ Suc n) a)) = cpu_data (b_cpu i)"
proof -
  let ?b = "((\<lambda>a. amdrum_next a i) ^^ Suc n) a"
  have "(ad_dac (fold (\<lambda>j a. amdrum_next a j) js ?b), ad_plugged (fold (\<lambda>j a. amdrum_next a j) js ?b)) =
      (ad_dac ?b, ad_plugged ?b)"
    using assms(4) by (intro amdrum_port.unselected_run) simp
  also have "\<dots> = (ad_dac (amdrum_next a i), ad_plugged (amdrum_next a i))"
    using assms by (intro amdrum_port.held_once) simp
  finally show ?thesis
    using assms by (simp add: amdrum_next_def)
qed

end
