(* ===== verification/Amx.thy ===== *)
theory Amx
  imports Contracts
begin

text \<open>
  The AMX mouse, \<open>src/src/hw/amx.cpp\<close>: signed 16-bit mickey counters fed by the host, drained by one
  count per axis on each deselect/select of keyboard row 9, and the active-low column lines the mouse
  pulls while its row is selected. Fields are named \<open>mx_x\<close> for the C member \<open>x\<close>; the \<open>int16_t\<close>
  counters are \<open>int\<close> with the saturation of \<open>amx_feed\<close> written out, which keeps them in range.
\<close>

record amx_state =
  mx_mickeys_x :: int
  mx_mickeys_y :: int
  mx_buttons :: u8
  mx_plugged :: bool
  mx_row9_now :: bool
  mx_row9_armed :: bool

definition amx_init :: amx_state where
  "amx_init = \<lparr> mx_mickeys_x = 0, mx_mickeys_y = 0, mx_buttons = 0, mx_plugged = False,
     mx_row9_now = False, mx_row9_armed = False \<rparr>"

definition toward_zero :: "int \<Rightarrow> int" where
  "toward_zero m = (if m > 0 then m - 1 else if m < 0 then m + 1 else m)"

definition amx_row9 :: "Bus \<Rightarrow> bool" where
  "amx_row9 i \<longleftrightarrow> ay_kbd_row (b_ay i) AND 0x0F = 9"

definition amx_monostable :: "amx_state \<Rightarrow> bool \<Rightarrow> amx_state" where
  "amx_monostable a sel =
    (let a1 = (if \<not> sel \<and> mx_row9_now a then a\<lparr>mx_row9_armed := True\<rparr> else a);
         a2 = (if sel \<and> \<not> mx_row9_now a1 \<and> mx_row9_armed a1
               then a1\<lparr>mx_mickeys_x := toward_zero (mx_mickeys_x a1),
                       mx_mickeys_y := toward_zero (mx_mickeys_y a1), mx_row9_armed := False\<rparr>
               else a1)
     in a2\<lparr>mx_row9_now := sel\<rparr>)"

definition pull :: "bool \<Rightarrow> nat \<Rightarrow> u8 \<Rightarrow> u8" where
  "pull c n lines = (if c then lines AND NOT (push_bit n 1) else lines)"

definition amx_lines :: "amx_state \<Rightarrow> u8" where
  "amx_lines a =
    pull (mx_buttons a AND 2 \<noteq> 0) 6 (pull (mx_buttons a AND 4 \<noteq> 0) 5 (pull (mx_buttons a AND 1 \<noteq> 0) 4
     (pull (mx_mickeys_x a > 0) 3 (pull (mx_mickeys_x a < 0) 2
      (pull (mx_mickeys_y a > 0) 1 (pull (mx_mickeys_y a < 0) 0 0xFF))))))"

definition amx_step :: "amx_state \<Rightarrow> Bus \<Rightarrow> amx_state \<times> asg list" where
  "amx_step a i =
    (if \<not> mx_plugged a then (a, [])
     else (let b = amx_monostable a (amx_row9 i) in
           (b, if amx_row9 i then [Dr_ay_row_ext (amx_lines b)] else [])))"

definition amx_tick :: "amx_state \<Rightarrow> Bus \<Rightarrow> Bus \<Rightarrow> amx_state \<times> Bus" where
  "amx_tick a i out = (fst (amx_step a i), drive (snd (amx_step a i)) out)"

definition amx_dev_reset :: "amx_state \<Rightarrow> amx_state" where
  "amx_dev_reset a = a\<lparr>mx_mickeys_x := 0, mx_mickeys_y := 0, mx_buttons := 0, mx_row9_now := False,
     mx_row9_armed := False\<rparr>"

definition amx_save :: "amx_state \<Rightarrow> u8 \<times> amx_state" where
  "amx_save a = (1, a)"

definition amx_load :: "amx_state \<Rightarrow> u8 \<times> amx_state \<Rightarrow> amx_state" where
  "amx_load a b = (if fst b = 1 then snd b else a)"

definition clamp16 :: "int \<Rightarrow> int" where
  "clamp16 x = (if x < -32768 then -32768 else if x > 32767 then 32767 else x)"

definition amx_feed :: "amx_state \<Rightarrow> int \<Rightarrow> int \<Rightarrow> u8 \<Rightarrow> amx_state" where
  "amx_feed a dx dy buttons =
    a\<lparr>mx_mickeys_x := clamp16 (mx_mickeys_x a + dx), mx_mickeys_y := clamp16 (mx_mickeys_y a + dy),
      mx_buttons := buttons\<rparr>"

definition amx_set_plugged :: "amx_state \<Rightarrow> bool \<Rightarrow> amx_state" where
  "amx_set_plugged a on = a\<lparr>mx_plugged := on\<rparr>"

definition amx_peek :: "amx_state \<Rightarrow> bool \<times> int \<times> int \<times> u8" where
  "amx_peek a = (mx_plugged a, mx_mickeys_x a, mx_mickeys_y a, mx_buttons a)"

subsection \<open>Interfaces provided\<close>

interpretation amx_drv: bus_driver amx_tick "\<lambda>a i. fst (amx_step a i)" "\<lambda>a i. snd (amx_step a i)"
  by unfold_locales (simp add: amx_tick_def)

interpretation amx_blob: state_blob amx_save amx_load "\<lambda>a. a" "\<lambda>_. ()"
  by unfold_locales (simp_all add: amx_save_def amx_load_def)

subsection \<open>Properties\<close>

definition amx_wf :: "amx_state \<Rightarrow> bool" where
  "amx_wf a \<longleftrightarrow> mx_mickeys_x a \<in> {-32768..32767} \<and> mx_mickeys_y a \<in> {-32768..32767}"

lemma amx_wf_step [inv_intros]: "amx_wf a \<Longrightarrow> amx_wf (fst (amx_step a i))"
  by (auto simp: amx_wf_def amx_step_def amx_monostable_def toward_zero_def Let_def)

lemma amx_wf_feed [inv_intros]: "amx_wf (amx_feed a dx dy b)"
  by (auto simp: amx_wf_def amx_feed_def clamp16_def)

text \<open>One scan of the joystick row: \<open>m + 1\<close> cycles with row 9 off the lines, then \<open>n + 1\<close> with it
  selected, as the firmware's keyboard scan produces.\<close>

definition row_bus :: "u8 \<Rightarrow> Bus" where
  "row_bus r = bus_resting\<lparr>b_ay := (b_ay bus_resting)\<lparr>ay_kbd_row := r\<rparr>\<rparr>"

definition amx_scan :: "nat \<Rightarrow> nat \<Rightarrow> amx_state \<Rightarrow> amx_state" where
  "amx_scan m n a =
    ((\<lambda>a. fst (amx_step a (row_bus 9))) ^^ Suc n) (((\<lambda>a. fst (amx_step a (row_bus 8))) ^^ Suc m) a)"

lemma row_bus_sel [simp]: "amx_row9 (row_bus 9)" "\<not> amx_row9 (row_bus 8)"
  by (simp_all add: amx_row9_def row_bus_def)

lemma amx_held: "((\<lambda>a. fst (amx_step a i)) ^^ Suc n) a = fst (amx_step a i)"
proof -
  have "fst (amx_step (fst (amx_step a i)) i) = fst (amx_step a i)" for a
    by (auto simp: amx_step_def amx_monostable_def Let_def)
  then show ?thesis by (rule funpow_idem)
qed

lemma amx_scan_step:
  assumes "mx_plugged a" "mx_row9_now a"
  shows "amx_scan m n a = a\<lparr>mx_mickeys_x := toward_zero (mx_mickeys_x a),
    mx_mickeys_y := toward_zero (mx_mickeys_y a), mx_row9_armed := False\<rparr>"
proof -
  have "amx_scan m n a = fst (amx_step (fst (amx_step a (row_bus 8))) (row_bus 9))"
    unfolding amx_scan_def amx_held ..
  then show ?thesis
    using assms by (simp add: amx_step_def amx_monostable_def Let_def)
qed

lemma toward_zero_funpow: "(toward_zero ^^ k) m = (if m \<ge> 0 then max 0 (m - int k) else min 0 (m + int k))"
  by (induction k) (auto simp: toward_zero_def)

text \<open>Scanning the row \<open>k\<close> times reports the movement as \<open>k\<close> unit steps: the pending counts move
  towards zero by exactly \<open>k\<close>, whatever time each phase of a scan takes.\<close>

lemma amx_scans:
  assumes "mx_plugged a" "mx_row9_now a"
  shows "mx_mickeys_x ((amx_scan m n ^^ k) a) = (toward_zero ^^ k) (mx_mickeys_x a) \<and>
    mx_mickeys_y ((amx_scan m n ^^ k) a) = (toward_zero ^^ k) (mx_mickeys_y a) \<and>
    mx_plugged ((amx_scan m n ^^ k) a) \<and> mx_row9_now ((amx_scan m n ^^ k) a)"
  using assms by (induction k) (simp_all add: amx_scan_step)

lemma amx_scans_drain:
  assumes "mx_plugged a" "mx_row9_now a" "nat \<bar>mx_mickeys_x a\<bar> \<le> k" "nat \<bar>mx_mickeys_y a\<bar> \<le> k"
  shows "mx_mickeys_x ((amx_scan m n ^^ k) a) = 0 \<and> mx_mickeys_y ((amx_scan m n ^^ k) a) = 0"
  using amx_scans [OF assms(1,2), where m = m and n = n and k = k] assms(3,4) by (auto simp: toward_zero_funpow)

text \<open>The direction lines say which way the pending count points, and opposite directions are never
  pulled together.\<close>

lemma amx_lines_direction:
  "(bit (amx_lines a) 0 \<longleftrightarrow> \<not> mx_mickeys_y a < 0) \<and> (bit (amx_lines a) 1 \<longleftrightarrow> \<not> mx_mickeys_y a > 0) \<and>
   (bit (amx_lines a) 2 \<longleftrightarrow> \<not> mx_mickeys_x a < 0) \<and> (bit (amx_lines a) 3 \<longleftrightarrow> \<not> mx_mickeys_x a > 0)"
proof -
  have b: "bit (pull c n l) k \<longleftrightarrow> bit l k \<and> \<not> (c \<and> n = k)" if "k < 8" for c n l k
    using that by (auto simp: pull_def bit_and_iff bit_not_iff bit_exp_iff)
  have ones: "bit (0xFF :: u8) k" if "k < 8" for k
  proof -
    have "bit (- 1 :: u8) k" using that by (subst bit_minus_1_iff) simp
    moreover have "(0xFF :: u8) = - 1" by simp
    ultimately show ?thesis by (simp only:)
  qed
  show ?thesis
    by (simp add: amx_lines_def b ones)
qed

end
