(* ===== verification/Light_Gun.thy ===== *)
theory Light_Gun
  imports Contracts
begin

text \<open>
  The light gun, \<open>src/src/hw/light_gun.cpp\<close>: it follows the beam in character columns and pulls the LPEN
  strobe while the trigger is held and the beam is close to the aimed point. Fields are named \<open>lg_x\<close>
  for the C member \<open>x\<close>.
\<close>

record light_gun_state =
  lg_type :: u8
  lg_pressed :: bool
  lg_aim_line :: u16
  lg_aim_col :: u16
  lg_active_col :: u16
  lg_dispen_prev :: bool
  lg_line_prev :: u16

definition light_gun_init :: light_gun_state where
  "light_gun_init = \<lparr> lg_type = 0, lg_pressed = False, lg_aim_line = 0, lg_aim_col = 0,
     lg_active_col = 0, lg_dispen_prev = False, lg_line_prev = 0 \<rparr>"

definition light_gun_track :: "light_gun_state \<Rightarrow> u16 \<Rightarrow> bool \<Rightarrow> light_gun_state" where
  "light_gun_track g line dispen =
    (let col = (if line \<noteq> lg_line_prev g \<or> (\<not> dispen \<and> lg_dispen_prev g) then 0
                else if dispen \<and> lg_dispen_prev g then lg_active_col g + 1
                else lg_active_col g)
     in g\<lparr>lg_active_col := col, lg_dispen_prev := dispen, lg_line_prev := line\<rparr>)"

definition light_gun_hit :: "light_gun_state \<Rightarrow> u16 \<Rightarrow> bool" where
  "light_gun_hit g line \<longleftrightarrow> lg_pressed g \<and>
     \<bar>int (unat line) - int (unat (lg_aim_line g))\<bar> < 2 \<and>
     \<bar>int (unat (lg_active_col g)) - int (unat (lg_aim_col g))\<bar> < 2"

definition light_gun_step :: "light_gun_state \<Rightarrow> Bus \<Rightarrow> light_gun_state \<times> asg list" where
  "light_gun_step g i =
    (if lg_type g = 0 then (g, [])
     else if \<not> clk_crtc (b_clk i) then (g, [])
     else (let h = light_gun_track g (vid_frame_line (b_vid i)) (vid_dispen (b_vid i)) in
           (h, if light_gun_hit h (vid_frame_line (b_vid i)) then [Dr_strobe] else [])))"

definition light_gun_tick :: "light_gun_state \<Rightarrow> Bus \<Rightarrow> Bus \<Rightarrow> light_gun_state \<times> Bus" where
  "light_gun_tick g i out = (fst (light_gun_step g i), drive (snd (light_gun_step g i)) out)"

definition light_gun_dev_reset :: "light_gun_state \<Rightarrow> light_gun_state" where
  "light_gun_dev_reset g = g\<lparr>lg_pressed := False, lg_active_col := 0, lg_dispen_prev := False, lg_line_prev := 0\<rparr>"

definition light_gun_save :: "light_gun_state \<Rightarrow> u8 \<times> light_gun_state" where
  "light_gun_save g = (1, g)"

definition light_gun_load :: "light_gun_state \<Rightarrow> u8 \<times> light_gun_state \<Rightarrow> light_gun_state" where
  "light_gun_load g b = (if fst b = 1 then snd b else g)"

definition light_gun_set_type :: "light_gun_state \<Rightarrow> u8 \<Rightarrow> light_gun_state" where
  "light_gun_set_type g t = g\<lparr>lg_type := t\<rparr>"

definition light_gun_set_aim :: "light_gun_state \<Rightarrow> u16 \<Rightarrow> u16 \<Rightarrow> light_gun_state" where
  "light_gun_set_aim g line col = g\<lparr>lg_aim_line := line, lg_aim_col := col\<rparr>"

definition light_gun_set_trigger :: "light_gun_state \<Rightarrow> bool \<Rightarrow> light_gun_state" where
  "light_gun_set_trigger g pressed = g\<lparr>lg_pressed := pressed\<rparr>"

subsection \<open>Interfaces provided\<close>

interpretation light_gun_drv: bus_driver light_gun_tick
  "\<lambda>g i. fst (light_gun_step g i)" "\<lambda>g i. snd (light_gun_step g i)"
  by unfold_locales (simp add: light_gun_tick_def)

interpretation light_gun_blob: state_blob light_gun_save light_gun_load "\<lambda>g. g" "\<lambda>_. ()"
  by unfold_locales (simp_all add: light_gun_save_def light_gun_load_def)

subsection \<open>Properties\<close>

text \<open>A displayed scanline: \<open>line\<close> is new, then \<open>k + 1\<close> characters with the display enabled.\<close>

definition beam_bus :: "u16 \<Rightarrow> bool \<Rightarrow> Bus" where
  "beam_bus line de = bus_resting\<lparr>b_vid := (b_vid bus_resting)\<lparr>vid_frame_line := line, vid_dispen := de\<rparr>,
     b_clk := (b_clk bus_resting)\<lparr>clk_crtc := True\<rparr>\<rparr>"

lemma beam_bus_simps [simp]: "vid_frame_line (b_vid (beam_bus l d)) = l" "vid_dispen (b_vid (beam_bus l d)) = d"
    "clk_crtc (b_clk (beam_bus l d))"
  by (simp_all add: beam_bus_def)

lemma light_gun_column:
  assumes "lg_type g \<noteq> 0" "line \<noteq> lg_line_prev g"
  shows "((\<lambda>g. fst (light_gun_step g (beam_bus line True))) ^^ Suc k) g =
    g\<lparr>lg_active_col := of_nat k, lg_dispen_prev := True, lg_line_prev := line\<rparr>"
proof (induction k)
  case 0
  show ?case using assms by (simp add: light_gun_step_def light_gun_track_def Let_def)
next
  case (Suc k)
  then show ?case
    using assms(1) by (simp add: light_gun_step_def light_gun_track_def Let_def ac_simps)
qed

text \<open>The strobe fires on the characters at most one column and one scanline from the aimed point:
  a window of three by three, narrower than the two either way that the comment in the source names.\<close>

lemma light_gun_window:
  assumes "lg_type g \<noteq> 0" "line \<noteq> lg_line_prev g" "lg_pressed g" "k < 65536"
  shows "snd (light_gun_step (((\<lambda>g. fst (light_gun_step g (beam_bus line True))) ^^ k) g) (beam_bus line True)) =
    (if \<bar>int (unat line) - int (unat (lg_aim_line g))\<bar> \<le> 1 \<and> \<bar>int k - int (unat (lg_aim_col g))\<bar> \<le> 1
     then [Dr_strobe] else [])"
proof (cases k)
  case 0
  then show ?thesis
    using assms by (auto simp: light_gun_step_def light_gun_track_def light_gun_hit_def Let_def)
next
  case (Suc j)
  have "unat (of_nat k :: u16) = k"
    using assms(4) by (simp add: unat_of_nat)
  then have "int (unat (of_nat j + 1 :: u16)) = int k"
    using Suc by (simp add: ac_simps)
  then show ?thesis
    using assms unfolding Suc light_gun_column [OF assms(1,2)]
    by (auto simp: light_gun_step_def light_gun_track_def light_gun_hit_def Let_def)
qed

end
