(* ===== verification/Smartwatch.thy ===== *)
theory Smartwatch
  imports Contracts
begin

text \<open>
  The SmartWatch phantom clock (DS1216), \<open>src/src/hw/smartwatch.cpp\<close>: a serial protocol carried by the
  address lines of upper-ROM reads. A0 is the data bit and A2 the mode; 64 write-mode accesses that
  spell the recognition pattern open a burst of 64 read-mode accesses whose D0 the watch overrides with
  the bits of the latched time. Fields are named \<open>sw_x\<close> for the C member \<open>x\<close>; \<open>bit_index\<close> is a
  \<open>uint8_t\<close> that stays below 64.
\<close>

definition kPattern :: u64 where
  "kPattern = 0x5CA33AC55CA33AC5"

datatype sw_phase = SW_IDLE | SW_MATCHING | SW_READING

record sw_state =
  sw_phase :: sw_phase
  sw_bit_index :: nat
  sw_shift :: u64
  sw_time_bcd :: "nat \<Rightarrow> u8"
  sw_snap :: "nat \<Rightarrow> u8"
  sw_plugged :: bool
  sw_upper_rom_off :: bool
  sw_drive :: bool
  sw_drive_bit :: u8
  sw_have_byte :: bool
  sw_rom_byte :: u8
  sw_acc_prev :: bool
  sw_io_prev :: bool

definition smartwatch_init :: sw_state where
  "smartwatch_init = \<lparr> sw_phase = SW_IDLE, sw_bit_index = 0, sw_shift = 0, sw_time_bcd = (\<lambda>_. 0),
     sw_snap = (\<lambda>_. 0), sw_plugged = False, sw_upper_rom_off = False, sw_drive = False,
     sw_drive_bit = 0, sw_have_byte = False, sw_rom_byte = 0, sw_acc_prev = False, sw_io_prev = False \<rparr>"

definition fsm_fresh :: "sw_state \<Rightarrow> bool \<Rightarrow> sw_state" where
  "fsm_fresh w a0 = w\<lparr>sw_phase := SW_MATCHING, sw_shift := (if a0 then 1 else 0), sw_bit_index := 1\<rparr>"

definition fsm_match :: "sw_state \<Rightarrow> bool \<Rightarrow> sw_state" where
  "fsm_match w a0 =
    (let sh = sw_shift w OR push_bit (sw_bit_index w) (if a0 then 1 else 0);
         k = sw_bit_index w + 1
     in if k = 64 then
          (if sh = kPattern
           then w\<lparr>sw_shift := sh, sw_snap := sw_time_bcd w, sw_phase := SW_READING, sw_bit_index := 0\<rparr>
           else w\<lparr>sw_shift := sh, sw_phase := SW_IDLE, sw_bit_index := 0\<rparr>)
        else w\<lparr>sw_shift := sh, sw_bit_index := k\<rparr>)"

definition fsm_read :: "sw_state \<Rightarrow> sw_state" where
  "fsm_read w =
    (let v = w\<lparr>sw_drive_bit := drop_bit (sw_bit_index w mod 8) (sw_snap w (sw_bit_index w div 8)) AND 1\<rparr>;
         k = sw_bit_index w + 1
     in if k \<ge> 64 then v\<lparr>sw_phase := SW_IDLE, sw_bit_index := 0\<rparr> else v\<lparr>sw_bit_index := k\<rparr>)"

definition fsm_step :: "sw_state \<Rightarrow> bool \<Rightarrow> bool \<Rightarrow> sw_state \<times> bool" where
  "fsm_step w a0 a2 =
    (case sw_phase w of
       SW_IDLE \<Rightarrow> (if \<not> a2 then fsm_fresh w a0 else w, False)
     | SW_MATCHING \<Rightarrow>
         (if a2 then w\<lparr>sw_phase := SW_IDLE, sw_bit_index := 0\<rparr> else fsm_match w a0, False)
     | SW_READING \<Rightarrow> if \<not> a2 then (fsm_fresh w a0, False) else (fsm_read w, True))"

definition sw_snoop :: "sw_state \<Rightarrow> Bus \<Rightarrow> sw_state" where
  "sw_snoop w i =
    (let io_wr = (cpu_iorq (b_cpu i) \<and> \<not> cpu_m1 (b_cpu i) \<and> cpu_wr (b_cpu i));
         v = (if io_wr \<and> \<not> sw_io_prev w \<and> cpu_addr (b_cpu i) AND 0xC000 = 0x4000 \<and> drop_bit 6 (cpu_data (b_cpu i)) = 2
              then w\<lparr>sw_upper_rom_off := (drop_bit 3 (cpu_data (b_cpu i)) AND 1 \<noteq> 0)\<rparr> else w)
     in v\<lparr>sw_io_prev := io_wr\<rparr>)"

definition sw_access :: "sw_state \<Rightarrow> Bus \<Rightarrow> bool" where
  "sw_access w i \<longleftrightarrow> cpu_mreq (b_cpu i) \<and> cpu_rd (b_cpu i) \<and> \<not> cpu_rfsh (b_cpu i) \<and>
     cpu_addr (b_cpu i) \<ge> 0xC000 \<and> \<not> sw_upper_rom_off w"

definition sw_override :: "sw_state \<Rightarrow> bool \<Rightarrow> u8 \<Rightarrow> sw_state \<times> asg list" where
  "sw_override w edge data =
    (if \<not> sw_drive w then (w, [])
     else (let v = (if \<not> edge \<and> \<not> sw_have_byte w then w\<lparr>sw_rom_byte := data, sw_have_byte := True\<rparr> else w)
           in (v, Dr_romdis # (if sw_have_byte v then [Dr_data ((sw_rom_byte v AND 0xFE) OR sw_drive_bit v)] else []))))"

definition sw_step :: "sw_state \<Rightarrow> Bus \<Rightarrow> sw_state \<times> asg list" where
  "sw_step w i =
    (if \<not> sw_plugged w then (w, [])
     else (let w1 = sw_snoop w i; access = sw_access w1 i; edge = (access \<and> \<not> sw_acc_prev w1);
               w2 = w1\<lparr>sw_acc_prev := access\<rparr>
           in if \<not> access then (w2\<lparr>sw_drive := False, sw_have_byte := False\<rparr>, [])
              else (let w3 = (if edge
                              then (case fsm_step w2 (cpu_addr (b_cpu i) AND 0x01 \<noteq> 0) (cpu_addr (b_cpu i) AND 0x04 \<noteq> 0)
                                    of (v, d) \<Rightarrow> v\<lparr>sw_drive := d\<rparr>)
                              else w2)
                    in sw_override w3 edge (cpu_data (b_cpu i)))))"

definition sw_tick :: "sw_state \<Rightarrow> Bus \<Rightarrow> Bus \<Rightarrow> sw_state \<times> Bus" where
  "sw_tick w i out = (fst (sw_step w i), drive (snd (sw_step w i)) out)"

definition sw_dev_reset :: "sw_state \<Rightarrow> sw_state" where
  "sw_dev_reset w = w\<lparr>sw_phase := SW_IDLE, sw_bit_index := 0, sw_shift := 0, sw_drive := False,
     sw_drive_bit := 0, sw_have_byte := False, sw_acc_prev := False, sw_io_prev := False\<rparr>"

definition sw_save :: "sw_state \<Rightarrow> u8 \<times> sw_state" where
  "sw_save w = (1, w)"

definition sw_load :: "sw_state \<Rightarrow> u8 \<times> sw_state \<Rightarrow> sw_state" where
  "sw_load w b = (if fst b = 1 then snd b else w)"

definition smartwatch_peek :: "sw_state \<Rightarrow> bool \<times> sw_phase \<times> nat" where
  "smartwatch_peek w = (sw_plugged w, sw_phase w, sw_bit_index w)"

definition smartwatch_set_time :: "sw_state \<Rightarrow> u8 list \<Rightarrow> sw_state" where
  "smartwatch_set_time w bcd = w\<lparr>sw_time_bcd := (\<lambda>k. if k < 8 then bcd ! k else sw_time_bcd w k)\<rparr>"

definition smartwatch_set_plugged :: "sw_state \<Rightarrow> bool \<Rightarrow> sw_state" where
  "smartwatch_set_plugged w on = w\<lparr>sw_plugged := on\<rparr>"

subsection \<open>Interfaces provided\<close>

interpretation sw_drv: bus_driver sw_tick "\<lambda>w i. fst (sw_step w i)" "\<lambda>w i. snd (sw_step w i)"
  by unfold_locales (simp add: sw_tick_def)

interpretation sw_blob: state_blob sw_save sw_load "\<lambda>w. w" "\<lambda>_. ()"
  by unfold_locales (simp_all add: sw_save_def sw_load_def)

subsection \<open>The recognition pattern\<close>

text \<open>Write-mode accesses from the idle state collect their bits from the least significant end.\<close>

definition fsm_writes :: "bool list \<Rightarrow> sw_state \<Rightarrow> sw_state" where
  "fsm_writes = fold (\<lambda>a0 w. fst (fsm_step w a0 False))"

definition bits_upto :: "bool list \<Rightarrow> u64 \<Rightarrow> bool" where
  "bits_upto bs x \<longleftrightarrow> (\<forall>k < 64. bit x k = (k < length bs \<and> bs ! k))"

lemma bits_upto_snoc:
  assumes "bits_upto bs x" "length bs < 64"
  shows "bits_upto (bs @ [b]) (x OR push_bit (length bs) (if b then 1 else 0))"
proof -
  have "bit (push_bit (length bs) (if b then 1 else 0 :: u64)) k \<longleftrightarrow> b \<and> k = length bs" if "k < 64" for k
    using that assms(2) by (auto simp: bit_exp_iff)
  then show ?thesis
    using assms by (auto simp: bits_upto_def bit_or_iff nth_append less_Suc_eq)
qed

lemma fsm_writes_partial:
  assumes "sw_phase w = SW_IDLE"
  shows "0 < length bs \<Longrightarrow> length bs < 64 \<Longrightarrow>
    \<exists>x. bits_upto bs x \<and>
      fsm_writes bs w = w\<lparr>sw_phase := SW_MATCHING, sw_shift := x, sw_bit_index := length bs\<rparr>"
proof (induction bs rule: rev_induct)
  case Nil
  then show ?case by simp
next
  case (snoc b bs)
  show ?case
  proof (cases "bs = []")
    case True
    have "bit (if b then 1 else 0 :: u64) k \<longleftrightarrow> b \<and> k = 0" for k
      by (auto simp: bit_1_iff)
    then have "bit (if b then 1 else 0 :: u64) k \<longleftrightarrow> k < length [b] \<and> [b] ! k" for k
      by (cases k) simp_all
    then have "bits_upto [b] (if b then 1 else 0)"
      unfolding bits_upto_def by blast
    then show ?thesis
      using True assms by (intro exI [of _ "if b then 1 else 0"])
        (simp add: fsm_writes_def fsm_step_def fsm_fresh_def)
  next
    case False
    then obtain x where x: "bits_upto bs x"
      "fsm_writes bs w = w\<lparr>sw_phase := SW_MATCHING, sw_shift := x, sw_bit_index := length bs\<rparr>"
      using snoc by auto
    have "fsm_writes (bs @ [b]) w = fst (fsm_step (fsm_writes bs w) b False)"
      by (simp add: fsm_writes_def)
    then show ?thesis
      using bits_upto_snoc [OF x(1)] snoc.prems x(2)
      by (intro exI [of _ "x OR push_bit (length bs) (if b then 1 else 0)"])
        (simp add: fsm_step_def fsm_match_def Let_def)
  qed
qed

definition pattern_bits :: "bool list" where
  "pattern_bits = map (bit kPattern) [0..<64]"

lemma bits_upto_pattern:
  assumes "bits_upto bs x" "length bs = 64"
  shows "x = kPattern \<longleftrightarrow> bs = pattern_bits"
proof
  assume "x = kPattern"
  then show "bs = pattern_bits"
    using assms by (intro nth_equalityI) (auto simp: pattern_bits_def bits_upto_def)
next
  assume bs: "bs = pattern_bits"
  show "x = kPattern"
  proof (rule bit_word_eqI)
    fix k assume "k < LENGTH(64)"
    then show "bit x k = bit kPattern k"
      using assms(1) bs by (simp add: bits_upto_def pattern_bits_def)
  qed
qed

lemma fsm_writes_64:
  assumes "sw_phase w = SW_IDLE" "length bs = 64"
  shows "\<exists>x. fsm_writes bs w =
    (if bs = pattern_bits then w\<lparr>sw_phase := SW_READING, sw_shift := x, sw_snap := sw_time_bcd w, sw_bit_index := 0\<rparr>
     else w\<lparr>sw_phase := SW_IDLE, sw_shift := x, sw_bit_index := 0\<rparr>)"
proof -
  obtain cs c where bs: "bs = cs @ [c]" "length cs = 63"
    using assms(2) by (cases bs rule: rev_cases) auto
  obtain x where x: "bits_upto cs x"
    "fsm_writes cs w = w\<lparr>sw_phase := SW_MATCHING, sw_shift := x, sw_bit_index := 63\<rparr>"
    using fsm_writes_partial [OF assms(1), of cs] bs(2) by auto
  have "fsm_writes bs w = fst (fsm_step (fsm_writes cs w) c False)"
    by (simp add: bs fsm_writes_def)
  moreover have "x OR push_bit 63 (if c then 1 else 0) = kPattern \<longleftrightarrow> bs = pattern_bits"
    using bits_upto_pattern [OF bits_upto_snoc [OF x(1), of c]] bs by simp
  ultimately show ?thesis
    by (intro exI [of _ "x OR push_bit 63 (if c then 1 else 0)"]) (simp add: x(2) fsm_step_def fsm_match_def Let_def)
qed

subsection \<open>One ROM read on the pins\<close>

text \<open>An upper-ROM read as the socket sees it: the address and strobes settle, the ROM chip's byte
  \<open>d\<close> is on the data lines for the remaining \<open>n + 1\<close> cycles, then the access ends. The byte the
  watch drives in the last cycle of the access, if it drives one, is the second component.\<close>

definition rom_bus :: "u16 \<Rightarrow> u8 \<Rightarrow> Bus" where
  "rom_bus a d = bus_resting\<lparr>b_cpu := (b_cpu bus_resting)\<lparr>cpu_addr := a, cpu_data := d, cpu_mreq := True, cpu_rd := True\<rparr>\<rparr>"

definition rom_read :: "sw_state \<Rightarrow> u16 \<Rightarrow> u8 \<Rightarrow> u8 \<Rightarrow> nat \<Rightarrow> sw_state \<times> asg list" where
  "rom_read w a junk d n =
    (let w1 = fst (sw_step w (rom_bus a junk));
         w2 = ((\<lambda>w. fst (sw_step w (rom_bus a d))) ^^ n) w1;
         (w3, ds) = sw_step w2 (rom_bus a d)
     in (fst (sw_step w3 bus_resting), ds))"

definition sw_ready :: "sw_state \<Rightarrow> bool" where
  "sw_ready w \<longleftrightarrow> sw_plugged w \<and> \<not> sw_upper_rom_off w \<and> \<not> sw_acc_prev w \<and> \<not> sw_have_byte w"

lemma rom_bus_simps [simp]:
  "cpu_addr (b_cpu (rom_bus a d)) = a" "cpu_data (b_cpu (rom_bus a d)) = d" "cpu_mreq (b_cpu (rom_bus a d))"
  "cpu_rd (b_cpu (rom_bus a d))" "\<not> cpu_iorq (b_cpu (rom_bus a d))" "\<not> cpu_rfsh (b_cpu (rom_bus a d))"
  by (simp_all add: rom_bus_def bus_resting_def)

lemma fsm_step_frame [simp]:
  "sw_plugged (fst (fsm_step w a b)) = sw_plugged w" "sw_upper_rom_off (fst (fsm_step w a b)) = sw_upper_rom_off w"
  "sw_acc_prev (fst (fsm_step w a b)) = sw_acc_prev w" "sw_have_byte (fst (fsm_step w a b)) = sw_have_byte w"
  "sw_io_prev (fst (fsm_step w a b)) = sw_io_prev w" "sw_rom_byte (fst (fsm_step w a b)) = sw_rom_byte w"
  by (auto simp: fsm_step_def fsm_fresh_def fsm_match_def fsm_read_def Let_def split: sw_phase.split)

text \<open>The protocol state, with the bookkeeping of the current access blanked out.\<close>

definition sw_core :: "sw_state \<Rightarrow> sw_state" where
  "sw_core w = w\<lparr>sw_io_prev := False, sw_acc_prev := False, sw_drive := False, sw_have_byte := False,
     sw_rom_byte := 0, sw_drive_bit := 0\<rparr>"

lemma sw_core_simps [simp]:
  "sw_phase (sw_core w) = sw_phase w" "sw_bit_index (sw_core w) = sw_bit_index w"
  "sw_time_bcd (sw_core w) = sw_time_bcd w" "sw_snap (sw_core w) = sw_snap w"
  "sw_plugged (sw_core w) = sw_plugged w" "sw_upper_rom_off (sw_core w) = sw_upper_rom_off w"
  "sw_core (w\<lparr>sw_io_prev := a\<rparr>) = sw_core w" "sw_core (w\<lparr>sw_acc_prev := b\<rparr>) = sw_core w"
  "sw_core (w\<lparr>sw_drive := c\<rparr>) = sw_core w" "sw_core (w\<lparr>sw_have_byte := d\<rparr>) = sw_core w"
  "sw_core (w\<lparr>sw_rom_byte := e\<rparr>) = sw_core w" "sw_core (w\<lparr>sw_drive_bit := f\<rparr>) = sw_core w"
  by (simp_all add: sw_core_def)

lemma fsm_step_core:
  assumes "sw_core w = sw_core v"
  shows "sw_core (fst (fsm_step w a b)) = sw_core (fst (fsm_step v a b)) \<and>
    snd (fsm_step w a b) = snd (fsm_step v a b) \<and>
    (snd (fsm_step w a b) \<longrightarrow> sw_drive_bit (fst (fsm_step w a b)) =
      drop_bit (sw_bit_index w mod 8) (sw_snap w (sw_bit_index w div 8)) AND 1)"
proof -
  obtain a1 a2 a3 a4 a5 a6 where w: "w = v\<lparr>sw_io_prev := a1, sw_acc_prev := a2, sw_drive := a3,
      sw_have_byte := a4, sw_rom_byte := a5, sw_drive_bit := a6\<rparr>"
    using assms by (cases w, cases v) (simp add: sw_core_def)
  show ?thesis
    unfolding w by (cases "sw_phase v"; cases b)
      (simp_all add: fsm_step_def fsm_fresh_def fsm_match_def fsm_read_def sw_core_def Let_def)
qed

lemma sw_step_rom:
  assumes "sw_plugged w" "\<not> sw_upper_rom_off w" "a \<ge> 0xC000"
  shows "sw_step w (rom_bus a d) =
    (let w2 = w\<lparr>sw_io_prev := False, sw_acc_prev := True\<rparr> in
     if sw_acc_prev w then sw_override w2 False d
     else (case fsm_step w2 (a AND 1 \<noteq> 0) (a AND 4 \<noteq> 0) of (v, dr) \<Rightarrow> sw_override (v\<lparr>sw_drive := dr\<rparr>) True d))"
  using assms by (simp add: sw_step_def sw_snoop_def sw_access_def Let_def split: prod.split)

text \<open>After the first cycle of an access the FSM is left alone and the override is stable.\<close>

lemma sw_hold:
  assumes "sw_plugged w" "\<not> sw_upper_rom_off w" "a \<ge> 0xC000" "sw_acc_prev w" "\<not> sw_io_prev w" "\<not> sw_have_byte w"
  shows "sw_step (((\<lambda>w. fst (sw_step w (rom_bus a d))) ^^ n) w) (rom_bus a d) =
    (if sw_drive w then (w\<lparr>sw_rom_byte := d, sw_have_byte := True\<rparr>,
        [Dr_romdis, Dr_data ((d AND 0xFE) OR sw_drive_bit w)])
     else (w, []))"
proof (induction n)
  case 0
  then show ?case
    using assms by (simp add: sw_step_rom sw_override_def Let_def)
next
  case (Suc n)
  then have "((\<lambda>w. fst (sw_step w (rom_bus a d))) ^^ Suc n) w =
      (if sw_drive w then w\<lparr>sw_rom_byte := d, sw_have_byte := True\<rparr> else w)"
    by simp
  then show ?case
    using assms by (simp add: sw_step_rom sw_override_def Let_def)
qed

lemma rom_read_fsm:
  assumes "sw_ready w" "a \<ge> 0xC000"
  defines "f \<equiv> fsm_step w (a AND 1 \<noteq> 0) (a AND 4 \<noteq> 0)"
  shows "sw_core (fst (rom_read w a junk d n)) = sw_core (fst f)" "sw_ready (fst (rom_read w a junk d n))"
    "snd (rom_read w a junk d n) =
      (if snd f then [Dr_romdis, Dr_data ((d AND 0xFE) OR
         (drop_bit (sw_bit_index w mod 8) (sw_snap w (sw_bit_index w div 8)) AND 1))] else [])"
proof -
  define g where "g = fsm_step (w\<lparr>sw_io_prev := False, sw_acc_prev := True\<rparr>) (a AND 1 \<noteq> 0) (a AND 4 \<noteq> 0)"
  have g: "sw_core (fst g) = sw_core (fst f)" "snd g = snd f"
    "snd g \<Longrightarrow> sw_drive_bit (fst g) = drop_bit (sw_bit_index w mod 8) (sw_snap w (sw_bit_index w div 8)) AND 1"
    using fsm_step_core [of "w\<lparr>sw_io_prev := False, sw_acc_prev := True\<rparr>" w] by (simp_all add: g_def f_def)
  let ?v = "(fst g)\<lparr>sw_drive := snd g\<rparr>"
  have v: "sw_plugged ?v" "\<not> sw_upper_rom_off ?v" "sw_acc_prev ?v" "\<not> sw_io_prev ?v" "\<not> sw_have_byte ?v"
    using assms(1) by (simp_all add: g_def sw_ready_def)
  have first: "fst (sw_step w (rom_bus a junk)) = ?v"
    using assms(1,2) v(5) by (simp add: sw_step_rom sw_ready_def sw_override_def g_def split_beta Let_def)
  have rest: "fst (sw_step u bus_resting) = u\<lparr>sw_io_prev := False, sw_acc_prev := False, sw_drive := False, sw_have_byte := False\<rparr>"
    if "sw_plugged u" for u
    using that by (simp add: sw_step_def sw_snoop_def sw_access_def bus_resting_def Let_def)
  note hold = sw_hold [OF v(1,2) assms(2) v(3-5)]
  show "sw_core (fst (rom_read w a junk d n)) = sw_core (fst f)"
    using v(1) g(1) by (simp add: rom_read_def first hold rest Let_def)
  show "sw_ready (fst (rom_read w a junk d n))"
    using v(1,2) by (simp add: rom_read_def first hold rest sw_ready_def Let_def)
  show "snd (rom_read w a junk d n) =
      (if snd f then [Dr_romdis, Dr_data ((d AND 0xFE) OR
         (drop_bit (sw_bit_index w mod 8) (sw_snap w (sw_bit_index w div 8)) AND 1))] else [])"
    unfolding rom_read_def first Let_def hold using g(2,3) by simp
qed

subsection \<open>A whole conversation\<close>

type_synonym rom_access = "u16 \<times> u8 \<times> u8 \<times> nat"

fun sw_reads :: "rom_access list \<Rightarrow> sw_state \<Rightarrow> sw_state \<times> asg list list" where
  "sw_reads [] w = (w, [])"
| "sw_reads ((a, junk, d, n) # as) w =
    (let r = rom_read w a junk d n; rs = sw_reads as (fst r) in (fst rs, snd r # snd rs))"

definition in_rom :: "bool \<Rightarrow> rom_access \<Rightarrow> bool" where
  "in_rom mode x \<longleftrightarrow> fst x \<ge> 0xC000 \<and> (fst x AND 4 \<noteq> 0) = mode"

definition data_bits :: "rom_access list \<Rightarrow> bool list" where
  "data_bits = map (\<lambda>x. fst x AND 1 \<noteq> 0)"

text \<open>What the watch puts on the bus at the \<open>k\<close>-th access of a burst: the ROM's byte with bit 0
  replaced by bit \<open>k\<close> of the time.\<close>

definition time_answer :: "(nat \<Rightarrow> u8) \<Rightarrow> nat \<Rightarrow> rom_access \<Rightarrow> asg list" where
  "time_answer time k x =
    [Dr_romdis, Dr_data ((fst (snd (snd x)) AND 0xFE) OR (drop_bit (k mod 8) (time (k div 8)) AND 1))]"

lemma sw_reads_writes:
  assumes "sw_ready w" "sw_core w = sw_core v" "list_all (in_rom False) xs"
  shows "sw_core (fst (sw_reads xs w)) = sw_core (fsm_writes (data_bits xs) v) \<and> sw_ready (fst (sw_reads xs w)) \<and>
    snd (sw_reads xs w) = map (\<lambda>_. []) xs"
  using assms
proof (induction xs arbitrary: w v)
  case Nil
  then show ?case by (simp add: fsm_writes_def data_bits_def)
next
  case (Cons x xs)
  obtain a junk d n where x: "x = (a, junk, d, n)" by (cases x) auto
  with Cons.prems(3) have a: "a \<ge> 0xC000" "a AND 4 = 0" by (simp_all add: in_rom_def)
  note r = rom_read_fsm [OF Cons.prems(1) a(1), of junk d n]
  have "\<not> snd (fsm_step w b False)" for b
    by (simp add: fsm_step_def split: sw_phase.split)
  moreover have "sw_core (fst (rom_read w a junk d n)) = sw_core (fst (fsm_step v (a AND 1 \<noteq> 0) False))"
    using r(1) a(2) fsm_step_core [OF Cons.prems(2)] by simp
  ultimately show ?case
    using Cons.IH [OF r(2)] Cons.prems(3) r(3) a(2) by (simp add: x fsm_writes_def data_bits_def Let_def)
qed

lemma sw_reads_idle:
  assumes "sw_ready w" "sw_phase w = SW_IDLE" "list_all (in_rom True) xs"
  shows "sw_core (fst (sw_reads xs w)) = sw_core w \<and> sw_ready (fst (sw_reads xs w)) \<and>
    snd (sw_reads xs w) = map (\<lambda>_. []) xs"
  using assms
proof (induction xs arbitrary: w)
  case Nil
  then show ?case by simp
next
  case (Cons x xs)
  obtain a junk d n where x: "x = (a, junk, d, n)" by (cases x) auto
  with Cons.prems(3) have a: "a \<ge> 0xC000" "a AND 4 \<noteq> 0" by (simp_all add: in_rom_def)
  note r = rom_read_fsm [OF Cons.prems(1) a(1), of junk d n]
  have f: "fsm_step w b True = (w, False)" for b
    using Cons.prems(2) by (simp add: fsm_step_def)
  have core: "sw_core (fst (rom_read w a junk d n)) = sw_core w"
    using r(1) a(2) by (simp add: f)
  then have "sw_phase (fst (rom_read w a junk d n)) = SW_IDLE"
    using Cons.prems(2) by (metis sw_core_simps(1))
  with Cons.IH [OF r(2)] core Cons.prems(3) r(3) a(2) show ?case
    by (simp add: x f Let_def)
qed

lemma sw_reads_burst:
  assumes "sw_ready w" "sw_phase w = SW_READING" "list_all (in_rom True) xs" "sw_bit_index w + length xs = 64" "xs \<noteq> []"
  shows "sw_phase (fst (sw_reads xs w)) = SW_IDLE \<and> sw_ready (fst (sw_reads xs w)) \<and>
    snd (sw_reads xs w) = map2 (time_answer (sw_snap w)) [sw_bit_index w..<64] xs"
  using assms
proof (induction xs arbitrary: w)
  case Nil
  then show ?case by simp
next
  case (Cons x xs)
  obtain a junk d n where x: "x = (a, junk, d, n)" by (cases x) auto
  with Cons.prems(3) have a: "a \<ge> 0xC000" "a AND 4 \<noteq> 0" by (simp_all add: in_rom_def)
  note r = rom_read_fsm [OF Cons.prems(1) a(1), of junk d n]
  let ?k = "sw_bit_index w" and ?v = "fst (rom_read w a junk d n)"
  have f: "fsm_step w b True = (fsm_read w, True)" for b
    using Cons.prems(2) by (simp add: fsm_step_def)
  have core: "sw_core ?v = sw_core (fsm_read w)" and out: "snd (rom_read w a junk d n) = time_answer (sw_snap w) ?k x"
    using r(1,3) a(2) by (simp_all add: f x time_answer_def)
  have k: "?k < 64" "[?k..<64] = ?k # [Suc ?k..<64]"
    using Cons.prems(4) by (simp_all add: upt_conv_Cons)
  have snap: "sw_snap ?v = sw_snap w"
    using arg_cong [OF core, of sw_snap] by (simp add: fsm_read_def Let_def)
  show ?case
  proof (cases "xs = []")
    case True
    then have "sw_phase ?v = SW_IDLE"
      using arg_cong [OF core, of sw_phase] Cons.prems(4) by (simp add: fsm_read_def Let_def)
    with True r(2) out k show ?thesis by (simp add: x Let_def)
  next
    case False
    then have "Suc ?k < 64" using Cons.prems(4) by (cases xs) simp_all
    then have "sw_phase ?v = SW_READING" "sw_bit_index ?v = Suc ?k"
      using arg_cong [OF core, of sw_phase] arg_cong [OF core, of sw_bit_index] Cons.prems(2)
      by (simp_all add: fsm_read_def Let_def)
    with Cons.IH [OF r(2)] Cons.prems False snap out k show ?thesis by (simp add: x Let_def)
  qed
qed

subsection \<open>Properties\<close>

text \<open>C30 (smartwatch_conversation): From rest, 64 write-mode ROM reads drive nothing; 64 read-mode reads
  after them answer with the 64 bits of the eight time bytes, least significant bit first, in D0 of
  the ROM's own byte, exactly when the written bits were the recognition pattern, and otherwise leave
  the ROM alone. Each access may take any number of master cycles, and the watch is at rest afterwards.\<close>

theorem smartwatch_conversation:
  assumes "sw_ready w" "sw_phase w = SW_IDLE" "length ws = 64" "length rs = 64"
    and "list_all (in_rom False) ws" "list_all (in_rom True) rs"
  shows "snd (sw_reads ws w) = replicate 64 [] \<and>
    snd (sw_reads rs (fst (sw_reads ws w))) =
      (if data_bits ws = pattern_bits then map2 (time_answer (sw_time_bcd w)) [0..<64] rs else replicate 64 []) \<and>
    sw_phase (fst (sw_reads rs (fst (sw_reads ws w)))) = SW_IDLE \<and>
    sw_ready (fst (sw_reads rs (fst (sw_reads ws w))))"
proof -
  let ?v = "fst (sw_reads ws w)"
  have w: "sw_core ?v = sw_core (fsm_writes (data_bits ws) w)" "sw_ready ?v" "snd (sw_reads ws w) = replicate 64 []"
    using sw_reads_writes [OF assms(1) refl assms(5)] assms(3) by (simp_all add: map_replicate_const)
  obtain x where x: "fsm_writes (data_bits ws) w =
     (if data_bits ws = pattern_bits
      then w\<lparr>sw_phase := SW_READING, sw_shift := x, sw_snap := sw_time_bcd w, sw_bit_index := 0\<rparr>
      else w\<lparr>sw_phase := SW_IDLE, sw_shift := x, sw_bit_index := 0\<rparr>)"
    using fsm_writes_64 [OF assms(2), of "data_bits ws"] assms(3) by (auto simp: data_bits_def)
  note fields = arg_cong [OF w(1), of sw_phase] arg_cong [OF w(1), of sw_snap] arg_cong [OF w(1), of sw_bit_index]
  show ?thesis
  proof (cases "data_bits ws = pattern_bits")
    case True
    with fields x have "sw_phase ?v = SW_READING" "sw_snap ?v = sw_time_bcd w" "sw_bit_index ?v = 0" by simp_all
    moreover have "rs \<noteq> []" using assms(4) by auto
    ultimately show ?thesis
      using sw_reads_burst [OF w(2) _ assms(6)] assms(4) True w(3) by simp
  next
    case False
    with fields x have idle: "sw_phase ?v = SW_IDLE" by simp
    note run = sw_reads_idle [OF w(2) idle assms(6)]
    then have "sw_phase (fst (sw_reads rs ?v)) = SW_IDLE"
      using idle by (metis sw_core_simps(1))
    moreover have "sw_ready (fst (sw_reads rs ?v))" "snd (sw_reads rs ?v) = replicate 64 []"
      using run assms(4) by (simp_all add: map_replicate_const)
    ultimately show ?thesis using False w(3) by simp
  qed
qed

definition pattern_writes :: "rom_access list" where
  "pattern_writes = map (\<lambda>b. (if b then 0xC001 else 0xC000, 0xFF, 0x3E, 2)) pattern_bits"

theorem smartwatch_conversation_witness:
  "snd (sw_reads (replicate 64 (0xC004, 0xFF, 0x3E, 2))
      (fst (sw_reads pattern_writes (smartwatch_set_time (smartwatch_set_plugged smartwatch_init True) [0x12, 0x34, 0, 0, 0, 0, 0, 0])))) ! 1 =
    [Dr_romdis, Dr_data 0x3F]"
proof -
  let ?w = "smartwatch_set_time (smartwatch_set_plugged smartwatch_init True) [0x12, 0x34, 0, 0, 0, 0, 0, 0]"
  have "sw_ready ?w" "sw_phase ?w = SW_IDLE" "sw_time_bcd ?w 0 = 0x12"
    by (simp_all add: sw_ready_def smartwatch_set_time_def smartwatch_set_plugged_def smartwatch_init_def)
  moreover have "length pattern_writes = 64" "list_all (in_rom False) pattern_writes" "data_bits pattern_writes = pattern_bits"
    by (auto simp: pattern_writes_def pattern_bits_def data_bits_def in_rom_def list_all_iff)
  moreover have "list_all (in_rom True) (replicate 64 (0xC004, 0xFF, 0x3E, 2))"
    by (simp add: in_rom_def list_all_iff)
  ultimately show ?thesis
    using smartwatch_conversation [of ?w pattern_writes "replicate 64 (0xC004, 0xFF, 0x3E, 2)"]
    by (simp add: time_answer_def)
qed
end
