(* ===== verification/Mf2.thy ===== *)
theory Mf2
  imports Contracts
begin

text \<open>
  The Multiface II freeze cartridge, \<open>src/src/hw/mf2.cpp\<close>: the STOP button with its /NMI pulse, the paging
  ports and the invisible mode, the 8K ROM and 8K RAM overlay of the bottom 16K, and the snooper that
  shadows the machine's hardware writes in fixed RAM cells. Fields are named \<open>mf_x\<close> for the C member
  \<open>x\<close>; the caller-owned ROM image is a list (\<open>None\<close> for the null pointer), of which \<open>rom_len\<close>
  bytes are readable.
\<close>

definition kCellPen :: nat where "kCellPen = 0x3FCF - 0x2000"
definition kCellInk :: nat where "kCellInk = 0x3FEF - 0x2000"
definition kCellGaCfg :: nat where "kCellGaCfg = 0x3FFF - 0x2000"
definition kCellRamCfg :: nat where "kCellRamCfg = 0x37FF - 0x2000"
definition kCellCrtcSel :: nat where "kCellCrtcSel = 0x3CFF - 0x2000"
definition kCellCrtcReg :: u16 where "kCellCrtcReg = 0x3DB0 - 0x2000"
definition kCellRomSel :: nat where "kCellRomSel = 0x3AAC - 0x2000"
definition kNmiHold :: u8 where "kNmiHold = 16"

record mf2_state =
  mf_ram :: "nat \<Rightarrow> u8"
  mf_plugged :: bool
  mf_active :: bool
  mf_invisible :: bool
  mf_frozen :: bool
  mf_nmi_hold :: u8
  mf_io_prev :: bool
  mf_rom :: "u8 list option"
  mf_rom_len :: nat

definition mf2_init :: mf2_state where
  "mf2_init = \<lparr> mf_ram = (\<lambda>_. 0), mf_plugged = False, mf_active = False, mf_invisible = False,
     mf_frozen = False, mf_nmi_hold = 0, mf_io_prev = False, mf_rom = None, mf_rom_len = 0 \<rparr>"

definition ram_put :: "mf2_state \<Rightarrow> nat \<Rightarrow> u8 \<Rightarrow> mf2_state" where
  "ram_put f k v = f\<lparr>mf_ram := (mf_ram f)(k := v)\<rparr>"

definition snoop_ga :: "mf2_state \<Rightarrow> u16 \<Rightarrow> u8 \<Rightarrow> mf2_state" where
  "snoop_ga f addr data =
    (if addr AND 0xC000 = 0x4000 then
       (let fn = drop_bit 6 data in
        if fn = 0 then ram_put f kCellPen data
        else if fn = 1 then ram_put f kCellInk data
        else if fn = 2 then ram_put f kCellGaCfg data
        else f)
     else f)"

definition snoop_crtc :: "mf2_state \<Rightarrow> u16 \<Rightarrow> u8 \<Rightarrow> mf2_state" where
  "snoop_crtc f addr data =
    (if addr AND 0x4000 = 0 then
       (let fn = drop_bit 8 addr AND 3 in
        if fn = 0 then ram_put f kCellCrtcSel data
        else if fn = 1 then ram_put f (unat (kCellCrtcReg OR (ucast (mf_ram f kCellCrtcSel) AND 0x0F))) data
        else f)
     else f)"

definition snoop_io :: "mf2_state \<Rightarrow> u16 \<Rightarrow> u8 \<Rightarrow> mf2_state" where
  "snoop_io f addr data =
    (let f1 = snoop_ga f addr data;
         f2 = (if addr AND 0x8000 = 0 \<and> data AND 0xC0 = 0xC0 then ram_put f1 kCellRamCfg data else f1);
         f3 = snoop_crtc f2 addr data
     in if addr AND 0x2000 = 0 then ram_put f3 kCellRomSel data else f3)"

definition mf2_page :: "mf2_state \<Rightarrow> u16 \<Rightarrow> mf2_state" where
  "mf2_page f addr =
    (if addr = 0xFEE8 then (if \<not> mf_invisible f then f\<lparr>mf_active := True\<rparr> else f)
     else if addr = 0xFEEA then
       (let g = f\<lparr>mf_active := False\<rparr>
        in if mf_frozen g then g\<lparr>mf_frozen := False, mf_invisible := True\<rparr> else g)
     else f)"

definition mf2_io :: "mf2_state \<Rightarrow> Bus \<Rightarrow> mf2_state" where
  "mf2_io f i =
    (let io_wr = (cpu_iorq (b_cpu i) \<and> \<not> cpu_m1 (b_cpu i) \<and> cpu_wr (b_cpu i));
         edge = (io_wr \<and> \<not> mf_io_prev f); g = f\<lparr>mf_io_prev := io_wr\<rparr>
     in if edge then snoop_io (mf2_page g (cpu_addr (b_cpu i))) (cpu_addr (b_cpu i)) (cpu_data (b_cpu i)) else g)"

definition mf2_rom_read :: "mf2_state \<Rightarrow> u16 \<Rightarrow> u8" where
  "mf2_rom_read f addr =
    (case mf_rom f of None \<Rightarrow> 0xFF | Some r \<Rightarrow> if unat addr < mf_rom_len f then r ! unat addr else 0xFF)"

definition mf2_read_overlay :: "mf2_state \<Rightarrow> Bus \<Rightarrow> asg list" where
  "mf2_read_overlay f i =
    (let addr = cpu_addr (b_cpu i) in
     if cpu_mreq (b_cpu i) \<and> cpu_rd (b_cpu i) \<and> \<not> cpu_rfsh (b_cpu i) \<and> addr < 0x4000 then
       (if addr < 0x2000 then [Dr_romdis, Dr_data (mf2_rom_read f addr)]
        else [Dr_romdis, Dr_ramdis, Dr_data (mf_ram f (unat addr - 0x2000))])
     else [])"

definition mf2_write_overlay :: "mf2_state \<Rightarrow> Bus \<Rightarrow> mf2_state \<times> asg list" where
  "mf2_write_overlay f i =
    (let addr = cpu_addr (b_cpu i) in
     if cpu_mreq (b_cpu i) \<and> cpu_wr (b_cpu i) \<and> addr \<ge> 0x2000 \<and> addr < 0x4000
     then (ram_put f (unat addr - 0x2000) (cpu_data (b_cpu i)), [Dr_ramdis]) else (f, []))"

definition mf2_step :: "mf2_state \<Rightarrow> Bus \<Rightarrow> mf2_state \<times> asg list" where
  "mf2_step f i =
    (if \<not> mf_plugged f then (f, [])
     else (let f1 = (if cpu_reset (b_cpu i) then f\<lparr>mf_invisible := False, mf_active := False, mf_frozen := False\<rparr> else f);
               nmi = (if mf_nmi_hold f1 > 0 then [Dr_nmi] else []);
               f2 = (if mf_nmi_hold f1 > 0 then f1\<lparr>mf_nmi_hold := mf_nmi_hold f1 - 1\<rparr> else f1);
               f3 = mf2_io f2 i
           in if \<not> mf_active f3 then (f3, nmi)
              else (case mf2_write_overlay f3 i of (f4, ds) \<Rightarrow> (f4, nmi @ mf2_read_overlay f3 i @ ds))))"

definition mf2_tick :: "mf2_state \<Rightarrow> Bus \<Rightarrow> Bus \<Rightarrow> mf2_state \<times> Bus" where
  "mf2_tick f i out = (fst (mf2_step f i), drive (snd (mf2_step f i)) out)"

definition mf2_dev_reset :: "mf2_state \<Rightarrow> mf2_state" where
  "mf2_dev_reset f = f\<lparr>mf_active := False, mf_invisible := False, mf_frozen := False, mf_nmi_hold := 0, mf_io_prev := False\<rparr>"

definition mf2_save :: "mf2_state \<Rightarrow> u8 \<times> mf2_state" where
  "mf2_save f = (1, f\<lparr>mf_rom := None, mf_rom_len := 0\<rparr>)"

definition mf2_load :: "mf2_state \<Rightarrow> u8 \<times> mf2_state \<Rightarrow> mf2_state" where
  "mf2_load f b = (if fst b = 1 then (snd b)\<lparr>mf_rom := mf_rom f, mf_rom_len := mf_rom_len f\<rparr> else f)"

definition mf2_peek :: "mf2_state \<Rightarrow> bool \<times> bool \<times> bool" where
  "mf2_peek f = (mf_plugged f, mf_active f, mf_invisible f)"

definition mf2_attach_rom :: "mf2_state \<Rightarrow> u8 list option \<Rightarrow> nat \<Rightarrow> mf2_state" where
  "mf2_attach_rom f rom8k len = f\<lparr>mf_rom := rom8k, mf_rom_len := (if len < 0x2000 then len else 0x2000)\<rparr>"

definition mf2_set_plugged :: "mf2_state \<Rightarrow> bool \<Rightarrow> mf2_state" where
  "mf2_set_plugged f on = f\<lparr>mf_plugged := on\<rparr>"

definition mf2_stop :: "mf2_state \<Rightarrow> mf2_state" where
  "mf2_stop f =
    (if \<not> mf_plugged f \<or> mf_active f then f
     else f\<lparr>mf_active := True, mf_frozen := True, mf_nmi_hold := kNmiHold\<rparr>)"

definition mf2_ram_peek :: "mf2_state \<Rightarrow> u16 \<Rightarrow> u8" where
  "mf2_ram_peek f offset = mf_ram f (unat (offset AND 0x1FFF))"

subsection \<open>Interfaces provided\<close>

interpretation mf2_drv: bus_driver mf2_tick "\<lambda>f i. fst (mf2_step f i)" "\<lambda>f i. snd (mf2_step f i)"
  by unfold_locales (simp add: mf2_tick_def)

interpretation mf2_blob: state_blob mf2_save mf2_load
  "\<lambda>f. f\<lparr>mf_rom := None, mf_rom_len := 0\<rparr>" "\<lambda>f. (mf_rom f, mf_rom_len f)"
  by unfold_locales (simp_all add: mf2_save_def mf2_load_def)

subsection \<open>What the snooper touches\<close>

lemma ram_put_frame [simp]:
  "mf_plugged (ram_put f k v) = mf_plugged f" "mf_active (ram_put f k v) = mf_active f"
  "mf_invisible (ram_put f k v) = mf_invisible f" "mf_frozen (ram_put f k v) = mf_frozen f"
  "mf_nmi_hold (ram_put f k v) = mf_nmi_hold f" "mf_io_prev (ram_put f k v) = mf_io_prev f"
  "mf_ram (ram_put f k v) = (mf_ram f)(k := v)"
  by (simp_all add: ram_put_def)

lemma snoop_io_frame [simp]:
  "mf_plugged (snoop_io f a d) = mf_plugged f" "mf_active (snoop_io f a d) = mf_active f"
  "mf_invisible (snoop_io f a d) = mf_invisible f" "mf_frozen (snoop_io f a d) = mf_frozen f"
  "mf_nmi_hold (snoop_io f a d) = mf_nmi_hold f" "mf_io_prev (snoop_io f a d) = mf_io_prev f"
  by (simp_all add: snoop_io_def snoop_ga_def snoop_crtc_def Let_def)

lemma mf2_page_frame [simp]:
  "mf_plugged (mf2_page f a) = mf_plugged f" "mf_nmi_hold (mf2_page f a) = mf_nmi_hold f"
  "mf_io_prev (mf2_page f a) = mf_io_prev f" "mf_ram (mf2_page f a) = mf_ram f"
  by (simp_all add: mf2_page_def Let_def)

lemma mf2_io_frame [simp]:
  "mf_plugged (mf2_io f i) = mf_plugged f" "mf_nmi_hold (mf2_io f i) = mf_nmi_hold f"
  by (simp_all add: mf2_io_def Let_def)

lemma mf2_write_overlay_frame [simp]:
  "mf_plugged (fst (mf2_write_overlay f i)) = mf_plugged f" "mf_nmi_hold (fst (mf2_write_overlay f i)) = mf_nmi_hold f"
  "mf_active (fst (mf2_write_overlay f i)) = mf_active f" "mf_invisible (fst (mf2_write_overlay f i)) = mf_invisible f"
  "mf_frozen (fst (mf2_write_overlay f i)) = mf_frozen f"
  by (simp_all add: mf2_write_overlay_def Let_def)

subsection \<open>The invariant: every RAM index is inside the 8K\<close>

text \<open>No access of the cartridge leaves its RAM: the cells the snooper and the overlay touch lie below
  \<open>0x2000\<close>, so all other indices keep their value.\<close>

lemma crtc_cell_in_range: "unat (kCellCrtcReg OR (x AND 0x0F)) < 0x2000"
proof -
  have "fits 13 (kCellCrtcReg OR (x AND 0x0F))"
    by (intro fits_or fits_and disjI2) (simp_all add: kCellCrtcReg_def fits_iff_unat)
  then show ?thesis using fits_unat by force
qed

lemmas mf2_cells = kCellPen_def kCellInk_def kCellGaCfg_def kCellRamCfg_def kCellCrtcSel_def kCellRomSel_def

lemma snoop_io_in_range: "k \<ge> 0x2000 \<Longrightarrow> mf_ram (snoop_io f a d) k = mf_ram f k"
  using crtc_cell_in_range [of "ucast (mf_ram f kCellCrtcSel)"]
    crtc_cell_in_range [of "ucast (mf_ram (ram_put f kCellRamCfg d) kCellCrtcSel)"]
  by (auto simp: snoop_io_def snoop_ga_def snoop_crtc_def mf2_cells Let_def)

lemma mf2_step_in_range:
  assumes "k \<ge> 0x2000"
  shows "mf_ram (fst (mf2_step f i)) k = mf_ram f k"
proof -
  have "unat (cpu_addr (b_cpu i)) - 0x2000 < 0x2000" if "cpu_addr (b_cpu i) < 0x4000"
    using that by (simp add: word_less_nat_alt)
  then show ?thesis
    using assms by (auto simp: mf2_step_def mf2_io_def mf2_write_overlay_def snoop_io_in_range Let_def)
qed

subsection \<open>The shadow\<close>

lemma mf2_shadow_crtc:
  "mf_ram (snoop_io (snoop_io f 0xBC00 r) 0xBD00 v) (unat (kCellCrtcReg OR (ucast r AND 0x0F))) = v"
  by (simp add: snoop_io_def snoop_ga_def snoop_crtc_def mf2_cells)

lemma mf2_shadow_ga:
  assumes "drop_bit 6 d = (0 :: u8)"
  shows "mf_ram (snoop_io f 0x7F00 d) kCellPen = d"
  using assms by (simp add: snoop_io_def snoop_ga_def snoop_crtc_def mf2_cells Let_def)

subsection \<open>The overlay\<close>

definition mem_bus :: "bool \<Rightarrow> u16 \<Rightarrow> u8 \<Rightarrow> Bus" where
  "mem_bus w a d = bus_resting\<lparr>b_cpu := (b_cpu bus_resting)\<lparr>cpu_addr := a, cpu_data := d,
     cpu_mreq := True, cpu_rd := \<not> w, cpu_wr := w\<rparr>\<rparr>"

lemma mem_bus_simps [simp]:
  "cpu_addr (b_cpu (mem_bus w a d)) = a" "cpu_data (b_cpu (mem_bus w a d)) = d" "cpu_mreq (b_cpu (mem_bus w a d))"
  "cpu_rd (b_cpu (mem_bus w a d)) \<longleftrightarrow> \<not> w" "cpu_wr (b_cpu (mem_bus w a d)) \<longleftrightarrow> w" "\<not> cpu_iorq (b_cpu (mem_bus w a d))"
  "\<not> cpu_rfsh (b_cpu (mem_bus w a d))" "\<not> cpu_reset (b_cpu (mem_bus w a d))"
  by (simp_all add: mem_bus_def bus_resting_def)

text \<open>A paged-in write lands in the cartridge RAM with the internal RAM vetoed, and reads back.\<close>

lemma mf2_overlay_roundtrip:
  assumes "mf_plugged f" "mf_active f" "mf_nmi_hold f = 0" "0x2000 \<le> a" "a < 0x4000"
  shows "Dr_ramdis \<in> set (snd (mf2_step f (mem_bus True a v)))"
    "snd (mf2_step (fst (mf2_step f (mem_bus True a v))) (mem_bus False a junk)) = [Dr_romdis, Dr_ramdis, Dr_data v]"
  using assms by (simp_all add: mf2_step_def mf2_io_def mf2_write_overlay_def mf2_read_overlay_def Let_def)

subsection \<open>Properties\<close>

text \<open>The STOP button's pulse: /NMI is driven in exactly the next sixteen cycles, whatever the bus does.\<close>

lemma mf2_nmi_step:
  assumes "mf_plugged f"
  shows "mf_plugged (fst (mf2_step f i)) \<and>
    mf_nmi_hold (fst (mf2_step f i)) = (if mf_nmi_hold f > 0 then mf_nmi_hold f - 1 else 0) \<and>
    (Dr_nmi \<in> set (snd (mf2_step f i)) \<longleftrightarrow> mf_nmi_hold f > 0)"
  using assms by (auto simp: mf2_step_def mf2_read_overlay_def mf2_write_overlay_def word_gt_0 Let_def split: prod.split)

lemma mf2_nmi_run:
  assumes "mf_plugged f"
  shows "mf_plugged (fold (\<lambda>i f. fst (mf2_step f i)) is f) \<and>
    unat (mf_nmi_hold (fold (\<lambda>i f. fst (mf2_step f i)) is f)) = unat (mf_nmi_hold f) - length is"
  using assms
proof (induction "is" arbitrary: f)
  case Nil
  then show ?case by simp
next
  case (Cons i "is")
  then show ?case
    using mf2_nmi_step [of f i] by (auto simp: unat_minus_one word_gt_0)
qed

text \<open>A hidden cartridge: no page-in and nothing driven, as long as the reset line stays low.\<close>

definition mf2_hidden :: "mf2_state \<Rightarrow> bool" where
  "mf2_hidden f \<longleftrightarrow> mf_plugged f \<and> mf_invisible f \<and> \<not> mf_active f \<and> mf_nmi_hold f = 0"

lemma mf2_hidden_step:
  assumes "mf2_hidden f" "\<not> cpu_reset (b_cpu i)"
  shows "mf2_hidden (fst (mf2_step f i)) \<and> snd (mf2_step f i) = []"
proof -
  have "\<not> mf_active (mf2_io f i) \<and> mf_invisible (mf2_io f i)"
    using assms by (simp add: mf2_io_def mf2_page_def mf2_hidden_def Let_def)
  then show ?thesis
    using assms by (simp add: mf2_step_def mf2_hidden_def Let_def)
qed

lemma mf2_hidden_run:
  assumes "mf2_hidden f" "list_all (\<lambda>i. \<not> cpu_reset (b_cpu i)) is"
  shows "mf2_hidden (fold (\<lambda>i f. fst (mf2_step f i)) is f)"
  using assms by (induction "is" arbitrary: f) (simp_all add: mf2_hidden_step)

lemma io_write_no_reset: "\<not> cpu_reset (b_cpu (io_write_bus p v))"
  by (simp add: io_write_bus_def bus_resting_def)

text \<open>C36 (mf2_freeze_session): Pressing STOP pages the cartridge in and pulses /NMI for exactly the next
  sixteen cycles. Once the pulse is over, the page-out that ends the session hides the cartridge: over any
  further bus traffic without a reset it pages nothing in and drives no line.\<close>

theorem mf2_freeze_session:
  assumes "mf_plugged f" "\<not> mf_active f" "list_all (\<lambda>i. \<not> cpu_reset (b_cpu i)) js"
  shows "mf_active (mf2_stop f) \<and>
    (Dr_nmi \<in> set (snd (mf2_step (fold (\<lambda>i f. fst (mf2_step f i)) is (mf2_stop f)) i)) \<longleftrightarrow> length is < 16) \<and>
    (16 \<le> length is \<and> mf_frozen (fold (\<lambda>i f. fst (mf2_step f i)) is (mf2_stop f)) \<and>
       \<not> mf_io_prev (fold (\<lambda>i f. fst (mf2_step f i)) is (mf2_stop f)) \<longrightarrow>
     snd (mf2_step (fold (\<lambda>i f. fst (mf2_step f i)) (is @ [io_write_bus 0xFEEA v] @ js) (mf2_stop f)) j) \<noteq> [] \<longrightarrow>
     cpu_reset (b_cpu j))"
proof -
  let ?g = "fold (\<lambda>i f. fst (mf2_step f i)) is (mf2_stop f)"
  have stop: "mf_plugged (mf2_stop f)" "mf_active (mf2_stop f)" "mf_nmi_hold (mf2_stop f) = 16"
    using assms(1,2) by (simp_all add: mf2_stop_def kNmiHold_def)
  have run: "mf_plugged ?g" "unat (mf_nmi_hold ?g) = 16 - length is"
    using mf2_nmi_run [OF stop(1), of "is"] stop(3) by simp_all
  then have nmi: "mf_nmi_hold ?g > 0 \<longleftrightarrow> length is < 16"
    by (simp add: word_less_nat_alt)
  have "mf2_hidden (fst (mf2_step ?g (io_write_bus 0xFEEA v)))"
    if "16 \<le> length is" "mf_frozen ?g" "\<not> mf_io_prev ?g"
    using that run nmi io_write_no_reset [of "0xFEEA" v]
    by (simp add: mf2_step_def mf2_io_def mf2_page_def mf2_hidden_def word_gt_0 Let_def)
  then have "mf2_hidden (fold (\<lambda>i f. fst (mf2_step f i)) (is @ [io_write_bus 0xFEEA v] @ js) (mf2_stop f))"
    if "16 \<le> length is" "mf_frozen ?g" "\<not> mf_io_prev ?g"
    using that mf2_hidden_run [OF _ assms(3)] by simp
  then show ?thesis
    using stop(2) mf2_nmi_step [OF run(1), of i] nmi mf2_hidden_step by auto
qed

lemma mf2_rest:
  assumes "mf_plugged f"
  shows "mf_frozen (fold (\<lambda>i f. fst (mf2_step f i)) (replicate n bus_resting) f) = mf_frozen f \<and>
    \<not> mf_io_prev (fold (\<lambda>i f. fst (mf2_step f i)) (replicate (Suc n) bus_resting) f)"
proof -
  have step: "mf_plugged (fst (mf2_step f bus_resting)) \<and> mf_frozen (fst (mf2_step f bus_resting)) = mf_frozen f \<and>
      \<not> mf_io_prev (fst (mf2_step f bus_resting))" if "mf_plugged f" for f
    using that by (auto simp: mf2_step_def mf2_io_def mf2_write_overlay_def bus_resting_def Let_def)
  show ?thesis
    using assms by (induction n arbitrary: f) (simp_all add: step)
qed

theorem mf2_freeze_session_witness:
  "snd (mf2_step (fold (\<lambda>i f. fst (mf2_step f i)) (replicate 16 bus_resting @ [io_write_bus 0xFEEA 0] @ [bus_resting])
      (mf2_stop (mf2_set_plugged mf2_init True))) (io_write_bus 0xFEE8 0)) = []"
proof -
  let ?f = "mf2_set_plugged mf2_init True"
  have f: "mf_plugged ?f" "\<not> mf_active ?f" "mf_plugged (mf2_stop ?f)" "mf_frozen (mf2_stop ?f)"
    by (simp_all add: mf2_set_plugged_def mf2_init_def mf2_stop_def)
  have "\<not> cpu_reset (b_cpu bus_resting)" by (simp add: bus_resting_def)
  then show ?thesis
    using mf2_freeze_session [OF f(1,2), of "[bus_resting]" "replicate 16 bus_resting" _ 0 "io_write_bus 0xFEE8 0"]
      mf2_rest [OF f(3), of 15] mf2_rest [OF f(3), of 16] f(4) io_write_no_reset [of "0xFEE8" 0]
    by (simp del: replicate.simps fold_append)
qed
end
