(* ===== verification/M4.thy ===== *)
theory M4
  imports Contracts
begin

text \<open>
  The M4 expansion board's bus half, \<open>src/src/hw/m4.cpp\<close>: the command accumulator behind \<open>&FE00\<close>, the
  execute port \<open>&FCxx\<close> with its one-frame mailbox, the busy flag, and the response and config windows
  overlaid on the board's ROM. Fields are named \<open>m4_x\<close> for the C member \<open>x\<close>. The accumulator and
  the frame of the mailbox, arrays with a length, are the lists of their first \<open>acc_len\<close> and \<open>len\<close>
  bytes; the ROM image is only tested for being attached. The host's side (file system and network) is
  what calls \<open>m4_pending_command\<close>, \<open>m4_complete_response\<close> and \<open>m4_write_config\<close>.
\<close>

definition M4_RESPONSE_SIZE :: nat where "M4_RESPONSE_SIZE = 0x600"
definition M4_CONFIG_SIZE :: nat where "M4_CONFIG_SIZE = 128"
definition M4_FRAME_MAX :: nat where "M4_FRAME_MAX = 4096"
definition kRespBase :: u16 where "kRespBase = 0xE800"
definition kConfigBase :: u16 where "kConfigBase = 0xF400"

record M4Pending =
  mp_cmd :: u16
  mp_frame :: "u8 list"

record m4_state =
  m4_plugged :: bool
  m4_slot :: u8
  m4_upper_rom_off :: bool
  m4_rom_select :: u8
  m4_io_prev :: bool
  m4_acc :: "u8 list"
  m4_busy :: bool
  m4_pending :: M4Pending
  m4_pending_valid :: bool
  m4_last_cmd :: u16
  m4_response :: "nat \<Rightarrow> u8"
  m4_response_len :: nat
  m4_config :: "nat \<Rightarrow> u8"
  m4_config_len :: nat
  m4_rom :: "u8 list option"

definition m4_init :: m4_state where
  "m4_init = \<lparr> m4_plugged = False, m4_slot = 6, m4_upper_rom_off = False, m4_rom_select = 0,
     m4_io_prev = False, m4_acc = [], m4_busy = False, m4_pending = \<lparr> mp_cmd = 0, mp_frame = [] \<rparr>,
     m4_pending_valid = False, m4_last_cmd = 0, m4_response = (\<lambda>_. 0), m4_response_len = 0,
     m4_config = (\<lambda>_. 0), m4_config_len = 0, m4_rom = None \<rparr>"

definition frame_cmd :: "u8 list \<Rightarrow> u16" where
  "frame_cmd acc = ucast (acc ! 1) OR push_bit 8 (ucast (acc ! 2))"

definition latch_execute :: "m4_state \<Rightarrow> m4_state" where
  "latch_execute m =
    (if m4_pending_valid m then m\<lparr>m4_acc := []\<rparr>
     else (let n = (if length (m4_acc m) \<ge> 3
                    then m\<lparr>m4_pending := \<lparr> mp_cmd = frame_cmd (m4_acc m), mp_frame = m4_acc m \<rparr>,
                           m4_pending_valid := True, m4_busy := True, m4_last_cmd := frame_cmd (m4_acc m)\<rparr>
                    else m)
           in n\<lparr>m4_acc := []\<rparr>))"

definition rom_selected :: "m4_state \<Rightarrow> bool" where
  "rom_selected m \<longleftrightarrow> m4_rom m \<noteq> None \<and> \<not> m4_upper_rom_off m \<and> m4_rom_select m = m4_slot m"

definition m4_io_wr :: "Bus \<Rightarrow> bool" where
  "m4_io_wr i \<longleftrightarrow> cpu_iorq (b_cpu i) \<and> \<not> cpu_m1 (b_cpu i) \<and> cpu_wr (b_cpu i)"

definition m4_snoop :: "m4_state \<Rightarrow> Bus \<Rightarrow> m4_state" where
  "m4_snoop m i =
    (if m4_io_wr i then
       (let n = (if cpu_addr (b_cpu i) AND 0xC000 = 0x4000 \<and> drop_bit 6 (cpu_data (b_cpu i)) = 2
                 then m\<lparr>m4_upper_rom_off := (drop_bit 3 (cpu_data (b_cpu i)) AND 1 \<noteq> 0)\<rparr> else m)
        in if cpu_addr (b_cpu i) AND 0x2000 = 0 then n\<lparr>m4_rom_select := cpu_data (b_cpu i)\<rparr> else n)
     else m)"

definition m4_cmd_wr :: "Bus \<Rightarrow> bool" where
  "m4_cmd_wr i \<longleftrightarrow> m4_io_wr i \<and> cpu_addr (b_cpu i) AND 0xFF00 = 0xFE00 \<and> cpu_addr (b_cpu i) AND 0xFF = 0"

definition m4_exec_wr :: "Bus \<Rightarrow> bool" where
  "m4_exec_wr i \<longleftrightarrow> m4_io_wr i \<and> cpu_addr (b_cpu i) AND 0xFF00 = 0xFC00"

definition m4_command :: "m4_state \<Rightarrow> Bus \<Rightarrow> m4_state" where
  "m4_command m i =
    (let owned = (m4_cmd_wr i \<or> m4_exec_wr i); edge = (owned \<and> \<not> m4_io_prev m); n = m\<lparr>m4_io_prev := owned\<rparr>
     in if edge then
          (if m4_cmd_wr i
           then (if length (m4_acc n) < M4_FRAME_MAX then n\<lparr>m4_acc := m4_acc n @ [cpu_data (b_cpu i)]\<rparr> else n)
           else latch_execute n)
        else n)"

definition m4_overlay :: "m4_state \<Rightarrow> u16 \<Rightarrow> asg list" where
  "m4_overlay m a =
    (let ro = unat a - unat kRespBase; co = unat a - unat kConfigBase in
     if m4_busy m \<and> a \<ge> kRespBase \<and> ro < M4_RESPONSE_SIZE then [Dr_romdis, Dr_data 0xFF]
     else if a \<ge> kRespBase \<and> ro < m4_response_len m then [Dr_romdis, Dr_data (m4_response m ro)]
     else if a \<ge> kConfigBase \<and> co < m4_config_len m then [Dr_romdis, Dr_data (m4_config m co)]
     else [])"

definition m4_step :: "m4_state \<Rightarrow> Bus \<Rightarrow> m4_state \<times> asg list" where
  "m4_step m i =
    (if \<not> m4_plugged m then (m, [])
     else (let n = m4_command (m4_snoop m i) i in
           (n, if cpu_mreq (b_cpu i) \<and> cpu_rd (b_cpu i) \<and> \<not> cpu_rfsh (b_cpu i) \<and> rom_selected n
               then m4_overlay n (cpu_addr (b_cpu i)) else [])))"

definition m4_tick :: "m4_state \<Rightarrow> Bus \<Rightarrow> Bus \<Rightarrow> m4_state \<times> Bus" where
  "m4_tick m i out = (fst (m4_step m i), drive (snd (m4_step m i)) out)"

definition m4_dev_reset :: "m4_state \<Rightarrow> m4_state" where
  "m4_dev_reset m = m\<lparr>m4_acc := [], m4_busy := False, m4_pending_valid := False,
     m4_pending := \<lparr> mp_cmd = 0, mp_frame = [] \<rparr>, m4_last_cmd := 0, m4_response := (\<lambda>_. 0),
     m4_response_len := 0, m4_config := (\<lambda>_. 0), m4_config_len := 0, m4_io_prev := False\<rparr>"

definition m4_save :: "m4_state \<Rightarrow> u8 \<times> m4_state" where
  "m4_save m = (1, m\<lparr>m4_rom := None\<rparr>)"

definition m4_load :: "m4_state \<Rightarrow> u8 \<times> m4_state \<Rightarrow> m4_state" where
  "m4_load m b = (if fst b = 1 then (snd b)\<lparr>m4_rom := m4_rom m\<rparr> else m)"

definition m4_attach_rom :: "m4_state \<Rightarrow> u8 list option \<Rightarrow> m4_state" where
  "m4_attach_rom m rom16k = m\<lparr>m4_rom := rom16k\<rparr>"

definition m4_set_slot :: "m4_state \<Rightarrow> u8 \<Rightarrow> m4_state" where
  "m4_set_slot m slot = m\<lparr>m4_slot := slot\<rparr>"

definition m4_set_plugged :: "m4_state \<Rightarrow> bool \<Rightarrow> m4_state" where
  "m4_set_plugged m on = m\<lparr>m4_plugged := on\<rparr>"

definition m4_pending_command :: "m4_state \<Rightarrow> M4Pending option \<times> m4_state" where
  "m4_pending_command m =
    (if \<not> m4_pending_valid m then (None, m) else (Some (m4_pending m), m\<lparr>m4_pending_valid := False\<rparr>))"

definition m4_complete_response :: "m4_state \<Rightarrow> u8 list \<Rightarrow> m4_state" where
  "m4_complete_response m buf =
    (let n = (if length buf < M4_RESPONSE_SIZE then length buf else M4_RESPONSE_SIZE)
     in m\<lparr>m4_response := (\<lambda>k. if k < n then buf ! k else 0), m4_response_len := n, m4_busy := False\<rparr>)"

definition m4_write_config :: "m4_state \<Rightarrow> u8 list \<Rightarrow> m4_state" where
  "m4_write_config m buf =
    (let n = (if length buf < M4_CONFIG_SIZE then length buf else M4_CONFIG_SIZE)
     in m\<lparr>m4_config := (\<lambda>k. if k < n then buf ! k else m4_config m k), m4_config_len := n\<rparr>)"

subsection \<open>Interfaces provided\<close>

interpretation m4_drv: bus_driver m4_tick "\<lambda>m i. fst (m4_step m i)" "\<lambda>m i. snd (m4_step m i)"
  by unfold_locales (simp add: m4_tick_def)

interpretation m4_blob: state_blob m4_save m4_load "\<lambda>m. m\<lparr>m4_rom := None\<rparr>" m4_rom
  by unfold_locales (simp_all add: m4_save_def m4_load_def)

text \<open>The command ports act once per access: held strobes append one byte or execute one frame.\<close>

interpretation m4_ports: edge_access m4_command "\<lambda>_ i. m4_cmd_wr i \<or> m4_exec_wr i" m4_io_prev
  "\<lambda>m. m\<lparr>m4_io_prev := False\<rparr>"
proof unfold_locales
  fix s :: m4_state and i :: Bus
  have "m4_io_prev (latch_execute s) = m4_io_prev s" for s
    by (simp add: latch_execute_def Let_def)
  then show "m4_io_prev (m4_command s i) = (m4_cmd_wr i \<or> m4_exec_wr i)"
    by (simp add: m4_command_def Let_def)
qed (auto simp: m4_command_def Let_def)

subsection \<open>Sending a frame\<close>

definition m4_wf :: "m4_state \<Rightarrow> bool" where
  "m4_wf m \<longleftrightarrow> length (m4_acc m) \<le> M4_FRAME_MAX \<and> length (mp_frame (m4_pending m)) \<le> M4_FRAME_MAX \<and>
     m4_response_len m \<le> M4_RESPONSE_SIZE \<and> m4_config_len m \<le> M4_CONFIG_SIZE"

lemma m4_snoop_frame [simp]:
  "m4_acc (m4_snoop m i) = m4_acc m" "m4_io_prev (m4_snoop m i) = m4_io_prev m"
  "m4_plugged (m4_snoop m i) = m4_plugged m" "m4_pending_valid (m4_snoop m i) = m4_pending_valid m"
  "m4_pending (m4_snoop m i) = m4_pending m" "m4_busy (m4_snoop m i) = m4_busy m"
  "m4_response_len (m4_snoop m i) = m4_response_len m" "m4_config_len (m4_snoop m i) = m4_config_len m"
  "m4_response (m4_snoop m i) = m4_response m"
  by (simp_all add: m4_snoop_def Let_def)

lemma m4_command_frame [simp]:
  "m4_plugged (m4_command m i) = m4_plugged m" "m4_response_len (m4_command m i) = m4_response_len m"
  "m4_config_len (m4_command m i) = m4_config_len m" "m4_response (m4_command m i) = m4_response m"
  by (simp_all add: m4_command_def latch_execute_def Let_def)

lemma m4_step_wf [inv_intros]: "m4_wf m \<Longrightarrow> m4_wf (fst (m4_step m i))"
  by (simp add: m4_wf_def m4_step_def m4_command_def latch_execute_def Let_def)

lemma m4_host_wf [inv_intros]:
  "m4_wf m \<Longrightarrow> m4_wf (m4_complete_response m buf)" "m4_wf m \<Longrightarrow> m4_wf (m4_write_config m buf)"
  "m4_wf m \<Longrightarrow> m4_wf (snd (m4_pending_command m))" "m4_wf m \<Longrightarrow> m4_wf (m4_dev_reset m)"
  by (simp_all add: m4_wf_def m4_complete_response_def m4_write_config_def m4_pending_command_def m4_dev_reset_def
      Let_def)

text \<open>An \<open>OUT\<close> held for \<open>n + 1\<close> master cycles and one cycle off the bus.\<close>

definition m4_out :: "nat \<Rightarrow> u16 \<Rightarrow> m4_state \<Rightarrow> u8 \<Rightarrow> m4_state" where
  "m4_out n p m v = fst (m4_step (((\<lambda>m. fst (m4_step m (io_write_bus p v))) ^^ Suc n) m) bus_resting)"

definition m4_send :: "nat \<Rightarrow> u8 list \<Rightarrow> m4_state \<Rightarrow> m4_state" where
  "m4_send n bs m = m4_out n 0xFC00 (fold (\<lambda>v m. m4_out n 0xFE00 m v) bs m) 0"

lemma m4_rest:
  "m4_plugged m \<Longrightarrow> fst (m4_step m bus_resting) = m\<lparr>m4_io_prev := False\<rparr>"
  by (simp add: m4_step_def m4_snoop_def m4_command_def m4_io_wr_def m4_cmd_wr_def m4_exec_wr_def bus_resting_def Let_def)

lemma m4_io_wr_out [simp]: "m4_io_wr (io_write_bus p v)"
  by (simp add: m4_io_wr_def)

text \<open>Neither command port has A13 or the Gate Array pattern in its address, so the snoop is idle.\<close>

lemma m4_held:
  assumes "m4_plugged m" "p = 0xFE00 \<or> p = 0xFC00"
  shows "((\<lambda>m. fst (m4_step m (io_write_bus p v))) ^^ Suc n) m = m4_command m (io_write_bus p v)"
proof -
  have snoop: "m4_snoop m (io_write_bus p v) = m" for m
    using assms(2) by (auto simp: m4_snoop_def)
  have sel: "m4_cmd_wr (io_write_bus p v) \<or> m4_exec_wr (io_write_bus p v)"
    using assms(2) by (auto simp: m4_cmd_wr_def m4_exec_wr_def)
  have one: "fst (m4_step m (io_write_bus p v)) = m4_command m (io_write_bus p v)" if "m4_plugged m" for m
    using that by (simp add: m4_step_def snoop Let_def)
  have twice: "m4_command (m4_command m (io_write_bus p v)) (io_write_bus p v) = m4_command m (io_write_bus p v)" for m
    using m4_ports.prev_step [of m "io_write_bus p v"] sel by (simp add: m4_command_def [of "m4_command m _"] Let_def)
  show ?thesis
    using assms(1) by (induction n) (simp_all add: one twice)
qed

lemma m4_out_cmd:
  assumes "m4_plugged m" "\<not> m4_io_prev m"
  shows "m4_out n 0xFE00 m v = (if length (m4_acc m) < M4_FRAME_MAX then m\<lparr>m4_acc := m4_acc m @ [v]\<rparr> else m)"
  using assms unfolding m4_out_def m4_held [OF assms(1) disjI1 [OF refl]]
  by (simp add: m4_rest) (simp add: m4_command_def m4_cmd_wr_def m4_exec_wr_def Let_def)

lemma m4_out_exec:
  assumes "m4_plugged m" "\<not> m4_io_prev m"
  shows "m4_out n 0xFC00 m v = latch_execute m"
  using assms unfolding m4_out_def m4_held [OF assms(1) disjI2 [OF refl]]
  by (simp add: m4_rest) (simp add: m4_command_def m4_cmd_wr_def m4_exec_wr_def latch_execute_def Let_def)

lemma m4_accumulate:
  assumes "m4_plugged m" "\<not> m4_io_prev m" "length (m4_acc m) \<le> M4_FRAME_MAX"
  shows "fold (\<lambda>v m. m4_out n 0xFE00 m v) bs m = m\<lparr>m4_acc := take M4_FRAME_MAX (m4_acc m @ bs)\<rparr>"
  using assms
proof (induction bs arbitrary: m)
  case Nil
  then show ?case by simp
next
  case (Cons b bs)
  show ?case
  proof (cases "length (m4_acc m) < M4_FRAME_MAX")
    case True
    then show ?thesis
      using Cons.IH [of "m\<lparr>m4_acc := m4_acc m @ [b]\<rparr>"] Cons.prems by (simp add: m4_out_cmd)
  next
    case False
    then show ?thesis
      using Cons by (simp add: m4_out_cmd)
  qed
qed

text \<open>A frame executed while the mailbox is still full is dropped whole: the waiting frame stays as it
  is and the next command starts from an empty accumulator.\<close>

lemma m4_overrun_drops:
  assumes "m4_plugged m" "\<not> m4_io_prev m" "m4_acc m = []" "m4_pending_valid m"
  shows "m4_send n bs m = m"
proof -
  have "m4_send n bs m = m\<lparr>m4_acc := []\<rparr>"
    using assms by (simp add: m4_send_def m4_accumulate m4_out_exec latch_execute_def)
  with assms(3) show ?thesis by simp
qed

lemma m4_send_empty:
  assumes "m4_plugged m" "\<not> m4_io_prev m" "m4_acc m = []" "\<not> m4_pending_valid m" "3 \<le> length bs"
  shows "m4_send n bs m = m\<lparr>m4_pending := \<lparr> mp_cmd = frame_cmd bs, mp_frame = take M4_FRAME_MAX bs \<rparr>,
      m4_pending_valid := True, m4_busy := True, m4_last_cmd := frame_cmd bs, m4_acc := []\<rparr>"
proof -
  have "3 \<le> length (take M4_FRAME_MAX bs)" "frame_cmd (take M4_FRAME_MAX bs) = frame_cmd bs"
    using assms(5) by (simp_all add: M4_FRAME_MAX_def frame_cmd_def)
  then show ?thesis
    using assms by (simp add: m4_send_def m4_accumulate m4_out_exec latch_execute_def)
qed

text \<open>A memory read on the bus, and what the device answers to it: the byte it drives with \<open>romdis\<close>, or nothing when
  it leaves the read to the ROM.\<close>

definition m4_read_bus :: "u16 \<Rightarrow> Bus" where
  "m4_read_bus a = bus_resting\<lparr>b_cpu := (b_cpu bus_resting)\<lparr>cpu_addr := a, cpu_mreq := True, cpu_rd := True\<rparr>\<rparr>"

definition m4_bus_read :: "m4_state \<Rightarrow> u16 \<Rightarrow> u8 option" where
  "m4_bus_read m a = (let c = b_cpu (snd (m4_tick m (m4_read_bus a) bus_resting)) in
     if cpu_romdis c then Some (cpu_data c) else None)"

lemma m4_bus_read_selected:
  assumes "m4_plugged m" "rom_selected m"
  shows "m4_bus_read m a = (case m4_overlay m a of [Dr_romdis, Dr_data v] \<Rightarrow> Some v | _ \<Rightarrow> None)"
proof -
  have "m4_command (m4_snoop m (m4_read_bus a)) (m4_read_bus a) = m\<lparr>m4_io_prev := False\<rparr>"
    by (simp add: m4_command_def m4_snoop_def m4_cmd_wr_def m4_exec_wr_def m4_io_wr_def m4_read_bus_def bus_resting_def Let_def)
  moreover have "rom_selected (m\<lparr>m4_io_prev := False\<rparr>)" "m4_overlay (m\<lparr>m4_io_prev := False\<rparr>) a = m4_overlay m a"
    using assms(2) by (simp_all add: rom_selected_def m4_overlay_def Let_def cong: if_cong)
  ultimately have "snd (m4_step m (m4_read_bus a)) = m4_overlay m a"
    using assms(1) by (simp add: m4_step_def m4_read_bus_def bus_resting_def Let_def)
  then show ?thesis
    by (simp add: m4_bus_read_def m4_tick_def m4_overlay_def Let_def bus_resting_def)
qed

lemma m4_window_read:
  assumes "m4_plugged m" "rom_selected m" "k < M4_RESPONSE_SIZE"
  shows "m4_bus_read m (kRespBase + of_nat k) =
    (if m4_busy m then Some 0xFF else if k < m4_response_len m then Some (m4_response m k) else None)"
proof -
  have a: "unat (kRespBase + of_nat k) = unat kRespBase + k"
    using assms(3) by (simp add: unat_word_ariths kRespBase_def M4_RESPONSE_SIZE_def unat_of_nat)
  then have "kRespBase + of_nat k \<ge> kRespBase" and "\<not> kConfigBase \<le> kRespBase + of_nat k"
    using assms(3) by (simp_all add: word_le_nat_alt kRespBase_def kConfigBase_def M4_RESPONSE_SIZE_def)
  with a assms show ?thesis
    by (simp add: m4_bus_read_selected m4_overlay_def Let_def)
qed

subsection \<open>Properties\<close>

text \<open>C31 (m4_frame_delivered): A frame of at least three bytes is sent through the command port, each write held for
  any number of cycles, with the board's ROM mapped in. If the mailbox is empty the frame reaches the host whole
  (up to the 4096-byte limit) with the command word of its second and third byte, and the accumulator is empty for
  the next frame; a memory read on the bus in the response window is answered with 0xFF under \<open>romdis\<close> until the
  host completes the command, before and after it takes the frame, and with the host's answer from then on, the
  addresses past its end being left to the ROM. If the mailbox is still full the frame is dropped and the state is
  what it was.\<close>

theorem m4_frame_delivered:
  assumes "m4_plugged m" "rom_selected m" "\<not> m4_io_prev m" "m4_acc m = []" "3 \<le> length bs" "k < M4_RESPONSE_SIZE"
  shows "let s = m4_send n bs m; d = snd (m4_pending_command s); r = m4_complete_response d buf; a = kRespBase + of_nat k in
    if m4_pending_valid m then s = m
    else fst (m4_pending_command s) = Some \<lparr> mp_cmd = frame_cmd bs, mp_frame = take M4_FRAME_MAX bs \<rparr> \<and>
      m4_acc r = [] \<and> \<not> m4_pending_valid r \<and>
      m4_bus_read s a = Some 0xFF \<and> m4_bus_read d a = Some 0xFF \<and>
      m4_bus_read r a = (if k < length buf then Some (buf ! k) else None)"
proof (cases "m4_pending_valid m")
  case True
  then show ?thesis using m4_overrun_drops [of m n bs] assms by simp
next
  case False
  note send = m4_send_empty [OF assms(1,3,4) False assms(5), of n]
  define s where "s = m4_send n bs m"
  have s: "m4_plugged s" "rom_selected s" "m4_busy s" "m4_pending_valid s"
    "m4_pending s = \<lparr> mp_cmd = frame_cmd bs, mp_frame = take M4_FRAME_MAX bs \<rparr>" "m4_acc s = []"
    "m4_response_len s = m4_response_len m"
    using assms(1,2) by (simp_all add: s_def send rom_selected_def)
  have "m4_bus_read s (kRespBase + of_nat k) = Some 0xFF"
    using s assms(6) by (simp add: m4_window_read)
  moreover have "m4_bus_read (snd (m4_pending_command s)) (kRespBase + of_nat k) = Some 0xFF"
    using s assms(6) by (subst m4_window_read) (simp_all add: m4_pending_command_def rom_selected_def)
  moreover have "m4_bus_read (m4_complete_response (snd (m4_pending_command s)) buf) (kRespBase + of_nat k) =
      (if k < length buf then Some (buf ! k) else None)"
    using s assms(6)
    by (subst m4_window_read) (simp_all add: m4_pending_command_def m4_complete_response_def rom_selected_def Let_def)
  ultimately show ?thesis
    using s False by (simp add: s_def [symmetric] m4_pending_command_def m4_complete_response_def Let_def)
qed

theorem m4_frame_delivered_witness:
  "let m = (m4_attach_rom (m4_set_plugged m4_init True) (Some []))\<lparr>m4_rom_select := 6\<rparr>;
       s = m4_send 4 [0, 0x26, 0x43, 9] m in
    fst (m4_pending_command s) = Some \<lparr> mp_cmd = 0x4326, mp_frame = [0, 0x26, 0x43, 9] \<rparr> \<and>
    m4_bus_read s 0xE801 = Some 0xFF \<and>
    m4_bus_read (m4_complete_response (snd (m4_pending_command s)) [0x10, 0x20]) 0xE801 = Some 0x20"
  using m4_frame_delivered [of "(m4_attach_rom (m4_set_plugged m4_init True) (Some []))\<lparr>m4_rom_select := 6\<rparr>"
      "[0, 0x26, 0x43, 9]" 1 4 "[0x10, 0x20]"]
  by (simp add: m4_set_plugged_def m4_attach_rom_def rom_selected_def m4_init_def M4_RESPONSE_SIZE_def M4_FRAME_MAX_def
      frame_cmd_def kRespBase_def Let_def)

end
