(* ===== verification/Z80_Core.thy ===== *)
theory Z80_Core
  imports Contracts
begin

text \<open>
  The Z80 of \<open>src/src/hw/z80.cpp\<close>, first part: the register file, the flag core, and the instruction
  step machine \<open>run_micro\<close> that both engines of the source share. \<open>micro_*\<close> is called at each
  machine-cycle boundary with \<open>step\<close> counting the cycles of the instruction; it consumes the byte the
  last cycle latched in \<open>tmp\<close> and either requests the next cycle (\<open>req_*\<close>) or finishes the
  instruction. Fields are named \<open>z_x\<close> for the C member \<open>x\<close>; \<open>t\<close>, \<open>step\<close>, \<open>mc_ilen\<close> and
  \<open>halt_t\<close> are \<open>uint8_t\<close> counters that never leave 0..8, kept as naturals. Where a C \<open>switch\<close>
  covers all values a 2- or 3-bit field can take, its last case is the final \<open>else\<close>.
\<close>

subsection \<open>Flags and register halves\<close>

abbreviation SF :: u8 where "SF \<equiv> 0x80"
abbreviation ZF :: u8 where "ZF \<equiv> 0x40"
abbreviation YF :: u8 where "YF \<equiv> 0x20"
abbreviation HF :: u8 where "HF \<equiv> 0x10"
abbreviation XF :: u8 where "XF \<equiv> 0x08"
abbreviation PF :: u8 where "PF \<equiv> 0x04"
abbreviation NF :: u8 where "NF \<equiv> 0x02"
abbreviation CF :: u8 where "CF \<equiv> 0x01"
abbreviation XYF :: u8 where "XYF \<equiv> 0x28"
abbreviation SZPF :: u8 where "SZPF \<equiv> 0xC4"

definition flag :: "bool \<Rightarrow> u8 \<Rightarrow> u8" where
  "flag c b = (if c then b else 0)"

definition parity_even :: "u8 \<Rightarrow> bool" where
  "parity_even value =
    (let v1 = value XOR drop_bit 4 value; v2 = v1 XOR drop_bit 2 v1; v3 = v2 XOR drop_bit 1 v2
     in v3 AND 1 = 0)"

definition sz53 :: "u8 \<Rightarrow> u8" where
  "sz53 r = (r AND 0xA8) OR flag (r = 0) ZF"

definition sz53p :: "u8 \<Rightarrow> u8" where
  "sz53p r = sz53 r OR flag (parity_even r) PF"

definition hi :: "u16 \<Rightarrow> u8" where
  "hi v = ucast (drop_bit 8 v)"

definition lo :: "u16 \<Rightarrow> u8" where
  "lo v = ucast (v AND 0xFF)"

definition set_hi :: "u16 \<Rightarrow> u8 \<Rightarrow> u16" where
  "set_hi v h = push_bit 8 (ucast h) OR (v AND 0x00FF)"

definition set_lo :: "u16 \<Rightarrow> u8 \<Rightarrow> u16" where
  "set_lo v l = (v AND 0xFF00) OR ucast l"

subsection \<open>State\<close>

datatype MC = MC_M1 | MC_READ | MC_WRITE | MC_INTERNAL | MC_IO | MC_IOACK

datatype IndexReg = Idx_HL | Idx_IX | Idx_IY

datatype Servicing = Svc_NONE | Svc_NMI | Svc_MASKABLE

record z80_state =
  z_af :: u16
  z_bc :: u16
  z_de :: u16
  z_hl :: u16
  z_af2 :: u16
  z_bc2 :: u16
  z_de2 :: u16
  z_hl2 :: u16
  z_ix :: u16
  z_iy :: u16
  z_sp :: u16
  z_pc :: u16
  z_wz :: u16
  z_i :: u8
  z_r :: u8
  z_iff1 :: u8
  z_iff2 :: u8
  z_im :: u8
  z_q :: u8
  z_qq :: u8
  z_halted :: bool
  z_mc :: MC
  z_t :: nat
  z_mc_addr :: u16
  z_mc_wval :: u8
  z_mc_io_read :: bool
  z_mc_ilen :: nat
  z_held :: CpuBus
  z_held_valid :: bool
  z_nmi_prev :: bool
  z_nmi_pending :: bool
  z_ei_delay :: bool
  z_servicing :: Servicing
  z_int_vec :: u8
  z_step :: nat
  z_prefix :: u8
  z_index :: IndexReg
  z_mem_addr :: u16
  z_opcode :: u8
  z_tmp :: u8
  z_tmpl :: u8
  z_halt_t :: nat
  z_unimplemented :: bool
  z_tstates :: u64
  z_instr_count :: u64

text \<open>A value-initialised \<open>CpuBus\<close>: every line low, address and data zero.\<close>

definition CpuBus_zero :: CpuBus where
  "CpuBus_zero = \<lparr>cpu_addr = 0, cpu_data = 0, cpu_m1 = False, cpu_mreq = False, cpu_iorq = False, cpu_rd = False,
     cpu_wr = False, cpu_rfsh = False, cpu_halt = False, cpu_wait = False, cpu_irq = False, cpu_nmi = False,
     cpu_reset = False, cpu_busrq = False, cpu_busak = False, cpu_romdis = False, cpu_ramdis = False\<rparr>"

subsection \<open>Accessors\<close>

definition za :: "z80_state \<Rightarrow> u8" where "za z = hi (z_af z)"

definition zf :: "z80_state \<Rightarrow> u8" where "zf z = lo (z_af z)"

definition set_a :: "u8 \<Rightarrow> z80_state \<Rightarrow> z80_state" where
  "set_a v z = z\<lparr>z_af := set_hi (z_af z) v\<rparr>"

definition set_f :: "u8 \<Rightarrow> z80_state \<Rightarrow> z80_state" where
  "set_f v z = z\<lparr>z_af := set_lo (z_af z) v, z_qq := v\<rparr>"

definition idx_hl :: "z80_state \<Rightarrow> u16" where
  "idx_hl z = (case z_index z of Idx_IX \<Rightarrow> z_ix z | Idx_IY \<Rightarrow> z_iy z | Idx_HL \<Rightarrow> z_hl z)"

definition set_idx_hl :: "u16 \<Rightarrow> z80_state \<Rightarrow> z80_state" where
  "set_idx_hl v z =
    (case z_index z of Idx_IX \<Rightarrow> z\<lparr>z_ix := v\<rparr> | Idx_IY \<Rightarrow> z\<lparr>z_iy := v\<rparr> | Idx_HL \<Rightarrow> z\<lparr>z_hl := v\<rparr>)"

definition idx_h :: "z80_state \<Rightarrow> u8" where "idx_h z = hi (idx_hl z)"

definition idx_l :: "z80_state \<Rightarrow> u8" where "idx_l z = lo (idx_hl z)"

definition set_idx_h :: "u8 \<Rightarrow> z80_state \<Rightarrow> z80_state" where
  "set_idx_h v z = set_idx_hl (set_hi (idx_hl z) v) z"

definition set_idx_l :: "u8 \<Rightarrow> z80_state \<Rightarrow> z80_state" where
  "set_idx_l v z = set_idx_hl (set_lo (idx_hl z) v) z"

definition get_r_real :: "u8 \<Rightarrow> z80_state \<Rightarrow> u8" where
  "get_r_real idx z =
    (if idx = 0 then hi (z_bc z) else if idx = 1 then lo (z_bc z)
     else if idx = 2 then hi (z_de z) else if idx = 3 then lo (z_de z)
     else if idx = 4 then hi (z_hl z) else if idx = 5 then lo (z_hl z)
     else if idx = 7 then hi (z_af z) else 0)"

definition set_r_real :: "u8 \<Rightarrow> u8 \<Rightarrow> z80_state \<Rightarrow> z80_state" where
  "set_r_real idx v z =
    (if idx = 0 then z\<lparr>z_bc := set_hi (z_bc z) v\<rparr> else if idx = 1 then z\<lparr>z_bc := set_lo (z_bc z) v\<rparr>
     else if idx = 2 then z\<lparr>z_de := set_hi (z_de z) v\<rparr> else if idx = 3 then z\<lparr>z_de := set_lo (z_de z) v\<rparr>
     else if idx = 4 then z\<lparr>z_hl := set_hi (z_hl z) v\<rparr> else if idx = 5 then z\<lparr>z_hl := set_lo (z_hl z) v\<rparr>
     else if idx = 7 then z\<lparr>z_af := set_hi (z_af z) v\<rparr> else z)"

definition get_r :: "u8 \<Rightarrow> z80_state \<Rightarrow> u8" where
  "get_r idx z = (if idx = 4 then idx_h z else if idx = 5 then idx_l z else get_r_real idx z)"

definition set_r :: "u8 \<Rightarrow> u8 \<Rightarrow> z80_state \<Rightarrow> z80_state" where
  "set_r idx v z =
    (if idx = 4 then set_idx_h v z else if idx = 5 then set_idx_l v z else set_r_real idx v z)"

definition bump_refresh :: "z80_state \<Rightarrow> z80_state" where
  "bump_refresh z = z\<lparr>z_r := (z_r z AND 0x80) OR (z_r z + 1 AND 0x7F)\<rparr>"

definition pcinc :: "z80_state \<Rightarrow> z80_state" where
  "pcinc z = z\<lparr>z_pc := z_pc z + 1\<rparr>"

definition assemble16 :: "z80_state \<Rightarrow> u16" where
  "assemble16 z = push_bit 8 (ucast (z_tmp z)) OR ucast (z_tmpl z)"

definition get_rp :: "u8 \<Rightarrow> z80_state \<Rightarrow> u16" where
  "get_rp p z = (if p = 0 then z_bc z else if p = 1 then z_de z else if p = 2 then idx_hl z
     else if p = 3 then z_sp z else 0)"

definition set_rp :: "u8 \<Rightarrow> u16 \<Rightarrow> z80_state \<Rightarrow> z80_state" where
  "set_rp p v z = (if p = 0 then z\<lparr>z_bc := v\<rparr> else if p = 1 then z\<lparr>z_de := v\<rparr>
     else if p = 2 then set_idx_hl v z else if p = 3 then z\<lparr>z_sp := v\<rparr> else z)"

definition get_rp2 :: "u8 \<Rightarrow> z80_state \<Rightarrow> u16" where
  "get_rp2 p z = (if p = 0 then z_bc z else if p = 1 then z_de z else if p = 2 then idx_hl z
     else if p = 3 then z_af z else 0)"

definition set_rp2 :: "u8 \<Rightarrow> u16 \<Rightarrow> z80_state \<Rightarrow> z80_state" where
  "set_rp2 p v z = (if p = 0 then z\<lparr>z_bc := v\<rparr> else if p = 1 then z\<lparr>z_de := v\<rparr>
     else if p = 2 then set_idx_hl v z else if p = 3 then z\<lparr>z_af := v\<rparr> else z)"

definition cond :: "u8 \<Rightarrow> z80_state \<Rightarrow> bool" where
  "cond y z =
    (if y = 0 then zf z AND ZF = 0 else if y = 1 then zf z AND ZF \<noteq> 0
     else if y = 2 then zf z AND CF = 0 else if y = 3 then zf z AND CF \<noteq> 0
     else if y = 4 then zf z AND PF = 0 else if y = 5 then zf z AND PF \<noteq> 0
     else if y = 6 then zf z AND SF = 0 else if y = 7 then zf z AND SF \<noteq> 0 else False)"

subsection \<open>Arithmetic\<close>

definition alu_add :: "u8 \<Rightarrow> u16 \<Rightarrow> z80_state \<Rightarrow> z80_state" where
  "alu_add val c z =
    (let acc = za z; res = ucast acc + ucast val + c; r8 = ucast res in
     set_f (sz53 r8 OR flag (res AND 0x100 \<noteq> 0) CF OR flag ((acc XOR val XOR r8) AND 0x10 \<noteq> 0) HF
       OR flag (NOT (acc XOR val) AND (acc XOR r8) AND 0x80 \<noteq> 0) PF) (set_a r8 z))"

definition alu_sub :: "bool \<Rightarrow> u8 \<Rightarrow> u16 \<Rightarrow> z80_state \<Rightarrow> z80_state" where
  "alu_sub cp val c z =
    (let acc = za z; res = ucast acc - ucast val - c; r8 = ucast res;
         flags = (r8 AND SF) OR flag (r8 = 0) ZF OR NF OR flag (res AND 0x100 \<noteq> 0) CF
           OR flag ((acc XOR val XOR r8) AND 0x10 \<noteq> 0) HF
           OR flag ((acc XOR val) AND (acc XOR r8) AND 0x80 \<noteq> 0) PF
     in if cp then set_f (flags OR (val AND XYF)) z
        else set_f (flags OR (r8 AND XYF)) (set_a r8 z))"

definition alu :: "u8 \<Rightarrow> u8 \<Rightarrow> z80_state \<Rightarrow> z80_state" where
  "alu kind val z =
    (let acc = za z; carry = (if zf z AND CF \<noteq> 0 then 1 else 0) in
     if kind = 0 then alu_add val 0 z
     else if kind = 1 then alu_add val carry z
     else if kind = 2 then alu_sub False val 0 z
     else if kind = 3 then alu_sub False val carry z
     else if kind = 4 then set_f (sz53p (acc AND val) OR HF) (set_a (acc AND val) z)
     else if kind = 5 then set_f (sz53p (acc XOR val)) (set_a (acc XOR val) z)
     else if kind = 6 then set_f (sz53p (acc OR val)) (set_a (acc OR val) z)
     else if kind = 7 then alu_sub True val 0 z
     else set_f 0 z)"

definition inc8 :: "u8 \<Rightarrow> z80_state \<Rightarrow> u8 \<times> z80_state" where
  "inc8 val z =
    (let r8 = val + 1 in
     (r8, set_f ((zf z AND CF) OR sz53 r8 OR flag (r8 AND 0x0F = 0) HF OR flag (r8 = 0x80) PF) z))"

definition dec8 :: "u8 \<Rightarrow> z80_state \<Rightarrow> u8 \<times> z80_state" where
  "dec8 val z =
    (let r8 = val - 1 in
     (r8, set_f ((zf z AND CF) OR sz53 r8 OR NF OR flag (r8 AND 0x0F = 0x0F) HF OR flag (r8 = 0x7F) PF) z))"

definition acc_rot :: "nat \<Rightarrow> z80_state \<Rightarrow> z80_state" where
  "acc_rot op z =
    (let av = za z; oldc = (if zf z AND CF \<noteq> 0 then 1 else 0);
         (carry, na) =
           (if op = 0 then (drop_bit 7 av, push_bit 1 av OR drop_bit 7 av)
            else if op = 1 then (av AND 1, drop_bit 1 av OR push_bit 7 (av AND 1))
            else if op = 2 then (drop_bit 7 av, push_bit 1 av OR oldc)
            else (av AND 1, drop_bit 1 av OR push_bit 7 oldc));
         z1 = set_a na z
     in set_f ((zf z1 AND SZPF) OR (na AND XYF) OR flag (carry \<noteq> 0) CF) z1)"

definition daa :: "z80_state \<Rightarrow> z80_state" where
  "daa z =
    (let av = za z;
         low = (zf z AND HF \<noteq> 0 \<or> av AND 0x0F > 0x09);
         carry = (zf z AND CF \<noteq> 0 \<or> av > 0x99);
         correction = flag low 0x06 OR flag carry 0x60;
         na = (if zf z AND NF \<noteq> 0 then av - correction else av + correction);
         flags = sz53p na OR flag carry CF OR (zf z AND NF) OR ((av XOR na) AND HF)
     in set_f flags (set_a na z))"

definition cpl :: "z80_state \<Rightarrow> z80_state" where
  "cpl z =
    (let z1 = set_a (NOT (za z)) z in set_f ((zf z1 AND 0xC5) OR HF OR NF OR (za z1 AND XYF)) z1)"

definition scf_ccf_xy :: "z80_state \<Rightarrow> u8" where
  "scf_ccf_xy z = ((z_q z XOR zf z) OR za z) AND XYF"

definition scf :: "z80_state \<Rightarrow> z80_state" where
  "scf z = set_f ((zf z AND SZPF) OR CF OR scf_ccf_xy z) z"

definition ccf :: "z80_state \<Rightarrow> z80_state" where
  "ccf z = (let oldc = zf z AND CF in
     set_f ((zf z AND SZPF) OR (if oldc \<noteq> 0 then 0 else CF) OR (if oldc \<noteq> 0 then HF else 0) OR scf_ccf_xy z) z)"

definition add16 :: "u16 \<Rightarrow> z80_state \<Rightarrow> z80_state" where
  "add16 val z =
    (let dst = idx_hl z; z1 = z\<lparr>z_wz := dst + 1\<rparr>;
         res = (ucast dst + ucast val :: u32); r16 = ucast res;
         flags = (zf z1 AND SZPF) OR (hi r16 AND XYF) OR flag ((dst XOR val XOR r16) AND 0x1000 \<noteq> 0) HF
           OR flag (res AND 0x10000 \<noteq> 0) CF
     in set_f flags (set_idx_hl r16 z1))"

definition adc16 :: "u16 \<Rightarrow> z80_state \<Rightarrow> z80_state" where
  "adc16 val z =
    (let h = z_hl z; z1 = z\<lparr>z_wz := h + 1\<rparr>;
         res = (ucast h + ucast val + (if zf z1 AND CF \<noteq> 0 then 1 else 0) :: u32); r16 = ucast res;
         flags = (hi r16 AND 0xA8) OR flag (r16 = 0) ZF OR flag ((h XOR val XOR r16) AND 0x1000 \<noteq> 0) HF
           OR flag (res AND 0x10000 \<noteq> 0) CF OR flag (NOT (h XOR val) AND (h XOR r16) AND 0x8000 \<noteq> 0) PF
     in set_f flags (z1\<lparr>z_hl := r16\<rparr>))"

definition sbc16 :: "u16 \<Rightarrow> z80_state \<Rightarrow> z80_state" where
  "sbc16 val z =
    (let h = z_hl z; z1 = z\<lparr>z_wz := h + 1\<rparr>;
         res = (ucast h - ucast val - (if zf z1 AND CF \<noteq> 0 then 1 else 0) :: u32); r16 = ucast res;
         flags = (hi r16 AND 0xA8) OR flag (r16 = 0) ZF OR NF OR flag ((h XOR val XOR r16) AND 0x1000 \<noteq> 0) HF
           OR flag (res AND 0x10000 \<noteq> 0) CF OR flag ((h XOR val) AND (h XOR r16) AND 0x8000 \<noteq> 0) PF
     in set_f flags (z1\<lparr>z_hl := r16\<rparr>))"

definition neg :: "z80_state \<Rightarrow> z80_state" where
  "neg z =
    (let old = za z; res = (0 - ucast old :: u16); r8 = ucast res;
         flags = (r8 AND 0xA8) OR flag (r8 = 0) ZF OR NF OR flag (res AND 0x100 \<noteq> 0) CF
           OR flag ((old XOR r8) AND 0x10 \<noteq> 0) HF OR flag (old AND r8 AND 0x80 \<noteq> 0) PF
     in set_f flags (set_a r8 z))"

definition ld_a_ir :: "u8 \<Rightarrow> z80_state \<Rightarrow> z80_state" where
  "ld_a_ir val z =
    (let z1 = set_a val z in set_f ((zf z1 AND CF) OR sz53 val OR flag (z_iff2 z1 \<noteq> 0) PF) z1)"

definition cb_shift :: "u8 \<Rightarrow> u8 \<Rightarrow> z80_state \<Rightarrow> u8 \<times> z80_state" where
  "cb_shift op val z =
    (let oldc = (if zf z AND CF \<noteq> 0 then 1 else 0);
         (carry, res) =
           (if op = 0 then (drop_bit 7 val, push_bit 1 val OR drop_bit 7 val)
            else if op = 1 then (val AND 1, drop_bit 1 val OR push_bit 7 (val AND 1))
            else if op = 2 then (drop_bit 7 val, push_bit 1 val OR oldc)
            else if op = 3 then (val AND 1, drop_bit 1 val OR push_bit 7 oldc)
            else if op = 4 then (drop_bit 7 val, push_bit 1 val)
            else if op = 5 then (val AND 1, drop_bit 1 val OR (val AND 0x80))
            else if op = 6 then (drop_bit 7 val, push_bit 1 val OR 1)
            else (val AND 1, drop_bit 1 val))
     in (res, set_f (sz53p res OR flag (carry \<noteq> 0) CF) z))"

definition bit_mask :: "u8 \<Rightarrow> u8" where
  "bit_mask n = push_bit (unat n) 1"

definition cb_bit :: "u8 \<Rightarrow> u8 \<Rightarrow> u8 \<Rightarrow> z80_state \<Rightarrow> z80_state" where
  "cb_bit n val xy z =
    (let b = val AND bit_mask n in
     set_f ((zf z AND CF) OR HF OR (xy AND XYF) OR flag (b = 0) 0x44 OR flag (n = 7 \<and> b \<noteq> 0) SF) z)"

subsection \<open>Machine-cycle requests\<close>

definition req_read :: "u16 \<Rightarrow> z80_state \<Rightarrow> z80_state" where
  "req_read addr z = z\<lparr>z_mc := MC_READ, z_t := 0, z_mc_addr := addr\<rparr>"

definition req_write :: "u16 \<Rightarrow> u8 \<Rightarrow> z80_state \<Rightarrow> z80_state" where
  "req_write addr val z = z\<lparr>z_mc := MC_WRITE, z_t := 0, z_mc_addr := addr, z_mc_wval := val\<rparr>"

definition req_internal :: "nat \<Rightarrow> z80_state \<Rightarrow> z80_state" where
  "req_internal len z = z\<lparr>z_mc := MC_INTERNAL, z_t := 0, z_mc_ilen := len\<rparr>"

definition req_io_read :: "u16 \<Rightarrow> z80_state \<Rightarrow> z80_state" where
  "req_io_read port z = z\<lparr>z_mc := MC_IO, z_t := 0, z_mc_addr := port, z_mc_io_read := True\<rparr>"

definition req_io_write :: "u16 \<Rightarrow> u8 \<Rightarrow> z80_state \<Rightarrow> z80_state" where
  "req_io_write port val z =
    z\<lparr>z_mc := MC_IO, z_t := 0, z_mc_addr := port, z_mc_wval := val, z_mc_io_read := False\<rparr>"

definition req_ioack :: "nat \<Rightarrow> z80_state \<Rightarrow> z80_state" where
  "req_ioack len z = z\<lparr>z_mc := MC_IOACK, z_t := 0, z_mc_ilen := len\<rparr>"

definition finish :: "z80_state \<Rightarrow> z80_state" where
  "finish z = z\<lparr>z_q := z_qq z, z_mc := MC_M1, z_t := 0, z_step := 0, z_prefix := 0, z_index := Idx_HL,
     z_instr_count := z_instr_count z + 1\<rparr>"

text \<open>Combinations that occur all over the step machine: an operand byte at PC, the low byte of a
  16-bit operand latched and the high one requested, a pop and a push of one byte.\<close>

definition req_pc :: "z80_state \<Rightarrow> z80_state" where
  "req_pc z = pcinc (req_read (z_pc z) z)"

definition latch_lo :: "z80_state \<Rightarrow> z80_state" where
  "latch_lo z = z\<lparr>z_tmpl := z_tmp z\<rparr>"

definition req_pop :: "z80_state \<Rightarrow> z80_state" where
  "req_pop z = (req_read (z_sp z) z)\<lparr>z_sp := z_sp z + 1\<rparr>"

definition req_push :: "u8 \<Rightarrow> z80_state \<Rightarrow> z80_state" where
  "req_push val z = req_write (z_sp z - 1) val (z\<lparr>z_sp := z_sp z - 1\<rparr>)"

definition set_wz :: "u16 \<Rightarrow> z80_state \<Rightarrow> z80_state" where
  "set_wz v z = z\<lparr>z_wz := v\<rparr>"

definition jump :: "u16 \<Rightarrow> z80_state \<Rightarrow> z80_state" where
  "jump v z = z\<lparr>z_pc := v, z_wz := v\<rparr>"

end
