(* ===== verification/Z80_Micro.thy ===== *)
theory Z80_Micro
  imports Z80_Core
begin

text \<open>
  The Z80 of \<open>src/src/hw/z80.cpp\<close>, second part: the instruction step machine. One definition per
  \<open>micro_*\<close> member function, and one per group of cases where the C function is a long \<open>switch\<close>;
  every step of every instruction ends in a request or in \<open>finish\<close>.
\<close>

abbreviation op_x :: "u8 \<Rightarrow> u8" where "op_x op \<equiv> drop_bit 6 op"
abbreviation op_y :: "u8 \<Rightarrow> u8" where "op_y op \<equiv> drop_bit 3 op AND 7"
abbreviation op_z :: "u8 \<Rightarrow> u8" where "op_z op \<equiv> op AND 7"
abbreviation y_p :: "u8 \<Rightarrow> u8" where "y_p y \<equiv> drop_bit 1 y"
abbreviation y_q :: "u8 \<Rightarrow> u8" where "y_q y \<equiv> y AND 1"

definition micro_interrupt :: "z80_state \<Rightarrow> z80_state" where
  "micro_interrupt z =
    (if z_step z = 0 then req_ioack (if z_servicing z = Svc_NMI then 4 else 6) z
     else if z_step z = 1 then req_push (hi (z_pc z)) z
     else if z_step z = 2 then req_push (lo (z_pc z)) z
     else if z_servicing z = Svc_NMI then finish ((jump 0x0066 z)\<lparr>z_servicing := Svc_NONE\<rparr>)
     else if z_im z = 2 then
       (if z_step z = 3 then
          (let a = push_bit 8 (ucast (z_i z)) OR ucast (z_int_vec z) in req_read a (z\<lparr>z_mem_addr := a\<rparr>))
        else if z_step z = 4 then req_read (z_mem_addr z + 1) (latch_lo z)
        else finish ((jump (assemble16 z) z)\<lparr>z_servicing := Svc_NONE\<rparr>))
     else finish ((jump (if z_im z = 0 then ucast (z_int_vec z) AND 0x38 else 0x0038) z)\<lparr>z_servicing := Svc_NONE\<rparr>))"

subsection \<open>Block operations\<close>

definition block_d :: "bool \<Rightarrow> 'a::len word" where
  "block_d inc = (if inc then 1 else - 1)"

text \<open>The loop-back of a repeating block instruction: re-execute the ED-prefixed opcode.\<close>

definition rewind :: "z80_state \<Rightarrow> z80_state" where
  "rewind z = z\<lparr>z_pc := z_pc z - 2, z_wz := z_pc z - 2 + 1\<rparr>"

definition block_ld :: "bool \<Rightarrow> bool \<Rightarrow> z80_state \<Rightarrow> z80_state" where
  "block_ld inc repeat z =
    (if z_step z = 0 then req_read (z_hl z) z
     else if z_step z = 1 then req_write (z_de z) (z_tmp z) z
     else if z_step z = 2 then
       (let z1 = z\<lparr>z_hl := z_hl z + block_d inc, z_de := z_de z + block_d inc, z_bc := z_bc z - 1\<rparr>;
            n = za z1 + z_tmp z1;
            flags = (zf z1 AND 0xC1) OR flag (z_bc z1 \<noteq> 0) PF OR flag (n AND 0x02 \<noteq> 0) YF OR flag (n AND 0x08 \<noteq> 0) XF
        in req_internal 2 (set_f flags z1))
     else if z_step z = 3 then
       (if repeat \<and> z_bc z \<noteq> 0 then
          (let z1 = rewind z in req_internal 5 (set_f ((zf z1 AND 0xC1) OR PF OR (hi (z_pc z1) AND XYF)) z1))
        else finish z)
     else finish z)"

definition block_cp :: "bool \<Rightarrow> bool \<Rightarrow> z80_state \<Rightarrow> z80_state" where
  "block_cp inc repeat z =
    (if z_step z = 0 then req_read (z_hl z) z
     else if z_step z = 1 then
       (let val = z_tmp z; res = za z - val; hf = ((za z XOR val XOR res) AND 0x10 \<noteq> 0);
            z1 = z\<lparr>z_hl := z_hl z + block_d inc, z_bc := z_bc z - 1, z_wz := z_wz z + block_d inc\<rparr>;
            n = res - (if hf then 1 else 0);
            flags = (zf z1 AND CF) OR (res AND SF) OR NF OR flag (res = 0) ZF OR flag hf HF OR flag (z_bc z1 \<noteq> 0) PF
              OR flag (n AND 0x02 \<noteq> 0) YF OR flag (n AND 0x08 \<noteq> 0) XF
        in req_internal 5 (set_f flags z1))
     else if z_step z = 2 then
       (if repeat \<and> z_bc z \<noteq> 0 \<and> zf z AND ZF = 0 then
          (let z1 = rewind z in req_internal 5 (set_f ((zf z1 AND 0xD7) OR (hi (z_pc z1) AND XYF)) z1))
        else finish z)
     else finish z)"

definition blkio_corrected_f :: "u8 \<Rightarrow> u16 \<Rightarrow> u8 \<Rightarrow> z80_state \<Rightarrow> u8" where
  "blkio_corrected_f val k bdec z =
    (let p = ucast (k AND 7) XOR bdec;
         base = (bdec AND SF) OR (hi (z_pc z) AND XYF) OR flag (val AND 0x80 \<noteq> 0) NF
     in if k > 0xFF then
          (if val AND 0x80 \<noteq> 0
           then base OR CF OR flag (bdec AND 0x0F = 0x00) HF OR flag (parity_even (p XOR (bdec - 1 AND 7))) PF
           else base OR CF OR flag (bdec AND 0x0F = 0x0F) HF OR flag (parity_even (p XOR (bdec + 1 AND 7))) PF)
        else base OR flag (parity_even (p XOR (bdec AND 7))) PF)"

definition blkio_flags :: "u8 \<Rightarrow> u16 \<Rightarrow> u8 \<Rightarrow> u8" where
  "blkio_flags val k bdec =
    sz53 bdec OR flag (val AND 0x80 \<noteq> 0) NF OR flag (k > 0xFF) 0x11
      OR flag (parity_even (ucast (k AND 7) XOR bdec)) PF"

definition blkio_end :: "bool \<Rightarrow> u8 \<Rightarrow> u16 \<Rightarrow> u8 \<Rightarrow> z80_state \<Rightarrow> z80_state" where
  "blkio_end repeat val k bdec z =
    (if repeat \<and> bdec \<noteq> 0
     then (let z1 = rewind z in req_internal 5 (set_f (blkio_corrected_f val k bdec z1) z1))
     else finish (set_f (blkio_flags val k bdec) z))"

definition block_in :: "bool \<Rightarrow> bool \<Rightarrow> z80_state \<Rightarrow> z80_state" where
  "block_in inc repeat z =
    (if z_step z = 0 then req_internal 1 z
     else if z_step z = 1 then req_io_read (z_bc z) (set_wz (z_bc z + block_d inc) z)
     else if z_step z = 2 then req_write (z_hl z) (z_tmp z) z
     else if z_step z = 3 then
       (let val = z_tmp z;
            z1 = z\<lparr>z_hl := z_hl z + block_d inc, z_bc := set_hi (z_bc z) (hi (z_bc z) - 1)\<rparr>;
            bdec = hi (z_bc z1);
            k = ucast val + ucast (lo (z_bc z1) + block_d inc)
        in blkio_end repeat val k bdec z1)
     else finish z)"

definition block_out :: "bool \<Rightarrow> bool \<Rightarrow> z80_state \<Rightarrow> z80_state" where
  "block_out inc repeat z =
    (if z_step z = 0 then req_internal 1 z
     else if z_step z = 1 then req_read (z_hl z) z
     else if z_step z = 2 then
       (let z1 = z\<lparr>z_bc := set_hi (z_bc z) (hi (z_bc z) - 1)\<rparr>
        in req_io_write (z_bc z1) (z_tmp z1) (set_wz (z_bc z1 + block_d inc) z1))
     else if z_step z = 3 then
       (let val = z_tmp z; z1 = z\<lparr>z_hl := z_hl z + block_d inc\<rparr>;
            bdec = hi (z_bc z1); k = ucast val + ucast (lo (z_hl z1))
        in blkio_end repeat val k bdec z1)
     else finish z)"

subsection \<open>The ED page\<close>

definition undecoded :: "z80_state \<Rightarrow> z80_state" where
  "undecoded z = finish (z\<lparr>z_unimplemented := True\<rparr>)"

definition ed_in :: "u8 \<Rightarrow> z80_state \<Rightarrow> z80_state" where
  "ed_in y z =
    (if z_step z = 0 then req_io_read (z_bc z) (set_wz (z_bc z + 1) z)
     else (let z1 = set_f ((zf z AND CF) OR sz53p (z_tmp z)) z
           in finish (if y \<noteq> 6 then set_r y (z_tmp z1) z1 else z1)))"

definition ed_out :: "u8 \<Rightarrow> z80_state \<Rightarrow> z80_state" where
  "ed_out y z =
    (if z_step z = 0 then set_wz (z_bc z + 1) (req_io_write (z_bc z) (if y = 6 then 0 else get_r y z) z)
     else finish z)"

definition ed_ld_nn :: "u8 \<Rightarrow> z80_state \<Rightarrow> z80_state" where
  "ed_ld_nn y z =
    (if z_step z = 0 then req_pc z
     else if z_step z = 1 then req_pc (latch_lo z)
     else if y_q y = 0 then
       (if z_step z = 2 then
          (let z1 = set_wz (assemble16 z) z in set_wz (z_wz z1 + 1) (req_write (z_wz z1) (lo (get_rp (y_p y) z1)) z1))
        else if z_step z = 3 then req_write (z_wz z) (hi (get_rp (y_p y) z)) z
        else finish z)
     else
       (if z_step z = 2 then
          (let z1 = set_wz (assemble16 z) z in set_wz (z_wz z1 + 1) (req_read (z_wz z1) z1))
        else if z_step z = 3 then req_read (z_wz z) (latch_lo z)
        else finish (set_rp (y_p y) (assemble16 z) z)))"

definition ed_arith16 :: "u8 \<Rightarrow> z80_state \<Rightarrow> z80_state" where
  "ed_arith16 y z =
    (if z_step z = 0 then req_internal 7 z
     else finish (if y_q y = 0 then sbc16 (get_rp (y_p y) z) z else adc16 (get_rp (y_p y) z) z))"

definition ed_retn :: "z80_state \<Rightarrow> z80_state" where
  "ed_retn z =
    (if z_step z = 0 then req_pop z
     else if z_step z = 1 then req_pop (latch_lo z)
     else finish ((jump (assemble16 z) z)\<lparr>z_iff1 := z_iff2 z\<rparr>))"

definition kImTable :: "u8 \<Rightarrow> u8" where
  "kImTable y = (if y = 2 \<or> y = 6 then 1 else if y = 3 \<or> y = 7 then 2 else 0)"

definition ed_rxd :: "u8 \<Rightarrow> z80_state \<Rightarrow> z80_state" where
  "ed_rxd y z =
    (if z_step z = 0 then req_read (z_hl z) z
     else if z_step z = 1 then req_internal 4 z
     else if z_step z = 2 then
       (let old = z_tmp z; a = za z;
            newhl = (if y = 4 then push_bit 4 a OR drop_bit 4 old else push_bit 4 old OR (a AND 0x0F));
            newa = (if y = 4 then (a AND 0xF0) OR (old AND 0x0F) else (a AND 0xF0) OR drop_bit 4 old);
            z1 = set_a newa z; z2 = set_f ((zf z1 AND CF) OR sz53p newa) z1
        in req_write (z_hl z2) newhl (set_wz (z_hl z2 + 1) z2))
     else finish z)"

definition ed_ir :: "u8 \<Rightarrow> z80_state \<Rightarrow> z80_state" where
  "ed_ir y z =
    (if z_step z = 0 then req_internal 1 z
     else finish (if y = 0 then z\<lparr>z_i := za z\<rparr> else if y = 1 then z\<lparr>z_r := za z\<rparr>
                  else if y = 2 then ld_a_ir (z_i z) z else ld_a_ir (z_r z) z))"

definition micro_ed_x1 :: "u8 \<Rightarrow> u8 \<Rightarrow> z80_state \<Rightarrow> z80_state" where
  "micro_ed_x1 y zz z =
    (if zz = 0 then ed_in y z
     else if zz = 1 then ed_out y z
     else if zz = 2 then ed_arith16 y z
     else if zz = 3 then ed_ld_nn y z
     else if zz = 4 then finish (neg z)
     else if zz = 5 then ed_retn z
     else if zz = 6 then finish (z\<lparr>z_im := kImTable y\<rparr>)
     else if y < 4 then ed_ir y z
     else if y = 4 \<or> y = 5 then ed_rxd y z
     else undecoded z)"

definition micro_ed :: "z80_state \<Rightarrow> z80_state" where
  "micro_ed z =
    (let x = op_x (z_opcode z); y = op_y (z_opcode z); zz = op_z (z_opcode z) in
     if x = 1 then micro_ed_x1 y zz z
     else if x = 2 \<and> zz < 4 \<and> y \<ge> 4 then
       (let inc = (y = 4 \<or> y = 6); repeat = (y \<ge> 6) in
        if zz = 0 then block_ld inc repeat z
        else if zz = 1 then block_cp inc repeat z
        else if zz = 2 then block_in inc repeat z
        else block_out inc repeat z)
     else undecoded z)"

subsection \<open>Index-register memory operands\<close>

definition idx_uses_mem :: "z80_state \<Rightarrow> bool" where
  "idx_uses_mem z =
    (let x = op_x (z_opcode z); y = op_y (z_opcode z); zz = op_z (z_opcode z) in
     if x = 1 then (zz = 6) \<noteq> (y = 6)
     else if x = 2 then zz = 6
     else if x = 0 \<and> (zz = 4 \<or> zz = 5 \<or> zz = 6) then y = 6
     else False)"

definition set_ea :: "z80_state \<Rightarrow> z80_state" where
  "set_ea z = (let a = idx_hl z + scast (z_tmp z) in z\<lparr>z_mem_addr := a, z_wz := a\<rparr>)"

definition inc_dec :: "bool \<Rightarrow> u8 \<Rightarrow> z80_state \<Rightarrow> u8 \<times> z80_state" where
  "inc_dec inc v z = (if inc then inc8 v z else dec8 v z)"

definition index_ld_n :: "z80_state \<Rightarrow> z80_state" where
  "index_ld_n z =
    (if z_step z = 0 then req_pc z
     else if z_step z = 1 then req_pc (set_ea z)
     else if z_step z = 2 then req_internal 2 (latch_lo z)
     else if z_step z = 3 then req_write (z_mem_addr z) (z_tmpl z) z
     else finish z)"

definition micro_index :: "z80_state \<Rightarrow> z80_state" where
  "micro_index z =
    (let x = op_x (z_opcode z); y = op_y (z_opcode z); zz = op_z (z_opcode z) in
     if x = 0 \<and> zz = 6 \<and> y = 6 then index_ld_n z
     else if z_step z = 0 then req_pc z
     else if z_step z = 1 then req_internal 5 (set_ea z)
     else if x = 1 then
       (if zz = 6 then (if z_step z = 2 then req_read (z_mem_addr z) z else finish (set_r_real y (z_tmp z) z))
        else if z_step z = 2 then req_write (z_mem_addr z) (get_r_real zz z) z else finish z)
     else if x = 2 then (if z_step z = 2 then req_read (z_mem_addr z) z else finish (alu y (z_tmp z) z))
     else if z_step z = 2 then req_read (z_mem_addr z) z
     else if z_step z = 3 then req_internal 1 z
     else if z_step z = 4 then
       (case inc_dec (zz = 4) (z_tmp z) z of (r, z1) \<Rightarrow> req_write (z_mem_addr z1) r z1)
     else finish z)"

text \<open>The result of a CB operation other than BIT: a shift, RES or SET.\<close>

definition cb_result :: "u8 \<Rightarrow> u8 \<Rightarrow> u8 \<Rightarrow> z80_state \<Rightarrow> u8 \<times> z80_state" where
  "cb_result x y val z =
    (if x = 0 then cb_shift y val z
     else if x = 2 then (val AND NOT (bit_mask y), z)
     else (val OR bit_mask y, z))"

definition micro_ddcb :: "z80_state \<Rightarrow> z80_state" where
  "micro_ddcb z =
    (if z_step z = 0 then req_pc z
     else if z_step z = 1 then req_pc (set_ea z)
     else if z_step z = 2 then req_internal 3 (latch_lo z)
     else if z_step z = 3 then req_read (z_mem_addr z) z
     else if z_step z = 4 then
       (let cbx = op_x (z_tmpl z); cby = op_y (z_tmpl z); cbz = op_z (z_tmpl z) in
        if cbx = 1 then finish (cb_bit cby (z_tmp z) (hi (z_mem_addr z)) z)
        else (case cb_result cbx cby (z_tmp z) z of (res, z1) \<Rightarrow>
                let z2 = (if cbz \<noteq> 6 then set_r_real cbz res z1 else z1) in req_write (z_mem_addr z2) res z2))
     else finish z)"

definition micro_cb :: "z80_state \<Rightarrow> z80_state" where
  "micro_cb z =
    (let x = op_x (z_opcode z); y = op_y (z_opcode z); zz = op_z (z_opcode z) in
     if zz \<noteq> 6 then
       (let val = get_r zz z in
        finish (if x = 1 then cb_bit y val val z
                else (case cb_result x y val z of (res, z1) \<Rightarrow> set_r zz res z1)))
     else if z_step z = 0 then req_read (z_hl z) z
     else if z_step z = 1 then req_internal 1 z
     else if z_step z = 2 then
       (if x = 1 then finish (cb_bit y (z_tmp z) (hi (z_wz z)) z)
        else (case cb_result x y (z_tmp z) z of (res, z1) \<Rightarrow> req_write (z_hl z1) res z1))
     else finish z)"

subsection \<open>The unprefixed page\<close>

definition x3_ret_cc :: "u8 \<Rightarrow> z80_state \<Rightarrow> z80_state" where
  "x3_ret_cc y z =
    (if z_step z = 0 then req_internal 1 z
     else if z_step z = 1 then (if \<not> cond y z then finish z else req_pop z)
     else if z_step z = 2 then req_pop (latch_lo z)
     else finish (jump (assemble16 z) z))"

definition exx :: "z80_state \<Rightarrow> z80_state" where
  "exx z = z\<lparr>z_bc := z_bc2 z, z_de := z_de2 z, z_hl := z_hl2 z, z_bc2 := z_bc z, z_de2 := z_de z, z_hl2 := z_hl z\<rparr>"

definition x3_pop :: "u8 \<Rightarrow> z80_state \<Rightarrow> z80_state" where
  "x3_pop y z =
    (if y_q y = 0 then
       (if z_step z = 0 then req_pop z
        else if z_step z = 1 then req_pop (latch_lo z)
        else finish (set_rp2 (y_p y) (assemble16 z) z))
     else if y_p y = 0 then
       (if z_step z = 0 then req_pop z
        else if z_step z = 1 then req_pop (latch_lo z)
        else finish (jump (assemble16 z) z))
     else if y_p y = 1 then finish (exx z)
     else if y_p y = 2 then finish (z\<lparr>z_pc := idx_hl z\<rparr>)
     else if z_step z = 0 then req_internal 2 z
     else finish (z\<lparr>z_sp := idx_hl z\<rparr>))"

definition x3_jp_cc :: "u8 \<Rightarrow> z80_state \<Rightarrow> z80_state" where
  "x3_jp_cc y z =
    (if z_step z = 0 then req_pc z
     else if z_step z = 1 then req_pc (latch_lo z)
     else (let z1 = set_wz (assemble16 z) z in finish (if cond y z1 then z1\<lparr>z_pc := z_wz z1\<rparr> else z1)))"

definition x3_out_n :: "z80_state \<Rightarrow> z80_state" where
  "x3_out_n z =
    (if z_step z = 0 then req_pc z
     else if z_step z = 1 then
       (let port = push_bit 8 (ucast (za z)) OR ucast (z_tmp z)
        in req_io_write port (za z) (set_wz (set_hi (set_lo (z_wz z) (z_tmp z + 1)) (za z)) z))
     else finish z)"

definition x3_in_n :: "z80_state \<Rightarrow> z80_state" where
  "x3_in_n z =
    (if z_step z = 0 then req_pc z
     else if z_step z = 1 then
       (let port = push_bit 8 (ucast (za z)) OR ucast (z_tmp z) in req_io_read port (set_wz (port + 1) z))
     else finish (set_a (z_tmp z) z))"

definition x3_ex_sp :: "z80_state \<Rightarrow> z80_state" where
  "x3_ex_sp z =
    (if z_step z = 0 then req_read (z_sp z) z
     else if z_step z = 1 then req_read (z_sp z + 1) (latch_lo z)
     else if z_step z = 2 then req_internal 1 z
     else if z_step z = 3 then req_write (z_sp z + 1) (idx_h z) z
     else if z_step z = 4 then req_write (z_sp z) (idx_l z) z
     else if z_step z = 5 then
       (let z1 = set_idx_h (z_tmp z) (set_idx_l (z_tmpl z) z) in req_internal 2 (set_wz (idx_hl z1) z1))
     else finish z)"

definition x3_misc :: "u8 \<Rightarrow> z80_state \<Rightarrow> z80_state" where
  "x3_misc y z =
    (if y = 0 then
       (if z_step z = 0 then req_pc z
        else if z_step z = 1 then req_pc (latch_lo z)
        else finish (jump (assemble16 z) z))
     else if y = 2 then x3_out_n z
     else if y = 3 then x3_in_n z
     else if y = 4 then x3_ex_sp z
     else if y = 5 then finish (z\<lparr>z_de := z_hl z, z_hl := z_de z\<rparr>)
     else if y = 6 then finish (z\<lparr>z_iff1 := 0, z_iff2 := 0\<rparr>)
     else if y = 7 then finish (z\<lparr>z_iff1 := 1, z_iff2 := 1, z_ei_delay := True\<rparr>)
     else undecoded z)"

definition call_tail :: "z80_state \<Rightarrow> z80_state" where
  "call_tail z =
    (if z_step z = 3 then req_push (hi (z_pc z)) z
     else if z_step z = 4 then req_push (lo (z_pc z)) z
     else finish (z\<lparr>z_pc := z_wz z\<rparr>))"

definition x3_call_cc :: "u8 \<Rightarrow> z80_state \<Rightarrow> z80_state" where
  "x3_call_cc y z =
    (if z_step z = 0 then req_pc z
     else if z_step z = 1 then req_pc (latch_lo z)
     else if z_step z = 2 then
       (let z1 = set_wz (assemble16 z) z in if \<not> cond y z1 then finish z1 else req_internal 1 z1)
     else call_tail z)"

definition x3_push_call :: "u8 \<Rightarrow> z80_state \<Rightarrow> z80_state" where
  "x3_push_call y z =
    (if y_q y = 0 then
       (if z_step z = 0 then req_internal 1 z
        else if z_step z = 1 then req_push (hi (get_rp2 (y_p y) z)) z
        else if z_step z = 2 then req_push (lo (get_rp2 (y_p y) z)) z
        else finish z)
     else if y_p y = 0 then
       (if z_step z = 0 then req_pc z
        else if z_step z = 1 then req_pc (latch_lo z)
        else if z_step z = 2 then req_internal 1 (set_wz (assemble16 z) z)
        else call_tail z)
     else undecoded z)"

definition x3_rst :: "u8 \<Rightarrow> z80_state \<Rightarrow> z80_state" where
  "x3_rst y z =
    (if z_step z = 0 then req_internal 1 z
     else if z_step z = 1 then req_push (hi (z_pc z)) z
     else if z_step z = 2 then req_push (lo (z_pc z)) z
     else finish (jump (ucast y * 8) z))"

definition micro_x3 :: "u8 \<Rightarrow> u8 \<Rightarrow> z80_state \<Rightarrow> z80_state" where
  "micro_x3 y zz z =
    (if zz = 0 then x3_ret_cc y z
     else if zz = 1 then x3_pop y z
     else if zz = 2 then x3_jp_cc y z
     else if zz = 3 then x3_misc y z
     else if zz = 4 then x3_call_cc y z
     else if zz = 5 then x3_push_call y z
     else if zz = 6 then (if z_step z = 0 then req_pc z else finish (alu y (z_tmp z) z))
     else x3_rst y z)"

definition micro_x1 :: "u8 \<Rightarrow> u8 \<Rightarrow> z80_state \<Rightarrow> z80_state" where
  "micro_x1 y zz z =
    (if y = 6 \<and> zz = 6 then finish (z\<lparr>z_halted := True, z_pc := z_pc z - 1\<rparr>)
     else if zz = 6 then (if z_step z = 0 then req_read (z_hl z) z else finish (set_r y (z_tmp z) z))
     else if y = 6 then (if z_step z = 0 then req_write (z_hl z) (get_r zz z) z else finish z)
     else finish (set_r y (get_r zz z) z))"

definition x0_rel :: "u8 \<Rightarrow> z80_state \<Rightarrow> z80_state" where
  "x0_rel y z =
    (if y = 0 then finish z
     else if y = 1 then finish (z\<lparr>z_af := z_af2 z, z_af2 := z_af z\<rparr>)
     else if y = 2 then
       (if z_step z = 0 then req_internal 1 z
        else if z_step z = 1 then req_pc z
        else if z_step z = 2 then
          (let z1 = z\<lparr>z_bc := set_hi (z_bc z) (hi (z_bc z) - 1)\<rparr>
           in if hi (z_bc z1) = 0 then finish z1 else req_internal 5 z1)
        else finish (jump (z_pc z + scast (z_tmp z)) z))
     else if z_step z = 0 then req_pc z
     else if z_step z = 1 then (if \<not> (y = 3 \<or> cond (y - 4) z) then finish z else req_internal 5 z)
     else finish (jump (z_pc z + scast (z_tmp z)) z))"

definition x0_ld_add16 :: "u8 \<Rightarrow> z80_state \<Rightarrow> z80_state" where
  "x0_ld_add16 y z =
    (if y_q y = 0 then
       (if z_step z = 0 then req_pc z
        else if z_step z = 1 then req_pc (latch_lo z)
        else finish (set_rp (y_p y) (assemble16 z) z))
     else if z_step z = 0 then req_internal 7 z
     else finish (add16 (get_rp (y_p y) z) z))"

definition x0_ld_rp :: "u8 \<Rightarrow> z80_state \<Rightarrow> z80_state" where
  "x0_ld_rp y z =
    (let rp = (if y_p y = 0 then z_bc z else z_de z) in
     if y_q y = 1 then
       (if z_step z = 0 then req_read rp z else finish (set_wz (rp + 1) (set_a (z_tmp z) z)))
     else if z_step z = 0 then req_write rp (za z) z
     else finish (set_wz (set_lo (set_hi (z_wz z) (za z)) (lo rp + 1)) z))"

definition x0_ld_nn_op :: "u8 \<Rightarrow> z80_state \<Rightarrow> z80_state" where
  "x0_ld_nn_op y z =
    (if y_p y = 2 \<and> y_q y = 0 then
       (if z_step z = 2 then set_wz (z_wz z + 1) (req_write (z_wz z) (idx_l z) z)
        else if z_step z = 3 then req_write (z_wz z) (idx_h z) z
        else finish z)
     else if y_p y = 2 \<and> y_q y = 1 then
       (if z_step z = 2 then set_wz (z_wz z + 1) (req_read (z_wz z) z)
        else if z_step z = 3 then req_read (z_wz z) (set_idx_l (z_tmp z) z)
        else finish (set_idx_h (z_tmp z) z))
     else if y_p y = 3 \<and> y_q y = 0 then
       (if z_step z = 2 then set_wz (set_hi (set_lo (z_wz z) (lo (z_wz z) + 1)) (za z)) (req_write (z_wz z) (za z) z)
        else finish z)
     else if z_step z = 2 then set_wz (z_wz z + 1) (req_read (z_wz z) z)
     else finish (set_a (z_tmp z) z))"

definition x0_ld_mem :: "u8 \<Rightarrow> z80_state \<Rightarrow> z80_state" where
  "x0_ld_mem y z =
    (if y_p y < 2 then x0_ld_rp y z
     else if z_step z = 0 then req_pc z
     else if z_step z = 1 then req_pc (latch_lo z)
     else x0_ld_nn_op y (if z_step z = 2 then set_wz (assemble16 z) z else z))"

definition x0_inc_dec16 :: "u8 \<Rightarrow> z80_state \<Rightarrow> z80_state" where
  "x0_inc_dec16 y z =
    (if z_step z = 0 then req_internal 2 z
     else (let v = get_rp (y_p y) z in finish (set_rp (y_p y) (if y_q y \<noteq> 0 then v - 1 else v + 1) z)))"

definition x0_inc_dec8 :: "bool \<Rightarrow> u8 \<Rightarrow> z80_state \<Rightarrow> z80_state" where
  "x0_inc_dec8 inc y z =
    (if y = 6 then
       (if z_step z = 0 then req_read (z_hl z) z
        else if z_step z = 1 then req_internal 1 z
        else if z_step z = 2 then
          (case inc_dec inc (z_tmp z) z of (r, z1) \<Rightarrow> req_write (z_hl z1) r z1)
        else finish z)
     else (case inc_dec inc (get_r y z) z of (r, z1) \<Rightarrow> finish (set_r y r z1)))"

definition x0_ld_n :: "u8 \<Rightarrow> z80_state \<Rightarrow> z80_state" where
  "x0_ld_n y z =
    (if z_step z = 0 then req_pc z
     else if y = 6 then (if z_step z = 1 then req_write (z_hl z) (z_tmp z) z else finish z)
     else finish (set_r y (z_tmp z) z))"

definition x0_acc :: "u8 \<Rightarrow> z80_state \<Rightarrow> z80_state" where
  "x0_acc y z =
    finish (if y = 0 then acc_rot 0 z else if y = 1 then acc_rot 1 z else if y = 2 then acc_rot 2 z
      else if y = 3 then acc_rot 3 z else if y = 4 then daa z else if y = 5 then cpl z
      else if y = 6 then scf z else ccf z)"

definition micro_x0 :: "u8 \<Rightarrow> u8 \<Rightarrow> z80_state \<Rightarrow> z80_state" where
  "micro_x0 y zz z =
    (if zz = 0 then x0_rel y z
     else if zz = 1 then x0_ld_add16 y z
     else if zz = 2 then x0_ld_mem y z
     else if zz = 3 then x0_inc_dec16 y z
     else if zz = 4 then x0_inc_dec8 True y z
     else if zz = 5 then x0_inc_dec8 False y z
     else if zz = 6 then x0_ld_n y z
     else x0_acc y z)"

definition micro :: "z80_state \<Rightarrow> z80_state" where
  "micro z =
    (let x = op_x (z_opcode z); y = op_y (z_opcode z); zz = op_z (z_opcode z) in
     if x = 0 then micro_x0 y zz z
     else if x = 1 then micro_x1 y zz z
     else if x = 2 then
       (if zz = 6 then (if z_step z = 0 then req_read (z_hl z) z else finish (alu y (z_tmp z) z))
        else finish (alu y (get_r zz z) z))
     else micro_x3 y zz z)"

definition run_micro :: "z80_state \<Rightarrow> z80_state" where
  "run_micro z =
    (if z_servicing z \<noteq> Svc_NONE then micro_interrupt z
     else if z_prefix z = 0xCB then micro_cb z
     else if z_prefix z = 0xED then micro_ed z
     else if z_index z \<noteq> Idx_HL \<and> z_opcode z = 0xCB then micro_ddcb z
     else if z_index z \<noteq> Idx_HL \<and> idx_uses_mem z then micro_index z
     else micro z)"

end
