(* ===== verification/Z80_Frames.thy ===== *)
theory Z80_Frames
  imports Z80_Micro
begin

text \<open>
  What the step machine of the Z80 does not read. \<open>dirty\<close> overwrites the fields that belong to the
  per-cycle engine alone: the held bus, the NMI edge detector, the T-state counter of the current cycle and
  the address scratch. Register operations commute with it; a step of the step machine gives the same state
  from a dirty one as from a clean one, up to what \<open>view\<close> forgets. Both engines may therefore run the
  same step machine around different bookkeeping.
\<close>

definition dirty :: "CpuBus \<Rightarrow> bool \<Rightarrow> bool \<Rightarrow> nat \<Rightarrow> u16 \<Rightarrow> z80_state \<Rightarrow> z80_state" where
  "dirty h v p x ad z = z\<lparr>z_held := h, z_held_valid := v, z_nmi_prev := p, z_t := x, z_mc_addr := ad\<rparr>"

definition addressed :: "MC \<Rightarrow> bool" where
  "addressed m = (m = MC_READ \<or> m = MC_WRITE \<or> m = MC_IO)"

definition view :: "z80_state \<Rightarrow> z80_state" where
  "view z = z\<lparr>z_held := CpuBus_zero, z_held_valid := False, z_nmi_prev := False,
     z_mc_addr := (if addressed (z_mc z) then z_mc_addr z else 0)\<rparr>"

lemma dirty_sel [simp]:
  "z_af (dirty h v p x ad z) = z_af z"
  "z_bc (dirty h v p x ad z) = z_bc z"
  "z_de (dirty h v p x ad z) = z_de z"
  "z_hl (dirty h v p x ad z) = z_hl z"
  "z_af2 (dirty h v p x ad z) = z_af2 z"
  "z_bc2 (dirty h v p x ad z) = z_bc2 z"
  "z_de2 (dirty h v p x ad z) = z_de2 z"
  "z_hl2 (dirty h v p x ad z) = z_hl2 z"
  "z_ix (dirty h v p x ad z) = z_ix z"
  "z_iy (dirty h v p x ad z) = z_iy z"
  "z_sp (dirty h v p x ad z) = z_sp z"
  "z_pc (dirty h v p x ad z) = z_pc z"
  "z_wz (dirty h v p x ad z) = z_wz z"
  "z_i (dirty h v p x ad z) = z_i z"
  "z_r (dirty h v p x ad z) = z_r z"
  "z_iff1 (dirty h v p x ad z) = z_iff1 z"
  "z_iff2 (dirty h v p x ad z) = z_iff2 z"
  "z_im (dirty h v p x ad z) = z_im z"
  "z_q (dirty h v p x ad z) = z_q z"
  "z_qq (dirty h v p x ad z) = z_qq z"
  "z_halted (dirty h v p x ad z) = z_halted z"
  "z_mc (dirty h v p x ad z) = z_mc z"
  "z_mc_wval (dirty h v p x ad z) = z_mc_wval z"
  "z_mc_io_read (dirty h v p x ad z) = z_mc_io_read z"
  "z_mc_ilen (dirty h v p x ad z) = z_mc_ilen z"
  "z_nmi_pending (dirty h v p x ad z) = z_nmi_pending z"
  "z_ei_delay (dirty h v p x ad z) = z_ei_delay z"
  "z_servicing (dirty h v p x ad z) = z_servicing z"
  "z_int_vec (dirty h v p x ad z) = z_int_vec z"
  "z_step (dirty h v p x ad z) = z_step z"
  "z_prefix (dirty h v p x ad z) = z_prefix z"
  "z_index (dirty h v p x ad z) = z_index z"
  "z_mem_addr (dirty h v p x ad z) = z_mem_addr z"
  "z_opcode (dirty h v p x ad z) = z_opcode z"
  "z_tmp (dirty h v p x ad z) = z_tmp z"
  "z_tmpl (dirty h v p x ad z) = z_tmpl z"
  "z_halt_t (dirty h v p x ad z) = z_halt_t z"
  "z_unimplemented (dirty h v p x ad z) = z_unimplemented z"
  "z_tstates (dirty h v p x ad z) = z_tstates z"
  "z_instr_count (dirty h v p x ad z) = z_instr_count z"
  by (simp_all add: dirty_def)

lemma dirty_own [simp]:
  "z_held (dirty h v p x ad z) = h" "z_held_valid (dirty h v p x ad z) = v" "z_nmi_prev (dirty h v p x ad z) = p" "z_t (dirty h v p x ad z) = x" "z_mc_addr (dirty h v p x ad z) = ad"
  by (simp_all add: dirty_def)

lemma dirty_upd [simp]:
  "(dirty h v p x ad z)\<lparr>z_af := w0\<rparr> = dirty h v p x ad (z\<lparr>z_af := w0\<rparr>)"
  "(dirty h v p x ad z)\<lparr>z_bc := w1\<rparr> = dirty h v p x ad (z\<lparr>z_bc := w1\<rparr>)"
  "(dirty h v p x ad z)\<lparr>z_de := w2\<rparr> = dirty h v p x ad (z\<lparr>z_de := w2\<rparr>)"
  "(dirty h v p x ad z)\<lparr>z_hl := w3\<rparr> = dirty h v p x ad (z\<lparr>z_hl := w3\<rparr>)"
  "(dirty h v p x ad z)\<lparr>z_af2 := w4\<rparr> = dirty h v p x ad (z\<lparr>z_af2 := w4\<rparr>)"
  "(dirty h v p x ad z)\<lparr>z_bc2 := w5\<rparr> = dirty h v p x ad (z\<lparr>z_bc2 := w5\<rparr>)"
  "(dirty h v p x ad z)\<lparr>z_de2 := w6\<rparr> = dirty h v p x ad (z\<lparr>z_de2 := w6\<rparr>)"
  "(dirty h v p x ad z)\<lparr>z_hl2 := w7\<rparr> = dirty h v p x ad (z\<lparr>z_hl2 := w7\<rparr>)"
  "(dirty h v p x ad z)\<lparr>z_ix := w8\<rparr> = dirty h v p x ad (z\<lparr>z_ix := w8\<rparr>)"
  "(dirty h v p x ad z)\<lparr>z_iy := w9\<rparr> = dirty h v p x ad (z\<lparr>z_iy := w9\<rparr>)"
  "(dirty h v p x ad z)\<lparr>z_sp := w10\<rparr> = dirty h v p x ad (z\<lparr>z_sp := w10\<rparr>)"
  "(dirty h v p x ad z)\<lparr>z_pc := w11\<rparr> = dirty h v p x ad (z\<lparr>z_pc := w11\<rparr>)"
  "(dirty h v p x ad z)\<lparr>z_wz := w12\<rparr> = dirty h v p x ad (z\<lparr>z_wz := w12\<rparr>)"
  "(dirty h v p x ad z)\<lparr>z_i := w13\<rparr> = dirty h v p x ad (z\<lparr>z_i := w13\<rparr>)"
  "(dirty h v p x ad z)\<lparr>z_r := w14\<rparr> = dirty h v p x ad (z\<lparr>z_r := w14\<rparr>)"
  "(dirty h v p x ad z)\<lparr>z_iff1 := w15\<rparr> = dirty h v p x ad (z\<lparr>z_iff1 := w15\<rparr>)"
  "(dirty h v p x ad z)\<lparr>z_iff2 := w16\<rparr> = dirty h v p x ad (z\<lparr>z_iff2 := w16\<rparr>)"
  "(dirty h v p x ad z)\<lparr>z_im := w17\<rparr> = dirty h v p x ad (z\<lparr>z_im := w17\<rparr>)"
  "(dirty h v p x ad z)\<lparr>z_q := w18\<rparr> = dirty h v p x ad (z\<lparr>z_q := w18\<rparr>)"
  "(dirty h v p x ad z)\<lparr>z_qq := w19\<rparr> = dirty h v p x ad (z\<lparr>z_qq := w19\<rparr>)"
  "(dirty h v p x ad z)\<lparr>z_halted := w20\<rparr> = dirty h v p x ad (z\<lparr>z_halted := w20\<rparr>)"
  "(dirty h v p x ad z)\<lparr>z_mc := w21\<rparr> = dirty h v p x ad (z\<lparr>z_mc := w21\<rparr>)"
  "(dirty h v p x ad z)\<lparr>z_mc_wval := w22\<rparr> = dirty h v p x ad (z\<lparr>z_mc_wval := w22\<rparr>)"
  "(dirty h v p x ad z)\<lparr>z_mc_io_read := w23\<rparr> = dirty h v p x ad (z\<lparr>z_mc_io_read := w23\<rparr>)"
  "(dirty h v p x ad z)\<lparr>z_mc_ilen := w24\<rparr> = dirty h v p x ad (z\<lparr>z_mc_ilen := w24\<rparr>)"
  "(dirty h v p x ad z)\<lparr>z_nmi_pending := w25\<rparr> = dirty h v p x ad (z\<lparr>z_nmi_pending := w25\<rparr>)"
  "(dirty h v p x ad z)\<lparr>z_ei_delay := w26\<rparr> = dirty h v p x ad (z\<lparr>z_ei_delay := w26\<rparr>)"
  "(dirty h v p x ad z)\<lparr>z_servicing := w27\<rparr> = dirty h v p x ad (z\<lparr>z_servicing := w27\<rparr>)"
  "(dirty h v p x ad z)\<lparr>z_int_vec := w28\<rparr> = dirty h v p x ad (z\<lparr>z_int_vec := w28\<rparr>)"
  "(dirty h v p x ad z)\<lparr>z_step := w29\<rparr> = dirty h v p x ad (z\<lparr>z_step := w29\<rparr>)"
  "(dirty h v p x ad z)\<lparr>z_prefix := w30\<rparr> = dirty h v p x ad (z\<lparr>z_prefix := w30\<rparr>)"
  "(dirty h v p x ad z)\<lparr>z_index := w31\<rparr> = dirty h v p x ad (z\<lparr>z_index := w31\<rparr>)"
  "(dirty h v p x ad z)\<lparr>z_mem_addr := w32\<rparr> = dirty h v p x ad (z\<lparr>z_mem_addr := w32\<rparr>)"
  "(dirty h v p x ad z)\<lparr>z_opcode := w33\<rparr> = dirty h v p x ad (z\<lparr>z_opcode := w33\<rparr>)"
  "(dirty h v p x ad z)\<lparr>z_tmp := w34\<rparr> = dirty h v p x ad (z\<lparr>z_tmp := w34\<rparr>)"
  "(dirty h v p x ad z)\<lparr>z_tmpl := w35\<rparr> = dirty h v p x ad (z\<lparr>z_tmpl := w35\<rparr>)"
  "(dirty h v p x ad z)\<lparr>z_halt_t := w36\<rparr> = dirty h v p x ad (z\<lparr>z_halt_t := w36\<rparr>)"
  "(dirty h v p x ad z)\<lparr>z_unimplemented := w37\<rparr> = dirty h v p x ad (z\<lparr>z_unimplemented := w37\<rparr>)"
  "(dirty h v p x ad z)\<lparr>z_tstates := w38\<rparr> = dirty h v p x ad (z\<lparr>z_tstates := w38\<rparr>)"
  "(dirty h v p x ad z)\<lparr>z_instr_count := w39\<rparr> = dirty h v p x ad (z\<lparr>z_instr_count := w39\<rparr>)"
  by (simp_all add: dirty_def)

lemma dirty_own_upd [simp]:
  "(dirty h v p x ad z)\<lparr>z_held := h'\<rparr> = dirty h' v p x ad z"
  "(dirty h v p x ad z)\<lparr>z_held_valid := v'\<rparr> = dirty h v' p x ad z"
  "(dirty h v p x ad z)\<lparr>z_nmi_prev := p'\<rparr> = dirty h v p' x ad z"
  "(dirty h v p x ad z)\<lparr>z_t := x'\<rparr> = dirty h v p x' ad z"
  "(dirty h v p x ad z)\<lparr>z_mc_addr := ad'\<rparr> = dirty h v p x ad' z"
  by (simp_all add: dirty_def)

subsection \<open>Register operations\<close>

lemma dirty_za [simp]:
  "za (dirty h v p x ad z) = za z"
  by (simp add: za_def Let_def cong: if_cong split del: if_split)

lemma dirty_zf [simp]:
  "zf (dirty h v p x ad z) = zf z"
  by (simp add: zf_def Let_def cong: if_cong split del: if_split)

lemma dirty_set_a [simp]:
  "set_a a (dirty h v p x ad z) = dirty h v p x ad (set_a a z)"
  by (simp add: set_a_def Let_def split_beta if_distrib [of \<open>dirty h v p x ad\<close>] cong: if_cong split del: if_split)

lemma dirty_set_f [simp]:
  "set_f a (dirty h v p x ad z) = dirty h v p x ad (set_f a z)"
  by (simp add: set_f_def Let_def split_beta if_distrib [of \<open>dirty h v p x ad\<close>] cong: if_cong split del: if_split)

lemma dirty_idx_hl [simp]:
  "idx_hl (dirty h v p x ad z) = idx_hl z"
  by (simp add: idx_hl_def Let_def cong: if_cong split del: if_split split: IndexReg.split)

lemma dirty_set_idx_hl [simp]:
  "set_idx_hl a (dirty h v p x ad z) = dirty h v p x ad (set_idx_hl a z)"
  by (simp add: set_idx_hl_def Let_def split_beta if_distrib [of \<open>dirty h v p x ad\<close>] cong: if_cong split del: if_split split: IndexReg.split)

lemma dirty_idx_h [simp]:
  "idx_h (dirty h v p x ad z) = idx_h z"
  by (simp add: idx_h_def Let_def cong: if_cong split del: if_split)

lemma dirty_idx_l [simp]:
  "idx_l (dirty h v p x ad z) = idx_l z"
  by (simp add: idx_l_def Let_def cong: if_cong split del: if_split)

lemma dirty_set_idx_h [simp]:
  "set_idx_h a (dirty h v p x ad z) = dirty h v p x ad (set_idx_h a z)"
  by (simp add: set_idx_h_def Let_def split_beta if_distrib [of \<open>dirty h v p x ad\<close>] cong: if_cong split del: if_split)

lemma dirty_set_idx_l [simp]:
  "set_idx_l a (dirty h v p x ad z) = dirty h v p x ad (set_idx_l a z)"
  by (simp add: set_idx_l_def Let_def split_beta if_distrib [of \<open>dirty h v p x ad\<close>] cong: if_cong split del: if_split)

lemma dirty_get_r_real [simp]:
  "get_r_real a (dirty h v p x ad z) = get_r_real a z"
  by (simp add: get_r_real_def Let_def cong: if_cong split del: if_split)

lemma dirty_set_r_real [simp]:
  "set_r_real a b (dirty h v p x ad z) = dirty h v p x ad (set_r_real a b z)"
  by (simp add: set_r_real_def Let_def split_beta if_distrib [of \<open>dirty h v p x ad\<close>] cong: if_cong split del: if_split)

lemma dirty_get_r [simp]:
  "get_r a (dirty h v p x ad z) = get_r a z"
  by (simp add: get_r_def Let_def cong: if_cong split del: if_split)

lemma dirty_set_r [simp]:
  "set_r a b (dirty h v p x ad z) = dirty h v p x ad (set_r a b z)"
  by (simp add: set_r_def Let_def split_beta if_distrib [of \<open>dirty h v p x ad\<close>] cong: if_cong split del: if_split)

lemma dirty_bump_refresh [simp]:
  "bump_refresh (dirty h v p x ad z) = dirty h v p x ad (bump_refresh z)"
  by (simp add: bump_refresh_def Let_def split_beta if_distrib [of \<open>dirty h v p x ad\<close>] cong: if_cong split del: if_split)

lemma dirty_pcinc [simp]:
  "pcinc (dirty h v p x ad z) = dirty h v p x ad (pcinc z)"
  by (simp add: pcinc_def Let_def split_beta if_distrib [of \<open>dirty h v p x ad\<close>] cong: if_cong split del: if_split)

lemma dirty_assemble16 [simp]:
  "assemble16 (dirty h v p x ad z) = assemble16 z"
  by (simp add: assemble16_def Let_def cong: if_cong split del: if_split)

lemma dirty_get_rp [simp]:
  "get_rp a (dirty h v p x ad z) = get_rp a z"
  by (simp add: get_rp_def Let_def cong: if_cong split del: if_split)

lemma dirty_set_rp [simp]:
  "set_rp a b (dirty h v p x ad z) = dirty h v p x ad (set_rp a b z)"
  by (simp add: set_rp_def Let_def split_beta if_distrib [of \<open>dirty h v p x ad\<close>] cong: if_cong split del: if_split)

lemma dirty_get_rp2 [simp]:
  "get_rp2 a (dirty h v p x ad z) = get_rp2 a z"
  by (simp add: get_rp2_def Let_def cong: if_cong split del: if_split)

lemma dirty_set_rp2 [simp]:
  "set_rp2 a b (dirty h v p x ad z) = dirty h v p x ad (set_rp2 a b z)"
  by (simp add: set_rp2_def Let_def split_beta if_distrib [of \<open>dirty h v p x ad\<close>] cong: if_cong split del: if_split)

lemma dirty_cond [simp]:
  "cond a (dirty h v p x ad z) = cond a z"
  by (simp add: cond_def Let_def cong: if_cong split del: if_split)

lemma dirty_alu_add [simp]:
  "alu_add a b (dirty h v p x ad z) = dirty h v p x ad (alu_add a b z)"
  by (simp add: alu_add_def Let_def split_beta if_distrib [of \<open>dirty h v p x ad\<close>] cong: if_cong split del: if_split)

lemma dirty_alu_sub [simp]:
  "alu_sub a b c (dirty h v p x ad z) = dirty h v p x ad (alu_sub a b c z)"
  by (simp add: alu_sub_def Let_def split_beta if_distrib [of \<open>dirty h v p x ad\<close>] cong: if_cong split del: if_split)

lemma dirty_alu [simp]:
  "alu a b (dirty h v p x ad z) = dirty h v p x ad (alu a b z)"
  by (simp add: alu_def Let_def split_beta if_distrib [of \<open>dirty h v p x ad\<close>] cong: if_cong split del: if_split)

lemma dirty_inc8 [simp]:
  "inc8 a (dirty h v p x ad z) = map_prod id (dirty h v p x ad) (inc8 a z)"
  by (simp add: inc8_def Let_def split_beta if_distrib [of \<open>map_prod id (dirty h v p x ad)\<close>] cong: if_cong split del: if_split)

lemma dirty_dec8 [simp]:
  "dec8 a (dirty h v p x ad z) = map_prod id (dirty h v p x ad) (dec8 a z)"
  by (simp add: dec8_def Let_def split_beta if_distrib [of \<open>map_prod id (dirty h v p x ad)\<close>] cong: if_cong split del: if_split)

lemma dirty_acc_rot [simp]:
  "acc_rot a (dirty h v p x ad z) = dirty h v p x ad (acc_rot a z)"
  by (simp add: acc_rot_def Let_def split_beta if_distrib [of \<open>dirty h v p x ad\<close>] cong: if_cong split del: if_split)

lemma dirty_daa [simp]:
  "daa (dirty h v p x ad z) = dirty h v p x ad (daa z)"
  by (simp add: daa_def Let_def split_beta if_distrib [of \<open>dirty h v p x ad\<close>] cong: if_cong split del: if_split)

lemma dirty_cpl [simp]:
  "cpl (dirty h v p x ad z) = dirty h v p x ad (cpl z)"
  by (simp add: cpl_def Let_def split_beta if_distrib [of \<open>dirty h v p x ad\<close>] cong: if_cong split del: if_split)

lemma dirty_scf_ccf_xy [simp]:
  "scf_ccf_xy (dirty h v p x ad z) = scf_ccf_xy z"
  by (simp add: scf_ccf_xy_def Let_def cong: if_cong split del: if_split)

lemma dirty_scf [simp]:
  "scf (dirty h v p x ad z) = dirty h v p x ad (scf z)"
  by (simp add: scf_def Let_def split_beta if_distrib [of \<open>dirty h v p x ad\<close>] cong: if_cong split del: if_split)

lemma dirty_ccf [simp]:
  "ccf (dirty h v p x ad z) = dirty h v p x ad (ccf z)"
  by (simp add: ccf_def Let_def split_beta if_distrib [of \<open>dirty h v p x ad\<close>] cong: if_cong split del: if_split)

lemma dirty_add16 [simp]:
  "add16 a (dirty h v p x ad z) = dirty h v p x ad (add16 a z)"
  by (simp add: add16_def Let_def split_beta if_distrib [of \<open>dirty h v p x ad\<close>] cong: if_cong split del: if_split)

lemma dirty_adc16 [simp]:
  "adc16 a (dirty h v p x ad z) = dirty h v p x ad (adc16 a z)"
  by (simp add: adc16_def Let_def split_beta if_distrib [of \<open>dirty h v p x ad\<close>] cong: if_cong split del: if_split)

lemma dirty_sbc16 [simp]:
  "sbc16 a (dirty h v p x ad z) = dirty h v p x ad (sbc16 a z)"
  by (simp add: sbc16_def Let_def split_beta if_distrib [of \<open>dirty h v p x ad\<close>] cong: if_cong split del: if_split)

lemma dirty_neg [simp]:
  "neg (dirty h v p x ad z) = dirty h v p x ad (neg z)"
  by (simp add: neg_def Let_def split_beta if_distrib [of \<open>dirty h v p x ad\<close>] cong: if_cong split del: if_split)

lemma dirty_ld_a_ir [simp]:
  "ld_a_ir a (dirty h v p x ad z) = dirty h v p x ad (ld_a_ir a z)"
  by (simp add: ld_a_ir_def Let_def split_beta if_distrib [of \<open>dirty h v p x ad\<close>] cong: if_cong split del: if_split)

lemma dirty_cb_shift [simp]:
  "cb_shift a b (dirty h v p x ad z) = map_prod id (dirty h v p x ad) (cb_shift a b z)"
  by (simp add: cb_shift_def Let_def split_beta if_distrib [of \<open>map_prod id (dirty h v p x ad)\<close>] cong: if_cong split del: if_split)

lemma dirty_cb_bit [simp]:
  "cb_bit a b c (dirty h v p x ad z) = dirty h v p x ad (cb_bit a b c z)"
  by (simp add: cb_bit_def Let_def split_beta if_distrib [of \<open>dirty h v p x ad\<close>] cong: if_cong split del: if_split)

lemma dirty_latch_lo [simp]:
  "latch_lo (dirty h v p x ad z) = dirty h v p x ad (latch_lo z)"
  by (simp add: latch_lo_def Let_def split_beta if_distrib [of \<open>dirty h v p x ad\<close>] cong: if_cong split del: if_split)

lemma dirty_set_wz [simp]:
  "set_wz a (dirty h v p x ad z) = dirty h v p x ad (set_wz a z)"
  by (simp add: set_wz_def Let_def split_beta if_distrib [of \<open>dirty h v p x ad\<close>] cong: if_cong split del: if_split)

lemma dirty_jump [simp]:
  "jump a (dirty h v p x ad z) = dirty h v p x ad (jump a z)"
  by (simp add: jump_def Let_def split_beta if_distrib [of \<open>dirty h v p x ad\<close>] cong: if_cong split del: if_split)

lemma dirty_rewind [simp]:
  "rewind (dirty h v p x ad z) = dirty h v p x ad (rewind z)"
  by (simp add: rewind_def Let_def split_beta if_distrib [of \<open>dirty h v p x ad\<close>] cong: if_cong split del: if_split)

lemma dirty_blkio_corrected_f [simp]:
  "blkio_corrected_f a b c (dirty h v p x ad z) = blkio_corrected_f a b c z"
  by (simp add: blkio_corrected_f_def Let_def cong: if_cong split del: if_split)

lemma dirty_idx_uses_mem [simp]:
  "idx_uses_mem (dirty h v p x ad z) = idx_uses_mem z"
  by (simp add: idx_uses_mem_def Let_def cong: if_cong split del: if_split)

lemma dirty_set_ea [simp]:
  "set_ea (dirty h v p x ad z) = dirty h v p x ad (set_ea z)"
  by (simp add: set_ea_def Let_def split_beta if_distrib [of \<open>dirty h v p x ad\<close>] cong: if_cong split del: if_split)

lemma dirty_inc_dec [simp]:
  "inc_dec a b (dirty h v p x ad z) = map_prod id (dirty h v p x ad) (inc_dec a b z)"
  by (simp add: inc_dec_def Let_def split_beta if_distrib [of \<open>map_prod id (dirty h v p x ad)\<close>] cong: if_cong split del: if_split)

lemma dirty_cb_result [simp]:
  "cb_result a b c (dirty h v p x ad z) = map_prod id (dirty h v p x ad) (cb_result a b c z)"
  by (simp add: cb_result_def Let_def split_beta if_distrib [of \<open>map_prod id (dirty h v p x ad)\<close>] cong: if_cong split del: if_split)

lemma dirty_exx [simp]:
  "exx (dirty h v p x ad z) = dirty h v p x ad (exx z)"
  by (simp add: exx_def Let_def split_beta if_distrib [of \<open>dirty h v p x ad\<close>] cong: if_cong split del: if_split)

subsection \<open>Steps of the step machine\<close>

lemma view_set_wz [simp]: "view (set_wz w z) = set_wz w (view z)"
  by (simp add: view_def set_wz_def)

lemmas view_ifs = if_distrib [of view] if_distrib [of \<open>dirty h v p x ad\<close> for h v p x ad, symmetric]

lemma view_req_read [simp]:
  "view (req_read a (dirty h v p x ad z)) = view (req_read a z)"
  by (simp add: req_read_def view_def addressed_def dirty_def)

lemma view_req_write [simp]:
  "view (req_write a b (dirty h v p x ad z)) = view (req_write a b z)"
  by (simp add: req_write_def view_def addressed_def dirty_def)

lemma view_req_internal [simp]:
  "view (req_internal a (dirty h v p x ad z)) = view (req_internal a z)"
  by (simp add: req_internal_def view_def addressed_def dirty_def)

lemma view_req_io_read [simp]:
  "view (req_io_read a (dirty h v p x ad z)) = view (req_io_read a z)"
  by (simp add: req_io_read_def view_def addressed_def dirty_def)

lemma view_req_io_write [simp]:
  "view (req_io_write a b (dirty h v p x ad z)) = view (req_io_write a b z)"
  by (simp add: req_io_write_def view_def addressed_def dirty_def)

lemma view_req_ioack [simp]:
  "view (req_ioack a (dirty h v p x ad z)) = view (req_ioack a z)"
  by (simp add: req_ioack_def view_def addressed_def dirty_def)

lemma view_finish [simp]:
  "view (finish (dirty h v p x ad z)) = view (finish z)"
  by (simp add: finish_def view_def addressed_def dirty_def)

lemma view_req_pc [simp]:
  "view (req_pc (dirty h v p x ad z)) = view (req_pc z)"
  by (simp add: req_pc_def pcinc_def req_read_def view_def addressed_def dirty_def)

lemma view_req_pop [simp]:
  "view (req_pop (dirty h v p x ad z)) = view (req_pop z)"
  by (simp add: req_pop_def req_read_def view_def addressed_def dirty_def)

lemma view_req_push [simp]:
  "view (req_push a (dirty h v p x ad z)) = view (req_push a z)"
  by (simp add: req_push_def)

lemma view_micro_interrupt [simp]:
  "view (micro_interrupt (dirty h v p x ad z)) = view (micro_interrupt z)"
  by (simp add: micro_interrupt_def Let_def split_beta view_ifs cong: if_cong split del: if_split)

lemma view_block_ld [simp]:
  "view (block_ld a b (dirty h v p x ad z)) = view (block_ld a b z)"
  by (simp add: block_ld_def Let_def split_beta view_ifs cong: if_cong split del: if_split)

lemma view_block_cp [simp]:
  "view (block_cp a b (dirty h v p x ad z)) = view (block_cp a b z)"
  by (simp add: block_cp_def Let_def split_beta view_ifs cong: if_cong split del: if_split)

lemma view_blkio_end [simp]:
  "view (blkio_end a b c d (dirty h v p x ad z)) = view (blkio_end a b c d z)"
  by (simp add: blkio_end_def Let_def split_beta view_ifs cong: if_cong split del: if_split)

lemma view_block_in [simp]:
  "view (block_in a b (dirty h v p x ad z)) = view (block_in a b z)"
  by (simp add: block_in_def Let_def split_beta view_ifs cong: if_cong split del: if_split)

lemma view_block_out [simp]:
  "view (block_out a b (dirty h v p x ad z)) = view (block_out a b z)"
  by (simp add: block_out_def Let_def split_beta view_ifs cong: if_cong split del: if_split)

lemma view_undecoded [simp]:
  "view (undecoded (dirty h v p x ad z)) = view (undecoded z)"
  by (simp add: undecoded_def Let_def split_beta view_ifs cong: if_cong split del: if_split)

lemma view_ed_in [simp]:
  "view (ed_in a (dirty h v p x ad z)) = view (ed_in a z)"
  by (simp add: ed_in_def Let_def split_beta view_ifs cong: if_cong split del: if_split)

lemma view_ed_out [simp]:
  "view (ed_out a (dirty h v p x ad z)) = view (ed_out a z)"
  by (simp add: ed_out_def Let_def split_beta view_ifs cong: if_cong split del: if_split)

lemma view_ed_ld_nn [simp]:
  "view (ed_ld_nn a (dirty h v p x ad z)) = view (ed_ld_nn a z)"
  by (simp add: ed_ld_nn_def Let_def split_beta view_ifs cong: if_cong split del: if_split)

lemma view_ed_arith16 [simp]:
  "view (ed_arith16 a (dirty h v p x ad z)) = view (ed_arith16 a z)"
  by (simp add: ed_arith16_def Let_def split_beta view_ifs cong: if_cong split del: if_split)

lemma view_ed_retn [simp]:
  "view (ed_retn (dirty h v p x ad z)) = view (ed_retn z)"
  by (simp add: ed_retn_def Let_def split_beta view_ifs cong: if_cong split del: if_split)

lemma view_ed_rxd [simp]:
  "view (ed_rxd a (dirty h v p x ad z)) = view (ed_rxd a z)"
  by (simp add: ed_rxd_def Let_def split_beta view_ifs cong: if_cong split del: if_split)

lemma view_ed_ir [simp]:
  "view (ed_ir a (dirty h v p x ad z)) = view (ed_ir a z)"
  by (simp add: ed_ir_def Let_def split_beta view_ifs cong: if_cong split del: if_split)

lemma view_micro_ed_x1 [simp]:
  "view (micro_ed_x1 a b (dirty h v p x ad z)) = view (micro_ed_x1 a b z)"
  by (simp add: micro_ed_x1_def Let_def split_beta view_ifs cong: if_cong split del: if_split)

lemma view_micro_ed [simp]:
  "view (micro_ed (dirty h v p x ad z)) = view (micro_ed z)"
  by (simp add: micro_ed_def Let_def split_beta view_ifs cong: if_cong split del: if_split)

lemma view_index_ld_n [simp]:
  "view (index_ld_n (dirty h v p x ad z)) = view (index_ld_n z)"
  by (simp add: index_ld_n_def Let_def split_beta view_ifs cong: if_cong split del: if_split)

lemma view_micro_index [simp]:
  "view (micro_index (dirty h v p x ad z)) = view (micro_index z)"
  by (simp add: micro_index_def Let_def split_beta view_ifs cong: if_cong split del: if_split)

lemma view_micro_ddcb [simp]:
  "view (micro_ddcb (dirty h v p x ad z)) = view (micro_ddcb z)"
  by (simp add: micro_ddcb_def Let_def split_beta view_ifs cong: if_cong split del: if_split)

lemma view_micro_cb [simp]:
  "view (micro_cb (dirty h v p x ad z)) = view (micro_cb z)"
  by (simp add: micro_cb_def Let_def split_beta view_ifs cong: if_cong split del: if_split)

lemma view_x3_ret_cc [simp]:
  "view (x3_ret_cc a (dirty h v p x ad z)) = view (x3_ret_cc a z)"
  by (simp add: x3_ret_cc_def Let_def split_beta view_ifs cong: if_cong split del: if_split)

lemma view_x3_pop [simp]:
  "view (x3_pop a (dirty h v p x ad z)) = view (x3_pop a z)"
  by (simp add: x3_pop_def Let_def split_beta view_ifs cong: if_cong split del: if_split)

lemma view_x3_jp_cc [simp]:
  "view (x3_jp_cc a (dirty h v p x ad z)) = view (x3_jp_cc a z)"
  by (simp add: x3_jp_cc_def Let_def split_beta view_ifs cong: if_cong split del: if_split)

lemma view_x3_out_n [simp]:
  "view (x3_out_n (dirty h v p x ad z)) = view (x3_out_n z)"
  by (simp add: x3_out_n_def Let_def split_beta view_ifs cong: if_cong split del: if_split)

lemma view_x3_in_n [simp]:
  "view (x3_in_n (dirty h v p x ad z)) = view (x3_in_n z)"
  by (simp add: x3_in_n_def Let_def split_beta view_ifs cong: if_cong split del: if_split)

lemma view_x3_ex_sp [simp]:
  "view (x3_ex_sp (dirty h v p x ad z)) = view (x3_ex_sp z)"
  by (simp add: x3_ex_sp_def Let_def split_beta view_ifs cong: if_cong split del: if_split)

lemma view_x3_misc [simp]:
  "view (x3_misc a (dirty h v p x ad z)) = view (x3_misc a z)"
  by (simp add: x3_misc_def Let_def split_beta view_ifs cong: if_cong split del: if_split)

lemma view_call_tail [simp]:
  "view (call_tail (dirty h v p x ad z)) = view (call_tail z)"
  by (simp add: call_tail_def Let_def split_beta view_ifs cong: if_cong split del: if_split)

lemma view_x3_call_cc [simp]:
  "view (x3_call_cc a (dirty h v p x ad z)) = view (x3_call_cc a z)"
  by (simp add: x3_call_cc_def Let_def split_beta view_ifs cong: if_cong split del: if_split)

lemma view_x3_push_call [simp]:
  "view (x3_push_call a (dirty h v p x ad z)) = view (x3_push_call a z)"
  by (simp add: x3_push_call_def Let_def split_beta view_ifs cong: if_cong split del: if_split)

lemma view_x3_rst [simp]:
  "view (x3_rst a (dirty h v p x ad z)) = view (x3_rst a z)"
  by (simp add: x3_rst_def Let_def split_beta view_ifs cong: if_cong split del: if_split)

lemma view_micro_x3 [simp]:
  "view (micro_x3 a b (dirty h v p x ad z)) = view (micro_x3 a b z)"
  by (simp add: micro_x3_def Let_def split_beta view_ifs cong: if_cong split del: if_split)

lemma view_micro_x1 [simp]:
  "view (micro_x1 a b (dirty h v p x ad z)) = view (micro_x1 a b z)"
  by (simp add: micro_x1_def Let_def split_beta view_ifs cong: if_cong split del: if_split)

lemma view_x0_rel [simp]:
  "view (x0_rel a (dirty h v p x ad z)) = view (x0_rel a z)"
  by (simp add: x0_rel_def Let_def split_beta view_ifs cong: if_cong split del: if_split)

lemma view_x0_ld_add16 [simp]:
  "view (x0_ld_add16 a (dirty h v p x ad z)) = view (x0_ld_add16 a z)"
  by (simp add: x0_ld_add16_def Let_def split_beta view_ifs cong: if_cong split del: if_split)

lemma view_x0_ld_rp [simp]:
  "view (x0_ld_rp a (dirty h v p x ad z)) = view (x0_ld_rp a z)"
  by (simp add: x0_ld_rp_def Let_def split_beta view_ifs cong: if_cong split del: if_split)

lemma view_x0_ld_nn_op [simp]:
  "view (x0_ld_nn_op a (dirty h v p x ad z)) = view (x0_ld_nn_op a z)"
  by (simp add: x0_ld_nn_op_def Let_def split_beta view_ifs cong: if_cong split del: if_split)

lemma view_x0_ld_mem [simp]:
  "view (x0_ld_mem a (dirty h v p x ad z)) = view (x0_ld_mem a z)"
  by (simp add: x0_ld_mem_def Let_def split_beta view_ifs cong: if_cong split del: if_split)

lemma view_x0_inc_dec16 [simp]:
  "view (x0_inc_dec16 a (dirty h v p x ad z)) = view (x0_inc_dec16 a z)"
  by (simp add: x0_inc_dec16_def Let_def split_beta view_ifs cong: if_cong split del: if_split)

lemma view_x0_inc_dec8 [simp]:
  "view (x0_inc_dec8 a b (dirty h v p x ad z)) = view (x0_inc_dec8 a b z)"
  by (simp add: x0_inc_dec8_def Let_def split_beta view_ifs cong: if_cong split del: if_split)

lemma view_x0_ld_n [simp]:
  "view (x0_ld_n a (dirty h v p x ad z)) = view (x0_ld_n a z)"
  by (simp add: x0_ld_n_def Let_def split_beta view_ifs cong: if_cong split del: if_split)

lemma view_x0_acc [simp]:
  "view (x0_acc a (dirty h v p x ad z)) = view (x0_acc a z)"
  by (simp add: x0_acc_def Let_def split_beta view_ifs cong: if_cong split del: if_split)

lemma view_micro_x0 [simp]:
  "view (micro_x0 a b (dirty h v p x ad z)) = view (micro_x0 a b z)"
  by (simp add: micro_x0_def Let_def split_beta view_ifs cong: if_cong split del: if_split)

lemma view_micro [simp]:
  "view (micro (dirty h v p x ad z)) = view (micro z)"
  by (simp add: micro_def Let_def split_beta view_ifs cong: if_cong split del: if_split)

lemma view_run_micro [simp]:
  "view (run_micro (dirty h v p x ad z)) = view (run_micro z)"
  by (simp add: run_micro_def Let_def split_beta view_ifs cong: if_cong split del: if_split)

subsection \<open>Two states that differ only in what the view forgets\<close>

lemma view_eq_dirty:
  assumes "view z1 = view z2"
  shows "z1 = dirty (z_held z1) (z_held_valid z1) (z_nmi_prev z1) (z_t z1) (z_mc_addr z1) z2"
  using assms by (cases z1, cases z2) (simp add: view_def dirty_def)

lemma view_run_micro_cong:
  assumes "view z1 = view z2"
  shows "view (run_micro z1) = view (run_micro z2)"
  by (subst view_eq_dirty [OF assms]) simp

subsection \<open>Control flow of the step machine\<close>

text \<open>\<open>stepped c z\<close>: a step from a state with control part \<open>c\<close> ended in \<open>z\<close>. It either finished the
  instruction, which resets the step counter and the prefixes, or requested a further machine cycle,
  which happens only on the first six steps. The T-state clock and the NMI latch are left alone.\<close>

type_synonym control = "u64 \<times> bool \<times> bool \<times> bool \<times> u8 \<times> nat \<times> u8 \<times> IndexReg \<times> Servicing"

definition ctl :: "z80_state \<Rightarrow> control" where
  "ctl z = (z_tstates z, z_nmi_pending z, z_ei_delay z, z_halted z, z_opcode z, z_step z, z_prefix z, z_index z, z_servicing z)"

definition stepped :: "control \<Rightarrow> z80_state \<Rightarrow> bool" where
  "stepped c z = (z_t z = 0 \<and>
     (if z_mc z = MC_M1 then z_step z = 0 \<and> z_prefix z = 0 \<and> z_index z = Idx_HL \<and> z_servicing z = Svc_NONE
        \<and> z_tstates z = fst c \<and> z_nmi_pending z = fst (snd c) \<and> z_opcode z = fst (snd (snd (snd (snd c))))
      else ctl z = c \<and> z_step z \<le> 5 \<and> (z_mc z = MC_INTERNAL \<longrightarrow> 1 \<le> z_mc_ilen z)
        \<and> (z_mc z = MC_IOACK \<longrightarrow> 4 \<le> z_mc_ilen z \<and> z_step z = 0 \<and> z_servicing z \<noteq> Svc_NONE)))"

lemma ctl_upd [simp]:
  "ctl (z\<lparr>z_af := w0\<rparr>) = ctl z"
  "ctl (z\<lparr>z_bc := w1\<rparr>) = ctl z"
  "ctl (z\<lparr>z_de := w2\<rparr>) = ctl z"
  "ctl (z\<lparr>z_hl := w3\<rparr>) = ctl z"
  "ctl (z\<lparr>z_af2 := w4\<rparr>) = ctl z"
  "ctl (z\<lparr>z_bc2 := w5\<rparr>) = ctl z"
  "ctl (z\<lparr>z_de2 := w6\<rparr>) = ctl z"
  "ctl (z\<lparr>z_hl2 := w7\<rparr>) = ctl z"
  "ctl (z\<lparr>z_ix := w8\<rparr>) = ctl z"
  "ctl (z\<lparr>z_iy := w9\<rparr>) = ctl z"
  "ctl (z\<lparr>z_sp := w10\<rparr>) = ctl z"
  "ctl (z\<lparr>z_pc := w11\<rparr>) = ctl z"
  "ctl (z\<lparr>z_wz := w12\<rparr>) = ctl z"
  "ctl (z\<lparr>z_i := w13\<rparr>) = ctl z"
  "ctl (z\<lparr>z_r := w14\<rparr>) = ctl z"
  "ctl (z\<lparr>z_iff1 := w15\<rparr>) = ctl z"
  "ctl (z\<lparr>z_iff2 := w16\<rparr>) = ctl z"
  "ctl (z\<lparr>z_im := w17\<rparr>) = ctl z"
  "ctl (z\<lparr>z_q := w18\<rparr>) = ctl z"
  "ctl (z\<lparr>z_qq := w19\<rparr>) = ctl z"
  "ctl (z\<lparr>z_mc := w21\<rparr>) = ctl z"
  "ctl (z\<lparr>z_mc_wval := w22\<rparr>) = ctl z"
  "ctl (z\<lparr>z_mc_io_read := w23\<rparr>) = ctl z"
  "ctl (z\<lparr>z_mc_ilen := w24\<rparr>) = ctl z"
  "ctl (z\<lparr>z_int_vec := w28\<rparr>) = ctl z"
  "ctl (z\<lparr>z_mem_addr := w32\<rparr>) = ctl z"
  "ctl (z\<lparr>z_tmp := w34\<rparr>) = ctl z"
  "ctl (z\<lparr>z_tmpl := w35\<rparr>) = ctl z"
  "ctl (z\<lparr>z_halt_t := w36\<rparr>) = ctl z"
  "ctl (z\<lparr>z_unimplemented := w37\<rparr>) = ctl z"
  "ctl (z\<lparr>z_instr_count := w39\<rparr>) = ctl z"
  by (simp_all add: ctl_def)

lemma ctl_set_a [simp]:
  "ctl (set_a a z) = ctl z"
  "z_step (set_a a z) = z_step z"
  "z_servicing (set_a a z) = z_servicing z"
  by (simp_all add: set_a_def Let_def split_beta)

lemma ctl_set_f [simp]:
  "ctl (set_f a z) = ctl z"
  "z_step (set_f a z) = z_step z"
  "z_servicing (set_f a z) = z_servicing z"
  by (simp_all add: set_f_def Let_def split_beta)

lemma ctl_set_idx_hl [simp]:
  "ctl (set_idx_hl a z) = ctl z"
  "z_step (set_idx_hl a z) = z_step z"
  "z_servicing (set_idx_hl a z) = z_servicing z"
  by (simp_all add: set_idx_hl_def Let_def split_beta split: IndexReg.split)

lemma ctl_set_idx_h [simp]:
  "ctl (set_idx_h a z) = ctl z"
  "z_step (set_idx_h a z) = z_step z"
  "z_servicing (set_idx_h a z) = z_servicing z"
  by (simp_all add: set_idx_h_def Let_def split_beta)

lemma ctl_set_idx_l [simp]:
  "ctl (set_idx_l a z) = ctl z"
  "z_step (set_idx_l a z) = z_step z"
  "z_servicing (set_idx_l a z) = z_servicing z"
  by (simp_all add: set_idx_l_def Let_def split_beta)

lemma ctl_set_r_real [simp]:
  "ctl (set_r_real a b z) = ctl z"
  "z_step (set_r_real a b z) = z_step z"
  "z_servicing (set_r_real a b z) = z_servicing z"
  by (simp_all add: set_r_real_def Let_def split_beta)

lemma ctl_set_r [simp]:
  "ctl (set_r a b z) = ctl z"
  "z_step (set_r a b z) = z_step z"
  "z_servicing (set_r a b z) = z_servicing z"
  by (simp_all add: set_r_def Let_def split_beta)

lemma ctl_bump_refresh [simp]:
  "ctl (bump_refresh z) = ctl z"
  "z_step (bump_refresh z) = z_step z"
  "z_servicing (bump_refresh z) = z_servicing z"
  by (simp_all add: bump_refresh_def Let_def split_beta)

lemma ctl_pcinc [simp]:
  "ctl (pcinc z) = ctl z"
  "z_step (pcinc z) = z_step z"
  "z_servicing (pcinc z) = z_servicing z"
  by (simp_all add: pcinc_def Let_def split_beta)

lemma ctl_set_rp [simp]:
  "ctl (set_rp a b z) = ctl z"
  "z_step (set_rp a b z) = z_step z"
  "z_servicing (set_rp a b z) = z_servicing z"
  by (simp_all add: set_rp_def Let_def split_beta)

lemma ctl_set_rp2 [simp]:
  "ctl (set_rp2 a b z) = ctl z"
  "z_step (set_rp2 a b z) = z_step z"
  "z_servicing (set_rp2 a b z) = z_servicing z"
  by (simp_all add: set_rp2_def Let_def split_beta)

lemma ctl_alu_add [simp]:
  "ctl (alu_add a b z) = ctl z"
  "z_step (alu_add a b z) = z_step z"
  "z_servicing (alu_add a b z) = z_servicing z"
  by (simp_all add: alu_add_def Let_def split_beta)

lemma ctl_alu_sub [simp]:
  "ctl (alu_sub a b c z) = ctl z"
  "z_step (alu_sub a b c z) = z_step z"
  "z_servicing (alu_sub a b c z) = z_servicing z"
  by (simp_all add: alu_sub_def Let_def split_beta)

lemma ctl_alu [simp]:
  "ctl (alu a b z) = ctl z"
  "z_step (alu a b z) = z_step z"
  "z_servicing (alu a b z) = z_servicing z"
  by (simp_all add: alu_def Let_def split_beta)

lemma ctl_inc8 [simp]:
  "ctl (snd (inc8 a z)) = ctl z"
  "z_step (snd (inc8 a z)) = z_step z"
  "z_servicing (snd (inc8 a z)) = z_servicing z"
  by (simp_all add: inc8_def Let_def split_beta)

lemma ctl_dec8 [simp]:
  "ctl (snd (dec8 a z)) = ctl z"
  "z_step (snd (dec8 a z)) = z_step z"
  "z_servicing (snd (dec8 a z)) = z_servicing z"
  by (simp_all add: dec8_def Let_def split_beta)

lemma ctl_acc_rot [simp]:
  "ctl (acc_rot a z) = ctl z"
  "z_step (acc_rot a z) = z_step z"
  "z_servicing (acc_rot a z) = z_servicing z"
  by (simp_all add: acc_rot_def Let_def split_beta)

lemma ctl_daa [simp]:
  "ctl (daa z) = ctl z"
  "z_step (daa z) = z_step z"
  "z_servicing (daa z) = z_servicing z"
  by (simp_all add: daa_def Let_def split_beta)

lemma ctl_cpl [simp]:
  "ctl (cpl z) = ctl z"
  "z_step (cpl z) = z_step z"
  "z_servicing (cpl z) = z_servicing z"
  by (simp_all add: cpl_def Let_def split_beta)

lemma ctl_scf [simp]:
  "ctl (scf z) = ctl z"
  "z_step (scf z) = z_step z"
  "z_servicing (scf z) = z_servicing z"
  by (simp_all add: scf_def Let_def split_beta)

lemma ctl_ccf [simp]:
  "ctl (ccf z) = ctl z"
  "z_step (ccf z) = z_step z"
  "z_servicing (ccf z) = z_servicing z"
  by (simp_all add: ccf_def Let_def split_beta)

lemma ctl_add16 [simp]:
  "ctl (add16 a z) = ctl z"
  "z_step (add16 a z) = z_step z"
  "z_servicing (add16 a z) = z_servicing z"
  by (simp_all add: add16_def Let_def split_beta)

lemma ctl_adc16 [simp]:
  "ctl (adc16 a z) = ctl z"
  "z_step (adc16 a z) = z_step z"
  "z_servicing (adc16 a z) = z_servicing z"
  by (simp_all add: adc16_def Let_def split_beta)

lemma ctl_sbc16 [simp]:
  "ctl (sbc16 a z) = ctl z"
  "z_step (sbc16 a z) = z_step z"
  "z_servicing (sbc16 a z) = z_servicing z"
  by (simp_all add: sbc16_def Let_def split_beta)

lemma ctl_neg [simp]:
  "ctl (neg z) = ctl z"
  "z_step (neg z) = z_step z"
  "z_servicing (neg z) = z_servicing z"
  by (simp_all add: neg_def Let_def split_beta)

lemma ctl_ld_a_ir [simp]:
  "ctl (ld_a_ir a z) = ctl z"
  "z_step (ld_a_ir a z) = z_step z"
  "z_servicing (ld_a_ir a z) = z_servicing z"
  by (simp_all add: ld_a_ir_def Let_def split_beta)

lemma ctl_cb_shift [simp]:
  "ctl (snd (cb_shift a b z)) = ctl z"
  "z_step (snd (cb_shift a b z)) = z_step z"
  "z_servicing (snd (cb_shift a b z)) = z_servicing z"
  by (simp_all add: cb_shift_def Let_def split_beta)

lemma ctl_cb_bit [simp]:
  "ctl (cb_bit a b c z) = ctl z"
  "z_step (cb_bit a b c z) = z_step z"
  "z_servicing (cb_bit a b c z) = z_servicing z"
  by (simp_all add: cb_bit_def Let_def split_beta)

lemma ctl_latch_lo [simp]:
  "ctl (latch_lo z) = ctl z"
  "z_step (latch_lo z) = z_step z"
  "z_servicing (latch_lo z) = z_servicing z"
  by (simp_all add: latch_lo_def Let_def split_beta)

lemma ctl_set_wz [simp]:
  "ctl (set_wz a z) = ctl z"
  "z_step (set_wz a z) = z_step z"
  "z_servicing (set_wz a z) = z_servicing z"
  by (simp_all add: set_wz_def Let_def split_beta)

lemma ctl_jump [simp]:
  "ctl (jump a z) = ctl z"
  "z_step (jump a z) = z_step z"
  "z_servicing (jump a z) = z_servicing z"
  by (simp_all add: jump_def Let_def split_beta)

lemma ctl_rewind [simp]:
  "ctl (rewind z) = ctl z"
  "z_step (rewind z) = z_step z"
  "z_servicing (rewind z) = z_servicing z"
  by (simp_all add: rewind_def Let_def split_beta)

lemma ctl_set_ea [simp]:
  "ctl (set_ea z) = ctl z"
  "z_step (set_ea z) = z_step z"
  "z_servicing (set_ea z) = z_servicing z"
  by (simp_all add: set_ea_def Let_def split_beta)

lemma ctl_inc_dec [simp]:
  "ctl (snd (inc_dec a b z)) = ctl z"
  "z_step (snd (inc_dec a b z)) = z_step z"
  "z_servicing (snd (inc_dec a b z)) = z_servicing z"
  by (simp_all add: inc_dec_def Let_def split_beta)

lemma ctl_cb_result [simp]:
  "ctl (snd (cb_result a b c z)) = ctl z"
  "z_step (snd (cb_result a b c z)) = z_step z"
  "z_servicing (snd (cb_result a b c z)) = z_servicing z"
  by (simp_all add: cb_result_def Let_def split_beta)

lemma ctl_exx [simp]:
  "ctl (exx z) = ctl z"
  "z_step (exx z) = z_step z"
  "z_servicing (exx z) = z_servicing z"
  by (simp_all add: exx_def Let_def split_beta)

lemma stepped_wz [simp]: "stepped c (set_wz w z) = stepped c z"
  by (simp add: stepped_def set_wz_def)

lemma stepped_req [simp]:
  "stepped c (req_read a z) \<longleftrightarrow> ctl z = c \<and> z_step z \<le> 5"
  "stepped c (req_write a b z) \<longleftrightarrow> ctl z = c \<and> z_step z \<le> 5"
  "stepped c (req_io_read a z) \<longleftrightarrow> ctl z = c \<and> z_step z \<le> 5"
  "stepped c (req_io_write a b z) \<longleftrightarrow> ctl z = c \<and> z_step z \<le> 5"
  "stepped c (req_internal n z) \<longleftrightarrow> ctl z = c \<and> z_step z \<le> 5 \<and> 1 \<le> n"
  "stepped c (req_ioack n z) \<longleftrightarrow> ctl z = c \<and> z_step z = 0 \<and> 4 \<le> n \<and> z_servicing z \<noteq> Svc_NONE"
  "stepped c (req_pc z) \<longleftrightarrow> ctl z = c \<and> z_step z \<le> 5"
  "stepped c (req_pop z) \<longleftrightarrow> ctl z = c \<and> z_step z \<le> 5"
  "stepped c (req_push b z) \<longleftrightarrow> ctl z = c \<and> z_step z \<le> 5"
  by (auto simp add: stepped_def ctl_def req_read_def req_write_def req_io_read_def req_io_write_def req_internal_def
      req_ioack_def req_pc_def req_pop_def req_push_def pcinc_def)

definition ctl_done :: "control \<Rightarrow> z80_state \<Rightarrow> bool" where
  "ctl_done c z \<longleftrightarrow> z_servicing z = Svc_NONE \<and> z_tstates z = fst c \<and> z_nmi_pending z = fst (snd c)
     \<and> z_opcode z = fst (snd (snd (snd (snd c))))"

lemma stepped_finish [simp]: "stepped c (finish z) = ctl_done c z"
  by (simp add: stepped_def finish_def ctl_done_def)

lemma ctl_done_same [simp]: "z_servicing z = Svc_NONE \<Longrightarrow> ctl z = c \<Longrightarrow> ctl_done c z"
  by (auto simp: ctl_done_def ctl_def)

lemma ctl_done_upd [simp]:
  "ctl z = c \<Longrightarrow> ctl_done c (z\<lparr>z_servicing := Svc_NONE\<rparr>)"
  "z_servicing z = Svc_NONE \<Longrightarrow> ctl z = c \<Longrightarrow> ctl_done c (z\<lparr>z_ei_delay := e\<rparr>)"
  "z_servicing z = Svc_NONE \<Longrightarrow> ctl z = c \<Longrightarrow> ctl_done c (z\<lparr>z_halted := h\<rparr>)"
  "z_servicing z = Svc_NONE \<Longrightarrow> ctl z = c \<Longrightarrow> ctl_done c (z\<lparr>z_halted := h, z_pc := v\<rparr>)"
  by (auto simp: ctl_done_def ctl_def)

lemmas stepped_ifs = if_distrib [of \<open>stepped c\<close> for c] if_distrib [of \<open>ctl_done c\<close> for c]
  if_distrib [of ctl] if_distrib [of z_step] if_distrib [of z_servicing]

lemma stepped_micro_interrupt [simp]:
  "z_servicing z \<noteq> Svc_NONE \<Longrightarrow> ctl z = c0 \<Longrightarrow> stepped c0 (micro_interrupt z)"
  by (simp add: micro_interrupt_def Let_def split_beta stepped_ifs cong: if_cong)

lemma stepped_block_ld [simp]:
  "z_servicing z = Svc_NONE \<Longrightarrow> ctl z = c0 \<Longrightarrow> stepped c0 (block_ld a b z)"
  by (simp add: block_ld_def Let_def split_beta stepped_ifs cong: if_cong split del: if_split)

lemma stepped_block_cp [simp]:
  "z_servicing z = Svc_NONE \<Longrightarrow> ctl z = c0 \<Longrightarrow> stepped c0 (block_cp a b z)"
  by (simp add: block_cp_def Let_def split_beta stepped_ifs cong: if_cong split del: if_split)

lemma stepped_blkio_end [simp]:
  "z_step z \<le> 5 \<Longrightarrow> z_servicing z = Svc_NONE \<Longrightarrow> ctl z = c0 \<Longrightarrow> stepped c0 (blkio_end a b c d z)"
  by (simp add: blkio_end_def Let_def split_beta stepped_ifs cong: if_cong split del: if_split)

lemma stepped_block_in [simp]:
  "z_servicing z = Svc_NONE \<Longrightarrow> ctl z = c0 \<Longrightarrow> stepped c0 (block_in a b z)"
  by (simp add: block_in_def Let_def split_beta stepped_ifs cong: if_cong split del: if_split)

lemma stepped_block_out [simp]:
  "z_servicing z = Svc_NONE \<Longrightarrow> ctl z = c0 \<Longrightarrow> stepped c0 (block_out a b z)"
  by (simp add: block_out_def Let_def split_beta stepped_ifs cong: if_cong split del: if_split)

lemma stepped_undecoded [simp]:
  "z_servicing z = Svc_NONE \<Longrightarrow> ctl z = c0 \<Longrightarrow> stepped c0 (undecoded z)"
  by (simp add: undecoded_def Let_def split_beta stepped_ifs cong: if_cong split del: if_split)

lemma stepped_ed_in [simp]:
  "z_servicing z = Svc_NONE \<Longrightarrow> ctl z = c0 \<Longrightarrow> stepped c0 (ed_in a z)"
  by (simp add: ed_in_def Let_def split_beta stepped_ifs cong: if_cong split del: if_split)

lemma stepped_ed_out [simp]:
  "z_servicing z = Svc_NONE \<Longrightarrow> ctl z = c0 \<Longrightarrow> stepped c0 (ed_out a z)"
  by (simp add: ed_out_def Let_def split_beta stepped_ifs cong: if_cong split del: if_split)

lemma stepped_ed_ld_nn [simp]:
  "z_servicing z = Svc_NONE \<Longrightarrow> ctl z = c0 \<Longrightarrow> stepped c0 (ed_ld_nn a z)"
  by (simp add: ed_ld_nn_def Let_def split_beta stepped_ifs cong: if_cong split del: if_split)

lemma stepped_ed_arith16 [simp]:
  "z_servicing z = Svc_NONE \<Longrightarrow> ctl z = c0 \<Longrightarrow> stepped c0 (ed_arith16 a z)"
  by (simp add: ed_arith16_def Let_def split_beta stepped_ifs cong: if_cong split del: if_split)

lemma stepped_ed_retn [simp]:
  "z_servicing z = Svc_NONE \<Longrightarrow> ctl z = c0 \<Longrightarrow> stepped c0 (ed_retn z)"
  by (simp add: ed_retn_def Let_def split_beta stepped_ifs cong: if_cong split del: if_split)

lemma stepped_ed_rxd [simp]:
  "z_servicing z = Svc_NONE \<Longrightarrow> ctl z = c0 \<Longrightarrow> stepped c0 (ed_rxd a z)"
  by (simp add: ed_rxd_def Let_def split_beta stepped_ifs cong: if_cong split del: if_split)

lemma stepped_ed_ir [simp]:
  "z_servicing z = Svc_NONE \<Longrightarrow> ctl z = c0 \<Longrightarrow> stepped c0 (ed_ir a z)"
  by (simp add: ed_ir_def Let_def split_beta stepped_ifs cong: if_cong split del: if_split)

lemma stepped_micro_ed_x1 [simp]:
  "z_servicing z = Svc_NONE \<Longrightarrow> ctl z = c0 \<Longrightarrow> stepped c0 (micro_ed_x1 a b z)"
  by (simp add: micro_ed_x1_def Let_def split_beta stepped_ifs cong: if_cong split del: if_split)

lemma stepped_micro_ed [simp]:
  "z_servicing z = Svc_NONE \<Longrightarrow> ctl z = c0 \<Longrightarrow> stepped c0 (micro_ed z)"
  by (simp add: micro_ed_def Let_def split_beta stepped_ifs cong: if_cong split del: if_split)

lemma stepped_index_ld_n [simp]:
  "z_servicing z = Svc_NONE \<Longrightarrow> ctl z = c0 \<Longrightarrow> stepped c0 (index_ld_n z)"
  by (simp add: index_ld_n_def Let_def split_beta stepped_ifs cong: if_cong split del: if_split)

lemma stepped_micro_index [simp]:
  "z_servicing z = Svc_NONE \<Longrightarrow> ctl z = c0 \<Longrightarrow> stepped c0 (micro_index z)"
  by (simp add: micro_index_def Let_def split_beta stepped_ifs cong: if_cong split del: if_split)

lemma stepped_micro_ddcb [simp]:
  "z_servicing z = Svc_NONE \<Longrightarrow> ctl z = c0 \<Longrightarrow> stepped c0 (micro_ddcb z)"
  by (simp add: micro_ddcb_def Let_def split_beta stepped_ifs cong: if_cong split del: if_split)

lemma stepped_micro_cb [simp]:
  "z_servicing z = Svc_NONE \<Longrightarrow> ctl z = c0 \<Longrightarrow> stepped c0 (micro_cb z)"
  by (simp add: micro_cb_def Let_def split_beta stepped_ifs cong: if_cong split del: if_split)

lemma stepped_x3_ret_cc [simp]:
  "z_servicing z = Svc_NONE \<Longrightarrow> ctl z = c0 \<Longrightarrow> stepped c0 (x3_ret_cc a z)"
  by (simp add: x3_ret_cc_def Let_def split_beta stepped_ifs cong: if_cong split del: if_split)

lemma stepped_x3_pop [simp]:
  "z_servicing z = Svc_NONE \<Longrightarrow> ctl z = c0 \<Longrightarrow> stepped c0 (x3_pop a z)"
  by (simp add: x3_pop_def Let_def split_beta stepped_ifs cong: if_cong split del: if_split)

lemma stepped_x3_jp_cc [simp]:
  "z_servicing z = Svc_NONE \<Longrightarrow> ctl z = c0 \<Longrightarrow> stepped c0 (x3_jp_cc a z)"
  by (simp add: x3_jp_cc_def Let_def split_beta stepped_ifs cong: if_cong split del: if_split)

lemma stepped_x3_out_n [simp]:
  "z_servicing z = Svc_NONE \<Longrightarrow> ctl z = c0 \<Longrightarrow> stepped c0 (x3_out_n z)"
  by (simp add: x3_out_n_def Let_def split_beta stepped_ifs cong: if_cong split del: if_split)

lemma stepped_x3_in_n [simp]:
  "z_servicing z = Svc_NONE \<Longrightarrow> ctl z = c0 \<Longrightarrow> stepped c0 (x3_in_n z)"
  by (simp add: x3_in_n_def Let_def split_beta stepped_ifs cong: if_cong split del: if_split)

lemma stepped_x3_ex_sp [simp]:
  "z_servicing z = Svc_NONE \<Longrightarrow> ctl z = c0 \<Longrightarrow> stepped c0 (x3_ex_sp z)"
  by (simp add: x3_ex_sp_def Let_def split_beta stepped_ifs cong: if_cong split del: if_split)

lemma stepped_x3_misc [simp]:
  "z_servicing z = Svc_NONE \<Longrightarrow> ctl z = c0 \<Longrightarrow> stepped c0 (x3_misc a z)"
  by (simp add: x3_misc_def Let_def split_beta stepped_ifs cong: if_cong split del: if_split)

lemma stepped_call_tail [simp]:
  "z_servicing z = Svc_NONE \<Longrightarrow> ctl z = c0 \<Longrightarrow> stepped c0 (call_tail z)"
  by (simp add: call_tail_def Let_def split_beta stepped_ifs cong: if_cong split del: if_split)

lemma stepped_x3_call_cc [simp]:
  "z_servicing z = Svc_NONE \<Longrightarrow> ctl z = c0 \<Longrightarrow> stepped c0 (x3_call_cc a z)"
  by (simp add: x3_call_cc_def Let_def split_beta stepped_ifs cong: if_cong split del: if_split)

lemma stepped_x3_push_call [simp]:
  "z_servicing z = Svc_NONE \<Longrightarrow> ctl z = c0 \<Longrightarrow> stepped c0 (x3_push_call a z)"
  by (simp add: x3_push_call_def Let_def split_beta stepped_ifs cong: if_cong split del: if_split)

lemma stepped_x3_rst [simp]:
  "z_servicing z = Svc_NONE \<Longrightarrow> ctl z = c0 \<Longrightarrow> stepped c0 (x3_rst a z)"
  by (simp add: x3_rst_def Let_def split_beta stepped_ifs cong: if_cong split del: if_split)

lemma stepped_micro_x3 [simp]:
  "z_servicing z = Svc_NONE \<Longrightarrow> ctl z = c0 \<Longrightarrow> stepped c0 (micro_x3 a b z)"
  by (simp add: micro_x3_def Let_def split_beta stepped_ifs cong: if_cong split del: if_split)

lemma stepped_micro_x1 [simp]:
  "z_servicing z = Svc_NONE \<Longrightarrow> ctl z = c0 \<Longrightarrow> stepped c0 (micro_x1 a b z)"
  by (simp add: micro_x1_def Let_def split_beta stepped_ifs cong: if_cong split del: if_split)

lemma stepped_x0_rel [simp]:
  "z_servicing z = Svc_NONE \<Longrightarrow> ctl z = c0 \<Longrightarrow> stepped c0 (x0_rel a z)"
  by (simp add: x0_rel_def Let_def split_beta stepped_ifs cong: if_cong split del: if_split)

lemma stepped_x0_ld_add16 [simp]:
  "z_servicing z = Svc_NONE \<Longrightarrow> ctl z = c0 \<Longrightarrow> stepped c0 (x0_ld_add16 a z)"
  by (simp add: x0_ld_add16_def Let_def split_beta stepped_ifs cong: if_cong split del: if_split)

lemma stepped_x0_ld_rp [simp]:
  "z_servicing z = Svc_NONE \<Longrightarrow> ctl z = c0 \<Longrightarrow> stepped c0 (x0_ld_rp a z)"
  by (simp add: x0_ld_rp_def Let_def split_beta stepped_ifs cong: if_cong split del: if_split)

lemma stepped_x0_ld_nn_op [simp]:
  "z_servicing z = Svc_NONE \<Longrightarrow> ctl z = c0 \<Longrightarrow> stepped c0 (x0_ld_nn_op a z)"
  by (simp add: x0_ld_nn_op_def Let_def split_beta stepped_ifs cong: if_cong split del: if_split)

lemma stepped_x0_ld_mem [simp]:
  "z_servicing z = Svc_NONE \<Longrightarrow> ctl z = c0 \<Longrightarrow> stepped c0 (x0_ld_mem a z)"
  by (simp add: x0_ld_mem_def Let_def split_beta stepped_ifs cong: if_cong split del: if_split)

lemma stepped_x0_inc_dec16 [simp]:
  "z_servicing z = Svc_NONE \<Longrightarrow> ctl z = c0 \<Longrightarrow> stepped c0 (x0_inc_dec16 a z)"
  by (simp add: x0_inc_dec16_def Let_def split_beta stepped_ifs cong: if_cong split del: if_split)

lemma stepped_x0_inc_dec8 [simp]:
  "z_servicing z = Svc_NONE \<Longrightarrow> ctl z = c0 \<Longrightarrow> stepped c0 (x0_inc_dec8 a b z)"
  by (simp add: x0_inc_dec8_def Let_def split_beta stepped_ifs cong: if_cong split del: if_split)

lemma stepped_x0_ld_n [simp]:
  "z_servicing z = Svc_NONE \<Longrightarrow> ctl z = c0 \<Longrightarrow> stepped c0 (x0_ld_n a z)"
  by (simp add: x0_ld_n_def Let_def split_beta stepped_ifs cong: if_cong split del: if_split)

lemma stepped_x0_acc [simp]:
  "z_servicing z = Svc_NONE \<Longrightarrow> ctl z = c0 \<Longrightarrow> stepped c0 (x0_acc a z)"
  by (simp add: x0_acc_def Let_def split_beta stepped_ifs cong: if_cong split del: if_split)

lemma stepped_micro_x0 [simp]:
  "z_servicing z = Svc_NONE \<Longrightarrow> ctl z = c0 \<Longrightarrow> stepped c0 (micro_x0 a b z)"
  by (simp add: micro_x0_def Let_def split_beta stepped_ifs cong: if_cong split del: if_split)

lemma stepped_micro [simp]:
  "z_servicing z = Svc_NONE \<Longrightarrow> ctl z = c0 \<Longrightarrow> stepped c0 (micro z)"
  by (simp add: micro_def Let_def split_beta stepped_ifs cong: if_cong split del: if_split)

lemma stepped_run_micro: "stepped (ctl z) (run_micro z)"
  by (simp add: run_micro_def)

end
