(* ===== verification/Z80.thy ===== *)
theory Z80
  imports Z80_Frames
begin

text \<open>
  The Z80 of \<open>src/src/hw/z80.cpp\<close>, third part: the two engines around the step machine. \<open>z80_tick\<close> is
  the per-cycle engine, one call per master cycle; it advances one T-state on the CPU clock enable and
  re-drives the held lines otherwise. \<open>z80_batch_step\<close> runs a whole instruction, answering each
  machine cycle through the callbacks \<open>Z80BatchIO\<close> and adding closed-form T-state counts. The callbacks
  are code outside the CPU: they are fields of the record \<open>batch_io\<close> over an arbitrary environment
  state. The \<open>for (;;)\<close> over prefix bytes has no bound in the source, so it is a partial function.
\<close>

subsection \<open>The per-cycle engine\<close>

definition latch_nmi :: "z80_state \<Rightarrow> Bus \<Rightarrow> z80_state" where
  "latch_nmi z i =
    (let z1 = (if cpu_nmi (b_cpu i) \<and> \<not> z_nmi_prev z then z\<lparr>z_nmi_pending := True\<rparr> else z)
     in z1\<lparr>z_nmi_prev := cpu_nmi (b_cpu i)\<rparr>)"

definition redrive :: "z80_state \<Rightarrow> asg list" where
  "redrive z =
    (if z_held_valid z then
       (let h = z_held z in
        [Dr_addr (cpu_addr h), Dr_m1 (cpu_m1 h), Dr_set_mreq (cpu_mreq h), Dr_iorq (cpu_iorq h), Dr_set_rd (cpu_rd h),
         Dr_wr (cpu_wr h), Dr_rfsh (cpu_rfsh h), Dr_halt (cpu_halt h), Dr_busak (cpu_busak h)]
        @ (if cpu_wr h then [Dr_data (cpu_data h)] else []))
     else [])"

definition int_ready :: "z80_state \<Rightarrow> bool \<Rightarrow> bool" where
  "int_ready z irq \<longleftrightarrow> z_nmi_pending z \<or> z_iff1 z \<noteq> 0 \<and> irq \<and> \<not> z_ei_delay z"

definition wake :: "z80_state \<Rightarrow> z80_state" where
  "wake z = z\<lparr>z_halted := False, z_halt_t := 0, z_pc := z_pc z + 1, z_mc := MC_M1, z_t := 0\<rparr>"

definition halted_T :: "z80_state \<Rightarrow> z80_state" where
  "halted_T z =
    (let z1 = z\<lparr>z_tstates := z_tstates z + 1, z_halt_t := z_halt_t z + 1\<rparr>
     in if z_halt_t z1 \<ge> 4 then bump_refresh (z1\<lparr>z_halt_t := 0\<rparr>) else z1)"

text \<open>The interrupt accepted at M1 T1, if any: \<open>was_ei\<close> is the EI shadow as it stood at the boundary.\<close>

definition accept :: "bool \<Rightarrow> bool \<Rightarrow> z80_state \<Rightarrow> z80_state option" where
  "accept was_ei irq z =
    (if z_nmi_pending z then
       Some ((bump_refresh (z\<lparr>z_nmi_pending := False\<rparr>))\<lparr>z_iff1 := 0, z_servicing := Svc_NMI, z_step := 0\<rparr>)
     else if z_iff1 z \<noteq> 0 \<and> irq \<and> \<not> was_ei then
       Some ((bump_refresh z)\<lparr>z_iff1 := 0, z_iff2 := 0, z_servicing := Svc_MASKABLE, z_step := 0\<rparr>)
     else None)"

text \<open>The dispatch at M1 T4: the state that fetches another opcode byte after a prefix, or \<open>None\<close>.\<close>

definition prefix_byte :: "z80_state \<Rightarrow> z80_state option" where
  "prefix_byte z =
    (if z_prefix z = 0 \<and> (z_opcode z = 0xDD \<or> z_opcode z = 0xFD)
     then Some (z\<lparr>z_index := (if z_opcode z = 0xDD then Idx_IX else Idx_IY)\<rparr>)
     else if z_prefix z = 0 \<and> z_opcode z = 0xED then Some (z\<lparr>z_prefix := 0xED, z_index := Idx_HL\<rparr>)
     else if z_prefix z = 0 \<and> z_opcode z = 0xCB \<and> z_index z = Idx_HL then Some (z\<lparr>z_prefix := 0xCB\<rparr>)
     else None)"

definition refresh_addr :: "z80_state \<Rightarrow> u16" where
  "refresh_addr z = push_bit 8 (ucast (z_i z)) OR ucast (z_r z)"

text \<open>The body of the \<open>switch\<close> on the machine cycle: the new state and the lines driven, in order.
  The counter \<open>t\<close> has already been advanced.\<close>

definition m1_fetch_T1 :: "z80_state \<Rightarrow> z80_state \<times> asg list" where
  "m1_fetch_T1 z =
    (let z1 = z\<lparr>z_mc_addr := z_pc z, z_pc := z_pc z + 1\<rparr>
     in (z1, [Dr_addr (z_mc_addr z1), Dr_set_rd True, Dr_set_mreq True, Dr_m1 True]))"

definition m1_T1 :: "z80_state \<Rightarrow> bool \<Rightarrow> z80_state \<times> asg list" where
  "m1_T1 z irq =
    (let z0 = z\<lparr>z_qq := 0\<rparr> in
     if z_prefix z0 = 0 \<and> z_index z0 = Idx_HL then
       (let z1 = z0\<lparr>z_ei_delay := False\<rparr> in
        case accept (z_ei_delay z0) irq z1 of
          Some z2 \<Rightarrow> (run_micro z2, [])
        | None \<Rightarrow> m1_fetch_T1 z1)
     else m1_fetch_T1 z0)"

definition m1_T4 :: "z80_state \<Rightarrow> z80_state" where
  "m1_T4 z =
    (case prefix_byte z of
       Some z1 \<Rightarrow> z1\<lparr>z_mc := MC_M1, z_t := 0\<rparr>
     | None \<Rightarrow> run_micro (z\<lparr>z_step := 0\<rparr>))"

definition cyc_m1 :: "z80_state \<Rightarrow> CpuBus \<Rightarrow> z80_state \<times> asg list" where
  "cyc_m1 z c =
    (if z_t z = 1 then m1_T1 z (cpu_irq c)
     else if z_t z = 2 then (z, [Dr_addr (z_mc_addr z), Dr_set_rd True, Dr_set_mreq True, Dr_m1 True])
     else if z_t z = 3 then
       (let z1 = bump_refresh (z\<lparr>z_opcode := cpu_data c\<rparr>) in
        (z1, [Dr_addr (refresh_addr z1), Dr_rfsh True, Dr_set_mreq True]))
     else if z_t z = 4 then (m1_T4 z, [Dr_addr (refresh_addr z), Dr_rfsh True])
     else (z, []))"

definition next_micro :: "z80_state \<Rightarrow> z80_state" where
  "next_micro z = run_micro (z\<lparr>z_step := z_step z + 1\<rparr>)"

definition cyc_read :: "z80_state \<Rightarrow> CpuBus \<Rightarrow> z80_state \<times> asg list" where
  "cyc_read z c =
    (if z_t z = 1 \<or> z_t z = 2 then
       ((if z_t z = 2 \<and> cpu_wait c then z\<lparr>z_t := 1\<rparr> else z), [Dr_addr (z_mc_addr z), Dr_set_rd True, Dr_set_mreq True])
     else if z_t z = 3 then (next_micro (z\<lparr>z_tmp := cpu_data c\<rparr>), [])
     else (z, []))"

definition cyc_write :: "z80_state \<Rightarrow> CpuBus \<Rightarrow> z80_state \<times> asg list" where
  "cyc_write z c =
    (if z_t z = 1 then (z, [Dr_addr (z_mc_addr z), Dr_data (z_mc_wval z), Dr_set_mreq True])
     else if z_t z = 2 then
       ((if cpu_wait c then z\<lparr>z_t := 1\<rparr> else z),
        [Dr_addr (z_mc_addr z), Dr_data (z_mc_wval z), Dr_wr True, Dr_set_mreq True])
     else if z_t z = 3 then (next_micro z, [])
     else (z, []))"

definition cyc_internal :: "z80_state \<Rightarrow> z80_state \<times> asg list" where
  "cyc_internal z = (if z_t z \<ge> z_mc_ilen z then next_micro z else z, [])"

definition cyc_io :: "z80_state \<Rightarrow> CpuBus \<Rightarrow> z80_state \<times> asg list" where
  "cyc_io z c =
    (if z_t z = 1 \<or> z_t z = 2 \<or> z_t z = 3 then
       ((if z_t z = 3 \<and> cpu_wait c then z\<lparr>z_t := 2\<rparr> else z),
        [Dr_addr (z_mc_addr z), Dr_iorq True]
        @ (if z_mc_io_read z then [Dr_set_rd True] else [Dr_wr True, Dr_data (z_mc_wval z)]))
     else if z_t z = 4 then (next_micro (if z_mc_io_read z then z\<lparr>z_tmp := cpu_data c\<rparr> else z), [])
     else (z, []))"

definition cyc_ioack :: "z80_state \<Rightarrow> CpuBus \<Rightarrow> z80_state \<times> asg list" where
  "cyc_ioack z c =
    ((if z_t z \<ge> z_mc_ilen z
      then next_micro (if z_servicing z = Svc_MASKABLE then z\<lparr>z_int_vec := cpu_data c\<rparr> else z)
      else z),
     [Dr_addr (z_pc z), Dr_m1 True, (if z_servicing z = Svc_MASKABLE then Dr_iorq True else Dr_set_mreq True)])"

definition cyc :: "z80_state \<Rightarrow> CpuBus \<Rightarrow> z80_state \<times> asg list" where
  "cyc z c =
    (case z_mc z of
       MC_M1 \<Rightarrow> cyc_m1 z c
     | MC_READ \<Rightarrow> cyc_read z c
     | MC_WRITE \<Rightarrow> cyc_write z c
     | MC_INTERNAL \<Rightarrow> cyc_internal z
     | MC_IO \<Rightarrow> cyc_io z c
     | MC_IOACK \<Rightarrow> cyc_ioack z c)"

text \<open>One executed T-state of a CPU that is not halted and owns the bus.\<close>

definition running_T :: "z80_state \<Rightarrow> Bus \<Rightarrow> z80_state \<times> asg list" where
  "running_T z i =
    (let z1 = z\<lparr>z_tstates := z_tstates z + 1, z_t := z_t z + 1\<rparr> in
     if z_t z1 = 1 \<and> z_mc z1 \<noteq> MC_INTERNAL \<and> z_mc z1 \<noteq> MC_IO \<and> clk_phase (b_clk i) \<noteq> 0
     then (z1\<lparr>z_t := 0\<rparr>, [Dr_halt (z_halted z1)])
     else case cyc z1 (b_cpu i) of (z2, ds) \<Rightarrow> (z2, ds @ [Dr_halt (z_halted z2)]))"

text \<open>The clocked part of the tick, the lines driven, in order.\<close>

definition clocked :: "z80_state \<Rightarrow> Bus \<Rightarrow> z80_state \<times> asg list" where
  "clocked z i =
    (let ready = int_ready z (cpu_irq (b_cpu i)) in
     if z_halted z \<and> \<not> ready then (halted_T z, [Dr_halt True])
     else (let z1 = (if z_halted z then wake z else z) in
           if z_t z1 = 0 \<and> cpu_busrq (b_cpu i) then (z1, [Dr_busak True])
           else running_T z1 i))"

text \<open>\<open>held\<close> is latched from the next bus, so it also picks up what devices dispatched earlier in
  the same cycle have driven there.\<close>

definition z80_tick :: "z80_state \<Rightarrow> Bus \<Rightarrow> Bus \<Rightarrow> z80_state \<times> Bus" where
  "z80_tick z i out =
    (let z0 = latch_nmi z i in
     if \<not> clk_cpu (b_clk i) then (z0, drive (redrive z0) out)
     else (case clocked z0 i of (z1, ds) \<Rightarrow>
             (let out' = drive ds out in (z1\<lparr>z_held := b_cpu out', z_held_valid := True\<rparr>, out'))))"

definition z80_reset :: "z80_state \<Rightarrow> z80_state" where
  "z80_reset z = z\<lparr>z_pc := 0, z_i := 0, z_r := 0, z_iff1 := 0, z_iff2 := 0, z_im := 0, z_af := 0xFFFF, z_sp := 0xFFFF,
     z_wz := 0, z_q := 0, z_qq := 0, z_halted := False, z_mc := MC_M1, z_t := 0, z_step := 0, z_opcode := 0,
     z_tmp := 0, z_tmpl := 0, z_halt_t := 0, z_prefix := 0, z_mc_addr := 0, z_mc_wval := 0, z_mc_ilen := 0,
     z_mc_io_read := False, z_index := Idx_HL, z_mem_addr := 0, z_nmi_prev := False, z_nmi_pending := False,
     z_ei_delay := False, z_servicing := Svc_NONE, z_int_vec := 0, z_held := CpuBus_zero, z_held_valid := False,
     z_unimplemented := False, z_tstates := 0, z_instr_count := 0\<rparr>"

definition z80_save :: "z80_state \<Rightarrow> u8 \<times> z80_state" where
  "z80_save z = (1, z)"

definition z80_load :: "z80_state \<Rightarrow> u8 \<times> z80_state \<Rightarrow> z80_state" where
  "z80_load z b = (if fst b \<noteq> 1 then z else snd b)"

subsection \<open>The batch engine\<close>

record 'e batch_io =
  io_mem_read :: "'e \<Rightarrow> u16 \<Rightarrow> u64 \<Rightarrow> u8 \<times> 'e"
  io_mem_write :: "'e \<Rightarrow> u16 \<Rightarrow> u8 \<Rightarrow> u64 \<Rightarrow> 'e"
  io_io_read :: "'e \<Rightarrow> u16 \<Rightarrow> u64 \<Rightarrow> u8 \<times> 'e"
  io_io_write :: "'e \<Rightarrow> u16 \<Rightarrow> u8 \<Rightarrow> u64 \<Rightarrow> 'e"
  io_int_ack :: "('e \<Rightarrow> u64 \<Rightarrow> u8 \<times> 'e) option"

record 'e batch_engine =
  eng_io :: "'e batch_io"
  eng_irq_vector :: u8
  eng_grid :: bool

definition align_mem :: "'e batch_engine \<Rightarrow> z80_state \<Rightarrow> z80_state" where
  "align_mem g z = (if eng_grid g then z\<lparr>z_tstates := z_tstates z + ((4 - (z_tstates z AND 3)) AND 3)\<rparr> else z)"

definition fetch_m1 :: "'e batch_engine \<Rightarrow> z80_state \<times> 'e \<Rightarrow> u8 \<times> z80_state \<times> 'e" where
  "fetch_m1 g s =
    (let z1 = align_mem g (fst s); r = io_mem_read (eng_io g) (snd s) (z_pc z1) (z_tstates z1);
         z2 = bump_refresh (pcinc z1)
     in (fst r, z2\<lparr>z_tstates := z_tstates z2 + 4\<rparr>, snd r))"

definition int_ack :: "'e batch_engine \<Rightarrow> 'e \<Rightarrow> u64 \<Rightarrow> u8 \<times> 'e" where
  "int_ack g e now = (case io_int_ack (eng_io g) of Some f \<Rightarrow> f e now | None \<Rightarrow> (eng_irq_vector g, e))"

definition io_sample :: "bool \<Rightarrow> u64 \<Rightarrow> u64" where
  "io_sample grid t1 =
    (let sample = t1 + 2 in if grid then sample + ((1 - (sample AND 3)) AND 3) else sample)"

definition satisfy :: "'e batch_engine \<Rightarrow> z80_state \<times> 'e \<Rightarrow> z80_state \<times> 'e" where
  "satisfy g s =
    (case s of (z, e) \<Rightarrow>
      (case z_mc z of
         MC_READ \<Rightarrow>
           (let z1 = align_mem g z; r = io_mem_read (eng_io g) e (z_mc_addr z1) (z_tstates z1)
            in (z1\<lparr>z_tmp := fst r, z_tstates := z_tstates z1 + 3\<rparr>, snd r))
       | MC_WRITE \<Rightarrow>
           (let z1 = align_mem g z
            in (z1\<lparr>z_tstates := z_tstates z1 + 3\<rparr>,
                io_mem_write (eng_io g) e (z_mc_addr z1) (z_mc_wval z1) (z_tstates z1)))
       | MC_INTERNAL \<Rightarrow> (z\<lparr>z_tstates := z_tstates z + of_nat (z_mc_ilen z)\<rparr>, e)
       | MC_IO \<Rightarrow>
           (let t1 = z_tstates z; sample = io_sample (eng_grid g) t1; z1 = z\<lparr>z_tstates := sample + 2\<rparr>
            in if z_mc_io_read z1
               then (let r = io_io_read (eng_io g) e (z_mc_addr z1) sample in (z1\<lparr>z_tmp := fst r\<rparr>, snd r))
               else (z1, io_io_write (eng_io g) e (z_mc_addr z1) (z_mc_wval z1) t1))
       | MC_IOACK \<Rightarrow>
           (let z1 = align_mem g z;
                r = (if z_servicing z1 = Svc_MASKABLE
                     then (let a = int_ack g e (z_tstates z1) in (z1\<lparr>z_int_vec := fst a\<rparr>, snd a)) else (z1, e))
            in ((fst r)\<lparr>z_tstates := z_tstates (fst r) + of_nat (z_mc_ilen (fst r))\<rparr>, snd r))
       | MC_M1 \<Rightarrow> (z, e)))"

lemma satisfy_step [simp]: "z_step (fst (satisfy g (z, e))) = z_step z"
  by (simp add: satisfy_def align_mem_def Let_def split: MC.split)

function (sequential) run_to_finish :: "'e batch_engine \<Rightarrow> z80_state \<times> 'e \<Rightarrow> z80_state \<times> 'e" where
  "run_to_finish g (z, e) =
    (let z1 = run_micro z in
     if z_mc z1 = MC_M1 then (z1, e)
     else (let s = satisfy g (z1, e) in run_to_finish g ((fst s)\<lparr>z_step := z_step (fst s) + 1\<rparr>, snd s)))"
  by pat_completeness auto
termination
proof (relation "measure (\<lambda>(g, z, e). 6 - z_step z)", goal_cases)
  case 1
  show ?case by simp
next
  case (2 g z e z1 s)
  with stepped_run_micro [of z] show ?case
    by (auto simp: stepped_def ctl_def)
qed

declare run_to_finish.simps [simp del]

partial_function (option) prefix_chain :: "'e batch_engine \<Rightarrow> z80_state \<Rightarrow> 'e \<Rightarrow> (z80_state \<times> 'e) option" where
  "prefix_chain g z e =
    (let r = fetch_m1 g (z, e); z1 = (fst (snd r))\<lparr>z_opcode := fst r\<rparr> in
     case prefix_byte z1 of
       Some z2 \<Rightarrow> prefix_chain g z2 (snd (snd r))
     | None \<Rightarrow> Some (z1, snd (snd r)))"

text \<open>\<open>z80_batch_step\<close>: the T-states consumed, the CPU and the environment; \<open>None\<close> when the prefix
  loop does not return.\<close>

definition z80_batch_step ::
    "'e batch_engine \<Rightarrow> bool \<Rightarrow> z80_state \<times> 'e \<Rightarrow> (u32 \<times> z80_state \<times> 'e) option" where
  "z80_batch_step g irq s =
    (case s of (z, e) \<Rightarrow>
      (if z_halted z \<and> \<not> int_ready z irq then Some (0, z, e)
       else (let zw = (if z_halted z then z\<lparr>z_halted := False, z_halt_t := 0, z_pc := z_pc z + 1\<rparr> else z);
                 was_ei = z_ei_delay zw;
                 z1 = zw\<lparr>z_qq := 0, z_ei_delay := False\<rparr>;
                 z2 = align_mem g z1
             in case accept was_ei irq (z2\<lparr>z_tstates := z_tstates z2 + 1\<rparr>) of
                  Some z3 \<Rightarrow>
                    (let f = run_to_finish g (z3, e) in Some (ucast (z_tstates (fst f) - z_tstates z), f))
                | None \<Rightarrow>
                    (case prefix_chain g z1 e of
                       None \<Rightarrow> None
                     | Some (z3, e1) \<Rightarrow>
                         (let f = run_to_finish g (z3\<lparr>z_step := 0\<rparr>, e1)
                          in Some (ucast (z_tstates (fst f) - z_tstates z), f))))))"

definition z80_batch_halt :: "u32 \<Rightarrow> z80_state \<Rightarrow> z80_state" where
  "z80_batch_halt tstates z =
    (let total = of_nat (z_halt_t z) + tstates; bumps = drop_bit 2 total in
     z\<lparr>z_tstates := z_tstates z + ucast tstates,
       z_r := (z_r z AND 0x80) OR ucast ((ucast (z_r z) + bumps) AND 0x7F),
       z_halt_t := unat (total AND 3)\<rparr>)"

definition z80_batch_nmi :: "z80_state \<Rightarrow> z80_state" where
  "z80_batch_nmi z = z\<lparr>z_nmi_pending := True\<rparr>"

definition z80_batch_ready :: "z80_state \<Rightarrow> bool" where
  "z80_batch_ready z \<longleftrightarrow> z_mc z = MC_M1 \<and> z_t z = 0 \<and> z_step z = 0 \<and> z_prefix z = 0 \<and> z_index z = Idx_HL
     \<and> z_servicing z = Svc_NONE"

definition z80_batch_will_accept :: "bool \<Rightarrow> z80_state \<Rightarrow> bool" where
  "z80_batch_will_accept irq z \<longleftrightarrow> z_nmi_pending z \<or> z_iff1 z \<noteq> 0 \<and> irq \<and> \<not> z_ei_delay z"

definition z80_batch_release_bus :: "z80_state \<Rightarrow> z80_state" where
  "z80_batch_release_bus z = z\<lparr>z_held_valid := False\<rparr>"

subsection \<open>Peek and poke\<close>

record Z80Regs =
  rg_af :: u16
  rg_bc :: u16
  rg_de :: u16
  rg_hl :: u16
  rg_af2 :: u16
  rg_bc2 :: u16
  rg_de2 :: u16
  rg_hl2 :: u16
  rg_ix :: u16
  rg_iy :: u16
  rg_sp :: u16
  rg_pc :: u16
  rg_wz :: u16
  rg_i :: u8
  rg_r :: u8
  rg_im :: u8
  rg_iff1 :: u8
  rg_iff2 :: u8
  rg_q :: u8
  rg_halted :: u8
  rg_tstates :: u64
  rg_instr_count :: u64
  rg_last_opcode :: u8
  rg_unimplemented :: u8

definition z80_peek :: "z80_state \<Rightarrow> Z80Regs" where
  "z80_peek z = \<lparr>rg_af = z_af z, rg_bc = z_bc z, rg_de = z_de z, rg_hl = z_hl z, rg_af2 = z_af2 z, rg_bc2 = z_bc2 z,
     rg_de2 = z_de2 z, rg_hl2 = z_hl2 z, rg_ix = z_ix z, rg_iy = z_iy z, rg_sp = z_sp z, rg_pc = z_pc z,
     rg_wz = z_wz z, rg_i = z_i z, rg_r = z_r z, rg_im = z_im z, rg_iff1 = z_iff1 z, rg_iff2 = z_iff2 z, rg_q = z_q z,
     rg_halted = (if z_halted z then 1 else 0), rg_tstates = z_tstates z, rg_instr_count = z_instr_count z,
     rg_last_opcode = z_opcode z, rg_unimplemented = (if z_unimplemented z then 1 else 0)\<rparr>"

definition z80_poke :: "z80_state \<Rightarrow> Z80Regs \<Rightarrow> z80_state" where
  "z80_poke z r = z\<lparr>z_af := rg_af r, z_bc := rg_bc r, z_de := rg_de r, z_hl := rg_hl r, z_af2 := rg_af2 r,
     z_bc2 := rg_bc2 r, z_de2 := rg_de2 r, z_hl2 := rg_hl2 r, z_ix := rg_ix r, z_iy := rg_iy r, z_sp := rg_sp r,
     z_pc := rg_pc r, z_wz := rg_wz r, z_i := rg_i r, z_r := rg_r r, z_im := rg_im r AND 3, z_iff1 := rg_iff1 r,
     z_iff2 := rg_iff2 r, z_halted := (rg_halted r \<noteq> 0), z_q := rg_q r, z_qq := 0, z_mc := MC_M1, z_t := 0,
     z_step := 0, z_opcode := 0, z_tmp := 0, z_tmpl := 0, z_halt_t := 0, z_prefix := 0, z_mc_addr := 0,
     z_mc_wval := 0, z_mc_ilen := 0, z_mc_io_read := False, z_index := Idx_HL, z_mem_addr := 0, z_nmi_prev := False,
     z_nmi_pending := False, z_ei_delay := False, z_servicing := Svc_NONE, z_int_vec := 0, z_held := CpuBus_zero,
     z_held_valid := False, z_unimplemented := False, z_tstates := 0, z_instr_count := 0\<rparr>"

end
