(* ===== verification/Z80_Batch.thy ===== *)
theory Z80_Batch
  imports Z80
begin

text \<open>
  The batch engine of the Z80 against the per-cycle one. A \<open>bench\<close> is a CPU on a bus with one
  responder that sees only the lines the CPU drove in the previous T-state and answers each transaction once,
  through the same callbacks the batch engine uses: memory and interrupt acknowledge on the first T-state of
  the strobe, an I/O read on the T-state whose wait state was released, writes when the write strobe appears.
  \<open>T_state\<close> runs one T-state of \<open>z80_tick\<close> on that bus; the Gate Array's clock phase and wait line are
  those of the T-state counter (\<open>phase = 4 * (tstates mod 4)\<close>, wait released in slot 1) when the grid is on.
\<close>

subsection \<open>The bench\<close>

record 'e bench =
  bn_z :: z80_state
  bn_lines :: CpuBus
  bn_count :: nat
  bn_latch :: u8
  bn_env :: 'e

definition strobe :: "CpuBus \<Rightarrow> bool" where
  "strobe l \<longleftrightarrow> cpu_mreq l \<and> cpu_rd l \<or> cpu_wr l \<or> cpu_iorq l"

text \<open>For how many T-states the strobe now on the lines has been there.\<close>

definition seen :: "CpuBus \<Rightarrow> nat \<Rightarrow> nat" where
  "seen l c = (if strobe l then c + 1 else 0)"

definition serve :: "'e batch_engine \<Rightarrow> u64 \<Rightarrow> nat \<Rightarrow> CpuBus \<Rightarrow> u8 \<times> 'e \<Rightarrow> u8 \<times> 'e" where
  "serve g now n l de =
    (case de of (d, e) \<Rightarrow>
      if n = 1 \<and> cpu_mreq l \<and> cpu_rd l then io_mem_read (eng_io g) e (cpu_addr l) (now - 1)
      else if n = 1 \<and> cpu_mreq l \<and> cpu_wr l then (d, io_mem_write (eng_io g) e (cpu_addr l) (cpu_data l) (now - 2))
      else if n = 1 \<and> cpu_iorq l \<and> cpu_m1 l then int_ack g e (now - 1)
      else if n = 1 \<and> cpu_iorq l \<and> cpu_wr l then (d, io_io_write (eng_io g) e (cpu_addr l) (cpu_data l) (now - 1))
      else if n \<ge> 3 \<and> cpu_iorq l \<and> cpu_rd l \<and> (eng_grid g \<longrightarrow> now AND 3 = 2)
        then io_io_read (eng_io g) e (cpu_addr l) (now - 1)
      else (d, e))"

definition T_bus :: "bool \<Rightarrow> bool \<Rightarrow> u64 \<Rightarrow> CpuBus \<Rightarrow> u8 \<Rightarrow> Bus" where
  "T_bus grid irq now l d =
    bus_resting\<lparr>b_cpu := l\<lparr>cpu_data := d, cpu_irq := irq, cpu_wait := (grid \<and> now AND 3 \<noteq> 1),
                          cpu_nmi := False, cpu_busrq := False\<rparr>,
      b_clk := \<lparr>clk_cpu = True, clk_crtc = False, clk_psg = False,
                clk_phase = (if grid then 4 * ucast (now AND 3) else 0)\<rparr>\<rparr>"

definition T_state :: "'e batch_engine \<Rightarrow> bool \<Rightarrow> 'e bench \<Rightarrow> 'e bench" where
  "T_state g irq b =
    (let l = bn_lines b; now = z_tstates (bn_z b); n = seen l (bn_count b);
         de = serve g now n l (bn_latch b, bn_env b);
         r = z80_tick (bn_z b) (T_bus (eng_grid g) irq now l (fst de)) bus_resting
     in \<lparr>bn_z = fst r, bn_lines = b_cpu (snd r), bn_count = n, bn_latch = fst de, bn_env = snd de\<rparr>)"

lemma T_bus_sel [simp]:
  "clk_cpu (b_clk (T_bus grid irq now l d))" "cpu_data (b_cpu (T_bus grid irq now l d)) = d"
  "cpu_irq (b_cpu (T_bus grid irq now l d)) = irq" "\<not> cpu_nmi (b_cpu (T_bus grid irq now l d))"
  "cpu_wait (b_cpu (T_bus grid irq now l d)) = (grid \<and> now AND 3 \<noteq> 1)"
  "\<not> cpu_busrq (b_cpu (T_bus grid irq now l d))"
  "clk_phase (b_clk (T_bus grid irq now l d)) = (if grid then 4 * ucast (now AND 3) else 0)"
  by (simp_all add: T_bus_def)

lemma slot_take: "(t :: u64) AND 3 = take_bit 2 t"
  by (simp add: take_bit_eq_mask mask_eq_exp_minus_1)

lemma slot_unat: "unat ((t :: u64) AND 3) = unat t mod 4"
  by (simp add: slot_take unat_take_bit)

lemma phase_zero [simp]: "4 * ucast (now AND 3 :: u64) = (0 :: u8) \<longleftrightarrow> now AND 3 = 0"
proof -
  have "unat (4 * ucast (now AND 3) :: u8) = 4 * (unat now mod 4)"
    by (simp add: unat_word_ariths unsigned_ucast_eq slot_unat take_bit_eq_mod)
  then show ?thesis
    by (metis mult_eq_0_iff slot_unat unat_eq_zero zero_neq_numeral)
qed

lemma slots:
  obtains "(t :: u64) AND 3 = 0" | "t AND 3 = 1" | "t AND 3 = 2" | "t AND 3 = 3"
proof -
  have "unat (t AND 3) < 4" by (simp add: slot_unat)
  then have "unat (t AND 3) = 0 \<or> unat (t AND 3) = 1 \<or> unat (t AND 3) = 2 \<or> unat (t AND 3) = 3" by linarith
  then show thesis by (auto simp: word_unat_eq_iff intro: that)
qed

lemma slot_add: "(t + n) AND 3 = ((t AND 3) + n) AND (3 :: u64)"
  by (simp add: slot_take take_bit_add_left)

subsection \<open>Single T-states\<close>

lemma resting_sel [simp]:
  "cpu_addr (b_cpu bus_resting) = 0" "\<not> cpu_m1 (b_cpu bus_resting)" "\<not> cpu_mreq (b_cpu bus_resting)"
  "\<not> cpu_iorq (b_cpu bus_resting)" "\<not> cpu_rd (b_cpu bus_resting)" "\<not> cpu_wr (b_cpu bus_resting)"
  by (simp_all add: bus_resting_def)

definition lines :: "asg list \<Rightarrow> CpuBus" where
  "lines ds = b_cpu (drive ds bus_resting)"

lemma lines_eq: "b_cpu (drive ds bus_resting) = lines ds"
  by (simp add: lines_def)

text \<open>Between machine cycles the responder has nothing to do: no strobe is up, except that the interrupt
  acknowledge keeps its strobe through its last T-state, which the first push follows.\<close>

definition quiet :: "MC \<Rightarrow> CpuBus \<Rightarrow> nat \<Rightarrow> bool" where
  "quiet m l c \<longleftrightarrow> (strobe l \<longrightarrow> m = MC_WRITE \<and> 1 \<le> c \<and> cpu_iorq l \<and> \<not> cpu_rd l)"

lemma serve_quiet: "quiet m l c \<Longrightarrow> serve g now (seen l c) l (d, e) = (d, e)"
  by (auto simp: serve_def quiet_def seen_def)

abbreviation Bn :: "z80_state \<Rightarrow> CpuBus \<Rightarrow> nat \<Rightarrow> u8 \<Rightarrow> 'e \<Rightarrow> 'e bench" where
  "Bn z l c d e \<equiv> \<lparr>bn_z = z, bn_lines = l, bn_count = c, bn_latch = d, bn_env = e\<rparr>"

lemma view_held [simp]:
  "view (z\<lparr>z_held := h\<rparr>) = view z" "view (z\<lparr>z_held_valid := v\<rparr>) = view z"
  "view (z\<lparr>z_held := h, z_held_valid := v\<rparr>) = view z"
  by (simp_all add: view_def)

lemma dirty_latch_nmi [simp]: "latch_nmi (dirty h v p x ad z) (T_bus gr irq now l d) = dirty h v False x ad z"
  by (simp add: latch_nmi_def)

lemma T_state_run:
  assumes "\<not> z_halted z" and "serve g (z_tstates z) (seen l c) l (d, e) = (d', e')"
  shows "T_state g irq (Bn (dirty h v p x ad z) l c d e) =
    (let r = running_T (dirty h v False x ad z) (T_bus (eng_grid g) irq (z_tstates z) l d') in
     Bn ((fst r)\<lparr>z_held := lines (snd r), z_held_valid := True\<rparr>) (lines (snd r)) (seen l c) d' e')"
  using assms by (simp add: T_state_def z80_tick_def clocked_def split_beta Let_def lines_eq)

lemmas T_defs = running_T_def cyc_def Let_def split_beta next_micro_def

lemma T_hold:
  assumes "\<not> z_halted z" "z_mc z \<noteq> MC_INTERNAL" "z_mc z \<noteq> MC_IO" "eng_grid g" "z_tstates z AND 3 \<noteq> 0" "quiet m l c"
  shows "T_state g irq (Bn (dirty h v p 0 ad z) l c d e) =
    Bn (dirty (lines [Dr_halt False]) True False 0 ad (z\<lparr>z_tstates := z_tstates z + 1\<rparr>)) (lines [Dr_halt False])
      (seen l c) d e"
  using assms by (simp add: T_state_run [OF _ serve_quiet] T_defs)

definition rd_lines :: "u16 \<Rightarrow> CpuBus" where
  "rd_lines ad = lines [Dr_addr ad, Dr_set_rd True, Dr_set_mreq True, Dr_halt False]"

definition m1_lines :: "u16 \<Rightarrow> CpuBus" where
  "m1_lines ad = lines [Dr_addr ad, Dr_set_rd True, Dr_set_mreq True, Dr_m1 True, Dr_halt False]"

definition w1_lines :: "u16 \<Rightarrow> u8 \<Rightarrow> CpuBus" where
  "w1_lines ad w = lines [Dr_addr ad, Dr_data w, Dr_set_mreq True, Dr_halt False]"

definition wr_lines :: "u16 \<Rightarrow> u8 \<Rightarrow> CpuBus" where
  "wr_lines ad w = lines [Dr_addr ad, Dr_data w, Dr_wr True, Dr_set_mreq True, Dr_halt False]"

definition io_lines :: "z80_state \<Rightarrow> u16 \<Rightarrow> CpuBus" where
  "io_lines z ad = lines ([Dr_addr ad, Dr_iorq True]
     @ (if z_mc_io_read z then [Dr_set_rd True] else [Dr_wr True, Dr_data (z_mc_wval z)]) @ [Dr_halt False])"

definition ack_lines :: "z80_state \<Rightarrow> CpuBus" where
  "ack_lines z = lines [Dr_addr (z_pc z), Dr_m1 True,
     (if z_servicing z = Svc_MASKABLE then Dr_iorq True else Dr_set_mreq True), Dr_halt False]"

lemma no_strobe [simp]:
  "\<not> strobe (lines [Dr_halt b])" "\<not> strobe (w1_lines a w)"
  "\<not> strobe (lines [Dr_addr a, Dr_rfsh True, Dr_set_mreq True, Dr_halt b])"
  "\<not> strobe (lines [Dr_addr a, Dr_rfsh True, Dr_halt b])" "\<not> strobe (lines [])"
  by (simp_all add: strobe_def lines_def w1_lines_def)

lemma not_strobe_quiet [simp]: "\<not> strobe l \<Longrightarrow> quiet m l c"
  by (simp add: quiet_def)

lemma seen_none [simp]: "\<not> strobe l \<Longrightarrow> seen l c = 0"
  by (simp add: seen_def)

lemma T_read12:
  assumes "\<not> z_halted z" "z_mc z = MC_READ" "eng_grid g \<longrightarrow> z_tstates z AND 3 = of_nat x" "x < 2"
    "serve g (z_tstates z) (seen l c) l (d, e) = (d', e')"
  shows "T_state g irq (Bn (dirty h v p x ad z) l c d e) =
     Bn (dirty (rd_lines ad) True False (x + 1) ad (z\<lparr>z_tstates := z_tstates z + 1\<rparr>)) (rd_lines ad) (seen l c) d' e'"
  using assms by (cases x) (simp_all add: T_state_run [OF _ assms(5)] T_defs cyc_read_def rd_lines_def)

lemma T_read3:
  assumes "\<not> z_halted z" "z_mc z = MC_READ"
    "serve g (z_tstates z) (seen l c) l (d, e) = (d', e')"
  shows "\<exists>zb l'. T_state g irq (Bn (dirty h v p 2 ad z) l c d e) = Bn zb l' (seen l c) d' e'
    \<and> view zb = view (next_micro (z\<lparr>z_tstates := z_tstates z + 1, z_tmp := d'\<rparr>)) \<and> \<not> strobe l'"
  using assms by (simp add: T_state_run [OF _ assms(3)] T_defs cyc_read_def)

lemma T_write1:
  assumes "\<not> z_halted z" "z_mc z = MC_WRITE" "eng_grid g \<longrightarrow> z_tstates z AND 3 = 0" "quiet m l c"
  shows "T_state g irq (Bn (dirty h v p 0 ad z) l c d e) =
     Bn (dirty (w1_lines ad (z_mc_wval z)) True False 1 ad (z\<lparr>z_tstates := z_tstates z + 1\<rparr>))
       (w1_lines ad (z_mc_wval z)) (seen l c) d e"
  using assms by (simp add: T_state_run [OF _ serve_quiet] T_defs cyc_write_def w1_lines_def)

lemma T_write2:
  assumes "\<not> z_halted z" "z_mc z = MC_WRITE" "eng_grid g \<longrightarrow> z_tstates z AND 3 = 1" "\<not> strobe l"
  shows "T_state g irq (Bn (dirty h v p 1 ad z) l c d e) =
     Bn (dirty (wr_lines ad (z_mc_wval z)) True False 2 ad (z\<lparr>z_tstates := z_tstates z + 1\<rparr>))
       (wr_lines ad (z_mc_wval z)) 0 d e"
  using assms by (simp add: T_state_run [OF _ serve_quiet [OF not_strobe_quiet]] T_defs cyc_write_def wr_lines_def)

lemma T_write3:
  assumes "\<not> z_halted z" "z_mc z = MC_WRITE"
  shows "\<exists>zb l'. T_state g irq (Bn (dirty h v p 2 ad z) (wr_lines ad w) 0 d e) =
      Bn zb l' 1 d (io_mem_write (eng_io g) e ad w (z_tstates z - 2))
    \<and> view zb = view (next_micro (z\<lparr>z_tstates := z_tstates z + 1\<rparr>)) \<and> \<not> strobe l'"
proof -
  have s: "seen (wr_lines ad w) 0 = 1" by (simp add: seen_def strobe_def wr_lines_def lines_def)
  have "serve g (z_tstates z) (seen (wr_lines ad w) 0) (wr_lines ad w) (d, e) =
      (d, io_mem_write (eng_io g) e ad w (z_tstates z - 2))"
    unfolding s by (simp add: serve_def wr_lines_def lines_def)
  with assms show ?thesis
    by (simp add: T_state_run s T_defs cyc_write_def)
qed

definition boundary :: "z80_state \<Rightarrow> bool" where
  "boundary z \<longleftrightarrow> z_prefix z = 0 \<and> z_index z = Idx_HL"

definition m1_entry :: "z80_state \<Rightarrow> z80_state" where
  "m1_entry z = (if boundary z then z\<lparr>z_qq := 0, z_ei_delay := False\<rparr> else z\<lparr>z_qq := 0\<rparr>)"

lemma T_m1_1:
  assumes "\<not> z_halted z" "z_mc z = MC_M1" "eng_grid g \<longrightarrow> z_tstates z AND 3 = 0" "\<not> strobe l"
    "\<not> boundary z \<or> \<not> int_ready z irq"
  shows "T_state g irq (Bn (dirty h v p 0 ad z) l c d e) =
     Bn (dirty (m1_lines (z_pc z)) True False 1 (z_pc z)
       ((m1_entry z)\<lparr>z_tstates := z_tstates z + 1, z_pc := z_pc z + 1\<rparr>)) (m1_lines (z_pc z)) 0 d e"
  using assms by (auto simp add: T_state_run [OF _ serve_quiet [OF not_strobe_quiet]] T_defs cyc_m1_def m1_T1_def
      m1_fetch_T1_def m1_lines_def int_ready_def accept_def boundary_def m1_entry_def)

lemma T_m1_2:
  assumes "\<not> z_halted z" "z_mc z = MC_M1" "serve g (z_tstates z) (seen l c) l (d, e) = (d', e')"
  shows "T_state g irq (Bn (dirty h v p 1 ad z) l c d e) =
     Bn (dirty (m1_lines ad) True False 2 ad (z\<lparr>z_tstates := z_tstates z + 1\<rparr>)) (m1_lines ad) (seen l c) d' e'"
  using assms by (simp add: T_state_run [OF _ assms(3)] T_defs cyc_m1_def m1_lines_def)

definition rf_lines :: "z80_state \<Rightarrow> CpuBus" where
  "rf_lines z = lines [Dr_addr (refresh_addr z), Dr_rfsh True, Dr_set_mreq True, Dr_halt False]"

lemma no_strobe_rf [simp]: "\<not> strobe (rf_lines z)"
  by (simp add: rf_lines_def)

lemma refresh_addr_dirty [simp]: "refresh_addr (dirty h v p x ad z) = refresh_addr z"
  by (simp add: refresh_addr_def)

lemma halted_bump [simp]: "z_halted (bump_refresh z) = z_halted z"
  by (simp add: bump_refresh_def)

lemma T_m1_3:
  assumes "\<not> z_halted z" "z_mc z = MC_M1" "serve g (z_tstates z) (seen l c) l (d, e) = (d', e')"
  shows "T_state g irq (Bn (dirty h v p 2 ad z) l c d e) =
     (let z1 = bump_refresh (z\<lparr>z_tstates := z_tstates z + 1, z_opcode := d'\<rparr>) in
      Bn (dirty (rf_lines z1) True False 3 ad z1) (rf_lines z1) (seen l c) d' e')"
  using assms by (simp add: T_state_run [OF _ assms(3)] T_defs cyc_m1_def rf_lines_def)

lemma prefix_byte_dirty [simp]:
  "prefix_byte (dirty h v p x ad z) = map_option (dirty h v p x ad) (prefix_byte z)"
  by (simp add: prefix_byte_def)

lemma view_dirty_M1:
  "z_mc z = MC_M1 \<Longrightarrow> z_t z = 0 \<Longrightarrow> view (dirty h v p 0 ad z) = view z"
  by (cases z) (simp add: view_def dirty_def addressed_def)

lemma T_m1_4_prefix:
  assumes "\<not> z_halted z" "z_mc z = MC_M1" "\<not> strobe l" "prefix_byte (z\<lparr>z_tstates := z_tstates z + 1\<rparr>) = Some z1"
    "z_t z = 0"
  shows "\<exists>zb l'. T_state g irq (Bn (dirty h v p 3 ad z) l c d e) = Bn zb l' 0 d e
    \<and> view zb = view z1 \<and> \<not> strobe l'"
proof -
  have m: "z_mc z1 = MC_M1" "z_t z1 = 0"
    using assms by (auto simp: prefix_byte_def split: if_splits)
  have same: "z1\<lparr>z_mc := MC_M1\<rparr> = z1"
    using m by simp
  show ?thesis
    using m assms by (simp add: T_state_run [OF _ serve_quiet [OF not_strobe_quiet]] T_defs cyc_m1_def m1_T4_def
        view_dirty_M1 same)
qed

lemma T_m1_4_run:
  assumes "\<not> z_halted z" "z_mc z = MC_M1" "\<not> strobe l" "prefix_byte (z\<lparr>z_tstates := z_tstates z + 1\<rparr>) = None"
  shows "\<exists>zb l'. T_state g irq (Bn (dirty h v p 3 ad z) l c d e) = Bn zb l' 0 d e
    \<and> view zb = view (run_micro (z\<lparr>z_tstates := z_tstates z + 1, z_step := 0\<rparr>)) \<and> \<not> strobe l'"
  using assms by (simp add: T_state_run [OF _ serve_quiet [OF not_strobe_quiet]] T_defs cyc_m1_def m1_T4_def)

lemma accept_dirty [simp]:
  "accept w irq (dirty h v p x ad z) = map_option (dirty h v p x ad) (accept w irq z)"
  by (simp add: accept_def)

lemma T_accept:
  assumes "\<not> z_halted z" "z_mc z = MC_M1" "eng_grid g \<longrightarrow> z_tstates z AND 3 = 0" "\<not> strobe l" "boundary z"
    "accept (z_ei_delay z) irq (z\<lparr>z_tstates := z_tstates z + 1, z_qq := 0, z_ei_delay := False\<rparr>) = Some z1"
  shows "\<exists>zb l'. T_state g irq (Bn (dirty h v p 0 ad z) l c d e) = Bn zb l' 0 d e
    \<and> view zb = view (run_micro z1) \<and> \<not> strobe l'"
  using assms by (simp add: T_state_run [OF _ serve_quiet [OF not_strobe_quiet]] T_defs cyc_m1_def m1_T1_def boundary_def)

lemma T_internal:
  assumes "\<not> z_halted z" "z_mc z = MC_INTERNAL" "x + 1 < z_mc_ilen z" "\<not> strobe l"
  shows "T_state g irq (Bn (dirty h v p x ad z) l c d e) =
    Bn (dirty (lines [Dr_halt False]) True False (x + 1) ad (z\<lparr>z_tstates := z_tstates z + 1\<rparr>)) (lines [Dr_halt False]) 0 d e"
  using assms by (simp add: T_state_run [OF _ serve_quiet [OF not_strobe_quiet]] T_defs cyc_internal_def)

lemma T_internal_last:
  assumes "\<not> z_halted z" "z_mc z = MC_INTERNAL" "x + 1 \<ge> z_mc_ilen z" "\<not> strobe l"
  shows "\<exists>zb l'. T_state g irq (Bn (dirty h v p x ad z) l c d e) = Bn zb l' 0 d e
    \<and> view zb = view (next_micro (z\<lparr>z_tstates := z_tstates z + 1\<rparr>)) \<and> \<not> strobe l'"
  using assms by (simp add: T_state_run [OF _ serve_quiet [OF not_strobe_quiet]] T_defs cyc_internal_def)

lemma io_lines_upd [simp]: "io_lines (z\<lparr>z_tstates := n\<rparr>) ad = io_lines z ad"
  by (simp add: io_lines_def)

lemma T_io:
  assumes "\<not> z_halted z" "z_mc z = MC_IO" "x < 2 \<or> x = 2 \<and> eng_grid g \<and> z_tstates z AND 3 \<noteq> 1"
    "serve g (z_tstates z) (seen l c) l (d, e) = (d', e')"
  shows "T_state g irq (Bn (dirty h v p x ad z) l c d e) =
    Bn (dirty (io_lines z ad) True False (min (x + 1) 2) ad (z\<lparr>z_tstates := z_tstates z + 1\<rparr>))
      (io_lines z ad) (seen l c) d' e'"
proof -
  consider "x = 0" | "x = 1" | "x = 2" using assms(3) by linarith
  then show ?thesis
    using assms by cases (simp_all add: T_state_run [OF _ assms(4)] T_defs cyc_io_def io_lines_def)
qed

lemma T_io_released:
  assumes "\<not> z_halted z" "z_mc z = MC_IO" "eng_grid g \<longrightarrow> z_tstates z AND 3 = 1"
    "serve g (z_tstates z) (seen l c) l (d, e) = (d', e')"
  shows "T_state g irq (Bn (dirty h v p 2 ad z) l c d e) =
    Bn (dirty (io_lines z ad) True False 3 ad (z\<lparr>z_tstates := z_tstates z + 1\<rparr>)) (io_lines z ad) (seen l c) d' e'"
  using assms by (simp add: T_state_run [OF _ assms(4)] T_defs cyc_io_def io_lines_def)

lemma T_io_last:
  assumes "\<not> z_halted z" "z_mc z = MC_IO" "serve g (z_tstates z) (seen l c) l (d, e) = (d', e')"
  shows "\<exists>zb l'. T_state g irq (Bn (dirty h v p 3 ad z) l c d e) = Bn zb l' (seen l c) d' e'
    \<and> view zb = view (next_micro (if z_mc_io_read z then z\<lparr>z_tstates := z_tstates z + 1, z_tmp := d'\<rparr>
        else z\<lparr>z_tstates := z_tstates z + 1\<rparr>)) \<and> \<not> strobe l'"
  using assms by (simp add: T_state_run [OF _ assms(3)] T_defs cyc_io_def)

lemma ack_lines_upd [simp]: "ack_lines (z\<lparr>z_tstates := n\<rparr>) = ack_lines z"
  by (simp add: ack_lines_def)

lemma T_ack:
  assumes "\<not> z_halted z" "z_mc z = MC_IOACK" "x = 0 \<longrightarrow> eng_grid g \<longrightarrow> z_tstates z AND 3 = 0" "x + 1 < z_mc_ilen z"
    "serve g (z_tstates z) (seen l c) l (d, e) = (d', e')"
  shows "T_state g irq (Bn (dirty h v p x ad z) l c d e) =
    Bn (dirty (ack_lines z) True False (x + 1) ad (z\<lparr>z_tstates := z_tstates z + 1\<rparr>)) (ack_lines z) (seen l c) d' e'"
  using assms by (cases "x = 0") (simp_all add: T_state_run [OF _ assms(5)] T_defs cyc_ioack_def ack_lines_def)

lemma T_ack_last:
  assumes "\<not> z_halted z" "z_mc z = MC_IOACK" "x > 0" "x + 1 \<ge> z_mc_ilen z"
    "serve g (z_tstates z) (seen l c) l (d, e) = (d', e')"
  shows "\<exists>zb l'. T_state g irq (Bn (dirty h v p x ad z) l c d e) = Bn zb l' (seen l c) d' e'
    \<and> view zb = view (next_micro (if z_servicing z = Svc_MASKABLE
        then z\<lparr>z_tstates := z_tstates z + 1, z_int_vec := d'\<rparr> else z\<lparr>z_tstates := z_tstates z + 1\<rparr>))
    \<and> (strobe l' \<longrightarrow> z_servicing z = Svc_MASKABLE \<and> cpu_iorq l' \<and> \<not> cpu_rd l')"
  using assms by (simp add: T_state_run [OF _ assms(5)] T_defs cyc_ioack_def, simp add: strobe_def lines_def)
subsection \<open>Whole machine cycles\<close>

definition reach :: "'e batch_engine \<Rightarrow> bool \<Rightarrow> u64 \<Rightarrow> 'e bench \<Rightarrow> 'e bench \<Rightarrow> bool" where
  "reach g irq n b b' \<longleftrightarrow> (\<exists>k. of_nat k = n \<and> (T_state g irq ^^ k) b = b')"

lemma reach_refl [intro]: "reach g irq 0 b b"
  by (auto simp: reach_def intro: exI [of _ 0])

lemma reach_step:
  assumes "reach g irq n (T_state g irq b) b'"
  shows "reach g irq (1 + n) b b'"
proof -
  obtain k where "of_nat k = n" "(T_state g irq ^^ k) (T_state g irq b) = b'"
    using assms by (auto simp: reach_def)
  then show ?thesis
    unfolding reach_def by (intro exI [of _ "Suc k"]) (simp add: funpow_swap1)
qed

lemma reach_trans:
  assumes "reach g irq m a b" "reach g irq n b c"
  shows "reach g irq (m + n) a c"
proof -
  obtain j k where "of_nat j = m" "(T_state g irq ^^ j) a = b" "of_nat k = n" "(T_state g irq ^^ k) b = c"
    using assms by (auto simp: reach_def)
  then show ?thesis
    unfolding reach_def by (intro exI [of _ "k + j"]) (auto simp: funpow_add)
qed

definition in_step :: "'e bench \<Rightarrow> z80_state \<Rightarrow> 'e \<Rightarrow> bool" where
  "in_step b z e \<longleftrightarrow> view (bn_z b) = view z \<and> z_t z = 0 \<and> bn_env b = e \<and> quiet (z_mc z) (bn_lines b) (bn_count b)"

lemma view_sel:
  assumes "view y = view z"
  shows "z_t y = z_t z" "z_mc y = z_mc z" "addressed (z_mc z) \<Longrightarrow> z_mc_addr y = z_mc_addr z"
proof -
  show "z_t y = z_t z" "z_mc y = z_mc z"
    using arg_cong [OF assms, of z_t] arg_cong [OF assms, of z_mc] by (simp_all add: view_def)
  then show "addressed (z_mc z) \<Longrightarrow> z_mc_addr y = z_mc_addr z"
    using arg_cong [OF assms, of z_mc_addr] by (simp add: view_def)
qed

lemma in_stepE:
  assumes "in_step b z e"
  obtains h v p ad l c d where "b = Bn (dirty h v p 0 ad z) l c d e" "quiet (z_mc z) l c"
    "addressed (z_mc z) \<longrightarrow> ad = z_mc_addr z"
proof
  let ?y = "bn_z b"
  have v: "view ?y = view z" and t: "z_t z = 0" and e: "bn_env b = e"
    using assms by (simp_all add: in_step_def)
  show "b = Bn (dirty (z_held ?y) (z_held_valid ?y) (z_nmi_prev ?y) 0 (z_mc_addr ?y) z) (bn_lines b) (bn_count b)
      (bn_latch b) e"
    using view_eq_dirty [OF v] view_sel(1) [OF v] t e by (cases b) simp
  show "quiet (z_mc z) (bn_lines b) (bn_count b)"
    using assms by (simp add: in_step_def)
  show "addressed (z_mc z) \<longrightarrow> z_mc_addr ?y = z_mc_addr z"
    using view_sel(3) [OF v] by simp
qed

lemma in_stepI:
  assumes "view zb = view z" "z_t z = 0" "\<not> strobe l"
  shows "in_step (Bn zb l c d e) z e"
  using assms by (simp add: in_step_def)

lemma view_dirty_same:
  assumes "addressed (z_mc z) \<Longrightarrow> ad = z_mc_addr z" "z_t z = 0"
  shows "view (dirty h v p 0 ad z) = view z"
  using assms by (cases z) (simp add: view_def dirty_def)

lemma hold_in_step:
  assumes "in_step b z e" "\<not> z_halted z" "z_mc z \<noteq> MC_INTERNAL" "z_mc z \<noteq> MC_IO" "eng_grid g" "z_tstates z AND 3 \<noteq> 0"
  shows "in_step (T_state g irq b) (z\<lparr>z_tstates := z_tstates z + 1\<rparr>) e"
proof -
  have t: "z_t z = 0" using assms(1) by (simp add: in_step_def)
  obtain h v p ad l c d where b: "b = Bn (dirty h v p 0 ad z) l c d e" and q: "quiet (z_mc z) l c"
    and a: "addressed (z_mc z) \<longrightarrow> ad = z_mc_addr z"
    using assms(1) by (rule in_stepE)
  show ?thesis
    unfolding b T_hold [OF assms(2-6) q] using a t by (intro in_stepI view_dirty_same) simp_all
qed

lemma align_reach:
  assumes "in_step b z e" "\<not> z_halted z" "z_mc z \<noteq> MC_INTERNAL" "z_mc z \<noteq> MC_IO"
  shows "\<exists>b'. reach g irq (z_tstates (align_mem g z) - z_tstates z) b b' \<and> in_step b' (align_mem g z) e"
proof (cases "eng_grid g")
  case False
  then show ?thesis
    using assms(1) by (auto simp: align_mem_def)
next
  case True
  note hold = hold_in_step [OF _ _ _ _ True]
  note step = reach_step [where n = 0, OF reach_refl] reach_step [OF reach_step [where n = 0, OF reach_refl]]
    reach_step [OF reach_step [OF reach_step [where n = 0, OF reach_refl]]]
  show ?thesis
  proof (cases rule: slots [of "z_tstates z"])
    case 1
    then show ?thesis using assms(1) by (auto simp: align_mem_def)
  next
    case 2
    then have "in_step (T_state g irq (T_state g irq (T_state g irq b))) (align_mem g z) e"
      using hold [OF hold [OF hold [OF assms]]] assms(2-4) True by (simp add: align_mem_def slot_add add.assoc)
    then show ?thesis
      using step(3) 2 True by (auto simp: align_mem_def intro!: exI)
  next
    case 3
    then have "in_step (T_state g irq (T_state g irq b)) (align_mem g z) e"
      using hold [OF hold [OF assms]] assms(2-4) True by (simp add: align_mem_def slot_add add.assoc)
    then show ?thesis
      using step(2) 3 True by (auto simp: align_mem_def intro!: exI)
  next
    case 4
    then have "in_step (T_state g irq b) (align_mem g z) e"
      using hold [OF assms] assms(2-4) True by (simp add: align_mem_def)
    then show ?thesis
      using step(1) 4 True by (auto simp: align_mem_def intro!: exI)
  qed
qed
lemma run_micro_t [simp]: "z_t (run_micro z) = 0" "z_t (next_micro z) = 0"
  using stepped_run_micro [of z] stepped_run_micro [of "z\<lparr>z_step := z_step z + 1\<rparr>"]
  by (simp_all add: stepped_def next_micro_def)

lemma reach1: "reach g irq 1 b (T_state g irq b)"
  using reach_step [where n = 0, OF reach_refl] by simp

lemma reach3: "reach g irq 3 b (T_state g irq (T_state g irq (T_state g irq b)))"
  using reach_step [OF reach_step [OF reach1]] by simp

lemma reach4: "reach g irq 4 b (T_state g irq (T_state g irq (T_state g irq (T_state g irq b))))"
  using reach_step [OF reach3] by simp

lemma rd_seen [simp]:
  "seen (rd_lines ad) n = n + 1" "seen (m1_lines ad) n = n + 1"
  by (simp_all add: seen_def strobe_def rd_lines_def m1_lines_def lines_def)

lemma serve_rd:
  "serve g now 1 (rd_lines ad) (d, e) = io_mem_read (eng_io g) e ad (now - 1)"
  "serve g now (Suc (Suc n)) (rd_lines ad) de = de"
  "serve g now 1 (m1_lines ad) (d, e) = io_mem_read (eng_io g) e ad (now - 1)"
  "serve g now (Suc (Suc n)) (m1_lines ad) de = de"
  by (simp_all add: serve_def rd_lines_def m1_lines_def lines_def split: prod.split)

lemma arrive:
  assumes "reach g irq n b (Bn zb l c d e)" "view zb = view z" "z_t z = 0" "\<not> strobe l"
  shows "\<exists>b'. reach g irq n b b' \<and> in_step b' z e"
  by (intro exI conjI, rule assms(1), rule in_stepI) (rule assms)+

lemma quiet_not_strobe: "quiet m l c \<Longrightarrow> m \<noteq> MC_WRITE \<Longrightarrow> \<not> strobe l"
  by (auto simp: quiet_def)

lemma tmp_tstates:
  "z\<lparr>z_tmp := a, z_tstates := n\<rparr> = z\<lparr>z_tstates := n, z_tmp := a\<rparr>"
  "z\<lparr>z_int_vec := a, z_tstates := n\<rparr> = z\<lparr>z_tstates := n, z_int_vec := a\<rparr>"
  by simp_all

lemma align_slot: "eng_grid g \<longrightarrow> z_tstates (align_mem g z) AND 3 = 0"
  by (cases rule: slots [of "z_tstates z"]) (simp_all add: align_mem_def slot_add)

lemma align_sel [simp]:
  "z_halted (align_mem g z) = z_halted z" "z_mc (align_mem g z) = z_mc z" "z_mc_addr (align_mem g z) = z_mc_addr z"
  "z_mc_wval (align_mem g z) = z_mc_wval z" "z_mc_ilen (align_mem g z) = z_mc_ilen z" "z_pc (align_mem g z) = z_pc z"
  "z_servicing (align_mem g z) = z_servicing z" "z_step (align_mem g z) = z_step z" "z_prefix (align_mem g z) = z_prefix z"
  "z_index (align_mem g z) = z_index z" "z_t (align_mem g z) = z_t z" "z_qq (align_mem g z) = z_qq z"
  "z_ei_delay (align_mem g z) = z_ei_delay z" "z_nmi_pending (align_mem g z) = z_nmi_pending z"
  "z_iff1 (align_mem g z) = z_iff1 z"
  by (simp_all add: align_mem_def)

lemma read_aligned:
  assumes b: "in_step b z e" and z: "\<not> z_halted z" "z_mc z = MC_READ" and g: "eng_grid g \<longrightarrow> z_tstates z AND 3 = 0"
    and r: "r = io_mem_read (eng_io g) e (z_mc_addr z) (z_tstates z)"
  shows "\<exists>b'. reach g irq 3 b b' \<and> in_step b' (next_micro (z\<lparr>z_tstates := z_tstates z + 3, z_tmp := fst r\<rparr>)) (snd r)"
proof -
  obtain h v p l c d where b': "b = Bn (dirty h v p 0 (z_mc_addr z) z) l c d e" and l: "\<not> strobe l"
    using in_stepE [OF b] z(2) by (metis addressed_def MC.distinct(11) quiet_not_strobe)
  let ?l = "rd_lines (z_mc_addr z)" and ?z = "\<lambda>n. z\<lparr>z_tstates := z_tstates z + n\<rparr>"
  have t1: "T_state g irq b = Bn (dirty ?l True False 1 (z_mc_addr z) (?z 1)) ?l 0 d e"
    unfolding b' using z g l by (subst T_read12 [OF _ _ _ _ serve_quiet [OF not_strobe_quiet]]) simp_all
  have t2: "T_state g irq (T_state g irq b) = Bn (dirty ?l True False 2 (z_mc_addr z) (?z 2)) ?l 1 (fst r) (snd r)"
    unfolding t1 using z g by (subst T_read12) (simp_all add: serve_rd [unfolded One_nat_def] r slot_add)
  obtain zb l' where t3: "T_state g irq (T_state g irq (T_state g irq b)) = Bn zb l' 2 (fst r) (snd r)"
    "view zb = view (next_micro (z\<lparr>z_tstates := z_tstates z + 3, z_tmp := fst r\<rparr>))" "\<not> strobe l'"
    using T_read3 [of "?z 2" g ?l 1 "fst r" "snd r" "fst r" "snd r" irq ?l True False "z_mc_addr z"] z
    by (auto simp: t2 serve_rd add.commute numeral_2_eq_2)
  show ?thesis
    by (rule arrive [OF reach3 [of g irq b, unfolded t3(1)] t3(2) _ t3(3)]) simp
qed

definition cycle_done :: "'e batch_engine \<Rightarrow> bool \<Rightarrow> 'e bench \<Rightarrow> z80_state \<Rightarrow> z80_state \<times> 'e \<Rightarrow> bool" where
  "cycle_done g irq b z s \<longleftrightarrow>
    (\<exists>b'. reach g irq (z_tstates (fst s) - z_tstates z) b b' \<and> in_step b' (next_micro (fst s)) (snd s))"

text \<open>A memory-class cycle waits for its slot, then runs.\<close>

lemma cycle_aligned:
  assumes b: "in_step b z e" and z: "\<not> z_halted z" "z_mc z \<noteq> MC_INTERNAL" "z_mc z \<noteq> MC_IO"
    and run: "\<And>b1. in_step b1 (align_mem g z) e \<Longrightarrow> cycle_done g irq b1 (align_mem g z) s"
  shows "cycle_done g irq b z s"
proof -
  obtain b1 where b1: "reach g irq (z_tstates (align_mem g z) - z_tstates z) b b1" "in_step b1 (align_mem g z) e"
    using align_reach [OF b z] by auto
  obtain b' where b': "reach g irq (z_tstates (fst s) - z_tstates (align_mem g z)) b1 b'" "in_step b' (next_micro (fst s)) (snd s)"
    using run [OF b1(2)] by (auto simp: cycle_done_def)
  show ?thesis
    using reach_trans [OF b1(1) b'(1)] b'(2) by (auto simp: cycle_done_def)
qed

lemma write_aligned:
  assumes b: "in_step b z e" and z: "\<not> z_halted z" "z_mc z = MC_WRITE" and g: "eng_grid g \<longrightarrow> z_tstates z AND 3 = 0"
  shows "cycle_done g irq b z
    (z\<lparr>z_tstates := z_tstates z + 3\<rparr>, io_mem_write (eng_io g) e (z_mc_addr z) (z_mc_wval z) (z_tstates z))"
proof -
  obtain h v p ad l c d where b': "b = Bn (dirty h v p 0 ad z) l c d e" and q: "quiet (z_mc z) l c"
    and ad: "addressed (z_mc z) \<longrightarrow> ad = z_mc_addr z"
    using b by (rule in_stepE)
  let ?w = "wr_lines ad (z_mc_wval z)" and ?l = "w1_lines ad (z_mc_wval z)" and ?z = "\<lambda>n. z\<lparr>z_tstates := z_tstates z + n\<rparr>"
  have t1: "T_state g irq b = Bn (dirty ?l True False 1 ad (?z 1)) ?l (seen l c) d e"
    unfolding b' by (rule T_write1 [OF z g q])
  have t2: "T_state g irq (T_state g irq b) = Bn (dirty ?w True False 2 ad (?z 2)) ?w 0 d e"
    unfolding t1 using z g T_write2 [of "?z 1" g ?l irq ?l True False ad "seen l c" d e] by (simp add: slot_add)
  obtain zb l' where t3: "T_state g irq (T_state g irq (T_state g irq b)) =
      Bn zb l' 1 d (io_mem_write (eng_io g) e ad (z_mc_wval z) (z_tstates z))"
    "view zb = view (next_micro (?z 3))" "\<not> strobe l'"
    using T_write3 [of "?z 2" g irq ?w True False ad "z_mc_wval z" d e] z by (auto simp: t2 add.commute)
  show ?thesis
    using arrive [OF reach3 [of g irq b, unfolded t3(1)] t3(2) _ t3(3)] ad z by (simp add: cycle_done_def addressed_def)
qed

lemma internal_ticks:
  assumes z: "\<not> z_halted z" "z_mc z = MC_INTERNAL" and x: "x < z_mc_ilen z" and l: "\<not> strobe l"
  shows "\<exists>b'. reach g irq (of_nat (z_mc_ilen z - x)) (Bn (dirty h v p x ad z) l c d e) b'
    \<and> in_step b' (next_micro (z\<lparr>z_tstates := z_tstates z + of_nat (z_mc_ilen z - x)\<rparr>)) e"
  using assms
proof (induction "z_mc_ilen z - x" arbitrary: x z h v p l c)
  case 0
  then show ?case by simp
next
  case (Suc n)
  let ?b = "Bn (dirty h v p x ad z) l c d e" and ?z = "z\<lparr>z_tstates := z_tstates z + 1\<rparr>"
  show ?case
  proof (cases "x + 1 < z_mc_ilen z")
    case False
    then obtain zb l' where t: "T_state g irq ?b = Bn zb l' 0 d e" "view zb = view (next_micro ?z)" "\<not> strobe l'"
      using T_internal_last [OF Suc.prems(1,2) _ Suc.prems(4), of x g irq h v p ad c d e] by auto
    moreover have "z_mc_ilen z - x = 1" using False Suc.prems(3) by simp
    ultimately show ?thesis
      using arrive [OF reach1 [of g irq ?b, unfolded t(1)] t(2) _ t(3)] by simp
  next
    case True
    have t: "T_state g irq ?b = Bn (dirty (lines [Dr_halt False]) True False (x + 1) ad ?z) (lines [Dr_halt False]) 0 d e"
      using Suc.prems True by (intro T_internal) auto
    have "n = z_mc_ilen ?z - (x + 1)" using Suc.hyps(2) by simp
    then obtain b' where b': "reach g irq (of_nat (z_mc_ilen z - (x + 1))) (T_state g irq ?b) b'"
      "in_step b' (next_micro (?z\<lparr>z_tstates := z_tstates ?z + of_nat (z_mc_ilen ?z - (x + 1))\<rparr>)) e"
      using Suc.hyps(1) [of ?z "x + 1" "lines [Dr_halt False]" "lines [Dr_halt False]" True False 0]
        Suc.prems True unfolding t by auto
    have n: "1 + of_nat (z_mc_ilen z - (x + 1)) = (of_nat (z_mc_ilen z - x) :: u64)"
      using Suc.prems(3) by (metis Suc_diff_Suc Suc_eq_plus1 of_nat_Suc)
    show ?thesis
      using reach_step [OF b'(1)] b'(2) n by (auto simp: add.assoc)
  qed
qed

lemma internal_cycle:
  assumes b: "in_step b z e" and z: "\<not> z_halted z" "z_mc z = MC_INTERNAL" "1 \<le> z_mc_ilen z"
  shows "cycle_done g irq b z (z\<lparr>z_tstates := z_tstates z + of_nat (z_mc_ilen z)\<rparr>, e)"
proof -
  obtain h v p ad l c d where b': "b = Bn (dirty h v p 0 ad z) l c d e" and q: "quiet (z_mc z) l c"
    using b by (rule in_stepE)
  then have "\<not> strobe l" using z quiet_not_strobe by auto
  from internal_ticks [OF z(1,2) _ this, of 0 g irq h v p ad c d e] z(3) show ?thesis
    by (auto simp: cycle_done_def b')
qed
lemma io_lines_sel [simp]:
  "seen (io_lines z ad) n = n + 1" "cpu_iorq (io_lines z ad)" "cpu_rd (io_lines z ad) = z_mc_io_read z"
  "cpu_wr (io_lines z ad) = (\<not> z_mc_io_read z)" "\<not> cpu_mreq (io_lines z ad)" "\<not> cpu_m1 (io_lines z ad)"
  "cpu_addr (io_lines z ad) = ad" "\<not> z_mc_io_read z \<Longrightarrow> cpu_data (io_lines z ad) = z_mc_wval z"
  by (simp_all add: seen_def strobe_def io_lines_def lines_def)

text \<open>What the responder does over an I/O cycle: a write at once, a read when the wait is released.\<close>

lemma serve_io:
  "serve g now 1 (io_lines z ad) (d, e) =
     (d, if z_mc_io_read z then e else io_io_write (eng_io g) e ad (z_mc_wval z) (now - 1))"
  "serve g now 2 (io_lines z ad) de = de"
  "eng_grid g \<Longrightarrow> now AND 3 \<noteq> 2 \<Longrightarrow> 2 \<le> n \<Longrightarrow> serve g now n (io_lines z ad) de = de"
  "3 \<le> n \<Longrightarrow> (eng_grid g \<longrightarrow> now AND 3 = 2) \<Longrightarrow> serve g now n (io_lines z ad) (d, e) =
     (if z_mc_io_read z then io_io_read (eng_io g) e ad (now - 1) else (d, e))"
  by (simp_all add: serve_def split: prod.split)

definition tw :: "bool \<Rightarrow> u64 \<Rightarrow> u64" where
  "tw grid now = (if grid then (1 - (now AND 3)) AND 3 else 0)"

definition waiting :: "u16 \<Rightarrow> z80_state \<Rightarrow> u8 \<Rightarrow> 'e \<Rightarrow> 'e batch_engine \<Rightarrow> 'e bench \<Rightarrow> bool" where
  "waiting ad z d e g b \<longleftrightarrow> (\<exists>h v p c. b = Bn (dirty h v p 2 ad z) (io_lines z ad) c d e \<and> 1 \<le> c
     \<and> (2 \<le> c \<longrightarrow> eng_grid g \<and> z_tstates z AND 3 \<noteq> 2))"

lemma waiting_serve:
  assumes "1 \<le> c" "2 \<le> c \<longrightarrow> eng_grid g \<and> now AND 3 \<noteq> 2"
  shows "serve g now (seen (io_lines z ad) c) (io_lines z ad) de = de"
proof (cases "c = 1")
  case True
  then show ?thesis using serve_io(2) by (simp add: numeral_2_eq_2)
next
  case False
  then have "2 \<le> c" using assms(1) by simp
  then show ?thesis using assms(2) by (simp add: serve_io(3))
qed

lemma waiting_step:
  assumes w: "waiting ad z d e g b" and z: "\<not> z_halted z" "z_mc z = MC_IO" and g: "eng_grid g" "z_tstates z AND 3 \<noteq> 1"
  shows "waiting ad (z\<lparr>z_tstates := z_tstates z + 1\<rparr>) d e g (T_state g irq b)"
proof -
  obtain h v p c where b: "b = Bn (dirty h v p 2 ad z) (io_lines z ad) c d e" "1 \<le> c" "2 \<le> c \<longrightarrow> eng_grid g \<and> z_tstates z AND 3 \<noteq> 2"
    using w by (auto simp: waiting_def)
  have "T_state g irq b = Bn (dirty (io_lines z ad) True False 2 ad (z\<lparr>z_tstates := z_tstates z + 1\<rparr>)) (io_lines z ad) (c + 1) d e"
    unfolding b(1) using T_io [of z 2 g "io_lines z ad" c d e d e irq h v p ad] z g waiting_serve [OF b(2,3)] by simp
  moreover have "(z_tstates z + 1) AND 3 \<noteq> 2"
    using g(2) by (cases rule: slots [of "z_tstates z"]) (simp_all add: slot_add)
  ultimately show ?thesis
    using g(1) by (auto simp: waiting_def)
qed

lemma waiting_reach:
  assumes w: "waiting ad z d e g b" and z: "\<not> z_halted z" "z_mc z = MC_IO"
  shows "\<exists>b'. reach g irq (tw (eng_grid g) (z_tstates z)) b b'
    \<and> waiting ad (z\<lparr>z_tstates := z_tstates z + (tw (eng_grid g) (z_tstates z))\<rparr>) d e g b'"
proof (cases "eng_grid g")
  case False
  then show ?thesis using w by (auto simp: tw_def)
next
  case True
  note step = waiting_step [OF _ _ _ True]
  show ?thesis
  proof (cases rule: slots [of "z_tstates z"])
    case 1
    then show ?thesis
      using step [OF w z] reach1 [of g irq b] True by (auto simp: tw_def)
  next
    case 2
    then show ?thesis using w True by (auto simp: tw_def)
  next
    case 3
    then show ?thesis
      using step [OF step [OF step [OF w z]]] z reach3 [of g irq b] True by (auto simp: slot_add add.assoc tw_def)
  next
    case 4
    then show ?thesis
      using step [OF step [OF w z]] z reach_step [OF reach1, of g irq b] True by (auto simp: slot_add add.assoc tw_def)
  qed
qed

lemma in_step_addressed:
  assumes "in_step b z e" "addressed (z_mc z)" "z_mc z \<noteq> MC_WRITE"
  obtains h v p l c d where "b = Bn (dirty h v p 0 (z_mc_addr z) z) l c d e" "\<not> strobe l"
proof -
  obtain h v p ad l c d where *: "b = Bn (dirty h v p 0 ad z) l c d e" "quiet (z_mc z) l c"
    "addressed (z_mc z) \<longrightarrow> ad = z_mc_addr z"
    using assms(1) by (rule in_stepE)
  show thesis
    using * assms(2,3) quiet_not_strobe by (intro that [of h v p l c d]) auto
qed

lemma io_cycle:
  assumes b: "in_step b z e" and z: "\<not> z_halted z" "z_mc z = MC_IO"
  shows "cycle_done g irq b z (satisfy g (z, e))"
proof -
  have "addressed (z_mc z)" "z_mc z \<noteq> MC_WRITE" using z by (simp_all add: addressed_def)
  then obtain h v p l c d where b': "b = Bn (dirty h v p 0 (z_mc_addr z) z) l c d e" and l: "\<not> strobe l"
    by (rule in_step_addressed [OF b])
  let ?ad = "z_mc_addr z" and ?z = "\<lambda>n. z\<lparr>z_tstates := z_tstates z + n\<rparr>"
  let ?l = "io_lines z ?ad" and ?w = "tw (eng_grid g) (z_tstates z + 2)"
  define e1 where "e1 = (if z_mc_io_read z then e else io_io_write (eng_io g) e ?ad (z_mc_wval z) (z_tstates z))"
  have t1: "T_state g irq b = Bn (dirty ?l True False 1 ?ad (?z 1)) ?l 0 d e"
    unfolding b' using z l by (subst T_io [OF _ _ _ serve_quiet [OF not_strobe_quiet]]) simp_all
  have t2: "T_state g irq (T_state g irq b) = Bn (dirty ?l True False 2 ?ad (?z 2)) ?l 1 d e1"
    unfolding t1 using z by (subst T_io) (simp_all add: serve_io(1) [unfolded One_nat_def] e1_def)
  have wt: "waiting ?ad (?z 2) d e1 g (T_state g irq (T_state g irq b))"
    unfolding t2 waiting_def by auto
  obtain b1 where b1: "reach g irq ?w (T_state g irq (T_state g irq b)) b1" "waiting ?ad (?z (2 + ?w)) d e1 g b1"
    using waiting_reach [OF wt, of irq] z by (auto simp: add.assoc)
  obtain h v p c where b2: "b1 = Bn (dirty h v p 2 ?ad (?z (2 + ?w))) ?l c d e1" "1 \<le> c"
      "2 \<le> c \<longrightarrow> eng_grid g \<and> z_tstates z + (2 + ?w) AND 3 \<noteq> 2"
    using b1(2) by (auto simp: waiting_def)
  have slot: "eng_grid g \<longrightarrow> z_tstates z + (2 + ?w) AND 3 = 1"
    by (cases rule: slots [of "z_tstates z"]) (simp_all add: tw_def slot_add add.assoc [symmetric])
  have t3: "T_state g irq b1 = Bn (dirty ?l True False 3 ?ad (?z (3 + ?w))) ?l (c + 1) d e1"
    unfolding b2(1) using z slot waiting_serve [OF b2(2,3)] by (subst T_io_released) (simp_all add: add.commute)
  define r where "r = (if z_mc_io_read z then io_io_read (eng_io g) e1 ?ad (z_tstates z + (2 + ?w)) else (d, e1))"
  have "serve g (z_tstates z + (3 + ?w)) (c + 2) ?l (d, e1) = r"
  proof -
    have "eng_grid g \<longrightarrow> z_tstates z + (3 + ?w) AND 3 = 2"
      using slot slot_add [of "z_tstates z + (2 + ?w)" 1] by (auto simp: ac_simps)
    then show ?thesis
      using b2(2) by (simp add: serve_io(4) r_def ac_simps)
  qed
  then obtain zb l' where t4: "T_state g irq (T_state g irq b1) = Bn zb l' (c + 2) (fst r) (snd r)" "\<not> strobe l'"
    "view zb = view (next_micro (if z_mc_io_read z then (?z (4 + ?w))\<lparr>z_tmp := fst r\<rparr> else ?z (4 + ?w)))"
    using T_io_last [of "?z (3 + ?w)" g ?l "c + 1" d e1 "fst r" "snd r" irq ?l True False ?ad] z t3
    by (auto simp: ac_simps)
  have "reach g irq (4 + ?w) b (T_state g irq (T_state g irq b1))"
    using reach_trans [OF reach_step [OF reach_step [OF b1(1)]] reach_step [OF reach1]] by (simp add: ac_simps)
  from arrive [OF this [unfolded t4(1)] t4(3) _ t4(2)] show ?thesis
    using z by (auto simp: cycle_done_def satisfy_def io_sample_def tw_def r_def e1_def tmp_tstates Let_def add.assoc)
qed
lemma ack_lines_sel [simp]:
  "strobe (ack_lines z) = (z_servicing z = Svc_MASKABLE)" "cpu_iorq (ack_lines z) = (z_servicing z = Svc_MASKABLE)"
  "\<not> cpu_rd (ack_lines z)" "\<not> cpu_wr (ack_lines z)" "cpu_m1 (ack_lines z)"
  by (simp_all add: strobe_def ack_lines_def lines_def)

lemma serve_ack:
  "z_servicing z = Svc_MASKABLE \<Longrightarrow> serve g now 1 (ack_lines z) (d, e) = int_ack g e (now - 1)"
  "n \<noteq> 1 \<Longrightarrow> serve g now n (ack_lines z) de = de"
  by (simp_all add: serve_def split: prod.split)

text \<open>The acknowledge from its third T-state on: the vector is on the latch.\<close>

lemma ack_ticks:
  assumes z: "\<not> z_halted z" "z_mc z = MC_IOACK" and x: "2 \<le> x" "x < z_mc_ilen z"
    and c: "z_servicing z = Svc_MASKABLE \<longrightarrow> 1 \<le> c"
    and z': "z' = z\<lparr>z_tstates := z_tstates z + of_nat (z_mc_ilen z - x)\<rparr>"
  shows "\<exists>zb l' c'. reach g irq (of_nat (z_mc_ilen z - x)) (Bn (dirty h v p x ad z) (ack_lines z) c d e) (Bn zb l' c' d e)
    \<and> view zb = view (next_micro (if z_servicing z = Svc_MASKABLE then z'\<lparr>z_int_vec := d\<rparr> else z'))
    \<and> (strobe l' \<longrightarrow> 1 \<le> c' \<and> cpu_iorq l' \<and> \<not> cpu_rd l')"
  using assms
proof (induction "z_mc_ilen z - x" arbitrary: x z z' h v p c)
  case 0
  then show ?case by simp
next
  case (Suc n)
  let ?b = "Bn (dirty h v p x ad z) (ack_lines z) c d e" and ?z = "z\<lparr>z_tstates := z_tstates z + 1\<rparr>"
  have s: "serve g (z_tstates z) (seen (ack_lines z) c) (ack_lines z) (d, e) = (d, e)"
    using Suc.prems(5) by (intro serve_ack) (auto simp: seen_def)
  show ?case
  proof (cases "x + 1 < z_mc_ilen z")
    case False
    then have n: "z_mc_ilen z - x = 1" using Suc.prems(4) by simp
    obtain zb l' where t: "T_state g irq ?b = Bn zb l' (seen (ack_lines z) c) d e"
      "view zb = view (next_micro (if z_servicing z = Svc_MASKABLE then ?z\<lparr>z_int_vec := d\<rparr> else ?z))"
      "strobe l' \<longrightarrow> z_servicing z = Svc_MASKABLE \<and> cpu_iorq l' \<and> \<not> cpu_rd l'"
      using T_ack_last [OF Suc.prems(1,2) _ _ s, of x irq h v p ad] Suc.prems(3) False by auto
    have "strobe l' \<longrightarrow> 1 \<le> seen (ack_lines z) c \<and> cpu_iorq l' \<and> \<not> cpu_rd l'"
      using t(3) by (auto simp: seen_def)
    then show ?thesis
      using reach1 [of g irq ?b, unfolded t(1)] t(2) Suc.prems(6) n
      by - (rule exI [of _ zb], rule exI [of _ l'], rule exI [of _ "seen (ack_lines z) c"], simp)
  next
    case True
    have t: "T_state g irq ?b = Bn (dirty (ack_lines z) True False (x + 1) ad ?z) (ack_lines ?z) (seen (ack_lines z) c) d e"
      using Suc.prems True s by (subst T_ack [OF _ _ _ _ s]) auto
    have "n = z_mc_ilen ?z - (x + 1)" using Suc.hyps(2) by simp
    note IH = Suc.hyps(1) [of ?z "x + 1" "seen (ack_lines z) c" z' "ack_lines z" True False, OF this]
    have n: "1 + of_nat (z_mc_ilen z - (x + 1)) = (of_nat (z_mc_ilen z - x) :: u64)"
      using Suc.prems(4) by (metis Suc_diff_Suc Suc_eq_plus1 of_nat_Suc)
    have z': "z' = ?z\<lparr>z_tstates := z_tstates ?z + of_nat (z_mc_ilen ?z - (x + 1))\<rparr>"
      using Suc.prems(6) n by (simp add: add.assoc)
    obtain zb l' c' where
      b': "reach g irq (of_nat (z_mc_ilen z - (x + 1))) (T_state g irq ?b) (Bn zb l' c' d e)"
      "view zb = view (next_micro (if z_servicing z = Svc_MASKABLE then z'\<lparr>z_int_vec := d\<rparr> else z'))"
      "strobe l' \<longrightarrow> 1 \<le> c' \<and> cpu_iorq l' \<and> \<not> cpu_rd l'"
      using IH [OF _ _ _ _ _ z'] Suc.prems(1-5) True unfolding t by (auto simp: seen_def)
    show ?thesis
      using reach_step [OF b'(1)] b'(2,3) unfolding n by blast
  qed
qed

lemma run_micro_after_ack:
  assumes "z_servicing z \<noteq> Svc_NONE" "z_step z = 0"
  shows "z_mc (next_micro z) = MC_WRITE"
  using assms by (simp add: next_micro_def run_micro_def micro_interrupt_def req_push_def req_write_def)

lemma ack_aligned:
  assumes b: "in_step b z e" and z: "\<not> z_halted z" "z_mc z = MC_IOACK" "4 \<le> z_mc_ilen z" "z_step z = 0"
      "z_servicing z \<noteq> Svc_NONE" and g: "eng_grid g \<longrightarrow> z_tstates z AND 3 = 0"
    and r: "r = (if z_servicing z = Svc_MASKABLE
                     then (let a = int_ack g e (z_tstates z) in (z\<lparr>z_int_vec := fst a\<rparr>, snd a)) else (z, e))"
  shows "cycle_done g irq b z ((fst r)\<lparr>z_tstates := z_tstates (fst r) + of_nat (z_mc_ilen (fst r))\<rparr>, snd r)"
proof -
  obtain h v p ad l c d where b': "b = Bn (dirty h v p 0 ad z) l c d e" and q: "quiet (z_mc z) l c"
    using b by (rule in_stepE)
  then have l: "\<not> strobe l" using z quiet_not_strobe by auto
  let ?l = "ack_lines z" and ?z = "\<lambda>n. z\<lparr>z_tstates := z_tstates z + n\<rparr>"
  define a where "a = (if z_servicing z = Svc_MASKABLE then int_ack g e (z_tstates z) else (d, e))"
  have t1: "T_state g irq b = Bn (dirty ?l True False 1 ad (?z 1)) ?l 0 d e"
    unfolding b' using z g l by (subst T_ack [OF _ _ _ _ serve_quiet [OF not_strobe_quiet]]) simp_all
  have s: "serve g (z_tstates z + 1) (seen ?l 0) ?l (d, e) = (fst a, snd a)"
    using serve_ack(1) [of z g "z_tstates z + 1" d e] serve_ack(2) [of 0 g "z_tstates z + 1" z]
    by (simp add: a_def seen_def)
  have t2: "T_state g irq (T_state g irq b) = Bn (dirty ?l True False 2 ad (?z 2)) ?l (seen ?l 0) (fst a) (snd a)"
    unfolding t1 using z g s by (subst T_ack) simp_all
  have z2: "\<not> z_halted (?z 2)" "z_mc (?z 2) = MC_IOACK" using z by simp_all
  let ?z' = "?z (of_nat (z_mc_ilen z))"
  have zz: "?z' = (?z 2)\<lparr>z_tstates := z_tstates (?z 2) + of_nat (z_mc_ilen (?z 2) - 2)\<rparr>"
    using z(3) by (simp add: of_nat_diff)
  obtain zb l' c' where b2: "reach g irq (of_nat (z_mc_ilen z - 2)) (T_state g irq (T_state g irq b)) (Bn zb l' c' (fst a) (snd a))"
    "view zb = view (next_micro (if z_servicing z = Svc_MASKABLE then ?z'\<lparr>z_int_vec := fst a\<rparr> else ?z'))"
    "strobe l' \<longrightarrow> 1 \<le> c' \<and> cpu_iorq l' \<and> \<not> cpu_rd l'"
    using ack_ticks [OF z2 _ _ _ zz, of "seen ?l 0" g irq ?l True False ad "fst a" "snd a"] z(3)
    unfolding t2 by (auto simp: seen_def)
  have n: "1 + (1 + of_nat (z_mc_ilen z - 2)) = (of_nat (z_mc_ilen z) :: u64)"
    using z(3) by (simp add: of_nat_diff)
  have rr: "(fst r)\<lparr>z_tstates := z_tstates (fst r) + of_nat (z_mc_ilen (fst r))\<rparr> =
      (if z_servicing z = Svc_MASKABLE then ?z'\<lparr>z_int_vec := fst a\<rparr> else ?z')" "snd r = snd a"
    by (simp_all add: r a_def Let_def)
  have "in_step (Bn zb l' c' (fst a) (snd a)) (next_micro (if z_servicing z = Svc_MASKABLE then ?z'\<lparr>z_int_vec := fst a\<rparr> else ?z')) (snd a)"
    using b2(2,3) z(4,5) by (simp add: in_step_def quiet_def run_micro_after_ack)
  then show ?thesis
    using reach_step [OF reach_step [OF b2(1)]] unfolding cycle_done_def rr n fst_conv snd_conv
    by (auto intro!: exI)
qed

lemma machine_cycle:
  assumes b: "in_step b z e" and z: "\<not> z_halted z" "z_mc z \<noteq> MC_M1" and s: "stepped c z"
  shows "cycle_done g irq b z (satisfy g (z, e))"
proof (cases "z_mc z")
  case MC_M1
  with z show ?thesis by simp
next
  case MC_READ
  show ?thesis
  proof (rule cycle_aligned [OF b z(1)])
    fix b1 assume b1: "in_step b1 (align_mem g z) e"
    show "cycle_done g irq b1 (align_mem g z) (satisfy g (z, e))"
      using read_aligned [OF b1 _ _ align_slot refl] z MC_READ
      by (auto simp: cycle_done_def satisfy_def Let_def tmp_tstates)
  qed (simp_all add: MC_READ)
next
  case MC_WRITE
  show ?thesis
  proof (rule cycle_aligned [OF b z(1)])
    fix b1 assume b1: "in_step b1 (align_mem g z) e"
    show "cycle_done g irq b1 (align_mem g z) (satisfy g (z, e))"
      using write_aligned [OF b1 _ _ align_slot] z MC_WRITE by (simp add: satisfy_def Let_def)
  qed (simp_all add: MC_WRITE)
next
  case MC_INTERNAL
  then show ?thesis
    using internal_cycle [OF b z(1)] s by (simp add: satisfy_def stepped_def)
next
  case MC_IO
  then show ?thesis
    using io_cycle [OF b z(1)] by simp
next
  case MC_IOACK
  show ?thesis
  proof (rule cycle_aligned [OF b z(1)])
    fix b1 assume b1: "in_step b1 (align_mem g z) e"
    show "cycle_done g irq b1 (align_mem g z) (satisfy g (z, e))"
      using ack_aligned [OF b1 _ _ _ _ _ align_slot refl] z MC_IOACK s
      by (simp add: satisfy_def Let_def stepped_def)
  qed (simp_all add: MC_IOACK)
qed
subsection \<open>Whole instructions\<close>

lemma run_micro_ctl:
  "z_tstates (run_micro z) = z_tstates z"
  "z_mc (run_micro z) \<noteq> MC_M1 \<Longrightarrow> z_halted (run_micro z) = z_halted z"
  using stepped_run_micro [of z] by (auto simp: stepped_def ctl_def split: if_splits)

lemma satisfy_halted [simp]: "z_halted (fst (satisfy g (z, e))) = z_halted z"
  by (simp add: satisfy_def align_mem_def Let_def split: MC.split)

lemma finish_reach:
  assumes "in_step b (run_micro (fst s)) (snd s)" "\<not> z_halted (fst s)"
  shows "\<exists>b'. reach g irq (z_tstates (fst (run_to_finish g s)) - z_tstates (fst s)) b b'
    \<and> in_step b' (fst (run_to_finish g s)) (snd (run_to_finish g s))"
  using assms
proof (induction g s arbitrary: b rule: run_to_finish.induct)
  case (1 g z e)
  let ?z = "run_micro z"
  let ?s = "satisfy g (?z, e)"
  show ?case
  proof (cases "z_mc ?z = MC_M1")
    case True
    then have "run_to_finish g (z, e) = (?z, e)" by (simp add: run_to_finish.simps)
    then show ?thesis
      using "1.prems" run_micro_ctl(1) [of z] by (auto intro!: exI [of _ b])
  next
    case False
    let ?n = "((fst ?s)\<lparr>z_step := z_step (fst ?s) + 1\<rparr>, snd ?s)"
    have rtf: "run_to_finish g (z, e) = run_to_finish g ?n"
      using False by (subst run_to_finish.simps) (simp add: Let_def)
    have h: "\<not> z_halted ?z" using "1.prems" False by (simp add: run_micro_ctl)
    obtain b1 where b1: "reach g irq (z_tstates (fst ?s) - z_tstates ?z) b b1" "in_step b1 (next_micro (fst ?s)) (snd ?s)"
      using machine_cycle [OF _ h False stepped_run_micro, of b e g irq] "1.prems" by (auto simp: cycle_done_def)
    obtain b' where b': "reach g irq (z_tstates (fst (run_to_finish g ?n)) - z_tstates (fst ?s)) b1 b'"
      "in_step b' (fst (run_to_finish g ?n)) (snd (run_to_finish g ?n))"
      using "1.IH" [OF refl False refl, of b1] b1(2) h by (auto simp: next_micro_def)
    show ?thesis
      using reach_trans [OF b1(1) b'(1)] b'(2) unfolding rtf by (auto simp: run_micro_ctl)
  qed
qed

lemma fetch_aligned:
  assumes b: "in_step b z e" and z: "\<not> z_halted z" "z_mc z = MC_M1" "\<not> boundary z \<or> \<not> int_ready z irq"
    and g: "eng_grid g \<longrightarrow> z_tstates z AND 3 = 0"
    and r: "r = io_mem_read (eng_io g) e (z_pc z) (z_tstates z)"
    and z1: "z1 = (bump_refresh (pcinc (m1_entry z)))\<lparr>z_tstates := z_tstates z + 4, z_opcode := fst r\<rparr>"
  shows "\<exists>b'. reach g irq 4 b b'
    \<and> in_step b' (case prefix_byte z1 of Some z2 \<Rightarrow> z2 | None \<Rightarrow> run_micro (z1\<lparr>z_step := 0\<rparr>)) (snd r)"
proof -
  obtain h v p ad l c d where b': "b = Bn (dirty h v p 0 ad z) l c d e" and q: "quiet (z_mc z) l c"
    using b by (rule in_stepE)
  then have l: "\<not> strobe l" using z quiet_not_strobe by auto
  have zt: "z_t z = 0" using b by (simp add: in_step_def)
  let ?l = "m1_lines (z_pc z)" and ?z = "\<lambda>n. (m1_entry z)\<lparr>z_tstates := z_tstates z + n, z_pc := z_pc z + 1\<rparr>"
  have m: "z_halted (m1_entry z) = z_halted z" "z_mc (m1_entry z) = z_mc z" "z_tstates (m1_entry z) = z_tstates z"
    "z_pc (m1_entry z) = z_pc z" "z_t (m1_entry z) = z_t z"
    by (simp_all add: m1_entry_def)
  have t1: "T_state g irq b = Bn (dirty ?l True False 1 (z_pc z) (?z 1)) ?l 0 d e"
    unfolding b' using z g l by (intro T_m1_1) simp_all
  have t2: "T_state g irq (T_state g irq b) = Bn (dirty ?l True False 2 (z_pc z) (?z 2)) ?l 1 (fst r) (snd r)"
    unfolding t1 using z m by (subst T_m1_2) (simp_all add: serve_rd [unfolded One_nat_def] r ac_simps)
  define z3 where "z3 = bump_refresh ((m1_entry z)\<lparr>z_pc := z_pc z + 1, z_tstates := z_tstates z + 3, z_opcode := fst r\<rparr>)"
  have t3: "T_state g irq (T_state g irq (T_state g irq b)) =
      Bn (dirty (rf_lines z3) True False 3 (z_pc z) z3) (rf_lines z3) 2 (fst r) (snd r)"
    unfolding t2 using z m by (subst T_m1_3) (simp_all add: serve_rd ac_simps z3_def Let_def)
  have z3: "\<not> z_halted z3" "z_mc z3 = MC_M1" "z_t z3 = 0" "z3\<lparr>z_tstates := z_tstates z3 + 1\<rparr> = z1"
    using z m zt by (simp_all add: z3_def z1 bump_refresh_def pcinc_def)
  let ?t = "T_state g irq (T_state g irq (T_state g irq (T_state g irq b)))"
  obtain zb l' where t4: "?t = Bn zb l' 0 (fst r) (snd r)" "\<not> strobe l'"
    "view zb = view (case prefix_byte z1 of Some z2 \<Rightarrow> z2 | None \<Rightarrow> run_micro (z1\<lparr>z_step := 0\<rparr>))"
  proof (cases "prefix_byte z1")
    case None
    then show thesis
      using T_m1_4_run [OF z3(1,2), of "rf_lines z3" g irq "rf_lines z3" True False "z_pc z" 2 "fst r" "snd r"] z3(4) that
      unfolding t3 by auto
  next
    case (Some z2)
    then show thesis
      using T_m1_4_prefix [OF z3(1,2) _ _ z3(3), of "rf_lines z3" z2 g irq "rf_lines z3" True False "z_pc z" 2 "fst r" "snd r"]
        z3(4) that unfolding t3 by auto
  qed
  have "z_t (case prefix_byte z1 of Some z2 \<Rightarrow> z2 | None \<Rightarrow> run_micro (z1\<lparr>z_step := 0\<rparr>)) = 0"
    using zt m by (simp add: prefix_byte_def z1 bump_refresh_def pcinc_def)
  then show ?thesis
    using arrive [OF reach4 [of g irq b, unfolded t4(1)] t4(3) _ t4(2)] by blast
qed
lemma entry_align [simp]:
  "m1_entry (align_mem g z) = align_mem g (m1_entry z)" "boundary (align_mem g z) = boundary z"
  "int_ready (align_mem g z) irq = int_ready z irq"
  by (simp_all add: m1_entry_def boundary_def align_mem_def int_ready_def)

lemma fetch_reach:
  assumes b: "in_step b z e" and z: "\<not> z_halted z" "z_mc z = MC_M1" "\<not> boundary z \<or> \<not> int_ready z irq"
    and r: "r = fetch_m1 g (m1_entry z, e)" and z1: "z1 = (fst (snd r))\<lparr>z_opcode := fst r\<rparr>"
  shows "\<exists>b'. reach g irq (z_tstates z1 - z_tstates z) b b'
    \<and> in_step b' (case prefix_byte z1 of Some z2 \<Rightarrow> z2 | None \<Rightarrow> run_micro (z1\<lparr>z_step := 0\<rparr>)) (snd (snd r))"
proof -
  let ?a = "align_mem g z"
  obtain b1 where b1: "reach g irq (z_tstates ?a - z_tstates z) b b1" "in_step b1 ?a e"
    using align_reach [OF b] z by auto
  have ts: "z_tstates (align_mem g (m1_entry z)) = z_tstates ?a" "z_pc (m1_entry z) = z_pc z"
    by (simp_all add: align_mem_def m1_entry_def)
  have z1': "z1 = (bump_refresh (pcinc (m1_entry ?a)))\<lparr>z_tstates := z_tstates ?a + 4,
      z_opcode := fst (io_mem_read (eng_io g) e (z_pc ?a) (z_tstates ?a))\<rparr>"
    "snd (snd r) = snd (io_mem_read (eng_io g) e (z_pc ?a) (z_tstates ?a))"
    by (simp_all add: z1 r fetch_m1_def Let_def ts bump_refresh_def pcinc_def)
  obtain b' where b': "reach g irq 4 b1 b'"
    "in_step b' (case prefix_byte z1 of Some z2 \<Rightarrow> z2 | None \<Rightarrow> run_micro (z1\<lparr>z_step := 0\<rparr>)) (snd (snd r))"
    using fetch_aligned [OF b1(2) _ _ _ align_slot refl z1'(1), of irq] z z1'(2) by auto
  show ?thesis
    using reach_trans [OF b1(1) b'(1)] b'(2) z1'(1) by (auto simp: algebra_simps)
qed

lemma prefix_byte_cases:
  assumes "prefix_byte z = Some z2"
  obtains ix where "z2 = z\<lparr>z_index := ix\<rparr>" "ix \<noteq> Idx_HL" | p ix where "z2 = z\<lparr>z_prefix := p, z_index := ix\<rparr>" "p \<noteq> 0"
proof (cases "z_prefix z = 0 \<and> (z_opcode z = 0xDD \<or> z_opcode z = 0xFD)")
  case True
  then show thesis
    using assms by (intro that(1) [of "if z_opcode z = 0xDD then Idx_IX else Idx_IY"]) (auto simp: prefix_byte_def)
next
  case no_index: False
  show thesis
  proof (cases "z_prefix z = 0 \<and> z_opcode z = 0xED")
    case True
    then show thesis using assms by (intro that(2) [where p = "0xED" and ix = Idx_HL]) (simp_all add: prefix_byte_def)
  next
    case False
    with no_index assms have "z2 = z\<lparr>z_prefix := 0xCB\<rparr>" by (simp add: prefix_byte_def split: if_splits)
    then show thesis by (intro that(2) [where p = "0xCB" and ix = "z_index z"]) simp_all
  qed
qed

lemma prefix_byte_entry:
  assumes "prefix_byte z = Some z2" "z_qq z = 0"
  shows "\<not> boundary z2 \<and> m1_entry z2 = z2 \<and> z_mc z2 = z_mc z \<and> z_halted z2 = z_halted z \<and> z_tstates z2 = z_tstates z"
  by (rule prefix_byte_cases [OF assms(1)]) (simp_all add: boundary_def m1_entry_def assms(2))

lemma fetch_qq:
  "r = fetch_m1 g (z, e) \<Longrightarrow> z1 = (fst (snd r))\<lparr>z_opcode := fst r\<rparr> \<Longrightarrow> z_qq z1 = z_qq z \<and> z_mc z1 = z_mc z \<and> z_halted z1 = z_halted z"
  by (simp add: fetch_m1_def Let_def bump_refresh_def pcinc_def align_mem_def)

lemma entry_sel [simp]:
  "z_qq (m1_entry z) = 0" "z_mc (m1_entry z) = z_mc z" "z_halted (m1_entry z) = z_halted z"
  "z_tstates (m1_entry z) = z_tstates z"
  by (simp_all add: m1_entry_def)

definition chain_ok :: "bool \<Rightarrow> 'e batch_engine \<Rightarrow> z80_state \<Rightarrow> 'e \<Rightarrow> z80_state \<times> 'e \<Rightarrow> bool" where
  "chain_ok irq g z0 e s \<longleftrightarrow>
    (\<forall>z b. z0 = m1_entry z \<longrightarrow> in_step b z e \<longrightarrow> \<not> z_halted z \<longrightarrow> z_mc z = MC_M1 \<longrightarrow>
       \<not> boundary z \<or> \<not> int_ready z irq \<longrightarrow>
       \<not> z_halted (fst s) \<and>
       (\<exists>b'. reach g irq (z_tstates (fst s) - z_tstates z) b b' \<and> in_step b' (run_micro ((fst s)\<lparr>z_step := 0\<rparr>)) (snd s)))"

lemma chain_reach:
  fixes g :: "'e batch_engine"
  assumes "prefix_chain g z0 e = Some s"
  shows "chain_ok irq g z0 e s"
  using assms
proof (rule prefix_chain.raw_induct [where P = "chain_ok irq", rotated])
  fix chain :: "'e batch_engine \<Rightarrow> z80_state \<Rightarrow> 'e \<Rightarrow> (z80_state \<times> 'e) option"
    and g :: "'e batch_engine" and z0 e s
  assume IH: "\<And>g z e s. chain g z e = Some s \<Longrightarrow> chain_ok irq g z e s"
  let ?r = "fetch_m1 g (z0, e)"
  let ?z1 = "(fst (snd ?r))\<lparr>z_opcode := fst ?r\<rparr>"
  assume body: "(let r = fetch_m1 g (z0, e); z1 = (fst (snd r))\<lparr>z_opcode := fst r\<rparr>
      in case prefix_byte z1 of None \<Rightarrow> Some (z1, snd (snd r)) | Some z2 \<Rightarrow> chain g z2 (snd (snd r))) = Some s"
  note q = fetch_qq [OF refl refl, of g z0 e]
  show "chain_ok irq g z0 e s"
    unfolding chain_ok_def
  proof (intro allI impI)
    fix z b
    assume z: "z0 = m1_entry z" "in_step b z e" "\<not> z_halted z" "z_mc z = MC_M1" "\<not> boundary z \<or> \<not> int_ready z irq"
    obtain b1 where b1: "reach g irq (z_tstates ?z1 - z_tstates z) b b1"
      "in_step b1 (case prefix_byte ?z1 of Some z2 \<Rightarrow> z2 | None \<Rightarrow> run_micro (?z1\<lparr>z_step := 0\<rparr>)) (snd (snd ?r))"
      using fetch_reach [OF z(2-5) _ refl, of ?r g] z(1) by auto
    show "\<not> z_halted (fst s) \<and> (\<exists>b'. reach g irq (z_tstates (fst s) - z_tstates z) b b'
        \<and> in_step b' (run_micro ((fst s)\<lparr>z_step := 0\<rparr>)) (snd s))"
    proof (cases "prefix_byte ?z1")
      case None
      then have "s = (?z1, snd (snd ?r))" using body by (simp add: Let_def)
      then show ?thesis using b1 None q z(1,3) by auto
    next
      case (Some z2)
      then have rec: "chain_ok irq g z2 (snd (snd ?r)) s" using body by (intro IH) (simp add: Let_def)
      have p: "\<not> boundary z2" "m1_entry z2 = z2" "z_mc z2 = MC_M1" "\<not> z_halted z2" "z_tstates z2 = z_tstates ?z1"
        using prefix_byte_entry [OF Some] q z(1,3,4) by auto
      have ih: "\<not> z_halted (fst s)" "\<exists>b'. reach g irq (z_tstates (fst s) - z_tstates z2) b1 b'
          \<and> in_step b' (run_micro ((fst s)\<lparr>z_step := 0\<rparr>)) (snd s)"
        using rec [unfolded chain_ok_def, rule_format, OF p(2) [symmetric], of b1] b1(2) Some p by auto
      then obtain b' where b': "reach g irq (z_tstates (fst s) - z_tstates z2) b1 b'"
        "in_step b' (run_micro ((fst s)\<lparr>z_step := 0\<rparr>)) (snd s)" by blast
      show ?thesis
        using reach_trans [OF b1(1) b'(1)] p(5) b'(2) ih(1) by auto
    qed
  qed
qed
definition accepts :: "'e batch_engine \<Rightarrow> bool \<Rightarrow> z80_state \<Rightarrow> z80_state option" where
  "accepts g irq z =
    (let z2 = align_mem g (z\<lparr>z_qq := 0, z_ei_delay := False\<rparr>)
     in accept (z_ei_delay z) irq (z2\<lparr>z_tstates := z_tstates z2 + 1\<rparr>))"

lemma entry_tstates:
  "z\<lparr>z_qq := q, z_ei_delay := d, z_tstates := n\<rparr> = z\<lparr>z_tstates := n, z_qq := q, z_ei_delay := d\<rparr>"
  by simp

lemma accepts_None: "accepts g irq z = None \<longleftrightarrow> \<not> int_ready z irq"
  by (simp add: accepts_def accept_def int_ready_def Let_def align_mem_def)

lemma accepts_sel:
  "accepts g irq z = Some z3 \<Longrightarrow> z_halted z3 = z_halted z \<and> z_tstates z3 = z_tstates (align_mem g z) + 1"
  by (auto simp: accepts_def accept_def Let_def align_mem_def bump_refresh_def split: if_splits)

lemma accept_now:
  assumes b: "in_step b z e" and z: "\<not> z_halted z" "z_mc z = MC_M1" "boundary z" and a: "accepts g irq z = Some z3"
    and g: "eng_grid g \<longrightarrow> z_tstates z AND 3 = 0"
  shows "in_step (T_state g irq b) (run_micro z3) e"
proof -
  obtain h v p ad l c d where b': "b = Bn (dirty h v p 0 ad z) l c d e" and q: "quiet (z_mc z) l c"
    using b by (rule in_stepE)
  then have l: "\<not> strobe l" using z quiet_not_strobe by auto
  have "accept (z_ei_delay z) irq (z\<lparr>z_tstates := z_tstates z + 1, z_qq := 0, z_ei_delay := False\<rparr>) = Some z3"
  proof -
    show ?thesis
      using a g by (cases "eng_grid g") (simp_all add: accepts_def Let_def align_mem_def entry_tstates)
  qed
  from T_accept [OF z(1,2) g l z(3) this, of h v p ad c d e] show ?thesis
    unfolding b' by (auto simp: in_step_def)
qed

lemma accept_reach:
  assumes b: "in_step b z e" and z: "\<not> z_halted z" "z_mc z = MC_M1" "boundary z" and a: "accepts g irq z = Some z3"
  shows "\<exists>b'. reach g irq (z_tstates z3 - z_tstates z - 1) (T_state g irq b) b' \<and> in_step b' (run_micro z3) e"
proof (cases "eng_grid g \<and> z_tstates z AND 3 \<noteq> 0")
  case False
  moreover from this have "z_tstates (align_mem g z) = z_tstates z" by (auto simp: align_mem_def)
  ultimately show ?thesis
    using accept_now [OF assms] accepts_sel [OF a] by auto
next
  case True
  let ?z = "z\<lparr>z_tstates := z_tstates z + 1\<rparr>"
  have b1: "in_step (T_state g irq b) ?z e"
    using hold_in_step [OF b, of g irq] z True by simp
  have al: "align_mem g ?z = align_mem g z"
    using True by (cases rule: slots [of "z_tstates z"]) (simp_all add: align_mem_def slot_add)
  obtain b2 where b2: "reach g irq (z_tstates (align_mem g z) - z_tstates ?z) (T_state g irq b) b2" "in_step b2 (align_mem g z) e"
    using align_reach [OF b1, of g irq] z unfolding al by auto
  have "accepts g irq (align_mem g z) = Some z3"
    using a align_slot [of g z] by (cases "eng_grid g") (simp_all add: accepts_def Let_def align_mem_def entry_tstates)
  then have "in_step (T_state g irq b2) (run_micro z3) e"
    using z align_slot [of g z] by (intro accept_now [OF b2(2)]) (simp_all add: boundary_def)
  then show ?thesis
    using reach_trans [OF b2(1) reach1] accepts_sel [OF a] by (auto simp: algebra_simps)
qed

definition wake_batch :: "z80_state \<Rightarrow> z80_state" where
  "wake_batch z = (if z_halted z then z\<lparr>z_halted := False, z_halt_t := 0, z_pc := z_pc z + 1\<rparr> else z)"

lemma z80_batch_step_alt:
  "z80_batch_step g irq (z, e) =
    (if z_halted z \<and> \<not> int_ready z irq then Some (0, z, e)
     else case accepts g irq (wake_batch z) of
        Some z3 \<Rightarrow> (let f = run_to_finish g (z3, e) in Some (ucast (z_tstates (fst f) - z_tstates z), f))
      | None \<Rightarrow> (case prefix_chain g ((wake_batch z)\<lparr>z_qq := 0, z_ei_delay := False\<rparr>) e of
           None \<Rightarrow> None
         | Some (z3, e1) \<Rightarrow> (let f = run_to_finish g (z3\<lparr>z_step := 0\<rparr>, e1)
                           in Some (ucast (z_tstates (fst f) - z_tstates z), f))))"
  by (simp only: z80_batch_step_def accepts_def wake_batch_def Let_def prod.case)

lemma T_wake:
  assumes "z_halted z" "int_ready z irq" "z_mc z = MC_M1" "z_t z = 0"
  shows "T_state g irq (Bn (dirty h v p 0 ad z) l c d e) = T_state g irq (Bn (dirty h v p 0 ad (wake_batch z)) l c d e)"
proof -
  have w: "wake (dirty h v False 0 ad z) = dirty h v False 0 ad (wake_batch z)"
    using assms by (simp add: wake_def wake_batch_def)
  have "int_ready (dirty h v False 0 ad z) irq" "\<not> z_halted (wake_batch z)"
    "z_tstates (wake_batch z) = z_tstates z"
    using assms by (simp_all add: int_ready_def wake_batch_def)
  then show ?thesis
    using assms(1) by (simp add: T_state_def z80_tick_def clocked_def w Let_def)
qed

lemma awake_exact:
  assumes b: "in_step b z e" and z: "\<not> z_halted z" "z_mc z = MC_M1" "boundary z"
    and s: "z80_batch_step g irq (z, e) = Some (n, z', e')"
  shows "\<exists>b'. reach g irq (z_tstates z' - z_tstates z) b b' \<and> in_step b' z' e' \<and> n = ucast (z_tstates z' - z_tstates z)"
proof -
  have w: "wake_batch z = z" using z by (simp add: wake_batch_def)
  show ?thesis
  proof (cases "accepts g irq z")
    case (Some z3)
    then have f: "run_to_finish g (z3, e) = (z', e')" "n = ucast (z_tstates z' - z_tstates z)"
      using s z by (auto simp: z80_batch_step_alt w Let_def)
    obtain b1 where b1: "reach g irq (z_tstates z3 - z_tstates z - 1) (T_state g irq b) b1" "in_step b1 (run_micro z3) e"
      using accept_reach [OF b z Some] by auto
    obtain b' where b': "reach g irq (z_tstates z' - z_tstates z3) b1 b'" "in_step b' z' e'"
      using finish_reach [of b1 "(z3, e)" g irq] b1(2) accepts_sel [OF Some] z f by auto
    show ?thesis
      using reach_trans [OF reach_step [OF b1(1)] b'(1)] b'(2) f(2) by (auto simp: algebra_simps)
  next
    case None
    let ?z = "z\<lparr>z_qq := 0, z_ei_delay := False\<rparr>"
    obtain z3 e1 where c: "prefix_chain g ?z e = Some (z3, e1)"
      and f: "run_to_finish g (z3\<lparr>z_step := 0\<rparr>, e1) = (z', e')" "n = ucast (z_tstates z' - z_tstates z)"
      using s None z by (auto simp: z80_batch_step_alt w Let_def split: option.splits)
    have "?z = m1_entry z" using z(3) by (simp add: m1_entry_def)
    then obtain b1 where b1: "reach g irq (z_tstates z3 - z_tstates z) b b1" "in_step b1 (run_micro (z3\<lparr>z_step := 0\<rparr>)) e1"
      and h: "\<not> z_halted z3"
      using chain_reach [OF c, of irq, unfolded chain_ok_def, rule_format, of z b] b z None accepts_None [of g irq z] by auto
    obtain b' where b': "reach g irq (z_tstates z' - z_tstates z3) b1 b'" "in_step b' z' e'"
      using finish_reach [of b1 "(z3\<lparr>z_step := 0\<rparr>, e1)" g irq] b1(2) h f by auto
    show ?thesis
      using reach_trans [OF b1(1) b'(1)] b'(2) f(2) by auto
  qed
qed

lemma wake_same:
  assumes "z_halted z" "int_ready z irq"
  shows "z80_batch_step g irq (wake_batch z, e) = z80_batch_step g irq (z, e)"
proof -
  have w: "wake_batch (wake_batch z) = wake_batch z" "\<not> z_halted (wake_batch z)" "z_tstates (wake_batch z) = z_tstates z"
    using assms by (simp_all add: wake_batch_def)
  show ?thesis
    using assms(2) unfolding z80_batch_step_alt w by (simp add: w(2))
qed
lemma finish_ready: "z80_batch_ready (fst (run_to_finish g s))"
proof (induction g s rule: run_to_finish.induct)
  case (1 g z e)
  show ?case
  proof (cases "z_mc (run_micro z) = MC_M1")
    case True
    then show ?thesis
      using stepped_run_micro [of z] by (simp add: run_to_finish.simps stepped_def z80_batch_ready_def)
  next
    case False
    then show ?thesis
      using "1.IH" [OF refl False refl] by (subst run_to_finish.simps) (simp add: Let_def)
  qed
qed

lemma batch_step_ready:
  assumes "z80_batch_step g irq (z, e) = Some (n, z', e')" "z80_batch_ready z"
  shows "z80_batch_ready z'"
proof (cases "z_halted z \<and> \<not> int_ready z irq")
  case True
  then show ?thesis using assms by (simp add: z80_batch_step_alt)
next
  case False
  have "run_to_finish g s = (z', e') \<Longrightarrow> z80_batch_ready z'" for s
    using finish_ready [of g s] by simp
  moreover have "\<exists>s. run_to_finish g s = (z', e')"
    using assms(1) False by (auto simp: z80_batch_step_alt Let_def split: option.splits prod.splits)
  ultimately show ?thesis by blast
qed

lemma step_exact:
  assumes b: "in_step b z e" and r: "z80_batch_ready z" and s: "z80_batch_step g irq (z, e) = Some (n, z', e')"
  shows "\<exists>k. in_step ((T_state g irq ^^ k) b) z' e' \<and> of_nat k = z_tstates z' - z_tstates z
    \<and> n = ucast (z_tstates z' - z_tstates z)"
proof -
  have z: "z_mc z = MC_M1" "z_t z = 0" "boundary z"
    using r by (simp_all add: z80_batch_ready_def boundary_def)
  consider "z_halted z" "\<not> int_ready z irq" | "z_halted z" "int_ready z irq" | "\<not> z_halted z" by blast
  then show ?thesis
  proof cases
    case 1
    then show ?thesis using b s by (auto simp: z80_batch_step_alt intro!: exI [of _ 0])
  next
    case 3
    then show ?thesis
      using awake_exact [OF b 3 z(1,3) s] by (auto simp: reach_def)
  next
    case 2
    obtain h v p ad l c d where b': "b = Bn (dirty h v p 0 ad z) l c d e" and q: "quiet (z_mc z) l c"
      and ad: "addressed (z_mc z) \<longrightarrow> ad = z_mc_addr z"
      using b by (rule in_stepE)
    let ?w = "wake_batch z" and ?b = "Bn (dirty h v p 0 ad (wake_batch z)) l c d e"
    have w: "z_mc ?w = z_mc z" "z_t ?w = 0" "boundary ?w" "\<not> z_halted ?w" "z_tstates ?w = z_tstates z"
        "int_ready ?w irq" "z_mc_addr ?w = z_mc_addr z"
      using z 2 by (simp_all add: wake_batch_def boundary_def int_ready_def)
    have "in_step ?b ?w e"
      using q ad w view_dirty_same [of ?w ad h v p] by (simp add: in_step_def)
    obtain z3 where z3: "accepts g irq ?w = Some z3"
      using accepts_None [of g irq ?w] w by auto
    have s': "run_to_finish g (z3, e) = (z', e')" "n = ucast (z_tstates z' - z_tstates z)"
      using s 2 z3 by (auto simp: z80_batch_step_alt Let_def)
    obtain b1 where b1: "reach g irq (z_tstates z3 - z_tstates z - 1) (T_state g irq ?b) b1" "in_step b1 (run_micro z3) e"
      using accept_reach [OF \<open>in_step ?b ?w e\<close> w(4) _ w(3) z3] w z by auto
    have "T_state g irq b = T_state g irq ?b"
      unfolding b' by (rule T_wake [OF 2 z(1,2)])
    then have "reach g irq (z_tstates z3 - z_tstates z - 1) (T_state g irq b) b1" using b1(1) by simp
    note r1 = reach_step [OF this]
    obtain b' where b': "reach g irq (z_tstates z' - z_tstates z3) b1 b'" "in_step b' z' e'"
      using finish_reach [of b1 "(z3, e)" g irq] b1(2) accepts_sel [OF z3] w s' by auto
    show ?thesis
      using reach_trans [OF r1 b'(1)] b'(2) s'(2) by (auto simp: reach_def algebra_simps)
  qed
qed

primrec batch_run :: "'e batch_engine \<Rightarrow> bool list \<Rightarrow> z80_state \<times> 'e \<Rightarrow> (z80_state \<times> 'e) option" where
  "batch_run g [] s = Some s"
| "batch_run g (irq # irqs) s = (case z80_batch_step g irq s of None \<Rightarrow> None | Some (n, s') \<Rightarrow> batch_run g irqs s')"

primrec bench_run :: "'e batch_engine \<Rightarrow> (nat \<times> bool) list \<Rightarrow> 'e bench \<Rightarrow> 'e bench" where
  "bench_run g [] b = b"
| "bench_run g (x # xs) b = bench_run g xs ((T_state g (snd x) ^^ fst x) b)"

text \<open>C1 (z80_batch_exact): the batch engine is exact. Start both engines at an instruction boundary in the
  same state and run a sequence of instructions with the given interrupt levels; if the batch engine gets through,
  there are T-state counts, one per instruction, after which the per-cycle engine on the bench is in the same
  state (registers, flags, R, interrupt latches, T-state clock, everything but the bus latches) and its bus has
  produced exactly the same environment, hence the same calls with the same addresses, data and time stamps, with
  the Gate Array grid as well as without it. The counts add up to the T-states the batch engine charged.\<close>

theorem z80_batch_exact:
  assumes "in_step b z e" and "z80_batch_ready z" and "batch_run g irqs (z, e) = Some (z', e')"
  shows "\<exists>ks. length ks = length irqs \<and> in_step (bench_run g (zip ks irqs) b) z' e' \<and> z80_batch_ready z'
    \<and> of_nat (sum_list ks) = z_tstates z' - z_tstates z"
  using assms
proof (induction irqs arbitrary: b z e)
  case Nil
  then show ?case by simp
next
  case (Cons irq irqs)
  obtain n z1 e1 where s: "z80_batch_step g irq (z, e) = Some (n, z1, e1)" "batch_run g irqs (z1, e1) = Some (z', e')"
    using Cons.prems(3) by (auto split: option.splits)
  obtain k where k: "in_step ((T_state g irq ^^ k) b) z1 e1" "of_nat k = z_tstates z1 - z_tstates z"
    using step_exact [OF Cons.prems(1,2) s(1)] by blast
  obtain ks where "length ks = length irqs" "in_step (bench_run g (zip ks irqs) ((T_state g irq ^^ k) b)) z' e'"
      "z80_batch_ready z'" "of_nat (sum_list ks) = z_tstates z' - z_tstates z1"
    using Cons.IH [OF k(1) batch_step_ready [OF s(1) Cons.prems(2)] s(2)] by blast
  then show ?case
    using k(2) by (intro exI [of _ "k # ks"]) simp
qed
definition zero_state :: z80_state where
  "zero_state = \<lparr>z_af = 0, z_bc = 0, z_de = 0, z_hl = 0, z_af2 = 0, z_bc2 = 0, z_de2 = 0, z_hl2 = 0, z_ix = 0, z_iy = 0,
     z_sp = 0, z_pc = 0, z_wz = 0, z_i = 0, z_r = 0, z_iff1 = 0, z_iff2 = 0, z_im = 0, z_q = 0, z_qq = 0, z_halted = False,
     z_mc = MC_M1, z_t = 0, z_mc_addr = 0, z_mc_wval = 0, z_mc_io_read = False, z_mc_ilen = 0, z_held = CpuBus_zero,
     z_held_valid = False, z_nmi_prev = False, z_nmi_pending = False, z_ei_delay = False, z_servicing = Svc_NONE,
     z_int_vec = 0, z_step = 0, z_prefix = 0, z_index = Idx_HL, z_mem_addr = 0, z_opcode = 0, z_tmp = 0, z_tmpl = 0,
     z_halt_t = 0, z_unimplemented = False, z_tstates = 0, z_instr_count = 0\<rparr>"

definition rom_engine :: "bool \<Rightarrow> u8 list \<Rightarrow> unit batch_engine" where
  "rom_engine grid rom = \<lparr>eng_io = \<lparr>
     io_mem_read = (\<lambda>e a now. (if unat a < length rom then rom ! unat a else 0xFF, e)),
     io_mem_write = (\<lambda>e a v now. e), io_io_read = (\<lambda>e p now. (0xFF, e)), io_io_write = (\<lambda>e p v now. e),
     io_int_ack = None\<rparr>, eng_irq_vector = 0xFF, eng_grid = grid\<rparr>"

definition idle_bench :: "z80_state \<Rightarrow> 'e \<Rightarrow> 'e bench" where
  "idle_bench z e = Bn z (lines []) 0 0xFF e"

lemma idle_in_step: "z_t z = 0 \<Longrightarrow> in_step (idle_bench z e) z e"
  by (simp add: in_step_def idle_bench_def)

declare prefix_chain.simps [code] run_to_finish.simps [code]

lemma demo_run:
  "map_option (\<lambda>s. (z_bc (fst s), z_tstates (fst s))) (batch_run (rom_engine True [0x06, 0x2A, 0xC5]) [False, False] (z80_reset zero_state, ()))
    = Some (0x2A00, 23)"
  by code_simp

theorem z80_batch_exact_witness:
  "\<exists>z' ks. length ks = 2 \<and> z_bc z' = 0x2A00 \<and> of_nat (sum_list ks) = (23 :: u64)
    \<and> in_step (bench_run (rom_engine True [0x06, 0x2A, 0xC5]) (zip ks [False, False]) (idle_bench (z80_reset zero_state) ())) z' ()"
proof -
  let ?z = "z80_reset zero_state" and ?g = "rom_engine True [0x06, 0x2A, 0xC5]"
  obtain z' where z': "batch_run ?g [False, False] (?z, ()) = Some (z', ())" "z_bc z' = 0x2A00" "z_tstates z' = 23"
    using demo_run by auto
  have "in_step (idle_bench ?z ()) ?z ()" "z80_batch_ready ?z" "z_tstates ?z = 0"
    by (simp_all add: idle_in_step z80_batch_ready_def z80_reset_def)
  then obtain ks where "length ks = 2" "of_nat (sum_list ks) = (23 :: u64)"
      "in_step (bench_run ?g (zip ks [False, False]) (idle_bench ?z ())) z' ()"
    using z80_batch_exact [OF _ _ z'(1), of "idle_bench ?z ()"] z'(2,3) by (auto simp: numeral_2_eq_2)
  then show ?thesis
    using z'(2) by blast
qed

interpretation z80_blob: state_blob z80_save z80_load "\<lambda>z. z" "\<lambda>_. ()"
  by unfold_locales (simp_all add: z80_save_def z80_load_def)

subsection \<open>Halted time\<close>

lemma halted_T_sel [simp]:
  "z_halted (halted_T z) = z_halted z" "int_ready (halted_T z) irq = int_ready z irq" "z_t (halted_T z) = z_t z"
  "z_mc (halted_T z) = z_mc z" "z_mc_addr (halted_T z) = z_mc_addr z"
  by (simp_all add: halted_T_def bump_refresh_def int_ready_def Let_def)

lemma halted_in_step:
  assumes b: "in_step b z e" and z: "z_halted z" "\<not> int_ready z irq" "z_mc z = MC_M1"
  shows "in_step (T_state g irq b) (halted_T z) e"
proof -
  obtain h v p ad l c d where b': "b = Bn (dirty h v p 0 ad z) l c d e" and q: "quiet (z_mc z) l c"
    using b by (rule in_stepE)
  then have l: "\<not> strobe l" using z quiet_not_strobe by auto
  have t: "z_t z = 0" using b by (simp add: in_step_def)
  have d: "halted_T (dirty h v False 0 ad z) = dirty h v False 0 ad (halted_T z)"
    by (simp add: halted_T_def Let_def)
  have "serve g (z_tstates z) (seen l c) l (d, e) = (d, e)"
    using l by (intro serve_quiet not_strobe_quiet)
  moreover have "\<not> int_ready (dirty h v False 0 ad z) irq" using z(2) by (simp add: int_ready_def)
  ultimately show ?thesis
    unfolding b' using z(1,3) t view_dirty_same [of "halted_T z" ad]
    by (simp add: T_state_def z80_tick_def clocked_def d lines_eq in_step_def Let_def addressed_def quiet_def strobe_def)
qed

lemma low7_add:
  fixes r :: u8 and m :: u32
  assumes "r' = (r AND 0x80) OR ucast ((ucast r + m) AND 0x7F)"
  shows "(r' AND 0x80) OR (r' + 1 AND 0x7F) = (r AND 0x80) OR ucast ((ucast r + (m + 1)) AND 0x7F)"
proof -
  let ?x = "ucast r + m :: u32"
  have m7: "y AND 0x7F = take_bit 7 y" for y :: u32
    by (simp add: take_bit_eq_mask mask_eq_exp_minus_1)
  have b7: "bit (0x80 :: u8) n \<longleftrightarrow> n = 7" "bit (0x80 :: int) n \<longleftrightarrow> n = 7" for n
  proof -
    have "bit (push_bit 7 1 :: u8) n \<longleftrightarrow> n = 7" "bit (push_bit 7 1 :: int) n \<longleftrightarrow> n = 7"
      unfolding bit_push_bit_iff bit_1_iff by auto
    then show "bit (0x80 :: u8) n \<longleftrightarrow> n = 7" "bit (0x80 :: int) n \<longleftrightarrow> n = 7" by simp_all
  qed
  have z: "take_bit 7 (r AND 0x80) = 0" "ucast (take_bit 7 ?x) AND 0x80 = (0 :: u8)"
    by (rule bit_word_eqI; auto simp: bit_simps b7)+
  have hi: "r' AND 0x80 = r AND 0x80"
    unfolding assms m7 by (simp add: bit.conj_disj_distrib2 z)
  have lo: "take_bit 7 r' = ucast (take_bit 7 ?x)"
    unfolding assms m7 take_bit_or z by (rule bit_word_eqI) (auto simp: bit_simps)
  have "take_bit 7 (r' + 1) = take_bit 7 (ucast (take_bit 7 ?x) + 1)"
    by (metis lo take_bit_add_left)
  also have "\<dots> = ucast (take_bit 7 (?x + 1))"
  proof -
    have "unat (take_bit 7 (ucast (take_bit 7 ?x) + 1 :: u8)) = (unat ?x mod 128 + 1) mod 256 mod 128"
      by (simp add: unat_take_bit unat_word_ariths unsigned_ucast_eq take_bit_eq_mod)
    also have "\<dots> = (unat ?x + 1) mod 2 ^ 32 mod 128"
      by (simp add: mod_mod_cancel mod_Suc_eq)
    also have "\<dots> = unat (ucast (take_bit 7 (?x + 1)) :: u8)"
      by (simp add: unat_take_bit unat_word_ariths unsigned_ucast_eq take_bit_eq_mod)
    finally show ?thesis by (simp add: word_unat_eq_iff)
  qed
  finally show ?thesis
    unfolding hi m7 and_low_mask8(7) by (simp only: add.assoc)
qed

lemma halt_step:
  assumes "z_halt_t z < 4" "z_halt_t z + Suc n < 2 ^ 32"
  shows "z80_batch_halt (of_nat (Suc n)) z = halted_T (z80_batch_halt (of_nat n) z)"
proof -
  let ?t = "of_nat (z_halt_t z) + of_nat n :: u32"
  have u: "unat ?t = z_halt_t z + n" "unat (?t + 1) = z_halt_t z + n + 1"
    using assms(2) by (simp_all add: unat_word_ariths unat_of_nat)
  have m: "x AND 3 = take_bit 2 x" for x :: u32
    by (simp add: take_bit_eq_mask mask_eq_exp_minus_1)
  have t: "unat (?t AND 3) = (z_halt_t z + n) mod 4" "unat (?t + 1 AND 3) = (z_halt_t z + n + 1) mod 4"
    by (simp_all add: m unat_take_bit u)
  have tot: "of_nat (z_halt_t z) + of_nat (Suc n) = ?t + 1" by simp
  have ts: "ucast (of_nat (Suc n) :: u32) = (ucast (of_nat n :: u32) + 1 :: u64)"
    using assms(2) by (simp add: word_unat_eq_iff unat_word_ariths unsigned_ucast_eq unat_of_nat take_bit_eq_mod)
  show ?thesis
  proof (cases "(z_halt_t z + n) mod 4 = 3")
    case True
    then obtain q where q: "z_halt_t z + n = 4 * q + 3"
      by (metis mult.commute div_mult_mod_eq)
    have "unat (drop_bit 2 (?t + 1)) = q + 1" "unat (drop_bit 2 ?t) = q"
      by (simp_all add: unat_drop_bit u q)
    then have d: "drop_bit 2 (?t + 1) = drop_bit 2 ?t + 1"
      using q assms(2) by (simp add: word_unat_eq_iff unat_word_ariths)
    have "(z_halt_t z + n + 1) mod 4 = 0" using q by simp
    then show ?thesis
      using True low7_add [OF refl, of "z_r z" "drop_bit 2 ?t"]
      by (simp add: z80_batch_halt_def halted_T_def bump_refresh_def Let_def t ts tot d add.assoc [symmetric] del: of_nat_Suc)
  next
    case False
    have k: "(k + 1) div 4 = k div 4" "(k + 1) mod 4 = k mod 4 + 1" "k mod 4 < 3" if "k mod 4 \<noteq> 3" for k :: nat
      using that by presburger+
    have d: "drop_bit 2 (?t + 1) = drop_bit 2 ?t"
      using k(1) [OF False] by (simp add: word_unat_eq_iff unat_drop_bit u)
    note k(2,3) [OF False]
    then show ?thesis
      by (simp add: z80_batch_halt_def halted_T_def bump_refresh_def Let_def t ts tot d add.assoc [symmetric] del: of_nat_Suc)
  qed
qed
lemma halt_zero:
  assumes "z_halt_t z < 4"
  shows "z80_batch_halt 0 z = z"
proof -
  have m: "x AND 3 = take_bit 2 x" "x AND 0x7F = take_bit 7 x" for x :: u32
    by (simp_all add: take_bit_eq_mask mask_eq_exp_minus_1)
  have t: "unat (of_nat (z_halt_t z) :: u32) = z_halt_t z"
    using assms by (simp add: unat_of_nat)
  have "drop_bit 2 (of_nat (z_halt_t z) :: u32) = 0"
    using assms by (simp add: word_unat_eq_iff unat_drop_bit t)
  moreover have "unat (of_nat (z_halt_t z) AND 3 :: u32) = z_halt_t z"
    using assms by (simp add: m unat_take_bit t)
  moreover have "(z_r z AND 0x80) OR ucast (take_bit 7 (ucast (z_r z) :: u32)) = z_r z"
  proof -
    have "ucast (take_bit 7 (ucast (z_r z) :: u32)) = z_r z AND 0x7F"
      unfolding and_low_mask8(7) by (rule bit_word_eqI) (auto simp: bit_simps)
    moreover have "(z_r z AND 0x80) OR (z_r z AND 0x7F) = z_r z AND (0x80 OR 0x7F)"
      by (simp only: bit.conj_disj_distrib)
    ultimately show ?thesis by simp
  qed
  ultimately show ?thesis
    by (simp add: z80_batch_halt_def Let_def m)
qed

lemma batch_halt_sel [simp]:
  "z_halted (z80_batch_halt n z) = z_halted z" "int_ready (z80_batch_halt n z) irq = int_ready z irq"
  "z_mc (z80_batch_halt n z) = z_mc z"
  by (simp_all add: z80_batch_halt_def int_ready_def Let_def)

text \<open>C20 (z80_halt_exact): \<open>z80_batch_halt\<close> is exact. A CPU that is halted with no acceptable interrupt, ticked for
  any number of T-states the 32-bit arithmetic can count, ends in the state the closed form gives: the clock advanced,
  R bumped once per four halted T-states with its bit 7 kept, and the sub-counter at the remainder.\<close>

theorem z80_halt_exact:
  assumes "in_step b z e" and "z80_batch_ready z" and "z_halted z" and "\<not> int_ready z irq"
    and "z_halt_t z < 4" and "z_halt_t z + n < 2 ^ 32"
  shows "in_step ((T_state g irq ^^ n) b) (z80_batch_halt (of_nat n) z) e"
  using assms(6)
proof (induction n)
  case 0
  then show ?case using assms(1) halt_zero [OF assms(5)] by simp
next
  case (Suc n)
  then have "in_step ((T_state g irq ^^ n) b) (z80_batch_halt (of_nat n) z) e" by simp
  from halted_in_step [OF this, of irq g] show ?case
    using assms(2-4) halt_step [OF assms(5) Suc.prems] by (simp add: z80_batch_ready_def)
qed

theorem z80_halt_exact_witness:
  "in_step ((T_state (rom_engine True []) True ^^ 1000) (idle_bench (zero_state\<lparr>z_halted := True, z_r := 0xF0\<rparr>) ()))
    (zero_state\<lparr>z_halted := True, z_r := 0xEA, z_tstates := 1000\<rparr>) ()"
proof -
  let ?z = "zero_state\<lparr>z_halted := True, z_r := 0xF0\<rparr>"
  have "z80_batch_halt (of_nat 1000) ?z = zero_state\<lparr>z_halted := True, z_r := 0xEA, z_tstates := 1000\<rparr>"
    by (simp add: z80_batch_halt_def zero_state_def Let_def)
  moreover have "in_step (idle_bench ?z ()) ?z ()" "z80_batch_ready ?z" "z_halted ?z" "\<not> int_ready ?z True" "z_halt_t ?z < 4"
    "z_halt_t ?z + 1000 < 2 ^ 32"
    by (simp_all add: idle_in_step z80_batch_ready_def int_ready_def zero_state_def)
  ultimately show ?thesis
    using z80_halt_exact [of "idle_bench ?z ()" ?z "()" True 1000 "rom_engine True []"] by simp
qed

subsection \<open>When a batch step returns\<close>

definition reads :: "'e batch_engine \<Rightarrow> (u16 \<Rightarrow> u8) \<Rightarrow> bool" where
  "reads g m \<longleftrightarrow> (\<forall>e a now. fst (io_mem_read (eng_io g) e a now) = m a)"

definition index_prefix :: "u8 \<Rightarrow> bool" where
  "index_prefix op \<longleftrightarrow> op = 0xDD \<or> op = 0xFD"

lemma fetch_sel:
  assumes "reads g m"
  shows "fst (fetch_m1 g (z, e)) = m (z_pc z)" "z_pc (fst (snd (fetch_m1 g (z, e)))) = z_pc z + 1"
    "z_prefix (fst (snd (fetch_m1 g (z, e)))) = z_prefix z"
  using assms by (simp_all add: reads_def fetch_m1_def Let_def bump_refresh_def pcinc_def)

lemma chain_prefixed:
  assumes "z_prefix z \<noteq> 0" "reads g m"
  shows "\<exists>s. prefix_chain g z e = Some s"
  using assms by (subst prefix_chain.simps) (simp add: Let_def prefix_byte_def fetch_sel)

lemma chain_cases:
  assumes r: "reads g m"
  obtains (returns) "\<exists>s. prefix_chain g z e = Some s"
  | (more) z2 e2 where "index_prefix (m (z_pc z))" "z_prefix z = 0" "prefix_chain g z e = prefix_chain g z2 e2"
      "z_pc z2 = z_pc z + 1" "z_prefix z2 = 0"
proof -
  let ?r = "fetch_m1 g (z, e)"
  let ?z1 = "(fst (snd ?r))\<lparr>z_opcode := fst ?r\<rparr>"
  show thesis
  proof (cases "prefix_byte ?z1")
    case None
    then show thesis by (intro returns) (subst prefix_chain.simps, simp add: Let_def)
  next
    case (Some z2)
    then have eq: "prefix_chain g z e = prefix_chain g z2 (snd (snd ?r))"
      by (subst prefix_chain.simps) (simp add: Let_def)
    show thesis
    proof (cases "z_prefix z2 = 0")
      case True
      then have "z_prefix z = 0 \<and> index_prefix (m (z_pc z)) \<and> z_pc z2 = z_pc z + 1"
        using Some fetch_sel [OF r, of z e] by (auto simp: prefix_byte_def index_prefix_def split: if_splits)
      then show thesis using eq True by (intro more) auto
    next
      case False
      then show thesis using chain_prefixed [OF False r] eq by (intro returns) simp
    qed
  qed
qed

lemma chain_returns:
  assumes "reads g m" "\<not> index_prefix (m (z_pc z + of_nat k))"
  shows "\<exists>s. prefix_chain g z e = Some s"
  using assms(2)
proof (induction k arbitrary: z e)
  case 0
  then show ?case
    by (cases rule: chain_cases [OF assms(1), of z e]) auto
next
  case (Suc k)
  show ?case
  proof (cases rule: chain_cases [OF assms(1), of z e])
    case 1
    then show ?thesis .
  next
    case (2 z2 e2)
    then show ?thesis using Suc.IH [of z2 e2] Suc.prems by (simp add: add.assoc)
  qed
qed

definition endless :: "(u16 \<Rightarrow> u8) \<Rightarrow> u16 \<Rightarrow> bool" where
  "endless m pc \<longleftrightarrow> (\<forall>k. index_prefix (m (pc + of_nat k)))"

lemma endless_next: "endless m pc \<Longrightarrow> endless m (pc + 1)"
  unfolding endless_def by (metis add.assoc of_nat_Suc)

lemma chain_diverges:
  fixes g :: "'e batch_engine"
  assumes "prefix_chain g z e = Some s"
  shows "reads g m \<longrightarrow> z_prefix z = 0 \<longrightarrow> \<not> endless m (z_pc z)"
  using assms
proof (rule prefix_chain.raw_induct
    [where P = "\<lambda>g z e s. reads g m \<longrightarrow> z_prefix z = 0 \<longrightarrow> \<not> endless m (z_pc z)", rotated], intro impI notI)
  fix chain :: "'e batch_engine \<Rightarrow> z80_state \<Rightarrow> 'e \<Rightarrow> (z80_state \<times> 'e) option" and g :: "'e batch_engine" and z e s
  assume IH: "\<And>g z e s. chain g z e = Some s \<Longrightarrow> reads g m \<longrightarrow> z_prefix z = 0 \<longrightarrow> \<not> endless m (z_pc z)"
    and body: "(let r = fetch_m1 g (z, e); z1 = (fst (snd r))\<lparr>z_opcode := fst r\<rparr>
      in case prefix_byte z1 of None \<Rightarrow> Some (z1, snd (snd r)) | Some z2 \<Rightarrow> chain g z2 (snd (snd r))) = Some s"
    and r: "reads g m" and p: "z_prefix z = 0" and m: "endless m (z_pc z)"
  let ?r = "fetch_m1 g (z, e)"
  let ?z1 = "(fst (snd ?r))\<lparr>z_opcode := fst ?r\<rparr>"
  have "index_prefix (m (z_pc z))" using m [unfolded endless_def, rule_format, of 0] by simp
  then obtain ix where z2: "prefix_byte ?z1 = Some (?z1\<lparr>z_index := ix\<rparr>)"
    using p fetch_sel [OF r, of z e] by (auto simp: prefix_byte_def index_prefix_def)
  then have "chain g (?z1\<lparr>z_index := ix\<rparr>) (snd (snd ?r)) = Some s" using body by (simp add: Let_def)
  from IH [OF this] show False
    using r p fetch_sel [OF r, of z e] endless_next [OF m] by simp
qed

text \<open>C19 (z80_batch_returns): when a batch step returns. Reading code from a memory \<open>m\<close>, a step from an instruction
  boundary returns exactly if the CPU is halted, or an interrupt is accepted, or some byte at or after PC is not one
  of the index prefixes DD and FD: every instruction proper is finite, but the loop over prefixes runs forever on
  a memory filled with them.\<close>

theorem z80_batch_returns:
  assumes "reads g m" and "z80_batch_ready z"
  shows "(\<exists>r. z80_batch_step g irq (z, e) = Some r) \<longleftrightarrow>
    z_halted z \<or> int_ready z irq \<or> (\<exists>k. \<not> index_prefix (m (z_pc z + of_nat k)))"
proof (cases "z_halted z \<or> int_ready z irq")
  case True
  moreover have "\<exists>y. accepts g irq (wake_batch z) = Some y" if "int_ready z irq"
  proof -
    have "int_ready (wake_batch z) irq" using that by (simp add: wake_batch_def int_ready_def)
    then show ?thesis using accepts_None [of g irq "wake_batch z"] by auto
  qed
  ultimately show ?thesis
    by (cases "int_ready z irq") (auto simp: z80_batch_step_alt Let_def)
next
  case False
  then have a: "accepts g irq z = None" and w: "wake_batch z = z"
    using accepts_None [of g irq z] by (simp_all add: wake_batch_def)
  let ?z = "z\<lparr>z_qq := 0, z_ei_delay := False\<rparr>"
  have "(\<exists>r. z80_batch_step g irq (z, e) = Some r) \<longleftrightarrow> (\<exists>s. prefix_chain g ?z e = Some s)"
    using False a by (auto simp: z80_batch_step_alt w Let_def split: option.split prod.split)
  also have "\<dots> \<longleftrightarrow> \<not> endless m (z_pc z)"
    using chain_returns [OF assms(1), of ?z _ e] chain_diverges [of g ?z e _ m] assms
    by (auto simp: endless_def z80_batch_ready_def)
  finally show ?thesis
    using False by (simp add: endless_def)
qed

theorem z80_batch_returns_witness:
  "(\<exists>r. z80_batch_step (rom_engine True []) False (zero_state, ()) = Some r)"
proof -
  have "reads (rom_engine True []) (\<lambda>a. 0xFF)" "z80_batch_ready zero_state"
    by (simp_all add: reads_def rom_engine_def z80_batch_ready_def zero_state_def)
  from z80_batch_returns [OF this, of False "()"] show ?thesis
    by (simp add: index_prefix_def)
qed
end
