(* ===== verification/Z80_Programs.thy ===== *)
theory Z80_Programs
  imports Z80_Batch
begin

text \<open>
  What instructions of the Z80 compute: the flags of the arithmetic unit against integer arithmetic, the lines
  held between T-states, the block copy, the interrupt acknowledge sequence and the stack. The programs
  run on the batch engine with a plain memory of 64 KiB behind the callbacks; by \<open>z80_batch_exact\<close> the
  per-cycle engine does the same.
\<close>

subsection \<open>Drive and hold\<close>

text \<open>The lines a CPU asserts, as the other devices see them.\<close>

definition control :: "CpuBus \<Rightarrow> u16 \<times> bool list" where
  "control c = (cpu_addr c, [cpu_m1 c, cpu_mreq c, cpu_iorq c, cpu_rd c, cpu_wr c, cpu_rfsh c, cpu_halt c, cpu_busak c])"

lemma gated_lines:
  assumes "\<not> clk_cpu (b_clk i)" "z_held_valid z"
  shows "control (b_cpu (snd (z80_tick z i out))) = control (z_held z)"
    and "cpu_wr (z_held z) \<Longrightarrow> cpu_data (b_cpu (snd (z80_tick z i out))) = cpu_data (z_held z)"
    and "\<not> cpu_wr (z_held z) \<Longrightarrow> cpu_data (b_cpu (snd (z80_tick z i out))) = cpu_data (b_cpu out)"
  using assms by (simp_all add: z80_tick_def latch_nmi_def redrive_def Let_def control_def)

definition hold_run :: "Bus list \<Rightarrow> z80_state \<Rightarrow> z80_state" where
  "hold_run is z = fold (\<lambda>j z. fst (z80_tick z j bus_resting)) is z"

lemma gated_state:
  assumes "\<not> clk_cpu (b_clk i)"
  shows "\<exists>p q. fst (z80_tick z i out) = z\<lparr>z_nmi_prev := p, z_nmi_pending := q\<rparr>"
  using assms by (cases z) (auto simp: z80_tick_def latch_nmi_def Let_def)

lemma hold_run_state:
  assumes "list_all (\<lambda>j. \<not> clk_cpu (b_clk j)) is"
  shows "\<exists>p q. hold_run is z = z\<lparr>z_nmi_prev := p, z_nmi_pending := q\<rparr>"
  using assms
proof (induction "is" arbitrary: z)
  case Nil
  show ?case by (cases z) (auto simp: hold_run_def)
next
  case (Cons i "is")
  obtain p q where pq: "fst (z80_tick z i bus_resting) = z\<lparr>z_nmi_prev := p, z_nmi_pending := q\<rparr>"
    using gated_state [of i z bus_resting] Cons.prems by auto
  have "hold_run (i # is) z = hold_run is (z\<lparr>z_nmi_prev := p, z_nmi_pending := q\<rparr>)"
    by (simp add: hold_run_def pq)
  with Cons.IH [of "z\<lparr>z_nmi_prev := p, z_nmi_pending := q\<rparr>"] Cons.prems show ?case by auto
qed

lemma clocked_held:
  assumes "clk_cpu (b_clk i)"
  shows "z_held (fst (z80_tick z i out)) = b_cpu (snd (z80_tick z i out))" "z_held_valid (fst (z80_tick z i out))"
  using assms by (simp_all add: z80_tick_def split_beta Let_def)

text \<open>(z80_drive_hold): drive and hold. After an executed T-state the CPU keeps its address and control lines on the bus
  through any number of master cycles without the CPU clock enable, whatever happens on the bus meanwhile, holds the
  data lines only while it writes, and changes nothing of its state but the NMI edge detector.\<close>

theorem z80_drive_hold:
  assumes "clk_cpu (b_clk i)" and "z80_tick z i bus_resting = (z1, out1)"
    and "list_all (\<lambda>j. \<not> clk_cpu (b_clk j)) is" and "\<not> clk_cpu (b_clk j)"
    and "z80_tick (hold_run is z1) j bus_resting = (z2, out2)"
  shows "control (b_cpu out2) = control (b_cpu out1)
    \<and> cpu_data (b_cpu out2) = (if cpu_wr (b_cpu out1) then cpu_data (b_cpu out1) else 0xFF)
    \<and> (\<exists>p q. z2 = z1\<lparr>z_nmi_prev := p, z_nmi_pending := q\<rparr>)"
proof -
  have h: "z_held z1 = b_cpu out1" "z_held_valid z1"
    using clocked_held [OF assms(1), of z bus_resting] assms(2) by simp_all
  obtain p q where pq: "hold_run is z1 = z1\<lparr>z_nmi_prev := p, z_nmi_pending := q\<rparr>"
    using hold_run_state [OF assms(3)] by blast
  have "cpu_data (b_cpu bus_resting) = 0xFF" by (simp add: bus_resting_def)
  then show ?thesis
    using gated_lines [OF assms(4), of "hold_run is z1" bus_resting] gated_state [OF assms(4), of "hold_run is z1" bus_resting]
      assms(5) h by (auto simp: pq)
qed

theorem z80_drive_hold_witness:
  "let z1 = fst (z80_tick zero_state (T_bus False False 0 (lines []) 0xFF) bus_resting);
       out2 = snd (z80_tick (hold_run [bus_resting, bus_resting] z1) bus_resting bus_resting)
   in cpu_addr (b_cpu out2) = 0 \<and> cpu_m1 (b_cpu out2) \<and> cpu_mreq (b_cpu out2) \<and> cpu_rd (b_cpu out2)
      \<and> cpu_data (b_cpu out2) = 0xFF"
proof -
  let ?i = "T_bus False False 0 (lines []) 0xFF"
  let ?t = "z80_tick zero_state ?i bus_resting"
  let ?u = "z80_tick (hold_run [bus_resting, bus_resting] (fst ?t)) bus_resting bus_resting"
  have c: "\<not> clk_cpu (b_clk bus_resting)" by (simp add: bus_resting_def)
  have o: "cpu_addr (b_cpu (snd ?t)) = 0" "cpu_m1 (b_cpu (snd ?t))" "cpu_mreq (b_cpu (snd ?t))" "cpu_rd (b_cpu (snd ?t))"
    "\<not> cpu_wr (b_cpu (snd ?t))"
    by (simp_all add: z80_tick_def latch_nmi_def clocked_def int_ready_def running_T_def cyc_def cyc_m1_def m1_T1_def
        accept_def m1_fetch_T1_def zero_state_def Let_def)
  show ?thesis
    using z80_drive_hold [of ?i zero_state "fst ?t" "snd ?t" "[bus_resting, bus_resting]" bus_resting "fst ?u" "snd ?u"] c o
    by (simp add: control_def Let_def)
qed
subsection \<open>The arithmetic flags\<close>

lemma reg_bits:
  "bit (lo x) n \<longleftrightarrow> n < 8 \<and> bit x n" "bit (hi x) n \<longleftrightarrow> n < 8 \<and> bit x (n + 8)"
  "bit (set_lo x v) n \<longleftrightarrow> (if n < 8 then bit v n else bit x n)"
  "bit (set_hi x v) n \<longleftrightarrow> (if n < 8 then bit x n else bit v (n - 8))"
proof -
  have m: "(0xFF :: u16) = mask 8" "(0xFF00 :: u16) = NOT (mask 8)"
    by (simp_all add: mask_eq_exp_minus_1)
  have v: "bit v k \<Longrightarrow> k < 8" for k :: nat
    using bit_imp_le_length by fastforce
  have x: "bit x k \<Longrightarrow> k < 16" for k :: nat
    using bit_imp_le_length by fastforce
  show "bit (lo x) n \<longleftrightarrow> n < 8 \<and> bit x n" "bit (hi x) n \<longleftrightarrow> n < 8 \<and> bit x (n + 8)"
    by (auto simp: lo_def hi_def m bit_simps ac_simps)
  show "bit (set_lo x v) n \<longleftrightarrow> (if n < 8 then bit v n else bit x n)"
    using x by (auto simp: set_lo_def m bit_simps dest: v)
  show "bit (set_hi x v) n \<longleftrightarrow> (if n < 8 then bit x n else bit v (n - 8))"
    using x v [of "n - 8"] by (auto simp: set_hi_def m bit_simps)
qed

lemma af_simps [simp]:
  "zf (set_f v z) = v" "za (set_f v z) = za z" "za (set_a v z) = v"
  by (rule bit_word_eqI; simp add: zf_def za_def set_f_def set_a_def reg_bits)+

lemma bit_unat_div: "bit (w :: 'a::len word) n \<longleftrightarrow> odd (unat w div 2 ^ n)"
proof -
  have "bit (unat w) n = bit w n" by (simp add: bit_unsigned_iff)
  then show ?thesis by (simp add: bit_iff_odd [of "unat w"])
qed

lemma flag_bits:
  "bit (flag c 0x01) n \<longleftrightarrow> c \<and> n = 0" "bit (flag c 0x04) n \<longleftrightarrow> c \<and> n = 2" "bit (flag c 0x10) n \<longleftrightarrow> c \<and> n = 4"
  "bit (flag c 0x40) n \<longleftrightarrow> c \<and> n = 6"
proof -
  have "bit (flag c (2 ^ k :: u8)) n \<longleftrightarrow> c \<and> n = k" if "k < 8" for k
    using that by (auto simp: flag_def bit_exp_iff)
  from this [of 0] this [of 2] this [of 4] this [of 6] show
    "bit (flag c 0x01) n \<longleftrightarrow> c \<and> n = 0" "bit (flag c 0x04) n \<longleftrightarrow> c \<and> n = 2" "bit (flag c 0x10) n \<longleftrightarrow> c \<and> n = 4"
    "bit (flag c 0x40) n \<longleftrightarrow> c \<and> n = 6"
    by simp_all
qed

lemma single_bit_test:
  "(x :: u16) AND 0x100 \<noteq> 0 \<longleftrightarrow> bit x 8" "(y :: u8) AND 0x10 \<noteq> 0 \<longleftrightarrow> bit y 4" "y AND 0x80 \<noteq> 0 \<longleftrightarrow> bit y 7"
  using and_exp_eq_0_iff_not_bit [of x 8] and_exp_eq_0_iff_not_bit [of y 4] and_exp_eq_0_iff_not_bit [of y 7]
  by simp_all

text \<open>Sums by parts: with \<open>p = 2 ^ n\<close> the part above bit \<open>n\<close> of a sum is the sum of the parts and a carry.\<close>

lemma div_sum3: "((a :: nat) + b + c) div p = a div p + b div p + (a mod p + b mod p + c) div p"
proof (cases "p = 0")
  case False
  have "a + b + c = p * (a div p + b div p) + (a mod p + b mod p + c)"
    by (simp add: algebra_simps)
  then show ?thesis
    using False by (metis div_mult_self4 add.commute)
qed simp

lemma carry_one:
  assumes "c \<le> 1" "0 < p"
  shows "((a :: nat) mod p + b mod p + c) div p = (if a mod p + b mod p + c \<ge> p then 1 else 0)"
proof -
  have "a mod p < p" "b mod p < p" using assms by simp_all
  then have "a mod p + b mod p + c < p + p" using assms by linarith
  then show ?thesis using assms by (auto simp: div_eq_0_iff intro!: div_nat_eqI)
qed

lemma sum_bit:
  assumes "c \<le> 1"
  shows "odd (((a :: nat) + b + c) div 2 ^ n) \<longleftrightarrow>
    (odd (a div 2 ^ n) \<noteq> odd (b div 2 ^ n)) \<noteq> (a mod 2 ^ n + b mod 2 ^ n + c \<ge> 2 ^ n)"
  using div_sum3 [of a b c "2 ^ n"] carry_one [OF assms, of "2 ^ n" a b] by auto

lemma sz53_bits:
  "bit (sz53 r) 0 \<longleftrightarrow> False" "bit (sz53 r) 2 \<longleftrightarrow> False" "bit (sz53 r) 4 \<longleftrightarrow> False" "bit (sz53 r) 6 \<longleftrightarrow> r = 0"
  "bit (sz53 r) 7 \<longleftrightarrow> bit r 7"
  by (simp_all add: sz53_def bit_or_iff bit_and_iff flag_bits)

lemma overflow_iff:
  fixes a v :: u8
  assumes c: "c \<le> 1" and r: "odd ((unat a + unat v + c) div 128) = r7"
  shows "(bit a 7 = bit v 7 \<and> bit a 7 \<noteq> r7) \<longleftrightarrow> \<not> (sint a + sint v + int c \<in> {-128..127})"
proof -
  define A V where "A = unat a mod 128" and "V = unat v mod 128"
  have s: "sint w = int (unat w mod 128) - (if bit w 7 then 128 else 0)" for w :: u8
  proof -
    have "unat w div 128 < 2" using unat_less_256 [of w] by linarith
    then have "unat w div 128 = (if bit w 7 then 1 else 0)"
      by (auto simp: bit_unat_div less_2_cases_iff)
    then have e: "unat w = unat w mod 128 + (if bit w 7 then 128 else 0)"
      using div_mult_mod_eq [of "unat w" 128] by (simp split: if_splits)
    have u: "uint w = int (unat w mod 128) + (if bit w 7 then 128 else 0)"
      by (subst of_nat_unat [symmetric], subst e) simp
    have "sint w = uint w mod 256 - (if bit w 7 then 256 else 0)"
      by (simp add: sint_uint signed_take_bit_eq_take_bit_minus take_bit_eq_mod bit_unsigned_iff)
    also have "uint w mod 256 = uint w" using uint_lt2p [of w] by simp
    finally show ?thesis using u by (simp split: if_splits)
  qed
  have b: "r7 = ((bit a 7 \<noteq> bit v 7) \<noteq> (A + V + c \<ge> 128))"
    using sum_bit [OF c, of "unat a" "unat v" 7] r by (simp add: A_def V_def bit_unat_div)
  have "A < 128" "V < 128" by (simp_all add: A_def V_def)
  then show ?thesis
    unfolding s A_def [symmetric] V_def [symmetric] b using c by auto
qed
definition carry_in :: "bool \<Rightarrow> z80_state \<Rightarrow> nat" where
  "carry_in used z = (if used \<and> bit (zf z) 0 then 1 else 0)"

lemma carry_in_le [simp]: "carry_in u z \<le> 1"
  by (simp add: carry_in_def)

lemma carry_flag: "(if zf z AND CF \<noteq> 0 then 1 else 0) = (of_nat (carry_in True z) :: u16)"
  using and_exp_eq_0_iff_not_bit [of "zf z" 0] by (simp add: carry_in_def)

lemma bit1_flags [simp]: "\<not> bit (sz53 r) (Suc 0)" "\<not> bit (flag c 0x01) (Suc 0)"
  by (simp_all add: sz53_def bit_or_iff bit_and_iff flag_bits)

lemma nibble_bit:
  assumes "c \<le> 1" "unat r = (unat a + unat v + c) mod 256"
  shows "bit (a XOR v XOR r :: u8) 4 \<longleftrightarrow> unat a mod 16 + unat v mod 16 + c \<ge> 16"
proof -
  have "bit r 4 \<longleftrightarrow> odd ((unat a + unat v + c) div 16)"
  proof -
    have "(unat a + unat v + c) mod 256 div 16 = (unat a + unat v + c) div 16 mod 16"
      using mod_mult2_eq [of "unat a + unat v + c" 16 16] by (simp add: div_mult2_eq)
    then show ?thesis by (simp add: bit_unat_div assms(2) dvd_mod_iff)
  qed
  then show ?thesis
    using sum_bit [OF assms(1), of "unat a" "unat v" 4] bit_unat_div [of a 4] bit_unat_div [of v 4]
    by (auto simp: bit_xor_iff)
qed

lemma top_bit:
  assumes "unat (r :: u8) = s mod 256"
  shows "odd (s div 128) = bit r 7"
proof -
  have "s mod 256 div 128 = s div 128 mod 2"
    using mod_mult2_eq [of s 128 2] by (simp add: div_mult2_eq)
  then show ?thesis by (simp add: bit_unat_div assms)
qed

lemma top_bit_iff: "bit (r :: u8) 7 \<longleftrightarrow> unat r \<ge> 128"
proof -
  have "unat r div 128 < 2" using unat_less_256 [of r] by linarith
  then have "odd (unat r div 128) \<longleftrightarrow> unat r div 128 = 1" by (auto simp: less_2_cases_iff)
  also have "\<dots> \<longleftrightarrow> unat r \<ge> 128" using unat_less_256 [of r] by (auto intro!: div_nat_eqI)
  finally show ?thesis by (simp add: bit_unat_div)
qed

lemma alu_add_flags:
  fixes z :: z80_state and v :: u8
  assumes c: "c \<le> 1"
  defines "z' \<equiv> alu_add v (of_nat c) z" and "a \<equiv> za z"
  shows "unat (za z') = (unat a + unat v + c) mod 256
    \<and> bit (zf z') 0 = (unat a + unat v + c \<ge> 256)
    \<and> bit (zf z') 4 = (unat a mod 16 + unat v mod 16 + c \<ge> 16)
    \<and> bit (zf z') 2 = (\<not> sint a + sint v + int c \<in> {-128..127})
    \<and> bit (zf z') 6 = (za z' = 0) \<and> bit (zf z') 7 = (unat (za z') \<ge> 128) \<and> \<not> bit (zf z') 1"
proof -
  let ?s = "unat a + unat v + c"
  have lt: "?s < 512" using unat_less_256 [of a] unat_less_256 [of v] c by linarith
  define res :: u16 where "res = ucast a + ucast v + of_nat c"
  have res: "unat res = ?s" using lt
    by (simp add: res_def unat_word_ariths unsigned_ucast_eq unat_of_nat take_bit_eq_mod)
  define r :: u8 where "r = ucast res"
  have r: "unat r = ?s mod 256" by (simp add: r_def unsigned_ucast_eq res take_bit_eq_mod)
  have z': "za z' = r" "zf z' = sz53 r OR flag (bit res 8) CF OR flag (bit (a XOR v XOR r) 4) HF
       OR flag (bit (NOT (a XOR v) AND (a XOR r)) 7) PF"
    by (simp_all add: z'_def alu_add_def Let_def res_def r_def a_def single_bit_test flip: and.assoc)
  have c8: "bit res 8 \<longleftrightarrow> ?s \<ge> 256"
  proof -
    have "?s div 256 < 2" using lt by simp
    then have "odd (?s div 256) \<longleftrightarrow> ?s div 256 = 1" by (auto simp: less_2_cases_iff)
    also have "\<dots> \<longleftrightarrow> ?s \<ge> 256" using lt by (auto intro!: div_nat_eqI)
    finally show ?thesis by (simp add: bit_unat_div res)
  qed
  have v: "bit (NOT (a XOR v) AND (a XOR r)) 7 \<longleftrightarrow> \<not> sint a + sint v + int c \<in> {-128..127}"
    using overflow_iff [OF c top_bit [OF r]] by (auto simp: bit_and_iff bit_xor_iff bit_not_iff)
  have s: "bit r 7 \<longleftrightarrow> unat r \<ge> 128" by (rule top_bit_iff)
  show ?thesis
    unfolding z' using r c8 nibble_bit [OF c r] v s
    by (simp add: bit_or_iff flag_bits sz53_bits)
qed

text \<open>(z80_add_flags): ADD and ADC against integer arithmetic. With the carry in (0 for ADD), A becomes the sum
  modulo 256; carry, half-carry, signed overflow, zero and sign say what they should of the exact sums of the
  unsigned values, of the low nibbles and of the signed values, and N is reset.\<close>

theorem z80_add_flags:
  assumes "kind = 0 \<or> kind = 1"
  shows "let c = carry_in (kind = 1) z; a = za z; z' = alu kind v z in
    unat (za z') = (unat a + unat v + c) mod 256
    \<and> bit (zf z') 0 = (unat a + unat v + c \<ge> 256)
    \<and> bit (zf z') 4 = (unat a mod 16 + unat v mod 16 + c \<ge> 16)
    \<and> bit (zf z') 2 = (\<not> sint a + sint v + int c \<in> {-128..127})
    \<and> bit (zf z') 6 = (za z' = 0) \<and> bit (zf z') 7 = (unat (za z') \<ge> 128) \<and> \<not> bit (zf z') 1"
proof -
  have "alu kind v z = alu_add v (of_nat (carry_in (kind = 1) z)) z"
    using assms carry_flag [of z] by (auto simp: alu_def Let_def carry_in_def)
  then show ?thesis
    using alu_add_flags [OF carry_in_le [of "kind = 1" z], of v z] by (simp add: Let_def)
qed

theorem z80_add_flags_witness:
  "let z = zero_state\<lparr>z_af := 0x7F01\<rparr>; z' = alu 1 0x80 z in za z' = 0 \<and> bit (zf z') 0 \<and> bit (zf z') 4 \<and> bit (zf z') 6"
proof -
  have "za (zero_state\<lparr>z_af := 0x7F01\<rparr>) = 0x7F" "carry_in True (zero_state\<lparr>z_af := 0x7F01\<rparr>) = 1"
    by (simp_all add: za_def hi_def carry_in_def zf_def lo_def)
  then show ?thesis
    using z80_add_flags [where kind = 1 and z = "zero_state\<lparr>z_af := 0x7F01\<rparr>" and v = "0x80"] by (simp add: Let_def unat_eq_zero)
qed

lemma not_parts:
  fixes v :: u8
  shows "unat (NOT v) = 255 - unat v" "unat (NOT v) mod 16 = 15 - unat v mod 16" "sint (NOT v) = - 1 - sint v"
proof -
  have "NOT v = 255 - v" by (simp add: not_eq_complement)
  moreover have "v \<le> 255" by (rule word_le_of_unat) (use unat_less_256 [of v] in \<open>simp; linarith\<close>)
  ultimately show u: "unat (NOT v) = 255 - unat v" by (simp add: unat_sub)
  have "(255 - n) mod 16 = 15 - n mod 16" if "n < 256" for n :: nat
  proof -
    define q m where "q = n div 16" and "m = n mod 16"
    have "n = 16 * q + m" "m < 16" by (simp_all add: q_def m_def)
    then have "255 - n = (15 - m) + 16 * (15 - q)" using that by simp
    then have "(255 - n) mod 16 = (15 - m) mod 16" by (simp only: mod_mult_self2)
    also have "\<dots> = 15 - m" by simp
    finally show ?thesis by (simp add: m_def)
  qed
  then show "unat (NOT v) mod 16 = 15 - unat v mod 16" using u by simp
  show "sint (NOT v) = - 1 - sint v"
    using sint_ge [of v] sint_lt [of v] by (simp add: signed_not_eq signed_take_bit_int_eq_self not_int_def)
qed

lemma xy_bits [simp]:
  "\<not> bit ((x :: u8) AND 0x28) 0" "\<not> bit (x AND 0x28) 2" "\<not> bit (x AND 0x28) 4" "\<not> bit (x AND 0x28) 6"
  "\<not> bit (x AND 0x28) 7" "\<not> bit (x AND 0x28) (Suc 0)"
  by (simp_all add: bit_and_iff)

lemma nf_bits [simp]:
  "\<not> bit (NF :: u8) 0" "\<not> bit NF 2" "\<not> bit NF 4" "\<not> bit NF 6" "\<not> bit NF 7" "bit NF (Suc 0)"
  by simp_all

lemma sf_bits [simp]:
  "\<not> bit ((x :: u8) AND SF) 0" "\<not> bit (x AND SF) 2" "\<not> bit (x AND SF) 4" "\<not> bit (x AND SF) 6"
  "bit (x AND SF) 7 = bit x 7"
  by (simp_all add: bit_and_iff)

lemma alu_sub_flags:
  fixes z :: z80_state and v :: u8 and cp :: bool
  assumes c: "c \<le> 1"
  defines "z' \<equiv> alu_sub cp v (of_nat c) z" and "a \<equiv> za z"
  shows "\<exists>r. za z' = (if cp then a else r)
    \<and> int (unat r) = (int (unat a) - int (unat v) - int c) mod 256
    \<and> bit (zf z') 0 = (unat a < unat v + c)
    \<and> bit (zf z') 4 = (unat a mod 16 < unat v mod 16 + c)
    \<and> bit (zf z') 2 = (\<not> sint a - sint v - int c \<in> {-128..127})
    \<and> bit (zf z') 6 = (r = 0) \<and> bit (zf z') 7 = (unat r \<ge> 128) \<and> bit (zf z') 1"
proof -
  define res :: u16 where "res = ucast a - ucast v - of_nat c"
  define r :: u8 where "r = ucast res"
  have z': "za z' = (if cp then a else r)"
    "zf z' = ((r AND SF) OR flag (r = 0) ZF OR NF OR flag (bit res 8) CF OR flag (bit (a XOR v XOR r) 4) HF
       OR flag (bit ((a XOR v) AND (a XOR r)) 7) PF) OR ((if cp then v else r) AND XYF)"
    by (simp_all add: z'_def alu_sub_def Let_def res_def r_def a_def single_bit_test flip: and.assoc)
  let ?d = "int (unat a) - int (unat v) - int c"
  have A: "unat a < 256" "unat v < 256" by simp_all
  have res: "int (unat res) = ?d mod 65536"
    using c by (cases "c = 0") (simp_all add: le_Suc_eq res_def uint_word_ariths unsigned_ucast_eq take_bit_eq_mod mod_diff_left_eq mod_diff_right_eq)
  have i: "int (unat r) = ?d mod 256"
  proof -
    have "int (unat r) = int (unat res) mod 256"
      by (simp add: r_def unsigned_ucast_eq take_bit_eq_mod zmod_int)
    then show ?thesis by (simp add: res mod_mod_cancel del: of_nat_unat)
  qed
  have r1: "unat r = (unat a + unat (NOT v) + (1 - c)) mod 256"
  proof -
    have "int (unat a + unat (NOT v) + (1 - c)) = ?d + 256"
      using A c unfolding not_parts by linarith
    then have "int ((unat a + unat (NOT v) + (1 - c)) mod 256) = ?d mod 256"
      by (metis of_nat_mod of_nat_numeral mod_add_self2)
    with i show ?thesis by linarith
  qed
  have c8: "bit res 8 \<longleftrightarrow> unat a < unat v + c"
  proof (cases "unat a < unat v + c")
    case True
    then have "(?d + 65536) mod 65536 = ?d + 65536" using A c by (intro mod_pos_pos_trivial) linarith+
    then have "?d mod 65536 = ?d + 65536" by (metis mod_add_self2)
    then have "65280 \<le> unat res" "unat res < 65536" using res A c True by linarith+
    then have "unat res div 256 = 255" by (intro div_nat_eqI) simp_all
    then show ?thesis using True by (simp add: bit_unat_div)
  next
    case False
    then have "?d mod 65536 = ?d" using A c by (intro mod_pos_pos_trivial) linarith+
    then have "unat res < 256" using res A by linarith
    then show ?thesis using False by (simp add: bit_unat_div)
  qed
  have h: "bit (a XOR v XOR r) 4 \<longleftrightarrow> unat a mod 16 < unat v mod 16 + c"
  proof -
    have n: "bit (a XOR NOT v XOR r) 4 \<longleftrightarrow> unat a mod 16 + (15 - unat v mod 16) + (1 - c) \<ge> 16"
      using nibble_bit [OF _ r1] unfolding not_parts(2) by simp
    have b: "bit (a XOR NOT v XOR r) 4 = (\<not> bit (a XOR v XOR r) 4)"
      by (auto simp: bit_xor_iff bit_not_iff)
    have "unat v mod 16 < 16" by simp
    then show ?thesis using n c unfolding b by auto
  qed
  have v: "bit ((a XOR v) AND (a XOR r)) 7 \<longleftrightarrow> \<not> sint a - sint v - int c \<in> {-128..127}"
  proof -
    have "(bit a 7 = bit (NOT v) 7 \<and> bit a 7 \<noteq> bit r 7) \<longleftrightarrow> \<not> sint a + sint (NOT v) + int (1 - c) \<in> {-128..127}"
      by (rule overflow_iff [OF _ top_bit [OF r1]]) simp
    moreover have "sint a + sint (NOT v) + int (1 - c) = sint a - sint v - int c"
      using c by (simp add: not_parts of_nat_diff)
    ultimately show ?thesis
      by (auto simp: bit_and_iff bit_xor_iff bit_not_iff)
  qed
  have s: "bit r 7 \<longleftrightarrow> unat r \<ge> 128" by (rule top_bit_iff)
  show ?thesis
    using i c8 h v s by (intro exI [of _ r]) (simp add: z' bit_or_iff flag_bits)
qed

text \<open>(z80_sub_flags): SUB, SBC and CP against integer arithmetic. With \<open>c\<close> the borrow in (SBC only), the result \<open>r\<close> is
  the difference modulo 256, written to A except by CP; carry is the borrow, half-carry the borrow of the low nibbles,
  overflow and sign those of the signed difference, and N is set.\<close>

theorem z80_sub_flags:
  assumes "kind = 2 \<or> kind = 3 \<or> kind = 7"
  shows "let c = carry_in (kind = 3) z; a = za z; z' = alu kind v z in
    \<exists>r. za z' = (if kind = 7 then a else r)
    \<and> int (unat r) = (int (unat a) - int (unat v) - int c) mod 256
    \<and> bit (zf z') 0 = (unat a < unat v + c)
    \<and> bit (zf z') 4 = (unat a mod 16 < unat v mod 16 + c)
    \<and> bit (zf z') 2 = (\<not> sint a - sint v - int c \<in> {-128..127})
    \<and> bit (zf z') 6 = (r = 0) \<and> bit (zf z') 7 = (unat r \<ge> 128) \<and> bit (zf z') 1"
proof -
  have "alu kind v z = alu_sub (kind = 7) v (of_nat (carry_in (kind = 3) z)) z"
    using assms carry_flag [of z] by (auto simp: alu_def Let_def carry_in_def)
  then show ?thesis
    using alu_sub_flags [OF carry_in_le [of "kind = 3" z], of "kind = 7" v z] by (simp only: Let_def)
qed

theorem z80_sub_flags_witness:
  "let z' = alu 7 0x10 (zero_state\<lparr>z_af := 0x0F00\<rparr>)
   in za z' = 0x0F \<and> bit (zf z') 0 \<and> \<not> bit (zf z') 4 \<and> bit (zf z') 1"
proof -
  let ?z = "zero_state\<lparr>z_af := 0x0F00\<rparr>"
  have "za ?z = 0x0F" "carry_in False ?z = 0"
    by (simp_all add: za_def hi_def carry_in_def)
  then show ?thesis
    using z80_sub_flags [where kind = 7 and z = ?z and v = "0x10"] by (auto simp: Let_def)
qed
subsection \<open>Programs in plain memory\<close>

type_synonym ram = "u16 \<Rightarrow> u8"

definition ram_engine :: "bool \<Rightarrow> u8 \<Rightarrow> ram batch_engine" where
  "ram_engine grid vec = \<lparr>eng_io = \<lparr>
     io_mem_read = (\<lambda>m a now. (m a, m)), io_mem_write = (\<lambda>m a v now. m(a := v)),
     io_io_read = (\<lambda>m p now. (0xFF, m)), io_io_write = (\<lambda>m p v now. m),
     io_int_ack = None\<rparr>, eng_irq_vector = vec, eng_grid = grid\<rparr>"

lemma ram_fetch:
  "fetch_m1 (ram_engine grid vec) (z, m) =
    (m (z_pc z), (bump_refresh (pcinc z))\<lparr>z_tstates := z_tstates (align_mem (ram_engine grid vec) z) + 4\<rparr>, m)"
  by (simp add: fetch_m1_def ram_engine_def Let_def align_mem_def bump_refresh_def pcinc_def)

text \<open>The clock plays no part in what a program computes.\<close>

definition clock :: "u64 \<Rightarrow> z80_state \<Rightarrow> z80_state" where
  "clock t z = z\<lparr>z_tstates := t\<rparr>"

lemma ram_satisfy:
  "z_mc z = MC_READ \<Longrightarrow> \<exists>t. satisfy (ram_engine grid vec) (z, m) = (z\<lparr>z_tstates := t, z_tmp := m (z_mc_addr z)\<rparr>, m)"
  "z_mc z = MC_WRITE \<Longrightarrow> \<exists>t. satisfy (ram_engine grid vec) (z, m) = (z\<lparr>z_tstates := t\<rparr>, m(z_mc_addr z := z_mc_wval z))"
  "z_mc z = MC_INTERNAL \<Longrightarrow> \<exists>t. satisfy (ram_engine grid vec) (z, m) = (z\<lparr>z_tstates := t\<rparr>, m)"
  by (auto simp: satisfy_def ram_engine_def Let_def align_mem_def tmp_tstates)

lemma ldir_micro:
  assumes "z_servicing z = Svc_NONE" "z_prefix z = 0xED" "z_opcode z = 0xB0"
  shows "run_micro z = block_ld True True z"
  using assms by (simp add: run_micro_def micro_ed_def)

lemmas run_defs = ram_engine_def req_read_def req_write_def req_internal_def finish_def satisfy_def align_mem_def Let_def

lemma ldir_repeat:
  assumes "z_servicing z = Svc_NONE" "z_prefix z = 0xED" "z_opcode z = 0xB0" "z_step z = 0" "z_bc z \<noteq> 1"
  shows "\<exists>z'. run_to_finish (ram_engine grid vec) (z, m) = (z', m(z_de z := m (z_hl z)))
    \<and> z_hl z' = z_hl z + 1 \<and> z_de z' = z_de z + 1 \<and> z_bc z' = z_bc z - 1 \<and> z_pc z' = z_pc z - 2
    \<and> \<not> z_halted z' = (\<not> z_halted z) \<and> z_nmi_pending z' = z_nmi_pending z"
  using assms
  by (simp add: run_to_finish.simps ldir_micro block_ld_def run_defs block_d_def set_f_def rewind_def)

lemma ldir_last:
  assumes "z_servicing z = Svc_NONE" "z_prefix z = 0xED" "z_opcode z = 0xB0" "z_step z = 0" "z_bc z = 1"
  shows "\<exists>z'. run_to_finish (ram_engine grid vec) (z, m) = (z', m(z_de z := m (z_hl z)))
    \<and> z_hl z' = z_hl z + 1 \<and> z_de z' = z_de z + 1 \<and> z_bc z' = z_bc z - 1 \<and> z_pc z' = z_pc z
    \<and> \<not> z_halted z' = (\<not> z_halted z) \<and> z_nmi_pending z' = z_nmi_pending z"
  using assms
  by (simp add: run_to_finish.simps ldir_micro block_ld_def run_defs block_d_def set_f_def rewind_def)

end
