(* ===== verification/Z80_Runs.thy ===== *)
theory Z80_Runs
  imports Z80_Programs
begin

text \<open>
  Whole programs of the Z80 on the batch engine with plain memory: the block copy LDIR against a reference
  loop, and the interrupt acknowledge with its return.
\<close>

subsection \<open>Fetching in plain memory\<close>

lemma one_chain:
  assumes "z_prefix z = 0" "z_index z = Idx_HL" "m (z_pc z) \<notin> {0xDD, 0xFD, 0xED, 0xCB}"
  shows "\<exists>t r. prefix_chain (ram_engine grid vec) z m =
    Some (z\<lparr>z_pc := z_pc z + 1, z_r := r, z_tstates := t, z_opcode := m (z_pc z)\<rparr>, m)"
  using assms by (subst prefix_chain.simps)
    (auto simp: ram_fetch prefix_byte_def Let_def bump_refresh_def pcinc_def intro!: exI)

lemma ed_chain:
  assumes "z_prefix z = 0" "m (z_pc z) = 0xED"
  shows "\<exists>t r. prefix_chain (ram_engine grid vec) z m =
    Some (z\<lparr>z_prefix := 0xED, z_index := Idx_HL, z_pc := z_pc z + 2, z_r := r, z_tstates := t, z_opcode := m (z_pc z + 1)\<rparr>, m)"
proof -
  let ?g = "ram_engine grid vec"
  define t r where "t = z_tstates (align_mem ?g z) + 4" and "r = (z_r z AND 0x80) OR (z_r z + 1 AND 0x7F)"
  have 1: "prefix_chain ?g z m = prefix_chain ?g (z\<lparr>z_pc := z_pc z + 1, z_r := r, z_tstates := t, z_opcode := 0xED,
      z_prefix := 0xED, z_index := Idx_HL\<rparr>) m"
    using assms by (subst prefix_chain.simps) (simp add: ram_fetch prefix_byte_def Let_def bump_refresh_def pcinc_def t_def r_def)
  show ?thesis
    unfolding 1 by (subst prefix_chain.simps)
      (auto simp: ram_fetch prefix_byte_def Let_def bump_refresh_def pcinc_def add.assoc intro!: exI)
qed

text \<open>A boundary at which no interrupt is pending and the line is low.\<close>

definition plain_boundary :: "z80_state \<Rightarrow> bool" where
  "plain_boundary z \<longleftrightarrow> z80_batch_ready z \<and> \<not> z_halted z \<and> \<not> z_nmi_pending z"

lemma plain_step:
  assumes "plain_boundary z" "prefix_chain g (z\<lparr>z_qq := 0, z_ei_delay := False\<rparr>) e = Some (z3, e1)"
    "run_to_finish g (z3\<lparr>z_step := 0\<rparr>, e1) = (z', e')"
  shows "\<exists>n. z80_batch_step g False (z, e) = Some (n, z', e')"
proof -
  have "wake_batch z = z" "accepts g False z = None"
    using assms(1) accepts_None [of g False z] by (simp_all add: plain_boundary_def wake_batch_def int_ready_def)
  then show ?thesis
    using assms by (simp add: z80_batch_step_alt plain_boundary_def Let_def)
qed

lemma ldir_step:
  assumes p: "plain_boundary z" and m: "m (z_pc z) = 0xED" "m (z_pc z + 1) = 0xB0"
  shows "\<exists>n z'. z80_batch_step (ram_engine grid vec) False (z, m) = Some (n, z', m(z_de z := m (z_hl z)))
    \<and> z_hl z' = z_hl z + 1 \<and> z_de z' = z_de z + 1 \<and> z_bc z' = z_bc z - 1
    \<and> z_pc z' = (if z_bc z = 1 then z_pc z + 2 else z_pc z) \<and> plain_boundary z'"
proof -
  let ?g = "ram_engine grid vec"
  have z: "z_prefix z = 0" "z_servicing z = Svc_NONE" "\<not> z_halted z" "\<not> z_nmi_pending z"
    using p by (simp_all add: plain_boundary_def z80_batch_ready_def)
  obtain t r where c: "prefix_chain ?g (z\<lparr>z_qq := 0, z_ei_delay := False\<rparr>) m =
      Some (z\<lparr>z_qq := 0, z_ei_delay := False, z_prefix := 0xED, z_index := Idx_HL, z_pc := z_pc z + 2, z_r := r,
        z_tstates := t, z_opcode := 0xB0\<rparr>, m)"
    using ed_chain [of "z\<lparr>z_qq := 0, z_ei_delay := False\<rparr>" m grid vec] z m by auto
  let ?z = "z\<lparr>z_qq := 0, z_ei_delay := False, z_prefix := 0xED, z_index := Idx_HL, z_pc := z_pc z + 2, z_r := r,
        z_tstates := t, z_opcode := 0xB0\<rparr>"
  have "\<exists>z'. run_to_finish ?g (?z\<lparr>z_step := 0\<rparr>, m) = (z', m(z_de z := m (z_hl z)))
    \<and> z_hl z' = z_hl z + 1 \<and> z_de z' = z_de z + 1 \<and> z_bc z' = z_bc z - 1
    \<and> z_pc z' = (if z_bc z = 1 then z_pc z + 2 else z_pc z) \<and> \<not> z_halted z' \<and> \<not> z_nmi_pending z'"
    using ldir_last [of "?z\<lparr>z_step := 0\<rparr>" grid vec m] ldir_repeat [of "?z\<lparr>z_step := 0\<rparr>" grid vec m] z
    by (cases "z_bc z = 1") auto
  then obtain z' where z': "run_to_finish ?g (?z\<lparr>z_step := 0\<rparr>, m) = (z', m(z_de z := m (z_hl z)))"
    "z_hl z' = z_hl z + 1" "z_de z' = z_de z + 1" "z_bc z' = z_bc z - 1"
    "z_pc z' = (if z_bc z = 1 then z_pc z + 2 else z_pc z)" "\<not> z_halted z'" "\<not> z_nmi_pending z'" by blast
  have "z80_batch_ready z'"
    using finish_ready [of ?g "(?z\<lparr>z_step := 0\<rparr>, m)"] z'(1) by simp
  with z' plain_step [OF p c z'(1)] show ?thesis
    by (auto simp: plain_boundary_def)
qed
subsection \<open>The block copy\<close>

primrec ldir_mem :: "nat \<Rightarrow> u16 \<Rightarrow> u16 \<Rightarrow> ram \<Rightarrow> ram" where
  "ldir_mem 0 hl de m = m"
| "ldir_mem (Suc n) hl de m = ldir_mem n (hl + 1) (de + 1) (m(de := m hl))"

lemma of_nat_shift: "(x :: u16) + 1 + of_nat i = x + of_nat (Suc i)"
  by (simp add: add.assoc)

lemma ldir_mem_other:
  assumes "\<And>i. i < n \<Longrightarrow> a \<noteq> de + of_nat i"
  shows "ldir_mem n hl de m a = m a"
  using assms
proof (induction n arbitrary: hl de m)
  case 0
  show ?case by simp
next
  case (Suc n)
  have "a \<noteq> de" using Suc.prems [of 0] by simp
  moreover have "\<And>i. i < n \<Longrightarrow> a \<noteq> de + 1 + of_nat i"
    using Suc.prems [of "Suc i" for i] unfolding of_nat_shift by simp
  ultimately show ?case
    using Suc.IH [of "de + 1" "hl + 1" "m(de := m hl)"] by (simp add: fun_upd_def)
qed

lemma ldir_mem_copy:
  assumes "\<And>i j. i < n \<Longrightarrow> j < n \<Longrightarrow> de + of_nat i \<noteq> hl + of_nat j" and "i < n" and "n \<le> 65536"
  shows "ldir_mem n hl de m (de + of_nat i) = m (hl + of_nat i)"
  using assms
proof (induction n arbitrary: hl de m i)
  case 0
  then show ?case by simp
next
  case (Suc n)
  let ?m = "m(de := m hl)"
  show ?case
  proof (cases i)
    case 0
    have "de \<noteq> de + 1 + of_nat j" if "j < n" for j
    proof -
      have "unat (of_nat (Suc j) :: u16) = Suc j" using that Suc.prems(3) by (simp add: unat_of_nat del: of_nat_Suc)
      then have "of_nat (Suc j) \<noteq> (0 :: u16)" by (metis nat.simps(3) unat_0)
      then show ?thesis unfolding of_nat_shift by simp
    qed
    then show ?thesis
      using ldir_mem_other [of n "de" "de + 1" "hl + 1" ?m] 0 by simp
  next
    case (Suc k)
    have "de + 1 + of_nat i \<noteq> hl + 1 + of_nat j" if "i < n" "j < n" for i j
      using Suc.prems(1) [of "Suc i" "Suc j"] that unfolding of_nat_shift by simp
    then have "ldir_mem n (hl + 1) (de + 1) ?m (de + 1 + of_nat k) = ?m (hl + 1 + of_nat k)"
      using Suc Suc.prems by (intro Suc.IH) auto
    moreover have "hl + of_nat (Suc k) \<noteq> de"
      using Suc.prems(1) [of 0 "Suc k"] Suc Suc.prems(2) by auto
    ultimately show ?thesis
      using Suc by (simp add: of_nat_shift)
  qed
qed

lemma ldir_run:
  assumes "plain_boundary z" "m (z_pc z) = 0xED" "m (z_pc z + 1) = 0xB0" "unat (z_bc z - 1) = n"
    and "\<And>i. i \<le> n \<Longrightarrow> z_de z + of_nat i \<noteq> z_pc z \<and> z_de z + of_nat i \<noteq> z_pc z + 1"
  shows "\<exists>z'. batch_run (ram_engine grid vec) (replicate (Suc n) False) (z, m) =
      Some (z', ldir_mem (Suc n) (z_hl z) (z_de z) m)
    \<and> z_hl z' = z_hl z + of_nat (Suc n) \<and> z_de z' = z_de z + of_nat (Suc n) \<and> z_bc z' = 0 \<and> z_pc z' = z_pc z + 2
    \<and> plain_boundary z'"
  using assms
proof (induction n arbitrary: z m)
  case 0
  then have bc: "z_bc z = 1" by (simp add: unat_eq_zero)
  obtain k z1 where s: "z80_batch_step (ram_engine grid vec) False (z, m) = Some (k, z1, m(z_de z := m (z_hl z)))"
    "z_hl z1 = z_hl z + 1" "z_de z1 = z_de z + 1" "z_bc z1 = 0" "z_pc z1 = z_pc z + 2" "plain_boundary z1"
    using ldir_step [OF 0(1-3), of grid vec] bc by auto
  then show ?case by (intro exI [of _ z1]) (simp add: fun_upd_def)
next
  case (Suc n)
  let ?m = "m(z_de z := m (z_hl z))"
  have bc: "z_bc z \<noteq> 1" using Suc.prems(4) by auto
  obtain k z1 where s: "z80_batch_step (ram_engine grid vec) False (z, m) = Some (k, z1, ?m)"
    "z_hl z1 = z_hl z + 1" "z_de z1 = z_de z + 1" "z_bc z1 = z_bc z - 1" "z_pc z1 = z_pc z" "plain_boundary z1"
    using ldir_step [OF Suc.prems(1-3), of grid vec] bc by auto
  have "unat (z_bc z - 1 - 1) = unat (z_bc z - 1) - 1"
    using Suc.prems(4) by (intro unat_minus_one) auto
  then have n: "unat (z_bc z1 - 1) = n"
    using Suc.prems(4) s(4) by simp
  have d: "z_de z1 + of_nat i \<noteq> z_pc z1 \<and> z_de z1 + of_nat i \<noteq> z_pc z1 + 1" if "i \<le> n" for i
    using Suc.prems(5) [of "Suc i"] that unfolding s(3,5) of_nat_shift by simp
  have "?m (z_pc z1) = 0xED" "?m (z_pc z1 + 1) = 0xB0"
    using Suc.prems(2,3) Suc.prems(5) [of 0] s(5) by auto
  from Suc.IH [OF s(6) this n d] obtain z' where
    "batch_run (ram_engine grid vec) (replicate (Suc n) False) (z1, ?m) = Some (z', ldir_mem (Suc n) (z_hl z1) (z_de z1) ?m)"
    "z_hl z' = z_hl z1 + of_nat (Suc n)" "z_de z' = z_de z1 + of_nat (Suc n)" "z_bc z' = 0" "z_pc z' = z_pc z1 + 2"
    "plain_boundary z'" by blast
  then show ?case
    using s by (intro exI [of _ z']) (simp add: add.assoc fun_upd_def)
qed
text \<open>C22 (z80_ldir_copies): LDIR is a block copy. From a boundary with no interrupt pending and ED B0 at PC, BC iterations
  of the instruction (65536 of them for BC = 0) leave the memory a byte-by-byte copy loop leaves, HL and DE past their
  blocks, BC at 0 and PC past the instruction, provided the destination does not run over the instruction itself;
  if the two blocks do not overlap, the destination holds the source block and nothing else has changed.\<close>

theorem z80_ldir_copies:
  assumes "plain_boundary z" and "m (z_pc z) = 0xED" and "m (z_pc z + 1) = 0xB0" and "n = unat (z_bc z - 1) + 1"
    and "\<And>i. i < n \<Longrightarrow> z_de z + of_nat i \<noteq> z_pc z \<and> z_de z + of_nat i \<noteq> z_pc z + 1"
  shows "\<exists>z' m'. batch_run (ram_engine grid vec) (replicate n False) (z, m) = Some (z', m')
    \<and> m' = ldir_mem n (z_hl z) (z_de z) m
    \<and> z_hl z' = z_hl z + of_nat n \<and> z_de z' = z_de z + of_nat n \<and> z_bc z' = 0 \<and> z_pc z' = z_pc z + 2
    \<and> ((\<forall>i<n. \<forall>j<n. z_de z + of_nat i \<noteq> z_hl z + of_nat j) \<longrightarrow>
         (\<forall>i<n. m' (z_de z + of_nat i) = m (z_hl z + of_nat i))
         \<and> (\<forall>a. (\<forall>i<n. a \<noteq> z_de z + of_nat i) \<longrightarrow> m' a = m a))"
proof -
  have n: "n \<le> 65536" using assms(4) unat_less_65536 [of "z_bc z - 1"] by linarith
  have "z_de z + of_nat i \<noteq> z_pc z \<and> z_de z + of_nat i \<noteq> z_pc z + 1" if "i \<le> unat (z_bc z - 1)" for i
    using assms(5) [of i] assms(4) that by simp
  from ldir_run [OF assms(1-3) refl this, of grid vec] obtain z' where
    "batch_run (ram_engine grid vec) (replicate n False) (z, m) = Some (z', ldir_mem n (z_hl z) (z_de z) m)"
    "z_hl z' = z_hl z + of_nat n" "z_de z' = z_de z + of_nat n" "z_bc z' = 0" "z_pc z' = z_pc z + 2"
    unfolding assms(4) by auto
  moreover have "ldir_mem n (z_hl z) (z_de z) m (z_de z + of_nat i) = m (z_hl z + of_nat i)"
    if "\<forall>i<n. \<forall>j<n. z_de z + of_nat i \<noteq> z_hl z + of_nat j" "i < n" for i
    using that n by (intro ldir_mem_copy) auto
  moreover have "ldir_mem n (z_hl z) (z_de z) m a = m a" if "\<forall>i<n. a \<noteq> z_de z + of_nat i" for a
    using that by (intro ldir_mem_other) auto
  ultimately show ?thesis by blast
qed

definition ldir_demo :: z80_state where
  "ldir_demo = zero_state\<lparr>z_pc := 0x100, z_hl := 0x4000, z_de := 0xC000, z_bc := 3\<rparr>"

theorem z80_ldir_copies_witness:
  "\<exists>z' m'. batch_run (ram_engine True 0xFF) (replicate 3 False)
      (ldir_demo, (\<lambda>a. ucast a)(0x100 := 0xED, 0x101 := 0xB0)) = Some (z', m')
    \<and> m' 0xC002 = 2 \<and> z_pc z' = 0x102"
proof -
  let ?m = "(\<lambda>a. ucast a :: u8)(0x100 := 0xED, 0x101 := 0xB0)"
  have small: "i < 3 \<Longrightarrow> i = 0 \<or> i = 1 \<or> i = 2" for i :: nat by linarith
  have "plain_boundary ldir_demo" "?m (z_pc ldir_demo) = 0xED" "?m (z_pc ldir_demo + 1) = 0xB0"
    "3 = unat (z_bc ldir_demo - 1) + 1"
    by (simp_all add: plain_boundary_def z80_batch_ready_def ldir_demo_def zero_state_def)
  moreover have "i < 3 \<Longrightarrow> z_de ldir_demo + of_nat i \<noteq> z_pc ldir_demo \<and> z_de ldir_demo + of_nat i \<noteq> z_pc ldir_demo + 1" for i
    using small [of i] by (auto simp: ldir_demo_def)
  ultimately obtain z' m' where r: "batch_run (ram_engine True 0xFF) (replicate 3 False) (ldir_demo, ?m) = Some (z', m')"
    "m' = ldir_mem 3 (z_hl ldir_demo) (z_de ldir_demo) ?m" "z_pc z' = z_pc ldir_demo + 2"
    using z80_ldir_copies [of ldir_demo ?m 3 True 255] by blast
  have "m' 0xC002 = 2" "z_pc z' = 0x102"
    using r(2,3) by (simp_all add: ldir_demo_def numeral_3_eq_3)
  with r(1) show ?thesis by blast
qed

subsection \<open>Interrupts\<close>

definition vector_word :: "z80_state \<Rightarrow> u8 \<Rightarrow> u16" where
  "vector_word z vec = push_bit 8 (ucast (z_i z)) OR ucast vec"

text \<open>The memory after the return address is pushed, and the entry point of the handler.\<close>

definition pushed :: "ram \<Rightarrow> u16 \<Rightarrow> u16 \<Rightarrow> ram" where
  "pushed m sp pc = m(sp - 1 := hi pc, sp - 2 := lo pc)"

definition handler :: "z80_state \<Rightarrow> u8 \<Rightarrow> ram \<Rightarrow> u16" where
  "handler z vec m =
    (if z_im z = 0 then ucast vec AND 0x38
     else if z_im z = 2 then push_bit 8 (ucast (m (vector_word z vec + 1))) OR ucast (m (vector_word z vec))
     else 0x38)"

text \<open>Consuming one machine cycle: what the next micro step sees. \<open>steady\<close> is the part of the CPU the cycles of an
  interrupt sequence leave alone.\<close>

definition steady :: "z80_state \<Rightarrow> u16 \<times> u8 \<times> u8 \<times> bool \<times> u8 \<times> u8 \<times> u8 \<times> Servicing" where
  "steady z = (z_pc z, z_im z, z_i z, z_halted z, z_iff1 z, z_iff2 z, z_r z, z_servicing z)"

lemma rtf_read:
  assumes "run_micro z = req_read a z1"
  shows "\<exists>z2. run_to_finish (ram_engine grid vec) (z, m) = run_to_finish (ram_engine grid vec) (z2, m)
    \<and> steady z2 = steady z1 \<and> z_sp z2 = z_sp z1 \<and> z_mem_addr z2 = z_mem_addr z1 \<and> z_int_vec z2 = z_int_vec z1
    \<and> z_tmpl z2 = z_tmpl z1 \<and> z_tmp z2 = m a \<and> z_step z2 = z_step z1 + 1"
  by (subst run_to_finish.simps) (auto simp: assms run_defs steady_def intro!: exI)

lemma rtf_write:
  assumes "run_micro z = req_write a v z1"
  shows "\<exists>z2. run_to_finish (ram_engine grid vec) (z, m) = run_to_finish (ram_engine grid vec) (z2, m(a := v))
    \<and> steady z2 = steady z1 \<and> z_sp z2 = z_sp z1 \<and> z_int_vec z2 = z_int_vec z1 \<and> z_step z2 = z_step z1 + 1"
  by (subst run_to_finish.simps) (auto simp: assms run_defs steady_def intro!: exI)

lemma rtf_ack:
  assumes "run_micro z = req_ioack n z1" "z_servicing z1 = Svc_MASKABLE"
  shows "\<exists>z2. run_to_finish (ram_engine grid vec) (z, m) = run_to_finish (ram_engine grid vec) (z2, m)
    \<and> steady z2 = steady z1 \<and> z_sp z2 = z_sp z1 \<and> z_int_vec z2 = vec \<and> z_step z2 = z_step z1 + 1"
  using assms(2)
  by (subst run_to_finish.simps) (auto simp: assms(1) run_defs steady_def req_ioack_def int_ack_def intro!: exI)

lemma rtf_finish:
  assumes "run_micro z = finish z1"
  shows "run_to_finish g (z, m) = (finish z1, m)"
  by (subst run_to_finish.simps) (simp add: assms Let_def, simp add: finish_def)

lemma int_micro: "z_servicing z = Svc_MASKABLE \<Longrightarrow> run_micro z = micro_interrupt z"
  by (simp add: run_micro_def)

lemma int_pushed:
  assumes "z_servicing z = Svc_MASKABLE" "z_step z = 0"
  shows "\<exists>z3. run_to_finish (ram_engine grid vec) (z, m) =
      run_to_finish (ram_engine grid vec) (z3, pushed m (z_sp z) (z_pc z))
    \<and> steady z3 = steady z \<and> z_sp z3 = z_sp z - 2 \<and> z_int_vec z3 = vec \<and> z_step z3 = 3"
proof -
  let ?g = "ram_engine grid vec"
  have 0: "run_micro z = req_ioack 6 z"
    using assms by (simp add: int_micro micro_interrupt_def)
  obtain z1 where 1: "run_to_finish ?g (z, m) = run_to_finish ?g (z1, m)" "steady z1 = steady z" "z_sp z1 = z_sp z"
    "z_int_vec z1 = vec" "z_step z1 = 1"
    using rtf_ack [OF 0 assms(1), of grid vec m] assms(2) by auto
  have "run_micro z1 = req_write (z_sp z - 1) (hi (z_pc z)) (z1\<lparr>z_sp := z_sp z - 1\<rparr>)"
    using 1(2,3,5) assms by (simp add: steady_def int_micro micro_interrupt_def req_push_def)
  from rtf_write [OF this, of grid vec m] obtain z2 where
    2: "run_to_finish ?g (z1, m) = run_to_finish ?g (z2, m(z_sp z - 1 := hi (z_pc z)))" "steady z2 = steady z"
    "z_sp z2 = z_sp z - 1" "z_int_vec z2 = vec" "z_step z2 = 2"
    using 1(2,4,5) by (auto simp: steady_def)
  have "run_micro z2 = req_write (z_sp z - 2) (lo (z_pc z)) (z2\<lparr>z_sp := z_sp z - 2\<rparr>)"
    using 2(2,3,5) assms by (simp add: steady_def int_micro micro_interrupt_def req_push_def)
  from rtf_write [OF this, of grid vec "m(z_sp z - 1 := hi (z_pc z))"] show ?thesis
    using 1(1) 2 by (auto simp: steady_def pushed_def)
qed

lemma int_finish:
  assumes "z_servicing z = Svc_MASKABLE" "z_step z = 0"
  shows "\<exists>z'. run_to_finish (ram_engine grid vec) (z, m) = (z', pushed m (z_sp z) (z_pc z))
    \<and> z_pc z' = handler z vec (pushed m (z_sp z) (z_pc z)) \<and> z_sp z' = z_sp z - 2
    \<and> z_halted z' = z_halted z \<and> z_iff1 z' = z_iff1 z \<and> z_iff2 z' = z_iff2 z \<and> z_r z' = z_r z"
proof -
  let ?g = "ram_engine grid vec" and ?m = "pushed m (z_sp z) (z_pc z)"
  obtain z3 where 3: "run_to_finish ?g (z, m) = run_to_finish ?g (z3, ?m)" "steady z3 = steady z" "z_sp z3 = z_sp z - 2"
    "z_int_vec z3 = vec" "z_step z3 = 3"
    using int_pushed [OF assms, of grid vec m] by blast
  show ?thesis
  proof (cases "z_im z = 2")
    case False
    then have "run_micro z3 = finish ((jump (handler z vec ?m) z3)\<lparr>z_servicing := Svc_NONE\<rparr>)"
      using 3 assms by (simp add: steady_def int_micro micro_interrupt_def handler_def)
    from rtf_finish [OF this, of ?g ?m] show ?thesis
      using 3 by (simp add: finish_def jump_def steady_def)
  next
    case True
    let ?a = "vector_word z vec"
    have "run_micro z3 = req_read ?a (z3\<lparr>z_mem_addr := ?a\<rparr>)"
      using 3 True assms by (simp add: steady_def int_micro micro_interrupt_def vector_word_def Let_def)
    from rtf_read [OF this, of grid vec ?m] obtain z4 where
      4: "run_to_finish ?g (z3, ?m) = run_to_finish ?g (z4, ?m)" "steady z4 = steady z" "z_sp z4 = z_sp z - 2"
      "z_mem_addr z4 = ?a" "z_tmp z4 = ?m ?a" "z_step z4 = 4"
      using 3 by (auto simp: steady_def)
    have "run_micro z4 = req_read (?a + 1) (latch_lo z4)"
      using 4 True assms by (simp add: steady_def int_micro micro_interrupt_def)
    from rtf_read [OF this, of grid vec ?m] obtain z5 where
      5: "run_to_finish ?g (z4, ?m) = run_to_finish ?g (z5, ?m)" "steady z5 = steady z" "z_sp z5 = z_sp z - 2"
      "z_tmpl z5 = ?m ?a" "z_tmp z5 = ?m (?a + 1)" "z_step z5 = 5"
      using 4 by (auto simp: steady_def latch_lo_def)
    have "run_micro z5 = finish ((jump (handler z vec ?m) z5)\<lparr>z_servicing := Svc_NONE\<rparr>)"
      using 5 True assms by (simp add: steady_def int_micro micro_interrupt_def handler_def assemble16_def)
    from rtf_finish [OF this, of ?g ?m] show ?thesis
      using 3(1) 4(1) 5 by (simp add: finish_def jump_def steady_def)
  qed
qed

text \<open>C21 (z80_int_accept): the maskable interrupt. At a boundary with interrupts enabled, no EI shadow and the line
  asserted, a running or halted CPU pushes the address of the next instruction, enters the handler its mode names
  (the RST the bus byte encodes in mode 0, 0038 in mode 1, the word at I and the bus byte in mode 2), clears both
  interrupt flip-flops, leaves HALT and bumps R once.\<close>

theorem z80_int_accept:
  assumes "z80_batch_ready z" and "z_iff1 z \<noteq> 0" and "\<not> z_ei_delay z" and "\<not> z_nmi_pending z"
  defines "pc \<equiv> (if z_halted z then z_pc z + 1 else z_pc z)"
  shows "\<exists>n z'. z80_batch_step (ram_engine grid vec) True (z, m) = Some (n, z', pushed m (z_sp z) pc)
    \<and> z_pc z' = handler z vec (pushed m (z_sp z) pc) \<and> z_sp z' = z_sp z - 2
    \<and> z_iff1 z' = 0 \<and> z_iff2 z' = 0 \<and> \<not> z_halted z' \<and> z_r z' = z_r (bump_refresh z)"
proof -
  let ?g = "ram_engine grid vec" and ?w = "wake_batch z"
  have w: "z_nmi_pending ?w = False" "z_iff1 ?w = z_iff1 z" "z_ei_delay ?w = False" "z_pc ?w = pc" "z_sp ?w = z_sp z"
    "z_im ?w = z_im z" "z_i ?w = z_i z" "\<not> z_halted ?w" "z_r ?w = z_r z"
    using assms by (simp_all add: wake_batch_def)
  define y where "y = (let z2 = align_mem ?g (?w\<lparr>z_qq := 0, z_ei_delay := False\<rparr>) in z2\<lparr>z_tstates := z_tstates z2 + 1\<rparr>)"
  have y: "z_nmi_pending y = False" "z_iff1 y \<noteq> 0" "z_pc y = pc" "z_sp y = z_sp z" "z_im y = z_im z" "z_i y = z_i z"
    "\<not> z_halted y" "z_r y = z_r z"
    using w assms(2) by (simp_all add: y_def Let_def align_mem_def)
  define z3 where "z3 = (bump_refresh y)\<lparr>z_iff1 := 0, z_iff2 := 0, z_servicing := Svc_MASKABLE, z_step := 0\<rparr>"
  have z3: "z_servicing z3 = Svc_MASKABLE" "z_step z3 = 0" "z_pc z3 = pc" "z_sp z3 = z_sp z" "z_im z3 = z_im z"
      "z_i z3 = z_i z" "z_iff1 z3 = 0" "z_iff2 z3 = 0" "\<not> z_halted z3" "z_r z3 = z_r (bump_refresh z)"
    using y by (simp_all add: z3_def bump_refresh_def)
  have "accepts ?g True ?w = accept False True y"
    using w by (simp add: accepts_def y_def Let_def)
  also have "\<dots> = Some z3"
    using y by (simp add: accept_def z3_def)
  finally have a: "accepts ?g True ?w = Some z3" .
  have h: "handler z3 vec x = handler z vec x" for x
    using z3 by (simp add: handler_def vector_word_def)
  obtain z' where z': "run_to_finish ?g (z3, m) = (z', pushed m (z_sp z) pc)"
    "z_pc z' = handler z vec (pushed m (z_sp z) pc)" "z_sp z' = z_sp z - 2" "z_halted z' = z_halted z3"
    "z_iff1 z' = 0" "z_iff2 z' = 0" "z_r z' = z_r (bump_refresh z)"
    using int_finish [OF z3(1,2), of grid vec m] z3 h by auto
  have "int_ready z True" using assms by (simp add: int_ready_def)
  then have "z80_batch_step ?g True (z, m) = Some (ucast (z_tstates z' - z_tstates z), z', pushed m (z_sp z) pc)"
    using a z'(1) by (simp add: z80_batch_step_alt)
  then show ?thesis
    using z' z3(9) by blast
qed

theorem z80_int_accept_witness:
  "\<exists>n z'. z80_batch_step (ram_engine True 0xFF) True
      (zero_state\<lparr>z_halted := True, z_pc := 0x1234, z_sp := 0xC000, z_iff1 := 1, z_im := 1\<rparr>, (\<lambda>a. 0x76)) =
      Some (n, z', pushed (\<lambda>a. 0x76) 0xC000 0x1235) \<and> z_pc z' = 0x38 \<and> \<not> z_halted z'"
proof -
  let ?z = "zero_state\<lparr>z_halted := True, z_pc := 0x1234, z_sp := 0xC000, z_iff1 := 1, z_im := 1\<rparr>"
  have "z80_batch_ready ?z" "z_iff1 ?z \<noteq> 0" "\<not> z_ei_delay ?z" "\<not> z_nmi_pending ?z"
    by (simp_all add: z80_batch_ready_def zero_state_def)
  from z80_int_accept [OF this, of True "0xFF" "\<lambda>a. 0x76"] show ?thesis
    by (simp add: handler_def) blast
qed
end
