(* ===== verification/Flux.thy ===== *)
theory Flux
  imports Prelude
begin

text \<open>
  The flux decoder, \<open>src/src/hw/flux.cpp\<close>: the software PLL that turns flux intervals into bit cells, the
  MFM byte reader, CRC-CCITT, the sync-hunting track scanner, the SCP container and the two entry points
  (a whole DSK image, or one revolution of one cylinder for the rotating FDC).

  The packed bit buffer \<open>BitBuf\<close> (\<open>bits\<close>, \<open>n\<close>) is the list of its \<open>n\<close> cells. Buffers passed by the
  caller are \<open>u8 list option\<close> (\<open>None\<close> for a null pointer), their lengths the list's. IEEE double
  arithmetic is a parameter, the record \<open>arith\<close> of the operations the source uses: the PLL is translated
  operation by operation and every lemma holds for any such arithmetic.
\<close>

datatype flux_err = FLUX_E_NOT_SCP | FLUX_E_GEOMETRY | FLUX_E_TRUNCATED | FLUX_E_TOO_LONG
  | FLUX_E_DSK_OVERFLOW | FLUX_E_NO_SECTORS

definition kMaxCyls :: nat where "kMaxCyls = 84"
definition kMaxSectors :: nat where "kMaxSectors = 29"
definition kMaxSizeCode :: nat where "kMaxSizeCode = 5"
definition kMaxBits :: nat where "kMaxBits = 262144"
definition kMaxTrackBytes :: nat where "kMaxTrackBytes = 8192"
definition kTlutOff :: nat where "kTlutOff = 0x10"
definition kTlutEnd :: nat where "kTlutEnd = kTlutOff + 4 * 168"
definition kDamWindow :: nat where "kDamWindow = 1280"

subsection \<open>Flux intervals to bit cells\<close>

text \<open>\<open>ar_dec m e\<close> is the literal \<open>m / 10 ^ e\<close>; \<open>ar_trunc\<close> is \<open>static_cast<long>\<close>.\<close>

record 'd arith =
  ar_of_nat :: "nat \<Rightarrow> 'd"
  ar_dec :: "nat \<Rightarrow> nat \<Rightarrow> 'd"
  ar_add :: "'d \<Rightarrow> 'd \<Rightarrow> 'd"
  ar_sub :: "'d \<Rightarrow> 'd \<Rightarrow> 'd"
  ar_mul :: "'d \<Rightarrow> 'd \<Rightarrow> 'd"
  ar_div :: "'d \<Rightarrow> 'd \<Rightarrow> 'd"
  ar_less :: "'d \<Rightarrow> 'd \<Rightarrow> bool"
  ar_trunc :: "'d \<Rightarrow> int"

definition rd32 :: "u8 list \<Rightarrow> nat \<Rightarrow> nat" where
  "rd32 p o1 = unat (p ! o1) + 0x100 * unat (p ! (o1 + 1)) + 0x10000 * unat (p ! (o1 + 2))
    + 0x1000000 * unat (p ! (o1 + 3))"

definition rd16be :: "u8 list \<Rightarrow> nat \<Rightarrow> nat" where
  "rd16be p o1 = 0x100 * unat (p ! o1) + unat (p ! (o1 + 1))"

definition carried :: "nat \<Rightarrow> nat" where
  "carried carry = (carry + 0x10000) mod 2 ^ 32"

definition interval :: "'d arith \<Rightarrow> nat \<Rightarrow> nat \<Rightarrow> 'd" where
  "interval A carry w = ar_add A (ar_of_nat A carry) (ar_of_nat A w)"

definition nearest :: "'d arith \<Rightarrow> 'd \<Rightarrow> 'd \<Rightarrow> int" where
  "nearest A t cell = ar_trunc A (ar_add A (ar_div A t cell) (ar_dec A 5 1))"

definition clamp :: "'d arith \<Rightarrow> 'd \<Rightarrow> 'd \<Rightarrow> 'd \<Rightarrow> 'd" where
  "clamp A lo hi x = (if ar_less A x lo then lo else if ar_less A hi x then hi else x)"

fun estimate_pass :: "'d arith \<Rightarrow> 'd \<Rightarrow> nat list \<Rightarrow> nat \<Rightarrow> 'd \<times> nat \<Rightarrow> 'd \<times> nat" where
  "estimate_pass A cell [] carry acc = acc"
| "estimate_pass A cell (w # ws) carry acc =
    (if w = 0 then estimate_pass A cell ws (carried carry) acc
     else
       (let t = interval A carry w; n = nearest A t cell in
        estimate_pass A cell ws 0
          (if 2 \<le> n \<and> n \<le> 4 then (ar_add A (fst acc) t, snd acc + nat n) else acc)))"

definition estimate_once :: "'d arith \<Rightarrow> nat list \<Rightarrow> 'd \<Rightarrow> 'd" where
  "estimate_once A ws cell =
    (case estimate_pass A cell ws 0 (ar_of_nat A 0, 0) of (sum_t, sum_n) \<Rightarrow>
      if 128 \<le> sum_n then ar_div A sum_t (ar_of_nat A sum_n) else cell)"

definition estimate_cell :: "'d arith \<Rightarrow> nat list \<Rightarrow> 'd \<Rightarrow> 'd" where
  "estimate_cell A ws nominal =
    (let cell = estimate_once A ws (estimate_once A ws nominal)
     in clamp A (ar_mul A nominal (ar_dec A 85 2)) (ar_mul A nominal (ar_dec A 115 2)) cell)"

fun pll_words :: "'d arith \<Rightarrow> 'd \<Rightarrow> 'd \<Rightarrow> nat list \<Rightarrow> nat \<Rightarrow> 'd \<Rightarrow> bool list \<Rightarrow> flux_err + bool list" where
  "pll_words A lo hi [] carry clock bb = Inr bb"
| "pll_words A lo hi (w # ws) carry clock bb =
    (if w = 0 then pll_words A lo hi ws (carried carry) clock bb
     else
       (let t = interval A carry w; n = nat (max (nearest A t clock) 1) in
        if length bb + n > kMaxBits then Inl FLUX_E_TOO_LONG
        else
          (let n_d = ar_of_nat A n;
               err = ar_mul A (ar_div A (ar_sub A t (ar_mul A n_d clock)) n_d) (ar_dec A 2 2)
           in pll_words A lo hi ws 0 (clamp A lo hi (ar_add A clock err)) (bb @ replicate (n - 1) False @ [True]))))"

definition pll_decode :: "'d arith \<Rightarrow> nat list \<Rightarrow> 'd \<Rightarrow> bool list \<Rightarrow> flux_err + bool list" where
  "pll_decode A ws nominal bb =
    (let cell = estimate_cell A ws nominal
     in pll_words A (ar_mul A cell (ar_dec A 985 3)) (ar_mul A cell (ar_dec A 1015 3)) ws 0 cell bb)"

subsection \<open>MFM bytes and the CRC\<close>

definition bit_at :: "bool list \<Rightarrow> nat \<Rightarrow> bool" where
  "bit_at bb i = bb ! i"

definition shift_in :: "'a::len word \<Rightarrow> bool \<Rightarrow> 'a word" where
  "shift_in v b = push_bit 1 v OR (if b then 1 else 0)"

definition read_mfm_byte :: "bool list \<Rightarrow> nat \<Rightarrow> (u8 \<times> nat) option" where
  "read_mfm_byte bb pos =
    (if pos + 16 > length bb then None
     else Some (foldl shift_in 0 (map (\<lambda>k. bit_at bb (pos + 2 * k + 1)) [0..<8]), pos + 16))"

definition read_raw16 :: "bool list \<Rightarrow> nat \<Rightarrow> (u16 \<times> nat) option" where
  "read_raw16 bb pos =
    (if pos + 16 > length bb then None
     else Some (foldl shift_in 0 (map (\<lambda>k. bit_at bb (pos + k)) [0..<16]), pos + 16))"

definition crc_shift :: "u16 \<Rightarrow> u16" where
  "crc_shift crc = (if crc AND 0x8000 \<noteq> 0 then push_bit 1 crc XOR 0x1021 else push_bit 1 crc)"

definition crc_byte :: "u16 \<Rightarrow> u8 \<Rightarrow> u16" where
  "crc_byte crc b = (crc_shift ^^ 8) (crc XOR push_bit 8 (ucast b))"

definition crc_sync_preset :: u16 where
  "crc_sync_preset = ((\<lambda>crc. crc_byte crc 0xA1) ^^ 3) 0xFFFF"

subsection \<open>The track scanner\<close>

record SecRec =
  sr_chrn :: "u8 list"
  sr_st1 :: u8
  sr_st2 :: u8
  sr_len :: nat
  sr_off :: nat
  sr_crc_bad :: bool
  sr_differs :: bool
  sr_idam_bit :: nat
  sr_data_bit :: nat

text \<open>The loop variables of \<open>scan_track\<close>; \<open>used\<close> is the length of \<open>sc_data\<close>, \<open>count\<close> that of
  \<open>sc_secs\<close>.\<close>

record scan =
  sc_pos :: nat
  sc_sr :: u16
  sc_have_hdr :: bool
  sc_hdr :: "u8 list"
  sc_hdr_end :: nat
  sc_data :: "u8 list"
  sc_secs :: "SecRec list"

fun find_sec :: "SecRec list \<Rightarrow> u8 list \<Rightarrow> nat option" where
  "find_sec [] chrn = None"
| "find_sec (s # ss) chrn = (if sr_chrn s = chrn then Some 0 else map_option Suc (find_sec ss chrn))"

function sync_run :: "bool list \<Rightarrow> nat \<Rightarrow> nat" where
  "sync_run bb p = (case read_raw16 bb p of
      Some (w, q) \<Rightarrow> if w = 0x4489 then sync_run bb q else p
    | None \<Rightarrow> p)"
  by pat_completeness auto
termination
  by (relation "measure (\<lambda>(bb, p). length bb - p)") (auto simp: read_raw16_def split: if_splits)

declare sync_run.simps [simp del]

fun read_field :: "bool list \<Rightarrow> nat \<Rightarrow> nat \<Rightarrow> u16 \<Rightarrow> (u8 list \<times> u16) option \<times> nat" where
  "read_field bb 0 p crc = (Some ([], crc), p)"
| "read_field bb (Suc n) p crc =
    (case read_mfm_byte bb p of
       None \<Rightarrow> (None, p)
     | Some (b, q) \<Rightarrow>
         (case read_field bb n q (crc_byte crc b) of
            (None, r) \<Rightarrow> (None, r)
          | (Some (bs, c), r) \<Rightarrow> (Some (b # bs, c), r)))"

definition read_crc :: "bool list \<Rightarrow> nat \<Rightarrow> u16 option \<times> nat" where
  "read_crc bb p =
    (case read_mfm_byte bb p of
       None \<Rightarrow> (None, p)
     | Some (h, q) \<Rightarrow>
         (case read_mfm_byte bb q of
            None \<Rightarrow> (None, q)
          | Some (l, r) \<Rightarrow> (Some (push_bit 8 (ucast h) OR ucast l), r)))"

definition read_checked :: "bool list \<Rightarrow> nat \<Rightarrow> nat \<Rightarrow> u8 \<Rightarrow> (u8 list \<times> bool) option \<times> nat" where
  "read_checked bb n p mark =
    (case read_field bb n p (crc_byte crc_sync_preset mark) of
       (None, q) \<Rightarrow> (None, q)
     | (Some (bs, crc), q) \<Rightarrow>
         (case read_crc bb q of
            (None, r) \<Rightarrow> (None, r)
          | (Some c, r) \<Rightarrow> (Some (bs, crc = c), r)))"

definition scan_id :: "bool list \<Rightarrow> nat \<Rightarrow> scan \<Rightarrow> scan" where
  "scan_id bb p s =
    (case read_checked bb 4 p 0xFE of
       (None, q) \<Rightarrow> s\<lparr>sc_pos := q\<rparr>
     | (Some (idf, ok), q) \<Rightarrow>
         if ok \<and> unat (idf ! 3) \<le> kMaxSizeCode
         then s\<lparr>sc_pos := q, sc_hdr := idf, sc_have_hdr := True, sc_hdr_end := q\<rparr>
         else s\<lparr>sc_pos := q\<rparr>)"

definition sighting :: "scan \<Rightarrow> u8 \<Rightarrow> nat \<Rightarrow> u8 list \<Rightarrow> bool \<Rightarrow> scan" where
  "sighting s mark data_start secbuf crc_ok =
    (case find_sec (sc_secs s) (sc_hdr s) of
       Some i \<Rightarrow>
         (let ex = sc_secs s ! i; len = length secbuf in
          if sr_len ex \<noteq> len \<or> take len (drop (sr_off ex) (sc_data s)) \<noteq> secbuf
          then s\<lparr>sc_secs := (sc_secs s)[i := ex\<lparr>sr_differs := True\<rparr>]\<rparr> else s)
     | None \<Rightarrow>
         if length (sc_secs s) < kMaxSectors \<and> length (sc_data s) + length secbuf \<le> kMaxTrackBytes
         then s\<lparr>sc_secs := sc_secs s @
                [\<lparr> sr_chrn = sc_hdr s, sr_st1 = (if crc_ok then 0 else 0x20),
                   sr_st2 = (if crc_ok then 0 else 0x20) OR (if mark = 0xF8 then 0x40 else 0),
                   sr_len = length secbuf, sr_off = length (sc_data s), sr_crc_bad = (\<not> crc_ok),
                   sr_differs = False, sr_idam_bit = sc_hdr_end s, sr_data_bit = data_start \<rparr>],
                sc_data := sc_data s @ secbuf\<rparr>
         else s)"

definition scan_data :: "bool list \<Rightarrow> u8 \<Rightarrow> nat \<Rightarrow> scan \<Rightarrow> scan" where
  "scan_data bb mark p s =
    (case read_checked bb (128 * 2 ^ unat (sc_hdr s ! 3)) p mark of
       (None, q) \<Rightarrow> s\<lparr>sc_pos := q\<rparr>
     | (Some (secbuf, crc_ok), q) \<Rightarrow>
         (sighting (s\<lparr>sc_pos := q\<rparr>) mark p secbuf crc_ok)\<lparr>sc_have_hdr := False\<rparr>)"

text \<open>One turn of the hunt; \<open>None\<close> is the \<open>break\<close> at the end of the stream.\<close>

definition scan_step :: "bool list \<Rightarrow> scan \<Rightarrow> scan option" where
  "scan_step bb s =
    (let s1 = s\<lparr>sc_pos := sc_pos s + 1, sc_sr := shift_in (sc_sr s) (bit_at bb (sc_pos s))\<rparr> in
     if sc_sr s1 \<noteq> 0x4489 then Some s1
     else
       (case read_mfm_byte bb (sync_run bb (sc_pos s1)) of
          None \<Rightarrow> None
        | Some (mark, p) \<Rightarrow>
            Some ((if mark = 0xFE then scan_id bb p s1
                   else if (mark = 0xFB \<or> mark = 0xF8) \<and> sc_have_hdr s1 \<and> p - sc_hdr_end s1 \<le> kDamWindow
                   then scan_data bb mark p s1
                   else s1\<lparr>sc_pos := p\<rparr>)\<lparr>sc_sr := 0\<rparr>)))"

text \<open>Every turn moves the position forward, so the hunt ends.\<close>

lemma read_mfm_byte_pos: "read_mfm_byte bb p = Some (b, q) \<Longrightarrow> q = p + 16 \<and> p + 16 \<le> length bb"
  by (auto simp: read_mfm_byte_def split: if_splits)

lemma sync_run_ge: "p \<le> sync_run bb p"
proof (induction bb p rule: sync_run.induct)
  case (1 bb p)
  show ?case
    by (subst sync_run.simps) (use 1 in \<open>force simp: read_raw16_def split: option.split if_splits\<close>)
qed

lemma read_field_ge: "p \<le> snd (read_field bb n p crc)"
proof (induction n arbitrary: p crc)
  case 0
  show ?case by simp
next
  case (Suc n)
  show ?case
  proof (cases "read_mfm_byte bb p")
    case None
    then show ?thesis by simp
  next
    case (Some bq)
    then have "snd bq = p + 16"
      by (cases bq) (simp add: read_mfm_byte_pos)
    with Suc.IH [of "snd bq" "crc_byte crc (fst bq)"] Some show ?thesis
      by (cases bq) (simp add: split_def split: option.split)
  qed
qed

lemma read_crc_ge: "p \<le> snd (read_crc bb p)"
  by (auto simp: read_crc_def dest!: read_mfm_byte_pos split: option.split)

lemma read_checked_ge: "p \<le> snd (read_checked bb n p mark)"
proof -
  let ?f = "read_field bb n p (crc_byte crc_sync_preset mark)"
  have "p \<le> snd ?f" "snd ?f \<le> snd (read_crc bb (snd ?f))"
    by (rule read_field_ge, rule read_crc_ge)
  then show ?thesis
    by (cases ?f; cases "fst ?f"; cases "read_crc bb (snd ?f)") (auto simp: read_checked_def split: option.split)
qed

lemma scan_id_pos: "p \<le> sc_pos (scan_id bb p s)"
  using read_checked_ge [of p bb 4 "0xFE"] by (auto simp: scan_id_def split: option.split prod.split)

lemma sighting_frame [simp]:
  "sc_pos (sighting s m d xs ok) = sc_pos s" "sc_sr (sighting s m d xs ok) = sc_sr s"
  "sc_hdr (sighting s m d xs ok) = sc_hdr s" "sc_hdr_end (sighting s m d xs ok) = sc_hdr_end s"
  "sc_have_hdr (sighting s m d xs ok) = sc_have_hdr s"
  by (simp_all add: sighting_def Let_def split: option.split)

lemma scan_data_pos: "p \<le> sc_pos (scan_data bb m p s)"
  using read_checked_ge [of p bb "128 * 2 ^ unat (sc_hdr s ! 3)" m]
  by (auto simp: scan_data_def split: option.split prod.split)

lemma scan_step_pos: "scan_step bb s = Some t \<Longrightarrow> sc_pos s < sc_pos t"
proof -
  assume a: "scan_step bb s = Some t"
  let ?s1 = "s\<lparr>sc_pos := sc_pos s + 1, sc_sr := shift_in (sc_sr s) (bit_at bb (sc_pos s))\<rparr>"
  have "sc_pos s < p" if "read_mfm_byte bb (sync_run bb (Suc (sc_pos s))) = Some (m, p)" for m p
    using read_mfm_byte_pos [OF that] sync_run_ge [of "Suc (sc_pos s)" bb] by linarith
  with a show ?thesis
    using less_le_trans [OF _ scan_id_pos, of "sc_pos s" _ bb ?s1]
      less_le_trans [OF _ scan_data_pos, of "sc_pos s" _ bb _ ?s1]
    by (auto simp: scan_step_def Let_def split: if_splits option.splits)
qed

function scan_loop :: "bool list \<Rightarrow> scan \<Rightarrow> scan" where
  "scan_loop bb s =
    (if sc_pos s < length bb
     then (case scan_step bb s of None \<Rightarrow> s | Some t \<Rightarrow> scan_loop bb t)
     else s)"
  by pat_completeness auto
termination
  by (relation "measure (\<lambda>(bb, s). length bb - sc_pos s)") (auto dest: scan_step_pos)

declare scan_loop.simps [simp del]

definition scan_start :: scan where
  "scan_start = \<lparr> sc_pos = 0, sc_sr = 0, sc_have_hdr = False, sc_hdr = [0, 0, 0, 0], sc_hdr_end = 0,
    sc_data = [], sc_secs = [] \<rparr>"

definition scan_track :: "bool list \<Rightarrow> u8 list \<times> SecRec list" where
  "scan_track bb = (let s = scan_loop bb scan_start in (sc_data s, sc_secs s))"

subsection \<open>The SCP container\<close>

record ScpGeom =
  g_revs :: nat
  g_legacy :: bool
  g_res :: nat
  g_cyls :: nat

text \<open>\<open>g_res\<close> is the resolution byte of which \<open>nominal\<close> is computed.\<close>

definition g_nominal :: "'d arith \<Rightarrow> ScpGeom \<Rightarrow> 'd" where
  "g_nominal A g = ar_div A (ar_dec A 80 0) (ar_add A (ar_of_nat A (g_res g)) (ar_dec A 1 0))"

definition slot_entry :: "u8 list \<Rightarrow> nat \<Rightarrow> nat" where
  "slot_entry scp slot = rd32 scp (kTlutOff + 4 * slot)"

definition scp_slot :: "ScpGeom \<Rightarrow> nat \<Rightarrow> nat" where
  "scp_slot g cyl = (if g_legacy g then cyl else cyl * 2)"

definition track_offset :: "u8 list \<Rightarrow> ScpGeom \<Rightarrow> nat \<Rightarrow> nat" where
  "track_offset scp g cyl = slot_entry scp (scp_slot g cyl)"

definition bytes_of :: "string \<Rightarrow> u8 list" where
  "bytes_of s = map of_char s"

text \<open>\<open>memcmp(p + off, s, strlen(s)) == 0\<close>.\<close>

definition magic :: "u8 list \<Rightarrow> nat \<Rightarrow> string \<Rightarrow> bool" where
  "magic p off s \<longleftrightarrow> take (length s) (drop off p) = bytes_of s"

definition scp_geometry :: "u8 list option \<Rightarrow> flux_err + ScpGeom" where
  "scp_geometry buf =
    (case buf of
       None \<Rightarrow> Inl FLUX_E_NOT_SCP
     | Some scp \<Rightarrow>
         if length scp < kTlutEnd \<or> \<not> magic scp 0 ''SCP'' then Inl FLUX_E_NOT_SCP
         else if scp ! 9 \<noteq> 0 \<and> scp ! 9 \<noteq> 16 then Inl FLUX_E_GEOMETRY
         else if scp ! 5 = 0 then Inl FLUX_E_GEOMETRY
         else if scp ! 0x0A = 2 then Inl FLUX_E_GEOMETRY
         else if scp ! 6 > scp ! 7 then Inl FLUX_E_GEOMETRY
         else
           (let legacy = (scp ! 0x0A \<noteq> 0 \<and> list_ex (\<lambda>k. slot_entry scp (2 * k + 1) \<noteq> 0) [0..<84]);
                g = \<lparr> g_revs = unat (scp ! 5), g_legacy = legacy, g_res = unat (scp ! 0x0B), g_cyls = 0 \<rparr>;
                cyls = foldl (\<lambda>n cyl. if track_offset scp g cyl \<noteq> 0 then cyl + 1 else n) 0 [0..<kMaxCyls]
            in if cyls = 0 then Inl FLUX_E_GEOMETRY else Inr (g\<lparr>g_cyls := cyls\<rparr>)))"

definition flux_words :: "u8 list \<Rightarrow> nat \<Rightarrow> nat \<Rightarrow> nat list" where
  "flux_words scp start words = map (\<lambda>i. rd16be scp (start + 2 * i)) [0..<words]"

definition decode_one_rev :: "'d arith \<Rightarrow> u8 list \<Rightarrow> nat \<Rightarrow> ScpGeom \<Rightarrow> nat \<Rightarrow> bool list \<Rightarrow> flux_err + bool list" where
  "decode_one_rev A scp toff g r bb =
    (if toff + 4 + 12 * g_revs g > length scp \<or> \<not> magic scp toff ''TRK'' then Inl FLUX_E_TRUNCATED
     else
       (let e = toff + 4 + 12 * r; words = rd32 scp (e + 4); doff = rd32 scp (e + 8) in
        if toff + doff + 2 * words > length scp then Inl FLUX_E_TRUNCATED
        else pll_decode A (flux_words scp (toff + doff) words) (g_nominal A g) bb))"

definition decode_track :: "'d arith \<Rightarrow> u8 list \<Rightarrow> nat \<Rightarrow> ScpGeom \<Rightarrow> flux_err + bool list" where
  "decode_track A scp toff g =
    (case decode_one_rev A scp toff g 0 [] of
       Inl e \<Rightarrow> Inl e
     | Inr bb \<Rightarrow> if g_revs g \<ge> 2 then decode_one_rev A scp toff g 1 bb else Inr bb)"

definition flux_scp_probe :: "u8 list option \<Rightarrow> bool" where
  "flux_scp_probe scp = (case scp_geometry scp of Inr g \<Rightarrow> True | Inl _ \<Rightarrow> False)"

definition flux_scp_revolutions :: "u8 list option \<Rightarrow> nat" where
  "flux_scp_revolutions scp = (case scp_geometry scp of Inr g \<Rightarrow> g_revs g | Inl _ \<Rightarrow> 0)"

definition flux_scp_cylinders :: "u8 list option \<Rightarrow> nat" where
  "flux_scp_cylinders scp = (case scp_geometry scp of Inr g \<Rightarrow> g_cyls g | Inl _ \<Rightarrow> 0)"

subsection \<open>One revolution for the rotating medium\<close>

record FluxSector =
  fx_chrn :: "u8 list"
  fx_st1 :: u8
  fx_st2 :: u8
  fx_len :: nat
  fx_off :: nat
  fx_idam_cell :: nat
  fx_data_cell :: nat

definition byte_cell :: "nat \<Rightarrow> nat \<Rightarrow> nat" where
  "byte_cell n b = b * 6250 div n mod 6250"

definition flux_sector :: "nat \<Rightarrow> SecRec \<Rightarrow> FluxSector" where
  "flux_sector n s = \<lparr> fx_chrn = sr_chrn s, fx_st1 = sr_st1 s, fx_st2 = sr_st2 s, fx_len = sr_len s,
    fx_off = sr_off s, fx_idam_cell = byte_cell n (sr_idam_bit s), fx_data_cell = byte_cell n (sr_data_bit s) \<rparr>"

text \<open>The result: the sectors, and the payload bytes written to the caller's buffer.\<close>

definition flux_decode_track_rev ::
    "'d arith \<Rightarrow> u8 list option \<Rightarrow> nat \<Rightarrow> nat \<Rightarrow> nat \<Rightarrow> flux_err + FluxSector list \<times> u8 list" where
  "flux_decode_track_rev A buf cyl r payload_cap =
    (case scp_geometry buf of
       Inl e \<Rightarrow> Inl e
     | Inr g \<Rightarrow>
         (let scp = the buf in
          if cyl \<ge> g_cyls g then Inr ([], [])
          else if track_offset scp g cyl = 0 then Inr ([], [])
          else
            (case decode_one_rev A scp (track_offset scp g cyl) g (r mod g_revs g) [] of
               Inl e \<Rightarrow> Inl e
             | Inr bb \<Rightarrow>
                 if bb = [] then Inr ([], [])
                 else
                   (let (data, secs) = scan_track bb; pay = take payload_cap data;
                        fit = filter (\<lambda>s. sr_off s + sr_len s \<le> length pay) secs
                    in Inr (map (flux_sector (length bb)) fit, pay)))))"

subsection \<open>The whole disc as a DSK image\<close>

record FluxWeakSector =
  fw_cyl :: nat
  fw_sector_id :: u8
  fw_crc :: bool
  fw_differ :: bool

definition lo8 :: "nat \<Rightarrow> u8" where "lo8 n = of_nat (n mod 256)"
definition hi8 :: "nat \<Rightarrow> u8" where "hi8 n = of_nat (n div 256)"

definition pad_to :: "nat \<Rightarrow> u8 list \<Rightarrow> u8 list" where
  "pad_to n xs = xs @ replicate (n - length xs) 0"

definition block_size :: "nat \<Rightarrow> nat" where
  "block_size used = (0x100 + used + 0xFF) div 256 * 256"

definition sector_info :: "bool \<Rightarrow> SecRec \<Rightarrow> u8 list" where
  "sector_info standard s =
    sr_chrn s @ [sr_st1 s, sr_st2 s] @ (if standard then [0, 0] else [lo8 (sr_len s), hi8 (sr_len s)])"

definition track_info :: "bool \<Rightarrow> nat \<Rightarrow> SecRec list \<Rightarrow> u8 list" where
  "track_info standard cyl secs = pad_to 0x100
    (bytes_of ''Track-Info'' @ [0x0D, 0x0A, 0, 0, 0, 0, of_nat cyl, 0, 0, 0,
       (if secs = [] then 2 else sr_chrn (hd secs) ! 3), of_nat (length secs), 0x4E, 0xE5] @
     concat (map (sector_info standard) secs))"

definition track_block :: "bool \<Rightarrow> nat \<Rightarrow> u8 list \<times> SecRec list \<Rightarrow> u8 list" where
  "track_block standard cyl t = pad_to (block_size (length (fst t))) (track_info standard cyl (snd t) @ fst t)"

definition scan_cylinder :: "'d arith \<Rightarrow> u8 list \<Rightarrow> ScpGeom \<Rightarrow> nat \<Rightarrow> flux_err + u8 list \<times> SecRec list" where
  "scan_cylinder A scp g cyl =
    (if track_offset scp g cyl = 0 then Inr ([], [])
     else (case decode_track A scp (track_offset scp g cyl) g of Inl e \<Rightarrow> Inl e | Inr bb \<Rightarrow> Inr (scan_track bb)))"

fun dsk_tracks :: "'d arith \<Rightarrow> u8 list \<Rightarrow> ScpGeom \<Rightarrow> nat \<Rightarrow> nat list \<Rightarrow> nat \<Rightarrow>
    flux_err + (u8 list \<times> SecRec list) list" where
  "dsk_tracks A scp g cap [] off = Inr []"
| "dsk_tracks A scp g cap (c # cs) off =
    (case scan_cylinder A scp g c of
       Inl e \<Rightarrow> Inl e
     | Inr t \<Rightarrow>
         (let block = block_size (length (fst t)) in
          if off + block > cap then Inl FLUX_E_DSK_OVERFLOW
          else (case dsk_tracks A scp g cap cs (off + block) of Inl e \<Rightarrow> Inl e | Inr ts \<Rightarrow> Inr (t # ts))))"

definition dsk_blocks :: "(u8 list \<times> SecRec list) list \<Rightarrow> nat list" where
  "dsk_blocks ts = map (\<lambda>t. block_size (length (fst t))) ts"

definition dsk_uniform :: "(u8 list \<times> SecRec list) list \<Rightarrow> bool" where
  "dsk_uniform ts \<longleftrightarrow>
    list_all (\<lambda>b. b = hd (dsk_blocks ts)) (dsk_blocks ts) \<and>
    (let ns = map (\<lambda>s. sr_chrn s ! 3) (concat (map snd ts)) in list_all (\<lambda>n. n = hd ns) ns)"

definition dsk_header :: "(u8 list \<times> SecRec list) list \<Rightarrow> u8 list" where
  "dsk_header ts = pad_to 0x100
    (if dsk_uniform ts
     then bytes_of ''MV - CPCEMU Disk-File'' @ [0x0D, 0x0A] @ bytes_of ''Disk-Info'' @ [0x0D, 0x0A] @
       bytes_of ''konCePCja-flux'' @ [of_nat (length ts), 1, lo8 (hd (dsk_blocks ts)), hi8 (hd (dsk_blocks ts))]
     else bytes_of ''EXTENDED CPC DSK File'' @ [0x0D, 0x0A] @ bytes_of ''Disk-Info'' @ [0x0D, 0x0A] @
       bytes_of ''konCePCja-flux'' @ [of_nat (length ts), 1, 0, 0] @ map hi8 (dsk_blocks ts))"

definition dsk_image :: "(u8 list \<times> SecRec list) list \<Rightarrow> u8 list" where
  "dsk_image ts = dsk_header ts @ concat (map2 (track_block (dsk_uniform ts)) [0..<length ts] ts)"

definition weak_report :: "(u8 list \<times> SecRec list) list \<Rightarrow> nat \<times> FluxWeakSector list" where
  "weak_report ts =
    (let ws = concat (map2 (\<lambda>cyl t. map (\<lambda>s. \<lparr> fw_cyl = cyl, fw_sector_id = sr_chrn s ! 2,
           fw_crc = sr_crc_bad s, fw_differ = sr_differs s \<rparr>)
         (filter (\<lambda>s. sr_crc_bad s \<or> sr_differs s) (snd t))) [0..<length ts] ts)
     in (length ws, take 16 ws))"

definition flux_scp_to_dsk :: "'d arith \<Rightarrow> u8 list option \<Rightarrow> nat option \<Rightarrow>
    flux_err + u8 list \<times> nat \<times> FluxWeakSector list" where
  "flux_scp_to_dsk A buf cap =
    (case scp_geometry buf of
       Inl e \<Rightarrow> Inl e
     | Inr g \<Rightarrow>
         (case cap of
            None \<Rightarrow> Inl FLUX_E_DSK_OVERFLOW
          | Some n \<Rightarrow>
              if n < 0x100 then Inl FLUX_E_DSK_OVERFLOW
              else
                (case dsk_tracks A (the buf) g n [0..<g_cyls g] 0x100 of
                   Inl e \<Rightarrow> Inl e
                 | Inr ts \<Rightarrow>
                     if concat (map snd ts) = [] then Inl FLUX_E_NO_SECTORS
                     else Inr (dsk_image ts, weak_report ts))))"

subsection \<open>What the scanner guarantees\<close>

fun tiled :: "nat \<Rightarrow> SecRec list \<Rightarrow> nat \<Rightarrow> bool" where
  "tiled off [] e = (off = e)"
| "tiled off (r # rs) e = (sr_off r = off \<and> tiled (off + sr_len r) rs e)"

definition rec_ok :: "SecRec \<Rightarrow> bool" where
  "rec_ok r \<longleftrightarrow> length (sr_chrn r) = 4 \<and> unat (sr_chrn r ! 3) \<le> kMaxSizeCode \<and>
     sr_len r = 128 * 2 ^ unat (sr_chrn r ! 3)"

definition recs_ok :: "u8 list \<times> SecRec list \<Rightarrow> bool" where
  "recs_ok t \<longleftrightarrow> length (snd t) \<le> kMaxSectors \<and> length (fst t) \<le> kMaxTrackBytes \<and>
     list_all rec_ok (snd t) \<and> distinct (map sr_chrn (snd t)) \<and> tiled 0 (snd t) (length (fst t))"

definition scan_wf :: "scan \<Rightarrow> bool" where
  "scan_wf s \<longleftrightarrow> length (sc_hdr s) = 4 \<and> unat (sc_hdr s ! 3) \<le> kMaxSizeCode \<and> recs_ok (sc_data s, sc_secs s)"

lemma tiled_append: "tiled off (rs @ qs) e \<longleftrightarrow> (\<exists>m. tiled off rs m \<and> tiled m qs e)"
  by (induction rs arbitrary: off) auto

lemma tiled_le: "tiled off rs e \<Longrightarrow> off \<le> e \<and> (\<forall>r \<in> set rs. off \<le> sr_off r \<and> sr_off r + sr_len r \<le> e)"
  by (induction rs arbitrary: off) fastforce+

lemma tiled_update: "tiled off rs e \<Longrightarrow> i < length rs \<Longrightarrow>
    tiled off (rs[i := (rs ! i)\<lparr>sr_differs := b\<rparr>]) e"
  by (induction rs arbitrary: off i) (auto simp: nth_Cons' split: nat.splits)

lemma find_sec_Some: "find_sec rs c = Some i \<Longrightarrow> i < length rs \<and> sr_chrn (rs ! i) = c"
  by (induction rs arbitrary: i) (auto split: if_splits)

lemma find_sec_None: "find_sec rs c = None \<longleftrightarrow> c \<notin> sr_chrn ` set rs"
  by (induction rs) auto

lemma read_field_length: "read_field bb n p crc = (Some (bs, c), q) \<Longrightarrow> length bs = n"
proof (induction n arbitrary: p crc bs c q)
  case 0
  then show ?case by simp
next
  case (Suc n)
  then show ?case by (force split: option.splits prod.splits)
qed

lemma read_checked_length: "read_checked bb n p m = (Some (bs, ok), q) \<Longrightarrow> length bs = n"
  by (auto simp: read_checked_def split: option.splits prod.splits dest: read_field_length)

lemma update_differs_chrn: "i < length rs \<Longrightarrow> map sr_chrn (rs[i := (rs ! i)\<lparr>sr_differs := b\<rparr>]) = map sr_chrn rs"
  by (rule nth_equalityI) (auto simp: nth_list_update)

lemma sighting_wf:
  assumes "scan_wf s" "length xs = 128 * 2 ^ unat (sc_hdr s ! 3)"
  shows "scan_wf (sighting s m d xs ok)"
proof (cases "find_sec (sc_secs s) (sc_hdr s)")
  case (Some i)
  with find_sec_Some [OF this] assms(1) show ?thesis
    by (auto simp: scan_wf_def sighting_def Let_def recs_ok_def tiled_update update_differs_chrn list_all_length
        nth_list_update rec_ok_def)
next
  case None
  then have nin: "sc_hdr s \<notin> sr_chrn ` set (sc_secs s)"
    by (simp add: find_sec_None)
  show ?thesis
  proof (cases "length (sc_secs s) < kMaxSectors \<and> length (sc_data s) + length xs \<le> kMaxTrackBytes")
    case True
    with assms None nin show ?thesis
      by (simp add: scan_wf_def sighting_def recs_ok_def rec_ok_def tiled_append)
  next
    case False
    show ?thesis
      unfolding sighting_def None option.case if_not_P [OF False] by (rule assms(1))
  qed
qed

lemma scan_wf_pos [simp]:
  "scan_wf (s\<lparr>sc_pos := p\<rparr>) = scan_wf s" "scan_wf (s\<lparr>sc_sr := v\<rparr>) = scan_wf s"
  "scan_wf (s\<lparr>sc_have_hdr := b\<rparr>) = scan_wf s"
  by (simp_all add: scan_wf_def)

lemma scan_id_wf: "scan_wf s \<Longrightarrow> scan_wf (scan_id bb p s)"
  by (auto simp: scan_id_def split: option.split prod.split dest!: read_checked_length)
    (simp add: scan_wf_def)

lemma scan_data_wf: "scan_wf s \<Longrightarrow> scan_wf (scan_data bb m p s)"
  by (auto simp: scan_data_def split: option.split prod.split dest!: read_checked_length intro!: sighting_wf)

lemma scan_step_wf: "scan_wf s \<Longrightarrow> scan_step bb s = Some t \<Longrightarrow> scan_wf t"
  by (auto simp: scan_step_def Let_def scan_id_wf scan_data_wf split: if_splits option.splits)

lemma scan_loop_wf: "scan_wf s \<Longrightarrow> scan_wf (scan_loop bb s)"
proof (induction bb s rule: scan_loop.induct)
  case (1 bb s)
  show ?case
  proof (cases "sc_pos s < length bb")
    case True
    with 1 show ?thesis
      by (subst scan_loop.simps) (auto split: option.split dest: scan_step_wf)
  next
    case False
    with 1 show ?thesis by (subst scan_loop.simps) simp
  qed
qed

lemma scan_track_ok: "recs_ok (scan_track bb)"
  using scan_loop_wf [of scan_start bb]
  by (simp add: scan_track_def Let_def scan_wf_def scan_start_def recs_ok_def)

subsection \<open>Properties\<close>

lemma rev_bounds:
  assumes "flux_decode_track_rev A buf cyl r cap = Inr (secs, pay)"
  shows "length secs \<le> 29 \<and> length pay \<le> cap \<and> length pay \<le> 8192 \<and> distinct (map fx_chrn secs) \<and>
    (\<forall>s \<in> set secs. length (fx_chrn s) = 4 \<and> fx_len s = 128 * 2 ^ unat (fx_chrn s ! 3) \<and> fx_len s \<le> 4096 \<and>
      fx_off s + fx_len s \<le> length pay \<and> fx_idam_cell s < 6250 \<and> fx_data_cell s < 6250)"
proof -
  consider (empty) "secs = []" "pay = []"
    | (scan) bb where "pay = take cap (fst (scan_track bb))"
      "secs = map (flux_sector (length bb)) (filter (\<lambda>s. sr_off s + sr_len s \<le> length pay) (snd (scan_track bb)))"
    using assms unfolding flux_decode_track_rev_def Let_def split_def
    by (auto split: sum.splits if_splits)
  then show ?thesis
  proof cases
    case empty
    then show ?thesis by simp
  next
    case (scan bb)
    obtain ds rs where st: "scan_track bb = (ds, rs)" by (cases "scan_track bb")
    with scan have t: "pay = take cap ds"
      "secs = map (flux_sector (length bb)) (filter (\<lambda>s. sr_off s + sr_len s \<le> length pay) rs)"
      by simp_all
    have ok: "length rs \<le> 29" "length ds \<le> 8192" "list_all rec_ok rs" "distinct (map sr_chrn rs)"
      using scan_track_ok [of bb] by (simp_all add: st recs_ok_def kMaxSectors_def kMaxTrackBytes_def)
    have "map fx_chrn secs = map sr_chrn (filter (\<lambda>s. sr_off s + sr_len s \<le> length pay) rs)"
      by (simp add: t(2) flux_sector_def)
    then have dist: "distinct (map fx_chrn secs)"
      using ok(4) by (simp add: distinct_map_filter)
    have "sr_len q \<le> 4096" if "rec_ok q" for q
      using that power_increasing [of "unat (sr_chrn q ! 3)" 5 "2 :: nat"]
      by (simp add: rec_ok_def kMaxSizeCode_def)
    then have "\<forall>s \<in> set secs. length (fx_chrn s) = 4 \<and> fx_len s = 128 * 2 ^ unat (fx_chrn s ! 3) \<and>
        fx_len s \<le> 4096 \<and> fx_off s + fx_len s \<le> length pay \<and> fx_idam_cell s < 6250 \<and> fx_data_cell s < 6250"
      using ok(3) by (auto simp: t(2) flux_sector_def list_all_iff rec_ok_def byte_cell_def)
    moreover have "length secs \<le> 29"
      using ok(1) le_trans [OF length_filter_le] by (auto simp: t(2))
    moreover have "length pay \<le> cap \<and> length pay \<le> 8192"
      using ok(2) by (simp add: t(1))
    ultimately show ?thesis
      using dist by blast
  qed
qed

text \<open>C39 (flux_rev_bounds): whatever the flux file contains and however the PLL's arithmetic rounds, a decoded
  revolution is safe to serve: at most 29 sectors with pairwise distinct ID fields, each of
  \<open>128 << N\<close> bytes with its window inside the payload written to the caller's buffer, a payload no longer
  than that buffer, and angular positions below the 6250 byte cells of a revolution.\<close>

theorem flux_rev_bounds:
  "case flux_decode_track_rev A buf cyl r cap of
     Inl e \<Rightarrow> True
   | Inr (secs, pay) \<Rightarrow>
       length secs \<le> 29 \<and> length pay \<le> cap \<and> length pay \<le> 8192 \<and> distinct (map fx_chrn secs) \<and>
       list_all (\<lambda>s. length (fx_chrn s) = 4 \<and> fx_len s = 128 * 2 ^ unat (fx_chrn s ! 3) \<and> fx_len s \<le> 4096 \<and>
         fx_off s + fx_len s \<le> length pay \<and> fx_idam_cell s < 6250 \<and> fx_data_cell s < 6250) secs"
proof (cases "flux_decode_track_rev A buf cyl r cap")
  case (Inr x)
  obtain secs pay where x: "x = (secs, pay)" by (cases x)
  from rev_bounds [OF Inr [unfolded x]] show ?thesis
    unfolding Inr x sum.case prod.case list_all_iff .
qed simp

end
