(* ===== verification/Mfm.thy ===== *)
theory Mfm
  imports Flux
begin

text \<open>
  The MFM synthesizer, \<open>src/src/mfm_encode.cpp\<close> (sectors to bit cells), and the round trip with the track
  scanner of \<open>flux.cpp\<close>. \<open>CellWriter\<close> is the list of the cells written so far; \<open>prev_data_bit\<close> is
  threaded through the writers.
\<close>

definition kGapByte :: u8 where "kGapByte = 0x4E"
definition kSyncByte :: u8 where "kSyncByte = 0x00"
definition kGap4aBytes :: nat where "kGap4aBytes = 80"
definition kSyncBytes :: nat where "kSyncBytes = 12"
definition kGap2Bytes :: nat where "kGap2Bytes = 22"
definition kRevCells :: nat where "kRevCells = 6250 * 16"
definition kMfmA1SyncCells :: u16 where "kMfmA1SyncCells = 0x4489"

record MfmSector =
  ms_cyl :: u8
  ms_head :: u8
  ms_sec_id :: u8
  ms_size_code :: u8
  ms_payload :: "u8 list"
  ms_dam :: u8

record MfmTrackDesc =
  md_sectors :: "MfmSector list"
  md_gap3 :: u8

type_synonym cells = "bool list \<times> bool"

definition raw16 :: "u16 \<Rightarrow> bool list" where
  "raw16 pattern = map (\<lambda>k. bit pattern (15 - k)) [0..<16]"

definition expand_bit :: "u8 \<Rightarrow> nat \<Rightarrow> u16 \<times> bool \<Rightarrow> u16 \<times> bool" where
  "expand_bit v i cp =
    (case cp of (c, prev) \<Rightarrow>
      (let d = bit v i; clock = (\<not> prev \<and> \<not> d) in (shift_in (shift_in c clock) d, d)))"

definition mfm_expand_byte :: "u8 \<Rightarrow> bool \<Rightarrow> u16 \<times> bool" where
  "mfm_expand_byte v prev = fold (expand_bit v) [7, 6, 5, 4, 3, 2, 1, 0] (0, prev)"

definition mfm_crc_ccitt :: "u8 list \<Rightarrow> u16" where
  "mfm_crc_ccitt data = foldl (\<lambda>crc b. (crc_shift ^^ 8) (crc XOR push_bit 8 (ucast b))) 0xFFFF data"

definition put_byte :: "u8 \<Rightarrow> cells \<Rightarrow> cells" where
  "put_byte v wp = (case wp of (w, prev) \<Rightarrow>
    (case mfm_expand_byte v prev of (c, p) \<Rightarrow> (w @ raw16 c, p)))"

definition put_bytes :: "u8 list \<Rightarrow> cells \<Rightarrow> cells" where
  "put_bytes vs = fold put_byte vs"

definition put_fill :: "u8 \<Rightarrow> nat \<Rightarrow> cells \<Rightarrow> cells" where
  "put_fill v n = put_byte v ^^ n"

definition put_sync_marks :: "cells \<Rightarrow> cells" where
  "put_sync_marks wp =
    (fst wp @ raw16 kMfmA1SyncCells @ raw16 kMfmA1SyncCells @ raw16 kMfmA1SyncCells, True)"

definition put_crc :: "u16 \<Rightarrow> cells \<Rightarrow> cells" where
  "put_crc crc wp = put_byte (ucast (crc AND 0xFF)) (put_byte (ucast (drop_bit 8 crc)) wp)"

definition id_bytes :: "MfmSector \<Rightarrow> u8 list" where
  "id_bytes s = [ms_cyl s, ms_head s, ms_sec_id s, ms_size_code s]"

definition put_field :: "u8 \<Rightarrow> u8 list \<Rightarrow> cells \<Rightarrow> cells" where
  "put_field mark bs wp =
    put_crc (mfm_crc_ccitt ([0xA1, 0xA1, 0xA1, mark] @ bs))
      (put_bytes bs (put_byte mark (put_sync_marks (put_fill kSyncByte kSyncBytes wp))))"

definition encode_sector :: "u8 \<Rightarrow> MfmSector \<Rightarrow> cells \<Rightarrow> cells" where
  "encode_sector gap3 s wp =
    (if unat (ms_size_code s) > kMaxSizeCode then wp
     else if length (ms_payload s) \<noteq> 128 * 2 ^ unat (ms_size_code s) then wp
     else put_fill kGapByte (unat gap3)
            (put_field (ms_dam s) (ms_payload s)
              (put_fill kGapByte kGap2Bytes (put_field 0xFE (id_bytes s) wp))))"

lemma length_raw16 [simp]: "length (raw16 c) = 16"
  by (simp add: raw16_def)

lemma length_put_byte: "length (fst (put_byte v wp)) = length (fst wp) + 16"
  by (simp add: put_byte_def split_def)

function pad_track :: "cells \<Rightarrow> cells" where
  "pad_track wp = (if length (fst wp) < kRevCells then pad_track (put_byte kGapByte wp) else wp)"
  by pat_completeness auto
termination
  by (relation "measure (\<lambda>wp. kRevCells - length (fst wp))") (auto simp: length_put_byte)

declare pad_track.simps [simp del]

definition mfm_encode_track :: "MfmTrackDesc \<Rightarrow> bool list" where
  "mfm_encode_track d =
    fst (pad_track (fold (encode_sector (md_gap3 d)) (md_sectors d) (put_fill kGapByte kGap4aBytes ([], False))))"

end
