(* ===== verification/Mfm_Roundtrip.thy ===== *)
theory Mfm_Roundtrip
  imports Mfm
begin

text \<open>
  The scanner of \<open>flux.cpp\<close> reads back every track the synthesizer of \<open>mfm_encode.cpp\<close> writes. The
  writers are first put in closed form over a stream of tokens (a sync mark or a byte); the hunt of
  \<open>scan_track\<close> is then shown to stay quiet on gap and sync bytes, to lock on the three marks, and
  to take the field behind them.
\<close>

subsection \<open>Words as cells\<close>

lemma bit_shift_in: "bit (shift_in (v :: 'a::len word) b) n \<longleftrightarrow>
    n < LENGTH('a) \<and> (if n = 0 then b else bit v (n - 1))"
  unfolding shift_in_def bit_or_iff bit_push_bit_iff
  by (cases n) (auto simp: bit_1_iff)

lemma bit_foldl_shift_in:
  "bit (foldl shift_in (v :: 'a::len word) xs) n \<longleftrightarrow>
    n < LENGTH('a) \<and> (if n < length xs then xs ! (length xs - 1 - n) else bit v (n - length xs))"
proof (induction xs arbitrary: n rule: rev_induct)
  case Nil
  show ?case by (auto dest: bit_imp_le_length)
next
  case (snoc x xs)
  show ?case
    by (cases n) (auto simp: bit_shift_in snoc.IH nth_append)
qed

lemma foldl_raw16: "foldl shift_in v (raw16 w) = w"
  by (rule bit_word_eqI) (auto simp: bit_foldl_shift_in raw16_def)

lemma raw16_foldl: "length xs = 16 \<Longrightarrow> raw16 (foldl shift_in v xs) = xs"
  by (rule nth_equalityI) (auto simp: raw16_def bit_foldl_shift_in)

definition byte_cells :: "bool \<Rightarrow> u8 \<Rightarrow> bool list" where
  "byte_cells p v = [\<not> p \<and> \<not> bit v 7, bit v 7, \<not> bit v 7 \<and> \<not> bit v 6, bit v 6, \<not> bit v 6 \<and> \<not> bit v 5, bit v 5,
    \<not> bit v 5 \<and> \<not> bit v 4, bit v 4, \<not> bit v 4 \<and> \<not> bit v 3, bit v 3, \<not> bit v 3 \<and> \<not> bit v 2, bit v 2,
    \<not> bit v 2 \<and> \<not> bit v 1, bit v 1, \<not> bit v 1 \<and> \<not> bit v 0, bit v 0]"

lemma length_byte_cells [simp]: "length (byte_cells p v) = 16"
  by (simp add: byte_cells_def)

lemma expand_cells: "mfm_expand_byte v p = (foldl shift_in 0 (byte_cells p v), bit v 0)"
  by (simp add: mfm_expand_byte_def expand_bit_def byte_cells_def Let_def)

lemma put_byte_cells: "put_byte v (w, p) = (w @ byte_cells p v, bit v 0)"
  by (simp add: put_byte_def expand_cells raw16_foldl)

subsection \<open>Token streams\<close>

datatype tok = Mark | Byte u8

fun tok_cells :: "bool \<Rightarrow> tok \<Rightarrow> bool list" where
  "tok_cells p Mark = raw16 kMfmA1SyncCells"
| "tok_cells p (Byte v) = byte_cells p v"

fun tok_prev :: "tok \<Rightarrow> bool" where
  "tok_prev Mark = True"
| "tok_prev (Byte v) = bit v 0"

fun enc :: "bool \<Rightarrow> tok list \<Rightarrow> bool list" where
  "enc p [] = []"
| "enc p (t # ts) = tok_cells p t @ enc (tok_prev t) ts"

definition last_prev :: "bool \<Rightarrow> tok list \<Rightarrow> bool" where
  "last_prev p ts = (if ts = [] then p else tok_prev (last ts))"

lemma last_prev_simps [simp]:
  "last_prev p [] = p" "last_prev p (t # ts) = last_prev (tok_prev t) ts"
  by (simp_all add: last_prev_def)

lemma length_tok_cells [simp]: "length (tok_cells p t) = 16"
  by (cases t) simp_all

lemma length_enc [simp]: "length (enc p ts) = 16 * length ts"
  by (induction ts arbitrary: p) simp_all

lemma enc_append: "enc p (ts @ us) = enc p ts @ enc (last_prev p ts) us"
  by (induction ts arbitrary: p) simp_all

lemma last_prev_append [simp]: "last_prev p (ts @ us) = last_prev (last_prev p ts) us"
  by (induction ts arbitrary: p) simp_all

definition writes :: "(cells \<Rightarrow> cells) \<Rightarrow> tok list \<Rightarrow> bool" where
  "writes f ts \<longleftrightarrow> (\<forall>w p. f (w, p) = (w @ enc p ts, last_prev p ts))"

lemma writes_comp: "writes g us \<Longrightarrow> writes f ts \<Longrightarrow> writes (\<lambda>wp. f (g wp)) (us @ ts)"
  by (simp add: writes_def enc_append)

lemma writes_id: "writes (\<lambda>wp. wp) []"
  by (simp add: writes_def)

lemma writes_byte: "writes (put_byte v) [Byte v]"
  by (simp add: writes_def put_byte_cells)

lemma writes_bytes: "writes (put_bytes vs) (map Byte vs)"
proof (induction vs)
  case Nil
  show ?case by (simp add: writes_def put_bytes_def)
next
  case (Cons v vs)
  from writes_comp [OF writes_byte this, of v] show ?case
    by (simp add: put_bytes_def comp_def)
qed

lemma writes_fill: "writes (put_fill v n) (replicate n (Byte v))"
proof (induction n)
  case 0
  show ?case by (simp add: writes_def put_fill_def)
next
  case (Suc n)
  from writes_comp [OF this writes_byte, of v] show ?case
    by (simp add: put_fill_def replicate_append_same [symmetric] comp_def)
qed

lemma writes_marks: "writes put_sync_marks [Mark, Mark, Mark]"
  by (simp add: writes_def put_sync_marks_def)

definition crc_bytes :: "u16 \<Rightarrow> u8 list" where
  "crc_bytes crc = [ucast (drop_bit 8 crc), ucast (crc AND 0xFF)]"

lemma writes_crc: "writes (put_crc crc) (map Byte (crc_bytes crc))"
  using writes_comp [OF writes_byte writes_byte]
  by (simp add: put_crc_def crc_bytes_def [abs_def] fun_eq_iff writes_def)

definition field_crc :: "u8 \<Rightarrow> u8 list \<Rightarrow> u16" where
  "field_crc mark bs = foldl crc_byte (crc_byte crc_sync_preset mark) bs"

lemma mfm_crc: "mfm_crc_ccitt ([0xA1, 0xA1, 0xA1, mark] @ bs) = field_crc mark bs"
  by (simp add: mfm_crc_ccitt_def field_crc_def crc_sync_preset_def crc_byte_def [abs_def] numeral_3_eq_3)

definition field_toks :: "u8 \<Rightarrow> u8 list \<Rightarrow> tok list" where
  "field_toks mark bs = replicate kSyncBytes (Byte kSyncByte) @ [Mark, Mark, Mark, Byte mark] @
    map Byte (bs @ crc_bytes (field_crc mark bs))"

lemma writes_field: "writes (put_field mark bs) (field_toks mark bs)"
proof -
  have "writes (\<lambda>wp. put_crc (field_crc mark bs) (put_bytes bs (put_byte mark (put_sync_marks
      (put_fill kSyncByte kSyncBytes wp)))))
    ((((replicate kSyncBytes (Byte kSyncByte) @ [Mark, Mark, Mark]) @ [Byte mark]) @ map Byte bs) @
      map Byte (crc_bytes (field_crc mark bs)))"
    by (intro writes_comp writes_fill writes_marks writes_byte writes_bytes writes_crc)
  then show ?thesis
    unfolding put_field_def mfm_crc by (simp add: field_toks_def)
qed

definition sector_ok :: "MfmSector \<Rightarrow> bool" where
  "sector_ok s \<longleftrightarrow> unat (ms_size_code s) \<le> kMaxSizeCode \<and>
     length (ms_payload s) = 128 * 2 ^ unat (ms_size_code s)"

definition sector_toks :: "u8 \<Rightarrow> MfmSector \<Rightarrow> tok list" where
  "sector_toks gap3 s =
    (if sector_ok s then
       field_toks 0xFE (id_bytes s) @ replicate kGap2Bytes (Byte kGapByte) @
       field_toks (ms_dam s) (ms_payload s) @ replicate (unat gap3) (Byte kGapByte)
     else [])"

lemma writes_sector: "writes (encode_sector gap3 s) (sector_toks gap3 s)"
proof (cases "sector_ok s")
  case True
  have "writes (\<lambda>wp. put_fill kGapByte (unat gap3) (put_field (ms_dam s) (ms_payload s)
      (put_fill kGapByte kGap2Bytes (put_field 0xFE (id_bytes s) wp))))
    (((field_toks 0xFE (id_bytes s) @ replicate kGap2Bytes (Byte kGapByte)) @
      field_toks (ms_dam s) (ms_payload s)) @ replicate (unat gap3) (Byte kGapByte))"
    by (intro writes_comp writes_fill writes_field)
  with True show ?thesis
    by (simp add: encode_sector_def [abs_def] sector_toks_def sector_ok_def)
next
  case False
  then show ?thesis
    by (auto simp: encode_sector_def [abs_def] sector_toks_def sector_ok_def writes_id not_le cong: if_cong)
qed

lemma writes_sectors: "writes (fold (encode_sector gap3) ss) (concat (map (sector_toks gap3) ss))"
proof (induction ss)
  case Nil
  show ?case by (simp add: writes_def)
next
  case (Cons s ss)
  from writes_comp [OF writes_sector this] show ?case by (simp add: comp_def)
qed

lemma pad_fill: "\<exists>n. pad_track wp = put_fill kGapByte n wp"
proof (induction wp rule: pad_track.induct)
  case (1 wp)
  show ?case
  proof (cases "length (fst wp) < kRevCells")
    case True
    with 1 obtain n where "pad_track wp = put_fill kGapByte n (put_byte kGapByte wp)"
      by (metis pad_track.simps)
    then have "pad_track wp = put_fill kGapByte (Suc n) wp"
      by (simp add: put_fill_def funpow_swap1)
    then show ?thesis ..
  next
    case False
    then have "pad_track wp = put_fill kGapByte 0 wp"
      by (subst pad_track.simps) (simp add: put_fill_def)
    then show ?thesis ..
  qed
qed

lemma mfm_track_toks:
  "\<exists>n. mfm_encode_track d = enc False (replicate kGap4aBytes (Byte kGapByte) @
     concat (map (sector_toks (md_gap3 d)) (md_sectors d)) @ replicate n (Byte kGapByte))"
proof -
  let ?wp = "fold (encode_sector (md_gap3 d)) (md_sectors d) (put_fill kGapByte kGap4aBytes ([], False))"
  obtain n where n: "pad_track ?wp = put_fill kGapByte n ?wp"
    using pad_fill by blast
  have "writes (\<lambda>wp. put_fill kGapByte n (fold (encode_sector (md_gap3 d)) (md_sectors d)
      (put_fill kGapByte kGap4aBytes wp)))
    ((replicate kGap4aBytes (Byte kGapByte) @ concat (map (sector_toks (md_gap3 d)) (md_sectors d))) @
      replicate n (Byte kGapByte))"
    by (intro writes_comp writes_fill writes_sectors)
  with n show ?thesis
    by (auto simp: mfm_encode_track_def writes_def)
qed

subsection \<open>Reading cells back\<close>

definition cells_at :: "bool list \<Rightarrow> nat \<Rightarrow> bool list \<Rightarrow> bool" where
  "cells_at bb pos xs \<longleftrightarrow> (\<exists>r. drop pos bb = xs @ r)"

lemma cells_at_append: "cells_at bb pos (xs @ ys) \<longleftrightarrow> cells_at bb pos xs \<and> cells_at bb (pos + length xs) ys"
proof -
  have "drop (pos + length xs) bb = drop (length xs) (drop pos bb)"
    by (simp add: add.commute)
  then show ?thesis by (auto simp: cells_at_def simp del: drop_drop)
qed

lemma cells_at_nth: "cells_at bb pos xs \<Longrightarrow> i < length xs \<Longrightarrow> pos + i < length bb \<and> bb ! (pos + i) = xs ! i"
proof -
  assume "cells_at bb pos xs" and i: "i < length xs"
  then obtain r where r: "drop pos bb = xs @ r" by (auto simp: cells_at_def)
  then have "length bb - pos = length xs + length r"
    by (metis length_append length_drop)
  with i have "pos + i < length bb" by linarith
  moreover have "bb ! (pos + i) = drop pos bb ! i" using calculation by simp
  ultimately show ?thesis using r i by (simp add: nth_append)
qed

lemma cells_at_room: "cells_at bb pos xs \<Longrightarrow> xs \<noteq> [] \<Longrightarrow> pos + length xs \<le> length bb"
  using cells_at_nth [of bb pos xs "length xs - 1"] by (cases xs) auto

lemma map_cells_at: "cells_at bb pos xs \<Longrightarrow> length xs = n \<Longrightarrow> map (\<lambda>k. bit_at bb (pos + k)) [0..<n] = xs"
  by (rule nth_equalityI) (auto simp: bit_at_def cells_at_nth)

lemma read_raw16_at: "cells_at bb pos xs \<Longrightarrow> length xs = 16 \<Longrightarrow>
    read_raw16 bb pos = Some (foldl shift_in 0 xs, pos + 16)"
  using cells_at_room [of bb pos xs] by (cases xs) (auto simp: read_raw16_def map_cells_at)

lemma odd_cells: "foldl shift_in 0 (map (\<lambda>k. byte_cells p v ! (2 * k + 1)) [0..<8]) = v"
proof -
  have "map (\<lambda>k. byte_cells p v ! (2 * k + 1)) [0..<8] = map (\<lambda>k. bit v (7 - k)) [0..<8]"
    by (simp add: byte_cells_def upt_rec)
  moreover have "foldl shift_in 0 (map (\<lambda>k. bit v (7 - k)) [0..<8]) = v"
  proof (rule bit_word_eqI)
    fix n assume "n < LENGTH(8)"
    then have "[0..<8] ! (7 - n) = 7 - n" "n < 8"
      using nth_upt [of 0 "7 - n" 8] by simp_all
    then show "bit (foldl shift_in (0 :: u8) (map (\<lambda>k. bit v (7 - k)) [0..<8])) n = bit v n"
      by (simp add: bit_foldl_shift_in del: upt.simps)
  qed
  ultimately show ?thesis by (simp only:)
qed

lemma read_byte_at:
  assumes "cells_at bb pos (byte_cells p v)"
  shows "read_mfm_byte bb pos = Some (v, pos + 16)"
proof -
  have "map (\<lambda>k. bit_at bb (pos + 2 * k + 1)) [0..<8] = map (\<lambda>k. byte_cells p v ! (2 * k + 1)) [0..<8]"
    using cells_at_nth [OF assms, of "2 * _ + 1"] by (auto simp: bit_at_def add.assoc)
  moreover have "\<not> length bb < pos + 16"
    using cells_at_room [OF assms] by (simp add: byte_cells_def)
  ultimately show ?thesis
    unfolding read_mfm_byte_def by (simp only: odd_cells if_False)
qed

lemma read_field_at:
  "cells_at bb pos (enc p (map Byte vs)) \<Longrightarrow>
    read_field bb (length vs) pos crc = (Some (vs, foldl crc_byte crc vs), pos + 16 * length vs)"
proof (induction vs arbitrary: pos p crc)
  case Nil
  show ?case by simp
next
  case (Cons v vs)
  then have v: "cells_at bb pos (byte_cells p v)" and vs: "cells_at bb (pos + 16) (enc (bit v 0) (map Byte vs))"
    by (simp_all add: cells_at_append)
  from Cons.IH [OF vs, of "crc_byte crc v"] read_byte_at [OF v] show ?case
    by (simp add: add.assoc)
qed

lemma crc_bytes_word: "push_bit 8 (ucast (ucast (drop_bit 8 c) :: u8)) OR ucast (ucast (c AND 0xFF) :: u8) = (c :: u16)"
proof -
  have m: "c AND 0xFF = take_bit 8 c"
    by (simp add: mask_simps)
  show ?thesis
    unfolding m
    by (rule bit_word_eqI)
      (auto simp only: bit_or_iff bit_push_bit_iff bit_unsigned_iff bit_take_bit_iff bit_drop_bit_eq comp_def
        possible_bit_word len_num0 len_num1 len_bit0 len_bit1 intro: linorder_not_le [THEN iffD1], simp_all)
qed

lemma read_checked_at:
  assumes "cells_at bb pos (enc p (map Byte (bs @ crc_bytes (field_crc mark bs))))"
  shows "read_checked bb (length bs) pos mark = (Some (bs, True), pos + 16 * (length bs + 2))"
proof -
  let ?c = "field_crc mark bs"
  from assms have bs: "cells_at bb pos (enc p (map Byte bs))"
    and h: "cells_at bb (pos + 16 * length bs) (byte_cells (last_prev p (map Byte bs)) (ucast (drop_bit 8 ?c)))"
    and l: "\<exists>q. cells_at bb (pos + 16 * length bs + 16) (byte_cells q (ucast (?c AND 0xFF)))"
    by (auto simp: enc_append cells_at_append crc_bytes_def)
  have "read_crc bb (pos + 16 * length bs) = (Some ?c, pos + 16 * length bs + 32)"
    using read_byte_at [OF h] l read_byte_at
    by (fastforce simp: read_crc_def crc_bytes_word)
  then show ?thesis
    using read_field_at [OF bs, of "crc_byte crc_sync_preset mark"]
    by (simp add: read_checked_def field_crc_def [symmetric])
qed

subsection \<open>The hunt\<close>

text \<open>\<open>quiet sr xs\<close>: shifting \<open>xs\<close> into \<open>sr\<close> never shows the sync word.\<close>

fun quiet :: "u16 \<Rightarrow> bool list \<Rightarrow> bool" where
  "quiet sr [] = True"
| "quiet sr (b # bs) = (shift_in sr b \<noteq> 0x4489 \<and> quiet (shift_in sr b) bs)"

lemma hunt_quiet:
  "cells_at bb pos xs \<Longrightarrow> quiet sr xs \<Longrightarrow>
    scan_loop bb (s\<lparr>sc_pos := pos, sc_sr := sr\<rparr>) =
    scan_loop bb (s\<lparr>sc_pos := pos + length xs, sc_sr := foldl shift_in sr xs\<rparr>)"
proof (induction xs arbitrary: pos sr)
  case Nil
  show ?case by simp
next
  case (Cons x xs)
  have x: "pos < length bb" "bit_at bb pos = x"
    using cells_at_nth [OF Cons.prems(1), of 0] by (simp_all add: bit_at_def)
  have xs: "cells_at bb (Suc pos) xs"
    using Cons.prems(1) cells_at_append [of bb pos "[x]" xs] by simp
  have "scan_loop bb (s\<lparr>sc_pos := pos, sc_sr := sr\<rparr>) =
      scan_loop bb (s\<lparr>sc_pos := Suc pos, sc_sr := shift_in sr x\<rparr>)"
    using x Cons.prems(2) by (subst scan_loop.simps) (simp add: scan_step_def Let_def)
  with Cons.IH [OF xs] Cons.prems(2) show ?case by simp
qed

text \<open>The shift register after a fill byte, and the finitely many checks the hunt needs.\<close>

definition fill_words :: "u16 list" where
  "fill_words = [0, 0x1254, 0x9254, 0x2AAA, 0xAAAA]"

lemma fill_checks:
  "list_all (\<lambda>sr. list_all (\<lambda>p. list_all (\<lambda>v. quiet sr (byte_cells p v) \<and>
      foldl shift_in sr (byte_cells p v) \<in> set fill_words) [0x4E, 0]) [False, True]) fill_words"
  by code_simp

lemma sync_checks:
  "list_all (\<lambda>sr. quiet sr (butlast (raw16 0x4489))) fill_words"
  "list_all (\<lambda>m. foldl shift_in 0 (byte_cells True m) \<noteq> (0x4489 :: u16)) [0xFE, 0xFB, 0xF8]"
  by code_simp+

lemma hunt_fill:
  "cells_at bb pos (enc p (map Byte vs)) \<Longrightarrow> set vs \<subseteq> {kGapByte, kSyncByte} \<Longrightarrow> sr \<in> set fill_words \<Longrightarrow>
    \<exists>sr' \<in> set fill_words. scan_loop bb (s\<lparr>sc_pos := pos, sc_sr := sr\<rparr>) =
      scan_loop bb (s\<lparr>sc_pos := pos + 16 * length vs, sc_sr := sr'\<rparr>)"
proof (induction vs arbitrary: pos p sr)
  case Nil
  then show ?case by auto
next
  case (Cons v vs)
  let ?sr = "foldl shift_in sr (byte_cells p v)"
  from Cons.prems have v: "cells_at bb pos (byte_cells p v)"
    and vs: "cells_at bb (pos + 16) (enc (bit v 0) (map Byte vs))"
    by (simp_all add: cells_at_append)
  have q: "quiet sr (byte_cells p v)" "?sr \<in> set fill_words"
    using fill_checks Cons.prems(2,3)
    by (cases p; auto simp: list_all_iff kGapByte_def kSyncByte_def)+
  from Cons.IH [OF vs _ q(2)] Cons.prems(2) obtain sr' where "sr' \<in> set fill_words"
    "scan_loop bb (s\<lparr>sc_pos := pos + 16, sc_sr := ?sr\<rparr>) =
      scan_loop bb (s\<lparr>sc_pos := pos + 16 + 16 * length vs, sc_sr := sr'\<rparr>)" by auto
  with hunt_quiet [OF v q(1), of s] show ?case
    by (auto simp: add.assoc intro!: bexI [of _ sr'])
qed

lemma sync_run_at:
  assumes "cells_at bb pos (raw16 0x4489 @ raw16 0x4489 @ byte_cells True m)" "m \<in> {0xFE, 0xFB, 0xF8}"
  shows "sync_run bb pos = pos + 32"
proof -
  from assms(1) have at: "cells_at bb pos (raw16 0x4489)" "cells_at bb (pos + 16) (raw16 0x4489)"
    "cells_at bb (pos + 32) (byte_cells True m)"
    by (simp_all add: cells_at_append add.assoc)
  have "foldl shift_in 0 (byte_cells True m) \<noteq> (0x4489 :: u16)"
    using sync_checks(2) assms(2) by auto
  with read_raw16_at [OF at(3)] have "sync_run bb (pos + 32) = pos + 32"
    by (subst sync_run.simps) simp
  with read_raw16_at [OF at(2)] have "sync_run bb (pos + 16) = pos + 32"
    by (subst sync_run.simps) (simp add: foldl_raw16 add.commute)
  with read_raw16_at [OF at(1)] show ?thesis
    by (subst sync_run.simps) (simp add: foldl_raw16)
qed

definition after_mark :: "bool list \<Rightarrow> u8 \<Rightarrow> nat \<Rightarrow> scan \<Rightarrow> scan" where
  "after_mark bb mark p s =
    (if mark = 0xFE then scan_id bb p s
     else if (mark = 0xFB \<or> mark = 0xF8) \<and> sc_have_hdr s \<and> p - sc_hdr_end s \<le> kDamWindow
     then scan_data bb mark p s
     else s\<lparr>sc_pos := p\<rparr>)"

lemma hunt_sync:
  assumes "cells_at bb pos (enc p [Mark, Mark, Mark, Byte m])" "m \<in> {0xFE, 0xFB, 0xF8}" "sr \<in> set fill_words"
  shows "scan_loop bb (s\<lparr>sc_pos := pos, sc_sr := sr\<rparr>) =
    scan_loop bb ((after_mark bb m (pos + 64) (s\<lparr>sc_pos := pos + 16, sc_sr := 0x4489\<rparr>))\<lparr>sc_sr := 0\<rparr>)"
proof -
  let ?w = "raw16 0x4489"
  have w: "?w = butlast ?w @ [last ?w]" by (rule sym, rule append_butlast_last_id) (simp add: raw16_def)
  from assms(1) have at: "cells_at bb pos ?w" "cells_at bb (pos + 16) (?w @ ?w @ byte_cells True m)"
    "cells_at bb (pos + 48) (byte_cells True m)"
    by (simp_all add: cells_at_append kMfmA1SyncCells_def add.assoc)
  then have b: "cells_at bb pos (butlast ?w)" "cells_at bb (pos + 15) [last ?w]"
    using cells_at_append [of bb pos "butlast ?w" "[last ?w]"] w by simp_all
  have q: "quiet sr (butlast ?w)"
    using sync_checks(1) assms(3) by (auto simp: list_all_iff)
  have x: "pos + 15 < length bb" "bit_at bb (pos + 15) = last ?w"
    using cells_at_nth [OF b(2), of 0] by (simp_all add: bit_at_def)
  have hit: "shift_in (foldl shift_in sr (butlast ?w)) (last ?w) = 0x4489"
    using foldl_raw16 [of sr "0x4489"] w by (metis foldl_Cons foldl_Nil foldl_append)
  have "scan_loop bb (s\<lparr>sc_pos := pos + 15, sc_sr := foldl shift_in sr (butlast ?w)\<rparr>) =
      scan_loop bb ((after_mark bb m (pos + 64) (s\<lparr>sc_pos := pos + 16, sc_sr := 0x4489\<rparr>))\<lparr>sc_sr := 0\<rparr>)"
    using x hit sync_run_at [OF at(2) assms(2)] read_byte_at [OF at(3)]
    by (subst scan_loop.simps) (simp add: scan_step_def Let_def after_mark_def add.commute)
  with hunt_quiet [OF b(1) q, of s] show ?thesis by simp
qed

subsection \<open>Fields and sectors\<close>

lemma hunt_field:
  assumes "cells_at bb (sc_pos s) (enc p (field_toks m bs))" "m \<in> {0xFE, 0xFB, 0xF8}" "sc_sr s \<in> set fill_words"
  shows "read_checked bb (length bs) (sc_pos s + 256) m = (Some (bs, True), sc_pos s + 256 + 16 * (length bs + 2))"
    and "\<exists>t. scan_loop bb s = scan_loop bb ((after_mark bb m (sc_pos s + 256) t)\<lparr>sc_sr := 0\<rparr>) \<and>
      t = s\<lparr>sc_pos := sc_pos s + 208, sc_sr := 0x4489\<rparr>"
proof -
  let ?z = "replicate kSyncBytes kSyncByte"
  have toks: "field_toks m bs = map Byte ?z @ [Mark, Mark, Mark, Byte m] @ map Byte (bs @ crc_bytes (field_crc m bs))"
    by (simp add: field_toks_def)
  from assms(1) obtain q r where at: "cells_at bb (sc_pos s) (enc p (map Byte ?z))"
    "cells_at bb (sc_pos s + 192) (enc q [Mark, Mark, Mark, Byte m])"
    "cells_at bb (sc_pos s + 256) (enc r (map Byte (bs @ crc_bytes (field_crc m bs))))"
    unfolding toks enc_append cells_at_append by (auto simp: kSyncBytes_def add.assoc)
  from read_checked_at [OF at(3)]
  show "read_checked bb (length bs) (sc_pos s + 256) m = (Some (bs, True), sc_pos s + 256 + 16 * (length bs + 2))" .
  from hunt_fill [OF at(1) _ assms(3), of s] obtain sr where sr: "sr \<in> set fill_words"
    "scan_loop bb s = scan_loop bb (s\<lparr>sc_pos := sc_pos s + 192, sc_sr := sr\<rparr>)"
    by (auto simp: kSyncBytes_def)
  with hunt_sync [OF at(2) assms(2) sr(1), of s]
  show "\<exists>t. scan_loop bb s = scan_loop bb ((after_mark bb m (sc_pos s + 256) t)\<lparr>sc_sr := 0\<rparr>) \<and>
      t = s\<lparr>sc_pos := sc_pos s + 208, sc_sr := 0x4489\<rparr>"
    by (simp add: add.assoc)
qed

lemma hunt_gap:
  assumes "cells_at bb (sc_pos s) (enc p (replicate n (Byte kGapByte)))" "sc_sr s \<in> set fill_words"
  shows "\<exists>sr \<in> set fill_words. scan_loop bb s = scan_loop bb (s\<lparr>sc_pos := sc_pos s + 16 * n, sc_sr := sr\<rparr>)"
proof -
  have "set (replicate n kGapByte) \<subseteq> {kGapByte, kSyncByte}" by auto
  from hunt_fill [OF _ this assms(2), of bb "sc_pos s" p s] assms(1) show ?thesis by simp
qed

lemma id_bytes_simps [simp]: "length (id_bytes c) = 4" "id_bytes c ! 3 = ms_size_code c"
  by (simp_all add: id_bytes_def)

lemma zero_fill [simp]: "0 \<in> set fill_words"
  by (simp add: fill_words_def)

lemma id_field:
  assumes "cells_at bb (sc_pos s) (enc p (field_toks 0xFE (id_bytes c)))" "sc_sr s \<in> set fill_words"
    and "unat (ms_size_code c) \<le> kMaxSizeCode"
  shows "scan_loop bb s = scan_loop bb (s\<lparr>sc_pos := sc_pos s + 352, sc_sr := 0, sc_have_hdr := True,
    sc_hdr := id_bytes c, sc_hdr_end := sc_pos s + 352\<rparr>)"
proof -
  let ?s = "s\<lparr>sc_pos := sc_pos s + 208, sc_sr := 0x4489\<rparr>"
  have "scan_id bb (sc_pos s + 256) ?s = ?s\<lparr>sc_pos := sc_pos s + 352, sc_have_hdr := True,
      sc_hdr := id_bytes c, sc_hdr_end := sc_pos s + 352\<rparr>"
    using hunt_field(1) [OF assms(1) _ assms(2)] assms(3) by (cases s) (simp add: scan_id_def)
  then show ?thesis
    using hunt_field(2) [OF assms(1) _ assms(2)] by (cases s) (simp add: after_mark_def)
qed

definition written_rec :: "nat \<Rightarrow> nat \<Rightarrow> MfmSector \<Rightarrow> SecRec" where
  "written_rec pos off s =
    \<lparr> sr_chrn = id_bytes s, sr_st1 = 0, sr_st2 = (if ms_dam s = 0xF8 then 0x40 else 0),
      sr_len = length (ms_payload s), sr_off = off, sr_crc_bad = False, sr_differs = False,
      sr_idam_bit = pos + 352, sr_data_bit = pos + 960 \<rparr>"

lemma data_field:
  assumes "cells_at bb (sc_pos s) (enc p (field_toks (ms_dam c) (ms_payload c)))" "sc_sr s \<in> set fill_words"
    and "sector_ok c" "ms_dam c \<in> {0xFB, 0xF8}"
    and "sc_have_hdr s" "sc_hdr s = id_bytes c" "sc_hdr_end s = pos + 352" "sc_pos s = pos + 704"
    and "id_bytes c \<notin> sr_chrn ` set (sc_secs s)" "length (sc_secs s) < kMaxSectors"
    and "length (sc_data s) + length (ms_payload c) \<le> kMaxTrackBytes"
  shows "scan_loop bb s = scan_loop bb (s\<lparr>sc_pos := sc_pos s + 16 * (18 + length (ms_payload c)), sc_sr := 0,
    sc_have_hdr := False, sc_data := sc_data s @ ms_payload c,
    sc_secs := sc_secs s @ [written_rec pos (length (sc_data s)) c]\<rparr>)"
proof -
  let ?s = "s\<lparr>sc_pos := sc_pos s + 208, sc_sr := 0x4489\<rparr>"
  have mark: "ms_dam c \<in> {0xFE, 0xFB, 0xF8}" using assms(4) by blast
  have len: "128 * 2 ^ unat (sc_hdr s ! 3) = length (ms_payload c)"
    using assms(3,6) by (simp add: sector_ok_def)
  have none: "find_sec (sc_secs s) (sc_hdr s) = None"
    using assms(6,9) by (simp add: find_sec_None)
  have st: "scan_data bb (ms_dam c) (sc_pos s + 256) ?s =
      ?s\<lparr>sc_pos := sc_pos s + 16 * (18 + length (ms_payload c)), sc_have_hdr := False,
        sc_data := sc_data s @ ms_payload c,
        sc_secs := sc_secs s @ [written_rec pos (length (sc_data s)) c]\<rparr>"
    using hunt_field(1) [OF assms(1) mark assms(2)] len none assms(6,7,8,10,11)
    by (cases s) (simp add: scan_data_def sighting_def written_rec_def)
  have "sc_pos s + 256 - sc_hdr_end s \<le> kDamWindow"
    using assms(7,8) by (simp add: kDamWindow_def)
  then have "after_mark bb (ms_dam c) (sc_pos s + 256) ?s = scan_data bb (ms_dam c) (sc_pos s + 256) ?s"
    using assms(4,5,7) by (auto simp: after_mark_def)
  then show ?thesis
    using hunt_field(2) [OF assms(1) mark assms(2)] st by (cases s) simp
qed

lemma sector_scan:
  assumes "cells_at bb (sc_pos s) (enc p (sector_toks gap3 c))" "sc_sr s \<in> set fill_words"
    and "sector_ok c" "ms_dam c \<in> {0xFB, 0xF8}"
    and "id_bytes c \<notin> sr_chrn ` set (sc_secs s)" "length (sc_secs s) < kMaxSectors"
    and "length (sc_data s) + length (ms_payload c) \<le> kMaxTrackBytes"
  shows "\<exists>t. scan_loop bb s = scan_loop bb t \<and> sc_sr t \<in> set fill_words \<and>
    sc_pos t = sc_pos s + 16 * length (sector_toks gap3 c) \<and> sc_data t = sc_data s @ ms_payload c \<and>
    sc_secs t = sc_secs s @ [written_rec (sc_pos s) (length (sc_data s)) c]"
proof -
  have len: "length (field_toks m bs) = 18 + length bs" for m bs
    by (simp add: field_toks_def kSyncBytes_def crc_bytes_def)
  from assms(1,3) obtain q r u where at:
    "cells_at bb (sc_pos s) (enc p (field_toks 0xFE (id_bytes c)))"
    "cells_at bb (sc_pos s + 352) (enc q (replicate kGap2Bytes (Byte kGapByte)))"
    "cells_at bb (sc_pos s + 704) (enc r (field_toks (ms_dam c) (ms_payload c)))"
    "cells_at bb (sc_pos s + 704 + 16 * (18 + length (ms_payload c))) (enc u (replicate (unat gap3) (Byte kGapByte)))"
    by (auto simp: sector_toks_def enc_append cells_at_append len kGap2Bytes_def add.assoc)
  let ?a = "s\<lparr>sc_pos := sc_pos s + 352, sc_sr := 0, sc_have_hdr := True,
    sc_hdr := id_bytes c, sc_hdr_end := sc_pos s + 352\<rparr>"
  have a: "scan_loop bb s = scan_loop bb ?a"
    using id_field [OF at(1) assms(2)] assms(3) by (simp add: sector_ok_def)
  obtain sr where b: "sr \<in> set fill_words"
    "scan_loop bb ?a = scan_loop bb (?a\<lparr>sc_pos := sc_pos s + 704, sc_sr := sr\<rparr>)"
    using hunt_gap [of bb ?a q kGap2Bytes] at(2) by (auto simp: kGap2Bytes_def add.commute)
  let ?b = "?a\<lparr>sc_pos := sc_pos s + 704, sc_sr := sr\<rparr>"
  let ?c = "?b\<lparr>sc_pos := sc_pos ?b + 16 * (18 + length (ms_payload c)), sc_sr := 0,
    sc_have_hdr := False, sc_data := sc_data ?b @ ms_payload c,
    sc_secs := sc_secs ?b @ [written_rec (sc_pos s) (length (sc_data ?b)) c]\<rparr>"
  have c: "scan_loop bb ?b = scan_loop bb ?c"
    by (rule data_field [where p = r]) (use at(3) b(1) assms(3-7) in simp_all)
  obtain sr' where d: "sr' \<in> set fill_words"
    "scan_loop bb ?c = scan_loop bb (?c\<lparr>sc_pos := sc_pos ?c + 16 * unat gap3, sc_sr := sr'\<rparr>)"
    using hunt_gap [of bb ?c u "unat gap3"] at(4) by auto
  show ?thesis
    using a b c d assms(3)
    by (intro exI [of _ "?c\<lparr>sc_pos := sc_pos ?c + 16 * unat gap3, sc_sr := sr'\<rparr>"])
      (simp add: sector_toks_def len kGap2Bytes_def)
qed

text \<open>What a track of sectors must come back as: the payloads one after the other, and one record per
  well-formed sector at the bit position where it was written.\<close>

fun written_recs :: "u8 \<Rightarrow> nat \<Rightarrow> nat \<Rightarrow> MfmSector list \<Rightarrow> SecRec list" where
  "written_recs gap3 pos off [] = []"
| "written_recs gap3 pos off (c # cs) =
    (if sector_ok c
     then written_rec pos off c #
       written_recs gap3 (pos + 16 * length (sector_toks gap3 c)) (off + length (ms_payload c)) cs
     else written_recs gap3 pos off cs)"

definition track_payload :: "MfmSector list \<Rightarrow> u8 list" where
  "track_payload cs = concat (map ms_payload (filter sector_ok cs))"

lemma sectors_scan:
  assumes "cells_at bb (sc_pos s) (enc p (concat (map (sector_toks gap3) cs)))" "sc_sr s \<in> set fill_words"
    and "\<forall>c \<in> set cs. sector_ok c \<longrightarrow> ms_dam c \<in> {0xFB, 0xF8} \<and> id_bytes c \<notin> sr_chrn ` set (sc_secs s)"
    and "distinct (map id_bytes (filter sector_ok cs))"
    and "length (sc_secs s) + length (filter sector_ok cs) \<le> kMaxSectors"
    and "length (sc_data s) + length (track_payload cs) \<le> kMaxTrackBytes"
  shows "\<exists>t. scan_loop bb s = scan_loop bb t \<and> sc_sr t \<in> set fill_words \<and>
    sc_pos t = sc_pos s + 16 * length (concat (map (sector_toks gap3) cs)) \<and>
    sc_data t = sc_data s @ track_payload cs \<and>
    sc_secs t = sc_secs s @ written_recs gap3 (sc_pos s) (length (sc_data s)) cs"
  using assms
proof (induction cs arbitrary: s p)
  case Nil
  then show ?case by (intro exI [of _ s]) (simp add: track_payload_def)
next
  case (Cons c cs)
  show ?case
  proof (cases "sector_ok c")
    case False
    with Cons.prems Cons.IH [of s p] show ?thesis
      by (simp add: sector_toks_def track_payload_def)
  next
    case True
    with Cons.prems(1) have at: "cells_at bb (sc_pos s) (enc p (sector_toks gap3 c))"
      "cells_at bb (sc_pos s + 16 * length (sector_toks gap3 c))
        (enc (last_prev p (sector_toks gap3 c)) (concat (map (sector_toks gap3) cs)))"
      by (simp_all add: enc_append cells_at_append)
    have room: "ms_dam c \<in> {0xFB, 0xF8}" "id_bytes c \<notin> sr_chrn ` set (sc_secs s)"
      "length (sc_secs s) < kMaxSectors" "length (sc_data s) + length (ms_payload c) \<le> kMaxTrackBytes"
      using Cons.prems(3-6) True by (auto simp: track_payload_def)
    obtain t where t: "scan_loop bb s = scan_loop bb t" "sc_sr t \<in> set fill_words"
      "sc_pos t = sc_pos s + 16 * length (sector_toks gap3 c)" "sc_data t = sc_data s @ ms_payload c"
      "sc_secs t = sc_secs s @ [written_rec (sc_pos s) (length (sc_data s)) c]"
      using sector_scan [OF at(1) Cons.prems(2) True room] by blast
    have ids: "\<forall>d \<in> set cs. sector_ok d \<longrightarrow> ms_dam d \<in> {0xFB, 0xF8} \<and> id_bytes d \<notin> sr_chrn ` set (sc_secs t)"
      using Cons.prems(3,4) True by (fastforce simp: t(5) written_rec_def image_iff)
    have "\<exists>u. scan_loop bb t = scan_loop bb u \<and> sc_sr u \<in> set fill_words \<and>
      sc_pos u = sc_pos t + 16 * length (concat (map (sector_toks gap3) cs)) \<and>
      sc_data u = sc_data t @ track_payload cs \<and>
      sc_secs u = sc_secs t @ written_recs gap3 (sc_pos t) (length (sc_data t)) cs"
      by (rule Cons.IH [OF _ t(2) ids]) (use at(2) Cons.prems(4-6) True t in \<open>auto simp: track_payload_def\<close>)
    then show ?thesis
      using t True by (auto simp: track_payload_def)
  qed
qed

subsection \<open>The round trip\<close>

definition track_ok :: "MfmSector list \<Rightarrow> bool" where
  "track_ok cs \<longleftrightarrow> list_all (\<lambda>c. sector_ok c \<longrightarrow> ms_dam c = 0xFB \<or> ms_dam c = 0xF8) cs \<and>
     distinct (map id_bytes (filter sector_ok cs)) \<and> length (filter sector_ok cs) \<le> kMaxSectors \<and>
     length (track_payload cs) \<le> kMaxTrackBytes"

text \<open>C38 (mfm_roundtrip): the track scanner is the inverse of the MFM synthesizer: for every track description
  whose well-formed sectors have distinct ID fields and a normal or deleted data mark and fit a track (at most
  29 sectors, 8192 bytes), the scanner run over the synthesized bit cells returns exactly the payloads, one
  after the other, and one record per well-formed sector with its ID field, no CRC error and the bit positions
  at which its fields were written. Malformed sectors leave no trace, and no gap, clock pattern or payload byte
  is taken for a sync mark.\<close>

theorem mfm_roundtrip:
  assumes "track_ok (md_sectors d)"
  shows "scan_track (mfm_encode_track d) =
    (track_payload (md_sectors d), written_recs (md_gap3 d) (16 * kGap4aBytes) 0 (md_sectors d))"
proof -
  let ?ts = "concat (map (sector_toks (md_gap3 d)) (md_sectors d))"
  obtain n where bb: "mfm_encode_track d =
      enc False (replicate kGap4aBytes (Byte kGapByte) @ ?ts @ replicate n (Byte kGapByte))" (is "?bb = _")
    using mfm_track_toks by blast
  have "cells_at ?bb 0 (enc False (replicate kGap4aBytes (Byte kGapByte) @ ?ts @ replicate n (Byte kGapByte)))"
    unfolding bb by (simp add: cells_at_def)
  then obtain q r where at: "cells_at ?bb 0 (enc False (replicate kGap4aBytes (Byte kGapByte)))"
    "cells_at ?bb (16 * kGap4aBytes) (enc q ?ts)"
    "cells_at ?bb (16 * kGap4aBytes + 16 * length ?ts) (enc r (replicate n (Byte kGapByte)))"
    by (auto simp: enc_append cells_at_append)
  obtain sr where a: "sr \<in> set fill_words" "scan_loop ?bb scan_start =
      scan_loop ?bb (scan_start\<lparr>sc_pos := 16 * kGap4aBytes, sc_sr := sr\<rparr>)"
    using hunt_gap [of ?bb scan_start False kGap4aBytes] at(1) by (auto simp: scan_start_def)
  let ?s = "scan_start\<lparr>sc_pos := 16 * kGap4aBytes, sc_sr := sr\<rparr>"
  obtain t where t: "scan_loop ?bb ?s = scan_loop ?bb t" "sc_sr t \<in> set fill_words"
    "sc_pos t = 16 * kGap4aBytes + 16 * length ?ts" "sc_data t = track_payload (md_sectors d)"
    "sc_secs t = written_recs (md_gap3 d) (16 * kGap4aBytes) 0 (md_sectors d)"
    using sectors_scan [of ?bb ?s q "md_gap3 d" "md_sectors d"] at(2) a(1) assms
    by (auto simp: scan_start_def track_ok_def list_all_iff)
  obtain sr' where "scan_loop ?bb t = scan_loop ?bb (t\<lparr>sc_pos := sc_pos t + 16 * n, sc_sr := sr'\<rparr>)"
    using hunt_gap [of ?bb t r n] at(3) t(2,3) by auto
  moreover have "length ?bb \<le> sc_pos t + 16 * n"
    by (simp add: bb t(3))
  ultimately have "scan_loop ?bb scan_start = t\<lparr>sc_pos := sc_pos t + 16 * n, sc_sr := sr'\<rparr>"
    using a(2) t(1) by (subst (asm) scan_loop.simps [of _ "t\<lparr>sc_pos := sc_pos t + 16 * n, sc_sr := sr'\<rparr>"]) simp
  then show ?thesis
    by (simp add: scan_track_def t(4,5))
qed

definition demo_sector :: "u8 \<Rightarrow> u8 \<Rightarrow> MfmSector" where
  "demo_sector r dam = \<lparr> ms_cyl = 0, ms_head = 0, ms_sec_id = r, ms_size_code = 0,
    ms_payload = replicate 127 0xA1 @ [r], ms_dam = dam \<rparr>"

lemma mfm_roundtrip_witness:
  "case scan_track (mfm_encode_track \<lparr> md_sectors = [demo_sector 0xC1 0xFB, demo_sector 0xC2 0xF8], md_gap3 = 0x52 \<rparr>)
   of (data, secs) \<Rightarrow> length data = 256 \<and> last data = 0xC2 \<and>
     map (\<lambda>r. (sr_chrn r, sr_st2 r, sr_off r)) secs = [([0, 0, 0xC1, 0], 0, 0), ([0, 0, 0xC2, 0], 0x40, 128)]"
proof -
  let ?d = "\<lparr> md_sectors = [demo_sector 0xC1 0xFB, demo_sector 0xC2 0xF8], md_gap3 = 0x52 \<rparr> :: MfmTrackDesc"
  have ok: "sector_ok (demo_sector r m)" for r m
    by (simp add: demo_sector_def sector_ok_def)
  then have "track_ok (md_sectors ?d)"
    by (simp add: track_ok_def track_payload_def kMaxSectors_def kMaxTrackBytes_def)
      (simp add: demo_sector_def id_bytes_def)
  from mfm_roundtrip [OF this] ok show ?thesis
    by (simp add: track_payload_def written_rec_def) (simp add: demo_sector_def id_bytes_def)
qed

end
