(* ===== verification/Dsk.thy ===== *)
theory Dsk
  imports Flux
begin

text \<open>
  The medium of a floppy drive and the DSK parser, \<open>parse_dsk\<close> of \<open>src/src/hw/fdc.cpp\<close>. Fields are named
  \<open>fs_x\<close>, \<open>ft_x\<close> and \<open>fm_x\<close> for the members \<open>x\<close> of \<open>fdc_sector\<close>, \<open>fdc_track\<close> and
  \<open>fdc_media\<close>. A track's \<open>sectors\<close> and \<open>sec\<close> are one list; the caller's image is \<open>u8 list option\<close>
  and \<open>len\<close> its length; offsets (\<open>uint32_t\<close>, images are far below 4 GB) are naturals. The parser writes into
  the track table as it goes, so a rejected image leaves the tracks read before the error, and the failing one
  half filled, behind a null image and no cylinders.
\<close>

definition kRevCycles :: nat where "kRevCycles = 3200000"
definition kByteCycles :: nat where "kByteCycles = 512"
definition kCellsPerTrack :: nat where "kCellsPerTrack = kRevCycles div kByteCycles"
definition kMaxTracks :: nat where "kMaxTracks = 102"
definition kMaxSides :: nat where "kMaxSides = 2"
definition kFluxPayload :: nat where "kFluxPayload = 8192"
definition kFluxRevs :: nat where "kFluxRevs = 2"

record fdc_sector =
  fs_chrn :: "u8 list"
  fs_st1 :: u8
  fs_st2 :: u8
  fs_off :: nat
  fs_stored :: nat
  fs_idam_at :: nat
  fs_data_at :: nat

record fdc_track =
  ft_sec :: "fdc_sector list"
  ft_data_off :: nat
  ft_data_len :: nat

definition empty_track :: fdc_track where
  "empty_track = \<lparr> ft_sec = [], ft_data_off = 0, ft_data_len = 0 \<rparr>"

record fdc_media =
  fm_image :: "u8 list option"
  fm_dirty :: bool
  fm_tracks :: nat
  fm_sides :: nat
  fm_track :: "nat \<Rightarrow> nat \<Rightarrow> fdc_track"
  fm_scp :: "u8 list option"
  fm_scp_revs :: nat
  fm_cache_cyl :: u8
  fm_cache_revs :: nat
  fm_cache_trk :: "nat \<Rightarrow> fdc_track"
  fm_cache_pay :: "nat \<Rightarrow> nat \<Rightarrow> u8"
  fm_backing_flux :: bool
  fm_track_dirty :: "nat \<Rightarrow> bool"

definition empty_media :: fdc_media where
  "empty_media = \<lparr> fm_image = None, fm_dirty = False, fm_tracks = 0, fm_sides = 0,
    fm_track = (\<lambda>_ _. empty_track), fm_scp = None, fm_scp_revs = 0, fm_cache_cyl = 0xFF, fm_cache_revs = 1,
    fm_cache_trk = (\<lambda>_. empty_track), fm_cache_pay = (\<lambda>_ _. 0), fm_backing_flux = False,
    fm_track_dirty = (\<lambda>_. False) \<rparr>"

definition fm_len :: "fdc_media \<Rightarrow> nat" where
  "fm_len m = (case fm_image m of None \<Rightarrow> 0 | Some p \<Rightarrow> length p)"

definition flux_backed :: "fdc_media \<Rightarrow> bool" where
  "flux_backed m \<longleftrightarrow> fm_scp m \<noteq> None"

definition serve_from_flux :: "fdc_media \<Rightarrow> nat \<Rightarrow> bool" where
  "serve_from_flux m t \<longleftrightarrow> fm_backing_flux m \<and> t < kMaxTracks \<and> \<not> fm_track_dirty m t"

subsection \<open>Parsing\<close>

definition rd16le :: "u8 list \<Rightarrow> nat \<Rightarrow> nat" where
  "rd16le p o1 = unat (p ! o1) + 0x100 * unat (p ! (o1 + 1))"

definition stored_of :: "u8 list \<Rightarrow> bool \<Rightarrow> nat \<Rightarrow> nat \<Rightarrow> nat" where
  "stored_of p ext th i = (if ext then rd16le p (th + 0x18 + 8 * i + 6) else 0x80 * 2 ^ unat (p ! (th + 0x14)))"

definition gap3_of :: "nat list \<Rightarrow> nat" where
  "gap3_of stored =
    (let n = length stored; fixed = 146 + sum_list (map (\<lambda>s. 62 + s) stored) in
     if 0 < n \<and> fixed + 2 * n < kCellsPerTrack then (kCellsPerTrack - fixed) div n else 2)"

text \<open>An entry of a fresh \<open>sec[]\<close>, and the loop that fills the entries \<open>is\<close> from the track's sector list at \<open>th\<close>; the
  first component is \<open>False\<close> when it returned early, the second the position reached.\<close>

definition blank_sector :: fdc_sector where
  "blank_sector = \<lparr> fs_chrn = [0, 0, 0, 0], fs_st1 = 0, fs_st2 = 0, fs_off = 0, fs_stored = 0, fs_idam_at = 0,
     fs_data_at = 0 \<rparr>"

fun load_sectors :: "u8 list \<Rightarrow> bool \<Rightarrow> nat \<Rightarrow> nat list \<Rightarrow> nat \<Rightarrow> fdc_sector list \<Rightarrow> bool \<times> nat \<times> fdc_sector list" where
  "load_sectors p ext th [] pos secs = (True, pos, secs)"
| "load_sectors p ext th (i # is) pos secs =
    (let si = th + 0x18 + 8 * i; stored = stored_of p ext th i;
         sec = (secs ! i)\<lparr>fs_chrn := take 4 (drop si p), fs_st1 := p ! (si + 4), fs_st2 := p ! (si + 5)\<rparr>
     in if stored > 0xFFFF then (False, pos, secs[i := sec])
        else load_sectors p ext th is (pos + stored) (secs[i := sec\<lparr>fs_off := pos, fs_stored := stored\<rparr>]))"

text \<open>The angular layout, once the sizes are known.\<close>

fun lay_sectors :: "nat \<Rightarrow> nat \<Rightarrow> fdc_sector list \<Rightarrow> fdc_sector list" where
  "lay_sectors gap3 cell [] = []"
| "lay_sectors gap3 cell (sec # rest) =
    sec\<lparr>fs_idam_at := (cell + 22) mod kCellsPerTrack, fs_data_at := (cell + 60) mod kCellsPerTrack\<rparr> #
    lay_sectors gap3 ((cell + 62 + fs_stored sec + gap3) mod kCellsPerTrack) rest"

text \<open>One track block at \<open>off\<close>, into the table entry \<open>k0\<close>: whether it was accepted, and the entry left behind.\<close>

definition parse_track :: "u8 list \<Rightarrow> bool \<Rightarrow> nat \<Rightarrow> fdc_track \<Rightarrow> bool \<times> fdc_track" where
  "parse_track p ext off k0 =
    (if off + 0x100 > length p then (False, k0)
     else if \<not> magic p off ''Track-Info'' then (False, k0)
     else
       (let n = unat (p ! (off + 0x15)) in
        if n > kMaxSectors \<or> p ! (off + 0x14) > 7 then (False, k0)
        else
          (case load_sectors p ext off [0..<n] (off + 0x100) (replicate n blank_sector) of (ok, pos, secs) \<Rightarrow>
            let k = k0\<lparr>ft_sec := secs, ft_data_off := off + 0x100\<rparr> in
            if \<not> ok then (False, k)
            else if pos > length p then (False, k\<lparr>ft_data_len := pos - (off + 0x100)\<rparr>)
            else (True, k\<lparr>ft_data_len := pos - (off + 0x100),
                           ft_sec := lay_sectors (gap3_of (map fs_stored secs)) 146 secs\<rparr>))))"

definition block_of :: "u8 list \<Rightarrow> bool \<Rightarrow> nat \<Rightarrow> nat \<Rightarrow> nat \<Rightarrow> nat" where
  "block_of p ext sides t s = (if ext then 0x100 * unat (p ! (0x34 + t * sides + s)) else rd16le p 0x32)"

fun parse_tracks :: "u8 list \<Rightarrow> bool \<Rightarrow> nat \<Rightarrow> (nat \<times> nat) list \<Rightarrow> nat \<Rightarrow> (nat \<Rightarrow> nat \<Rightarrow> fdc_track) \<Rightarrow>
    bool \<times> (nat \<Rightarrow> nat \<Rightarrow> fdc_track)" where
  "parse_tracks p ext sides [] off tab = (True, tab)"
| "parse_tracks p ext sides ((t, s) # rest) off tab =
    (let block = block_of p ext sides t s in
     if ext \<and> block = 0 then parse_tracks p ext sides rest off tab
     else
       (case parse_track p ext off (tab t s) of (ok, k) \<Rightarrow>
          let tab' = tab(t := (tab t)(s := k)) in
          if ok then parse_tracks p ext sides rest (off + block) tab' else (False, tab')))"

definition parse_dsk :: "u8 list option \<Rightarrow> bool \<times> fdc_media" where
  "parse_dsk buf =
    (case buf of
       None \<Rightarrow> (False, empty_media)
     | Some p \<Rightarrow>
         if length p < 0x100 then (False, empty_media)
         else if \<not> magic p 0 ''MV - CPC'' \<and> \<not> magic p 0 ''EXTENDED'' then (False, empty_media)
         else
           (let ext = (\<not> magic p 0 ''MV - CPC''); tracks0 = unat (p ! 0x30);
                sides = (if ext then unat (p ! 0x31 AND 3) else unat (p ! 0x31)) in
            if tracks0 = 0 \<or> sides < 1 \<or> sides > kMaxSides then (False, empty_media)
            else
              (let tracks = min tracks0 kMaxTracks in
               if \<not> ext \<and> rd16le p 0x32 < 0x100 then (False, empty_media)
               else
                 (case parse_tracks p ext sides (List.product [0..<tracks] [0..<sides]) 0x100
                    (fm_track empty_media) of (ok, tab) \<Rightarrow>
                    if ok then (True, empty_media\<lparr>fm_image := buf, fm_tracks := tracks, fm_sides := sides,
                      fm_track := tab\<rparr>)
                    else (False, empty_media\<lparr>fm_track := tab\<rparr>)))))"

subsection \<open>What the loops leave behind\<close>

text \<open>No stored size exceeds 16 bits: an extended image has two bytes for it and a size code above 7 is refused, so the
  early return of the sector loop is dead.\<close>

lemma stored_le:
  assumes "ext \<or> \<not> p ! (th + 0x14) > 7"
  shows "stored_of p ext th i \<le> 0xFFFF"
proof (cases ext)
  case True
  have "rd16le p k \<le> 0xFFFF" for k
    using unat_less_256 [of "p ! k"] unat_less_256 [of "p ! (k + 1)"] unfolding rd16le_def by linarith
  with True show ?thesis by (simp add: stored_of_def)
next
  case False
  with assms have "unat (p ! (th + 0x14)) \<le> 7" by (simp add: word_less_nat_alt)
  then have "(2::nat) ^ unat (p ! (th + 0x14)) \<le> 2 ^ 7" by (rule power_increasing) simp
  with False show ?thesis by (simp add: stored_of_def)
qed

fun raw_sectors :: "u8 list \<Rightarrow> bool \<Rightarrow> nat \<Rightarrow> nat list \<Rightarrow> nat \<Rightarrow> fdc_sector list" where
  "raw_sectors p ext th [] pos = []"
| "raw_sectors p ext th (i # is) pos =
    \<lparr> fs_chrn = take 4 (drop (th + 0x18 + 8 * i) p), fs_st1 = p ! (th + 0x18 + 8 * i + 4),
      fs_st2 = p ! (th + 0x18 + 8 * i + 5), fs_off = pos, fs_stored = stored_of p ext th i, fs_idam_at = 0, fs_data_at = 0 \<rparr> #
    raw_sectors p ext th is (pos + stored_of p ext th i)"

lemma load_sectors_eq:
  assumes "ext \<or> \<not> p ! (th + 0x14) > 7"
  shows "load_sectors p ext th [length done..<length done + k] pos (done @ replicate k blank_sector) =
    (True, pos + sum_list (map (stored_of p ext th) [length done..<length done + k]),
     done @ raw_sectors p ext th [length done..<length done + k] pos)"
proof (induction k arbitrary: "done" pos)
  case (Suc k)
  let ?l = "length done"
  let ?x = "\<lparr> fs_chrn = take 4 (drop (th + 0x18 + 8 * ?l) p), fs_st1 = p ! (th + 0x18 + 8 * ?l + 4),
      fs_st2 = p ! (th + 0x18 + 8 * ?l + 5), fs_off = pos, fs_stored = stored_of p ext th ?l, fs_idam_at = 0, fs_data_at = 0 \<rparr>"
  have upt: "[?l..<?l + Suc k] = ?l # [length (done @ [?x])..<length (done @ [?x]) + k]"
    by (simp add: upt_conv_Cons)
  have le: "\<not> stored_of p ext th ?l > 0xFFFF" using stored_le [OF assms] by (simp add: not_less)
  show ?case
    unfolding upt using le Suc.IH [of "done @ [?x]" "pos + stored_of p ext th ?l"]
    by (simp add: Let_def nth_append list_update_append blank_sector_def add.assoc)
qed simp

lemma load_all:
  "ext \<or> \<not> p ! (th + 0x14) > 7 \<Longrightarrow> load_sectors p ext th [0..<n] pos (replicate n blank_sector) =
    (True, pos + sum_list (map (stored_of p ext th) [0..<n]), raw_sectors p ext th [0..<n] pos)"
  using load_sectors_eq [of ext p th "[]" n pos] by simp

subsection \<open>The parsed windows\<close>

text \<open>Every sector window a track holds lies inside the track's own data block, and every angle on the track.\<close>

definition sector_in :: "nat \<Rightarrow> nat \<Rightarrow> fdc_sector \<Rightarrow> bool" where
  "sector_in lo hi c \<longleftrightarrow> lo \<le> fs_off c \<and> fs_off c + fs_stored c \<le> hi \<and>
     fs_idam_at c < kCellsPerTrack \<and> fs_data_at c < kCellsPerTrack"

definition windows_in :: "fdc_track \<Rightarrow> bool" where
  "windows_in k \<longleftrightarrow> length (ft_sec k) \<le> kMaxSectors \<and>
     list_all (sector_in (ft_data_off k) (ft_data_off k + ft_data_len k)) (ft_sec k)"

definition block_in :: "nat \<Rightarrow> fdc_track \<Rightarrow> bool" where
  "block_in len k \<longleftrightarrow> k = empty_track \<or> ft_data_off k + ft_data_len k \<le> len"

lemma cells_pos [simp]: "0 < kCellsPerTrack"
  by (simp add: kCellsPerTrack_def kRevCycles_def kByteCycles_def)

lemma length_raw_sectors [simp]: "length (raw_sectors p ext th is pos) = length is"
  by (induction "is" arbitrary: pos) simp_all

lemma length_lay_sectors [simp]: "length (lay_sectors g c secs) = length secs"
  by (induction secs arbitrary: c) simp_all

lemma raw_sectors_in:
  "lo \<le> pos \<Longrightarrow> pos + sum_list (map (stored_of p ext th) is) \<le> hi \<Longrightarrow> list_all (sector_in lo hi) (raw_sectors p ext th is pos)"
  by (induction "is" arbitrary: pos) (auto simp: sector_in_def add.assoc)

lemma lay_sectors_in: "list_all (sector_in lo hi) secs \<Longrightarrow> list_all (sector_in lo hi) (lay_sectors g c secs)"
  by (induction secs arbitrary: c) (auto simp: sector_in_def)

lemma parse_track_in:
  assumes "parse_track p ext off k0 = (ok, k)" "windows_in k0"
  shows "windows_in k" "ok \<longrightarrow> ft_data_off k + ft_data_len k \<le> length p"
proof -
  let ?n = "unat (p ! (off + 0x15))" let ?sum = "sum_list (map (stored_of p ext off) [0..<?n])"
  let ?raw = "raw_sectors p ext off [0..<?n] (off + 0x100)"
  have raw: "list_all (sector_in (off + 0x100) (off + 0x100 + ?sum)) ?raw"
    by (rule raw_sectors_in) simp_all
  consider "ok = False" "k = k0"
    | "?n \<le> kMaxSectors" "ok = False" "k = k0\<lparr>ft_sec := ?raw, ft_data_off := off + 0x100, ft_data_len := ?sum\<rparr>"
    | "?n \<le> kMaxSectors" "off + 0x100 + ?sum \<le> length p"
      "k = k0\<lparr>ft_data_off := off + 0x100, ft_data_len := ?sum, ft_sec := lay_sectors (gap3_of (map fs_stored ?raw)) 146 ?raw\<rparr>"
    using assms(1) load_all [of ext p off ?n "off + 0x100"]
    by (simp add: parse_track_def Let_def not_less split: if_splits)
  then show "windows_in k" "ok \<longrightarrow> ft_data_off k + ft_data_len k \<le> length p"
    using raw lay_sectors_in [OF raw] assms(2) by (cases; simp add: windows_in_def)+
qed

lemma parse_tracks_in:
  assumes "parse_tracks p ext sides ts off tab = (ok, tab')" "\<forall>t s. windows_in (tab t s)"
  shows "(\<forall>t s. windows_in (tab' t s)) \<and>
    (ok \<longrightarrow> (\<forall>t s. block_in (length p) (tab t s)) \<longrightarrow> (\<forall>t s. block_in (length p) (tab' t s)))"
  using assms
proof (induction ts arbitrary: off tab)
  case (Cons x ts)
  obtain t s where x: "x = (t, s)" by (cases x)
  show ?case
  proof (cases "ext \<and> block_of p ext sides t s = 0")
    case True
    have "parse_tracks p ext sides ts off tab = (ok, tab')"
      using Cons.prems(1) unfolding x parse_tracks.simps Let_def if_P [OF True] .
    with Cons.IH [OF this] Cons.prems(2) show ?thesis by blast
  next
    case False
    obtain okt k where k: "parse_track p ext off (tab t s) = (okt, k)" by fastforce
    note kin = parse_track_in [OF k] Cons.prems(2)
    let ?tab = "tab(t := (tab t)(s := k))"
    have win: "\<forall>u v. windows_in (?tab u v)" using kin by simp
    have run: "(if okt then parse_tracks p ext sides ts (off + block_of p ext sides t s) ?tab else (False, ?tab)) = (ok, tab')"
      using Cons.prems(1) unfolding x parse_tracks.simps Let_def if_not_P [OF False] by (simp add: k)
    show ?thesis
    proof (cases okt)
      case True
      have "(\<forall>u v. block_in (length p) (tab u v)) \<longrightarrow> (\<forall>u v. block_in (length p) (?tab u v))"
        using kin True by (simp add: block_in_def)
      with Cons.IH [of _ ?tab] run True win show ?thesis by (simp only: if_True) blast
    next
      case False
      with run win show ?thesis by auto
    qed
  qed
qed simp

lemma empty_media_windows: "windows_in (fm_track empty_media t s)" "block_in n (fm_track empty_media t s)"
  by (simp_all add: windows_in_def block_in_def empty_media_def empty_track_def)

lemma parse_dsk_cases:
  obtains (header) "parse_dsk buf = (False, empty_media)"
  | (tracks) p ext tracks sides ok tab where "buf = Some p" "1 \<le> tracks" "tracks \<le> kMaxTracks" "sides \<in> {1, 2}"
      "parse_tracks p ext sides (List.product [0..<tracks] [0..<sides]) 0x100 (fm_track empty_media) = (ok, tab)"
      "parse_dsk buf = (ok, if ok then empty_media\<lparr>fm_image := buf, fm_tracks := tracks, fm_sides := sides, fm_track := tab\<rparr>
         else empty_media\<lparr>fm_track := tab\<rparr>)"
proof (cases buf)
  case None
  then show thesis using header by (simp add: parse_dsk_def)
next
  case (Some p)
  let ?ext = "\<not> magic p 0 ''MV - CPC''"
  let ?sides = "if ?ext then unat (p ! 0x31 AND 3) else unat (p ! 0x31)" and ?tracks = "min (unat (p ! 0x30)) kMaxTracks"
  let ?run = "parse_tracks p ?ext ?sides (List.product [0..<?tracks] [0..<?sides]) 0x100 (fm_track empty_media)"
  have "parse_dsk buf = (False, empty_media) \<or>
      1 \<le> ?tracks \<and> ?sides \<in> {1, 2} \<and> parse_dsk buf = (fst ?run,
        if fst ?run then empty_media\<lparr>fm_image := buf, fm_tracks := ?tracks, fm_sides := ?sides, fm_track := snd ?run\<rparr>
        else empty_media\<lparr>fm_track := snd ?run\<rparr>)"
  proof (cases "length p < 0x100 \<or> \<not> magic p 0 ''MV - CPC'' \<and> \<not> magic p 0 ''EXTENDED'' \<or>
      unat (p ! 0x30) = 0 \<or> ?sides < 1 \<or> ?sides > kMaxSides \<or> \<not> ?ext \<and> rd16le p 0x32 < 0x100")
    case True
    then show ?thesis unfolding Some parse_dsk_def Let_def by (elim disjE conjE; simp)
  next
    case False
    then have "1 \<le> ?tracks" "?sides \<in> {1, 2}" by (auto simp: kMaxTracks_def kMaxSides_def)
    moreover have "parse_dsk buf = (fst ?run,
        if fst ?run then empty_media\<lparr>fm_image := buf, fm_tracks := ?tracks, fm_sides := ?sides, fm_track := snd ?run\<rparr>
        else empty_media\<lparr>fm_track := snd ?run\<rparr>)"
      using False unfolding Some parse_dsk_def Let_def case_prod_beta by (simp only: option.case if_False if_True simp_thms de_Morgan_disj) simp
    ultimately show ?thesis by blast
  qed
  then show thesis
    using header tracks [OF Some, of ?tracks ?sides ?ext "fst ?run" "snd ?run"] by auto
qed

lemma parse_dsk_rejects:
  assumes "parse_dsk buf = (False, m)"
  shows "m = empty_media\<lparr>fm_track := fm_track m\<rparr>"
proof (cases rule: parse_dsk_cases [of buf])
  case header
  with assms have "m = empty_media" by simp
  then show ?thesis by (simp add: empty_media_def)
next
  case (tracks p ext n sides ok tab)
  have "m = empty_media\<lparr>fm_track := tab\<rparr>" using tracks(6) unfolding assms by (simp split: if_splits)
  then show ?thesis by (simp add: empty_media_def)
qed

text \<open>C40 (dsk_windows): Whatever bytes the host hands over as a disc image, the parser accepts them unchanged, with
  1 to 102 cylinders on one or two sides and every track's data block inside the image, or rejects them and leaves
  a medium with no image and no cylinders in which only the track table, filled up to the error, differs from an
  empty drive. In both cases no track has more than 29 sectors, every sector window lies inside its track's data
  block, and every ID and data field sits on one of the 6250 byte cells of the revolution.\<close>

theorem dsk_windows:
  "case parse_dsk buf of (ok, m) \<Rightarrow>
     (if ok then fm_image m = buf \<and> buf \<noteq> None \<and> 1 \<le> fm_tracks m \<and> fm_tracks m \<le> 102 \<and> fm_sides m \<in> {1, 2} \<and>
        (\<forall>t s. fm_track m t s = empty_track \<or>
           ft_data_off (fm_track m t s) + ft_data_len (fm_track m t s) \<le> fm_len m)
      else m = empty_media\<lparr>fm_track := fm_track m\<rparr>) \<and>
     (\<forall>t s. length (ft_sec (fm_track m t s)) \<le> 29 \<and>
        list_all (\<lambda>c. ft_data_off (fm_track m t s) \<le> fs_off c \<and>
          fs_off c + fs_stored c \<le> ft_data_off (fm_track m t s) + ft_data_len (fm_track m t s) \<and>
          fs_idam_at c < 6250 \<and> fs_data_at c < 6250) (ft_sec (fm_track m t s)))"
proof (cases rule: parse_dsk_cases [of buf])
  case header
  then show ?thesis by (simp add: empty_media_def empty_track_def)
next
  case (tracks p ext n sides ok tab)
  have cells: "kCellsPerTrack = 6250"
    by (simp add: kCellsPerTrack_def kRevCycles_def kByteCycles_def)
  have "(\<forall>t s. windows_in (tab t s)) \<and> (ok \<longrightarrow> (\<forall>t s. block_in (length p) (tab t s)))"
    using parse_tracks_in [OF tracks(5)] empty_media_windows by blast
  then show ?thesis
    using tracks(1-4) unfolding tracks(6)
    by (simp add: windows_in_def block_in_def sector_in_def [abs_def] cells kMaxSectors_def kMaxTracks_def
        fm_len_def empty_media_def)
qed

subsection \<open>A rejected image\<close>

text \<open>Two cylinders are announced, one is there: the image is refused, and the first track stays in the table.\<close>

definition cut_dsk :: "u8 list" where
  "cut_dsk = map of_char ''EXTENDED'' @ replicate 40 0 @ [2, 1, 0, 0, 1, 1] @ replicate 202 0 @
     map of_char ''Track-Info'' @ replicate 10 0 @ [2, 1, 0, 0, 0, 0, 0xC1, 2] @ replicate 228 0"

lemma rejected_tracks_stay:
  "\<not> fst (parse_dsk (Some cut_dsk))" "ft_data_off (fm_track (snd (parse_dsk (Some cut_dsk))) 0 0) = 0x200"
  "map fs_chrn (ft_sec (fm_track (snd (parse_dsk (Some cut_dsk))) 0 0)) = [[0, 0, 0xC1, 2]]"
proof -
  have head: "magic cut_dsk 0 ''EXTENDED''" "\<not> magic cut_dsk 0 ''MV - CPC''" "length cut_dsk = 0x200"
    "cut_dsk ! 0x30 = 2" "cut_dsk ! 0x31 = 1" "cut_dsk ! 0x34 = 1" "cut_dsk ! 0x35 = 1"
    by (simp_all add: cut_dsk_def magic_def bytes_of_def nth_append)
  have trk: "magic cut_dsk 0x100 ''Track-Info''" "cut_dsk ! 0x114 = 2" "cut_dsk ! 0x115 = 1"
    "take 4 (drop 0x118 cut_dsk) = [0, 0, 0xC1, 2]" "cut_dsk ! 0x11E = 0" "cut_dsk ! 0x11F = 0"
    by (simp_all add: cut_dsk_def magic_def bytes_of_def nth_append)
  obtain k where k: "parse_track cut_dsk True 0x100 empty_track = (True, k)" "ft_data_off k = 0x200"
    "map fs_chrn (ft_sec k) = [[0, 0, 0xC1, 2]]"
    using trk head(3) by (simp add: parse_track_def stored_of_def rd16le_def kMaxSectors_def Let_def)
  have "parse_track cut_dsk True 0x200 k0 = (False, k0)" for k0
    using head(3) by (simp add: parse_track_def)
  then have "parse_dsk (Some cut_dsk) = (False, empty_media\<lparr>fm_track := (\<lambda>_ _. empty_track)(0 := (\<lambda>_. empty_track)(0 := k))\<rparr>)"
    using head k(1) by (simp add: parse_dsk_def upt_rec [of 0 2] upt_rec [of "Suc 0" 2] block_of_def kMaxSides_def kMaxTracks_def empty_media_def)
  with k(2,3) show "\<not> fst (parse_dsk (Some cut_dsk))" "ft_data_off (fm_track (snd (parse_dsk (Some cut_dsk))) 0 0) = 0x200"
    "map fs_chrn (ft_sec (fm_track (snd (parse_dsk (Some cut_dsk))) 0 0)) = [[0, 0, 0xC1, 2]]"
    by simp_all
qed

end
