(* ===== verification/Fdc.thy ===== *)
theory Fdc
  imports Dsk Contracts Event_Rings
begin

text \<open>
  The uPD765A floppy disc controller, \<open>src/src/hw/fdc.cpp\<close>: the command, execution and result phases, the
  rotating medium (spin-up, index hole, byte cells), the seek engine, reads from an image or from the flux
  cache, writes, FORMAT, and the bus interface. \<open>fd_x\<close> is the member \<open>x\<close> of \<open>fdc_state\<close>.

  Integers. Registers are \<open>u8\<close>; \<open>remaining\<close> is \<open>u32\<close> because it may pass through zero; the 64-bit
  master clock and its deadlines, the rotation phase, offsets and the small counters and indices
  (\<open>cmd_count\<close>, \<open>res_count\<close>, \<open>sector_idx\<close>, \<open>fmt_pos\<close>, \<open>ev_head\<close>, \<open>ev_count\<close>, all bounded far below their
  width) are naturals. \<open>0/1\<close> flags are booleans. The PLL's double arithmetic \<open>A\<close> is passed to every
  operation that may decode a flux track.
\<close>

datatype phase = PH_CMD | PH_EXEC | PH_RESULT | PH_BUSY
datatype motor_st = M_OFF | M_SPINUP | M_READY
datatype pending = P_NONE | P_READ_ID | P_DATA_START | P_FAIL | P_FORMAT_DONE
datatype ev_type = FDC_EV_MOTOR_ON | FDC_EV_MOTOR_READY | FDC_EV_MOTOR_OFF | FDC_EV_STEP | FDC_EV_INDEX

definition kSpinUpCycles :: nat where "kSpinUpCycles = 8000000"
definition kCyclesPerMs :: nat where "kCyclesPerMs = 16000"

definition C_CODE :: nat where "C_CODE = 0"
definition C_UNIT :: nat where "C_UNIT = 1"
definition C_C :: nat where "C_C = 2"
definition C_H :: nat where "C_H = 3"
definition C_R :: nat where "C_R = 4"
definition C_N :: nat where "C_N = 5"
definition C_EOT :: nat where "C_EOT = 6"
definition C_DTL :: nat where "C_DTL = 8"
definition R_ST0 :: nat where "R_ST0 = 0"
definition R_ST1 :: nat where "R_ST1 = 1"
definition R_ST2 :: nat where "R_ST2 = 2"
definition R_C :: nat where "R_C = 3"
definition R_H :: nat where "R_H = 4"
definition R_R :: nat where "R_R = 5"
definition R_N :: nat where "R_N = 6"

lemmas cmd_index = C_CODE_def C_UNIT_def C_C_def C_H_def C_R_def C_N_def C_EOT_def C_DTL_def
lemmas res_index = R_ST0_def R_ST1_def R_ST2_def R_C_def R_H_def R_R_def R_N_def

record FdcEvent =
  fe_cycle :: nat
  fe_type :: ev_type
  fe_arg :: u8

record fdc_state =
  fd_phase :: phase
  fd_cmd :: "nat \<Rightarrow> u8"
  fd_cmd_len :: nat
  fd_cmd_count :: nat
  fd_mt :: u8
  fd_mf :: u8
  fd_sk :: u8
  fd_res :: "nat \<Rightarrow> u8"
  fd_res_len :: nat
  fd_res_count :: nat
  fd_dir_to_cpu :: bool
  fd_motor :: bool
  fd_track_pos :: "nat \<Rightarrow> u8"
  fd_sector_idx :: nat
  fd_seek_done :: "nat \<Rightarrow> bool"
  fd_status_changed :: "nat \<Rightarrow> bool"
  fd_srt_hut :: u8
  fd_hlt_nd :: u8
  fd_data_pos :: nat
  fd_remaining :: u32
  fd_trk_begin :: nat
  fd_trk_end :: nat
  fd_now :: nat
  fd_rot :: nat
  fd_rev_count :: nat
  fd_from_flux :: bool
  fd_serve_rev :: nat
  fd_motor_st :: motor_st
  fd_motor_ready_at :: nat
  fd_seeking :: "nat \<Rightarrow> bool"
  fd_seek_target :: "nat \<Rightarrow> u8"
  fd_next_step_at :: "nat \<Rightarrow> nat"
  fd_step_period :: "nat \<Rightarrow> nat"
  fd_pending :: pending
  fd_pend_idx :: nat
  fd_due_at :: nat
  fd_next_byte_at :: nat
  fd_out_latch :: u8
  fd_access_prev :: bool
  fd_st_latch :: "nat \<Rightarrow> u8"
  fd_sectors_read :: u32
  fd_wr_deleted :: bool
  fd_wr_st2_off :: nat
  fd_fmt_ids :: "nat \<Rightarrow> u8"
  fd_fmt_pos :: nat
  fd_media :: fdc_media
  fd_media1 :: fdc_media
  fd_ev :: "nat \<Rightarrow> FdcEvent"
  fd_ev_head :: nat
  fd_ev_count :: nat

definition no_event :: FdcEvent where
  "no_event = \<lparr> fe_cycle = 0, fe_type = FDC_EV_MOTOR_ON, fe_arg = 0 \<rparr>"

definition fdc_init :: fdc_state where
  "fdc_init = \<lparr> fd_phase = PH_CMD, fd_cmd = (\<lambda>_. 0), fd_cmd_len = 0, fd_cmd_count = 0, fd_mt = 0, fd_mf = 0,
    fd_sk = 0, fd_res = (\<lambda>_. 0), fd_res_len = 0, fd_res_count = 0, fd_dir_to_cpu = False, fd_motor = False,
    fd_track_pos = (\<lambda>_. 0), fd_sector_idx = 0, fd_seek_done = (\<lambda>_. False), fd_status_changed = (\<lambda>_. False),
    fd_srt_hut = 0, fd_hlt_nd = 0, fd_data_pos = 0, fd_remaining = 0, fd_trk_begin = 0, fd_trk_end = 0,
    fd_now = 0, fd_rot = 0, fd_rev_count = 0, fd_from_flux = False, fd_serve_rev = 0, fd_motor_st = M_OFF,
    fd_motor_ready_at = 0, fd_seeking = (\<lambda>_. False), fd_seek_target = (\<lambda>_. 0), fd_next_step_at = (\<lambda>_. 0),
    fd_step_period = (\<lambda>_. 0), fd_pending = P_NONE, fd_pend_idx = 0, fd_due_at = 0, fd_next_byte_at = 0,
    fd_out_latch = 0xFF, fd_access_prev = False, fd_st_latch = (\<lambda>_. 0), fd_sectors_read = 0,
    fd_wr_deleted = False, fd_wr_st2_off = 0, fd_fmt_ids = (\<lambda>_. 0), fd_fmt_pos = 0,
    fd_media = empty_media, fd_media1 = empty_media, fd_ev = (\<lambda>_. no_event), fd_ev_head = 0, fd_ev_count = 0 \<rparr>"

definition store_fdc_event :: "fdc_state \<Rightarrow> FdcEvent \<Rightarrow> fdc_state" where
  "store_fdc_event f e =
    (let g = (if fd_ev_count f = 64
              then f\<lparr>fd_ev_head := (fd_ev_head f + 1) mod 64, fd_ev_count := fd_ev_count f - 1\<rparr> else f)
     in g\<lparr>fd_ev := (fd_ev g)((fd_ev_head g + fd_ev_count g) mod 64 := e), fd_ev_count := fd_ev_count g + 1\<rparr>)"

definition push_fdc_event :: "ev_type \<Rightarrow> u8 \<Rightarrow> fdc_state \<Rightarrow> fdc_state" where
  "push_fdc_event ty arg f = store_fdc_event f \<lparr> fe_cycle = fd_now f, fe_type = ty, fe_arg = arg \<rparr>"

subsection \<open>Helpers\<close>

definition unit_of :: "fdc_state \<Rightarrow> nat" where
  "unit_of f = unat (fd_cmd f C_UNIT AND 1)"

definition head_of :: "fdc_state \<Rightarrow> nat" where
  "head_of f = unat (drop_bit 2 (fd_cmd f C_UNIT) AND 1)"

definition sel_media :: "fdc_state \<Rightarrow> nat \<Rightarrow> fdc_media" where
  "sel_media f u = (if odd u then fd_media1 f else fd_media f)"

definition upd_media :: "nat \<Rightarrow> (fdc_media \<Rightarrow> fdc_media) \<Rightarrow> fdc_state \<Rightarrow> fdc_state" where
  "upd_media u g f = (if odd u then f\<lparr>fd_media1 := g (fd_media1 f)\<rparr> else f\<lparr>fd_media := g (fd_media f)\<rparr>)"

definition set_res :: "nat \<Rightarrow> u8 \<Rightarrow> fdc_state \<Rightarrow> fdc_state" where
  "set_res i v f = f\<lparr>fd_res := (fd_res f)(i := v)\<rparr>"

definition or_res :: "nat \<Rightarrow> u8 \<Rightarrow> fdc_state \<Rightarrow> fdc_state" where
  "or_res i v f = set_res i (fd_res f i OR v) f"

definition and_res :: "nat \<Rightarrow> u8 \<Rightarrow> fdc_state \<Rightarrow> fdc_state" where
  "and_res i v f = set_res i (fd_res f i AND v) f"

definition drive_ready :: "fdc_state \<Rightarrow> nat \<Rightarrow> bool" where
  "drive_ready f u \<longleftrightarrow> u \<le> 1 \<and>
     (let m = sel_media f u in (fm_image m \<noteq> None \<or> flux_backed m) \<and> 0 < fm_tracks m) \<and> fd_motor_st f = M_READY"

definition cache_sector :: "FluxSector \<Rightarrow> fdc_sector" where
  "cache_sector s = \<lparr> fs_chrn = fx_chrn s, fs_st1 = fx_st1 s, fs_st2 = fx_st2 s, fs_off = fx_off s,
    fs_stored = fx_len s, fs_idam_at = fx_idam_cell s, fs_data_at = fx_data_cell s \<rparr>"

definition cache_rev :: "'d arith \<Rightarrow> u8 \<Rightarrow> nat \<Rightarrow> fdc_media \<Rightarrow> fdc_media" where
  "cache_rev A cyl r m =
    (case flux_decode_track_rev A (fm_scp m) (unat cyl) r kFluxPayload of
       Inl e \<Rightarrow> m\<lparr>fm_cache_trk := (fm_cache_trk m)(r := empty_track)\<rparr>
     | Inr (secs, pay) \<Rightarrow>
         m\<lparr>fm_cache_trk := (fm_cache_trk m)(r :=
              \<lparr> ft_sec = map cache_sector (take kMaxSectors secs), ft_data_off = 0, ft_data_len = length pay \<rparr>),
           fm_cache_pay := (fm_cache_pay m)(r :=
              (\<lambda>k. if k < length pay then pay ! k else fm_cache_pay m r k))\<rparr>)"

definition ensure_flux_cache :: "'d arith \<Rightarrow> fdc_state \<Rightarrow> fdc_state" where
  "ensure_flux_cache A f =
    (let m = fd_media f; cyl = fd_track_pos f 0 in
     if fm_cache_cyl m = cyl then f
     else
       (let m1 = m\<lparr>fm_cache_revs := (if fm_scp_revs m \<ge> kFluxRevs then kFluxRevs else 1)\<rparr>;
            m2 = fold (cache_rev A cyl) [0..<fm_cache_revs m1] m1
        in f\<lparr>fd_media := m2\<lparr>fm_cache_cyl := cyl\<rparr>\<rparr>))"

definition passing_rev :: "fdc_state \<Rightarrow> nat" where
  "passing_rev f = fd_rev_count f mod fm_cache_revs (fd_media f)"

definition rev_at_cell :: "fdc_state \<Rightarrow> nat \<Rightarrow> nat" where
  "rev_at_cell f cell =
    (if cell * kByteCycles \<le> fd_rot f then (passing_rev f + 1) mod fm_cache_revs (fd_media f) else passing_rev f)"

definition cycles_until_cell :: "fdc_state \<Rightarrow> nat \<Rightarrow> nat" where
  "cycles_until_cell f cell =
    (let target = cell * kByteCycles;
         delta = (if fd_rot f \<le> target then target - fd_rot f else kRevCycles - fd_rot f + target)
     in if delta = 0 then kRevCycles else delta)"

definition next_idam_index :: "fdc_state \<Rightarrow> fdc_track \<Rightarrow> nat" where
  "next_idam_index f trk =
    fst (foldl (\<lambda>(best, best_dt) i.
       let dt = cycles_until_cell f (fs_idam_at (ft_sec trk ! i)) in if dt < best_dt then (i, dt) else (best, best_dt))
     (0, 2 ^ 64 - 1) [0..<length (ft_sec trk)])"

text \<open>A pointer to a track: a track of the parsed image of a unit, or a cached revolution.\<close>

datatype trk_ref = In_image nat nat nat | In_cache nat

definition track_at :: "fdc_state \<Rightarrow> trk_ref \<Rightarrow> fdc_track" where
  "track_at f r = (case r of In_image u t s \<Rightarrow> fm_track (sel_media f u) t s | In_cache v \<Rightarrow> fm_cache_trk (fd_media f) v)"

definition set_track_at :: "trk_ref \<Rightarrow> fdc_track \<Rightarrow> fdc_state \<Rightarrow> fdc_state" where
  "set_track_at r k f =
    (case r of
       In_image u t s \<Rightarrow> upd_media u (\<lambda>m. m\<lparr>fm_track := (fm_track m)(t := (fm_track m t)(s := k))\<rparr>) f
     | In_cache v \<Rightarrow> upd_media 0 (\<lambda>m. m\<lparr>fm_cache_trk := (fm_cache_trk m)(v := k)\<rparr>) f)"

definition head_track :: "'d arith \<Rightarrow> nat \<Rightarrow> nat \<Rightarrow> fdc_state \<Rightarrow> trk_ref option \<times> fdc_state" where
  "head_track A u head f =
    (if u > 1 then (None, f)
     else
       (let m = sel_media f u; t = unat (fd_track_pos f u) in
        if serve_from_flux m t then
          (if t \<ge> fm_tracks m then (None, f)
           else
             (let g = ensure_flux_cache A f; v = passing_rev g in
              (if ft_sec (fm_cache_trk (fd_media g) v) \<noteq> [] then Some (In_cache v) else None, g)))
        else if fm_image m = None then (None, f)
        else if t \<ge> fm_tracks m then (None, f)
        else
          (let side = (if fm_sides m > 1 then head mod 2 else 0) in
           (if ft_sec (fm_track m t side) \<noteq> [] then Some (In_image u t side) else None, f))))"

definition init_status :: "nat \<Rightarrow> fdc_state \<Rightarrow> bool \<times> fdc_state" where
  "init_status u f =
    (let ready = drive_ready f u; st0 = fd_cmd f C_UNIT AND 7 in
     (ready, f\<lparr>fd_res := (\<lambda>_. 0)(R_ST0 := if ready then st0 else st0 OR 0x48)\<rparr>))"

definition load_result_chrn :: "fdc_state \<Rightarrow> fdc_state" where
  "load_result_chrn f = f\<lparr>fd_res := (fd_res f)(R_C := fd_cmd f C_C, R_H := fd_cmd f C_H, R_R := fd_cmd f C_R,
     R_N := fd_cmd f C_N)\<rparr>"

definition enter_result :: "fdc_state \<Rightarrow> fdc_state" where
  "enter_result f = f\<lparr>fd_phase := PH_RESULT, fd_res_count := 0,
     fd_st_latch := (fd_st_latch f)(0 := fd_res f R_ST0, 1 := fd_res f R_ST1, 2 := fd_res f R_ST2)\<rparr>"

definition enter_cmd :: "fdc_state \<Rightarrow> fdc_state" where
  "enter_cmd f = f\<lparr>fd_phase := PH_CMD, fd_cmd_count := 0\<rparr>"

definition prioritise :: "fdc_state \<Rightarrow> fdc_state" where
  "prioritise f =
    (if fd_res f R_ST1 AND 0x7F \<noteq> 0 \<or> fd_res f R_ST2 AND 0x7F \<noteq> 0 then
       (let g = and_res R_ST1 0x7F f in
        if fd_res g R_ST1 AND 0x20 \<noteq> 0 \<or> fd_res g R_ST2 AND 0x20 \<noteq> 0 then and_res R_ST2 0xBF g
        else if fd_res g R_ST2 AND 0x40 \<noteq> 0 then and_res R_ST1 0x7F (and_res R_ST0 0x3F g)
        else g)
     else f)"

definition finish_with_status :: "fdc_state \<Rightarrow> fdc_state" where
  "finish_with_status f =
    enter_result (load_result_chrn (prioritise (or_res R_ST1 0x80 (or_res R_ST0 0x40 f))))"

definition cmd_chrn :: "fdc_state \<Rightarrow> u8 list" where
  "cmd_chrn f = [fd_cmd f C_C, fd_cmd f C_H, fd_cmd f C_R, fd_cmd f C_N]"

subsection \<open>Sector search and transfer\<close>

function find_loop :: "fdc_sector list \<Rightarrow> u8 list \<Rightarrow> nat \<Rightarrow> nat \<Rightarrow> u8 \<Rightarrow> nat option \<times> u8 \<times> nat" where
  "find_loop secs chrn idx loops st2 =
    (let s = secs ! idx in
     if fs_chrn s = chrn then (Some idx, st2 AND NOT 0x12, idx)
     else
       (let cyl = hd (fs_chrn s);
            st2' = (if cyl = 0xFF then st2 OR 0x02 else if cyl \<noteq> hd chrn then st2 OR 0x10 else st2);
            wrap = (idx + 1 \<ge> length secs);
            idx' = (if wrap then 0 else idx + 1); loops' = (if wrap then loops + 1 else loops)
        in if loops' < 2 then find_loop secs chrn idx' loops' st2' else (None, st2', idx')))"
  by pat_completeness auto
termination
  by (relation "measure (\<lambda>(secs, chrn, idx, loops, st2). (2 - loops) * Suc (length secs) + (length secs - idx))")
    (auto simp: diff_mult_distrib Let_def split: if_splits)

declare find_loop.simps [simp del]

definition find_sector :: "fdc_track \<Rightarrow> fdc_state \<Rightarrow> nat option \<times> fdc_state" where
  "find_sector trk f =
    (let idx = (if fd_sector_idx f \<ge> length (ft_sec trk) then 0 else fd_sector_idx f);
         (found, st2, idx') = find_loop (ft_sec trk) (cmd_chrn f) idx 0 (fd_res f R_ST2);
         st2' = (if st2 AND 0x02 \<noteq> 0 then st2 AND NOT 0x10 else st2)
     in (found, (set_res R_ST2 st2' f)\<lparr>fd_sector_idx := idx'\<rparr>))"

definition xfer_length :: "fdc_state \<Rightarrow> u32" where
  "xfer_length f =
    (if fd_cmd f C_N = 0 then (if fd_cmd f C_DTL > 0x80 then 0x80 else ucast (fd_cmd f C_DTL))
     else push_bit (unat (fd_cmd f C_N AND 7)) 128)"

definition sector_miss :: "fdc_state \<Rightarrow> fdc_state" where
  "sector_miss f =
    (load_result_chrn (or_res R_ST1 0x04 (or_res R_ST0 0x40 f)))
      \<lparr>fd_pending := P_FAIL, fd_due_at := fd_now f + 2 * kRevCycles, fd_phase := PH_BUSY\<rparr>"

text \<open>The copy of the sector on the revolution that will be passing, or the scanned one.\<close>

definition served_copy :: "fdc_state \<Rightarrow> fdc_track \<Rightarrow> fdc_sector \<Rightarrow> nat \<Rightarrow> fdc_track \<times> fdc_sector" where
  "served_copy f trk sec v =
    (let strk = fm_cache_trk (fd_media f) v in
     case find (\<lambda>s. fs_chrn s = fs_chrn sec) (ft_sec strk) of Some s \<Rightarrow> (strk, s) | None \<Rightarrow> (trk, sec))"

definition begin_transfer :: "fdc_track \<Rightarrow> fdc_sector \<Rightarrow> bool \<Rightarrow> fdc_state \<Rightarrow> fdc_state" where
  "begin_transfer trk sec to_cpu f =
    (set_res R_ST2 ((fd_res f R_ST2 AND 0x12) OR (fs_st2 sec AND 0x61)) (set_res R_ST1 (fs_st1 sec AND 0x25) f))
      \<lparr>fd_data_pos := fs_off sec, fd_remaining := xfer_length f, fd_trk_begin := ft_data_off trk,
       fd_trk_end := ft_data_off trk + ft_data_len trk, fd_dir_to_cpu := to_cpu, fd_pending := P_DATA_START,
       fd_due_at := fd_now f + cycles_until_cell f (fs_data_at sec), fd_phase := PH_BUSY\<rparr>"

definition start_sector :: "trk_ref \<Rightarrow> bool \<Rightarrow> fdc_state \<Rightarrow> fdc_state" where
  "start_sector r to_cpu f0 =
    (let trk = track_at f0 r; (found, f) = find_sector trk (f0\<lparr>fd_sector_idx := next_idam_index f0 trk\<rparr>) in
     case found of
       None \<Rightarrow> sector_miss f
     | Some i \<Rightarrow>
         (let sec = ft_sec trk ! i; u = unit_of f;
              f1 = f\<lparr>fd_from_flux := serve_from_flux (sel_media f u) (unat (fd_track_pos f u))\<rparr>;
              f2 = (if to_cpu then f1
                    else f1\<lparr>fd_wr_st2_off := (ft_data_off trk - 0x100) + 0x18 + 8 * fd_sector_idx f1 + 5\<rparr>)
          in if fd_from_flux f2 then
               (let v = rev_at_cell f2 (fs_data_at sec); c = served_copy f2 trk sec v
                in begin_transfer (fst c) (snd c) to_cpu (f2\<lparr>fd_serve_rev := v\<rparr>))
             else begin_transfer trk sec to_cpu f2))"

subsection \<open>FORMAT TRACK\<close>

definition put_list :: "nat \<Rightarrow> u8 list \<Rightarrow> u8 list \<Rightarrow> u8 list" where
  "put_list off vs p = take off p @ take (length p - off) vs @ drop (off + length vs) p"

definition format_block :: "fdc_media \<Rightarrow> u8 list \<Rightarrow> nat \<Rightarrow> nat \<Rightarrow> nat" where
  "format_block m p t side =
    (if magic p 0 ''EXTENDED'' then 0x100 * unat (p ! (0x34 + t * fm_sides m + side)) else rd16le p 0x32)"

text \<open>The bytes FORMAT writes: the Track-Info fields from offset \<open>0x14\<close>, the sector list, and the filled
  data area. Bytes past the end of the buffer are dropped here; in C++ they are written out of bounds.\<close>

definition format_entry :: "(nat \<Rightarrow> u8) \<Rightarrow> nat \<Rightarrow> nat \<Rightarrow> nat \<Rightarrow> u8 list" where
  "format_entry ids sc sec_size i =
    (if i < sc then map ids [4 * i..<4 * i + 4] @ [0, 0, lo8 sec_size, hi8 sec_size] else replicate 8 0)"

definition format_image :: "(nat \<Rightarrow> u8) \<Rightarrow> u8 \<Rightarrow> u8 \<Rightarrow> u8 \<Rightarrow> u8 \<Rightarrow> nat \<Rightarrow> u8 list \<Rightarrow> u8 list" where
  "format_image ids n sc gpl fill data_off p =
    (let sec_size = 128 * 2 ^ unat n; th = data_off - 0x100 in
     put_list data_off (replicate (unat sc * sec_size) fill)
       (put_list (th + 0x14)
         ([n, sc, gpl, fill] @ concat (map (format_entry ids (unat sc) sec_size) [0..<kMaxSectors])) p))"

definition reparse :: "fdc_media \<Rightarrow> nat \<Rightarrow> u8 list \<Rightarrow> fdc_media" where
  "reparse m t p =
    (let m1 = snd (parse_dsk (Some p)) in
     (if fm_backing_flux m
      then m1\<lparr>fm_backing_flux := True, fm_scp := fm_scp m, fm_scp_revs := fm_scp_revs m, fm_cache_cyl := 0xFF,
             fm_track_dirty := (if t < kMaxTracks then (fm_track_dirty m)(t := True) else fm_track_dirty m)\<rparr>
      else m1)\<lparr>fm_dirty := True\<rparr>)"

definition do_format :: "fdc_state \<Rightarrow> fdc_state" where
  "do_format f =
    (let u = unit_of f; m = sel_media f u; head = head_of f; n = fd_cmd f 2; sc = fd_cmd f 3; gpl = fd_cmd f 4;
         fill = fd_cmd f 5; t = unat (fd_track_pos f u); side = (if fm_sides m > 1 then head else 0);
         trk = (if t < fm_tracks m then fm_track m t side else empty_track);
         sec_size = 128 * 2 ^ unat n
     in case fm_image m of
          None \<Rightarrow> enter_result (or_res R_ST1 0x02 (or_res R_ST0 0x40 f))
        | Some p \<Rightarrow>
            (let block = format_block m p t side; fits = (block > 0x100 \<and> unat sc * sec_size \<le> block - 0x100);
                 std_ok = (magic p 0 ''EXTENDED'' \<or> p ! (ft_data_off trk - 0x100 + 0x14) = n)
             in if \<not> t < fm_tracks m \<or> ft_data_off trk = 0 \<or> \<not> fits \<or> \<not> std_ok
                then enter_result (or_res R_ST1 0x02 (or_res R_ST0 0x40 f))
                else
                  (let f1 = upd_media u (\<lambda>m. reparse m t (format_image (fd_fmt_ids f) n sc gpl fill (ft_data_off trk) p)) f
                   in enter_result ((f1\<lparr>fd_sector_idx := 0\<rparr>)
                        \<lparr>fd_res := (fd_res f1)(R_ST0 := fd_cmd f C_UNIT AND 7, R_C := fd_track_pos f u,
                           R_H := of_nat head, R_N := n)\<rparr>))))"

subsection \<open>Commands\<close>

definition complete_pending :: "'d arith \<Rightarrow> fdc_state \<Rightarrow> fdc_state" where
  "complete_pending A f0 =
    (let f = f0\<lparr>fd_pending := P_NONE\<rparr> in
     case fd_pending f0 of
       P_READ_ID \<Rightarrow>
         (let (r, g) = head_track A (unit_of f) (head_of f) f in
          case r of
            None \<Rightarrow> enter_result g
          | Some t \<Rightarrow>
              if fd_pend_idx g < length (ft_sec (track_at g t)) then
                (let c = fs_chrn (ft_sec (track_at g t) ! fd_pend_idx g) in
                 enter_result (g\<lparr>fd_res := (fd_res g)(R_C := c ! 0, R_H := c ! 1, R_R := c ! 2, R_N := c ! 3),
                   fd_sector_idx := fd_pend_idx g + 1\<rparr>))
              else enter_result g)
     | P_DATA_START \<Rightarrow> f\<lparr>fd_phase := PH_EXEC, fd_next_byte_at := fd_now f\<rparr>
     | P_FORMAT_DONE \<Rightarrow> do_format f
     | _ \<Rightarrow> enter_result f)"

definition cmd_specify :: "fdc_state \<Rightarrow> fdc_state" where
  "cmd_specify f = enter_cmd (f\<lparr>fd_srt_hut := fd_cmd f 1, fd_hlt_nd := fd_cmd f 2\<rparr>)"

definition cmd_drive_status :: "fdc_state \<Rightarrow> fdc_state" where
  "cmd_drive_status f =
    (let u = unit_of f; m = sel_media f u;
         has_disc = ((fm_image m \<noteq> None \<or> flux_backed m) \<and> 0 < fm_tracks m);
         writable = (fm_image m \<noteq> None \<and> 0 < fm_tracks m);
         st3 = (fd_cmd f C_UNIT AND 7) OR (if \<not> writable then 0x40 else 0)
           OR (if has_disc \<and> fd_motor_st f = M_READY then 0x20 else 0) OR (if fd_track_pos f u = 0 then 0x10 else 0)
     in enter_result (set_res R_ST0 st3 f))"

definition cmd_seek_to :: "u8 \<Rightarrow> fdc_state \<Rightarrow> fdc_state" where
  "cmd_seek_to target f0 =
    (let u = unit_of f0; (ready, f) = init_status u f0 in
     enter_cmd
       (if ready then
          (let tgt = (if unat target \<ge> kMaxTracks then of_nat (kMaxTracks - 1) else target) in
           if tgt = fd_track_pos f u then f\<lparr>fd_seek_done := (fd_seek_done f)(u := True)\<rparr>
           else
             (let srt = unat (drop_bit 4 (fd_srt_hut f) AND 0x0F); period = (16 - srt) * 2 * kCyclesPerMs in
              f\<lparr>fd_seeking := (fd_seeking f)(u := True), fd_seek_target := (fd_seek_target f)(u := tgt),
                fd_step_period := (fd_step_period f)(u := period),
                fd_next_step_at := (fd_next_step_at f)(u := fd_now f + period)\<rparr>))
        else f\<lparr>fd_seek_done := (fd_seek_done f)(u := True)\<rparr>))"

definition cmd_sense_interrupt :: "fdc_state \<Rightarrow> fdc_state" where
  "cmd_sense_interrupt f =
    (let st0 = fd_res f R_ST0 AND 0x48 in
     enter_result
       (if fd_seek_done f 0 then
          f\<lparr>fd_seek_done := (fd_seek_done f)(0 := False), fd_status_changed := (fd_status_changed f)(0 := False),
            fd_res := (fd_res f)(R_ST0 := st0 OR 0x20, R_ST1 := fd_track_pos f 0)\<rparr>
        else if fd_seek_done f 1 then
          f\<lparr>fd_seek_done := (fd_seek_done f)(1 := False), fd_status_changed := (fd_status_changed f)(1 := False),
            fd_res := (fd_res f)(R_ST0 := st0 OR 0x21, R_ST1 := fd_track_pos f 1)\<rparr>
        else if fd_status_changed f 0 \<or> fd_status_changed f 1 then
          (let u = (if fd_status_changed f 0 then 0 else 1);
               g = f\<lparr>fd_status_changed := (fd_status_changed f)(u := False)\<rparr>;
               st = 0xC0 OR of_nat u OR (if \<not> drive_ready g u then 0x08 else 0)
           in g\<lparr>fd_res := (fd_res g)(R_ST0 := st, R_ST1 := fd_track_pos g u)\<rparr>)
        else (set_res R_ST0 0x80 f)\<lparr>fd_res_len := 1\<rparr>))"

definition cmd_read_id :: "'d arith \<Rightarrow> fdc_state \<Rightarrow> fdc_state" where
  "cmd_read_id A f0 =
    (let u = unit_of f0; (ready, f) = init_status u f0 in
     if ready then
       (let (r, g) = head_track A u (head_of f) f in
        case r of
          Some t \<Rightarrow>
            (let i = next_idam_index g (track_at g t) in
             g\<lparr>fd_pend_idx := i, fd_pending := P_READ_ID,
               fd_due_at := fd_now g + cycles_until_cell g (fs_idam_at (ft_sec (track_at g t) ! i)), fd_phase := PH_BUSY\<rparr>)
        | None \<Rightarrow>
            (set_res R_H (of_nat (head_of g)) (set_res R_C (fd_track_pos g u) (or_res R_ST1 0x01 (or_res R_ST0 0x40 g))))
              \<lparr>fd_pending := P_FAIL, fd_due_at := fd_now g + 2 * kRevCycles, fd_phase := PH_BUSY\<rparr>)
     else enter_result (set_res R_H (of_nat (head_of f)) (set_res R_C (fd_track_pos f u) f)))"

definition fail_transfer :: "u8 \<Rightarrow> fdc_state \<Rightarrow> fdc_state" where
  "fail_transfer st1 f = enter_result (load_result_chrn (or_res R_ST1 st1 (or_res R_ST0 0x40 f)))"

definition cmd_read_data :: "'d arith \<Rightarrow> fdc_state \<Rightarrow> fdc_state" where
  "cmd_read_data A f0 =
    (let u = unit_of f0; (ready, f) = init_status u f0 in
     if \<not> ready then enter_result (load_result_chrn f)
     else
       (let (r, g) = head_track A u (head_of f) f in
        case r of None \<Rightarrow> fail_transfer 0x01 g | Some t \<Rightarrow> start_sector t True g))"

definition promote_flux_track :: "nat \<Rightarrow> fdc_state \<Rightarrow> fdc_state" where
  "promote_flux_track u f =
    (if \<not> fm_backing_flux (sel_media f u) then f
     else
       (let t = unat (fd_track_pos f u) in
        if t < kMaxTracks then upd_media u (\<lambda>m. m\<lparr>fm_track_dirty := (fm_track_dirty m)(t := True)\<rparr>) f else f))"

definition cmd_write_data :: "'d arith \<Rightarrow> fdc_state \<Rightarrow> fdc_state" where
  "cmd_write_data A f00 =
    (let f0 = f00\<lparr>fd_wr_deleted := (fd_cmd f00 C_CODE = 0x09)\<rparr>; u = unit_of f0; (ready, f) = init_status u f0 in
     if \<not> ready then enter_result (load_result_chrn f)
     else if fm_image (sel_media f u) = None then fail_transfer 0x02 f
     else
       (let (r, g) = head_track A u (head_of f) (promote_flux_track u f) in
        case r of None \<Rightarrow> fail_transfer 0x01 g | Some t \<Rightarrow> start_sector t False g))"

definition cmd_read_deleted_stub :: "fdc_state \<Rightarrow> fdc_state" where
  "cmd_read_deleted_stub f = fail_transfer 0x04 (snd (init_status (unit_of f) f))"

definition cmd_format_track :: "fdc_state \<Rightarrow> fdc_state" where
  "cmd_format_track f00 =
    (let u = unit_of f00; ids = (\<lambda>f. f\<lparr>fd_res := (fd_res f)(R_C := fd_track_pos f u, R_H := of_nat (head_of f),
           R_N := fd_cmd f 2)\<rparr>); (ready, f0) = init_status u (ids f00) in
     if \<not> ready then enter_result f0
     else
       (let f = ids f0; sc = fd_cmd f 3 in
        if fm_image (sel_media f u) = None \<or> sc = 0 \<or> unat sc > kMaxSectors \<or> fd_cmd f 2 AND 7 \<noteq> fd_cmd f 2
        then enter_result (or_res R_ST1 0x02 (or_res R_ST0 0x40 f))
        else f\<lparr>fd_fmt_pos := 0, fd_dir_to_cpu := False, fd_phase := PH_EXEC, fd_next_byte_at := fd_now f\<rparr>))"

definition lookup_cmd :: "u8 \<Rightarrow> (nat \<times> nat) option" where
  "lookup_cmd op =
    map_of [(0x03, 3, 0), (0x04, 2, 1), (0x05, 9, 7), (0x06, 9, 7), (0x07, 2, 0), (0x08, 1, 2), (0x09, 9, 7),
      (0x0A, 2, 7), (0x0C, 9, 7), (0x0D, 6, 7), (0x0F, 3, 0)] op"

definition dispatch :: "'d arith \<Rightarrow> fdc_state \<Rightarrow> fdc_state" where
  "dispatch A f =
    (let op = fd_cmd f C_CODE in
     if op = 0x07 then cmd_seek_to 0 f
     else if op = 0x0F then cmd_seek_to (fd_cmd f C_C) f
     else if op = 0x03 then cmd_specify f
     else if op = 0x04 then cmd_drive_status f
     else if op = 0x05 \<or> op = 0x09 then cmd_write_data A f
     else if op = 0x06 then cmd_read_data A f
     else if op = 0x08 then cmd_sense_interrupt f
     else if op = 0x0A then cmd_read_id A f
     else if op = 0x0C then cmd_read_deleted_stub f
     else if op = 0x0D then cmd_format_track f
     else f)"

subsection \<open>The data register\<close>

definition msr_value :: "fdc_state \<Rightarrow> u8" where
  "msr_value f =
    (let seek_bits = (if fd_seeking f 0 then 1 else 0) OR (if fd_seeking f 1 then 2 else 0) in
     (case fd_phase f of
        PH_EXEC \<Rightarrow> 0x30 OR (if fd_dir_to_cpu f then 0x40 else 0) OR (if fd_now f \<ge> fd_next_byte_at f then 0x80 else 0)
      | PH_RESULT \<Rightarrow> 0xD0
      | PH_BUSY \<Rightarrow> 0x10
      | PH_CMD \<Rightarrow> 0x80 OR (if fd_cmd_count f \<noteq> 0 then 0x10 else 0)) OR seek_bits)"

definition next_cell :: "fdc_state \<Rightarrow> fdc_state" where
  "next_cell f =
    f\<lparr>fd_data_pos := (if fd_data_pos f + 1 \<ge> fd_trk_end f then fd_trk_begin f else fd_data_pos f + 1),
      fd_next_byte_at := fd_next_byte_at f + kByteCycles, fd_remaining := fd_remaining f - 1\<rparr>"

text \<open>After a sector: the next one of a multi-sector command, or the result phase.\<close>

definition chain_sector :: "'d arith \<Rightarrow> bool \<Rightarrow> fdc_state \<Rightarrow> fdc_state" where
  "chain_sector A to_cpu f0 =
    (if fd_cmd f0 C_R \<noteq> fd_cmd f0 C_EOT then
       (let (r, g) = head_track A (unit_of f0) (head_of f0) (f0\<lparr>fd_cmd := (fd_cmd f0)(C_R := fd_cmd f0 C_R + 1)\<rparr>) in
        case r of Some t \<Rightarrow> start_sector t to_cpu g | None \<Rightarrow> finish_with_status g)
     else finish_with_status f0)"

definition mark_deleted :: "'d arith \<Rightarrow> fdc_state \<Rightarrow> fdc_state" where
  "mark_deleted A f0 =
    (let (r, g) = head_track A (unit_of f0) (head_of f0) f0; i = fd_sector_idx g - 1;
         f1 = (case r of
             None \<Rightarrow> g
           | Some t \<Rightarrow>
               (let k = track_at g t in
                if 1 \<le> fd_sector_idx g \<and> fd_sector_idx g \<le> length (ft_sec k)
                then set_track_at t (k\<lparr>ft_sec := (ft_sec k)[i := (ft_sec k ! i)\<lparr>fs_st2 := fs_st2 (ft_sec k ! i) OR 0x40\<rparr>]\<rparr>) g
                else g));
         o2 = fd_wr_st2_off f1
     in if o2 \<noteq> 0 \<and> o2 < fm_len (sel_media f1 (unit_of f1))
        then upd_media (unit_of f1) (\<lambda>m. m\<lparr>fm_image := map_option (\<lambda>p. p[o2 := p ! o2 OR 0x40]) (fm_image m),
               fm_dirty := True\<rparr>) f1
        else f1)"

definition exec_write_byte :: "'d arith \<Rightarrow> u8 \<Rightarrow> fdc_state \<Rightarrow> fdc_state" where
  "exec_write_byte A val f =
    (if fd_cmd f C_CODE = 0x0D then
       (let g = f\<lparr>fd_fmt_ids := (fd_fmt_ids f)(fd_fmt_pos f := val), fd_fmt_pos := fd_fmt_pos f + 1,
              fd_next_byte_at := fd_next_byte_at f + kByteCycles\<rparr>
        in if fd_fmt_pos g = unat (fd_cmd g 3) * 4
           then g\<lparr>fd_pending := P_FORMAT_DONE, fd_due_at := fd_now g + (kRevCycles - fd_rot g), fd_phase := PH_BUSY\<rparr>
           else g)
     else
       (let u = unit_of f;
            f1 = (if fm_image (sel_media f u) \<noteq> None \<and> fd_data_pos f < fm_len (sel_media f u)
                  then upd_media u (\<lambda>m. m\<lparr>fm_image := map_option (\<lambda>p. p[fd_data_pos f := val]) (fm_image m),
                         fm_dirty := True\<rparr>) f
                  else f);
            g = next_cell f1
        in if fd_remaining g = 0 then
             (let h = g\<lparr>fd_sector_idx := fd_sector_idx g + 1\<rparr>
              in chain_sector A False (if fd_wr_deleted h then mark_deleted A h else h))
           else g))"

definition data_write :: "'d arith \<Rightarrow> u8 \<Rightarrow> fdc_state \<Rightarrow> fdc_state" where
  "data_write A val f =
    (if fd_phase f = PH_EXEC \<and> \<not> fd_dir_to_cpu f then exec_write_byte A val f
     else if fd_phase f \<noteq> PH_CMD then f
     else
       (let start = (if fd_cmd_count f = 0 then
               (let f1 = f\<lparr>fd_mt := val AND 0x80, fd_mf := val AND 0x40, fd_sk := val AND 0x20\<rparr>; op = val AND 0x1F in
                case lookup_cmd op of
                  None \<Rightarrow> (False, enter_result ((set_res R_ST0 0x80 f1)\<lparr>fd_res_len := 1\<rparr>))
                | Some (nc, nr) \<Rightarrow>
                    (True, f1\<lparr>fd_cmd := (fd_cmd f1)(0 := op), fd_cmd_count := 1, fd_cmd_len := nc, fd_res_len := nr\<rparr>))
             else (True, f\<lparr>fd_cmd := (fd_cmd f)(fd_cmd_count f := val), fd_cmd_count := fd_cmd_count f + 1\<rparr>));
            g = snd start
        in if fst start \<and> fd_cmd_count g = fd_cmd_len g then dispatch A (g\<lparr>fd_cmd_count := 0\<rparr>) else g))"

definition exec_byte :: "fdc_state \<Rightarrow> u8" where
  "exec_byte f =
    (if fd_from_flux f then
       (if fd_data_pos f < kFluxPayload then fm_cache_pay (fd_media f) (fd_serve_rev f mod kFluxRevs) (fd_data_pos f) else 0xFF)
     else
       (case fm_image (sel_media f (unit_of f)) of
          None \<Rightarrow> 0xFF
        | Some p \<Rightarrow> if fd_data_pos f < length p then p ! fd_data_pos f else 0xFF))"

definition data_read :: "'d arith \<Rightarrow> fdc_state \<Rightarrow> u8 \<times> fdc_state" where
  "data_read A f =
    (case fd_phase f of
       PH_EXEC \<Rightarrow>
         if \<not> fd_dir_to_cpu f then (0xFF, f)
         else
           (let g = next_cell f in
            (exec_byte f,
             if fd_remaining g = 0 then
               (let h = g\<lparr>fd_sectors_read := fd_sectors_read g + 1, fd_sector_idx := fd_sector_idx g + 1\<rparr> in
                if fd_res h R_ST1 AND 0x31 \<noteq> 0 \<or> fd_res h R_ST2 AND 0x21 \<noteq> 0 then finish_with_status h
                else chain_sector A True h)
             else g))
     | PH_RESULT \<Rightarrow>
         (let g = f\<lparr>fd_res_count := fd_res_count f + 1\<rparr> in
          (fd_res f (fd_res_count f), if fd_res_count g \<ge> fd_res_len g then enter_cmd g else g))
     | _ \<Rightarrow> (0xFF, f))"

subsection \<open>The device\<close>

definition tick_platter :: "fdc_state \<Rightarrow> fdc_state" where
  "tick_platter f0 =
    (let f = f0\<lparr>fd_now := fd_now f0 + 1\<rparr> in
     if fd_motor_st f = M_OFF then f
     else
       (let f1 = (if fd_rot f + 1 \<ge> kRevCycles
                  then push_fdc_event FDC_EV_INDEX 0 (f\<lparr>fd_rot := 0, fd_rev_count := (fd_rev_count f + 1) mod 2 ^ 32\<rparr>)
                  else f\<lparr>fd_rot := fd_rot f + 1\<rparr>)
        in if fd_motor_st f1 = M_SPINUP \<and> fd_now f1 \<ge> fd_motor_ready_at f1
           then push_fdc_event FDC_EV_MOTOR_READY 0
             (f1\<lparr>fd_motor_st := M_READY, fd_status_changed := (fd_status_changed f1)(0 := True, 1 := True)\<rparr>)
           else f1))"

definition tick_seek :: "nat \<Rightarrow> fdc_state \<Rightarrow> fdc_state" where
  "tick_seek u f =
    (if fd_seeking f u \<and> fd_now f \<ge> fd_next_step_at f u then
       (let pos = (if fd_seek_target f u > fd_track_pos f u then fd_track_pos f u + 1 else fd_track_pos f u - 1);
            g = push_fdc_event FDC_EV_STEP pos (f\<lparr>fd_track_pos := (fd_track_pos f)(u := pos)\<rparr>)
        in if fd_track_pos g u = fd_seek_target g u
           then g\<lparr>fd_seeking := (fd_seeking g)(u := False), fd_seek_done := (fd_seek_done g)(u := True)\<rparr>
           else g\<lparr>fd_next_step_at := (fd_next_step_at g)(u := fd_next_step_at g u + fd_step_period g u)\<rparr>)
     else f)"

definition tick_deadlines :: "'d arith \<Rightarrow> fdc_state \<Rightarrow> fdc_state" where
  "tick_deadlines A f =
    (let f1 = (if fd_phase f = PH_BUSY \<and> fd_now f \<ge> fd_due_at f then complete_pending A f else f) in
     if fd_phase f1 = PH_EXEC \<and> fd_now f1 > fd_next_byte_at f1 + kByteCycles
     then finish_with_status (or_res R_ST1 0x10 f1) else f1)"

definition fdc_sel :: "Bus \<Rightarrow> bool" where
  "fdc_sel i \<longleftrightarrow> cpu_iorq (b_cpu i) \<and> \<not> cpu_m1 (b_cpu i) \<and> cpu_addr (b_cpu i) AND 0x0480 = 0"

definition motor_write :: "u8 \<Rightarrow> fdc_state \<Rightarrow> fdc_state" where
  "motor_write data f0 =
    (let on = (data AND 1 \<noteq> 0); f = f0\<lparr>fd_motor := on\<rparr> in
     if on \<and> fd_motor_st f = M_OFF
     then push_fdc_event FDC_EV_MOTOR_ON 0 (f\<lparr>fd_motor_st := M_SPINUP, fd_motor_ready_at := fd_now f + kSpinUpCycles\<rparr>)
     else if \<not> on \<and> fd_motor_st f \<noteq> M_OFF
     then push_fdc_event FDC_EV_MOTOR_OFF 0
       (f\<lparr>fd_motor_st := M_OFF, fd_status_changed := (fd_status_changed f)(0 := True, 1 := True)\<rparr>)
     else f)"

definition fdc_bus :: "'d arith \<Rightarrow> fdc_state \<Rightarrow> Bus \<Rightarrow> fdc_state \<times> asg list" where
  "fdc_bus A f0 i =
    (let rd = cpu_rd (b_cpu i); wr = cpu_wr (b_cpu i); addr = cpu_addr (b_cpu i); data = cpu_data (b_cpu i);
         sel = fdc_sel i; acc = (sel \<and> (rd \<or> wr)); edge = (acc \<and> \<not> fd_access_prev f0);
         f = f0\<lparr>fd_access_prev := acc\<rparr>
     in if \<not> sel then (f, [])
        else if addr AND 0x0100 = 0 then (if wr \<and> edge then motor_write data f else f, [])
        else if rd then
          (if addr AND 1 = 0 then (f, [Dr_data (msr_value f)])
           else
             (let g = (if edge then (let (v, h) = data_read A f in h\<lparr>fd_out_latch := v\<rparr>) else f)
              in (g, [Dr_data (fd_out_latch g)])))
        else (if wr \<and> addr AND 1 \<noteq> 0 \<and> edge then data_write A data f else f, []))"

definition fdc_step :: "'d arith \<Rightarrow> fdc_state \<Rightarrow> Bus \<Rightarrow> fdc_state \<times> asg list" where
  "fdc_step A f i = fdc_bus A (tick_deadlines A (tick_seek 1 (tick_seek 0 (tick_platter f)))) i"

definition fdc_tick :: "'d arith \<Rightarrow> fdc_state \<Rightarrow> Bus \<Rightarrow> Bus \<Rightarrow> fdc_state \<times> Bus" where
  "fdc_tick A f i out = (case fdc_step A f i of (g, ds) \<Rightarrow> (g, drive ds out))"

definition fdc_dev_reset :: "fdc_state \<Rightarrow> fdc_state" where
  "fdc_dev_reset f = fdc_init\<lparr>fd_track_pos := fd_track_pos f, fd_media := fd_media f, fd_media1 := fd_media1 f,
     fd_ev := fd_ev f\<rparr>"

text \<open>The blob is the prefix of the record up to the media, with its version byte.\<close>

definition fdc_save :: "fdc_state \<Rightarrow> u8 \<times> fdc_state" where
  "fdc_save f = (2, f\<lparr>fd_media := empty_media, fd_media1 := empty_media, fd_ev := (\<lambda>_. no_event),
     fd_ev_head := 0, fd_ev_count := 0\<rparr>)"

definition fdc_load :: "fdc_state \<Rightarrow> u8 \<times> fdc_state \<Rightarrow> fdc_state" where
  "fdc_load f b =
    (if fst b = 2 then (snd b)\<lparr>fd_media := fd_media f, fd_media1 := fd_media1 f, fd_ev := fd_ev f,
        fd_ev_head := fd_ev_head f, fd_ev_count := fd_ev_count f\<rparr> else f)"

subsection \<open>The host interface\<close>

definition fdc_poke_mechanics :: "fdc_state \<Rightarrow> u8 \<Rightarrow> u8 \<Rightarrow> u8 \<Rightarrow> fdc_state" where
  "fdc_poke_mechanics f motor a b =
    f\<lparr>fd_motor := (motor \<noteq> 0), fd_track_pos := (fd_track_pos f)(0 := a, 1 := b)\<rparr>"

definition disc_changed :: "nat \<Rightarrow> fdc_state \<Rightarrow> fdc_state" where
  "disc_changed u f = f\<lparr>fd_sector_idx := 0, fd_status_changed := (fd_status_changed f)(u := True)\<rparr>"

definition fdc_attach_disk :: "fdc_state \<Rightarrow> u8 list option \<Rightarrow> u8 \<Rightarrow> bool \<times> fdc_state" where
  "fdc_attach_disk f dsk unit =
    (let u = (if unit \<noteq> 0 then 1 else 0); r = parse_dsk dsk
     in (fst r, disc_changed u (upd_media u (\<lambda>_. snd r) f)))"

definition fdc_eject_disk :: "fdc_state \<Rightarrow> u8 \<Rightarrow> fdc_state" where
  "fdc_eject_disk f unit =
    (let u = (if unit \<noteq> 0 then 1 else 0) in disc_changed u (upd_media u (\<lambda>_. empty_media) f))"

definition fdc_attach_flux :: "fdc_state \<Rightarrow> u8 list option \<Rightarrow> bool \<times> fdc_state" where
  "fdc_attach_flux f scp =
    (let cyls = flux_scp_cylinders scp; revs = flux_scp_revolutions scp in
     if cyls = 0 \<or> revs = 0 then (False, f)
     else (True, disc_changed 0 (f\<lparr>fd_media := empty_media\<lparr>fm_backing_flux := True, fm_scp := scp,
       fm_scp_revs := min revs 255, fm_tracks := min cyls kMaxTracks, fm_sides := 1\<rparr>\<rparr>)))"

definition fdc_attach_flux_writable :: "fdc_state \<Rightarrow> u8 list option \<Rightarrow> u8 list option \<Rightarrow> bool \<times> fdc_state" where
  "fdc_attach_flux_writable f scp dsk =
    (let revs = flux_scp_revolutions scp; r = parse_dsk dsk in
     if \<not> fst r then (False, f\<lparr>fd_media := snd r\<rparr>)
     else (True, disc_changed 0 (f\<lparr>fd_media := (snd r)\<lparr>fm_backing_flux := True, fm_scp := scp,
       fm_scp_revs := min (if revs > 0 then revs else 1) 255\<rparr>\<rparr>)))"

definition fdc_media_dirty_unit :: "fdc_state \<Rightarrow> u8 \<Rightarrow> bool" where
  "fdc_media_dirty_unit f unit = fm_dirty (sel_media f (if unit \<noteq> 0 then 1 else 0))"

definition fdc_media_mark_clean_unit :: "fdc_state \<Rightarrow> u8 \<Rightarrow> fdc_state" where
  "fdc_media_mark_clean_unit f unit = upd_media (if unit \<noteq> 0 then 1 else 0) (\<lambda>m. m\<lparr>fm_dirty := False\<rparr>) f"

definition fdc_media_track_dirty :: "fdc_state \<Rightarrow> bool list" where
  "fdc_media_track_dirty f =
    (let m = fd_media f in
     if \<not> fm_backing_flux m \<or> fm_image m = None then [] else map (fm_track_dirty m) [0..<fm_tracks m])"

definition pop_fdc_event :: "fdc_state \<Rightarrow> (FdcEvent \<times> fdc_state) option" where
  "pop_fdc_event f =
    (if fd_ev_count f > 0
     then Some (fd_ev f (fd_ev_head f), f\<lparr>fd_ev_head := (fd_ev_head f + 1) mod 64, fd_ev_count := fd_ev_count f - 1\<rparr>)
     else None)"

primrec fdc_drain_events :: "fdc_state \<Rightarrow> nat \<Rightarrow> FdcEvent list \<times> fdc_state" where
  "fdc_drain_events f 0 = ([], f)"
| "fdc_drain_events f (Suc n) =
    (case pop_fdc_event f of None \<Rightarrow> ([], f)
     | Some (e, g) \<Rightarrow> (case fdc_drain_events g n of (es, h) \<Rightarrow> (e # es, h)))"

definition fdc_quiet :: "fdc_state \<Rightarrow> bool" where
  "fdc_quiet f \<longleftrightarrow> fd_motor_st f = M_OFF \<and> \<not> fd_seeking f 0 \<and> \<not> fd_seeking f 1 \<and>
     (fd_phase f = PH_CMD \<or> fd_phase f = PH_RESULT) \<and> \<not> fd_access_prev f"

definition fdc_advance :: "fdc_state \<Rightarrow> nat \<Rightarrow> fdc_state" where
  "fdc_advance f skipped_cycles = f\<lparr>fd_now := fd_now f + skipped_cycles\<rparr>"

subsection \<open>Interfaces provided\<close>

definition fdc_ring :: "fdc_state \<Rightarrow> FdcEvent list" where
  "fdc_ring f = ring_list (fd_ev f) (fd_ev_head f) (fd_ev_count f)"

definition fdc_ring_ok :: "fdc_state \<Rightarrow> bool" where
  "fdc_ring_ok f \<longleftrightarrow> fd_ev_head f < 64 \<and> fd_ev_count f \<le> 64"

lemma length_fdc_ring [simp]: "length (fdc_ring f) = fd_ev_count f"
  by (simp add: fdc_ring_def)

lemma store_fdc_event_ring:
  assumes "fdc_ring_ok f"
  shows "fdc_ring (store_fdc_event f e) = (if length (fdc_ring f) = 64 then tl (fdc_ring f) else fdc_ring f) @ [e]"
proof (cases "fd_ev_count f = 64")
  case True
  then show ?thesis
    using ring_list_oldest [of 64 "fd_ev f" "fd_ev_head f"]
      ring_list_store [of 63 "fd_ev f" "(fd_ev_head f + 1) mod 64" e]
    by (simp add: fdc_ring_def store_fdc_event_def)
next
  case False
  with assms have "fd_ev_count f < 64" by (simp add: fdc_ring_ok_def)
  from ring_list_store [OF this, of "fd_ev f" "fd_ev_head f" e] False show ?thesis
    by (simp add: fdc_ring_def store_fdc_event_def Let_def)
qed

lemma store_fdc_event_ok: "fdc_ring_ok f \<Longrightarrow> fdc_ring_ok (store_fdc_event f e)"
  by (simp add: fdc_ring_ok_def store_fdc_event_def Let_def)

lemma pop_fdc_event_ring:
  assumes "fdc_ring_ok f"
  shows "fdc_ring f = [] \<Longrightarrow> pop_fdc_event f = None"
    "fdc_ring f = e # es \<Longrightarrow> \<exists>g. pop_fdc_event f = Some (e, g) \<and> fdc_ring g = es \<and> fdc_ring_ok g"
proof -
  show "fdc_ring f = [] \<Longrightarrow> pop_fdc_event f = None"
    using length_fdc_ring [of f] by (simp add: pop_fdc_event_def)
  assume r: "fdc_ring f = e # es"
  then have n: "0 < fd_ev_count f" using length_fdc_ring [of f] by simp
  then have "fd_ev_count f - Suc 0 \<le> 64" using assms by (simp add: fdc_ring_ok_def le_diff_conv)
  with ring_list_oldest [OF n, of "fd_ev f" "fd_ev_head f"] r n assms
  show "\<exists>g. pop_fdc_event f = Some (e, g) \<and> fdc_ring g = es \<and> fdc_ring_ok g"
    by (simp add: pop_fdc_event_def fdc_ring_ok_def fdc_ring_def)
qed

interpretation fdc_events: event_ring store_fdc_event pop_fdc_event fdc_ring 64 fdc_ring_ok
  by unfold_locales
    (simp_all add: store_fdc_event_ring pop_fdc_event_ring store_fdc_event_ok, simp add: fdc_ring_ok_def)

interpretation fdc_drv: bus_driver "fdc_tick A" "\<lambda>f i. fst (fdc_step A f i)" "\<lambda>f i. snd (fdc_step A f i)" for A
  by unfold_locales (simp add: fdc_tick_def split_def)

definition fdc_wiring :: "fdc_state \<Rightarrow> fdc_media \<times> fdc_media \<times> (nat \<Rightarrow> FdcEvent) \<times> nat \<times> nat" where
  "fdc_wiring f = (fd_media f, fd_media1 f, fd_ev f, fd_ev_head f, fd_ev_count f)"

interpretation fdc_blob: state_blob fdc_save fdc_load "\<lambda>f. snd (fdc_save f)" fdc_wiring
  by unfold_locales (simp_all add: fdc_save_def fdc_load_def fdc_wiring_def)

text \<open>An unselected cycle of a quiet controller only counts.\<close>

lemma quiet_mech:
  assumes "fdc_quiet f"
  shows "tick_deadlines A (tick_seek 1 (tick_seek 0 (tick_platter f))) = f\<lparr>fd_now := fd_now f + 1\<rparr>"
  using assms by (auto simp: fdc_quiet_def tick_platter_def tick_seek_def tick_deadlines_def Let_def)

lemma quiet_step:
  assumes "fdc_quiet f" "\<not> fdc_sel i"
  shows "fdc_step A f i = (fdc_advance f 1, [])"
  unfolding fdc_step_def quiet_mech [OF assms(1)]
  using assms by (cases f) (simp add: fdc_bus_def fdc_advance_def Let_def fdc_quiet_def)

lemma quiet_advance [simp]: "fdc_quiet (fdc_advance f n) = fdc_quiet f"
  by (simp add: fdc_quiet_def fdc_advance_def)

lemma rest_unselected [simp]: "\<not> fdc_sel bus_resting"
  by (simp add: fdc_sel_def bus_resting_def)

interpretation fdc_wake: catch_up "\<lambda>f. fst (fdc_step A f bus_resting)" fdc_advance fdc_quiet for A
  by unfold_locales (simp_all add: quiet_step, simp_all add: fdc_advance_def)

subsection \<open>A rejected disc\<close>

text \<open>The tracks a rejected image leaves in the table are out of reach: the drive is not ready and no head finds one.\<close>

lemma media_upd [simp]: "u \<le> 1 \<Longrightarrow> sel_media (disc_changed u (upd_media u g f)) u = g (sel_media f u)"
  by (simp add: disc_changed_def sel_media_def upd_media_def)

lemma rejected_disc_unread:
  assumes "fdc_attach_disk f dsk unit = (False, g)"
  defines "u \<equiv> (if unit \<noteq> 0 then 1 else 0)"
  shows "\<not> drive_ready g u" "head_track A u h g = (None, g)"
proof -
  obtain ok m where om: "parse_dsk dsk = (ok, m)" by (cases "parse_dsk dsk")
  have "fdc_attach_disk f dsk unit = (ok, disc_changed u (upd_media u (\<lambda>_. m) f))"
    unfolding fdc_attach_disk_def Let_def om u_def by (simp only: fst_conv snd_conv)
  with assms(1) have g: "\<not> ok" "g = disc_changed u (upd_media u (\<lambda>_. m) f)"
    by (simp_all only: prod.inject simp_thms)
  have "m = empty_media\<lparr>fm_track := fm_track m\<rparr>" using om g(1) by (intro parse_dsk_rejects) simp
  then have m: "fm_image m = None" "fm_tracks m = 0" "\<not> fm_backing_flux m"
    by (metis empty_media_def fdc_media.select_convs fdc_media.update_convs(5))+
  have "u \<le> 1" by (simp add: u_def)
  then have "sel_media g u = m" by (simp add: g(2))
  with m \<open>u \<le> 1\<close> show "\<not> drive_ready g u" "head_track A u h g = (None, g)"
    by (simp_all add: drive_ready_def head_track_def serve_from_flux_def Let_def)
qed

end
