(* ===== verification/Fdc_Transfer.thy ===== *)
theory Fdc_Transfer
  imports Complex_Main Fdc
begin

text \<open>
  Sector transfers over the bus: what the mechanics leave alone while a command runs, one byte in or out of
  the data register with the strobes held for any number of cycles, whole commands, and the round trip of a
  sector written and read back.
\<close>

subsection \<open>The mechanics and the rest\<close>

text \<open>\<open>core f\<close> blanks the clock, the rotation, the event ring and the bus edge detector: what is left
  changes only through accesses and deadlines.\<close>

definition core :: "fdc_state \<Rightarrow> fdc_state" where
  "core f = f\<lparr>fd_now := 0, fd_rot := 0, fd_rev_count := 0, fd_out_latch := 0, fd_access_prev := False,
     fd_ev := (\<lambda>_. no_event), fd_ev_head := 0, fd_ev_count := 0\<rparr>"

definition turning :: "fdc_state \<Rightarrow> bool" where
  "turning f \<longleftrightarrow> fd_motor_st f = M_READY \<and> \<not> fd_seeking f 0 \<and> \<not> fd_seeking f 1 \<and> fd_rot f < kRevCycles"

definition mech :: "'d arith \<Rightarrow> fdc_state \<Rightarrow> fdc_state" where
  "mech A f = tick_deadlines A (tick_seek 1 (tick_seek 0 (tick_platter f)))"

lemma core_sel [simp]:
  "fd_phase (core f) = fd_phase f" "fd_cmd (core f) = fd_cmd f" "fd_cmd_len (core f) = fd_cmd_len f"
  "fd_cmd_count (core f) = fd_cmd_count f" "fd_res (core f) = fd_res f" "fd_res_len (core f) = fd_res_len f"
  "fd_res_count (core f) = fd_res_count f" "fd_dir_to_cpu (core f) = fd_dir_to_cpu f"
  "fd_track_pos (core f) = fd_track_pos f" "fd_sector_idx (core f) = fd_sector_idx f"
  "fd_data_pos (core f) = fd_data_pos f" "fd_remaining (core f) = fd_remaining f"
  "fd_trk_begin (core f) = fd_trk_begin f" "fd_trk_end (core f) = fd_trk_end f"
  "fd_from_flux (core f) = fd_from_flux f" "fd_serve_rev (core f) = fd_serve_rev f"
  "fd_motor_st (core f) = fd_motor_st f" "fd_seeking (core f) = fd_seeking f"
  "fd_pending (core f) = fd_pending f" "fd_due_at (core f) = fd_due_at f"
  "fd_next_byte_at (core f) = fd_next_byte_at f" "fd_wr_deleted (core f) = fd_wr_deleted f"
  "fd_media (core f) = fd_media f" "fd_media1 (core f) = fd_media1 f"
  by (simp_all add: core_def)

lemma core_core [simp]: "core (core f) = core f"
  by (simp add: core_def)

lemma core_upd [simp]:
  "core (f\<lparr>fd_access_prev := b\<rparr>) = core f" "core (f\<lparr>fd_out_latch := v\<rparr>) = core f"
  "core (f\<lparr>fd_now := n\<rparr>) = core f" "core (f\<lparr>fd_rot := n\<rparr>) = core f"
  "core (f\<lparr>fd_rev_count := n\<rparr>) = core f"
  by (cases f, simp add: core_def)+

lemma core_push [simp]: "core (push_fdc_event ty a f) = core f"
  by (cases f) (simp add: push_fdc_event_def store_fdc_event_def core_def Let_def)

lemma push_frame [simp]:
  "fd_now (push_fdc_event ty a f) = fd_now f" "fd_rot (push_fdc_event ty a f) = fd_rot f"
  "fd_motor_st (push_fdc_event ty a f) = fd_motor_st f" "fd_access_prev (push_fdc_event ty a f) = fd_access_prev f"
  "fd_out_latch (push_fdc_event ty a f) = fd_out_latch f" "fd_seeking (push_fdc_event ty a f) = fd_seeking f"
  "fd_phase (push_fdc_event ty a f) = fd_phase f" "fd_next_byte_at (push_fdc_event ty a f) = fd_next_byte_at f"
  "fd_due_at (push_fdc_event ty a f) = fd_due_at f"
  by (simp_all add: push_fdc_event_def store_fdc_event_def Let_def)

text \<open>\<open>later f n g\<close>: the controller \<open>n\<close> cycles on, nothing but the mechanics having moved.\<close>

definition later :: "fdc_state \<Rightarrow> nat \<Rightarrow> fdc_state \<Rightarrow> bool" where
  "later f n g \<longleftrightarrow> core g = core f \<and> fd_now g = fd_now f + n \<and> turning g"

lemma platter_later:
  assumes "turning f"
  shows "later f 1 (tick_platter f)"
    "fd_access_prev (tick_platter f) = fd_access_prev f" "fd_out_latch (tick_platter f) = fd_out_latch f"
  using assms by (simp_all add: tick_platter_def later_def turning_def kRevCycles_def Let_def)

text \<open>No deadline falls due on the next cycle.\<close>

definition calm :: "fdc_state \<Rightarrow> nat \<Rightarrow> bool" where
  "calm f n \<longleftrightarrow> (fd_phase f = PH_BUSY \<longrightarrow> fd_now f + n < fd_due_at f) \<and>
     (fd_phase f = PH_EXEC \<longrightarrow> fd_now f + n \<le> fd_next_byte_at f + kByteCycles)"

lemma no_seek: "turning f \<Longrightarrow> tick_seek 1 (tick_seek 0 f) = f"
  by (simp add: tick_seek_def turning_def)

lemma later_turning: "later f n g \<Longrightarrow> turning g"
  by (simp add: later_def)

lemma core_fields:
  assumes "core g = core f"
  shows "fd_phase g = fd_phase f" "fd_due_at g = fd_due_at f" "fd_next_byte_at g = fd_next_byte_at f"
    "fd_pending g = fd_pending f" "fd_dir_to_cpu g = fd_dir_to_cpu f" "fd_remaining g = fd_remaining f"
    "fd_cmd g = fd_cmd f" "fd_res g = fd_res f" "fd_cmd_count g = fd_cmd_count f"
  using assms core_sel by metis+

lemma mech_calm:
  assumes "turning f" "calm f 1"
  shows "later f 1 (mech A f)" "fd_access_prev (mech A f) = fd_access_prev f"
    "fd_out_latch (mech A f) = fd_out_latch f"
proof -
  let ?g = "tick_platter f"
  have l: "later f 1 ?g" by (rule platter_later) (rule assms)
  then have c: "core ?g = core f" "fd_now ?g = fd_now f + 1" by (simp_all add: later_def)
  have "mech A f = ?g"
    using assms(2) core_fields [OF c(1)] c(2)
    unfolding mech_def no_seek [OF later_turning [OF l]] by (auto simp: tick_deadlines_def calm_def Let_def)
  then show "later f 1 (mech A f)" "fd_access_prev (mech A f) = fd_access_prev f"
    "fd_out_latch (mech A f) = fd_out_latch f"
    using platter_later [OF assms(1)] by simp_all
qed

text \<open>The cycle on which the data field arrives.\<close>

definition arrived :: "nat \<Rightarrow> fdc_state \<Rightarrow> fdc_state" where
  "arrived t f = f\<lparr>fd_pending := P_NONE, fd_phase := PH_EXEC, fd_next_byte_at := t\<rparr>"

lemma core_arrived: "core (arrived t f) = arrived t (core f)"
  by (cases f) (simp add: core_def arrived_def)

lemma mech_due:
  assumes "turning f" "fd_phase f = PH_BUSY" "fd_pending f = P_DATA_START" "fd_due_at f = fd_now f + 1"
  shows "later (arrived (fd_due_at f) f) 1 (mech A f)" "fd_access_prev (mech A f) = fd_access_prev f"
    "fd_out_latch (mech A f) = fd_out_latch f"
proof -
  let ?g = "tick_platter f"
  have l: "later f 1 ?g" by (rule platter_later) (rule assms)
  then have c: "core ?g = core f" "fd_now ?g = fd_now f + 1" by (simp_all add: later_def)
  have g: "fd_phase ?g = PH_BUSY" "fd_due_at ?g = fd_now ?g" "fd_pending ?g = P_DATA_START"
    using core_fields [OF c(1)] c(2) assms by simp_all
  have m: "mech A f = arrived (fd_due_at f) ?g"
    using g c(2) assms(4) unfolding mech_def no_seek [OF later_turning [OF l]]
    by (simp add: tick_deadlines_def complete_pending_def arrived_def Let_def)
  show "later (arrived (fd_due_at f) f) 1 (mech A f)"
    using l by (simp add: m later_def core_arrived) (simp add: arrived_def turning_def)
  show "fd_access_prev (mech A f) = fd_access_prev f" "fd_out_latch (mech A f) = fd_out_latch f"
    using platter_later [OF assms(1)] by (simp_all add: m) (simp_all add: arrived_def)
qed

subsection \<open>Accesses on the bus\<close>

definition fdc_read_bus :: Bus where
  "fdc_read_bus = bus_resting\<lparr>b_cpu := (b_cpu bus_resting)\<lparr>cpu_addr := 0xFB7F, cpu_iorq := True, cpu_rd := True\<rparr>\<rparr>"

lemma fdc_bus_simps [simp]:
  "fdc_sel fdc_read_bus" "cpu_rd (b_cpu fdc_read_bus)" "cpu_addr (b_cpu fdc_read_bus) = 0xFB7F"
  "fdc_sel (io_write_bus 0xFB7F v)"
  by (simp_all add: fdc_read_bus_def fdc_sel_def bus_resting_def)

text \<open>The strobes held for \<open>Suc n\<close> cycles, then one resting cycle.\<close>

definition fdc_cycle :: "'d arith \<Rightarrow> Bus \<Rightarrow> fdc_state \<Rightarrow> fdc_state" where
  "fdc_cycle A i f = fst (fdc_step A f i)"

definition fdc_rest :: "'d arith \<Rightarrow> nat \<Rightarrow> fdc_state \<Rightarrow> fdc_state" where
  "fdc_rest A n = fdc_cycle A bus_resting ^^ n"

definition fdc_out :: "'d arith \<Rightarrow> nat \<Rightarrow> u8 \<Rightarrow> fdc_state \<Rightarrow> fdc_state" where
  "fdc_out A n v f = fdc_cycle A bus_resting ((fdc_cycle A (io_write_bus 0xFB7F v) ^^ Suc n) f)"

definition fdc_in :: "'d arith \<Rightarrow> nat \<Rightarrow> fdc_state \<Rightarrow> asg list \<times> fdc_state" where
  "fdc_in A n f =
    (case fdc_step A ((fdc_cycle A fdc_read_bus ^^ n) f) fdc_read_bus of (g, ds) \<Rightarrow> (ds, fdc_cycle A bus_resting g))"

definition fdc_outs :: "'d arith \<Rightarrow> nat \<Rightarrow> u8 list \<Rightarrow> fdc_state \<Rightarrow> fdc_state" where
  "fdc_outs A n vs = fold (fdc_out A n) vs"

primrec fdc_ins :: "'d arith \<Rightarrow> nat \<Rightarrow> nat \<Rightarrow> fdc_state \<Rightarrow> asg list list \<times> fdc_state" where
  "fdc_ins A n 0 f = ([], f)"
| "fdc_ins A n (Suc k) f =
    (case fdc_in A n f of (ds, g) \<Rightarrow> (case fdc_ins A n k g of (dss, h) \<Rightarrow> (ds # dss, h)))"

lemma bits_FB7F: "(0xFB7F :: u16) AND 0x0100 \<noteq> 0" "(0xFB7F :: u16) AND 1 \<noteq> 0" "(0xFB7F :: u16) AND 0x0480 = 0"
  by simp_all

lemma step_mech: "fdc_step A f i = fdc_bus A (mech A f) i"
  by (simp add: fdc_step_def mech_def)

lemma cycle_rest: "fdc_cycle A bus_resting f = (mech A f)\<lparr>fd_access_prev := False\<rparr>"
  by (simp add: fdc_cycle_def step_mech fdc_bus_def Let_def)

lemma cycle_write_edge:
  "\<not> fd_access_prev (mech A f) \<Longrightarrow>
    fdc_cycle A (io_write_bus 0xFB7F v) f = data_write A v ((mech A f)\<lparr>fd_access_prev := True\<rparr>)"
  by (simp add: fdc_cycle_def step_mech fdc_bus_def Let_def)

lemma cycle_write_held:
  "fd_access_prev (mech A f) \<Longrightarrow>
    fdc_cycle A (io_write_bus 0xFB7F v) f = (mech A f)\<lparr>fd_access_prev := True\<rparr>"
  by (simp add: fdc_cycle_def step_mech fdc_bus_def Let_def)

lemma step_read_edge:
  "\<not> fd_access_prev (mech A f) \<Longrightarrow> fdc_step A f fdc_read_bus =
    (case data_read A ((mech A f)\<lparr>fd_access_prev := True\<rparr>) of (v, h) \<Rightarrow> (h\<lparr>fd_out_latch := v\<rparr>, [Dr_data v]))"
  by (simp add: step_mech fdc_bus_def Let_def split: prod.split)

lemma step_read_held:
  "fd_access_prev (mech A f) \<Longrightarrow>
    fdc_step A f fdc_read_bus = ((mech A f)\<lparr>fd_access_prev := True\<rparr>, [Dr_data (fd_out_latch (mech A f))])"
  by (simp add: step_mech fdc_bus_def Let_def)

subsection \<open>Runs of cycles\<close>

lemma later_trans: "later f m g \<Longrightarrow> later g n h \<Longrightarrow> later f (m + n) h"
  by (simp add: later_def)

lemma later_prev [simp]: "later f n (g\<lparr>fd_access_prev := b\<rparr>) = later f n g"
  by (simp add: later_def turning_def)

lemma later_refl: "turning f \<Longrightarrow> later f 0 f"
  by (simp add: later_def)

lemma later_arrived: "later f n g \<Longrightarrow> later (arrived t f) n (arrived t g)"
  by (simp add: later_def core_arrived) (simp add: arrived_def turning_def)

lemma calm_later: "later f m g \<Longrightarrow> calm f (m + n) \<Longrightarrow> calm g n"
  by (auto simp: calm_def later_def dest: core_fields)

lemma calm_mono: "calm f n \<Longrightarrow> m \<le> n \<Longrightarrow> calm f m"
  by (auto simp: calm_def)

text \<open>\<open>coasting\<close>: a cycle that only runs the mechanics and sets the edge detector to \<open>b\<close>; a held
  strobe does so once the detector is set.\<close>

definition coasting :: "'d arith \<Rightarrow> bool \<Rightarrow> (fdc_state \<Rightarrow> fdc_state) \<Rightarrow> bool" where
  "coasting A b cyc \<longleftrightarrow>
    (\<forall>f. (b \<longrightarrow> fd_access_prev (mech A f)) \<longrightarrow> cyc f = (mech A f)\<lparr>fd_access_prev := b\<rparr>)"

lemma coasting_rest: "coasting A False (fdc_cycle A bus_resting)"
  by (simp add: coasting_def cycle_rest)

lemma coasting_write: "coasting A True (fdc_cycle A (io_write_bus 0xFB7F v))"
  by (simp add: coasting_def cycle_write_held)

lemma coasting_read: "coasting A True (fdc_cycle A fdc_read_bus)"
  by (simp add: coasting_def fdc_cycle_def step_read_held)

lemma coast:
  assumes "coasting A b cyc" "turning f" "b \<longrightarrow> fd_access_prev f" "calm f n"
  shows "later f n ((cyc ^^ n) f) \<and> fd_access_prev ((cyc ^^ n) f) = (if n = 0 then fd_access_prev f else b) \<and>
    fd_out_latch ((cyc ^^ n) f) = fd_out_latch f"
  using assms(4)
proof (induction n)
  case 0
  show ?case using assms by (simp add: later_refl)
next
  case (Suc n)
  let ?g = "(cyc ^^ n) f"
  have g: "later f n ?g" "b \<longrightarrow> fd_access_prev ?g" "fd_out_latch ?g = fd_out_latch f"
    using Suc.IH calm_mono [OF Suc.prems, of n] assms(3) by simp_all
  note m = mech_calm [OF later_turning [OF g(1)] calm_later [OF g(1), of 1], of A]
  have c: "calm f (n + 1)" using Suc.prems by simp
  with m g assms(1) have "cyc ?g = (mech A ?g)\<lparr>fd_access_prev := b\<rparr>" by (simp add: coasting_def)
  with m c g later_trans [OF g(1) m(1)] show ?case by simp
qed

lemma coast_due:
  assumes "coasting A b cyc" "turning f" "b \<longrightarrow> fd_access_prev f"
    and "fd_phase f = PH_BUSY" "fd_pending f = P_DATA_START"
    and "fd_now f < fd_due_at f" "fd_due_at f \<le> fd_now f + n" "fd_now f + n \<le> fd_due_at f + kByteCycles"
  shows "later (arrived (fd_due_at f) f) n ((cyc ^^ n) f) \<and> fd_access_prev ((cyc ^^ n) f) = b"
proof -
  define a where "a = fd_due_at f - fd_now f - 1"
  define c where "c = fd_now f + n - fd_due_at f"
  have n: "n = c + Suc a" using assms(6,7) by (simp add: a_def c_def)
  let ?g = "(cyc ^^ a) f"
  have g: "later f a ?g" "b \<longrightarrow> fd_access_prev ?g"
    using coast [OF assms(1-3), of a] assms(3,4,6) by (simp_all add: calm_def a_def)
  then have s: "fd_phase ?g = PH_BUSY" "fd_pending ?g = P_DATA_START" "fd_due_at ?g = fd_now ?g + 1"
    "fd_due_at ?g = fd_due_at f"
    using assms(4-6) by (auto simp: later_def a_def dest: core_fields)
  note m = mech_due [OF later_turning [OF g(1)] s(1-3), of A]
  let ?h = "(mech A ?g)\<lparr>fd_access_prev := b\<rparr>"
  have h: "cyc ?g = ?h" using m g assms(1) by (simp add: coasting_def)
  have "later (arrived (fd_due_at f) ?g) 1 ?h"
    using m(1) unfolding s(4) later_prev .
  then have lh: "later (arrived (fd_due_at f) f) (a + 1) ?h"
    by (rule later_trans [OF later_arrived [OF g(1)]])
  then have "core ?h = core (arrived (fd_due_at f) f)" "fd_now ?h = fd_due_at f"
    using assms(6) by (simp_all add: later_def a_def arrived_def)
  with core_fields(1,3) [OF this(1)] have "calm ?h c"
    using assms(7,8) by (simp add: calm_def c_def arrived_def)
  note co = coast [OF assms(1) later_turning [OF lh] _ this]
  have "(cyc ^^ n) f = (cyc ^^ c) ?h"
    by (simp only: n funpow_add funpow.simps comp_apply h)
  then show ?thesis
    using later_trans [OF lh, of c] co by (simp add: n add.commute split: if_splits)
qed

text \<open>One access: the byte moves on its first cycle.\<close>

lemma out_first:
  assumes "turning f" "\<not> fd_access_prev f" "calm f 1"
  obtains f1 where "later f 1 f1" "fd_access_prev f1"
    "fdc_cycle A (io_write_bus 0xFB7F v) f = data_write A v f1"
proof
  let ?f1 = "(mech A f)\<lparr>fd_access_prev := True\<rparr>"
  show "later f 1 ?f1" using mech_calm(1) [OF assms(1,3)] by simp
  show "fd_access_prev ?f1" by simp
  show "fdc_cycle A (io_write_bus 0xFB7F v) f = data_write A v ?f1"
    using mech_calm(2) [OF assms(1,3), of A] assms(2) by (simp add: cycle_write_edge)
qed

lemma rest_after:
  assumes "turning f" "calm f 1"
  shows "later f 1 (fdc_cycle A bus_resting f)" "\<not> fd_access_prev (fdc_cycle A bus_resting f)"
  using mech_calm(1) [OF assms] by (simp_all add: cycle_rest)

lemma out_byte:
  assumes "turning f" "\<not> fd_access_prev f" "calm f 1"
    and "\<And>f1. later f 1 f1 \<Longrightarrow> fd_access_prev f1 \<Longrightarrow>
      turning (data_write A v f1) \<and> fd_access_prev (data_write A v f1) \<and> calm (data_write A v f1) (n + 1)"
  obtains f1 where "later f 1 f1" "later (data_write A v f1) (n + 1) (fdc_out A n v f)"
    "\<not> fd_access_prev (fdc_out A n v f)"
proof -
  obtain f1 where f1: "later f 1 f1" "fd_access_prev f1"
    "fdc_cycle A (io_write_bus 0xFB7F v) f = data_write A v f1"
    using out_first [OF assms(1-3)] .
  let ?g = "data_write A v f1" let ?h = "(fdc_cycle A (io_write_bus 0xFB7F v) ^^ n) ?g"
  have g: "turning ?g" "fd_access_prev ?g" "calm ?g (n + 1)" using assms(4) [OF f1(1,2)] by blast+
  have h: "later ?g n ?h"
    using coast [OF coasting_write [of A v] g(1), where n = n] g(2) calm_mono [OF g(3), of n] by simp
  have "fdc_out A n v f = fdc_cycle A bus_resting ?h"
    by (simp add: fdc_out_def funpow_swap1 f1(3))
  note r = rest_after [OF later_turning [OF h] calm_later [OF h g(3)], of A]
  from that [OF f1(1)] later_trans [OF h r(1)] r(2) \<open>fdc_out A n v f = _\<close> show ?thesis by simp
qed

lemma in_byte:
  assumes "turning f" "\<not> fd_access_prev f" "calm f 1"
    and "\<And>f1. later f 1 f1 \<Longrightarrow> fd_access_prev f1 \<Longrightarrow>
      turning (snd (data_read A f1)) \<and> fd_access_prev (snd (data_read A f1)) \<and> calm (snd (data_read A f1)) (n + 1)"
  obtains f1 where "later f 1 f1" "fst (fdc_in A n f) = [Dr_data (fst (data_read A f1))]"
    "later (snd (data_read A f1)) (n + 1) (snd (fdc_in A n f))" "\<not> fd_access_prev (snd (fdc_in A n f))"
proof -
  let ?f1 = "(mech A f)\<lparr>fd_access_prev := True\<rparr>"
  have f1: "later f 1 ?f1" using mech_calm(1) [OF assms(1,3)] by simp
  obtain v h where vh: "data_read A ?f1 = (v, h)" by (cases "data_read A ?f1")
  let ?g = "h\<lparr>fd_out_latch := v\<rparr>"
  have g: "turning ?g" "fd_access_prev ?g" "calm ?g (n + 1)"
    using assms(4) [OF f1] vh by (simp_all add: turning_def calm_def)
  have first: "fdc_step A f fdc_read_bus = (?g, [Dr_data v])"
    using step_read_edge [of A f] mech_calm(2) [OF assms(1,3), of A] assms(2) vh by simp
  have run: "later ?g k ((fdc_cycle A fdc_read_bus ^^ k) ?g)"
    "fd_access_prev ((fdc_cycle A fdc_read_bus ^^ k) ?g)"
    "fd_out_latch ((fdc_cycle A fdc_read_bus ^^ k) ?g) = v" if "k \<le> n + 1" for k
    using coast [OF coasting_read [of A] g(1), where n = k] g(2) calm_mono [OF g(3) that] by simp_all
  have last: "fdc_step A ((fdc_cycle A fdc_read_bus ^^ n) f) fdc_read_bus =
      ((fdc_cycle A fdc_read_bus ^^ n) ?g, [Dr_data v])"
  proof (cases n)
    case 0
    then show ?thesis using first by simp
  next
    case (Suc k)
    let ?s = "(fdc_cycle A fdc_read_bus ^^ k) ?g"
    have s: "(fdc_cycle A fdc_read_bus ^^ n) f = ?s"
      by (simp add: Suc funpow_swap1 fdc_cycle_def first)
    have "calm ?s 1" using calm_later [OF run(1), of k 1] calm_mono [OF g(3), of "k + 1"] Suc by simp
    with run [of k] Suc have m: "fd_access_prev (mech A ?s)" "fd_out_latch (mech A ?s) = v"
      using mech_calm [OF later_turning, of _ k ?s A] by simp_all
    have "fdc_step A ?s fdc_read_bus = (fdc_cycle A fdc_read_bus ?s, [Dr_data v])"
      using step_read_held [OF m(1)] m(2) by (simp add: fdc_cycle_def)
    then show ?thesis unfolding s by (simp add: Suc funpow_swap1)
  qed
  have r: "later ?g n ((fdc_cycle A fdc_read_bus ^^ n) ?g)" using run by simp
  note e = rest_after [OF later_turning [OF r] calm_later [OF r g(3)], of A]
  from later_trans [OF r e(1)] e(2) show ?thesis
    using that [OF f1] last by (simp add: fdc_in_def vh later_def)
qed

subsection \<open>Bytes out of a sector\<close>

text \<open>A host that keeps the byte cells' pace: the clock is less than a cell past the current byte.\<close>

definition on_time :: "fdc_state \<Rightarrow> bool" where
  "on_time f \<longleftrightarrow> fd_now f < fd_next_byte_at f + kByteCycles"

definition port_idle :: "fdc_state \<Rightarrow> bool" where
  "port_idle f \<longleftrightarrow> turning f \<and> \<not> fd_access_prev f"

lemma core_next_cell: "core (next_cell f) = next_cell (core f)"
  by (cases f) (simp add: core_def next_cell_def)

lemma core_res:
  "core (set_res i v f) = set_res i v (core f)" "core (or_res i v f) = or_res i v (core f)"
  "core (and_res i v f) = and_res i v (core f)" "core (load_result_chrn f) = load_result_chrn (core f)"
  "core (enter_result f) = enter_result (core f)"
  by (cases f, simp add: core_def set_res_def or_res_def and_res_def load_result_chrn_def enter_result_def)+

lemma res_sel [simp]: "fd_res (set_res i v f) = (fd_res f)(i := v)"
  "fd_res (or_res i v f) = (fd_res f)(i := fd_res f i OR v)"
  "fd_res (and_res i v f) = (fd_res f)(i := fd_res f i AND v)"
  by (simp_all add: set_res_def or_res_def and_res_def)

lemma core_prioritise: "core (prioritise f) = prioritise (core f)"
  by (simp add: prioritise_def Let_def core_res)

lemma core_finish: "core (finish_with_status f) = finish_with_status (core f)"
  by (simp add: finish_with_status_def core_res core_prioritise)

lemma core_fields2:
  assumes "core g = core f"
  shows "fd_data_pos g = fd_data_pos f" "fd_media g = fd_media f" "fd_media1 g = fd_media1 f"
    "fd_track_pos g = fd_track_pos f" "fd_res_len g = fd_res_len f" "fd_res_count g = fd_res_count f"
    "fd_cmd_len g = fd_cmd_len f" "fd_sector_idx g = fd_sector_idx f" "fd_motor_st g = fd_motor_st f"
    "fd_seeking g = fd_seeking f"
  using assms core_sel by metis+

lemma finish_frame [simp]:
  "fd_motor_st (finish_with_status f) = fd_motor_st f" "fd_seeking (finish_with_status f) = fd_seeking f"
  "fd_rot (finish_with_status f) = fd_rot f" "fd_access_prev (finish_with_status f) = fd_access_prev f"
  "fd_now (finish_with_status f) = fd_now f" "fd_phase (finish_with_status f) = PH_RESULT"
  "fd_media (finish_with_status f) = fd_media f" "fd_media1 (finish_with_status f) = fd_media1 f"
  "fd_track_pos (finish_with_status f) = fd_track_pos f" "fd_res_len (finish_with_status f) = fd_res_len f"
  "fd_res_count (finish_with_status f) = 0" "fd_cmd (finish_with_status f) = fd_cmd f"
  by (simp_all add: finish_with_status_def or_res_def and_res_def set_res_def prioritise_def
      load_result_chrn_def enter_result_def Let_def)

lemma next_cell_frame [simp]:
  "turning (next_cell f) = turning f" "fd_access_prev (next_cell f) = fd_access_prev f"
  "fd_now (next_cell f) = fd_now f" "fd_phase (next_cell f) = fd_phase f"
  "fd_dir_to_cpu (next_cell f) = fd_dir_to_cpu f" "fd_from_flux (next_cell f) = fd_from_flux f"
  "fd_media (next_cell f) = fd_media f" "fd_media1 (next_cell f) = fd_media1 f"
  "fd_cmd (next_cell f) = fd_cmd f" "fd_res (next_cell f) = fd_res f"
  "fd_trk_end (next_cell f) = fd_trk_end f" "fd_remaining (next_cell f) = fd_remaining f - 1"
  "fd_next_byte_at (next_cell f) = fd_next_byte_at f + kByteCycles"
  "fd_wr_deleted (next_cell f) = fd_wr_deleted f" "fd_track_pos (next_cell f) = fd_track_pos f"
  "fd_res_len (next_cell f) = fd_res_len f"
  by (simp_all add: next_cell_def turning_def)

lemma next_cell_pos: "fd_data_pos f + 1 < fd_trk_end f \<Longrightarrow> fd_data_pos (next_cell f) = fd_data_pos f + 1"
  by (simp add: next_cell_def)

definition delivered :: "fdc_state \<Rightarrow> fdc_state" where
  "delivered f = f\<lparr>fd_sectors_read := fd_sectors_read f + 1, fd_sector_idx := fd_sector_idx f + 1\<rparr>"

lemma core_delivered: "core (delivered f) = delivered (core f)"
  by (cases f) (simp add: core_def delivered_def)

text \<open>The one sector of a read whose bytes are still to come.\<close>

definition reading :: "fdc_state \<Rightarrow> u8 list \<Rightarrow> nat \<Rightarrow> bool" where
  "reading f p n \<longleftrightarrow> fd_phase f = PH_EXEC \<and> fd_dir_to_cpu f \<and> \<not> fd_from_flux f \<and>
     fm_image (sel_media f (unit_of f)) = Some p \<and> unat (fd_remaining f) = n \<and>
     fd_data_pos f + n \<le> fd_trk_end f \<and> fd_trk_end f \<le> length p \<and>
     fd_res f R_ST1 AND 0x31 = 0 \<and> fd_res f R_ST2 AND 0x21 = 0 \<and> fd_cmd f C_R = fd_cmd f C_EOT"

lemma reading_core: "reading (core f) p n = reading f p n"
  by (simp add: reading_def sel_media_def unit_of_def)

lemma later_reading: "later f k g \<Longrightarrow> reading g p n = reading f p n"
  by (metis later_def reading_core)

lemma reading_byte:
  assumes "reading f p (Suc n)"
  shows "fst (data_read A f) = p ! fd_data_pos f"
    "n \<noteq> 0 \<Longrightarrow> snd (data_read A f) = next_cell f"
    "n = 0 \<Longrightarrow> snd (data_read A f) = finish_with_status (delivered (next_cell f))"
    "n \<noteq> 0 \<Longrightarrow> reading (next_cell f) p n \<and> fd_data_pos (next_cell f) = fd_data_pos f + 1"
proof -
  have "unat (fd_remaining f) = Suc n" using assms by (simp add: reading_def)
  moreover from this have "fd_remaining f \<noteq> 0" by (metis nat.simps(3) unat_0)
  ultimately have u: "unat (fd_remaining f - 1) = n" by (simp add: unat_minus_one)
  then have r: "fd_remaining f - 1 = 0 \<longleftrightarrow> n = 0" "unat (fd_remaining f - 1) = n"
    using unat_eq_zero [of "fd_remaining f - 1"] by simp_all
  have lt: "fd_data_pos f < length p" using assms by (auto simp: reading_def)
  show "fst (data_read A f) = p ! fd_data_pos f"
    using assms lt by (simp add: reading_def data_read_def exec_byte_def Let_def)
  show "n \<noteq> 0 \<Longrightarrow> snd (data_read A f) = next_cell f"
    using assms r(1) by (simp add: reading_def data_read_def Let_def)
  show "n = 0 \<Longrightarrow> snd (data_read A f) = finish_with_status (delivered (next_cell f))"
    using assms r(1) by (simp add: reading_def data_read_def Let_def chain_sector_def delivered_def)
  assume "n \<noteq> 0"
  then have pos: "fd_data_pos (next_cell f) = fd_data_pos f + 1"
    using assms by (intro next_cell_pos) (auto simp: reading_def)
  show "reading (next_cell f) p n \<and> fd_data_pos (next_cell f) = fd_data_pos f + 1"
    using assms r(2) pos by (simp add: reading_def sel_media_def unit_of_def split: if_splits)
qed

lemma delivered_frame [simp]:
  "turning (delivered f) = turning f" "fd_access_prev (delivered f) = fd_access_prev f"
  "fd_cmd (delivered f) = fd_cmd f" "fd_res (delivered f) = fd_res f" "fd_media (delivered f) = fd_media f"
  "fd_media1 (delivered f) = fd_media1 f" "fd_track_pos (delivered f) = fd_track_pos f"
  "fd_res_len (delivered f) = fd_res_len f" "fd_phase (delivered f) = fd_phase f"
  by (simp_all add: delivered_def turning_def)

lemma finish_turning [simp]: "turning (finish_with_status f) = turning f"
  by (simp add: turning_def)

lemma read_bytes:
  assumes "reading f p n" "0 < n" "port_idle f" "on_time f" "a + 2 \<le> kByteCycles"
  obtains h where "fst (fdc_ins A a n f) = map (\<lambda>b. [Dr_data b]) (take n (drop (fd_data_pos f) p))"
    "port_idle (snd (fdc_ins A a n f))" "core (snd (fdc_ins A a n f)) = finish_with_status (delivered h)"
    "fd_cmd h = fd_cmd f" "fd_res h = fd_res f" "fd_media h = fd_media f" "fd_media1 h = fd_media1 f"
    "fd_track_pos h = fd_track_pos f" "fd_res_len h = fd_res_len f"
  using assms
proof (induction n arbitrary: f thesis)
  case 0
  then show ?case by simp
next
  case (Suc n)
  have calm: "calm f 1"
    using Suc.prems(2,5) by (simp add: calm_def on_time_def reading_def)
  have step: "turning (snd (data_read A g)) \<and> fd_access_prev (snd (data_read A g)) \<and> calm (snd (data_read A g)) (a + 1)"
    if g: "later f 1 g" "fd_access_prev g" for g
  proof -
    have r: "reading g p (Suc n)" using Suc.prems(2) g(1) by (simp add: later_reading)
    have "fd_next_byte_at g = fd_next_byte_at f" "fd_now g = fd_now f + 1" "turning g"
      using g(1) core_fields(3) [of g f] by (simp_all add: later_def)
    then show ?thesis
      using reading_byte(2,3) [OF r, of A] reading_byte(4) [OF r] Suc.prems(5,6) g(2)
      by (cases "n = 0") (auto simp: calm_def on_time_def reading_def)
  qed
  obtain g where g: "later f 1 g" "fst (fdc_in A a f) = [Dr_data (fst (data_read A g))]"
    "later (snd (data_read A g)) (a + 1) (snd (fdc_in A a f))" "\<not> fd_access_prev (snd (fdc_in A a f))"
    using in_byte [where A = A and n = a and f = f, OF _ _ calm step] Suc.prems(4)
    by (auto simp: port_idle_def)
  let ?t = "snd (fdc_in A a f)"
  have r: "reading g p (Suc n)" using Suc.prems(2) g(1) by (simp add: later_reading)
  have gf: "core g = core f" "fd_data_pos g = fd_data_pos f" "fd_now g = fd_now f + 1"
    "fd_next_byte_at g = fd_next_byte_at f" "fd_res g = fd_res f" "fd_cmd g = fd_cmd f"
    "fd_media g = fd_media f" "fd_media1 g = fd_media1 f" "fd_track_pos g = fd_track_pos f" "fd_res_len g = fd_res_len f"
    using g(1) core_fields [of g f] core_fields2 [of g f] by (simp_all add: later_def)
  have idle: "port_idle ?t" using g(3,4) by (simp add: port_idle_def later_def)
  have lt: "fd_data_pos f < length p" using Suc.prems(2) by (auto simp: reading_def)
  then have bytes: "take (Suc n) (drop (fd_data_pos f) p) = p ! fd_data_pos f # take n (drop (fd_data_pos f + 1) p)"
    by (simp add: Cons_nth_drop_Suc [symmetric])
  show ?case
  proof (cases "n = 0")
    case True
    have "core ?t = finish_with_status (delivered (core (next_cell g)))"
      using g(3) reading_byte(3) [OF r True, of A] by (simp add: later_def core_finish core_delivered)
    then show ?thesis
      using idle g(2) reading_byte(1) [OF r, of A] gf lt True
      by (intro Suc.prems(1) [of "core (next_cell g)"])
        (simp_all add: split_def Cons_nth_drop_Suc [symmetric] take_Suc_conv_app_nth)
  next
    case False
    note m = reading_byte(2) [OF r False, of A] reading_byte(4) [OF r False]
    have l: "later (next_cell g) (a + 1) ?t" using g(3) m(1) by simp
    have rt: "reading ?t p n" using m(2) l by (simp add: later_reading)
    have tf: "fd_data_pos ?t = fd_data_pos f + 1" "fd_res ?t = fd_res f" "fd_cmd ?t = fd_cmd f"
      "fd_media ?t = fd_media f" "fd_media1 ?t = fd_media1 f" "fd_track_pos ?t = fd_track_pos f" "fd_res_len ?t = fd_res_len f"
      "fd_now ?t = fd_now f + a + 2" "fd_next_byte_at ?t = fd_next_byte_at f + kByteCycles"
      using l m(2) gf core_fields [of ?t "next_cell g"] core_fields2 [of ?t "next_cell g"]
      by (simp_all add: later_def)
    have "on_time ?t" using tf Suc.prems(5,6) by (simp add: on_time_def)
    from Suc.IH [OF _ rt _ idle this Suc.prems(6)] False obtain h where
      "fst (fdc_ins A a n ?t) = map (\<lambda>b. [Dr_data b]) (take n (drop (fd_data_pos ?t) p))"
      "port_idle (snd (fdc_ins A a n ?t))" "core (snd (fdc_ins A a n ?t)) = finish_with_status (delivered h)"
      "fd_cmd h = fd_cmd ?t" "fd_res h = fd_res ?t" "fd_media h = fd_media ?t" "fd_media1 h = fd_media1 ?t"
      "fd_track_pos h = fd_track_pos ?t" "fd_res_len h = fd_res_len ?t" by blast
    then show ?thesis
      using g(2) reading_byte(1) [OF r, of A] gf tf bytes
      by (intro Suc.prems(1) [of h]) (simp_all add: split_def)
  qed
qed

subsection \<open>Bytes into a sector\<close>

definition poked :: "u8 \<Rightarrow> fdc_state \<Rightarrow> fdc_state" where
  "poked v f = upd_media (unit_of f) (\<lambda>m. m\<lparr>fm_image := map_option (\<lambda>p. p[fd_data_pos f := v]) (fm_image m),
     fm_dirty := True\<rparr>) f"

lemma poked_frame [simp]:
  "turning (poked v f) = turning f" "fd_access_prev (poked v f) = fd_access_prev f" "fd_now (poked v f) = fd_now f"
  "fd_phase (poked v f) = fd_phase f" "fd_dir_to_cpu (poked v f) = fd_dir_to_cpu f" "fd_cmd (poked v f) = fd_cmd f"
  "fd_res (poked v f) = fd_res f" "fd_trk_end (poked v f) = fd_trk_end f" "fd_remaining (poked v f) = fd_remaining f"
  "fd_next_byte_at (poked v f) = fd_next_byte_at f" "fd_wr_deleted (poked v f) = fd_wr_deleted f"
  "fd_track_pos (poked v f) = fd_track_pos f" "fd_res_len (poked v f) = fd_res_len f"
  "fd_data_pos (poked v f) = fd_data_pos f"
  by (simp_all add: poked_def upd_media_def turning_def)

lemma core_poked: "core (poked v f) = poked v (core f)"
  by (cases f) (simp add: core_def poked_def upd_media_def unit_of_def)

lemma unit_of_cong: "fd_cmd g = fd_cmd f \<Longrightarrow> unit_of g = unit_of f"
  by (simp add: unit_of_def)

lemma sel_media_frame [simp]:
  "sel_media (next_cell f) u = sel_media f u" "sel_media (finish_with_status f) u = sel_media f u"
  "sel_media (f\<lparr>fd_sector_idx := i\<rparr>) u = sel_media f u" "sel_media (core f) u = sel_media f u"
  by (simp_all add: sel_media_def)

lemma sel_media_poked:
  "sel_media (poked v f) u = (if odd u = odd (unit_of f)
    then (sel_media f u)\<lparr>fm_image := map_option (\<lambda>p. p[fd_data_pos f := v]) (fm_image (sel_media f u)), fm_dirty := True\<rparr>
    else sel_media f u)"
  by (simp add: poked_def upd_media_def sel_media_def)

definition writing :: "fdc_state \<Rightarrow> u8 list \<Rightarrow> nat \<Rightarrow> bool" where
  "writing f p n \<longleftrightarrow> fd_phase f = PH_EXEC \<and> \<not> fd_dir_to_cpu f \<and> fd_cmd f C_CODE \<noteq> 0x0D \<and> \<not> fd_wr_deleted f \<and>
     fm_image (sel_media f (unit_of f)) = Some p \<and> unat (fd_remaining f) = n \<and>
     fd_data_pos f + n \<le> fd_trk_end f \<and> fd_trk_end f \<le> length p \<and> fd_cmd f C_R = fd_cmd f C_EOT"

lemma writing_core: "writing (core f) p n = writing f p n"
  by (simp add: writing_def unit_of_def)

lemma later_writing: "later f k g \<Longrightarrow> writing g p n = writing f p n"
  by (metis later_def writing_core)

definition stored_sector :: "fdc_state \<Rightarrow> fdc_state" where
  "stored_sector f = finish_with_status (f\<lparr>fd_sector_idx := fd_sector_idx f + 1\<rparr>)"

lemma core_stored: "core (stored_sector f) = stored_sector (core f)"
proof -
  have "core (f\<lparr>fd_sector_idx := fd_sector_idx f + 1\<rparr>) = (core f)\<lparr>fd_sector_idx := fd_sector_idx (core f) + 1\<rparr>"
    by (cases f) (simp add: core_def)
  then show ?thesis by (simp add: stored_sector_def core_finish)
qed

lemma stored_frame [simp]:
  "turning (stored_sector f) = turning f" "fd_access_prev (stored_sector f) = fd_access_prev f"
  "fd_phase (stored_sector f) = PH_RESULT" "fd_res_len (stored_sector f) = fd_res_len f"
  "fd_track_pos (stored_sector f) = fd_track_pos f" "sel_media (stored_sector f) u = sel_media f u"
  "fd_now (stored_sector f) = fd_now f"
  by (simp_all add: stored_sector_def turning_def)

lemma writing_byte:
  assumes "writing f p (Suc n)"
  shows "n \<noteq> 0 \<Longrightarrow> data_write A v f = next_cell (poked v f)"
    "n = 0 \<Longrightarrow> data_write A v f = stored_sector (next_cell (poked v f))"
    "n \<noteq> 0 \<Longrightarrow> writing (next_cell (poked v f)) (p[fd_data_pos f := v]) n \<and>
      fd_data_pos (next_cell (poked v f)) = fd_data_pos f + 1"
proof -
  have "unat (fd_remaining f) = Suc n" using assms by (simp add: writing_def)
  moreover from this have "fd_remaining f \<noteq> 0" by (metis nat.simps(3) unat_0)
  ultimately have u: "unat (fd_remaining f - 1) = n" by (simp add: unat_minus_one)
  then have r: "fd_remaining f - 1 = 0 \<longleftrightarrow> n = 0"
    using unat_eq_zero [of "fd_remaining f - 1"] by simp
  have w: "data_write A v f = exec_write_byte A v f"
    using assms by (simp add: data_write_def writing_def)
  have p: "fm_image (sel_media f (unit_of f)) \<noteq> None" "fd_data_pos f < fm_len (sel_media f (unit_of f))"
    using assms by (auto simp: writing_def fm_len_def)
  show "n \<noteq> 0 \<Longrightarrow> data_write A v f = next_cell (poked v f)"
    using assms p r unfolding w by (simp add: exec_write_byte_def writing_def Let_def poked_def [symmetric])
  show "n = 0 \<Longrightarrow> data_write A v f = stored_sector (next_cell (poked v f))"
    using assms p r unfolding w
    by (simp add: exec_write_byte_def writing_def Let_def poked_def [symmetric] chain_sector_def stored_sector_def)
  assume "n \<noteq> 0"
  then have pos: "fd_data_pos (next_cell (poked v f)) = fd_data_pos f + 1"
    using assms next_cell_pos [of "poked v f"] by (simp add: writing_def)
  have "unit_of (next_cell (poked v f)) = unit_of f" by (simp add: unit_of_def)
  with assms u pos show "writing (next_cell (poked v f)) (p[fd_data_pos f := v]) n \<and>
      fd_data_pos (next_cell (poked v f)) = fd_data_pos f + 1"
    by (simp add: writing_def sel_media_poked)
qed

lemma put_list_Cons:
  "off < length p \<Longrightarrow> off + Suc (length vs) \<le> length p \<Longrightarrow> put_list (off + 1) vs (p[off := v]) = put_list off (v # vs) p"
  by (simp add: put_list_def take_Suc_conv_app_nth)

definition rewritten :: "fdc_media \<Rightarrow> u8 list \<Rightarrow> fdc_media" where
  "rewritten m p = m\<lparr>fm_image := Some p, fm_dirty := True\<rparr>"

definition media_after :: "fdc_state \<Rightarrow> nat \<Rightarrow> u8 list \<Rightarrow> nat \<Rightarrow> fdc_media" where
  "media_after f u p w = (if odd w = odd u then rewritten (sel_media f u) p else sel_media f w)"

lemma write_bytes:
  assumes "writing f p (length vs)" "vs \<noteq> []" "port_idle f" "on_time f" "a + 2 \<le> kByteCycles"
  obtains h where "port_idle (fdc_outs A a vs f)" "core (fdc_outs A a vs f) = stored_sector h"
    "fd_cmd h = fd_cmd f" "fd_res h = fd_res f" "fd_track_pos h = fd_track_pos f" "fd_res_len h = fd_res_len f"
    "\<And>w. sel_media h w = media_after f (unit_of f) (put_list (fd_data_pos f) vs p) w"
  using assms
proof (induction vs arbitrary: f p thesis)
  case Nil
  then show ?case by simp
next
  case (Cons v vs)
  let ?n = "length vs" let ?t = "fdc_out A a v f"
  have calm: "calm f 1"
    using Cons.prems(2,5) by (simp add: calm_def on_time_def writing_def)
  have step: "turning (data_write A v g) \<and> fd_access_prev (data_write A v g) \<and> calm (data_write A v g) (a + 1)"
    if g: "later f 1 g" "fd_access_prev g" for g
  proof -
    have r: "writing g p (Suc ?n)" using Cons.prems(2) g(1) by (simp add: later_writing)
    have "fd_next_byte_at g = fd_next_byte_at f" "fd_now g = fd_now f + 1" "turning g"
      using g(1) core_fields(3) [of g f] by (simp_all add: later_def)
    then show ?thesis
      using writing_byte(1,2) [OF r, of A v] writing_byte(3) [OF r, of v] Cons.prems(5,6) g(2)
      by (cases "?n = 0") (auto simp: calm_def on_time_def writing_def)
  qed
  obtain g where g: "later f 1 g" "later (data_write A v g) (a + 1) ?t" "\<not> fd_access_prev ?t"
    using out_byte [where A = A and n = a and f = f and v = v, OF _ _ calm step] Cons.prems(4)
    by (auto simp: port_idle_def)
  have r: "writing g p (Suc ?n)" using Cons.prems(2) g(1) by (simp add: later_writing)
  have gf: "core g = core f" "fd_data_pos g = fd_data_pos f" "fd_now g = fd_now f + 1"
    "fd_next_byte_at g = fd_next_byte_at f" "fd_res g = fd_res f" "fd_cmd g = fd_cmd f"
    "fd_media g = fd_media f" "fd_media1 g = fd_media1 f" "fd_track_pos g = fd_track_pos f" "fd_res_len g = fd_res_len f"
    using g(1) core_fields [of g f] core_fields2 [of g f] by (simp_all add: later_def)
  have ug: "unit_of g = unit_of f" and sg: "sel_media g w = sel_media f w" for w
    using gf by (simp_all add: unit_of_def sel_media_def)
  have idle: "port_idle ?t" using g(2,3) by (simp add: port_idle_def later_def)
  have lt: "fd_data_pos f + Suc ?n \<le> length p" and img: "fm_image (sel_media f (unit_of f)) = Some p"
    using Cons.prems(2) by (auto simp: writing_def)
  show ?case
  proof (cases "vs = []")
    case True
    have one: "put_list (fd_data_pos f) [v] p = p[fd_data_pos f := v]"
      using lt True by (simp add: put_list_def upd_conv_take_nth_drop)
    have c: "core ?t = stored_sector (core (next_cell (poked v g)))"
      using g(2) writing_byte(2) [OF r, of A v] True by (simp add: later_def core_stored)
    show ?thesis
    proof (rule Cons.prems(1))
      show "port_idle (fdc_outs A a (v # vs) f)" using idle True by (simp add: fdc_outs_def)
      show "core (fdc_outs A a (v # vs) f) = stored_sector (core (next_cell (poked v g)))"
        using c True by (simp add: fdc_outs_def)
      show "sel_media (core (next_cell (poked v g))) w =
          media_after f (unit_of f) (put_list (fd_data_pos f) (v # vs) p) w" for w
        using img one True by (simp add: sel_media_poked ug sg gf media_after_def rewritten_def)
          (simp add: sel_media_def split: if_splits)
    qed (use gf in simp_all)
  next
    case False
    then have n: "?n \<noteq> 0" by simp
    note m = writing_byte(1) [OF r n, of A v] writing_byte(3) [OF r n, of v]
    have l: "later (next_cell (poked v g)) (a + 1) ?t" using g(2) m(1) by simp
    have wt: "writing ?t (p[fd_data_pos f := v]) ?n" using m(2) l gf by (simp add: later_writing)
    have tf: "fd_data_pos ?t = fd_data_pos f + 1" "fd_res ?t = fd_res f" "fd_cmd ?t = fd_cmd f"
      "fd_track_pos ?t = fd_track_pos f" "fd_res_len ?t = fd_res_len f"
      "fd_now ?t = fd_now f + a + 2" "fd_next_byte_at ?t = fd_next_byte_at f + kByteCycles"
      "fd_media ?t = fd_media (next_cell (poked v g))" "fd_media1 ?t = fd_media1 (next_cell (poked v g))"
      using l m(2) gf core_fields [of ?t "next_cell (poked v g)"] core_fields2 [of ?t "next_cell (poked v g)"]
      by (simp_all add: later_def)
    have ut: "unit_of ?t = unit_of f" by (simp add: unit_of_def tf)
    have st: "sel_media ?t w = media_after f (unit_of f) (p[fd_data_pos f := v]) w" for w
    proof -
      have "sel_media ?t w = sel_media (poked v g) w" by (simp add: sel_media_def tf)
      then show ?thesis
        using img by (simp add: sel_media_poked ug sg gf media_after_def rewritten_def)
          (simp add: sel_media_def split: if_splits)
    qed
    have "on_time ?t" using tf Cons.prems(5,6) by (simp add: on_time_def)
    from Cons.IH [OF _ wt False idle this Cons.prems(6)] obtain h where h:
      "port_idle (fdc_outs A a vs ?t)" "core (fdc_outs A a vs ?t) = stored_sector h"
      "fd_cmd h = fd_cmd ?t" "fd_res h = fd_res ?t" "fd_track_pos h = fd_track_pos ?t" "fd_res_len h = fd_res_len ?t"
      "\<And>w. sel_media h w = media_after ?t (unit_of ?t) (put_list (fd_data_pos ?t) vs (p[fd_data_pos f := v])) w"
      by blast
    have "put_list (fd_data_pos ?t) vs (p[fd_data_pos f := v]) = put_list (fd_data_pos f) (v # vs) p"
      using put_list_Cons [of "fd_data_pos f" p vs v] lt tf(1) by simp
    then have "sel_media h w = media_after f (unit_of f) (put_list (fd_data_pos f) (v # vs) p) w" for w
      unfolding h(7) ut media_after_def st by (simp add: rewritten_def)
    with h(1-6) tf show ?thesis
      by (intro Cons.prems(1) [of h]) (simp_all add: fdc_outs_def)
  qed
qed

subsection \<open>The result phase and the parameter bytes\<close>

definition untimed :: "fdc_state \<Rightarrow> bool" where
  "untimed f \<longleftrightarrow> fd_phase f = PH_CMD \<or> fd_phase f = PH_RESULT"

lemma untimed_calm: "untimed f \<Longrightarrow> calm f n"
  by (auto simp: untimed_def calm_def)

lemma result_byte:
  assumes "fd_phase f = PH_RESULT" "port_idle f"
  obtains t where "fdc_in A a f = ([Dr_data (fd_res f (fd_res_count f))], t)" "port_idle t"
    "core t = (let g = (core f)\<lparr>fd_res_count := fd_res_count f + 1\<rparr> in
       if fd_res_count f + 1 \<ge> fd_res_len f then enter_cmd g else g)"
proof -
  let ?n = "\<lambda>g. (let h = g\<lparr>fd_res_count := fd_res_count g + 1\<rparr> in
       if fd_res_count g + 1 \<ge> fd_res_len g then enter_cmd h else h)"
  have read: "data_read A g = (fd_res g (fd_res_count g), ?n g)" if "fd_phase g = PH_RESULT" for g
    using that by (simp add: data_read_def Let_def)
  have frame: "turning (?n g) = turning g" "fd_access_prev (?n g) = fd_access_prev g"
    "core (?n g) = ?n (core g)" for g
    by (simp_all add: Let_def enter_cmd_def turning_def) (cases g, simp add: core_def)+
  have un: "untimed (?n g)" if "fd_phase g = PH_RESULT" for g
    using that by (simp add: untimed_def Let_def enter_cmd_def)
  have step: "turning (snd (data_read A g)) \<and> fd_access_prev (snd (data_read A g)) \<and> calm (snd (data_read A g)) (a + 1)"
    if g: "later f 1 g" "fd_access_prev g" for g
  proof -
    have "fd_phase g = PH_RESULT" "turning g"
      using g(1) assms(1) core_fields(1) [of g f] by (simp_all add: later_def)
    then show ?thesis using g(2) frame [of g] un [of g] untimed_calm by (simp add: read)
  qed
  have "calm f 1" using assms(1) by (simp add: calm_def)
  then obtain g where g: "later f 1 g" "fst (fdc_in A a f) = [Dr_data (fst (data_read A g))]"
    "later (snd (data_read A g)) (a + 1) (snd (fdc_in A a f))" "\<not> fd_access_prev (snd (fdc_in A a f))"
    using in_byte [where A = A and n = a and f = f, OF _ _ _ step] assms(2)
    by (auto simp: port_idle_def)
  have c: "core g = core f" using g(1) by (simp add: later_def)
  have p: "fd_phase g = PH_RESULT" "fd_res g = fd_res f" "fd_res_count g = fd_res_count f"
    using core_fields(1,8) [OF c] core_fields2(6) [OF c] assms(1) by simp_all
  have "core (snd (fdc_in A a f)) = core (?n g)"
    using g(3) unfolding read [OF p(1)] snd_conv later_def by blast
  also have "\<dots> = ?n (core f)"
    unfolding frame(3) c ..
  finally have "core (snd (fdc_in A a f)) = ?n (core f)" .
  moreover have "fst (fdc_in A a f) = [Dr_data (fd_res f (fd_res_count f))]"
    using g(2) p by (simp add: read)
  ultimately show ?thesis
    using g(3,4) by (intro that [of "snd (fdc_in A a f)"]) (simp_all add: port_idle_def later_def prod_eq_iff)
qed

lemma result_bytes:
  assumes "fd_phase f = PH_RESULT" "port_idle f" "fd_res_count f + n = fd_res_len f" "0 < n"
  obtains t where "fdc_ins A a n f = (map (\<lambda>k. [Dr_data (fd_res f (fd_res_count f + k))]) [0..<n], t)"
    "port_idle t" "core t = (core f)\<lparr>fd_res_count := fd_res_len f, fd_phase := PH_CMD, fd_cmd_count := 0\<rparr>"
  using assms
proof (induction n arbitrary: f thesis)
  case 0
  then show ?case by simp
next
  case (Suc n)
  obtain t where t: "fdc_in A a f = ([Dr_data (fd_res f (fd_res_count f))], t)" "port_idle t"
    "core t = (let g = (core f)\<lparr>fd_res_count := fd_res_count f + 1\<rparr> in
       if fd_res_count f + 1 \<ge> fd_res_len f then enter_cmd g else g)"
    using result_byte [OF Suc.prems(2,3)] .
  show ?case
  proof (cases "n = 0")
    case True
    with Suc.prems(4) have "fd_res_count f + 1 = fd_res_len f" by simp
    with t(3) have "core t = (core f)\<lparr>fd_res_count := fd_res_len f, fd_phase := PH_CMD, fd_cmd_count := 0\<rparr>"
      by (simp add: enter_cmd_def)
    with t(1,2) True show ?thesis by (intro Suc.prems(1) [of t]) simp_all
  next
    case False
    then have c: "core t = (core f)\<lparr>fd_res_count := fd_res_count f + 1\<rparr>"
      using t(3) Suc.prems(4) by simp
    have tf: "fd_phase t = PH_RESULT" "fd_res t = fd_res f" "fd_res_count t = fd_res_count f + 1"
      "fd_res_len t = fd_res_len f"
      using Suc.prems(2) arg_cong [OF c, of fd_phase] arg_cong [OF c, of fd_res] arg_cong [OF c, of fd_res_count]
        arg_cong [OF c, of fd_res_len] by simp_all
    obtain u where u: "fdc_ins A a n t = (map (\<lambda>k. [Dr_data (fd_res t (fd_res_count t + k))]) [0..<n], u)"
      "port_idle u" "core u = (core t)\<lparr>fd_res_count := fd_res_len t, fd_phase := PH_CMD, fd_cmd_count := 0\<rparr>"
      using Suc.IH [OF _ tf(1) t(2)] tf Suc.prems(4) False by auto
    have "[0..<Suc n] = 0 # map Suc [0..<n]" by (simp add: map_Suc_upt upt_conv_Cons)
    with u t(1) tf c show ?thesis
      by (intro Suc.prems(1) [of u]) (simp_all add: comp_def)
  qed
qed

lemma cmd_byte:
  assumes "fd_phase f = PH_CMD" "port_idle f"
    and "\<And>g. later f 1 g \<Longrightarrow> data_write A v g = upd g" "\<And>g. turning g \<Longrightarrow> turning (upd g)"
    and "\<And>g. fd_access_prev (upd g) = fd_access_prev g" "\<And>g. core (upd g) = upd (core g)"
    and "\<And>g. fd_phase g = PH_CMD \<Longrightarrow> untimed (upd g)"
  shows "port_idle (fdc_out A a v f)" "core (fdc_out A a v f) = upd (core f)"
proof -
  have step: "turning (data_write A v g) \<and> fd_access_prev (data_write A v g) \<and> calm (data_write A v g) (a + 1)"
    if g: "later f 1 g" "fd_access_prev g" for g
  proof -
    have "fd_phase g = PH_CMD" "turning g"
      using g(1) assms(1) core_fields(1) [of g f] by (simp_all add: later_def)
    then show ?thesis using assms(3) [OF g(1)] assms(4,5,7) g(2) untimed_calm by simp
  qed
  have "calm f 1" using assms(1) by (simp add: calm_def)
  then obtain g where g: "later f 1 g" "later (data_write A v g) (a + 1) (fdc_out A a v f)"
    "\<not> fd_access_prev (fdc_out A a v f)"
    using out_byte [where A = A and n = a and f = f and v = v, OF _ _ _ step] assms(2) by (auto simp: port_idle_def)
  then show "port_idle (fdc_out A a v f)" by (simp add: port_idle_def later_def)
  show "core (fdc_out A a v f) = upd (core f)"
    using g(1,2) assms(3) [OF g(1)] assms(6) [of g] by (simp add: later_def)
qed

definition param_added :: "u8 \<Rightarrow> fdc_state \<Rightarrow> fdc_state" where
  "param_added v f = f\<lparr>fd_cmd := (fd_cmd f)(fd_cmd_count f := v), fd_cmd_count := fd_cmd_count f + 1\<rparr>"

lemma core_param: "core (param_added v f) = param_added v (core f)"
  by (cases f) (simp add: core_def param_added_def)

lemma param_frame [simp]:
  "turning (param_added v f) = turning f" "fd_access_prev (param_added v f) = fd_access_prev f"
  "fd_phase (param_added v f) = fd_phase f" "fd_cmd_count (param_added v f) = fd_cmd_count f + 1"
  "fd_cmd_len (param_added v f) = fd_cmd_len f" "fd_cmd (param_added v f) = (fd_cmd f)(fd_cmd_count f := v)"
  by (simp_all add: param_added_def turning_def)

lemma param_bytes:
  assumes "fd_phase f = PH_CMD" "port_idle f" "0 < fd_cmd_count f" "fd_cmd_count f + length vs < fd_cmd_len f"
  shows "port_idle (fdc_outs A a vs f) \<and> core (fdc_outs A a vs f) = fold param_added vs (core f)"
  using assms
proof (induction vs arbitrary: f)
  case Nil
  then show ?case by (simp add: fdc_outs_def)
next
  case (Cons v vs)
  have w: "data_write A v g = param_added v g" if "later f 1 g" for g
    using that Cons.prems core_fields(1,9) [of g f] core_fields2(7) [of g f]
    by (simp add: later_def data_write_def param_added_def Let_def)
  have s: "port_idle (fdc_out A a v f)" "core (fdc_out A a v f) = param_added v (core f)"
    using cmd_byte [OF Cons.prems(1,2) w, of a] by (simp_all add: core_param untimed_def)
  have "fd_phase (fdc_out A a v f) = PH_CMD" "fd_cmd_count (fdc_out A a v f) = fd_cmd_count f + 1"
    "fd_cmd_len (fdc_out A a v f) = fd_cmd_len f"
    using Cons.prems arg_cong [OF s(2), of fd_phase] arg_cong [OF s(2), of fd_cmd_count]
      arg_cong [OF s(2), of fd_cmd_len] by simp_all
  with Cons.IH [OF _ s(1)] Cons.prems s(2) show ?case by (simp add: fdc_outs_def)
qed

text \<open>A nine-byte command up to its last byte.\<close>

definition opcode_taken :: "u8 \<Rightarrow> fdc_state \<Rightarrow> fdc_state" where
  "opcode_taken v f = f\<lparr>fd_mt := v AND 0x80, fd_mf := v AND 0x40, fd_sk := v AND 0x20,
     fd_cmd := (fd_cmd f)(0 := v AND 0x1F), fd_cmd_count := 1, fd_cmd_len := 9, fd_res_len := 7\<rparr>"

lemma core_opcode: "core (opcode_taken v f) = opcode_taken v (core f)"
  by (cases f) (simp add: core_def opcode_taken_def)

lemma opcode_byte:
  assumes "fd_phase f = PH_CMD" "port_idle f" "fd_cmd_count f = 0" "lookup_cmd (v AND 0x1F) = Some (9, 7)"
  shows "port_idle (fdc_out A a v f)" "core (fdc_out A a v f) = opcode_taken v (core f)"
proof -
  have w: "data_write A v g = opcode_taken v g" if "later f 1 g" for g
    using that assms core_fields(1,9) [of g f]
    by (cases g) (simp add: later_def data_write_def opcode_taken_def Let_def)
  note c = cmd_byte [OF assms(1,2) w, of a, OF _ _ _ core_opcode]
  show "port_idle (fdc_out A a v f)" "core (fdc_out A a v f) = opcode_taken v (core f)"
    by (rule c; simp add: opcode_taken_def turning_def untimed_def)+
qed

text \<open>The data field arrives during the tail of the access that started the search, or in the rest.\<close>

lemma data_arrives:
  assumes "turning f" "fd_access_prev f" "fd_phase f = PH_BUSY" "fd_pending f = P_DATA_START"
    and "fd_now f < fd_due_at f" "fd_due_at f \<le> fd_now f + n + m" "fd_now f + n + m \<le> fd_due_at f + kByteCycles" "0 < m"
  shows "later (arrived (fd_due_at f) f) (n + m)
      ((fdc_cycle A bus_resting ^^ m) ((fdc_cycle A (io_write_bus 0xFB7F v) ^^ n) f)) \<and>
    \<not> fd_access_prev ((fdc_cycle A bus_resting ^^ m) ((fdc_cycle A (io_write_bus 0xFB7F v) ^^ n) f))"
proof (cases "fd_due_at f \<le> fd_now f + n")
  case True
  let ?h = "(fdc_cycle A (io_write_bus 0xFB7F v) ^^ n) f"
  have h: "later (arrived (fd_due_at f) f) n ?h"
    using coast_due [OF coasting_write [of A v] assms(1), where n = n] assms(2-7) True by simp
  then have "core ?h = core (arrived (fd_due_at f) f)" "fd_now ?h = fd_now f + n"
    by (simp_all add: later_def arrived_def)
  with core_fields(1,3) [OF this(1)] have "calm ?h m"
    using assms(7) by (simp add: calm_def arrived_def)
  with coast [OF coasting_rest [of A] later_turning [OF h], where n = m] later_trans [OF h, of m] \<open>0 < m\<close>
  show ?thesis by simp
next
  case False
  let ?h = "(fdc_cycle A (io_write_bus 0xFB7F v) ^^ n) f"
  have h: "later f n ?h"
    using coast [OF coasting_write [of A v] assms(1), where n = n] assms(2,3) False by (simp add: calm_def)
  then have c: "core ?h = core f" "fd_now ?h = fd_now f + n" by (simp_all add: later_def)
  note e = core_fields(1,2,4) [OF c(1)]
  have "later (arrived (fd_due_at ?h) ?h) m ((fdc_cycle A bus_resting ^^ m) ?h) \<and>
      \<not> fd_access_prev ((fdc_cycle A bus_resting ^^ m) ?h)"
    using coast_due [OF coasting_rest [of A] later_turning [OF h], where n = m] e c(2) assms(3-7) False by simp
  then show ?thesis
    using later_trans [OF later_arrived [OF h, of "fd_due_at f"], of m] e(2) by simp
qed

subsection \<open>Finding the sector\<close>

definition found_ok :: "fdc_sector list \<Rightarrow> u8 list \<Rightarrow> nat \<Rightarrow> nat \<Rightarrow> nat option \<times> u8 \<times> nat \<Rightarrow> bool" where
  "found_ok secs chrn idx loops r \<longleftrightarrow>
    (case fst r of
       Some i \<Rightarrow> i < length secs \<and> fs_chrn (secs ! i) = chrn \<and> snd (snd r) = i \<and> fst (snd r) AND 0x12 = 0
     | None \<Rightarrow> snd (snd r) = 0 \<and> (\<forall>k < length secs. loops = 0 \<or> idx \<le> k \<longrightarrow> fs_chrn (secs ! k) \<noteq> chrn))"

lemma find_loop_ok:
  "idx < length secs \<Longrightarrow> loops < 2 \<Longrightarrow> found_ok secs chrn idx loops (find_loop secs chrn idx loops st2)"
proof (induction secs chrn idx loops st2 rule: find_loop.induct)
  case (1 secs chrn idx loops st2)
  show ?case
  proof (cases "fs_chrn (secs ! idx) = chrn")
    case True
    then have "find_loop secs chrn idx loops st2 = (Some idx, st2 AND NOT 0x12, idx)"
      by (subst find_loop.simps) (simp add: Let_def)
    with "1.prems" True show ?thesis by (simp add: found_ok_def and.assoc)
  next
    case False
    define st where "st = (if hd (fs_chrn (secs ! idx)) = 0xFF then st2 OR 0x02
      else if hd (fs_chrn (secs ! idx)) \<noteq> hd chrn then st2 OR 0x10 else st2)"
    note ih = "1.IH" [OF refl False refl refl refl refl refl, folded st_def]
    show ?thesis
    proof (cases "idx + 1 \<ge> length secs")
      case last: True
      show ?thesis
      proof (cases "loops = 0")
        case True
        have "find_loop secs chrn idx loops st2 = find_loop secs chrn 0 1 st"
          using False last True by (subst find_loop.simps) (simp add: Let_def st_def)
        moreover have "found_ok secs chrn 0 1 (find_loop secs chrn 0 1 st)"
          using ih last True "1.prems" by (cases secs) auto
        ultimately show ?thesis using True by (simp add: found_ok_def split: option.splits)
      next
        case l: False
        have "find_loop secs chrn idx loops st2 = (None, st, 0)"
          using False last l "1.prems" by (subst find_loop.simps) (simp add: Let_def st_def)
        moreover have "k = idx" if "k < length secs" "idx \<le> k" for k using that last by simp
        ultimately show ?thesis using l False by (auto simp: found_ok_def)
      qed
    next
      case more: False
      have "find_loop secs chrn idx loops st2 = find_loop secs chrn (idx + 1) loops st"
        using False more "1.prems" by (subst find_loop.simps) (simp add: Let_def st_def)
      moreover have "found_ok secs chrn (idx + 1) loops (find_loop secs chrn (idx + 1) loops st)"
        using ih more "1.prems" by simp
      ultimately show ?thesis using False
        by (auto simp: found_ok_def Suc_le_eq split: option.splits dest: le_neq_implies_less)
    qed
  qed
qed

lemma next_idam_index_less:
  assumes "ft_sec trk \<noteq> []"
  shows "next_idam_index f trk < length (ft_sec trk)"
proof -
  let ?step = "\<lambda>(best, best_dt) i. let dt = cycles_until_cell f (fs_idam_at (ft_sec trk ! i))
    in if dt < best_dt then (i, dt) else (best, best_dt :: nat)"
  have "fst (foldl ?step b is) < n" if "fst b < n" "\<forall>i \<in> set is. i < n" for b "is" n
    using that by (induction "is" arbitrary: b) (auto simp: Let_def split: prod.splits)
  then show ?thesis using assms by (simp add: next_idam_index_def)
qed

lemma cycles_until_cell_bounds:
  assumes "fd_rot f < kRevCycles" "cell * kByteCycles \<le> kRevCycles"
  shows "0 < cycles_until_cell f cell" "cycles_until_cell f cell \<le> kRevCycles"
  using assms by (auto simp: cycles_until_cell_def Let_def kRevCycles_def)

lemma find_sector_held:
  assumes "fd_sector_idx f < length (ft_sec trk)" "distinct (map fs_chrn (ft_sec trk))" "sec \<in> set (ft_sec trk)"
    "fs_chrn sec = cmd_chrn f"
  obtains i st2 where "find_sector trk f = (Some i, (set_res R_ST2 st2 f)\<lparr>fd_sector_idx := i\<rparr>)"
    "ft_sec trk ! i = sec" "st2 AND 0x12 = 0"
proof -
  obtain k where k: "k < length (ft_sec trk)" "ft_sec trk ! k = sec" using assms(3) by (auto simp: in_set_conv_nth)
  let ?r = "find_loop (ft_sec trk) (cmd_chrn f) (fd_sector_idx f) 0 (fd_res f R_ST2)"
  obtain r st2 j where r: "?r = (r, st2, j)" by (cases ?r)
  have ok: "found_ok (ft_sec trk) (cmd_chrn f) (fd_sector_idx f) 0 (r, st2, j)"
    using find_loop_ok [OF assms(1), of 0 "cmd_chrn f" "fd_res f R_ST2"] r by simp
  with k assms(4) obtain i where i: "r = Some i" "i < length (ft_sec trk)" "fs_chrn (ft_sec trk ! i) = cmd_chrn f"
    "j = i" "st2 AND 0x12 = 0" by (auto simp: found_ok_def split: option.splits)
  have "i = k" using assms(2,4) i(2,3) k by (simp add: distinct_conv_nth) metis
  moreover have "st2 AND 2 = 0"
  proof -
    have "st2 AND 2 = (st2 AND 0x12) AND 2" by (simp add: and.assoc)
    then show ?thesis by (simp only: i(5)) simp
  qed
  ultimately show ?thesis
    using that [of i st2] r i k(2) assms(1) by (simp add: find_sector_def)
qed

definition started :: "bool \<Rightarrow> fdc_track \<Rightarrow> fdc_sector \<Rightarrow> nat \<Rightarrow> nat \<Rightarrow> nat \<Rightarrow> fdc_state \<Rightarrow> fdc_state" where
  "started to_cpu trk sec i o2 due f = f\<lparr>fd_sector_idx := i, fd_from_flux := False, fd_wr_st2_off := o2,
     fd_res := (fd_res f)(R_ST1 := 0, R_ST2 := 0), fd_data_pos := fs_off sec, fd_remaining := xfer_length f,
     fd_trk_begin := ft_data_off trk, fd_trk_end := ft_data_off trk + ft_data_len trk, fd_dir_to_cpu := to_cpu,
     fd_pending := P_DATA_START, fd_due_at := due, fd_phase := PH_BUSY\<rparr>"

lemma cycles_cong: "fd_rot g = fd_rot f \<Longrightarrow> cycles_until_cell g c = cycles_until_cell f c"
  by (simp add: cycles_until_cell_def Let_def)

lemma begin_started:
  assumes "fd_res g R_ST2 AND 0x12 = 0" "fs_st1 sec AND 0x25 = 0" "fs_st2 sec AND 0x61 = 0" "\<not> fd_from_flux g"
  shows "begin_transfer trk sec to_cpu g =
    started to_cpu trk sec (fd_sector_idx g) (fd_wr_st2_off g) (fd_now g + cycles_until_cell g (fs_data_at sec)) g"
  using assms by (cases g) (simp add: begin_transfer_def started_def set_res_def xfer_length_def cycles_until_cell_def)

lemma started_absorb:
  "started c trk sec i o2 due (f\<lparr>fd_res := (fd_res f)(R_ST2 := v), fd_sector_idx := j, fd_from_flux := b, fd_wr_st2_off := k\<rparr>)
    = started c trk sec i o2 due f"
proof -
  have "(fd_res f)(R_ST2 := v, R_ST1 := 0, R_ST2 := 0) = (fd_res f)(R_ST1 := 0, R_ST2 := 0)"
    by (simp add: fun_upd_twist R_ST1_def R_ST2_def)
  then show ?thesis by (cases f) (simp add: started_def xfer_length_def)
qed

lemma start_sector_held:
  assumes "distinct (map fs_chrn (ft_sec (track_at f r)))" "sec \<in> set (ft_sec (track_at f r))"
    "fs_chrn sec = cmd_chrn f" "fs_st1 sec AND 0x25 = 0" "fs_st2 sec AND 0x61 = 0"
    "fd_rot f < kRevCycles" "fs_data_at sec * kByteCycles \<le> kRevCycles"
    "\<not> serve_from_flux (sel_media f (unit_of f)) (unat (fd_track_pos f (unit_of f)))"
  obtains i o2 due where "fd_now f < due" "due \<le> fd_now f + kRevCycles"
    "start_sector r to_cpu f = started to_cpu (track_at f r) sec i o2 due f"
proof -
  let ?trk = "track_at f r" let ?f = "f\<lparr>fd_sector_idx := next_idam_index f ?trk\<rparr>"
  have "fd_sector_idx ?f < length (ft_sec ?trk)"
    using next_idam_index_less [of ?trk f] assms(2) by (cases "ft_sec ?trk") auto
  then obtain i st2 where i: "find_sector ?trk ?f = (Some i, (set_res R_ST2 st2 ?f)\<lparr>fd_sector_idx := i\<rparr>)"
    "ft_sec ?trk ! i = sec" "st2 AND 0x12 = 0"
    using find_sector_held [of ?f ?trk sec] assms(1-3) by (auto simp: cmd_chrn_def)
  let ?due = "fd_now f + cycles_until_cell f (fs_data_at sec)"
  let ?o2 = "if to_cpu then fd_wr_st2_off f else (ft_data_off ?trk - 0x100) + 0x18 + 8 * i + 5"
  define h where "h = f\<lparr>fd_res := (fd_res f)(R_ST2 := st2), fd_sector_idx := i\<rparr>"
  define g where "g = h\<lparr>fd_from_flux := False, fd_wr_st2_off := ?o2\<rparr>"
  have h: "(set_res R_ST2 st2 ?f)\<lparr>fd_sector_idx := i\<rparr> = h" by (simp add: set_res_def h_def)
  have hf: "unit_of h = unit_of f" "sel_media h u = sel_media f u" "fd_track_pos h = fd_track_pos f"
    "fd_sector_idx h = i" for u
    by (simp_all add: h_def unit_of_def sel_media_def)
  have o2: "h\<lparr>fd_from_flux := False\<rparr> = h\<lparr>fd_from_flux := False, fd_wr_st2_off := fd_wr_st2_off f\<rparr>"
    by (cases f) (simp add: h_def)
  have "start_sector r to_cpu f = begin_transfer ?trk sec to_cpu g"
    using assms(8) i(1,2) o2 unfolding start_sector_def Let_def by (simp add: h hf g_def)
  also have "\<dots> = started to_cpu ?trk sec (fd_sector_idx g) (fd_wr_st2_off g) (fd_now g + cycles_until_cell g (fs_data_at sec)) g"
    using i(3) assms(4,5) by (intro begin_started) (simp_all add: g_def h_def)
  also have "\<dots> = started to_cpu ?trk sec i ?o2 ?due f"
    using cycles_cong [of g f] by (simp add: g_def h_def started_absorb)
  finally have "start_sector r to_cpu f = started to_cpu ?trk sec i ?o2 ?due f" .
  then show ?thesis
    using cycles_until_cell_bounds [OF assms(6,7)] that [of ?due i ?o2] by simp
qed

subsection \<open>A sector on the disc\<close>

text \<open>\<open>on_disc f u side sec p\<close>: drive \<open>u\<close> holds an image with bytes \<open>p\<close> whose current track, on that side,
  lists \<open>sec\<close>: error free, with a header unlike the others' and its data inside the track and the buffer.\<close>

definition here :: "fdc_state \<Rightarrow> nat \<Rightarrow> nat \<Rightarrow> fdc_track" where
  "here f u side = fm_track (sel_media f u) (unat (fd_track_pos f u)) side"

definition on_disc :: "fdc_state \<Rightarrow> nat \<Rightarrow> nat \<Rightarrow> fdc_sector \<Rightarrow> u8 list \<Rightarrow> nat \<Rightarrow> bool" where
  "on_disc f u side sec p n \<longleftrightarrow>
     (let m = sel_media f u; trk = here f u side in
      fm_image m = Some p \<and> \<not> flux_backed m \<and> \<not> serve_from_flux m (unat (fd_track_pos f u)) \<and>
      unat (fd_track_pos f u) < fm_tracks m \<and> sec \<in> set (ft_sec trk) \<and> distinct (map fs_chrn (ft_sec trk)) \<and>
      fs_st1 sec AND 0x25 = 0 \<and> fs_st2 sec AND 0x61 = 0 \<and> fs_data_at sec * kByteCycles \<le> kRevCycles \<and>
      fs_off sec + n \<le> ft_data_off trk + ft_data_len trk \<and> ft_data_off trk + ft_data_len trk \<le> length p)"

text \<open>The side a command addresses: a single-sided image ignores the head bit.\<close>

definition side_of :: "fdc_state \<Rightarrow> nat \<Rightarrow> nat \<Rightarrow> nat" where
  "side_of f u head = (if fm_sides (sel_media f u) > 1 then head mod 2 else 0)"

lemma head_track_disc:
  assumes "on_disc f u (side_of f u head) sec p n" "u \<le> 1"
  shows "head_track A u head f = (Some (In_image u (unat (fd_track_pos f u)) (side_of f u head)), f)"
  using assms by (auto simp: head_track_def on_disc_def here_def side_of_def Let_def)

lemma track_at_disc: "track_at f (In_image u (unat (fd_track_pos f u)) s) = here f u s"
  by (simp add: track_at_def here_def)

lemma on_disc_cong:
  assumes "fd_media g = fd_media f" "fd_media1 g = fd_media1 f" "fd_track_pos g = fd_track_pos f"
  shows "on_disc g u s sec p n = on_disc f u s sec p n" "side_of g u h = side_of f u h" "here g u s = here f u s"
  using assms by (simp_all add: on_disc_def here_def side_of_def sel_media_def)

lemma ready_disc: "on_disc f u s sec p n \<Longrightarrow> u \<le> 1 \<Longrightarrow> fd_motor_st f = M_READY \<Longrightarrow> drive_ready f u"
  by (auto simp: drive_ready_def on_disc_def Let_def)

definition addressed :: "fdc_state \<Rightarrow> fdc_sector \<Rightarrow> u8 list \<Rightarrow> bool" where
  "addressed f sec p \<longleftrightarrow> fs_chrn sec = cmd_chrn f \<and> fd_motor_st f = M_READY \<and> fd_rot f < kRevCycles \<and>
     on_disc f (unit_of f) (side_of f (unit_of f) (head_of f)) sec p (unat (xfer_length f))"

lemma unit_le: "unit_of f \<le> 1"
proof -
  have "fd_cmd f C_UNIT AND 1 \<le> 1" by (rule word_and_le1)
  then show ?thesis by (simp add: unit_of_def word_le_nat_alt)
qed

definition ranked :: "fdc_state \<Rightarrow> fdc_state" where
  "ranked f = f\<lparr>fd_res := (\<lambda>_. 0)(R_ST0 := fd_cmd f C_UNIT AND 7)\<rparr>"

lemma ranked_frame [simp]:
  "fd_cmd (ranked f) = fd_cmd f" "sel_media (ranked f) u = sel_media f u" "fd_media (ranked f) = fd_media f"
  "fd_media1 (ranked f) = fd_media1 f" "fd_track_pos (ranked f) = fd_track_pos f" "unit_of (ranked f) = unit_of f"
  "head_of (ranked f) = head_of f" "xfer_length (ranked f) = xfer_length f" "cmd_chrn (ranked f) = cmd_chrn f"
  "fd_motor_st (ranked f) = fd_motor_st f" "fd_rot (ranked f) = fd_rot f" "fd_now (ranked f) = fd_now f"
  by (simp_all add: ranked_def unit_of_def head_of_def xfer_length_def cmd_chrn_def sel_media_def)

lemma addressed_ranked: "addressed (ranked f) sec p = addressed f sec p"
  using on_disc_cong [of "ranked f" f] by (simp add: addressed_def)

lemma start_addressed:
  assumes "addressed f sec p"
  obtains i o2 due where "fd_now f < due" "due \<le> fd_now f + kRevCycles"
    "start_sector (In_image (unit_of f) (unat (fd_track_pos f (unit_of f))) (side_of f (unit_of f) (head_of f))) to_cpu f =
       started to_cpu (here f (unit_of f) (side_of f (unit_of f) (head_of f))) sec i o2 due f"
proof -
  let ?trk = "here f (unit_of f) (side_of f (unit_of f) (head_of f))"
  have "distinct (map fs_chrn (ft_sec ?trk))" "sec \<in> set (ft_sec ?trk)" "fs_chrn sec = cmd_chrn f"
    "fs_st1 sec AND 0x25 = 0" "fs_st2 sec AND 0x61 = 0" "fd_rot f < kRevCycles"
    "fs_data_at sec * kByteCycles \<le> kRevCycles"
    "\<not> serve_from_flux (sel_media f (unit_of f)) (unat (fd_track_pos f (unit_of f)))"
    using assms by (simp_all add: addressed_def on_disc_def Let_def)
  then show ?thesis
    using start_sector_held [of f "In_image (unit_of f) (unat (fd_track_pos f (unit_of f))) (side_of f (unit_of f) (head_of f))" sec to_cpu]
      that unfolding track_at_disc by blast
qed

lemma read_started:
  assumes "addressed f sec p" "fd_cmd f C_CODE = 0x06"
  obtains i o2 due where "fd_now f < due" "due \<le> fd_now f + kRevCycles"
    "dispatch A f = started True (here f (unit_of f) (side_of f (unit_of f) (head_of f))) sec i o2 due (ranked f)"
proof -
  let ?u = "unit_of f" let ?s = "side_of f ?u (head_of f)"
  have od: "on_disc f ?u ?s sec p (unat (xfer_length f))" and m: "fd_motor_st f = M_READY"
    using assms(1) by (simp_all add: addressed_def)
  have r: "init_status ?u f = (True, ranked f)"
    using ready_disc [OF od unit_le m] by (simp add: init_status_def ranked_def)
  have same: "side_of (ranked f) ?u (head_of f) = ?s" "here (ranked f) ?u ?s = here f ?u ?s"
    using on_disc_cong [of "ranked f" f] by simp_all
  have "head_track A ?u (head_of f) (ranked f) = (Some (In_image ?u (unat (fd_track_pos f ?u)) ?s), ranked f)"
    using head_track_disc [of "ranked f" ?u "head_of f" sec p _ A] od unit_le same on_disc_cong(1) [of "ranked f" f]
    by fastforce
  then have "dispatch A f = start_sector (In_image ?u (unat (fd_track_pos f ?u)) ?s) True (ranked f)"
    using assms(2) by (simp add: dispatch_def cmd_read_data_def r Let_def)
  with start_addressed [of "ranked f" sec p True] assms(1) that show ?thesis
    by (auto simp: addressed_ranked same)
qed

lemma write_started:
  assumes "addressed f sec p" "fd_cmd f C_CODE = 0x05" "\<not> fm_backing_flux (sel_media f (unit_of f))"
  obtains i o2 due where "fd_now f < due" "due \<le> fd_now f + kRevCycles"
    "dispatch A f = started False (here f (unit_of f) (side_of f (unit_of f) (head_of f))) sec i o2 due
       (ranked (f\<lparr>fd_wr_deleted := False\<rparr>))"
proof -
  let ?f = "f\<lparr>fd_wr_deleted := False\<rparr>"
  have u: "unit_of ?f = unit_of f" "head_of ?f = head_of f" "cmd_chrn ?f = cmd_chrn f" "xfer_length ?f = xfer_length f"
    by (simp_all add: unit_of_def head_of_def cmd_chrn_def xfer_length_def)
  have sm: "sel_media ?f v = sel_media f v" for v by (simp add: sel_media_def)
  let ?u = "unit_of f" let ?s = "side_of f ?u (head_of f)"
  have same: "side_of (ranked ?f) ?u (head_of f) = ?s" "here (ranked ?f) ?u ?s = here f ?u ?s"
    "side_of ?f ?u (head_of f) = ?s" "here ?f ?u ?s = here f ?u ?s"
    using on_disc_cong [of "ranked ?f" f] on_disc_cong [of ?f f] by simp_all
  have ad: "addressed ?f sec p"
    using assms(1) on_disc_cong(1) [of ?f f] by (simp add: addressed_def u same)
  then have od: "on_disc ?f ?u ?s sec p (unat (xfer_length f))" and m: "fd_motor_st f = M_READY"
    by (simp_all add: addressed_def u same)
  have r: "init_status ?u ?f = (True, ranked ?f)"
    using ready_disc [OF od unit_le] m by (simp add: init_status_def ranked_def)
  have img: "fm_image (sel_media f ?u) = Some p" using assms(1) by (simp add: addressed_def on_disc_def Let_def)
  have "head_track A ?u (head_of f) (ranked ?f) = (Some (In_image ?u (unat (fd_track_pos f ?u)) ?s), ranked ?f)"
    using head_track_disc [of "ranked ?f" ?u "head_of f" sec p _ A] od unit_le same on_disc_cong(1) [of "ranked ?f" ?f]
    by fastforce
  then have "dispatch A f = start_sector (In_image ?u (unat (fd_track_pos f ?u)) ?s) False (ranked ?f)"
    using assms(2,3) img by (simp add: dispatch_def cmd_write_data_def r u promote_flux_track_def sm C_CODE_def Let_def)
  with start_addressed [of "ranked ?f" sec p False] ad that show ?thesis
    by (auto simp: addressed_ranked same u)
qed

subsection \<open>The last byte of a command that moves a sector\<close>

definition issued :: "u8 \<Rightarrow> fdc_state \<Rightarrow> fdc_state" where
  "issued v f = (param_added v f)\<lparr>fd_cmd_count := 0\<rparr>"

lemma core_issued: "core (issued v f) = issued v (core f)"
  by (cases f) (simp add: core_def issued_def param_added_def)

lemma issued_frame [simp]: "turning (issued v f) = turning f" "fd_access_prev (issued v f) = fd_access_prev f"
  by (simp_all add: issued_def turning_def param_added_def)

text \<open>A command in flight: the data field of its sector will pass within a revolution.\<close>

definition seeking_data :: "fdc_state \<Rightarrow> fdc_state \<Rightarrow> bool" where
  "seeking_data x g \<longleftrightarrow> fd_phase g = PH_BUSY \<and> fd_pending g = P_DATA_START \<and> fd_now g = fd_now x \<and>
     fd_access_prev g = fd_access_prev x \<and> turning g \<and> fd_now g < fd_due_at g \<and> fd_due_at g \<le> fd_now g + kRevCycles"

lemma seeking_started:
  assumes "turning x" "fd_now x < due" "due \<le> fd_now x + kRevCycles"
  shows "seeking_data x (started tc trk sec i o2 due (ranked x))"
    "seeking_data x (started tc trk sec i o2 due (ranked (x\<lparr>fd_wr_deleted := b\<rparr>)))"
  using assms by (simp_all add: seeking_data_def started_def ranked_def turning_def)

lemma last_byte:
  assumes "fd_phase f = PH_CMD" "port_idle f" "0 < fd_cmd_count f" "fd_cmd_len f = fd_cmd_count f + 1"
    and start: "\<And>x. core x = issued v (core f) \<Longrightarrow> turning x \<Longrightarrow> seeking_data x (dispatch A x)"
    and a: "a + 2 \<le> kByteCycles"
  obtains x w t where "core x = issued v (core f)" "turning x" "w \<le> kRevCycles"
    "t = fdc_rest A w (fdc_out A a v f)" "port_idle t" "on_time t"
    "core t = arrived (fd_due_at (dispatch A x)) (core (dispatch A x))"
proof -
  obtain f1 where f1: "later f 1 f1" "fd_access_prev f1"
    "fdc_cycle A (io_write_bus 0xFB7F v) f = data_write A v f1"
    using out_first [of f A v] assms(1,2) by (auto simp: port_idle_def calm_def)
  define x where "x = issued v f1"
  define g where "g = dispatch A x"
  have c: "core f1 = core f" "turning f1" using f1(1) by (simp_all add: later_def)
  then have x: "core x = issued v (core f)" "turning x" by (simp_all add: x_def core_issued)
  have "seeking_data x g" using start [OF x] by (simp add: g_def)
  then have g: "fd_phase g = PH_BUSY" "fd_pending g = P_DATA_START" "fd_access_prev g" "turning g"
    "fd_now g < fd_due_at g" "fd_due_at g \<le> fd_now g + kRevCycles"
    using f1(2) by (simp_all add: seeking_data_def x_def)
  have "data_write A v f1 = g"
    using assms(1,3,4) core_fields(1,9) [OF c(1)] core_fields2(7) [OF c(1)]
    by (simp add: data_write_def Let_def g_def x_def issued_def param_added_def)
  then have first: "fdc_cycle A (io_write_bus 0xFB7F v) f = g" using f1(3) by simp
  define w where "w = max (a + 1) (fd_due_at g - fd_now g) - (a + 1)"
  define t where "t = fdc_rest A w (fdc_out A a v f)"
  have tw: "t = (fdc_cycle A bus_resting ^^ Suc w) ((fdc_cycle A (io_write_bus 0xFB7F v) ^^ a) g)"
    by (simp add: t_def fdc_rest_def fdc_out_def funpow_swap1 first)
  have due: "fd_due_at g \<le> fd_now g + a + Suc w" "fd_now g + a + Suc w \<le> fd_due_at g + a"
    using g(5) by (auto simp: w_def)
  then have t: "later (arrived (fd_due_at g) g) (a + Suc w) t" "\<not> fd_access_prev t"
    using data_arrives [OF g(4,3,1,2,5) due(1), of A v] a by (simp_all add: tw)
  have ct: "core t = arrived (fd_due_at g) (core g)" "fd_now t = fd_now g + a + Suc w"
    using t(1) by (simp_all add: later_def core_arrived) (simp add: arrived_def)
  have "fd_next_byte_at (core t) = fd_due_at g" unfolding ct(1) by (simp add: arrived_def)
  then have "fd_next_byte_at t = fd_due_at g" by simp
  then have "on_time t" using ct(2) due(2) a by (simp add: on_time_def)
  moreover have "w \<le> kRevCycles" using g(6) by (auto simp: w_def)
  ultimately show ?thesis
    using that [OF x, of w t] t t_def ct(1) by (simp add: port_idle_def later_def g_def)
qed

subsection \<open>Sector transfers\<close>

definition command_idle :: "fdc_state \<Rightarrow> bool" where
  "command_idle f \<longleftrightarrow> port_idle f \<and> fd_phase f = PH_CMD \<and> fd_cmd_count f = 0"

definition sector_bytes :: "u8 \<Rightarrow> u8 \<Rightarrow> nat" where
  "sector_bytes n dtl = (if n = 0 then min 0x80 (unat dtl) else 128 * 2 ^ unat (n AND 7))"

lemma small_u32: "m < 2 ^ 32 \<Longrightarrow> unat (word_of_nat m :: u32) = m"
  by (simp add: unsigned_of_nat take_bit_nat_eq_self)

lemma unat_xfer: "unat (xfer_length f) = sector_bytes (fd_cmd f C_N) (fd_cmd f C_DTL)"
proof (cases "fd_cmd f C_N = 0")
  case True
  then show ?thesis
    using unat_less_256 [of "fd_cmd f C_DTL"]
    by (simp add: xfer_length_def sector_bytes_def word_less_nat_alt unsigned_ucast_eq take_bit_eq_mod min_def not_le)
next
  case False
  have "fd_cmd f C_N AND 7 \<le> 7" by (rule word_and_le1)
  then have l: "unat (fd_cmd f C_N AND 7) \<le> 7" by (simp add: word_le_nat_alt)
  then have "2 ^ unat (fd_cmd f C_N AND 7) \<le> (2::nat) ^ 7" by (intro power_increasing) simp_all
  then have "128 * 2 ^ unat (fd_cmd f C_N AND 7) < (2::nat) ^ 32" by simp
  then have "unat (128 * 2 ^ unat (fd_cmd f C_N AND 7) :: u32) = 128 * 2 ^ unat (fd_cmd f C_N AND 7)"
    using small_u32 [of "128 * 2 ^ unat (fd_cmd f C_N AND 7)"] by simp
  then show ?thesis using False by (simp add: xfer_length_def sector_bytes_def push_bit_eq_mult mult.commute)
qed

lemma fdc_outs_append: "fdc_outs A a (us @ vs) f = fdc_outs A a vs (fdc_outs A a us f)"
  by (simp add: fdc_outs_def)

lemma fdc_ins_add:
  "fdc_ins A a (m + n) f =
    (fst (fdc_ins A a m f) @ fst (fdc_ins A a n (snd (fdc_ins A a m f))), snd (fdc_ins A a n (snd (fdc_ins A a m f))))"
  by (induction m arbitrary: f) (simp_all add: split_def)

text \<open>The whole command, as the bytes leave it in the command registers.\<close>

definition loaded :: "u8 list \<Rightarrow> fdc_state \<Rightarrow> fdc_state" where
  "loaded bs f = issued (last bs) (fold param_added (butlast (tl bs)) (opcode_taken (hd bs) f))"

lemma loaded_frame:
  "fd_motor_st (loaded bs f) = fd_motor_st f" "fd_media (loaded bs f) = fd_media f"
  "fd_media1 (loaded bs f) = fd_media1 f" "fd_track_pos (loaded bs f) = fd_track_pos f"
  "fd_res_len (loaded bs f) = 7" "fd_phase (loaded bs f) = fd_phase f"
proof -
  have "fd_motor_st (fold param_added vs g) = fd_motor_st g \<and> fd_media (fold param_added vs g) = fd_media g \<and>
      fd_media1 (fold param_added vs g) = fd_media1 g \<and> fd_track_pos (fold param_added vs g) = fd_track_pos g \<and>
      fd_res_len (fold param_added vs g) = fd_res_len g \<and> fd_phase (fold param_added vs g) = fd_phase g" for vs g
    by (induction vs arbitrary: g) (simp_all add: param_added_def)
  then show "fd_motor_st (loaded bs f) = fd_motor_st f" "fd_media (loaded bs f) = fd_media f"
    "fd_media1 (loaded bs f) = fd_media1 f" "fd_track_pos (loaded bs f) = fd_track_pos f"
    "fd_res_len (loaded bs f) = 7" "fd_phase (loaded bs f) = fd_phase f"
    by (simp_all add: loaded_def issued_def param_added_def opcode_taken_def)
qed

lemma loaded_cmd:
  "fd_cmd (loaded [op, ub, c, h, r, n, eot, gpl, dtl] f) C_CODE = op AND 0x1F"
  "fd_cmd (loaded [op, ub, c, h, r, n, eot, gpl, dtl] f) C_UNIT = ub"
  "fd_cmd (loaded [op, ub, c, h, r, n, eot, gpl, dtl] f) C_C = c"
  "fd_cmd (loaded [op, ub, c, h, r, n, eot, gpl, dtl] f) C_H = h"
  "fd_cmd (loaded [op, ub, c, h, r, n, eot, gpl, dtl] f) C_R = r"
  "fd_cmd (loaded [op, ub, c, h, r, n, eot, gpl, dtl] f) C_N = n"
  "fd_cmd (loaded [op, ub, c, h, r, n, eot, gpl, dtl] f) C_EOT = eot"
  "fd_cmd (loaded [op, ub, c, h, r, n, eot, gpl, dtl] f) C_DTL = dtl"
  by (simp_all add: loaded_def issued_def param_added_def opcode_taken_def cmd_index)

lemma command_bytes:
  assumes "command_idle f" "lookup_cmd (op AND 0x1F) = Some (9, 7)" "length ps = 7"
    and start: "\<And>x. core x = loaded (op # ps @ [v]) (core f) \<Longrightarrow> turning x \<Longrightarrow> seeking_data x (dispatch A x)"
    and a: "a + 2 \<le> kByteCycles"
  obtains x w t where "core x = loaded (op # ps @ [v]) (core f)" "turning x" "w \<le> kRevCycles"
    "t = fdc_rest A w (fdc_outs A a (op # ps @ [v]) f)" "port_idle t" "on_time t"
    "core t = arrived (fd_due_at (dispatch A x)) (core (dispatch A x))"
proof -
  have f: "port_idle f" "fd_phase f = PH_CMD" "fd_cmd_count f = 0" using assms(1) by (simp_all add: command_idle_def)
  let ?g = "fdc_out A a op f" let ?h = "fdc_outs A a ps ?g"
  note o = opcode_byte [OF f(2,1,3) assms(2), where A = A and a = a]
  have g: "fd_phase ?g = PH_CMD" "fd_cmd_count ?g = 1" "fd_cmd_len ?g = 9"
    using arg_cong [OF o(2), of fd_phase] arg_cong [OF o(2), of fd_cmd_count] arg_cong [OF o(2), of fd_cmd_len] f(2)
    by (simp_all add: opcode_taken_def)
  have p: "port_idle ?h" "core ?h = fold param_added ps (opcode_taken op (core f))"
    using param_bytes [OF g(1) o(1), of ps A a] g(2,3) assms(3) o(2) by simp_all
  have fr: "fd_phase (fold param_added vs k) = fd_phase k" "fd_cmd_len (fold param_added vs k) = fd_cmd_len k"
    "fd_cmd_count (fold param_added vs k) = fd_cmd_count k + length vs" for vs k
    by (induction vs arbitrary: k) simp_all
  have h: "fd_phase ?h = PH_CMD" "fd_cmd_count ?h = 8" "fd_cmd_len ?h = 9"
    using arg_cong [OF p(2), of fd_phase] arg_cong [OF p(2), of fd_cmd_count] arg_cong [OF p(2), of fd_cmd_len]
      f(2) assms(3) by (simp_all add: fr opcode_taken_def)
  have l: "loaded (op # ps @ [v]) (core f) = issued v (core ?h)" by (simp add: loaded_def p(2))
  have fin: "fdc_outs A a (op # ps @ [v]) f = fdc_out A a v ?h" by (simp add: fdc_outs_def)
  show ?thesis
    using last_byte [of ?h v A a] h p(1) start a that unfolding l fin by auto
qed

text \<open>What a completed transfer leaves in the result registers.\<close>

definition chrn_results :: "u8 \<Rightarrow> u8 list \<Rightarrow> u8 list" where
  "chrn_results ub chrn = [(ub AND 7) OR 0x40, 0x80, 0] @ chrn"

lemma finish_results:
  assumes "fd_res f R_ST1 = 0" "fd_res f R_ST2 = 0" "fd_res f R_ST0 = ub AND 7"
  shows "map (fd_res (finish_with_status f)) [0..<7] = chrn_results ub (cmd_chrn f)"
  using assms
  by (simp add: finish_with_status_def or_res_def set_res_def prioritise_def and_res_def load_result_chrn_def
      enter_result_def chrn_results_def cmd_chrn_def res_index upt_rec Let_def numeral_eq_Suc)

lemma results_read:
  assumes "port_idle t" "core t = finish_with_status f" "fd_res_len f = 7"
    and "fd_res f R_ST1 = 0" "fd_res f R_ST2 = 0" "fd_res f R_ST0 = ub AND 7"
  obtains g where "fdc_ins A a 7 t = (map (\<lambda>b. [Dr_data b]) (chrn_results ub (cmd_chrn f)), g)" "command_idle g"
    "fd_media g = fd_media f" "fd_media1 g = fd_media1 f" "fd_track_pos g = fd_track_pos f"
proof -
  have t: "fd_phase t = PH_RESULT" "fd_res t = fd_res (finish_with_status f)" "fd_res_count t = 0" "fd_res_len t = 7"
    "fd_media t = fd_media f" "fd_media1 t = fd_media1 f" "fd_track_pos t = fd_track_pos f"
    using arg_cong [OF assms(2), of fd_phase] arg_cong [OF assms(2), of fd_res] arg_cong [OF assms(2), of fd_res_count]
      arg_cong [OF assms(2), of fd_res_len] arg_cong [OF assms(2), of fd_media] arg_cong [OF assms(2), of fd_media1]
      arg_cong [OF assms(2), of fd_track_pos] assms(3) by simp_all
  obtain g where g: "fdc_ins A a 7 t = (map (\<lambda>k. [Dr_data (fd_res t (fd_res_count t + k))]) [0..<7], g)" "port_idle g"
    "core g = (core t)\<lparr>fd_res_count := fd_res_len t, fd_phase := PH_CMD, fd_cmd_count := 0\<rparr>"
    using result_bytes [OF t(1) assms(1), where n = 7 and A = A and a = a] t(3,4) by auto
  have "fd_phase (core g) = PH_CMD" "fd_cmd_count (core g) = 0" "fd_media (core g) = fd_media f"
    "fd_media1 (core g) = fd_media1 f" "fd_track_pos (core g) = fd_track_pos f"
    unfolding g(3) using t by simp_all
  then have gf: "fd_phase g = PH_CMD" "fd_cmd_count g = 0" "fd_media g = fd_media f"
    "fd_media1 g = fd_media1 f" "fd_track_pos g = fd_track_pos f" by simp_all
  have "map (\<lambda>k. [Dr_data (fd_res t (fd_res_count t + k))]) [0..<7] =
      map (\<lambda>b. [Dr_data b]) (map (fd_res (finish_with_status f)) [0..<7])"
    by (simp add: t(2,3))
  then have "fdc_ins A a 7 t = (map (\<lambda>b. [Dr_data b]) (chrn_results ub (cmd_chrn f)), g)"
    using g(1) finish_results [OF assms(4-6)] by simp
  with g(2) gf that [of g] show ?thesis by (simp add: command_idle_def)
qed

text \<open>A sector of size code \<open>n\<close> on the disc under the head a command byte \<open>ub\<close> names.\<close>

definition sector_here :: "fdc_state \<Rightarrow> u8 \<Rightarrow> fdc_sector \<Rightarrow> u8 list \<Rightarrow> nat \<Rightarrow> bool" where
  "sector_here f ub sec p len \<longleftrightarrow>
     (let u = unat (ub AND 1) in on_disc f u (side_of f u (unat (drop_bit 2 ub AND 1))) sec p len)"

lemma addressed_loaded:
  assumes "core x = loaded [op, ub, c, h, r, n, eot, gpl, dtl] (core f)" "turning x"
    "sector_here f ub sec p (sector_bytes n dtl)" "fs_chrn sec = [c, h, r, n]"
  shows "addressed x sec p" "fd_cmd x C_CODE = op AND 0x1F" "unit_of x = unat (ub AND 1)"
    "cmd_chrn x = [c, h, r, n]" "unat (xfer_length x) = sector_bytes n dtl" "fd_res_len x = 7"
    "fd_media x = fd_media f" "fd_media1 x = fd_media1 f" "fd_track_pos x = fd_track_pos f"
    "fd_cmd x C_R = r" "fd_cmd x C_EOT = eot" "fd_cmd x C_UNIT = ub"
proof -
  have cmd: "fd_cmd x k = fd_cmd (loaded [op, ub, c, h, r, n, eot, gpl, dtl] (core f)) k" for k
    using core_sel(2) [of x] assms(1) by simp
  show "fd_cmd x C_CODE = op AND 0x1F" "unit_of x = unat (ub AND 1)" "cmd_chrn x = [c, h, r, n]"
    "fd_cmd x C_R = r" "fd_cmd x C_EOT = eot" "fd_cmd x C_UNIT = ub"
    by (simp_all add: cmd loaded_cmd unit_of_def cmd_chrn_def)
  show len: "unat (xfer_length x) = sector_bytes n dtl" by (simp add: unat_xfer cmd loaded_cmd)
  have "fd_res_len (core x) = 7" "fd_media (core x) = fd_media f" "fd_media1 (core x) = fd_media1 f"
    "fd_track_pos (core x) = fd_track_pos f"
    unfolding assms(1) by (simp_all add: loaded_frame)
  then show fr: "fd_res_len x = 7" "fd_media x = fd_media f" "fd_media1 x = fd_media1 f"
    "fd_track_pos x = fd_track_pos f" by simp_all
  have "unit_of x = unat (ub AND 1)" "head_of x = unat (drop_bit 2 ub AND 1)" "fs_chrn sec = cmd_chrn x"
    using assms(4) by (simp_all add: cmd loaded_cmd unit_of_def head_of_def cmd_chrn_def)
  with assms(2,3) len on_disc_cong [OF fr(2-4)] show "addressed x sec p"
    by (simp add: addressed_def sector_here_def turning_def Let_def)
qed

lemma read_phase:
  assumes "command_idle f" "op AND 0x1F = 0x06" "sector_here f ub sec p (sector_bytes n dtl)"
    "fs_chrn sec = [c, h, r, n]" "a + 2 \<le> kByteCycles"
  obtains w t where "w \<le> kRevCycles" "t = fdc_rest A w (fdc_outs A a [op, ub, c, h, r, n, r, gpl, dtl] f)"
    "port_idle t" "on_time t" "reading t p (sector_bytes n dtl)" "fd_data_pos t = fs_off sec"
    "fd_res t R_ST0 = ub AND 7" "fd_res t R_ST1 = 0" "fd_res t R_ST2 = 0" "cmd_chrn t = [c, h, r, n]"
    "fd_res_len t = 7" "fd_media t = fd_media f" "fd_media1 t = fd_media1 f" "fd_track_pos t = fd_track_pos f"
proof -
  let ?bs = "[op, ub, c, h, r, n, r, gpl, dtl]"
  have start: "seeking_data x (dispatch A x)" if "core x = loaded ?bs (core f)" "turning x" for x
  proof -
    note x = addressed_loaded [OF that assms(3,4)]
    obtain i o2 due where "fd_now x < due" "due \<le> fd_now x + kRevCycles"
      "dispatch A x = started True (here x (unit_of x) (side_of x (unit_of x) (head_of x))) sec i o2 due (ranked x)"
      using read_started [OF x(1) trans [OF x(2) assms(2)], of A] by blast
    then show ?thesis using seeking_started(1) [OF that(2)] by simp
  qed
  obtain x w t where x: "core x = loaded ?bs (core f)" "turning x" and w: "w \<le> kRevCycles"
    and t: "t = fdc_rest A w (fdc_outs A a ?bs f)" "port_idle t" "on_time t"
      "core t = arrived (fd_due_at (dispatch A x)) (core (dispatch A x))"
    using command_bytes [where f = f and op = op and ps = "[ub, c, h, r, n, r, gpl]" and v = dtl and A = A and a = a]
      assms(1,2,5) start by (auto simp: lookup_cmd_def)
  note ax = addressed_loaded [OF x assms(3,4)]
  obtain i o2 due where d:
    "dispatch A x = started True (here x (unit_of x) (side_of x (unit_of x) (head_of x))) sec i o2 due (ranked x)"
    using read_started [OF ax(1) trans [OF ax(2) assms(2)], of A] by blast
  define s where "s = arrived (fd_due_at (dispatch A x)) (dispatch A x)"
  have ct: "core t = core s" using t(4) by (simp add: s_def core_arrived)
  have od: "on_disc x (unit_of x) (side_of x (unit_of x) (head_of x)) sec p (sector_bytes n dtl)"
    using ax(1,5) by (simp add: addressed_def)
  have sf: "unit_of s = unit_of x" "sel_media s u = sel_media x u" "fd_res s = (fd_res (ranked x))(R_ST1 := 0, R_ST2 := 0)"
    "fd_cmd s = fd_cmd x" "fd_data_pos s = fs_off sec" "fd_res_len s = 7" "fd_media s = fd_media f" "fd_media1 s = fd_media1 f"
    "fd_track_pos s = fd_track_pos f" "cmd_chrn s = [c, h, r, n]" for u
    using ax(4,6-9)
    by (simp_all add: s_def d arrived_def started_def ranked_def unit_of_def sel_media_def cmd_chrn_def)
  have "reading s p (sector_bytes n dtl)"
    using od ax(5,10,11) unfolding reading_def sf(1,2,3,4,5)
    by (simp add: s_def d arrived_def started_def on_disc_def here_def Let_def res_index)
  then have r: "reading t p (sector_bytes n dtl)" using ct reading_core by metis
  have res: "fd_res s R_ST0 = ub AND 7" "fd_res s R_ST1 = 0" "fd_res s R_ST2 = 0"
    unfolding sf(3) using ax(12) by (simp_all add: ranked_def res_index)
  have "cmd_chrn t = cmd_chrn s" using core_sel(2) [of t] core_sel(2) [of s] ct by (simp add: cmd_chrn_def)
  then show ?thesis
    using that [OF w t(1-3) r] sf res core_fields [OF ct] core_fields2 [OF ct] by simp
qed

text \<open>READ DATA: the sector's bytes, then the result bytes, and the controller takes commands again.\<close>

lemma read_data:
  assumes "command_idle f" "op AND 0x1F = 0x06" "sector_here f ub sec p (sector_bytes n dtl)"
    "fs_chrn sec = [c, h, r, n]" "a + 2 \<le> kByteCycles" "0 < sector_bytes n dtl"
  obtains w g where "w \<le> kRevCycles"
    "fdc_ins A a (sector_bytes n dtl + 7) (fdc_rest A w (fdc_outs A a [op, ub, c, h, r, n, r, gpl, dtl] f)) =
      (map (\<lambda>b. [Dr_data b]) (take (sector_bytes n dtl) (drop (fs_off sec) p) @ chrn_results ub [c, h, r, n]), g)"
    "command_idle g" "fd_media g = fd_media f" "fd_media1 g = fd_media1 f" "fd_track_pos g = fd_track_pos f"
proof -
  let ?n = "sector_bytes n dtl"
  obtain w t where w: "w \<le> kRevCycles" and t: "t = fdc_rest A w (fdc_outs A a [op, ub, c, h, r, n, r, gpl, dtl] f)"
    "port_idle t" "on_time t" "reading t p ?n" "fd_data_pos t = fs_off sec"
    and e: "fd_res t R_ST0 = ub AND 7" "fd_res t R_ST1 = 0" "fd_res t R_ST2 = 0" "cmd_chrn t = [c, h, r, n]"
      "fd_res_len t = 7" "fd_media t = fd_media f" "fd_media1 t = fd_media1 f" "fd_track_pos t = fd_track_pos f"
    using read_phase [OF assms(1-5)] by blast
  obtain k where k: "fst (fdc_ins A a ?n t) = map (\<lambda>b. [Dr_data b]) (take ?n (drop (fd_data_pos t) p))"
    "port_idle (snd (fdc_ins A a ?n t))" "core (snd (fdc_ins A a ?n t)) = finish_with_status (delivered k)"
    "fd_cmd k = fd_cmd t" "fd_res k = fd_res t" "fd_media k = fd_media t" "fd_media1 k = fd_media1 t"
    "fd_track_pos k = fd_track_pos t" "fd_res_len k = fd_res_len t"
    using read_bytes [OF t(4) assms(6) t(2,3) assms(5)] by blast
  have "cmd_chrn (delivered k) = [c, h, r, n]" using e(4) k(4) by (simp add: cmd_chrn_def)
  then obtain g where
    "fdc_ins A a 7 (snd (fdc_ins A a ?n t)) = (map (\<lambda>b. [Dr_data b]) (chrn_results ub [c, h, r, n]), g)"
    "command_idle g" "fd_media g = fd_media f" "fd_media1 g = fd_media1 f" "fd_track_pos g = fd_track_pos f"
    using results_read [OF k(2,3), of ub A a] k(5-9) e by auto
  then show ?thesis
    using that [OF w, of g] k(1) t(5) by (simp add: fdc_ins_add [of A a ?n 7] flip: t(1))
qed

lemma write_phase:
  assumes "command_idle f" "op AND 0x1F = 0x05" "sector_here f ub sec p (sector_bytes n dtl)"
    "fs_chrn sec = [c, h, r, n]" "a + 2 \<le> kByteCycles" "\<not> fm_backing_flux (sel_media f (unat (ub AND 1)))"
  obtains w t where "w \<le> kRevCycles" "t = fdc_rest A w (fdc_outs A a [op, ub, c, h, r, n, r, gpl, dtl] f)"
    "port_idle t" "on_time t" "writing t p (sector_bytes n dtl)" "fd_data_pos t = fs_off sec"
    "fd_res t R_ST0 = ub AND 7" "fd_res t R_ST1 = 0" "fd_res t R_ST2 = 0" "cmd_chrn t = [c, h, r, n]"
    "fd_res_len t = 7" "fd_media t = fd_media f" "fd_media1 t = fd_media1 f" "fd_track_pos t = fd_track_pos f"
    "unit_of t = unat (ub AND 1)"
proof -
  let ?bs = "[op, ub, c, h, r, n, r, gpl, dtl]" let ?u = "unat (ub AND 1)"
  have flux: "\<not> fm_backing_flux (sel_media x (unit_of x))" if "core x = loaded ?bs (core f)" "turning x" for x
    using addressed_loaded [OF that assms(3,4)] assms(6) by (simp add: sel_media_def split: if_splits)
  have start: "seeking_data x (dispatch A x)" if "core x = loaded ?bs (core f)" "turning x" for x
  proof -
    note x = addressed_loaded [OF that assms(3,4)] and nf = flux [OF that]
    obtain i o2 due where "fd_now x < due" "due \<le> fd_now x + kRevCycles"
      "dispatch A x = started False (here x (unit_of x) (side_of x (unit_of x) (head_of x))) sec i o2 due
         (ranked (x\<lparr>fd_wr_deleted := False\<rparr>))"
      using write_started [OF x(1) trans [OF x(2) assms(2)] nf, of A] by blast
    then show ?thesis using seeking_started(2) [OF that(2)] by simp
  qed
  obtain x w t where x: "core x = loaded ?bs (core f)" "turning x" and w: "w \<le> kRevCycles"
    and t: "t = fdc_rest A w (fdc_outs A a ?bs f)" "port_idle t" "on_time t"
      "core t = arrived (fd_due_at (dispatch A x)) (core (dispatch A x))"
    using command_bytes [where f = f and op = op and ps = "[ub, c, h, r, n, r, gpl]" and v = dtl and A = A and a = a]
      assms(1,2,5) start by (auto simp: lookup_cmd_def)
  note ax = addressed_loaded [OF x assms(3,4)]
  obtain i o2 due where d:
    "dispatch A x = started False (here x (unit_of x) (side_of x (unit_of x) (head_of x))) sec i o2 due
       (ranked (x\<lparr>fd_wr_deleted := False\<rparr>))"
    using write_started [OF ax(1) trans [OF ax(2) assms(2)] flux [OF x], of A] by blast
  define s where "s = arrived (fd_due_at (dispatch A x)) (dispatch A x)"
  have ct: "core t = core s" using t(4) by (simp add: s_def core_arrived)
  have od: "on_disc x (unit_of x) (side_of x (unit_of x) (head_of x)) sec p (sector_bytes n dtl)"
    using ax(1,5) by (simp add: addressed_def)
  have sf: "unit_of s = unit_of x" "sel_media s u = sel_media x u" "fd_res s = (fd_res (ranked x))(R_ST1 := 0, R_ST2 := 0)"
    "fd_cmd s = fd_cmd x" "fd_data_pos s = fs_off sec" "fd_res_len s = 7" "fd_media s = fd_media f" "fd_media1 s = fd_media1 f"
    "fd_track_pos s = fd_track_pos f" "cmd_chrn s = [c, h, r, n]" for u
    using ax(4,6-9)
    by (simp_all add: s_def d arrived_def started_def ranked_def unit_of_def sel_media_def cmd_chrn_def)
  have "fd_remaining s = xfer_length x"
    by (simp add: s_def d arrived_def started_def ranked_def xfer_length_def)
  then have "writing s p (sector_bytes n dtl)"
    using od ax(2,5,10,11) assms(2) unfolding writing_def sf(1,2,4,5)
    by (simp add: s_def d arrived_def started_def ranked_def on_disc_def here_def Let_def)
  then have r: "writing t p (sector_bytes n dtl)" using ct writing_core by metis
  have res: "fd_res s R_ST0 = ub AND 7" "fd_res s R_ST1 = 0" "fd_res s R_ST2 = 0"
    unfolding sf(3) using ax(12) by (simp_all add: ranked_def res_index)
  have "cmd_chrn t = cmd_chrn s" "unit_of t = unit_of s"
    using core_sel(2) [of t] core_sel(2) [of s] ct by (simp_all add: cmd_chrn_def unit_of_def)
  then show ?thesis
    using that [OF w t(1-3) r] sf res ax(3) core_fields [OF ct] core_fields2 [OF ct] by simp
qed

lemma write_data:
  assumes "command_idle f" "op AND 0x1F = 0x05" "sector_here f ub sec p (sector_bytes n dtl)"
    "fs_chrn sec = [c, h, r, n]" "a + 2 \<le> kByteCycles" "\<not> fm_backing_flux (sel_media f (unat (ub AND 1)))"
    "0 < sector_bytes n dtl" "length vs = sector_bytes n dtl"
  obtains w t g where "w \<le> kRevCycles"
    "t = fdc_outs A a vs (fdc_rest A w (fdc_outs A a [op, ub, c, h, r, n, r, gpl, dtl] f))"
    "fdc_ins A a 7 t = (map (\<lambda>b. [Dr_data b]) (chrn_results ub [c, h, r, n]), g)"
    "command_idle g" "fd_track_pos g = fd_track_pos f"
    "\<And>v. sel_media g v = media_after f (unat (ub AND 1)) (put_list (fs_off sec) vs p) v"
proof -
  obtain w t where w: "w \<le> kRevCycles" and t: "t = fdc_rest A w (fdc_outs A a [op, ub, c, h, r, n, r, gpl, dtl] f)"
    "port_idle t" "on_time t" "writing t p (sector_bytes n dtl)" "fd_data_pos t = fs_off sec"
    and e: "fd_res t R_ST0 = ub AND 7" "fd_res t R_ST1 = 0" "fd_res t R_ST2 = 0" "cmd_chrn t = [c, h, r, n]"
      "fd_res_len t = 7" "fd_media t = fd_media f" "fd_media1 t = fd_media1 f" "fd_track_pos t = fd_track_pos f"
      "unit_of t = unat (ub AND 1)"
    using write_phase [OF assms(1-6)] by blast
  have ne: "vs \<noteq> []" using assms(7,8) by auto
  obtain k where k: "port_idle (fdc_outs A a vs t)" "core (fdc_outs A a vs t) = stored_sector k"
    "fd_cmd k = fd_cmd t" "fd_res k = fd_res t" "fd_track_pos k = fd_track_pos t" "fd_res_len k = fd_res_len t"
    "\<And>v. sel_media k v = media_after t (unit_of t) (put_list (fd_data_pos t) vs p) v"
    using write_bytes [OF _ ne t(2,3) assms(5), of p A] t(4) assms(8) by auto
  let ?k = "k\<lparr>fd_sector_idx := fd_sector_idx k + 1\<rparr>"
  have ck: "cmd_chrn ?k = [c, h, r, n]" using e(4) k(3) by (simp add: cmd_chrn_def)
  obtain g where g:
    "fdc_ins A a 7 (fdc_outs A a vs t) = (map (\<lambda>b. [Dr_data b]) (chrn_results ub [c, h, r, n]), g)"
    "command_idle g" "fd_media g = fd_media k" "fd_media1 g = fd_media1 k" "fd_track_pos g = fd_track_pos k"
    using results_read [of "fdc_outs A a vs t" ?k ub A a] k(1,2,4-6) ck e by (auto simp: stored_sector_def)
  have "sel_media g v = sel_media k v" "sel_media t v = sel_media f v" for v
    using g(3,4) e(6,7) by (simp_all add: sel_media_def)
  then have "sel_media g v = media_after f (unat (ub AND 1)) (put_list (fs_off sec) vs p) v" for v
    using k(7) e(9) t(5) by (simp add: media_after_def)
  with g k(5) e(8) show ?thesis
    using that [OF w, of "fdc_outs A a vs t" g] by (simp add: t(1))
qed

lemma put_list_take: "off + length vs \<le> length p \<Longrightarrow> take (length vs) (drop off (put_list off vs p)) = vs"
  by (simp add: put_list_def)

lemma length_put_list [simp]: "off + length vs \<le> length p \<Longrightarrow> length (put_list off vs p) = length p"
  by (simp add: put_list_def)

lemma sector_here_rewritten:
  assumes "sector_here f ub sec p n" "\<And>v. sel_media g v = media_after f (unat (ub AND 1)) p' v"
    "fd_track_pos g = fd_track_pos f" "length p' = length p"
  shows "sector_here g ub sec p' n"
  using assms(1,4)
  by (simp add: sector_here_def on_disc_def side_of_def here_def assms(2,3) media_after_def rewritten_def Let_def
      flux_backed_def serve_from_flux_def)

lemma sector_here_fits: "sector_here f ub sec p n \<Longrightarrow> fs_off sec + n \<le> length p"
  by (simp add: sector_here_def on_disc_def Let_def)

subsection \<open>Properties\<close>

text \<open>Exact arithmetic for the PLL, to instantiate the parameter.\<close>

definition exact_arith :: "rat arith" where
  "exact_arith = \<lparr> ar_of_nat = of_nat, ar_dec = (\<lambda>m e. of_nat m / 10 ^ e), ar_add = (+), ar_sub = (-), ar_mul = (*),
     ar_div = (/), ar_less = (<), ar_trunc = (\<lambda>x. if x < 0 then \<lceil>x\<rceil> else \<lfloor>x\<rfloor>) \<rparr>"

text \<open>A drive whose motor is up, holding a one-sector track, for the witnesses.\<close>

definition demo_sector :: fdc_sector where
  "demo_sector = \<lparr> fs_chrn = [0, 0, 0xC1, 0], fs_st1 = 0, fs_st2 = 0, fs_off = 4, fs_stored = 2, fs_idam_at = 100,
     fs_data_at = 200 \<rparr>"

definition demo_drive :: fdc_state where
  "demo_drive = fdc_init\<lparr>fd_motor := True, fd_motor_st := M_READY, fd_media := empty_media
     \<lparr>fm_image := Some [1, 2, 3, 4, 5, 6, 7, 8], fm_tracks := 1, fm_sides := 1,
      fm_track := (\<lambda>_ _. \<lparr> ft_sec = [demo_sector], ft_data_off = 4, ft_data_len = 4 \<rparr>)\<rparr>\<rparr>"

lemma demo_drive_idle: "command_idle demo_drive"
  by (simp add: command_idle_def port_idle_def turning_def demo_drive_def fdc_init_def kRevCycles_def)

lemma demo_drive_sector: "sector_here demo_drive 0 demo_sector [1, 2, 3, 4, 5, 6, 7, 8] 2"
  by (simp add: sector_here_def on_disc_def side_of_def here_def demo_drive_def fdc_init_def empty_media_def
      demo_sector_def sel_media_def flux_backed_def serve_from_flux_def kRevCycles_def kByteCycles_def)

text \<open>C14 (fdc_read_data): READ DATA over the bus returns the sector. On an idle controller whose drive is up, a host
  sends the nine command bytes for a sector \<open>[c, h, r, n]\<close> that the track under the addressed head holds once
  and free of errors, each access keeping its strobe for \<open>a + 1\<close> cycles. Then within one revolution of waiting
  the execution phase has started in time to be served, and the next reads of the data register give exactly
  the sector's bytes followed by the seven result bytes (end of track, no error, the sector's ID); the
  controller is idle again and the media are as before.\<close>

theorem fdc_read_data:
  assumes "command_idle f" "op AND 0x1F = 0x06" "sector_here f ub sec p (sector_bytes n dtl)"
    "fs_chrn sec = [c, h, r, n]" "a + 2 \<le> kByteCycles" "0 < sector_bytes n dtl"
  shows "\<exists>w \<le> kRevCycles. \<exists>g.
    fdc_ins A a (sector_bytes n dtl + 7) (fdc_rest A w (fdc_outs A a [op, ub, c, h, r, n, r, gpl, dtl] f)) =
      (map (\<lambda>b. [Dr_data b]) (take (sector_bytes n dtl) (drop (fs_off sec) p) @ chrn_results ub [c, h, r, n]), g) \<and>
    command_idle g \<and> fd_media g = fd_media f \<and> fd_media1 g = fd_media1 f"
proof -
  from read_data [OF assms, of A gpl] obtain w g where "w \<le> kRevCycles"
    "fdc_ins A a (sector_bytes n dtl + 7) (fdc_rest A w (fdc_outs A a [op, ub, c, h, r, n, r, gpl, dtl] f)) =
      (map (\<lambda>b. [Dr_data b]) (take (sector_bytes n dtl) (drop (fs_off sec) p) @ chrn_results ub [c, h, r, n]), g)"
    "command_idle g" "fd_media g = fd_media f" "fd_media1 g = fd_media1 f" .
  then show ?thesis by blast
qed

theorem fdc_read_data_witness:
  "\<exists>w \<le> kRevCycles. \<exists>g.
    fdc_ins exact_arith 3 9 (fdc_rest exact_arith w (fdc_outs exact_arith 3 [0x46, 0, 0, 0, 0xC1, 0, 0xC1, 0x2A, 2] demo_drive)) =
      (map (\<lambda>b. [Dr_data b]) [5, 6, 0x40, 0x80, 0, 0, 0, 0xC1, 0], g) \<and>
    command_idle g \<and> fd_media g = fd_media demo_drive \<and> fd_media1 g = fd_media1 demo_drive"
  using fdc_read_data [where f = demo_drive and op = "0x46" and ub = 0 and sec = demo_sector and p = "[1, 2, 3, 4, 5, 6, 7, 8]" and n = 0
      and dtl = 2 and c = 0 and h = 0 and r = "0xC1" and a = 3 and A = exact_arith and gpl = "0x2A"] demo_drive_idle demo_drive_sector
  by (simp add: sector_bytes_def demo_sector_def kByteCycles_def chrn_results_def)

text \<open>C13 (fdc_write_read): a sector written over the bus reads back. The nine bytes of a WRITE DATA command, the
  sector's worth of bytes \<open>vs\<close>, the seven result bytes, and then a READ DATA command for the same sector:
  the reads return \<open>vs\<close>, both result phases report success, and in the image only the bytes at the
  sector's offset have changed.\<close>

theorem fdc_write_read:
  assumes "command_idle f" "wop AND 0x1F = 0x05" "rop AND 0x1F = 0x06"
    "sector_here f ub sec p (sector_bytes n dtl)" "fs_chrn sec = [c, h, r, n]" "a + 2 \<le> kByteCycles"
    "0 < sector_bytes n dtl" "length vs = sector_bytes n dtl" "\<not> fm_backing_flux (sel_media f (unat (ub AND 1)))"
  shows "\<exists>w1 \<le> kRevCycles. \<exists>w2 \<le> kRevCycles. \<exists>g h'.
    fdc_ins A a 7 (fdc_outs A a vs (fdc_rest A w1 (fdc_outs A a [wop, ub, c, h, r, n, r, gpl, dtl] f))) =
      (map (\<lambda>b. [Dr_data b]) (chrn_results ub [c, h, r, n]), g) \<and>
    fdc_ins A a (length vs + 7) (fdc_rest A w2 (fdc_outs A a [rop, ub, c, h, r, n, r, gpl, dtl] g)) =
      (map (\<lambda>b. [Dr_data b]) (vs @ chrn_results ub [c, h, r, n]), h') \<and>
    command_idle h' \<and> fm_image (sel_media h' (unat (ub AND 1))) = Some (put_list (fs_off sec) vs p)"
proof -
  let ?u = "unat (ub AND 1)" let ?p = "put_list (fs_off sec) vs p"
  have fit: "fs_off sec + length vs \<le> length p" using sector_here_fits [OF assms(4)] assms(8) by simp
  obtain w1 t g where w: "w1 \<le> kRevCycles"
    "t = fdc_outs A a vs (fdc_rest A w1 (fdc_outs A a [wop, ub, c, h, r, n, r, gpl, dtl] f))"
    "fdc_ins A a 7 t = (map (\<lambda>b. [Dr_data b]) (chrn_results ub [c, h, r, n]), g)"
    "command_idle g" "fd_track_pos g = fd_track_pos f" "\<And>v. sel_media g v = media_after f ?u ?p v"
    using write_data [OF assms(1,2,4,5,6,9,7,8), of A gpl] by blast
  have s: "sector_here g ub sec ?p (sector_bytes n dtl)"
    by (rule sector_here_rewritten [OF assms(4) w(6,5)]) (simp add: fit)
  obtain w2 h' where r: "w2 \<le> kRevCycles"
    "fdc_ins A a (sector_bytes n dtl + 7) (fdc_rest A w2 (fdc_outs A a [rop, ub, c, h, r, n, r, gpl, dtl] g)) =
      (map (\<lambda>b. [Dr_data b]) (take (sector_bytes n dtl) (drop (fs_off sec) ?p) @ chrn_results ub [c, h, r, n]), h')"
    "command_idle h'" "fd_media h' = fd_media g" "fd_media1 h' = fd_media1 g"
    using read_data [OF w(4) assms(3) s assms(5,6,7), of A gpl] .
  have "sel_media h' ?u = rewritten (sel_media f ?u) ?p"
    using r(4,5) w(6) [of ?u] by (simp add: sel_media_def media_after_def split: if_splits)
  then have "fm_image (sel_media h' ?u) = Some ?p" by (simp add: rewritten_def)
  then show ?thesis
    using w r(1-3) put_list_take [OF fit] assms(8) by auto
qed

theorem fdc_write_read_witness:
  "\<exists>w1 \<le> kRevCycles. \<exists>w2 \<le> kRevCycles. \<exists>g h'.
    fdc_ins exact_arith 3 7 (fdc_outs exact_arith 3 [0xAB, 0xCD] (fdc_rest exact_arith w1 (fdc_outs exact_arith 3 [0x45, 0, 0, 0, 0xC1, 0, 0xC1, 0x2A, 2] demo_drive))) =
      (map (\<lambda>b. [Dr_data b]) [0x40, 0x80, 0, 0, 0, 0xC1, 0], g) \<and>
    fdc_ins exact_arith 3 9 (fdc_rest exact_arith w2 (fdc_outs exact_arith 3 [0x46, 0, 0, 0, 0xC1, 0, 0xC1, 0x2A, 2] g)) =
      (map (\<lambda>b. [Dr_data b]) [0xAB, 0xCD, 0x40, 0x80, 0, 0, 0, 0xC1, 0], h') \<and>
    command_idle h' \<and> fm_image (fd_media h') = Some [1, 2, 3, 4, 0xAB, 0xCD, 7, 8]"
  using fdc_write_read [where f = demo_drive and wop = "0x45" and rop = "0x46" and ub = 0 and sec = demo_sector
      and p = "[1, 2, 3, 4, 5, 6, 7, 8]" and n = 0 and dtl = 2 and c = 0 and h = 0 and r = "0xC1" and a = 3
      and vs = "[0xAB, 0xCD]" and A = exact_arith and gpl = "0x2A"] demo_drive_idle demo_drive_sector
  by (simp add: sector_bytes_def demo_sector_def kByteCycles_def chrn_results_def put_list_def sel_media_def
      demo_drive_def fdc_init_def empty_media_def)

end
