(* ===== verification/Fdc_Phases.thy ===== *)
theory Fdc_Phases
  imports Fdc_Transfer
begin

text \<open>
  The controller's phases: the indices into the command, result and FORMAT buffers stay inside them whatever
  the buses and the host do, and no state keeps a resting bus waiting for ever.
\<close>

subsection \<open>The state machine's bookkeeping\<close>

definition fsm_view :: "fdc_state \<Rightarrow> phase \<times> nat \<times> nat \<times> nat \<times> nat \<times> (nat \<Rightarrow> u8) \<times> nat \<times> pending \<times> bool" where
  "fsm_view f = (fd_phase f, fd_cmd_count f, fd_cmd_len f, fd_res_len f, fd_res_count f, fd_cmd f, fd_fmt_pos f, fd_pending f,
     fd_dir_to_cpu f)"

definition fsm_ok :: "fdc_state \<Rightarrow> bool" where
  "fsm_ok f \<longleftrightarrow> fd_res_len f \<le> 7 \<and>
     (case fd_phase f of
        PH_CMD \<Rightarrow> fd_cmd_count f = 0 \<or>
          (fd_cmd_count f < fd_cmd_len f \<and> fd_cmd_len f \<le> 9 \<and> lookup_cmd (fd_cmd f 0) = Some (fd_cmd_len f, fd_res_len f))
      | PH_RESULT \<Rightarrow> fd_res_count f < fd_res_len f
      | PH_EXEC \<Rightarrow> 0 < fd_res_len f \<and>
          (fd_cmd f C_CODE = 0x0D \<longrightarrow> \<not> fd_dir_to_cpu f \<and> fd_fmt_pos f < 4 * unat (fd_cmd f 3) \<and> unat (fd_cmd f 3) \<le> kMaxSectors)
      | PH_BUSY \<Rightarrow> 0 < fd_res_len f \<and> (fd_pending f = P_DATA_START \<longrightarrow> fd_cmd f C_CODE \<noteq> 0x0D))"

lemma fsm_cong: "fsm_view g = fsm_view f \<Longrightarrow> fsm_ok g = fsm_ok f"
  by (simp add: fsm_view_def fsm_ok_def split: phase.split)

lemma fsm_view_sel:
  assumes "fsm_view g = fsm_view f"
  shows "fd_phase g = fd_phase f" "fd_cmd_count g = fd_cmd_count f" "fd_cmd_len g = fd_cmd_len f"
    "fd_res_len g = fd_res_len f" "fd_res_count g = fd_res_count f" "fd_cmd g = fd_cmd f" "fd_fmt_pos g = fd_fmt_pos f"
    "fd_pending g = fd_pending f" "fd_dir_to_cpu g = fd_dir_to_cpu f"
  using assms by (simp_all add: fsm_view_def)

lemma view_res [simp]:
  "fsm_view (set_res i v f) = fsm_view f" "fsm_view (or_res i v f) = fsm_view f" "fsm_view (and_res i v f) = fsm_view f"
  "fsm_view (load_result_chrn f) = fsm_view f" "fsm_view (upd_media u k f) = fsm_view f"
  "fsm_view (push_fdc_event ty a f) = fsm_view f" "fsm_view (ensure_flux_cache A f) = fsm_view f"
  "fsm_view (promote_flux_track u f) = fsm_view f" "fsm_view (set_track_at r tk f) = fsm_view f"
  by (simp_all add: fsm_view_def set_res_def or_res_def and_res_def load_result_chrn_def upd_media_def
      push_fdc_event_def store_fdc_event_def ensure_flux_cache_def promote_flux_track_def set_track_at_def Let_def
      split: trk_ref.splits)

lemma view_prioritise [simp]: "fsm_view (prioritise f) = fsm_view f"
  by (simp add: prioritise_def Let_def)

lemma view_head_track: "head_track A u h f = (r, g) \<Longrightarrow> fsm_view g = fsm_view f"
  by (auto simp: head_track_def Let_def split: if_splits)

lemma view_init_status: "init_status u f = (b, g) \<Longrightarrow> fsm_view g = fsm_view f"
  by (auto simp: init_status_def fsm_view_def Let_def)

lemma view_find_sector: "find_sector trk f = (r, g) \<Longrightarrow> fsm_view g = fsm_view f"
  by (auto simp: find_sector_def Let_def fsm_view_def set_res_def split: prod.splits)

lemma view_mark_deleted [simp]: "fsm_view (mark_deleted A f) = fsm_view f"
proof -
  obtain r g where h: "head_track A (unit_of f) (head_of f) f = (r, g)" by fastforce
  show ?thesis
    using view_head_track [OF h] by (simp add: mark_deleted_def h Let_def split: option.split)
qed

text \<open>Which states a handler may leave behind.\<close>

definition concluding :: "fdc_state \<Rightarrow> bool" where
  "concluding f \<longleftrightarrow> 0 < fd_res_len f \<and> fd_res_len f \<le> 7"

lemma concluding_cong: "fsm_view g = fsm_view f \<Longrightarrow> concluding g = concluding f"
  by (simp add: concluding_def fsm_view_def)

lemma concluding_frame [simp]:
  "concluding (set_res i v f) = concluding f" "concluding (or_res i v f) = concluding f"
  "concluding (and_res i v f) = concluding f" "concluding (load_result_chrn f) = concluding f"
  "concluding (upd_media u k f) = concluding f" "concluding (prioritise f) = concluding f"
  "concluding (promote_flux_track u f) = concluding f" "concluding (mark_deleted A f) = concluding f"
  by (rule concluding_cong, simp)+

lemma enter_result_ok: "concluding f \<Longrightarrow> fsm_ok (enter_result f)"
  by (simp add: concluding_def enter_result_def fsm_ok_def)

lemma enter_cmd_ok: "fd_res_len f \<le> 7 \<Longrightarrow> fsm_ok (enter_cmd f)"
  by (simp add: enter_cmd_def fsm_ok_def)

lemma finish_ok: "concluding f \<Longrightarrow> fsm_ok (finish_with_status f)"
  unfolding finish_with_status_def
  by (rule enter_result_ok) simp

lemma busy_ok:
  assumes "concluding f" "p = P_DATA_START \<longrightarrow> fd_cmd f C_CODE \<noteq> 0x0D"
  shows "fsm_ok (f\<lparr>fd_pending := p, fd_due_at := d, fd_phase := PH_BUSY\<rparr>)"
  using assms by (simp add: concluding_def fsm_ok_def)

lemma sector_miss_ok: "concluding f \<Longrightarrow> fsm_ok (sector_miss f)"
  unfolding sector_miss_def by (rule busy_ok) simp_all

lemma begin_transfer_ok: "concluding f \<Longrightarrow> fd_cmd f C_CODE \<noteq> 0x0D \<Longrightarrow> fsm_ok (begin_transfer trk sec c f)"
  by (simp add: begin_transfer_def fsm_ok_def concluding_def set_res_def)

lemma start_sector_ok:
  assumes "concluding f" "fd_cmd f C_CODE \<noteq> 0x0D"
  shows "fsm_ok (start_sector r c f)"
proof -
  let ?f = "f\<lparr>fd_sector_idx := next_idam_index f (track_at f r)\<rparr>"
  obtain s g where s: "find_sector (track_at f r) ?f = (s, g)" by fastforce
  have v: "fsm_view g = fsm_view f" using view_find_sector [OF s] by (simp add: fsm_view_def)
  then have g: "concluding g" "fd_cmd g C_CODE \<noteq> 0x0D"
    using assms concluding_cong [OF v] fsm_view_sel(6) [OF v] by simp_all
  show ?thesis
  proof (cases s)
    case None
    then show ?thesis using g by (simp add: start_sector_def s sector_miss_ok)
  next
    case (Some i)
    have "concluding (g\<lparr>fd_from_flux := b\<rparr>)" "concluding (g\<lparr>fd_from_flux := b, fd_wr_st2_off := o2\<rparr>)"
      "concluding (g\<lparr>fd_from_flux := b, fd_serve_rev := k\<rparr>)"
      "concluding (g\<lparr>fd_from_flux := b, fd_wr_st2_off := o2, fd_serve_rev := k\<rparr>)" for b o2 k
      using g(1) by (simp_all add: concluding_def)
    then show ?thesis using g(2) Some by (simp add: start_sector_def s Let_def begin_transfer_ok)
  qed
qed

lemma chain_sector_ok:
  assumes "concluding f" "fd_cmd f C_CODE \<noteq> 0x0D"
  shows "fsm_ok (chain_sector A c f)"
proof (cases "fd_cmd f C_R = fd_cmd f C_EOT")
  case True
  then show ?thesis using assms by (simp add: chain_sector_def finish_ok)
next
  case False
  let ?f = "f\<lparr>fd_cmd := (fd_cmd f)(C_R := fd_cmd f C_R + 1)\<rparr>"
  obtain r g where h: "head_track A (unit_of f) (head_of f) ?f = (r, g)" by fastforce
  have v: "fsm_view g = fsm_view ?f" by (rule view_head_track [OF h])
  then have "concluding g" "fd_cmd g C_CODE \<noteq> 0x0D"
    using assms concluding_cong [OF v] fsm_view_sel(6) [OF v] by (simp_all add: concluding_def C_R_def C_CODE_def)
  then show ?thesis using False by (simp add: chain_sector_def h finish_ok start_sector_ok split: option.split)
qed

lemma do_format_ok: "concluding f \<Longrightarrow> fsm_ok (do_format f)"
proof -
  assume c: "concluding f"
  then have "concluding (upd_media u k f)" for u k by simp
  then have w: "concluding (((upd_media u k f)\<lparr>fd_sector_idx := i\<rparr>)\<lparr>fd_res := v\<rparr>)" for u k i v
    by (simp add: concluding_def)
  have e: "concluding (or_res a x (or_res b y f))" for a x b y using c by simp
  show "fsm_ok (do_format f)"
    unfolding do_format_def Let_def using w e by (auto intro!: enter_result_ok split: option.split)
qed

lemma complete_pending_ok:
  assumes "fsm_ok f" "fd_phase f = PH_BUSY"
  shows "fsm_ok (complete_pending A f)"
proof -
  have c: "concluding f" using assms by (simp add: fsm_ok_def concluding_def)
  let ?f = "f\<lparr>fd_pending := P_NONE\<rparr>"
  have c': "concluding ?f" using c by (simp add: concluding_def)
  obtain r g where h: "head_track A (unit_of ?f) (head_of ?f) ?f = (r, g)" by fastforce
  have g: "concluding g" using c' concluding_cong [OF view_head_track [OF h]] by simp
  then have g': "concluding (g\<lparr>fd_res := v, fd_sector_idx := i\<rparr>)" for v i by (simp add: concluding_def)
  show ?thesis
    using assms c c' g g'
    by (cases "fd_pending f")
      (auto simp: complete_pending_def h do_format_ok enter_result_ok Let_def fsm_ok_def [of "_\<lparr>fd_next_byte_at := _\<rparr>"]
        concluding_def [of "f\<lparr>fd_pending := _\<rparr>"] fsm_ok_def [of f] split: option.split)
qed

lemma init_concluding: "init_status u f = (b, g) \<Longrightarrow> concluding g = concluding f"
  by (rule concluding_cong) (rule view_init_status)

lemma fail_transfer_ok: "concluding f \<Longrightarrow> fsm_ok (fail_transfer x f)"
  unfolding fail_transfer_def by (rule enter_result_ok) simp

lemma cmd_read_data_ok:
  assumes "concluding f" "fd_cmd f C_CODE \<noteq> 0x0D"
  shows "fsm_ok (cmd_read_data A f)"
proof -
  obtain b g where i: "init_status (unit_of f) f = (b, g)" by fastforce
  have g: "concluding g" "fd_cmd g C_CODE \<noteq> 0x0D"
    using assms init_concluding [OF i] fsm_view_sel(6) [OF view_init_status [OF i]] by simp_all
  obtain r k where h: "head_track A (unit_of f) (head_of g) g = (r, k)" by fastforce
  have "concluding k" "fd_cmd k C_CODE \<noteq> 0x0D"
    using g concluding_cong [OF view_head_track [OF h]] fsm_view_sel(6) [OF view_head_track [OF h]] by simp_all
  then show ?thesis
    using g by (simp add: cmd_read_data_def i h enter_result_ok fail_transfer_ok start_sector_ok split: option.split)
qed

lemma cmd_write_data_ok:
  assumes "concluding f" "fd_cmd f C_CODE \<noteq> 0x0D"
  shows "fsm_ok (cmd_write_data A f)"
proof -
  let ?f = "f\<lparr>fd_wr_deleted := fd_cmd f C_CODE = 0x09\<rparr>"
  have c: "concluding ?f" "fd_cmd ?f C_CODE \<noteq> 0x0D" using assms by (simp_all add: concluding_def)
  obtain b g where i: "init_status (unit_of ?f) ?f = (b, g)" by fastforce
  have g: "concluding g" "fd_cmd g C_CODE \<noteq> 0x0D"
    using c init_concluding [OF i] fsm_view_sel(6) [OF view_init_status [OF i]] by simp_all
  let ?g = "promote_flux_track (unit_of ?f) g"
  obtain r k where h: "head_track A (unit_of ?f) (head_of g) ?g = (r, k)" by fastforce
  have v: "fsm_view k = fsm_view g" using view_head_track [OF h] by simp
  have "concluding k" "fd_cmd k C_CODE \<noteq> 0x0D"
    using g concluding_cong [OF v] fsm_view_sel(6) [OF v] by simp_all
  then show ?thesis
    using g by (simp add: cmd_write_data_def i h Let_def enter_result_ok fail_transfer_ok start_sector_ok split: option.split)
qed

lemma cmd_read_id_ok:
  assumes "concluding f"
  shows "fsm_ok (cmd_read_id A f)"
proof -
  obtain b g where i: "init_status (unit_of f) f = (b, g)" by fastforce
  have g: "concluding g" using assms init_concluding [OF i] by simp
  then have e: "fsm_ok (enter_result (set_res a x (set_res b' y g)))" for a x b' y
    by (intro enter_result_ok) simp
  obtain r k where h: "head_track A (unit_of f) (head_of g) g = (r, k)" by fastforce
  have k: "concluding k" using g concluding_cong [OF view_head_track [OF h]] by simp
  then have m: "concluding (k\<lparr>fd_pend_idx := n\<rparr>)" for n by (simp add: concluding_def)
  have n: "concluding (set_res a x (set_res b' y (or_res c z (or_res d w k))))" for a x b' y c z d w
    using k by simp
  show ?thesis
    unfolding cmd_read_id_def Let_def i prod.case h
    using e busy_ok [OF m, of P_READ_ID] busy_ok [OF n, of P_FAIL] by (auto split: option.split)
qed

lemma cmd_seek_ok: "fd_res_len f \<le> 7 \<Longrightarrow> fsm_ok (cmd_seek_to t f)"
proof -
  assume l: "fd_res_len f \<le> 7"
  obtain b g where i: "init_status (unit_of f) f = (b, g)" by fastforce
  then have "fd_res_len g \<le> 7" using l fsm_view_sel(4) [OF view_init_status [OF i]] by simp
  then show ?thesis by (auto simp: cmd_seek_to_def i Let_def intro!: enter_cmd_ok)
qed

lemma cmd_sense_ok: "concluding f \<Longrightarrow> fsm_ok (cmd_sense_interrupt f)"
proof -
  assume c: "concluding f"
  then have "concluding (f\<lparr>fd_seek_done := a, fd_status_changed := b, fd_res := v\<rparr>)"
    "concluding (f\<lparr>fd_status_changed := b, fd_res := v\<rparr>)"
    "concluding ((set_res i x f)\<lparr>fd_res_len := 1\<rparr>)" for a b v i x
    by (simp_all add: concluding_def)
  then show ?thesis by (auto simp: cmd_sense_interrupt_def Let_def intro!: enter_result_ok)
qed

lemma cmd_format_ok:
  assumes "concluding f"
  shows "fsm_ok (cmd_format_track f)"
proof -
  let ?ids = "\<lambda>f. f\<lparr>fd_res := (fd_res f)(R_C := fd_track_pos f (unit_of f), R_H := of_nat (head_of f), R_N := fd_cmd f 2)\<rparr>"
  obtain b g where i: "init_status (unit_of f) (?ids f) = (b, g)" by fastforce
  have g: "concluding g" using assms init_concluding [OF i] by (simp add: concluding_def)
  have u: "unit_of (?ids f) = unit_of f" by (simp add: unit_of_def)
  have "concluding (g\<lparr>fd_res := v\<rparr>)" for v using g by (simp add: concluding_def)
  then have e: "fsm_ok (enter_result (or_res a x (or_res b' y (g\<lparr>fd_res := v\<rparr>))))" for a x b' y v
    by (intro enter_result_ok) simp
  have x: "fsm_ok (g\<lparr>fd_res := v, fd_fmt_pos := 0, fd_dir_to_cpu := False, fd_phase := PH_EXEC, fd_next_byte_at := t\<rparr>)"
    if "fd_cmd g 3 \<noteq> 0" "unat (fd_cmd g 3) \<le> kMaxSectors" for v t
  proof -
    have "0 < unat (fd_cmd g 3)" using that(1) by (simp add: unat_gt_0)
    then show ?thesis using g that(2) by (simp add: fsm_ok_def concluding_def)
  qed
  show ?thesis
    unfolding cmd_format_track_def Let_def i prod.case
    using enter_result_ok [OF g] e x by auto
qed

lemma concluding_upd [simp]: "concluding (f\<lparr>fd_cmd_count := n\<rparr>) = concluding f"
  by (simp add: concluding_def)

lemma dispatch_ok:
  assumes "lookup_cmd (fd_cmd f 0) = Some (nc, fd_res_len f)"
  shows "fsm_ok (dispatch A f)"
proof -
  have c: "fd_cmd f C_CODE \<in> {0x03, 0x07, 0x0F} \<and> fd_res_len f = 0 \<or>
      fd_cmd f C_CODE \<in> {0x04, 0x05, 0x06, 0x08, 0x09, 0x0A, 0x0C, 0x0D} \<and> concluding f"
    using assms by (auto simp: lookup_cmd_def concluding_def C_CODE_def split: if_splits)
  have "fsm_ok (cmd_specify f)" if "fd_res_len f = 0" using that by (auto simp: cmd_specify_def intro!: enter_cmd_ok)
  moreover have "fsm_ok (cmd_drive_status f)" if "concluding f"
    using that by (simp add: cmd_drive_status_def Let_def enter_result_ok)
  moreover have "fsm_ok (cmd_read_deleted_stub f)" if "concluding f"
    unfolding cmd_read_deleted_stub_def
    by (rule fail_transfer_ok) (metis init_concluding prod.collapse that)
  ultimately show ?thesis
    using c cmd_seek_ok [of f] cmd_sense_ok [of f] cmd_format_ok [of f] cmd_read_id_ok [of f A] cmd_read_data_ok [of f A]
      cmd_write_data_ok [of f A]
    by (auto simp: dispatch_def Let_def)
qed

lemma lookup_lengths: "lookup_cmd op = Some (nc, nr) \<Longrightarrow> 0 < nc \<and> nc \<le> 9 \<and> nr \<le> 7"
  by (auto simp: lookup_cmd_def split: if_splits)

lemma data_write_ok:
  assumes "fsm_ok f"
  shows "fsm_ok (data_write A v f)"
proof -
  consider "fd_phase f = PH_EXEC" "\<not> fd_dir_to_cpu f" | "fd_phase f = PH_CMD"
    | "fd_phase f \<noteq> PH_CMD" "\<not> (fd_phase f = PH_EXEC \<and> \<not> fd_dir_to_cpu f)" by blast
  then show ?thesis
  proof cases
    case 1
    have c: "concluding f" using assms 1 by (simp add: fsm_ok_def concluding_def)
    show ?thesis
    proof (cases "fd_cmd f C_CODE = 0x0D")
      case True
      then show ?thesis using assms 1 by (auto simp: data_write_def exec_write_byte_def fsm_ok_def Let_def)
    next
      case False
      let ?u = "unit_of f"
      define f1 where "f1 = (if fm_image (sel_media f ?u) \<noteq> None \<and> fd_data_pos f < fm_len (sel_media f ?u)
                  then upd_media ?u (\<lambda>m. m\<lparr>fm_image := map_option (\<lambda>p. p[fd_data_pos f := v]) (fm_image m),
                         fm_dirty := True\<rparr>) f
                  else f)"
      have "fsm_view f1 = fsm_view f" by (simp add: f1_def)
      then have f1: "fsm_view (next_cell f1) = fsm_view f" by (simp add: fsm_view_def next_cell_def)
      define h where "h = (next_cell f1)\<lparr>fd_sector_idx := fd_sector_idx (next_cell f1) + 1\<rparr>"
      have "fsm_view h = fsm_view f" using f1 by (simp add: h_def fsm_view_def)
      moreover from this have "fsm_view (mark_deleted A h) = fsm_view f" by simp
      ultimately have k: "fsm_ok (chain_sector A False h)" "fsm_ok (chain_sector A False (mark_deleted A h))"
        using chain_sector_ok c False concluding_cong fsm_view_sel(6) by metis+
      have "data_write A v f =
        (if fd_remaining (next_cell f1) = 0 then chain_sector A False (if fd_wr_deleted h then mark_deleted A h else h)
         else next_cell f1)"
        using 1 False unfolding data_write_def exec_write_byte_def Let_def f1_def [symmetric] by (simp add: h_def)
      then show ?thesis using k fsm_cong [OF f1] assms by simp
    qed
  next
    case 2
    show ?thesis
    proof (cases "fd_cmd_count f = 0")
      case True
      let ?f = "f\<lparr>fd_mt := v AND 0x80, fd_mf := v AND 0x40, fd_sk := v AND 0x20\<rparr>"
      show ?thesis
      proof (cases "lookup_cmd (v AND 0x1F)")
        case None
        have "concluding ((set_res R_ST0 0x80 ?f)\<lparr>fd_res_len := 1\<rparr>)" by (simp add: concluding_def)
        then show ?thesis using 2 True None by (simp add: data_write_def Let_def enter_result_ok)
      next
        case (Some l)
        obtain nc nr where l: "l = (nc, nr)" by fastforce
        define g where "g = ?f\<lparr>fd_cmd := (fd_cmd ?f)(0 := v AND 0x1F), fd_cmd_count := 1, fd_cmd_len := nc, fd_res_len := nr\<rparr>"
        have n: "0 < nc" "nc \<le> 9" "nr \<le> 7" using lookup_lengths Some l by blast+
        have "data_write A v f = (if fd_cmd_count g = fd_cmd_len g then dispatch A (g\<lparr>fd_cmd_count := 0\<rparr>) else g)"
          using 2 True Some l by (simp add: data_write_def g_def Let_def)
        moreover have "fsm_ok (dispatch A (g\<lparr>fd_cmd_count := 0\<rparr>))"
          by (rule dispatch_ok [of _ nc]) (use Some l in \<open>simp add: g_def\<close>)
        moreover have "fsm_ok g" if "fd_cmd_count g \<noteq> fd_cmd_len g"
          using that n 2 Some l by (simp add: fsm_ok_def g_def)
        ultimately show ?thesis by simp
      qed
    next
      case False
      define g where "g = f\<lparr>fd_cmd := (fd_cmd f)(fd_cmd_count f := v), fd_cmd_count := fd_cmd_count f + 1\<rparr>"
      have ok: "fd_cmd_count f < fd_cmd_len f" "fd_cmd_len f \<le> 9" "lookup_cmd (fd_cmd f 0) = Some (fd_cmd_len f, fd_res_len f)"
        "fd_res_len f \<le> 7"
        using assms 2 False by (simp_all add: fsm_ok_def)
      have "data_write A v f = (if fd_cmd_count g = fd_cmd_len g then dispatch A (g\<lparr>fd_cmd_count := 0\<rparr>) else g)"
        using 2 False by (simp add: data_write_def g_def Let_def)
      moreover have "fsm_ok (dispatch A (g\<lparr>fd_cmd_count := 0\<rparr>))"
        by (rule dispatch_ok [of _ "fd_cmd_len f"]) (use False ok in \<open>simp add: g_def\<close>)
      moreover have "fsm_ok g" if "fd_cmd_count g \<noteq> fd_cmd_len g"
        using that ok 2 False by (simp add: fsm_ok_def g_def)
      ultimately show ?thesis by simp
    qed
  next
    case 3
    then show ?thesis using assms by (auto simp: data_write_def)
  qed
qed

lemma data_read_ok:
  assumes "fsm_ok f"
  shows "fsm_ok (snd (data_read A f))"
proof (cases "fd_phase f")
  case PH_EXEC
  show ?thesis
  proof (cases "fd_dir_to_cpu f")
    case True
    define h where "h = (next_cell f)\<lparr>fd_sectors_read := fd_sectors_read (next_cell f) + 1,
      fd_sector_idx := fd_sector_idx (next_cell f) + 1\<rparr>"
    have v: "fsm_view (next_cell f) = fsm_view f" "fsm_view h = fsm_view f"
      by (simp_all add: fsm_view_def next_cell_def h_def)
    have c: "concluding f" using assms PH_EXEC by (simp add: fsm_ok_def concluding_def)
    then have "fsm_ok (finish_with_status h)" using concluding_cong [OF v(2)] by (simp add: finish_ok)
    moreover have "fsm_ok (chain_sector A True h)" if "fd_cmd f C_CODE \<noteq> 0x0D"
      using chain_sector_ok c that concluding_cong [OF v(2)] fsm_view_sel(6) [OF v(2)] by metis
    moreover have "fd_cmd f C_CODE \<noteq> 0x0D" using assms PH_EXEC True by (auto simp: fsm_ok_def)
    ultimately show ?thesis
      using PH_EXEC True fsm_cong [OF v(1)] assms unfolding data_read_def Let_def h_def [symmetric] by simp
  next
    case False
    then show ?thesis using PH_EXEC assms by (simp add: data_read_def)
  qed
next
  case PH_RESULT
  then show ?thesis using assms by (auto simp: data_read_def fsm_ok_def enter_cmd_def Let_def)
qed (use assms in \<open>simp_all add: data_read_def\<close>)

lemma view_upd [simp]:
  "fsm_view (f\<lparr>fd_now := n\<rparr>) = fsm_view f" "fsm_view (f\<lparr>fd_rot := n\<rparr>) = fsm_view f"
  "fsm_view (f\<lparr>fd_rev_count := n\<rparr>) = fsm_view f" "fsm_view (f\<lparr>fd_motor_st := ms\<rparr>) = fsm_view f"
  "fsm_view (f\<lparr>fd_status_changed := bs\<rparr>) = fsm_view f" "fsm_view (f\<lparr>fd_track_pos := us\<rparr>) = fsm_view f"
  "fsm_view (f\<lparr>fd_seeking := bs\<rparr>) = fsm_view f" "fsm_view (f\<lparr>fd_seek_done := bs\<rparr>) = fsm_view f"
  "fsm_view (f\<lparr>fd_next_step_at := ns\<rparr>) = fsm_view f" "fsm_view (f\<lparr>fd_motor := b\<rparr>) = fsm_view f"
  "fsm_view (f\<lparr>fd_motor_ready_at := n\<rparr>) = fsm_view f" "fsm_view (f\<lparr>fd_media := m\<rparr>) = fsm_view f"
  "fsm_view (f\<lparr>fd_sector_idx := n\<rparr>) = fsm_view f" "fsm_view (f\<lparr>fd_access_prev := b\<rparr>) = fsm_view f"
  "fsm_view (f\<lparr>fd_out_latch := v\<rparr>) = fsm_view f" "fsm_view (f\<lparr>fd_ev_head := n\<rparr>) = fsm_view f"
  "fsm_view (f\<lparr>fd_ev_count := n\<rparr>) = fsm_view f"
  by (simp_all add: fsm_view_def)

lemma tick_views:
  "fsm_view (tick_platter f) = fsm_view f" "fsm_view (tick_seek u f) = fsm_view f" "fsm_view (motor_write d f) = fsm_view f"
  by (simp_all add: tick_platter_def tick_seek_def motor_write_def Let_def if_distrib [of fsm_view])

lemma tick_deadlines_ok:
  assumes "fsm_ok f"
  shows "fsm_ok (tick_deadlines A f)"
proof -
  define g where "g = (if fd_phase f = PH_BUSY \<and> fd_now f \<ge> fd_due_at f then complete_pending A f else f)"
  have g: "fsm_ok g" using assms complete_pending_ok [of f A] by (simp add: g_def)
  then have "concluding g" if "fd_phase g = PH_EXEC" using that by (simp add: fsm_ok_def concluding_def)
  then have "fsm_ok (finish_with_status (or_res R_ST1 0x10 g))" if "fd_phase g = PH_EXEC"
    using that by (intro finish_ok) simp
  with g show ?thesis by (simp add: tick_deadlines_def Let_def flip: g_def)
qed

lemma fdc_bus_ok:
  assumes "fsm_ok f"
  shows "fsm_ok (fst (fdc_bus A f i))"
proof -
  have p: "fsm_ok (f\<lparr>fd_access_prev := b\<rparr>) = fsm_ok f" "fsm_ok (g\<lparr>fd_out_latch := v\<rparr>) = fsm_ok g" for b g v
    by (rule fsm_cong, simp add: fsm_view_def)+
  have "fsm_ok (motor_write d g) = fsm_ok g" for d g by (rule fsm_cong) (rule tick_views)
  then show ?thesis
    using assms data_write_ok [of "f\<lparr>fd_access_prev := True\<rparr>"] data_read_ok [of "f\<lparr>fd_access_prev := True\<rparr>" A]
    by (auto simp: fdc_bus_def Let_def p split: prod.split)
qed

lemma fdc_step_ok: "fsm_ok f \<Longrightarrow> fsm_ok (fst (fdc_step A f i))"
  unfolding fdc_step_def
  by (intro fdc_bus_ok tick_deadlines_ok) (simp add: fsm_cong [OF tick_views(2)] fsm_cong [OF tick_views(1)])

subsection \<open>What may happen to a controller\<close>

datatype fdc_action = Cycle Bus | Attach "u8 list option" u8 | Eject u8 | Attach_flux "u8 list option"
  | Attach_writable "u8 list option" "u8 list option" | Mark_clean u8 | Poke u8 u8 u8 | Drain nat | Reset | Skip nat

primrec fdc_act :: "'d arith \<Rightarrow> fdc_action \<Rightarrow> fdc_state \<Rightarrow> fdc_state" where
  "fdc_act A (Cycle i) f = fst (fdc_step A f i)"
| "fdc_act A (Attach p u) f = snd (fdc_attach_disk f p u)"
| "fdc_act A (Eject u) f = fdc_eject_disk f u"
| "fdc_act A (Attach_flux p) f = snd (fdc_attach_flux f p)"
| "fdc_act A (Attach_writable p q) f = snd (fdc_attach_flux_writable f p q)"
| "fdc_act A (Mark_clean u) f = fdc_media_mark_clean_unit f u"
| "fdc_act A (Poke m a b) f = fdc_poke_mechanics f m a b"
| "fdc_act A (Drain n) f = snd (fdc_drain_events f n)"
| "fdc_act A Reset f = fdc_dev_reset f"
| "fdc_act A (Skip n) f = (if fdc_quiet f then fdc_advance f n else f)"

lemma pop_view: "pop_fdc_event f = Some (e, g) \<Longrightarrow> fsm_view g = fsm_view f"
  by (auto simp: pop_fdc_event_def split: if_split_asm)

lemma drain_view: "fsm_view (snd (fdc_drain_events f n)) = fsm_view f"
proof (induction n arbitrary: f)
  case (Suc n)
  show ?case
  proof (cases "pop_fdc_event f")
    case (Some r)
    obtain e g where r: "r = (e, g)" by fastforce
    then have "fsm_view g = fsm_view f" using pop_view Some by simp
    then show ?thesis using Some r Suc.IH [of g] by (simp add: split_def)
  qed simp
qed simp

lemma host_views:
  "fsm_view (disc_changed u f) = fsm_view f" "fsm_view (snd (fdc_attach_disk f p v)) = fsm_view f"
  "fsm_view (fdc_eject_disk f v) = fsm_view f" "fsm_view (snd (fdc_attach_flux f p)) = fsm_view f"
  "fsm_view (snd (fdc_attach_flux_writable f p q)) = fsm_view f" "fsm_view (fdc_media_mark_clean_unit f v) = fsm_view f"
  "fsm_view (fdc_poke_mechanics f m a b) = fsm_view f" "fsm_view (fdc_advance f n) = fsm_view f"
proof -
  show d: "fsm_view (disc_changed u f) = fsm_view f" for u f by (simp add: disc_changed_def)
  show "fsm_view (snd (fdc_attach_disk f p v)) = fsm_view f" "fsm_view (fdc_eject_disk f v) = fsm_view f"
    by (simp_all add: fdc_attach_disk_def fdc_eject_disk_def Let_def d)
  show "fsm_view (snd (fdc_attach_flux f p)) = fsm_view f" "fsm_view (snd (fdc_attach_flux_writable f p q)) = fsm_view f"
    unfolding fdc_attach_flux_def fdc_attach_flux_writable_def Let_def by (simp_all add: d split: if_split)
  show "fsm_view (fdc_media_mark_clean_unit f v) = fsm_view f" unfolding fdc_media_mark_clean_unit_def by simp
  show "fsm_view (fdc_poke_mechanics f m a b) = fsm_view f" "fsm_view (fdc_advance f n) = fsm_view f"
    by (simp_all add: fdc_poke_mechanics_def fdc_advance_def)
qed

lemma fdc_act_ok:
  assumes "fsm_ok f"
  shows "fsm_ok (fdc_act A e f)"
proof -
  have r: "fsm_ok (fdc_dev_reset f)" by (simp add: fsm_ok_def fdc_dev_reset_def fdc_init_def)
  have s: "fsm_ok g" if "fsm_view g = fsm_view f" for g using fsm_cong [OF that] assms by simp
  show ?thesis using r fdc_step_ok [OF assms] by (cases e) (simp_all add: s host_views drain_view)
qed

lemma fdc_acts_ok: "fsm_ok f \<Longrightarrow> fsm_ok (fold (fdc_act A) es f)"
  by (induction es arbitrary: f) (simp_all add: fdc_act_ok)

subsection \<open>No state waits for ever\<close>

definition timing :: "fdc_state \<Rightarrow> phase \<times> nat \<times> nat" where
  "timing f = (fd_phase f, fd_due_at f, fd_next_byte_at f)"

lemma push_timing [simp]: "timing (push_fdc_event ty a f) = timing f"
  by (simp add: timing_def push_fdc_event_def store_fdc_event_def Let_def)

lemma tick_timing:
  "timing (tick_platter f) = timing f" "timing (tick_seek u f) = timing f"
  "fd_now (tick_platter f) = fd_now f + 1" "fd_now (tick_seek u f) = fd_now f"
  by (simp_all add: tick_platter_def tick_seek_def Let_def) (simp_all add: timing_def)

lemma cycle_deadlines:
  obtains g where "timing g = timing f" "fd_now g = fd_now f + 1"
    "fdc_cycle A bus_resting f = (tick_deadlines A g)\<lparr>fd_access_prev := False\<rparr>"
  by (rule that [of "tick_seek 1 (tick_seek 0 (tick_platter f))"])
    (simp_all add: tick_timing cycle_rest mech_def)

lemma result_timing: "fd_phase (enter_result f) = PH_RESULT"
  by (simp add: enter_result_def)

lemma do_format_phase: "fd_phase (do_format f) = PH_RESULT"
  by (auto simp: do_format_def Let_def result_timing split: option.split)

lemma complete_phase:
  "fd_phase (complete_pending A f) = PH_RESULT \<or>
   fd_phase (complete_pending A f) = PH_EXEC \<and> fd_next_byte_at (complete_pending A f) = fd_now f \<and>
   fd_now (complete_pending A f) = fd_now f"
  by (cases "fd_pending f")
    (auto simp: complete_pending_def Let_def result_timing do_format_phase split: option.split prod.split)

lemma exec_settles:
  assumes "fd_phase f = PH_EXEC"
  shows "\<exists>n. n \<le> fd_next_byte_at f + kByteCycles + 1 - fd_now f + 1 \<and>
    fd_phase ((fdc_cycle A bus_resting ^^ n) f) = PH_RESULT"
  using assms
proof (induction "fd_next_byte_at f + kByteCycles + 1 - fd_now f" arbitrary: f rule: less_induct)
  case less
  let ?h = "fdc_cycle A bus_resting f"
  obtain g where g: "timing g = timing f" "fd_now g = fd_now f + 1" "?h = (tick_deadlines A g)\<lparr>fd_access_prev := False\<rparr>"
    by (rule cycle_deadlines)
  then have t: "fd_phase g = PH_EXEC" "fd_next_byte_at g = fd_next_byte_at f" using less.prems by (simp_all add: timing_def)
  show ?case
  proof (cases "fd_now g > fd_next_byte_at g + kByteCycles")
    case True
    then have "fd_phase ?h = PH_RESULT" using g(3) t(1) by (simp add: tick_deadlines_def Let_def)
    then show ?thesis by (intro exI [of _ 1]) simp
  next
    case False
    then have h: "fd_phase ?h = PH_EXEC" "fd_next_byte_at ?h = fd_next_byte_at f" "fd_now ?h = fd_now f + 1"
      using g t by (simp_all add: tick_deadlines_def)
    have "fd_next_byte_at ?h + kByteCycles + 1 - fd_now ?h < fd_next_byte_at f + kByteCycles + 1 - fd_now f"
      using False t(2) g(2) h by simp
    from less.hyps [OF this h(1)] obtain n where "n \<le> fd_next_byte_at f + kByteCycles + 1 - (fd_now f + 1) + 1"
      "fd_phase ((fdc_cycle A bus_resting ^^ n) ?h) = PH_RESULT" unfolding h by blast
    then show ?thesis using False t(2) g(2) by (intro exI [of _ "Suc n"]) (simp add: funpow_swap1)
  qed
qed

lemma busy_settles:
  assumes "fd_phase f = PH_BUSY"
  shows "\<exists>n. n \<le> fd_due_at f - fd_now f + kByteCycles + 4 \<and> fd_phase ((fdc_cycle A bus_resting ^^ n) f) = PH_RESULT"
  using assms
proof (induction "fd_due_at f - fd_now f" arbitrary: f rule: less_induct)
  case less
  let ?h = "fdc_cycle A bus_resting f"
  obtain g where g: "timing g = timing f" "fd_now g = fd_now f + 1" "?h = (tick_deadlines A g)\<lparr>fd_access_prev := False\<rparr>"
    by (rule cycle_deadlines)
  then have t: "fd_phase g = PH_BUSY" "fd_due_at g = fd_due_at f" using less.prems by (simp_all add: timing_def)
  show ?case
  proof (cases "fd_due_at g \<le> fd_now g")
    case True
    let ?c = "complete_pending A g"
    consider "fd_phase ?c = PH_RESULT"
      | "fd_phase ?c = PH_EXEC" "fd_next_byte_at ?c = fd_now g" "fd_now ?c = fd_now g"
      using complete_phase [of A g] by blast
    then show ?thesis
    proof cases
      case 1
      then have "fd_phase ?h = PH_RESULT" using g(3) t(1) True by (simp add: tick_deadlines_def Let_def)
      then show ?thesis by (intro exI [of _ 1]) simp
    next
      case 2
      then have h: "fd_phase ?h = PH_EXEC" "fd_next_byte_at ?h = fd_now ?h"
        using g(3) t(1) True by (simp_all add: tick_deadlines_def)
      from exec_settles [OF h(1), of A] obtain n where "n \<le> kByteCycles + 2"
        "fd_phase ((fdc_cycle A bus_resting ^^ n) ?h) = PH_RESULT" unfolding h(2) by auto
      then show ?thesis by (intro exI [of _ "Suc n"]) (simp add: funpow_swap1)
    qed
  next
    case False
    then have h: "fd_phase ?h = PH_BUSY" "fd_due_at ?h = fd_due_at f" "fd_now ?h = fd_now f + 1"
      using g t by (simp_all add: tick_deadlines_def)
    have "fd_due_at ?h - fd_now ?h < fd_due_at f - fd_now f" using False t(2) g(2) h by simp
    from less.hyps [OF this h(1)] obtain n where "n \<le> fd_due_at f - (fd_now f + 1) + kByteCycles + 4"
      "fd_phase ((fdc_cycle A bus_resting ^^ n) ?h) = PH_RESULT" unfolding h by blast
    then show ?thesis using False t(2) g(2) by (intro exI [of _ "Suc n"]) (simp add: funpow_swap1)
  qed
qed

subsection \<open>Two defects\<close>

text \<open>A 512-byte image whose header gives its only track a block of \<open>0x1300\<close> bytes: it parses, and FORMAT's own
  test lets nine sectors of 512 bytes through, past the end of the buffer.\<close>

definition short_dsk :: "u8 list" where
  "short_dsk = map of_char ''EXTENDED'' @ replicate 40 0 @ [1, 1, 0, 0, 0x13] @ replicate 203 0 @
     map of_char ''Track-Info'' @ replicate 10 0 @ [2, 0] @ replicate 234 0"

lemma short_dsk_track: "parse_track short_dsk True 0x100 empty_track = (True, \<lparr> ft_sec = [], ft_data_off = 0x200, ft_data_len = 0 \<rparr>)"
  by (simp add: parse_track_def empty_track_def short_dsk_def magic_def bytes_of_def nth_append)

lemma short_dsk_head: "magic short_dsk 0 ''EXTENDED''" "\<not> magic short_dsk 0 ''MV - CPC''" "length short_dsk = 0x200"
  "short_dsk ! 0x30 = 1" "short_dsk ! 0x31 = 1" "short_dsk ! 0x34 = 0x13"
  by (simp_all add: short_dsk_def magic_def bytes_of_def nth_append)

lemma format_past_end:
  "length short_dsk = 0x200 \<and> fst (parse_dsk (Some short_dsk)) \<and>
   ft_data_off (fm_track (snd (parse_dsk (Some short_dsk))) 0 0) = 0x200 \<and>
   9 * 512 \<le> format_block (snd (parse_dsk (Some short_dsk))) short_dsk 0 0 - 0x100"
  using short_dsk_track short_dsk_head
  by (simp add: parse_dsk_def block_of_def format_block_def kMaxSides_def kMaxTracks_def empty_media_def)

text \<open>A size code and a data length of zero ask for no bytes; the countdown then passes through zero.\<close>

lemma zero_length_transfer:
  assumes "fd_cmd f C_N = 0" "fd_cmd f C_DTL = 0"
  shows "unat (fd_remaining (next_cell (begin_transfer trk sec c f))) = 2 ^ 32 - 1"
proof -
  have "fd_remaining (next_cell (begin_transfer trk sec c f)) = (- 1 :: u32)"
    using assms by (simp add: next_cell_def begin_transfer_def xfer_length_def)
  then show ?thesis by (simp add: unsigned_minus_1_eq_mask mask_eq_exp_minus_1)
qed

subsection \<open>Properties\<close>

text \<open>C15 (fdc_phases_sound): whatever the buses and the host do to a controller that starts reset, its state
  machine stays well formed. The host may attach, eject and clean discs, position the heads, drain events,
  reset and skip quiet cycles. While a command is received its byte count is below a declared length of at most
  nine that the command table gives for the opcode, so \<open>cmd[9]\<close> is not overrun; the result index is below a
  length of at most seven, so \<open>res[7]\<close> is not; FORMAT's index stays below the four bytes of each of at most
  \<open>kMaxSectors\<close> sectors; and a data deadline is never pending for FORMAT.\<close>

theorem fdc_phases_sound: "fsm_ok (fold (fdc_act A) es fdc_init)"
  by (rule fdc_acts_ok) (simp add: fsm_ok_def fdc_init_def)

text \<open>C16 (fdc_settles): the controller never hangs. From any state at all, a bus left at rest brings it back to
  the command or the result phase: a busy phase ends at its deadline, and an execution phase nobody serves
  ends one byte cell after its byte was due (overrun). The bound is that deadline or byte time plus one cell.\<close>

theorem fdc_settles:
  "\<exists>n. n \<le> (fd_due_at f - fd_now f) + (fd_next_byte_at f - fd_now f) + kByteCycles + 4 \<and>
    fd_phase ((fdc_cycle A bus_resting ^^ n) f) \<in> {PH_CMD, PH_RESULT}"
proof (cases "fd_phase f")
  case PH_EXEC
  then obtain n where n: "n \<le> fd_next_byte_at f + kByteCycles + 1 - fd_now f + 1"
    "fd_phase ((fdc_cycle A bus_resting ^^ n) f) = PH_RESULT"
    using exec_settles [of f A] by blast
  moreover have "fd_next_byte_at f + kByteCycles + 1 - fd_now f + 1 \<le>
      (fd_due_at f - fd_now f) + (fd_next_byte_at f - fd_now f) + kByteCycles + 4" by simp
  ultimately show ?thesis by (intro exI [of _ n]) simp
next
  case PH_BUSY
  then obtain n where "n \<le> fd_due_at f - fd_now f + kByteCycles + 4"
    "fd_phase ((fdc_cycle A bus_resting ^^ n) f) = PH_RESULT"
    using busy_settles [of f A] by blast
  then show ?thesis by (intro exI [of _ n]) simp
qed (intro exI [of _ 0], simp)+

text \<open>(fdc_quiet_skip): skipping is exact. A quiet controller (motor off, no seek, no command in execution)
  that sees only cycles that do not select it ends where the scheduler's \<open>fdc_advance\<close> puts it, and
  drives nothing on the way.\<close>

theorem fdc_quiet_skip:
  assumes "fdc_quiet f" "list_all (\<lambda>i. \<not> fdc_sel i) is"
  shows "fold (\<lambda>i g. fst (fdc_step A g i)) is f = fdc_advance f (length is)"
  using assms
proof (induction "is" arbitrary: f)
  case Nil
  then show ?case by (simp add: fdc_advance_def)
next
  case (Cons i "is")
  then show ?case by (simp add: quiet_step) (simp add: fdc_advance_def)
qed

theorem fdc_quiet_skip_witness:
  "fold (\<lambda>i g. fst (fdc_step exact_arith g i)) (replicate 1000 bus_resting) fdc_init = fdc_init\<lparr>fd_now := 1000\<rparr>"
  using fdc_quiet_skip [of fdc_init "replicate 1000 bus_resting" exact_arith]
  by (simp add: fdc_quiet_def fdc_init_def fdc_advance_def list_all_iff)

end
