(* ===== verification/Tape.thy ===== *)
theory Tape
  imports Contracts
begin

text \<open>
  The cassette deck, \<open>src/src/hw/tape.cpp\<close>: CDT/TZX playback on the read line and the live line-in. \<open>tp_x\<close> is
  the member \<open>x\<close> of \<open>tape_state\<close>. Offsets, lengths and the block ordinal are naturals (the attached
  buffers are far below 4 GB, where \<open>uint32_t\<close> would wrap); timings and pulse counters keep their 16 bits,
  because a counter of zero wraps; the current pulse is an \<open>int\<close>; \<open>0/1\<close> bytes are booleans. The scope
  ring keeps its two 8-bit indices.
\<close>

datatype tape_phase = TP_IDLE | TP_PILOT | TP_SYNC1 | TP_SYNC2 | TP_DATA | TP_PULSESEQ | TP_DIRECT | TP_PAUSE

definition kSubPerCycle :: int where "kSubPerCycle = 7"
definition kSubPerTs :: int where "kSubPerTs = 32"
definition kTapeCyclesPerMs :: nat where "kTapeCyclesPerMs = 16000"

record tape_state =
  tp_pos :: nat
  tp_block :: nat
  tp_phase :: tape_phase
  tp_level :: bool
  tp_playing :: bool
  tp_line_mode :: bool
  tp_line_level :: bool
  tp_motor_seen :: bool
  tp_error :: bool
  tp_data_off :: nat
  tp_data_len :: nat
  tp_byte_idx :: nat
  tp_bit_idx :: nat
  tp_last_used :: nat
  tp_pulse_half :: bool
  tp_pulses_left :: u16
  tp_seq_idx :: u16
  tp_t_pilot :: u16
  tp_t_sync1 :: u16
  tp_t_sync2 :: u16
  tp_t_bit0 :: u16
  tp_t_bit1 :: u16
  tp_pause_ms :: u16
  tp_sub_remaining :: int
  tp_pause_cycles :: nat
  tp_cdt :: "u8 list option"
  tp_bit_ring :: "u8 \<Rightarrow> bool"
  tp_bit_wr :: u8
  tp_bit_rd :: u8

definition tape_init :: tape_state where
  "tape_init = \<lparr> tp_pos = 0, tp_block = 0, tp_phase = TP_IDLE, tp_level = False, tp_playing = False,
     tp_line_mode = False, tp_line_level = False, tp_motor_seen = False, tp_error = False, tp_data_off = 0,
     tp_data_len = 0, tp_byte_idx = 0, tp_bit_idx = 0, tp_last_used = 8, tp_pulse_half = False, tp_pulses_left = 0,
     tp_seq_idx = 0, tp_t_pilot = 2168, tp_t_sync1 = 667, tp_t_sync2 = 735, tp_t_bit0 = 855, tp_t_bit1 = 1710,
     tp_pause_ms = 0, tp_sub_remaining = 0, tp_pause_cycles = 0, tp_cdt = None, tp_bit_ring = (\<lambda>_. False),
     tp_bit_wr = 0, tp_bit_rd = 0 \<rparr>"

subsection \<open>The CDT buffer\<close>

definition cdt_bytes :: "u8 list option \<Rightarrow> u8 list" where
  "cdt_bytes c = (case c of None \<Rightarrow> [] | Some p \<Rightarrow> p)"

definition cdt8 :: "u8 list option \<Rightarrow> nat \<Rightarrow> u8" where
  "cdt8 c off = (if off < length (cdt_bytes c) then cdt_bytes c ! off else 0)"

definition cdt16 :: "u8 list option \<Rightarrow> nat \<Rightarrow> nat" where
  "cdt16 c off = unat (cdt8 c off) + 0x100 * unat (cdt8 c (off + 1))"

definition cdt24 :: "u8 list option \<Rightarrow> nat \<Rightarrow> nat" where
  "cdt24 c off = cdt16 c off + 0x10000 * unat (cdt8 c (off + 2))"

definition cdt32 :: "u8 list option \<Rightarrow> nat \<Rightarrow> nat" where
  "cdt32 c off = cdt24 c off + 0x1000000 * unat (cdt8 c (off + 3))"

definition tape_cdt_block_len :: "u8 list option \<Rightarrow> nat \<Rightarrow> nat" where
  "tape_cdt_block_len c pos =
    (let id = cdt8 c pos in
     if id = 0x10 then cdt16 c (pos + 3) + 4 + 1
     else if id = 0x11 then cdt24 c (pos + 0x10) + 0x12 + 1
     else if id = 0x12 then 4 + 1
     else if id = 0x13 then unat (cdt8 c (pos + 1)) * 2 + 1 + 1
     else if id = 0x14 then cdt24 c (pos + 8) + 0x0A + 1
     else if id = 0x15 then cdt24 c (pos + 6) + 8 + 1
     else if id = 0x20 then 2 + 1
     else if id = 0x21 then unat (cdt8 c (pos + 1)) + 1 + 1
     else if id = 0x22 then 1
     else if id = 0x30 then unat (cdt8 c (pos + 1)) + 1 + 1
     else if id = 0x31 then unat (cdt8 c (pos + 2)) + 2 + 1
     else if id = 0x32 then cdt16 c (pos + 1) + 2 + 1
     else if id = 0x33 then unat (cdt8 c (pos + 1)) * 3 + 1 + 1
     else if id = 0x34 then 8 + 1
     else if id = 0x35 then (cdt32 c (pos + 0x11) + 0x14 + 1) mod 2 ^ 32
     else if id = 0x40 then cdt24 c (pos + 2) + 4 + 1
     else if id = 0x5A then 9 + 1
     else (cdt32 c (pos + 1) + 4 + 1) mod 2 ^ 32)"

definition rd8 :: "tape_state \<Rightarrow> nat \<Rightarrow> u8" where
  "rd8 t off = cdt8 (tp_cdt t) off"

definition rd16 :: "tape_state \<Rightarrow> nat \<Rightarrow> u16" where
  "rd16 t off = of_nat (cdt16 (tp_cdt t) off)"

definition rd24 :: "tape_state \<Rightarrow> nat \<Rightarrow> nat" where
  "rd24 t off = cdt24 (tp_cdt t) off"

definition block_len :: "tape_state \<Rightarrow> nat \<Rightarrow> nat" where
  "block_len t pos = tape_cdt_block_len (tp_cdt t) pos"

subsection \<open>Pulses, the scope ring, blocks\<close>

definition load_pulse :: "u16 \<Rightarrow> tape_state \<Rightarrow> tape_state" where
  "load_pulse ts t = t\<lparr>tp_sub_remaining := int (unat ts) * kSubPerTs\<rparr>"

definition push_bit :: "tape_state \<Rightarrow> bool \<Rightarrow> tape_state" where
  "push_bit t b =
    (let u = t\<lparr>tp_bit_ring := (tp_bit_ring t)(tp_bit_wr t := b), tp_bit_wr := tp_bit_wr t + 1\<rparr>
     in if tp_bit_wr u = tp_bit_rd u then u\<lparr>tp_bit_rd := tp_bit_rd u + 1\<rparr> else u)"

definition pop_bit :: "tape_state \<Rightarrow> (bool \<times> tape_state) option" where
  "pop_bit t = (if tp_bit_rd t \<noteq> tp_bit_wr t
     then Some (tp_bit_ring t (tp_bit_rd t), t\<lparr>tp_bit_rd := tp_bit_rd t + 1\<rparr>) else None)"

primrec tape_drain_bits :: "tape_state \<Rightarrow> nat \<Rightarrow> bool list \<times> tape_state" where
  "tape_drain_bits t 0 = ([], t)"
| "tape_drain_bits t (Suc n) =
    (case pop_bit t of None \<Rightarrow> ([], t)
     | Some (b, u) \<Rightarrow> (case tape_drain_bits u n of (bs, v) \<Rightarrow> (b # bs, v)))"

definition stop_deck :: "tape_state \<Rightarrow> tape_state" where
  "stop_deck t = t\<lparr>tp_playing := False, tp_phase := TP_IDLE\<rparr>"

text \<open>The bit under the cursor: most significant first.\<close>

definition bit_at :: "tape_state \<Rightarrow> nat \<Rightarrow> nat \<Rightarrow> bool" where
  "bit_at t byte_i bit_i = bit (rd8 t (tp_data_off t + byte_i)) (7 - bit_i)"

definition bit_time :: "tape_state \<Rightarrow> bool \<Rightarrow> u16" where
  "bit_time t b = (if b then tp_t_bit1 t else tp_t_bit0 t)"

definition first_bit :: "tape_state \<Rightarrow> tape_state" where
  "first_bit t = load_pulse (bit_time t (bit_at t 0 0)) (push_bit t (bit_at t 0 0))"

text \<open>The header of a direct recording, which is left behind even when the block is empty.\<close>

definition direct_head :: "tape_state \<Rightarrow> tape_state" where
  "direct_head t = (let body = tp_pos t + 1; off = body + 8; n = rd24 t (body + 5) in
     t\<lparr>tp_t_bit0 := rd16 t body, tp_pause_ms := rd16 t (body + 2), tp_last_used := unat (rd8 t (body + 4)),
       tp_data_len := n, tp_data_off := off, tp_pos := off + n\<rparr>)"

text \<open>The blocks the loop of \<open>start_block\<close> passes over.\<close>

definition skip_block :: "tape_state \<Rightarrow> tape_state option" where
  "skip_block t =
    (let id = rd8 t (tp_pos t); body = tp_pos t + 1; skip = (\<lambda>p. Some (t\<lparr>tp_pos := p, tp_block := tp_block t + 1\<rparr>)) in
     if id = 0x15 then
       (let u = direct_head t in if tp_data_len u = 0 then Some (u\<lparr>tp_block := tp_block u + 1\<rparr>) else None)
     else if id = 0x21 then skip (body + 1 + unat (rd8 t body))
     else if id = 0x22 then skip body
     else if id = 0x30 then skip (body + 1 + unat (rd8 t body))
     else if id = 0x31 then skip (body + 2 + unat (rd8 t (body + 1)))
     else if id = 0x32 then skip (body + 2 + unat (rd16 t body))
     else if id = 0x33 then skip (body + 1 + unat (rd8 t body) * 3)
     else None)"

text \<open>The others: playable blocks, the pause, and anything unknown.\<close>

definition enter_block :: "tape_state \<Rightarrow> tape_state" where
  "enter_block t =
    (let id = rd8 t (tp_pos t); body = tp_pos t + 1;
         cursor = (\<lambda>u. u\<lparr>tp_byte_idx := 0, tp_bit_idx := 0, tp_pulse_half := False,
                      tp_pos := tp_data_off u + tp_data_len u\<rparr>) in
     if id = 0x10 then
       (let u = t\<lparr>tp_pause_ms := rd16 t body, tp_data_len := unat (rd16 t (body + 2)), tp_data_off := body + 4,
              tp_t_pilot := 2168, tp_t_sync1 := 667, tp_t_sync2 := 735, tp_t_bit0 := 855, tp_t_bit1 := 1710,
              tp_last_used := 8, tp_pulses_left := (if rd8 t (body + 4) < 0x80 then 8063 else 3223),
              tp_phase := TP_PILOT\<rparr>
        in cursor (load_pulse 2168 u))
     else if id = 0x11 then
       (let u = t\<lparr>tp_t_pilot := rd16 t body, tp_t_sync1 := rd16 t (body + 2), tp_t_sync2 := rd16 t (body + 4),
              tp_t_bit0 := rd16 t (body + 6), tp_t_bit1 := rd16 t (body + 8), tp_pulses_left := rd16 t (body + 10),
              tp_last_used := unat (rd8 t (body + 12)), tp_pause_ms := rd16 t (body + 13),
              tp_data_len := rd24 t (body + 15), tp_data_off := body + 18, tp_phase := TP_PILOT\<rparr>
        in cursor (load_pulse (tp_t_pilot u) u))
     else if id = 0x12 then
       load_pulse (rd16 t body)
         (t\<lparr>tp_t_pilot := rd16 t body, tp_pulses_left := rd16 t (body + 2), tp_phase := TP_PILOT, tp_data_len := 0,
            tp_data_off := 0, tp_pause_ms := 0, tp_pos := body + 4\<rparr>)
     else if id = 0x13 then
       load_pulse (rd16 t (body + 1))
         (t\<lparr>tp_pulses_left := ucast (rd8 t body), tp_seq_idx := 0, tp_data_off := body + 1, tp_phase := TP_PULSESEQ,
            tp_pos := body + 1 + unat (rd8 t body) * 2\<rparr>)
     else if id = 0x14 then
       cursor (first_bit (t\<lparr>tp_t_bit0 := rd16 t body, tp_t_bit1 := rd16 t (body + 2), tp_last_used := unat (rd8 t (body + 4)),
              tp_pause_ms := rd16 t (body + 5), tp_data_len := rd24 t (body + 7), tp_data_off := body + 10,
              tp_phase := TP_DATA\<rparr>))
     else if id = 0x15 then
       (let u = (direct_head t)\<lparr>tp_phase := TP_DIRECT, tp_byte_idx := 0, tp_bit_idx := 0\<rparr>; b = bit_at u 0 0
        in load_pulse (tp_t_bit0 u) (push_bit (u\<lparr>tp_level := b\<rparr>) b))
     else if id = 0x20 then
       (let u = t\<lparr>tp_pos := body + 2\<rparr> in
        if rd16 t body = 0 then stop_deck u
        else u\<lparr>tp_phase := TP_PAUSE, tp_pause_cycles := unat (rd16 t body) * kTapeCyclesPerMs, tp_level := False\<rparr>)
     else stop_deck (t\<lparr>tp_error := True\<rparr>))"

lemma skip_block_forward: "skip_block t = Some u \<Longrightarrow> tp_pos t < tp_pos u \<and> tp_cdt u = tp_cdt t"
  by (auto simp: skip_block_def direct_head_def Let_def split: if_split_asm)

function start_loop :: "tape_state \<Rightarrow> tape_state" where
  "start_loop t =
    (if tp_pos t \<ge> length (cdt_bytes (tp_cdt t)) then stop_deck t
     else (case skip_block t of Some u \<Rightarrow> start_loop u | None \<Rightarrow> enter_block t))"
  by pat_completeness auto
termination
  by (relation "measure (\<lambda>t. length (cdt_bytes (tp_cdt t)) - tp_pos t)") (auto dest!: skip_block_forward)

declare start_loop.simps [simp del]

definition start_block :: "tape_state \<Rightarrow> tape_state" where
  "start_block t = (if tp_cdt t = None then stop_deck t else start_loop t)"

definition next_block :: "tape_state \<Rightarrow> tape_state" where
  "next_block t =
    (let u = t\<lparr>tp_block := tp_block t + 1\<rparr> in
     if tp_pause_ms u \<noteq> 0
     then u\<lparr>tp_phase := TP_PAUSE, tp_pause_cycles := unat (tp_pause_ms u) * kTapeCyclesPerMs, tp_pause_ms := 0,
            tp_level := False\<rparr>
     else start_block u)"

text \<open>The cursor one bit on; a last byte may use fewer bits. (In C++ a header that declares more than eight used
  bits shifts by a negative amount; here the truncated difference reads bit 0.)\<close>

definition step_bit :: "tape_state \<Rightarrow> tape_state" where
  "step_bit t =
    (let n = (if tp_byte_idx t + 1 = tp_data_len t then tp_last_used t else 8) in
     if tp_bit_idx t + 1 \<ge> n then t\<lparr>tp_bit_idx := 0, tp_byte_idx := tp_byte_idx t + 1\<rparr>
     else t\<lparr>tp_bit_idx := tp_bit_idx t + 1\<rparr>)"

definition cursor_bit :: "tape_state \<Rightarrow> bool" where
  "cursor_bit t = bit_at t (tp_byte_idx t) (tp_bit_idx t)"

definition pulse_done :: "tape_state \<Rightarrow> tape_state" where
  "pulse_done t0 =
    (let t = t0\<lparr>tp_level := \<not> tp_level t0\<rparr> in
     case tp_phase t of
       TP_PILOT \<Rightarrow>
         (let u = t\<lparr>tp_pulses_left := tp_pulses_left t - 1\<rparr> in
          if tp_pulses_left u > 0 then load_pulse (tp_t_pilot u) u
          else if tp_data_off u = 0 \<and> tp_data_len u = 0 then next_block u
          else load_pulse (tp_t_sync1 u) (u\<lparr>tp_phase := TP_SYNC1\<rparr>))
     | TP_SYNC1 \<Rightarrow> load_pulse (tp_t_sync2 t) (t\<lparr>tp_phase := TP_SYNC2\<rparr>)
     | TP_SYNC2 \<Rightarrow> first_bit (t\<lparr>tp_phase := TP_DATA, tp_pulse_half := False\<rparr>)
     | TP_DATA \<Rightarrow>
         if \<not> tp_pulse_half t then load_pulse (bit_time t (cursor_bit t)) (t\<lparr>tp_pulse_half := True\<rparr>)
         else
           (let u = step_bit (t\<lparr>tp_pulse_half := False\<rparr>) in
            if tp_byte_idx u \<ge> tp_data_len u then next_block u
            else load_pulse (bit_time u (cursor_bit u)) (push_bit u (cursor_bit u)))
     | TP_PULSESEQ \<Rightarrow>
         (let u = t\<lparr>tp_pulses_left := tp_pulses_left t - 1\<rparr> in
          if tp_pulses_left u > 0
          then load_pulse (rd16 u (tp_data_off u + unat (tp_seq_idx u + 1) * 2)) (u\<lparr>tp_seq_idx := tp_seq_idx u + 1\<rparr>)
          else next_block u)
     | TP_DIRECT \<Rightarrow>
         (let u = step_bit t0 in
          if tp_byte_idx u \<ge> tp_data_len u then next_block u
          else load_pulse (tp_t_bit0 u) (push_bit (u\<lparr>tp_level := cursor_bit u\<rparr>) (cursor_bit u)))
     | _ \<Rightarrow> t)"

subsection \<open>The device\<close>

definition tape_advance :: "bool \<Rightarrow> tape_state \<Rightarrow> tape_state" where
  "tape_advance motor t =
    (if tp_playing t \<and> motor \<and> tp_phase t \<noteq> TP_IDLE then
       (if tp_phase t = TP_PAUSE then
          (if tp_pause_cycles t > 0 then t\<lparr>tp_pause_cycles := tp_pause_cycles t - 1\<rparr> else start_block t)
        else
          (let u = t\<lparr>tp_sub_remaining := tp_sub_remaining t - kSubPerCycle\<rparr>
           in if tp_sub_remaining u \<le> 0 then pulse_done u else u))
     else t)"

definition tape_next :: "tape_state \<Rightarrow> Bus \<Rightarrow> tape_state" where
  "tape_next t0 i =
    (let motor = tape_motor (b_tape i); t = t0\<lparr>tp_motor_seen := motor\<rparr> in
     if tp_line_mode t then t\<lparr>tp_level := motor \<and> tp_line_level t\<rparr> else tape_advance motor t)"

definition tape_drives :: "tape_state \<Rightarrow> Bus \<Rightarrow> asg list" where
  "tape_drives t i = [Dr_tape_rdata (tp_level (tape_next t i))]"

definition tape_tick :: "tape_state \<Rightarrow> Bus \<Rightarrow> Bus \<Rightarrow> tape_state \<times> Bus" where
  "tape_tick t i out = (tape_next t i, drive (tape_drives t i) out)"

definition tape_reset :: "tape_state \<Rightarrow> tape_state" where
  "tape_reset t = t"

text \<open>The blob is the prefix of the record up to the media, with its version byte.\<close>

definition tape_save :: "tape_state \<Rightarrow> u8 \<times> tape_state" where
  "tape_save t = (1, t\<lparr>tp_cdt := None, tp_bit_ring := (\<lambda>_. False), tp_bit_wr := 0, tp_bit_rd := 0\<rparr>)"

definition tape_load :: "tape_state \<Rightarrow> u8 \<times> tape_state \<Rightarrow> tape_state" where
  "tape_load t b =
    (if fst b = 1 then (snd b)\<lparr>tp_cdt := tp_cdt t, tp_bit_ring := tp_bit_ring t, tp_bit_wr := tp_bit_wr t,
        tp_bit_rd := tp_bit_rd t\<rparr> else t)"

subsection \<open>The host interface\<close>

definition tape_play :: "tape_state \<Rightarrow> bool \<Rightarrow> tape_state" where
  "tape_play t on =
    (if on \<and> \<not> tp_playing t \<and> tp_cdt t \<noteq> None then
       (let u = t\<lparr>tp_playing := True\<rparr> in if tp_phase u = TP_IDLE then start_block u else u)
     else if \<not> on then t\<lparr>tp_playing := False\<rparr> else t)"

text \<open>The part \<open>tape_rewind\<close> and \<open>tape_seek\<close> share: the deck at a block, and PLAY again if it was down.\<close>

definition cue :: "nat \<Rightarrow> nat \<Rightarrow> tape_state \<Rightarrow> tape_state" where
  "cue pos blk t =
    (let u = t\<lparr>tp_pos := pos, tp_block := blk, tp_phase := TP_IDLE, tp_level := False, tp_error := False,
           tp_bit_wr := 0, tp_bit_rd := 0, tp_playing := False\<rparr>
     in if tp_playing t then tape_play u True else u)"

definition tape_rewind :: "tape_state \<Rightarrow> tape_state" where
  "tape_rewind t = cue 10 0 t"

definition kTapeMagic :: "u8 list" where
  "kTapeMagic = [0x5A, 0x58, 0x54, 0x61, 0x70, 0x65, 0x21, 0x1A]"

definition tape_attach_cdt :: "tape_state \<Rightarrow> u8 list option \<Rightarrow> bool \<times> tape_state" where
  "tape_attach_cdt t data =
    (case data of
       None \<Rightarrow> (False, t)
     | Some p \<Rightarrow> if length p < 10 \<or> take 8 p \<noteq> kTapeMagic then (False, t)
                 else (True, tape_rewind (t\<lparr>tp_cdt := data\<rparr>)))"

definition tape_eject :: "tape_state \<Rightarrow> tape_state" where
  "tape_eject t = (stop_deck (t\<lparr>tp_cdt := None\<rparr>))\<lparr>tp_error := False\<rparr>"

text \<open>The walk of \<open>tape_seek\<close>: blocks left to pass, position and ordinal where it stops. \<open>pos\<close> is a
  \<open>uint32_t\<close>, so a sum that wraps is caught by the overflow guard.\<close>

primrec seek_walk :: "tape_state \<Rightarrow> nat \<Rightarrow> nat \<times> nat \<Rightarrow> nat \<times> nat" where
  "seek_walk t 0 pb = pb"
| "seek_walk t (Suc k) pb =
    (case pb of (pos, blk) \<Rightarrow>
       if pos \<ge> length (cdt_bytes (tp_cdt t)) then (pos, blk)
       else
         (let sz = block_len t pos in
          if sz = 0 \<or> (pos + sz) mod 2 ^ 32 \<le> pos then (pos, blk)
          else seek_walk t k ((pos + sz) mod 2 ^ 32, blk + 1)))"

definition tape_seek :: "tape_state \<Rightarrow> nat \<Rightarrow> tape_state" where
  "tape_seek t ordinal =
    (if tp_cdt t = None then t
     else
       (case seek_walk t ordinal (10, 0) of (pos, blk) \<Rightarrow>
          if blk \<noteq> ordinal \<or> pos < 10 \<or> pos \<ge> length (cdt_bytes (tp_cdt t)) then t else cue pos ordinal t))"

definition tape_line_mode :: "tape_state \<Rightarrow> bool \<Rightarrow> tape_state" where
  "tape_line_mode t on = t\<lparr>tp_line_mode := on\<rparr>"

definition tape_line_level :: "tape_state \<Rightarrow> bool \<Rightarrow> tape_state" where
  "tape_line_level t level = t\<lparr>tp_line_level := level\<rparr>"

subsection \<open>Interfaces provided\<close>

interpretation tape_drv: bus_driver tape_tick tape_next tape_drives
  by unfold_locales (simp add: tape_tick_def)

definition tape_wiring :: "tape_state \<Rightarrow> u8 list option \<times> (u8 \<Rightarrow> bool) \<times> u8 \<times> u8" where
  "tape_wiring t = (tp_cdt t, tp_bit_ring t, tp_bit_wr t, tp_bit_rd t)"

interpretation tape_blob: state_blob tape_save tape_load "\<lambda>t. snd (tape_save t)" tape_wiring
  by unfold_locales (simp_all add: tape_save_def tape_load_def tape_wiring_def)

text \<open>The scope ring holds at most 255 bits, the newest ones.\<close>

definition scope_bits :: "tape_state \<Rightarrow> bool list" where
  "scope_bits t = map (\<lambda>k. tp_bit_ring t (tp_bit_rd t + of_nat k)) [0..<unat (tp_bit_wr t - tp_bit_rd t)]"

lemma length_scope_bits [simp]: "length (scope_bits t) = unat (tp_bit_wr t - tp_bit_rd t)"
  by (simp add: scope_bits_def)

lemma ring_index_eq: "k < 256 \<Longrightarrow> n < 256 \<Longrightarrow> (r :: u8) + of_nat k = r + of_nat n \<longleftrightarrow> k = n"
  by (simp add: word_of_nat_eq_iff take_bit_nat_eq_self)

lemma scope_bits_at:
  assumes "tp_bit_wr t = tp_bit_rd t + of_nat n" "n < 256"
  shows "scope_bits t = map (\<lambda>k. tp_bit_ring t (tp_bit_rd t + of_nat k)) [0..<n]"
proof -
  have "tp_bit_wr t - tp_bit_rd t = of_nat n" by (simp add: assms(1))
  moreover have "unat (of_nat n :: u8) = n" using assms(2) by (simp add: unsigned_of_nat take_bit_nat_eq_self)
  ultimately show ?thesis by (simp only: scope_bits_def)
qed

lemma scope_index:
  obtains n where "tp_bit_wr t = tp_bit_rd t + of_nat n" "n < 256"
proof
  show "tp_bit_wr t = tp_bit_rd t + of_nat (unat (tp_bit_wr t - tp_bit_rd t))" by simp
qed (rule unat_less_256)

lemma push_bit_scope: "scope_bits (push_bit t b) = (if length (scope_bits t) = 255 then tl (scope_bits t) else scope_bits t) @ [b]"
proof -
  obtain n where n: "tp_bit_wr t = tp_bit_rd t + of_nat n" "n < 256" by (rule scope_index)
  note old = scope_bits_at [OF n]
  let ?r = "tp_bit_rd t"
  define f where "f = (tp_bit_ring t)(tp_bit_wr t := b)"
  have f: "f (?r + of_nat k) = tp_bit_ring t (?r + of_nat k)" if "k < n" for k
    using ring_index_eq [of k n ?r] that n by (simp add: f_def)
  have fn: "f (?r + of_nat n) = b" by (simp add: f_def n)
  have eq: "tp_bit_wr t + 1 = ?r \<longleftrightarrow> n = 255"
  proof -
    have "tp_bit_wr t + 1 = ?r \<longleftrightarrow> (of_nat (Suc n) :: u8) = of_nat 0" by (simp add: n(1) add.assoc add.commute)
    also have "\<dots> \<longleftrightarrow> Suc n = 256"
    proof (cases "Suc n = 256")
      case False
      then have "Suc n < 256" using n(2) by simp
      then show ?thesis using ring_index_eq [of "Suc n" 0 0] False by (simp del: of_nat_Suc)
    next
      case True
      then show ?thesis by (simp only: True) simp
    qed
    finally show ?thesis by simp
  qed
  show ?thesis
  proof (cases "n = 255")
    case True
    define u where "u = t\<lparr>tp_bit_ring := f, tp_bit_wr := tp_bit_wr t + 1, tp_bit_rd := ?r + 1\<rparr>"
    have p: "push_bit t b = u" using True eq by (simp add: push_bit_def f_def u_def Let_def)
    have "tp_bit_wr u = tp_bit_rd u + of_nat 255" by (simp add: u_def n(1) True)
    then have "scope_bits u = map (\<lambda>k. f (?r + 1 + of_nat k)) [0..<255]"
      using scope_bits_at [of u 255] by (simp add: u_def)
    also have "\<dots> = map (\<lambda>k. f (?r + of_nat (Suc k))) [0..<255]" by (simp add: add.assoc)
    also have "\<dots> = map (\<lambda>k. f (?r + of_nat k)) [1..<256]"
    proof -
      have i: "[1..<256] = map Suc [0..<255]" by (simp add: map_Suc_upt)
      show ?thesis by (simp only: i map_map comp_def)
    qed
    also have "\<dots> = map (\<lambda>k. f (?r + of_nat k)) [1..<255] @ [b]"
      using fn True upt_Suc_append [of 1 255] by simp
    also have "map (\<lambda>k. f (?r + of_nat k)) [1..<255] = tl (scope_bits t)"
      using f True by (simp add: old map_tl [symmetric])
    finally show ?thesis using p True by (simp add: old)
  next
    case False
    define u where "u = t\<lparr>tp_bit_ring := f, tp_bit_wr := tp_bit_wr t + 1\<rparr>"
    have p: "push_bit t b = u" using False eq by (simp add: push_bit_def f_def u_def Let_def)
    have "tp_bit_wr u = tp_bit_rd u + of_nat (Suc n)" by (simp add: u_def n(1) add.assoc add.commute)
    then have "scope_bits u = map (\<lambda>k. f (?r + of_nat k)) [0..<Suc n]"
      using scope_bits_at [of u "Suc n"] n(2) False by (simp add: u_def)
    then show ?thesis using p f fn False by (simp add: old)
  qed
qed

lemma pop_bit_scope:
  "scope_bits t = [] \<Longrightarrow> pop_bit t = None"
  "scope_bits t = b # bs \<Longrightarrow> \<exists>u. pop_bit t = Some (b, u) \<and> scope_bits u = bs"
proof -
  obtain n where n: "tp_bit_wr t = tp_bit_rd t + of_nat n" "n < 256" by (rule scope_index)
  note old = scope_bits_at [OF n]
  show "scope_bits t = [] \<Longrightarrow> pop_bit t = None" using n by (simp add: old pop_bit_def)
  assume c: "scope_bits t = b # bs"
  then obtain m where m: "n = Suc m" by (cases n) (simp_all add: old)
  have ne: "tp_bit_rd t \<noteq> tp_bit_wr t"
    using ring_index_eq [of 0 n "tp_bit_rd t"] n m by simp
  define u where "u = t\<lparr>tp_bit_rd := tp_bit_rd t + 1\<rparr>"
  have "tp_bit_wr u = tp_bit_rd u + of_nat m" by (simp add: u_def n(1) m add.assoc)
  then have "scope_bits u = map (\<lambda>k. tp_bit_ring t (tp_bit_rd t + of_nat k)) (map Suc [0..<m])"
    using scope_bits_at [of u m] n(2) m by (simp add: u_def add.assoc)
  moreover have "b # bs = map (\<lambda>k. tp_bit_ring t (tp_bit_rd t + of_nat k)) (0 # map Suc [0..<m])"
    using c upt_conv_Cons [of 0 "Suc m"] by (simp only: old m map_Suc_upt zero_less_Suc)
  ultimately show "\<exists>u. pop_bit t = Some (b, u) \<and> scope_bits u = bs"
    using ne by (simp add: pop_bit_def u_def)
qed

interpretation tape_scope: event_ring push_bit pop_bit scope_bits 255 "\<lambda>_. True"
proof unfold_locales
  show "length (scope_bits t) \<le> 255" for t 
    using unat_less_256 [of "tp_bit_wr t - tp_bit_rd t"] by (simp add: less_Suc_eq_le [symmetric] del: unat_less_256)
qed (simp_all add: push_bit_scope pop_bit_scope)

end
