(* ===== verification/Tape_Play.thy ===== *)
theory Tape_Play
  imports Tape
begin

text \<open>
  What the deck plays: a block as a list of pulse lengths, the wave those pulses make on the read line cycle by
  cycle, and the proof that the pulse machine of \<open>tape.cpp\<close> produces it; the block sizes the cursor and the
  seek agree on.
\<close>

subsection \<open>The block being played\<close>

definition nbits :: "tape_state \<Rightarrow> nat" where
  "nbits t = 8 * (tp_data_len t - 1) + tp_last_used t"

definition bit_no :: "tape_state \<Rightarrow> nat \<Rightarrow> bool" where
  "bit_no t m = bit_at t (m div 8) (m mod 8)"

definition cursor_no :: "tape_state \<Rightarrow> nat" where
  "cursor_no t = 8 * tp_byte_idx t + tp_bit_idx t"

definition bit_pulses :: "tape_state \<Rightarrow> nat list \<Rightarrow> u16 list" where
  "bit_pulses t ms = concat (map (\<lambda>m. replicate 2 (bit_time t (bit_no t m))) ms)"

definition pure_tone :: "tape_state \<Rightarrow> bool" where
  "pure_tone t \<longleftrightarrow> tp_data_off t = 0 \<and> tp_data_len t = 0"

text \<open>The pulses still to come after the current one, and the data bits still to be shown on the scope.\<close>

definition todo :: "tape_state \<Rightarrow> u16 list" where
  "todo t =
    (case tp_phase t of
       TP_PILOT \<Rightarrow> replicate (unat (tp_pulses_left t) - 1) (tp_t_pilot t) @
         (if pure_tone t then [] else [tp_t_sync1 t, tp_t_sync2 t] @ bit_pulses t [0..<nbits t])
     | TP_SYNC1 \<Rightarrow> tp_t_sync2 t # bit_pulses t [0..<nbits t]
     | TP_SYNC2 \<Rightarrow> bit_pulses t [0..<nbits t]
     | TP_DATA \<Rightarrow> (if tp_pulse_half t then [] else [bit_time t (bit_no t (cursor_no t))]) @
         bit_pulses t [Suc (cursor_no t)..<nbits t]
     | TP_PULSESEQ \<Rightarrow> map (\<lambda>k. rd16 t (tp_data_off t + k * 2))
         [Suc (unat (tp_seq_idx t))..<unat (tp_seq_idx t) + unat (tp_pulses_left t)]
     | _ \<Rightarrow> [])"

definition bits_todo :: "tape_state \<Rightarrow> bool list" where
  "bits_todo t =
    (case tp_phase t of
       TP_PILOT \<Rightarrow> if pure_tone t then [] else map (bit_no t) [0..<nbits t]
     | TP_SYNC1 \<Rightarrow> map (bit_no t) [0..<nbits t]
     | TP_SYNC2 \<Rightarrow> map (bit_no t) [0..<nbits t]
     | TP_DATA \<Rightarrow> map (bit_no t) [Suc (cursor_no t)..<nbits t]
     | _ \<Rightarrow> [])"

definition scope_push :: "bool list \<Rightarrow> bool \<Rightarrow> bool list" where
  "scope_push bs b = (if length bs = 255 then tl bs else bs) @ [b]"

definition scope_end :: "tape_state \<Rightarrow> bool list" where
  "scope_end t = foldl scope_push (scope_bits t) (bits_todo t)"

definition data_ok :: "tape_state \<Rightarrow> bool" where
  "data_ok t \<longleftrightarrow> 0 < tp_data_len t \<and> 0 < tp_last_used t \<and> tp_last_used t \<le> 8"

definition in_block :: "tape_state \<Rightarrow> bool" where
  "in_block t \<longleftrightarrow>
    (case tp_phase t of
       TP_PILOT \<Rightarrow> 0 < tp_pulses_left t \<and> (pure_tone t \<or> data_ok t \<and> cursor_no t = 0)
     | TP_SYNC1 \<Rightarrow> data_ok t \<and> cursor_no t = 0
     | TP_SYNC2 \<Rightarrow> data_ok t \<and> cursor_no t = 0
     | TP_DATA \<Rightarrow> data_ok t \<and> tp_bit_idx t < 8 \<and> cursor_no t < nbits t
     | TP_PULSESEQ \<Rightarrow> 0 < tp_pulses_left t \<and> unat (tp_seq_idx t) + unat (tp_pulses_left t) \<le> 65536
     | _ \<Rightarrow> False)"

text \<open>What stays put while a block plays.\<close>

definition rest_of :: "tape_state \<Rightarrow> nat \<times> nat \<times> bool \<times> bool \<times> bool \<times> bool \<times> u16 \<times> u8 list option" where
  "rest_of t = (tp_pos t, tp_block t, tp_playing t, tp_line_mode t, tp_line_level t, tp_error t, tp_pause_ms t, tp_cdt t)"

lemma push_bit_sel [simp]:
  "tp_pos (push_bit t b) = tp_pos t" "tp_block (push_bit t b) = tp_block t" "tp_phase (push_bit t b) = tp_phase t"
  "tp_level (push_bit t b) = tp_level t" "tp_playing (push_bit t b) = tp_playing t"
  "tp_line_mode (push_bit t b) = tp_line_mode t" "tp_line_level (push_bit t b) = tp_line_level t"
  "tp_motor_seen (push_bit t b) = tp_motor_seen t" "tp_error (push_bit t b) = tp_error t"
  "tp_data_off (push_bit t b) = tp_data_off t" "tp_data_len (push_bit t b) = tp_data_len t"
  "tp_byte_idx (push_bit t b) = tp_byte_idx t" "tp_bit_idx (push_bit t b) = tp_bit_idx t"
  "tp_last_used (push_bit t b) = tp_last_used t" "tp_pulse_half (push_bit t b) = tp_pulse_half t"
  "tp_pulses_left (push_bit t b) = tp_pulses_left t" "tp_seq_idx (push_bit t b) = tp_seq_idx t"
  "tp_t_pilot (push_bit t b) = tp_t_pilot t" "tp_t_sync1 (push_bit t b) = tp_t_sync1 t"
  "tp_t_sync2 (push_bit t b) = tp_t_sync2 t" "tp_t_bit0 (push_bit t b) = tp_t_bit0 t"
  "tp_t_bit1 (push_bit t b) = tp_t_bit1 t" "tp_pause_ms (push_bit t b) = tp_pause_ms t"
  "tp_sub_remaining (push_bit t b) = tp_sub_remaining t" "tp_pause_cycles (push_bit t b) = tp_pause_cycles t"
  "tp_cdt (push_bit t b) = tp_cdt t"
  by (simp_all add: push_bit_def Let_def)

lemma scope_upd [simp]:
  "scope_bits (t\<lparr>tp_level := v\<rparr>) = scope_bits t" "scope_bits (t\<lparr>tp_phase := ph\<rparr>) = scope_bits t"
  "scope_bits (t\<lparr>tp_pulse_half := v\<rparr>) = scope_bits t" "scope_bits (t\<lparr>tp_bit_idx := n\<rparr>) = scope_bits t"
  "scope_bits (t\<lparr>tp_byte_idx := n\<rparr>) = scope_bits t" "scope_bits (t\<lparr>tp_pulses_left := w\<rparr>) = scope_bits t"
  "scope_bits (t\<lparr>tp_seq_idx := w\<rparr>) = scope_bits t" "scope_bits (t\<lparr>tp_sub_remaining := i\<rparr>) = scope_bits t"
  "scope_bits (t\<lparr>tp_motor_seen := v\<rparr>) = scope_bits t" "scope_bits (t\<lparr>tp_pos := n\<rparr>) = scope_bits t"
  "scope_bits (t\<lparr>tp_data_off := n\<rparr>) = scope_bits t" "scope_bits (t\<lparr>tp_data_len := n\<rparr>) = scope_bits t"
  "scope_bits (t\<lparr>tp_last_used := n\<rparr>) = scope_bits t" "scope_bits (t\<lparr>tp_t_pilot := w\<rparr>) = scope_bits t"
  "scope_bits (t\<lparr>tp_t_sync1 := w\<rparr>) = scope_bits t" "scope_bits (t\<lparr>tp_t_sync2 := w\<rparr>) = scope_bits t"
  "scope_bits (t\<lparr>tp_t_bit0 := w\<rparr>) = scope_bits t" "scope_bits (t\<lparr>tp_t_bit1 := w\<rparr>) = scope_bits t"
  "scope_bits (t\<lparr>tp_pause_ms := w\<rparr>) = scope_bits t"
  by (simp_all add: scope_bits_def)

lemma push_scope: "scope_bits (push_bit t b) = scope_push (scope_bits t) b"
  by (simp only: push_bit_scope scope_push_def)

lemma bit_pulses_Cons: "bit_pulses t (m # ms) = bit_time t (bit_no t m) # bit_time t (bit_no t m) # bit_pulses t ms"
  by (simp add: bit_pulses_def numeral_2_eq_2)

lemma bit_pulses_Nil [simp]: "bit_pulses t [] = []"
  by (simp add: bit_pulses_def)

text \<open>The data a bit depends on.\<close>

definition bit_src :: "tape_state \<Rightarrow> u8 list option \<times> nat \<times> u16 \<times> u16" where
  "bit_src t = (tp_cdt t, tp_data_off t, tp_t_bit0 t, tp_t_bit1 t)"

lemma bit_src_cong:
  assumes "bit_src u = bit_src t"
  shows "bit_no u = bit_no t" "bit_time u = bit_time t" "bit_pulses u = bit_pulses t"
proof -
  show b: "bit_no u = bit_no t" using assms by (intro ext) (simp add: bit_no_def bit_at_def rd8_def bit_src_def)
  show ti: "bit_time u = bit_time t" using assms by (intro ext) (simp add: bit_time_def bit_src_def)
  show "bit_pulses u = bit_pulses t" by (intro ext) (simp only: bit_pulses_def b ti)
qed

definition stepped :: "tape_state \<Rightarrow> u16 \<Rightarrow> u16 list \<Rightarrow> tape_state \<Rightarrow> bool" where
  "stepped t p ps u \<longleftrightarrow> in_block u \<and> todo u = ps \<and> tp_sub_remaining u = int (unat p) * 32 \<and>
     tp_level u = (\<not> tp_level t) \<and> rest_of u = rest_of t \<and> scope_end u = scope_end t"

lemma u16_pred: "0 < w \<Longrightarrow> unat (w - 1 :: u16) = unat w - 1"
  by (simp add: unat_minus_one word_gt_0)

lemma pilot_step:
  assumes "in_block t" "tp_phase t = TP_PILOT" "todo t = p # ps"
  shows "stepped t p ps (pulse_done t)"
proof -
  have n: "0 < tp_pulses_left t" using assms(1,2) by (simp add: in_block_def)
  then have n': "0 < unat (tp_pulses_left t)" by (simp add: word_less_nat_alt)
  show ?thesis
  proof (cases "tp_pulses_left t - 1 > 0")
    case True
    let ?u = "load_pulse (tp_t_pilot t) (t\<lparr>tp_level := \<not> tp_level t, tp_pulses_left := tp_pulses_left t - 1\<rparr>)"
    have pd: "pulse_done t = ?u" using True assms(2) by (simp add: pulse_done_def Let_def load_pulse_def)
    have gt: "1 < unat (tp_pulses_left t)" using True n u16_pred [OF n] by (simp add: word_less_nat_alt)
    then have "replicate (unat (tp_pulses_left t) - 1) (tp_t_pilot t) =
        tp_t_pilot t # replicate (unat (tp_pulses_left t) - 1 - 1) (tp_t_pilot t)"
      by (cases "unat (tp_pulses_left t) - 1") simp_all
    then have p: "p = tp_t_pilot t" "ps = replicate (unat (tp_pulses_left t) - 1 - 1) (tp_t_pilot t) @
        (if pure_tone t then [] else [tp_t_sync1 t, tp_t_sync2 t] @ bit_pulses t [0..<nbits t])"
      using assms(2,3) by (auto simp: todo_def)
    have s: "bit_src ?u = bit_src t" by (simp add: bit_src_def load_pulse_def)
    have f: "pure_tone ?u = pure_tone t" "nbits ?u = nbits t" "data_ok ?u = data_ok t" "cursor_no ?u = cursor_no t"
      "rest_of ?u = rest_of t" "scope_bits ?u = scope_bits t" "tp_phase ?u = TP_PILOT"
      "tp_pulses_left ?u = tp_pulses_left t - 1" "tp_t_pilot ?u = tp_t_pilot t" "tp_t_sync1 ?u = tp_t_sync1 t"
      "tp_t_sync2 ?u = tp_t_sync2 t" "tp_sub_remaining ?u = int (unat (tp_t_pilot t)) * 32" "tp_level ?u = (\<not> tp_level t)"
      using assms(2)
      by (simp_all add: load_pulse_def pure_tone_def nbits_def data_ok_def cursor_no_def rest_of_def kSubPerTs_def)
    show ?thesis
      using assms(1,2) True u16_pred [OF n] unfolding pd stepped_def
      by (simp add: f p in_block_def todo_def bit_src_cong [OF s] scope_end_def bits_todo_def)
  next
    case False
    then have z: "tp_pulses_left t - 1 = 0" by (simp add: word_gt_0)
    then have one: "unat (tp_pulses_left t) = 1" using u16_pred [OF n] n' by simp
    then have np: "\<not> pure_tone t" and p: "p = tp_t_sync1 t" "ps = tp_t_sync2 t # bit_pulses t [0..<nbits t]"
      using assms(2,3) by (simp_all add: todo_def split: if_splits)
    let ?u = "load_pulse (tp_t_sync1 t) (t\<lparr>tp_level := \<not> tp_level t, tp_pulses_left := 0, tp_phase := TP_SYNC1\<rparr>)"
    have pd: "pulse_done t = ?u"
      using z np assms(2) by (auto simp: pulse_done_def Let_def load_pulse_def pure_tone_def)
    have s: "bit_src ?u = bit_src t" by (simp add: bit_src_def load_pulse_def)
    have f: "nbits ?u = nbits t" "data_ok ?u = data_ok t" "cursor_no ?u = cursor_no t"
      "rest_of ?u = rest_of t" "scope_bits ?u = scope_bits t" "tp_phase ?u = TP_SYNC1" "tp_t_sync2 ?u = tp_t_sync2 t"
      "tp_sub_remaining ?u = int (unat (tp_t_sync1 t)) * 32" "tp_level ?u = (\<not> tp_level t)"
      by (simp_all add: load_pulse_def nbits_def data_ok_def cursor_no_def rest_of_def kSubPerTs_def)
    show ?thesis
      using assms(1,2) np unfolding pd stepped_def
      by (simp add: f p in_block_def todo_def bit_src_cong [OF s] scope_end_def bits_todo_def)
  qed
qed

lemma sync1_step:
  assumes "in_block t" "tp_phase t = TP_SYNC1" "todo t = p # ps"
  shows "stepped t p ps (pulse_done t)"
proof -
  let ?u = "load_pulse (tp_t_sync2 t) (t\<lparr>tp_level := \<not> tp_level t, tp_phase := TP_SYNC2\<rparr>)"
  have pd: "pulse_done t = ?u" using assms(2) by (simp add: pulse_done_def Let_def load_pulse_def)
  have s: "bit_src ?u = bit_src t" by (simp add: bit_src_def load_pulse_def)
  have p: "p = tp_t_sync2 t" "ps = bit_pulses t [0..<nbits t]" using assms(2,3) by (simp_all add: todo_def)
  have f: "nbits ?u = nbits t" "data_ok ?u = data_ok t" "cursor_no ?u = cursor_no t"
    "rest_of ?u = rest_of t" "scope_bits ?u = scope_bits t" "tp_phase ?u = TP_SYNC2"
    "tp_sub_remaining ?u = int (unat (tp_t_sync2 t)) * 32" "tp_level ?u = (\<not> tp_level t)"
    by (simp_all add: load_pulse_def nbits_def data_ok_def cursor_no_def rest_of_def kSubPerTs_def)
  show ?thesis
    using assms(1,2) unfolding pd stepped_def
    by (simp add: f p in_block_def todo_def bit_src_cong [OF s] scope_end_def bits_todo_def)
qed

lemma data_ok_bits: "data_ok t \<Longrightarrow> 0 < nbits t"
  by (simp add: data_ok_def nbits_def)

text \<open>The bit the cursor stands on, begun: the ring has it, its first pulse is loaded.\<close>

lemma bit_begun:
  assumes "tp_phase u = TP_DATA" "\<not> tp_pulse_half u" "data_ok u" "tp_bit_idx u < 8" "cursor_no u < nbits u"
  shows "let v = load_pulse (bit_time u (bit_no u (cursor_no u))) (push_bit u (bit_no u (cursor_no u))) in
     in_block v \<and> todo v = bit_time u (bit_no u (cursor_no u)) # bit_pulses u [Suc (cursor_no u)..<nbits u] \<and>
     tp_sub_remaining v = int (unat (bit_time u (bit_no u (cursor_no u)))) * 32 \<and> tp_level v = tp_level u \<and>
     rest_of v = rest_of u \<and>
     scope_end v = foldl scope_push (scope_bits u) (map (bit_no u) [cursor_no u..<nbits u])"
proof -
  let ?b = "bit_no u (cursor_no u)"
  let ?v = "load_pulse (bit_time u ?b) (push_bit u ?b)"
  have s: "bit_src ?v = bit_src u" by (simp add: bit_src_def load_pulse_def)
  have f: "nbits ?v = nbits u" "data_ok ?v = data_ok u" "cursor_no ?v = cursor_no u" "rest_of ?v = rest_of u"
    "tp_phase ?v = TP_DATA" "tp_sub_remaining ?v = int (unat (bit_time u ?b)) * 32" "tp_level ?v = tp_level u"
    "\<not> tp_pulse_half ?v" "tp_bit_idx ?v = tp_bit_idx u" "scope_bits ?v = scope_push (scope_bits u) ?b"
    using assms(1,2) by (simp_all add: load_pulse_def nbits_def data_ok_def cursor_no_def rest_of_def kSubPerTs_def push_scope)
  have "[cursor_no u..<nbits u] = cursor_no u # [Suc (cursor_no u)..<nbits u]"
    using assms(5) by (rule upt_conv_Cons)
  then show ?thesis
    using assms by (simp add: f in_block_def todo_def bit_src_cong [OF s] scope_end_def bits_todo_def Let_def)
qed

lemma bit_no_at: "tp_bit_idx t < 8 \<Longrightarrow> bit_no t (cursor_no t) = cursor_bit t"
  by (simp add: bit_no_def cursor_no_def cursor_bit_def)

lemma sync2_step:
  assumes "in_block t" "tp_phase t = TP_SYNC2" "todo t = p # ps"
  shows "stepped t p ps (pulse_done t)"
proof -
  let ?u = "t\<lparr>tp_level := \<not> tp_level t, tp_phase := TP_DATA, tp_pulse_half := False\<rparr>"
  have d: "data_ok t" "tp_byte_idx t = 0" "tp_bit_idx t = 0" using assms(1,2) by (simp_all add: in_block_def cursor_no_def)
  have f: "nbits ?u = nbits t" "data_ok ?u = data_ok t" "rest_of ?u = rest_of t"
    by (simp_all add: nbits_def data_ok_def rest_of_def)
  have z: "cursor_no ?u = 0" using d by (simp add: cursor_no_def)
  have s: "bit_src ?u = bit_src t" by (simp add: bit_src_def)
  have n: "0 < nbits t" using d(1) by (rule data_ok_bits)
  have pd: "pulse_done t = load_pulse (bit_time ?u (bit_no ?u 0)) (push_bit ?u (bit_no ?u 0))"
    using assms(2) by (simp add: pulse_done_def Let_def first_bit_def bit_no_def)
  have "[0..<nbits t] = 0 # [Suc 0..<nbits t]" using n by (rule upt_conv_Cons)
  then have p: "p = bit_time t (bit_no t 0)" "ps = bit_time t (bit_no t 0) # bit_pulses t [Suc 0..<nbits t]"
    using assms(2,3) by (auto simp: todo_def bit_pulses_Cons)
  show ?thesis
    using bit_begun [of ?u] d(1,3) n assms(2) unfolding stepped_def pd z
    by (simp add: f p bit_src_cong [OF s] Let_def scope_end_def bits_todo_def)
qed

lemma step_bit_next:
  assumes "data_ok t" "tp_bit_idx t < 8" "Suc (cursor_no t) < nbits t"
  shows "tp_bit_idx (step_bit t) < 8" "cursor_no (step_bit t) = Suc (cursor_no t)"
    "tp_byte_idx (step_bit t) < tp_data_len t"
    "step_bit t = t\<lparr>tp_byte_idx := tp_byte_idx (step_bit t), tp_bit_idx := tp_bit_idx (step_bit t)\<rparr>"
proof -
  have d: "0 < tp_data_len t" "0 < tp_last_used t" "tp_last_used t \<le> 8" using assms(1) by (simp_all add: data_ok_def)
  have c: "8 * tp_byte_idx t + tp_bit_idx t + 1 < 8 * (tp_data_len t - 1) + tp_last_used t"
    using assms(3) by (simp add: cursor_no_def nbits_def)
  show "tp_bit_idx (step_bit t) < 8" "cursor_no (step_bit t) = Suc (cursor_no t)"
    "tp_byte_idx (step_bit t) < tp_data_len t"
    using d c assms(2) by (auto simp: step_bit_def cursor_no_def Let_def)
  show "step_bit t = t\<lparr>tp_byte_idx := tp_byte_idx (step_bit t), tp_bit_idx := tp_bit_idx (step_bit t)\<rparr>"
    by (cases t) (simp add: step_bit_def Let_def)
qed

lemma last_octet:
  fixes b i m l :: nat
  assumes "8 * b + i + 1 = 8 * m + l" "0 < l" "l \<le> 8" "i < 8"
  shows "b = m" "i + 1 = l"
proof -
  have "\<not> b < m" using assms by linarith
  moreover have "\<not> m < b" using assms by linarith
  ultimately show "b = m" by simp
  then show "i + 1 = l" using assms(1) by simp
qed

lemma step_bit_last:
  assumes "data_ok t" "tp_bit_idx t < 8" "Suc (cursor_no t) = nbits t"
  shows "tp_byte_idx (step_bit t) \<ge> tp_data_len t"
proof -
  have d: "0 < tp_data_len t" "0 < tp_last_used t" "tp_last_used t \<le> 8" using assms(1) by (simp_all add: data_ok_def)
  have c: "8 * tp_byte_idx t + tp_bit_idx t + 1 = 8 * (tp_data_len t - 1) + tp_last_used t"
    using assms(3) by (simp add: cursor_no_def nbits_def)
  from last_octet [OF this d(2,3) assms(2)] d(1) have "tp_byte_idx t + 1 = tp_data_len t" "tp_bit_idx t + 1 = tp_last_used t"
    by simp_all
  then show ?thesis by (simp add: step_bit_def Let_def)
qed

lemma data_step:
  assumes "in_block t" "tp_phase t = TP_DATA" "todo t = p # ps"
  shows "stepped t p ps (pulse_done t)"
proof (cases "tp_pulse_half t")
  case False
  have d: "data_ok t" "tp_bit_idx t < 8" "cursor_no t < nbits t" using assms(1,2) by (simp_all add: in_block_def)
  let ?b = "bit_no t (cursor_no t)"
  let ?u = "load_pulse (bit_time t ?b) (t\<lparr>tp_level := \<not> tp_level t, tp_pulse_half := True\<rparr>)"
  have pd: "pulse_done t = ?u"
    using False assms(2) d(2)
    by (simp add: pulse_done_def Let_def load_pulse_def bit_no_at cursor_bit_def bit_at_def bit_time_def rd8_def)
  have s: "bit_src ?u = bit_src t" by (simp add: bit_src_def load_pulse_def)
  have p: "p = bit_time t ?b" "ps = bit_pulses t [Suc (cursor_no t)..<nbits t]"
    using assms(2,3) False by (simp_all add: todo_def)
  have f: "nbits ?u = nbits t" "data_ok ?u = data_ok t" "cursor_no ?u = cursor_no t" "rest_of ?u = rest_of t"
    "scope_bits ?u = scope_bits t" "tp_phase ?u = TP_DATA" "tp_sub_remaining ?u = int (unat (bit_time t ?b)) * 32"
    "tp_level ?u = (\<not> tp_level t)" "tp_pulse_half ?u" "tp_bit_idx ?u = tp_bit_idx t"
    using assms(2) by (simp_all add: load_pulse_def nbits_def data_ok_def cursor_no_def rest_of_def kSubPerTs_def)
  show ?thesis
    using assms(2) d unfolding pd stepped_def
    by (simp add: f p in_block_def todo_def bit_src_cong [OF s] scope_end_def bits_todo_def)
next
  case True
  have d: "data_ok t" "tp_bit_idx t < 8" "cursor_no t < nbits t" using assms(1,2) by (simp_all add: in_block_def)
  let ?t = "t\<lparr>tp_level := \<not> tp_level t, tp_pulse_half := False\<rparr>" let ?u = "step_bit ?t"
  have todo: "todo t = bit_pulses t [Suc (cursor_no t)..<nbits t]" using assms(2) True by (simp add: todo_def)
  then have more: "Suc (cursor_no t) < nbits t" using assms(3) by (cases "Suc (cursor_no t) < nbits t") simp_all
  have dt: "data_ok ?t" "tp_bit_idx ?t < 8" "Suc (cursor_no ?t) < nbits ?t" "cursor_no ?t = cursor_no t" "nbits ?t = nbits t"
    using d more by (simp_all add: data_ok_def cursor_no_def nbits_def)
  note n = step_bit_next [OF dt(1-3)]
  have f: "bit_src ?u = bit_src t" "nbits ?u = nbits t" "data_ok ?u" "rest_of ?u = rest_of t" "scope_bits ?u = scope_bits t"
    "tp_phase ?u = TP_DATA" "\<not> tp_pulse_half ?u" "tp_level ?u = (\<not> tp_level t)" "tp_data_len ?u = tp_data_len t"
    using d(1) assms(2) by (subst n(4), simp add: bit_src_def nbits_def data_ok_def rest_of_def)+
  have cu: "cursor_no ?u = Suc (cursor_no t)" using n(2) dt(4) by simp
  have pd: "pulse_done t = load_pulse (bit_time ?u (bit_no ?u (cursor_no ?u))) (push_bit ?u (bit_no ?u (cursor_no ?u)))"
    using assms(2) True n(1,3) f(9) by (simp add: pulse_done_def Let_def bit_no_at)
  have split: "[Suc (cursor_no t)..<nbits t] = Suc (cursor_no t) # [Suc (Suc (cursor_no t))..<nbits t]"
    using more by (rule upt_conv_Cons)
  then have p: "p = bit_time t (bit_no t (Suc (cursor_no t)))"
    "ps = bit_time t (bit_no t (Suc (cursor_no t))) # bit_pulses t [Suc (Suc (cursor_no t))..<nbits t]"
    using assms(3) by (auto simp: todo bit_pulses_Cons)
  show ?thesis
    using bit_begun [OF f(6,7,3) n(1)] more assms(2) unfolding stepped_def pd
    by (simp add: f cu p bit_src_cong [OF f(1)] Let_def scope_end_def bits_todo_def)
qed

lemma seq_step:
  assumes "in_block t" "tp_phase t = TP_PULSESEQ" "todo t = p # ps"
  shows "stepped t p ps (pulse_done t)"
proof -
  have n: "0 < tp_pulses_left t" "unat (tp_seq_idx t) + unat (tp_pulses_left t) \<le> 65536"
    using assms(1,2) by (simp_all add: in_block_def)
  note pr = u16_pred [OF n(1)]
  have more: "Suc (unat (tp_seq_idx t)) < unat (tp_seq_idx t) + unat (tp_pulses_left t)"
    using assms(2,3) by (cases "Suc (unat (tp_seq_idx t)) < unat (tp_seq_idx t) + unat (tp_pulses_left t)") (simp_all add: todo_def)
  then have s1: "unat (tp_seq_idx t + 1) = Suc (unat (tp_seq_idx t))"
    using n(2) by (simp add: unat_word_ariths)
  have gt: "tp_pulses_left t - 1 > 0" using more pr by (simp add: word_less_nat_alt)
  define u where "u = load_pulse (rd16 t (tp_data_off t + unat (tp_seq_idx t + 1) * 2))
      (t\<lparr>tp_level := \<not> tp_level t, tp_pulses_left := tp_pulses_left t - 1, tp_seq_idx := tp_seq_idx t + 1\<rparr>)"
  have pd: "pulse_done t = u" using gt assms(2) by (simp add: u_def pulse_done_def Let_def load_pulse_def rd16_def)
  have "[Suc (unat (tp_seq_idx t))..<unat (tp_seq_idx t) + unat (tp_pulses_left t)] =
      Suc (unat (tp_seq_idx t)) # [Suc (Suc (unat (tp_seq_idx t)))..<unat (tp_seq_idx t) + unat (tp_pulses_left t)]"
    using more by (rule upt_conv_Cons)
  then have p: "p = rd16 t (tp_data_off t + Suc (unat (tp_seq_idx t)) * 2)"
    "ps = map (\<lambda>k. rd16 t (tp_data_off t + k * 2)) [Suc (Suc (unat (tp_seq_idx t)))..<unat (tp_seq_idx t) + unat (tp_pulses_left t)]"
    using assms(2,3) by (simp_all add: todo_def)
  have f: "rest_of u = rest_of t" "scope_bits u = scope_bits t" "tp_phase u = TP_PULSESEQ"
    "tp_seq_idx u = tp_seq_idx t + 1" "tp_pulses_left u = tp_pulses_left t - 1" "tp_data_off u = tp_data_off t"
    "rd16 u = rd16 t" "tp_level u = (\<not> tp_level t)"
    "tp_sub_remaining u = int (unat (rd16 t (tp_data_off t + unat (tp_seq_idx t + 1) * 2))) * 32"
    using assms(2) by (auto simp: u_def load_pulse_def rest_of_def kSubPerTs_def rd16_def)
  show ?thesis
    using assms(2) gt n(2) more unfolding pd stepped_def
    by (simp add: f p s1 pr in_block_def todo_def scope_end_def bits_todo_def)
qed

lemma pulse_step:
  assumes "in_block t" "todo t = p # ps"
  shows "stepped t p ps (pulse_done t)"
  using assms pilot_step sync1_step sync2_step data_step seq_step
  by (cases "tp_phase t") (auto simp: in_block_def)

text \<open>The last pulse of a block hands over to \<open>next_block\<close>.\<close>

lemma pulse_last:
  assumes "in_block t" "todo t = []"
  obtains u where "pulse_done t = next_block u" "tp_level u = (\<not> tp_level t)" "rest_of u = rest_of t"
    "scope_bits u = scope_end t"
proof (cases "tp_phase t")
  case TP_PILOT
  let ?u = "t\<lparr>tp_level := \<not> tp_level t, tp_pulses_left := tp_pulses_left t - 1\<rparr>"
  have n: "0 < tp_pulses_left t" using assms(1) TP_PILOT by (simp add: in_block_def)
  have "unat (tp_pulses_left t) - 1 = 0" "pure_tone t" using assms(2) TP_PILOT by (simp_all add: todo_def split: if_splits)
  then have "tp_pulses_left t - 1 = 0" using u16_pred [OF n] by (metis unat_eq_zero)
  then have "pulse_done t = next_block ?u"
    using TP_PILOT \<open>pure_tone t\<close> by (simp add: pulse_done_def Let_def pure_tone_def)
  then show ?thesis
    using that [of ?u] TP_PILOT \<open>pure_tone t\<close> by (simp add: rest_of_def scope_end_def bits_todo_def)
next
  case TP_DATA
  have d: "data_ok t" "tp_bit_idx t < 8" "cursor_no t < nbits t" "tp_pulse_half t"
    using assms TP_DATA by (simp_all add: in_block_def todo_def split: if_splits)
  have "bit_pulses t [Suc (cursor_no t)..<nbits t] = []" using assms(2) TP_DATA d(4) by (simp add: todo_def)
  then have last: "Suc (cursor_no t) = nbits t"
    using d(3) by (cases "Suc (cursor_no t) < nbits t") (simp_all add: upt_conv_Cons bit_pulses_Cons)
  let ?t = "t\<lparr>tp_level := \<not> tp_level t, tp_pulse_half := False\<rparr>"
  have "tp_byte_idx (step_bit ?t) \<ge> tp_data_len ?t"
    by (rule step_bit_last) (use d last in \<open>simp_all add: data_ok_def cursor_no_def nbits_def\<close>)
  moreover have sb: "tp_data_len (step_bit ?t) = tp_data_len t" "tp_level (step_bit ?t) = (\<not> tp_level t)"
    "rest_of (step_bit ?t) = rest_of t" "scope_bits (step_bit ?t) = scope_bits t"
    by (simp_all add: step_bit_def Let_def rest_of_def)
  ultimately have "pulse_done t = next_block (step_bit ?t)"
    using TP_DATA d(4) by (simp add: pulse_done_def Let_def)
  then show ?thesis
    using that [of "step_bit ?t"] sb last TP_DATA by (simp add: scope_end_def bits_todo_def)
next
  case TP_PULSESEQ
  let ?u = "t\<lparr>tp_level := \<not> tp_level t, tp_pulses_left := tp_pulses_left t - 1\<rparr>"
  have n: "0 < tp_pulses_left t" using assms(1) TP_PULSESEQ by (simp add: in_block_def)
  have "unat (tp_pulses_left t) - 1 = 0" using assms(2) TP_PULSESEQ by (auto simp: todo_def)
  then have "tp_pulses_left t - 1 = 0" using u16_pred [OF n] by (metis unat_eq_zero)
  then have "pulse_done t = next_block ?u" using TP_PULSESEQ by (simp add: pulse_done_def Let_def)
  then show ?thesis using that [of ?u] TP_PULSESEQ by (simp add: rest_of_def scope_end_def bits_todo_def)
next
  case TP_SYNC2
  then have d: "data_ok t" using assms(1) by (simp add: in_block_def)
  then have "[0..<nbits t] = 0 # [Suc 0..<nbits t]" by (intro upt_conv_Cons data_ok_bits)
  then show ?thesis using assms(2) TP_SYNC2 by (simp add: todo_def bit_pulses_Cons)
qed (use assms in \<open>simp_all add: in_block_def todo_def\<close>)

subsection \<open>Cycles\<close>

text \<open>The cycles a pulse takes: the first that makes its sub-units run out.\<close>

definition pulse_cycles :: "u16 \<Rightarrow> nat" where
  "pulse_cycles p = max 1 ((32 * unat p + 6) div 7)"

definition running :: "tape_state \<Rightarrow> Bus \<Rightarrow> bool" where
  "running t i \<longleftrightarrow> tp_playing t \<and> \<not> tp_line_mode t \<and> tape_motor (b_tape i)"

definition tape_run :: "Bus \<Rightarrow> nat \<Rightarrow> tape_state \<Rightarrow> tape_state" where
  "tape_run i n t = ((\<lambda>t. tape_next t i) ^^ n) t"

text \<open>The level during each of the next \<open>n\<close> cycles.\<close>

definition levels :: "Bus \<Rightarrow> nat \<Rightarrow> tape_state \<Rightarrow> bool list" where
  "levels i n t = map (\<lambda>k. tp_level (tape_run i k t)) [0..<n]"

lemma tape_run_0 [simp]: "tape_run i 0 t = t"
  by (simp add: tape_run_def)

lemma tape_run_Suc: "tape_run i (Suc n) t = tape_next (tape_run i n t) i"
  by (simp add: tape_run_def)

lemma tape_run_add: "tape_run i (m + n) t = tape_run i n (tape_run i m t)"
  by (metis add.commute comp_apply funpow_add tape_run_def)

lemma levels_add: "levels i (m + n) t = levels i m t @ levels i n (tape_run i m t)"
proof -
  have "[0..<m + n] = [0..<m] @ [m..<m + n]" by (rule upt_add_eq_append) simp
  also have "[m..<m + n] = map (\<lambda>k. m + k) [0..<n]" using map_add_upt [of m n] by (simp add: add.commute)
  finally show ?thesis by (simp add: levels_def tape_run_add comp_def)
qed

text \<open>Everything but the countdown and the motor lamp.\<close>

definition ticking :: "tape_state \<Rightarrow> tape_state" where
  "ticking t = t\<lparr>tp_sub_remaining := 0, tp_motor_seen := False\<rparr>"

lemma in_block_playing: "in_block t \<Longrightarrow> tp_phase t \<noteq> TP_IDLE \<and> tp_phase t \<noteq> TP_PAUSE"
  by (auto simp: in_block_def)

lemma ticking_cong:
  assumes "ticking u = ticking t"
  shows "in_block u = in_block t" "todo u = todo t" "scope_end u = scope_end t" "rest_of u = rest_of t"
    "tp_level u = tp_level t" "tp_phase u = tp_phase t" "tp_playing u = tp_playing t" "tp_line_mode u = tp_line_mode t"
proof -
  have f: "in_block (ticking v) = in_block v" "todo (ticking v) = todo v" "scope_end (ticking v) = scope_end v"
    "rest_of (ticking v) = rest_of v" "tp_level (ticking v) = tp_level v" "tp_phase (ticking v) = tp_phase v"
    "tp_playing (ticking v) = tp_playing v" "tp_line_mode (ticking v) = tp_line_mode v" for v
  proof -
    let ?w = "ticking v"
    have s: "bit_src ?w = bit_src v" by (simp add: bit_src_def ticking_def)
    have g: "pure_tone ?w = pure_tone v" "nbits ?w = nbits v" "data_ok ?w = data_ok v" "cursor_no ?w = cursor_no v"
      "rd16 ?w = rd16 v" "scope_bits ?w = scope_bits v"
      by (auto simp: ticking_def pure_tone_def nbits_def data_ok_def cursor_no_def rd16_def)
    have h: "tp_phase ?w = tp_phase v" "tp_pulses_left ?w = tp_pulses_left v" "tp_seq_idx ?w = tp_seq_idx v"
      "tp_data_off ?w = tp_data_off v" "tp_t_pilot ?w = tp_t_pilot v" "tp_t_sync1 ?w = tp_t_sync1 v"
      "tp_t_sync2 ?w = tp_t_sync2 v" "tp_pulse_half ?w = tp_pulse_half v" "tp_bit_idx ?w = tp_bit_idx v"
      by (simp_all add: ticking_def)
    show "in_block ?w = in_block v" unfolding in_block_def g h ..
    show "todo ?w = todo v" unfolding todo_def g h bit_src_cong [OF s] ..
    show "scope_end ?w = scope_end v" unfolding scope_end_def bits_todo_def g h bit_src_cong [OF s] ..
    show "rest_of ?w = rest_of v" "tp_level ?w = tp_level v" "tp_phase ?w = tp_phase v"
      "tp_playing ?w = tp_playing v" "tp_line_mode ?w = tp_line_mode v"
      by (simp_all add: ticking_def rest_of_def)
  qed
  show "in_block u = in_block t" "todo u = todo t" "scope_end u = scope_end t" "rest_of u = rest_of t"
    "tp_level u = tp_level t" "tp_phase u = tp_phase t" "tp_playing u = tp_playing t" "tp_line_mode u = tp_line_mode t"
    using f [of u] f [of t] assms by simp_all
qed

definition counted :: "tape_state \<Rightarrow> int \<Rightarrow> tape_state \<Rightarrow> bool" where
  "counted t k u \<longleftrightarrow> ticking u = ticking t \<and> tp_sub_remaining u = tp_sub_remaining t - k"

lemma count_cycle:
  assumes "in_block t" "running t i"
  shows "7 < tp_sub_remaining t \<Longrightarrow> counted t 7 (tape_next t i)"
    "tp_sub_remaining t \<le> 7 \<Longrightarrow> \<exists>u. counted t 7 u \<and> tape_next t i = pulse_done u"
proof -
  let ?u = "t\<lparr>tp_motor_seen := True, tp_sub_remaining := tp_sub_remaining t - 7\<rparr>"
  have u: "counted t 7 ?u" by (simp add: counted_def ticking_def)
  have "tape_next t i = (if tp_sub_remaining t - 7 \<le> 0 then pulse_done ?u else ?u)"
    using assms in_block_playing [OF assms(1)]
    by (simp add: tape_next_def tape_advance_def running_def Let_def kSubPerCycle_def)
  then show "7 < tp_sub_remaining t \<Longrightarrow> counted t 7 (tape_next t i)"
    "tp_sub_remaining t \<le> 7 \<Longrightarrow> \<exists>u. counted t 7 u \<and> tape_next t i = pulse_done u"
    using u by auto
qed

lemma count_pulse:
  assumes "in_block t" "running t i" "tp_sub_remaining t = int s" "c = max 1 ((s + 6) div 7)"
  shows "\<exists>u. ticking u = ticking t \<and> tape_run i c t = pulse_done u \<and> levels i c t = replicate c (tp_level t)"
proof -
  have run: "counted t (7 * int k) (tape_run i k t)" if "k < c" for k
    using that
  proof (induction k)
    case 0
    show ?case by (simp add: counted_def)
  next
    case (Suc k)
    let ?v = "tape_run i k t"
    have v: "counted t (7 * int k) ?v" using Suc by simp
    then have e: "ticking ?v = ticking t" "tp_sub_remaining ?v = int s - 7 * int k" using assms(3) by (simp_all add: counted_def)
    have "in_block ?v" "running ?v i" using ticking_cong [OF e(1)] assms(1,2) by (simp_all add: running_def)
    moreover have "7 < tp_sub_remaining ?v"
    proof -
      have "Suc k < (s + 6) div 7" using Suc.prems assms(4) by simp
      then have "Suc (Suc k) \<le> (s + 6) div 7" by simp
      then have "7 * Suc k + 1 \<le> s" by (simp add: less_eq_div_iff_mult_less_eq)
      then have "int (7 * Suc k + 1) \<le> int s" by (simp only: of_nat_le_iff)
      then show ?thesis unfolding e(2) by simp
    qed
    ultimately have "counted ?v 7 (tape_run i (Suc k) t)" unfolding tape_run_Suc by (rule count_cycle(1))
    then show ?case using v by (simp add: counted_def)
  qed
  have c: "0 < c" using assms(4) by simp
  then obtain d where d: "c = Suc d" by (cases c) auto
  let ?v = "tape_run i d t"
  have v: "counted t (7 * int d) ?v" using run d by simp
  then have e: "ticking ?v = ticking t" "tp_sub_remaining ?v = int s - 7 * int d" using assms(3) by (simp_all add: counted_def)
  have iv: "in_block ?v" "running ?v i" using ticking_cong [OF e(1)] assms(1,2) by (simp_all add: running_def)
  have "s \<le> 7 * d + 7" using assms(4) d by (auto simp: max_def split: if_splits)
  then have "tp_sub_remaining ?v \<le> 7" unfolding e(2) by linarith
  then obtain u where u: "counted ?v 7 u" "tape_run i c t = pulse_done u"
    using count_cycle(2) [OF iv] unfolding d tape_run_Suc by blast
  have "tp_level (tape_run i k t) = tp_level t" if "k < c" for k
    by (rule ticking_cong(5)) (use run [OF that] in \<open>simp add: counted_def\<close>)
  then have "levels i c t = map (\<lambda>_. tp_level t) [0..<c]" by (simp add: levels_def)
  then have "levels i c t = replicate c (tp_level t)" by (simp add: map_replicate_const)
  with u e(1) show ?thesis by (auto simp: counted_def)
qed

text \<open>The wave of a list of pulses: each holds the level for its cycles, the next has the other level.\<close>

fun wave :: "bool \<Rightarrow> u16 list \<Rightarrow> bool list" where
  "wave v [] = []"
| "wave v (p # ps) = replicate (pulse_cycles p) v @ wave (\<not> v) ps"

definition duration :: "u16 list \<Rightarrow> nat" where
  "duration ps = sum_list (map pulse_cycles ps)"

lemma duration_simps [simp]: "duration [] = 0" "duration (p # ps) = pulse_cycles p + duration ps"
  by (simp_all add: duration_def)

lemma play_pulses:
  assumes "in_block t" "running t i" "tp_sub_remaining t = int (32 * unat p)"
  shows "\<exists>u. levels i (duration (p # todo t)) t = wave (tp_level t) (p # todo t) \<and>
    tape_run i (duration (p # todo t)) t = next_block u \<and>
    tp_level u = (tp_level t = odd (length (todo t))) \<and> rest_of u = rest_of t \<and> scope_bits u = scope_end t"
  using assms
proof (induction "todo t" arbitrary: t p)
  case Nil
  obtain u where u: "ticking u = ticking t" "tape_run i (pulse_cycles p) t = pulse_done u"
    "levels i (pulse_cycles p) t = replicate (pulse_cycles p) (tp_level t)"
    using count_pulse [OF Nil.prems, of "pulse_cycles p"] by (auto simp: pulse_cycles_def)
  note e = ticking_cong [OF u(1)]
  obtain v where "pulse_done u = next_block v" "tp_level v = (\<not> tp_level u)" "rest_of v = rest_of u" "scope_bits v = scope_end u"
    using pulse_last [of u] Nil.prems(1) Nil.hyps e by metis
  then show ?case using u e Nil.hyps [symmetric] by (intro exI [of _ v]) simp
next
  case (Cons q qs)
  obtain u where u: "ticking u = ticking t" "tape_run i (pulse_cycles p) t = pulse_done u"
    "levels i (pulse_cycles p) t = replicate (pulse_cycles p) (tp_level t)"
    using count_pulse [OF Cons.prems, of "pulse_cycles p"] by (auto simp: pulse_cycles_def)
  note e = ticking_cong [OF u(1)]
  let ?w = "pulse_done u"
  have "stepped u q qs ?w" using pulse_step [of u q qs] Cons.prems(1) Cons.hyps(2) e by simp
  then have w: "in_block ?w" "todo ?w = qs" "tp_sub_remaining ?w = int (32 * unat q)" "tp_level ?w = (\<not> tp_level t)"
    "rest_of ?w = rest_of t" "scope_end ?w = scope_end t"
    using e by (simp_all add: stepped_def)
  then have r: "running ?w i" using Cons.prems(2) by (simp add: running_def rest_of_def)
  from Cons.hyps(1) [OF w(2) [symmetric] w(1) r w(3)] obtain v where
    "levels i (duration (q # qs)) ?w = wave (\<not> tp_level t) (q # qs)" "tape_run i (duration (q # qs)) ?w = next_block v"
    "tp_level v = ((\<not> tp_level t) = odd (length qs))" "rest_of v = rest_of t" "scope_bits v = scope_end t"
    unfolding w(2,4-6) by blast
  then show ?case
    using u(2,3) Cons.hyps(2) [symmetric] by (intro exI [of _ v]) (simp add: levels_add tape_run_add)
qed

subsection \<open>A block as the format describes it\<close>

definition spec_bits :: "tape_state \<Rightarrow> nat \<Rightarrow> nat \<Rightarrow> nat \<Rightarrow> bool list" where
  "spec_bits t off n used = map (\<lambda>m. bit (rd8 t (off + m div 8)) (7 - m mod 8)) [0..<8 * (n - 1) + used]"

definition bit_pairs :: "u16 \<Rightarrow> u16 \<Rightarrow> bool list \<Rightarrow> u16 list" where
  "bit_pairs t0 t1 bs = concat (map (\<lambda>b. replicate 2 (if b then t1 else t0)) bs)"

definition block_data :: "tape_state \<Rightarrow> bool list" where
  "block_data t =
    (let id = rd8 t (tp_pos t); b = tp_pos t + 1 in
     if id = 0x10 then spec_bits t (b + 4) (unat (rd16 t (b + 2))) 8
     else if id = 0x11 then spec_bits t (b + 18) (rd24 t (b + 15)) (unat (rd8 t (b + 12)))
     else if id = 0x14 then spec_bits t (b + 10) (rd24 t (b + 7)) (unat (rd8 t (b + 4)))
     else [])"

definition block_pulses :: "tape_state \<Rightarrow> u16 list" where
  "block_pulses t =
    (let id = rd8 t (tp_pos t); b = tp_pos t + 1 in
     if id = 0x10 then replicate (if rd8 t (b + 4) < 0x80 then 8063 else 3223) 2168 @ [667, 735] @
       bit_pairs 855 1710 (block_data t)
     else if id = 0x11 then replicate (unat (rd16 t (b + 10))) (rd16 t b) @ [rd16 t (b + 2), rd16 t (b + 4)] @
       bit_pairs (rd16 t (b + 6)) (rd16 t (b + 8)) (block_data t)
     else if id = 0x12 then replicate (unat (rd16 t (b + 2))) (rd16 t b)
     else if id = 0x13 then map (\<lambda>k. rd16 t (b + 1 + k * 2)) [0..<unat (rd8 t b)]
     else bit_pairs (rd16 t b) (rd16 t (b + 2)) (block_data t))"

text \<open>A playable block whose counts are not degenerate: at least one pulse, one data byte, and between one and
  eight bits used in the last byte.\<close>

definition block_ok :: "tape_state \<Rightarrow> bool" where
  "block_ok t \<longleftrightarrow> tp_pos t < length (cdt_bytes (tp_cdt t)) \<and>
    (let id = rd8 t (tp_pos t); b = tp_pos t + 1; used = (\<lambda>w. 0 < unat w \<and> unat (w :: u8) \<le> 8) in
     if id = 0x10 then 0 < unat (rd16 t (b + 2))
     else if id = 0x11 then 0 < rd16 t (b + 10) \<and> 0 < rd24 t (b + 15) \<and> used (rd8 t (b + 12))
     else if id = 0x12 then 0 < rd16 t (b + 2)
     else if id = 0x13 then 0 < rd8 t b
     else id = 0x14 \<and> 0 < rd24 t (b + 7) \<and> used (rd8 t (b + 4)))"

lemma unat_rd16: "unat (rd16 t off) = cdt16 (tp_cdt t) off"
proof -
  have "cdt16 (tp_cdt t) off < 65536"
    using unat_less_256 [of "cdt8 (tp_cdt t) off"] unat_less_256 [of "cdt8 (tp_cdt t) (off + 1)"]
    unfolding cdt16_def by linarith
  then show ?thesis by (simp add: rd16_def unsigned_of_nat take_bit_nat_eq_self)
qed

lemma bit_pulses_spec:
  assumes "tp_cdt u = tp_cdt t"
  shows "bit_pulses u [0..<nbits u] = bit_pairs (tp_t_bit0 u) (tp_t_bit1 u) (spec_bits t (tp_data_off u) (tp_data_len u) (tp_last_used u))"
    "map (bit_no u) [0..<nbits u] = spec_bits t (tp_data_off u) (tp_data_len u) (tp_last_used u)"
proof -
  show "map (bit_no u) [0..<nbits u] = spec_bits t (tp_data_off u) (tp_data_len u) (tp_last_used u)"
    using assms by (simp add: spec_bits_def nbits_def bit_no_def bit_at_def rd8_def)
  then show "bit_pulses u [0..<nbits u] = bit_pairs (tp_t_bit0 u) (tp_t_bit1 u) (spec_bits t (tp_data_off u) (tp_data_len u) (tp_last_used u))"
    unfolding bit_pairs_def by (simp only: flip: \<open>map (bit_no u) _ = _\<close>) (simp add: bit_pulses_def bit_time_def comp_def)
qed

text \<open>The state \<open>start_block\<close> leaves, ready to play the block.\<close>

definition entered :: "tape_state \<Rightarrow> tape_state \<Rightarrow> bool" where
  "entered t u \<longleftrightarrow> in_block u \<and> (\<exists>p. block_pulses t = p # todo u \<and> tp_sub_remaining u = int (32 * unat p)) \<and>
     tp_level u = tp_level t \<and> tp_pos u = tp_pos t + block_len t (tp_pos t) \<and> tp_block u = tp_block t \<and>
     tp_playing u = tp_playing t \<and> tp_line_mode u = tp_line_mode t \<and> tp_cdt u = tp_cdt t \<and>
     scope_end u = foldl scope_push (scope_bits t) (block_data t)"

lemma replicate_pred: "0 < n \<Longrightarrow> replicate n x = x # replicate (n - 1) x"
  by (cases n) simp_all

lemma enter_pilot:
  assumes "tp_phase u = TP_PILOT" "tp_cdt u = tp_cdt t" "0 < tp_pulses_left u" "data_ok u" "cursor_no u = 0"
    and "block_pulses t = replicate (unat (tp_pulses_left u)) (tp_t_pilot u) @ [tp_t_sync1 u, tp_t_sync2 u] @
      bit_pairs (tp_t_bit0 u) (tp_t_bit1 u) (block_data t)"
    and "block_data t = spec_bits t (tp_data_off u) (tp_data_len u) (tp_last_used u)"
    and "tp_sub_remaining u = int (32 * unat (tp_t_pilot u))" "tp_level u = tp_level t"
      "tp_pos u = tp_pos t + block_len t (tp_pos t)" "tp_block u = tp_block t"
      "tp_playing u = tp_playing t" "tp_line_mode u = tp_line_mode t" "scope_bits u = scope_bits t"
  shows "entered t u"
proof -
  have np: "\<not> pure_tone u" using assms(4) by (simp add: pure_tone_def data_ok_def)
  have n: "0 < unat (tp_pulses_left u)" using assms(3) by (simp add: word_less_nat_alt)
  have "todo u = replicate (unat (tp_pulses_left u) - 1) (tp_t_pilot u) @ [tp_t_sync1 u, tp_t_sync2 u] @
      bit_pairs (tp_t_bit0 u) (tp_t_bit1 u) (block_data t)"
    using assms(1) np bit_pulses_spec(1) [OF assms(2)] assms(7) by (simp add: todo_def)
  then have "block_pulses t = tp_t_pilot u # todo u" using assms(6) replicate_pred [OF n] by simp
  moreover have "in_block u" using assms(1,3-5) by (simp add: in_block_def)
  moreover have "scope_end u = foldl scope_push (scope_bits t) (block_data t)"
    using assms(1,7,14) np bit_pulses_spec(2) [OF assms(2)] by (simp add: scope_end_def bits_todo_def)
  ultimately show ?thesis using assms(2,8-13) by (simp add: entered_def)
qed

text \<open>The block sizes, with the offsets counted from the block's body.\<close>

lemma block_len_body:
  assumes "b = tp_pos t + 1"
  shows "rd8 t (tp_pos t) = 0x10 \<Longrightarrow> tp_pos t + block_len t (tp_pos t) = b + 4 + unat (rd16 t (b + 2))"
    "rd8 t (tp_pos t) = 0x11 \<Longrightarrow> tp_pos t + block_len t (tp_pos t) = b + 18 + rd24 t (b + 15)"
    "rd8 t (tp_pos t) = 0x12 \<Longrightarrow> tp_pos t + block_len t (tp_pos t) = b + 4"
    "rd8 t (tp_pos t) = 0x13 \<Longrightarrow> tp_pos t + block_len t (tp_pos t) = b + 1 + unat (rd8 t b) * 2"
    "rd8 t (tp_pos t) = 0x14 \<Longrightarrow> tp_pos t + block_len t (tp_pos t) = b + 10 + rd24 t (b + 7)"
    "rd8 t (tp_pos t) = 0x15 \<Longrightarrow> tp_pos t + block_len t (tp_pos t) = b + 8 + rd24 t (b + 5)"
    "rd8 t (tp_pos t) = 0x20 \<Longrightarrow> tp_pos t + block_len t (tp_pos t) = b + 2"
    "rd8 t (tp_pos t) = 0x21 \<Longrightarrow> tp_pos t + block_len t (tp_pos t) = b + 1 + unat (rd8 t b)"
    "rd8 t (tp_pos t) = 0x22 \<Longrightarrow> tp_pos t + block_len t (tp_pos t) = b"
    "rd8 t (tp_pos t) = 0x30 \<Longrightarrow> tp_pos t + block_len t (tp_pos t) = b + 1 + unat (rd8 t b)"
    "rd8 t (tp_pos t) = 0x31 \<Longrightarrow> tp_pos t + block_len t (tp_pos t) = b + 2 + unat (rd8 t (b + 1))"
    "rd8 t (tp_pos t) = 0x32 \<Longrightarrow> tp_pos t + block_len t (tp_pos t) = b + 2 + unat (rd16 t b)"
    "rd8 t (tp_pos t) = 0x33 \<Longrightarrow> tp_pos t + block_len t (tp_pos t) = b + 1 + unat (rd8 t b) * 3"
proof -
  have b: "tp_pos t + 1 = b" "tp_pos t + 2 = b + 1" "tp_pos t + 3 = b + 2" "tp_pos t + 0x10 = b + 15" "tp_pos t + 8 = b + 7"
    "tp_pos t + 6 = b + 5"
    using assms by simp_all
  have u: "unat (rd16 t off) = cdt16 (tp_cdt t) off" "rd24 t off = cdt24 (tp_cdt t) off" "rd8 t off = cdt8 (tp_cdt t) off" for off
    by (simp_all only: unat_rd16 rd24_def rd8_def)
  note d = block_len_def tape_cdt_block_len_def Let_def b u
  show "rd8 t (tp_pos t) = 0x10 \<Longrightarrow> tp_pos t + block_len t (tp_pos t) = b + 4 + unat (rd16 t (b + 2))"
    "rd8 t (tp_pos t) = 0x11 \<Longrightarrow> tp_pos t + block_len t (tp_pos t) = b + 18 + rd24 t (b + 15)"
    "rd8 t (tp_pos t) = 0x12 \<Longrightarrow> tp_pos t + block_len t (tp_pos t) = b + 4"
    "rd8 t (tp_pos t) = 0x13 \<Longrightarrow> tp_pos t + block_len t (tp_pos t) = b + 1 + unat (rd8 t b) * 2"
    "rd8 t (tp_pos t) = 0x14 \<Longrightarrow> tp_pos t + block_len t (tp_pos t) = b + 10 + rd24 t (b + 7)"
    "rd8 t (tp_pos t) = 0x15 \<Longrightarrow> tp_pos t + block_len t (tp_pos t) = b + 8 + rd24 t (b + 5)"
    "rd8 t (tp_pos t) = 0x20 \<Longrightarrow> tp_pos t + block_len t (tp_pos t) = b + 2"
    "rd8 t (tp_pos t) = 0x21 \<Longrightarrow> tp_pos t + block_len t (tp_pos t) = b + 1 + unat (rd8 t b)"
    "rd8 t (tp_pos t) = 0x22 \<Longrightarrow> tp_pos t + block_len t (tp_pos t) = b"
    "rd8 t (tp_pos t) = 0x30 \<Longrightarrow> tp_pos t + block_len t (tp_pos t) = b + 1 + unat (rd8 t b)"
    "rd8 t (tp_pos t) = 0x31 \<Longrightarrow> tp_pos t + block_len t (tp_pos t) = b + 2 + unat (rd8 t (b + 1))"
    "rd8 t (tp_pos t) = 0x32 \<Longrightarrow> tp_pos t + block_len t (tp_pos t) = b + 2 + unat (rd16 t b)"
    "rd8 t (tp_pos t) = 0x33 \<Longrightarrow> tp_pos t + block_len t (tp_pos t) = b + 1 + unat (rd8 t b) * 3"
    unfolding d using assms by simp_all
qed

lemma enter_10:
  assumes "block_ok t" "rd8 t (tp_pos t) = 0x10"
  shows "entered t (enter_block t)"
proof -
  define u where "u = enter_block t"
  define b where "b = tp_pos t + 1"
  have n: "0 < unat (rd16 t (b + 2))" using assms unfolding b_def block_ok_def Let_def by simp
  have f: "tp_phase u = TP_PILOT" "tp_cdt u = tp_cdt t" "tp_pulses_left u = (if rd8 t (b + 4) < 0x80 then 8063 else 3223)"
    "tp_data_len u = unat (rd16 t (b + 2))" "tp_data_off u = b + 4" "tp_last_used u = 8" "tp_byte_idx u = 0"
    "tp_bit_idx u = 0" "tp_t_pilot u = 2168" "tp_t_sync1 u = 667" "tp_t_sync2 u = 735" "tp_t_bit0 u = 855" "tp_t_bit1 u = 1710"
    "tp_sub_remaining u = 2168 * 32" "tp_level u = tp_level t" "tp_pos u = b + 4 + unat (rd16 t (b + 2))"
    "tp_block u = tp_block t" "tp_playing u = tp_playing t" "tp_line_mode u = tp_line_mode t" "scope_bits u = scope_bits t"
    unfolding u_def enter_block_def Let_def b_def [symmetric] using assms(2) by (simp_all add: load_pulse_def kSubPerTs_def)
  note d = block_pulses_def block_data_def Let_def b_def [symmetric]
  show ?thesis
    unfolding u_def [symmetric]
    by (rule enter_pilot; (unfold d)?)
      (use n assms(2) in \<open>simp_all add: f block_len_body(1) [OF b_def] data_ok_def cursor_no_def\<close>)
qed

lemma enter_11:
  assumes "block_ok t" "rd8 t (tp_pos t) = 0x11"
  shows "entered t (enter_block t)"
proof -
  define u where "u = enter_block t"
  define b where "b = tp_pos t + 1"
  have n: "0 < rd16 t (b + 10)" "0 < rd24 t (b + 15)" "0 < unat (rd8 t (b + 12))" "unat (rd8 t (b + 12)) \<le> 8"
    using assms unfolding b_def block_ok_def Let_def by simp_all
  have f: "tp_phase u = TP_PILOT" "tp_cdt u = tp_cdt t" "tp_pulses_left u = rd16 t (b + 10)"
    "tp_data_len u = rd24 t (b + 15)" "tp_data_off u = b + 18" "tp_last_used u = unat (rd8 t (b + 12))" "tp_byte_idx u = 0"
    "tp_bit_idx u = 0" "tp_t_pilot u = rd16 t b" "tp_t_sync1 u = rd16 t (b + 2)" "tp_t_sync2 u = rd16 t (b + 4)"
    "tp_t_bit0 u = rd16 t (b + 6)" "tp_t_bit1 u = rd16 t (b + 8)"
    "tp_sub_remaining u = int (unat (rd16 t b)) * 32" "tp_level u = tp_level t" "tp_pos u = b + 18 + rd24 t (b + 15)"
    "tp_block u = tp_block t" "tp_playing u = tp_playing t" "tp_line_mode u = tp_line_mode t" "scope_bits u = scope_bits t"
    unfolding u_def enter_block_def Let_def b_def [symmetric] using assms(2) by (simp_all add: load_pulse_def kSubPerTs_def)
  note d = block_pulses_def block_data_def Let_def b_def [symmetric]
  show ?thesis
    unfolding u_def [symmetric]
    by (rule enter_pilot; (unfold d)?)
      (use n assms(2) in \<open>simp_all add: f block_len_body(2) [OF b_def] data_ok_def cursor_no_def\<close>)
qed

lemma enter_12:
  assumes "block_ok t" "rd8 t (tp_pos t) = 0x12"
  shows "entered t (enter_block t)"
proof -
  define u where "u = enter_block t"
  define b where "b = tp_pos t + 1"
  have n: "0 < rd16 t (b + 2)" using assms unfolding b_def block_ok_def Let_def by simp
  then have n': "0 < unat (rd16 t (b + 2))" by (simp add: word_less_nat_alt)
  have f: "tp_phase u = TP_PILOT" "tp_cdt u = tp_cdt t" "tp_pulses_left u = rd16 t (b + 2)" "tp_data_len u = 0"
    "tp_data_off u = 0" "tp_t_pilot u = rd16 t b" "tp_sub_remaining u = int (unat (rd16 t b)) * 32"
    "tp_level u = tp_level t" "tp_pos u = b + 4" "tp_block u = tp_block t" "tp_playing u = tp_playing t"
    "tp_line_mode u = tp_line_mode t" "scope_bits u = scope_bits t"
    unfolding u_def enter_block_def Let_def b_def [symmetric] using assms(2) by (simp_all add: load_pulse_def kSubPerTs_def)
  note d = block_pulses_def block_data_def Let_def b_def [symmetric]
  have "todo u = replicate (unat (rd16 t (b + 2)) - 1) (rd16 t b)" "in_block u" "bits_todo u = []"
    using n by (simp_all add: todo_def bits_todo_def in_block_def f pure_tone_def)
  then show ?thesis
    unfolding u_def [symmetric] entered_def d
    using assms(2) replicate_pred [OF n', of "rd16 t b"] by (simp add: f scope_end_def block_len_body(3) [OF b_def])
qed

lemma enter_13:
  assumes "block_ok t" "rd8 t (tp_pos t) = 0x13"
  shows "entered t (enter_block t)"
proof -
  define u where "u = enter_block t"
  define b where "b = tp_pos t + 1"
  have n: "0 < rd8 t b" using assms unfolding b_def block_ok_def Let_def by simp
  then have n': "0 < unat (rd8 t b)" by (simp add: word_less_nat_alt)
  have w: "unat (ucast (rd8 t b) :: u16) = unat (rd8 t b)"
    using unat_less_256 [of "rd8 t b"] less_trans [of "unat (rd8 t b)" 256 "2 ^ 16"]
    by (simp add: unsigned_ucast_eq take_bit_eq_mod)
  have f: "tp_phase u = TP_PULSESEQ" "tp_cdt u = tp_cdt t" "tp_pulses_left u = ucast (rd8 t b)" "tp_seq_idx u = 0"
    "tp_data_off u = b + 1" "tp_sub_remaining u = int (unat (rd16 t (b + 1))) * 32" "rd16 u = rd16 t"
    "tp_level u = tp_level t" "tp_pos u = b + 1 + unat (rd8 t b) * 2" "tp_block u = tp_block t" "tp_playing u = tp_playing t"
    "tp_line_mode u = tp_line_mode t" "scope_bits u = scope_bits t"
    unfolding u_def enter_block_def Let_def b_def [symmetric] using assms(2)
    by (auto simp: load_pulse_def kSubPerTs_def rd16_def)
  note d = block_pulses_def block_data_def Let_def b_def [symmetric]
  have "todo u = map (\<lambda>k. rd16 t (b + 1 + k * 2)) [Suc 0..<unat (rd8 t b)]" "bits_todo u = []"
    by (simp_all add: todo_def bits_todo_def f w)
  moreover have "in_block u"
    using n' order.trans [OF less_imp_le [OF unat_less_256 [of "rd8 t b"]], of 65536]
    by (simp add: in_block_def f w word_less_nat_alt)
  ultimately show ?thesis
    unfolding u_def [symmetric] entered_def d
    using assms(2) n' upt_conv_Cons [OF n'] by (simp add: f scope_end_def block_len_body(4) [OF b_def])
qed

lemma enter_14:
  assumes "block_ok t" "rd8 t (tp_pos t) = 0x14"
  shows "entered t (enter_block t)"
proof -
  define u where "u = enter_block t"
  define b where "b = tp_pos t + 1"
  have n: "0 < rd24 t (b + 7)" "0 < unat (rd8 t (b + 4))" "unat (rd8 t (b + 4)) \<le> 8"
    using assms unfolding b_def block_ok_def Let_def by simp_all
  define v where "v = t\<lparr>tp_t_bit0 := rd16 t b, tp_t_bit1 := rd16 t (b + 2), tp_last_used := unat (rd8 t (b + 4)),
     tp_pause_ms := rd16 t (b + 5), tp_data_len := rd24 t (b + 7), tp_data_off := b + 10, tp_phase := TP_DATA,
     tp_byte_idx := 0, tp_bit_idx := 0, tp_pulse_half := False, tp_pos := b + 10 + rd24 t (b + 7)\<rparr>"
  have fv: "tp_phase v = TP_DATA" "\<not> tp_pulse_half v" "data_ok v" "tp_bit_idx v < 8" "cursor_no v = 0" "cursor_no v < nbits v"
    "tp_cdt v = tp_cdt t" "tp_data_len v = rd24 t (b + 7)" "tp_data_off v = b + 10" "tp_last_used v = unat (rd8 t (b + 4))"
    "tp_t_bit0 v = rd16 t b" "tp_t_bit1 v = rd16 t (b + 2)" "tp_level v = tp_level t"
    "tp_pos v = b + 10 + rd24 t (b + 7)" "tp_block v = tp_block t" "tp_playing v = tp_playing t"
    "tp_line_mode v = tp_line_mode t" "scope_bits v = scope_bits t"
    using n by (simp_all add: v_def data_ok_def cursor_no_def nbits_def)
  have u: "u = load_pulse (bit_time v (bit_no v 0)) (push_bit v (bit_no v 0))"
    unfolding u_def enter_block_def Let_def b_def [symmetric] using assms(2)
    by (cases t) (simp add: v_def first_bit_def load_pulse_def push_bit_def Let_def bit_no_def bit_at_def bit_time_def rd8_def rd16_def rd24_def)
  note bg = bit_begun [OF fv(1-4,6), unfolded fv(5) Let_def, folded u]
  have nb: "0 < nbits v" using fv(5,6) by simp
  have c: "[0..<nbits v] = 0 # [Suc 0..<nbits v]" using nb by (rule upt_conv_Cons)
  have p: "bit_pulses v [0..<nbits v] = bit_time v (bit_no v 0) # bit_time v (bit_no v 0) # bit_pulses v [Suc 0..<nbits v]"
    unfolding c bit_pulses_Cons ..
  note d = block_pulses_def block_data_def Let_def b_def [symmetric]
  have data: "block_data t = spec_bits t (tp_data_off v) (tp_data_len v) (tp_last_used v)"
    unfolding d using assms(2) by (simp add: fv)
  have "block_pulses t = bit_pairs (tp_t_bit0 v) (tp_t_bit1 v) (block_data t)"
    unfolding block_pulses_def Let_def b_def [symmetric] using assms(2) by (simp add: fv)
  then have "block_pulses t = bit_time v (bit_no v 0) # bit_time v (bit_no v 0) # bit_pulses v [Suc 0..<nbits v]"
    using bit_pulses_spec(1) [OF fv(7)] p by (simp add: data)
  moreover have "map (bit_no v) [0..<nbits v] = block_data t" using bit_pulses_spec(2) [OF fv(7)] by (simp only: data)
  moreover have "tp_cdt u = tp_cdt t" by (simp add: u load_pulse_def fv)
  moreover have "rest_of u = rest_of v" using bg by blast
  ultimately show ?thesis
    unfolding u_def [symmetric] entered_def using bg fv block_len_body(5) [OF b_def] assms(2) by (simp add: rest_of_def)
qed

lemma block_entered:
  assumes "block_ok t"
  shows "entered t (start_block t)"
proof -
  have l: "tp_pos t < length (cdt_bytes (tp_cdt t))" using assms by (simp add: block_ok_def)
  then have "tp_cdt t \<noteq> None" by (cases "tp_cdt t") (simp_all add: cdt_bytes_def)
  moreover have id: "rd8 t (tp_pos t) \<in> {0x10, 0x11, 0x12, 0x13, 0x14}"
    using assms by (auto simp: block_ok_def Let_def split: if_splits)
  then have "skip_block t = None" by (auto simp: skip_block_def Let_def)
  ultimately have "start_block t = enter_block t"
    using l by (auto simp: start_block_def start_loop.simps [of t])
  then show ?thesis using id enter_10 enter_11 enter_12 enter_13 enter_14 assms by auto
qed

subsection \<open>Defects\<close>

text \<open>\<open>load_pulse\<close> drops what the last cycle overran, so a train of pulses does drift.\<close>

lemma tape_drift: "7 * duration (replicate n 855) = n * (855 * 32) + 3 * n"
  by (induction n) (simp_all add: pulse_cycles_def)

text \<open>More than eight used bits in the last byte: the cursor leaves the byte, and the shift distance of C++ is
  negative.\<close>

lemma tape_bit_past_byte:
  "tp_byte_idx t + 1 = tp_data_len t \<Longrightarrow> tp_last_used t > 8 \<Longrightarrow> tp_bit_idx t = 7 \<Longrightarrow> tp_bit_idx (step_bit t) = 8"
  by (simp add: step_bit_def Let_def)

subsection \<open>Properties\<close>

text \<open>A tape with one turbo block of one byte, three bits used, for the witnesses.\<close>

definition demo_tape :: tape_state where
  "demo_tape = tape_init\<lparr>tp_cdt := Some [0x5A, 0x58, 0x54, 0x61, 0x70, 0x65, 0x21, 0x1A, 1, 20, 0x14, 7, 0, 14, 0, 3, 0, 0,
       1, 0, 0, 0xA0], tp_pos := 10,
     tp_playing := True\<rparr>"

definition motor_on :: Bus where
  "motor_on = bus_resting\<lparr>b_tape := (b_tape bus_resting)\<lparr>tape_motor := True\<rparr>\<rparr>"

lemma demo_bytes:
  "rd8 demo_tape 10 = 0x14" "rd16 demo_tape 11 = 7" "rd16 demo_tape 13 = 14" "rd8 demo_tape 15 = 3" "rd24 demo_tape 18 = 1"
  "rd8 demo_tape 21 = 0xA0" "tp_pos demo_tape = 10"
  by (simp_all add: demo_tape_def rd8_def rd16_def rd24_def cdt8_def cdt16_def cdt24_def cdt_bytes_def)

lemma demo_block:
  "block_ok demo_tape" "running demo_tape motor_on" "block_data demo_tape = [True, False, True]"
  "block_pulses demo_tape = [14, 14, 7, 7, 14, 14]" "tp_pos demo_tape = 10" "tp_level demo_tape = False"
  "tp_block demo_tape = 0" "block_len demo_tape 10 = 12" "scope_bits demo_tape = []"
proof -
  have r: "replicate 2 x = [x, x]" for x :: u16 by (simp add: numeral_2_eq_2)
  have u: "[0..<3] = [0, 1, 2]" by (simp add: upt_conv_Cons numeral_3_eq_3)
  show d: "block_data demo_tape = [True, False, True]"
    by (simp add: block_data_def demo_bytes Let_def spec_bits_def u)
  then show "block_pulses demo_tape = [14, 14, 7, 7, 14, 14]"
    by (simp add: block_pulses_def bit_pairs_def demo_bytes Let_def r)
  show "block_ok demo_tape"
    by (simp add: block_ok_def demo_bytes Let_def) (simp add: demo_tape_def cdt_bytes_def)
  have "tp_pos demo_tape + block_len demo_tape (tp_pos demo_tape) = 22"
    using block_len_body(5) [OF refl, of demo_tape] by (simp add: demo_bytes)
  then show "block_len demo_tape 10 = 12" by (simp add: demo_bytes(7))
  show "tp_pos demo_tape = 10" "running demo_tape motor_on" "tp_level demo_tape = False" "tp_block demo_tape = 0"
    "scope_bits demo_tape = []"
    by (simp_all add: demo_tape_def tape_init_def running_def motor_on_def scope_bits_def)
qed

text \<open>C28 (tape_block_wave): the deck plays a block as the tape format describes it. Take any deck at a standard,
  turbo, pure-tone, pulse-sequence or pure-data block whose counts are not degenerate, playing with the motor
  on. From \<open>start_block\<close> on, the level in each master cycle is the wave of the block's pulse list (pilot,
  sync pair, two equal pulses per data bit, most significant bit first), every pulse taking the cycles of
  \<open>pulse_cycles\<close>; then the deck moves to the next block, its cursor advanced by exactly \<open>block_len\<close>, and
  the scope ring has received exactly the data bits.\<close>

theorem tape_block_wave:
  assumes "block_ok t" "running t i"
  shows "\<exists>v. levels i (duration (block_pulses t)) (start_block t) = wave (tp_level t) (block_pulses t) \<and>
    tape_run i (duration (block_pulses t)) (start_block t) = next_block v \<and>
    tp_pos v = tp_pos t + block_len t (tp_pos t) \<and> tp_block v = tp_block t \<and>
    scope_bits v = foldl scope_push (scope_bits t) (block_data t)"
proof -
  let ?u = "start_block t"
  have e: "entered t ?u" by (rule block_entered) (rule assms(1))
  then obtain p where p: "block_pulses t = p # todo ?u" "tp_sub_remaining ?u = int (32 * unat p)"
    by (auto simp: entered_def)
  have b: "in_block ?u" "running ?u i" using e assms(2) by (simp_all add: entered_def running_def)
  from play_pulses [OF b p(2)] obtain v where v: "levels i (duration (p # todo ?u)) ?u = wave (tp_level ?u) (p # todo ?u)"
    "tape_run i (duration (p # todo ?u)) ?u = next_block v" "rest_of v = rest_of ?u" "scope_bits v = scope_end ?u" by blast
  show ?thesis
    using v e unfolding p(1) by (intro exI [of _ v]) (simp add: entered_def rest_of_def)
qed

theorem tape_block_wave_witness:
  "\<exists>v. levels motor_on 320 (start_block demo_tape) =
       replicate 64 False @ replicate 64 True @ replicate 32 False @ replicate 32 True @ replicate 64 False @ replicate 64 True \<and>
     tape_run motor_on 320 (start_block demo_tape) = next_block v \<and> tp_pos v = 22 \<and> scope_bits v = [True, False, True]"
proof -
  have c: "duration (block_pulses demo_tape) = 320" by (simp add: demo_block pulse_cycles_def)
  have w: "wave (tp_level demo_tape) (block_pulses demo_tape) = replicate 64 False @ replicate 64 True @ replicate 32 False @
       replicate 32 True @ replicate 64 False @ replicate 64 True"
    by (simp only: demo_block wave.simps pulse_cycles_def) simp
  have s: "foldl scope_push (scope_bits demo_tape) (block_data demo_tape) = [True, False, True]"
    by (simp add: demo_block scope_push_def)
  have e: "tp_pos demo_tape + block_len demo_tape (tp_pos demo_tape) = 22" by (simp add: demo_block)
  show ?thesis
    using tape_block_wave [OF demo_block(1,2)] unfolding c w s e by blast
qed

definition deck_ids :: "u8 list" where
  "deck_ids = [0x10, 0x11, 0x12, 0x13, 0x14, 0x15, 0x20, 0x21, 0x22, 0x30, 0x31, 0x32, 0x33]"

lemma enter_pos:
  assumes "b = tp_pos t + 1"
  shows "rd8 t (tp_pos t) = 0x10 \<Longrightarrow> tp_pos (enter_block t) = b + 4 + unat (rd16 t (b + 2))"
    "rd8 t (tp_pos t) = 0x11 \<Longrightarrow> tp_pos (enter_block t) = b + 18 + rd24 t (b + 15)"
    "rd8 t (tp_pos t) = 0x12 \<Longrightarrow> tp_pos (enter_block t) = b + 4"
    "rd8 t (tp_pos t) = 0x13 \<Longrightarrow> tp_pos (enter_block t) = b + 1 + unat (rd8 t b) * 2"
    "rd8 t (tp_pos t) = 0x14 \<Longrightarrow> tp_pos (enter_block t) = b + 10 + rd24 t (b + 7)"
    "rd8 t (tp_pos t) = 0x15 \<Longrightarrow> tp_pos (enter_block t) = b + 8 + rd24 t (b + 5)"
    "rd8 t (tp_pos t) = 0x20 \<Longrightarrow> tp_pos (enter_block t) = b + 2"
  unfolding enter_block_def Let_def assms
  by (simp_all add: load_pulse_def first_bit_def direct_head_def stop_deck_def Let_def)

text \<open>(tape_walks_agree): the playing cursor and the block table agree. On every block type the deck knows,
  passing or entering the block moves the cursor by \<open>tape_cdt_block_len\<close>, the size \<open>tape_seek\<close> and the
  host's table walk by; so an ordinal means the same block to all three.\<close>

theorem tape_walks_agree:
  assumes "rd8 t (tp_pos t) \<in> set deck_ids"
  shows "(case skip_block t of Some u \<Rightarrow> tp_pos u | None \<Rightarrow> tp_pos (enter_block t)) =
    tp_pos t + tape_cdt_block_len (tp_cdt t) (tp_pos t)"
proof -
  define b where "b = tp_pos t + 1"
  note l = block_len_body [OF b_def, unfolded block_len_def] and e = enter_pos [OF b_def]
  have "rd8 t (tp_pos t) \<in> {0x10, 0x11, 0x12, 0x13, 0x14, 0x15, 0x20} \<or>
      rd8 t (tp_pos t) \<in> {0x21, 0x22, 0x30, 0x31, 0x32, 0x33}"
    using assms by (auto simp: deck_ids_def)
  then show ?thesis
  proof
    assume "rd8 t (tp_pos t) \<in> {0x10, 0x11, 0x12, 0x13, 0x14, 0x15, 0x20}"
    then show ?thesis
      unfolding skip_block_def Let_def direct_head_def b_def [symmetric] by (auto simp: l e)
  next
    assume "rd8 t (tp_pos t) \<in> {0x21, 0x22, 0x30, 0x31, 0x32, 0x33}"
    then show ?thesis unfolding skip_block_def Let_def b_def [symmetric] by (auto simp: l)
  qed
qed

theorem tape_walks_agree_witness: "tp_pos (enter_block demo_tape) = 22"
proof -
  have id: "rd8 demo_tape (tp_pos demo_tape) = 0x14" by (simp add: demo_bytes)
  then have "skip_block demo_tape = None" by (simp add: skip_block_def Let_def)
  then show ?thesis
    using tape_walks_agree [of demo_tape] demo_block(5,8) id by (simp add: deck_ids_def block_len_def)
qed

text \<open>With the relay open or PLAY up the tape does not move: for any number of cycles the deck's
  state is unchanged but for the motor lamp, and the read line keeps its level.\<close>

theorem tape_frozen:
  assumes "\<not> tp_line_mode t" "\<not> tape_motor (b_tape i) \<or> \<not> tp_playing t"
  shows "tape_run i (Suc n) t = t\<lparr>tp_motor_seen := tape_motor (b_tape i)\<rparr>"
    "tape_drives (tape_run i n t) i = [Dr_tape_rdata (tp_level t)]"
proof -
  have s: "tape_next u i = u\<lparr>tp_motor_seen := tape_motor (b_tape i)\<rparr>"
    if "\<not> tp_line_mode u" "tp_playing u = tp_playing t" for u
    using that assms(2) by (auto simp: tape_next_def tape_advance_def Let_def)
  show r: "tape_run i (Suc n) t = t\<lparr>tp_motor_seen := tape_motor (b_tape i)\<rparr>" for n
    by (induction n) (use s assms(1) in \<open>simp_all add: tape_run_Suc\<close>)
  show "tape_drives (tape_run i n t) i = [Dr_tape_rdata (tp_level t)]"
    using r [of n] by (simp add: tape_drives_def tape_run_Suc)
qed

end
