(* ===== verification/Fifos.thy ===== *)
theory Fifos
  imports Main
begin

text \<open>
  The contract of the small receive queues (the DART's three-byte stack, the Symbiface packet FIFO): a
  queue of bounded capacity that loses the newest entry when it is full and answers a default when it is
  empty. \<open>event_ring\<close> of \<open>Contracts\<close> is the other policy, which loses the oldest.
\<close>

locale bounded_fifo =
  fixes push :: "'s \<Rightarrow> 'e \<Rightarrow> 's"
    and pop :: "'s \<Rightarrow> 'e \<times> 's"
    and contents :: "'s \<Rightarrow> 'e list"
    and cap :: nat
    and dflt :: 'e
    and invar :: "'s \<Rightarrow> bool"
  assumes contents_push: "invar s \<Longrightarrow> contents (push s e) =
      (if length (contents s) < cap then contents s @ [e] else contents s)"
    and pop_empty: "invar s \<Longrightarrow> contents s = [] \<Longrightarrow> pop s = (dflt, s)"
    and pop_front: "invar s \<Longrightarrow> contents s = e # es \<Longrightarrow> fst (pop s) = e \<and> contents (snd (pop s)) = es"
    and invar_push: "invar s \<Longrightarrow> invar (push s e)"
    and invar_pop: "invar s \<Longrightarrow> invar (snd (pop s))"
    and bounded: "invar s \<Longrightarrow> length (contents s) \<le> cap"
begin

text \<open>A run of pushes keeps the oldest entries that fit.\<close>

lemma contents_pushes:
  assumes "invar s"
  shows "contents (fold (\<lambda>e s. push s e) es s) = take cap (contents s @ es) \<and> invar (fold (\<lambda>e s. push s e) es s)"
  using assms
proof (induction es arbitrary: s)
  case Nil
  then show ?case using bounded [of s] by simp
next
  case (Cons e es)
  show ?case
    using Cons.IH [OF invar_push [OF Cons.prems], of e] contents_push [OF Cons.prems, of e] bounded [OF Cons.prems]
    by (auto simp: take_Cons' le_diff_conv)
qed

text \<open>Popping as often as there are entries returns them in order and leaves the queue empty.\<close>

primrec pops :: "nat \<Rightarrow> 's \<Rightarrow> 'e list \<times> 's" where
  "pops 0 s = ([], s)"
| "pops (Suc n) s = (case pop s of (e, t) \<Rightarrow> (case pops n t of (es, u) \<Rightarrow> (e # es, u)))"

lemma pops_drain:
  assumes "invar s"
  shows "fst (pops (length (contents s)) s) = contents s \<and> contents (snd (pops (length (contents s)) s)) = []"
  using assms
proof (induction "contents s" arbitrary: s)
  case Nil
  then show ?case by simp
next
  case (Cons e es)
  obtain t where p: "pop s = (e, t)" "contents t = es" "invar t"
    using pop_front [OF Cons.prems Cons.hyps(2) [symmetric]] invar_pop [OF Cons.prems] by (cases "pop s") auto
  obtain xs u where q: "pops (length es) t = (xs, u)" by fastforce
  show ?case
    using Cons.hyps(1) [of t] p q by (simp add: Cons.hyps(2) [symmetric])
qed

text \<open>Nothing that was pushed into a queue with room is lost or reordered.\<close>

lemma pushed_then_popped:
  assumes "invar s" "contents s = []" "length es \<le> cap"
  shows "fst (pops (length es) (fold (\<lambda>e s. push s e) es s)) = es"
  using contents_pushes [OF assms(1), of es] assms pops_drain [of "fold (\<lambda>e s. push s e) es s"] by simp

end

end
