(* ===== verification/Rs232.thy ===== *)
theory Rs232
  imports Contracts Fifos
begin

text \<open>
  The serial interface card, \<open>src/src/hw/rs232.cpp\<close>: a Z80 DART whose channel A is framed onto the serial
  wires, and an 8253 timer whose counter 0 sets the bit time. \<open>rs_x\<close> is the member \<open>x\<close> of
  \<open>rs232_state\<close>. \<open>0/1\<close> bytes are booleans, arrays are functions of the index, and the small counters
  (FIFO fill, bits and cycles of a frame, receiver phase) naturals: each is compared with its bound before it
  grows. The call through \<open>host_tx\<close> is the list \<open>rs_host_sent\<close> of the bytes handed to the host.
\<close>

record rs232_state =
  rs_plugged :: bool
  rs_reg_ptr_a :: u8
  rs_reg_ptr_b :: u8
  rs_wr_a :: "nat \<Rightarrow> u8"
  rs_wr_b :: "nat \<Rightarrow> u8"
  rs_rr1_err :: u8
  rs_rx_fifo :: "nat \<Rightarrow> u8"
  rs_rx_count :: nat
  rs_tx_buf :: u8
  rs_tx_buf_full :: bool
  rs_tx_shift :: u16
  rs_tx_bits_left :: nat
  rs_tx_cycle :: nat
  rs_txd_level :: bool
  rs_rx_phase :: nat
  rs_rx_shift :: u8
  rs_rx_bits :: nat
  rs_rx_cycle :: nat
  rs_rxd_prev :: bool
  rs_reload :: "nat \<Rightarrow> u16"
  rs_latch :: "nat \<Rightarrow> u16"
  rs_latched :: "nat \<Rightarrow> bool"
  rs_ctr_mode :: "nat \<Rightarrow> u8"
  rs_rl_mode :: "nat \<Rightarrow> u8"
  rs_wr_toggle :: "nat \<Rightarrow> bool"
  rs_rd_toggle :: "nat \<Rightarrow> bool"
  rs_mode_reg :: u8
  rs_access_prev :: bool
  rs_out_latch :: u8
  rs_host_tx :: bool
  rs_host_sent :: "u8 list"

definition RX_FIFO_SIZE :: nat where "RX_FIFO_SIZE = 3"

definition rs232_init :: rs232_state where
  "rs232_init = \<lparr> rs_plugged = False, rs_reg_ptr_a = 0, rs_reg_ptr_b = 0, rs_wr_a = (\<lambda>_. 0), rs_wr_b = (\<lambda>_. 0),
     rs_rr1_err = 0, rs_rx_fifo = (\<lambda>_. 0), rs_rx_count = 0, rs_tx_buf = 0, rs_tx_buf_full = False, rs_tx_shift = 0,
     rs_tx_bits_left = 0, rs_tx_cycle = 0, rs_txd_level = True, rs_rx_phase = 0, rs_rx_shift = 0, rs_rx_bits = 0,
     rs_rx_cycle = 0, rs_rxd_prev = True, rs_reload = (\<lambda>_. 0), rs_latch = (\<lambda>_. 0), rs_latched = (\<lambda>_. False),
     rs_ctr_mode = (\<lambda>_. 0), rs_rl_mode = (\<lambda>_. 3), rs_wr_toggle = (\<lambda>_. False), rs_rd_toggle = (\<lambda>_. False),
     rs_mode_reg = 0, rs_access_prev = False, rs_out_latch = 0, rs_host_tx = False, rs_host_sent = [] \<rparr>"

subsection \<open>The DART\<close>

definition rs_bit_time :: "rs232_state \<Rightarrow> nat" where
  "rs_bit_time s = (let d = rs_reload s 0 in unat (if d = 0 then 1 else d) * 128)"

definition rr0_of :: "rs232_state \<Rightarrow> u8" where
  "rr0_of s = 0x20 OR (if rs_rx_count s > 0 then 0x01 else 0) OR (if \<not> rs_tx_buf_full s then 0x04 OR 0x08 else 0)"

definition rr1_of :: "rs232_state \<Rightarrow> u8" where
  "rr1_of s = rs_rr1_err s OR (if \<not> rs_tx_buf_full s \<and> rs_tx_bits_left s = 0 then 0x01 else 0)"

definition rx_push :: "rs232_state \<Rightarrow> u8 \<Rightarrow> rs232_state" where
  "rx_push s byte =
    (if rs_rx_count s \<ge> RX_FIFO_SIZE then s\<lparr>rs_rr1_err := rs_rr1_err s OR 0x10\<rparr>
     else s\<lparr>rs_rx_fifo := (rs_rx_fifo s)(rs_rx_count s := byte), rs_rx_count := rs_rx_count s + 1\<rparr>)"

definition rx_pop :: "rs232_state \<Rightarrow> u8 \<times> rs232_state" where
  "rx_pop s =
    (if rs_rx_count s = 0 then (0, s)
     else (rs_rx_fifo s 0,
       s\<lparr>rs_rx_count := rs_rx_count s - 1,
         rs_rx_fifo := (\<lambda>i. if i < rs_rx_count s - 1 then rs_rx_fifo s (i + 1) else rs_rx_fifo s i)\<rparr>))"

definition chan_a_reset :: "rs232_state \<Rightarrow> rs232_state" where
  "chan_a_reset s = s\<lparr>rs_reg_ptr_a := 0, rs_wr_a := (\<lambda>_. 0), rs_rr1_err := 0, rs_rx_count := 0, rs_tx_buf_full := False,
     rs_tx_bits_left := 0, rs_tx_cycle := 0, rs_txd_level := True, rs_rx_phase := 0\<rparr>"

definition dart_ctrl_write :: "rs232_state \<Rightarrow> bool \<Rightarrow> u8 \<Rightarrow> rs232_state" where
  "dart_ctrl_write s chan_a val =
    (if chan_a then
       (if rs_reg_ptr_a s = 0 then
          (let t = s\<lparr>rs_wr_a := (rs_wr_a s)(0 := val), rs_reg_ptr_a := val AND 0x07\<rparr>;
               cmd = drop_bit 3 val AND 0x07;
               u = (if cmd = 3 then chan_a_reset t else t)
           in if cmd = 6 then u\<lparr>rs_rr1_err := 0\<rparr> else u)
        else
          (let t = (if rs_reg_ptr_a s < 6 then s\<lparr>rs_wr_a := (rs_wr_a s)(unat (rs_reg_ptr_a s) := val)\<rparr> else s)
           in t\<lparr>rs_reg_ptr_a := 0\<rparr>))
     else
       (if rs_reg_ptr_b s = 0 then s\<lparr>rs_wr_b := (rs_wr_b s)(0 := val), rs_reg_ptr_b := val AND 0x07\<rparr>
        else
          (let t = (if rs_reg_ptr_b s < 6 then s\<lparr>rs_wr_b := (rs_wr_b s)(unat (rs_reg_ptr_b s) := val)\<rparr> else s)
           in t\<lparr>rs_reg_ptr_b := 0\<rparr>)))"

definition dart_ctrl_read :: "rs232_state \<Rightarrow> bool \<Rightarrow> u8 \<times> rs232_state" where
  "dart_ctrl_read s chan_a =
    (if \<not> chan_a then (0, s)
     else
       (let t = s\<lparr>rs_reg_ptr_a := 0\<rparr> in
        (if rs_reg_ptr_a s = 1 then rr1_of t else if rs_reg_ptr_a s = 2 then 0 else rr0_of t, t)))"

subsection \<open>The 8253\<close>

definition set_lsb :: "u16 \<Rightarrow> u8 \<Rightarrow> u16" where
  "set_lsb r val = (r AND 0xFF00) OR ucast val"

definition set_msb :: "u16 \<Rightarrow> u8 \<Rightarrow> u16" where
  "set_msb r val = (r AND 0x00FF) OR push_bit 8 (ucast val)"

definition pit_write :: "rs232_state \<Rightarrow> nat \<Rightarrow> u8 \<Rightarrow> rs232_state" where
  "pit_write s offset val =
    (if offset = 3 then
       (let sel = unat (drop_bit 6 val AND 0x03); rl = drop_bit 4 val AND 0x03 in
        if sel = 3 then s
        else if rl = 0 then s\<lparr>rs_latch := (rs_latch s)(sel := rs_reload s sel), rs_latched := (rs_latched s)(sel := True)\<rparr>
        else s\<lparr>rs_mode_reg := val, rs_rl_mode := (rs_rl_mode s)(sel := rl),
               rs_ctr_mode := (rs_ctr_mode s)(sel := drop_bit 1 val AND 0x07),
               rs_wr_toggle := (rs_wr_toggle s)(sel := False), rs_rd_toggle := (rs_rd_toggle s)(sel := False)\<rparr>)
     else
       (let r = rs_reload s offset; put = (\<lambda>v. s\<lparr>rs_reload := (rs_reload s)(offset := v)\<rparr>) in
        if rs_rl_mode s offset = 1 then put (set_lsb r val)
        else if rs_rl_mode s offset = 2 then put (set_msb r val)
        else if \<not> rs_wr_toggle s offset
        then (put (set_lsb r val))\<lparr>rs_wr_toggle := (rs_wr_toggle s)(offset := True)\<rparr>
        else (put (set_msb r val))\<lparr>rs_wr_toggle := (rs_wr_toggle s)(offset := False)\<rparr>))"

definition pit_read_peek :: "rs232_state \<Rightarrow> nat \<Rightarrow> u8" where
  "pit_read_peek s offset =
    (if offset = 3 then 0
     else
       (let value = (if rs_latched s offset then rs_latch s offset else rs_reload s offset);
            msb = (rs_rl_mode s offset = 2 \<or> rs_rl_mode s offset = 3 \<and> rs_rd_toggle s offset)
        in if msb then ucast (drop_bit 8 value) else ucast (value AND 0xFF)))"

definition pit_read_advance :: "rs232_state \<Rightarrow> nat \<Rightarrow> rs232_state" where
  "pit_read_advance s offset =
    (if offset = 3 then s
     else if rs_rl_mode s offset = 1 \<or> rs_rl_mode s offset = 2
     then s\<lparr>rs_latched := (rs_latched s)(offset := False)\<rparr>
     else if \<not> rs_rd_toggle s offset then s\<lparr>rs_rd_toggle := (rs_rd_toggle s)(offset := True)\<rparr>
     else s\<lparr>rs_rd_toggle := (rs_rd_toggle s)(offset := False), rs_latched := (rs_latched s)(offset := False)\<rparr>)"

subsection \<open>The wire\<close>

text \<open>The first part of \<open>tx_advance\<close>: a free shift register takes the buffered byte, framed.\<close>

definition tx_load :: "rs232_state \<Rightarrow> rs232_state" where
  "tx_load s = s\<lparr>rs_tx_shift := push_bit 1 (ucast (rs_tx_buf s)) OR 0x200, rs_tx_bits_left := 10, rs_tx_cycle := 0,
     rs_tx_buf_full := False\<rparr>"

text \<open>The second part: one master cycle of the frame on the wire.\<close>

definition tx_shift_out :: "rs232_state \<Rightarrow> rs232_state" where
  "tx_shift_out s0 =
    (let s = s0\<lparr>rs_txd_level := bit (rs_tx_shift s0) 0, rs_tx_cycle := rs_tx_cycle s0 + 1\<rparr> in
     if rs_tx_cycle s \<ge> rs_bit_time s then
       (let t = s\<lparr>rs_tx_cycle := 0, rs_tx_shift := drop_bit 1 (rs_tx_shift s), rs_tx_bits_left := rs_tx_bits_left s - 1\<rparr>
        in if rs_tx_bits_left t = 0 then t\<lparr>rs_txd_level := True\<rparr> else t)
     else s)"

definition tx_advance :: "rs232_state \<Rightarrow> rs232_state" where
  "tx_advance s =
    (if rs_tx_bits_left s = 0 then
       (if \<not> rs_tx_buf_full s then s\<lparr>rs_txd_level := True\<rparr> else tx_shift_out (tx_load s))
     else tx_shift_out s)"

definition rx_advance :: "rs232_state \<Rightarrow> bool \<Rightarrow> rs232_state" where
  "rx_advance s rxd =
    (let bt = rs_bit_time s; c = s\<lparr>rs_rx_cycle := rs_rx_cycle s + 1\<rparr>; due = (\<lambda>n. rs_rx_cycle s + 1 \<ge> n);
         t = (if rs_rx_phase s = 0 then
                (if rs_rxd_prev s \<and> \<not> rxd then s\<lparr>rs_rx_phase := 1, rs_rx_cycle := 0\<rparr> else s)
              else if rs_rx_phase s = 1 then
                (if due (bt div 2) then
                   (if \<not> rxd then c\<lparr>rs_rx_phase := 2, rs_rx_cycle := 0, rs_rx_shift := 0, rs_rx_bits := 0\<rparr>
                    else c\<lparr>rs_rx_phase := 0\<rparr>)
                 else c)
              else if rs_rx_phase s = 2 then
                (if due bt then
                   (let u = c\<lparr>rs_rx_cycle := 0, rs_rx_shift := drop_bit 1 (rs_rx_shift s) OR (if rxd then 0x80 else 0),
                          rs_rx_bits := rs_rx_bits s + 1\<rparr>
                    in if rs_rx_bits u = 8 then u\<lparr>rs_rx_phase := 3\<rparr> else u)
                 else c)
              else
                (if due bt then
                   (if rxd then rx_push c (rs_rx_shift s) else c\<lparr>rs_rr1_err := rs_rr1_err s OR 0x08\<rparr>)
                     \<lparr>rs_rx_phase := 0, rs_rx_cycle := 0\<rparr>
                 else c))
     in t\<lparr>rs_rxd_prev := rxd\<rparr>)"

subsection \<open>The device\<close>

definition rs_sel :: "Bus \<Rightarrow> bool" where
  "rs_sel i =
    (let hi = drop_bit 8 (cpu_addr (b_cpu i)); lo = cpu_addr (b_cpu i) AND 0xFF in
     cpu_iorq (b_cpu i) \<and> \<not> cpu_m1 (b_cpu i) \<and> (cpu_rd (b_cpu i) \<or> cpu_wr (b_cpu i)) \<and>
     (hi = 0xFA \<or> hi = 0xFB) \<and> lo \<ge> 0xDC \<and> lo \<le> 0xDF)"

definition rs_offset :: "Bus \<Rightarrow> nat" where
  "rs_offset i = unat ((cpu_addr (b_cpu i) AND 0xFF) - 0xDC)"

definition rs_dart :: "Bus \<Rightarrow> bool" where
  "rs_dart i \<longleftrightarrow> drop_bit 8 (cpu_addr (b_cpu i)) = 0xFA"

definition rs_read :: "rs232_state \<Rightarrow> bool \<Rightarrow> nat \<Rightarrow> u8 \<times> rs232_state" where
  "rs_read s dart offset =
    (if dart then
       (if offset = 0 then rx_pop s else if offset = 1 then (0, s) else dart_ctrl_read s (offset = 2))
     else (pit_read_peek s offset, pit_read_advance s offset))"

definition rs_write :: "rs232_state \<Rightarrow> bool \<Rightarrow> nat \<Rightarrow> u8 \<Rightarrow> rs232_state" where
  "rs_write s dart offset val =
    (if dart then
       (if offset = 0 then
          (let t = s\<lparr>rs_tx_buf := val, rs_tx_buf_full := True\<rparr>
           in if rs_host_tx t then t\<lparr>rs_host_sent := rs_host_sent t @ [val]\<rparr> else t)
        else if offset = 1 then s
        else dart_ctrl_write s (offset = 2) val)
     else pit_write s offset val)"

definition rs232_next :: "rs232_state \<Rightarrow> Bus \<Rightarrow> rs232_state" where
  "rs232_next s0 i =
    (if \<not> rs_plugged s0 then s0
     else
       (let s = rx_advance (tx_advance s0) (serial_rxd (b_serial i));
            edge = (rs_sel i \<and> \<not> rs_access_prev s);
            t = s\<lparr>rs_access_prev := rs_sel i\<rparr>
        in if \<not> edge then t
           else if cpu_rd (b_cpu i) then
             (case rs_read t (rs_dart i) (rs_offset i) of (v, u) \<Rightarrow> u\<lparr>rs_out_latch := v\<rparr>)
           else rs_write t (rs_dart i) (rs_offset i) (cpu_data (b_cpu i))))"

text \<open>The transmit level is put on the bus before the port access, so a channel reset shows on the wire a cycle
  later.\<close>

definition rs232_drives :: "rs232_state \<Rightarrow> Bus \<Rightarrow> asg list" where
  "rs232_drives s i =
    (if \<not> rs_plugged s then []
     else Dr_txd (rs_txd_level (tx_advance s)) #
       (if rs_sel i \<and> cpu_rd (b_cpu i) then [Dr_data (rs_out_latch (rs232_next s i))] else []))"

definition rs232_tick :: "rs232_state \<Rightarrow> Bus \<Rightarrow> Bus \<Rightarrow> rs232_state \<times> Bus" where
  "rs232_tick s i out = (rs232_next s i, drive (rs232_drives s i) out)"

definition rs232_dev_reset :: "rs232_state \<Rightarrow> rs232_state" where
  "rs232_dev_reset s = rs232_init\<lparr>rs_plugged := rs_plugged s, rs_host_sent := rs_host_sent s\<rparr>"

text \<open>The blob copies the whole structure, the host callback included; the bytes already handed to the host are
  not part of it.\<close>

definition rs232_save :: "rs232_state \<Rightarrow> u8 \<times> rs232_state" where
  "rs232_save s = (1, s\<lparr>rs_host_sent := []\<rparr>)"

definition rs232_load :: "rs232_state \<Rightarrow> u8 \<times> rs232_state \<Rightarrow> rs232_state" where
  "rs232_load s b = (if fst b = 1 then (snd b)\<lparr>rs_host_sent := rs_host_sent s\<rparr> else s)"

record Rs232Regs =
  rg_wr :: "nat \<Rightarrow> u8"
  rg_rr0 :: u8
  rg_rr1 :: u8
  rg_divisor :: u16
  rg_fifo_depth :: nat
  rg_tx_busy :: bool
  rg_txd :: bool
  rg_rxd :: bool
  rg_plugged :: bool

definition rs232_peek :: "rs232_state \<Rightarrow> Rs232Regs" where
  "rs232_peek s = \<lparr> rg_wr = rs_wr_a s, rg_rr0 = rr0_of s, rg_rr1 = rr1_of s, rg_divisor = rs_reload s 0,
     rg_fifo_depth = rs_rx_count s, rg_tx_busy = (rs_tx_bits_left s \<noteq> 0 \<or> rs_tx_buf_full s),
     rg_txd = rs_txd_level s, rg_rxd = rs_rxd_prev s, rg_plugged = rs_plugged s \<rparr>"

definition rs232_set_plugged :: "rs232_state \<Rightarrow> bool \<Rightarrow> rs232_state" where
  "rs232_set_plugged s on = s\<lparr>rs_plugged := on\<rparr>"

definition rs232_quiet :: "rs232_state \<Rightarrow> bool" where
  "rs232_quiet s \<longleftrightarrow> rs_tx_bits_left s = 0 \<and> \<not> rs_tx_buf_full s \<and> rs_rx_phase s = 0"

definition rs232_host_rx :: "rs232_state \<Rightarrow> u8 \<Rightarrow> rs232_state" where
  "rs232_host_rx s byte = rx_push s byte"

definition rs232_set_host_tx :: "rs232_state \<Rightarrow> bool \<Rightarrow> rs232_state" where
  "rs232_set_host_tx s on = s\<lparr>rs_host_tx := on\<rparr>"

subsection \<open>Interfaces provided\<close>

interpretation rs232_drv: bus_driver rs232_tick rs232_next rs232_drives
  by unfold_locales (simp add: rs232_tick_def)

interpretation rs232_blob: state_blob rs232_save rs232_load "\<lambda>s. snd (rs232_save s)" rs_host_sent
  by unfold_locales (simp_all add: rs232_save_def rs232_load_def)

definition rx_bytes :: "rs232_state \<Rightarrow> u8 list" where
  "rx_bytes s = map (rs_rx_fifo s) [0..<rs_rx_count s]"

lemma length_rx_bytes [simp]: "length (rx_bytes s) = rs_rx_count s"
  by (simp add: rx_bytes_def)

interpretation rs232_rx: bounded_fifo rx_push rx_pop rx_bytes 3 0 "\<lambda>s. rs_rx_count s \<le> 3"
proof unfold_locales
  fix s :: rs232_state and e es
  assume c: "rs_rx_count s \<le> 3"
  show "rx_bytes (rx_push s e) = (if length (rx_bytes s) < 3 then rx_bytes s @ [e] else rx_bytes s)"
    by (auto simp: rx_push_def RX_FIFO_SIZE_def rx_bytes_def)
  show "rx_bytes s = [] \<Longrightarrow> rx_pop s = (0, s)"
    by (simp add: rx_pop_def rx_bytes_def)
  show "fst (rx_pop s) = e \<and> rx_bytes (snd (rx_pop s)) = es" if b: "rx_bytes s = e # es"
  proof -
    obtain n where n: "rs_rx_count s = Suc n" using b by (cases "rs_rx_count s") (simp_all add: rx_bytes_def)
    have "rx_bytes s = rs_rx_fifo s 0 # map (\<lambda>i. rs_rx_fifo s (Suc i)) [0..<n]"
      by (simp only: rx_bytes_def n upt_conv_Cons [OF zero_less_Suc] map_Suc_upt [symmetric] list.map map_map comp_def)
    then have "rs_rx_fifo s 0 = e" "es = map (\<lambda>i. rs_rx_fifo s (Suc i)) [0..<n]" using b by simp_all
    moreover have "map (\<lambda>i. if i < n then rs_rx_fifo s (i + 1) else rs_rx_fifo s i) [0..<n] =
        map (\<lambda>i. rs_rx_fifo s (Suc i)) [0..<n]"
      by simp
    ultimately show ?thesis by (simp only: rx_pop_def rx_bytes_def n) simp
  qed
  show "rs_rx_count (rx_push s e) \<le> 3" using c by (simp add: rx_push_def RX_FIFO_SIZE_def)
  show "rs_rx_count (snd (rx_pop s)) \<le> 3" using c by (auto simp: rx_pop_def)
  show "length (rx_bytes s) \<le> 3" using c by simp
qed

end
