(* ===== verification/Rs232_Link.thy ===== *)
theory Rs232_Link
  imports Rs232
begin

text \<open>
  The serial line: the frame a card puts on the wire, how far the two bit times may differ for the other card
  to read it, the timer's registers, and when the card may sleep.
\<close>

subsection \<open>A frame\<close>

definition frame_bits :: "u8 \<Rightarrow> bool list" where
  "frame_bits b = False # map (bit b) [0..<8] @ [True]"

definition frame_line :: "nat \<Rightarrow> u8 \<Rightarrow> bool list" where
  "frame_line t b = map (\<lambda>i. frame_bits b ! (i div t)) [0..<10 * t]"

lemma length_frame_bits [simp]: "length (frame_bits b) = 10"
  by (simp add: frame_bits_def)

lemma frame_bits_nth:
  "frame_bits b ! 0 = False" "k < 8 \<Longrightarrow> frame_bits b ! Suc k = bit b k" "frame_bits b ! 9 = True"
  by (simp_all add: frame_bits_def nth_append)

subsection \<open>The receiver\<close>

definition rx_run :: "bool list \<Rightarrow> rs232_state \<Rightarrow> rs232_state" where
  "rx_run ls s = fold (\<lambda>l s. rx_advance s l) ls s"

lemma rx_run_Nil [simp]: "rx_run [] s = s"
  and rx_run_Cons [simp]: "rx_run (l # ls) s = rx_run ls (rx_advance s l)"
  and rx_run_append [simp]: "rx_run (ls @ ms) s = rx_run ms (rx_run ls s)"
  by (simp_all add: rx_run_def)

lemma rx_push_sel [simp]:
  "rs_rx_phase (rx_push s b) = rs_rx_phase s" "rs_rx_cycle (rx_push s b) = rs_rx_cycle s"
  "rs_rxd_prev (rx_push s b) = rs_rxd_prev s" "rs_reload (rx_push s b) = rs_reload s"
  "rs_rx_bits (rx_push s b) = rs_rx_bits s" "rs_rx_shift (rx_push s b) = rs_rx_shift s"
  by (simp_all add: rx_push_def)

lemma bit_time_reload: "rs_reload s = rs_reload t \<Longrightarrow> rs_bit_time s = rs_bit_time t"
  by (simp add: rs_bit_time_def)

text \<open>The cycles the receiver waits in a phase before it samples.\<close>

definition rx_due :: "rs232_state \<Rightarrow> nat" where
  "rx_due s = (if rs_rx_phase s = 1 then rs_bit_time s div 2 else rs_bit_time s)"

lemma rx_due_frame [simp]: "rx_due (s\<lparr>rs_rx_cycle := m, rs_rxd_prev := p\<rparr>) = rx_due s"
  by (simp add: rx_due_def rs_bit_time_def)

lemma rx_step_wait:
  assumes "rs_rx_phase s \<noteq> 0" "Suc (rs_rx_cycle s) < rx_due s"
  shows "rx_advance s l = s\<lparr>rs_rx_cycle := Suc (rs_rx_cycle s), rs_rxd_prev := l\<rparr>"
proof (cases "rs_rx_phase s = 1")
  case True
  with assms have "\<not> rs_bit_time s div 2 \<le> rs_rx_cycle s + 1" by (simp add: rx_due_def)
  then show ?thesis using True by (simp only: rx_advance_def Let_def) simp
next
  case False
  with assms have "\<not> rs_bit_time s \<le> rs_rx_cycle s + 1" by (simp add: rx_due_def)
  then show ?thesis using False assms(1) by (simp only: rx_advance_def Let_def) simp
qed

lemma rx_step_due:
  assumes "Suc (rs_rx_cycle s) = rx_due s"
  shows "rs_rx_phase s = 1 \<Longrightarrow> x \<Longrightarrow> rx_advance s x = s\<lparr>rs_rx_phase := 0, rs_rx_cycle := rx_due s, rs_rxd_prev := x\<rparr>"
    "rs_rx_phase s = 1 \<Longrightarrow> \<not> x \<Longrightarrow> rx_advance s x =
      s\<lparr>rs_rx_phase := 2, rs_rx_cycle := 0, rs_rx_shift := 0, rs_rx_bits := 0, rs_rxd_prev := x\<rparr>"
    "rs_rx_phase s = 2 \<Longrightarrow> rx_advance s x =
      s\<lparr>rs_rx_phase := (if rs_rx_bits s + 1 = 8 then 3 else 2), rs_rx_bits := rs_rx_bits s + 1, rs_rx_cycle := 0,
         rs_rx_shift := drop_bit 1 (rs_rx_shift s) OR (if x then 0x80 else 0), rs_rxd_prev := x\<rparr>"
    "rs_rx_phase s = 3 \<Longrightarrow> x \<Longrightarrow> rx_advance s x =
      (rx_push s (rs_rx_shift s))\<lparr>rs_rx_phase := 0, rs_rx_cycle := 0, rs_rxd_prev := x\<rparr>"
    "rs_rx_phase s = 3 \<Longrightarrow> \<not> x \<Longrightarrow> rx_advance s x =
      s\<lparr>rs_rr1_err := rs_rr1_err s OR 0x08, rs_rx_phase := 0, rs_rx_cycle := 0, rs_rxd_prev := x\<rparr>"
proof -
  have d: "rs_rx_phase s = 1 \<Longrightarrow> rs_bit_time s div 2 \<le> rs_rx_cycle s + 1"
    "rs_rx_phase s \<noteq> 1 \<Longrightarrow> rs_bit_time s \<le> rs_rx_cycle s + 1"
    "rs_rx_cycle s + 1 = rx_due s"
    using assms by (simp_all add: rx_due_def)
  note a = rx_advance_def Let_def
  show "rx_advance s x = s\<lparr>rs_rx_phase := 0, rs_rx_cycle := rx_due s, rs_rxd_prev := x\<rparr>" if "rs_rx_phase s = 1" x
    using that d(1,3) by (simp only: a) simp
  show "rx_advance s x = s\<lparr>rs_rx_phase := 2, rs_rx_cycle := 0, rs_rx_shift := 0, rs_rx_bits := 0, rs_rxd_prev := x\<rparr>"
    if "rs_rx_phase s = 1" "\<not> x"
    using that d(1) by (simp only: a) simp
  show "rx_advance s x = s\<lparr>rs_rx_phase := (if rs_rx_bits s + 1 = 8 then 3 else 2), rs_rx_bits := rs_rx_bits s + 1,
      rs_rx_cycle := 0, rs_rx_shift := drop_bit 1 (rs_rx_shift s) OR (if x then 0x80 else 0), rs_rxd_prev := x\<rparr>"
    if "rs_rx_phase s = 2"
    using that d(2) by (simp only: a) simp
  show "rx_advance s x = (rx_push s (rs_rx_shift s))\<lparr>rs_rx_phase := 0, rs_rx_cycle := 0, rs_rxd_prev := x\<rparr>"
    if "rs_rx_phase s = 3" x
    using that d(2) by (simp only: a) (simp add: rx_push_def)
  show "rx_advance s x = s\<lparr>rs_rr1_err := rs_rr1_err s OR 0x08, rs_rx_phase := 0, rs_rx_cycle := 0, rs_rxd_prev := x\<rparr>"
    if "rs_rx_phase s = 3" "\<not> x"
    using that d(2) by (simp only: a) simp
qed

lemma rx_wait:
  assumes "rs_rx_phase s \<noteq> 0" "rs_rx_cycle s + length ls < rx_due s"
  shows "rx_run ls s = s\<lparr>rs_rx_cycle := rs_rx_cycle s + length ls, rs_rxd_prev := last (rs_rxd_prev s # ls)\<rparr>"
  using assms
proof (induction ls arbitrary: s)
  case Nil
  then show ?case by simp
next
  case (Cons l ls)
  let ?u = "s\<lparr>rs_rx_cycle := Suc (rs_rx_cycle s), rs_rxd_prev := l\<rparr>"
  have d: "rx_due ?u = rx_due s" by (simp add: rx_due_def rs_bit_time_def)
  have "rx_advance s l = ?u"
    using Cons.prems by (intro rx_step_wait) simp_all
  moreover have "rx_run ls ?u = ?u\<lparr>rs_rx_cycle := rs_rx_cycle ?u + length ls, rs_rxd_prev := last (l # ls)\<rparr>"
    using Cons.IH [of ?u] Cons.prems unfolding d by simp
  ultimately show ?case by simp
qed

text \<open>A whole sampling period: nothing but the level in its last cycle matters.\<close>

lemma rx_period:
  assumes "rs_rx_phase s \<noteq> 0" "rs_rx_cycle s = 0" "Suc (length ls) = rx_due s"
  shows "\<exists>p. rx_run (ls @ [x]) s = rx_advance (s\<lparr>rs_rx_cycle := length ls, rs_rxd_prev := p\<rparr>) x"
  using rx_wait [OF assms(1), of ls] assms by (intro exI [of _ "last (rs_rxd_prev s # ls)"]) simp

subsection \<open>A frame received\<close>

text \<open>The receiver's shift register after its first \<open>k\<close> samples.\<close>

primrec rx_acc :: "u8 \<Rightarrow> nat \<Rightarrow> u8" where
  "rx_acc b 0 = 0"
| "rx_acc b (Suc k) = drop_bit 1 (rx_acc b k) OR (if bit b k then 0x80 else 0)"

lemma rx_acc_8: "rx_acc b 8 = b"
proof (rule bit_word_eqI)
  fix n assume "n < LENGTH(8)"
  then have "n = 0 \<or> n = 1 \<or> n = 2 \<or> n = 3 \<or> n = 4 \<or> n = 5 \<or> n = 6 \<or> n = 7" by simp presburger
  then show "bit (rx_acc b 8) n = bit b n"
    by (elim disjE) (simp_all add: eval_nat_numeral bit_simps)
qed

definition level_at :: "nat \<Rightarrow> u8 \<Rightarrow> nat \<Rightarrow> bool" where
  "level_at t b i = frame_bits b ! (i div t)"

lemma level_in_bit: "k * t \<le> i \<Longrightarrow> i < Suc k * t \<Longrightarrow> level_at t b i = frame_bits b ! k"
  unfolding level_at_def by (rule arg_cong [where f = "\<lambda>j. frame_bits b ! j"]) (metis div_nat_eqI mult.commute)

text \<open>The two bit times fit when the ninth sample still falls into the stop bit.\<close>

definition bauds_match :: "nat \<Rightarrow> nat \<Rightarrow> bool" where
  "bauds_match t r \<longleftrightarrow> 0 < r \<and> even r \<and> 18 * t \<le> 19 * r \<and> 19 * r < 20 * t"

lemma sample_in_bit:
  assumes "bauds_match t r" "k \<le> 9"
  shows "k * t \<le> r div 2 + k * r" "r div 2 + k * r < Suc k * t"
proof -
  obtain h where h: "r = 2 * h" using assms(1) by (auto simp: bauds_match_def)
  have b: "9 * t \<le> 19 * h" "19 * h < 10 * t" using assms(1) by (auto simp: bauds_match_def h)
  have "k = 0 \<or> k = 1 \<or> k = 2 \<or> k = 3 \<or> k = 4 \<or> k = 5 \<or> k = 6 \<or> k = 7 \<or> k = 8 \<or> k = 9"
    using assms(2) by presburger
  then show "k * t \<le> r div 2 + k * r" "r div 2 + k * r < Suc k * t"
    using b by (auto simp: h)
qed

lemma sample_level:
  assumes "bauds_match t r" "k \<le> 9"
  shows "level_at t b (r div 2 + k * r) = frame_bits b ! k"
  by (rule level_in_bit) (use sample_in_bit [OF assms] in simp_all)

lemma upt_split: "a \<le> m \<Longrightarrow> m \<le> n \<Longrightarrow> [a..<n] = [a..<m] @ [m..<n]"
  using upt_add_eq_append [of a m "n - m"] by simp

lemma even_bit_time: "even (rs_bit_time s)" and bit_time_pos: "0 < rs_bit_time s"
  by (simp_all add: rs_bit_time_def Let_def unat_gt_0)

text \<open>The state while the data bits arrive.\<close>

definition rx_at :: "rs232_state \<Rightarrow> u8 \<Rightarrow> nat \<Rightarrow> rs232_state" where
  "rx_at s b k = s\<lparr>rs_rx_phase := (if k = 8 then 3 else 2), rs_rx_cycle := 0, rs_rx_shift := rx_acc b k, rs_rx_bits := k,
     rs_rxd_prev := frame_bits b ! k\<rparr>"

lemma rx_start:
  assumes "rs_rx_phase s = 0" "rs_rxd_prev s" "bauds_match t (rs_bit_time s)"
  shows "rx_run (map (level_at t b) [0..<Suc (rs_bit_time s div 2)]) s = rx_at s b 0"
proof -
  let ?h = "rs_bit_time s div 2"
  define u where "u = s\<lparr>rs_rx_phase := 1, rs_rx_cycle := 0, rs_rxd_prev := False\<rparr>"
  have bt: "rs_bit_time u = rs_bit_time s" by (simp add: u_def rs_bit_time_def)
  have "0 < ?h" using even_bit_time [of s] bit_time_pos [of s] by presburger
  then obtain n where n: "?h = Suc n" by (cases ?h) auto
  have l0: "level_at t b 0 = False" "level_at t b ?h = False"
    using sample_level [OF assms(3), of 0 b] by (simp_all add: level_at_def frame_bits_nth)
  have up: "[0..<Suc ?h] = 0 # ([1..<?h] @ [?h])"
    using upt_conv_Cons [of 0 "Suc ?h"] by (simp add: n)
  have a: "rx_advance s False = u"
    unfolding rx_advance_def Let_def using assms by (simp add: u_def)
  have "Suc (length (map (level_at t b) [1..<?h])) = rx_due u"
    unfolding rx_due_def bt by (simp add: u_def n)
  then obtain p where p: "rx_run (map (level_at t b) [1..<?h] @ [False]) u =
      rx_advance (u\<lparr>rs_rx_cycle := length (map (level_at t b) [1..<?h]), rs_rxd_prev := p\<rparr>) False"
    using rx_period [of u "map (level_at t b) [1..<?h]" False] by (auto simp: u_def)
  let ?v = "u\<lparr>rs_rx_cycle := length (map (level_at t b) [1..<?h]), rs_rxd_prev := p\<rparr>"
  have "Suc (rs_rx_cycle ?v) = rx_due ?v"
    by (simp add: rx_due_def n rs_bit_time_def u_def) (simp add: n [unfolded rs_bit_time_def])
  then have "rx_advance ?v False = ?v\<lparr>rs_rx_phase := 2, rs_rx_cycle := 0, rs_rx_shift := 0, rs_rx_bits := 0, rs_rxd_prev := False\<rparr>"
    by (intro rx_step_due(2)) (simp_all add: u_def)
  moreover have "rx_run (map (level_at t b) [0..<Suc ?h]) s = rx_run (map (level_at t b) [1..<?h] @ [False]) u"
    unfolding up list.map map_append rx_run_Cons l0 a ..
  ultimately show ?thesis
    unfolding p by (simp add: u_def rx_at_def frame_bits_nth)
qed

lemma rx_data_bit:
  assumes "bauds_match t (rs_bit_time s)" "k < 8"
  defines "r \<equiv> rs_bit_time s"
  defines "a \<equiv> Suc (r div 2 + k * r)"
  shows "rx_run (map (level_at t b) [a..<a + r]) (rx_at s b k) = rx_at s b (Suc k)"
proof -
  define m where "m = r - 1"
  have r: "r = Suc m" using bit_time_pos [of s] by (simp add: m_def r_def)
  have bt: "rs_bit_time (rx_at s b k) = r" by (simp add: rx_at_def rs_bit_time_def r_def)
  have l: "level_at t b (a + m) = bit b k"
    using sample_level [OF assms(1), of "Suc k" b] assms(2)
    by (simp add: a_def r_def [symmetric] r frame_bits_nth ac_simps)
  have up: "map (level_at t b) [a..<a + r] = map (level_at t b) [a..<a + m] @ [bit b k]"
    by (simp add: r l)
  have d: "rx_due (rx_at s b k) = r" unfolding rx_due_def bt using assms(2) by (simp add: rx_at_def)
  then obtain p where p: "rx_run (map (level_at t b) [a..<a + r]) (rx_at s b k) =
      rx_advance ((rx_at s b k)\<lparr>rs_rx_cycle := m, rs_rxd_prev := p\<rparr>) (bit b k)"
    using rx_period [of "rx_at s b k" "map (level_at t b) [a..<a + m]" "bit b k"] assms(2)
    unfolding up by (auto simp: rx_at_def r)
  let ?v = "(rx_at s b k)\<lparr>rs_rx_cycle := m, rs_rxd_prev := p\<rparr>"
  have "rx_due ?v = r" using d by simp
  then have "Suc (rs_rx_cycle ?v) = rx_due ?v" by (simp add: r)
  from rx_step_due(3) [OF this] show ?thesis
    unfolding p using assms(2) by (simp add: rx_at_def frame_bits_nth)
qed

lemma rx_data:
  assumes "bauds_match t (rs_bit_time s)" "k \<le> 8"
  defines "r \<equiv> rs_bit_time s"
  shows "rx_run (map (level_at t b) [Suc (r div 2)..<Suc (r div 2 + k * r)]) (rx_at s b 0) = rx_at s b k"
  using assms(2)
proof (induction k)
  case 0
  then show ?case by simp
next
  case (Suc k)
  define a e where "a = Suc (r div 2 + k * r)" and "e = Suc (r div 2)"
  have n: "a + r = Suc (r div 2 + Suc k * r)" "e \<le> a" "a \<le> a + r" by (simp_all add: a_def e_def)
  have "rx_run (map (level_at t b) [a..<a + r]) (rx_at s b k) = rx_at s b (Suc k)"
    using rx_data_bit [OF assms(1), of k b] Suc.prems unfolding a_def r_def by simp
  moreover have "rx_run (map (level_at t b) [e..<a]) (rx_at s b 0) = rx_at s b k"
    using Suc unfolding a_def e_def by simp
  ultimately show ?case
    unfolding n(1) [symmetric] e_def [symmetric] upt_split [OF n(2,3)] map_append rx_run_append by simp
qed

text \<open>After the stop bit the rest of the frame is mark, and the receiver is looking for the next start edge.\<close>

lemma rx_idle_mark:
  assumes "rs_rx_phase s = 0" "rs_rxd_prev s"
  shows "rx_run (replicate n True) s = s"
proof (induction n)
  case (Suc n)
  have "rx_advance s True = s"
    unfolding rx_advance_def Let_def using assms by simp
  with Suc show ?case by simp
qed simp

lemma rx_frame:
  assumes "rs_rx_phase s = 0" "rs_rxd_prev s" "bauds_match t (rs_bit_time s)"
  shows "rx_run (frame_line t b) s = (rx_push s b)\<lparr>rs_rx_shift := b, rs_rx_bits := 8, rs_rx_cycle := 0\<rparr>"
proof -
  define r where "r = rs_bit_time s"
  define a where "a = Suc (r div 2 + 8 * r)"
  define m where "m = r - 1"
  define u where "u = (rx_push s b)\<lparr>rs_rx_shift := b, rs_rx_bits := 8, rs_rx_cycle := 0\<rparr>"
  have r: "r = Suc m" using bit_time_pos [of s] by (simp add: m_def r_def)
  note mt = assms(3) [folded r_def]
  have e: "a + r \<le> 10 * t" using sample_in_bit(2) [OF mt, of 9] by (simp add: a_def)
  have l: "level_at t b (a + m) = True"
    using sample_level [OF mt, of 9 b] by (simp add: a_def r frame_bits_nth ac_simps)
  have up: "map (level_at t b) [a..<a + r] = map (level_at t b) [a..<a + m] @ [True]"
    by (simp add: r l)
  have d: "rx_due (rx_at s b 8) = r" by (simp add: rx_due_def rx_at_def r_def rs_bit_time_def)
  then obtain p where p: "rx_run (map (level_at t b) [a..<a + r]) (rx_at s b 8) =
      rx_advance ((rx_at s b 8)\<lparr>rs_rx_cycle := m, rs_rxd_prev := p\<rparr>) True"
    using rx_period [of "rx_at s b 8" "map (level_at t b) [a..<a + m]" True]
    unfolding up by (auto simp: rx_at_def r)
  let ?v = "(rx_at s b 8)\<lparr>rs_rx_cycle := m, rs_rxd_prev := p\<rparr>"
  have "rx_due ?v = r" using d by simp
  then have "Suc (rs_rx_cycle ?v) = rx_due ?v" by (simp add: r)
  from rx_step_due(4) [OF this] have stop: "rx_run (map (level_at t b) [a..<a + r]) (rx_at s b 8) = u"
    unfolding p u_def using assms(1,2) by (simp add: rx_at_def rx_acc_8 rx_push_def)
  have "level_at t b i = True" if "i \<in> set [a + r..<10 * t]" for i
    using that sample_in_bit(1) [OF mt, of 9] level_in_bit [of 9 t i b] by (simp add: a_def frame_bits_nth)
  then have rest: "map (level_at t b) [a + r..<10 * t] = replicate (10 * t - (a + r)) True"
    by (intro replicate_eqI) auto
  define h where "h = Suc (r div 2)"
  have "h \<le> a" "a \<le> a + r" "h \<le> 10 * t" "a \<le> 10 * t" using e by (simp_all add: h_def a_def)
  then have "[0..<10 * t] = [0..<h] @ [h..<a] @ [a..<a + r] @ [a + r..<10 * t]"
    using upt_split [of 0 h "10 * t"] upt_split [of h a "10 * t"] upt_split [of a "a + r" "10 * t"] e by (simp only: le0)
  then have "frame_line t b = map (level_at t b) [0..<h] @ map (level_at t b) [h..<a] @ map (level_at t b) [a..<a + r] @
      map (level_at t b) [a + r..<10 * t]"
    by (simp only: frame_line_def level_at_def [abs_def] map_append)
  then show ?thesis
    using rx_start [OF assms, of b] rx_data [OF assms(3), of 8 b] stop rx_idle_mark [of u] assms(1,2)
    unfolding r_def [symmetric] a_def [symmetric] h_def [symmetric] rest by (simp add: u_def)
qed

subsection \<open>A frame sent\<close>

primrec tx_line :: "nat \<Rightarrow> rs232_state \<Rightarrow> bool list" where
  "tx_line 0 s = []"
| "tx_line (Suc n) s = rs_txd_level (tx_advance s) # tx_line n (tx_advance s)"

text \<open>The transmitter \<open>i\<close> cycles into a frame \<open>w\<close> of bit time \<open>t\<close>.\<close>

definition tx_word :: "u8 \<Rightarrow> u16" where
  "tx_word b = push_bit 1 (ucast b) OR 0x200"

definition tx_at :: "rs232_state \<Rightarrow> nat \<Rightarrow> bool \<Rightarrow> rs232_state" where
  "tx_at s i l = s\<lparr>rs_tx_shift := drop_bit (i div rs_bit_time s) (tx_word (rs_tx_buf s)), rs_tx_bits_left := 10 - i div rs_bit_time s,
     rs_tx_cycle := i mod rs_bit_time s, rs_tx_buf_full := False, rs_txd_level := l\<rparr>"

lemma tx_word_bit:
  assumes "k < 10"
  shows "bit (tx_word b) k = frame_bits b ! k"
proof -
  have w: "bit (tx_word b) k \<longleftrightarrow> 1 \<le> k \<and> bit b (k - 1) \<or> k = 9"
  proof -
    have "(0x200 :: u16) = 2 ^ 9" by simp
    then have "bit (0x200 :: u16) k \<longleftrightarrow> k = 9" using assms by (simp only: bit_2_iff bit_exp_iff) auto
    moreover have "bit (push_bit 1 (ucast b :: u16)) k \<longleftrightarrow> 1 \<le> k \<and> bit b (k - 1)"
      using assms by (auto simp only: bit_push_bit_iff bit_ucast_iff) (auto dest: bit_imp_le_length)
    ultimately show ?thesis by (simp only: tx_word_def bit_or_iff)
  qed
  have "k = 0 \<or> (\<exists>j. k = Suc j \<and> j < 8) \<or> k = 9" using assms by (cases k) auto
  then show ?thesis
    using bit_imp_le_length [of b 8] by (auto simp only: w frame_bits_nth) (simp_all add: frame_bits_nth)
qed

lemma tx_step:
  assumes "i < 10 * rs_bit_time s"
  shows "tx_shift_out (tx_at s i l) = tx_at s (Suc i) (frame_bits (rs_tx_buf s) ! (i div rs_bit_time s))"
proof -
  define t where "t = rs_bit_time s"
  define k where "k = i div t"
  have t: "0 < t" unfolding t_def by (rule bit_time_pos)
  have k: "k < 10" using assms t unfolding k_def t_def [symmetric] by (simp add: div_less_iff_less_mult ac_simps)
  have bt: "rs_bit_time (tx_at s i l) = t" for i l by (simp add: tx_at_def rs_bit_time_def t_def)
  have bt': "rs_bit_time (u\<lparr>rs_txd_level := x, rs_tx_cycle := y\<rparr>) = rs_bit_time u" for u x y
    by (simp add: rs_bit_time_def)
  have b: "bit (drop_bit k (tx_word (rs_tx_buf s))) 0 = frame_bits (rs_tx_buf s) ! k"
    using tx_word_bit [OF k, of "rs_tx_buf s"] by (simp add: bit_drop_bit_eq)
  have last: "k = 9 \<Longrightarrow> frame_bits (rs_tx_buf s) ! k" by (simp add: frame_bits_nth)
  have m: "i mod t < t" using t by simp
  show ?thesis
  proof (cases "Suc (i mod t) = t")
    case True
    then have "Suc i div t = Suc k" "Suc i mod t = 0" by (simp_all add: k_def div_Suc mod_Suc)
    then show ?thesis
      unfolding tx_shift_out_def Let_def bt bt' using True b k last
      by (cases "k = 9") (simp_all add: tx_at_def t_def [symmetric] k_def [symmetric])
  next
    case False
    then have "Suc i div t = k" "Suc i mod t = Suc (i mod t)" by (simp_all add: k_def div_Suc mod_Suc)
    then show ?thesis
      unfolding tx_shift_out_def Let_def bt bt' using False b m
      by (simp add: tx_at_def t_def [symmetric] k_def [symmetric])
  qed
qed

definition tx_run :: "nat \<Rightarrow> rs232_state \<Rightarrow> rs232_state" where
  "tx_run n s = (tx_advance ^^ n) s"

lemma tx_at_run:
  assumes "0 < i" "i + n \<le> 10 * rs_bit_time s"
  shows "tx_line n (tx_at s i l) = map (\<lambda>j. frame_bits (rs_tx_buf s) ! (j div rs_bit_time s)) [i..<i + n] \<and>
    (\<exists>l'. tx_run n (tx_at s i l) = tx_at s (i + n) l' \<and> (0 < n \<longrightarrow> l' = frame_bits (rs_tx_buf s) ! ((i + n - 1) div rs_bit_time s)))"
  using assms
proof (induction n arbitrary: i l)
  case 0
  then show ?case by (auto simp: tx_run_def)
next
  case (Suc n)
  let ?l = "frame_bits (rs_tx_buf s) ! (i div rs_bit_time s)"
  have i: "i < 10 * rs_bit_time s" using Suc.prems by simp
  have "i div rs_bit_time s < 10"
    using i bit_time_pos [of s] by (simp add: div_less_iff_less_mult ac_simps)
  then have a: "tx_advance (tx_at s i l) = tx_at s (Suc i) ?l"
    using tx_step [OF i, of l] by (simp add: tx_advance_def tx_at_def)
  have r: "tx_run (Suc n) u = tx_run n (tx_advance u)" for u by (simp add: tx_run_def funpow_swap1)
  have up: "[i..<i + Suc n] = i # [Suc i..<Suc i + n]" by (simp add: upt_conv_Cons del: upt_Suc)
  have lv: "rs_txd_level (tx_at s j x) = x" for j x by (simp add: tx_at_def)
  show ?case
    using Suc.IH [of "Suc i" ?l] Suc.prems unfolding r tx_line.simps a lv up
    by (cases n) (auto simp: tx_run_def)
qed

text \<open>From rest, a buffered byte goes out as one frame of ten bit times, and the transmitter is at rest again.\<close>

lemma tx_frame:
  assumes "rs_tx_bits_left s = 0" "rs_tx_buf_full s"
  defines "t \<equiv> rs_bit_time s"
  shows "tx_line (10 * t) s = frame_line t (rs_tx_buf s)" "tx_run (10 * t) s = tx_at s (10 * t) True"
proof -
  have t: "0 < t" unfolding t_def by (rule bit_time_pos)
  obtain n where n: "10 * t = Suc n" using t by (cases "10 * t") auto
  have "tx_load s = tx_at s 0 (rs_txd_level s)" by (simp add: tx_load_def tx_at_def tx_word_def)
  then have a: "tx_advance s = tx_at s 1 (frame_bits (rs_tx_buf s) ! 0)"
    using assms(1,2) tx_step [of 0 s "rs_txd_level s"] t by (simp add: tx_advance_def t_def)
  have lv: "rs_txd_level (tx_at s j x) = x" for j x by (simp add: tx_at_def)
  from tx_at_run [of 1 n s "frame_bits (rs_tx_buf s) ! 0"] n obtain l' where
    r: "tx_line n (tx_advance s) = map (\<lambda>j. frame_bits (rs_tx_buf s) ! (j div t)) [1..<Suc n]"
      "tx_run n (tx_advance s) = tx_at s (Suc n) l'" "0 < n \<longrightarrow> l' = frame_bits (rs_tx_buf s) ! (n div t)"
    unfolding a t_def [symmetric] by auto
  have "0 < n" using n t by linarith
  moreover have "n div t = 9" using n t by (intro div_nat_eqI) simp_all
  ultimately have l': "l' = True" using r(3) by (simp add: frame_bits_nth)
  have "[0..<Suc n] = 0 # [1..<Suc n]" by (simp add: upt_conv_Cons del: upt_Suc)
  then show "tx_line (10 * t) s = frame_line t (rs_tx_buf s)"
    using r(1) unfolding n frame_line_def tx_line.simps a lv by simp
  show "tx_run (10 * t) s = tx_at s (10 * t) True"
    using r(2) by (simp add: n l' tx_run_def funpow_swap1)
qed

text \<open>Bytes written to the data port one after the other, each after the frame of the one before.\<close>

primrec transmit :: "u8 list \<Rightarrow> rs232_state \<Rightarrow> bool list" where
  "transmit [] s = []"
| "transmit (b # bs) s =
    (let u = rs_write s True 0 b; n = 10 * rs_bit_time s in tx_line n u @ transmit bs (tx_run n u))"

lemma transmit_frames:
  assumes "rs_tx_bits_left s = 0"
  shows "transmit bs s = concat (map (frame_line (rs_bit_time s)) bs)"
  using assms
proof (induction bs arbitrary: s)
  case (Cons b bs)
  define u where "u = rs_write s True 0 b"
  have u: "rs_tx_bits_left u = 0" "rs_tx_buf_full u" "rs_tx_buf u = b" "rs_bit_time u = rs_bit_time s"
    using Cons.prems by (simp_all add: u_def rs_write_def Let_def rs_bit_time_def)
  define v where "v = tx_run (10 * rs_bit_time s) u"
  have v: "v = tx_at u (10 * rs_bit_time u) True" using tx_frame(2) [OF u(1,2)] by (simp add: v_def u)
  have "rs_tx_bits_left v = 0" using bit_time_pos [of u] by (simp add: v tx_at_def)
  moreover have "rs_bit_time v = rs_bit_time s" by (simp add: v tx_at_def rs_bit_time_def u(4) [unfolded rs_bit_time_def])
  ultimately have "transmit bs v = concat (map (frame_line (rs_bit_time s)) bs)" using Cons.IH by simp
  then show ?case
    using tx_frame(1) [OF u(1,2)] by (simp add: Let_def u_def [symmetric] v_def [symmetric]) (simp add: u)
qed simp

lemma rx_frames:
  assumes "rs_rx_phase s = 0" "rs_rxd_prev s" "bauds_match t (rs_bit_time s)" "rs_rx_count s \<le> 3"
  shows "rx_bytes (rx_run (concat (map (frame_line t) bs)) s) = take 3 (rx_bytes s @ bs)"
  using assms
proof (induction bs arbitrary: s)
  case (Cons b bs)
  define u where "u = rx_run (frame_line t b) s"
  have u: "u = (rx_push s b)\<lparr>rs_rx_shift := b, rs_rx_bits := 8, rs_rx_cycle := 0\<rparr>"
    using rx_frame [OF Cons.prems(1-3)] by (simp add: u_def)
  have f: "rs_rx_phase u = 0" "rs_rxd_prev u" "rs_bit_time u = rs_bit_time s" "rs_rx_count u \<le> 3"
      "rx_bytes u = rx_bytes (rx_push s b)"
    using Cons.prems rs232_rx.invar_push [of s b] by (simp_all add: u rs_bit_time_def rx_bytes_def)
  show ?case
    using Cons.IH [of u] Cons.prems f rs232_rx.contents_push [of s b]
    by (auto simp: u_def [symmetric] Suc_diff_le numeral_3_eq_3)
qed simp

subsection \<open>Reachable states\<close>

text \<open>The bounds the C++ relies on: every array index, and the two cycle counters, which would wrap at
  \<open>2 ^ 32\<close>. The largest bit time is \<open>65535 * 128\<close> cycles.\<close>

definition rs_wf :: "rs232_state \<Rightarrow> bool" where
  "rs_wf s \<longleftrightarrow> rs_rx_count s \<le> 3 \<and> rs_tx_bits_left s \<le> 10 \<and> rs_tx_cycle s < 8388480 \<and> rs_rx_phase s \<le> 3 \<and>
    rs_rx_cycle s \<le> 8388480 \<and> (rs_rx_phase s \<noteq> 0 \<longrightarrow> rs_rx_cycle s < 8388480) \<and> rs_rx_bits s \<le> 8 \<and>
    (rs_rx_phase s = 2 \<longrightarrow> rs_rx_bits s < 8) \<and> (rs_tx_bits_left s = 0 \<longrightarrow> rs_txd_level s) \<and>
    rs_reg_ptr_a s \<le> 7 \<and> rs_reg_ptr_b s \<le> 7 \<and> (\<forall>i. rs_rl_mode s i \<in> {1, 2, 3})"

inductive rs_reach :: "rs232_state \<Rightarrow> bool" where
  init: "rs_reach rs232_init"
| tick: "rs_reach s \<Longrightarrow> rs_reach (rs232_next s i)"
| reset: "rs_reach s \<Longrightarrow> rs_reach (rs232_dev_reset s)"
| plug: "rs_reach s \<Longrightarrow> rs_reach (rs232_set_plugged s on)"
| feed: "rs_reach s \<Longrightarrow> rs_reach (rs232_host_rx s byte)"
| sink: "rs_reach s \<Longrightarrow> rs_reach (rs232_set_host_tx s on)"
| restore: "rs_reach s \<Longrightarrow> rs_reach t \<Longrightarrow> rs_reach (rs232_load t (rs232_save s))"

lemma bit_time_max: "rs_bit_time s \<le> 8388480"
proof -
  have "unat (rs_reload s 0) \<le> 65535" using unat_less_65536 [of "rs_reload s 0"] by linarith
  then show ?thesis by (simp add: rs_bit_time_def Let_def)
qed

lemma rx_push_wf [inv_intros]: "rs_wf s \<Longrightarrow> rs_wf (rx_push s b)"
  by (simp add: rs_wf_def rx_push_def RX_FIFO_SIZE_def)

lemma tx_shift_out_wf:
  assumes "rs_wf s" "rs_tx_bits_left s \<noteq> 0"
  shows "rs_wf (tx_shift_out s)"
proof -
  define bt where "bt = rs_bit_time s"
  have b: "bt \<le> 8388480" unfolding bt_def by (rule bit_time_max)
  have e: "rs_bit_time (s\<lparr>rs_txd_level := x, rs_tx_cycle := y\<rparr>) = bt" for x y by (simp add: bt_def rs_bit_time_def)
  show ?thesis
    unfolding tx_shift_out_def Let_def e using assms b by (auto simp: rs_wf_def)
qed

lemma tx_advance_wf [inv_intros]: "rs_wf s \<Longrightarrow> rs_wf (tx_advance s)"
proof -
  assume w: "rs_wf s"
  then have "rs_wf (tx_load s)" "rs_tx_bits_left (tx_load s) \<noteq> 0" by (simp_all add: rs_wf_def tx_load_def)
  with w show ?thesis by (simp add: tx_advance_def tx_shift_out_wf) (simp add: rs_wf_def)
qed

lemma rx_advance_wf [inv_intros]:
  assumes w: "rs_wf s"
  shows "rs_wf (rx_advance s l)"
proof -
  define bt where "bt = rs_bit_time s"
  have b: "bt \<le> 8388480" unfolding bt_def by (rule bit_time_max)
  have p: "rs_rx_phase s = 0 \<or> rs_rx_phase s = 1 \<or> rs_rx_phase s = 2 \<or> rs_rx_phase s = 3"
  proof -
    have "rs_rx_phase s \<le> 3" using w by (simp add: rs_wf_def)
    then show ?thesis by presburger
  qed
  note d = rx_advance_def Let_def bt_def [symmetric]
  from p show ?thesis
  proof (elim disjE)
    assume "rs_rx_phase s = 0" then show ?thesis using w by (simp add: d rs_wf_def)
  next
    assume "rs_rx_phase s = 1" then show ?thesis using w b by (auto simp: d rs_wf_def)
  next
    assume "rs_rx_phase s = 2" then show ?thesis using w b by (auto simp: d rs_wf_def)
  next
    assume a: "rs_rx_phase s = 3"
    show ?thesis
    proof (cases "rs_rx_cycle s + 1 \<ge> bt")
      case True
      have "rs_wf ((rx_push s (rs_rx_shift s))\<lparr>rs_rx_phase := 0, rs_rx_cycle := 0, rs_rxd_prev := l\<rparr>)"
        using rx_push_wf [OF w] by (simp add: rs_wf_def)
      then show ?thesis using a True w
        by (cases l) (simp_all add: d rx_push_def RX_FIFO_SIZE_def rs_wf_def split: if_split_asm)
    next
      case False
      then show ?thesis using a w b by (simp add: d rs_wf_def)
    qed
  qed
qed

lemma and_7_le: "(v :: u8) AND 0x07 \<le> 7"
  by (rule word_le_of_unat) (simp add: mask_simps unat_take_bit less_Suc_eq_le [symmetric])

lemma dart_ctrl_write_wf [inv_intros]: "rs_wf s \<Longrightarrow> rs_wf (dart_ctrl_write s a v)"
  by (simp add: rs_wf_def dart_ctrl_write_def chan_a_reset_def Let_def and_7_le)

lemma pit_write_wf [inv_intros]:
  assumes "rs_wf s"
  shows "rs_wf (pit_write s offset v)"
proof -
  have "rl = 1 \<or> rl = 2 \<or> rl = 3" if "rl = drop_bit 4 v AND 0x03" "rl \<noteq> 0" for rl :: u8
  proof -
    have "unat rl < 4" unfolding that(1) by (simp add: mask_simps unat_take_bit)
    moreover have "unat rl \<noteq> 0" using that(2) by (simp add: unat_eq_0)
    ultimately have "unat rl = 1 \<or> unat rl = 2 \<or> unat rl = 3" by linarith
    then show ?thesis by (simp add: word_unat_eq_iff)
  qed
  then show ?thesis
    using assms unfolding rs_wf_def pit_write_def Let_def by simp
qed

lemma rs_write_wf [inv_intros]: "rs_wf s \<Longrightarrow> rs_wf (rs_write s dart offset v)"
  by (simp add: rs_write_def Let_def inv_intros) (simp add: rs_wf_def)

lemma rs_read_wf [inv_intros]: "rs_wf s \<Longrightarrow> rs_wf (snd (rs_read s dart offset))"
  by (auto simp: rs_read_def rs_wf_def rx_pop_def dart_ctrl_read_def pit_read_advance_def Let_def)

lemma rs232_next_wf [inv_intros]:
  assumes "rs_wf s"
  shows "rs_wf (rs232_next s i)"
proof -
  define t where "t = (rx_advance (tx_advance s) (serial_rxd (b_serial i)))\<lparr>rs_access_prev := rs_sel i\<rparr>"
  have "rs_wf (rx_advance (tx_advance s) (serial_rxd (b_serial i)))" by (intro inv_intros) (rule assms)
  then have t: "rs_wf t" by (simp add: t_def rs_wf_def)
  have "rs_wf ((snd (rs_read t d o'))\<lparr>rs_out_latch := v\<rparr>)" for d o' v
    using rs_read_wf [OF t] by (simp add: rs_wf_def)
  then show ?thesis
    unfolding rs232_next_def Let_def t_def [symmetric] using assms t rs_write_wf [OF t]
    by (simp add: case_prod_unfold)
qed

lemma rs_wf_load: "rs_wf s \<Longrightarrow> rs_wf (rs232_load t (rs232_save s))"
  by (simp add: rs232_load_def rs232_save_def rs_wf_def)

text \<open>A counter written low byte first reads back the same way.\<close>

lemma ucast_halves:
  "ucast (drop_bit 8 (set_msb (set_lsb r lo) hi)) = hi" "ucast (set_msb (set_lsb r lo) hi AND 0xFF) = lo"
proof -
  have m: "(0xFF :: u16) = mask 8" "(0xFF00 :: u16) = push_bit 8 (mask 8)"
    by (simp_all add: mask_eq_exp_minus_1 push_bit_eq_mult)
  show "ucast (drop_bit 8 (set_msb (set_lsb r lo) hi)) = hi" "ucast (set_msb (set_lsb r lo) hi AND 0xFF) = lo"
    unfolding set_msb_def set_lsb_def m
    by (rule bit_word_eqI; auto simp: bit_simps dest: bit_imp_le_length)+
qed

lemma unat_halves: "unat (set_msb (set_lsb r lo) hi) = 256 * unat hi + unat lo"
proof -
  let ?v = "set_msb (set_lsb r lo) hi"
  have "unat ?v div 256 < 256" using unat_less_65536 [of ?v] by (simp add: div_less_iff_less_mult del: unat_less_65536)
  then have "unat (ucast (drop_bit 8 ?v) :: u8) = unat ?v div 256"
    by (simp add: unsigned_ucast_eq unat_drop_bit take_bit_eq_mod)
  moreover have "unat (?v AND 0xFF) = unat ?v mod 256" by (simp only: mask_simps unat_take_bit) simp
  then have "unat (ucast (?v AND 0xFF) :: u8) = unat ?v mod 256"
    by (simp only: unsigned_ucast_eq take_bit_eq_mod) simp
  ultimately show ?thesis
    unfolding ucast_halves by (metis mult_div_mod_eq)
qed

subsection \<open>Properties\<close>

text \<open>C27 (serial_link): bytes go over the serial wire and arrive. One card transmits the bytes written to its data
  port with bit time \<open>t\<close>, another reads the line with bit time \<open>r\<close>; whenever \<open>18 t \<le> 19 r < 20 t\<close> (a baud
  error of about five per cent either way), the second card's FIFO afterwards holds what it held and the bytes
  sent, in order, as far as its three places go.\<close>

theorem serial_link:
  assumes "rs_tx_bits_left a = 0" "rs_rx_phase c = 0" "rs_rxd_prev c" "rs_rx_count c \<le> 3"
    and "18 * rs_bit_time a \<le> 19 * rs_bit_time c" "19 * rs_bit_time c < 20 * rs_bit_time a"
  shows "rx_bytes (rx_run (transmit bs a) c) = take 3 (rx_bytes c @ bs)"
proof -
  have "bauds_match (rs_bit_time a) (rs_bit_time c)"
    using assms(5,6) by (simp add: bauds_match_def even_bit_time bit_time_pos)
  from rx_frames [OF assms(2,3) this assms(4)] show ?thesis
    by (simp add: transmit_frames [OF assms(1)])
qed

definition demo_card :: "u16 \<Rightarrow> rs232_state" where
  "demo_card divisor = rs232_init\<lparr>rs_plugged := True, rs_reload := (\<lambda>_. divisor)\<rparr>"

theorem serial_link_witness:
  "rx_bytes (rx_run (transmit [0x41, 0xC3, 0x00] (demo_card 27)) (demo_card 26)) = [0x41, 0xC3, 0x00]"
proof -
  have t: "rs_bit_time (demo_card 27) = 3456" "rs_bit_time (demo_card 26) = 3328"
    by (simp_all add: rs_bit_time_def demo_card_def)
  have "rx_bytes (rx_run (transmit [0x41, 0xC3, 0x00] (demo_card 27)) (demo_card 26)) =
      take 3 (rx_bytes (demo_card 26) @ [0x41, 0xC3, 0x00])"
    by (rule serial_link) (simp_all only: t, simp_all add: demo_card_def rs232_init_def)
  then show ?thesis by (simp add: rx_bytes_def demo_card_def rs232_init_def)
qed

text \<open>(rs232_quiet_skip): the wake contract. A card that reports quiet, its wire at mark and its last access over,
  may be left out of any run of cycles that do not select it and that keep the incoming line at mark: ticking
  it through them changes nothing of its state and nothing on the bus.\<close>

theorem rs232_quiet_skip:
  assumes "rs232_quiet s" "rs_wf s" "rs_rxd_prev s" "\<not> rs_access_prev s"
    and "\<And>i. i \<in> set is \<Longrightarrow> \<not> rs_sel i \<and> serial_rxd (b_serial i)"
  shows "fold (\<lambda>i s. rs232_next s i) is s = s \<and> (\<forall>i \<in> set is. rs232_tick s i bus_resting = (s, bus_resting))"
proof -
  have a: "tx_advance s = s" using assms(1,2) by (cases s) (simp add: tx_advance_def rs232_quiet_def rs_wf_def)
  have b: "rx_advance s True = s" using assms(1,3) by (simp add: rx_advance_def rs232_quiet_def Let_def)
  have n: "rs232_next s i = s" if "i \<in> set is" for i
    using assms(4,5) that a b by (cases s) (auto simp: rs232_next_def Let_def)
  have lv: "rs_txd_level s" using assms(1,2) by (simp add: rs232_quiet_def rs_wf_def)
  have "rs232_tick s i bus_resting = (s, bus_resting)" if "i \<in> set is" for i
    using n [OF that] assms(5) [OF that] lv by (simp add: rs232_tick_def rs232_drives_def a drive_def bus_resting_def)
  moreover have "set js \<subseteq> set is \<Longrightarrow> fold (\<lambda>i s. rs232_next s i) js s = s" for js
    by (induction js) (simp_all add: n)
  ultimately show ?thesis by blast
qed

theorem rs232_quiet_skip_witness:
  "fold (\<lambda>i s. rs232_next s i) (replicate 5 bus_resting) (demo_card 13) = demo_card 13"
  using rs232_quiet_skip [of "demo_card 13" "replicate 5 bus_resting"]
  by (simp add: demo_card_def rs232_init_def rs232_quiet_def rs_wf_def rs_sel_def bus_resting_def Let_def)

text \<open>(pit_program): programming a counter of the timer. A control word for counter \<open>c\<close> in access mode 3 and the
  two bytes of a value, low byte first, make that value the reload of the counter; two reads return the bytes
  in the same order; and for counter 0 the bit time becomes 128 master cycles per unit.\<close>

theorem pit_program:
  fixes v lo hi :: u8 and c :: nat and s :: rs232_state
  assumes "drop_bit 6 v AND 0x03 = of_nat c" "drop_bit 4 v AND 0x03 = 3" "c < 3" "\<not> rs_latched s c"
  defines "u \<equiv> pit_write (pit_write (pit_write s 3 v) c lo) c hi"
  shows "unat (rs_reload u c) = 256 * unat hi + unat lo \<and>
    fst (rs_read u False c) = lo \<and> fst (rs_read (snd (rs_read u False c)) False c) = hi \<and>
    rs_reload (snd (rs_read u False c)) = rs_reload u \<and>
    (c = 0 \<longrightarrow> 256 * unat hi + unat lo \<noteq> 0 \<longrightarrow> rs_bit_time u = 128 * (256 * unat hi + unat lo))"
proof -
  have c: "unat (drop_bit 6 v AND 0x03) = c" unfolding assms(1) using assms(3) by (simp add: unsigned_of_nat take_bit_nat_eq_self)
  define w where "w = pit_write s 3 v"
  have w: "rs_rl_mode w c = 3" "\<not> rs_wr_toggle w c" "\<not> rs_rd_toggle w c" "\<not> rs_latched w c" "rs_reload w = rs_reload s"
    using assms(2,3,4) c unfolding w_def pit_write_def Let_def by simp_all
  let ?v = "set_msb (set_lsb (rs_reload s c) lo) hi"
  have c3: "c \<noteq> 3" using assms(3) by simp
  have u: "rs_reload u c = ?v" "rs_rl_mode u c = 3" "\<not> rs_rd_toggle u c" "\<not> rs_latched u c"
    using w c3 unfolding u_def w_def [symmetric] by (simp_all add: pit_write_def Let_def)
  have r: "fst (rs_read u False c) = lo" "rs_reload (snd (rs_read u False c)) = rs_reload u"
    "fst (rs_read (snd (rs_read u False c)) False c) = hi"
    using u c3 by (simp_all add: rs_read_def pit_read_peek_def pit_read_advance_def ucast_halves Let_def)
  have "rs_bit_time u = 128 * (256 * unat hi + unat lo)" if "c = 0" "256 * unat hi + unat lo \<noteq> 0"
  proof -
    have "rs_reload u 0 \<noteq> 0" using u(1) that unat_halves [of "rs_reload s c" lo hi] by (metis unat_0)
    then show ?thesis using u(1) that(1) unat_halves [of "rs_reload s c" lo hi] by (simp add: rs_bit_time_def)
  qed
  then show ?thesis using r u(1) unat_halves [of "rs_reload s c" lo hi] by simp
qed

theorem pit_program_witness:
  "rs_bit_time (pit_write (pit_write (pit_write rs232_init 3 0x36) 0 13) 0 0) = 1664"
  using pit_program [of "0x36" 0 rs232_init 13 0] by (simp add: rs232_init_def)

text \<open>(rs232_reach_wf): whatever bus cycles, host calls, resets, re-plugging and state transfers a card sees, its
  FIFO and register indices stay in their arrays, the frame and bit counters in their ranges, the two cycle
  counters below \<open>2 ^ 23\<close> (so the \<open>uint32_t\<close> never wraps), the counters' access mode is one of the three the
  code distinguishes, and the wire is at mark whenever the shift register is empty.\<close>

theorem rs232_reach_wf:
  assumes "rs_reach s"
  shows "rs_wf s"
  using assms
proof induction
  case init
  show ?case by (simp add: rs_wf_def rs232_init_def)
next
  case (reset s)
  show ?case by (simp add: rs_wf_def rs232_dev_reset_def rs232_init_def)
qed (simp_all add: inv_intros rs_wf_load rs232_host_rx_def, simp_all add: rs_wf_def rs232_set_plugged_def rs232_set_host_tx_def)

theorem rs232_reach_wf_witness: "rs_wf (rs232_next (rs232_host_rx (rs232_set_plugged rs232_init True) 0x41) bus_resting)"
  by (intro rs232_reach_wf rs_reach.intros)

end
