(* ===== verification/Symbiface.thy ===== *)
theory Symbiface
  imports Contracts Fifos Event_Rings
begin

text \<open>
  The Symbiface II board, \<open>src/src/hw/symbiface.cpp\<close>: two IDE drives over caller-owned images, the DS12887
  clock with its NVRAM, and the PS/2 mouse FIFO. \<open>id_x\<close> is the member \<open>x\<close> of \<open>ide_drive\<close>, \<open>sf_x\<close> that of
  \<open>sf2_state\<close>. Arrays are functions of the index but for the sector buffer and the images, which are byte
  lists; indices, the buffer position and sector numbers are naturals, and the sector count keeps its byte,
  which wraps. An image belongs to one drive: attaching one buffer twice is not modelled.
\<close>

definition kSrDrdy :: u8 where "kSrDrdy = 0x40"
definition kSrDrq :: u8 where "kSrDrq = 0x08"
definition kSrErr :: u8 where "kSrErr = 0x01"
definition kCmdReadSectors :: u8 where "kCmdReadSectors = 0x20"
definition kCmdWriteSectors :: u8 where "kCmdWriteSectors = 0x30"
definition kCmdIdentify :: u8 where "kCmdIdentify = 0xEC"
definition kCmdIdleImmediate :: u8 where "kCmdIdleImmediate = 0xE1"
definition kCmdInitParams :: u8 where "kCmdInitParams = 0x91"
definition kFifoSize :: nat where "kFifoSize = 64"

record ide_drive =
  id_error :: u8
  id_features :: u8
  id_sector_count :: u8
  id_lba_low :: u8
  id_lba_mid :: u8
  id_lba_high :: u8
  id_drive_head :: u8
  id_status :: u8
  id_command :: u8
  id_sector_buf :: "u8 list"
  id_buf_pos :: nat
  id_data_ready :: bool
  id_write_pending :: bool

record sf2_state =
  sf_ide :: "nat \<Rightarrow> ide_drive"
  sf_active_drive :: nat
  sf_rtc_index :: u8
  sf_rtc_time :: "nat \<Rightarrow> u8"
  sf_cmos :: "nat \<Rightarrow> u8"
  sf_fifo :: "nat \<Rightarrow> u8"
  sf_fifo_head :: nat
  sf_fifo_tail :: nat
  sf_last_buttons :: u8
  sf_plugged :: bool
  sf_dirty :: bool
  sf_out_latch :: u8
  sf_access_prev :: bool
  sf_img :: "nat \<Rightarrow> u8 list option"
  sf_total_sectors :: "nat \<Rightarrow> nat"

definition ide_init :: ide_drive where
  "ide_init = \<lparr> id_error = 0, id_features = 0, id_sector_count = 0, id_lba_low = 0, id_lba_mid = 0, id_lba_high = 0,
     id_drive_head = 0, id_status = 0, id_command = 0, id_sector_buf = replicate 512 0, id_buf_pos = 0,
     id_data_ready = False, id_write_pending = False \<rparr>"

definition sf2_init :: sf2_state where
  "sf2_init = \<lparr> sf_ide = (\<lambda>_. ide_init), sf_active_drive = 0, sf_rtc_index = 0, sf_rtc_time = (\<lambda>_. 0), sf_cmos = (\<lambda>_. 0),
     sf_fifo = (\<lambda>_. 0), sf_fifo_head = 0, sf_fifo_tail = 0, sf_last_buttons = 0, sf_plugged = False, sf_dirty = False,
     sf_out_latch = 0xFF, sf_access_prev = False, sf_img = (\<lambda>_. None), sf_total_sectors = (\<lambda>_. 0) \<rparr>"

definition sf_active :: "sf2_state \<Rightarrow> ide_drive" where
  "sf_active f = sf_ide f (sf_active_drive f)"

definition put_drive :: "sf2_state \<Rightarrow> ide_drive \<Rightarrow> sf2_state" where
  "put_drive f d = f\<lparr>sf_ide := (sf_ide f)(sf_active_drive f := d)\<rparr>"

definition sf_present :: "sf2_state \<Rightarrow> nat \<Rightarrow> bool" where
  "sf_present f n \<longleftrightarrow> sf_img f n \<noteq> None"

definition ide_lba :: "ide_drive \<Rightarrow> nat" where
  "ide_lba d = unat (id_drive_head d AND 0x0F) * 2 ^ 24 + unat (id_lba_high d) * 2 ^ 16 + unat (id_lba_mid d) * 2 ^ 8 +
     unat (id_lba_low d)"

definition set_lba :: "ide_drive \<Rightarrow> nat \<Rightarrow> ide_drive" where
  "set_lba d lba = d\<lparr>id_lba_low := of_nat (lba mod 256), id_lba_mid := of_nat (lba div 2 ^ 8 mod 256),
     id_lba_high := of_nat (lba div 2 ^ 16 mod 256),
     id_drive_head := (id_drive_head d AND 0xF0) OR of_nat (lba div 2 ^ 24 mod 16)\<rparr>"

subsection \<open>IDENTIFY\<close>

definition sf_byte_at :: "string \<Rightarrow> nat \<Rightarrow> u8" where
  "sf_byte_at str i = (if i < length str then of_char (str ! i) else 0x20)"

primrec ide_set_string :: "nat \<Rightarrow> nat \<Rightarrow> string \<Rightarrow> u8 list \<Rightarrow> u8 list" where
  "ide_set_string ws 0 str buf = buf"
| "ide_set_string ws (Suc w) str buf =
    (let b = ide_set_string ws w str buf
     in b[(ws + w) * 2 := sf_byte_at str (w * 2 + 1), (ws + w) * 2 + 1 := sf_byte_at str (w * 2)])"

definition put_word :: "nat \<Rightarrow> nat \<Rightarrow> u8 list \<Rightarrow> u8 list" where
  "put_word word val buf = buf[word * 2 := of_nat (val mod 256), word * 2 + 1 := of_nat (val div 256 mod 256)]"

definition identify_block :: "nat \<Rightarrow> u8 list" where
  "identify_block sectors =
    (let cyls = min (sectors div (16 * 63)) 16383;
         chs = cyls * 16 * 63;
         b1 = put_word 6 63 (put_word 3 16 (put_word 1 cyls (put_word 0 0x0040 (replicate 512 0))));
         b2 = ide_set_string 27 20 ''konCePCja Virtual CF'' (ide_set_string 23 4 ''1.00'' (ide_set_string 10 10 ''KONCEPCJA001'' b1));
         b3 = put_word 56 63 (put_word 55 16 (put_word 54 cyls (put_word 53 1 (put_word 49 0x0200 (put_word 47 1 b2)))))
     in put_word 61 (sectors div 2 ^ 16) (put_word 60 sectors (put_word 58 (chs div 2 ^ 16) (put_word 57 chs b3))))"

definition ide_do_identify :: "sf2_state \<Rightarrow> sf2_state" where
  "ide_do_identify f =
    put_drive f ((sf_active f)\<lparr>id_sector_buf := identify_block (sf_total_sectors f (sf_active_drive f)), id_buf_pos := 0,
      id_data_ready := True, id_status := kSrDrdy OR kSrDrq\<rparr>)"

subsection \<open>Sectors\<close>

definition sector_of :: "u8 list \<Rightarrow> nat \<Rightarrow> u8 list" where
  "sector_of p lba = take 512 (drop (lba * 512) p)"

definition put_sector :: "nat \<Rightarrow> u8 list \<Rightarrow> u8 list \<Rightarrow> u8 list" where
  "put_sector lba s p = take (lba * 512) p @ s @ drop (lba * 512 + 512) p"

text \<open>The checks \<open>ide_do_read\<close> and \<open>ide_do_write_commit\<close> begin with: the error register of a refused access.\<close>

definition ide_refusal :: "sf2_state \<Rightarrow> u8 option" where
  "ide_refusal f =
    (if \<not> sf_present f (sf_active_drive f) then Some 0x04
     else if ide_lba (sf_active f) \<ge> sf_total_sectors f (sf_active_drive f) then Some 0x10 else None)"

definition ide_refuse :: "sf2_state \<Rightarrow> u8 \<Rightarrow> sf2_state" where
  "ide_refuse f e = put_drive f ((sf_active f)\<lparr>id_status := kSrDrdy OR kSrErr, id_error := e\<rparr>)"

definition ide_do_read :: "sf2_state \<Rightarrow> sf2_state" where
  "ide_do_read f =
    (case ide_refusal f of
       Some e \<Rightarrow> ide_refuse f e
     | None \<Rightarrow>
         put_drive f ((sf_active f)\<lparr>id_sector_buf := sector_of (the (sf_img f (sf_active_drive f))) (ide_lba (sf_active f)),
           id_buf_pos := 0, id_data_ready := True, id_status := kSrDrdy OR kSrDrq\<rparr>))"

definition ide_do_write_commit :: "sf2_state \<Rightarrow> sf2_state" where
  "ide_do_write_commit f =
    (case ide_refusal f of
       Some e \<Rightarrow> ide_refuse f e
     | None \<Rightarrow>
         (let n = sf_active_drive f; d = sf_active f; lba = ide_lba d;
              g = f\<lparr>sf_img := (sf_img f)(n := Some (put_sector lba (id_sector_buf d) (the (sf_img f n)))), sf_dirty := True\<rparr>;
              e = d\<lparr>id_write_pending := False, id_sector_count := id_sector_count d - 1\<rparr>
          in put_drive g
            (if id_sector_count e > 0
             then (set_lba e (lba + 1))\<lparr>id_buf_pos := 0, id_write_pending := True, id_status := kSrDrdy OR kSrDrq\<rparr>
             else e\<lparr>id_status := kSrDrdy\<rparr>)))"

definition ide_execute :: "sf2_state \<Rightarrow> sf2_state" where
  "ide_execute f =
    (let d = sf_active f; cmd = id_command d in
     if cmd = kCmdIdentify then ide_do_identify f
     else if cmd = kCmdReadSectors then ide_do_read f
     else if cmd = kCmdWriteSectors then
       put_drive f (d\<lparr>id_buf_pos := 0, id_write_pending := True, id_data_ready := False, id_sector_buf := replicate 512 0,
         id_status := kSrDrdy OR kSrDrq\<rparr>)
     else if cmd = kCmdIdleImmediate \<or> cmd = kCmdInitParams then put_drive f (d\<lparr>id_status := kSrDrdy\<rparr>)
     else put_drive f (d\<lparr>id_status := kSrDrdy OR kSrErr, id_error := 0x04\<rparr>))"

text \<open>A byte from the data register; the last one of a sector chains to the next or ends the command.\<close>

definition ide_data_read :: "sf2_state \<Rightarrow> u8 \<times> sf2_state" where
  "ide_data_read f =
    (let d = sf_active f in
     if id_data_ready d \<and> id_buf_pos d < 512 then
       (let val = id_sector_buf d ! id_buf_pos d; e = d\<lparr>id_buf_pos := id_buf_pos d + 1\<rparr> in
        (val,
         if id_buf_pos e \<ge> 512 then
           (let e = e\<lparr>id_data_ready := False\<rparr> in
            if id_command e = kCmdReadSectors then
              (let e = e\<lparr>id_sector_count := id_sector_count e - 1\<rparr> in
               if id_sector_count e > 0 then ide_do_read (put_drive f (set_lba e (ide_lba e + 1)))
               else put_drive f (e\<lparr>id_status := kSrDrdy\<rparr>))
            else put_drive f (e\<lparr>id_status := kSrDrdy\<rparr>))
         else put_drive f e))
     else (0xFF, f))"

definition ide_read :: "sf2_state \<Rightarrow> u8 \<Rightarrow> u8 \<times> sf2_state" where
  "ide_read f reg =
    (let d = sf_active f; r = reg AND 0x07 in
     if \<not> sf_present f (sf_active_drive f) then (0xFF, f)
     else if r = 0 then ide_data_read f
     else (if r = 1 then id_error d else if r = 2 then id_sector_count d else if r = 3 then id_lba_low d
           else if r = 4 then id_lba_mid d else if r = 5 then id_lba_high d else if r = 6 then id_drive_head d
           else id_status d, f))"

definition ide_data_write :: "sf2_state \<Rightarrow> u8 \<Rightarrow> sf2_state" where
  "ide_data_write f val =
    (let d = sf_active f in
     if id_write_pending d \<and> id_buf_pos d < 512 then
       (let e = d\<lparr>id_sector_buf := (id_sector_buf d)[id_buf_pos d := val], id_buf_pos := id_buf_pos d + 1\<rparr>;
            g = put_drive f e
        in if id_buf_pos e \<ge> 512 then ide_do_write_commit g else g)
     else f)"

definition ide_write :: "sf2_state \<Rightarrow> u8 \<Rightarrow> u8 \<Rightarrow> sf2_state" where
  "ide_write f0 reg val =
    (let r = reg AND 0x07; f = (if r = 6 then f0\<lparr>sf_active_drive := unat (drop_bit 4 val AND 1)\<rparr> else f0); d = sf_active f in
     if \<not> sf_present f (sf_active_drive f) \<and> r \<noteq> 6 then f
     else if r = 0 then ide_data_write f val
     else if r = 1 then put_drive f (d\<lparr>id_features := val\<rparr>)
     else if r = 2 then put_drive f (d\<lparr>id_sector_count := val\<rparr>)
     else if r = 3 then put_drive f (d\<lparr>id_lba_low := val\<rparr>)
     else if r = 4 then put_drive f (d\<lparr>id_lba_mid := val\<rparr>)
     else if r = 5 then put_drive f (d\<lparr>id_lba_high := val\<rparr>)
     else if r = 6 then put_drive f (d\<lparr>id_drive_head := val\<rparr>)
     else ide_execute (put_drive f (d\<lparr>id_command := val, id_error := 0\<rparr>)))"

subsection \<open>Clock and mouse\<close>

definition rtc_read :: "sf2_state \<Rightarrow> u8" where
  "rtc_read f =
    (let reg = sf_rtc_index f in
     if reg < 10 then sf_rtc_time f (unat reg)
     else if reg = 10 then 0x26 else if reg = 11 then 0x02 else if reg = 12 then 0x00 else if reg = 13 then 0x80
     else if reg < 64 then sf_cmos f (unat reg - 14) else 0xFF)"

definition sf_push :: "sf2_state \<Rightarrow> u8 \<Rightarrow> sf2_state" where
  "sf_push f val =
    (let nxt = (sf_fifo_head f + 1) mod kFifoSize in
     if nxt = sf_fifo_tail f then f
     else f\<lparr>sf_fifo := (sf_fifo f)(sf_fifo_head f := val), sf_fifo_head := nxt\<rparr>)"

definition sf_pop :: "sf2_state \<Rightarrow> u8 \<times> sf2_state" where
  "sf_pop f =
    (if sf_fifo_head f = sf_fifo_tail f then (0, f)
     else (sf_fifo f (sf_fifo_tail f), f\<lparr>sf_fifo_tail := (sf_fifo_tail f + 1) mod kFifoSize\<rparr>))"

text \<open>One axis of a movement in packets of at most 31 or 32 counts.\<close>

definition axis_step :: "int \<Rightarrow> int" where
  "axis_step x = (if x > 31 then 31 else if x < -32 then -32 else x)"

function axis_packets :: "u8 \<Rightarrow> int \<Rightarrow> u8 list" where
  "axis_packets tag x =
    (if x = 0 then [] else (tag OR (word_of_int (axis_step x) AND 0x3F)) # axis_packets tag (x - axis_step x))"
  by pat_completeness auto
termination
  by (relation "measure (\<lambda>(_, x). nat \<bar>x\<bar>)") (auto simp: axis_step_def)

declare axis_packets.simps [simp del]

definition host_buttons :: "u8 \<Rightarrow> u8" where
  "host_buttons buttons =
    (if buttons AND 1 \<noteq> 0 then 0x01 else 0) OR (if buttons AND 4 \<noteq> 0 then 0x02 else 0) OR (if buttons AND 2 \<noteq> 0 then 0x04 else 0)"

definition sf_pushes :: "sf2_state \<Rightarrow> u8 list \<Rightarrow> sf2_state" where
  "sf_pushes f ps = fold (\<lambda>p f. sf_push f p) ps f"

definition sf2_mouse_feed :: "sf2_state \<Rightarrow> int \<Rightarrow> int \<Rightarrow> u8 \<Rightarrow> sf2_state" where
  "sf2_mouse_feed f dx dy buttons =
    (let g = sf_pushes (sf_pushes f (axis_packets 0x40 dx)) (axis_packets 0x80 (- dy)); btn = host_buttons buttons in
     if btn \<noteq> sf_last_buttons g then (sf_push g (0xC0 OR (btn AND 0x1F)))\<lparr>sf_last_buttons := btn\<rparr> else g)"

subsection \<open>The device\<close>

text \<open>The ports the board answers, by the low address byte.\<close>

definition sf_owned :: "u8 \<Rightarrow> bool" where
  "sf_owned lo \<longleftrightarrow> lo = 0x06 \<or> 0x08 \<le> lo \<and> lo \<le> 0x0F \<or> lo = 0x10 \<or> lo = 0x14 \<or> lo = 0x18"

definition owned_read :: "sf2_state \<Rightarrow> u8 \<Rightarrow> (u8 \<times> sf2_state) option" where
  "owned_read f lo =
    (if 0x08 \<le> lo \<and> lo \<le> 0x0F then Some (ide_read f (lo - 0x08))
     else if lo = 0x06 then Some (if sf_present f (sf_active_drive f) then id_status (sf_active f) else 0xFF, f)
     else if lo = 0x10 \<or> lo = 0x18 then Some (sf_pop f)
     else if lo = 0x14 then Some (rtc_read f, f)
     else None)"

definition ide_reset :: "bool \<Rightarrow> ide_drive \<Rightarrow> ide_drive" where
  "ide_reset attached d = d\<lparr>id_status := (if attached then kSrDrdy else 0), id_error := 0, id_buf_pos := 0,
     id_data_ready := False, id_write_pending := False\<rparr>"

definition sf2_board_reset :: "sf2_state \<Rightarrow> sf2_state" where
  "sf2_board_reset f = f\<lparr>sf_ide := (\<lambda>n. if n < 2 then ide_reset (sf_present f n) (sf_ide f n) else sf_ide f n),
     sf_active_drive := 0, sf_rtc_index := 0, sf_fifo_head := 0, sf_fifo_tail := 0, sf_last_buttons := 0\<rparr>"

definition sf_write :: "sf2_state \<Rightarrow> u8 \<Rightarrow> u8 \<Rightarrow> sf2_state" where
  "sf_write f lo val =
    (if 0x08 \<le> lo \<and> lo \<le> 0x0F then ide_write f (lo - 0x08) val
     else if lo = 0x06 \<and> val AND 0x04 \<noteq> 0 then sf2_board_reset f
     else if lo = 0x14 \<and> sf_rtc_index f \<ge> 14 \<and> sf_rtc_index f < 64
     then f\<lparr>sf_cmos := (sf_cmos f)(unat (sf_rtc_index f) - 14 := val)\<rparr>
     else if lo = 0x15 then f\<lparr>sf_rtc_index := val AND 0x3F\<rparr>
     else f)"

definition sf_sel :: "Bus \<Rightarrow> bool" where
  "sf_sel i \<longleftrightarrow> cpu_iorq (b_cpu i) \<and> \<not> cpu_m1 (b_cpu i) \<and> cpu_addr (b_cpu i) AND 0xFF00 = 0xFD00"

definition sf_access :: "Bus \<Rightarrow> bool" where
  "sf_access i \<longleftrightarrow> sf_sel i \<and> (cpu_rd (b_cpu i) \<or> cpu_wr (b_cpu i))"

definition sf_lo :: "Bus \<Rightarrow> u8" where
  "sf_lo i = ucast (cpu_addr (b_cpu i) AND 0xFF)"

definition sf2_next :: "sf2_state \<Rightarrow> Bus \<Rightarrow> sf2_state" where
  "sf2_next f i =
    (if \<not> sf_plugged f then f
     else
       (let edge = (sf_access i \<and> \<not> sf_access_prev f); g = f\<lparr>sf_access_prev := sf_access i\<rparr> in
        if \<not> edge then g
        else if cpu_rd (b_cpu i) then
          (case owned_read g (sf_lo i) of Some (v, h) \<Rightarrow> h\<lparr>sf_out_latch := v\<rparr> | None \<Rightarrow> g)
        else sf_write g (sf_lo i) (cpu_data (b_cpu i))))"

definition sf2_drives :: "sf2_state \<Rightarrow> Bus \<Rightarrow> asg list" where
  "sf2_drives f i =
    (if sf_plugged f \<and> sf_sel i \<and> cpu_rd (b_cpu i) \<and> sf_owned (sf_lo i) then [Dr_data (sf_out_latch (sf2_next f i))] else [])"

definition sf2_tick :: "sf2_state \<Rightarrow> Bus \<Rightarrow> Bus \<Rightarrow> sf2_state \<times> Bus" where
  "sf2_tick f i out = (sf2_next f i, drive (sf2_drives f i) out)"

definition sf2_dev_reset :: "sf2_state \<Rightarrow> sf2_state" where
  "sf2_dev_reset f = sf2_board_reset f"

text \<open>The blob is the prefix of the record up to the attached images.\<close>

definition sf2_save :: "sf2_state \<Rightarrow> u8 \<times> sf2_state" where
  "sf2_save f = (1, f\<lparr>sf_img := (\<lambda>_. None), sf_total_sectors := (\<lambda>_. 0)\<rparr>)"

definition sf2_load :: "sf2_state \<Rightarrow> u8 \<times> sf2_state \<Rightarrow> sf2_state" where
  "sf2_load f b = (if fst b = 1 then (snd b)\<lparr>sf_img := sf_img f, sf_total_sectors := sf_total_sectors f\<rparr> else f)"

subsection \<open>The host interface\<close>

definition sf2_ide_attach :: "sf2_state \<Rightarrow> bool \<Rightarrow> u8 list option \<Rightarrow> sf2_state" where
  "sf2_ide_attach f second img =
    (let n = (if second then 1 else 0 :: nat); len = (case img of None \<Rightarrow> 0 | Some p \<Rightarrow> length p) in
     f\<lparr>sf_img := (sf_img f)(n := img), sf_total_sectors := (sf_total_sectors f)(n := len div 512 mod 2 ^ 32),
       sf_ide := (sf_ide f)(n := (sf_ide f n)\<lparr>id_status := kSrDrdy, id_error := 0\<rparr>)\<rparr>)"

definition sf2_ide_detach :: "sf2_state \<Rightarrow> bool \<Rightarrow> sf2_state" where
  "sf2_ide_detach f second =
    (let n = (if second then 1 else 0 :: nat) in
     f\<lparr>sf_img := (sf_img f)(n := None), sf_total_sectors := (sf_total_sectors f)(n := 0),
       sf_ide := (sf_ide f)(n := (sf_ide f n)\<lparr>id_status := 0\<rparr>)\<rparr>)"

definition sf2_media_dirty :: "sf2_state \<Rightarrow> bool" where
  "sf2_media_dirty f = sf_dirty f"

definition sf2_media_mark_clean :: "sf2_state \<Rightarrow> sf2_state" where
  "sf2_media_mark_clean f = f\<lparr>sf_dirty := False\<rparr>"

definition sf2_rtc_set_time :: "sf2_state \<Rightarrow> (nat \<Rightarrow> u8) \<Rightarrow> sf2_state" where
  "sf2_rtc_set_time f regs10 = f\<lparr>sf_rtc_time := (\<lambda>i. if i < 10 then regs10 i else sf_rtc_time f i)\<rparr>"

definition sf2_mouse_push_packet :: "sf2_state \<Rightarrow> u8 \<Rightarrow> sf2_state" where
  "sf2_mouse_push_packet f pkt = sf_push f pkt"

definition sf2_set_plugged :: "sf2_state \<Rightarrow> bool \<Rightarrow> sf2_state" where
  "sf2_set_plugged f on = f\<lparr>sf_plugged := on\<rparr>"

record Sf2Regs =
  sr_plugged :: bool
  sr_active_drive :: nat
  sr_ide_status :: u8
  sr_rtc_index :: u8
  sr_fifo_used :: nat

definition sf2_peek :: "sf2_state \<Rightarrow> Sf2Regs" where
  "sf2_peek f = \<lparr> sr_plugged = sf_plugged f, sr_active_drive = sf_active_drive f, sr_ide_status = id_status (sf_active f),
     sr_rtc_index = sf_rtc_index f, sr_fifo_used = (sf_fifo_head f + kFifoSize - sf_fifo_tail f) mod kFifoSize \<rparr>"

subsection \<open>Interfaces provided\<close>

interpretation sf2_drv: bus_driver sf2_tick sf2_next sf2_drives
  by unfold_locales (simp add: sf2_tick_def)

interpretation sf2_blob: state_blob sf2_save sf2_load "\<lambda>f. snd (sf2_save f)" "\<lambda>f. (sf_img f, sf_total_sectors f)"
  by unfold_locales (simp_all add: sf2_save_def sf2_load_def)

text \<open>A port access acts once, on its first cycle, however long the strobes are held.\<close>

lemma put_drive_wiring [simp]:
  "sf_plugged (put_drive f d) = sf_plugged f" "sf_access_prev (put_drive f d) = sf_access_prev f"
  by (simp_all add: put_drive_def)

lemma ide_do_read_wiring [simp]:
  "sf_plugged (ide_do_read f) = sf_plugged f" "sf_access_prev (ide_do_read f) = sf_access_prev f"
  by (simp_all add: ide_do_read_def ide_refuse_def split: option.split)

lemma ide_commit_wiring [simp]:
  "sf_plugged (ide_do_write_commit f) = sf_plugged f" "sf_access_prev (ide_do_write_commit f) = sf_access_prev f"
  by (simp_all add: ide_do_write_commit_def ide_refuse_def Let_def split: option.split)

lemma ide_execute_wiring [simp]:
  "sf_plugged (ide_execute f) = sf_plugged f" "sf_access_prev (ide_execute f) = sf_access_prev f"
  by (simp_all add: ide_execute_def ide_do_identify_def Let_def)

lemma ide_read_wiring [simp]:
  "sf_plugged (snd (ide_read f r)) = sf_plugged f" "sf_access_prev (snd (ide_read f r)) = sf_access_prev f"
  by (simp_all add: ide_read_def ide_data_read_def Let_def)

lemma ide_read_wiring_eq:
  "ide_read f r = (v, g) \<Longrightarrow> sf_plugged g = sf_plugged f \<and> sf_access_prev g = sf_access_prev f"
  by (metis ide_read_wiring snd_conv)

lemma ide_write_wiring [simp]:
  "sf_plugged (ide_write f r v) = sf_plugged f" "sf_access_prev (ide_write f r v) = sf_access_prev f"
  by (simp_all add: ide_write_def ide_data_write_def Let_def)

lemma owned_read_wiring:
  "owned_read f lo = Some (v, g) \<Longrightarrow> sf_plugged g = sf_plugged f \<and> sf_access_prev g = sf_access_prev f"
  by (auto simp: owned_read_def sf_pop_def split: if_split_asm dest!: ide_read_wiring_eq)

lemma sf_write_wiring [simp]:
  "sf_plugged (sf_write f lo v) = sf_plugged f" "sf_access_prev (sf_write f lo v) = sf_access_prev f"
  by (simp_all add: sf_write_def sf2_board_reset_def)

interpretation sf2_edge: edge_access sf2_next "\<lambda>f i. sf_plugged f \<and> sf_access i" "\<lambda>f. sf_plugged f \<and> sf_access_prev f"
  "\<lambda>f. f\<lparr>sf_access_prev := False\<rparr>"
  by unfold_locales
    (auto simp: sf2_next_def Let_def split: option.split prod.split dest!: owned_read_wiring)

text \<open>The FIFO holds at most 63 packets and loses the newest.\<close>

definition sf_used :: "sf2_state \<Rightarrow> nat" where
  "sf_used f = (sf_fifo_head f + 64 - sf_fifo_tail f) mod 64"

definition sf_packets :: "sf2_state \<Rightarrow> u8 list" where
  "sf_packets f = ring_list (sf_fifo f) (sf_fifo_tail f) (sf_used f)"

definition sf_fifo_ok :: "sf2_state \<Rightarrow> bool" where
  "sf_fifo_ok f \<longleftrightarrow> sf_fifo_head f < 64 \<and> sf_fifo_tail f < 64"

lemma length_sf_packets [simp]: "length (sf_packets f) = sf_used f"
  by (simp add: sf_packets_def)

lemma sf_used_less: "sf_used f < 64"
  by (simp add: sf_used_def)

lemma sf_head_used:
  assumes "sf_fifo_ok f"
  shows "sf_fifo_head f = (sf_fifo_tail f + sf_used f) mod 64"
proof -
  have t: "sf_fifo_tail f \<le> sf_fifo_head f + 64" using assms by (simp add: sf_fifo_ok_def)
  have "(sf_fifo_tail f + sf_used f) mod 64 = (sf_fifo_tail f + (sf_fifo_head f + 64 - sf_fifo_tail f)) mod 64"
    by (simp add: sf_used_def mod_add_right_eq)
  also have "\<dots> = sf_fifo_head f" using t assms by (simp add: sf_fifo_ok_def)
  finally show ?thesis ..
qed

lemma sf_used_eq:
  assumes "sf_fifo_ok f" "sf_fifo_head f = (sf_fifo_tail f + n) mod 64" "n < 64"
  shows "sf_used f = n"
  using ring_cell_eq [OF sf_used_less [of f] assms(3), of "sf_fifo_tail f"] assms(2) sf_head_used [OF assms(1)] by simp

lemma sf_push_packets:
  assumes "sf_fifo_ok f"
  shows "sf_packets (sf_push f v) = (if sf_used f < 63 then sf_packets f @ [v] else sf_packets f)"
proof -
  let ?u = "sf_used f" and ?t = "sf_fifo_tail f"
  have h: "sf_fifo_head f = (?t + ?u) mod 64" by (rule sf_head_used) (rule assms)
  then have n: "(sf_fifo_head f + 1) mod 64 = (?t + Suc ?u) mod 64" by (simp add: mod_Suc_eq)
  have full: "(sf_fifo_head f + 1) mod 64 = ?t \<longleftrightarrow> ?u = 63"
  proof (cases "?u = 63")
    case True
    then show ?thesis using n assms by (simp add: sf_fifo_ok_def)
  next
    case False
    then have "Suc ?u < 64" using sf_used_less [of f] by simp
    then show ?thesis using ring_cell_eq [of "Suc ?u" 0 ?t] n False assms by (simp add: sf_fifo_ok_def)
  qed
  show ?thesis
  proof (cases "?u = 63")
    case True
    then show ?thesis using full by (simp add: sf_push_def kFifoSize_def Let_def)
  next
    case False
    then have u: "?u < 63" using sf_used_less [of f] by simp
    define g where "g = f\<lparr>sf_fifo := (sf_fifo f)(sf_fifo_head f := v), sf_fifo_head := (sf_fifo_head f + 1) mod 64\<rparr>"
    have "sf_fifo_ok g" using assms by (simp add: g_def sf_fifo_ok_def)
    then have "sf_used g = Suc ?u" by (rule sf_used_eq) (use n u in \<open>simp_all add: g_def\<close>)
    then have "sf_packets g = sf_packets f @ [v]"
      using ring_list_store [of ?u "sf_fifo f" ?t v] u by (simp add: sf_packets_def g_def h)
    moreover have "sf_push f v = g" using full False by (simp add: sf_push_def kFifoSize_def Let_def g_def)
    ultimately show ?thesis using u by simp
  qed
qed

lemma sf_push_ok: "sf_fifo_ok f \<Longrightarrow> sf_fifo_ok (sf_push f v)"
  by (simp add: sf_fifo_ok_def sf_push_def kFifoSize_def Let_def)

lemma sf_empty:
  assumes "sf_fifo_ok f"
  shows "sf_fifo_head f = sf_fifo_tail f \<longleftrightarrow> sf_used f = 0"
  using ring_cell_eq [of "sf_used f" 0 "sf_fifo_tail f"] sf_head_used [OF assms] sf_used_less [of f] assms
  by (simp add: sf_fifo_ok_def)

interpretation sf2_mouse: bounded_fifo sf_push sf_pop sf_packets 63 0 sf_fifo_ok
proof unfold_locales
  fix f :: sf2_state and v vs
  assume ok: "sf_fifo_ok f"
  show "sf_packets (sf_push f v) = (if length (sf_packets f) < 63 then sf_packets f @ [v] else sf_packets f)"
    using sf_push_packets [OF ok] by simp
  show "sf_pop f = (0, f)" if "sf_packets f = []"
  proof -
    have "sf_used f = 0" using that length_sf_packets [of f] by (simp del: length_sf_packets)
    then show ?thesis using sf_empty [OF ok] by (simp add: sf_pop_def)
  qed
  show "fst (sf_pop f) = v \<and> sf_packets (snd (sf_pop f)) = vs" if p: "sf_packets f = v # vs"
  proof -
    have u: "0 < sf_used f" using p length_sf_packets [of f] by (simp del: length_sf_packets)
    define g where "g = f\<lparr>sf_fifo_tail := (sf_fifo_tail f + 1) mod 64\<rparr>"
    have pop: "sf_pop f = (sf_fifo f (sf_fifo_tail f), g)" using u sf_empty [OF ok] by (simp add: sf_pop_def kFifoSize_def g_def)
    have "sf_fifo_ok g" using ok by (simp add: g_def sf_fifo_ok_def)
    moreover have "sf_fifo_head g = (sf_fifo_tail g + (sf_used f - 1)) mod 64"
    proof -
      obtain m where m: "sf_used f = Suc m" using u by (cases "sf_used f") auto
      show ?thesis using sf_head_used [OF ok] by (simp add: g_def m mod_add_left_eq)
    qed
    ultimately have "sf_used g = sf_used f - 1" by (rule sf_used_eq) (use sf_used_less [of f] in simp)
    then have "sf_packets f = sf_fifo f (sf_fifo_tail f) # sf_packets g"
      using ring_list_oldest [OF u, of "sf_fifo f" "sf_fifo_tail f"] ok by (simp add: sf_packets_def g_def sf_fifo_ok_def)
    then show ?thesis using p pop by simp
  qed
  show "sf_fifo_ok (sf_push f v)" using ok by (rule sf_push_ok)
  show "sf_fifo_ok (snd (sf_pop f))" using ok by (simp add: sf_pop_def sf_fifo_ok_def kFifoSize_def)
  show "length (sf_packets f) \<le> 63" using sf_used_less [of f] by simp
qed

end
