(* ===== verification/Symbiface_Io.thy ===== *)
theory Symbiface_Io
  imports Symbiface
begin

text \<open>
  What the Symbiface board does for its driver: whole sector transfers through the data register, and the
  mouse's packet stream.
\<close>

lemma put_drive_sel [simp]:
  "sf_active (put_drive f d) = d" "put_drive (put_drive f d) e = put_drive f e"
  "sf_active_drive (put_drive f d) = sf_active_drive f" "sf_img (put_drive f d) = sf_img f"
  "sf_total_sectors (put_drive f d) = sf_total_sectors f" "sf_present (put_drive f d) = sf_present f"
  by (simp_all add: put_drive_def sf_active_def sf_present_def fun_eq_iff)

lemma put_drive_id [simp]: "put_drive f (sf_active f) = f"
  by (simp add: put_drive_def sf_active_def)

subsection \<open>Addresses and counts\<close>

lemma nat_bytes4: "(n :: nat) = n div 2 ^ 24 * 2 ^ 24 + n div 2 ^ 16 mod 256 * 2 ^ 16 + n div 2 ^ 8 mod 256 * 2 ^ 8 + n mod 256"
proof -
  define a b c where "a = n div 256" and "b = a div 256" and "c = b div 256"
  have e: "n div 2 ^ 24 = c" "n div 2 ^ 16 = b" "n div 2 ^ 8 = a" by (simp_all add: a_def b_def c_def div_mult2_eq [symmetric])
  have "n = a * 256 + n mod 256" "a = b * 256 + a mod 256" "b = c * 256 + b mod 256" by (simp_all add: a_def b_def c_def)
  then have "n = c * 16777216 + b mod 256 * 65536 + a mod 256 * 256 + n mod 256" by linarith
  then show ?thesis unfolding e by simp
qed

lemma unat_of_byte: "unat (of_nat (n mod 256) :: u8) = n mod 256"
  by (simp add: unsigned_of_nat take_bit_nat_eq_self)

lemma head_low_nibble: "((h AND 0xF0) OR (of_nat (n mod 16) :: u8)) AND 0x0F = of_nat (n mod 16)"
proof -
  have "(of_nat (n mod 16) :: u8) AND 0x0F = of_nat (n mod 16)"
    by (simp add: mask_simps word_unat_eq_iff unat_take_bit unsigned_of_nat take_bit_nat_eq_self)
  moreover have "(h AND 0xF0) AND 0x0F = 0"
  proof -
    have "(0xF0 :: u8) AND 0x0F = 0" by simp
    then show ?thesis by (metis and.assoc and_zero_eq)
  qed
  ultimately show ?thesis by (simp only: bit.conj_disj_distrib2 or.left_neutral)
qed

lemma unat_of_nibble: "unat (of_nat (n mod 16) :: u8) = n mod 16"
  by (rule trans [OF unsigned_of_nat]) (simp add: take_bit_nat_eq_self order.strict_trans [OF mod_less_divisor])

lemma set_lba_lba: "n < 2 ^ 28 \<Longrightarrow> ide_lba (set_lba d n) = n"
proof -
  assume n: "n < 2 ^ 28"
  have b: "unat (id_lba_low (set_lba d n)) = n mod 256" "unat (id_lba_mid (set_lba d n)) = n div 2 ^ 8 mod 256"
    "unat (id_lba_high (set_lba d n)) = n div 2 ^ 16 mod 256" "unat (id_drive_head (set_lba d n) AND 0x0F) = n div 2 ^ 24 mod 16"
    by (simp_all add: set_lba_def unat_of_byte head_low_nibble unat_of_nibble)
  moreover have "n div 2 ^ 24 mod 16 = n div 2 ^ 24" using n by (simp add: div_less_iff_less_mult)
  ultimately show ?thesis using nat_bytes4 [of n] by (simp only: ide_lba_def b)
qed

text \<open>The sectors a count register stands for: zero means 256.\<close>

definition count_of :: "u8 \<Rightarrow> nat" where
  "count_of n = unat (n - 1) + 1"

lemma count_pos: "0 < count_of n"
  by (simp add: count_of_def)

lemma count_dec:
  assumes "count_of n = Suc c"
  shows "0 < n - 1 \<longleftrightarrow> 0 < c" "0 < c \<Longrightarrow> count_of (n - 1) = c"
proof -
  have u: "unat (n - 1) = c" using assms by (simp add: count_of_def)
  then show g: "0 < n - 1 \<longleftrightarrow> 0 < c" by (metis unat_eq_zero word_gt_0 neq0_conv)
  show "count_of (n - 1) = c" if "0 < c"
  proof -
    have "n - 1 \<noteq> 0" using g that by auto
    then have "unat (n - 1 - 1) = unat (n - 1) - 1" by (rule unat_minus_one)
    then show ?thesis using u that by (simp add: count_of_def)
  qed
qed

subsection \<open>Reading\<close>

primrec ide_reads :: "nat \<Rightarrow> sf2_state \<Rightarrow> u8 list \<times> sf2_state" where
  "ide_reads 0 f = ([], f)"
| "ide_reads (Suc n) f = (case ide_read f 0 of (v, g) \<Rightarrow> (case ide_reads n g of (vs, h) \<Rightarrow> (v # vs, h)))"

lemma ide_reads_add:
  "ide_reads (m + n) f = (case ide_reads m f of (vs, g) \<Rightarrow> (case ide_reads n g of (ws, h) \<Rightarrow> (vs @ ws, h)))"
  by (induction m arbitrary: f) (simp_all add: case_prod_unfold)

definition at_byte :: "sf2_state \<Rightarrow> nat \<Rightarrow> sf2_state" where
  "at_byte f j = put_drive f ((sf_active f)\<lparr>id_buf_pos := j\<rparr>)"

lemma at_byte_sel [simp]:
  "sf_active (at_byte f j) = (sf_active f)\<lparr>id_buf_pos := j\<rparr>" "at_byte (at_byte f i) j = at_byte f j"
  "sf_present (at_byte f j) = sf_present f" "sf_active_drive (at_byte f j) = sf_active_drive f"
  by (simp_all add: at_byte_def)

lemma read_within:
  assumes "sf_present f (sf_active_drive f)" "id_data_ready (sf_active f)" "length (id_sector_buf (sf_active f)) = 512" "j + n < 512"
  shows "ide_reads n (at_byte f j) = (take n (drop j (id_sector_buf (sf_active f))), at_byte f (j + n))"
  using assms(4)
proof (induction n arbitrary: j)
  case (Suc n)
  have "ide_read (at_byte f j) 0 = (id_sector_buf (sf_active f) ! j, at_byte f (Suc j))"
    using assms(1-3) Suc.prems by (simp add: ide_read_def ide_data_read_def Let_def) (simp add: at_byte_def)
  then show ?case
    using Suc.IH [of "Suc j"] Suc.prems assms(3) by (simp add: take_Suc_conv_app_nth [symmetric] Cons_nth_drop_Suc [symmetric])
qed simp

text \<open>The end of a sector: the next one, or the end of the command.\<close>

definition sector_end :: "sf2_state \<Rightarrow> sf2_state" where
  "sector_end f =
    (let e = (sf_active f)\<lparr>id_buf_pos := 512, id_data_ready := False\<rparr> in
     if id_command e = kCmdReadSectors then
       (let e = e\<lparr>id_sector_count := id_sector_count e - 1\<rparr> in
        if id_sector_count e > 0 then ide_do_read (put_drive f (set_lba e (ide_lba e + 1)))
        else put_drive f (e\<lparr>id_status := kSrDrdy\<rparr>))
     else put_drive f (e\<lparr>id_status := kSrDrdy\<rparr>))"

lemma read_sector:
  assumes "sf_present f (sf_active_drive f)" "id_data_ready (sf_active f)" "length (id_sector_buf (sf_active f)) = 512"
    "id_buf_pos (sf_active f) = 0"
  shows "ide_reads 512 f = (id_sector_buf (sf_active f), sector_end f)"
proof -
  let ?b = "id_sector_buf (sf_active f)"
  have "(sf_active f)\<lparr>id_buf_pos := 0\<rparr> = sf_active f" using assms(4) by (cases "sf_active f") simp
  then have f: "at_byte f 0 = f" by (simp add: at_byte_def)
  have "ide_reads 511 f = (take 511 ?b, at_byte f 511)"
    using read_within [OF assms(1-3), of 0 511] by (simp add: f)
  moreover have "ide_read (at_byte f 511) 0 = (?b ! 511, sector_end f)"
    using assms(1,2) by (simp add: ide_read_def ide_data_read_def Let_def sector_end_def) (simp add: at_byte_def)
  then have "ide_reads 1 (at_byte f 511) = ([?b ! 511], sector_end f)" by simp
  moreover have "take 511 ?b @ [?b ! 511] = ?b"
    using assms(3) take_Suc_conv_app_nth [of 511 ?b] by simp
  ultimately show ?thesis using ide_reads_add [of 511 1 f] by simp
qed

text \<open>\<open>reading f p L c\<close>: sector \<open>L\<close> of the image \<open>p\<close> waits in the buffer and \<open>c\<close> sectors, this one included,
  are still to come.\<close>

definition reading :: "sf2_state \<Rightarrow> u8 list \<Rightarrow> nat \<Rightarrow> nat \<Rightarrow> bool" where
  "reading f p L c \<longleftrightarrow> (let n = sf_active_drive f; d = sf_active f in
    sf_img f n = Some p \<and> sf_total_sectors f n * 512 \<le> length p \<and> L + c \<le> sf_total_sectors f n \<and> L + c \<le> 2 ^ 28 \<and>
    ide_lba d = L \<and> count_of (id_sector_count d) = c \<and> id_command d = kCmdReadSectors \<and>
    id_data_ready d \<and> id_buf_pos d = 0 \<and> id_sector_buf d = sector_of p L)"

lemma length_sector_of: "(Suc L) * 512 \<le> length p \<Longrightarrow> length (sector_of p L) = 512"
  by (simp add: sector_of_def)

lemma lba_frame:
  "id_drive_head e = id_drive_head d \<Longrightarrow> id_lba_high e = id_lba_high d \<Longrightarrow> id_lba_mid e = id_lba_mid d \<Longrightarrow>
   id_lba_low e = id_lba_low d \<Longrightarrow> ide_lba e = ide_lba d"
  by (simp add: ide_lba_def)

lemma set_lba_sel [simp]:
  "id_command (set_lba d n) = id_command d" "id_sector_count (set_lba d n) = id_sector_count d"
  "id_error (set_lba d n) = id_error d" "id_data_ready (set_lba d n) = id_data_ready d"
  "id_write_pending (set_lba d n) = id_write_pending d" "id_sector_buf (set_lba d n) = id_sector_buf d"
  by (simp_all add: set_lba_def)

lemma reading_step:
  assumes "reading f p L (Suc c)"
  shows "if c = 0 then id_status (sf_active (sector_end f)) = kSrDrdy else reading (sector_end f) p (L + 1) c"
    and "sf_img (sector_end f) = sf_img f \<and> sf_active_drive (sector_end f) = sf_active_drive f"
proof -
  define e where "e = (sf_active f)\<lparr>id_buf_pos := 512, id_data_ready := False, id_sector_count := id_sector_count (sf_active f) - 1\<rparr>"
  have r: "sf_img f (sf_active_drive f) = Some p" "sf_total_sectors f (sf_active_drive f) * 512 \<le> length p"
    "L + Suc c \<le> sf_total_sectors f (sf_active_drive f)" "L + Suc c \<le> 2 ^ 28" "ide_lba (sf_active f) = L"
    "count_of (id_sector_count (sf_active f)) = Suc c" "id_command (sf_active f) = kCmdReadSectors"
    using assms by (simp_all add: reading_def Let_def)
  have l: "ide_lba e = L" using r(5) lba_frame [of e "sf_active f"] by (simp add: e_def)
  have se: "sector_end f = (if id_sector_count e > 0 then ide_do_read (put_drive f (set_lba e (L + 1)))
      else put_drive f (e\<lparr>id_status := kSrDrdy\<rparr>))"
    unfolding sector_end_def Let_def using r(7) l by (simp add: e_def)
  have z: "0 < id_sector_count e \<longleftrightarrow> 0 < c" using count_dec(1) [OF r(6)] by (simp add: e_def)
  have rd: "ide_do_read (put_drive f (set_lba e (L + 1))) =
      put_drive f ((set_lba e (L + 1))\<lparr>id_sector_buf := sector_of p (L + 1), id_buf_pos := 0, id_data_ready := True,
        id_status := kSrDrdy OR kSrDrq\<rparr>)" (is "_ = put_drive f ?d") if "0 < c"
    using that r(1,3,4) by (simp add: ide_do_read_def ide_refusal_def sf_present_def set_lba_lba)
  have "ide_lba ?d = L + 1" if "0 < c"
    using that r(4) set_lba_lba [of "L + 1" e] lba_frame [of ?d "set_lba e (L + 1)"] by simp
  then show "if c = 0 then id_status (sf_active (sector_end f)) = kSrDrdy else reading (sector_end f) p (L + 1) c"
    using z r rd count_dec(2) [OF r(6)] unfolding se by (simp add: reading_def Let_def e_def)
  show "sf_img (sector_end f) = sf_img f \<and> sf_active_drive (sector_end f) = sf_active_drive f"
    using z rd unfolding se by simp
qed

lemma reading_all:
  assumes "reading f p L c" "0 < c"
  shows "\<exists>g. ide_reads (512 * c) f = (take (512 * c) (drop (512 * L) p), g) \<and> id_status (sf_active g) = kSrDrdy \<and>
    sf_img g = sf_img f \<and> sf_active_drive g = sf_active_drive f"
  using assms
proof (induction c arbitrary: f L)
  case (Suc c)
  have r: "sf_present f (sf_active_drive f)" "id_data_ready (sf_active f)" "id_buf_pos (sf_active f) = 0"
    "id_sector_buf (sf_active f) = sector_of p L" "Suc L * 512 \<le> length p"
    using Suc.prems(1) by (auto simp: reading_def Let_def sf_present_def)
  have s: "ide_reads 512 f = (sector_of p L, sector_end f)"
    using read_sector [OF r(1,2) _ r(3)] length_sector_of [OF r(5)] by (simp add: r(4))
  have sec: "sector_of p L = take 512 (drop (512 * L) p)" by (simp add: sector_of_def ac_simps)
  note st = reading_step [OF Suc.prems(1)]
  show ?case
  proof (cases "c = 0")
    case True
    then show ?thesis using s st by (intro exI [of _ "sector_end f"]) (simp add: sec)
  next
    case False
    then obtain g where g: "ide_reads (512 * c) (sector_end f) = (take (512 * c) (drop (512 * (L + 1)) p), g)"
      "id_status (sf_active g) = kSrDrdy" "sf_img g = sf_img (sector_end f)" "sf_active_drive g = sf_active_drive (sector_end f)"
      using Suc.IH [of "sector_end f" "L + 1"] st(1) by auto
    have "take (512 * Suc c) (drop (512 * L) p) = take 512 (drop (512 * L) p) @ take (512 * c) (drop (512 * (L + 1)) p)"
      by (simp add: take_add ac_simps)
    then show ?thesis
      using s g st(2) ide_reads_add [of 512 "512 * c" f] by (intro exI [of _ g]) (simp add: sec)
  qed
qed simp

subsection \<open>Writing\<close>

definition ide_writes :: "u8 list \<Rightarrow> sf2_state \<Rightarrow> sf2_state" where
  "ide_writes vs f = fold (\<lambda>v f. ide_write f 0 v) vs f"

lemma ide_writes_simps [simp]:
  "ide_writes [] f = f" "ide_writes (v # vs) f = ide_writes vs (ide_write f 0 v)"
  "ide_writes (vs @ ws) f = ide_writes ws (ide_writes vs f)"
  by (simp_all add: ide_writes_def)

definition filled :: "sf2_state \<Rightarrow> u8 list \<Rightarrow> nat \<Rightarrow> sf2_state" where
  "filled f b j = put_drive f ((sf_active f)\<lparr>id_sector_buf := b, id_buf_pos := j\<rparr>)"

lemma filled_sel [simp]:
  "sf_active (filled f b j) = (sf_active f)\<lparr>id_sector_buf := b, id_buf_pos := j\<rparr>" "filled (filled f b j) b' j' = filled f b' j'"
  "sf_present (filled f b j) = sf_present f" "sf_active_drive (filled f b j) = sf_active_drive f" "sf_img (filled f b j) = sf_img f"
  "sf_total_sectors (filled f b j) = sf_total_sectors f" "put_drive (filled f b j) d = put_drive f d"
  by (simp_all add: filled_def)

lemma write_within:
  assumes "sf_present f (sf_active_drive f)" "id_write_pending (sf_active f)" "length b = 512" "j + length vs < 512"
  shows "ide_writes vs (filled f b j) = filled f (take j b @ vs @ drop (j + length vs) b) (j + length vs)"
  using assms(3,4)
proof (induction vs arbitrary: b j)
  case (Cons v vs)
  have "ide_write (filled f b j) 0 v = filled f (b[j := v]) (Suc j)"
    using assms(1,2) Cons.prems by (simp add: ide_write_def ide_data_write_def Let_def) (simp add: filled_def)
  moreover have "take (Suc j) (b[j := v]) = take j b @ [v]"
    using Cons.prems by (simp add: take_Suc_conv_app_nth)
  ultimately show ?case using Cons.IH [of "b[j := v]" "Suc j"] Cons.prems by simp
qed simp

lemma write_sector:
  assumes "sf_present f (sf_active_drive f)" "id_write_pending (sf_active f)" "length (id_sector_buf (sf_active f)) = 512"
    "id_buf_pos (sf_active f) = 0" "length vs = 512"
  shows "ide_writes vs f = ide_do_write_commit (filled f vs 512)"
proof -
  obtain ws w where v: "vs = ws @ [w]" "length ws = 511" using assms(5) by (cases vs rule: rev_cases) auto
  define b where "b = id_sector_buf (sf_active f)"
  have b: "length b = 512" using assms(3) by (simp add: b_def)
  have "(sf_active f)\<lparr>id_sector_buf := b, id_buf_pos := 0\<rparr> = sf_active f" using assms(4) by (cases "sf_active f") (simp add: b_def)
  then have "f = filled f b 0" by (simp add: filled_def)
  then have "ide_writes ws f = filled f (ws @ drop 511 b) 511"
    using write_within [OF assms(1,2) b, of 0 ws] v(2) by simp
  moreover have "(ws @ drop 511 b)[511 := w] = vs"
  proof -
    have "length (drop 511 b) = 1" using b by simp
    then obtain x where "drop 511 b = [x]" by (cases "drop 511 b") auto
    then show ?thesis using v by (simp add: list_update_append)
  qed
  ultimately show ?thesis
    using assms(1,2) v(1) by (simp add: ide_write_def ide_data_write_def Let_def) (simp add: filled_def)
qed

text \<open>\<open>writing f p L c\<close>: the board waits for the first byte of sector \<open>L\<close> of the image \<open>p\<close>, and \<open>c\<close> sectors
  are still to come.\<close>

definition writing :: "sf2_state \<Rightarrow> u8 list \<Rightarrow> nat \<Rightarrow> nat \<Rightarrow> bool" where
  "writing f p L c \<longleftrightarrow> (let n = sf_active_drive f; d = sf_active f in
    sf_img f n = Some p \<and> sf_total_sectors f n * 512 \<le> length p \<and> L + c \<le> sf_total_sectors f n \<and> L + c \<le> 2 ^ 28 \<and>
    ide_lba d = L \<and> count_of (id_sector_count d) = c \<and> id_write_pending d \<and> id_buf_pos d = 0 \<and>
    length (id_sector_buf d) = 512)"

definition wiring_but :: "sf2_state \<Rightarrow> sf2_state \<Rightarrow> bool" where
  "wiring_but f g \<longleftrightarrow> sf_active_drive g = sf_active_drive f \<and> sf_total_sectors g = sf_total_sectors f \<and>
    (\<forall>m. m \<noteq> sf_active_drive f \<longrightarrow> sf_img g m = sf_img f m)"

lemma length_put_sector: "length s = 512 \<Longrightarrow> Suc L * 512 \<le> length p \<Longrightarrow> length (put_sector L s p) = length p"
  by (simp add: put_sector_def)

lemma writing_step:
  assumes "writing f p L (Suc c)" "length vs = 512"
  defines "g \<equiv> ide_writes vs f"
  shows "sf_img g (sf_active_drive f) = Some (put_sector L vs p)" "wiring_but f g"
    and "if c = 0 then id_status (sf_active g) = kSrDrdy else writing g (put_sector L vs p) (L + 1) c"
proof -
  have r: "sf_img f (sf_active_drive f) = Some p" "sf_total_sectors f (sf_active_drive f) * 512 \<le> length p"
    "L + Suc c \<le> sf_total_sectors f (sf_active_drive f)" "L + Suc c \<le> 2 ^ 28" "ide_lba (sf_active f) = L"
    "count_of (id_sector_count (sf_active f)) = Suc c" "id_write_pending (sf_active f)" "id_buf_pos (sf_active f) = 0"
    "length (id_sector_buf (sf_active f)) = 512" "sf_present f (sf_active_drive f)"
    using assms(1) by (simp_all add: writing_def Let_def sf_present_def)
  define e where "e = (sf_active f)\<lparr>id_sector_buf := vs, id_buf_pos := 512, id_write_pending := False,
      id_sector_count := id_sector_count (sf_active f) - 1\<rparr>"
  define h where "h = f\<lparr>sf_img := (sf_img f)(sf_active_drive f := Some (put_sector L vs p)), sf_dirty := True\<rparr>"
  have l: "ide_lba e = L" "ide_lba ((sf_active f)\<lparr>id_sector_buf := vs, id_buf_pos := 512\<rparr>) = L"
    using r(5) by (simp_all add: e_def ide_lba_def)
  have pd: "put_drive ((filled f vs 512)\<lparr>sf_img := x, sf_dirty := True\<rparr>) d = put_drive (f\<lparr>sf_img := x, sf_dirty := True\<rparr>) d" for x d
    by (simp add: filled_def put_drive_def)
  have g: "g = put_drive h (if 0 < c
      then (set_lba e (L + 1))\<lparr>id_buf_pos := 0, id_write_pending := True, id_status := kSrDrdy OR kSrDrq\<rparr>
      else e\<lparr>id_status := kSrDrdy\<rparr>)" (is "_ = put_drive h (if _ then ?d else _)")
    unfolding g_def write_sector [OF r(10,7,9,8) assms(2)] ide_do_write_commit_def ide_refusal_def Let_def
    using r l count_dec(1) [OF r(6)] by (simp add: pd) (simp add: h_def e_def)
  have a: "sf_active_drive h = sf_active_drive f" "sf_total_sectors h = sf_total_sectors f" by (simp_all add: h_def)
  show "sf_img g (sf_active_drive f) = Some (put_sector L vs p)" by (simp add: g h_def)
  show "wiring_but f g" by (simp add: g wiring_but_def h_def)
  have len: "length (put_sector L vs p) = length p" using r(2,3) by (intro length_put_sector assms(2)) simp
  have "ide_lba ?d = L + 1" if "0 < c"
    using that r(4) set_lba_lba [of "L + 1" e] lba_frame [of ?d "set_lba e (L + 1)"] by simp
  then show "if c = 0 then id_status (sf_active g) = kSrDrdy else writing g (put_sector L vs p) (L + 1) c"
    using r count_dec(2) [OF r(6)] len assms(2) by (simp add: g writing_def Let_def a) (simp add: h_def e_def)
qed

lemma put_sectors:
  assumes "length v = 512" "length vs = 512 * c" "512 * (L + Suc c) \<le> length p"
  shows "take (512 * (L + 1)) (put_sector L v p) @ vs @ drop (512 * (L + 1 + c)) (put_sector L v p) =
    take (512 * L) p @ (v @ vs) @ drop (512 * (L + Suc c)) p"
proof -
  have "length (take (512 * L) p) = 512 * L" using assms(3) by simp
  then have "take (512 * (L + 1)) (put_sector L v p) = take (512 * L) p @ v"
    "drop (512 * (L + 1 + c)) (put_sector L v p) = drop (512 * (L + Suc c)) p"
    using assms(1) by (simp_all add: put_sector_def ac_simps add_mult_distrib2)
  then show ?thesis by simp
qed

lemma writing_all:
  assumes "writing f p L c" "0 < c" "length vs = 512 * c"
  shows "sf_img (ide_writes vs f) (sf_active_drive f) = Some (take (512 * L) p @ vs @ drop (512 * (L + c)) p) \<and>
    wiring_but f (ide_writes vs f) \<and> id_status (sf_active (ide_writes vs f)) = kSrDrdy"
  using assms
proof (induction c arbitrary: f p L vs)
  case (Suc c)
  define v ws where "v = take 512 vs" and "ws = drop 512 vs"
  have v: "vs = v @ ws" "length v = 512" "length ws = 512 * c" using Suc.prems(3) by (simp_all add: v_def ws_def)
  define g where "g = ide_writes v f"
  note st = writing_step [OF Suc.prems(1) v(2), folded g_def]
  have len: "512 * (L + Suc c) \<le> length p" using Suc.prems(1) by (simp add: writing_def Let_def)
  show ?case
  proof (cases "c = 0")
    case True
    then show ?thesis using st v by (simp add: g_def put_sector_def ac_simps)
  next
    case False
    then have w: "writing g (put_sector L v p) (L + 1) c" using st(3) by simp
    have a: "sf_active_drive g = sf_active_drive f" using st(2) by (simp add: wiring_but_def)
    show ?thesis
      using Suc.IH [OF w _ v(3)] False st(2) put_sectors [OF v(2,3) len] unfolding v(1) ide_writes_simps g_def [symmetric] a
      by (simp add: wiring_but_def)
  qed
qed simp

subsection \<open>The driver's protocol\<close>

text \<open>What a driver writes before a command: drive and address mode, count, and the three lower address bytes.\<close>

definition sf_unit :: "bool \<Rightarrow> nat" where
  "sf_unit u = (if u then 1 else 0)"

definition head_byte :: "bool \<Rightarrow> nat \<Rightarrow> u8" where
  "head_byte u L = 0xE0 OR (if u then 0x10 else 0) OR of_nat (L div 2 ^ 24 mod 16)"

definition sf_address :: "sf2_state \<Rightarrow> bool \<Rightarrow> u8 \<Rightarrow> nat \<Rightarrow> sf2_state" where
  "sf_address f u c L =
    ide_write (ide_write (ide_write (ide_write (ide_write f 6 (head_byte u L)) 2 c) 3 (of_nat (L mod 256)))
      4 (of_nat (L div 2 ^ 8 mod 256))) 5 (of_nat (L div 2 ^ 16 mod 256))"

lemma nibble_take: "(of_nat (n mod 16) :: u8) = take_bit 4 (of_nat n)"
proof -
  have "n mod 16 = take_bit 4 n" by (simp add: take_bit_eq_mod)
  then show ?thesis by (simp only: take_bit_of_nat)
qed

lemma head_byte_unit: "unat (drop_bit 4 (head_byte u L) AND 1) = sf_unit u"
proof -
  have "bit (head_byte u L) 4 = u"
    unfolding head_byte_def nibble_take by (cases u) (simp_all add: bit_or_iff bit_take_bit_iff)
  then have "odd (drop_bit 4 (head_byte u L)) = u" by (simp add: bit_iff_odd_drop_bit)
  then show ?thesis by (cases u) (simp_all add: and_one_eq sf_unit_def odd_iff_mod_2_eq_one even_iff_mod_2_eq_zero)
qed

lemma head_byte_nibble: "head_byte u L AND 0x0F = of_nat (L div 2 ^ 24 mod 16)"
proof -
  have "(0xE0 OR (if u then 0x10 else 0) :: u8) AND 0x0F = 0" by (cases u) simp_all
  moreover have "(of_nat (L div 2 ^ 24 mod 16) :: u8) AND 0x0F = of_nat (L div 2 ^ 24 mod 16)"
    using head_low_nibble [of 0 "L div 2 ^ 24"] by simp
  ultimately show ?thesis unfolding head_byte_def by (simp only: bit.conj_disj_distrib2 or.left_neutral or.assoc [symmetric])
qed

lemma sf_address_drive:
  assumes "sf_present f (sf_unit u)"
  shows "sf_address f u c L = put_drive (f\<lparr>sf_active_drive := sf_unit u\<rparr>)
    ((sf_ide f (sf_unit u))\<lparr>id_drive_head := head_byte u L, id_sector_count := c, id_lba_low := of_nat (L mod 256),
      id_lba_mid := of_nat (L div 2 ^ 8 mod 256), id_lba_high := of_nat (L div 2 ^ 16 mod 256)\<rparr>)"
proof -
  have p: "sf_present (f\<lparr>sf_active_drive := m\<rparr>) k = sf_present f k" for m k by (simp add: sf_present_def)
  have a: "sf_active (f\<lparr>sf_active_drive := m\<rparr>) = sf_ide f m" for m by (simp add: sf_active_def)
  show ?thesis
    unfolding sf_address_def ide_write_def [of _ 6] Let_def using assms
    by (simp add: head_byte_unit p a) (simp add: ide_write_def Let_def p assms)
qed

lemma sf_addressed:
  fixes c :: u8
  assumes "sf_present f (sf_unit u)" "L < 2 ^ 28"
  defines "g \<equiv> sf_address f u c L"
  shows "sf_active_drive g = sf_unit u" "sf_img g = sf_img f" "sf_total_sectors g = sf_total_sectors f"
    "sf_present g = sf_present f" "ide_lba (sf_active g) = L" "id_sector_count (sf_active g) = c"
proof -
  note d = sf_address_drive [OF assms(1), of c L, folded g_def]
  show "sf_active_drive g = sf_unit u" "sf_img g = sf_img f" "sf_total_sectors g = sf_total_sectors f"
    "sf_present g = sf_present f" "id_sector_count (sf_active g) = c"
    by (simp_all add: d sf_present_def fun_eq_iff)
  have "L div 2 ^ 24 mod 16 = L div 2 ^ 24" using assms(2) by (simp add: div_less_iff_less_mult)
  moreover have b: "unat (id_lba_low (sf_active g)) = L mod 256" "unat (id_lba_mid (sf_active g)) = L div 2 ^ 8 mod 256"
    "unat (id_lba_high (sf_active g)) = L div 2 ^ 16 mod 256" "unat (id_drive_head (sf_active g) AND 0x0F) = L div 2 ^ 24 mod 16"
    by (simp_all add: d unat_of_byte head_byte_nibble unat_of_nibble)
  ultimately show "ide_lba (sf_active g) = L" using nat_bytes4 [of L] by (simp only: ide_lba_def b)
qed

lemma command_reading:
  assumes "sf_img f (sf_unit u) = Some p" "sf_total_sectors f (sf_unit u) * 512 \<le> length p"
    "L + count_of c \<le> sf_total_sectors f (sf_unit u)" "L + count_of c \<le> 2 ^ 28"
  defines "g \<equiv> ide_write (sf_address f u c L) 7 kCmdReadSectors"
  shows "reading g p L (count_of c) \<and> sf_img g = sf_img f \<and> sf_active_drive g = sf_unit u"
proof -
  have b: "L < 2 ^ 28" "L < sf_total_sectors f (sf_unit u)" using assms(3,4) count_pos [of c] by simp_all
  have pr: "sf_present f (sf_unit u)" using assms(1) by (simp add: sf_present_def)
  note a = sf_addressed [OF pr b(1), of c]
  define h where "h = sf_address f u c L"
  note a = a [folded h_def]
  have "g = put_drive h ((sf_active h)\<lparr>id_command := kCmdReadSectors, id_error := 0, id_sector_buf := sector_of p L,
      id_buf_pos := 0, id_data_ready := True, id_status := kSrDrdy OR kSrDrq\<rparr>)"
    unfolding g_def h_def [symmetric] using a pr b(2) assms(1)
    by (simp add: ide_write_def ide_execute_def Let_def kCmdReadSectors_def kCmdIdentify_def ide_do_read_def ide_refusal_def
      ide_lba_def)
  then show ?thesis using a assms(1-4) by (simp add: reading_def Let_def ide_lba_def)
qed

lemma command_writing:
  assumes "sf_img f (sf_unit u) = Some p" "sf_total_sectors f (sf_unit u) * 512 \<le> length p"
    "L + count_of c \<le> sf_total_sectors f (sf_unit u)" "L + count_of c \<le> 2 ^ 28"
  defines "g \<equiv> ide_write (sf_address f u c L) 7 kCmdWriteSectors"
  shows "writing g p L (count_of c) \<and> sf_img g = sf_img f \<and> sf_active_drive g = sf_unit u \<and>
    sf_total_sectors g = sf_total_sectors f"
proof -
  have b: "L < 2 ^ 28" using assms(4) count_pos [of c] by simp
  have pr: "sf_present f (sf_unit u)" using assms(1) by (simp add: sf_present_def)
  define h where "h = sf_address f u c L"
  note a = sf_addressed [OF pr b, of c, folded h_def]
  have "g = put_drive h ((sf_active h)\<lparr>id_command := kCmdWriteSectors, id_error := 0, id_buf_pos := 0, id_write_pending := True,
      id_data_ready := False, id_sector_buf := replicate 512 0, id_status := kSrDrdy OR kSrDrq\<rparr>)"
    unfolding g_def h_def [symmetric] using a pr
    by (simp add: ide_write_def ide_execute_def Let_def kCmdReadSectors_def kCmdIdentify_def kCmdWriteSectors_def)
  then show ?thesis using a assms(1-4) by (simp add: writing_def Let_def ide_lba_def)
qed

subsection \<open>The mouse\<close>

text \<open>What a driver reads from a packet stream: the signed six-bit counts of one axis, added up.\<close>

definition sint6 :: "u8 \<Rightarrow> int" where
  "sint6 p = (let v = uint (p AND 0x3F) in if v < 32 then v else v - 64)"

definition moved :: "u8 \<Rightarrow> u8 list \<Rightarrow> int" where
  "moved tag ps = sum_list (map sint6 (filter (\<lambda>p. p AND 0xC0 = tag) ps))"

lemma moved_append [simp]: "moved tag (ps @ qs) = moved tag ps + moved tag qs"
  by (simp add: moved_def)

lemma packet_bits:
  "list_all (\<lambda>s. let p = 0x40 OR (word_of_int s AND 0x3F) in p AND 0xC0 = 0x40 \<and> sint6 p = s) [-32..31]"
  "list_all (\<lambda>s. let p = 0x80 OR (word_of_int s AND 0x3F) in p AND 0xC0 = 0x80 \<and> sint6 p = s) [-32..31]"
  by code_simp+

lemma packet_read:
  assumes "tag = 0x40 \<or> tag = 0x80" "-32 \<le> s" "s \<le> 31"
  shows "(tag OR (word_of_int s AND 0x3F)) AND 0xC0 = tag \<and> sint6 (tag OR (word_of_int s AND 0x3F)) = s"
proof -
  have "s \<in> set [-32..31]" using assms(2,3) by (simp only: set_upto atLeastAtMost_iff)
  then show ?thesis using assms(1) packet_bits by (auto simp only: list_all_iff Let_def)
qed

lemma axis_step_range: "-32 \<le> axis_step x" "axis_step x \<le> 31"
  by (simp_all add: axis_step_def)

lemma axis_packets_moved:
  assumes "tag = 0x40 \<or> tag = 0x80"
  shows "moved tag (axis_packets tag x) = x \<and> (\<forall>p \<in> set (axis_packets tag x). p AND 0xC0 = tag)"
  using assms
proof (induction tag x rule: axis_packets.induct)
  case (1 tag x)
  show ?case
  proof (cases "x = 0")
    case True
    then show ?thesis by (simp add: axis_packets.simps moved_def)
  next
    case False
    then show ?thesis
      using 1 packet_read [OF 1(2) axis_step_range, of x] by (simp add: axis_packets.simps [of tag x] moved_def del: filter_True)
  qed
qed

lemma moved_other: "(\<And>p. p \<in> set ps \<Longrightarrow> p AND 0xC0 = tag') \<Longrightarrow> tag \<noteq> tag' \<Longrightarrow> moved tag ps = 0"
  by (simp add: moved_def filter_empty_conv)

lemma host_buttons_cases: "host_buttons b \<in> {0, 1, 2, 3, 4, 5, 6, 7}"
  by (simp add: host_buttons_def)

lemma button_packet: "(0xC0 OR (host_buttons b AND 0x1F)) AND 0xC0 = 0xC0" "host_buttons b AND 0x1F = host_buttons b"
  using host_buttons_cases [of b] by auto

subsection \<open>Properties\<close>

text \<open>C25 (sf2_sectors_roundtrip): sectors written are the sectors read. A driver that addresses \<open>count\<close> sectors from
  \<open>L\<close> on an attached drive (a count byte of 0 means 256), issues WRITE SECTORS and sends their bytes has put
  exactly those bytes into exactly that part of the image, left the other drive's image alone and finds the
  drive ready; addressing them again and issuing READ SECTORS returns the same bytes, every sector chained to
  the next with its 28-bit address carried, and changes no image.\<close>

theorem sf2_sectors_roundtrip:
  assumes "sf_img f (sf_unit u) = Some p" "sf_total_sectors f (sf_unit u) * 512 \<le> length p"
    "L + count_of c \<le> sf_total_sectors f (sf_unit u)" "L + count_of c \<le> 2 ^ 28" "length vs = 512 * count_of c"
  shows "let g = ide_writes vs (ide_write (sf_address f u c L) 7 kCmdWriteSectors);
      r = ide_reads (length vs) (ide_write (sf_address g u c L) 7 kCmdReadSectors) in
    fst r = vs \<and> sf_img (snd r) (sf_unit u) = Some (take (512 * L) p @ vs @ drop (512 * (L + count_of c)) p) \<and>
    (\<forall>m. m \<noteq> sf_unit u \<longrightarrow> sf_img (snd r) m = sf_img f m) \<and>
    id_status (sf_active g) = kSrDrdy \<and> id_status (sf_active (snd r)) = kSrDrdy"
proof -
  define q where "q = take (512 * L) p @ vs @ drop (512 * (L + count_of c)) p"
  define w where "w = ide_write (sf_address f u c L) 7 kCmdWriteSectors"
  define g where "g = ide_writes vs w"
  note cw = command_writing [OF assms(1-4), folded w_def]
  have g: "sf_img g (sf_unit u) = Some q" "wiring_but w g" "id_status (sf_active g) = kSrDrdy"
    using writing_all [OF _ count_pos assms(5), of w p L] cw by (simp_all add: g_def q_def)
  have lp: "512 * (L + count_of c) \<le> length p" using assms(2,3) by (simp add: order.trans [OF mult_le_mono2])
  then have lq: "length q = length p" using assms(5) by (simp add: q_def)
  have t: "sf_total_sectors g = sf_total_sectors f" using g(2) cw by (simp add: wiring_but_def)
  note cr = command_reading [OF g(1), of L c, unfolded t lq, OF assms(2-4)]
  obtain h where h: "ide_reads (512 * count_of c) (ide_write (sf_address g u c L) 7 kCmdReadSectors) =
      (take (512 * count_of c) (drop (512 * L) q), h)" "id_status (sf_active h) = kSrDrdy" "sf_img h = sf_img g"
    using reading_all [OF cr [THEN conjunct1] count_pos] cr by auto
  have "take (512 * count_of c) (drop (512 * L) q) = vs" using lp assms(5) by (simp add: q_def)
  moreover have "sf_img g m = sf_img f m" if "m \<noteq> sf_unit u" for m using g(2) cw that by (simp add: wiring_but_def)
  ultimately show ?thesis
    unfolding Let_def w_def [symmetric] g_def [symmetric] q_def [symmetric] assms(5) h(1) using g h by simp
qed

definition demo_disc :: sf2_state where
  "demo_disc = sf2_ide_attach (sf2_set_plugged sf2_init True) False (Some (replicate 2048 0))"

theorem sf2_sectors_roundtrip_witness:
  "sf_img (snd (ide_reads 512 (ide_write (sf_address (ide_writes (replicate 512 7)
      (ide_write (sf_address demo_disc False 1 2) 7 kCmdWriteSectors)) False 1 2) 7 kCmdReadSectors))) 0 =
    Some (replicate 1024 0 @ replicate 512 7 @ replicate 512 0)"
proof -
  have "sf_img demo_disc (sf_unit False) = Some (replicate 2048 0)" "sf_total_sectors demo_disc (sf_unit False) = 4"
    by (simp_all add: demo_disc_def sf2_ide_attach_def sf_unit_def Let_def)
  then show ?thesis
    using sf2_sectors_roundtrip [of demo_disc False "replicate 2048 0" 2 1 "replicate 512 7"]
    by (simp add: count_of_def Let_def) (simp add: sf_unit_def)
qed

text \<open>C26 (sf2_mouse_faithful): no movement is lost on the way to the driver. Fed a movement and buttons while the FIFO
  has room for its packets, the board appends packets whose six-bit counts add up to exactly \<open>dx\<close> on one axis
  and \<open>-dy\<close> on the other, and one button packet precisely when the buttons changed.\<close>

theorem sf2_mouse_faithful:
  assumes "sf_fifo_ok f" "sf_used f + length (axis_packets 0x40 dx) + length (axis_packets 0x80 (- dy)) < 63"
  shows "\<exists>ps. sf_packets (sf2_mouse_feed f dx dy b) = sf_packets f @ ps \<and> moved 0x40 ps = dx \<and> moved 0x80 ps = - dy \<and>
    filter (\<lambda>p. p AND 0xC0 = 0xC0) ps = (if host_buttons b = sf_last_buttons f then [] else [0xC0 OR host_buttons b]) \<and>
    sf_last_buttons (sf2_mouse_feed f dx dy b) = host_buttons b"
proof -
  let ?x = "axis_packets 0x40 dx" and ?y = "axis_packets 0x80 (- dy)"
  define g where "g = sf_pushes (sf_pushes f ?x) ?y"
  have "sf_packets (sf_pushes f ?x) = sf_packets f @ ?x \<and> sf_fifo_ok (sf_pushes f ?x)"
    using sf2_mouse.contents_pushes [OF assms(1), of ?x] assms(2) by (simp add: sf_pushes_def)
  then have g: "sf_packets g = sf_packets f @ ?x @ ?y" "sf_fifo_ok g"
    using sf2_mouse.contents_pushes [of "sf_pushes f ?x" ?y] assms(2) by (simp_all add: g_def sf_pushes_def)
  have lb: "sf_last_buttons (fold (\<lambda>p f. sf_push f p) ps h) = sf_last_buttons h" for ps h
    by (induction ps arbitrary: h) (simp_all add: sf_push_def Let_def)
  then have l: "sf_last_buttons g = sf_last_buttons f" by (simp add: g_def sf_pushes_def)
  define bs where "bs = (if host_buttons b = sf_last_buttons f then [] else [0xC0 OR (host_buttons b AND 0x1F)] :: u8 list)"
  have used: "sf_used g < 63" using g(1) assms(2) length_sf_packets [of g] by (simp del: length_sf_packets) (simp add: add.assoc)
  have fd: "sf2_mouse_feed f dx dy b = (if host_buttons b = sf_last_buttons f then g
      else (sf_push g (0xC0 OR (host_buttons b AND 0x1F)))\<lparr>sf_last_buttons := host_buttons b\<rparr>)"
    unfolding sf2_mouse_feed_def Let_def g_def [symmetric] l by auto
  have pk: "sf_packets (h\<lparr>sf_last_buttons := z\<rparr>) = sf_packets h" for h z by (simp add: sf_packets_def sf_used_def)
  have packets: "sf_packets (sf2_mouse_feed f dx dy b) = sf_packets f @ (?x @ ?y @ bs)"
    using sf_push_packets [OF g(2)] used g(1) by (simp add: fd bs_def pk)
  have x: "moved 0x40 ?x = dx" "\<And>p. p \<in> set ?x \<Longrightarrow> p AND 0xC0 = 0x40"
    and y: "moved 0x80 ?y = - dy" "\<And>p. p \<in> set ?y \<Longrightarrow> p AND 0xC0 = 0x80"
    using axis_packets_moved [of "0x40" dx] axis_packets_moved [of "0x80" "- dy"] by auto
  have b: "\<And>p. p \<in> set bs \<Longrightarrow> p AND 0xC0 = 0xC0" "bs = (if host_buttons b = sf_last_buttons f then [] else [0xC0 OR host_buttons b])"
    by (simp_all add: bs_def button_packet split: if_split_asm)
  have "moved 0x40 ?y = 0" "moved 0x40 bs = 0" "moved 0x80 ?x = 0" "moved 0x80 bs = 0"
    using x(2) y(2) b(1) by (auto intro!: moved_other)
  moreover have "filter (\<lambda>p. p AND 0xC0 = 0xC0) ?x = []" "filter (\<lambda>p. p AND 0xC0 = 0xC0) ?y = []" "filter (\<lambda>p. p AND 0xC0 = 0xC0) bs = bs"
    using x(2) y(2) b(1) by (auto simp: filter_empty_conv filter_id_conv)
  moreover have "sf_last_buttons (sf2_mouse_feed f dx dy b) = host_buttons b" using l by (simp add: fd)
  ultimately show ?thesis
    using packets x(1) y(1) b(2) by (intro exI [of _ "?x @ ?y @ bs"]) simp
qed

lemma demo_packets: "axis_packets 0x40 40 = [0x5F, 0x49]" "axis_packets 0x80 (- 3) = [0xBD]"
  by (simp_all add: axis_packets.simps axis_step_def)

theorem sf2_mouse_faithful_witness:
  "\<exists>ps. sf_packets (sf2_mouse_feed sf2_init 40 3 1) = sf_packets sf2_init @ ps \<and> moved 0x40 ps = 40 \<and> moved 0x80 ps = - 3 \<and>
    filter (\<lambda>p. p AND 0xC0 = 0xC0) ps = [0xC1]"
  using sf2_mouse_faithful [of sf2_init 40 3 1]
  by (auto simp: demo_packets sf2_init_def sf_fifo_ok_def sf_used_def host_buttons_def)

end
