(* ===== verification/Machine.thy ===== *)
theory Machine
  imports Video_Batch Memory Psg Ppi Printer Light_Gun Amdrum Fdc Rs232 Tape Z80 "HOL-Library.Signed_Division"
begin

text \<open>
  The Fast tier of the machine composition (\<open>src/src/subcycle/machine.cpp\<close>, \<open>run_frame_fast\<close> and the functions
  below it): the Z80's batch engine drives a frame, the CRTC and Gate Array are advanced eagerly, the renderer and
  the sound chip catch up lazily, the disc controller and the printer ride master-cycle cursors.

  The record \<open>machine\<close> holds the devices of the canonical composition and the scheduler's members under the names
  of the C++ class without their final underscore. Times relative to the frame's entry are \<open>nat\<close>. The pending view
  buffer is the list of its slots below \<open>fs_pend_tail\<close>; its spare capacity and its growth have no counterpart.
  The CPU stands beside the record, because the batch engine threads it through the callbacks. Host hooks: the
  firmware taps log the address they fire at; the instruction trace hook and the drive-sound overlay are absent
  (null pointers). Sample filtering is in \<open>double\<close>, whose operations are the parameter \<open>arith\<close>.
\<close>

definition kMasterPerFrame :: nat where "kMasterPerFrame = 16000000 div 50"
definition kMaxFastChars :: nat where "kMaxFastChars = (kMasterPerFrame * 2) div 16"
definition kPsgHz :: int where "kPsgHz = 1000000"
definition kAudioHz :: int where "kAudioHz = 44100"
definition kAudioGain :: int where "kAudioGain = 280"

record 'd audio =
  au_phase :: int
  au_accL :: int
  au_accR :: int
  au_n :: int
  au_dcL_x :: 'd
  au_dcL_y :: 'd
  au_dcR_x :: 'd
  au_dcR_y :: 'd
  au_out :: "int list"

record 'd machine =
  mc_ga :: ga_state
  mc_crtc :: crtc_state
  mc_ppi :: ppi_state
  mc_psg :: psg_state
  mc_mem :: mem_state
  mc_video :: video_state
  mc_fdc :: fdc_state
  mc_tape :: tape_state
  mc_printer :: printer_state
  mc_amdrum :: amdrum_state
  mc_asic :: asic_state
  mc_rs232 :: rs232_state
  mc_lgun :: light_gun_state
  mc_bus :: Bus
  mc_master_cycles :: nat
  mc_wk_serial_on :: bool
  mc_taps :: "u16 list"
  mc_tap_log :: "u16 list"
  mc_digiblaster :: bool
  mc_amdrum_on :: bool
  mc_au :: "'d audio"
  fs_t0 :: u64
  fs_chars :: nat
  fs_cells :: nat
  fs_audio_steps :: nat
  fs_audio_accs :: nat
  fs_fdc_done :: nat
  fs_prt_done :: nat
  fs_fdc_hot :: bool
  fs_cut :: bool
  fs_asic_on :: bool
  fs_bail :: bool
  fs_lpen_on :: bool
  fs_lpen_pending :: bool
  fs_target :: u32
  fs_frames_seen :: u32
  fs_pend :: "CrtcCharView list"
  fs_pend_head :: nat
  fs_vpages :: u8
  fs_irq_tmax :: nat
  fs_irq_cache :: bool

definition fs_visible :: "nat \<Rightarrow> nat" where
  "fs_visible tstate = (if tstate = 0 then 0 else (tstate - 1) div 4 + 1)"

subsection \<open>The chain: CRTC, Gate Array and raster interrupt\<close>

text \<open>The chip events of one view, and the stamp of the mode latch. The second component is \<open>last_line\<close>;
  \<open>None\<close> stands for its start value, which no 16-bit line equals.\<close>

definition apply_view :: "CrtcCharView \<Rightarrow> 'd machine \<times> u16 option \<Rightarrow> CrtcCharView \<times> 'd machine \<times> u16 option" where
  "apply_view vw s =
    (case s of (m, last_line) \<Rightarrow>
      (let rise = (VSYNC_RISE \<in> set (vw_edges vw));
           g1 = (if rise then ga_batch_vsync_rise (mc_ga m) else mc_ga m);
           seen = (if rise then fs_frames_seen m + 1 else fs_frames_seen m);
           g2 = (if HSYNC_RISE \<in> set (vw_edges vw) then ga_batch_hsync_rise g1 else g1);
           g3 = (if HSYNC_FALL \<in> set (vw_edges vw) then ga_batch_hsync_fall (Some (mc_asic m)) g2 else g2);
           relay = (fs_asic_on m \<and> last_line \<noteq> Some (vw_frame_line vw));
           a = (if relay then asic_batch_frame_line (mc_asic m) (vw_frame_line vw) else mc_asic m)
       in (vw\<lparr>vw_mode := ga_current_mode g3\<rparr>,
           m\<lparr>mc_ga := g3, mc_asic := a, fs_cut := (fs_cut m \<or> rise \<and> fs_target m \<le> seen), fs_frames_seen := seen,
             fs_vpages := fs_vpages m OR 2 ^ unat (drop_bit 12 (vw_ma vw) AND 3)\<rparr>,
           if relay then Some (vw_frame_line vw) else last_line)))"

primrec apply_views ::
    "CrtcCharView list \<Rightarrow> 'd machine \<times> u16 option \<Rightarrow> CrtcCharView list \<times> 'd machine \<times> u16 option" where
  "apply_views [] s = ([], s)"
| "apply_views (v # vs) s =
    (case apply_view v s of (v', s') \<Rightarrow> (case apply_views vs s' of (vs', s'') \<Rightarrow> (v' # vs', s'')))"

text \<open>The light-gun arm: one character, its events, the latch the gun asked for a character earlier, and the gun.\<close>

definition gun_bus :: "CrtcCharView \<Rightarrow> Bus" where
  "gun_bus vw = bus_resting\<lparr>b_clk := (b_clk bus_resting)\<lparr>clk_crtc := True\<rparr>,
     b_vid := (b_vid bus_resting)\<lparr>vid_dispen := vw_dispen vw, vid_frame_line := vw_frame_line vw\<rparr>\<rparr>"

definition gun_char :: "'d machine \<times> u16 option \<Rightarrow> CrtcCharView \<times> 'd machine \<times> u16 option" where
  "gun_char s =
    (case s of (m, last_line) \<Rightarrow>
      (case crtc_advance_view (Some (mc_asic m)) (mc_crtc m) 1 of (_, views, c) \<Rightarrow>
        (case apply_view (hd views) (m\<lparr>mc_crtc := c\<rparr>, last_line) of (vw, m1, last') \<Rightarrow>
          (let m2 = m1\<lparr>mc_crtc := crtc_batch_lpen_latch (mc_crtc m1) (fs_lpen_pending m1)\<rparr>;
               g = light_gun_tick (mc_lgun m2) (gun_bus vw) bus_resting
           in (vw, m2\<lparr>mc_lgun := fst g, fs_lpen_pending := pen_strobe (b_pen (snd g))\<rparr>, last')))))"

primrec gun_chars :: "nat \<Rightarrow> 'd machine \<times> u16 option \<Rightarrow> CrtcCharView list \<times> 'd machine \<times> u16 option" where
  "gun_chars 0 s = ([], s)"
| "gun_chars (Suc n) s =
    (case gun_char s of (v, s') \<Rightarrow> (case gun_chars n s' of (vs, s'') \<Rightarrow> (v # vs, s'')))"

definition bulk_chars :: "nat \<Rightarrow> 'd machine \<times> u16 option \<Rightarrow> CrtcCharView list \<times> 'd machine \<times> u16 option" where
  "bulk_chars n s =
    (case s of (m, last_line) \<Rightarrow>
      (case crtc_advance_view (Some (mc_asic m)) (mc_crtc m) n of (_, views, c) \<Rightarrow>
        apply_views views (m\<lparr>mc_crtc := c\<rparr>, last_line)))"

definition fs_advance_chars :: "nat \<Rightarrow> 'd machine \<Rightarrow> 'd machine" where
  "fs_advance_chars target m =
    (if target \<le> fs_chars m then m
     else
       (let m1 = (if kMaxFastChars < target then m\<lparr>fs_bail := True\<rparr> else m); t = min target kMaxFastChars in
        if t \<le> fs_chars m1 then m1
        else
          (let n = t - fs_chars m1 in
           case (if fs_lpen_on m1 then gun_chars n (m1, None) else bulk_chars n (m1, None)) of
             (views, m2, _) \<Rightarrow> m2\<lparr>fs_pend := fs_pend m2 @ views, fs_chars := t\<rparr>)))"

definition fs_irq :: "'d machine \<Rightarrow> bool" where
  "fs_irq m \<longleftrightarrow> ga_irq_asserted (mc_ga m) \<or> fs_asic_on m \<and> asic_irq_asserted (mc_asic m)"

subsection \<open>The catch-ups\<close>

definition fs_vram :: "'d machine \<Rightarrow> u16 \<Rightarrow> u8" where
  "fs_vram m a = mem_video_ram (mc_mem m) (unat a)"

definition fs_render_below :: "nat \<Rightarrow> 'd machine \<Rightarrow> 'd machine" where
  "fs_render_below target m =
    (let t = min target (fs_chars m) in
     if t \<le> fs_cells m then m
     else
       (let n = t - fs_cells m in
        m\<lparr>mc_video := video_batch_cells (Some (mc_asic m)) (mc_ga m) (fs_vram m) (take n (drop (fs_pend_head m) (fs_pend m)))
            (mc_video m),
          fs_pend_head := fs_pend_head m + n, fs_cells := t\<rparr>))"

text \<open>\<open>emit_sample\<close>: average, remove the DC level, clamp. The double filter state is the pair \<open>(x, y)\<close>.\<close>

definition ar_of_int :: "'d arith \<Rightarrow> int \<Rightarrow> 'd" where
  "ar_of_int A i = (if 0 \<le> i then ar_of_nat A (nat i) else ar_sub A (ar_of_nat A 0) (ar_of_nat A (nat (- i))))"

definition clamp16 :: "int \<Rightarrow> int" where
  "clamp16 v = max (- 32768) (min v 32767)"

definition emit_sample :: "'d arith \<Rightarrow> int \<Rightarrow> int \<Rightarrow> 'd \<times> 'd \<Rightarrow> int \<times> 'd \<times> 'd" where
  "emit_sample A n acc dc =
    (case dc of (x, y) \<Rightarrow>
      (let raw = ar_of_int A ((if n \<noteq> 0 then acc sdiv n else 0) * kAudioGain);
           y' = ar_add A (ar_sub A raw x) (ar_mul A (ar_dec A 9975 4) y)
       in (clamp16 (ar_trunc A y'), raw, y')))"

definition au_boundary :: "'d arith \<Rightarrow> 'd audio \<Rightarrow> 'd audio" where
  "au_boundary A a =
    (case emit_sample A (au_n a) (au_accL a) (au_dcL_x a, au_dcL_y a) of (left, lx, ly) \<Rightarrow>
      (case emit_sample A (au_n a) (au_accR a) (au_dcR_x a, au_dcR_y a) of (right, rx, ry) \<Rightarrow>
        a\<lparr>au_phase := au_phase a - kPsgHz, au_dcL_x := lx, au_dcL_y := ly, au_dcR_x := rx, au_dcR_y := ry,
          au_out := au_out a @ [clamp16 left, clamp16 right], au_accL := 0, au_accR := 0, au_n := 0\<rparr>))"

lemma au_boundary_phase [simp]: "au_phase (au_boundary A a) = au_phase a - kPsgHz"
  by (simp add: au_boundary_def split: prod.splits)

text \<open>The loop of \<open>accumulate_audio_bulk\<close>. Its invariant, phase below the host-rate boundary, makes the number of
  steps to the boundary positive; \<open>nat\<close> is then the cast to 32 bits.\<close>

definition au_take :: "int \<Rightarrow> int \<Rightarrow> nat \<Rightarrow> 'd audio \<Rightarrow> 'd audio" where
  "au_take addL addR c a = a\<lparr>au_accL := au_accL a + addL * int c, au_accR := au_accR a + addR * int c,
     au_n := au_n a + int c, au_phase := au_phase a + kAudioHz * int c\<rparr>"

definition au_to_boundary :: "'d audio \<Rightarrow> nat" where
  "au_to_boundary a = nat (((kPsgHz - au_phase a) + kAudioHz - 1) div kAudioHz)"

function (sequential) au_bulk :: "'d arith \<Rightarrow> int \<Rightarrow> int \<Rightarrow> nat \<Rightarrow> 'd audio \<Rightarrow> 'd audio" where
  "au_bulk A addL addR k a =
    (if k = 0 then a
     else
       (let c = min k (au_to_boundary a); a1 = au_take addL addR c a in
        if au_phase a1 < kPsgHz then au_bulk A addL addR (k - c) a1
        else au_bulk A addL addR (k - c) (au_boundary A a1)))"
  by pat_completeness auto
termination
proof (relation "measures [\<lambda>(A, l, r, k, a). k, \<lambda>(A, l, r, k, a). nat (au_phase a)]", goal_cases)
  case (2 A addL addR k a c a1)
  have "c \<noteq> 0"
  proof
    assume "c = 0"
    then have "au_phase a < kPsgHz" "au_to_boundary a = 0" using 2 by (simp_all add: au_take_def split: if_splits)
    then show False by (simp add: au_to_boundary_def kPsgHz_def kAudioHz_def)
  qed
  with 2 show ?case by simp
next
  case (3 A addL addR k a c a1)
  show ?case
  proof (cases "c = 0")
    case True
    then have "a1 = a" "kPsgHz \<le> au_phase a" using 3 by (simp_all add: au_take_def)
    then show ?thesis using True by (simp add: kPsgHz_def)
  qed (use 3 in simp)
qed simp

declare au_bulk.simps [simp del]

definition dac_swing :: "u8 \<Rightarrow> int" where
  "dac_swing v = (uint v - 128) * 31 sdiv 128"

definition accumulate_audio_bulk :: "'d arith \<Rightarrow> nat \<Rightarrow> 'd machine \<Rightarrow> 'd machine" where
  "accumulate_audio_bulk A k m =
    (let lv = (\<lambda>i. int (ps_chan_level (mc_psg m) i));
         addL = lv 0 + lv 1 + (if mc_digiblaster m then dac_swing (printer_peek (mc_printer m)) else 0)
           + (if mc_amdrum_on m then dac_swing (fst (amdrum_peek (mc_amdrum m))) else 0);
         addR = lv 2 + lv 1
     in m\<lparr>mc_au := au_bulk A addL addR k (mc_au m)\<rparr>)"

definition accumulate_audio :: "'d arith \<Rightarrow> 'd machine \<Rightarrow> 'd machine" where
  "accumulate_audio A m = accumulate_audio_bulk A 1 m"

text \<open>One turn of the audio catch-up loop: the deferred accumulate, the step, and the closed-form bulk.\<close>

definition audio_unit :: "'d arith \<Rightarrow> 'd machine \<Rightarrow> 'd machine" where
  "audio_unit A m =
    (let m1 = (if fs_audio_accs m < fs_audio_steps m
               then (accumulate_audio A m)\<lparr>fs_audio_accs := fs_audio_accs m + 1\<rparr> else m)
     in m1\<lparr>mc_psg := psg_batch_step (mc_psg m1), fs_audio_steps := fs_audio_steps m1 + 1\<rparr>)"

definition audio_skip :: "'d arith \<Rightarrow> nat \<Rightarrow> 'd machine \<Rightarrow> 'd machine" where
  "audio_skip A steps m =
    (if fs_audio_steps m < steps \<and> fs_audio_accs m < fs_audio_steps m then
       (let quiet = psg_batch_quiet_steps (mc_psg m); want = steps - fs_audio_steps m;
            k = min want (unat (of_nat quiet - 1 :: u32))
        in if 0 < k then
             (let m1 = (accumulate_audio_bulk A k m)\<lparr>fs_audio_accs := fs_audio_accs m + k\<rparr>
              in m1\<lparr>mc_psg := psg_batch_skip (mc_psg m1) k, fs_audio_steps := fs_audio_steps m1 + k\<rparr>)
           else m)
     else m)"

lemma accumulate_frame [simp]:
  "fs_audio_steps (accumulate_audio_bulk A k m) = fs_audio_steps m" "fs_audio_steps (accumulate_audio A m) = fs_audio_steps m"
  "fs_audio_accs (accumulate_audio_bulk A k m) = fs_audio_accs m" "fs_audio_accs (accumulate_audio A m) = fs_audio_accs m"
  "mc_psg (accumulate_audio_bulk A k m) = mc_psg m" "mc_psg (accumulate_audio A m) = mc_psg m"
  by (simp_all add: accumulate_audio_bulk_def accumulate_audio_def Let_def)

lemma audio_skip_steps: "fs_audio_steps m \<le> fs_audio_steps (audio_skip A steps m)"
  by (simp add: audio_skip_def Let_def)

lemma audio_unit_steps [simp]: "fs_audio_steps (audio_unit A m) = fs_audio_steps m + 1"
  by (simp add: audio_unit_def Let_def)

function (sequential) fs_audio_run :: "'d arith \<Rightarrow> nat \<Rightarrow> 'd machine \<Rightarrow> 'd machine" where
  "fs_audio_run A steps m =
    (if fs_audio_steps m < steps then fs_audio_run A steps (audio_skip A steps (audio_unit A m)) else m)"
  by pat_completeness auto
termination
proof (relation "measure (\<lambda>(A, steps, m). steps - fs_audio_steps m)", goal_cases)
  case (2 A steps m)
  have "fs_audio_steps m + 1 \<le> fs_audio_steps (audio_skip A steps (audio_unit A m))"
    using audio_skip_steps [of "audio_unit A m" A steps] by simp
  with 2 show ?case by simp
qed simp

declare fs_audio_run.simps [simp del]

text \<open>The disc controller's cursor: the skipped masters one by one while it is busy, in one hop while it is quiet.\<close>

definition fs_fdc_to :: "'d arith \<Rightarrow> nat \<Rightarrow> 'd machine \<Rightarrow> 'd machine" where
  "fs_fdc_to A rel_master m =
    (if rel_master \<le> fs_fdc_done m then m
     else
       (let n = rel_master - fs_fdc_done m;
            m1 = (if fs_fdc_hot m
                  then (let f = ((\<lambda>f. fst (fdc_tick A f bus_resting bus_resting)) ^^ n) (mc_fdc m)
                        in m\<lparr>mc_fdc := f, fs_fdc_hot := \<not> fdc_quiet f\<rparr>)
                  else m\<lparr>mc_fdc := fdc_advance (mc_fdc m) n\<rparr>)
        in m1\<lparr>fs_fdc_done := rel_master\<rparr>))"

subsection \<open>The events of one I/O access\<close>

definition write_bus :: "u16 \<Rightarrow> u8 \<Rightarrow> Bus" where
  "write_bus port val = bus_resting\<lparr>b_cpu := (b_cpu bus_resting)\<lparr>cpu_addr := port, cpu_data := val, cpu_iorq := True,
     cpu_wr := True\<rparr>\<rparr>"

definition read_bus :: "u16 \<Rightarrow> Bus" where
  "read_bus port = bus_resting\<lparr>b_cpu := (b_cpu bus_resting)\<lparr>cpu_addr := port, cpu_iorq := True, cpu_rd := True\<rparr>\<rparr>"

text \<open>The synthesized double tick: the access, then a resting bus that releases the edge detector.\<close>

definition double_tick :: "('s \<Rightarrow> Bus \<Rightarrow> Bus \<Rightarrow> 's \<times> Bus) \<Rightarrow> Bus \<Rightarrow> 's \<Rightarrow> u8 \<times> 's" where
  "double_tick tick i s =
    (let r = tick s i bus_resting in (cpu_data (b_cpu (snd r)), fst (tick (fst r) bus_resting bus_resting)))"

definition fdc_access :: "'d arith \<Rightarrow> Bus \<Rightarrow> nat \<Rightarrow> 'd machine \<Rightarrow> u8 \<times> 'd machine" where
  "fdc_access A i at m0 =
    (let m = fs_fdc_to A at m0; r = double_tick (fdc_tick A) i (mc_fdc m)
     in (fst r, m\<lparr>mc_fdc := snd r, fs_fdc_done := fs_fdc_done m + 2, fs_fdc_hot := \<not> fdc_quiet (snd r)\<rparr>))"

definition printer_write :: "u16 \<Rightarrow> u8 \<Rightarrow> nat \<Rightarrow> 'd machine \<Rightarrow> 'd machine" where
  "printer_write port val rel_t1 m0 =
    (let at = 4 * rel_t1 + 2;
         m = (if fs_prt_done m0 < at
              then m0\<lparr>mc_printer := printer_advance (mc_printer m0) (of_nat (at - fs_prt_done m0)), fs_prt_done := at\<rparr> else m0)
     in m\<lparr>mc_printer := snd (double_tick printer_tick (write_bus port val) (mc_printer m)), fs_prt_done := fs_prt_done m + 2\<rparr>)"

definition serial_port :: "u16 \<Rightarrow> bool" where
  "serial_port port \<longleftrightarrow> (drop_bit 8 port = 0xFA \<or> drop_bit 8 port = 0xFB) \<and> 0xDC \<le> port AND 0xFF \<and> port AND 0xFF \<le> 0xDF"

text \<open>A VSYNC that the CRTC write itself starts: the Gate Array, the frame count, and the youngest pending view.\<close>

definition mark_vsync :: "CrtcCharView \<Rightarrow> CrtcCharView" where
  "mark_vsync vw = vw\<lparr>vw_vsync := True, vw_edges := VSYNC_RISE # vw_edges vw\<rparr>"

definition crtc_write :: "u16 \<Rightarrow> u8 \<Rightarrow> 'd machine \<Rightarrow> 'd machine" where
  "crtc_write port val m0 =
    (case crtc_fast_io_write (mc_crtc m0) port val of (caused, c) \<Rightarrow>
      (let m = m0\<lparr>mc_crtc := c\<rparr>; tail = length (fs_pend m) in
       if \<not> caused then m
       else m\<lparr>mc_ga := ga_batch_vsync_rise (mc_ga m), fs_frames_seen := fs_frames_seen m + 1,
              fs_cut := (fs_cut m \<or> fs_target m \<le> fs_frames_seen m + 1),
              fs_pend := (if fs_pend_head m < tail then (fs_pend m)[tail - 1 := mark_vsync (fs_pend m ! (tail - 1))]
                          else fs_pend m)\<rparr>))"

definition ga_port_write :: "u16 \<Rightarrow> u8 \<Rightarrow> 'd machine \<Rightarrow> 'd machine" where
  "ga_port_write port val m = m\<lparr>mc_ga := ga_fast_io_write (Some (mc_asic m)) (mc_ga m) port val\<rparr>"

definition ppi_port_write :: "u16 \<Rightarrow> u8 \<Rightarrow> 'd machine \<Rightarrow> 'd machine" where
  "ppi_port_write port val m =
    (case ppi_fast_io_write (mc_ppi m) port val of (moved, after, p) \<Rightarrow>
      (case after of
         Some l \<Rightarrow> m\<lparr>mc_ppi := p, mc_psg := (if moved then psg_fast_lines (mc_psg m) (ln_bdir l) (ln_bc1 l) (ln_da l) else mc_psg m)\<rparr>
       | None \<Rightarrow> m\<lparr>mc_ppi := p\<rparr>))"

definition serial_write :: "u16 \<Rightarrow> u8 \<Rightarrow> 'd machine \<Rightarrow> 'd machine" where
  "serial_write port val m =
    (if mc_wk_serial_on m \<and> serial_port port
     then m\<lparr>mc_rs232 := snd (double_tick rs232_tick (write_bus port val) (mc_rs232 m)), fs_bail := True\<rparr> else m)"

definition fs_io_write_event :: "'d arith \<Rightarrow> u16 \<Rightarrow> u8 \<Rightarrow> nat \<Rightarrow> 'd machine \<Rightarrow> 'd machine" where
  "fs_io_write_event A port val rel_t1 m0 =
    (let m1 = m0\<lparr>fs_irq_tmax := 0\<rparr>; j = rel_t1 div 4; ga_early = (port AND 0xC000 = 0x4000 \<and> rel_t1 mod 4 = 0);
         m2 = (if ga_early then ga_port_write port val (fs_render_below j (fs_advance_chars j m1)) else m1);
         m3 = fs_audio_run A (j + 1) (fs_render_below j (fs_advance_chars (j + 1) m2));
         m4 = (if port AND 0x1000 = 0 then printer_write port val rel_t1 m3 else m3);
         m5 = crtc_write port val m4;
         m6 = (if ga_early then m5 else ga_port_write port val m5);
         m7 = m6\<lparr>mc_mem := mem_fast_io_write (Some (mc_asic m6)) (mc_mem m6) port val\<rparr>;
         m8 = (if fs_asic_on m7 then m7\<lparr>mc_asic := asic_fast_io_write (mc_asic m7) port val\<rparr> else m7);
         m9 = ppi_port_write port val m8;
         m10 = (if port AND 0x0480 = 0 then snd (fdc_access A (write_bus port val) (4 * rel_t1 + 2) m9) else m9)
     in serial_write port val m10)"

definition ppi_port_read :: "u16 \<Rightarrow> 'd machine \<Rightarrow> u8 option \<times> 'd machine" where
  "ppi_port_read port m =
    (let l = ppi_fast_lines (mc_ppi m);
         r = (if \<not> ln_bdir l \<and> ln_bc1 l then psg_fast_read (mc_psg m) (ln_kbd_row l) 0xFF else (0xFF, mc_psg m))
     in (ppi_fast_io_read (mc_ppi m) port (cr_in_vsync (mc_crtc m)) (tp_level (mc_tape m)) (fst r), m\<lparr>mc_psg := snd r\<rparr>))"

definition fs_io_read_event :: "'d arith \<Rightarrow> u16 \<Rightarrow> nat \<Rightarrow> 'd machine \<Rightarrow> u8 \<times> 'd machine" where
  "fs_io_read_event A port rel_sample m0 =
    (let m1 = fs_advance_chars (rel_sample div 4 + 1) m0;
         v1 = (case crtc_fast_io_read (mc_crtc m1) port of Some v \<Rightarrow> v | None \<Rightarrow> 0xFF);
         r2 = ppi_port_read port m1; v2 = (case fst r2 of Some v \<Rightarrow> v | None \<Rightarrow> v1); m2 = snd r2;
         r3 = (if port AND 0x0480 = 0 then fdc_access A (read_bus port) (4 * rel_sample + 2) m2 else (v2, m2)); m3 = snd r3
     in if mc_wk_serial_on m3 \<and> serial_port port
        then (let r4 = double_tick rs232_tick (read_bus port) (mc_rs232 m3) in (fst r4, m3\<lparr>mc_rs232 := snd r4\<rparr>))
        else (fst r3, m3))"

subsection \<open>The callbacks of the batch engine\<close>

definition rel_time :: "'d machine \<Rightarrow> u64 \<Rightarrow> nat" where
  "rel_time m now = unat (now - fs_t0 m)"

definition fsb_mem_read :: "'d machine \<Rightarrow> u16 \<Rightarrow> u64 \<Rightarrow> u8 \<times> 'd machine" where
  "fsb_mem_read m addr now =
    (case (if fs_asic_on m then asic_fast_mem_read (mc_asic m) addr else None) of
       Some v \<Rightarrow> (v, m)
     | None \<Rightarrow> (let r = mem_fast_read (mc_mem m) addr in (fst r, m\<lparr>mc_mem := snd r\<rparr>)))"

definition catch_up :: "nat \<Rightarrow> 'd machine \<Rightarrow> 'd machine" where
  "catch_up j m = fs_render_below j (fs_advance_chars (j + 1) m)"

definition ram_write :: "u16 \<Rightarrow> u8 \<Rightarrow> 'd machine \<Rightarrow> 'd machine" where
  "ram_write addr val m = m\<lparr>mc_mem := mem_fast_write (mc_mem m) addr val\<rparr>"

text \<open>The write filter: the catch-up is owed only when the target is in the base 64K on a page the chain has fetched.\<close>

definition write_seen :: "int \<Rightarrow> 'd machine \<Rightarrow> bool" where
  "write_seen off m \<longleftrightarrow> 0 \<le> off \<and> drop_bit (nat (off div 0x4000)) (fs_vpages m) AND 1 \<noteq> 0"

definition fsb_mem_write :: "'d machine \<Rightarrow> u16 \<Rightarrow> u8 \<Rightarrow> u64 \<Rightarrow> 'd machine" where
  "fsb_mem_write m addr val now =
    (let j = rel_time m now div 4 in
     if \<not> (fs_asic_on m \<and> 0x4000 \<le> addr \<and> addr < 0x8000 \<and> asic_page_armed (mc_asic m))
     then (case mem_fast_write_off (mc_mem m) addr of (off, mem) \<Rightarrow>
             (let m1 = m\<lparr>mc_mem := mem\<rparr> in ram_write addr val (if write_seen off m1 then catch_up j m1 else m1)))
     else
       (let m1 = catch_up j m; m2 = m1\<lparr>mc_asic := snd (asic_fast_mem_write (mc_asic m1) addr val)\<rparr>
        in m2\<lparr>fs_bail := (fs_bail m2 \<or> asic_dma_active (mc_asic m2))\<rparr>))"

definition fsb_io_read :: "'d arith \<Rightarrow> 'd machine \<Rightarrow> u16 \<Rightarrow> u64 \<Rightarrow> u8 \<times> 'd machine" where
  "fsb_io_read A m port now = fs_io_read_event A port (rel_time m now) m"

definition fsb_io_write :: "'d arith \<Rightarrow> 'd machine \<Rightarrow> u16 \<Rightarrow> u8 \<Rightarrow> u64 \<Rightarrow> 'd machine" where
  "fsb_io_write A m port val now = fs_io_write_event A port val (rel_time m now) m"

definition fsb_int_ack :: "'d machine \<Rightarrow> u64 \<Rightarrow> u8 \<times> 'd machine" where
  "fsb_int_ack m0 now =
    (let m1 = fs_advance_chars (rel_time m0 now div 4 + 1) (m0\<lparr>fs_irq_tmax := 0\<rparr>);
         m2 = m1\<lparr>mc_ga := ga_batch_int_ack (mc_ga m1)\<rparr>
     in if asic_vid_active (mc_asic m2)
        then (case asic_batch_int_ack (mc_asic m2) of (v, a) \<Rightarrow> (v, m2\<lparr>mc_asic := a\<rparr>)) else (0xFF, m2))"

definition fs_engine :: "'d arith \<Rightarrow> 'd machine batch_engine" where
  "fs_engine A = \<lparr> eng_io = \<lparr> io_mem_read = fsb_mem_read, io_mem_write = fsb_mem_write, io_io_read = fsb_io_read A,
     io_io_write = fsb_io_write A, io_int_ack = Some fsb_int_ack \<rparr>, eng_irq_vector = 0xFF, eng_grid = True \<rparr>"

subsection \<open>One frame\<close>

definition fast_enter :: "u32 \<Rightarrow> z80_state \<Rightarrow> 'd machine \<Rightarrow> 'd machine" where
  "fast_enter target z m0 =
    (let m = m0\<lparr>fs_t0 := z_tstates z, fs_chars := 0, fs_cells := 0, fs_audio_steps := 0, fs_audio_accs := 0, fs_fdc_done := 0,
           fs_prt_done := 0, fs_pend := [], fs_pend_head := 0, fs_vpages := 0, fs_target := target,
           fs_frames_seen := fst (snd (video_peek (mc_video m0))), fs_cut := False, fs_bail := False,
           fs_asic_on := asic_vid_active (mc_asic m0), fs_lpen_on := (lg_type (mc_lgun m0) \<noteq> 0), fs_lpen_pending := False,
           fs_fdc_hot := \<not> fdc_quiet (mc_fdc m0)\<rparr>
     in m\<lparr>fs_irq_cache := fs_irq m, fs_irq_tmax := 0\<rparr>)"

text \<open>The poll of an instruction boundary, behind the horizon cache.\<close>

definition fs_poll :: "nat \<Rightarrow> 'd machine \<Rightarrow> 'd machine" where
  "fs_poll b_al m0 =
    (if fs_irq_tmax m0 < b_al then
       (let m = fs_advance_chars (fs_visible b_al) m0 in
        if fs_cut m then m
        else m\<lparr>fs_irq_cache := fs_irq m, fs_irq_tmax := 4 * (fs_chars m + crtc_irq_horizon_chars (mc_crtc m) - 1)\<rparr>)
     else m0)"

definition fs_taps :: "z80_state \<Rightarrow> 'd machine \<Rightarrow> 'd machine" where
  "fs_taps z m =
    (if mc_taps m \<noteq> [] \<and> \<not> z80_batch_will_accept (fs_irq_cache m) z
     then m\<lparr>mc_tap_log := mc_tap_log m @ filter (\<lambda>a. a = z_pc z) (mc_taps m)\<rparr> else m)"

text \<open>One turn of the frame loop: whether it breaks, and the state; \<open>None\<close> when the CPU's instruction does not return.\<close>

definition fast_run_instr :: "'d arith \<Rightarrow> nat \<Rightarrow> z80_state \<times> 'd machine \<Rightarrow> (bool \<times> z80_state \<times> 'd machine) option" where
  "fast_run_instr A rel s =
    (case s of (z, m0) \<Rightarrow>
      (let b_al = (rel + 3) div 4 * 4; m = fs_poll b_al m0 in
       if fs_irq_tmax m0 < b_al \<and> fs_cut m then Some (True, z, m)
       else (case z80_batch_step (fs_engine A) (fs_irq_cache m) (z, fs_taps z m) of
               None \<Rightarrow> None | Some (_, z', m') \<Rightarrow> Some (False, z', m'))))"

definition fast_iter :: "'d arith \<Rightarrow> z80_state \<times> 'd machine \<Rightarrow> (bool \<times> z80_state \<times> 'd machine) option" where
  "fast_iter A s =
    (case s of (z, m0) \<Rightarrow>
      (let rel = rel_time m0 (z_tstates z) in
       if z_halted z then
         (let m1 = fs_advance_chars (fs_visible rel) (m0\<lparr>fs_irq_tmax := 0\<rparr>) in
          if fs_cut m1 then Some (True, z, m1)
          else if \<not> (z_iff1 z \<noteq> 0 \<and> fs_irq m1) then
            (let m2 = fs_advance_chars (fs_chars m1 + (if z_iff1 z \<noteq> 0 then 1 else 64)) m1; vis = 4 * (fs_chars m2 - 1) + 1
             in Some (False, if rel < vis then z80_batch_halt (of_nat (vis - rel)) z else z, m2))
          else fast_run_instr A rel (z, m1))
       else fast_run_instr A rel (z, m0)))"

primrec fast_loop :: "'d arith \<Rightarrow> nat \<Rightarrow> z80_state \<times> 'd machine \<Rightarrow> (z80_state \<times> 'd machine) option" where
  "fast_loop A 0 s = Some s"
| "fast_loop A (Suc guard) s =
    (if fs_cut (snd s) \<or> fs_bail (snd s) then Some s
     else (case fast_iter A s of
             None \<Rightarrow> None | Some (stop, s') \<Rightarrow> if stop then Some s' else fast_loop A guard s'))"

text \<open>The committed bus that the per-cycle loop resumes from.\<close>

definition exit_bus :: "nat \<Rightarrow> 'd machine \<Rightarrow> Bus \<times> 'd machine" where
  "exit_bus m_next m =
    (let cr = mc_crtc m; b = drive (ga_clock_out (of_nat m_next AND 0x0F) (cr_ma cr) (cr_ra cr)) bus_resting;
         l = ppi_fast_lines (mc_ppi m);
         r = (if \<not> ln_bdir l \<and> ln_bc1 l then psg_fast_read (mc_psg m) (ln_kbd_row l) 0xFF else (ln_da l, mc_psg m))
     in (b\<lparr>b_vid := (b_vid b)\<lparr>vid_hsync := cr_in_hsync cr, vid_vsync := cr_in_vsync cr, vid_dispen := cr_dispen cr,
             vid_ma := cr_ma cr, vid_ra := cr_ra cr, vid_frame_line := cr_scanline cr\<rparr>,
           b_ay := (b_ay b)\<lparr>ay_bdir := ln_bdir l, ay_bc1 := ln_bc1 l, ay_kbd_row := ln_kbd_row l, ay_da := fst r\<rparr>,
           b_tape := (b_tape b)\<lparr>tape_motor := ln_tape_motor l, tape_wdata := ln_tape_wdata l, tape_rdata := tp_level (mc_tape m)\<rparr>,
           b_cpu := (if fs_irq m then (b_cpu b)\<lparr>cpu_irq := True\<rparr> else b_cpu b)\<rparr>, m\<lparr>mc_psg := snd r\<rparr>))"

definition fast_exit :: "'d arith \<Rightarrow> z80_state \<times> 'd machine \<Rightarrow> bool \<times> z80_state \<times> 'd machine" where
  "fast_exit A s =
    (case s of (z, m0) \<Rightarrow>
      (let relB = rel_time m0 (z_tstates z) in
       if relB = 0 then (False, z, m0)
       else
         (let m_next = 4 * (relB - 1) + 2;
              m1 = fs_advance_chars (fs_visible relB) m0;
              m2 = fs_render_below (fs_chars m1) m1;
              m3 = fs_audio_run A (fs_chars m2) m2;
              m4 = (if fs_audio_accs m3 < fs_audio_steps m3 \<and> 16 * (fs_audio_steps m3 - 1) + 15 \<le> m_next - 1
                    then (accumulate_audio A m3)\<lparr>fs_audio_accs := fs_audio_accs m3 + 1\<rparr> else m3);
              m5 = fs_fdc_to A m_next m4;
              m6 = (if fs_prt_done m5 < m_next
                    then m5\<lparr>mc_printer := printer_advance (mc_printer m5) (of_nat (m_next - fs_prt_done m5))\<rparr> else m5);
              m7 = m6\<lparr>mc_ga := ga_advance (mc_ga m6) (of_nat m_next), mc_master_cycles := mc_master_cycles m6 + m_next\<rparr>
          in case exit_bus m_next m7 of (bus, m8) \<Rightarrow>
            (let cr = mc_crtc m8; hs = cr_in_hsync cr; vs = cr_in_vsync cr;
                 m9 = m8\<lparr>mc_bus := bus, mc_ga := ga_batch_set_sync (mc_ga m8) hs vs,
                        mc_video := video_batch_set_sync hs vs (mc_video m8),
                        mc_asic := (if fs_asic_on m8 then asic_batch_set_sync (mc_asic m8) hs (cr_scanline cr) else mc_asic m8)\<rparr>
             in (fs_cut m9, z80_batch_release_bus z, m9)))))"

definition run_frame_fast :: "'d arith \<Rightarrow> u32 \<Rightarrow> z80_state \<times> 'd machine \<Rightarrow> (bool \<times> z80_state \<times> 'd machine) option" where
  "run_frame_fast A target s =
    (case s of (z, m) \<Rightarrow>
      (case fast_loop A kMasterPerFrame (z, fast_enter target z m) of None \<Rightarrow> None | Some s' \<Rightarrow> Some (fast_exit A s')))"

end
