(* ===== verification/Machine_Chain.thy ===== *)
theory Machine_Chain
  imports Machine
begin

text \<open>
  The eager chain of the Fast tier. A catch-up to any target is the iteration of one character step, so the
  schedule of the catch-ups cannot be observed; and the horizon cache of the interrupt poll is never stale.
\<close>

subsection \<open>What the CRTC sees of the ASIC\<close>

lemma frame_line_vid [simp]:
  "as_plugged (asic_batch_frame_line a l) = as_plugged a"
  "asic_vid_active (asic_batch_frame_line a l) = asic_vid_active a"
  "asic_vid_extend_border (asic_batch_frame_line a l) = asic_vid_extend_border a"
  "asic_vid_split (asic_batch_frame_line a l) = asic_vid_split a" "asic_vid_scroll (asic_batch_frame_line a l) = asic_vid_scroll a"
  "asic_vid_pri_active (asic_batch_frame_line a l) = asic_vid_pri_active a"
  by (simp_all add: asic_batch_frame_line_def asic_frame_line_def Let_def asic_vid_active_def asic_vid_extend_border_def
    asic_vid_split_def asic_vid_scroll_def asic_vid_pri_active_def)

lemma crtc_frame_line [simp]: "crtc_char (Some (asic_batch_frame_line a l)) = crtc_char (Some a)"
proof -
  have s: "disp_skew (Some (asic_batch_frame_line a l)) = disp_skew (Some a)" by (simp add: fun_eq_iff disp_skew_def Let_def)
  have n: "snapshot_split (Some (asic_batch_frame_line a l)) = snapshot_split (Some a)"
    by (simp add: fun_eq_iff snapshot_split_def Let_def)
  have f: "crtc_newframe (Some (asic_batch_frame_line a l)) = crtc_newframe (Some a)" by (simp add: fun_eq_iff crtc_newframe_def n)
  have r: "crtc_newrow (Some (asic_batch_frame_line a l)) = crtc_newrow (Some a)"
    by (simp add: fun_eq_iff crtc_newrow_def f Let_def)
  have "crtc_newscanline (Some (asic_batch_frame_line a l)) = crtc_newscanline (Some a)"
    by (simp add: fun_eq_iff crtc_newscanline_def f row_line_def r Let_def)
  moreover have "dispen_at (Some (asic_batch_frame_line a l)) = dispen_at (Some a)" by (simp add: fun_eq_iff dispen_at_def s)
  ultimately show ?thesis by (simp add: fun_eq_iff crtc_char_def Let_def)
qed

lemma char_view_frame_line [simp]: "char_view (Some (asic_batch_frame_line a l)) = char_view (Some a)"
  by (simp add: fun_eq_iff char_view_def apply_vscroll_def Let_def)

lemma frame_line_idem [simp]:
  "asic_batch_frame_line (asic_batch_frame_line a l) l = asic_batch_frame_line a l"
proof -
  have "(x AND 0x7F OR y) AND 0x7F OR y = x AND 0x7F OR y" for x y :: u8
    by (rule bit_word_eqI) (auto simp: bit_simps)
  then show ?thesis by (cases a) (simp add: asic_batch_frame_line_def asic_frame_line_def Let_def)
qed

subsection \<open>One character\<close>

definition one_char :: "'d machine \<times> u16 option \<Rightarrow> CrtcCharView \<times> 'd machine \<times> u16 option" where
  "one_char s = (case s of (m, ll) \<Rightarrow>
     (case char_view (Some (mc_asic m)) (mc_crtc m) of (v, c) \<Rightarrow> apply_view v (m\<lparr>mc_crtc := c\<rparr>, ll)))"

definition char_fun :: "bool \<Rightarrow> 'd machine \<times> u16 option \<Rightarrow> CrtcCharView \<times> 'd machine \<times> u16 option" where
  "char_fun gun = (if gun then gun_char else one_char)"

text \<open>The reference: one character with the line always relayed.\<close>

definition fs_char :: "'d machine \<Rightarrow> 'd machine" where
  "fs_char m = (case char_fun (fs_lpen_on m) (m, None) of (v, m', _) \<Rightarrow>
     m'\<lparr>fs_pend := fs_pend m' @ [v], fs_chars := fs_chars m' + 1\<rparr>)"

primrec iter_chars :: "('s \<Rightarrow> 'v \<times> 's) \<Rightarrow> nat \<Rightarrow> 's \<Rightarrow> 'v list \<times> 's" where
  "iter_chars f 0 s = ([], s)"
| "iter_chars f (Suc n) s = (case f s of (v, s') \<Rightarrow> (case iter_chars f n s' of (vs, s'') \<Rightarrow> (v # vs, s'')))"

lemma gun_chars_iter: "gun_chars n s = iter_chars gun_char n s"
  by (induction n arbitrary: s) simp_all

lemma advance_one: "crtc_advance_view asic c 1 = (if vw_edges (fst (char_view asic c)) \<noteq> [] then 1 else 0, [fst (char_view asic c)], snd (char_view asic c))"
  by (simp add: advance_view_steps split_def)

text \<open>Events never look at the CRTC.\<close>

lemma apply_view_crtc:
  "apply_view v (m\<lparr>mc_crtc := c\<rparr>, ll) = (case apply_view v (m, ll) of (v', m', ll') \<Rightarrow> (v', m'\<lparr>mc_crtc := c\<rparr>, ll'))"
  by (cases m) (simp add: apply_view_def Let_def)

lemma apply_view_asic:
  "\<exists>l. mc_asic (fst (snd (apply_view v (m, ll)))) = (if l = None then mc_asic m else asic_batch_frame_line (mc_asic m) (the l))"
proof (cases "fs_asic_on m \<and> ll \<noteq> Some (vw_frame_line v)")
  case True
  then show ?thesis by (intro exI [of _ "Some (vw_frame_line v)"]) (simp add: apply_view_def Let_def)
next
  case False
  then show ?thesis by (intro exI [of _ None]) (auto simp: apply_view_def Let_def)
qed

lemma apply_view_char_view: "char_view (Some (mc_asic (fst (snd (apply_view v (m, ll)))))) = char_view (Some (mc_asic m))"
  using apply_view_asic [of v m ll] by auto

lemma view_steps_frame_line: "char_view (Some a) = char_view (Some b) \<Longrightarrow> view_steps (Some a) c n = view_steps (Some b) c n"
  by (induction n arbitrary: c) (simp_all add: split_def)

lemma bulk_chars_iter: "bulk_chars n s = iter_chars one_char n s"
proof -
  have main: "apply_views (fst (view_steps (Some (mc_asic m)) (mc_crtc m) n))
      (m\<lparr>mc_crtc := snd (view_steps (Some (mc_asic m)) (mc_crtc m) n)\<rparr>, ll) = iter_chars one_char n (m, ll)"
    for m :: "'a machine" and ll
  proof (induction n arbitrary: m ll)
    case (Suc n)
    obtain v c where cv: "char_view (Some (mc_asic m)) (mc_crtc m) = (v, c)" by (cases "char_view (Some (mc_asic m)) (mc_crtc m)")
    obtain v' m' ll' where a: "apply_view v (m, ll) = (v', m', ll')" by (metis prod_cases3)
    have e: "view_steps (Some (mc_asic m')) = view_steps (Some (mc_asic m))"
      using apply_view_char_view [of v m ll] a by (simp add: fun_eq_iff view_steps_frame_line)
    have "iter_chars one_char n (m'\<lparr>mc_crtc := c\<rparr>, ll') =
      apply_views (fst (view_steps (Some (mc_asic m)) c n)) (m'\<lparr>mc_crtc := snd (view_steps (Some (mc_asic m)) c n)\<rparr>, ll')"
      using Suc.IH [of "m'\<lparr>mc_crtc := c\<rparr>" ll'] by (simp add: e)
    moreover have "one_char (m, ll) = (v', m'\<lparr>mc_crtc := c\<rparr>, ll')" by (simp add: one_char_def cv apply_view_crtc a)
    moreover have "apply_view v (m\<lparr>mc_crtc := k\<rparr>, ll) = (v', m'\<lparr>mc_crtc := k\<rparr>, ll')" for k by (simp add: apply_view_crtc a)
    ultimately show ?case by (simp add: cv split_def)
  qed simp
  show ?thesis by (cases s) (simp add: bulk_chars_def advance_view_steps split_def main)
qed

subsection \<open>The dedupe of the relayed line\<close>

definition relayed :: "'d machine \<Rightarrow> u16 option \<Rightarrow> bool" where
  "relayed m ll \<longleftrightarrow> (\<forall>l. ll = Some l \<longrightarrow> fs_asic_on m \<longrightarrow> asic_batch_frame_line (mc_asic m) l = mc_asic m)"

lemma apply_view_dedupe:
  assumes "relayed m ll"
  shows "fst (apply_view v (m, ll)) = fst (apply_view v (m, None))"
    "fst (snd (apply_view v (m, ll))) = fst (snd (apply_view v (m, None)))"
    "relayed (fst (snd (apply_view v (m, ll)))) (snd (snd (apply_view v (m, ll))))"
proof -
  consider "\<not> fs_asic_on m" | "fs_asic_on m" "ll \<noteq> Some (vw_frame_line v)" | "fs_asic_on m" "ll = Some (vw_frame_line v)" by blast
  then have "fst (apply_view v (m, ll)) = fst (apply_view v (m, None)) \<and>
    fst (snd (apply_view v (m, ll))) = fst (snd (apply_view v (m, None))) \<and>
    relayed (fst (snd (apply_view v (m, ll)))) (snd (snd (apply_view v (m, ll))))"
  proof cases
    case 1
    then show ?thesis by (simp add: apply_view_def relayed_def Let_def)
  next
    case 2
    then show ?thesis by (simp add: apply_view_def relayed_def Let_def)
  next
    case 3
    then have "asic_batch_frame_line (mc_asic m) (vw_frame_line v) = mc_asic m" using assms by (simp add: relayed_def)
    with 3 show ?thesis by (cases m) (simp add: apply_view_def relayed_def Let_def)
  qed
  then show "fst (apply_view v (m, ll)) = fst (apply_view v (m, None))"
    "fst (snd (apply_view v (m, ll))) = fst (snd (apply_view v (m, None)))"
    "relayed (fst (snd (apply_view v (m, ll)))) (snd (snd (apply_view v (m, ll))))" by blast+
qed

lemma char_fun_dedupe:
  assumes "relayed m ll"
  shows "fst (char_fun gun (m, ll)) = fst (char_fun gun (m, None))"
    "fst (snd (char_fun gun (m, ll))) = fst (snd (char_fun gun (m, None)))"
    "relayed (fst (snd (char_fun gun (m, ll)))) (snd (snd (char_fun gun (m, ll))))"
proof -
  have r: "relayed (m\<lparr>mc_crtc := c\<rparr>) ll" for c using assms by (simp add: relayed_def)
  have g: "relayed (k\<lparr>mc_crtc := c, mc_lgun := x, fs_lpen_pending := b\<rparr>) ll = relayed k ll" for k :: "'a machine" and c x b ll
    by (simp add: relayed_def)
  note d = apply_view_dedupe [OF r [of "snd (char_view (Some (mc_asic m)) (mc_crtc m))"], of "fst (char_view (Some (mc_asic m)) (mc_crtc m))"]
  have "fst (char_fun gun (m, ll)) = fst (char_fun gun (m, None)) \<and>
    fst (snd (char_fun gun (m, ll))) = fst (snd (char_fun gun (m, None))) \<and>
    relayed (fst (snd (char_fun gun (m, ll)))) (snd (snd (char_fun gun (m, ll))))"
  proof (cases gun)
    case True
    then show ?thesis
      using d
      by (simp add: char_fun_def gun_char_def advance_one [simplified] split_def Let_def g)
  next
    case False
    then show ?thesis
      using d
      by (simp add: char_fun_def one_char_def split_def)
  qed
  then show "fst (char_fun gun (m, ll)) = fst (char_fun gun (m, None))"
    "fst (snd (char_fun gun (m, ll))) = fst (snd (char_fun gun (m, None)))"
    "relayed (fst (snd (char_fun gun (m, ll)))) (snd (snd (char_fun gun (m, ll))))" by blast+
qed

subsection \<open>Any schedule is the iteration of one character\<close>

text \<open>The character step neither reads nor writes the buffer, the position and the bail flag.\<close>

definition put_chain :: "CrtcCharView list \<Rightarrow> nat \<Rightarrow> bool \<Rightarrow> 'd machine \<Rightarrow> 'd machine" where
  "put_chain p k b m = m\<lparr>fs_pend := p, fs_chars := k, fs_bail := b\<rparr>"

lemma put_chain_sel [simp]:
  "fs_pend (put_chain p k b m) = p" "fs_chars (put_chain p k b m) = k" "fs_bail (put_chain p k b m) = b"
  "fs_lpen_on (put_chain p k b m) = fs_lpen_on m" "mc_asic (put_chain p k b m) = mc_asic m" "mc_crtc (put_chain p k b m) = mc_crtc m"
  "mc_ga (put_chain p k b m) = mc_ga m" "fs_asic_on (put_chain p k b m) = fs_asic_on m"
  "put_chain p k b (put_chain p' k' b' m) = put_chain p k b m" "put_chain (fs_pend m) (fs_chars m) (fs_bail m) m = m"
  by (simp_all add: put_chain_def)

lemma apply_view_put: "apply_view v (put_chain p k b m, ll) = (case apply_view v (m, ll) of (v', m', ll') \<Rightarrow> (v', put_chain p k b m', ll'))"
  by (cases m) (simp add: apply_view_def put_chain_def Let_def)

lemma put_chain_crtc: "(put_chain p k b m)\<lparr>mc_crtc := c\<rparr> = put_chain p k b (m\<lparr>mc_crtc := c\<rparr>)"
  by (cases m) (simp add: put_chain_def)

lemma put_chain_gun:
  "(put_chain p k b m)\<lparr>mc_lgun := x\<rparr> = put_chain p k b (m\<lparr>mc_lgun := x\<rparr>)"
  "(put_chain p k b m)\<lparr>fs_lpen_pending := y\<rparr> = put_chain p k b (m\<lparr>fs_lpen_pending := y\<rparr>)"
  "mc_lgun (put_chain p k b m) = mc_lgun m" "fs_lpen_pending (put_chain p k b m) = fs_lpen_pending m"
  by (cases m, simp add: put_chain_def)+

lemma char_fun_put:
  "char_fun gun (put_chain p k b m, ll) = (case char_fun gun (m, ll) of (v', m', ll') \<Rightarrow> (v', put_chain p k b m', ll'))"
proof (cases gun)
  case True
  then show ?thesis
    by (simp add: char_fun_def gun_char_def advance_one [simplified] split_def Let_def put_chain_crtc apply_view_put put_chain_gun)
next
  case False
  then show ?thesis by (simp add: char_fun_def one_char_def split_def put_chain_crtc apply_view_put)
qed

lemma iter_put:
  "iter_chars (char_fun gun) n (put_chain p k b m, ll) =
    (case iter_chars (char_fun gun) n (m, ll) of (vs, m', ll') \<Rightarrow> (vs, put_chain p k b m', ll'))"
proof (induction n arbitrary: m ll)
  case (Suc n)
  obtain v' m' ll' where "char_fun gun (m, ll) = (v', m', ll')" by (metis prod_cases3)
  then show ?case using Suc.IH [of m' ll'] by (simp add: char_fun_put split_def)
qed simp

lemma apply_view_keeps:
  "fs_lpen_on (fst (snd (apply_view v (m, ll)))) = fs_lpen_on m" "fs_pend (fst (snd (apply_view v (m, ll)))) = fs_pend m"
  "fs_chars (fst (snd (apply_view v (m, ll)))) = fs_chars m" "fs_bail (fst (snd (apply_view v (m, ll)))) = fs_bail m"
  "mc_crtc (fst (snd (apply_view v (m, ll)))) = mc_crtc m" "fs_asic_on (fst (snd (apply_view v (m, ll)))) = fs_asic_on m"
  by (simp_all add: apply_view_def Let_def)

lemma char_fun_keeps:
  "fs_lpen_on (fst (snd (char_fun gun (m, ll)))) = fs_lpen_on m" "fs_pend (fst (snd (char_fun gun (m, ll)))) = fs_pend m"
  "fs_chars (fst (snd (char_fun gun (m, ll)))) = fs_chars m" "fs_bail (fst (snd (char_fun gun (m, ll)))) = fs_bail m"
  by (simp_all add: char_fun_def gun_char_def one_char_def split_def Let_def apply_view_keeps)

lemma iter_fs_char:
  assumes "relayed m ll"
  shows "(fs_char ^^ n) m = (case iter_chars (char_fun (fs_lpen_on m)) n (m, ll) of (vs, m', _) \<Rightarrow>
    put_chain (fs_pend m @ vs) (fs_chars m + n) (fs_bail m) m')"
  using assms
proof (induction n arbitrary: m ll)
  case (Suc n)
  define g where "g = fs_lpen_on m"
  obtain v m1 l1 where f: "char_fun g (m, ll) = (v, m1, l1)" by (metis prod_cases3)
  have k: "fs_lpen_on m1 = g" "fs_pend m1 = fs_pend m" "fs_chars m1 = fs_chars m" "fs_bail m1 = fs_bail m"
    using char_fun_keeps [of g m ll] f by (simp_all add: g_def)
  have fc: "fs_char m = put_chain (fs_pend m @ [v]) (fs_chars m + 1) (fs_bail m) m1"
    using char_fun_dedupe(1,2) [OF Suc.prems, of g] f k by (simp add: fs_char_def g_def [symmetric] split_def) (simp add: put_chain_def)
  have r: "relayed (fs_char m) l1" using char_fun_dedupe(3) [OF Suc.prems, of g] f by (simp add: fc relayed_def)
  have "(fs_char ^^ Suc n) m = (fs_char ^^ n) (fs_char m)" by (simp add: funpow_swap1)
  also have "\<dots> = (case iter_chars (char_fun g) n (m1, l1) of (vs, m', _) \<Rightarrow>
      put_chain (fs_pend m @ v # vs) (fs_chars m + Suc n) (fs_bail m) m')"
    using Suc.IH [OF r] by (simp add: fc k iter_put split_def)
  finally show ?case by (simp add: g_def [symmetric] f split_def)
qed simp

lemma advance_iter:
  "fs_advance_chars target m =
    (if target \<le> fs_chars m then m
     else (fs_char ^^ (min target kMaxFastChars - fs_chars m)) (if kMaxFastChars < target then m\<lparr>fs_bail := True\<rparr> else m))"
proof -
  define t where "t = min target kMaxFastChars"
  define m1 where "m1 = (if kMaxFastChars < target then m\<lparr>fs_bail := True\<rparr> else m)"
  have k: "fs_chars m1 = fs_chars m" by (simp add: m1_def)
  have run: "(if fs_lpen_on m1 then gun_chars n (m1, None) else bulk_chars n (m1, None)) =
      iter_chars (char_fun (fs_lpen_on m1)) n (m1, None)" for n
    by (simp add: gun_chars_iter bulk_chars_iter char_fun_def)
  have keep: "fs_pend (fst (snd (iter_chars (char_fun g) n (m', l)))) = fs_pend m' \<and>
      fs_bail (fst (snd (iter_chars (char_fun g) n (m', l)))) = fs_bail m'" for g n l and m' :: "'a machine"
  proof (induction n arbitrary: m' l)
    case (Suc n)
    obtain v m2 l2 where "char_fun g (m', l) = (v, m2, l2)" by (metis prod_cases3)
    then show ?case using Suc.IH [of m2 l2] char_fun_keeps [of g m' l] by (simp add: split_def)
  qed simp
  have "relayed m1 None" by (simp add: relayed_def)
  note it = iter_fs_char [OF this]
  show ?thesis
  proof (cases "target \<le> fs_chars m \<or> t \<le> fs_chars m")
    case True
    then show ?thesis by (auto simp: fs_advance_chars_def Let_def m1_def t_def)
  next
    case False
    have "fs_advance_chars target m = (case iter_chars (char_fun (fs_lpen_on m1)) (t - fs_chars m1) (m1, None) of
        (views, m2, _) \<Rightarrow> m2\<lparr>fs_pend := fs_pend m2 @ views, fs_chars := t\<rparr>)"
      using False unfolding fs_advance_chars_def Let_def m1_def [symmetric] t_def [symmetric] run k by simp
    also have "\<dots> = (fs_char ^^ (t - fs_chars m)) m1"
      using False keep [of "fs_lpen_on m1" "t - fs_chars m" m1 None] by (simp add: it k split_def) (simp add: put_chain_def)
    finally show ?thesis using False by (simp add: m1_def t_def)
  qed
qed

lemma fs_char_chars [simp]: "fs_chars (fs_char m) = fs_chars m + 1" "fs_bail (fs_char m) = fs_bail m" "fs_lpen_on (fs_char m) = fs_lpen_on m"
  by (simp_all add: fs_char_def split_def char_fun_keeps)

lemma fs_iter_keeps [simp]: "fs_chars ((fs_char ^^ n) m) = fs_chars m + n" "fs_bail ((fs_char ^^ n) m) = fs_bail m"
  "fs_lpen_on ((fs_char ^^ n) m) = fs_lpen_on m"
  by (induction n) simp_all

definition bail_if :: "bool \<Rightarrow> 'd machine \<Rightarrow> 'd machine" where
  "bail_if b m = m\<lparr>fs_bail := (b \<or> fs_bail m)\<rparr>"

lemma bail_if_simps [simp]:
  "bail_if False m = m" "fs_bail m \<Longrightarrow> bail_if b m = m" "bail_if b (bail_if c m) = bail_if (b \<or> c) m" "fs_chars (bail_if b m) = fs_chars m"
  by (simp_all add: bail_if_def)

lemma bail_if_put: "bail_if b m = put_chain (fs_pend m) (fs_chars m) (b \<or> fs_bail m) m"
  by (simp add: put_chain_def bail_if_def)

lemma fs_char_bail: "fs_char (bail_if b m) = bail_if b (fs_char m)"
  unfolding bail_if_put by (simp add: fs_char_def split_def char_fun_put char_fun_keeps) (simp add: put_chain_def)

lemma fs_iter_bail: "(fs_char ^^ n) (bail_if b m) = bail_if b ((fs_char ^^ n) m)"
  by (induction n) (simp_all add: fs_char_bail)

lemma advance_form:
  "fs_advance_chars t m = (if t \<le> fs_chars m then m
    else bail_if (kMaxFastChars < t) ((fs_char ^^ (min t kMaxFastChars - fs_chars m)) m))"
proof -
  have "(if kMaxFastChars < t then m\<lparr>fs_bail := True\<rparr> else m) = bail_if (kMaxFastChars < t) m" by (simp add: bail_if_def)
  then show ?thesis by (simp add: advance_iter fs_iter_bail)
qed

lemma advance_twice: "fs_advance_chars t2 (fs_advance_chars t1 m) = fs_advance_chars (max t1 t2) m"
proof -
  define K where "K = kMaxFastChars"
  note f = advance_form [folded K_def]
  show ?thesis
  proof (cases "t1 \<le> fs_chars m")
    case True
    then have "fs_advance_chars t1 m = m" by (simp add: f [of t1 m])
    moreover have "fs_advance_chars (max t1 t2) m = fs_advance_chars t2 m"
      using True by (cases "t1 \<le> t2") (simp_all add: f [of t1 m] f [of t2 m] max_def)
    ultimately show ?thesis by simp
  next
    case False
    define n1 where "n1 = min t1 K - fs_chars m"
    define m1 where "m1 = bail_if (K < t1) ((fs_char ^^ n1) m)"
    have a: "fs_advance_chars t1 m = m1" "fs_chars m1 = fs_chars m + n1" using False by (simp_all add: f [of t1 m] m1_def n1_def)
    show ?thesis
    proof (cases "t2 \<le> t1")
      case True
      have "fs_advance_chars t2 m1 = m1"
      proof (cases "t2 \<le> fs_chars m1")
        case out: False
        then have "K < t1" "min t2 K - fs_chars m1 = 0" using True False a(2) by (simp_all add: n1_def)
        then show ?thesis unfolding f [of t2 m1] by (simp add: m1_def)
      qed (simp add: f [of t2 m1])
      then show ?thesis using True a by (simp add: max_def)
    next
      case later: False
      show ?thesis
      proof (cases "t2 \<le> fs_chars m1")
        case True
        then have "K \<le> fs_chars m" "\<not> t1 \<le> K" using later False a(2) by (simp_all add: n1_def min_def split: if_splits)
        then have z: "n1 = 0" "min t2 K - fs_chars m = 0" "K < t1" "K < t2" using later by (simp_all add: n1_def)
        have "fs_advance_chars t2 m1 = bail_if True m" unfolding f [of t2 m1] using True z by (simp add: m1_def)
        moreover have "fs_advance_chars t2 m = bail_if True m" unfolding f [of t2 m] using later False z by simp
        ultimately show ?thesis using later a(1) by (simp add: max_def)
      next
        case go: False
        have s: "min t2 K - fs_chars m1 + n1 = min t2 K - fs_chars m" using later False a(2) by (auto simp: n1_def min_def)
        have "fs_advance_chars t2 m1 = bail_if (K < t2) ((fs_char ^^ (min t2 K - fs_chars m1)) m1)" using go by (simp add: f [of t2 m1])
        also have "\<dots> = bail_if (K < t2) ((fs_char ^^ (min t2 K - fs_chars m1 + n1)) m)"
        proof -
          have "(K < t2 \<or> K < t1) = (K < t2)" using later by linarith
          then show ?thesis by (simp add: m1_def fs_iter_bail funpow_add del: bail_if_simps(1,2))
        qed
        also have "\<dots> = fs_advance_chars t2 m" unfolding f [of t2 m] s using later False by simp
        finally show ?thesis using later a(1) by (simp add: max_def)
      qed
    qed
  qed
qed

text \<open>C8 (fs_schedule_free): the eager chain does not depend on when it is asked to catch up. Two catch-ups in a row leave the machine
  that one catch-up to the later target leaves (CRTC, Gate Array counters and mode latch, ASIC raster interrupt, light pen, pending
  views with their stamped modes, page set, frame count, cut and bail flags), with or without the light gun, past the frame-length
  guard too; and a catch-up is the iteration of one reference character, which relays its line to the ASIC every time. So the
  deduplicated relay, the closed-form spans of the CRTC and the deferred light-pen latch cannot be observed.\<close>

theorem fs_schedule_free:
  "fs_advance_chars t2 (fs_advance_chars t1 m) = fs_advance_chars (max t1 t2) m \<and>
    fs_advance_chars (min (fs_chars m + n) (max (fs_chars m) kMaxFastChars)) m =
      (fs_char ^^ (min (fs_chars m + n) (max (fs_chars m) kMaxFastChars) - fs_chars m)) m"
proof
  show "fs_advance_chars t2 (fs_advance_chars t1 m) = fs_advance_chars (max t1 t2) m" by (rule advance_twice)
next
  define K where "K = kMaxFastChars"
  note f = advance_form [folded K_def]
  show "fs_advance_chars (min (fs_chars m + n) (max (fs_chars m) kMaxFastChars)) m =
      (fs_char ^^ (min (fs_chars m + n) (max (fs_chars m) kMaxFastChars) - fs_chars m)) m"
  proof -
    define u where "u = min (fs_chars m + n) (max (fs_chars m) K)"
    have "u = fs_chars m \<or> fs_chars m < u \<and> u \<le> K" unfolding u_def by linarith
    then have "fs_advance_chars u m = (fs_char ^^ (u - fs_chars m)) m"
    proof (elim disjE conjE)
      assume "fs_chars m < u" "u \<le> K"
      then show ?thesis by (simp add: f [of u m] min_absorb1)
    qed (simp add: f [of "fs_chars m" m])
    then show ?thesis by (simp add: u_def K_def)
  qed
qed

subsection \<open>The horizon cache of the interrupt poll\<close>

lemma apply_view_events:
  "mc_asic (fst (snd (apply_view v (m, None)))) = (if fs_asic_on m then asic_batch_frame_line (mc_asic m) (vw_frame_line v) else mc_asic m)"
  "fs_frames_seen (fst (snd (apply_view v (m, None)))) = (if VSYNC_RISE \<in> set (vw_edges v) then fs_frames_seen m + 1 else fs_frames_seen m)"
  "fs_cut (fst (snd (apply_view v (m, None)))) =
    (fs_cut m \<or> VSYNC_RISE \<in> set (vw_edges v) \<and> fs_target m \<le> fs_frames_seen (fst (snd (apply_view v (m, None)))))"
  "HSYNC_FALL \<notin> set (vw_edges v) \<Longrightarrow> ga_irq_line (mc_ga (fst (snd (apply_view v (m, None))))) = ga_irq_line (mc_ga m)"
  by (simp_all add: apply_view_def Let_def ga_batch_hsync_rise_def ga_batch_vsync_rise_def)

lemma fs_char_plain:
  assumes "\<not> fs_lpen_on m"
  shows "\<exists>m1. m1 = fst (snd (apply_view (fst (char_view (Some (mc_asic m)) (mc_crtc m)))
      (m\<lparr>mc_crtc := crtc_char (Some (mc_asic m)) (mc_crtc m)\<rparr>, None))) \<and>
    mc_crtc (fs_char m) = mc_crtc m1 \<and> mc_asic (fs_char m) = mc_asic m1 \<and> mc_ga (fs_char m) = mc_ga m1 \<and> fs_cut (fs_char m) = fs_cut m1 \<and>
    fs_asic_on (fs_char m) = fs_asic_on m1 \<and> fs_frames_seen (fs_char m) = fs_frames_seen m1"
proof -
  have c: "snd (char_view (Some (mc_asic m)) (mc_crtc m)) = crtc_char (Some (mc_asic m)) (mc_crtc m)" by (simp add: char_view_def Let_def)
  show ?thesis using assms by (simp add: fs_char_def char_fun_def one_char_def split_def c)
qed

lemma view_levels:
  "vw_frame_line (fst (char_view a c)) = cr_scanline (crtc_char a c)"
  "VSYNC_RISE \<in> set (vw_edges (fst (char_view a c))) \<longleftrightarrow> cr_in_vsync (crtc_char a c) \<and> \<not> cr_in_vsync c"
  "HSYNC_FALL \<in> set (vw_edges (fst (char_view a c))) \<longleftrightarrow> \<not> cr_in_hsync (crtc_char a c) \<and> cr_in_hsync c"
  by (auto simp: char_view_def char_edges_def Let_def)

lemma one_char_events:
  fixes m :: "'d machine"
  assumes "\<not> fs_lpen_on m"
  defines "c' \<equiv> crtc_char (Some (mc_asic m)) (mc_crtc m)"
  shows "mc_crtc (fs_char m) = c'" "fs_asic_on (fs_char m) = fs_asic_on m"
    "mc_asic (fs_char m) = (if fs_asic_on m then asic_batch_frame_line (mc_asic m) (cr_scanline c') else mc_asic m)"
    "fs_cut (fs_char m) = (fs_cut m \<or> cr_in_vsync c' \<and> \<not> cr_in_vsync (mc_crtc m) \<and> fs_target m \<le> fs_frames_seen (fs_char m))"
    "\<not> (cr_in_hsync (mc_crtc m) \<and> \<not> cr_in_hsync c') \<Longrightarrow> ga_irq_line (mc_ga (fs_char m)) = ga_irq_line (mc_ga m)"
proof -
  obtain m1 where m1: "m1 = fst (snd (apply_view (fst (char_view (Some (mc_asic m)) (mc_crtc m))) (m\<lparr>mc_crtc := c'\<rparr>, None)))"
    and e: "mc_crtc (fs_char m) = mc_crtc m1" "mc_asic (fs_char m) = mc_asic m1" "mc_ga (fs_char m) = mc_ga m1"
    "fs_cut (fs_char m) = fs_cut m1" "fs_asic_on (fs_char m) = fs_asic_on m1" "fs_frames_seen (fs_char m) = fs_frames_seen m1"
    using fs_char_plain [OF assms(1)] by (auto simp: c'_def)
  note v = view_levels [of "Some (mc_asic m)" "mc_crtc m", folded c'_def]
  note a = apply_view_events [of _ "m\<lparr>mc_crtc := c'\<rparr>"]
  show "mc_crtc (fs_char m) = c'" "fs_asic_on (fs_char m) = fs_asic_on m" by (simp_all add: e m1 apply_view_keeps)
  show "mc_asic (fs_char m) = (if fs_asic_on m then asic_batch_frame_line (mc_asic m) (cr_scanline c') else mc_asic m)"
    by (simp add: e m1 a(1) v)
  show "fs_cut (fs_char m) = (fs_cut m \<or> cr_in_vsync c' \<and> \<not> cr_in_vsync (mc_crtc m) \<and> fs_target m \<le> fs_frames_seen (fs_char m))"
    unfolding e m1 by (subst a(3)) (simp add: v)
  show "\<not> (cr_in_hsync (mc_crtc m) \<and> \<not> cr_in_hsync c') \<Longrightarrow> ga_irq_line (mc_ga (fs_char m)) = ga_irq_line (mc_ga m)"
    unfolding e m1 using a(4) [of "fst (char_view (Some (mc_asic m)) (mc_crtc m))"] v(3) by auto
qed

text \<open>The ASIC has been relayed the line the CRTC is on: every character leaves it so.\<close>

definition line_synced :: "'d machine \<Rightarrow> bool" where
  "line_synced m \<longleftrightarrow> (fs_asic_on m \<longrightarrow> as_pri_prev_line (mc_asic m) = cr_scanline (mc_crtc m))"

lemma line_synced_char: "\<not> fs_lpen_on m \<Longrightarrow> line_synced (fs_char m)"
  by (simp add: line_synced_def one_char_events asic_batch_frame_line_def asic_frame_line_def Let_def)

lemma repeat_line_quiet:
  "as_pri_prev_line a = l \<Longrightarrow> asic_irq_asserted (asic_batch_frame_line a l) = asic_irq_asserted a"
  by (simp add: asic_irq_asserted_def asic_batch_frame_line_def asic_frame_line_def asic_dma_int_any_def Let_def)

lemma quiet_char:
  assumes "\<not> fs_lpen_on m" "line_synced m"
    and "cr_in_hsync (mc_crtc m) \<longrightarrow> cr_in_hsync (crtc_char (Some (mc_asic m)) (mc_crtc m))"
    and "cr_scanline (crtc_char (Some (mc_asic m)) (mc_crtc m)) = cr_scanline (mc_crtc m)"
    and "cr_in_vsync (crtc_char (Some (mc_asic m)) (mc_crtc m)) = cr_in_vsync (mc_crtc m)"
  shows "fs_irq (fs_char m) = fs_irq m" "fs_cut (fs_char m) = fs_cut m"
proof -
  have i: "ga_irq_line (mc_ga (fs_char m)) = ga_irq_line (mc_ga m)"
    using one_char_events(5) [OF assms(1)] assms(3) by auto
  have a: "fs_asic_on m \<Longrightarrow> asic_irq_asserted (mc_asic (fs_char m)) = asic_irq_asserted (mc_asic m)"
    using assms(2,4) by (simp add: one_char_events(3) [OF assms(1)] repeat_line_quiet line_synced_def)
  show "fs_irq (fs_char m) = fs_irq m"
    using a by (auto simp: fs_irq_def ga_irq_asserted_def i one_char_events(2) [OF assms(1)])
  show "fs_cut (fs_char m) = fs_cut m" using assms(5) by (auto simp: one_char_events(4) [OF assms(1)])
qed

lemma quiet_chars:
  assumes "\<not> fs_lpen_on m" "line_synced m" "\<not> (cr_in_hsync (mc_crtc m) \<and> hsync_width (mc_crtc m) = 0)"
    and "n \<le> crtc_irq_horizon_chars (mc_crtc m) - 1"
  shows "fs_irq ((fs_char ^^ n) m) = fs_irq m \<and> fs_cut ((fs_char ^^ n) m) = fs_cut m \<and> line_synced ((fs_char ^^ n) m) \<and>
    mc_crtc ((fs_char ^^ n) m) = (crtc_char (Some (mc_asic m)) ^^ n) (mc_crtc m) \<and>
    crtc_char (Some (mc_asic ((fs_char ^^ n) m))) = crtc_char (Some (mc_asic m))"
  using assms(4)
proof (induction n)
  case (Suc n)
  define k where "k = (fs_char ^^ n) m"
  have ih: "fs_irq k = fs_irq m" "fs_cut k = fs_cut m" "line_synced k" "mc_crtc k = (crtc_char (Some (mc_asic m)) ^^ n) (mc_crtc m)"
    "crtc_char (Some (mc_asic k)) = crtc_char (Some (mc_asic m))"
    using Suc by (simp_all add: k_def)
  have g: "\<not> fs_lpen_on k" using assms(1) by (simp add: k_def)
  have "n < crtc_irq_horizon_chars (mc_crtc m) - 1" using Suc.prems by simp
  note h = horizon_quiet [OF assms(3) this, of "Some (mc_asic m)"]
  have sc: "cr_scanline (mc_crtc k) = cr_scanline (mc_crtc m) \<and> cr_in_vsync (mc_crtc k) = cr_in_vsync (mc_crtc m)"
  proof (cases n)
    case (Suc i)
    then have "i < crtc_irq_horizon_chars (mc_crtc m) - 1" using Suc.prems by simp
    from horizon_quiet [OF assms(3) this, of "Some (mc_asic m)"] show ?thesis by (simp add: ih(4) Suc)
  qed (simp add: k_def)
  have q: "fs_irq (fs_char k) = fs_irq k" "fs_cut (fs_char k) = fs_cut k"
    using quiet_char [OF g ih(3)] h sc by (simp_all add: ih(4,5))
  show ?case
    using q ih line_synced_char [OF g] one_char_events(1,3) [OF g] by (simp add: k_def [symmetric])
qed (use assms(2) in simp)

text \<open>C9 (fs_horizon_exact): the interrupt poll that the Fast tier skips would have found what it has cached. After a poll that
  really ran at boundary \<open>b\<close>, advance the chain to any later boundary up to \<open>fs_irq_tmax\<close>: the combined INT line of the
  Gate Array's 52-line counter and the ASIC's raster and DMA sources is still the cached one, and no frame boundary has been
  crossed. Hypotheses: no light gun, the ASIC has seen the CRTC's line (every character leaves it so, \<open>line_synced_char\<close>), and not
  the one CRTC state in which the horizon is wrong, HSYNC active with a programmed width of zero.\<close>

theorem fs_horizon_exact:
  assumes "m = fs_poll b m0" "fs_irq_tmax m0 < b" "\<not> fs_cut m"
    and "\<not> fs_lpen_on m" "line_synced m" "\<not> (cr_in_hsync (mc_crtc m) \<and> hsync_width (mc_crtc m) = 0)"
    and "t \<le> fs_irq_tmax m" "fs_visible t \<le> kMaxFastChars"
  shows "fs_irq (fs_advance_chars (fs_visible t) m) = fs_irq_cache m \<and> \<not> fs_cut (fs_advance_chars (fs_visible t) m)"
proof -
  define a where "a = fs_advance_chars (fs_visible b) m0"
  have cut: "\<not> fs_cut a" using assms(1-3) by (auto simp: fs_poll_def a_def Let_def split: if_splits)
  have m: "m = a\<lparr>fs_irq_cache := fs_irq a, fs_irq_tmax := 4 * (fs_chars a + crtc_irq_horizon_chars (mc_crtc a) - 1)\<rparr>"
    using assms(1,2) cut by (simp add: fs_poll_def a_def Let_def)
  have i: "fs_irq_cache m = fs_irq m" "fs_irq_tmax m = 4 * (fs_chars m + crtc_irq_horizon_chars (mc_crtc m) - 1)"
    by (simp_all add: m fs_irq_def)
  have "fs_visible t - fs_chars m \<le> crtc_irq_horizon_chars (mc_crtc m) - 1"
    using assms(7) unfolding i(2) fs_visible_def by auto
  note q = quiet_chars [OF assms(4-6) this]
  show ?thesis
  proof (cases "fs_visible t \<le> fs_chars m")
    case True
    then show ?thesis using assms(3) by (simp add: advance_form [of "fs_visible t" m] i)
  next
    case False
    then have "fs_advance_chars (fs_visible t) m = (fs_char ^^ (fs_visible t - fs_chars m)) m"
      using assms(8) by (simp add: advance_form [of "fs_visible t" m] min_absorb1)
    then show ?thesis using q assms(3) i(1) by simp
  qed
qed

subsection \<open>A machine\<close>

definition demo_machine :: "nat machine" where
  "demo_machine = \<lparr> mc_ga = ga_init, mc_crtc = crtc_std, mc_ppi = ppi_init, mc_psg = psg_init, mc_mem = mem_init, mc_video = demo_screen,
     mc_fdc = fdc_init, mc_tape = tape_init, mc_printer = printer_init, mc_amdrum = amdrum_init, mc_asic = asic_init,
     mc_rs232 = rs232_init, mc_lgun = light_gun_init, mc_bus = bus_resting, mc_master_cycles = 0, mc_wk_serial_on = False,
     mc_taps = [], mc_tap_log = [], mc_digiblaster = False, mc_amdrum_on = False,
     mc_au = \<lparr> au_phase = 0, au_accL = 0, au_accR = 0, au_n = 0, au_dcL_x = 0, au_dcL_y = 0, au_dcR_x = 0, au_dcR_y = 0, au_out = [] \<rparr>,
     fs_t0 = 0, fs_chars = 0, fs_cells = 0, fs_audio_steps = 0, fs_audio_accs = 0, fs_fdc_done = 0, fs_prt_done = 0, fs_fdc_hot = False,
     fs_cut = False, fs_asic_on = False, fs_bail = False, fs_lpen_on = False, fs_lpen_pending = False, fs_target = 1, fs_frames_seen = 0,
     fs_pend = [], fs_pend_head = 0, fs_vpages = 0, fs_irq_tmax = 0, fs_irq_cache = False \<rparr>"

lemma demo_sel [simp]:
  "fs_chars demo_machine = 0" "fs_cells demo_machine = 0" "fs_lpen_on demo_machine = False" "fs_asic_on demo_machine = False"
  "fs_cut demo_machine = False" "fs_bail demo_machine = False" "mc_asic demo_machine = asic_init" "mc_crtc demo_machine = crtc_std"
  "fs_irq_tmax demo_machine = 0" "fs_pend demo_machine = []" "fs_pend_head demo_machine = 0" "fs_vpages demo_machine = 0"
  "mc_video demo_machine = demo_screen" "mc_mem demo_machine = mem_init" "mc_ga demo_machine = ga_init" "fs_t0 demo_machine = 0"
  by (simp_all add: demo_machine_def)

lemma demo_char:
  "crtc_char (Some asic_init) crtc_std = (hsync_char crtc_std)\<lparr>cr_ma := 0, cr_dispen := True, cr_hcc := 1\<rparr>"
  by (subst crtc_char_mid)
    (simp_all add: crtc_std_def crtc_init_def dispen_at_def disp_skew_def Let_def asic_vid_active_def asic_init_def)

lemma demo_hsync: "hsync_char crtc_std = crtc_std"
  by (simp add: hsync_char_def crtc_std_def crtc_init_def Let_def)

text \<open>A standard raster polled after its first character: 49 more characters are advanced on the cached answer.\<close>

theorem fs_horizon_exact_witness:
  "fs_irq (fs_advance_chars (fs_visible 200) (fs_poll 4 demo_machine)) = fs_irq_cache (fs_poll 4 demo_machine)"
proof -
  define a where "a = fs_char demo_machine"
  have one: "fs_advance_chars (fs_visible 4) demo_machine = a"
    by (simp add: advance_form [of _ demo_machine] fs_visible_def kMaxFastChars_def kMasterPerFrame_def a_def)
  have c: "mc_crtc a = crtc_std\<lparr>cr_ma := 0, cr_dispen := True, cr_hcc := 1\<rparr>" "\<not> fs_lpen_on a" "\<not> fs_asic_on a" "\<not> fs_cut a"
    using one_char_events(1,2,4) [of demo_machine] demo_char by (simp_all add: a_def demo_hsync)
  have p: "fs_poll 4 demo_machine = a\<lparr>fs_irq_cache := fs_irq a, fs_irq_tmax := 4 * (fs_chars a + crtc_irq_horizon_chars (mc_crtc a) - 1)\<rparr>"
    using one c(4) by (simp add: fs_poll_def Let_def)
  have t: "crtc_irq_horizon_chars (mc_crtc a) = 60" "fs_chars a = 1" unfolding c(1)
    by (simp_all add: crtc_irq_horizon_chars_def crtc_std_def crtc_init_def hsync_width_def a_def)
  have "line_synced (fs_poll 4 demo_machine)" using c(3) by (simp add: p line_synced_def)
  moreover have "\<not> cr_in_hsync (mc_crtc a)" unfolding c(1) by (simp add: crtc_std_def crtc_init_def)
  ultimately show ?thesis
    using fs_horizon_exact [of "fs_poll 4 demo_machine" 4 demo_machine 200] c(2-4) t
    by (simp add: p fs_visible_def kMaxFastChars_def kMasterPerFrame_def)
qed

end
