(* ===== verification/Machine_Render.thy ===== *)
theory Machine_Render
  imports Machine_Chain
begin

text \<open>
  The lazy renderer of the Fast tier: catching up in pieces, or later, paints the same picture, and the write
  filter that spares most catch-ups is exact as long as the chain has reached the write's microsecond.
\<close>

subsection \<open>The batch renderer without its caches\<close>

definition ref_cell :: "asic_state option \<Rightarrow> ga_state \<Rightarrow> (u16 \<Rightarrow> u8) \<Rightarrow> CrtcCharView \<Rightarrow> video_state \<Rightarrow> video_state" where
  "ref_cell asic g ram x u = cell_paint asic g (vw_mode x) (vw_hsync x) (vw_vsync x) (vw_dispen x)
     (ram (vid_byte_addr (vw_ma x) (vw_ra x) 0)) (ram (vid_byte_addr (vw_ma x) (vw_ra x) 1))
     (core (beam_edges asic (VSYNC_RISE \<in> set (vw_edges x)) (HSYNC_RISE \<in> set (vw_edges x)) (HSYNC_FALL \<in> set (vw_edges x)) u))"

text \<open>What can be seen of the renderer: everything but the byte caches.\<close>

definition shown :: "video_state \<Rightarrow> video_state" where
  "shown v = (core v)\<lparr>vd_fetch0 := vd_fetch0 v, vd_hsync_prev := vd_hsync_prev v, vd_vsync_prev := vd_vsync_prev v\<rparr>"

lemma shown_iff: "shown u = shown v \<longleftrightarrow> core u = core v \<and> vd_fetch0 u = vd_fetch0 v \<and> vd_hsync_prev u = vd_hsync_prev v \<and>
    vd_vsync_prev u = vd_vsync_prev v"
proof
  assume a: "shown u = shown v"
  have "core (shown u) = core (shown v)" using a by simp
  moreover have "core (shown w) = core w" for w by (simp add: shown_def)
  moreover have "vd_fetch0 (shown w) = vd_fetch0 w" "vd_hsync_prev (shown w) = vd_hsync_prev w" "vd_vsync_prev (shown w) = vd_vsync_prev w" for w
    by (simp_all add: shown_def)
  ultimately show "core u = core v \<and> vd_fetch0 u = vd_fetch0 v \<and> vd_hsync_prev u = vd_hsync_prev v \<and> vd_vsync_prev u = vd_vsync_prev v"
    using a by metis
qed (simp add: shown_def)

lemma batch_core:
  "batch_ok cc_on g v \<Longrightarrow> core (fold (batch_cell cc_on (char_width v) asic g ram) xs v) = fold (ref_cell asic g ram) xs (core v) \<and>
    batch_ok cc_on g (fold (batch_cell cc_on (char_width v) asic g ram) xs v)"
proof (induction xs arbitrary: v)
  case (Cons x xs)
  define d where "d = batch_cell cc_on (char_width v) asic g ram x v"
  note b = batch_char [OF Cons.prems, of asic ram x, folded d_def]
  have "core d = ref_cell asic g ram x (core v)"
    unfolding b(1) ref_cell_def core_beam_edges [of asic _ _ _ v, symmetric] by simp
  then show ?case using Cons.IH [OF b(2)] b(3) by (simp add: d_def)
qed simp

lemma batch_cell_frame [simp]:
  "vd_hsync_prev (batch_cell cc_on cw asic g ram x v) = vd_hsync_prev v" "vd_vsync_prev (batch_cell cc_on cw asic g ram x v) = vd_vsync_prev v"
  "vd_attached (batch_cell cc_on cw asic g ram x v) = vd_attached v"
  by (simp_all add: batch_cell_def Let_def)

lemma batch_fold_frame [simp]:
  "vd_hsync_prev (fold (batch_cell cc_on cw asic g ram) xs v) = vd_hsync_prev v"
  "vd_vsync_prev (fold (batch_cell cc_on cw asic g ram) xs v) = vd_vsync_prev v"
  "vd_attached (fold (batch_cell cc_on cw asic g ram) xs v) = vd_attached v"
  by (induction xs arbitrary: v) simp_all

lemma batch_open_ok:
  fixes g :: ga_state
  assumes "plus_ok v"
  defines "cc_on \<equiv> \<not> vd_plus_active v \<and> char_width v = 16"
  shows "batch_ok cc_on g (batch_open cc_on g v)" "core (batch_open cc_on g v) = core v" "char_width (batch_open cc_on g v) = char_width v"
    "vd_hsync_prev (batch_open cc_on g v) = vd_hsync_prev v" "vd_vsync_prev (batch_open cc_on g v) = vd_vsync_prev v"
    "vd_attached (batch_open cc_on g v) = vd_attached v"
  using assms(1) by (auto simp: batch_ok_def batch_open_def cc_on_def cc_classic_def plus_ok_def char_width_def)

lemma batch_shown:
  fixes asic :: "asic_state option" and g :: ga_state and ram :: "u16 \<Rightarrow> u8" and xs :: "CrtcCharView list"
  assumes "plus_ok v"
  defines "w \<equiv> video_batch_cells asic g ram xs v"
  shows "plus_ok w" "vd_attached w = vd_attached v" "vd_hsync_prev w = vd_hsync_prev v" "vd_vsync_prev w = vd_vsync_prev v"
    "core w = (if vd_attached v then fold (ref_cell asic g ram) xs (core v) else core v)"
    "vd_fetch0 w = (if vd_attached v \<and> xs \<noteq> [] then ram (vid_byte_addr (vw_ma (last xs)) (vw_ra (last xs)) 0) else vd_fetch0 v)"
proof -
  define cc_on where "cc_on = (\<not> vd_plus_active v \<and> char_width v = 16)"
  note o = batch_open_ok [OF assms(1), of g, folded cc_on_def]
  note b = batch_core [OF o(1), of asic ram xs]
  have w: "w = (if \<not> vd_attached v \<or> xs = [] then v
      else (fold (batch_cell cc_on (char_width v) asic g ram) xs (batch_open cc_on g v))\<lparr>vd_fetch0 := ram (vid_byte_addr (vw_ma (last xs)) (vw_ra (last xs)) 0)\<rparr>)"
    by (simp add: w_def video_batch_cells_def cc_on_def Let_def)
  have p: "plus_ok (fold (batch_cell cc_on (char_width v) asic g ram) xs (batch_open cc_on g v))" using b o(3) by (simp add: batch_ok_def)
  show "plus_ok w" "vd_attached w = vd_attached v" "vd_hsync_prev w = vd_hsync_prev v" "vd_vsync_prev w = vd_vsync_prev v"
    "core w = (if vd_attached v then fold (ref_cell asic g ram) xs (core v) else core v)"
    "vd_fetch0 w = (if vd_attached v \<and> xs \<noteq> [] then ram (vid_byte_addr (vw_ma (last xs)) (vw_ra (last xs)) 0) else vd_fetch0 v)"
    using p b o assms(1) by (auto simp: w)
qed

lemma batch_append:
  assumes "plus_ok v"
  shows "shown (video_batch_cells asic g ram ys (video_batch_cells asic g ram xs v)) = shown (video_batch_cells asic g ram (xs @ ys) v)"
  using batch_shown [OF assms, of asic g ram xs] batch_shown [OF assms, of asic g ram "xs @ ys"]
    batch_shown [OF batch_shown(1) [OF assms], of asic g ram ys asic g ram xs]
  by (auto simp: shown_iff)

lemma batch_cong:
  assumes "shown u = shown v" "plus_ok u" "plus_ok v"
    and "\<And>x w. x \<in> set xs \<Longrightarrow> ref_cell asic g ram x w = ref_cell asic' g' ram' x w"
    and "\<And>x. x \<in> set xs \<Longrightarrow> ram (vid_byte_addr (vw_ma x) (vw_ra x) 0) = ram' (vid_byte_addr (vw_ma x) (vw_ra x) 0)"
  shows "shown (video_batch_cells asic g ram xs u) = shown (video_batch_cells asic' g' ram' xs v)"
proof -
  have f: "fold (ref_cell asic g ram) xs w = fold (ref_cell asic' g' ram') xs w" for w
    using assms(4) by (intro fold_cong) auto
  have c: "core u = core v" "vd_fetch0 u = vd_fetch0 v" "vd_hsync_prev u = vd_hsync_prev v" "vd_vsync_prev u = vd_vsync_prev v"
    using assms(1) by (simp_all add: shown_iff)
  have a: "vd_attached u = vd_attached v" by (metis c(1) seen_fields(1))
  show ?thesis
    using batch_shown [OF assms(2), of asic g ram xs] batch_shown [OF assms(3), of asic' g' ram' xs] c a f assms(5) [of "last xs"]
    by (auto simp: shown_iff)
qed

subsection \<open>What the renderer reads of the Gate Array and of the ASIC\<close>

lemma cell_paint_ink:
  assumes "ga_ink g = ga_ink g'"
  shows "cell_paint asic g = cell_paint asic g'"
proof -
  have i: "plus_index_rgb v g = plus_index_rgb v g'" for v using assms by (simp add: fun_eq_iff plus_index_rgb_def)
  have p: "paint_index v g = paint_index v g'" for v by (simp add: fun_eq_iff paint_index_def i)
  have b: "paint_byte_plus v g = paint_byte_plus v g'" for v by (simp add: fun_eq_iff paint_byte_plus_def p)
  have c: "paint_byte_classic g = paint_byte_classic g'" using assms by (simp add: fun_eq_iff paint_byte_classic_def)
  have x: "cell_pixel asic v g = cell_pixel asic v g'" for v by (simp add: fun_eq_iff cell_pixel_def p)
  have u: "plus_uncached asic g = plus_uncached asic g'" by (simp add: fun_eq_iff plus_uncached_def plus_direct_def p b x Let_def cong: if_cong)
  have r: "render_cell_classic g = render_cell_classic g'" using assms by (simp add: fun_eq_iff render_cell_classic_def c Let_def cong: if_cong)
  show ?thesis by (simp add: fun_eq_iff cell_paint_def u r Let_def cong: if_cong)
qed

lemma frame_line_video [simp]:
  "plus_refresh_line (Some (asic_batch_frame_line a l)) = plus_refresh_line (Some a)"
  "sprite_over (Some (asic_batch_frame_line a l)) x cs = sprite_over (Some a) x cs"
proof -
  have v: "as_vid_gen (asic_batch_frame_line a l) = as_vid_gen a" "plus_reread (asic_batch_frame_line a l) = plus_reread a"
    "asic_vid_sprite_pixel (asic_batch_frame_line a l) = asic_vid_sprite_pixel a"
    by (simp_all add: fun_eq_iff asic_batch_frame_line_def asic_frame_line_def plus_reread_def asic_vid_scroll_def
      asic_vid_sprite_attr_def asic_vid_palette_def asic_vid_palette_set_def asic_vid_sprite_pixel_def Let_def)
  show "plus_refresh_line (Some (asic_batch_frame_line a l)) = plus_refresh_line (Some a)"
    by (simp add: fun_eq_iff plus_refresh_line_def v Let_def)
  show "sprite_over (Some (asic_batch_frame_line a l)) x cs = sprite_over (Some a) x cs"
    by (induction cs) (simp_all add: v Let_def)
qed

lemma frame_line_cell [simp]: "ref_cell (Some (asic_batch_frame_line a l)) = ref_cell (Some a)"
proof -
  have x: "cell_pixel (Some (asic_batch_frame_line a l)) = cell_pixel (Some a)" by (simp add: fun_eq_iff cell_pixel_def)
  have u: "plus_uncached (Some (asic_batch_frame_line a l)) = plus_uncached (Some a)"
    by (simp add: fun_eq_iff plus_uncached_def plus_direct_def x Let_def cong: if_cong)
  have p: "cell_paint (Some (asic_batch_frame_line a l)) = cell_paint (Some a)" by (simp add: fun_eq_iff cell_paint_def u Let_def cong: if_cong)
  have "beam_edges (Some (asic_batch_frame_line a l)) = beam_edges (Some a)" by (simp add: fun_eq_iff beam_edges_def Let_def cong: if_cong)
  with p show ?thesis by (simp add: fun_eq_iff ref_cell_def)
qed

lemma ref_cell_ink: "ga_ink g = ga_ink g' \<Longrightarrow> ref_cell asic g = ref_cell asic g'"
  by (simp add: fun_eq_iff ref_cell_def cell_paint_ink [of g g'])

lemma ref_cell_ram:
  "ram (vid_byte_addr (vw_ma x) (vw_ra x) 0) = ram' (vid_byte_addr (vw_ma x) (vw_ra x) 0) \<Longrightarrow>
   ram (vid_byte_addr (vw_ma x) (vw_ra x) 1) = ram' (vid_byte_addr (vw_ma x) (vw_ra x) 1) \<Longrightarrow>
   ref_cell asic g ram x w = ref_cell asic g ram' x w"
  by (simp add: ref_cell_def)

subsection \<open>The machine up to the renderer's caches\<close>

definition look :: "'d machine \<Rightarrow> 'd machine" where
  "look m = m\<lparr>mc_video := shown (mc_video m)\<rparr>"

text \<open>The renderer's bookkeeping: its position, the buffer's extent, the pages of the pending views, and sound caches.\<close>

definition page_of :: "CrtcCharView \<Rightarrow> nat" where
  "page_of x = unat (drop_bit 12 (vw_ma x) AND 3)"

definition pending :: "'d machine \<Rightarrow> CrtcCharView list" where
  "pending m = drop (fs_pend_head m) (fs_pend m)"

definition fs_ok :: "'d machine \<Rightarrow> bool" where
  "fs_ok m \<longleftrightarrow> fs_cells m \<le> fs_chars m \<and> fs_pend_head m \<le> length (fs_pend m) \<and> length (pending m) = fs_chars m - fs_cells m \<and>
     plus_ok (mc_video m) \<and> (\<forall>x \<in> set (pending m). bit (fs_vpages m) (page_of x))"

definition put_render :: "video_state \<Rightarrow> nat \<Rightarrow> nat \<Rightarrow> 'd machine \<Rightarrow> 'd machine" where
  "put_render v h c m = m\<lparr>mc_video := v, fs_pend_head := h, fs_cells := c\<rparr>"

lemma put_render_sel [simp]:
  "mc_video (put_render v h c m) = v" "fs_pend_head (put_render v h c m) = h" "fs_cells (put_render v h c m) = c"
  "fs_chars (put_render v h c m) = fs_chars m" "fs_pend (put_render v h c m) = fs_pend m" "mc_asic (put_render v h c m) = mc_asic m"
  "mc_ga (put_render v h c m) = mc_ga m" "mc_mem (put_render v h c m) = mc_mem m" "fs_vpages (put_render v h c m) = fs_vpages m"
  "fs_lpen_on (put_render v h c m) = fs_lpen_on m" "mc_crtc (put_render v h c m) = mc_crtc m" "fs_bail (put_render v h c m) = fs_bail m"
  "put_render v h c (put_render v' h' c' m) = put_render v h c m" "put_render (mc_video m) (fs_pend_head m) (fs_cells m) m = m"
  "fs_vram (put_render v h c m) = fs_vram m" "fs_asic_on (put_render v h c m) = fs_asic_on m"
  by (simp_all add: put_render_def fs_vram_def fun_eq_iff)

lemma look_put [simp]: "look (put_render v h c m) = put_render (shown v) h c m"
  by (simp add: look_def put_render_def)

lemma shown_shown [simp]: "shown (shown v) = shown v"
  by (simp add: shown_def)

lemma render_form:
  "fs_render_below t m = (let n = min t (fs_chars m) - fs_cells m in
     put_render (video_batch_cells (Some (mc_asic m)) (mc_ga m) (fs_vram m) (take n (pending m)) (mc_video m))
       (fs_pend_head m + n) (fs_cells m + n) m)"
proof (cases "min t (fs_chars m) \<le> fs_cells m")
  case True
  then show ?thesis by (cases m) (simp add: fs_render_below_def Let_def put_render_def video_batch_cells_def)
next
  case False
  then show ?thesis by (simp add: fs_render_below_def Let_def put_render_def pending_def)
qed

lemma render_pending: "pending (fs_render_below t m) = drop (min t (fs_chars m) - fs_cells m) (pending m)"
  by (simp add: render_form Let_def pending_def add.commute)

lemma render_keeps [simp]:
  "fs_chars (fs_render_below t m) = fs_chars m" "fs_pend (fs_render_below t m) = fs_pend m" "fs_vpages (fs_render_below t m) = fs_vpages m"
  "fs_lpen_on (fs_render_below t m) = fs_lpen_on m" "mc_mem (fs_render_below t m) = mc_mem m"
  by (simp_all add: render_form Let_def)

lemma render_ok:
  assumes "fs_ok m"
  shows "fs_ok (fs_render_below t m)"
proof -
  define n where "n = min t (fs_chars m) - fs_cells m"
  have f: "fs_cells m \<le> fs_chars m" "fs_pend_head m \<le> length (fs_pend m)" "length (pending m) = fs_chars m - fs_cells m"
    "plus_ok (mc_video m)" "\<forall>x \<in> set (pending m). bit (fs_vpages m) (page_of x)"
    using assms by (simp_all add: fs_ok_def)
  have n: "n \<le> length (pending m)" using f by (simp add: n_def)
  have "fs_cells (fs_render_below t m) = fs_cells m + n" "fs_pend_head (fs_render_below t m) = fs_pend_head m + n"
    "plus_ok (mc_video (fs_render_below t m))"
    using batch_shown(1) [OF f(4)] by (simp_all add: render_form Let_def n_def)
  moreover have "\<forall>x \<in> set (pending (fs_render_below t m)). bit (fs_vpages m) (page_of x)"
    using f(5) by (auto simp: render_pending dest: in_set_dropD)
  ultimately show ?thesis using f n by (simp add: fs_ok_def render_pending n_def [symmetric] pending_def; linarith)
qed

text \<open>Catching up in two pieces.\<close>

lemma render_twice:
  assumes "fs_ok m"
  shows "look (fs_render_below t2 (fs_render_below t1 m)) = look (fs_render_below (max t1 t2) m)"
proof -
  define n1 n2 where "n1 = min t1 (fs_chars m) - fs_cells m" and "n2 = min t2 (fs_chars m) - (fs_cells m + n1)"
  have p: "plus_ok (mc_video m)" using assms by (simp add: fs_ok_def)
  have s: "min (max t1 t2) (fs_chars m) - fs_cells m = n1 + n2" by (auto simp: n1_def n2_def min_def max_def)
  let ?r = "video_batch_cells (Some (mc_asic m)) (mc_ga m) (fs_vram m)"
  have a: "take (n1 + n2) (pending m) = take n1 (pending m) @ take n2 (drop n1 (pending m))" by (simp add: take_add)
  have one: "fs_render_below t1 m = put_render (?r (take n1 (pending m)) (mc_video m)) (fs_pend_head m + n1) (fs_cells m + n1) m"
    by (simp add: render_form [of t1] Let_def n1_def)
  have pd: "pending (fs_render_below t1 m) = drop n1 (pending m)" by (simp add: render_pending n1_def)
  have "look (fs_render_below t2 (fs_render_below t1 m)) =
      put_render (shown (?r (take n2 (drop n1 (pending m))) (?r (take n1 (pending m)) (mc_video m)))) (fs_pend_head m + n1 + n2) (fs_cells m + n1 + n2) m"
    unfolding render_form [of t2] Let_def pd by (simp add: one n2_def)
  also have "\<dots> = look (fs_render_below (max t1 t2) m)"
    unfolding render_form [of "max t1 t2"] Let_def s a batch_append [OF p] by (simp add: add.assoc)
  finally show ?thesis .
qed

lemma look_render:
  assumes "look m = look m'" "fs_ok m" "fs_ok m'"
  shows "look (fs_render_below t m) = look (fs_render_below t m')"
proof -
  have m': "m' = m\<lparr>mc_video := mc_video m'\<rparr>" and s: "shown (mc_video m) = shown (mc_video m')"
  proof -
    show "shown (mc_video m) = shown (mc_video m')" using arg_cong [OF assms(1), of mc_video] by (simp add: look_def)
    have "(look m)\<lparr>mc_video := mc_video m'\<rparr> = (look m')\<lparr>mc_video := mc_video m'\<rparr>" using assms(1) by simp
    then show "m' = m\<lparr>mc_video := mc_video m'\<rparr>" by (simp add: look_def)
  qed
  have p: "plus_ok (mc_video m)" "plus_ok (mc_video m')" using assms(2,3) by (simp_all add: fs_ok_def)
  have v: "m' = put_render (mc_video m') (fs_pend_head m) (fs_cells m) m" by (subst m') (simp add: put_render_def)
  have "shown (video_batch_cells (Some (mc_asic m)) (mc_ga m) (fs_vram m) xs (mc_video m)) =
      shown (video_batch_cells (Some (mc_asic m)) (mc_ga m) (fs_vram m) xs (mc_video m'))" for xs
    by (rule batch_cong) (simp_all add: s p)
  moreover have "look (fs_render_below t m') = look (fs_render_below t (put_render (mc_video m') (fs_pend_head m) (fs_cells m) m))"
    by (rule arg_cong [OF v])
  ultimately show ?thesis by (simp add: render_form Let_def pending_def)
qed

subsection \<open>The chain and the renderer commute\<close>

lemma apply_view_put_render:
  "apply_view v (put_render x h c m, ll) = (case apply_view v (m, ll) of (v', m', ll') \<Rightarrow> (v', put_render x h c m', ll'))"
  by (cases m) (simp add: apply_view_def put_render_def Let_def)

lemma put_render_frame:
  "(put_render v h c m)\<lparr>mc_crtc := k\<rparr> = put_render v h c (m\<lparr>mc_crtc := k\<rparr>)"
  "(put_render v h c m)\<lparr>mc_lgun := x\<rparr> = put_render v h c (m\<lparr>mc_lgun := x\<rparr>)"
  "(put_render v h c m)\<lparr>fs_lpen_pending := y\<rparr> = put_render v h c (m\<lparr>fs_lpen_pending := y\<rparr>)"
  "(put_render v h c m)\<lparr>fs_pend := p\<rparr> = put_render v h c (m\<lparr>fs_pend := p\<rparr>)"
  "(put_render v h c m)\<lparr>fs_chars := n\<rparr> = put_render v h c (m\<lparr>fs_chars := n\<rparr>)"
  "(put_render v h c m)\<lparr>fs_bail := b\<rparr> = put_render v h c (m\<lparr>fs_bail := b\<rparr>)"
  "(put_render v h c m)\<lparr>mc_mem := e\<rparr> = put_render v h c (m\<lparr>mc_mem := e\<rparr>)"
  "mc_lgun (put_render v h c m) = mc_lgun m" "fs_lpen_pending (put_render v h c m) = fs_lpen_pending m"
  by (cases m, simp add: put_render_def)+

lemma fs_char_put_render: "fs_char (put_render v h c m) = put_render v h c (fs_char m)"
proof -
  have "char_fun gun (put_render v h c m, ll) = (case char_fun gun (m, ll) of (v', m', ll') \<Rightarrow> (v', put_render v h c m', ll'))" for gun ll
    by (cases gun) (simp_all add: char_fun_def gun_char_def one_char_def advance_one [simplified] split_def Let_def put_render_frame
      apply_view_put_render)
  then show ?thesis by (simp add: fs_char_def split_def put_render_frame)
qed

lemma fs_iter_put_render: "(fs_char ^^ n) (put_render v h c m) = put_render v h c ((fs_char ^^ n) m)"
  by (induction n) (simp_all add: fs_char_put_render)

lemma advance_put_render: "fs_advance_chars t (put_render v h c m) = put_render v h c (fs_advance_chars t m)"
  by (simp add: advance_form fs_iter_put_render bail_if_def put_render_frame)

text \<open>A character adds one view and leaves everything the renderer reads of the others alone.\<close>

lemma apply_view_video:
  "mc_mem (fst (snd (apply_view v (m, ll)))) = mc_mem m" "mc_video (fst (snd (apply_view v (m, ll)))) = mc_video m"
  "fs_pend_head (fst (snd (apply_view v (m, ll)))) = fs_pend_head m" "fs_cells (fst (snd (apply_view v (m, ll)))) = fs_cells m"
  "ga_ink (mc_ga (fst (snd (apply_view v (m, ll))))) = ga_ink (mc_ga m)"
  "fs_vpages (fst (snd (apply_view v (m, ll)))) = fs_vpages m OR 2 ^ page_of v"
  "vw_ma (fst (apply_view v (m, ll))) = vw_ma v"
  by (simp_all add: apply_view_def Let_def ga_batch_hsync_rise_def ga_batch_vsync_rise_def ga_batch_hsync_fall_def ga_raster_count_def
    ga_count_vsync_def ga_count52_def page_of_def)

lemma char_fun_video:
  "mc_mem (fst (snd (char_fun gun (m, ll)))) = mc_mem m" "mc_video (fst (snd (char_fun gun (m, ll)))) = mc_video m"
  "fs_pend_head (fst (snd (char_fun gun (m, ll)))) = fs_pend_head m" "fs_cells (fst (snd (char_fun gun (m, ll)))) = fs_cells m"
  "ga_ink (mc_ga (fst (snd (char_fun gun (m, ll))))) = ga_ink (mc_ga m)"
  "fs_vpages (fst (snd (char_fun gun (m, ll)))) = fs_vpages m OR 2 ^ page_of (fst (char_fun gun (m, ll)))"
  "ref_cell (Some (mc_asic (fst (snd (char_fun gun (m, ll)))))) = ref_cell (Some (mc_asic m))"
proof -
  have a: "ref_cell (Some (mc_asic (fst (snd (apply_view v (k, ll)))))) = ref_cell (Some (mc_asic k))" for v and k :: "'a machine" and ll
    using apply_view_asic [of v k ll] by auto
  have pg: "page_of (fst (apply_view v (k, ll))) = page_of v" for v and k :: "'a machine" and ll
    by (simp add: page_of_def apply_view_video)
  show "mc_mem (fst (snd (char_fun gun (m, ll)))) = mc_mem m" "mc_video (fst (snd (char_fun gun (m, ll)))) = mc_video m"
    "fs_pend_head (fst (snd (char_fun gun (m, ll)))) = fs_pend_head m" "fs_cells (fst (snd (char_fun gun (m, ll)))) = fs_cells m"
    "ga_ink (mc_ga (fst (snd (char_fun gun (m, ll))))) = ga_ink (mc_ga m)"
    "fs_vpages (fst (snd (char_fun gun (m, ll)))) = fs_vpages m OR 2 ^ page_of (fst (char_fun gun (m, ll)))"
    "ref_cell (Some (mc_asic (fst (snd (char_fun gun (m, ll)))))) = ref_cell (Some (mc_asic m))"
    by (cases gun, simp_all add: char_fun_def gun_char_def one_char_def split_def Let_def apply_view_video a pg)+
qed

lemma fs_char_video:
  "mc_mem (fs_char m) = mc_mem m" "mc_video (fs_char m) = mc_video m" "fs_pend_head (fs_char m) = fs_pend_head m"
  "fs_cells (fs_char m) = fs_cells m" "ga_ink (mc_ga (fs_char m)) = ga_ink (mc_ga m)"
  "ref_cell (Some (mc_asic (fs_char m))) = ref_cell (Some (mc_asic m))"
  "\<exists>x. fs_pend (fs_char m) = fs_pend m @ [x] \<and> fs_vpages (fs_char m) = fs_vpages m OR 2 ^ page_of x"
  by (simp_all add: fs_char_def split_def char_fun_video char_fun_keeps)

lemma page_of_less: "page_of x < 4"
proof -
  have "drop_bit 12 (vw_ma x) AND 3 \<le> 3" by (rule word_and_le1)
  then have "unat (drop_bit 12 (vw_ma x) AND 3) \<le> unat (3 :: u16)" unfolding word_le_nat_alt .
  then show ?thesis by (simp add: page_of_def)
qed

lemma bit_or_power: "bit (v OR 2 ^ k) i \<longleftrightarrow> bit v i \<or> i = k \<and> k < 8" for v :: u8
  by (auto simp: bit_simps)

lemma fs_char_ok: "fs_ok m \<Longrightarrow> fs_ok (fs_char m)"
proof -
  assume a: "fs_ok m"
  obtain x where x: "fs_pend (fs_char m) = fs_pend m @ [x]" "fs_vpages (fs_char m) = fs_vpages m OR 2 ^ page_of x"
    using fs_char_video(7) [of m] by auto
  have "page_of x < 8" using page_of_less [of x] by simp
  then show ?thesis
    using a by (auto simp: fs_ok_def pending_def fs_char_video(1-6) x bit_or_power)
qed

lemma fs_chars_ok:
  "fs_ok m \<Longrightarrow> fs_ok ((fs_char ^^ n) m)"
  by (induction n) (simp_all add: fs_char_ok)

lemma bail_ok: "fs_ok (bail_if b m) = fs_ok m" "fs_ok (m\<lparr>fs_bail := c\<rparr>) = fs_ok m"
  by (simp_all add: fs_ok_def bail_if_def pending_def)

lemma advance_ok: "fs_ok m \<Longrightarrow> fs_ok (fs_advance_chars t m)"
  by (simp add: advance_form bail_ok fs_chars_ok)

lemma render_char_commute:
  assumes "fs_ok m" "t \<le> fs_chars m"
  shows "look (fs_render_below t (fs_char m)) = look (fs_char (fs_render_below t m))"
proof -
  define n where "n = t - fs_cells m"
  have o: "fs_cells m \<le> fs_chars m" "fs_pend_head m \<le> length (fs_pend m)" "length (pending m) = fs_chars m - fs_cells m"
    "plus_ok (mc_video m)" using assms(1) by (simp_all add: fs_ok_def)
  obtain x where x: "fs_pend (fs_char m) = fs_pend m @ [x]" using fs_char_video(7) [of m] by auto
  have n: "n \<le> length (pending m)" using assms(2) o by (simp add: n_def)
  have tk: "take n (pending (fs_char m)) = take n (pending m)"
    using n o(2) by (simp add: pending_def x fs_char_video)
  have "shown (video_batch_cells (Some (mc_asic (fs_char m))) (mc_ga (fs_char m)) (fs_vram m) xs (mc_video m)) =
      shown (video_batch_cells (Some (mc_asic m)) (mc_ga m) (fs_vram m) xs (mc_video m))" for xs
    by (rule batch_cong) (simp_all add: o fs_char_video ref_cell_ink [of "mc_ga (fs_char m)" "mc_ga m"])
  moreover have "fs_vram (fs_char m) = fs_vram m" by (simp add: fun_eq_iff fs_vram_def fs_char_video)
  ultimately show ?thesis
    using assms(2) tk unfolding render_form Let_def fs_char_put_render
    by (simp add: fs_char_video n_def)
qed

lemma look_char: "look (fs_char m) = fs_char (look m)"
proof -
  have "look m = put_render (shown (mc_video m)) (fs_pend_head m) (fs_cells m) m" for m :: "'a machine"
    by (simp add: look_def put_render_def)
  then show ?thesis by (simp add: fs_char_put_render fs_char_video)
qed

lemma look_chars: "look ((fs_char ^^ n) m) = (fs_char ^^ n) (look m)"
  by (induction n) (simp_all add: look_char)

lemma bail_frame:
  "look (bail_if b m) = bail_if b (look m)" "fs_render_below t (bail_if b m) = bail_if b (fs_render_below t m)"
  by (cases m, simp add: bail_if_def look_def render_form Let_def put_render_def pending_def fs_vram_def [abs_def])+

lemma render_chars_commute:
  "fs_ok m \<Longrightarrow> t \<le> fs_chars m \<Longrightarrow> look (fs_render_below t ((fs_char ^^ n) m)) = look ((fs_char ^^ n) (fs_render_below t m))"
proof (induction n)
  case (Suc n)
  define k where "k = (fs_char ^^ n) m"
  have "look (fs_render_below t (fs_char k)) = look (fs_char (fs_render_below t k))"
    using Suc.prems by (intro render_char_commute) (simp_all add: k_def fs_chars_ok)
  also have "\<dots> = fs_char (look (fs_render_below t k))" by (simp add: look_char)
  also have "\<dots> = look ((fs_char ^^ Suc n) (fs_render_below t m))" using Suc by (simp add: k_def look_char)
  finally show ?case by (simp add: k_def)
qed simp

lemma render_advance_commute:
  assumes "fs_ok m" "t \<le> fs_chars m"
  shows "look (fs_render_below t (fs_advance_chars k m)) = look (fs_advance_chars k (fs_render_below t m))"
proof (cases "k \<le> fs_chars m")
  case False
  then show ?thesis
    using render_chars_commute [OF assms, of "min k kMaxFastChars - fs_chars m"]
    by (simp add: advance_form [of k] bail_frame)
qed (simp add: advance_form [of k])

lemma look_advance: "look (fs_advance_chars k m) = fs_advance_chars k (look m)"
  by (simp add: advance_form look_chars bail_frame) (simp add: look_def)

subsection \<open>The write filter\<close>

lemma refreshed_idem [simp]: "refreshed (refreshed m) = refreshed m"
  by (simp add: refreshed_def fast_rebuild_def Let_def)

lemma fast_write_refreshed: "mem_fast_write (refreshed m) addr val = mem_fast_write m addr val"
  by (simp add: mem_fast_write_def)

lemma fast_write_ram:
  assumes "a < 0x10000"
  shows "m_ram (mem_fast_write m addr val) a = (if int a = fst (mem_fast_write_off m addr) then val else m_ram m a)"
  using assms by (auto simp: mem_fast_write_def mem_fast_write_off_def store_def Let_def split: mem_ptr.splits)

lemma write_off_mem: "snd (mem_fast_write_off m addr) = refreshed m"
  by (simp add: mem_fast_write_off_def Let_def split: mem_ptr.split)

lemma write_off_range: "0 \<le> fst (mem_fast_write_off m addr) \<Longrightarrow> fst (mem_fast_write_off m addr) < 0x10000"
  by (auto simp: mem_fast_write_off_def Let_def split: mem_ptr.splits if_splits)

lemma video_page: "unat (vid_byte_addr ma ra k) div 0x4000 = unat (drop_bit 12 ma AND 3)"
proof -
  have "drop_bit 12 ma AND 3 = take_bit 2 (drop_bit 12 ma)" by (simp add: take_bit_eq_mask mask_eq_exp_minus_1)
  moreover have "drop_bit 14 (vid_byte_addr ma ra k) = take_bit 2 (drop_bit 12 ma)"
    by (rule bit_word_eqI) (auto simp: vid_byte_addr_def mask_simps bit_simps dest!: less_2_cases)
  ultimately have "drop_bit 14 (vid_byte_addr ma ra k) = drop_bit 12 ma AND 3" by simp
  then have h: "unat (drop_bit 14 (vid_byte_addr ma ra k)) = unat (drop_bit 12 ma AND 3)" by (rule arg_cong)
  have "unat (drop_bit 14 (vid_byte_addr ma ra k)) = drop_bit 14 (unat (vid_byte_addr ma ra k))" by (rule unat_drop_bit_eq)
  also have "\<dots> = unat (vid_byte_addr ma ra k) div 2 ^ 14" by (rule drop_bit_eq_div)
  finally have "unat (vid_byte_addr ma ra k) div 0x4000 = unat (drop_bit 14 (vid_byte_addr ma ra k))" by simp
  then show ?thesis using h by (rule trans)
qed

lemma write_seen_bit: "write_seen off m \<longleftrightarrow> 0 \<le> off \<and> bit (fs_vpages m) (nat (off div 0x4000))"
  by (simp add: write_seen_def bit_iff_odd_drop_bit one_and_eq odd_iff_mod_2_eq_one and_one_eq)

lemma unseen_write:
  assumes "\<not> write_seen (fst (mem_fast_write_off (mc_mem m) addr)) m" "bit (fs_vpages m) (page_of x)"
  shows "fs_vram (ram_write addr val m) (vid_byte_addr (vw_ma x) (vw_ra x) b) = fs_vram m (vid_byte_addr (vw_ma x) (vw_ra x) b)"
proof -
  define a where "a = unat (vid_byte_addr (vw_ma x) (vw_ra x) b)"
  have a: "a < 0x10000" "a div 0x4000 = page_of x" by (simp_all add: a_def video_page page_of_def)
  have "int a \<noteq> fst (mem_fast_write_off (mc_mem m) addr)"
  proof
    assume e: "int a = fst (mem_fast_write_off (mc_mem m) addr)"
    then have "nat (fst (mem_fast_write_off (mc_mem m) addr) div 0x4000) = page_of x" using a(2) by (simp add: nat_div_distrib flip: e)
    then show False using assms e [symmetric] by (simp add: write_seen_bit)
  qed
  then show ?thesis using fast_write_ram [OF a(1)] by (simp add: fs_vram_def mem_video_ram_def ram_write_def a_def)
qed

definition put_mem :: "mem_state \<Rightarrow> 'd machine \<Rightarrow> 'd machine" where
  "put_mem e m = m\<lparr>mc_mem := e\<rparr>"

lemma put_mem_sel [simp]:
  "mc_mem (put_mem e m) = e" "fs_chars (put_mem e m) = fs_chars m" "fs_pend (put_mem e m) = fs_pend m" "fs_vpages (put_mem e m) = fs_vpages m"
  "fs_lpen_on (put_mem e m) = fs_lpen_on m" "mc_asic (put_mem e m) = mc_asic m" "mc_crtc (put_mem e m) = mc_crtc m" "mc_ga (put_mem e m) = mc_ga m"
  "mc_video (put_mem e m) = mc_video m" "fs_pend_head (put_mem e m) = fs_pend_head m" "fs_cells (put_mem e m) = fs_cells m"
  "pending (put_mem e m) = pending m" "fs_asic_on (put_mem e m) = fs_asic_on m" "put_mem e (put_mem e' m) = put_mem e m"
  "fs_ok (put_mem e m) = fs_ok m" "write_seen off (put_mem e m) = write_seen off m" "put_mem (mc_mem m) m = m"
  by (simp_all add: put_mem_def pending_def fs_ok_def write_seen_def)

lemma put_mem_frame:
  "(put_mem e m)\<lparr>mc_crtc := k\<rparr> = put_mem e (m\<lparr>mc_crtc := k\<rparr>)" "(put_mem e m)\<lparr>mc_lgun := x\<rparr> = put_mem e (m\<lparr>mc_lgun := x\<rparr>)"
  "(put_mem e m)\<lparr>fs_lpen_pending := y\<rparr> = put_mem e (m\<lparr>fs_lpen_pending := y\<rparr>)"
  "(put_mem e m)\<lparr>fs_pend := p\<rparr> = put_mem e (m\<lparr>fs_pend := p\<rparr>)" "(put_mem e m)\<lparr>fs_chars := n\<rparr> = put_mem e (m\<lparr>fs_chars := n\<rparr>)"
  "bail_if b (put_mem e m) = put_mem e (bail_if b m)" "put_render v h c (put_mem e m) = put_mem e (put_render v h c m)"
  "look (put_mem e m) = put_mem e (look m)"
  "mc_lgun (put_mem e m) = mc_lgun m" "fs_lpen_pending (put_mem e m) = fs_lpen_pending m"
  "apply_view vw (put_mem e m, ll) = (case apply_view vw (m, ll) of (v', m', ll') \<Rightarrow> (v', put_mem e m', ll'))"
  by (cases m, simp add: put_mem_def bail_if_def put_render_def look_def apply_view_def Let_def)+

lemma fs_char_put_mem: "fs_char (put_mem e m) = put_mem e (fs_char m)"
proof -
  have "char_fun gun (put_mem e m, ll) = (case char_fun gun (m, ll) of (v', m', ll') \<Rightarrow> (v', put_mem e m', ll'))" for gun ll
    by (cases gun) (simp_all add: char_fun_def gun_char_def one_char_def advance_one [simplified] split_def Let_def put_mem_frame)
  then show ?thesis by (simp add: fs_char_def split_def put_mem_frame)
qed

lemma fs_chars_put_mem: "(fs_char ^^ n) (put_mem e m) = put_mem e ((fs_char ^^ n) m)"
  by (induction n) (simp_all add: fs_char_put_mem)

lemma advance_put_mem: "fs_advance_chars t (put_mem e m) = put_mem e (fs_advance_chars t m)"
  by (simp add: advance_form fs_chars_put_mem put_mem_frame)

lemma advance_mem [simp]: "mc_mem (fs_advance_chars t m) = mc_mem m"
proof -
  have "mc_mem ((fs_char ^^ n) m) = mc_mem m" for n by (induction n) (simp_all add: fs_char_video)
  then show ?thesis by (simp add: advance_form bail_if_def)
qed

lemma ram_write_put: "ram_write addr val m = put_mem (mem_fast_write (mc_mem m) addr val) m"
  by (simp add: ram_write_def put_mem_def)

lemma render_put_same: "m_ram e = m_ram (mc_mem m) \<Longrightarrow> fs_render_below t (put_mem e m) = put_mem e (fs_render_below t m)"
  by (simp add: render_form Let_def put_mem_frame fs_vram_def [abs_def] mem_video_ram_def)

lemma advance_chars_ge: "fs_chars m \<le> fs_chars (fs_advance_chars t m)"
  by (simp add: advance_form)

text \<open>Pending cells paint the same picture before and after a write that the filter lets pass.\<close>

lemma render_unseen_write:
  assumes "fs_ok m" "\<not> write_seen (fst (mem_fast_write_off (mc_mem m) addr)) m"
  shows "look (fs_render_below t (ram_write addr val m)) = look (ram_write addr val (fs_render_below t m))"
proof -
  define n where "n = min t (fs_chars m) - fs_cells m"
  have p: "plus_ok (mc_video m)" using assms(1) by (simp add: fs_ok_def)
  have s: "bit (fs_vpages m) (page_of x)" if "x \<in> set (take n (pending m))" for x
    using assms(1) that by (auto simp: fs_ok_def dest: in_set_takeD)
  note u = unseen_write [OF assms(2) s, where val = val]
  have "shown (video_batch_cells (Some (mc_asic m)) (mc_ga m) (fs_vram (ram_write addr val m)) (take n (pending m)) (mc_video m)) =
      shown (video_batch_cells (Some (mc_asic m)) (mc_ga m) (fs_vram m) (take n (pending m)) (mc_video m))"
    by (rule batch_cong) (use p u in \<open>auto intro: ref_cell_ram\<close>)
  then show ?thesis
    unfolding render_form Let_def n_def [symmetric] by (simp add: ram_write_put put_mem_frame n_def [symmetric])
qed

text \<open>C10 (fs_write_filter_exact): the write filter of the Fast tier. A RAM write that the ASIC page does not claim may be committed
  without bringing the renderer up to its microsecond \<open>j\<close> unless it lands in the base 64K on a 16K page the chain has fetched.
  When the chain has reached \<open>j\<close>, no later catch-up can tell the filtered write from one that always catches up first: after any
  later advance and render both machines agree on everything, the frame buffer included, up to the renderer's byte caches.\<close>

theorem fs_write_filter_exact:
  assumes "fs_ok m" "j = rel_time m now div 4" "j \<le> fs_chars m"
    and "\<not> (fs_asic_on m \<and> 0x4000 \<le> addr \<and> addr < 0x8000 \<and> asic_page_armed (mc_asic m))"
    and "j + 1 \<le> k" "j \<le> t"
  shows "look (fs_render_below t (fs_advance_chars k (fsb_mem_write m addr val now))) =
    look (fs_render_below t (fs_advance_chars k (ram_write addr val (catch_up j m))))"
proof -
  define e off where "e = refreshed (mc_mem m)" and "off = fst (mem_fast_write_off (mc_mem m) addr)"
  have w: "fsb_mem_write m addr val now = ram_write addr val (if write_seen off m then catch_up j (put_mem e m) else put_mem e m)"
    unfolding fsb_mem_write_def Let_def assms(2) [symmetric] using assms(4)
    by (simp add: split_def off_def e_def write_off_mem put_mem_def [symmetric])
  have re: "ram_write addr val (put_mem e x) = ram_write addr val x" if "mc_mem x = mc_mem m" for x
    using that by (simp add: ram_write_put e_def fast_write_refreshed)
  show ?thesis
  proof (cases "write_seen off m")
    case True
    have "catch_up j (put_mem e m) = put_mem e (catch_up j m)"
      by (simp add: catch_up_def advance_put_mem render_put_same e_def)
    then show ?thesis using True by (simp add: w re catch_up_def)
  next
    case False
    have wr: "fs_ok (ram_write addr val x) = fs_ok x" "fs_advance_chars k (ram_write addr val x) = ram_write addr val (fs_advance_chars k x)" for x k
      by (simp_all add: ram_write_put advance_put_mem)
    let ?W = "ram_write addr val"
    have lk: "look (?W x) = look (?W y)" if "look x = look y" for x y
    proof -
      have "mc_mem x = mc_mem y" using arg_cong [OF that, of mc_mem] by (simp add: look_def)
      then show ?thesis using that by (simp add: ram_write_put put_mem_frame)
    qed
    have sf: "fs_advance_chars k (fs_advance_chars (j + 1) x) = fs_advance_chars k x" for x
      using advance_twice [of k "j + 1" x] assms(5) by (simp add: max_def)
    have "look (fs_advance_chars k (?W (catch_up j m))) = look (fs_advance_chars k (?W (fs_advance_chars (j + 1) (fs_render_below j m))))"
      unfolding look_advance catch_up_def using lk [OF render_advance_commute [OF assms(1,3)]] by simp
    also have "\<dots> = look (fs_advance_chars k (?W (fs_render_below j m)))" by (simp add: wr(2) sf [simplified])
    also have "\<dots> = look (fs_advance_chars k (fs_render_below j (?W m)))"
      unfolding look_advance using render_unseen_write [OF assms(1)] False by (simp add: off_def)
    also have "\<dots> = look (fs_render_below j (fs_advance_chars k (?W m)))"
      using render_advance_commute [of "?W m" j k] assms(1,3) wr(1) [of m] by (simp add: ram_write_put)
    finally have eq: "look (fs_advance_chars k (?W (catch_up j m))) = look (fs_render_below j (fs_advance_chars k (?W m)))" .
    have ok: "fs_ok (fs_advance_chars k (?W (catch_up j m)))" "fs_ok (fs_advance_chars k (?W m))"
      using assms(1) by (simp_all add: advance_ok wr(1) catch_up_def render_ok)
    have "look (fs_render_below t (fs_advance_chars k (?W (catch_up j m)))) = look (fs_render_below t (fs_render_below j (fs_advance_chars k (?W m))))"
      by (rule look_render [OF eq ok(1) render_ok [OF ok(2)]])
    also have "\<dots> = look (fs_render_below t (fs_advance_chars k (?W m)))"
      using render_twice [OF ok(2), of t j] assms(6) by (simp add: max_def)
    finally show ?thesis using False by (simp add: w re)
  qed
qed

lemma fs_char_t0: "fs_t0 (fs_char m) = fs_t0 m"
  by (simp add: fs_char_def char_fun_def gun_char_def one_char_def apply_view_def split_def Let_def)

lemma demo_ok: "plus_ok demo_screen"
  by (simp add: demo_screen_def video_attach_def video_init_def plus_ok_def)

text \<open>A byte written one microsecond into the frame, to a page of which the chain has not fetched.\<close>

theorem fs_write_filter_exact_witness:
  "look (fs_render_below 2 (fs_advance_chars 2 (fsb_mem_write (fs_char demo_machine) 0x4000 0xFF 4))) =
    look (fs_render_below 2 (fs_advance_chars 2 (ram_write 0x4000 0xFF (catch_up 1 (fs_char demo_machine)))))"
proof -
  have k: "fs_chars (fs_char demo_machine) = 1" "\<not> fs_asic_on (fs_char demo_machine)" "fs_t0 (fs_char demo_machine) = 0"
    using one_char_events(2) [of demo_machine] fs_char_t0 [of demo_machine] by simp_all
  have "fs_ok (fs_char demo_machine)" by (rule fs_char_ok) (simp add: fs_ok_def demo_ok pending_def)
  then show ?thesis
    using k by (intro fs_write_filter_exact [where j = 1]) (simp_all add: rel_time_def)
qed

subsection \<open>A chain that lags\<close>

text \<open>The hypothesis that the chain has reached the write is needed, and the code does not establish it: \<open>fsb_mem_write\<close> reads the
  page set before it advances the chain. At the first characters of a frame, and on an interrupt poll taken from the cache, the
  page of the next cells is not yet in the set. Here the byte of cell 0 is written one microsecond after that cell was displayed,
  no page has been fetched, the catch-up is skipped, and the cell is painted with the new byte.\<close>

lemma demo_view: "\<exists>x y. (fs_char ^^ 2) demo_machine = put_chain [x, y] 2 False ((fs_char ^^ 2) demo_machine) \<and> vw_ma x = 0 \<and> vw_ra x = 0"
proof -
  define d where "d = demo_machine"
  have a: "\<not> asic_vid_active asic_init" by (simp add: asic_vid_active_def asic_init_def)
  define c where "c = crtc_char (Some asic_init) crtc_std"
  have c: "cr_ma c = 0" "cr_ra c = 0"
    unfolding c_def demo_char demo_hsync by (simp_all add: crtc_std_def crtc_init_def)
  have "fs_pend (fs_char d) = [(fst (char_view (Some asic_init) crtc_std))\<lparr>vw_mode := ga_current_mode (mc_ga (fs_char d))\<rparr>]"
    by (simp add: d_def fs_char_def char_fun_def one_char_def apply_view_def split_def Let_def)
  then obtain x where x: "fs_pend (fs_char d) = [x]" "vw_ma x = 0" "vw_ra x = 0"
    using c a by (simp add: char_view_def apply_vscroll_def Let_def c_def)
  obtain y where "fs_pend (fs_char (fs_char d)) = [x, y]" using fs_char_video(7) [of "fs_char d"] x(1) by auto
  then have "(fs_char ^^ 2) d = put_chain [x, y] 2 False ((fs_char ^^ 2) d)"
    by (simp add: put_chain_def numeral_2_eq_2 d_def)
  then show ?thesis using x(2,3) unfolding d_def by blast
qed

lemma render_one:
  assumes "plus_ok (mc_video m)" "vd_attached (mc_video m)" "fs_pend m = x # xs" "fs_pend_head m = 0" "fs_cells m = 0" "1 \<le> fs_chars m"
    and "vw_ma x = 0" "vw_ra x = 0"
  shows "vd_fetch0 (mc_video (fs_render_below 1 m)) = m_ram (mc_mem m) 0" "fs_cells (fs_render_below 1 m) = 1"
  using assms batch_shown(6) [OF assms(1), of "Some (mc_asic m)" "mc_ga m" "fs_vram m" "[x]"]
  by (simp_all add: fs_render_below_def Let_def fs_vram_def mem_video_ram_def vid_byte_addr_def)

lemma write_filter_lags:
  "vd_fetch0 (mc_video (fs_render_below 1 (fs_advance_chars 2 (fsb_mem_write demo_machine 0 0xFF 4)))) = 0xFF \<and>
   vd_fetch0 (mc_video (fs_render_below 1 (fs_advance_chars 2 (ram_write 0 0xFF (catch_up 1 demo_machine))))) = 0"
proof -
  define d where "d = demo_machine"
  define e where "e = mem_fast_write mem_init 0 0xFF"
  obtain x y where p: "(fs_char ^^ 2) d = put_chain [x, y] 2 False ((fs_char ^^ 2) d)" and x: "vw_ma x = 0" "vw_ra x = 0"
    using demo_view unfolding d_def by blast
  have two: "fs_advance_chars 2 d = (fs_char ^^ 2) d" "fs_advance_chars 2 (put_mem e d) = put_mem e ((fs_char ^^ 2) d)"
    by (simp_all add: advance_form d_def kMaxFastChars_def kMasterPerFrame_def fs_chars_put_mem)
  have v: "mc_video ((fs_char ^^ 2) d) = demo_screen" "fs_pend_head ((fs_char ^^ 2) d) = 0" "fs_cells ((fs_char ^^ 2) d) = 0"
    "mc_mem ((fs_char ^^ 2) d) = mem_init" "fs_pend ((fs_char ^^ 2) d) = [x, y]" "fs_chars ((fs_char ^^ 2) d) = 2"
    using arg_cong [OF p, of fs_pend] by (simp_all add: numeral_2_eq_2 fs_char_video d_def)
  have off: "fst (mem_fast_write_off mem_init 0) = 0"
  proof -
    have "m_fast_dirty mem_init" "m_expansion mem_init = None" by (simp_all add: mem_init_def mem_reset_def mem_zero_def)
    then have "m_wr_bank (refreshed mem_init) 0 = P_ram 0"
      by (simp add: refreshed_def fast_rebuild_def banked_ptr_def kBankTable_def slot_of_def Let_def)
    then show ?thesis by (simp add: mem_fast_write_off_def slot_of_def ptr_add_def Let_def)
  qed
  have w: "fsb_mem_write d 0 0xFF 4 = put_mem e d"
    by (simp add: fsb_mem_write_def d_def split_def write_seen_def ram_write_def put_mem_def e_def write_off_mem fast_write_refreshed Let_def)
  have at: "vd_attached demo_screen" by (simp add: demo_screen_def video_attach_def)
  have "vd_fetch0 (mc_video (fs_render_below 1 (put_mem e ((fs_char ^^ 2) d)))) = m_ram e 0"
    using render_one(1) [of "put_mem e ((fs_char ^^ 2) d)" x "[y]"] v x at demo_ok by simp
  moreover have "vd_fetch0 (mc_video (fs_render_below 1 ((fs_char ^^ 2) d))) = 0" "fs_cells (fs_render_below 1 ((fs_char ^^ 2) d)) = 1"
    using render_one [of "(fs_char ^^ 2) d" x "[y]"] v x at demo_ok by (simp_all add: mem_init_def mem_reset_def mem_zero_def)
  moreover have "m_ram e 0 = 0xFF" using fast_write_ram [of 0 mem_init 0 "0xFF"] off by (simp add: e_def)
  moreover have "catch_up 1 d = fs_render_below 1 ((fs_char ^^ 2) d)" using two(1) by (simp add: catch_up_def flip: numeral_2_eq_2)
  moreover have "fs_advance_chars 2 (put_mem k r) = put_mem k r" "fs_render_below 1 (put_mem k r) = put_mem k r"
    if "fs_chars r = 2" "fs_cells r = 1" for k and r :: "nat machine"
    using that by (simp_all add: advance_form [of 2] fs_render_below_def Let_def)
  ultimately show ?thesis using v(6) unfolding d_def [symmetric] w two by (simp add: ram_write_put)
qed

end
