(* ===== verification/Machine_Frame.thy ===== *)
theory Machine_Frame
  imports Machine_Render
begin

text \<open>
  A whole frame of the Fast tier: the bookkeeping of the catch-ups is an invariant of every callback the CPU can
  make, so of any run of the batch engine, and it bounds the pending buffer.
\<close>

subsection \<open>Environments of the batch engine\<close>

text \<open>A property of the environment that the five callbacks keep is kept by an instruction.\<close>

locale batch_env =
  fixes g :: "'e batch_engine" and P :: "'e \<Rightarrow> bool"
  assumes mem_read: "P e \<Longrightarrow> P (snd (io_mem_read (eng_io g) e a now))"
    and mem_write: "P e \<Longrightarrow> P (io_mem_write (eng_io g) e a v now)"
    and io_read: "P e \<Longrightarrow> P (snd (io_io_read (eng_io g) e a now))"
    and io_write: "P e \<Longrightarrow> P (io_io_write (eng_io g) e a v now)"
    and ack: "io_int_ack (eng_io g) = Some f \<Longrightarrow> P e \<Longrightarrow> P (snd (f e now))"
begin

lemma int_ack_keeps: "P e \<Longrightarrow> P (snd (int_ack g e now))"
  by (simp add: int_ack_def ack split: option.split)

lemma satisfy_keeps: "P (snd s) \<Longrightarrow> P (snd (satisfy g s))"
  by (cases s) (simp add: satisfy_def mem_read mem_write io_read io_write int_ack_keeps Let_def split: MC.split)

lemma run_to_finish_keeps: "h = g \<Longrightarrow> P (snd s) \<Longrightarrow> P (snd (run_to_finish h s))"
proof (induction h s rule: run_to_finish.induct)
  case (1 h z e)
  then show ?case
    using satisfy_keeps [of "(run_micro z, e)"] by (subst run_to_finish.simps) (simp add: Let_def)
qed

lemma fetch_keeps: "P (snd s) \<Longrightarrow> P (snd (snd (fetch_m1 g s)))"
  by (simp add: fetch_m1_def mem_read Let_def)

lemma prefix_keeps:
  fixes h :: "'e batch_engine"
  assumes "prefix_chain h z e = Some r"
  shows "h = g \<longrightarrow> P e \<longrightarrow> P (snd r)"
  using assms
proof (rule prefix_chain.raw_induct [where P = "\<lambda>h z e r. h = g \<longrightarrow> P e \<longrightarrow> P (snd r)", rotated], intro impI)
  fix chain :: "'e batch_engine \<Rightarrow> z80_state \<Rightarrow> 'e \<Rightarrow> (z80_state \<times> 'e) option" and h :: "'e batch_engine" and z e r
  assume IH: "\<And>h z e r. chain h z e = Some r \<Longrightarrow> h = g \<longrightarrow> P e \<longrightarrow> P (snd r)"
    and body: "(let k = fetch_m1 h (z, e); z1 = (fst (snd k))\<lparr>z_opcode := fst k\<rparr>
      in case prefix_byte z1 of None \<Rightarrow> Some (z1, snd (snd k)) | Some z2 \<Rightarrow> chain h z2 (snd (snd k))) = Some r"
    and h: "h = g" and e: "P e"
  have "P (snd (snd (fetch_m1 h (z, e))))" using fetch_keeps [of "(z, e)"] h e by simp
  then show "P (snd r)" using body IH h by (auto simp: Let_def split: option.splits)
qed

lemma finish_keeps: "run_to_finish g (z, e) = (z', e') \<Longrightarrow> P e \<Longrightarrow> P e'"
  using run_to_finish_keeps [of g "(z, e)"] by simp

lemma batch_step_keeps:
  assumes "z80_batch_step g irq (z, e) = Some (t, z', e')" "P e"
  shows "P e'"
proof -
  have c: "P e1" if "prefix_chain g x e = Some (x1, e1)" for x x1 e1 using prefix_keeps [OF that] assms(2) by simp
  show ?thesis using assms by (auto simp: z80_batch_step_def Let_def split: if_splits option.splits dest!: c dest: finish_keeps)
qed

end

subsection \<open>The bookkeeping of a frame\<close>

definition fs_frame :: "'d machine \<Rightarrow> bool" where
  "fs_frame m \<longleftrightarrow> fs_ok m \<and> fs_pend_head m = fs_cells m \<and> length (fs_pend m) = fs_chars m \<and> fs_chars m \<le> kMaxFastChars"

text \<open>The fields it reads.\<close>

definition fs_key :: "'d machine \<Rightarrow> nat \<times> nat \<times> CrtcCharView list \<times> nat \<times> u8 \<times> video_state" where
  "fs_key m = (fs_cells m, fs_chars m, fs_pend m, fs_pend_head m, fs_vpages m, mc_video m)"

lemma fs_frame_key: "fs_key m = fs_key m' \<Longrightarrow> fs_frame m \<Longrightarrow> fs_frame m'"
  by (simp add: fs_frame_def fs_key_def fs_ok_def pending_def)

lemma fs_key_updates [simp]:
  "fs_key (m\<lparr>fs_irq_tmax := a1\<rparr>) = fs_key m" "fs_key (m\<lparr>fs_irq_cache := a2\<rparr>) = fs_key m" "fs_key (m\<lparr>mc_psg := a3\<rparr>) = fs_key m"
  "fs_key (m\<lparr>mc_ga := a4\<rparr>) = fs_key m" "fs_key (m\<lparr>mc_mem := a5\<rparr>) = fs_key m" "fs_key (m\<lparr>mc_asic := a6\<rparr>) = fs_key m"
  "fs_key (m\<lparr>mc_ppi := a7\<rparr>) = fs_key m" "fs_key (m\<lparr>mc_rs232 := a8\<rparr>) = fs_key m" "fs_key (m\<lparr>fs_bail := a9\<rparr>) = fs_key m"
  "fs_key (m\<lparr>mc_fdc := b1\<rparr>) = fs_key m" "fs_key (m\<lparr>fs_fdc_done := b2\<rparr>) = fs_key m" "fs_key (m\<lparr>fs_fdc_hot := b3\<rparr>) = fs_key m"
  "fs_key (m\<lparr>mc_printer := b4\<rparr>) = fs_key m" "fs_key (m\<lparr>fs_prt_done := b5\<rparr>) = fs_key m" "fs_key (m\<lparr>mc_au := b6\<rparr>) = fs_key m"
  "fs_key (m\<lparr>fs_audio_accs := b7\<rparr>) = fs_key m" "fs_key (m\<lparr>fs_audio_steps := b8\<rparr>) = fs_key m" "fs_key (m\<lparr>mc_crtc := b9\<rparr>) = fs_key m"
  "fs_key (m\<lparr>mc_tap_log := c1\<rparr>) = fs_key m" "fs_key (m\<lparr>fs_cut := c2\<rparr>) = fs_key m" "fs_key (m\<lparr>fs_frames_seen := c3\<rparr>) = fs_key m"
  by (simp_all add: fs_key_def)

lemma fs_key_audio [simp]: "fs_key (accumulate_audio_bulk A k m) = fs_key m" "fs_key (audio_unit A m) = fs_key m"
    "fs_key (audio_skip A steps m) = fs_key m"
proof -
  show a: "fs_key (accumulate_audio_bulk A k m) = fs_key m" for m k by (simp add: accumulate_audio_bulk_def Let_def)
  show "fs_key (audio_unit A m) = fs_key m" by (simp add: audio_unit_def accumulate_audio_def Let_def a)
  show "fs_key (audio_skip A steps m) = fs_key m" by (simp add: audio_skip_def Let_def a)
qed

lemma fs_key_audio_run [simp]: "fs_key (fs_audio_run A steps m) = fs_key m"
  by (induction A steps m rule: fs_audio_run.induct) (subst fs_audio_run.simps, simp)

lemma fs_key_events [simp]:
  "fs_key (fs_fdc_to A t m) = fs_key m" "fs_key (snd (fdc_access A i t m)) = fs_key m" "fs_key (printer_write port val t m) = fs_key m"
  "fs_key (ga_port_write port val m) = fs_key m" "fs_key (ppi_port_write port val m) = fs_key m" "fs_key (serial_write port val m) = fs_key m"
  "fs_key (snd (ppi_port_read port m)) = fs_key m"
proof -
  show f: "fs_key (fs_fdc_to A t m) = fs_key m" for t by (simp add: fs_fdc_to_def Let_def)
  show "fs_key (snd (fdc_access A i t m)) = fs_key m" by (simp add: fdc_access_def Let_def f)
  show "fs_key (printer_write port val t m) = fs_key m" by (simp add: printer_write_def Let_def)
  show "fs_key (ga_port_write port val m) = fs_key m" by (simp add: ga_port_write_def)
  show "fs_key (ppi_port_write port val m) = fs_key m" by (simp add: ppi_port_write_def split: prod.split option.split)
  show "fs_key (serial_write port val m) = fs_key m" by (simp add: serial_write_def)
  show "fs_key (snd (ppi_port_read port m)) = fs_key m" by (simp add: ppi_port_read_def Let_def)
qed

lemma fs_frame_updates [inv_intros]:
  "fs_frame m \<Longrightarrow> fs_frame (m\<lparr>mc_mem := e\<rparr>)" "fs_frame m \<Longrightarrow> fs_frame (m\<lparr>fs_irq_tmax := t\<rparr>)" "fs_frame m \<Longrightarrow> fs_frame (m\<lparr>mc_ga := g\<rparr>)"
  "fs_frame m \<Longrightarrow> fs_frame (m\<lparr>mc_asic := a\<rparr>)" "fs_frame m \<Longrightarrow> fs_frame (m\<lparr>fs_bail := b\<rparr>)" "fs_frame m \<Longrightarrow> fs_frame (m\<lparr>fs_irq_cache := b\<rparr>)"
  by (erule fs_frame_key [rotated], simp)+

lemma fs_char_frame:
  assumes "fs_frame m" "fs_chars m < kMaxFastChars"
  shows "fs_frame (fs_char m)"
proof -
  obtain x where "fs_pend (fs_char m) = fs_pend m @ [x]" using fs_char_video(7) [of m] by auto
  then show ?thesis using assms by (simp add: fs_frame_def fs_char_ok fs_char_video)
qed

lemma fs_chars_frame: "fs_frame m \<Longrightarrow> fs_chars m + n \<le> kMaxFastChars \<Longrightarrow> fs_frame ((fs_char ^^ n) m)"
  by (induction n) (simp_all add: fs_char_frame)

lemma advance_frame [inv_intros]: "fs_frame m \<Longrightarrow> fs_frame (fs_advance_chars t m)"
proof -
  assume a: "fs_frame m"
  then have "fs_frame ((fs_char ^^ (min t kMaxFastChars - fs_chars m)) m)" by (intro fs_chars_frame) (auto simp: fs_frame_def)
  then have "fs_frame (bail_if b ((fs_char ^^ (min t kMaxFastChars - fs_chars m)) m))" for b
    by (rule fs_frame_key [rotated]) (simp add: bail_if_def)
  with a show ?thesis by (simp add: advance_form)
qed

lemma render_frame [inv_intros]: "fs_frame m \<Longrightarrow> fs_frame (fs_render_below t m)"
  using render_ok [of m t] by (simp add: fs_frame_def) (simp add: render_form Let_def)

lemma catch_up_frame [inv_intros]: "fs_frame m \<Longrightarrow> fs_frame (catch_up j m)"
  by (simp add: catch_up_def advance_frame render_frame)

lemma mark_vsync_page [simp]: "page_of (mark_vsync x) = page_of x"
  by (simp add: mark_vsync_def page_of_def)

lemma crtc_write_frame [inv_intros]:
  assumes "fs_frame m"
  shows "fs_frame (crtc_write port val m)"
proof -
  obtain caused c where c: "crtc_fast_io_write (mc_crtc m) port val = (caused, c)" by (metis surj_pair)
  define n where "n = length (fs_pend m) - 1"
  define vs where "vs = (if fs_pend_head m < length (fs_pend m) then (fs_pend m)[n := mark_vsync (fs_pend m ! n)] else fs_pend m)"
  have "page_of ` set (drop h vs) \<subseteq> page_of ` set (drop h (fs_pend m))" for h
  proof (cases "h \<le> n \<and> fs_pend_head m < length (fs_pend m)")
    case True
    then have "drop h (fs_pend m) ! (n - h) = fs_pend m ! n" "h \<le> n" by (auto simp: n_def)
    then have "drop h vs = (drop h (fs_pend m))[n - h := mark_vsync (drop h (fs_pend m) ! (n - h))]"
      using True by (simp add: vs_def drop_update_swap)
    moreover have "n - h < length (drop h (fs_pend m))" using True by (auto simp: n_def)
    ultimately show ?thesis
      using set_update_subset_insert [of "drop h (fs_pend m)" "n - h" "mark_vsync (drop h (fs_pend m) ! (n - h))"]
        nth_mem [of "n - h" "drop h (fs_pend m)"] by fastforce
  next
    case False
    then have "drop h vs = drop h (fs_pend m)" by (cases "fs_pend_head m < length (fs_pend m)") (simp_all add: vs_def n_def)
    then show ?thesis by simp
  qed
  then have sub: "\<And>h x. x \<in> set (drop h vs) \<Longrightarrow> \<exists>y \<in> set (drop h (fs_pend m)). page_of x = page_of y" by blast
  have "length vs = length (fs_pend m)" by (simp add: vs_def)
  then have "fs_frame (m\<lparr>fs_pend := vs\<rparr>)"
    using assms sub by (auto simp: fs_frame_def fs_ok_def pending_def) metis
  moreover have "fs_key (crtc_write port val m) = (if caused then fs_key (m\<lparr>fs_pend := vs\<rparr>) else fs_key m)"
    by (simp add: crtc_write_def c Let_def vs_def n_def) (simp add: fs_key_def)
  ultimately show ?thesis using assms fs_frame_key [of "m\<lparr>fs_pend := vs\<rparr>" "crtc_write port val m"] fs_frame_key [of m "crtc_write port val m"]
    by (cases caused) simp_all
qed

lemma io_write_frame: "fs_frame m \<Longrightarrow> fs_frame (fs_io_write_event A port val t m)"
proof -
  assume a: "fs_frame m"
  define j m1 early where "j = t div 4" and "m1 = m\<lparr>fs_irq_tmax := 0\<rparr>" and "early = (port AND 0xC000 = 0x4000 \<and> t mod 4 = 0)"
  define m2 where "m2 = (if early then ga_port_write port val (fs_render_below j (fs_advance_chars j m1)) else m1)"
  define m3 where "m3 = fs_audio_run A (j + 1) (fs_render_below j (fs_advance_chars (j + 1) m2))"
  define m4 where "m4 = (if port AND 0x1000 = 0 then printer_write port val t m3 else m3)"
  have i: "fs_frame m1" using a by (simp add: m1_def fs_frame_updates)
  have g: "fs_frame (ga_port_write port val x)" if "fs_frame x" for x using that by (rule fs_frame_key [rotated]) simp
  have "fs_frame m2" using i by (simp add: m2_def g advance_frame render_frame)
  then have "fs_frame (fs_render_below j (fs_advance_chars (j + 1) m2))" by (intro advance_frame render_frame)
  then have "fs_frame m3" unfolding m3_def by (rule fs_frame_key [rotated]) simp
  then have "fs_frame m4" unfolding m4_def by (rule fs_frame_key [rotated]) simp
  then have m5: "fs_frame (crtc_write port val m4)" by (rule crtc_write_frame)
  show ?thesis
    unfolding fs_io_write_event_def Let_def j_def [symmetric] m1_def [symmetric] early_def [symmetric] m2_def [symmetric]
      m3_def [symmetric] m4_def [symmetric]
    by (rule fs_frame_key [OF _ m5]) (simp split: if_split)
qed

lemma io_read_frame: "fs_frame m \<Longrightarrow> fs_frame (snd (fs_io_read_event A port t m))"
  by (rule fs_frame_key [OF _ advance_frame [of m "t div 4 + 1"]]) (simp_all add: fs_io_read_event_def Let_def)

lemma mem_write_frame: "fs_frame m \<Longrightarrow> fs_frame (fsb_mem_write m addr val now)"
  by (auto simp: fsb_mem_write_def ram_write_def Let_def split: prod.split intro!: fs_frame_updates catch_up_frame)

lemma int_ack_frame: "fs_frame m \<Longrightarrow> fs_frame (snd (fsb_int_ack m now))"
  by (auto simp: fsb_int_ack_def Let_def split: prod.split intro!: fs_frame_updates advance_frame)

interpretation frame_env: batch_env "fs_engine A" fs_frame for A
proof unfold_locales
  show "fs_frame e \<Longrightarrow> fs_frame (snd (io_mem_read (eng_io (fs_engine A)) e a now))" for e a now
    by (auto simp: fs_engine_def fsb_mem_read_def Let_def split: option.split intro: fs_frame_updates)
qed (auto simp: fs_engine_def fsb_io_read_def fsb_io_write_def io_read_frame io_write_frame mem_write_frame int_ack_frame)

lemma poll_frame [inv_intros]: "fs_frame m \<Longrightarrow> fs_frame (fs_poll b m)"
  by (rule fs_frame_key [OF _ advance_frame [of m "if fs_irq_tmax m < b then fs_visible b else 0"]])
    (simp_all add: fs_poll_def Let_def advance_form [of 0])

lemma run_instr_frame: "fast_run_instr A rel (z, m) = Some (stop, z', m') \<Longrightarrow> fs_frame m \<Longrightarrow> fs_frame m'"
proof -
  assume r: "fast_run_instr A rel (z, m) = Some (stop, z', m')" and a: "fs_frame m"
  define p where "p = fs_poll ((rel + 3) div 4 * 4) m"
  have p: "fs_frame p" using a by (simp add: p_def poll_frame)
  then have "fs_frame (fs_taps z p)" by (rule fs_frame_key [rotated]) (simp add: fs_taps_def)
  then show "fs_frame m'"
    using r p by (auto simp: fast_run_instr_def p_def [symmetric] Let_def split: if_splits option.splits
      dest: frame_env.batch_step_keeps)
qed

lemma iter_frame: "fast_iter A (z, m) = Some (stop, z', m') \<Longrightarrow> fs_frame m \<Longrightarrow> fs_frame m'"
  by (auto simp: fast_iter_def Let_def split: if_splits intro: run_instr_frame intro!: advance_frame fs_frame_updates)

lemma loop_frame: "fast_loop A n (z, m) = Some (z', m') \<Longrightarrow> fs_frame m \<Longrightarrow> fs_frame m'"
proof (induction n arbitrary: z m)
  case (Suc n)
  then show ?case by (auto split: if_splits option.splits dest: iter_frame)
qed simp

lemma enter_frame: "plus_ok (mc_video m) \<Longrightarrow> fs_frame (fast_enter target z m)"
  by (simp add: fast_enter_def fs_frame_def fs_ok_def pending_def kMaxFastChars_def Let_def)

text \<open>C12 (fs_frame_bounds): the bookkeeping of a frame is an invariant. From any machine whose renderer has a sound byte cache, after any
  number of instructions of the frame loop, whatever they read, write and acknowledge: the renderer is behind the chain, the
  pending buffer holds exactly one view per character advanced, at most \<open>kMaxFastChars\<close> of them, the cursor and the
  position agree, and the page set of the write filter covers every pending view.\<close>

theorem fs_frame_bounds:
  assumes "plus_ok (mc_video m)" "fast_loop A n (z, fast_enter target z0 m) = Some (z', m')"
  shows "fs_cells m' \<le> fs_chars m' \<and> fs_chars m' \<le> kMaxFastChars \<and> length (fs_pend m') = fs_chars m' \<and> fs_pend_head m' = fs_cells m' \<and>
    (\<forall>k. fs_cells m' \<le> k \<and> k < fs_chars m' \<longrightarrow> bit (fs_vpages m') (page_of (fs_pend m' ! k)))"
proof -
  have f: "fs_frame m'" by (rule loop_frame [OF assms(2) enter_frame [OF assms(1)]])
  have "bit (fs_vpages m') (page_of (fs_pend m' ! k))" if "fs_cells m' \<le> k" "k < fs_chars m'" for k
  proof -
    have "fs_pend m' ! k \<in> set (pending m')"
      unfolding pending_def in_set_conv_nth using f that by (intro exI [of _ "k - fs_cells m'"]) (auto simp: fs_frame_def)
    then show ?thesis using f by (simp add: fs_frame_def fs_ok_def)
  qed
  with f show ?thesis by (auto simp: fs_frame_def fs_ok_def)
qed

text \<open>A halted CPU with interrupts off: one turn of the loop advances 64 characters.\<close>

lemma fs_iter_cells: "fs_cells ((fs_char ^^ n) m) = fs_cells m"
  by (induction n) (simp_all add: fs_char_video(4))

theorem fs_frame_bounds_witness:
  "\<forall>A z. case fast_loop A 1 (z\<lparr>z_halted := True, z_iff1 := 0\<rparr>, fast_enter 1 z demo_machine) of
     Some (_, m) \<Rightarrow> fs_chars m = 64 \<and> length (fs_pend m) = 64 \<and> bit (fs_vpages m) (page_of (fs_pend m ! 63))
   | None \<Rightarrow> False"
proof (intro allI)
  fix A :: "nat arith" and z0 :: z80_state
  define z where "z = z0\<lparr>z_halted := True, z_iff1 := 0\<rparr>"
  define m where "m = fast_enter 1 z0 demo_machine"
  have m: "fs_chars m = 0" "fs_cells m = 0" "\<not> fs_cut m" "\<not> fs_bail m"
    by (simp_all add: m_def fast_enter_def Let_def)
  define m' where "m' = fs_advance_chars 64 (m\<lparr>fs_irq_tmax := 0\<rparr>)"
  have "fs_t0 m = z_tstates z" "z_halted z" "z_iff1 z = 0" by (simp_all add: z_def m_def fast_enter_def Let_def)
  then obtain z' where l: "fast_loop A 1 (z, m) = Some (z', m')"
    using m by (simp add: fast_iter_def Let_def rel_time_def fs_visible_def m'_def advance_form [of 0])
  have c: "fs_chars m' = 64" "fs_cells m' = 0"
    using m by (simp_all add: m'_def advance_form bail_if_def kMaxFastChars_def kMasterPerFrame_def fs_iter_cells)
  show "case fast_loop A 1 (z0\<lparr>z_halted := True, z_iff1 := 0\<rparr>, fast_enter 1 z0 demo_machine) of
     Some (_, m) \<Rightarrow> fs_chars m = 64 \<and> length (fs_pend m) = 64 \<and> bit (fs_vpages m) (page_of (fs_pend m ! 63))
   | None \<Rightarrow> False"
    using fs_frame_bounds [OF _ l [unfolded m_def]] c demo_ok unfolding z_def [symmetric] m_def [symmetric] l
    by (simp del: fast_loop.simps)
qed

end
