(* ===== verification/Machine_Audio.thy ===== *)
theory Machine_Audio
  imports Machine_Chain
begin

text \<open>
  The lazy sound chip and the disc controller's cursor of the Fast tier: the closed-form bulk of the audio catch-up
  gives the samples of the unit-by-unit loop, and the cursor's hop the state of the skipped cycles.
\<close>

subsection \<open>The accumulator\<close>

lemma to_boundary_pos: "au_phase a < kPsgHz \<Longrightarrow> 0 < au_to_boundary a"
  by (simp add: au_to_boundary_def kPsgHz_def kAudioHz_def)

lemma au_take_sel [simp]: "au_phase (au_take l r c a) = au_phase a + kAudioHz * int c"
  by (simp add: au_take_def)

lemma au_take_add: "au_take l r c (au_take l r d a) = au_take l r (d + c) a"
  by (simp add: au_take_def algebra_simps)

lemma boundary_one:
  assumes "kPsgHz - kAudioHz \<le> au_phase a" "au_phase a < kPsgHz"
  shows "au_to_boundary a = Suc 0"
proof -
  define x where "x = kPsgHz - au_phase a + kAudioHz - 1"
  have "x div 44100 = 1"
    by (rule int_div_pos_eq [where r = "x - 44100"]) (use assms in \<open>simp_all add: x_def kAudioHz_def\<close>)
  then show ?thesis by (simp add: au_to_boundary_def x_def kAudioHz_def)
qed

lemma boundary_less:
  assumes "au_phase a < kPsgHz - kAudioHz"
  shows "au_to_boundary (au_take l r (Suc 0) a) = au_to_boundary a - 1" "1 < au_to_boundary a"
proof -
  define x where "x = kPsgHz - au_phase a + kAudioHz - 1"
  have x: "88200 \<le> x" using assms by (simp add: x_def kAudioHz_def)
  have "au_to_boundary (au_take l r (Suc 0) a) = nat ((x - 44100) div 44100)" by (simp add: au_to_boundary_def x_def kAudioHz_def)
  also have "(x - 44100) div 44100 = x div 44100 - 1" using div_add_self1 [of "44100 :: int" "x - 44100"] by simp
  finally show "au_to_boundary (au_take l r (Suc 0) a) = au_to_boundary a - 1" by (simp add: au_to_boundary_def x_def kAudioHz_def)
  have "88200 div 44100 \<le> x div 44100" using x by (intro zdiv_mono1) simp_all
  moreover have "au_to_boundary a = nat (x div 44100)" by (simp add: au_to_boundary_def x_def kAudioHz_def)
  ultimately show "1 < au_to_boundary a" by simp
qed

lemma au_bulk_zero [simp]: "au_bulk A l r 0 a = a"
  by (subst au_bulk.simps) simp

lemma au_bulk_one:
  assumes "au_phase a < kPsgHz"
  shows "au_bulk A l r (Suc 0) a = (if kPsgHz - kAudioHz \<le> au_phase a then au_boundary A (au_take l r (Suc 0) a) else au_take l r (Suc 0) a)"
proof -
  have "min (Suc 0) (au_to_boundary a) = Suc 0" using to_boundary_pos [OF assms] by simp
  then show ?thesis by (subst au_bulk.simps) (auto simp: Let_def)
qed

lemma au_bulk_phase: "au_phase a < kPsgHz \<Longrightarrow> au_phase (au_bulk A l r (Suc 0) a) < kPsgHz"
  by (simp add: au_bulk_one kPsgHz_def kAudioHz_def)

lemma au_bulk_Suc:
  assumes "au_phase a < kPsgHz"
  shows "au_bulk A l r (Suc k) a = au_bulk A l r k (au_bulk A l r (Suc 0) a)"
proof (cases "kPsgHz - kAudioHz \<le> au_phase a")
  case True
  then have "au_to_boundary a = Suc 0" using assms by (simp add: boundary_one)
  then show ?thesis using True by (subst au_bulk.simps) (simp add: au_bulk_one [OF assms] Let_def)
next
  case False
  note b = boundary_less [of a]
  define c where "c = min (Suc k) (au_to_boundary a)"
  have lt: "au_phase a < kPsgHz - kAudioHz" using False by simp
  show ?thesis
  proof (cases k)
    case 0
    then show ?thesis by simp
  next
    case (Suc j)
    have c: "min k (au_to_boundary (au_take l r (Suc 0) a)) = c - 1" "0 < c - 1" using b [OF lt] Suc by (simp_all add: c_def)
    have t: "au_take l r (c - 1) (au_take l r (Suc 0) a) = au_take l r c a" using c(2) by (simp add: au_take_add)
    have R: "au_bulk A l r k (au_bulk A l r (Suc 0) a) = (let a1 = au_take l r c a in
        if au_phase a1 < kPsgHz then au_bulk A l r (k - (c - 1)) a1 else au_bulk A l r (k - (c - 1)) (au_boundary A a1))"
      using False Suc c(1) t by (subst au_bulk.simps) (simp add: au_bulk_one [OF assms] Let_def del: au_take_sel)
    have L: "au_bulk A l r (Suc k) a = (let a1 = au_take l r c a in
        if au_phase a1 < kPsgHz then au_bulk A l r (Suc k - c) a1 else au_bulk A l r (Suc k - c) (au_boundary A a1))"
      by (subst au_bulk.simps) (simp add: c_def Let_def)
    have e: "Suc k - c = k - (c - 1)" using c(2) by simp
    show ?thesis unfolding L R e ..
  qed
qed

lemma au_bulk_snoc:
  "au_phase a < kPsgHz \<Longrightarrow> au_bulk A l r (Suc k) a = au_bulk A l r (Suc 0) (au_bulk A l r k a) \<and> au_phase (au_bulk A l r k a) < kPsgHz"
proof (induction k arbitrary: a)
  case (Suc k)
  define b where "b = au_bulk A l r (Suc 0) a"
  have "au_bulk A l r (Suc (Suc k)) a = au_bulk A l r (Suc k) b" "au_bulk A l r (Suc k) a = au_bulk A l r k b"
    using au_bulk_Suc [OF Suc.prems, of A l r "Suc k"] au_bulk_Suc [OF Suc.prems, of A l r k] by (simp_all add: b_def)
  then show ?case using Suc.IH [OF au_bulk_phase [OF Suc.prems], of A l r, folded b_def] by simp
qed simp

subsection \<open>The units\<close>

text \<open>What one unit changes.\<close>

definition put_audio :: "'d audio \<Rightarrow> psg_state \<Rightarrow> nat \<Rightarrow> nat \<Rightarrow> 'd machine \<Rightarrow> 'd machine" where
  "put_audio a p accs steps m = m\<lparr>mc_au := a, mc_psg := p, fs_audio_accs := accs, fs_audio_steps := steps\<rparr>"

definition add_left :: "'d machine \<Rightarrow> psg_state \<Rightarrow> int" where
  "add_left m p = int (ps_chan_level p 0) + int (ps_chan_level p 1) + (if mc_digiblaster m then dac_swing (printer_peek (mc_printer m)) else 0)
     + (if mc_amdrum_on m then dac_swing (fst (amdrum_peek (mc_amdrum m))) else 0)"

definition add_right :: "psg_state \<Rightarrow> int" where
  "add_right p = int (ps_chan_level p 2) + int (ps_chan_level p 1)"

lemma accumulate_put:
  "accumulate_audio_bulk A k m = put_audio (au_bulk A (add_left m (mc_psg m)) (add_right (mc_psg m)) k (mc_au m)) (mc_psg m) (fs_audio_accs m)
     (fs_audio_steps m) m"
  by (cases m) (simp add: accumulate_audio_bulk_def put_audio_def add_left_def add_right_def Let_def)

lemma put_audio_sel [simp]:
  "mc_au (put_audio a p i j m) = a" "mc_psg (put_audio a p i j m) = p" "fs_audio_accs (put_audio a p i j m) = i"
  "fs_audio_steps (put_audio a p i j m) = j" "add_left (put_audio a p i j m) q = add_left m q"
  "put_audio a p i j (put_audio b q i' j' m) = put_audio a p i j m"
  "(put_audio a p i j m)\<lparr>fs_audio_accs := x\<rparr> = put_audio a p x j m" "(put_audio a p i j m)\<lparr>mc_psg := q\<rparr> = put_audio a q i j m"
  "(put_audio a p i j m)\<lparr>fs_audio_steps := y\<rparr> = put_audio a p i y m"
  "put_audio (mc_au m) (mc_psg m) (fs_audio_accs m) (fs_audio_steps m) m = m"
  by (simp_all add: put_audio_def add_left_def)

lemma unit_put:
  "fs_audio_accs m < fs_audio_steps m \<Longrightarrow> audio_unit A m =
    put_audio (au_bulk A (add_left m (mc_psg m)) (add_right (mc_psg m)) (Suc 0) (mc_au m)) (psg_batch_step (mc_psg m)) (fs_audio_accs m + 1)
      (fs_audio_steps m + 1) m"
  by (simp add: audio_unit_def accumulate_audio_def accumulate_put Let_def)

lemma skip_levels [simp]: "ps_chan_level (psg_batch_skip p n) = ps_chan_level p"
  by (simp add: psg_batch_skip_def Let_def)

lemma add_levels: "ps_chan_level p = ps_chan_level q \<Longrightarrow> add_left m p = add_left m q \<and> add_right p = add_right q"
  by (simp add: add_left_def add_right_def)

lemma units_skip:
  assumes "fs_audio_accs m < fs_audio_steps m" "psg_wf (mc_psg m)" "mixer_step (mc_psg m) = mc_psg m" "au_phase (mc_au m) < kPsgHz"
  shows "k < psg_batch_quiet_steps (mc_psg m) \<Longrightarrow> (audio_unit A ^^ k) m =
    put_audio (au_bulk A (add_left m (mc_psg m)) (add_right (mc_psg m)) k (mc_au m)) ((psg_batch_step ^^ k) (mc_psg m)) (fs_audio_accs m + k)
      (fs_audio_steps m + k) m"
proof (induction k)
  case (Suc k)
  define p where "p = (psg_batch_step ^^ k) (mc_psg m)"
  have lv: "ps_chan_level p = ps_chan_level (mc_psg m)"
  proof (cases "k = 0")
    case False
    then show ?thesis using skip_exact(2) [OF assms(2) _ _ assms(3), of k] Suc.prems by (simp add: p_def)
  qed (simp add: p_def)
  define n where "n = put_audio (au_bulk A (add_left m (mc_psg m)) (add_right (mc_psg m)) k (mc_au m)) p (fs_audio_accs m + k) (fs_audio_steps m + k) m"
  have ih: "(audio_unit A ^^ k) m = n" using Suc by (simp add: n_def p_def)
  have "audio_unit A n = put_audio (au_bulk A (add_left m p) (add_right p) (Suc 0) (mc_au n)) (psg_batch_step p) (fs_audio_accs m + k + 1)
      (fs_audio_steps m + k + 1) m"
    using unit_put [of n A] assms(1) by (simp add: n_def)
  also have "mc_au n = au_bulk A (add_left m (mc_psg m)) (add_right (mc_psg m)) k (mc_au m)" by (simp add: n_def)
  also have "au_bulk A (add_left m p) (add_right p) (Suc 0) (au_bulk A (add_left m (mc_psg m)) (add_right (mc_psg m)) k (mc_au m)) =
      au_bulk A (add_left m (mc_psg m)) (add_right (mc_psg m)) (Suc k) (mc_au m)"
    using au_bulk_snoc [OF assms(4)] add_levels [OF lv, of m] by simp
  finally show ?case by (simp add: ih p_def)
qed simp

lemma mixer_idem: "mixer_step (mixer_step p) = mixer_step p"
proof -
  have "chan_mix (mixer_step p) = chan_mix p" by (simp add: fun_eq_iff chan_mix_def mixer_step_def tone_period_def Let_def)
  then show ?thesis by (simp add: mixer_step_def [of "mixer_step p"]) (simp add: mixer_step_def fun_eq_iff)
qed

lemma stepped_mixed: "mixer_step (psg_batch_step p) = psg_batch_step p"
  by (simp add: psg_batch_step_def sound_step_def mixer_idem)

lemma event_in_bounds: "dv < presc \<Longrightarrow> 0 < psg_event_in presc dv cnt per \<and> psg_event_in presc dv cnt per \<le> presc + per * presc"
proof -
  assume d: "dv < presc"
  define n where "n = (if cnt < per then per - cnt else 1) - 1"
  have a: "n * presc \<le> per * presc" by (intro mult_right_mono) (auto simp: n_def)
  have e: "psg_event_in presc dv cnt per = (presc - dv) + n * presc" by (simp add: psg_event_in_def n_def Let_def)
  show ?thesis unfolding e using a d by linarith
qed

lemma quiet_bounds:
  assumes "psg_wf p"
  shows "0 < psg_batch_quiet_steps p" "psg_batch_quiet_steps p < 2 ^ 32"
proof -
  have w: "ps_tone_div p < 8" "ps_noise_div p < 16" "ps_env_div p < 256" using assms by (simp_all add: psg_wf_def)
  note t = event_in_bounds [OF w(1)] and n = event_in_bounds [OF w(2)] and e = event_in_bounds [OF w(3)]
  show "0 < psg_batch_quiet_steps p"
    using t n e by (simp add: psg_batch_quiet_steps_def Let_def numeral_3_eq_3 numeral_2_eq_2)
  have "psg_batch_quiet_steps p \<le> psg_event_in 8 (ps_tone_div p) (ps_tone_cnt p 0) (tone_period p 0)"
    by (simp add: psg_batch_quiet_steps_def Let_def numeral_3_eq_3 numeral_2_eq_2)
  also have "\<dots> \<le> 8 + 4096 * 8"
    using t [of "ps_tone_cnt p 0" "tone_period p 0"] tone_period_range(2) [of p 0] by simp
  finally show "psg_batch_quiet_steps p < 2 ^ 32" by simp
qed

text \<open>The bulk of one turn is as many units as it skips.\<close>

lemma skip_units:
  assumes "psg_wf (mc_psg m)" "mixer_step (mc_psg m) = mc_psg m" "au_phase (mc_au m) < kPsgHz" "fs_audio_steps m \<le> steps"
  shows "\<exists>k. audio_skip A steps m = (audio_unit A ^^ k) m \<and> fs_audio_steps m + k \<le> steps"
proof (cases "fs_audio_steps m < steps \<and> fs_audio_accs m < fs_audio_steps m")
  case True
  define k where "k = min (steps - fs_audio_steps m) (unat (of_nat (psg_batch_quiet_steps (mc_psg m)) - 1 :: u32))"
  note q = quiet_bounds [OF assms(1)]
  have u: "unat (of_nat (psg_batch_quiet_steps (mc_psg m)) - 1 :: u32) = psg_batch_quiet_steps (mc_psg m) - 1"
  proof -
    obtain n where n: "psg_batch_quiet_steps (mc_psg m) = Suc n" using q(1) by (cases "psg_batch_quiet_steps (mc_psg m)") auto
    then have "unat (of_nat n :: u32) = n" using q(2) by (simp add: unat_of_nat n)
    then show ?thesis by (simp add: n)
  qed
  then have k: "k < psg_batch_quiet_steps (mc_psg m)" using q(1) by (simp add: k_def)
  have sk: "audio_skip A steps m = (if 0 < k then
      (let m1 = (accumulate_audio_bulk A k m)\<lparr>fs_audio_accs := fs_audio_accs m + k\<rparr>
       in m1\<lparr>mc_psg := psg_batch_skip (mc_psg m1) k, fs_audio_steps := fs_audio_steps m1 + k\<rparr>) else m)"
    using True unfolding audio_skip_def Let_def k_def [symmetric] by simp
  have "audio_skip A steps m = (audio_unit A ^^ k) m"
  proof (cases "k = 0")
    case True
    then show ?thesis by (simp add: sk)
  next
    case False
    then have "(psg_batch_step ^^ k) (mc_psg m) = psg_batch_skip (mc_psg m) k" using skip_exact(2) [OF assms(1) _ k assms(2)] by simp
    then show ?thesis
      using units_skip [OF _ assms(1-3) k, of A] True False by (simp add: sk Let_def accumulate_put)
  qed
  moreover have "fs_audio_steps m + k \<le> steps" using True unfolding k_def by linarith
  ultimately show ?thesis by blast
next
  case False
  then show ?thesis using assms(4) by (intro exI [of _ 0]) (auto simp: audio_skip_def)
qed

lemma unit_parts:
  "mc_psg (audio_unit A m) = psg_batch_step (mc_psg m)"
  "mc_au (audio_unit A m) = (if fs_audio_accs m < fs_audio_steps m
     then au_bulk A (add_left m (mc_psg m)) (add_right (mc_psg m)) (Suc 0) (mc_au m) else mc_au m)"
  by (simp_all add: audio_unit_def accumulate_audio_def accumulate_put Let_def del: accumulate_frame)

lemma unit_keeps:
  assumes "psg_wf (mc_psg m)" "au_phase (mc_au m) < kPsgHz"
  shows "psg_wf (mc_psg (audio_unit A m))" "mixer_step (mc_psg (audio_unit A m)) = mc_psg (audio_unit A m)" "au_phase (mc_au (audio_unit A m)) < kPsgHz"
proof -
  show "psg_wf (mc_psg (audio_unit A m))" using assms(1) by (simp add: unit_parts psg_batch_step_def sound_step_wf)
  show "mixer_step (mc_psg (audio_unit A m)) = mc_psg (audio_unit A m)" by (simp add: unit_parts stepped_mixed)
  show "au_phase (mc_au (audio_unit A m)) < kPsgHz" using assms(2) by (simp add: unit_parts au_bulk_phase)
qed

lemma units_keep:
  "psg_wf (mc_psg m) \<Longrightarrow> au_phase (mc_au m) < kPsgHz \<Longrightarrow>
    psg_wf (mc_psg ((audio_unit A ^^ k) m)) \<and> au_phase (mc_au ((audio_unit A ^^ k) m)) < kPsgHz \<and>
    fs_audio_steps ((audio_unit A ^^ k) m) = fs_audio_steps m + k"
  by (induction k) (simp_all add: unit_keeps)

lemma audio_run_units:
  assumes "psg_wf (mc_psg m)" "au_phase (mc_au m) < kPsgHz"
  shows "fs_audio_run A steps m = (audio_unit A ^^ (steps - fs_audio_steps m)) m"
  using assms
proof (induction A steps m rule: fs_audio_run.induct)
  case (1 A steps m)
  show ?case
  proof (cases "fs_audio_steps m < steps")
    case True
    define u where "u = audio_unit A m"
    note k = unit_keeps [OF "1.prems", of A, folded u_def]
    have s: "fs_audio_steps u = fs_audio_steps m + 1" by (simp add: u_def)
    obtain n where n: "audio_skip A steps u = (audio_unit A ^^ n) u" "fs_audio_steps u + n \<le> steps"
      using skip_units [OF k, where steps = steps and A = A] True s by auto
    define w where "w = audio_skip A steps u"
    have w: "psg_wf (mc_psg w)" "au_phase (mc_au w) < kPsgHz" "fs_audio_steps w = fs_audio_steps u + n"
      using units_keep [OF k(1,3), of n A] by (simp_all add: w_def n(1))
    have "fs_audio_run A steps m = fs_audio_run A steps w" using True by (subst fs_audio_run.simps) (simp add: w_def u_def)
    also have "\<dots> = (audio_unit A ^^ (steps - fs_audio_steps w)) w"
      using "1.IH" [OF True] w by (simp add: w_def u_def)
    also have "\<dots> = (audio_unit A ^^ (steps - fs_audio_steps w + n)) u" by (simp add: w_def n(1) funpow_add)
    also have "\<dots> = (audio_unit A ^^ Suc (steps - fs_audio_steps w + n)) m" by (simp add: u_def funpow_swap1)
    also have "Suc (steps - fs_audio_steps w + n) = steps - fs_audio_steps m" using n(2) w(3) s by simp
    finally show ?thesis .
  qed (subst fs_audio_run.simps, simp)
qed

text \<open>C11 (fs_audio_exact): the closed-form audio catch-up gives the samples of the plain loop. From any chip state that is reachable and any
  phase below the host-rate boundary, \<open>fs_audio_steps\<close> to any target leaves the machine that the plain units leave (the deferred
  accumulate, then the sound step, once per microsecond): the same generator counters and levels, the same accumulators, the same
  DC-filter states and the same emitted samples, with the DACs mixed in and for any floating-point arithmetic.\<close>

theorem fs_audio_exact:
  assumes "psg_reach (mc_psg m)" "au_phase (mc_au m) < kPsgHz"
  shows "fs_audio_run A steps m = (audio_unit A ^^ (steps - fs_audio_steps m)) m"
  by (rule audio_run_units [OF psg_reach_wf [OF assms(1)] assms(2)])

theorem fs_audio_exact_witness:
  "\<forall>A. fs_audio_run A 300 demo_machine = (audio_unit A ^^ 300) demo_machine"
  using fs_audio_exact [of demo_machine _ 300] reach_init by (simp add: demo_machine_def kPsgHz_def)

end
