(* ===== verification/Spec2Isabelle.thy ===== *)
theory Spec2Isabelle
  imports Board Asic_Dma Video_Batch Gate_Array Memory Ppi Crtc Psg Printer Amdrum Amx Light_Gun Smartwatch Mf2 M4 Z80_Runs Mfm_Roundtrip Fdc_Phases Tape_Play
    Rs232_Link Symbiface_Io Machine_Frame Machine_Audio
begin

text \<open>
  Verification of the machine that konCePCja emulates: the pin-level hardware layer of an Amstrad CPC and CPC Plus
  (\<open>src/src/hw\<close>) and the scheduler of its Fast tier (\<open>src/src/subcycle/machine.cpp\<close>). Paths are given from the
  directory that holds the repository, \<open>src/\<close>.

  \<^bold>\<open>The program.\<close> Every chip of the computer is a device: a struct of state and a function \<open>tick\<close> that reads the bus
  committed in the last cycle of the 16 MHz master clock and drives its own lines on the next one. A board ticks its
  devices over a bus pulled to rest and then commits it, so no device sees what another drives in the same cycle. The
  per-cycle tiers run the board this way. The Fast tier runs the Z80 one instruction at a time through five callbacks,
  advances the CRTC and the Gate Array eagerly in whole characters, lets the renderer and the sound chip catch up
  when an access could tell the difference, and at the end of the frame builds a bus from which the per-cycle tier goes on. Each
  device therefore has two faces, \<open>tick\<close> and a set of batch or fast functions, and most of the theorems say that the two
  agree, or that an optimisation inside one of them cannot be observed.

  \<^bold>\<open>How the model reads the code.\<close> A struct is a record with the fields of the struct, in its order and under a prefix
  (\<open>cr_hcc\<close> is \<open>hcc\<close> of \<open>crtc_state\<close>); a function keeps its name, takes the state and returns it updated. \<open>tick\<close>
  is split into a step, which computes the new state and the list of lines driven, and the driver that applies the list to the
  next bus. Integers are words of their C++ width wherever the code lets them wrap or shifts them, and naturals or
  integers where a bound that is proved keeps them small; arrays are functions from indices, except where the
  length matters. A pointer to host memory is a function, an option when it may be null, with its length
  beside it. Failure is \<open>None\<close>, or a flag beside the state when the code has written some of it by then. The state blobs carry the version byte and the struct image. Double arithmetic (the PLL of the flux
  decoder, the DC filter of the sound output) is a record of operations \<open>arith\<close> over any carrier, about which nothing is
  assumed. The callbacks of the Z80's batch engine are a record of functions over any environment.

  \<^bold>\<open>The theories.\<close>
  \<^item> \<^bold>\<open>Shared.\<close> \<open>Prelude\<close>: integer types, fact collections, lemmas on masks, iteration and folds. \<open>Buses\<close>: \<open>buses.h\<close> and the resting bus.
    \<open>Contracts\<close>: the interfaces as locales. \<open>bus_driver\<close> (a tick drives lines that depend on the committed bus alone),
    \<open>held_write\<close> (repeating a write that is held changes nothing), \<open>edge_access\<close> (an access acts once, on its first
    cycle), \<open>catch_up\<close> (a closed form for quiet cycles), \<open>state_blob\<close> (saving and loading). \<open>Event_Rings\<close> and \<open>Fifos\<close>: the
    drop-oldest rings and the bounded receive queues. Every device interprets those that its code promises.
    \<open>Board\<close>: \<open>board.cpp\<close>, the two-phase tick and what makes the order of the devices irrelevant.
  \<^item> \<^bold>\<open>CPU.\<close> \<open>Z80_Core\<close>: registers, flags and the micro requests. \<open>Z80_Micro\<close>: the step machine of every instruction page. \<open>Z80_Frames\<close>:
    what the step machine does not read. \<open>Z80\<close>: the per-cycle engine (\<open>z80_tick\<close>, M-cycle by T-state) and the batch engine
    (\<open>z80_batch_step\<close>). \<open>Z80_Batch\<close>: the two engines agree instruction by instruction, when a batch step returns, and HALT in
    closed form. \<open>Z80_Programs\<close>, \<open>Z80_Runs\<close>: what instructions and small programs compute.
  \<^item> \<^bold>\<open>Video.\<close> \<open>Crtc\<close>: the four 6845 types by character, the closed-form batch view and the interrupt horizon. \<open>Gate_Array\<close>: clock
    divider, pens, mode latch, the 52-line interrupt. \<open>Asic\<close>: the Plus lock, register page, sprites, raster interrupt and the sound
    DMA. \<open>Asic_Dma\<close>: that DMA over scanlines. \<open>Video_Path\<close>: addresses, pixel decode, frame renderers. \<open>Video\<close>: the live device with its beam, line snapshot and byte caches.
    \<open>Video_Batch\<close>: both execution shapes paint the same picture.
  \<^item> \<^bold>\<open>Memory and ports.\<close> \<open>Memory\<close>: banking, ROMs, cartridge and the page tables of the Fast tier. \<open>Ppi\<close>, \<open>Psg\<close>, \<open>Printer\<close>, \<open>Amdrum\<close>,
    \<open>Amx\<close>, \<open>Light_Gun\<close>, \<open>Smartwatch\<close>, \<open>Mf2\<close>, \<open>M4\<close>: one device each. \<open>Rs232\<close> with \<open>Rs232_Link\<close>: the serial card and two of them on
    a wire. \<open>Symbiface\<close> with \<open>Symbiface_Io\<close>: the IDE, clock and mouse board and what its driver sees.
  \<^item> \<^bold>\<open>Media.\<close> \<open>Flux\<close>: the SCP container, the PLL, the MFM track scanner. \<open>Mfm\<close> with \<open>Mfm_Roundtrip\<close>: the track synthesizer
    (\<open>src/src/mfm_encode.cpp\<close>), inverse to the scanner. \<open>Dsk\<close>: the DSK parser, with what it leaves of a rejected image. \<open>Fdc\<close>: the disc controller and its drives. \<open>Fdc_Transfer\<close>: sectors over the
    bus. \<open>Fdc_Phases\<close>: its phases are well formed and end. \<open>Tape\<close> with \<open>Tape_Play\<close>: the CDT walker and the wave it plays.
  \<^item> \<^bold>\<open>Composition.\<close> \<open>Machine\<close>: the devices of the Fast tier in one record, its catch-ups, I/O events, callbacks, frame loop, entry and
    exit (\<open>fs_*\<close>, \<open>fsb_*\<close> and \<open>run_frame_fast\<close> of \<open>machine.cpp\<close>). \<open>Machine_Chain\<close>, \<open>Machine_Render\<close>, \<open>Machine_Audio\<close>,
    \<open>Machine_Frame\<close>: what can be said of the composition, below.

  \<^bold>\<open>What the lemmas show.\<close>
  \<^item> \<^bold>\<open>Two shapes, one machine.\<close> The batch engine of the Z80 leaves the state of the per-cycle engine for any program, any callbacks and any
    interrupt levels at the boundaries (\<open>z80_batch_exact\<close>, \<open>z80_halt_exact\<close>); the CRTC's spans (\<open>crtc_view_per_char\<close>), the Gate Array's events
    and prediction (\<open>ga_tick_as_events\<close>, \<open>ga_predict_exact\<close>), the page tables (\<open>mem_fast_read_correct\<close>,
    \<open>mem_fast_write_correct\<close>), the sound skip (\<open>psg_skip_exact\<close>) and the batched renderer (\<open>video_batch_exact\<close>) do the same for
    their chips.
  \<^item> \<^bold>\<open>The schedule cannot be seen.\<close> Over these, the composition: the eager chain may be asked at any time and in any portions
    (\<open>fs_schedule_free\<close>), the interrupt poll may be skipped up to the horizon (\<open>fs_horizon_exact\<close>), a write to a page nobody fetched
    need not wait for the renderer (\<open>fs_write_filter_exact\<close>; \<open>write_filter_lags\<close> is the case in which it should), the closed-form sound
    catch-up emits the samples of the plain loop (\<open>fs_audio_exact\<close>), and the cursors of a frame stay consistent through any
    instruction (\<open>fs_frame_bounds\<close>).
  \<^item> \<^bold>\<open>Data goes through.\<close> Sectors over the uPD765 and over IDE, MFM tracks, bytes over the serial wire, frames to the M4's
    host, tape blocks, the clock's eight bytes, mouse movements: what goes in comes out.
  \<^item> \<^bold>\<open>Nothing gets stuck or out of bounds.\<close> The controller's phases end, a DMA burst returns the bus until the next line's trigger, the frame renderer and the batch step
    return (and exactly when the latter does not); memory, disc image, flux revolution and frame buffer accesses stay in their
    objects; the reachable states of each device satisfy its invariant.

  \<^bold>\<open>Recursion and bounds.\<close> The loops whose end is not structural have termination proofs on the quantity the code counts
    (\<open>au_bulk\<close>: steps left, then phase; \<open>fs_audio_run\<close>: steps left; \<open>run_to_finish\<close>: the six micro steps an instruction can take). The loop over index prefixes can run for ever and is a
    \<open>partial_function\<close>. The frame loop carries the guard of the code, \<open>kMasterPerFrame\<close> turns; \<open>fs_frame_bounds\<close> holds
    for any number of turns. \<open>kMaxFastChars\<close>, 40000 characters, is the frame-length guard of the code and bounds the pending buffer.

  \<^bold>\<open>What is not modelled, and why.\<close>
  \<^item> Of \<open>machine.cpp\<close>: construction and attachment of host buffers, the soldered and wake dispatch of the per-cycle tiers
    (the same ticks as \<open>board_tick\<close>, called by name), tape line feeding, the drive-sound overlay and the trace hook (null in the
    model), the choice of the tier. The per-device contracts the wake tier rests on are the interpretations of \<open>catch_up\<close>.
  \<^item> \<open>probe.cpp\<close> observes the bus and changes nothing; \<open>plotter_hp7470a.cpp\<close> interprets HP-GL text for the host in floating point;
    \<open>a2r.cpp\<close> rewrites a capture container before it reaches \<open>flux.cpp\<close>; of \<open>mfm_encode.cpp\<close> the adapter that walks a whole DSK image.
  \<^item> The emulator around the machine: windows, audio and network I/O, configuration, the remote-control server, the debugger and its user
    interface, readers and writers of other disc and tape formats, scalers and shaders, and vendored code. They call operating-system and
    third-party libraries and keep no state of the emulated machine.
\<close>

end
